(* ===== verification/Prelude.thy ===== *)
theory Prelude
  imports Complex_Main "HOL-Library.Word" "HOL-Library.Sublist"
begin

text \<open>
  Shared vocabulary of the development: machine integers and results under their Rust names,
  the part of Rust's string library the components call, and the lemma collections that the
  component proofs carry through \<^theory_text>\<open>simp add:\<close>.

  A Rust \<open>str\<close> is a sequence of UTF-8 bytes and is modelled as one: \<^typ>\<open>string\<close> is a list of
  8-bit characters, \<open>len()\<close> is \<^const>\<open>length\<close>, ASCII case conversion touches the bytes of
  \<open>A\<close>--\<open>Z\<close> only, and \<open>trim\<close> strips the UTF-8 encodings of all the code points with the
  Unicode property White\_Space.
\<close>

section \<open>Names for the model's types\<close>

type_synonym u8 = "8 word"
type_synonym u16 = "16 word"
type_synonym u32 = "32 word"
type_synonym u64 = "64 word"

text \<open>Rust's \<open>Result\<close>: the error on the left, the value on the right.\<close>

type_synonym ('a, 'e) result = "'e + 'a"

abbreviation Ok :: "'a \<Rightarrow> ('a, 'e) result" where
  "Ok \<equiv> Inr"

abbreviation Err :: "'e \<Rightarrow> ('a, 'e) result" where
  "Err \<equiv> Inl"

fun is_ok :: "('a, 'e) result \<Rightarrow> bool" where
  "is_ok (Inr _) = True"
| "is_ok (Inl _) = False"

lemma is_ok_iff: "is_ok r \<longleftrightarrow> (\<exists>v. r = Ok v)"
  by (cases r) auto

text \<open>The \<open>?\<close> operator: continue with the value or return the error.\<close>

fun and_then :: "('a, 'e) result \<Rightarrow> ('a \<Rightarrow> ('b, 'e) result) \<Rightarrow> ('b, 'e) result" where
  "and_then (Inr v) f = f v"
| "and_then (Inl e) f = Inl e"

lemma and_then_Ok [simp]:
  "and_then r f = Inr w \<longleftrightarrow> (\<exists>v. r = Inr v \<and> f v = Inr w)"
  by (cases r) auto

named_theorems str_defs \<open>definitions of the string library\<close>
named_theorems net_defs \<open>definitions of the address predicates\<close>
named_theorems row_defs \<open>definitions of the statements on the downloads table\<close>

section \<open>Splitting\<close>

text \<open>\<open>s.split(c)\<close>: always at least one piece, empty pieces kept.\<close>

fun split_on :: "char \<Rightarrow> string \<Rightarrow> string list" where
  "split_on c [] = [[]]"
| "split_on c (x # xs) =
     (if x = c then [] # split_on c xs
      else (case split_on c xs of [] \<Rightarrow> [[x]] | p # ps \<Rightarrow> (x # p) # ps))"

lemma split_on_neq_Nil [simp]: "split_on c s \<noteq> []"
  by (induction s) (auto split: list.splits)

lemma split_on_append:
  "split_on c (xs @ c # ys) = split_on c xs @ split_on c ys"
proof (induction xs)
  case (Cons x xs)
  then show ?case
    by (cases "split_on c xs") auto
qed simp

lemma split_on_absent: "c \<notin> set s \<Longrightarrow> split_on c s = [s]"
  by (induction s) auto

lemma split_on_pieces: "p \<in> set (split_on c s) \<Longrightarrow> c \<notin> set p"
proof (induction s arbitrary: p)
  case (Cons x xs)
  then show ?case
    by (cases "split_on c xs") (auto split: if_splits)
qed simp

lemma split_on_concat: "concat (split_on c s) = filter (\<lambda>x. x \<noteq> c) s"
proof (induction s)
  case (Cons x xs)
  then show ?case
    by (cases "split_on c xs") auto
qed simp

text \<open>\<open>s.split(c).next()\<close>: the piece before the first separator.\<close>

lemma hd_split_on: "hd (split_on c s) = takeWhile (\<lambda>x. x \<noteq> c) s"
proof (induction s)
  case (Cons x xs)
  then show ?case
    by (cases "split_on c xs") auto
qed simp

text \<open>\<open>s.split_once(c)\<close> for a single character.\<close>

fun split_once :: "char \<Rightarrow> string \<Rightarrow> (string \<times> string) option" where
  "split_once c [] = None"
| "split_once c (x # xs) =
     (if x = c then Some ([], xs)
      else map_option (\<lambda>(a, b). (x # a, b)) (split_once c xs))"

lemma split_once_Some:
  "split_once c s = Some (a, b) \<longleftrightarrow> s = a @ c # b \<and> c \<notin> set a"
proof (induction s arbitrary: a)
  case (Cons x xs)
  show ?case
  proof (cases a)
    case Nil
    then show ?thesis by auto
  next
    case (Cons y a')
    then show ?thesis using Cons.IH by auto
  qed
qed simp

lemma split_once_None: "split_once c s = None \<longleftrightarrow> c \<notin> set s"
  by (induction s) auto

section \<open>Prefixes, suffixes and searching\<close>

definition starts_with :: "string \<Rightarrow> string \<Rightarrow> bool" where
  [str_defs]: "starts_with s p \<longleftrightarrow> take (length p) s = p"

definition ends_with :: "string \<Rightarrow> string \<Rightarrow> bool" where
  [str_defs]: "ends_with s p \<longleftrightarrow> length p \<le> length s \<and> drop (length s - length p) s = p"

definition strip_prefix :: "string \<Rightarrow> string \<Rightarrow> string option" where
  [str_defs]: "strip_prefix p s = (if starts_with s p then Some (drop (length p) s) else None)"

definition strip_suffix :: "string \<Rightarrow> string \<Rightarrow> string option" where
  [str_defs]: "strip_suffix p s =
     (if ends_with s p then Some (take (length s - length p) s) else None)"

lemma starts_with_append [simp]: "starts_with (p @ s) p"
  by (simp add: starts_with_def)

lemma starts_with_iff: "starts_with s p \<longleftrightarrow> (\<exists>t. s = p @ t)"
  by (metis append_take_drop_id append_eq_conv_conj starts_with_def)

lemma ends_with_iff: "ends_with s p \<longleftrightarrow> (\<exists>t. s = t @ p)"
proof
  assume "ends_with s p"
  then have "s = take (length s - length p) s @ p"
    by (metis append_take_drop_id ends_with_def)
  then show "\<exists>t. s = t @ p" ..
qed (auto simp: ends_with_def)

lemma strip_prefix_Some: "strip_prefix p s = Some t \<longleftrightarrow> s = p @ t"
  by (auto simp: strip_prefix_def starts_with_iff)

lemma strip_suffix_Some: "strip_suffix p s = Some t \<longleftrightarrow> s = t @ p"
  by (auto simp: strip_suffix_def ends_with_iff)

fun str_contains :: "string \<Rightarrow> string \<Rightarrow> bool" where
  "str_contains [] p = (p = [])"
| "str_contains (x # xs) p = (starts_with (x # xs) p \<or> str_contains xs p)"

lemma str_contains_iff: "str_contains s p \<longleftrightarrow> (\<exists>a b. s = a @ p @ b)"
proof (induction s)
  case (Cons x xs)
  show ?case
  proof
    assume "str_contains (x # xs) p"
    then show "\<exists>a b. x # xs = a @ p @ b"
      using Cons by (metis append_Cons append_Nil starts_with_iff str_contains.simps(2))
  next
    assume "\<exists>a b. x # xs = a @ p @ b"
    then obtain a b where ab: "x # xs = a @ p @ b" by blast
    show "str_contains (x # xs) p"
    proof (cases a)
      case Nil
      with ab have "starts_with (x # xs) p" by (auto simp: starts_with_iff)
      then show ?thesis by simp
    next
      case (Cons y a')
      with ab have "xs = a' @ p @ b" by simp
      with Cons.IH show ?thesis by auto
    qed
  qed
qed auto

text \<open>\<open>s.split_once(p)\<close> for a string pattern.\<close>

fun split_once_str :: "string \<Rightarrow> string \<Rightarrow> (string \<times> string) option" where
  "split_once_str p [] = (if p = [] then Some ([], []) else None)"
| "split_once_str p (x # xs) =
     (if starts_with (x # xs) p then Some ([], drop (length p) (x # xs))
      else map_option (\<lambda>(a, b). (x # a, b)) (split_once_str p xs))"

lemma split_once_str_SomeD: "split_once_str p s = Some (a, b) \<Longrightarrow> s = a @ p @ b"
proof (induction s arbitrary: a)
  case (Cons x xs)
  then show ?case
    by (auto simp: starts_with_iff split: if_splits)
qed (auto split: if_splits)

lemma split_once_str_None: "split_once_str p s = None \<longleftrightarrow> \<not> str_contains s p"
  by (induction s) auto

text \<open>\<open>s.rfind(c)\<close>, as the two sides of the last occurrence.\<close>

definition rsplit_once :: "char \<Rightarrow> string \<Rightarrow> (string \<times> string) option" where
  [str_defs]: "rsplit_once c s = map_option (\<lambda>(a, b). (rev b, rev a)) (split_once c (rev s))"

lemma rsplit_once_Some:
  "rsplit_once c s = Some (a, b) \<longleftrightarrow> s = a @ c # b \<and> c \<notin> set b"
proof -
  have "rsplit_once c s = Some (a, b) \<longleftrightarrow> split_once c (rev s) = Some (rev b, rev a)"
    by (auto simp: rsplit_once_def)
  then show ?thesis
    by (auto simp: split_once_Some rev_swap)
qed

lemma rsplit_once_None: "rsplit_once c s = None \<longleftrightarrow> c \<notin> set s"
  by (simp add: rsplit_once_def split_once_None)

section \<open>ASCII classes and case\<close>

definition ascii :: "char \<Rightarrow> nat" where
  [str_defs]: "ascii c = of_char c"

definition is_ascii_digit :: "char \<Rightarrow> bool" where
  [str_defs]: "is_ascii_digit c \<longleftrightarrow> 48 \<le> ascii c \<and> ascii c \<le> 57"

definition lower_char :: "char \<Rightarrow> char" where
  [str_defs]: "lower_char c = (if 65 \<le> ascii c \<and> ascii c \<le> 90 then char_of (ascii c + 32) else c)"

definition to_ascii_lowercase :: "string \<Rightarrow> string" where
  [str_defs]: "to_ascii_lowercase s = map lower_char s"

definition eq_ignore_ascii_case :: "string \<Rightarrow> string \<Rightarrow> bool" where
  [str_defs]: "eq_ignore_ascii_case s t \<longleftrightarrow> to_ascii_lowercase s = to_ascii_lowercase t"

definition hex_value :: "char \<Rightarrow> nat option" where
  [str_defs]: "hex_value c =
     (if 48 \<le> ascii c \<and> ascii c \<le> 57 then Some (ascii c - 48)
      else if 65 \<le> ascii c \<and> ascii c \<le> 70 then Some (ascii c - 55)
      else if 97 \<le> ascii c \<and> ascii c \<le> 102 then Some (ascii c - 87)
      else None)"

definition is_ascii_hexdigit :: "char \<Rightarrow> bool" where
  [str_defs]: "is_ascii_hexdigit c \<longleftrightarrow> hex_value c \<noteq> None"

lemma ascii_char_of: "n < 256 \<Longrightarrow> ascii (char_of n) = n"
  by (simp add: ascii_def)

lemma lower_char_idem [simp]: "lower_char (lower_char c) = lower_char c"
  by (simp add: lower_char_def ascii_char_of)

lemma to_ascii_lowercase_idem [simp]:
  "to_ascii_lowercase (to_ascii_lowercase s) = to_ascii_lowercase s"
  by (simp add: to_ascii_lowercase_def)

lemma length_to_ascii_lowercase [simp]: "length (to_ascii_lowercase s) = length s"
  by (simp add: to_ascii_lowercase_def)

lemma to_ascii_lowercase_append [simp]:
  "to_ascii_lowercase (s @ t) = to_ascii_lowercase s @ to_ascii_lowercase t"
  by (simp add: to_ascii_lowercase_def)

lemma to_ascii_lowercase_Nil [simp]: "to_ascii_lowercase [] = []"
  by (simp add: to_ascii_lowercase_def)

lemma eq_ignore_ascii_case_refl [simp]: "eq_ignore_ascii_case s s"
  by (simp add: eq_ignore_ascii_case_def)

lemma eq_ignore_ascii_case_lower [simp]:
  "eq_ignore_ascii_case (to_ascii_lowercase s) t = eq_ignore_ascii_case s t"
  "eq_ignore_ascii_case s (to_ascii_lowercase t) = eq_ignore_ascii_case s t"
  by (simp_all add: eq_ignore_ascii_case_def)

section \<open>Trimming\<close>

text \<open>
  The UTF-8 encodings of the White\_Space code points: U+0009--U+000D, U+0020, U+0085, U+00A0,
  U+1680, U+2000--U+200A, U+2028, U+2029, U+202F, U+205F and U+3000. In valid UTF-8 the last
  bytes of one encoding are never the whole of another, so stripping encodings byte-wise from
  either end is what \<open>trim_start\<close> and \<open>trim_end\<close> do character-wise.
\<close>

definition bytes_str :: "nat list \<Rightarrow> string" where
  [str_defs]: "bytes_str ns = map char_of ns"

definition white_space :: "string list" where
  "white_space = map bytes_str
     ([[9], [10], [11], [12], [13], [32], [194, 133], [194, 160], [225, 154, 128]]
      @ map (\<lambda>n. [226, 128, n]) [128, 129, 130, 131, 132, 133, 134, 135, 136, 137, 138]
      @ [[226, 128, 168], [226, 128, 169], [226, 128, 175], [226, 129, 159], [227, 128, 128]])"

fun strip_any :: "string list \<Rightarrow> string \<Rightarrow> string option" where
  "strip_any [] s = None"
| "strip_any (p # ps) s = (case strip_prefix p s of Some t \<Rightarrow> Some t | None \<Rightarrow> strip_any ps s)"

lemma strip_any_length: "[] \<notin> set ps \<Longrightarrow> strip_any ps s = Some t \<Longrightarrow> length t < length s"
  by (induction ps) (auto simp: strip_prefix_Some split: option.splits)

text \<open>\<open>trim_start_by ps s\<close> strips the strings of \<open>ps\<close> from the front as long as one is there;
  fuel is the length of the string, which every strip shortens.\<close>

fun trim_fuel :: "nat \<Rightarrow> string list \<Rightarrow> string \<Rightarrow> string" where
  "trim_fuel 0 ps s = s"
| "trim_fuel (Suc n) ps s = (case strip_any ps s of Some t \<Rightarrow> trim_fuel n ps t | None \<Rightarrow> s)"

definition trim_start :: "string \<Rightarrow> string" where
  [str_defs]: "trim_start s = trim_fuel (length s) white_space s"

definition trim_end :: "string \<Rightarrow> string" where
  [str_defs]: "trim_end s = rev (trim_fuel (length s) (map rev white_space) (rev s))"

definition trim :: "string \<Rightarrow> string" where
  [str_defs]: "trim s = trim_end (trim_start s)"

lemma trim_fuel_suffix: "\<exists>t. s = t @ trim_fuel n ps s"
proof (induction n arbitrary: s)
  case (Suc n)
  show ?case
  proof (cases "strip_any ps s")
    case (Some t)
    have "\<exists>p. s = p @ t"
      using Some by (induction ps) (auto simp: strip_prefix_Some split: option.splits)
    then obtain p where "s = p @ t" ..
    moreover obtain q where "t = q @ trim_fuel n ps t" using Suc.IH by blast
    ultimately have "s = (p @ q) @ trim_fuel n ps t" by simp
    with Some show ?thesis by auto
  qed simp
qed simp

text \<open>Enough fuel: when the fuel is at least the length, no strippable prefix is left.\<close>

lemma trim_fuel_done:
  "[] \<notin> set ps \<Longrightarrow> length s \<le> n \<Longrightarrow> strip_any ps (trim_fuel n ps s) = None"
proof (induction n arbitrary: s)
  case 0
  then show ?case
    by (cases "strip_any ps s") (auto dest: strip_any_length)
next
  case (Suc n)
  then show ?case
    by (cases "strip_any ps s") (auto dest: strip_any_length)
qed

lemma trim_start_suffix: "\<exists>t. s = t @ trim_start s"
  by (simp add: trim_start_def trim_fuel_suffix)

lemma trim_end_prefix: "\<exists>t. s = trim_end s @ t"
proof -
  obtain t where "rev s = t @ trim_fuel (length s) (map rev white_space) (rev s)"
    using trim_fuel_suffix by blast
  then have "s = trim_end s @ rev t"
    by (metis rev_append rev_rev_ident trim_end_def)
  then show ?thesis ..
qed

lemma trim_infix: "\<exists>a b. s = a @ trim s @ b"
  by (metis trim_def trim_end_prefix trim_start_suffix)

lemma set_trim: "set (trim s) \<subseteq> set s"
  using trim_infix [of s] by (metis set_append Un_upper1 Un_upper2 subset_trans)

lemma length_trim: "length (trim s) \<le> length s"
  using trim_infix [of s] by (metis length_append le_add1 le_add2 le_trans)

text \<open>Strings of printable ASCII characters have nothing to trim.\<close>

definition printable :: "string \<Rightarrow> bool" where
  "printable s \<longleftrightarrow> (\<forall>c\<in>set s. 33 \<le> ascii c \<and> ascii c \<le> 126)"

lemma strip_any_None: "(\<And>p. p \<in> set ps \<Longrightarrow> \<not> starts_with s p) \<Longrightarrow> strip_any ps s = None"
  by (induction ps) (auto simp: strip_prefix_def)

lemma starts_with_first: "p \<noteq> [] \<Longrightarrow> starts_with s p \<Longrightarrow> s \<noteq> [] \<and> hd s = hd p"
  by (cases p) (auto simp: starts_with_iff)

lemma white_space_ends:
  "p \<in> set white_space \<Longrightarrow>
     p \<noteq> [] \<and> (ascii (hd p) < 33 \<or> 126 < ascii (hd p)) \<and> (ascii (last p) < 33 \<or> 126 < ascii (last p))"
  unfolding white_space_def bytes_str_def by (auto simp: ascii_def)

lemma printable_no_white_space:
  assumes "s \<noteq> [] \<Longrightarrow> printable [hd s]"
  shows "strip_any white_space s = None" and "strip_any (map rev white_space) s = None"
proof -
  have "\<not> starts_with s p" if "p \<noteq> []" "ascii (hd p) < 33 \<or> 126 < ascii (hd p)" for p
  proof
    assume "starts_with s p"
    with that(1) have "s \<noteq> []" "hd s = hd p" by (simp_all add: starts_with_first)
    with that(2) assms show False by (auto simp: printable_def)
  qed
  then show "strip_any white_space s = None" "strip_any (map rev white_space) s = None"
    using white_space_ends by (auto intro!: strip_any_None simp: hd_rev)
qed

lemma trim_fuel_None: "strip_any ps s = None \<Longrightarrow> trim_fuel n ps s = s"
  by (cases n) simp_all

lemma trim_printable_ends:
  assumes "printable [hd s]" and "printable [last s]"
  shows "trim s = s"
proof -
  have "strip_any white_space s = None" "strip_any (map rev white_space) (rev s) = None"
    using assms by (auto intro: printable_no_white_space simp: hd_rev)
  then show ?thesis by (simp add: trim_def trim_start_def trim_end_def trim_fuel_None)
qed

lemma trim_printable [simp]: "printable s \<Longrightarrow> trim s = s"
proof (cases "s = []")
  case True
  then show ?thesis by (simp add: trim_def trim_start_def trim_end_def)
next
  case False
  moreover assume "printable s"
  ultimately show ?thesis by (auto intro!: trim_printable_ends simp: printable_def)
qed

lemma trim_newline:
  assumes "s \<noteq> []" and "printable [hd s]" and "printable [last s]"
  shows "trim (s @ [CHR 0x0A]) = s"
proof -
  have "strip_any white_space (s @ [CHR 0x0A]) = None" "strip_any (map rev white_space) (rev s) = None"
    using assms by (auto intro!: printable_no_white_space simp: hd_rev)
  moreover have "strip_any (map rev white_space) (CHR 0x0A # r) = Some r" for r
    by (simp add: white_space_def bytes_str_def strip_prefix_def starts_with_def char_of_def bit_0)
  ultimately show ?thesis by (simp add: trim_def trim_start_def trim_end_def trim_fuel_None)
qed

section \<open>Numbers\<close>

fun digits_value :: "nat \<Rightarrow> string \<Rightarrow> nat option" where
  "digits_value acc [] = Some acc"
| "digits_value acc (c # cs) =
     (if is_ascii_digit c then digits_value (10 * acc + (ascii c - 48)) cs else None)"

text \<open>\<open>s.parse::<uN>()\<close>: an optional \<open>+\<close>, at least one digit, and no overflow.\<close>

definition parse_unsigned :: "nat \<Rightarrow> string \<Rightarrow> nat option" where
  [str_defs]: "parse_unsigned bits s =
     (let ds = (case s of [] \<Rightarrow> [] | c # cs \<Rightarrow> if c = CHR ''+'' then cs else s) in
      if ds = [] then None
      else (case digits_value 0 ds of
              Some n \<Rightarrow> if n < 2 ^ bits then Some n else None
            | None \<Rightarrow> None))"

text \<open>\<open>n.to_string()\<close> for an unsigned integer.\<close>

fun decimal_digits :: "nat \<Rightarrow> string" where
  "decimal_digits n =
     (if n < 10 then [char_of (48 + n)] else decimal_digits (n div 10) @ [char_of (48 + n mod 10)])"

declare decimal_digits.simps [simp del]

lemma parse_unsigned_bound: "parse_unsigned bits s = Some n \<Longrightarrow> n < 2 ^ bits"
  by (auto simp: parse_unsigned_def Let_def split: if_splits option.splits)

lemma digits_value_mono: "digits_value acc cs = Some n \<Longrightarrow> acc \<le> n"
proof (induction cs arbitrary: acc)
  case (Cons c cs)
  then show ?case by (fastforce split: if_splits)
qed simp

lemma digits_value_snoc:
  "digits_value acc (cs @ [c]) =
     Option.bind (digits_value acc cs) (\<lambda>v. if is_ascii_digit c then Some (10 * v + (ascii c - 48)) else None)"
  by (induction cs arbitrary: acc) auto

lemma decimal_digit: "n < 10 \<Longrightarrow> is_ascii_digit (char_of (48 + n))" "n < 10 \<Longrightarrow> ascii (char_of (48 + n)) = 48 + n"
  by (simp_all add: is_ascii_digit_def ascii_char_of)

lemma decimal_digits_props: "list_all is_ascii_digit (decimal_digits n) \<and> decimal_digits n \<noteq> []"
proof (induction n rule: decimal_digits.induct)
  case (1 n)
  then show ?case by (simp add: decimal_digits.simps [of n] decimal_digit)
qed

lemma digits_value_decimal [simp]: "digits_value 0 (decimal_digits n) = Some n"
proof (induction n rule: decimal_digits.induct)
  case (1 n)
  show ?case
  proof (cases "n < 10")
    case True
    then show ?thesis by (simp add: decimal_digits.simps [of n] decimal_digit)
  next
    case False
    with 1 have "digits_value 0 (decimal_digits (n div 10)) = Some (n div 10)" by blast
    moreover have "10 * (n div 10) + n mod 10 = n" by simp
    ultimately show ?thesis using False
      by (simp add: decimal_digits.simps [of n] digits_value_snoc decimal_digit)
  qed
qed

lemma parse_decimal:
  assumes "n < 2 ^ bits"
  shows "parse_unsigned bits (decimal_digits n) = Some n"
proof -
  obtain c cs where cs: "decimal_digits n = c # cs"
    using decimal_digits_props [of n] by (cases "decimal_digits n") auto
  have "c \<noteq> CHR ''+''" using decimal_digits_props [of n] by (auto simp: cs is_ascii_digit_def ascii_def)
  moreover have "digits_value 0 (c # cs) = Some n" using digits_value_decimal [of n] by (simp only: cs)
  ultimately show ?thesis using assms by (simp add: parse_unsigned_def cs del: digits_value.simps)
qed

lemma digits_trim: "trim (decimal_digits n) = decimal_digits n"
  using decimal_digits_props [of n] by (intro trim_printable) (auto simp: printable_def list_all_iff is_ascii_digit_def)

section \<open>Panics\<close>

text \<open>What a call gives that may panic instead of returning.\<close>

datatype 'a run = Done 'a | Panicked

text \<open>Continuation bytes of UTF-8: slicing a string in front of one panics.\<close>

definition is_continuation :: "char \<Rightarrow> bool" where
  "is_continuation c \<longleftrightarrow> 128 \<le> ascii c \<and> ascii c < 192"

section \<open>Words as Rust's integers\<close>

definition saturating_sub :: "'a::len word \<Rightarrow> 'a word \<Rightarrow> 'a word" where
  "saturating_sub a b = (if a < b then 0 else a - b)"

definition checked_mul :: "'a::len word \<Rightarrow> 'a word \<Rightarrow> 'a word option" where
  "checked_mul a b = (if unat a * unat b < 2 ^ LENGTH('a) then Some (a * b) else None)"

definition clamp_word :: "'a::len word \<Rightarrow> 'a word \<Rightarrow> 'a word \<Rightarrow> 'a word" where
  "clamp_word x lo hi = (if x < lo then lo else if hi < x then hi else x)"

lemma unat_u64: "unat (x :: u64) < 2 ^ 64"
  using unsigned_less [of x, where ?'a = nat] by simp

lemma unat_saturating_sub: "unat (saturating_sub a b) = unat a - unat b"
  by (auto simp: saturating_sub_def word_less_nat_alt unat_sub_if')

lemma unat_mult_small: "unat a * unat b < 2 ^ LENGTH('a) \<Longrightarrow> unat (a * b) = unat a * unat (b :: 'a::len word)"
  by (simp add: unat_word_ariths)

section \<open>Invariants of step relations\<close>

text \<open>What several tasks or processes do is a step relation; an invariant that every step keeps holds on every path.\<close>

locale kept_invariant =
  fixes step :: "'s \<Rightarrow> 's \<Rightarrow> bool" and inv :: "'s \<Rightarrow> bool"
  assumes step_keeps: "step s t \<Longrightarrow> inv s \<Longrightarrow> inv t"
begin

lemma path_keeps: "step\<^sup>*\<^sup>* s t \<Longrightarrow> inv s \<Longrightarrow> inv t"
  by (induction rule: rtranclp_induct) (auto intro: step_keeps)

end

section \<open>Lists\<close>

lemma takeWhile_takeWhile: "takeWhile P (takeWhile Q xs) = takeWhile (\<lambda>x. Q x \<and> P x) xs"
  by (induction xs) auto

lemma takeWhile_map_pred: "(\<And>x. P (h x) = P x) \<Longrightarrow> takeWhile P (map h xs) = map h (takeWhile P xs)"
  by (induction xs) auto

lemma find_Some_split:
  "find P xs = Some x \<longleftrightarrow> (\<exists>ys zs. xs = ys @ x # zs \<and> P x \<and> (\<forall>y\<in>set ys. \<not> P y))"
proof (induction xs)
  case (Cons a xs)
  show ?case
  proof (cases "P a")
    case True
    then show ?thesis by (auto simp: Cons_eq_append_conv)
  next
    case False
    have "(\<exists>ys zs. a # xs = ys @ x # zs \<and> P x \<and> (\<forall>y\<in>set ys. \<not> P y)) \<longleftrightarrow>
          (\<exists>ys zs. xs = ys @ x # zs \<and> P x \<and> (\<forall>y\<in>set ys. \<not> P y))"
      (is "?L \<longleftrightarrow> ?R")
    proof
      assume ?L
      with False show ?R by (auto simp: Cons_eq_append_conv)
    next
      assume ?R
      then obtain ys zs where "a # xs = (a # ys) @ x # zs" "P x" "\<forall>y\<in>set ys. \<not> P y" by auto
      with False show ?L by (metis set_ConsD)
    qed
    with False Cons show ?thesis by simp
  qed
qed simp

lemma find_None_all: "find P xs = None \<longleftrightarrow> (\<forall>x\<in>set xs. \<not> P x)"
  by (induction xs) auto

end
