(* ===== verification/RateLimit.thy ===== *)
theory RateLimit
  imports Prelude
begin

text \<open>
  The service-wide token bucket of \<open>src/access/ratelimit.rs\<close>: the bucket and the limiter as
  records of \<open>u64\<close> fields, \<open>try_acquire\<close> with the clock reading as an argument (the code calls
  \<open>now_ns()\<close> under the bucket lock), and the settings-driven handle that rebuilds the limiter.
  The \<open>u128\<close> intermediate values are computed in \<^typ>\<open>nat\<close> with the saturation, the wrap-around
  and the casts back to \<open>u64\<close> written out; the invariant shows that none of them is ever hit.

  The contract of a token bucket is the locale \<open>token_bucket\<close>: whatever the sequence of calls,
  admissions are paid for by the initial level and by elapsed time. It is interpreted on
  \<open>try_acquire\<close>.
\<close>

section \<open>Definitions\<close>

record bucket =
  bk_tokens :: u64
  bk_last_refill :: u64

record rate_limiter =
  rl_inner :: bucket
  rl_capacity :: u64
  rl_refill_per_sec :: u64

definition SCALE :: nat where "SCALE = 1000000"
definition NS_PER_SEC :: nat where "NS_PER_SEC = 1000000000"
definition RPS_CEILING :: u64 where "RPS_CEILING = 1000000"
definition BURST_CEILING :: u64 where "BURST_CEILING = 1000000"

definition scaled_limits :: "u64 \<Rightarrow> u64 \<Rightarrow> u64 \<times> u64" where
  "scaled_limits rps burst =
     (let rps = clamp_word rps 1 RPS_CEILING;
          burst = clamp_word burst 1 BURST_CEILING;
          capacity = (case checked_mul burst (of_nat SCALE) of
                        Some c \<Rightarrow> c | None \<Rightarrow> BURST_CEILING * of_nat SCALE);
          refill_per_sec = (case checked_mul rps (of_nat SCALE) of
                        Some r \<Rightarrow> r | None \<Rightarrow> RPS_CEILING * of_nat SCALE)
      in (capacity, refill_per_sec))"

definition new_limiter :: "u64 \<Rightarrow> u64 \<Rightarrow> u64 \<Rightarrow> rate_limiter" where
  "new_limiter rps burst now =
     (let (capacity, refill_per_sec) = scaled_limits rps burst
      in \<lparr>rl_inner = \<lparr>bk_tokens = capacity, bk_last_refill = now\<rparr>,
          rl_capacity = capacity, rl_refill_per_sec = refill_per_sec\<rparr>)"

definition resized :: "rate_limiter \<Rightarrow> u64 \<Rightarrow> u64 \<Rightarrow> rate_limiter" where
  "resized old rps burst =
     (let (capacity, refill_per_sec) = scaled_limits rps burst;
          b = rl_inner old
      in \<lparr>rl_inner = \<lparr>bk_tokens = min (bk_tokens b) capacity,
                      bk_last_refill = bk_last_refill b\<rparr>,
          rl_capacity = capacity, rl_refill_per_sec = refill_per_sec\<rparr>)"

definition NEED :: u64 where "NEED = of_nat SCALE"

text \<open>The credit of the elapsed window, in scaled tokens (\<open>u128\<close> arithmetic).\<close>

definition refill_credit :: "rate_limiter \<Rightarrow> u64 \<Rightarrow> nat" where
  "refill_credit rl now =
     (let elapsed_ns = unat (saturating_sub now (bk_last_refill (rl_inner rl)))
      in min (elapsed_ns * unat (rl_refill_per_sec rl)) (2 ^ 128 - 1) div NS_PER_SEC)"

definition refilled_tokens :: "rate_limiter \<Rightarrow> u64 \<Rightarrow> u64" where
  "refilled_tokens rl now =
     of_nat (min ((unat (bk_tokens (rl_inner rl)) + refill_credit rl now) mod 2 ^ 128)
                 (unat (rl_capacity rl)))"

definition try_acquire :: "rate_limiter \<Rightarrow> u64 \<Rightarrow> (unit, u64) result \<times> rate_limiter" where
  "try_acquire rl now =
     (let tokens = refilled_tokens rl now;
          b = \<lparr>bk_tokens = tokens, bk_last_refill = now\<rparr>
      in if tokens < NEED then
           (let deficit = unat (NEED - tokens);
                wait_ns = deficit * NS_PER_SEC div unat (rl_refill_per_sec rl)
            in (Err (of_nat (min (wait_ns div 1000 + 1) 60000)), rl\<lparr>rl_inner := b\<rparr>))
         else (Ok (), rl\<lparr>rl_inner := b\<lparr>bk_tokens := tokens - NEED\<rparr>\<rparr>))"

text \<open>The settings-driven handle. \<open>gen\<close>, \<open>rps\<close> and \<open>burst\<close> are what the settings cache answers
  at the call (\<open>None\<close>: the typed read failed).\<close>

record limiter_slot =
  ls_gen :: u64
  ls_rps :: u64
  ls_burst :: u64
  ls_limiter :: rate_limiter

definition limiter ::
  "limiter_slot option \<Rightarrow> u64 \<Rightarrow> u64 option \<Rightarrow> u64 option \<Rightarrow> u64 \<Rightarrow> rate_limiter \<times> limiter_slot option" where
  "limiter guard cur_gen rps_setting burst_setting now =
     (case guard of
        Some slot \<Rightarrow>
          if ls_gen slot = cur_gen then (ls_limiter slot, guard)
          else
            (let rps = (case rps_setting of Some r \<Rightarrow> r | None \<Rightarrow> 100);
                 burst = (case burst_setting of Some b \<Rightarrow> b | None \<Rightarrow> 200);
                 l = (if ls_rps slot = rps \<and> ls_burst slot = burst then ls_limiter slot
                      else resized (ls_limiter slot) rps burst)
             in (l, Some \<lparr>ls_gen = cur_gen, ls_rps = rps, ls_burst = burst, ls_limiter = l\<rparr>))
      | None \<Rightarrow>
          (let rps = (case rps_setting of Some r \<Rightarrow> r | None \<Rightarrow> 100);
               burst = (case burst_setting of Some b \<Rightarrow> b | None \<Rightarrow> 200);
               l = new_limiter rps burst now
           in (l, Some \<lparr>ls_gen = cur_gen, ls_rps = rps, ls_burst = burst, ls_limiter = l\<rparr>)))"

definition ms_to_retry_after_secs :: "u64 \<Rightarrow> u64" where
  "ms_to_retry_after_secs ms =
     (let q = ms div 1000; q' = (if ms mod 1000 = 0 then q else q + 1) in max q' 1)"

section \<open>The invariant\<close>

text \<open>Every limiter the code builds has at least one token of capacity, at least one request per
  second of refill, and a balance within its capacity.\<close>

definition limiter_inv :: "rate_limiter \<Rightarrow> bool" where
  "limiter_inv rl \<longleftrightarrow>
     SCALE \<le> unat (rl_capacity rl) \<and> unat (rl_capacity rl) \<le> SCALE * SCALE \<and>
     SCALE \<le> unat (rl_refill_per_sec rl) \<and> unat (rl_refill_per_sec rl) \<le> SCALE * SCALE \<and>
     unat (bk_tokens (rl_inner rl)) \<le> unat (rl_capacity rl)"

lemma unat_clamp_word:
  "lo \<le> hi \<Longrightarrow> unat lo \<le> unat (clamp_word x lo hi) \<and> unat (clamp_word x lo hi) \<le> unat hi"
  by (auto simp: clamp_word_def word_less_nat_alt word_le_nat_alt)

lemma checked_mul_scale:
  assumes "unat (x :: u64) \<le> SCALE"
  shows "checked_mul x (of_nat SCALE) = Some (x * of_nat SCALE)"
    and "unat (x * of_nat SCALE) = unat x * SCALE"
proof -
  have S: "unat (of_nat SCALE :: u64) = SCALE"
    by (simp add: SCALE_def)
  have "unat x * SCALE \<le> SCALE * SCALE"
    using assms by simp
  then have "unat x * SCALE < 2 ^ 64"
    by (simp add: SCALE_def)
  then show "checked_mul x (of_nat SCALE) = Some (x * of_nat SCALE)"
    and "unat (x * of_nat SCALE) = unat x * SCALE"
    using S unat_mult_small [of x "of_nat SCALE"] by (simp_all add: checked_mul_def)
qed

lemma scaled_limits_bounds:
  assumes "scaled_limits rps burst = (c, r)"
  shows "SCALE \<le> unat c \<and> unat c \<le> SCALE * SCALE \<and> SCALE \<le> unat r \<and> unat r \<le> SCALE * SCALE"
proof -
  have bounds: "1 \<le> unat (clamp_word x 1 1000000) \<and> unat (clamp_word x 1 1000000) \<le> SCALE" for x :: u64
    using unat_clamp_word [of "1 :: u64" 1000000 x] by (simp add: SCALE_def)
  note cm = checked_mul_scale [OF conjunct2 [OF bounds]]
  from assms have c: "unat c = unat (clamp_word burst 1 1000000) * SCALE"
    and r: "unat r = unat (clamp_word rps 1 1000000) * SCALE"
    by (auto simp: scaled_limits_def BURST_CEILING_def RPS_CEILING_def Let_def cm)
  show ?thesis
    unfolding c r using bounds [of burst] bounds [of rps] by (simp add: SCALE_def)
qed

lemma new_limiter_inv: "limiter_inv (new_limiter rps burst now)"
  using scaled_limits_bounds [of rps burst]
  by (auto simp: new_limiter_def limiter_inv_def split: prod.splits)

lemma resized_inv: "limiter_inv (resized old rps burst)"
  using scaled_limits_bounds [of rps burst]
  by (auto simp: resized_def limiter_inv_def Let_def min_def word_le_nat_alt split: prod.splits)

lemma resized_no_free_burst:
  "bk_tokens (rl_inner (resized old rps burst)) \<le> bk_tokens (rl_inner old)"
  by (auto simp: resized_def Let_def split: prod.splits)

subsection \<open>One acquisition\<close>

text \<open>The \<open>u128\<close> credit never saturates: a \<open>u64\<close> times a \<open>u64\<close> fits.\<close>

lemma refill_credit_exact:
  "refill_credit rl now =
     (unat now - unat (bk_last_refill (rl_inner rl))) * unat (rl_refill_per_sec rl) div NS_PER_SEC"
proof -
  have "unat x * unat y \<le> (2 ^ 64 - 1) * (2 ^ 64 - 1)" for x y :: u64
    using unat_u64 [of x] unat_u64 [of y] by (intro mult_le_mono) simp_all
  then have "unat x * unat y \<le> 2 ^ 128 - 1" for x y :: u64
    by (rule order_trans) simp
  then show ?thesis
    by (metis (no_types, lifting) min.absorb1 refill_credit_def unat_saturating_sub)
qed

lemma unat_refilled_tokens:
  "unat (refilled_tokens rl now) =
     min (unat (bk_tokens (rl_inner rl)) + refill_credit rl now) (unat (rl_capacity rl))"
proof -
  have "refill_credit rl now \<le> (2 ^ 128 - 1) div NS_PER_SEC"
    unfolding refill_credit_def Let_def by (intro div_le_mono min.cobounded2)
  then have rc: "refill_credit rl now \<le> 2 ^ 127"
    by (simp add: NS_PER_SEC_def)
  have "unat (bk_tokens (rl_inner rl)) < 2 ^ 64"
    by (rule unat_u64)
  with rc have "unat (bk_tokens (rl_inner rl)) + refill_credit rl now < 2 ^ 128"
    by simp
  moreover have "min x (unat (rl_capacity rl)) < 2 ^ 64" for x
    using unat_u64 [of "rl_capacity rl"] by (simp add: min.strict_coboundedI2)
  ultimately show ?thesis
    by (simp add: refilled_tokens_def unat_of_nat)
qed

lemma unat_NEED: "unat NEED = SCALE"
  by (simp add: NEED_def SCALE_def)

lemmas limiter_words = unat_refilled_tokens unat_NEED word_less_nat_alt

text \<open>What one call does to the balance, and that it writes the balance and the timestamp only.\<close>

lemma try_acquire_effect:
  assumes "try_acquire rl now = (res, rl')"
  shows "unat (bk_tokens (rl_inner rl')) + (if is_ok res then SCALE else 0)
           = unat (refilled_tokens rl now)"
    and "bk_last_refill (rl_inner rl') = now"
    and "rl_capacity rl' = rl_capacity rl" and "rl_refill_per_sec rl' = rl_refill_per_sec rl"
    and "is_ok res \<longleftrightarrow> SCALE \<le> unat (refilled_tokens rl now)"
proof -
  have sub: "unat (x - NEED) + SCALE = unat x" if "\<not> x < NEED" for x
    using that by (simp add: unat_sub word_le_nat_alt word_less_nat_alt unat_NEED not_less)
  show "unat (bk_tokens (rl_inner rl')) + (if is_ok res then SCALE else 0)
           = unat (refilled_tokens rl now)"
    using assms by (auto simp: try_acquire_def Let_def sub split: if_splits)
  show "bk_last_refill (rl_inner rl') = now" "rl_capacity rl' = rl_capacity rl"
    "rl_refill_per_sec rl' = rl_refill_per_sec rl"
    using assms by (auto simp: try_acquire_def Let_def split: if_splits)
  show "is_ok res \<longleftrightarrow> SCALE \<le> unat (refilled_tokens rl now)"
    using assms
    by (auto simp: try_acquire_def Let_def not_less word_less_nat_alt unat_NEED split: if_splits)
qed

lemma try_acquire_inv:
  assumes "limiter_inv rl" and "try_acquire rl now = (res, rl')"
  shows "limiter_inv rl'"
proof -
  have "unat (bk_tokens (rl_inner rl')) \<le> unat (refilled_tokens rl now)"
    using try_acquire_effect(1) [OF assms(2)] by simp
  also have "\<dots> \<le> unat (rl_capacity rl)"
    by (simp add: unat_refilled_tokens)
  finally show ?thesis
    using assms(1) try_acquire_effect(3,4) [OF assms(2)] by (simp add: limiter_inv_def)
qed

text \<open>The energy balance of one call, in units that avoid the rounding of the division.\<close>

lemma try_acquire_credit:
  assumes "try_acquire rl now = (res, rl')"
  shows "NS_PER_SEC * (unat (bk_tokens (rl_inner rl')) + (if is_ok res then SCALE else 0))
    \<le> NS_PER_SEC * unat (bk_tokens (rl_inner rl))
       + (unat now - unat (bk_last_refill (rl_inner rl))) * unat (rl_refill_per_sec rl)"
proof -
  have "NS_PER_SEC * refill_credit rl now
      \<le> (unat now - unat (bk_last_refill (rl_inner rl))) * unat (rl_refill_per_sec rl)"
    by (simp add: refill_credit_exact)
  moreover have "unat (refilled_tokens rl now) \<le> unat (bk_tokens (rl_inner rl)) + refill_credit rl now"
    by (simp add: unat_refilled_tokens)
  then have "NS_PER_SEC * unat (refilled_tokens rl now)
      \<le> NS_PER_SEC * unat (bk_tokens (rl_inner rl)) + NS_PER_SEC * refill_credit rl now"
    by (metis distrib_left mult_le_mono2)
  ultimately show ?thesis
    using try_acquire_effect(1) [OF assms] by simp
qed

section \<open>The token bucket contract\<close>

text \<open>Run an acquire operation at each instant of a list; the answers and the last state.\<close>

primrec run_acquires ::
  "('s \<Rightarrow> 't \<Rightarrow> ('a, 'e) result \<times> 's) \<Rightarrow> 's \<Rightarrow> 't list \<Rightarrow> bool list \<times> 's" where
  "run_acquires acq s [] = ([], s)"
| "run_acquires acq s (t # ts) =
     (let (r, s') = acq s t; (rs, s'') = run_acquires acq s' ts in (is_ok r # rs, s''))"

definition admitted :: "bool list \<Rightarrow> nat" where
  "admitted rs = length (filter id rs)"

locale token_bucket =
  fixes acq :: "'s \<Rightarrow> 't \<Rightarrow> ('a, 'e) result \<times> 's"
    and level :: "'s \<Rightarrow> nat" and rate :: "'s \<Rightarrow> nat" and stamp :: "'s \<Rightarrow> nat"
    and clock :: "'t \<Rightarrow> nat" and need :: nat and ns :: nat and invar :: "'s \<Rightarrow> bool"
  assumes invar_acq: "invar s \<Longrightarrow> acq s t = (r, s') \<Longrightarrow> invar s'"
    and stamp_acq: "acq s t = (r, s') \<Longrightarrow> stamp s' = clock t"
    and rate_acq: "acq s t = (r, s') \<Longrightarrow> rate s' = rate s"
    and credit_acq: "acq s t = (r, s') \<Longrightarrow>
      ns * (level s' + (if is_ok r then need else 0)) \<le> ns * level s + (clock t - stamp s) * rate s"
begin

lemma invar_run: "invar s \<Longrightarrow> run_acquires acq s ts = (rs, s') \<Longrightarrow> invar s'"
  by (induction ts arbitrary: s rs) (auto simp: Let_def dest: invar_acq split: prod.splits)

lemma rate_run: "run_acquires acq s ts = (rs, s') \<Longrightarrow> rate s' = rate s"
  by (induction ts arbitrary: s rs) (auto simp: Let_def dest: rate_acq split: prod.splits)

lemma length_run: "run_acquires acq s ts = (rs, s') \<Longrightarrow> length rs = length ts"
  by (induction ts arbitrary: s rs) (auto simp: Let_def split: prod.splits)

text \<open>With a clock that does not run backwards, admissions are paid for by the initial level and
  the elapsed time.\<close>

lemma admissions_paid:
  assumes "run_acquires acq s ts = (rs, s')"
    and "sorted (map clock ts)" and "\<forall>t\<in>set ts. stamp s \<le> clock t \<and> clock t \<le> T"
    and "stamp s \<le> T"
  shows "ns * (level s' + need * admitted rs) \<le> ns * level s + (T - stamp s) * rate s"
  using assms
proof (induction ts arbitrary: s rs)
  case Nil
  then show ?case by (simp add: admitted_def)
next
  case (Cons t ts)
  obtain r s1 where one: "acq s t = (r, s1)" by fastforce
  obtain rs2 s2 where rest: "run_acquires acq s1 ts = (rs2, s2)" by fastforce
  from Cons.prems(1) one rest have rs: "rs = is_ok r # rs2" and s': "s2 = s'" by auto
  have st: "stamp s1 = clock t" and rt: "rate s1 = rate s"
    using stamp_acq rate_acq one by auto
  have le: "stamp s \<le> clock t" "clock t \<le> T" using Cons.prems(3) by auto
  have "sorted (map clock ts)" "\<forall>u\<in>set ts. stamp s1 \<le> clock u \<and> clock u \<le> T" "stamp s1 \<le> T"
    using Cons.prems(2,3) st le by auto
  then have tail: "ns * (level s2 + need * admitted rs2) \<le> ns * level s1 + (T - clock t) * rate s"
    using Cons.IH [OF rest [unfolded s']] st rt s' by simp
  have head: "ns * (level s1 + (if is_ok r then need else 0))
      \<le> ns * level s + (clock t - stamp s) * rate s"
    using credit_acq one by blast
  have time: "(clock t - stamp s) * rate s + (T - clock t) * rate s = (T - stamp s) * rate s"
    using le by (simp add: add_mult_distrib [symmetric])
  have "ns * (level s2 + need * admitted rs) =
      ns * (level s2 + need * admitted rs2) + ns * (if is_ok r then need else 0)"
    by (simp add: rs admitted_def algebra_simps)
  also have "\<dots> \<le> ns * level s1 + (T - clock t) * rate s + ns * (if is_ok r then need else 0)"
    using tail by simp
  also have "\<dots> \<le> ns * level s + (clock t - stamp s) * rate s + (T - clock t) * rate s"
    using head by (simp add: algebra_simps split: if_splits)
  finally show ?case using time s' by simp
qed

end

interpretation rl: token_bucket try_acquire
  "\<lambda>l. unat (bk_tokens (rl_inner l))" "\<lambda>l. unat (rl_refill_per_sec l)"
  "\<lambda>l. unat (bk_last_refill (rl_inner l))" unat SCALE NS_PER_SEC limiter_inv
  by unfold_locales (auto dest: try_acquire_inv try_acquire_effect(2,4) try_acquire_credit)

section \<open>Properties\<close>

lemmas limiter_eval = run_acquires.simps try_acquire_def refilled_tokens_def refill_credit_exact
  new_limiter_def scaled_limits_def limiter_def resized_def clamp_word_def checked_mul_def
  saturating_sub_def RPS_CEILING_def BURST_CEILING_def NEED_def SCALE_def NS_PER_SEC_def Let_def

definition wait_needed :: "rate_limiter \<Rightarrow> nat" where
  "wait_needed rl =
     (SCALE - unat (bk_tokens (rl_inner rl))) * NS_PER_SEC div unat (rl_refill_per_sec rl)"

lemma unat_of_small: "unat (of_nat (min x 60000) :: u64) = min x 60000"
  by (simp add: unat_of_nat min.strict_coboundedI2)

lemma try_acquire_Err:
  assumes "try_acquire rl now = (Err ms, rl')"
  shows "unat ms = min (wait_needed rl' div 1000 + 1) 60000"
    and "unat (bk_tokens (rl_inner rl')) < SCALE"
proof -
  have lt: "refilled_tokens rl now < NEED"
    and rl': "rl' = rl\<lparr>rl_inner := \<lparr>bk_tokens = refilled_tokens rl now, bk_last_refill = now\<rparr>\<rparr>"
    using assms by (auto simp: try_acquire_def Let_def split: if_splits)
  from lt have "unat (NEED - refilled_tokens rl now) = SCALE - unat (refilled_tokens rl now)"
    by (simp add: unat_sub unat_NEED word_le_nat_alt word_less_nat_alt)
  then have w: "unat (NEED - refilled_tokens rl now) * NS_PER_SEC div unat (rl_refill_per_sec rl)
      = wait_needed rl'"
    using rl' by (simp add: wait_needed_def)
  have "ms = of_nat (min (unat (NEED - refilled_tokens rl now) * NS_PER_SEC
      div unat (rl_refill_per_sec rl) div 1000 + 1) 60000)"
    using assms lt by (auto simp: try_acquire_def Let_def)
  then show "unat ms = min (wait_needed rl' div 1000 + 1) 60000"
    unfolding w by (simp only: unat_of_small)
  from lt rl' show "unat (bk_tokens (rl_inner rl')) < SCALE"
    by (simp add: word_less_nat_alt unat_NEED)
qed

lemma wait_needed_le_second: "limiter_inv rl \<Longrightarrow> wait_needed rl \<le> NS_PER_SEC"
proof -
  assume inv: "limiter_inv rl"
  have "(SCALE - unat (bk_tokens (rl_inner rl))) * NS_PER_SEC \<le> unat (rl_refill_per_sec rl) * NS_PER_SEC"
    using inv by (intro mult_le_mono1) (auto simp: limiter_inv_def)
  then have "wait_needed rl \<le> unat (rl_refill_per_sec rl) * NS_PER_SEC div unat (rl_refill_per_sec rl)"
    unfolding wait_needed_def by (rule div_le_mono)
  then show ?thesis
    using inv by (simp add: limiter_inv_def SCALE_def)
qed

lemma acquire_after_wait:
  assumes inv: "limiter_inv rl"
    and later: "unat (bk_last_refill (rl_inner rl)) + wait_needed rl < unat later"
  shows "is_ok (fst (try_acquire rl later))"
proof -
  let ?r = "unat (rl_refill_per_sec rl)" and ?t = "unat (bk_tokens (rl_inner rl))"
  let ?e = "unat later - unat (bk_last_refill (rl_inner rl))"
  have r0: "0 < ?r" using inv by (simp add: limiter_inv_def SCALE_def)
  have "(SCALE - ?t) * NS_PER_SEC < (wait_needed rl + 1) * ?r"
    unfolding wait_needed_def using r0 by (simp add: dividend_less_div_times)
  also have "\<dots> \<le> ?e * ?r"
    using later by (intro mult_le_mono1) simp
  finally have "SCALE - ?t \<le> ?e * ?r div NS_PER_SEC"
    using less_eq_div_iff_mult_less_eq [of NS_PER_SEC "SCALE - ?t" "?e * ?r"]
    by (simp add: NS_PER_SEC_def)
  then have "SCALE \<le> ?t + refill_credit rl later"
    unfolding refill_credit_exact by simp
  then have "SCALE \<le> unat (refilled_tokens rl later)"
    using inv by (simp add: unat_refilled_tokens limiter_inv_def)
  then show ?thesis
    using try_acquire_effect(5) [of rl later] by (cases "try_acquire rl later") auto
qed

text \<open>
  C1. Global rate bound. For a limiter built for \<open>rps\<close> and \<open>burst\<close> (within the ceilings) at
  time \<open>t0\<close>, any sequence of calls to \<open>try_acquire\<close> whose clock readings do not decrease and end
  by time \<open>T\<close> admits at most \<open>burst + rps * (T - t0)\<close> requests, with the time in seconds:
  concurrent callers serialised by the bucket lock can never over-admit.
\<close>

theorem rate_limit_bound:
  assumes "1 \<le> unat rps" "unat rps \<le> 1000000" "1 \<le> unat burst" "unat burst \<le> 1000000"
    and run: "run_acquires try_acquire (new_limiter rps burst t0) ts = (rs, rl')"
    and mono: "sorted (map unat ts)" "\<forall>t\<in>set ts. unat t0 \<le> unat t \<and> unat t \<le> T"
    and T: "unat t0 \<le> T"
  shows "NS_PER_SEC * admitted rs \<le> NS_PER_SEC * unat burst + unat rps * (T - unat t0)"
proof -
  have "rps \<le> 1000000" "burst \<le> 1000000" "1 \<le> rps" "1 \<le> burst"
    using assms(1-4) by (simp_all add: word_le_nat_alt)
  then have cl: "clamp_word rps 1 1000000 = rps" "clamp_word burst 1 1000000 = burst"
    by (auto simp: clamp_word_def)
  have sm: "unat rps \<le> SCALE" "unat burst \<le> SCALE"
    using assms by (simp_all add: SCALE_def)
  let ?l = "new_limiter rps burst t0"
  have l: "unat (bk_tokens (rl_inner ?l)) = unat burst * SCALE"
    "unat (rl_refill_per_sec ?l) = unat rps * SCALE" "bk_last_refill (rl_inner ?l) = t0"
    using checked_mul_scale [OF sm(1)] checked_mul_scale [OF sm(2)]
    by (simp_all add: new_limiter_def scaled_limits_def RPS_CEILING_def BURST_CEILING_def cl Let_def)
  have "NS_PER_SEC * (unat (bk_tokens (rl_inner rl')) + SCALE * admitted rs)
      \<le> NS_PER_SEC * (unat burst * SCALE) + (T - unat t0) * (unat rps * SCALE)"
    using rl.admissions_paid [OF run mono(1), of T] mono(2) T l by simp
  then have "NS_PER_SEC * (SCALE * admitted rs)
      \<le> NS_PER_SEC * (unat burst * SCALE) + (T - unat t0) * (unat rps * SCALE)"
    by (rule order_trans [rotated]) simp
  then have "SCALE * (NS_PER_SEC * admitted rs)
      \<le> SCALE * (NS_PER_SEC * unat burst + unat rps * (T - unat t0))"
    by (simp add: algebra_simps)
  then show ?thesis by (simp add: SCALE_def)
qed

theorem rate_limit_bound_witness:
  "NS_PER_SEC * admitted (fst (run_acquires try_acquire (new_limiter 1 2 0) [0, 0, 0, 1000000000]))
     \<le> NS_PER_SEC * unat (2 :: u64) + unat (1 :: u64) * (1000000000 - unat (0 :: u64))
   \<and> fst (run_acquires try_acquire (new_limiter 1 2 0) [0, 0, 0, 1000000000])
       = [True, True, False, True]"
proof
  show "NS_PER_SEC * admitted (fst (run_acquires try_acquire (new_limiter 1 2 0) [0, 0, 0, 1000000000]))
     \<le> NS_PER_SEC * unat (2 :: u64) + unat (1 :: u64) * (1000000000 - unat (0 :: u64))"
    by (rule rate_limit_bound [of 1 2 0 "[0, 0, 0, 1000000000]" _
          "snd (run_acquires try_acquire (new_limiter 1 2 0) [0, 0, 0, 1000000000])" 1000000000])
       simp_all
  show "fst (run_acquires try_acquire (new_limiter 1 2 0) [0, 0, 0, 1000000000])
       = [True, True, False, True]"
    by (simp add: limiter_eval)
qed

text \<open>
  The retry hint is honest. A rejected caller that waits the number of milliseconds it was
  told is admitted, if nobody else spent the refill in the meantime.
\<close>

theorem retry_hint_sufficient:
  assumes "limiter_inv rl" and rej: "try_acquire rl now = (Err ms, rl')"
    and later: "unat now + unat ms * 1000000 \<le> unat later"
  shows "is_ok (fst (try_acquire rl' later))"
proof (rule acquire_after_wait)
  show inv: "limiter_inv rl'"
    using assms(1) rej by (rule try_acquire_inv)
  have "wait_needed rl' < unat ms * 1000000"
    using wait_needed_le_second [OF inv] try_acquire_Err(1) [OF rej]
    by (simp add: NS_PER_SEC_def min_def split: if_splits)
  then show "unat (bk_last_refill (rl_inner rl')) + wait_needed rl' < unat later"
    using later try_acquire_effect(2) [OF rej] by simp
qed

theorem retry_hint_sufficient_witness:
  "is_ok (fst (try_acquire (snd (try_acquire (snd (try_acquire (new_limiter 100 1 0) 0)) 0)) 10001000000))"
proof (rule retry_hint_sufficient)
  show "limiter_inv (snd (try_acquire (new_limiter 100 1 0) 0))"
    by (rule try_acquire_inv [OF new_limiter_inv prod.collapse [symmetric]])
  show "try_acquire (snd (try_acquire (new_limiter 100 1 0) 0)) 0 =
      (Err 10001, snd (try_acquire (snd (try_acquire (new_limiter 100 1 0) 0)) 0))"
    by (simp add: limiter_eval)
qed simp

text \<open>
  The hint counts microseconds. \<open>try_acquire\<close> documents its error value as milliseconds,
  but it divides the wait in nanoseconds by 1000 only: below the cap, waiting that many
  \<^emph>\<open>micro\<close>seconds is already enough, so \<open>Retry-After\<close> overstates the wait a thousandfold (at 100
  requests per second a 10 ms wait becomes \<open>Retry-After: 11\<close>).
\<close>

theorem retry_hint_counts_microseconds:
  assumes "limiter_inv rl" and rej: "try_acquire rl now = (Err ms, rl')" and "unat ms < 60000"
    and later: "unat now + unat ms * 1000 \<le> unat later"
  shows "is_ok (fst (try_acquire rl' later))"
proof (rule acquire_after_wait)
  show "limiter_inv rl'"
    using assms(1) rej by (rule try_acquire_inv)
  have "unat ms = wait_needed rl' div 1000 + 1"
    using try_acquire_Err(1) [OF rej] assms(3) by (simp add: min_def split: if_splits)
  then have "wait_needed rl' < unat ms * 1000"
    using dividend_less_div_times [of 1000 "wait_needed rl'"] by simp
  then show "unat (bk_last_refill (rl_inner rl')) + wait_needed rl' < unat later"
    using later try_acquire_effect(2) [OF rej] by simp
qed

theorem retry_hint_counts_microseconds_witness:
  "is_ok (fst (try_acquire (snd (try_acquire (snd (try_acquire (new_limiter 100 1 0) 0)) 0)) 10001000))
   \<and> ms_to_retry_after_secs 10001 = 11"
proof
  show "is_ok (fst (try_acquire (snd (try_acquire (snd (try_acquire (new_limiter 100 1 0) 0)) 0)) 10001000))"
  proof (rule retry_hint_counts_microseconds)
    show "limiter_inv (snd (try_acquire (new_limiter 100 1 0) 0))"
      by (rule try_acquire_inv [OF new_limiter_inv prod.collapse [symmetric]])
    show "try_acquire (snd (try_acquire (new_limiter 100 1 0) 0)) 0 =
        (Err 10001, snd (try_acquire (snd (try_acquire (new_limiter 100 1 0) 0)) 0))"
      by (simp add: limiter_eval)
  qed simp_all
  show "ms_to_retry_after_secs 10001 = 11"
    by (simp add: ms_to_retry_after_secs_def)
qed

text \<open>
  Reloading the limits never grants tokens. Whatever the settings answer, a call of the
  handle on an existing slot returns a well-formed limiter, kept in the slot, whose balance is at
  most the old one and whose refill timestamp is the old one.
\<close>

theorem limiter_reload_no_free_burst:
  assumes "limiter_inv (ls_limiter slot)"
    and "limiter (Some slot) cur_gen rps burst now = (l, guard')"
  shows "limiter_inv l \<and> bk_tokens (rl_inner l) \<le> bk_tokens (rl_inner (ls_limiter slot))
    \<and> bk_last_refill (rl_inner l) = bk_last_refill (rl_inner (ls_limiter slot))
    \<and> map_option ls_limiter guard' = Some l \<and> map_option ls_gen guard' = Some cur_gen"
proof -
  have ts: "bk_last_refill (rl_inner (resized old r b)) = bk_last_refill (rl_inner old)" for old r b
    by (simp add: resized_def Let_def split: prod.splits)
  show ?thesis
    using assms resized_inv resized_no_free_burst ts
    by (auto simp: limiter_def Let_def split: if_splits)
qed

theorem limiter_reload_no_free_burst_witness:
  "let slot = \<lparr>ls_gen = 0, ls_rps = 1, ls_burst = 1,
              ls_limiter = snd (try_acquire (new_limiter 1 1 0) 0)\<rparr>;
       l = fst (limiter (Some slot) 1 (Some 100) (Some 100) 0)
   in bk_tokens (rl_inner l) \<le> bk_tokens (rl_inner (ls_limiter slot)) \<and> bk_tokens (rl_inner l) = 0"
proof -
  let ?slot = "\<lparr>ls_gen = 0, ls_rps = 1, ls_burst = 1,
              ls_limiter = snd (try_acquire (new_limiter 1 1 0) 0)\<rparr>"
  have "limiter_inv (ls_limiter ?slot)"
    using try_acquire_inv [OF new_limiter_inv prod.collapse [symmetric]] by simp
  then have "bk_tokens (rl_inner (fst (limiter (Some ?slot) 1 (Some 100) (Some 100) 0)))
      \<le> bk_tokens (rl_inner (ls_limiter ?slot))"
    using limiter_reload_no_free_burst [OF _ prod.collapse [symmetric]] by blast
  moreover have "bk_tokens (rl_inner (fst (limiter (Some ?slot) 1 (Some 100) (Some 100) 0))) = 0"
    by (simp add: limiter_eval)
  ultimately show ?thesis by (simp add: Let_def)
qed

end
