(* ===== verification/Errors.thy ===== *)
theory Errors
  imports Prelude
begin

text \<open>
  The crate-wide error type of \<open>src/error.rs\<close> and its mapping to an HTTP status and a client-safe
  message. The foreign error types an \<open>Error\<close> wraps (HTTP, I/O, JSON, anyhow) are represented by
  the text they carry; \<open>sqlx::Error\<close> by the cases the code tells apart.
\<close>

section \<open>Definitions\<close>

datatype torrent_kind = SessionExpired | Other

datatype sqlx_error =
    PoolTimedOut
  | PoolClosed
  | DatabaseError "string option" "string option" \<comment> \<open>SQLSTATE and constraint name\<close>
  | ConnectionError string \<comment> \<open>I/O, TLS, protocol and every other case\<close>

datatype error =
    Database sqlx_error
  | Zim string
  | ZimDigestMismatch string
  | Config string
  | SettingsDecrypt string
  | Http string
  | Io string
  | Json string
  | Torrent torrent_kind string
  | Embedding string
  | Mcp string
  | NotFound string
  | Forbidden string
  | Conflict string
  | InvalidInput string
  | Internal string

text \<open>The \<open>Display\<close> text of an error.\<close>

fun error_display :: "(sqlx_error \<Rightarrow> string) \<Rightarrow> error \<Rightarrow> string" where
  "error_display show_sqlx (Database e) = ''database error: '' @ show_sqlx e"
| "error_display show_sqlx (Zim m) = ''ZIM error: '' @ m"
| "error_display show_sqlx (ZimDigestMismatch m) = ''content digest mismatch: '' @ m"
| "error_display show_sqlx (Config m) = ''config error: '' @ m"
| "error_display show_sqlx (SettingsDecrypt key) = ''settings key '' @ key
     @ '': stored value is encrypted with a different SECURITY_KEY (or is corrupted) '' @ bytes_str [226, 128, 148]
     @ '' restore the original SECURITY_KEY, or clear the stored value and re-provide it (env var, or authenticated PUT /settings for keys that are not API-immutable ''
     @ bytes_str [226, 128, 148] @ '' access.read_only_token is env-only)''"
| "error_display show_sqlx (Http m) = ''HTTP error: '' @ m"
| "error_display show_sqlx (Io m) = ''IO error: '' @ m"
| "error_display show_sqlx (Json m) = ''JSON error: '' @ m"
| "error_display show_sqlx (Torrent _ m) = ''torrent error: '' @ m"
| "error_display show_sqlx (Embedding m) = ''embedding error: '' @ m"
| "error_display show_sqlx (Mcp m) = ''MCP error: '' @ m"
| "error_display show_sqlx (NotFound m) = ''not found: '' @ m"
| "error_display show_sqlx (Forbidden m) = ''forbidden: '' @ m"
| "error_display show_sqlx (Conflict m) = ''conflict: '' @ m"
| "error_display show_sqlx (InvalidInput m) = ''invalid input: '' @ m"
| "error_display show_sqlx (Internal m) = ''internal error: '' @ m"

definition is_unique_violation :: "sqlx_error \<Rightarrow> bool" where
  "is_unique_violation e \<longleftrightarrow> (case e of DatabaseError (Some c) _ \<Rightarrow> c = ''23505'' | _ \<Rightarrow> False)"

definition sqlstate_status :: "string option \<Rightarrow> nat" where
  "sqlstate_status code =
     (case code of
        None \<Rightarrow> 503
      | Some c \<Rightarrow> if c = ''23505'' \<or> c = ''23503'' then 409
                  else if c = ''23502'' \<or> c = ''23514'' then 400
                  else 503)"

definition sqlstate_message :: "string option \<Rightarrow> string" where
  "sqlstate_message code =
     (case code of
        None \<Rightarrow> ''database error''
      | Some c \<Rightarrow> if c = ''23502'' then ''missing required value''
                  else if c = ''23503'' then ''referenced row does not exist''
                  else if c = ''23514'' then ''value violates a constraint''
                  else ''database error'')"

definition CONSTRAINT_FIELDS :: "(string \<times> string) list" where
  "CONSTRAINT_FIELDS =
     [(''zims_pkey'', ''id''), (''zims_name_key'', ''name''),
      (''articles_pkey'', ''id''), (''articles_zim_id_path_key'', ''zim_id_path''),
      (''collections_pkey'', ''id''), (''collections_name_key'', ''name''),
      (''qid_index_pkey'', ''zim_id_path''), (''settings_pkey'', ''key''),
      (''downloads_pkey'', ''id''), (''idx_downloads_active_url'', ''url''),
      (''uq_downloads_active_name'', ''name'')]"

definition TABLE_PREFIXES :: "string list" where
  "TABLE_PREFIXES = [''zims_'', ''collections_'', ''articles_'']"

fun find_map :: "('a \<Rightarrow> 'b option) \<Rightarrow> 'a list \<Rightarrow> 'b option" where
  "find_map f [] = None"
| "find_map f (x # xs) = (case f x of Some y \<Rightarrow> Some y | None \<Rightarrow> find_map f xs)"

definition duplicate_field :: "string \<Rightarrow> string" where
  "duplicate_field constraint =
     (case map_of CONSTRAINT_FIELDS constraint of
        Some field \<Rightarrow> field
      | None \<Rightarrow>
          (let s = (case strip_suffix ''_key'' constraint of Some t \<Rightarrow> t | None \<Rightarrow> constraint);
               f = (case find_map (\<lambda>p. strip_prefix p s) TABLE_PREFIXES of Some t \<Rightarrow> t | None \<Rightarrow> s)
           in if f = [] then ''value'' else f))"

definition quoted :: "string \<Rightarrow> string" where
  "quoted s = CHR 0x27 # s @ [CHR 0x27]"

definition sqlx_error_status_message :: "sqlx_error \<Rightarrow> nat \<times> string" where
  "sqlx_error_status_message e =
     (case e of
        PoolTimedOut \<Rightarrow> (503, ''database unavailable'')
      | DatabaseError code constraint \<Rightarrow>
          if code = Some ''23505'' then
            (let field = (case constraint of Some c \<Rightarrow> duplicate_field c | None \<Rightarrow> ''value'')
             in (409, ''duplicate value for '' @ quoted field))
          else (sqlstate_status code, sqlstate_message code)
      | _ \<Rightarrow> (503, ''database connection closed''))"

definition status_and_message :: "error \<Rightarrow> nat \<times> string" where
  "status_and_message err =
     (case err of
        NotFound msg \<Rightarrow> (404, msg)
      | Forbidden msg \<Rightarrow> (403, msg)
      | InvalidInput msg \<Rightarrow> (400, msg)
      | Conflict msg \<Rightarrow> (409, msg)
      | Database e \<Rightarrow> sqlx_error_status_message e
      | Torrent _ _ \<Rightarrow> (502, ''upstream torrent service failed'')
      | Http _ \<Rightarrow> (502, ''upstream request failed'')
      | _ \<Rightarrow> (500, ''internal server error''))"

section \<open>Redaction\<close>

text \<open>The errors whose text is meant for the client.\<close>

fun client_error :: "error \<Rightarrow> bool" where
  "client_error (NotFound _) = True"
| "client_error (Forbidden _) = True"
| "client_error (InvalidInput _) = True"
| "client_error (Conflict _) = True"
| "client_error _ = False"

text \<open>Every message a non-client error can produce, given the constraint name Postgres reported.\<close>

definition redacted_messages :: "string list" where
  "redacted_messages =
     [''database unavailable'', ''database connection closed'', ''database error'',
      ''missing required value'', ''referenced row does not exist'', ''value violates a constraint'',
      ''upstream torrent service failed'', ''upstream request failed'', ''internal server error'']"

lemma sqlstate_message_redacted: "sqlstate_message code \<in> set redacted_messages"
  by (auto simp: sqlstate_message_def redacted_messages_def split: option.splits)

lemma sqlx_message_cases:
  "snd (sqlx_error_status_message e) \<in> set redacted_messages
   \<or> (\<exists>c. e = DatabaseError (Some ''23505'') c \<and>
        snd (sqlx_error_status_message e) =
          ''duplicate value for '' @ quoted (case c of Some n \<Rightarrow> duplicate_field n | None \<Rightarrow> ''value''))"
  using sqlstate_message_redacted
  by (cases e) (auto simp: sqlx_error_status_message_def redacted_messages_def Let_def)

lemma sqlx_status_range: "fst (sqlx_error_status_message e) \<in> {400, 409, 503}"
  by (cases e)
     (auto simp: sqlx_error_status_message_def sqlstate_status_def Let_def split: option.splits)

text \<open>
  Nothing internal reaches a client. The message of an error that is not one of the four
  client errors is one of a fixed list of texts, or names the duplicate field of a unique
  violation; it never depends on the text the error carries. The status is 500, 502 or 503, or
  the 400/409 of a constraint violation.
\<close>

theorem internal_errors_redacted:
  assumes "\<not> client_error err"
  shows "(snd (status_and_message err) \<in> set redacted_messages
      \<or> (\<exists>c. err = Database (DatabaseError (Some ''23505'') c) \<and>
           snd (status_and_message err) =
             ''duplicate value for '' @ quoted (case c of Some n \<Rightarrow> duplicate_field n | None \<Rightarrow> ''value'')))
    \<and> fst (status_and_message err) \<in> {400, 409, 500, 502, 503}"
proof (cases err)
  case (Database e)
  then show ?thesis
    using sqlx_message_cases [of e] sqlx_status_range [of e] by (auto simp: status_and_message_def)
qed (use assms in \<open>simp_all add: status_and_message_def redacted_messages_def\<close>)

theorem internal_errors_redacted_witness:
  "fst (status_and_message (Torrent SessionExpired ''SID=secret'')) \<in> {400, 409, 500, 502, 503}
   \<and> snd (status_and_message (Torrent SessionExpired ''SID=secret'')) = ''upstream torrent service failed''"
  using internal_errors_redacted [of "Torrent SessionExpired ''SID=secret''"]
  by (simp add: status_and_message_def)

end
