(* ===== verification/Urls.thy ===== *)
theory Urls
  imports Prelude
begin

text \<open>
  URL helpers: credential redaction (\<open>src/util.rs\<close>), the query/fragment strip and the direct
  \<open>.zim\<close> classification (\<open>src/torrent/mod.rs\<close>), and its SQL twin \<open>ZIM_URL_PREDICATE\<close>
  (\<open>src/db/downloads.rs\<close>), which the poller splices into its queries.

  Rust's Unicode \<open>to_lowercase\<close> is modelled by the ASCII one: besides the ASCII letters only
  U+0130 and U+212A have lower-case forms with ASCII characters in them (\<open>i\<close> followed by a
  combining dot, and \<open>k\<close>), and neither changes whether a string ends in \<open>.zim\<close> or where its first
  \<open>?\<close> or \<open>#\<close> is.
\<close>

section \<open>Definitions\<close>

definition redact_url :: "string \<Rightarrow> string" where
  "redact_url url =
     (case split_once_str ''://'' url of
        Some (scheme, rest) \<Rightarrow>
          (case rsplit_once CHR ''@'' (hd (split_on CHR ''/'' rest)) of
             Some (userinfo, _) \<Rightarrow> scheme @ ''://***@'' @ drop (length userinfo + 1) rest
           | None \<Rightarrow> url)
      | None \<Rightarrow> url)"

definition strip_query_fragment :: "string \<Rightarrow> string" where
  "strip_query_fragment url = takeWhile (\<lambda>c. c \<noteq> CHR ''?'' \<and> c \<noteq> CHR ''#'') url"

definition is_direct_zim_url :: "string \<Rightarrow> bool" where
  "is_direct_zim_url url =
     ends_with (strip_query_fragment (to_ascii_lowercase (trim url))) ''.zim''"

text \<open>Postgres' \<open>split_part(s, c, 1)\<close> and \<open>trim\<close>, which strips blanks only.\<close>

definition split_part1 :: "char \<Rightarrow> string \<Rightarrow> string" where
  "split_part1 c s = hd (split_on c s)"

definition pg_trim :: "string \<Rightarrow> string" where
  "pg_trim s = rev (dropWhile (\<lambda>c. c = CHR '' '') (rev (dropWhile (\<lambda>c. c = CHR '' '') s)))"

definition zim_url_predicate :: "string \<Rightarrow> bool" where
  "zim_url_predicate url =
     ends_with (to_ascii_lowercase (pg_trim (split_part1 CHR ''#'' (split_part1 CHR ''?'' url)))) ''.zim''"

section \<open>Redaction\<close>

lemma split_once_scheme:
  "CHR '':'' \<notin> set scheme \<Longrightarrow> split_once_str ''://'' (scheme @ ''://'' @ rest) = Some (scheme, rest)"
  by (induction scheme) (auto simp: starts_with_def)

text \<open>
  Credentials never survive redaction. Whenever the authority of a URL (what lies between
  \<open>://\<close> and the next slash) has a user-info part, the redacted URL consists of the scheme, \<open>***@\<close>
  and what follows the last \<open>@\<close> of the authority: it does not depend on the user-info.
\<close>

theorem redact_url_hides_userinfo:
  assumes "CHR '':'' \<notin> set scheme" and "CHR ''/'' \<notin> set userinfo"
    and "CHR ''/'' \<notin> set host" and "CHR ''@'' \<notin> set host" and "tail = [] \<or> hd tail = CHR ''/''"
  shows "redact_url (scheme @ ''://'' @ userinfo @ ''@'' @ host @ tail) = scheme @ ''://***@'' @ host @ tail"
proof -
  let ?rest = "userinfo @ ''@'' @ host @ tail"
  have "hd (split_on CHR ''/'' ?rest) = userinfo @ ''@'' @ host"
    using assms(2,3,5) by (cases tail) (auto simp: hd_split_on takeWhile_append)
  moreover have "rsplit_once CHR ''@'' (userinfo @ ''@'' @ host) = Some (userinfo, host)"
    using assms(4) by (simp add: rsplit_once_Some)
  ultimately show ?thesis
    using split_once_scheme [OF assms(1), of ?rest] by (simp add: redact_url_def)
qed

theorem redact_url_hides_userinfo_witness:
  "redact_url ''http://admin:s3@cret@host/x?a=@b'' = ''http://***@host/x?a=@b''"
  using redact_url_hides_userinfo [of "''http''" "''admin:s3@cret''" "''host''" "''/x?a=@b''"] by simp

section \<open>The direct-download classification\<close>

lemma lower_char_stable [simp]:
  "lower_char c = CHR ''?'' \<longleftrightarrow> c = CHR ''?''" "lower_char c = CHR ''#'' \<longleftrightarrow> c = CHR ''#''"
proof -
  have "lower_char c = d \<longleftrightarrow> c = d" if "ascii d < 65" for d
  proof
    assume h: "lower_char c = d"
    show "c = d"
    proof (cases "65 \<le> ascii c \<and> ascii c \<le> 90")
      case True
      then have "ascii (lower_char c) = ascii c + 32"
        by (simp add: lower_char_def ascii_char_of)
      with h that True have False by simp
      then show ?thesis ..
    next
      case False
      with h show ?thesis by (simp add: lower_char_def)
    qed
  next
    assume "c = d"
    with that show "lower_char c = d" by (simp add: lower_char_def)
  qed
  then show "lower_char c = CHR ''?'' \<longleftrightarrow> c = CHR ''?''" "lower_char c = CHR ''#'' \<longleftrightarrow> c = CHR ''#''"
    by (simp_all add: ascii_def)
qed

lemma strip_query_fragment_lower:
  "strip_query_fragment (to_ascii_lowercase s) = to_ascii_lowercase (strip_query_fragment s)"
  by (simp add: strip_query_fragment_def to_ascii_lowercase_def takeWhile_map_pred)

lemma split_parts: "split_part1 CHR ''#'' (split_part1 CHR ''?'' url) = strip_query_fragment url"
  by (simp add: split_part1_def hd_split_on strip_query_fragment_def takeWhile_takeWhile)

lemma pg_trim_printable: "printable s \<Longrightarrow> pg_trim s = s"
proof -
  assume p: "printable s"
  then have "dropWhile (\<lambda>c. c = CHR '' '') t = t" if "set t \<subseteq> set s" for t
    using that by (cases t) (auto simp: printable_def ascii_def)
  then show ?thesis by (simp add: pg_trim_def)
qed

text \<open>
  The Rust classification and the SQL predicate agree on every URL of printable ASCII
  characters (no blanks, no control characters).
\<close>

theorem zim_predicate_agrees:
  assumes "printable url"
  shows "zim_url_predicate url \<longleftrightarrow> is_direct_zim_url url"
proof -
  have "printable (strip_query_fragment url)"
    using assms set_takeWhileD by (fastforce simp: printable_def strip_query_fragment_def)
  then show ?thesis
    using assms
    by (simp add: zim_url_predicate_def is_direct_zim_url_def split_parts strip_query_fragment_lower
        pg_trim_printable)
qed

theorem zim_predicate_agrees_witness:
  "zim_url_predicate ''http://h/Wiki.ZIM?x#y'' \<longleftrightarrow> is_direct_zim_url ''http://h/Wiki.ZIM?x#y''"
  by (rule zim_predicate_agrees) (simp add: printable_def ascii_def)

lemmas url_eval = split_part1_def pg_trim_def strip_query_fragment_def to_ascii_lowercase_def
  lower_char_def ends_with_def ascii_def

text \<open>
  Beyond that they disagree, although both are documented as equivalent: a blank before the
  query string makes a URL a torrent for the Rust code and a direct download for the SQL queries,
  and a trailing newline makes it the other way round.
\<close>

theorem zim_predicate_diverges:
  "\<not> is_direct_zim_url ''http://h/a.zim ?x'' \<and> zim_url_predicate ''http://h/a.zim ?x''
   \<and> is_direct_zim_url (''http://h/a.zim'' @ [CHR 0x0A])
   \<and> \<not> zim_url_predicate (''http://h/a.zim'' @ [CHR 0x0A])"
proof -
  have "trim ''http://h/a.zim ?x'' = ''http://h/a.zim ?x''"
    by (rule trim_printable_ends) (simp_all add: printable_def ascii_def)
  then have "\<not> is_direct_zim_url ''http://h/a.zim ?x''"
    by (simp add: is_direct_zim_url_def url_eval)
  moreover have "trim (''http://h/a.zim'' @ [CHR 0x0A]) = ''http://h/a.zim''"
    by (rule trim_newline) (simp_all add: printable_def ascii_def)
  then have "is_direct_zim_url (''http://h/a.zim'' @ [CHR 0x0A])"
    by (simp add: is_direct_zim_url_def url_eval)
  moreover have "zim_url_predicate ''http://h/a.zim ?x''"
    by (simp add: zim_url_predicate_def url_eval)
  moreover have "\<not> zim_url_predicate (''http://h/a.zim'' @ [CHR 0x0A])"
    by (simp add: zim_url_predicate_def url_eval)
  ultimately show ?thesis by blast
qed

end
