(* ===== verification/Downloads.thy ===== *)
theory Downloads
  imports Errors Urls
begin

text \<open>
  The \<open>downloads\<close> table and every statement the service runs on it: the status machine of
  \<open>src/db/downloads_lifecycle.rs\<close> and the queue access of \<open>src/db/downloads.rs\<close>.

  The table is a list of rows (in physical order) with the id sequence. An \<open>UPDATE\<close> is a guard (its
  \<open>WHERE\<close> clause) and a change of the row (its \<open>SET\<close> clause); it reports the number of rows the
  guard selected, and it fails as a whole, changing nothing, when the result would violate one of
  the two partial unique indexes on the active rows (migrations 003 and 011). Every statement takes
  the database fault that hits it, if any, and the server's \<open>now()\<close>.

  The locale \<open>status_update\<close> is the contract the lifecycle statements share; it is interpreted on
  each of them, and the machine-wide theorems are drawn from those interpretations.
\<close>

section \<open>The status type\<close>

datatype download_status = Queued | Downloading | Complete | Seeding | Error | Cancelled

definition ALL_STATUSES :: "download_status list" where
  "ALL_STATUSES = [Queued, Downloading, Complete, Seeding, Error, Cancelled]"

fun as_str :: "download_status \<Rightarrow> string" where
  "as_str Queued = ''queued''"
| "as_str Downloading = ''downloading''"
| "as_str Complete = ''complete''"
| "as_str Seeding = ''seeding''"
| "as_str Error = ''error''"
| "as_str Cancelled = ''cancelled''"

definition parse_status :: "string \<Rightarrow> download_status option" where
  "parse_status s = find (\<lambda>st. as_str st = s) ALL_STATUSES"

fun can_transition_to :: "download_status \<Rightarrow> download_status \<Rightarrow> bool" where
  "can_transition_to Queued target = (target \<in> {Downloading, Error, Cancelled})"
| "can_transition_to Downloading target = (target \<in> {Complete, Seeding, Error, Cancelled, Queued})"
| "can_transition_to Error target = (target = Queued)"
| "can_transition_to Seeding target = (target = Complete)"
| "can_transition_to _ _ = False"

fun join :: "string \<Rightarrow> string list \<Rightarrow> string" where
  "join sep [] = []"
| "join sep [s] = s"
| "join sep (s # ss) = s @ sep @ join sep ss"

definition in_list :: "download_status list \<Rightarrow> string" where
  "in_list sts = ''('' @ join '', '' (map (\<lambda>s. quoted (as_str s)) sts) @ '')''"

lemma as_str_inject [simp]: "as_str a = as_str b \<longleftrightarrow> a = b"
  by (cases a; cases b; simp)

lemma parse_status_as_str [simp]: "parse_status (as_str st) = Some st"
  by (cases st) (simp_all add: parse_status_def ALL_STATUSES_def)

lemma parse_status_Some: "parse_status s = Some st \<longleftrightarrow> s = as_str st"
  by (auto simp: parse_status_def find_Some_split)
     (metis parse_status_as_str parse_status_def find_Some_split)

declare as_str.simps [simp del]

section \<open>The table\<close>

type_synonym f32 = rat
type_synonym timestamp = int \<comment> \<open>microseconds\<close>

record download_row =
  d_id :: int
  d_name :: string
  d_url :: string
  d_hash :: "string option"
  d_status :: string
  d_progress :: f32
  d_speed_bps :: "int option"
  d_eta_secs :: "int option"
  d_file_path :: "string option"
  d_error :: "string option"
  d_created_at :: timestamp
  d_updated_at :: timestamp
  d_ratio :: "f32 option"
  d_up_speed_bps :: "int option"
  d_num_seeds :: "int option"
  d_sha256 :: "string option"

record downloads =
  rows :: "download_row list"
  next_id :: int

abbreviation has_status :: "download_row \<Rightarrow> download_status \<Rightarrow> bool" where
  "has_status r st \<equiv> d_status r = as_str st"

definition is_active :: "download_row \<Rightarrow> bool" where
  "is_active r \<longleftrightarrow> has_status r Queued \<or> has_status r Downloading"

text \<open>The partial unique indexes \<open>idx_downloads_active_url\<close> and \<open>uq_downloads_active_name\<close>.\<close>

definition active_urls :: "download_row list \<Rightarrow> string list" where
  "active_urls rs = map d_url (filter is_active rs)"

definition active_names :: "download_row list \<Rightarrow> string list" where
  "active_names rs = map d_name (filter is_active rs)"

definition unique_conflict :: "download_row list \<Rightarrow> string option" where
  "unique_conflict rs =
     (if \<not> distinct (active_urls rs) then Some ''idx_downloads_active_url''
      else if \<not> distinct (active_names rs) then Some ''uq_downloads_active_name''
      else None)"

definition commit_rows ::
  "downloads \<Rightarrow> download_row list \<Rightarrow> nat \<Rightarrow> (nat, sqlx_error) result \<times> downloads" where
  "commit_rows db rs n =
     (case unique_conflict rs of
        Some c \<Rightarrow> (Err (DatabaseError (Some ''23505'') (Some c)), db)
      | None \<Rightarrow> (Ok n, db\<lparr>rows := rs\<rparr>))"

definition sql_update ::
  "sqlx_error option \<Rightarrow> (download_row \<Rightarrow> bool) \<Rightarrow> (download_row \<Rightarrow> download_row) \<Rightarrow> downloads
    \<Rightarrow> (nat, sqlx_error) result \<times> downloads" where
  "sql_update fault guard change db =
     (case fault of
        Some e \<Rightarrow> (Err e, db)
      | None \<Rightarrow> commit_rows db (map (\<lambda>r. if guard r then change r else r) (rows db))
                  (length (filter guard (rows db))))"

definition sql_insert ::
  "sqlx_error option \<Rightarrow> (int \<Rightarrow> download_row) \<Rightarrow> downloads \<Rightarrow> (int, sqlx_error) result \<times> downloads" where
  "sql_insert fault row db =
     (case fault of
        Some e \<Rightarrow> (Err e, db)
      | None \<Rightarrow>
          (let db' = db\<lparr>next_id := next_id db + 1\<rparr>;
               (res, db'') = commit_rows db' (rows db @ [row (next_id db)]) 1
           in (case res of Inr _ \<Rightarrow> (Ok (next_id db), db'') | Inl e \<Rightarrow> (Err e, db''))))"

text \<open>Swallow write failures, propagate a failed checkout (\<open>execute_best_effort\<close>).\<close>

definition best_effort :: "(nat, sqlx_error) result \<times> downloads \<Rightarrow> (nat, sqlx_error) result \<times> downloads" where
  "best_effort out =
     (case out of
        (Inr n, db) \<Rightarrow> (Ok n, db)
      | (Inl e, db) \<Rightarrow> (if e = PoolTimedOut \<or> e = PoolClosed then (Err e, db) else (Ok 0, db)))"

section \<open>Reads\<close>

definition row_by_id :: "downloads \<Rightarrow> int \<Rightarrow> download_row option" where
  "row_by_id db i = find (\<lambda>r. d_id r = i) (rows db)"

definition status_of :: "sqlx_error option \<Rightarrow> downloads \<Rightarrow> int \<Rightarrow> string option" where
  "status_of fault db i =
     (case fault of Some _ \<Rightarrow> None | None \<Rightarrow> map_option d_status (row_by_id db i))"

definition status_checked :: "sqlx_error option \<Rightarrow> downloads \<Rightarrow> int \<Rightarrow> (string, error) result" where
  "status_checked fault db i =
     (case fault of
        Some e \<Rightarrow> Err (Database e)
      | None \<Rightarrow> (case row_by_id db i of
                   Some r \<Rightarrow> Ok (d_status r)
                 | None \<Rightarrow> Err (NotFound ''download does not exist'')))"

definition status_if_changed :: "sqlx_error option \<Rightarrow> downloads \<Rightarrow> int \<Rightarrow> string \<Rightarrow> string option" where
  "status_if_changed fault db i expected =
     (case status_checked fault db i of
        Inr s \<Rightarrow> if s \<noteq> expected then Some s else None
      | Inl _ \<Rightarrow> None)"

definition no_longer_downloading :: "string \<Rightarrow> string option" where
  "no_longer_downloading s = (if s \<noteq> as_str Downloading then Some s else None)"

definition status_no_longer_downloading :: "sqlx_error option \<Rightarrow> downloads \<Rightarrow> int \<Rightarrow> string option" where
  "status_no_longer_downloading fault db i = Option.bind (status_of fault db i) no_longer_downloading"

definition fetch_downloads_by_statuses :: "downloads \<Rightarrow> string \<Rightarrow> string \<Rightarrow> download_row list" where
  "fetch_downloads_by_statuses db s1 s2 = filter (\<lambda>r. d_status r = s1 \<or> d_status r = s2) (rows db)"

definition is_live :: "download_row \<Rightarrow> bool" where
  "is_live r \<longleftrightarrow> has_status r Queued \<or> has_status r Downloading
                 \<or> has_status r Complete \<or> has_status r Seeding"

definition find_same_name_live_row :: "downloads \<Rightarrow> string \<Rightarrow> int \<Rightarrow> int option" where
  "find_same_name_live_row db name exclude_id =
     map_option d_id (find (\<lambda>r. d_name r = name \<and> d_id r \<noteq> exclude_id \<and> is_live r) (rows db))"

definition find_live_row_owns_path :: "downloads \<Rightarrow> string \<Rightarrow> int \<Rightarrow> int option" where
  "find_live_row_owns_path db path exclude_id =
     map_option d_id (find (\<lambda>r. d_file_path r = Some path \<and> d_id r \<noteq> exclude_id \<and> is_live r) (rows db))"

definition claim_digest :: "downloads \<Rightarrow> int \<Rightarrow> string option" where
  "claim_digest db i = Option.bind (row_by_id db i) d_sha256"

text \<open>\<open>ORDER BY updated_at DESC, id DESC LIMIT 1\<close>.\<close>

definition newer :: "download_row \<Rightarrow> download_row \<Rightarrow> bool" where
  "newer a b \<longleftrightarrow> d_updated_at b < d_updated_at a
                 \<or> (d_updated_at a = d_updated_at b \<and> d_id b < d_id a)"

fun newest :: "download_row list \<Rightarrow> download_row option" where
  "newest [] = None"
| "newest (r # rs) =
     (case newest rs of None \<Rightarrow> Some r | Some m \<Rightarrow> if newer m r then Some m else Some r)"

definition is_settled :: "download_row \<Rightarrow> bool" where
  "is_settled r \<longleftrightarrow> has_status r Complete \<or> has_status r Seeding"

definition prior_observed_digest_by_url :: "downloads \<Rightarrow> int \<Rightarrow> string \<Rightarrow> string option" where
  "prior_observed_digest_by_url db i url =
     Option.bind (newest (filter (\<lambda>r. d_url r = url \<and> d_id r \<noteq> i \<and> d_sha256 r \<noteq> None \<and> is_settled r)
                            (rows db))) d_sha256"

definition prior_observed_digest_by_hash :: "downloads \<Rightarrow> int \<Rightarrow> string \<Rightarrow> string option" where
  "prior_observed_digest_by_hash db i hash =
     Option.bind (newest (filter (\<lambda>r. d_hash r = Some hash \<and> d_id r \<noteq> i \<and> d_sha256 r \<noteq> None \<and> is_settled r)
                            (rows db))) d_sha256"

definition drift_decision :: "string option \<Rightarrow> string \<Rightarrow> bool" where
  "drift_decision prev current =
     (case prev of Some p \<Rightarrow> \<not> eq_ignore_ascii_case p current | None \<Rightarrow> False)"

section \<open>Transitions\<close>

definition claim_direct ::
  "sqlx_error option \<Rightarrow> timestamp \<Rightarrow> int \<Rightarrow> string \<Rightarrow> downloads \<Rightarrow> (nat, sqlx_error) result \<times> downloads" where
  [row_defs]: "claim_direct fault now i part =
     sql_update fault (\<lambda>r. d_id r = i \<and> has_status r Queued)
       (\<lambda>r. r\<lparr>d_status := as_str Downloading, d_file_path := Some part, d_updated_at := now\<rparr>)"

text \<open>Best effort: the result of the statement is dropped.\<close>

definition mark_error :: "sqlx_error option \<Rightarrow> timestamp \<Rightarrow> int \<Rightarrow> string \<Rightarrow> downloads \<Rightarrow> downloads" where
  [row_defs]: "mark_error fault now i msg db =
     snd (sql_update fault
       (\<lambda>r. d_id r = i \<and> d_status r \<notin> {as_str Cancelled, as_str Complete, as_str Seeding, as_str Error})
       (\<lambda>r. r\<lparr>d_status := as_str Error, d_error := Some msg, d_updated_at := now\<rparr>) db)"

definition fatal_guard_statuses :: "download_status list" where
  "fatal_guard_statuses = [Queued, Downloading]"

definition mark_fatal_error ::
  "sqlx_error option \<Rightarrow> timestamp \<Rightarrow> int \<Rightarrow> string \<Rightarrow> downloads \<Rightarrow> (nat, sqlx_error) result \<times> downloads" where
  [row_defs]: "mark_fatal_error fault now i msg db =
     best_effort (sql_update fault
       (\<lambda>r. d_id r = i \<and> d_status r \<in> set (map as_str fatal_guard_statuses))
       (\<lambda>r. r\<lparr>d_status := as_str Error, d_error := Some msg, d_updated_at := now\<rparr>) db)"

definition requeue_stale_errors ::
  "sqlx_error option \<Rightarrow> timestamp \<Rightarrow> int list \<Rightarrow> downloads \<Rightarrow> (nat, sqlx_error) result \<times> downloads" where
  [row_defs]: "requeue_stale_errors fault now ids db =
     (if ids = [] then (Ok 0, db)
      else sql_update fault (\<lambda>r. d_id r \<in> set ids \<and> has_status r Error)
             (\<lambda>r. r\<lparr>d_status := as_str Queued, d_error := None, d_updated_at := now\<rparr>) db)"

definition finalize_direct ::
  "sqlx_error option \<Rightarrow> timestamp \<Rightarrow> int \<Rightarrow> string \<Rightarrow> string option \<Rightarrow> downloads
    \<Rightarrow> (nat, sqlx_error) result \<times> downloads" where
  [row_defs]: "finalize_direct fault now i dst sha =
     sql_update fault (\<lambda>r. d_id r = i \<and> has_status r Downloading)
       (\<lambda>r. r\<lparr>d_status := as_str Complete, d_progress := 1, d_file_path := Some dst,
              d_sha256 := sha, d_updated_at := now\<rparr>)"

definition record_observed_digest ::
  "sqlx_error option \<Rightarrow> timestamp \<Rightarrow> int \<Rightarrow> string \<Rightarrow> downloads \<Rightarrow> (nat, sqlx_error) result \<times> downloads" where
  [row_defs]: "record_observed_digest fault now i sha =
     sql_update fault (\<lambda>r. d_id r = i \<and> (has_status r Complete \<or> has_status r Seeding))
       (\<lambda>r. r\<lparr>d_sha256 := Some sha, d_updated_at := now\<rparr>)"

definition completion_guard_statuses :: "download_status list" where
  "completion_guard_statuses = [Downloading, Complete]"

definition mark_complete ::
  "sqlx_error option \<Rightarrow> timestamp \<Rightarrow> int \<Rightarrow> string \<Rightarrow> download_status \<Rightarrow> f32 option \<Rightarrow> int option
    \<Rightarrow> int option \<Rightarrow> downloads \<Rightarrow> (nat, sqlx_error) result \<times> downloads" where
  [row_defs]: "mark_complete fault now i dst new_status ratio up_speed_bps num_seeds =
     (if new_status = Seeding then
        sql_update fault (\<lambda>r. d_id r = i \<and> d_status r \<in> set (map as_str completion_guard_statuses))
          (\<lambda>r. r\<lparr>d_status := as_str Seeding, d_progress := 1, d_file_path := Some dst,
                 d_ratio := ratio, d_up_speed_bps := up_speed_bps, d_num_seeds := num_seeds,
                 d_error := None, d_updated_at := now\<rparr>)
      else
        sql_update fault (\<lambda>r. d_id r = i \<and> d_status r \<in> set (map as_str completion_guard_statuses))
          (\<lambda>r. r\<lparr>d_status := as_str Complete, d_progress := 1, d_file_path := Some dst,
                 d_ratio := None, d_up_speed_bps := None, d_num_seeds := None,
                 d_error := None, d_updated_at := now\<rparr>))"

definition mark_downloading ::
  "sqlx_error option \<Rightarrow> timestamp \<Rightarrow> int \<Rightarrow> downloads \<Rightarrow> (nat, sqlx_error) result \<times> downloads" where
  [row_defs]: "mark_downloading fault now i db =
     best_effort (sql_update fault (\<lambda>r. d_id r = i \<and> has_status r Queued)
       (\<lambda>r. r\<lparr>d_status := as_str Downloading, d_updated_at := now\<rparr>) db)"

definition bind_hash ::
  "sqlx_error option \<Rightarrow> timestamp \<Rightarrow> int \<Rightarrow> string \<Rightarrow> downloads \<Rightarrow> (nat, sqlx_error) result \<times> downloads" where
  [row_defs]: "bind_hash fault now i hash db =
     best_effort (sql_update fault (\<lambda>r. d_id r = i)
       (\<lambda>r. r\<lparr>d_hash := Some hash, d_updated_at := now\<rparr>) db)"

definition touch_downloading ::
  "sqlx_error option \<Rightarrow> timestamp \<Rightarrow> int \<Rightarrow> downloads \<Rightarrow> (nat, sqlx_error) result \<times> downloads" where
  [row_defs]: "touch_downloading fault now i db =
     best_effort (sql_update fault (\<lambda>r. d_id r = i \<and> has_status r Downloading)
       (\<lambda>r. r\<lparr>d_updated_at := now\<rparr>) db)"

definition clear_hash :: "sqlx_error option \<Rightarrow> timestamp \<Rightarrow> int \<Rightarrow> downloads \<Rightarrow> downloads" where
  [row_defs]: "clear_hash fault now i db =
     snd (sql_update fault (\<lambda>r. d_id r = i) (\<lambda>r. r\<lparr>d_hash := None, d_updated_at := now\<rparr>) db)"

definition drain_cancelled_hashes ::
  "sqlx_error option \<Rightarrow> downloads \<Rightarrow> (nat, sqlx_error) result \<times> downloads" where
  [row_defs]: "drain_cancelled_hashes fault =
     sql_update fault (\<lambda>r. has_status r Cancelled \<and> d_hash r \<noteq> None) (\<lambda>r. r\<lparr>d_hash := None\<rparr>)"

definition settle_seeding ::
  "sqlx_error option \<Rightarrow> timestamp \<Rightarrow> int \<Rightarrow> string option \<Rightarrow> downloads
    \<Rightarrow> (nat, sqlx_error) result \<times> downloads" where
  [row_defs]: "settle_seeding fault now i err db =
     best_effort (case err of
        Some msg \<Rightarrow> sql_update fault (\<lambda>r. d_id r = i \<and> has_status r Seeding)
          (\<lambda>r. r\<lparr>d_status := as_str Complete, d_error := Some msg, d_updated_at := now\<rparr>) db
      | None \<Rightarrow> sql_update fault (\<lambda>r. d_id r = i \<and> has_status r Seeding)
          (\<lambda>r. r\<lparr>d_status := as_str Complete, d_updated_at := now\<rparr>) db)"

definition refresh_seeding_stats ::
  "sqlx_error option \<Rightarrow> timestamp \<Rightarrow> int \<Rightarrow> f32 \<Rightarrow> int \<Rightarrow> int \<Rightarrow> int \<Rightarrow> downloads
    \<Rightarrow> (nat, sqlx_error) result \<times> downloads" where
  [row_defs]: "refresh_seeding_stats fault now i ratio up_speed_bps num_seeds speed_bps db =
     best_effort (sql_update fault (\<lambda>r. d_id r = i \<and> has_status r Seeding)
       (\<lambda>r. r\<lparr>d_ratio := Some ratio, d_up_speed_bps := Some up_speed_bps,
              d_num_seeds := Some num_seeds, d_speed_bps := Some speed_bps, d_updated_at := now\<rparr>) db)"

definition refresh_progress ::
  "sqlx_error option \<Rightarrow> timestamp \<Rightarrow> int \<Rightarrow> f32 \<Rightarrow> int \<Rightarrow> downloads \<Rightarrow> (nat, sqlx_error) result \<times> downloads" where
  [row_defs]: "refresh_progress fault now i progress speed_bps db =
     best_effort (sql_update fault (\<lambda>r. d_id r = i)
       (\<lambda>r. r\<lparr>d_progress := progress, d_speed_bps := Some speed_bps, d_updated_at := now\<rparr>) db)"

definition retry_interrupted_directs ::
  "sqlx_error option \<Rightarrow> timestamp \<Rightarrow> downloads \<Rightarrow> (nat, sqlx_error) result \<times> downloads" where
  [row_defs]: "retry_interrupted_directs fault now =
     sql_update fault (\<lambda>r. has_status r Downloading \<and> zim_url_predicate (d_url r))
       (\<lambda>r. r\<lparr>d_status := as_str Queued, d_file_path := None, d_error := None, d_updated_at := now\<rparr>)"

definition apply_stats_batch ::
  "sqlx_error option \<Rightarrow> timestamp
    \<Rightarrow> (int \<times> f32 \<times> int \<times> int option \<times> f32 option \<times> int \<times> int) list \<Rightarrow> downloads
    \<Rightarrow> (nat, sqlx_error) result \<times> downloads" where
  [row_defs]: "apply_stats_batch fault now changed db =
     (if changed = [] then (Ok 0, db)
      else sql_update fault (\<lambda>r. map_of changed (d_id r) \<noteq> None)
        (\<lambda>r. case map_of changed (d_id r) of
               Some (progress, speed, eta, ratio, up_speed, seeds) \<Rightarrow>
                 r\<lparr>d_progress := progress, d_speed_bps := Some speed, d_eta_secs := eta,
                   d_ratio := ratio, d_up_speed_bps := Some up_speed, d_num_seeds := Some seeds,
                   d_updated_at := now\<rparr>
             | None \<Rightarrow> r) db)"

text \<open>A fresh row: the columns an \<open>INSERT\<close> does not name take the table's defaults.\<close>

definition default_row :: "timestamp \<Rightarrow> string \<Rightarrow> string \<Rightarrow> string \<Rightarrow> int \<Rightarrow> download_row" where
  "default_row now name url status i =
     \<lparr>d_id = i, d_name = name, d_url = url, d_hash = None, d_status = status, d_progress = 0,
      d_speed_bps = None, d_eta_secs = None, d_file_path = None, d_error = None,
      d_created_at = now, d_updated_at = now, d_ratio = None, d_up_speed_bps = None,
      d_num_seeds = None, d_sha256 = None\<rparr>"

definition adopt_torrent ::
  "sqlx_error option \<Rightarrow> timestamp \<Rightarrow> string \<Rightarrow> string \<Rightarrow> download_status \<Rightarrow> f32 \<Rightarrow> downloads
    \<Rightarrow> (nat, sqlx_error) result \<times> downloads" where
  "adopt_torrent fault now name hash status progress db =
     best_effort
       (if \<exists>r\<in>set (rows db). d_hash r = Some hash
        then (case fault of Some e \<Rightarrow> (Err e, db) | None \<Rightarrow> (Ok 0, db))
        else (case sql_insert fault
                (\<lambda>i. (default_row now name (''qbt://'' @ hash) (as_str status) i)
                       \<lparr>d_hash := Some hash, d_progress := progress\<rparr>) db of
                (Inr _, db') \<Rightarrow> (Ok 1, db')
              | (Inl e, db') \<Rightarrow> (Err e, db')))"

section \<open>Queue access\<close>

datatype insert_outcome = Inserted int | Duplicate

text \<open>\<open>fault1\<close> hits the pre-check, \<open>fault2\<close> the insert; \<open>between\<close> is what other connections did to
  the table after the pre-check.\<close>

definition insert_download ::
  "sqlx_error option \<Rightarrow> sqlx_error option \<Rightarrow> timestamp \<Rightarrow> string \<Rightarrow> string \<Rightarrow> (downloads \<Rightarrow> downloads)
    \<Rightarrow> downloads \<Rightarrow> (insert_outcome, error) result \<times> downloads" where
  "insert_download fault1 fault2 now name url between db =
     (case fault1 of
        Some e \<Rightarrow> (Err (Database e), db)
      | None \<Rightarrow>
          if \<exists>r\<in>set (rows db). (d_url r = url \<or> d_name r = name) \<and> is_active r
          then (Ok Duplicate, db)
          else (case sql_insert fault2 (default_row now name url (as_str Queued)) (between db) of
                  (Inr i, db') \<Rightarrow> (Ok (Inserted i), db')
                | (Inl e, db') \<Rightarrow>
                    (if is_unique_violation e then (Ok Duplicate, db')
                     else (Err (Database e), db'))))"

datatype cancel_outcome = Was_cancelled int | Not_found | Not_cancellable string

definition cancel_download ::
  "sqlx_error option \<Rightarrow> sqlx_error option \<Rightarrow> timestamp \<Rightarrow> int \<Rightarrow> downloads
    \<Rightarrow> (cancel_outcome, error) result \<times> downloads" where
  "cancel_download fault1 fault2 now i db =
     (case sql_update fault1 (\<lambda>r. d_id r = i \<and> (has_status r Queued \<or> has_status r Downloading))
             (\<lambda>r. r\<lparr>d_status := as_str Cancelled, d_updated_at := now\<rparr>) db of
        (Inl e, db') \<Rightarrow> (Err (Database e), db')
      | (Inr updated, db') \<Rightarrow>
          if updated > 0 then (Ok (Was_cancelled i), db')
          else (case fault2 of
                  Some e \<Rightarrow> (Err (Database e), db')
                | None \<Rightarrow> (case row_by_id db' i of
                             Some r \<Rightarrow> (Ok (Not_cancellable (d_status r)), db')
                           | None \<Rightarrow> (Ok Not_found, db'))))"

section \<open>The contract of a lifecycle statement\<close>

text \<open>The edges rows really move along: the documented graph, and the settlement of a reinstalled
  \<open>complete\<close> row to \<open>seeding\<close> that \<open>mark_complete\<close> also performs.\<close>

definition status_step :: "download_status \<Rightarrow> download_status \<Rightarrow> bool" where
  "status_step a b \<longleftrightarrow> a = b \<or> can_transition_to a b \<or> (a = Complete \<and> b = Seeding)"

definition same_identity :: "download_row \<Rightarrow> download_row \<Rightarrow> bool" where
  "same_identity r r' \<longleftrightarrow> d_id r' = d_id r \<and> d_name r' = d_name r \<and> d_url r' = d_url r
     \<and> d_created_at r' = d_created_at r"

definition lawful :: "(download_row \<Rightarrow> bool) \<Rightarrow> (download_row \<Rightarrow> download_row) \<Rightarrow> bool" where
  "lawful guard change \<longleftrightarrow>
     (\<forall>r. guard r \<longrightarrow> same_identity r (change r) \<and>
        (\<forall>a. d_status r = as_str a \<longrightarrow> (\<exists>b. d_status (change r) = as_str b \<and> status_step a b)))"

definition db_inv :: "downloads \<Rightarrow> bool" where
  "db_inv db \<longleftrightarrow> distinct (map d_id (rows db)) \<and> (\<forall>r\<in>set (rows db). d_id r < next_id db)
     \<and> unique_conflict (rows db) = None \<and> (\<forall>r\<in>set (rows db). \<exists>st. d_status r = as_str st)"

text \<open>\<open>row_evolves db db'\<close>: every row is still there under its id, name and URL, and its status moved
  along an edge.\<close>

definition row_evolves :: "downloads \<Rightarrow> downloads \<Rightarrow> bool" where
  "row_evolves db db' \<longleftrightarrow>
     (\<forall>i r. row_by_id db i = Some r \<longrightarrow>
        (\<exists>r' a b. row_by_id db' i = Some r' \<and> same_identity r r'
           \<and> d_status r = as_str a \<and> d_status r' = as_str b \<and> status_step a b))"

lemma row_by_id_SomeD: "row_by_id db i = Some r \<Longrightarrow> r \<in> set (rows db) \<and> d_id r = i"
  by (auto simp: row_by_id_def find_Some_split)

lemma row_by_id_map:
  "(\<And>r. r \<in> set (rows db) \<Longrightarrow> d_id (h r) = d_id r) \<Longrightarrow>
     row_by_id (db\<lparr>rows := map h (rows db)\<rparr>) i = map_option h (row_by_id db i)"
proof -
  have "find (\<lambda>r. d_id r = i) (map h rs) = map_option h (find (\<lambda>r. d_id r = i) rs)"
    if "\<And>r. r \<in> set rs \<Longrightarrow> d_id (h r) = d_id r" for rs
    using that by (induction rs) auto
  then show "(\<And>r. r \<in> set (rows db) \<Longrightarrow> d_id (h r) = d_id r) \<Longrightarrow> ?thesis"
    by (simp add: row_by_id_def)
qed

lemma snd_best_effort [simp]: "snd (best_effort out) = snd out"
  by (auto simp: best_effort_def split: prod.splits sum.splits)

lemma sql_update_cases:
  obtains "snd (sql_update fault guard change db) = db"
  | "snd (sql_update fault guard change db) =
       db\<lparr>rows := map (\<lambda>r. if guard r then change r else r) (rows db)\<rparr>"
    "unique_conflict (map (\<lambda>r. if guard r then change r else r) (rows db)) = None"
  by (cases fault; cases "unique_conflict (map (\<lambda>r. if guard r then change r else r) (rows db))")
     (auto simp: sql_update_def commit_rows_def)

lemma row_evolves_refl: "db_inv db \<Longrightarrow> row_evolves db db"
  unfolding row_evolves_def
  by (metis db_inv_def row_by_id_SomeD same_identity_def status_step_def)

lemma db_inv_map:
  assumes "db_inv db" and "\<And>r. d_id (h r) = d_id r"
    and "\<And>r. r \<in> set (rows db) \<Longrightarrow> \<exists>st. d_status (h r) = as_str st"
    and "unique_conflict (map h (rows db)) = None"
  shows "db_inv (db\<lparr>rows := map h (rows db)\<rparr>)"
proof -
  have "map d_id (map h (rows db)) = map d_id (rows db)"
    using assms(2) by simp
  then show ?thesis
    using assms unfolding db_inv_def by (simp add: o_def)
qed

lemma lawful_update_inv:
  assumes "db_inv db" and "lawful guard change"
  shows "db_inv (snd (sql_update fault guard change db))"
proof (cases rule: sql_update_cases [of fault guard change db])
  case 2
  show ?thesis
    unfolding 2(1)
  proof (rule db_inv_map [OF assms(1) _ _ 2(2)])
    show "d_id (if guard r then change r else r) = d_id r" for r
      using assms(2) by (simp add: lawful_def same_identity_def)
    show "\<exists>st. d_status (if guard r then change r else r) = as_str st" if "r \<in> set (rows db)" for r
      using assms that by (fastforce simp: db_inv_def lawful_def)
  qed
qed (use assms(1) in simp)

lemma lawful_update_evolves:
  assumes "db_inv db" and "lawful guard change"
  shows "row_evolves db (snd (sql_update fault guard change db))"
proof (cases rule: sql_update_cases [of fault guard change db])
  case 2
  let ?h = "\<lambda>r. if guard r then change r else r"
  have id: "d_id (?h r) = d_id r" for r
    using assms(2) by (simp add: lawful_def same_identity_def)
  show ?thesis
    unfolding row_evolves_def
  proof (intro allI impI)
    fix i r assume r: "row_by_id db i = Some r"
    from r id have "row_by_id (snd (sql_update fault guard change db)) i = Some (?h r)"
      by (simp add: 2(1) row_by_id_map)
    moreover obtain a where a: "d_status r = as_str a"
      using assms(1) row_by_id_SomeD [OF r] by (auto simp: db_inv_def)
    moreover have "same_identity r (?h r) \<and> (\<exists>b. d_status (?h r) = as_str b \<and> status_step a b)"
      using assms(2) a by (auto simp: lawful_def same_identity_def status_step_def)
    ultimately show "\<exists>r' a b. row_by_id (snd (sql_update fault guard change db)) i = Some r' \<and>
        same_identity r r' \<and> d_status r = as_str a \<and> d_status r' = as_str b \<and> status_step a b"
      by blast
  qed
qed (use assms(1) row_evolves_refl in simp)

locale status_update =
  fixes stmt :: "downloads \<Rightarrow> downloads"
  assumes effect: "\<exists>fault guard change. lawful guard change \<and> stmt db = snd (sql_update fault guard change db)"
begin

lemma keeps_inv: "db_inv db \<Longrightarrow> db_inv (stmt db)"
  using effect [of db] lawful_update_inv by metis

lemma evolves: "db_inv db \<Longrightarrow> row_evolves db (stmt db)"
  using effect [of db] lawful_update_evolves by metis

lemma keeps_sequence: "next_id (stmt db) = next_id db"
proof -
  obtain fault guard change where "stmt db = snd (sql_update fault guard change db)"
    using effect by blast
  then show ?thesis
    by (cases rule: sql_update_cases [of fault guard change db]) simp_all
qed

lemma keeps_ids: "map d_id (rows (stmt db)) = map d_id (rows db)"
proof -
  obtain fault guard change where l: "lawful guard change"
    and e: "stmt db = snd (sql_update fault guard change db)"
    using effect by blast
  then show ?thesis
    by (cases rule: sql_update_cases [of fault guard change db])
       (auto simp: lawful_def same_identity_def)
qed

end

lemma lawful_stmt:
  "lawful guard change \<Longrightarrow>
     \<exists>fault' guard' change'. lawful guard' change'
       \<and> snd (sql_update fault guard change db) = snd (sql_update fault' guard' change' db)"
  by blast

lemma lawful_skip: "\<exists>fault guard change. lawful guard change \<and> db = snd (sql_update fault guard change db)"
  by (rule exI [of _ "Some PoolClosed"], rule exI [of _ "\<lambda>_. False"], rule exI [of _ id])
     (simp add: lawful_def sql_update_def)

lemmas lawful_simps = lawful_def same_identity_def status_step_def
  fatal_guard_statuses_def completion_guard_statuses_def

interpretation claim_direct: status_update "\<lambda>db. snd (claim_direct fault now i part db)"
  for fault now i part
  by unfold_locales (unfold row_defs, rule lawful_stmt, auto simp: lawful_simps)

interpretation mark_error: status_update "mark_error fault now i msg" for fault now i msg
proof unfold_locales
  have "lawful (\<lambda>r. d_id r = i \<and> d_status r \<notin> {as_str Cancelled, as_str Complete, as_str Seeding, as_str Error})
      (\<lambda>r. r\<lparr>d_status := as_str Error, d_error := Some msg, d_updated_at := now\<rparr>)"
    unfolding lawful_def same_identity_def status_step_def
    by (auto intro!: exI [of _ Error]) (metis can_transition_to.simps(1,2) download_status.exhaust insertCI)
  then show "\<exists>fault' guard change. lawful guard change
      \<and> mark_error fault now i msg db = snd (sql_update fault' guard change db)" for db
    unfolding mark_error_def by (rule lawful_stmt)
qed

interpretation mark_fatal_error: status_update "\<lambda>db. snd (mark_fatal_error fault now i msg db)"
  for fault now i msg
  by unfold_locales (unfold row_defs snd_best_effort, rule lawful_stmt, auto simp: lawful_simps)

interpretation requeue_stale_errors: status_update "\<lambda>db. snd (requeue_stale_errors fault now ids db)"
  for fault now ids
proof unfold_locales
  fix db
  show "\<exists>fault' guard change. lawful guard change
      \<and> snd (requeue_stale_errors fault now ids db) = snd (sql_update fault' guard change db)"
    by (cases "ids = []")
       (simp_all add: requeue_stale_errors_def lawful_skip, rule lawful_stmt, auto simp: lawful_simps)
qed

interpretation finalize_direct: status_update "\<lambda>db. snd (finalize_direct fault now i dst sha db)"
  for fault now i dst sha
  by unfold_locales (unfold row_defs, rule lawful_stmt, auto simp: lawful_simps)

interpretation record_observed_digest: status_update "\<lambda>db. snd (record_observed_digest fault now i sha db)"
  for fault now i sha
  by unfold_locales (unfold row_defs, rule lawful_stmt, auto simp: lawful_simps)

interpretation mark_complete:
  status_update "\<lambda>db. snd (mark_complete fault now i dst new_status ratio up seeds db)"
  for fault now i dst new_status ratio up seeds
proof unfold_locales
  fix db
  show "\<exists>fault' guard change. lawful guard change
      \<and> snd (mark_complete fault now i dst new_status ratio up seeds db) = snd (sql_update fault' guard change db)"
    unfolding mark_complete_def
    by (cases "new_status = Seeding"; simp only: if_True if_False simp_thms; rule lawful_stmt)
       (auto simp: lawful_simps)
qed

interpretation mark_downloading: status_update "\<lambda>db. snd (mark_downloading fault now i db)"
  for fault now i
  by unfold_locales (unfold row_defs snd_best_effort, rule lawful_stmt, auto simp: lawful_simps)

interpretation bind_hash: status_update "\<lambda>db. snd (bind_hash fault now i hash db)"
  for fault now i hash
  by unfold_locales (unfold row_defs snd_best_effort, rule lawful_stmt, auto simp: lawful_simps)

interpretation touch_downloading: status_update "\<lambda>db. snd (touch_downloading fault now i db)"
  for fault now i
  by unfold_locales (unfold row_defs snd_best_effort, rule lawful_stmt, auto simp: lawful_simps)

interpretation clear_hash: status_update "clear_hash fault now i" for fault now i
  by unfold_locales (unfold row_defs, rule lawful_stmt, auto simp: lawful_simps)

interpretation drain_cancelled_hashes: status_update "\<lambda>db. snd (drain_cancelled_hashes fault db)"
  for fault
  by unfold_locales (unfold row_defs, rule lawful_stmt, auto simp: lawful_simps)

interpretation settle_seeding: status_update "\<lambda>db. snd (settle_seeding fault now i err db)"
  for fault now i err
proof unfold_locales
  fix db
  show "\<exists>fault' guard change. lawful guard change
      \<and> snd (settle_seeding fault now i err db) = snd (sql_update fault' guard change db)"
    by (cases err; simp only: settle_seeding_def snd_best_effort option.case; rule lawful_stmt)
       (auto simp: lawful_simps)
qed

interpretation refresh_seeding_stats:
  status_update "\<lambda>db. snd (refresh_seeding_stats fault now i ratio up seeds speed db)"
  for fault now i ratio up seeds speed
  by unfold_locales (unfold row_defs snd_best_effort, rule lawful_stmt, auto simp: lawful_simps)

interpretation refresh_progress: status_update "\<lambda>db. snd (refresh_progress fault now i progress speed db)"
  for fault now i progress speed
  by unfold_locales (unfold row_defs snd_best_effort, rule lawful_stmt, auto simp: lawful_simps)

interpretation retry_interrupted_directs: status_update "\<lambda>db. snd (retry_interrupted_directs fault now db)"
  for fault now
  by unfold_locales (unfold row_defs, rule lawful_stmt, auto simp: lawful_simps)

interpretation apply_stats_batch: status_update "\<lambda>db. snd (apply_stats_batch fault now changed db)"
  for fault now changed
proof unfold_locales
  fix db
  show "\<exists>fault' guard change. lawful guard change
      \<and> snd (apply_stats_batch fault now changed db) = snd (sql_update fault' guard change db)"
    by (cases "changed = []"; simp only: apply_stats_batch_def if_True if_False)
       (simp add: lawful_skip, rule lawful_stmt, auto simp: lawful_simps split: option.splits)
qed

section \<open>Inserts\<close>

lemma sql_insert_cases:
  obtains "snd (sql_insert fault row db) = db"
  | "snd (sql_insert fault row db) = db\<lparr>next_id := next_id db + 1\<rparr>"
  | "snd (sql_insert fault row db) = \<lparr>rows = rows db @ [row (next_id db)], next_id = next_id db + 1\<rparr>"
    "unique_conflict (rows db @ [row (next_id db)]) = None"
  by (cases fault; cases "unique_conflict (rows db @ [row (next_id db)])")
     (auto simp: sql_insert_def commit_rows_def Let_def)

lemma sql_insert_inv:
  assumes inv: "db_inv db" and "d_id (row (next_id db)) = next_id db"
    and "\<exists>st. d_status (row (next_id db)) = as_str st"
  shows "db_inv (snd (sql_insert fault row db))"
proof (cases rule: sql_insert_cases [of fault row db])
  case 3
  show ?thesis
    unfolding 3(1) using assms 3(2) by (fastforce simp: db_inv_def)
qed (use inv in \<open>auto simp: db_inv_def\<close>)

lemma sql_insert_evolves:
  assumes inv: "db_inv db"
  shows "row_evolves db (snd (sql_insert fault row db))"
proof -
  have keep: "row_by_id (snd (sql_insert fault row db)) i = Some r" if r: "row_by_id db i = Some r" for i r
  proof (cases rule: sql_insert_cases [of fault row db])
    case 3
    have "find P (xs @ ys) = Some r" if "find P xs = Some r" for P and xs ys :: "download_row list"
      using that by (induction xs) (auto split: if_splits)
    with r 3(1) show ?thesis by (simp add: row_by_id_def)
  qed (use r in \<open>simp_all add: row_by_id_def\<close>)
  then show ?thesis
    using row_evolves_refl [OF inv] unfolding row_evolves_def by (metis option.inject)
qed

lemma snd_adopt_torrent:
  "\<exists>fault'. snd (adopt_torrent fault now name hash status progress db) =
     snd (sql_insert fault' (\<lambda>i. (default_row now name (''qbt://'' @ hash) (as_str status) i)
                       \<lparr>d_hash := Some hash, d_progress := progress\<rparr>) db)"
proof (cases "\<exists>r\<in>set (rows db). d_hash r = Some hash")
  case True
  then have "snd (adopt_torrent fault now name hash status progress db) = db"
    by (auto simp: adopt_torrent_def split: option.splits)
  then show ?thesis
    by (intro exI [of _ "Some PoolClosed"]) (simp add: sql_insert_def)
next
  case False
  then show ?thesis
    by (intro exI [of _ fault]) (auto simp: adopt_torrent_def split: prod.splits sum.splits)
qed

section \<open>The table's history\<close>

text \<open>One statement of the service on the table. Statements of concurrent tasks interleave, so the
  history of the table is any sequence of these steps.\<close>

inductive db_step :: "downloads \<Rightarrow> downloads \<Rightarrow> bool" where
  st_claim_direct: "db_step db (snd (claim_direct fault now i part db))"
| st_mark_error: "db_step db (mark_error fault now i msg db)"
| st_mark_fatal_error: "db_step db (snd (mark_fatal_error fault now i msg db))"
| st_requeue: "db_step db (snd (requeue_stale_errors fault now ids db))"
| st_finalize_direct: "db_step db (snd (finalize_direct fault now i dst sha db))"
| st_record_digest: "db_step db (snd (record_observed_digest fault now i digest db))"
| st_mark_complete: "db_step db (snd (mark_complete fault now i dst new_status ratio up seeds db))"
| st_mark_downloading: "db_step db (snd (mark_downloading fault now i db))"
| st_bind_hash: "db_step db (snd (bind_hash fault now i hash db))"
| st_touch: "db_step db (snd (touch_downloading fault now i db))"
| st_clear_hash: "db_step db (clear_hash fault now i db)"
| st_drain: "db_step db (snd (drain_cancelled_hashes fault db))"
| st_settle: "db_step db (snd (settle_seeding fault now i note db))"
| st_refresh_seeding: "db_step db (snd (refresh_seeding_stats fault now i rat up' seeds' speed db))"
| st_refresh_progress: "db_step db (snd (refresh_progress fault now i progress speed db))"
| st_retry_directs: "db_step db (snd (retry_interrupted_directs fault now db))"
| st_stats_batch: "db_step db (snd (apply_stats_batch fault now changed db))"
| st_adopt: "db_step db (snd (adopt_torrent fault now name hash status progress db))"
| st_insert: "db_step db (snd (sql_insert fault
     (\<lambda>i. (default_row now name url (as_str Queued) i)\<lparr>d_sha256 := claim\<rparr>) db))"
| st_cancel: "db_step db (snd (cancel_download fault fault2 now i db))"

inductive_cases db_stepE: "db_step db db'"

lemma snd_cancel_download:
  "snd (cancel_download fault fault2 now i db) =
     snd (sql_update fault (\<lambda>r. d_id r = i \<and> (has_status r Queued \<or> has_status r Downloading))
             (\<lambda>r. r\<lparr>d_status := as_str Cancelled, d_updated_at := now\<rparr>) db)"
  by (auto simp: cancel_download_def split: prod.splits sum.splits option.splits if_splits)

interpretation cancel_download: status_update "\<lambda>db. snd (cancel_download fault fault2 now i db)"
  for fault fault2 now i
  by unfold_locales (unfold snd_cancel_download, rule lawful_stmt, auto simp: lawful_simps)

lemma queued_row_inv:
  "db_inv db \<Longrightarrow> db_inv (snd (sql_insert fault
     (\<lambda>i. (default_row now name url (as_str Queued) i)\<lparr>d_sha256 := claim\<rparr>) db))"
  by (rule sql_insert_inv) (auto simp: default_row_def)

lemma adopt_torrent_inv:
  assumes "db_inv db"
  shows "db_inv (snd (adopt_torrent fault now name hash status progress db))"
proof -
  obtain fault' where e: "snd (adopt_torrent fault now name hash status progress db) =
     snd (sql_insert fault' (\<lambda>i. (default_row now name (''qbt://'' @ hash) (as_str status) i)
                       \<lparr>d_hash := Some hash, d_progress := progress\<rparr>) db)"
    using snd_adopt_torrent by blast
  show ?thesis
    unfolding e using assms by (rule sql_insert_inv) (auto simp: default_row_def)
qed

lemma adopt_torrent_evolves:
  "db_inv db \<Longrightarrow> row_evolves db (snd (adopt_torrent fault now name hash status progress db))"
  using snd_adopt_torrent sql_insert_evolves by metis

lemmas statement_inv =
  claim_direct.keeps_inv mark_error.keeps_inv mark_fatal_error.keeps_inv
  requeue_stale_errors.keeps_inv finalize_direct.keeps_inv record_observed_digest.keeps_inv
  mark_complete.keeps_inv mark_downloading.keeps_inv bind_hash.keeps_inv
  touch_downloading.keeps_inv clear_hash.keeps_inv drain_cancelled_hashes.keeps_inv
  settle_seeding.keeps_inv refresh_seeding_stats.keeps_inv refresh_progress.keeps_inv
  retry_interrupted_directs.keeps_inv apply_stats_batch.keeps_inv cancel_download.keeps_inv
  queued_row_inv adopt_torrent_inv

lemmas statement_evolves =
  claim_direct.evolves mark_error.evolves mark_fatal_error.evolves
  requeue_stale_errors.evolves finalize_direct.evolves record_observed_digest.evolves
  mark_complete.evolves mark_downloading.evolves bind_hash.evolves
  touch_downloading.evolves clear_hash.evolves drain_cancelled_hashes.evolves
  settle_seeding.evolves refresh_seeding_stats.evolves refresh_progress.evolves
  retry_interrupted_directs.evolves apply_stats_batch.evolves cancel_download.evolves
  sql_insert_evolves adopt_torrent_evolves

lemma db_step_inv: "db_step db db' \<Longrightarrow> db_inv db \<Longrightarrow> db_inv db'"
  by (erule db_stepE; simp only: statement_inv)

lemma db_step_evolves: "db_step db db' \<Longrightarrow> db_inv db \<Longrightarrow> row_evolves db db'"
  by (erule db_stepE; simp only: statement_evolves)

definition empty_downloads :: downloads where
  "empty_downloads = \<lparr>rows = [], next_id = 1\<rparr>"

lemma db_inv_empty: "db_inv empty_downloads"
  by (simp add: db_inv_def empty_downloads_def unique_conflict_def active_urls_def active_names_def)

interpretation statements: kept_invariant db_step db_inv
  by unfold_locales (rule db_step_inv)



text \<open>
  C3. Rows move along the lifecycle graph only. Any statement, under any fault, leaves every row in
  the table with its id, name and URL, and its status either unchanged or moved along an edge of
  \<open>can_transition_to\<close>; the one further edge is \<open>complete\<close> to \<open>seeding\<close>.
\<close>

theorem rows_follow_lifecycle:
  assumes "db_step db db'" and "db_inv db" and "row_by_id db i = Some r"
  shows "\<exists>r' a b. row_by_id db' i = Some r' \<and> same_identity r r'
    \<and> d_status r = as_str a \<and> d_status r' = as_str b
    \<and> (a = b \<or> can_transition_to a b \<or> (a = Complete \<and> b = Seeding))"
  using db_step_evolves [OF assms(1,2)] assms(3) unfolding row_evolves_def status_step_def by blast

definition one_row :: "download_status \<Rightarrow> downloads" where
  "one_row st = \<lparr>rows = [(default_row 0 ''wiki'' ''magnet:x'' (as_str st) 1)], next_id = 2\<rparr>"

lemma one_row_inv: "db_inv (one_row st)"
  by (auto simp: db_inv_def one_row_def default_row_def unique_conflict_def active_urls_def
      active_names_def)

lemma one_row_lookup: "row_by_id (one_row st) 1 = Some (default_row 0 ''wiki'' ''magnet:x'' (as_str st) 1)"
  by (simp add: row_by_id_def one_row_def default_row_def)

theorem rows_follow_lifecycle_witness:
  "\<exists>r' a b. row_by_id (snd (mark_downloading None 5 1 (one_row Queued))) 1 = Some r'
    \<and> same_identity (default_row 0 ''wiki'' ''magnet:x'' (as_str Queued) 1) r'
    \<and> as_str Queued = as_str a \<and> d_status r' = as_str b
    \<and> (a = b \<or> can_transition_to a b \<or> (a = Complete \<and> b = Seeding))"
  using rows_follow_lifecycle [OF st_mark_downloading one_row_inv one_row_lookup, of None 5 1 Queued]
  by (simp add: default_row_def)

lemma cancelled_step:
  assumes "db_step db db'" and "db_inv db" and "row_by_id db i = Some r" and "has_status r Cancelled"
  shows "\<exists>r'. row_by_id db' i = Some r' \<and> has_status r' Cancelled"
proof -
  obtain r' a b where r': "row_by_id db' i = Some r'" and a: "d_status r = as_str a"
    and b: "d_status r' = as_str b" and step: "status_step a b"
    using db_step_evolves [OF assms(1,2)] assms(3) unfolding row_evolves_def by blast
  from a assms(4) have "a = Cancelled" by simp
  with step have "b = Cancelled" by (auto simp: status_step_def)
  with r' b show ?thesis by auto
qed

text \<open>
  A cancel always wins. Once a row is cancelled it stays in the table and stays cancelled,
  whatever statements of the poller, of direct-download tasks and of request handlers run after,
  in any interleaving and under any database faults.
\<close>

theorem cancelled_is_terminal:
  assumes "db_step\<^sup>*\<^sup>* db db'" and "db_inv db" and "row_by_id db i = Some r"
    and "has_status r Cancelled"
  shows "\<exists>r'. row_by_id db' i = Some r' \<and> has_status r' Cancelled"
  using assms(1)
proof (induction rule: rtranclp_induct)
  case base
  then show ?case using assms(3,4) by blast
next
  case (step y z)
  then show ?case
    using cancelled_step statements.path_keeps [OF step.hyps(1) assms(2)] by blast
qed

theorem cancelled_is_terminal_witness:
  "\<exists>r'. row_by_id (snd (finalize_direct None 9 1 ''/zims/wiki.zim'' None (one_row Cancelled))) 1 = Some r'
     \<and> has_status r' Cancelled"
  by (rule cancelled_is_terminal [OF r_into_rtranclp [where r = db_step, OF st_finalize_direct] one_row_inv one_row_lookup])
     (simp add: default_row_def)

text \<open>
  The documented graph is not the whole machine. \<open>mark_complete\<close> on a reinstalled row moves
  it from \<open>complete\<close> to \<open>seeding\<close>, an edge \<open>can_transition_to\<close> does not have although the module
  documentation calls it the intended graph of every statement.
\<close>

theorem complete_to_seeding_outside_graph:
  "\<exists>r'. row_by_id (snd (mark_complete None 9 1 ''/zims/wiki.zim'' Seeding (Some 1) (Some 0) (Some 0)
            (one_row Complete))) 1 = Some r'
     \<and> has_status r' Seeding \<and> \<not> can_transition_to Complete Seeding"
  by (simp add: mark_complete_def sql_update_def commit_rows_def unique_conflict_def active_urls_def
      active_names_def is_active_def one_row_def default_row_def row_by_id_def
      completion_guard_statuses_def)

section \<open>Outcomes of the queue access\<close>

text \<open>What the unique indexes say of an appended row and of rows that leave the active states.\<close>

lemma unique_conflict_append:
  assumes "unique_conflict rs = None" and "is_active r"
  shows "(unique_conflict (rs @ [r]) = None) \<longleftrightarrow>
    \<not> (\<exists>x\<in>set rs. (d_url x = d_url r \<or> d_name x = d_name r) \<and> is_active x)"
  using assms
  by (simp add: unique_conflict_def active_urls_def active_names_def image_iff split: if_splits) metis

lemma unique_conflict_shrink:
  assumes "unique_conflict rs = None"
    and "\<And>r. r \<in> set rs \<Longrightarrow> is_active (h r) \<Longrightarrow> is_active r"
    and "\<And>r. r \<in> set rs \<Longrightarrow> d_url (h r) = d_url r \<and> d_name (h r) = d_name r"
  shows "unique_conflict (map h rs) = None"
proof -
  have "distinct (map f (filter is_active (map h rs)))"
    if "distinct (map f (filter is_active rs))" and "\<And>r. r \<in> set rs \<Longrightarrow> f (h r) = f r"
    for f :: "download_row \<Rightarrow> string"
    using that assms(2)
  proof (induction rs)
    case (Cons a rs)
    then show ?case by (auto split: if_splits)
  qed simp
  then show ?thesis
    using assms(1,3) by (simp add: unique_conflict_def active_urls_def active_names_def split: if_splits)
qed

lemma row_by_id_iff:
  "db_inv db \<Longrightarrow> row_by_id db i = Some r \<longleftrightarrow> r \<in> set (rows db) \<and> d_id r = i"
proof -
  have "find (\<lambda>r. d_id r = i) rs = Some r \<longleftrightarrow> r \<in> set rs \<and> d_id r = i" if "distinct (map d_id rs)" for rs
    using that by (induction rs) auto
  then show "db_inv db \<Longrightarrow> ?thesis" by (simp add: db_inv_def row_by_id_def)
qed

text \<open>
  Adding a download. Without database faults an insert never fails: it answers \<open>Duplicate\<close>
  when an active row had the URL or the name, or when a concurrent connection created one after
  the pre-check (only the id sequence is consumed then), and otherwise it appends exactly one queued
  row under the fresh id it returns.
\<close>

theorem insert_download_outcome:
  assumes "db_inv (between db)"
  shows "insert_download None None now name url between db =
    (let taken = (\<lambda>db. \<exists>r\<in>set (rows db). (d_url r = url \<or> d_name r = name) \<and> is_active r);
         db' = between db in
     if taken db then (Ok Duplicate, db)
     else if taken db' then (Ok Duplicate, db'\<lparr>next_id := next_id db' + 1\<rparr>)
     else (Ok (Inserted (next_id db')),
           \<lparr>rows = rows db' @ [default_row now name url (as_str Queued) (next_id db')],
            next_id = next_id db' + 1\<rparr>))"
proof -
  let ?new = "default_row now name url (as_str Queued) (next_id (between db))"
  have "unique_conflict (rows (between db)) = None" "is_active ?new"
    using assms by (auto simp: db_inv_def is_active_def default_row_def)
  note conflict = unique_conflict_append [OF this]
  show ?thesis
    using conflict
    by (cases "unique_conflict (rows (between db) @ [?new])")
       (auto simp: insert_download_def Let_def sql_insert_def commit_rows_def is_unique_violation_def
          default_row_def)
qed

theorem insert_download_outcome_witness:
  "insert_download None None 7 ''wiki'' ''http://h/wiki.zim'' (\<lambda>db. db) empty_downloads =
     (Ok (Inserted 1),
      \<lparr>rows = [default_row 7 ''wiki'' ''http://h/wiki.zim'' (as_str Queued) 1], next_id = 2\<rparr>)"
  using insert_download_outcome [where between = "\<lambda>db. db" and db = empty_downloads and now = 7
      and name = "''wiki''" and url = "''http://h/wiki.zim''", OF db_inv_empty]
  by (simp add: empty_downloads_def)

text \<open>
  Cancelling a download. Without database faults a cancel answers \<open>Not_found\<close> for an unknown
  id, cancels the row (and touches no other) when it is queued or downloading, and otherwise reports
  the row's status and changes nothing.
\<close>

theorem cancel_download_outcome:
  assumes "db_inv db"
  shows "cancel_download None None now i db =
    (case row_by_id db i of
       None \<Rightarrow> (Ok Not_found, db)
     | Some r \<Rightarrow>
         if is_active r
         then (Ok (Was_cancelled i),
               db\<lparr>rows := map (\<lambda>x. if d_id x = i
                               then x\<lparr>d_status := as_str Cancelled, d_updated_at := now\<rparr> else x) (rows db)\<rparr>)
         else (Ok (Not_cancellable (d_status r)), db))"
proof -
  let ?g = "\<lambda>r. d_id r = i \<and> is_active r"
  let ?h = "\<lambda>r. if ?g r then r\<lparr>d_status := as_str Cancelled, d_updated_at := now\<rparr> else r"
  have noconf: "unique_conflict (map ?h (rows db)) = None"
    by (rule unique_conflict_shrink) (use assms in \<open>auto simp: db_inv_def is_active_def split: if_splits\<close>)
  have unfold: "cancel_download None None now i db =
    (if filter ?g (rows db) \<noteq> [] then (Ok (Was_cancelled i), db\<lparr>rows := map ?h (rows db)\<rparr>)
     else (case row_by_id (db\<lparr>rows := map ?h (rows db)\<rparr>) i of
             Some r \<Rightarrow> (Ok (Not_cancellable (d_status r)), db\<lparr>rows := map ?h (rows db)\<rparr>)
           | None \<Rightarrow> (Ok Not_found, db\<lparr>rows := map ?h (rows db)\<rparr>)))"
    using noconf by (simp add: cancel_download_def sql_update_def commit_rows_def flip: is_active_def)
  show ?thesis
  proof (cases "\<exists>r\<in>set (rows db). ?g r")
    case True
    then obtain r where r: "r \<in> set (rows db)" "d_id r = i" "is_active r" by blast
    then have lookup: "row_by_id db i = Some r" using assms by (simp add: row_by_id_iff)
    have "map ?h (rows db) = map (\<lambda>x. if d_id x = i
        then x\<lparr>d_status := as_str Cancelled, d_updated_at := now\<rparr> else x) (rows db)"
      using r lookup row_by_id_iff [OF assms] by (intro map_cong) (auto, metis option.inject)
    with True r lookup show ?thesis
      by (simp add: unfold filter_empty_conv)
  next
    case False
    then have "map ?h (rows db) = rows db" by (intro map_idI) auto
    moreover have "filter ?g (rows db) = []" using False by (simp add: filter_empty_conv)
    ultimately show ?thesis
      using False row_by_id_SomeD by (simp add: unfold) (fastforce split: option.splits)
  qed
qed

theorem cancel_download_outcome_witness:
  "cancel_download None None 9 1 (one_row Complete) = (Ok (Not_cancellable ''complete''), one_row Complete)"
  using cancel_download_outcome [OF one_row_inv, of 9 1 Complete]
  by (simp add: one_row_lookup default_row_def is_active_def) (simp add: as_str.simps)

end
