(* ===== verification/Requeue.thy ===== *)
theory Requeue
  imports Downloads "HOL-Library.Finite_Map"
begin

text \<open>
  The bounded-retry guard of \<open>src/torrent/poller/requeue.rs\<close> and the requeue pass of the poller
  (\<open>requeue_stale_errors\<close> in \<open>src/torrent/poller/mod.rs\<close>).

  The guard map is a finite map from row ids to entries; counts are \<open>u32\<close> and pass numbers \<open>u64\<close>.
  \<open>char::is_alphanumeric\<close> outside ASCII is a table of the Unicode standard: the argument
  \<open>uni_alnum\<close> tells for the bytes of one non-ASCII character whether it is alphanumeric.

  The pass as a whole takes the database faults of its three statements and what other connections
  do to the table between them.
\<close>

section \<open>Definitions\<close>

definition REQUEUE_ERROR_PATTERN :: "string list" where
  "REQUEUE_ERROR_PATTERN = [''connect'', ''timeout'', ''refused'', ''unreachable'', ''connection'']"

text \<open>Postgres' \<open>error ~* pattern\<close> for an alternation of lower-case words.\<close>

definition matches_requeue_pattern :: "string \<Rightarrow> bool" where
  "matches_requeue_pattern msg =
     list_ex (\<lambda>word. str_contains (to_ascii_lowercase msg) word) REQUEUE_ERROR_PATTERN"

definition REQUEUE_GIVE_UP_AFTER :: u32 where "REQUEUE_GIVE_UP_AFTER = 3"
definition MAX_LAST_ERROR_TRACKED :: nat where "MAX_LAST_ERROR_TRACKED = 10000"
definition GUARD_STALE_AFTER_PASSES :: u64 where "GUARD_STALE_AFTER_PASSES = 100"

text \<open>The characters of a UTF-8 string: a byte and the continuation bytes after it.\<close>

declare length_dropWhile_le [termination_simp]

fun utf8_chars :: "string \<Rightarrow> string list" where
  "utf8_chars [] = []"
| "utf8_chars (c # cs) =
     (c # takeWhile is_continuation cs) # utf8_chars (dropWhile is_continuation cs)"

fun tokens :: "('a \<Rightarrow> bool) \<Rightarrow> 'a list \<Rightarrow> 'a list list" where
  "tokens P [] = [[]]"
| "tokens P (x # xs) =
     (if P x then (case tokens P xs of t # ts \<Rightarrow> (x # t) # ts | [] \<Rightarrow> [[x]]) else [] # tokens P xs)"

definition is_alphanumeric :: "(string \<Rightarrow> bool) \<Rightarrow> string \<Rightarrow> bool" where
  "is_alphanumeric uni_alnum ch =
     (case ch of
        [c] \<Rightarrow> (if ascii c < 128
               then is_ascii_digit c \<or> 65 \<le> ascii c \<and> ascii c \<le> 90 \<or> 97 \<le> ascii c \<and> ascii c \<le> 122
               else uni_alnum ch)
      | _ \<Rightarrow> uni_alnum ch)"

definition is_auth_error :: "(string \<Rightarrow> bool) \<Rightarrow> string \<Rightarrow> bool" where
  "is_auth_error uni_alnum msg =
     list_ex (\<lambda>code. list_ex (\<lambda>tok. concat tok = code)
                (tokens (is_alphanumeric uni_alnum) (utf8_chars msg))) [''401'', ''403'']"

definition should_give_up :: "(string \<times> u32) option \<Rightarrow> string \<Rightarrow> bool \<Rightarrow> bool" where
  "should_give_up prev msg is_auth =
     (if is_auth then False
      else (case prev of
              Some (pm, n) \<Rightarrow> pm = msg \<and> n \<ge> REQUEUE_GIVE_UP_AFTER - 1
            | None \<Rightarrow> False))"

record guard_entry =
  prev_msg :: string
  count :: u32
  last_seen :: u64

type_synonym guard_map = "(int, guard_entry) fmap"

definition guard_len :: "guard_map \<Rightarrow> nat" where
  "guard_len guard = fcard (fmdom guard)"

definition sweep_stale_guard_entries :: "guard_map \<Rightarrow> u64 \<Rightarrow> nat \<times> guard_map" where
  "sweep_stale_guard_entries guard pass =
     (let horizon = saturating_sub pass GUARD_STALE_AFTER_PASSES;
          kept = fmfilter (\<lambda>id. case fmlookup guard id of
                                  Some e \<Rightarrow> \<not> last_seen e < horizon | None \<Rightarrow> True) guard
      in (guard_len guard - guard_len kept, kept))"

datatype requeue_decision = Requeue | GiveUp

definition requeue_guard_step ::
  "(string \<Rightarrow> bool) \<Rightarrow> int \<Rightarrow> string \<Rightarrow> u64 \<Rightarrow> guard_map \<Rightarrow> requeue_decision \<times> guard_map" where
  "requeue_guard_step uni_alnum i msg pass guard =
     (let is_auth = is_auth_error uni_alnum msg;
          prev = map_option (\<lambda>e. (prev_msg e, count e)) (fmlookup guard i)
      in if should_give_up prev msg is_auth
         then (GiveUp, (case fmlookup guard i of
                          Some existing \<Rightarrow> fmupd i (existing\<lparr>last_seen := pass\<rparr>) guard
                        | None \<Rightarrow> guard))
         else
           (let n = (case prev of Some (m, k) \<Rightarrow> if m = msg then k + 1 else 1 | None \<Rightarrow> 1);
                entry = \<lparr>prev_msg = msg, count = n, last_seen = pass\<rparr>
            in (Requeue,
                case fmlookup guard i of
                  Some _ \<Rightarrow> fmupd i entry guard
                | None \<Rightarrow>
                    if guard_len guard \<ge> MAX_LAST_ERROR_TRACKED
                    then (let swept = snd (sweep_stale_guard_entries guard pass)
                          in if guard_len swept < MAX_LAST_ERROR_TRACKED then fmupd i entry swept
                             else swept)
                    else fmupd i entry guard)))"

type_synonym stale_row = "int \<times> string \<times> string" \<comment> \<open>id, name, error\<close>

fun best_ids :: "string set \<Rightarrow> (string \<rightharpoonup> int) \<Rightarrow> stale_row list \<Rightarrow> (string \<rightharpoonup> int)" where
  "best_ids active best [] = best"
| "best_ids active best ((i, name, _) # stale) =
     best_ids active
       (if name \<in> active then best
        else (case best name of
                Some prev \<Rightarrow> best(name \<mapsto> max prev i)
              | None \<Rightarrow> best(name \<mapsto> i))) stale"

definition filter_requeue_name_collisions :: "stale_row list \<Rightarrow> string set \<Rightarrow> stale_row list" where
  "filter_requeue_name_collisions stale active =
     (let best = best_ids active Map.empty stale
      in filter (\<lambda>(i, name, _). best name = Some i) stale)"

section \<open>The requeue pass\<close>

record requeue_state =
  last_error :: guard_map
  requeue_passes :: u64

definition TEN_MINUTES :: timestamp where "TEN_MINUTES = 600000000"

definition select_stale :: "timestamp \<Rightarrow> downloads \<Rightarrow> stale_row list" where
  "select_stale now db =
     map (\<lambda>r. (d_id r, d_name r, the (d_error r)))
       (filter (\<lambda>r. has_status r Error \<and> d_updated_at r < now - TEN_MINUTES
                    \<and> (case d_error r of Some e \<Rightarrow> matches_requeue_pattern e | None \<Rightarrow> False)) (rows db))"

fun guard_batch ::
  "(string \<Rightarrow> bool) \<Rightarrow> u64 \<Rightarrow> stale_row list \<Rightarrow> guard_map \<Rightarrow> int list \<times> guard_map" where
  "guard_batch uni_alnum pass [] guard = ([], guard)"
| "guard_batch uni_alnum pass ((i, _, msg) # cs) guard =
     (let (decision, guard') = requeue_guard_step uni_alnum i msg pass guard;
          (ids, guard'') = guard_batch uni_alnum pass cs guard'
      in (if decision = Requeue then i # ids else ids, guard''))"

text \<open>\<open>fault1\<close> and \<open>fault2\<close> hit the two queries, \<open>fault3\<close> the update; \<open>between1\<close> and \<open>between2\<close> are the
  changes other connections make before the second query and before the update.\<close>

definition requeue_pass ::
  "(string \<Rightarrow> bool) \<Rightarrow> sqlx_error option \<Rightarrow> sqlx_error option \<Rightarrow> sqlx_error option
    \<Rightarrow> (downloads \<Rightarrow> downloads) \<Rightarrow> (downloads \<Rightarrow> downloads) \<Rightarrow> timestamp
    \<Rightarrow> requeue_state \<Rightarrow> downloads \<Rightarrow> (unit, error) result \<times> requeue_state \<times> downloads" where
  "requeue_pass uni_alnum fault1 fault2 fault3 between1 between2 now st db =
     (let pass = requeue_passes st + 1;
          st = st\<lparr>requeue_passes := pass\<rparr>
      in case fault1 of
           Some e \<Rightarrow> (Err (Database e), st, db)
         | None \<Rightarrow>
             let stale = select_stale now db
             in if stale = [] then (Ok (), st, db)
                else
                  let db = between1 db
                  in case fault2 of
                       Some e \<Rightarrow> (Err (Database e), st, db)
                     | None \<Rightarrow>
                         let candidates = filter_requeue_name_collisions stale (set (active_names (rows db)))
                         in if candidates = [] then (Ok (), st, db)
                            else
                              let (ids, guard) = guard_batch uni_alnum pass candidates (last_error st);
                                  st = st\<lparr>last_error := guard\<rparr>;
                                  db = between2 db
                              in if ids = [] then (Ok (), st, db)
                                 else (case requeue_stale_errors fault3 now ids db of
                                         (Inl e, db) \<Rightarrow> (Err (Database e), st, db)
                                       | (Inr _, db) \<Rightarrow> (Ok (), st, db)))"

section \<open>The guard map\<close>

lemmas guard_defs = requeue_guard_step_def should_give_up_def REQUEUE_GIVE_UP_AFTER_def Let_def

lemma two_above_one [simp]: "\<not> (2::u32) \<le> 1"
  by (simp add: word_le_nat_alt)

lemma guard_len_upd: "guard_len g < n \<Longrightarrow> guard_len (fmupd i e g) \<le> n"
  by (simp add: guard_len_def fcard_finsert_if)

lemma guard_len_upd_existing: "fmlookup g i = Some e' \<Longrightarrow> guard_len (fmupd i e g) = guard_len g"
  by (simp add: guard_len_def fcard_finsert_if fmdomI)

lemma guard_len_filter: "guard_len (fmfilter P g) \<le> guard_len g"
  unfolding guard_len_def by (rule fcard_mono) auto

lemma sweep_lookup:
  "fmlookup (snd (sweep_stale_guard_entries g pass)) i =
     (case fmlookup g i of
        Some e \<Rightarrow> if last_seen e < saturating_sub pass GUARD_STALE_AFTER_PASSES then None else Some e
      | None \<Rightarrow> None)"
  by (auto simp: sweep_stale_guard_entries_def Let_def split: option.splits)

lemma sweep_len: "guard_len (snd (sweep_stale_guard_entries g pass)) \<le> guard_len g"
  by (simp add: sweep_stale_guard_entries_def Let_def guard_len_filter)

lemma guard_step_len:
  "guard_len g \<le> MAX_LAST_ERROR_TRACKED \<Longrightarrow>
     guard_len (snd (requeue_guard_step u i msg pass g)) \<le> MAX_LAST_ERROR_TRACKED"
  using sweep_len [of g pass]
  by (auto simp: requeue_guard_step_def Let_def guard_len_upd_existing intro: guard_len_upd
      split: option.split)

lemma guard_step_other:
  assumes "j \<noteq> i" and "fmlookup g j = Some e" and "\<not> last_seen e < saturating_sub pass GUARD_STALE_AFTER_PASSES"
  shows "fmlookup (snd (requeue_guard_step u i msg pass g)) j = Some e"
  using assms by (auto simp: requeue_guard_step_def Let_def sweep_lookup split: option.split)

definition run_guard :: "(string \<Rightarrow> bool) \<Rightarrow> (int \<times> string \<times> u64) list \<Rightarrow> guard_map \<Rightarrow> guard_map" where
  "run_guard u obs g = foldl (\<lambda>g (i, msg, pass). snd (requeue_guard_step u i msg pass g)) g obs"

lemma run_guard_len: "guard_len (run_guard u obs fmempty) \<le> MAX_LAST_ERROR_TRACKED"
proof (induction obs rule: rev_induct)
  case Nil
  then show ?case by (simp add: run_guard_def guard_len_def fcard.rep_eq)
next
  case (snoc x obs)
  then show ?case by (cases x) (simp add: run_guard_def guard_step_len)
qed

definition messages_of :: "int \<Rightarrow> (int \<times> string \<times> u64) list \<Rightarrow> string list" where
  "messages_of i obs = map (\<lambda>(_, msg, _). msg) (filter (\<lambda>(j, _). j = i) obs)"

definition repeated :: "string list \<Rightarrow> bool" where
  "repeated h \<longleftrightarrow> (\<exists>h' m. h = h' @ [m, m])"

text \<open>What the guard map knows of a row that produced the messages \<open>h\<close>, oldest first.\<close>

definition remembers :: "(string \<Rightarrow> bool) \<Rightarrow> string list \<Rightarrow> guard_entry option \<Rightarrow> bool" where
  "remembers u h entry \<longleftrightarrow>
     (case entry of
        None \<Rightarrow> h = []
      | Some e \<Rightarrow> h \<noteq> [] \<and> prev_msg e = last h
           \<and> (\<not> is_auth_error u (last h) \<longrightarrow> count e = (if repeated h then 2 else 1)))"

lemma repeated_snoc: "repeated (h @ [m]) \<longleftrightarrow> h \<noteq> [] \<and> last h = m"
  by (cases h rule: rev_cases) (auto simp: repeated_def)

lemma guard_step_remembers:
  assumes "remembers u h (fmlookup g i)" and "fmlookup g i \<noteq> None \<or> guard_len g < MAX_LAST_ERROR_TRACKED"
  shows "remembers u (h @ [msg]) (fmlookup (snd (requeue_guard_step u i msg pass g)) i)"
  using assms
  by (auto simp: guard_defs remembers_def repeated_snoc split: option.splits if_splits)

lemma guard_step_decides:
  assumes "remembers u h (fmlookup g i)"
  shows "fst (requeue_guard_step u i msg pass g) =
    (if \<not> is_auth_error u msg \<and> repeated h \<and> last h = msg then GiveUp else Requeue)"
  using assms
  by (auto simp: guard_defs remembers_def repeated_def split: option.splits if_splits)

lemma guard_step_frame:
  assumes "j \<noteq> i" and "fmlookup g i \<noteq> None \<or> guard_len g < MAX_LAST_ERROR_TRACKED"
  shows "fmlookup (snd (requeue_guard_step u i msg pass g)) j = fmlookup g j"
  using assms by (auto simp: requeue_guard_step_def Let_def split: option.split)

lemma messages_of_snoc:
  "messages_of i (obs @ [(j, msg, pass)]) = messages_of i obs @ (if j = i then [msg] else [])"
  by (simp add: messages_of_def)

lemma run_guard_snoc:
  "run_guard u (obs @ [(i, msg, pass)]) g = snd (requeue_guard_step u i msg pass (run_guard u obs g))"
  by (simp add: run_guard_def)

lemma room_for_row:
  assumes "\<And>j. remembers u (messages_of j obs) (fmlookup g j)"
    and "card (insert i (fst ` set obs)) \<le> MAX_LAST_ERROR_TRACKED"
  shows "fmlookup g i \<noteq> None \<or> guard_len g < MAX_LAST_ERROR_TRACKED"
proof (cases "fmlookup g i")
  case None
  have "j \<in> fst ` set obs" if "fmlookup g j \<noteq> None" for j
  proof (rule ccontr)
    assume "j \<notin> fst ` set obs"
    then have "messages_of j obs = []" by (force simp: messages_of_def filter_empty_conv)
    with assms(1) [of j] that show False by (auto simp: remembers_def split: option.splits)
  qed
  then have "fset (fmdom g) \<subseteq> fst ` set obs" by (auto simp: fmlookup_dom_iff)
  moreover have "i \<notin> fset (fmdom g)" using None by (simp add: fmdom_notI)
  ultimately have "insert i (fset (fmdom g)) \<subseteq> insert i (fst ` set obs)" by blast
  from card_mono [OF _ this] have "card (insert i (fset (fmdom g))) \<le> MAX_LAST_ERROR_TRACKED"
    using assms(2) by simp
  with \<open>i \<notin> fset (fmdom g)\<close> show ?thesis by (simp add: guard_len_def fcard.rep_eq)
qed simp

lemma run_guard_remembers:
  "card (fst ` set obs) \<le> MAX_LAST_ERROR_TRACKED \<Longrightarrow>
     remembers u (messages_of i obs) (fmlookup (run_guard u obs fmempty) i)"
proof (induction obs arbitrary: i rule: rev_induct)
  case Nil
  then show ?case by (simp add: run_guard_def remembers_def messages_of_def)
next
  case (snoc x obs)
  obtain j msg pass where x: "x = (j, msg, pass)" by (cases x)
  have fits: "card (insert j (fst ` set obs)) \<le> MAX_LAST_ERROR_TRACKED"
    using snoc.prems by (simp add: x)
  moreover have "card (fst ` set obs) \<le> card (insert j (fst ` set obs))"
    by (rule card_mono) auto
  ultimately have ih: "\<And>i. remembers u (messages_of i obs) (fmlookup (run_guard u obs fmempty) i)"
    using snoc.IH by simp
  note room = room_for_row [OF ih fits]
  show ?case
    unfolding x run_guard_snoc messages_of_snoc
    using guard_step_remembers [OF ih room] guard_step_frame [OF _ room] ih
    by (cases "j = i") auto
qed

text \<open>
  Bounded retry. As long as no more than \<open>MAX_LAST_ERROR_TRACKED\<close> rows cycle through the guard,
  whatever other rows it sees in between, the guard gives a row up exactly when its message is not a
  401/403 and is the third of a run of identical messages of that row (or a later one of the run):
  give-up is sticky, and any other message grants new attempts.
\<close>

theorem guard_gives_up_on_third:
  assumes "card (insert i (fst ` set obs)) \<le> MAX_LAST_ERROR_TRACKED"
  shows "fst (requeue_guard_step u i msg pass (run_guard u obs fmempty)) = GiveUp \<longleftrightarrow>
    \<not> is_auth_error u msg \<and> (\<exists>h. messages_of i obs = h @ [msg, msg])"
proof -
  have "card (fst ` set obs) \<le> card (insert i (fst ` set obs))"
    by (rule card_mono) auto
  with assms have "remembers u (messages_of i obs) (fmlookup (run_guard u obs fmempty) i)"
    by (intro run_guard_remembers) simp
  from guard_step_decides [OF this] show ?thesis by (auto simp: repeated_def)
qed

lemmas auth_eval = is_auth_error_def is_alphanumeric_def is_ascii_digit_def is_continuation_def
  ascii_def

theorem guard_gives_up_on_third_witness:
  "fst (requeue_guard_step (\<lambda>_. False) 7 ''refused: port 40152'' 3
     (run_guard (\<lambda>_. False) [(7, ''refused: port 40152'', 1), (8, ''timeout'', 1),
                             (7, ''refused: port 40152'', 2)] fmempty)) = GiveUp"
proof -
  let ?obs = "[(7, ''refused: port 40152'', 1), (8, ''timeout'', 1), (7, ''refused: port 40152'', 2)]
    :: (int \<times> string \<times> u64) list"
  have "card (insert 7 (fst ` set ?obs)) \<le> MAX_LAST_ERROR_TRACKED"
    by (simp add: MAX_LAST_ERROR_TRACKED_def card_insert_if)
  moreover have "\<not> is_auth_error (\<lambda>_. False) ''refused: port 40152''"
    by (simp add: auth_eval)
  moreover have "messages_of 7 ?obs = [] @ [''refused: port 40152'', ''refused: port 40152'']"
    by (simp add: messages_of_def)
  ultimately show ?thesis by (subst guard_gives_up_on_third) blast+
qed

text \<open>
  The guard map is bounded and forgets only the stale. It never holds more than
  \<open>MAX_LAST_ERROR_TRACKED\<close> entries, and a step for one row leaves the entry of every other row
  that was observed within the last \<open>GUARD_STALE_AFTER_PASSES\<close> passes as it is.
\<close>

theorem guard_bounded:
  "guard_len (run_guard u obs fmempty) \<le> MAX_LAST_ERROR_TRACKED
   \<and> (\<forall>i j msg pass e. j \<noteq> i \<longrightarrow> fmlookup (run_guard u obs fmempty) j = Some e
        \<longrightarrow> unat pass \<le> unat (last_seen e) + 100
        \<longrightarrow> fmlookup (run_guard u (obs @ [(i, msg, pass)]) fmempty) j = Some e)"
proof -
  have "\<not> last_seen e < saturating_sub pass GUARD_STALE_AFTER_PASSES"
    if "unat pass \<le> unat (last_seen e) + 100" for e :: guard_entry and pass
    using that by (auto simp: saturating_sub_def GUARD_STALE_AFTER_PASSES_def word_less_nat_alt
        unat_sub_if')
  then show ?thesis by (auto simp: run_guard_len run_guard_snoc guard_step_other)
qed

theorem guard_bounded_witness:
  "fmlookup (run_guard (\<lambda>_. False) [(7, ''timeout'', 1), (8, ''timeout'', 90)] fmempty) 7
     = Some \<lparr>prev_msg = ''timeout'', count = 1, last_seen = 1\<rparr>"
proof -
  have "fmlookup (run_guard (\<lambda>_. False) [(7, ''timeout'', 1)] fmempty) 7
      = Some \<lparr>prev_msg = ''timeout'', count = 1, last_seen = 1\<rparr>"
    by (simp add: run_guard_def guard_defs guard_len_def MAX_LAST_ERROR_TRACKED_def fcard.rep_eq)
  with guard_bounded [of "\<lambda>_. False" "[(7, ''timeout'', 1)]"] show ?thesis
    by (auto dest!: spec [of _ 8] spec [of _ 7])
qed

section \<open>The collision filter\<close>

lemma best_ids_Some:
  "best_ids active best stale n = Some k \<longleftrightarrow>
     (if n \<in> active then best n = Some k
      else (let ids = {j. \<exists>m. (j, n, m) \<in> set stale} \<union> set_option (best n)
            in k \<in> ids \<and> (\<forall>j\<in>ids. j \<le> k)))"
proof (induction active best stale rule: best_ids.induct)
  case (1 active best)
  then show ?case by (auto simp: Let_def)
next
  case (2 active best i name m stale)
  show ?case
  proof (cases "n = name \<and> n \<notin> active")
    case True
    then show ?thesis
      using 2 by (cases "best name") (auto simp: Let_def max_def split: if_splits)
  next
    case False
    then show ?thesis
      using 2 by (cases "best name") (auto simp: Let_def)
  qed
qed

text \<open>The candidates are the newest row of each name that no active row holds.\<close>

lemma filter_requeue_exact:
  "filter_requeue_name_collisions stale active =
     filter (\<lambda>(i, n, _). n \<notin> active \<and> (\<forall>(j, n', _)\<in>set stale. n' = n \<longrightarrow> j \<le> i)) stale"
  unfolding filter_requeue_name_collisions_def Let_def
  by (rule filter_cong; force simp: best_ids_Some Let_def split: if_splits)

lemma guard_batch_subset: "set (fst (guard_batch u pass cs g)) \<subseteq> fst ` set cs"
proof (induction cs arbitrary: g)
  case (Cons c cs)
  obtain i n m where "c = (i, n, m)" by (cases c)
  then show ?case
    using Cons [of "snd (requeue_guard_step u i m pass g)"]
    by (auto simp: split_beta Let_def split: if_splits)
qed simp

lemma distinct_active_iff:
  assumes "distinct (map d_id rs)"
  shows "distinct (map f (filter is_active rs)) \<longleftrightarrow>
    (\<forall>a\<in>set rs. \<forall>b\<in>set rs. is_active a \<longrightarrow> is_active b \<longrightarrow> f a = f b \<longrightarrow> d_id a = d_id b)"
proof -
  have "distinct rs" "inj_on d_id (set rs)" using assms by (simp_all add: distinct_map)
  then show ?thesis by (auto simp: distinct_map inj_on_def)
qed

lemma distinct_active_map:
  assumes "distinct (map d_id rs)" and "\<And>r. d_id (h r) = d_id r" and "\<And>r. f (h r) = f r"
    and "\<And>a b. a \<in> set rs \<Longrightarrow> is_active (h a) \<Longrightarrow> b \<in> set rs \<Longrightarrow> is_active (h b) \<Longrightarrow> f a = f b
      \<Longrightarrow> d_id a = d_id b"
  shows "distinct (map f (filter is_active (map h rs)))"
proof (subst distinct_active_iff)
  show "distinct (map d_id (map h rs))"
    using assms(1) by (simp add: o_def assms(2))
  show "\<forall>a\<in>set (map h rs). \<forall>b\<in>set (map h rs).
      is_active a \<longrightarrow> is_active b \<longrightarrow> f a = f b \<longrightarrow> d_id a = d_id b"
    by (simp add: assms(2,3)) (blast intro: assms(4))
qed

lemma select_stale_rows:
  "(i, n, m) \<in> set (select_stale now db) \<Longrightarrow>
     \<exists>r\<in>set (rows db). d_id r = i \<and> d_name r = n \<and> has_status r Error"
  by (auto simp: select_stale_def)

text \<open>Requeueing a subset of the filter's candidates keeps the names of the active rows distinct.\<close>

lemma requeue_keeps_names:
  assumes inv: "db_inv db"
    and sub: "set ids \<subseteq> fst ` set (filter_requeue_name_collisions (select_stale now db) (set (active_names (rows db))))"
  shows "distinct (active_names (map (\<lambda>r. if d_id r \<in> set ids \<and> has_status r Error
      then r\<lparr>d_status := as_str Queued, d_error := None, d_updated_at := now\<rparr> else r) (rows db)))"
    (is "distinct (active_names (map ?h (rows db)))")
proof -
  let ?stale = "select_stale now db" and ?act = "set (active_names (rows db))"
  have ids: "distinct (map d_id (rows db))" and names: "distinct (active_names (rows db))"
    using inv by (auto simp: db_inv_def unique_conflict_def split: if_splits)
  have [simp]: "d_id (?h r) = d_id r" "d_name (?h r) = d_name r" for r by auto
  have cand: "\<exists>m. (d_id r, d_name r, m) \<in> set ?stale \<and> d_name r \<notin> ?act
      \<and> (\<forall>(j, n', _)\<in>set ?stale. n' = d_name r \<longrightarrow> j \<le> d_id r)"
    if r: "r \<in> set (rows db)" "d_id r \<in> set ids" for r
  proof -
    obtain n m where c: "(d_id r, n, m) \<in> set (filter_requeue_name_collisions ?stale ?act)"
      using sub r(2) by fastforce
    then obtain r' where "r' \<in> set (rows db)" "d_id r' = d_id r" "d_name r' = n"
      using select_stale_rows by (fastforce simp: filter_requeue_exact)
    with ids r(1) have "n = d_name r" by (metis distinct_map inj_onD)
    with c show ?thesis by (auto simp: filter_requeue_exact)
  qed
  have same: "d_id a = d_id b"
    if a: "a \<in> set (rows db)" "is_active (?h a)" and b: "b \<in> set (rows db)" "is_active (?h b)"
      and eq: "d_name a = d_name b" for a b
  proof -
    consider "is_active a" "is_active b" | "is_active a" "d_id b \<in> set ids"
      | "d_id a \<in> set ids" "is_active b" | "d_id a \<in> set ids" "d_id b \<in> set ids"
      using a b by (auto split: if_splits)
    then show ?thesis
    proof cases
      case 1
      then show ?thesis
        using names [unfolded active_names_def distinct_active_iff [OF ids]] a(1) b(1) eq by blast
    next
      case 2
      with a(1) eq have "d_name b \<in> ?act" by (auto simp: active_names_def image_iff)
      with cand [OF b(1) 2(2)] show ?thesis by blast
    next
      case 3
      with b(1) eq have "d_name a \<in> ?act" by (auto simp: active_names_def image_iff)
      with cand [OF a(1) 3(1)] show ?thesis by blast
    next
      case 4
      obtain m m' where "(d_id a, d_name a, m) \<in> set ?stale" "(d_id b, d_name b, m') \<in> set ?stale"
        and "\<forall>(j, n', _)\<in>set ?stale. n' = d_name a \<longrightarrow> j \<le> d_id a"
        and "\<forall>(j, n', _)\<in>set ?stale. n' = d_name b \<longrightarrow> j \<le> d_id b"
        using cand [OF a(1) 4(1)] cand [OF b(1) 4(2)] by blast
      then have "d_id b \<le> d_id a" "d_id a \<le> d_id b" using eq by auto
      then show ?thesis by simp
    qed
  qed
  show ?thesis
    unfolding active_names_def by (rule distinct_active_map [OF ids _ _ same]) simp_all
qed

text \<open>
  The requeue pass and the unique indexes. Without database faults and without interference the
  pass either succeeds or fails on the URL index: the name index is never violated, whatever the
  table holds. When it fails, the table is unchanged.
\<close>

theorem requeue_pass_name_safe:
  assumes "db_inv db"
    and "requeue_pass u None None None (\<lambda>db. db) (\<lambda>db. db) now st db = (res, st', db')"
  shows "res = Ok ()
    \<or> res = Err (Database (DatabaseError (Some ''23505'') (Some ''idx_downloads_active_url''))) \<and> db' = db"
proof -
  let ?cs = "filter_requeue_name_collisions (select_stale now db) (set (active_names (rows db)))"
  let ?ids = "fst (guard_batch u (requeue_passes st + 1) ?cs (last_error st))"
  note names = requeue_keeps_names [OF assms(1) guard_batch_subset, of u "requeue_passes st + 1" now "last_error st"]
  show ?thesis
    using assms(2) names
    by (auto simp: requeue_pass_def Let_def split_beta requeue_stale_errors_def sql_update_def
        commit_rows_def unique_conflict_def split: if_splits sum.splits)
qed

theorem requeue_pass_name_safe_witness:
  "fst (requeue_pass (\<lambda>_. False) None None None (\<lambda>db. db) (\<lambda>db. db) 5
      \<lparr>last_error = fmempty, requeue_passes = 0\<rparr> (one_row Error)) = Ok ()"
  using requeue_pass_name_safe [OF one_row_inv, of "\<lambda>_. False" 5 "\<lparr>last_error = fmempty, requeue_passes = 0\<rparr>" Error]
  by (simp add: requeue_pass_def select_stale_def one_row_def default_row_def)

text \<open>A table in which a failed download was added again under another name: the active row 1 and
  the stale error row 2 share a URL, and row 3 has nothing to do with them.\<close>

definition readded :: downloads where
  "readded = \<lparr>rows =
     [default_row 0 ''a'' ''http://h/a.zim'' (as_str Queued) 1,
      (default_row 0 ''b'' ''http://h/a.zim'' (as_str Error) 2)\<lparr>d_error := Some ''timeout''\<rparr>,
      (default_row 0 ''c'' ''http://h/c.zim'' (as_str Error) 3)\<lparr>d_error := Some ''timeout''\<rparr>],
     next_id = 4\<rparr>"

lemmas table_eval = readded_def default_row_def unique_conflict_def active_urls_def active_names_def
  is_active_def as_str_inject

lemma readded_inv: "db_inv readded"
  by (auto simp: db_inv_def table_eval)

lemma readded_stale:
  "TEN_MINUTES < now \<Longrightarrow>
     filter_requeue_name_collisions (select_stale now readded) (set (active_names (rows readded))) =
       [(2, ''b'', ''timeout''), (3, ''c'', ''timeout'')]"
  by (simp add: select_stale_def table_eval matches_requeue_pattern_def REQUEUE_ERROR_PATTERN_def
      starts_with_def to_ascii_lowercase_def lower_char_def ascii_def filter_requeue_name_collisions_def)

lemma readded_update:
  "requeue_stale_errors None now [2, 3] readded =
     (Err (DatabaseError (Some ''23505'') (Some ''idx_downloads_active_url'')), readded)"
  by (simp add: requeue_stale_errors_def sql_update_def commit_rows_def table_eval)

lemma timeout_not_auth: "\<not> is_auth_error (\<lambda>_. False) ''timeout''"
  by (simp add: auth_eval)

definition seen :: "u32 \<Rightarrow> u64 \<Rightarrow> guard_map" where
  "seen n p = fmupd 3 \<lparr>prev_msg = ''timeout'', count = n, last_seen = p\<rparr>
               (fmupd 2 \<lparr>prev_msg = ''timeout'', count = n, last_seen = p\<rparr> fmempty)"

lemmas batch_eval = seen_def guard_defs timeout_not_auth guard_len_def fcard.rep_eq
  MAX_LAST_ERROR_TRACKED_def fmupd_idem

lemma seen_batches:
  "guard_batch (\<lambda>_. False) p [(2, ''b'', ''timeout''), (3, ''c'', ''timeout'')] fmempty = ([2, 3], seen 1 p)"
  "guard_batch (\<lambda>_. False) p [(2, ''b'', ''timeout''), (3, ''c'', ''timeout'')] (seen 1 q) = ([2, 3], seen 2 p)"
  "guard_batch (\<lambda>_. False) p [(2, ''b'', ''timeout''), (3, ''c'', ''timeout'')] (seen 2 q) = ([], seen 2 p)"
  by (simp_all add: batch_eval, (rule fmap_ext, simp)+)

primrec readded_ticks :: "timestamp \<Rightarrow> nat \<Rightarrow> (unit, error) result \<times> requeue_state \<times> downloads" where
  "readded_ticks now 0 = (Ok (), \<lparr>last_error = fmempty, requeue_passes = 0\<rparr>, readded)"
| "readded_ticks now (Suc n) =
     (case readded_ticks now n of
        (_, st, db) \<Rightarrow> requeue_pass (\<lambda>_. False) None None None (\<lambda>db. db) (\<lambda>db. db) now st db)"

lemma nonempty_stale: "TEN_MINUTES < now \<Longrightarrow> select_stale now readded \<noteq> []"
  using readded_stale [of now] by (auto simp: filter_requeue_name_collisions_def)

lemma readded_pass:
  assumes "TEN_MINUTES < now"
    and "guard_batch (\<lambda>_. False) (p + 1) [(2, ''b'', ''timeout''), (3, ''c'', ''timeout'')] g = (ids, g')"
  shows "requeue_pass (\<lambda>_. False) None None None (\<lambda>db. db) (\<lambda>db. db) now
      \<lparr>last_error = g, requeue_passes = p\<rparr> readded =
    (let st = \<lparr>last_error = g', requeue_passes = p + 1\<rparr>
     in if ids = [] then (Ok (), st, readded)
        else (case requeue_stale_errors None now ids readded of
                (Inl e, db) \<Rightarrow> (Err (Database e), st, db) | (Inr _, db) \<Rightarrow> (Ok (), st, db)))"
  using assms(2)
  by (simp add: requeue_pass_def nonempty_stale [OF assms(1)] readded_stale [OF assms(1)] Let_def
      del: guard_batch.simps split: prod.split sum.split)

abbreviation url_conflict :: "(unit, error) result" where
  "url_conflict \<equiv> Err (Database (DatabaseError (Some ''23505'') (Some ''idx_downloads_active_url'')))"

lemma readded_ticks_12:
  assumes "TEN_MINUTES < now"
  shows "readded_ticks now (Suc 0) = (url_conflict, \<lparr>last_error = seen 1 1, requeue_passes = 1\<rparr>, readded)"
    and "readded_ticks now (Suc (Suc 0)) = (url_conflict, \<lparr>last_error = seen 2 2, requeue_passes = 2\<rparr>, readded)"
proof -
  show one: "readded_ticks now (Suc 0) = (url_conflict, \<lparr>last_error = seen 1 1, requeue_passes = 1\<rparr>, readded)"
    by (simp add: readded_pass [OF assms seen_batches(1)] readded_update)
  show "readded_ticks now (Suc (Suc 0)) = (url_conflict, \<lparr>last_error = seen 2 2, requeue_passes = 2\<rparr>, readded)"
    by (subst readded_ticks.simps(2), subst one)
       (simp add: readded_pass [OF assms seen_batches(2)] readded_update)
qed

lemma readded_ticks_later:
  assumes "TEN_MINUTES < now"
  shows "readded_ticks now (3 + n) =
    (Ok (), \<lparr>last_error = seen 2 (of_nat n + 3), requeue_passes = of_nat n + 3\<rparr>, readded)"
proof (induction n)
  case 0
  show ?case
    by (simp add: numeral_3_eq_3 del: readded_ticks.simps,
        subst readded_ticks.simps(2), subst readded_ticks_12 [OF assms])
       (simp add: readded_pass [OF assms seen_batches(3)])
next
  case (Suc n)
  have "readded_ticks now (3 + Suc n) = readded_ticks now (Suc (3 + n))" by simp
  then show ?case
    by (simp only: readded_ticks.simps(2) Suc.IH) (simp add: readded_pass [OF assms seen_batches(3)])
qed

text \<open>
  A failed download added again under another name blocks the retry of every other row. In the
  table above, the first two passes fail on the URL index, which fails the tick; each failure still
  counts as an attempt in the guard, so from the third pass on the guard gives up on both error
  rows. Row 3, which collides with nothing, is never queued again.
\<close>

theorem requeue_url_collision_starves:
  assumes "TEN_MINUTES < now"
  shows "fst (readded_ticks now 1) = url_conflict \<and> fst (readded_ticks now 2) = url_conflict
    \<and> (\<forall>n\<ge>3. fst (readded_ticks now n) = Ok () \<and> snd (snd (readded_ticks now n)) = readded)"
proof -
  have "fst (readded_ticks now n) = Ok () \<and> snd (snd (readded_ticks now n)) = readded" if "3 \<le> n" for n
    using readded_ticks_later [OF assms, of "n - 3"] that by simp
  then show ?thesis
    by (simp add: readded_ticks_12 [OF assms] numeral_2_eq_2 del: readded_ticks.simps)
qed

theorem requeue_url_collision_starves_witness:
  "fst (readded_ticks 600000001 1) = url_conflict
   \<and> snd (snd (readded_ticks 600000001 50)) = readded"
  using requeue_url_collision_starves [of 600000001]
  by (simp add: TEN_MINUTES_def del: readded_ticks.simps)


end
