(* ===== verification/Capped.thy ===== *)
theory Capped
  imports Prelude "HOL-Library.Finite_Map"
begin

text \<open>
  Bounded maps with oldest-first eviction, the pattern the auth-failure tracker
  (\<open>src/access/lockout.rs\<close>) and the verified-token caches (\<open>src/settings/auth.rs\<close>) share:
  \<open>map.iter().min_by_key(stamp)\<close> picks a victim when a new key meets a full map.

  The iteration order of a \<open>HashMap\<close> is unspecified, so it is an argument: a list with exactly the
  keys of the map. The locale \<open>evicting_map\<close> states what such a store promises; the two components
  interpret it.
\<close>

definition iterates :: "'k list \<Rightarrow> ('k, 'v) fmap \<Rightarrow> bool" where
  "iterates order m \<longleftrightarrow> distinct order \<and> set order = fset (fmdom m)"

text \<open>\<open>Iterator::min_by_key\<close>: the first of the minimal elements.\<close>

fun min_by_key :: "('a \<Rightarrow> nat) \<Rightarrow> 'a list \<Rightarrow> 'a option" where
  "min_by_key f [] = None"
| "min_by_key f (x # xs) =
     (case min_by_key f xs of None \<Rightarrow> Some x | Some y \<Rightarrow> if f y < f x then Some y else Some x)"

definition stamp_of :: "('v \<Rightarrow> nat) \<Rightarrow> ('k, 'v) fmap \<Rightarrow> 'k \<Rightarrow> nat" where
  "stamp_of stamp m k = (case fmlookup m k of Some v \<Rightarrow> stamp v | None \<Rightarrow> 0)"

definition evict_oldest :: "('v \<Rightarrow> nat) \<Rightarrow> 'k list \<Rightarrow> ('k, 'v) fmap \<Rightarrow> ('k, 'v) fmap" where
  "evict_oldest stamp order m =
     (case min_by_key (stamp_of stamp m) order of Some k \<Rightarrow> fmdrop k m | None \<Rightarrow> m)"

abbreviation map_len :: "('k, 'v) fmap \<Rightarrow> nat" where
  "map_len m \<equiv> fcard (fmdom m)"

lemma fcard_none [simp]: "fcard {||} = 0"
  by (simp add: fcard.rep_eq)

lemma min_by_key_None [simp]: "min_by_key f xs = None \<longleftrightarrow> xs = []"
  by (cases xs) (auto split: option.splits)

lemma min_by_key_Some: "min_by_key f xs = Some x \<Longrightarrow> x \<in> set xs \<and> (\<forall>y\<in>set xs. f x \<le> f y)"
  by (induction xs arbitrary: x) (force split: option.splits if_splits)+

lemma map_len_upd: "map_len m < n \<Longrightarrow> map_len (fmupd k v m) \<le> n"
  by (simp add: fcard_finsert_if)

lemma map_len_upd_existing: "fmlookup m k \<noteq> None \<Longrightarrow> map_len (fmupd k v m) = map_len m"
  by (auto simp: fcard_finsert_if fmdomI)

lemma map_len_evict:
  assumes "iterates order m"
  shows "map_len (evict_oldest stamp order m) = map_len m - 1"
proof (cases "min_by_key (stamp_of stamp m) order")
  case None
  then have "fmdom m = {||}" using assms by (auto simp: iterates_def)
  then show ?thesis using None by (simp add: evict_oldest_def)
next
  case (Some k)
  then have "k |\<in>| fmdom m" using assms min_by_key_Some by (force simp: iterates_def)
  then show ?thesis using Some by (simp add: evict_oldest_def)
qed

text \<open>Only an entry no younger than every other can be evicted.\<close>

lemma evict_oldest_keeps:
  assumes "iterates order m" and "fmlookup m j = Some v"
    and "fmlookup m i = Some w" and "stamp w < stamp v"
  shows "fmlookup (evict_oldest stamp order m) j = Some v"
proof (cases "min_by_key (stamp_of stamp m) order")
  case (Some k)
  from assms(1,3) have "i \<in> set order" by (auto simp: iterates_def fmdomI)
  with min_by_key_Some [OF Some] assms(3,4) have "stamp_of stamp m k < stamp v"
    by (force simp: stamp_of_def)
  with assms(2) have "j \<noteq> k" by (auto simp: stamp_of_def)
  with assms(2) Some show ?thesis by (simp add: evict_oldest_def)
qed (use assms(2) in \<open>simp add: evict_oldest_def\<close>)

lemma evict_oldest_subset: "fmlookup (evict_oldest stamp order m) k = Some v \<Longrightarrow> fmlookup m k = Some v"
  by (auto simp: evict_oldest_def split: option.splits if_splits)

text \<open>A store of stamped entries: \<open>put order now k m\<close> records key \<open>k\<close> at time \<open>now\<close>.\<close>

locale evicting_map =
  fixes cap :: nat and stamp :: "'v \<Rightarrow> nat"
    and put :: "'k list \<Rightarrow> nat \<Rightarrow> 'k \<Rightarrow> ('k, 'v) fmap \<Rightarrow> ('k, 'v) fmap"
  assumes cap_pos: "0 < cap"
    and put_len: "iterates order m \<Longrightarrow> map_len m \<le> cap \<Longrightarrow> map_len (put order now k m) \<le> cap"
    and put_key: "fmlookup (put order now k m) k \<noteq> None"
    and put_room: "map_len m < cap \<Longrightarrow> j \<noteq> k \<Longrightarrow> fmlookup (put order now k m) j = fmlookup m j"
    and put_old: "iterates order m \<Longrightarrow> j \<noteq> k \<Longrightarrow> fmlookup m j = Some v \<Longrightarrow> fmlookup m i = Some w
      \<Longrightarrow> stamp w < stamp v \<Longrightarrow> fmlookup (put order now k m) j = Some v"
begin

text \<open>Any number of recordings, each under the iteration order of its moment.\<close>

inductive recorded :: "('k, 'v) fmap \<Rightarrow> bool" where
  start: "recorded fmempty"
| put: "recorded m \<Longrightarrow> iterates order m \<Longrightarrow> recorded (put order now k m)"

lemma recorded_len: "recorded m \<Longrightarrow> map_len m \<le> cap"
  by (induction rule: recorded.induct) (use cap_pos put_len in auto)

end

end
