(* ===== verification/NetAddr.thy ===== *)
theory NetAddr
  imports Prelude "HOL-Library.List_Lexorder"
begin

text \<open>
  IP addresses as the standard library has them: \<open>IpAddr\<close> with the octets of an IPv4 and the segments
  of an IPv6 address, its total order, and the textual parser behind \<open>s.parse::<IpAddr>()\<close>
  (\<open>core::net::parser\<close>), which \<open>src/access/cidr.rs\<close> and \<open>src/netguard.rs\<close> use.

  A parser takes the input and returns a value with the rest of the input; like the library's
  \<open>read_atomically\<close>, a failed parser consumes nothing.
\<close>

section \<open>Addresses\<close>

datatype ip_addr =
    V4 u8 u8 u8 u8
  | V6 u16 u16 u16 u16 u16 u16 u16 u16

fun ip_key :: "ip_addr \<Rightarrow> nat list" where
  "ip_key (V4 a b c d) = [0, unat a, unat b, unat c, unat d]"
| "ip_key (V6 a b c d e f g h) =
     [1, unat a, unat b, unat c, unat d, unat e, unat f, unat g, unat h]"

lemma ip_key_inject [simp]: "ip_key a = ip_key b \<longleftrightarrow> a = b"
  by (cases a; cases b) (simp_all add: word_unat_eq_iff)

instantiation ip_addr :: linorder
begin

definition less_eq_ip_addr :: "ip_addr \<Rightarrow> ip_addr \<Rightarrow> bool" where
  "a \<le> b \<longleftrightarrow> ip_key a \<le> ip_key b"

definition less_ip_addr :: "ip_addr \<Rightarrow> ip_addr \<Rightarrow> bool" where
  "a < b \<longleftrightarrow> ip_key a < ip_key b"

instance
  by standard (auto simp: less_eq_ip_addr_def less_ip_addr_def order.strict_iff_order)

end

section \<open>The parser\<close>

type_synonym 'a parser = "string \<Rightarrow> ('a \<times> string) option"

definition read_given_char :: "char \<Rightarrow> unit parser" where
  "read_given_char c s = (case s of x # xs \<Rightarrow> if x = c then Some ((), xs) else None | [] \<Rightarrow> None)"

definition read_separator :: "char \<Rightarrow> nat \<Rightarrow> 'a parser \<Rightarrow> 'a parser" where
  "read_separator sep index inner s =
     (if index > 0 then Option.bind (read_given_char sep s) (\<lambda>(_, s'). inner s') else inner s)"

definition to_digit :: "nat \<Rightarrow> char \<Rightarrow> nat option" where
  "to_digit radix c =
     Option.bind (if is_ascii_digit c then Some (ascii c - 48)
                  else if 97 \<le> ascii c \<and> ascii c \<le> 122 then Some (ascii c - 87)
                  else if 65 \<le> ascii c \<and> ascii c \<le> 90 then Some (ascii c - 55)
                  else None)
       (\<lambda>d. if d < radix then Some d else None)"

text \<open>\<open>read_number\<close>: the longest run of digits, non-empty, at most \<open>max_digits\<close> long, its value within
  the target type, and without a leading zero where that is asked for.\<close>

definition read_number :: "nat \<Rightarrow> nat \<Rightarrow> bool \<Rightarrow> nat \<Rightarrow> nat parser" where
  "read_number radix max_digits allow_zero_prefix bound s =
     (let ds = takeWhile (\<lambda>c. to_digit radix c \<noteq> None) s;
          n = foldl (\<lambda>acc c. acc * radix + the (to_digit radix c)) 0 ds
      in if ds = [] \<or> length ds > max_digits \<or> n \<ge> bound
            \<or> (\<not> allow_zero_prefix \<and> hd ds = CHR ''0'' \<and> length ds > 1)
         then None else Some (n, drop (length ds) s))"

definition read_octet :: "nat \<Rightarrow> nat parser" where
  "read_octet i = read_separator CHR ''.'' i (read_number 10 3 False 256)"

definition read_ipv4_addr :: "(u8 \<times> u8 \<times> u8 \<times> u8) parser" where
  "read_ipv4_addr s =
     Option.bind (read_octet 0 s) (\<lambda>(a, s).
     Option.bind (read_octet 1 s) (\<lambda>(b, s).
     Option.bind (read_octet 2 s) (\<lambda>(c, s).
     Option.bind (read_octet 3 s) (\<lambda>(d, s).
       Some ((of_nat a, of_nat b, of_nat c, of_nat d), s)))))"

text \<open>Two octets as a segment (\<open>u16::from_be_bytes\<close>).\<close>

definition from_be_bytes :: "u8 \<Rightarrow> u8 \<Rightarrow> u16" where
  "from_be_bytes hi lo = or (push_bit 8 (ucast hi)) (ucast lo)"

fun read_groups :: "nat \<Rightarrow> nat \<Rightarrow> string \<Rightarrow> u16 list \<times> bool \<times> string" where
  "read_groups i 0 s = ([], False, s)"
| "read_groups i (Suc left) s =
     (case (if left > 0 then read_separator CHR '':'' i read_ipv4_addr s else None) of
        Some ((a, b, c, d), s') \<Rightarrow> ([from_be_bytes a b, from_be_bytes c d], True, s')
      | None \<Rightarrow>
          (case read_separator CHR '':'' i (read_number 16 4 True 65536) s of
             Some (g, s') \<Rightarrow>
               (let (gs, v4, s'') = read_groups (Suc i) left s' in (of_nat g # gs, v4, s''))
           | None \<Rightarrow> ([], False, s)))"

definition v6_of_list :: "u16 list \<Rightarrow> ip_addr option" where
  "v6_of_list gs = (case gs of [a, b, c, d, e, f, g, h] \<Rightarrow> Some (V6 a b c d e f g h) | _ \<Rightarrow> None)"

definition read_ipv6_addr :: "ip_addr parser" where
  "read_ipv6_addr s =
     (let (head, head_ipv4, s1) = read_groups 0 8 s
      in if length head = 8 then map_option (\<lambda>a. (a, s1)) (v6_of_list head)
         else if head_ipv4 then None
         else Option.bind (read_given_char CHR '':'' s1) (\<lambda>(_, s2).
              Option.bind (read_given_char CHR '':'' s2) (\<lambda>(_, s3).
                (let (tail, _, s4) = read_groups 0 (8 - (length head + 1)) s3
                 in map_option (\<lambda>a. (a, s4))
                      (v6_of_list (head @ replicate (8 - length head - length tail) 0 @ tail))))))"

definition read_ip_addr :: "ip_addr parser" where
  "read_ip_addr s =
     (case read_ipv4_addr s of
        Some ((a, b, c, d), s') \<Rightarrow> Some (V4 a b c d, s')
      | None \<Rightarrow> read_ipv6_addr s)"

text \<open>\<open>s.parse::<IpAddr>().ok()\<close>: the whole input must be consumed.\<close>

definition parse_ip :: "string \<Rightarrow> ip_addr option" where
  "parse_ip s = (case read_ip_addr s of Some (a, []) \<Rightarrow> Some a | _ \<Rightarrow> None)"

end
