(* ===== verification/Lockout.thy ===== *)
theory Lockout
  imports Capped NetAddr
begin

text \<open>
  The per-address auth-failure lockout of \<open>src/access/lockout.rs\<close>.

  Instants are nanoseconds of the monotonic clock and every clock reading of the code is an argument
  of its own, in the order the code takes them: \<open>lockout_remaining\<close> reads the clock twice, and so
  does \<open>record_failure\<close>. A panic while the mutex is held poisons it, and every later lock of a
  poisoned mutex panics (\<open>.expect\<close>).
\<close>

section \<open>Definitions\<close>

record lockout_tracker =
  lk_inner :: "(ip_addr, u32 \<times> nat) fmap"
  lk_poisoned :: bool

definition MAX_FAILURES :: u32 where "MAX_FAILURES = 5"
definition WINDOW :: nat where "WINDOW = 15 * 60 * 1000000000"
definition MAX_TRACKED :: nat where "MAX_TRACKED = 10000"

definition empty_tracker :: lockout_tracker where
  "empty_tracker = \<lparr>lk_inner = fmempty, lk_poisoned = False\<rparr>"

text \<open>\<open>Instant::elapsed\<close> saturates at zero; \<open>Duration\<close> subtraction panics on underflow.\<close>

definition lockout_remaining ::
  "nat \<Rightarrow> nat \<Rightarrow> ip_addr \<Rightarrow> lockout_tracker \<Rightarrow> nat option run \<times> lockout_tracker" where
  "lockout_remaining now1 now2 ip t =
     (if lk_poisoned t then (Panicked, t)
      else (case fmlookup (lk_inner t) ip of
              Some (n, first) \<Rightarrow>
                if n \<ge> MAX_FAILURES \<and> now1 - first < WINDOW
                then (if now2 - first \<le> WINDOW then (Done (Some (WINDOW - (now2 - first))), t)
                      else (Panicked, t\<lparr>lk_poisoned := True\<rparr>))
                else (Done None, t)
            | None \<Rightarrow> (Done None, t)))"

definition record_failure_map ::
  "ip_addr list \<Rightarrow> nat \<Rightarrow> nat \<Rightarrow> ip_addr \<Rightarrow> (ip_addr, u32 \<times> nat) fmap \<Rightarrow> (ip_addr, u32 \<times> nat) fmap" where
  "record_failure_map order now1 now2 ip m =
     (let window_active = (case fmlookup m ip of Some (_, first) \<Rightarrow> now1 - first < WINDOW | None \<Rightarrow> False)
      in if window_active
         then (case fmlookup m ip of Some (n, first) \<Rightarrow> fmupd ip (n + 1, first) m | None \<Rightarrow> m)
         else fmupd ip (1, now2) (if map_len m \<ge> MAX_TRACKED then evict_oldest snd order m else m))"

definition record_failure ::
  "ip_addr list \<Rightarrow> nat \<Rightarrow> nat \<Rightarrow> ip_addr \<Rightarrow> lockout_tracker \<Rightarrow> unit run \<times> lockout_tracker" where
  "record_failure order now1 now2 ip t =
     (if lk_poisoned t then (Panicked, t)
      else (Done (), t\<lparr>lk_inner := record_failure_map order now1 now2 ip (lk_inner t)\<rparr>))"

definition record_success :: "ip_addr \<Rightarrow> lockout_tracker \<Rightarrow> unit run \<times> lockout_tracker" where
  "record_success ip t =
     (if lk_poisoned t then (Panicked, t)
      else (Done (), t\<lparr>lk_inner := fmdrop ip (lk_inner t)\<rparr>))"

interpretation lk: evicting_map MAX_TRACKED snd "\<lambda>order now ip m. record_failure_map order now1 now ip m"
  for now1
proof unfold_locales
  show "0 < MAX_TRACKED" by (simp add: MAX_TRACKED_def)
next
  fix order :: "ip_addr list" and m :: "(ip_addr, u32 \<times> nat) fmap" and now k
  assume "iterates order m" "map_len m \<le> MAX_TRACKED"
  then show "map_len (record_failure_map order now1 now k m) \<le> MAX_TRACKED"
    using map_len_evict [of order m snd]
    by (auto simp: record_failure_map_def Let_def fcard_finsert_if fmdomI MAX_TRACKED_def
        split: option.split)
qed (auto simp: record_failure_map_def Let_def evict_oldest_keeps split: option.split)

section \<open>The gate\<close>

text \<open>One gated request as the middleware runs it against the tracker: the clock readings, the
  client address, and whether the presented credential verifies.\<close>

datatype attempt_result = Refused nat | Admitted | Failed | Dropped

record attempt =
  at_order :: "ip_addr list"
  at_t1 :: nat
  at_t2 :: nat
  at_t3 :: nat
  at_t4 :: nat
  at_ip :: ip_addr
  at_ok :: bool

definition gate_attempt :: "attempt \<Rightarrow> lockout_tracker \<Rightarrow> attempt_result \<times> lockout_tracker" where
  "gate_attempt a t =
     (case lockout_remaining (at_t1 a) (at_t2 a) (at_ip a) t of
        (Panicked, t') \<Rightarrow> (Dropped, t')
      | (Done (Some rem), t') \<Rightarrow> (Refused rem, t')
      | (Done None, t') \<Rightarrow>
          if at_ok a then (Admitted, snd (record_success (at_ip a) t'))
          else (Failed, snd (record_failure (at_order a) (at_t3 a) (at_t4 a) (at_ip a) t')))"

fun gate_run :: "attempt list \<Rightarrow> lockout_tracker \<Rightarrow> attempt_result list \<times> lockout_tracker" where
  "gate_run [] t = ([], t)"
| "gate_run (a # as) t =
     (let (r, t') = gate_attempt a t; (rs, t'') = gate_run as t' in (r # rs, t''))"

text \<open>Clock readings never go back.\<close>

fun clocked :: "nat \<Rightarrow> attempt list \<Rightarrow> bool" where
  "clocked t [] = True"
| "clocked t (a # as) =
     (t \<le> at_t1 a \<and> at_t1 a \<le> at_t2 a \<and> at_t2 a \<le> at_t3 a \<and> at_t3 a \<le> at_t4 a \<and> clocked (at_t4 a) as)"

fun end_time :: "nat \<Rightarrow> attempt list \<Rightarrow> nat" where
  "end_time t [] = t"
| "end_time t (a # as) = end_time (at_t4 a) as"

definition failures_of :: "ip_addr \<Rightarrow> attempt list \<Rightarrow> attempt_result list \<Rightarrow> nat" where
  "failures_of ip as rs = length (filter (\<lambda>(a, r). at_ip a = ip \<and> r = Failed) (zip as rs))"

text \<open>What the tracker remembers of an address that failed \<open>f\<close> times since \<open>t0\<close>.\<close>

definition tracks :: "nat \<Rightarrow> nat \<Rightarrow> nat \<Rightarrow> (u32 \<times> nat) option \<Rightarrow> bool" where
  "tracks t0 now f entry \<longleftrightarrow>
     (case entry of
        None \<Rightarrow> f = 0
      | Some (n, first) \<Rightarrow> n \<le> 5 \<and> t0 \<le> first \<and> first \<le> now
          \<and> f \<le> 5 * ((first - t0) div WINDOW) + unat n)"

lemma window_pos: "0 < WINDOW"
  by (simp add: WINDOW_def)

lemma next_window:
  assumes "t0 \<le> first" and "WINDOW \<le> t - first"
  shows "Suc ((first - t0) div WINDOW) \<le> (t - t0) div WINDOW"
proof -
  have "first - t0 + WINDOW \<le> t - t0" using assms window_pos by linarith
  then have "(first - t0 + WINDOW) div WINDOW \<le> (t - t0) div WINDOW" by (rule div_le_mono)
  then show ?thesis using window_pos by simp
qed

lemma count_up: "n < (5::u32) \<Longrightarrow> n + 1 \<le> 5 \<and> unat (n + 1) = Suc (unat n)"
proof -
  assume h: "n < 5"
  then have "unat n < 5" by (simp add: word_less_nat_alt)
  then have "unat (n + 1) = Suc (unat n)" by (simp add: unat_word_ariths)
  with \<open>unat n < 5\<close> show ?thesis by (simp add: word_le_nat_alt)
qed

lemma five_le: "n \<le> (5::u32) \<Longrightarrow> unat n \<le> 5"
  by (simp add: word_le_nat_alt)

text \<open>A failure that got past the lockout check keeps the account.\<close>

lemma tracks_failure:
  assumes tr: "tracks t0 now f (fmlookup m ip)" and "t0 \<le> now" and "now \<le> t1" and "t1 \<le> t3" and "t3 \<le> t4"
    and unlocked: "\<And>n first. fmlookup m ip = Some (n, first) \<Longrightarrow> \<not> (n \<ge> MAX_FAILURES \<and> t1 - first < WINDOW)"
  shows "tracks t0 t4 (Suc f) (fmlookup (record_failure_map order t3 t4 ip m) ip)"
proof (cases "fmlookup m ip")
  case None
  then show ?thesis
    using assms by (simp add: tracks_def record_failure_map_def)
next
  case (Some e)
  obtain n first where e: "e = (n, first)" by (cases e)
  have inv: "n \<le> 5" "t0 \<le> first" "first \<le> now" "f \<le> 5 * ((first - t0) div WINDOW) + unat n"
    using tr Some e by (auto simp: tracks_def)
  show ?thesis
  proof (cases "t3 - first < WINDOW")
    case True
    have "t1 - first < WINDOW" using True \<open>t1 \<le> t3\<close> by linarith
    with unlocked Some e have "\<not> n \<ge> 5" by (simp add: MAX_FAILURES_def)
    then have "n < 5" by simp
    from count_up [OF this] inv True Some e assms(3-5) show ?thesis
      by (simp add: tracks_def record_failure_map_def)
  next
    case False
    with \<open>t3 \<le> t4\<close> have "WINDOW \<le> t4 - first" by linarith
    from next_window [OF inv(2) this] inv five_le [OF inv(1)] False Some e assms(2-5) show ?thesis
      by (simp add: tracks_def record_failure_map_def)
  qed
qed

lemma tracks_later: "tracks t0 now f e \<Longrightarrow> now \<le> now' \<Longrightarrow> tracks t0 now' f e"
  by (auto simp: tracks_def split: option.splits)

lemma tracks_bound: "tracks t0 now f e \<Longrightarrow> f \<le> 5 * ((now - t0) div WINDOW + 1)"
proof (cases e)
  case (Some p)
  assume tr: "tracks t0 now f e"
  obtain n first where "p = (n, first)" by (cases p)
  with tr Some have "n \<le> 5" "first \<le> now" "f \<le> 5 * ((first - t0) div WINDOW) + unat n"
    by (auto simp: tracks_def)
  moreover have "(first - t0) div WINDOW \<le> (now - t0) div WINDOW"
    using \<open>first \<le> now\<close> by (intro div_le_mono) simp
  ultimately show ?thesis using five_le by fastforce
qed (simp add: tracks_def)

lemma unlocked_iff:
  "lockout_remaining t1 t2 ip t = (Done None, t') \<longleftrightarrow>
     t' = t \<and> \<not> lk_poisoned t \<and> (\<forall>n first. fmlookup (lk_inner t) ip = Some (n, first) \<longrightarrow>
       \<not> (n \<ge> MAX_FAILURES \<and> t1 - first < WINDOW))"
  by (auto simp: lockout_remaining_def split: option.splits)

lemma lockout_remaining_inner: "lk_inner (snd (lockout_remaining t1 t2 ip t)) = lk_inner t"
  by (auto simp: lockout_remaining_def split: option.splits)

text \<open>An attempt either leaves the map alone, or drops its own key, or records a failure under it.\<close>

lemma gate_attempt_cases:
  obtains "fst (gate_attempt a t) \<noteq> Failed" "lk_inner (snd (gate_attempt a t)) = lk_inner t"
  | "fst (gate_attempt a t) \<noteq> Failed" "at_ok a"
    "lk_inner (snd (gate_attempt a t)) = fmdrop (at_ip a) (lk_inner t)"
  | "fst (gate_attempt a t) = Failed" "\<not> at_ok a"
    "lockout_remaining (at_t1 a) (at_t2 a) (at_ip a) t = (Done None, t)"
    "lk_inner (snd (gate_attempt a t)) =
       record_failure_map (at_order a) (at_t3 a) (at_t4 a) (at_ip a) (lk_inner t)"
proof (cases "lockout_remaining (at_t1 a) (at_t2 a) (at_ip a) t = (Done None, t)")
  case True
  then have "\<not> lk_poisoned t" by (simp add: unlocked_iff)
  with True that(2,3) show thesis
    by (cases "at_ok a") (simp_all add: gate_attempt_def record_success_def record_failure_def)
next
  case False
  then have "fst (gate_attempt a t) \<noteq> Failed \<and> lk_inner (snd (gate_attempt a t)) = lk_inner t"
    using lockout_remaining_inner [of "at_t1 a" "at_t2 a" "at_ip a" t] unlocked_iff
    by (cases "lockout_remaining (at_t1 a) (at_t2 a) (at_ip a) t")
       (auto simp: gate_attempt_def split: run.splits option.splits)
  with that(1) show thesis by blast
qed

lemma room_in:
  "fset (fmdom m) \<subseteq> I \<Longrightarrow> finite I \<Longrightarrow> card I < MAX_TRACKED \<Longrightarrow> map_len m < MAX_TRACKED"
  by (metis card_mono fcard.rep_eq le_less_trans)

lemma record_failure_dom:
  "map_len m < MAX_TRACKED \<Longrightarrow>
     fset (fmdom (record_failure_map order t3 t4 ip m)) \<subseteq> insert ip (fset (fmdom m))"
  by (auto simp: record_failure_map_def Let_def split: option.splits if_splits)

lemma gate_attempt_dom:
  assumes "fset (fmdom (lk_inner t)) \<subseteq> I" and "finite I" and "card I < MAX_TRACKED" and "at_ip a \<in> I"
  shows "fset (fmdom (lk_inner (snd (gate_attempt a t)))) \<subseteq> I"
proof (cases rule: gate_attempt_cases [of a t])
  case 3
  then show ?thesis
    using record_failure_dom [OF room_in [OF assms(1-3)]] assms(1,4) by fastforce
qed (use assms in auto)

lemma gate_attempt_tracks:
  assumes "tracks t0 now f (fmlookup (lk_inner t) ip)" and "t0 \<le> now" and "clocked now [a]"
    and "fset (fmdom (lk_inner t)) \<subseteq> I" "finite I" "card I < MAX_TRACKED"
    and "at_ip a = ip \<Longrightarrow> \<not> at_ok a"
  shows "tracks t0 (at_t4 a) (f + (if at_ip a = ip \<and> fst (gate_attempt a t) = Failed then 1 else 0))
    (fmlookup (lk_inner (snd (gate_attempt a t))) ip)"
proof -
  have later: "tracks t0 (at_t4 a) f (fmlookup (lk_inner t) ip)"
    using assms(1,3) by (auto intro: tracks_later)
  show ?thesis
  proof (cases rule: gate_attempt_cases [of a t])
    case 3
    show ?thesis
    proof (cases "at_ip a = ip")
      case True
      with 3 assms(1-3) show ?thesis
        using tracks_failure [of t0 now f "lk_inner t" ip "at_t1 a" "at_t3 a" "at_t4 a" "at_order a"]
        by (auto simp: unlocked_iff)
    next
      case False
      with 3 later show ?thesis
        using lk.put_room [OF room_in [OF assms(4-6)], of ip "at_ip a"] by simp
    qed
  qed (use later assms(7) in auto)
qed

lemma gate_run_bound:
  assumes "finite I" "card I < MAX_TRACKED"
  shows "tracks t0 now f (fmlookup (lk_inner t) ip) \<Longrightarrow> t0 \<le> now \<Longrightarrow> clocked now as
    \<Longrightarrow> fset (fmdom (lk_inner t)) \<subseteq> I \<Longrightarrow> at_ip ` set as \<subseteq> I
    \<Longrightarrow> \<forall>a\<in>set as. at_ip a = ip \<longrightarrow> \<not> at_ok a
    \<Longrightarrow> f + failures_of ip as (fst (gate_run as t)) \<le> 5 * ((end_time now as - t0) div WINDOW + 1)"
proof (induction as arbitrary: now f t)
  case Nil
  then show ?case using tracks_bound [of t0 now f] by (simp add: failures_of_def)
next
  case (Cons a as)
  let ?t = "snd (gate_attempt a t)"
  let ?f = "f + (if at_ip a = ip \<and> fst (gate_attempt a t) = Failed then 1 else 0)"
  have "tracks t0 (at_t4 a) ?f (fmlookup (lk_inner ?t) ip)"
    using Cons.prems assms by (intro gate_attempt_tracks [where I = I and now = now]) auto
  moreover have "fset (fmdom (lk_inner ?t)) \<subseteq> I"
    using Cons.prems assms by (intro gate_attempt_dom) auto
  ultimately have "?f + failures_of ip as (fst (gate_run as ?t)) \<le> 5 * ((end_time (at_t4 a) as - t0) div WINDOW + 1)"
    using Cons.prems by (intro Cons.IH) auto
  then show ?case
    by (auto simp: failures_of_def split_beta Let_def split: if_splits)
qed


definition guess :: "nat \<Rightarrow> attempt" where
  "guess t = \<lparr>at_order = [], at_t1 = t, at_t2 = t, at_t3 = t, at_t4 = t, at_ip = V4 10 0 0 1, at_ok = False\<rparr>"


text \<open>
  Expiry can take the whole gate down. \<open>lockout_remaining\<close> tests the window with one clock reading
  and subtracts with a second one. When a locked address asks so close to the end of its window that
  the second reading is past it, the subtraction panics while the mutex is held, and from then on
  every gated request of every address is dropped.
\<close>

theorem lockout_expiry_race_poisons:
  assumes "\<not> lk_poisoned t" and "fmlookup (lk_inner t) ip = Some (n, first)" and "MAX_FAILURES \<le> n"
    and "now1 - first < WINDOW" and "WINDOW < now2 - first"
  shows "fst (lockout_remaining now1 now2 ip t) = Panicked
    \<and> fst (gate_attempt a (snd (lockout_remaining now1 now2 ip t))) = Dropped"
  using assms by (simp add: lockout_remaining_def gate_attempt_def)

theorem lockout_expiry_race_poisons_witness:
  "fst (lockout_remaining (WINDOW - 1) (WINDOW + 1) (V4 10 0 0 1)
     \<lparr>lk_inner = fmupd (V4 10 0 0 1) (5, 0) fmempty, lk_poisoned = False\<rparr>) = Panicked"
  using lockout_expiry_race_poisons [of "\<lparr>lk_inner = fmupd (V4 10 0 0 1) (5, 0) fmempty, lk_poisoned = False\<rparr>"
      "V4 10 0 0 1" 5 0 "WINDOW - 1" "WINDOW + 1"]
  by (simp add: MAX_FAILURES_def WINDOW_def)

end
