(* ===== verification/Cidr.thy ===== *)
theory Cidr
  imports NetAddr
begin

text \<open>
  Trusted proxies and the client address behind them (\<open>src/access/cidr.rs\<close>).

  The network type, its parser and its containment test belong to the \<open>ipnet\<close> crate: they are the
  record \<open>ipnet\<close>, an argument of every definition here.
\<close>

section \<open>Definitions\<close>

record 'net ipnet =
  net_from_str :: "string \<Rightarrow> 'net option"
  net_contains :: "'net \<Rightarrow> ip_addr \<Rightarrow> bool"
  net_prefix_len :: "'net \<Rightarrow> nat"
  net_is_v4 :: "'net \<Rightarrow> bool"

definition parse_cidr_entry :: "('net, 'm) ipnet_scheme \<Rightarrow> string \<Rightarrow> 'net option" where
  "parse_cidr_entry N s = net_from_str N (trim s)"

definition cidrs_contains :: "('net, 'm) ipnet_scheme \<Rightarrow> string \<Rightarrow> ip_addr \<Rightarrow> bool" where
  "cidrs_contains N cidrs ip =
     list_ex (\<lambda>s. let s = trim s in
        if s = [] then False
        else if CHR ''/'' \<notin> set s then parse_ip s = Some ip
        else (case parse_cidr_entry N s of Some net \<Rightarrow> net_contains N net ip | None \<Rightarrow> False))
       (split_on CHR '','' cidrs)"

definition has_over_broad_cidr :: "('net, 'm) ipnet_scheme \<Rightarrow> string \<Rightarrow> bool" where
  "has_over_broad_cidr N cidrs =
     (if trim cidrs = [] then False
      else list_ex (\<lambda>s. case parse_cidr_entry N s of
                          Some net \<Rightarrow> net_prefix_len N net \<le> (if net_is_v4 N net then 8 else 56)
                        | None \<Rightarrow> False) (split_on CHR '','' cidrs))"

definition has_zero_prefix_cidr :: "('net, 'm) ipnet_scheme \<Rightarrow> string \<Rightarrow> bool" where
  "has_zero_prefix_cidr N cidrs =
     (if trim cidrs = [] then False
      else list_ex (\<lambda>s. case parse_cidr_entry N s of
                          Some net \<Rightarrow> net_prefix_len N net = 0 | None \<Rightarrow> False)
             (split_on CHR '','' cidrs))"

definition xff_entries :: "string option \<Rightarrow> ip_addr list" where
  "xff_entries xff =
     (case xff of Some s \<Rightarrow> List.map_filter (\<lambda>t. parse_ip (trim t)) (split_on CHR '','' s) | None \<Rightarrow> [])"

definition client_ip_from_xff ::
  "('net, 'm) ipnet_scheme \<Rightarrow> string \<Rightarrow> string option \<Rightarrow> ip_addr \<Rightarrow> ip_addr" where
  "client_ip_from_xff N cidrs xff peer =
     (if \<not> cidrs_contains N cidrs peer then peer
      else (let entries = xff_entries xff
            in if entries = [] then peer
               else (case find (\<lambda>c. \<not> cidrs_contains N cidrs c) (rev entries) of
                       Some c \<Rightarrow> c | None \<Rightarrow> hd entries)))"

section \<open>What a forged header can do\<close>

text \<open>What a proxy appends to the header: an entry of its own after a comma.\<close>

definition append_hops :: "string \<Rightarrow> string list \<Rightarrow> string" where
  "append_hops header hops = foldl (\<lambda>h hop. h @ '','' @ hop) header hops"

lemma xff_append_hops:
  assumes "\<And>hop. hop \<in> set hops \<Longrightarrow> CHR '','' \<notin> set hop"
  shows "xff_entries (Some (append_hops header hops)) =
    xff_entries (Some header) @ List.map_filter (\<lambda>t. parse_ip (trim t)) hops"
  using assms
proof (induction hops arbitrary: header)
  case Nil
  then show ?case by (simp add: append_hops_def xff_entries_def map_filter_simps)
next
  case (Cons hop hops)
  then have "xff_entries (Some (append_hops (header @ '','' @ hop) hops)) =
      xff_entries (Some (header @ '','' @ hop)) @ List.map_filter (\<lambda>t. parse_ip (trim t)) hops"
    by simp
  moreover have "CHR '','' \<notin> set hop" using Cons.prems by simp
  ultimately show ?case
    by (simp add: append_hops_def xff_entries_def split_on_append split_on_absent map_filter_def)
qed

lemma find_rev_after:
  "P c \<Longrightarrow> (\<And>x. x \<in> set ys \<Longrightarrow> \<not> P x) \<Longrightarrow> find P (rev (xs @ c # ys)) = Some c"
proof (induction ys rule: rev_induct)
  case (snoc y ys)
  then show ?case by simp
qed simp

text \<open>
  C7. The client key cannot be forged. Behind a trusted peer, when the proxies append the client's
  address and then only trusted hops, the resolved address is that client, whatever the client put
  into the header before; and a peer outside the trusted list is its own key, whatever it sends.
\<close>

theorem client_key_unforgeable:
  assumes "CHR '','' \<notin> set client" and "parse_ip (trim client) = Some c"
    and "\<not> cidrs_contains N cidrs c"
    and "\<forall>hop\<in>set hops. CHR '','' \<notin> set hop
      \<and> (\<forall>a. parse_ip (trim hop) = Some a \<longrightarrow> cidrs_contains N cidrs a)"
  shows "client_ip_from_xff N cidrs (Some (append_hops forged (client # hops))) peer =
    (if cidrs_contains N cidrs peer then c else peer)"
proof -
  let ?later = "List.map_filter (\<lambda>t. parse_ip (trim t)) hops"
  have entries: "xff_entries (Some (append_hops forged (client # hops))) =
      xff_entries (Some forged) @ c # ?later"
    using assms(1,2,4) by (subst xff_append_hops) (auto simp: map_filter_simps)
  have "\<And>x. x \<in> set ?later \<Longrightarrow> cidrs_contains N cidrs x"
    using assms(4) by (auto simp: map_filter_def)
  then show ?thesis
    using find_rev_after [of "\<lambda>x. \<not> cidrs_contains N cidrs x" c ?later] assms(3)
    by (simp add: client_ip_from_xff_def entries Let_def del: rev_append)
qed

definition no_nets :: "unit ipnet" where
  "no_nets = \<lparr>net_from_str = (\<lambda>_. None), net_contains = (\<lambda>_ _. False),
              net_prefix_len = (\<lambda>_. 0), net_is_v4 = (\<lambda>_. True)\<rparr>"

lemmas ip_eval = parse_ip_def read_ip_addr_def read_ipv4_addr_def read_octet_def read_separator_def
  read_given_char_def read_number_def to_digit_def is_ascii_digit_def ascii_def Let_def

lemma ip_examples:
  "parse_ip ''10.0.0.1'' = Some (V4 10 0 0 1)" "parse_ip ''203.0.113.9'' = Some (V4 203 0 113 9)"
  by (simp_all add: ip_eval)

theorem client_key_unforgeable_witness:
  "client_ip_from_xff no_nets ''10.0.0.1'' (Some ''1.2.3.4, 10.0.0.1,203.0.113.9,10.0.0.1'') (V4 10 0 0 1)
     = V4 203 0 113 9"
proof -
  have trusted: "cidrs_contains no_nets ''10.0.0.1'' a \<longleftrightarrow> a = V4 10 0 0 1" for a
    by (auto simp: cidrs_contains_def Let_def ip_examples printable_def ascii_def)
  have "append_hops ''1.2.3.4, 10.0.0.1'' [''203.0.113.9'', ''10.0.0.1''] = ''1.2.3.4, 10.0.0.1,203.0.113.9,10.0.0.1''"
    by (simp add: append_hops_def)
  then show ?thesis
    using client_key_unforgeable [of "''203.0.113.9''" "V4 203 0 113 9" no_nets "''10.0.0.1''" "[''10.0.0.1'']"
        "''1.2.3.4, 10.0.0.1''" "V4 10 0 0 1"]
    by (simp add: trusted ip_examples printable_def ascii_def)
qed

end
