(* ===== verification/Tokens.thy ===== *)
theory Tokens
  imports Capped
begin

text \<open>
  Admin-password verification (\<open>src/settings/auth.rs\<close>), the verified-token caches
  (\<open>src/settings/auth.rs\<close>, \<open>src/settings/tokens.rs\<close>) and the service around them
  (\<open>src/settings/auth_service.rs\<close>).

  The argon2 and sha2 crates are the record \<open>crypto\<close>, an argument of what uses them. A verification
  runs the key derivation without holding any lock: \<open>between\<close> is what other tasks do to the shared
  state meanwhile. Clock readings, the iteration order of an evicting map, whether the
  key-derivation permit was obtained in time, and database faults are arguments.
\<close>

section \<open>Password hashing\<close>

record 'ph crypto =
  password_hash_new :: "string \<Rightarrow> 'ph option"
  verify_password :: "string \<Rightarrow> 'ph \<Rightarrow> bool"
  hash_password :: "string \<Rightarrow> string \<Rightarrow> string" \<comment> \<open>password, salt\<close>
  sha256 :: "string \<Rightarrow> string"

definition SHA2_LEGACY_ITERATION_CAP :: nat where "SHA2_LEGACY_ITERATION_CAP = 1000000"

definition hex_digit :: "nat \<Rightarrow> char" where
  "hex_digit n = (if n < 10 then char_of (48 + n) else char_of (87 + n))"

definition hex_encode :: "string \<Rightarrow> string" where
  "hex_encode b = concat (map (\<lambda>c. [hex_digit (ascii c div 16), hex_digit (ascii c mod 16)]) b)"

text \<open>\<open>u8::from_str_radix(s, 16)\<close> on two bytes: a leading plus sign is accepted.\<close>

definition radix16 :: "char \<Rightarrow> char \<Rightarrow> char option" where
  "radix16 a b =
     (if a = CHR ''+'' then map_option char_of (hex_value b)
      else (case (hex_value a, hex_value b) of
              (Some x, Some y) \<Rightarrow> Some (char_of (16 * x + y)) | _ \<Rightarrow> None))"

fun hex_pairs :: "string \<Rightarrow> string option run" where
  "hex_pairs (a # b # s) =
     (if s \<noteq> [] \<and> is_continuation (hd s) then Panicked
      else (case radix16 a b of
              None \<Rightarrow> Done None
            | Some c \<Rightarrow> (case hex_pairs s of
                           Done (Some cs) \<Rightarrow> Done (Some (c # cs)) | r \<Rightarrow> r)))"
| "hex_pairs _ = Done (Some [])"

definition hex_decode :: "string \<Rightarrow> string option run" where
  "hex_decode s = (if odd (length s) then Done None else hex_pairs s)"

definition constant_time_eq :: "string \<Rightarrow> string \<Rightarrow> bool" where
  "constant_time_eq a b =
     (if length a \<noteq> length b then False
      else foldl (\<lambda>diff (x, y). or diff (xor (of_nat (ascii x)) (of_nat (ascii y)))) (0 :: u8) (zip a b) = 0)"

definition hash_admin_password :: "('ph, 'm) crypto_scheme \<Rightarrow> string \<Rightarrow> string \<Rightarrow> string" where
  "hash_admin_password C salt pw = hash_password C pw salt"

definition is_legacy_password :: "string \<Rightarrow> bool" where
  "is_legacy_password stored \<longleftrightarrow> \<not> starts_with stored ''$argon2id$''"

definition sha2_iterated :: "('ph, 'm) crypto_scheme \<Rightarrow> nat \<Rightarrow> string \<Rightarrow> string \<Rightarrow> string" where
  "sha2_iterated C iters salt pw = ((\<lambda>out. sha256 C (salt @ out)) ^^ iters) (sha256 C (salt @ pw))"

definition next_part :: "string list \<Rightarrow> nat \<Rightarrow> string" where
  "next_part parts i = (if i < length parts then parts ! i else [])"

definition verify_sha2 :: "('ph, 'm) crypto_scheme \<Rightarrow> string \<Rightarrow> string \<Rightarrow> bool run" where
  "verify_sha2 C rest pw =
     (let parts = split_on CHR ''$'' rest in
      case parse_unsigned 32 (hd parts) of
        None \<Rightarrow> Done False
      | Some iters \<Rightarrow>
          if iters > SHA2_LEGACY_ITERATION_CAP then Done False
          else (case hex_decode (next_part parts 1) of
                  Panicked \<Rightarrow> Panicked
                | Done None \<Rightarrow> Done False
                | Done (Some salt) \<Rightarrow>
                    if length salt \<noteq> 16 then Done False
                    else (case hex_decode (next_part parts 2) of
                            Panicked \<Rightarrow> Panicked
                          | Done None \<Rightarrow> Done False
                          | Done (Some h) \<Rightarrow>
                              if length h \<noteq> 32 then Done False
                              else Done (constant_time_eq (hex_encode (sha2_iterated C iters salt pw))
                                           (next_part parts 2)))))"

definition verify_admin_password :: "('ph, 'm) crypto_scheme \<Rightarrow> string \<Rightarrow> string \<Rightarrow> bool run" where
  "verify_admin_password C stored pw =
     (if starts_with stored ''$argon2id$''
      then (case password_hash_new C stored of
              Some ph \<Rightarrow> Done (verify_password C pw ph) | None \<Rightarrow> Done False)
      else (case strip_prefix ''sha2:'' stored of
              Some rest \<Rightarrow> verify_sha2 C rest pw
            | None \<Rightarrow> Done (constant_time_eq pw stored)))"

section \<open>The verified-token cache\<close>

definition TOKEN_CACHE_TTL :: nat where "TOKEN_CACHE_TTL = 60 * 1000000000"
definition TOKEN_NEGATIVE_TTL :: nat where "TOKEN_NEGATIVE_TTL = 60 * 1000000000"
definition TOKEN_CACHE_MAX :: nat where "TOKEN_CACHE_MAX = 256"

record token_cache =
  entries :: "(string, nat) fmap"
  negatives :: "(string, nat) fmap"
  positive_ttl :: nat
  negative_ttl :: nat

definition with_ttl :: "nat \<Rightarrow> nat \<Rightarrow> token_cache" where
  "with_ttl pos neg = \<lparr>entries = fmempty, negatives = fmempty, positive_ttl = pos, negative_ttl = neg\<rparr>"

definition default_cache :: token_cache where
  "default_cache = with_ttl TOKEN_CACHE_TTL TOKEN_NEGATIVE_TTL"

definition is_fresh :: "nat \<Rightarrow> string \<Rightarrow> token_cache \<Rightarrow> bool" where
  "is_fresh now token c =
     (case fmlookup (entries c) token of Some stamped \<Rightarrow> now - stamped < positive_ttl c | None \<Rightarrow> False)"

definition is_negative_fresh :: "nat \<Rightarrow> string \<Rightarrow> token_cache \<Rightarrow> bool" where
  "is_negative_fresh now token c =
     (case fmlookup (negatives c) token of Some stamped \<Rightarrow> now - stamped < negative_ttl c | None \<Rightarrow> False)"

definition record_map :: "string list \<Rightarrow> nat \<Rightarrow> string \<Rightarrow> (string, nat) fmap \<Rightarrow> (string, nat) fmap" where
  "record_map order now token m =
     fmupd token now
       (if fmlookup m token = None \<and> map_len m \<ge> TOKEN_CACHE_MAX then evict_oldest id order m else m)"

definition cache_record :: "string list \<Rightarrow> nat \<Rightarrow> string \<Rightarrow> bool \<Rightarrow> token_cache \<Rightarrow> token_cache" where
  "cache_record order now token ok c =
     (if ok then c\<lparr>entries := record_map order now token (entries c)\<rparr>
      else c\<lparr>negatives := record_map order now token (negatives c)\<rparr>)"

definition cache_clear :: "token_cache \<Rightarrow> token_cache" where
  "cache_clear c = c\<lparr>entries := fmempty, negatives := fmempty\<rparr>"

interpretation tc: evicting_map TOKEN_CACHE_MAX id record_map
proof unfold_locales
  show "0 < TOKEN_CACHE_MAX" by (simp add: TOKEN_CACHE_MAX_def)
next
  fix order :: "string list" and m :: "(string, nat) fmap" and now k
  assume "iterates order m" "map_len m \<le> TOKEN_CACHE_MAX"
  then show "map_len (record_map order now k m) \<le> TOKEN_CACHE_MAX"
    using map_len_evict [of order m id]
    by (cases "fmlookup m k") (auto simp: record_map_def fcard_finsert_if fmdomI TOKEN_CACHE_MAX_def)
qed (auto simp: record_map_def evict_oldest_keeps)

section \<open>The auth service\<close>

record auth_inner =
  admin_password_raw :: string
  read_only_token_raw :: string
  token_cache :: token_cache
  ro_token_cache :: token_cache
  generation :: u64
  db_admin_password :: "string option"
  db_read_only_token :: "string option"

definition token_invalidate_all :: "auth_inner \<Rightarrow> auth_inner" where
  "token_invalidate_all st = st\<lparr>token_cache := cache_clear (token_cache st)\<rparr>"

definition ro_token_invalidate_all :: "auth_inner \<Rightarrow> auth_inner" where
  "ro_token_invalidate_all st = st\<lparr>ro_token_cache := cache_clear (ro_token_cache st)\<rparr>"

definition bump_generation :: "auth_inner \<Rightarrow> auth_inner" where
  "bump_generation st = st\<lparr>generation := generation st + 1\<rparr>"

datatype token_verify_fast = Verdict bool | RunKdf string

definition verify_fast_path :: "nat \<Rightarrow> nat \<Rightarrow> string \<Rightarrow> auth_inner \<Rightarrow> token_verify_fast" where
  "verify_fast_path now1 now2 presented st =
     (if presented = [] then Verdict False
      else if is_fresh now1 presented (token_cache st) then Verdict True
      else if is_negative_fresh now2 presented (token_cache st) then Verdict False
      else RunKdf (admin_password_raw st))"

definition record_verify :: "string list \<Rightarrow> nat \<Rightarrow> string \<Rightarrow> bool \<Rightarrow> auth_inner \<Rightarrow> auth_inner" where
  "record_verify order now presented ok st =
     st\<lparr>token_cache := cache_record order now presented ok (token_cache st)\<rparr>"

definition verify ::
  "('ph, 'm) crypto_scheme \<Rightarrow> string list \<Rightarrow> nat \<Rightarrow> nat \<Rightarrow> nat \<Rightarrow> string \<Rightarrow> auth_inner \<Rightarrow> bool run \<times> auth_inner" where
  "verify C order now1 now2 now3 presented st =
     (case verify_fast_path now1 now2 presented st of
        Verdict ok \<Rightarrow> (Done ok, st)
      | RunKdf stored \<Rightarrow>
          (case verify_admin_password C stored presented of
             Panicked \<Rightarrow> (Panicked, st)
           | Done ok \<Rightarrow> (Done ok, record_verify order now3 presented ok st)))"

definition verify_bg ::
  "('ph, 'm) crypto_scheme \<Rightarrow> bool \<Rightarrow> string list \<Rightarrow> nat \<Rightarrow> nat \<Rightarrow> nat \<Rightarrow> (auth_inner \<Rightarrow> auth_inner)
    \<Rightarrow> string \<Rightarrow> auth_inner \<Rightarrow> bool run \<times> auth_inner" where
  "verify_bg C permit order now1 now2 now3 between presented st =
     (case verify_fast_path now1 now2 presented st of
        Verdict ok \<Rightarrow> (Done ok, st)
      | RunKdf stored \<Rightarrow>
          if permit
          then (case verify_admin_password C stored presented of
                  Panicked \<Rightarrow> (Panicked, between st)
                | Done ok \<Rightarrow> (Done ok, record_verify order now3 presented ok (between st)))
          else (Done False, record_verify order now3 presented False (between st)))"

definition verify_read_only_bg ::
  "('ph, 'm) crypto_scheme \<Rightarrow> bool \<Rightarrow> string list \<Rightarrow> nat \<Rightarrow> nat \<Rightarrow> nat \<Rightarrow> (auth_inner \<Rightarrow> auth_inner)
    \<Rightarrow> string \<Rightarrow> auth_inner \<Rightarrow> bool run \<times> auth_inner" where
  "verify_read_only_bg C permit order now1 now2 now3 between presented st =
     (if presented = [] then (Done False, st)
      else if is_fresh now1 presented (ro_token_cache st) then (Done True, st)
      else if is_negative_fresh now2 presented (ro_token_cache st) then (Done False, st)
      else
        (let stored = read_only_token_raw st
         in if stored = [] then (Done False, st)
            else if permit
            then (case verify_admin_password C stored presented of
                    Panicked \<Rightarrow> (Panicked, between st)
                  | Done ok \<Rightarrow>
                      (let st' = between st in
                       (Done ok, st'\<lparr>ro_token_cache := cache_record order now3 presented ok (ro_token_cache st')\<rparr>)))
            else
              (let st' = between st in
               (Done False, st'\<lparr>ro_token_cache := cache_record order now3 presented False (ro_token_cache st')\<rparr>))))"

text \<open>An \<open>UPDATE\<close> of a settings row that is not there changes nothing.\<close>

definition upgrade :: "bool \<Rightarrow> string \<Rightarrow> auth_inner \<Rightarrow> auth_inner" where
  "upgrade db_fault hashed st =
     (let st = (if db_fault then st
                else st\<lparr>db_admin_password := map_option (\<lambda>_. hashed) (db_admin_password st)\<rparr>);
          st = st\<lparr>admin_password_raw := hashed\<rparr>
      in bump_generation (token_invalidate_all st))"

definition upgrade_read_only :: "bool \<Rightarrow> (string \<Rightarrow> string) \<Rightarrow> string \<Rightarrow> auth_inner \<Rightarrow> auth_inner" where
  "upgrade_read_only db_fault seal hashed st =
     (let st = (if db_fault then st
                else st\<lparr>db_read_only_token := map_option (\<lambda>_. seal hashed) (db_read_only_token st)\<rparr>);
          st = st\<lparr>read_only_token_raw := hashed\<rparr>
      in bump_generation (ro_token_invalidate_all (token_invalidate_all st)))"

text \<open>What a settings reload does to the secrets (\<open>reload\<close> in \<open>src/settings/cache.rs\<close>).\<close>

definition reload_secrets :: "string \<Rightarrow> string \<Rightarrow> auth_inner \<Rightarrow> auth_inner" where
  "reload_secrets admin read_only st =
     bump_generation (ro_token_invalidate_all (token_invalidate_all
       (st\<lparr>admin_password_raw := admin, read_only_token_raw := read_only\<rparr>)))"

section \<open>Comparison and encoding\<close>

lemma or_zero_iff: "or a b = (0::u8) \<longleftrightarrow> a = 0 \<and> b = 0"
  by (auto simp: bit_eq_iff bit_or_iff)

lemma xor_zero_iff: "xor a b = (0::u8) \<longleftrightarrow> a = b"
  by (auto simp: bit_eq_iff bit_xor_iff)

lemma byte_inject: "(of_nat (ascii x) :: u8) = of_nat (ascii y) \<longleftrightarrow> x = y"
proof -
  have "ascii x < 256" "ascii y < 256" by (simp_all add: ascii_def)
  then have "(of_nat (ascii x) :: u8) = of_nat (ascii y) \<longleftrightarrow> ascii x = ascii y"
    by (simp add: word_of_nat_eq_iff take_bit_eq_mod)
  then show ?thesis by (simp add: ascii_def)
qed

lemma diff_fold:
  "length a = length b \<Longrightarrow>
     foldl (\<lambda>diff (x, y). or diff (xor (of_nat (ascii x)) (of_nat (ascii y)))) (d :: u8) (zip a b) = 0
       \<longleftrightarrow> d = 0 \<and> a = b"
  by (induction a b arbitrary: d rule: list_induct2)
     (auto simp: or_zero_iff xor_zero_iff byte_inject)

lemma constant_time_eq_iff [simp]: "constant_time_eq a b \<longleftrightarrow> a = b"
  by (auto simp: constant_time_eq_def diff_fold)

lemma hex_digit_value: "n < 16 \<Longrightarrow> hex_value (hex_digit n) = Some n"
  by (auto simp: hex_value_def hex_digit_def ascii_char_of)

lemma hex_digit_plain: "n < 16 \<Longrightarrow> hex_digit n \<noteq> CHR ''+'' \<and> \<not> is_continuation (hex_digit n)"
proof -
  assume "n < 16"
  then have "ascii (hex_digit n) \<noteq> 43" "ascii (hex_digit n) < 128"
    by (auto simp: hex_digit_def ascii_char_of)
  then show ?thesis by (auto simp: is_continuation_def ascii_def)
qed

lemma ascii_div: "ascii c div 16 < 16"
proof -
  have "ascii c < 256" by (simp add: ascii_def)
  then show ?thesis by simp
qed

lemma radix16_digits: "radix16 (hex_digit (ascii c div 16)) (hex_digit (ascii c mod 16)) = Some c"
  by (simp add: radix16_def hex_digit_plain hex_digit_value ascii_div) (simp add: ascii_def)

lemma hex_encode_simps [simp]:
  "hex_encode [] = []"
  "hex_encode (c # b) = hex_digit (ascii c div 16) # hex_digit (ascii c mod 16) # hex_encode b"
  by (simp_all add: hex_encode_def)

lemma length_hex_encode [simp]: "length (hex_encode b) = 2 * length b"
  by (induction b) simp_all

lemma hex_decode_encode: "hex_decode (hex_encode b) = Done (Some b)"
proof -
  have "hex_pairs (hex_encode b) = Done (Some b)"
  proof (induction b)
    case (Cons c b)
    have "\<not> is_continuation (hd (hex_encode b))" if "hex_encode b \<noteq> []"
      using that hex_digit_plain ascii_div by (cases b) auto
    then show ?case using Cons by (auto simp: radix16_digits)
  qed simp
  then show ?thesis by (simp add: hex_decode_def)
qed

section \<open>Soundness of the cached verdicts\<close>

text \<open>Every token in the positive caches verifies against the secret currently stored.\<close>

definition cache_sound :: "('ph, 'm) crypto_scheme \<Rightarrow> string \<Rightarrow> token_cache \<Rightarrow> bool" where
  "cache_sound C stored c \<longleftrightarrow>
     (\<forall>t\<in>fset (fmdom (entries c)). t \<noteq> [] \<and> verify_admin_password C stored t = Done True)"

definition auth_sound :: "('ph, 'm) crypto_scheme \<Rightarrow> auth_inner \<Rightarrow> bool" where
  "auth_sound C st \<longleftrightarrow> cache_sound C (admin_password_raw st) (token_cache st)
     \<and> cache_sound C (read_only_token_raw st) (ro_token_cache st)"

lemma cache_sound_record:
  assumes "cache_sound C stored c" and "ok \<Longrightarrow> t \<noteq> [] \<and> verify_admin_password C stored t = Done True"
  shows "cache_sound C stored (cache_record order now t ok c)"
  using assms
  by (auto simp: cache_sound_def cache_record_def record_map_def evict_oldest_def
      split: option.splits if_splits)

lemma cache_sound_clear [simp]: "cache_sound C stored (cache_clear c)"
  by (simp add: cache_sound_def cache_clear_def)

lemma fresh_sound:
  "cache_sound C stored c \<Longrightarrow> is_fresh now t c \<Longrightarrow> t \<noteq> [] \<and> verify_admin_password C stored t = Done True"
  by (auto simp: cache_sound_def is_fresh_def fmdomI split: option.splits)

text \<open>The atomic operations on the shared auth state: a verification whose record follows its key
  derivation with nothing in between, an upgrade, a reload.\<close>

inductive auth_step :: "('ph, 'm) crypto_scheme \<Rightarrow> auth_inner \<Rightarrow> auth_inner \<Rightarrow> bool" for C where
  a_verify: "auth_step C st (snd (verify C order now1 now2 now3 presented st))"
| a_verify_bg: "auth_step C st (snd (verify_bg C permit order now1 now2 now3 (\<lambda>st. st) presented st))"
| a_verify_ro: "auth_step C st (snd (verify_read_only_bg C permit order now1 now2 now3 (\<lambda>st. st) presented st))"
| a_upgrade: "auth_step C st (upgrade db_fault hashed st)"
| a_upgrade_ro: "auth_step C st (upgrade_read_only db_fault seal hashed st)"
| a_reload: "auth_step C st (reload_secrets admin read_only st)"

inductive_cases auth_stepE: "auth_step C st st'"

lemmas service_defs = verify_def verify_bg_def verify_read_only_bg_def verify_fast_path_def
  record_verify_def upgrade_def upgrade_read_only_def reload_secrets_def bump_generation_def
  token_invalidate_all_def ro_token_invalidate_all_def Let_def

lemma auth_step_sound: "auth_step C st st' \<Longrightarrow> auth_sound C st \<Longrightarrow> auth_sound C st'"
  by (erule auth_stepE; auto simp: auth_sound_def service_defs intro!: cache_sound_record
      split: run.split token_verify_fast.split)

definition fresh_auth :: "string \<Rightarrow> string \<Rightarrow> auth_inner" where
  "fresh_auth admin read_only =
     \<lparr>admin_password_raw = admin, read_only_token_raw = read_only, token_cache = default_cache,
      ro_token_cache = default_cache, generation = 0, db_admin_password = None, db_read_only_token = None\<rparr>"

interpretation service: kept_invariant "auth_step C" "auth_sound C" for C
  by unfold_locales (rule auth_step_sound)

lemma fresh_auth_sound: "auth_sound C (fresh_auth admin read_only)"
  by (simp add: auth_sound_def cache_sound_def fresh_auth_def default_cache_def with_ttl_def)

lemma verify_bg_sound:
  "auth_sound C st \<Longrightarrow> fst (verify_bg C permit order now1 now2 now3 between t st) = Done True
     \<Longrightarrow> t \<noteq> [] \<and> verify_admin_password C (admin_password_raw st) t = Done True"
  by (auto simp: auth_sound_def service_defs dest: fresh_sound split: run.splits if_splits)

lemma verify_read_only_bg_sound:
  "auth_sound C st \<Longrightarrow> fst (verify_read_only_bg C permit order now1 now2 now3 between t st) = Done True
     \<Longrightarrow> t \<noteq> [] \<and> verify_admin_password C (read_only_token_raw st) t = Done True"
  by (auto simp: auth_sound_def service_defs dest: fresh_sound split: run.splits if_splits)

text \<open>
  C8. The token cache does not change verdicts. In any history of verifications (of both levels, with
  cache hits, evictions, expiries and overload), upgrades and reloads in which no operation
  interrupts a verification, a token is accepted as the admin password only if it is not empty and
  verifies against the password stored at that moment, and likewise for the read-only token.
\<close>

theorem cached_verify_sound:
  assumes "(auth_step C)\<^sup>*\<^sup>* (fresh_auth admin read_only) st"
  shows "(fst (verify_bg C permit order now1 now2 now3 between t st) = Done True
        \<longrightarrow> t \<noteq> [] \<and> verify_admin_password C (admin_password_raw st) t = Done True)
    \<and> (fst (verify_read_only_bg C permit order now1 now2 now3 between t st) = Done True
        \<longrightarrow> t \<noteq> [] \<and> verify_admin_password C (read_only_token_raw st) t = Done True)"
  using verify_bg_sound verify_read_only_bg_sound service.path_keeps [OF assms fresh_auth_sound] by blast

definition no_crypto :: "unit crypto" where
  "no_crypto = \<lparr>password_hash_new = (\<lambda>_. None), verify_password = (\<lambda>_ _. False),
                hash_password = (\<lambda>_ _. []), sha256 = id\<rparr>"

lemma plain_verify:
  "\<not> starts_with stored ''$argon2id$'' \<Longrightarrow> \<not> starts_with stored ''sha2:'' \<Longrightarrow>
     verify_admin_password C stored pw = Done (pw = stored)"
  by (simp add: verify_admin_password_def strip_prefix_def)

lemma verify_bg_fresh:
  "t \<noteq> [] \<Longrightarrow> verify_bg C True order now1 now2 now3 between t (fresh_auth admin ro) =
     (case verify_admin_password C admin t of
        Panicked \<Rightarrow> (Panicked, between (fresh_auth admin ro))
      | Done ok \<Rightarrow> (Done ok, record_verify order now3 t ok (between (fresh_auth admin ro))))"
proof -
  assume "t \<noteq> []"
  then have "verify_fast_path now1 now2 t (fresh_auth admin ro) = RunKdf admin"
    by (simp add: verify_fast_path_def is_fresh_def is_negative_fresh_def fresh_auth_def
        default_cache_def with_ttl_def)
  then show ?thesis by (simp add: verify_bg_def)
qed

theorem cached_verify_sound_witness:
  "fst (verify_bg no_crypto True [] 1 2 3 (\<lambda>st. st) ''wrong'' (fresh_auth ''secret'' [])) \<noteq> Done True"
  using cached_verify_sound [where C = no_crypto and admin = "''secret''"
      and read_only = "[]" and permit = True and order = "[]" and t = "''wrong''" and ?now1.0 = 1
      and ?now2.0 = 2 and ?now3.0 = 3 and between = "\<lambda>st. st", OF rtranclp.rtrancl_refl]
  by (auto simp: plain_verify starts_with_def fresh_auth_def)

text \<open>
  A password change can be missed. When the stored password is replaced by a reload while a
  verification of the old password is running, the verdict is recorded after the caches were
  cleared: the old password, which no longer verifies, is accepted until the entry expires,
  although a reload is documented to take effect immediately.
\<close>

theorem password_change_missed:
  assumes "now4 - now3 < TOKEN_CACHE_TTL"
  shows "let st = snd (verify_bg C True order now1 now2 now3 (reload_secrets ''new'' []) ''old'' (fresh_auth ''old'' []))
    in admin_password_raw st = ''new'' \<and> verify_admin_password C (admin_password_raw st) ''old'' = Done False
       \<and> fst (verify_bg C permit order' now4 now5 now6 between ''old'' st) = Done True"
  using assms
  by (simp add: verify_bg_fresh plain_verify starts_with_def)
     (simp add: service_defs cache_record_def record_map_def is_fresh_def cache_clear_def fresh_auth_def
       default_cache_def with_ttl_def plain_verify starts_with_def)

theorem password_change_missed_witness:
  "let st = snd (verify_bg no_crypto True [] 1 2 3 (reload_secrets ''new'' []) ''old'' (fresh_auth ''old'' []))
   in verify_admin_password no_crypto (admin_password_raw st) ''old'' = Done False
      \<and> fst (verify_bg no_crypto True [] 4 5 6 (\<lambda>st. st) ''old'' st) = Done True"
proof -
  have "(4::nat) - 3 < TOKEN_CACHE_TTL" by (simp add: TOKEN_CACHE_TTL_def)
  from password_change_missed [OF this] show ?thesis unfolding Let_def by blast
qed

end
