(* ===== verification/AuthGate.thy ===== *)
theory AuthGate
  imports RateLimit Lockout Cidr Tokens
begin

text \<open>
  The HTTP gate of \<open>src/serve/middleware.rs\<close>: the two-level credential check with the per-address
  lockout in front of it, the log sanitiser, the rate limit, and the verdict the settings handlers
  ask for. The policy objects are those of the theories \<open>Lockout\<close>, \<open>Cidr\<close>, \<open>Tokens\<close> and \<open>RateLimit\<close>.

  A header field of a request is what \<open>.get(name).and_then(|h| h.to_str().ok())\<close> gives.
  \<open>form_urlencoded\<close> belongs to the \<open>url\<close> crate: its parser and serialiser are arguments.
\<close>

section \<open>Requests, settings and state\<close>

record request =
  rq_method :: string
  rq_path :: string
  rq_query :: "string option"
  rq_authorization :: "string option"
  rq_forwarded_for :: "string option"
  rq_peer :: "ip_addr option" \<comment> \<open>\<open>ConnectInfo\<close>\<close>

record access_settings =
  as_mode :: string
  as_require_reads :: bool
  as_trusted_cidrs :: "string option"

record verify_env =
  ve_permit :: bool
  ve_order :: "string list"
  ve_now1 :: nat
  ve_now2 :: nat
  ve_now3 :: nat
  ve_between :: "auth_inner \<Rightarrow> auth_inner"

text \<open>What one run of the middleware meets: clock readings and iteration order of the tracker, the
  two verifications, the salt of an upgrade, its database fault, and the at-rest encryption.\<close>

record gate_env =
  ge_t1 :: nat
  ge_t2 :: nat
  ge_t3 :: nat
  ge_t4 :: nat
  ge_order :: "ip_addr list"
  ge_admin :: verify_env
  ge_read_only :: verify_env
  ge_salt :: string
  ge_db_fault :: bool
  ge_seal :: "string \<Rightarrow> string"

record gate_state =
  gs_lockout :: lockout_tracker
  gs_auth :: auth_inner

datatype gate_response =
    Next \<comment> \<open>handed to the route\<close>
  | Reject nat "nat option" string \<comment> \<open>status, \<open>Retry-After\<close>, hint\<close>
  | GatePanic

section \<open>The pure parts\<close>

definition ACCESS_MODE_PASSWORD :: string where "ACCESS_MODE_PASSWORD = ''password''"

definition is_health_path :: "string \<Rightarrow> bool" where
  "is_health_path path \<longleftrightarrow> path = ''/health'' \<or> starts_with path ''/health/''"

definition is_read_verb :: "string \<Rightarrow> bool" where
  "is_read_verb method \<longleftrightarrow> method \<in> {''GET'', ''HEAD'', ''OPTIONS''}"

datatype auth_outcome = Full | ReadOnly | NoAuth

definition read_only_allowed :: "string \<Rightarrow> string \<Rightarrow> bool" where
  "read_only_allowed method path \<longleftrightarrow>
     is_read_verb method
     \<and> (is_health_path path
        \<or> path \<in> {''/search'', ''/suggest'', ''/read'', ''/snippet'', ''/random'', ''/chunks'',
                   ''/interlanguage'', ''/list'', ''/openapi.json''}
        \<or> starts_with path ''/w/'')"

definition auth_required :: "string \<Rightarrow> string \<Rightarrow> string \<Rightarrow> bool \<Rightarrow> bool" where
  "auth_required method access_mode admin_password require_reads \<longleftrightarrow>
     access_mode = ACCESS_MODE_PASSWORD \<and> admin_password \<noteq> []
     \<and> (require_reads \<or> method \<notin> {''GET'', ''HEAD'', ''OPTIONS''})"

definition bearer_token :: "string option \<Rightarrow> string option" where
  "bearer_token authorization =
     Option.bind authorization (\<lambda>a. Option.bind (split_once CHR '' '' a) (\<lambda>(scheme, token).
       if eq_ignore_ascii_case scheme ''bearer'' then Some token else None))"

definition query_token :: "(string \<Rightarrow> (string \<times> string) list) \<Rightarrow> string option \<Rightarrow> string option" where
  "query_token form_parse query =
     Option.bind query (\<lambda>q. map_option snd
       (find (\<lambda>(k, v). k = ''access_token'' \<and> v \<noteq> []) (form_parse q)))"

text \<open>The pairs that stay in the log, and whether one was stripped.\<close>

fun sanitize_pairs :: "(string \<times> string) list \<Rightarrow> (string \<times> string) list \<times> bool" where
  "sanitize_pairs [] = ([], False)"
| "sanitize_pairs ((k, v) # kvs) =
     (let (rest, stripped) = sanitize_pairs kvs
      in if k = ''access_token'' then (rest, True)
         else if str_contains v ''access_token='' then ((k, ''[redacted]'') # rest, True)
         else ((k, v) # rest, stripped))"

definition sanitize_uri_for_logs ::
  "(string \<Rightarrow> (string \<times> string) list) \<Rightarrow> ((string \<times> string) list \<Rightarrow> string) \<Rightarrow> string \<Rightarrow> string option \<Rightarrow> string" where
  "sanitize_uri_for_logs form_parse form_serialize path query =
     (case query of
        None \<Rightarrow> path
      | Some q \<Rightarrow>
          (let (pairs, stripped) = sanitize_pairs (form_parse q)
           in if \<not> stripped then path @ ''?'' @ q
              else (let new_q = form_serialize pairs
                    in if new_q = [] then path else path @ ''?'' @ new_q)))"

section \<open>The middleware\<close>

definition client_address :: "('net, 'm) ipnet_scheme \<Rightarrow> access_settings \<Rightarrow> request \<Rightarrow> ip_addr option" where
  "client_address N cfg rq =
     map_option (\<lambda>ip. case rq_forwarded_for rq of
         Some x \<Rightarrow> client_ip_from_xff N (case as_trusted_cidrs cfg of Some c \<Rightarrow> c | None \<Rightarrow> []) (Some x) ip
       | None \<Rightarrow> ip) (rq_peer rq)"

definition presented_token :: "(string \<Rightarrow> (string \<times> string) list) \<Rightarrow> string \<Rightarrow> string option \<Rightarrow> string option \<Rightarrow> string option" where
  "presented_token form_parse method authorization query =
     (let q = (if is_read_verb method then query_token form_parse query else None);
          p = (case bearer_token authorization of Some t \<Rightarrow> Some t | None \<Rightarrow> q)
      in Option.bind p (\<lambda>t. if t = [] then None else Some t))"

definition run_verify_bg ::
  "('ph, 'c) crypto_scheme \<Rightarrow> verify_env \<Rightarrow> string \<Rightarrow> auth_inner \<Rightarrow> bool run \<times> auth_inner" where
  "run_verify_bg C e t st =
     verify_bg C (ve_permit e) (ve_order e) (ve_now1 e) (ve_now2 e) (ve_now3 e) (ve_between e) t st"

definition run_verify_read_only_bg ::
  "('ph, 'c) crypto_scheme \<Rightarrow> verify_env \<Rightarrow> string \<Rightarrow> auth_inner \<Rightarrow> bool run \<times> auth_inner" where
  "run_verify_read_only_bg C e t st =
     verify_read_only_bg C (ve_permit e) (ve_order e) (ve_now1 e) (ve_now2 e) (ve_now3 e) (ve_between e) t st"

definition auth_outcome_of ::
  "('ph, 'c) crypto_scheme \<Rightarrow> gate_env \<Rightarrow> string option \<Rightarrow> auth_inner \<Rightarrow> auth_outcome run \<times> auth_inner" where
  "auth_outcome_of C env presented st =
     (let read_only_password = read_only_token_raw st in
      case presented of
        None \<Rightarrow> (Done NoAuth, st)
      | Some t \<Rightarrow>
          (case run_verify_bg C (ge_admin env) t st of
             (Panicked, st') \<Rightarrow> (Panicked, st')
           | (Done True, st') \<Rightarrow> (Done Full, st')
           | (Done False, st') \<Rightarrow>
               if read_only_password = [] then (Done NoAuth, st')
               else (case run_verify_read_only_bg C (ge_read_only env) t st' of
                       (Panicked, st'') \<Rightarrow> (Panicked, st'')
                     | (Done True, st'') \<Rightarrow> (Done ReadOnly, st'')
                     | (Done False, st'') \<Rightarrow> (Done NoAuth, st''))))"

text \<open>\<open>rem.as_secs_f64().ceil().clamp(1.0, \<dots>)\<close> on nanoseconds.\<close>

definition retry_secs :: "nat \<Rightarrow> nat" where
  "retry_secs rem = max 1 ((rem + 999999999) div 1000000000)"

text \<open>The tracker calls are skipped when the peer address is unknown.\<close>

definition with_ip ::
  "ip_addr option \<Rightarrow> (ip_addr \<Rightarrow> lockout_tracker \<Rightarrow> unit run \<times> lockout_tracker) \<Rightarrow> lockout_tracker \<Rightarrow> unit run \<times> lockout_tracker" where
  "with_ip ip f t = (case ip of Some a \<Rightarrow> f a t | None \<Rightarrow> (Done (), t))"

definition unauthorized :: "string \<Rightarrow> gate_response" where
  "unauthorized method =
     Reject 401 None
       (if is_read_verb method then ''send Authorization: Bearer <password> or ?access_token=<password>''
        else ''send Authorization: Bearer <password>'')"

definition finish_auth ::
  "('ph, 'c) crypto_scheme \<Rightarrow> gate_env \<Rightarrow> request \<Rightarrow> string \<Rightarrow> string \<Rightarrow> ip_addr option \<Rightarrow> auth_outcome
    \<Rightarrow> gate_state \<Rightarrow> gate_response \<times> gate_state" where
  "finish_auth C env rq password read_only_password ip outcome st =
     (case outcome of
        Full \<Rightarrow>
          (case with_ip ip record_success (gs_lockout st) of
             (Panicked, t) \<Rightarrow> (GatePanic, st\<lparr>gs_lockout := t\<rparr>)
           | (Done _, t) \<Rightarrow>
               (let st = st\<lparr>gs_lockout := t\<rparr>;
                    st = (if is_legacy_password password
                          then st\<lparr>gs_auth := upgrade (ge_db_fault env)
                                  (hash_admin_password C (ge_salt env) password) (gs_auth st)\<rparr>
                          else st)
                in (Next, st)))
      | ReadOnly \<Rightarrow>
          (case with_ip ip record_success (gs_lockout st) of
             (Panicked, t) \<Rightarrow> (GatePanic, st\<lparr>gs_lockout := t\<rparr>)
           | (Done _, t) \<Rightarrow>
               (let st = st\<lparr>gs_lockout := t\<rparr>;
                    st = (if is_legacy_password read_only_password
                          then st\<lparr>gs_auth := upgrade_read_only (ge_db_fault env) (ge_seal env)
                                  (hash_admin_password C (ge_salt env) read_only_password) (gs_auth st)\<rparr>
                          else st)
                in if read_only_allowed (rq_method rq) (rq_path rq) then (Next, st)
                   else (Reject 403 None ''this endpoint requires the admin credential'', st)))
      | NoAuth \<Rightarrow>
          (case with_ip ip (record_failure (ge_order env) (ge_t3 env) (ge_t4 env)) (gs_lockout st) of
             (Panicked, t) \<Rightarrow> (GatePanic, st\<lparr>gs_lockout := t\<rparr>)
           | (Done _, t) \<Rightarrow> (unauthorized (rq_method rq), st\<lparr>gs_lockout := t\<rparr>)))"

definition auth_middleware ::
  "('ph, 'c) crypto_scheme \<Rightarrow> ('net, 'm) ipnet_scheme \<Rightarrow> (string \<Rightarrow> (string \<times> string) list) \<Rightarrow> gate_env
    \<Rightarrow> access_settings \<Rightarrow> request \<Rightarrow> gate_state \<Rightarrow> gate_response \<times> gate_state" where
  "auth_middleware C N form_parse env cfg rq st =
     (let mode = as_mode cfg;
          password = admin_password_raw (gs_auth st);
          is_health = is_health_path (rq_path rq)
      in if \<not> is_health \<and> mode = ACCESS_MODE_PASSWORD \<and> password = []
         then (Reject 503 None ''access.mode is password but access.admin_password is empty'', st)
         else if (is_health \<and> is_read_verb (rq_method rq))
              \<or> \<not> auth_required (rq_method rq) mode password (as_require_reads cfg)
         then (Next, st)
         else
           (let ip = client_address N cfg rq;
                (remaining, t) = (case ip of Some a \<Rightarrow> lockout_remaining (ge_t1 env) (ge_t2 env) a (gs_lockout st)
                                           | None \<Rightarrow> (Done None, gs_lockout st));
                st = st\<lparr>gs_lockout := t\<rparr>
            in case remaining of
                 Panicked \<Rightarrow> (GatePanic, st)
               | Done (Some rem) \<Rightarrow>
                   (Reject 429 (Some (retry_secs rem)) ''locked out after repeated failures; try again later'', st)
               | Done None \<Rightarrow>
                   (let presented = presented_token form_parse (rq_method rq) (rq_authorization rq) (rq_query rq);
                        read_only_password = read_only_token_raw (gs_auth st);
                        (outcome, auth) = auth_outcome_of C env presented (gs_auth st);
                        st = st\<lparr>gs_auth := auth\<rparr>
                    in case outcome of
                         Panicked \<Rightarrow> (GatePanic, st)
                       | Done out \<Rightarrow> finish_auth C env rq password read_only_password ip out st)))"

definition settings_authed ::
  "('ph, 'c) crypto_scheme \<Rightarrow> (string \<Rightarrow> (string \<times> string) list) \<Rightarrow> verify_env \<Rightarrow> access_settings
    \<Rightarrow> string \<Rightarrow> string option \<Rightarrow> string option \<Rightarrow> auth_inner \<Rightarrow> bool run \<times> auth_inner" where
  "settings_authed C form_parse env cfg method authorization query st =
     (if as_mode cfg \<noteq> ACCESS_MODE_PASSWORD then (Done False, st)
      else (case presented_token form_parse method authorization query of
              Some t \<Rightarrow> run_verify_bg C env t st
            | None \<Rightarrow> (Done False, st)))"

text \<open>The rate limit: the limiter of the current settings generation, then one acquisition. The
  limiter is shared, so its balance is written back into the handle's slot.\<close>

definition rate_limit ::
  "string \<Rightarrow> u64 \<Rightarrow> u64 option \<Rightarrow> u64 option \<Rightarrow> u64 \<Rightarrow> u64 \<Rightarrow> limiter_slot option \<Rightarrow> gate_response \<times> limiter_slot option" where
  "rate_limit path cur_gen rps_setting burst_setting now1 now2 guard =
     (if is_health_path path then (Next, guard)
      else
        (let (l, guard') = limiter guard cur_gen rps_setting burst_setting now1;
             (res, l') = try_acquire l now2;
             guard'' = map_option (\<lambda>slot. slot\<lparr>ls_limiter := l'\<rparr>) guard'
         in case res of
              Inr _ \<Rightarrow> (Next, guard'')
            | Inl ms \<Rightarrow> (Reject 429 (Some (unat (ms_to_retry_after_secs ms))) ''rate limit exceeded'', guard'')))"

section \<open>Who gets through\<close>

lemma presented_nonempty: "presented_token form_parse method authorization query \<noteq> Some []"
  by (auto simp: presented_token_def Let_def bind_eq_Some_conv split: if_splits)

lemma auth_outcome_Full:
  assumes "auth_sound C st" and "auth_outcome_of C env presented st = (Done Full, st')"
  shows "\<exists>t. presented = Some t \<and> verify_admin_password C (admin_password_raw st) t = Done True"
proof -
  obtain t where "presented = Some t" "fst (run_verify_bg C (ge_admin env) t st) = Done True"
    using assms(2) by (auto simp: auth_outcome_of_def Let_def
        split: option.splits prod.splits run.splits if_splits bool.splits)
  then show ?thesis using verify_bg_sound [OF assms(1)] by (auto simp: run_verify_bg_def)
qed

text \<open>The environment of a verification that nothing interrupts.\<close>

definition undisturbed :: "verify_env \<Rightarrow> bool" where
  "undisturbed e \<longleftrightarrow> ve_between e = (\<lambda>st. st)"

lemma undisturbed_step:
  "undisturbed e \<Longrightarrow> auth_step C st (snd (run_verify_bg C e t st))"
  "undisturbed e \<Longrightarrow> auth_step C st (snd (run_verify_read_only_bg C e t st))"
  by (simp_all add: undisturbed_def run_verify_bg_def run_verify_read_only_bg_def a_verify_bg a_verify_ro)

lemma verify_keeps_secrets:
  "undisturbed e \<Longrightarrow> read_only_token_raw (snd (run_verify_bg C e t st)) = read_only_token_raw st"
  by (auto simp: undisturbed_def run_verify_bg_def verify_bg_def record_verify_def
      split: token_verify_fast.splits run.splits)

lemma auth_outcome_ReadOnly:
  assumes sound: "auth_sound C st" and und: "undisturbed (ge_admin env)"
    and out: "auth_outcome_of C env presented st = (Done ReadOnly, st')"
  shows "\<exists>t. presented = Some t \<and> read_only_token_raw st \<noteq> []
    \<and> verify_admin_password C (read_only_token_raw st) t = Done True"
proof -
  obtain t where t: "presented = Some t" "read_only_token_raw st \<noteq> []"
    and ro: "fst (run_verify_read_only_bg C (ge_read_only env) t (snd (run_verify_bg C (ge_admin env) t st))) = Done True"
    using out by (auto simp: auth_outcome_of_def Let_def
        split: option.splits prod.splits run.splits if_splits bool.splits)
  have "auth_sound C (snd (run_verify_bg C (ge_admin env) t st))"
    using auth_step_sound [OF undisturbed_step(1) [OF und] sound] .
  from verify_read_only_bg_sound [OF this] ro t show ?thesis
    by (simp add: run_verify_read_only_bg_def verify_keeps_secrets [OF und])
qed

lemma finish_auth_Next:
  "finish_auth C env rq password ro ip outcome st = (Next, st') \<Longrightarrow>
     outcome = Full \<or> outcome = ReadOnly \<and> read_only_allowed (rq_method rq) (rq_path rq)"
  by (auto simp: finish_auth_def unauthorized_def Let_def
      split: auth_outcome.splits prod.splits run.splits if_splits)


text \<open>A quiet environment and a small deployment for the instances below.\<close>

definition quiet :: verify_env where
  "quiet = \<lparr>ve_permit = True, ve_order = [], ve_now1 = 0, ve_now2 = 0, ve_now3 = 0, ve_between = (\<lambda>st. st)\<rparr>"

definition quiet_env :: gate_env where
  "quiet_env = \<lparr>ge_t1 = 0, ge_t2 = 0, ge_t3 = 0, ge_t4 = 0, ge_order = [], ge_admin = quiet,
     ge_read_only = quiet, ge_salt = [], ge_db_fault = False, ge_seal = id\<rparr>"

definition password_mode :: access_settings where
  "password_mode = \<lparr>as_mode = ''password'', as_require_reads = True, as_trusted_cidrs = None\<rparr>"

definition put_settings :: "string \<Rightarrow> request" where
  "put_settings token = \<lparr>rq_method = ''PUT'', rq_path = ''/settings'', rq_query = None,
     rq_authorization = Some (''Bearer '' @ token), rq_forwarded_for = None, rq_peer = Some (V4 10 0 0 1)\<rparr>"

definition gate_with :: "string \<Rightarrow> gate_state" where
  "gate_with admin = \<lparr>gs_lockout = empty_tracker, gs_auth = fresh_auth admin []\<rparr>"

lemma gate_with_sound: "auth_sound C (gs_auth (gate_with admin))"
  by (simp add: gate_with_def fresh_auth_sound)

lemma put_settings_token:
  "token \<noteq> [] \<Longrightarrow> presented_token fp (rq_method (put_settings token)) (rq_authorization (put_settings token)) q = Some token"
  by (simp add: presented_token_def put_settings_def bearer_token_def eq_ignore_ascii_case_def
      to_ascii_lowercase_def lower_char_def ascii_def char_of_def bit_0)

text \<open>A mutating request with the right password.\<close>

lemma put_settings_passes:
  assumes "admin \<noteq> []" "token \<noteq> []" and "verify_admin_password C admin token = Done True"
  shows "fst (auth_middleware C N fp quiet_env password_mode (put_settings token) (gate_with admin)) = Next"
proof -
  have "auth_required ''PUT'' ''password'' admin True" using assms(1) by (simp add: auth_required_def ACCESS_MODE_PASSWORD_def)
  moreover have "fst (auth_outcome_of C quiet_env (Some token) (fresh_auth admin [])) = Done Full"
    using assms verify_bg_fresh [of token C]
    by (simp add: auth_outcome_of_def run_verify_bg_def quiet_env_def quiet_def)
  ultimately show ?thesis
    using put_settings_token [OF assms(2), of fp] assms(1)
    by (simp add: auth_middleware_def Let_def put_settings_def password_mode_def gate_with_def
        is_health_path_def starts_with_def ACCESS_MODE_PASSWORD_def client_address_def
        lockout_remaining_def empty_tracker_def split_beta fresh_auth_def finish_auth_def with_ip_def
        record_success_def)
qed


section \<open>The lockout in the middleware\<close>

definition attempt_of :: "gate_env \<Rightarrow> ip_addr \<Rightarrow> bool \<Rightarrow> attempt" where
  "attempt_of env ip ok = \<lparr>at_order = ge_order env, at_t1 = ge_t1 env, at_t2 = ge_t2 env,
     at_t3 = ge_t3 env, at_t4 = ge_t4 env, at_ip = ip, at_ok = ok\<rparr>"

lemma finish_auth_lockout:
  assumes "finish_auth C env rq password ro (Some ip) outcome st = (resp, st')" and "resp \<noteq> GatePanic"
    and "lockout_remaining (ge_t1 env) (ge_t2 env) ip t = (Done None, gs_lockout st)"
  shows "gate_attempt (attempt_of env ip (outcome \<noteq> NoAuth)) t =
    ((if outcome = NoAuth then Failed else Admitted), gs_lockout st')
    \<and> (resp = unauthorized (rq_method rq) \<longleftrightarrow> outcome = NoAuth)"
  using assms
  by (auto simp: finish_auth_def gate_attempt_def attempt_of_def with_ip_def Let_def unauthorized_def
      record_failure_def record_success_def split: auth_outcome.splits if_splits)



section \<open>The upgrade of a legacy hash\<close>

text \<open>What the argon2 crate promises, idealised: the hash of a password parses, carries the argon2id
  prefix, and verifies that password and no other.\<close>

definition argon_correct :: "('ph, 'c) crypto_scheme \<Rightarrow> bool" where
  "argon_correct C \<longleftrightarrow> (\<forall>pw salt. starts_with (hash_password C pw salt) ''$argon2id$''
     \<and> (\<exists>ph. password_hash_new C (hash_password C pw salt) = Some ph
          \<and> (\<forall>pw'. verify_password C pw' ph \<longleftrightarrow> pw' = pw)))"

lemma argon_verify:
  "argon_correct C \<Longrightarrow> verify_admin_password C (hash_admin_password C salt pw) pw' = Done (pw' = pw)"
  unfolding argon_correct_def verify_admin_password_def hash_admin_password_def
  by (metis (mono_tags, lifting) option.simps(5))

lemma finish_auth_upgrades:
  assumes "finish_auth C env rq password ro ip Full st = (Next, st')" and "is_legacy_password password"
  shows "admin_password_raw (gs_auth st') = hash_admin_password C (ge_salt env) password"
  using assms
  by (auto simp: finish_auth_def Let_def upgrade_def bump_generation_def token_invalidate_all_def
      split: prod.splits run.splits)

text \<open>
  Upgrading a legacy hash destroys the password. When the stored admin password is a legacy
  \<open>sha2:\<close> hash, the first mutating request that passes the gate replaces it by the argon2id hash of
  the stored hash string, not of the presented password. Afterwards the operator's password no
  longer verifies, and the old hash string itself has become the password.
\<close>

theorem sha2_upgrade_replaces_password:
  assumes "argon_correct C" and "auth_sound C (gs_auth st)" and "undisturbed (ge_admin env)"
    and "as_mode cfg = ACCESS_MODE_PASSWORD" and "\<not> is_read_verb (rq_method rq)"
    and "starts_with (admin_password_raw (gs_auth st)) ''sha2:''"
    and "auth_middleware C N form_parse env cfg rq st = (Next, st')"
  shows "\<exists>t. bearer_token (rq_authorization rq) = Some t
    \<and> verify_admin_password C (admin_password_raw (gs_auth st)) t = Done True
    \<and> verify_admin_password C (admin_password_raw (gs_auth st')) t = Done (t = admin_password_raw (gs_auth st))
    \<and> verify_admin_password C (admin_password_raw (gs_auth st')) (admin_password_raw (gs_auth st)) = Done True"
proof -
  let ?stored = "admin_password_raw (gs_auth st)"
  have legacy: "is_legacy_password ?stored" "?stored \<noteq> []"
    using assms(6) by (auto simp: is_legacy_password_def starts_with_iff)
  let ?p = "presented_token form_parse (rq_method rq) (rq_authorization rq) (rq_query rq)"
  obtain outcome auth t where out: "auth_outcome_of C env ?p (gs_auth st) = (Done outcome, auth)"
    and fin: "finish_auth C env rq ?stored (read_only_token_raw (gs_auth st))
        (client_address N cfg rq) outcome (st\<lparr>gs_lockout := t, gs_auth := auth\<rparr>) = (Next, st')"
    using assms(4,5,7) legacy(2)
    by (auto simp: auth_middleware_def Let_def auth_required_def is_read_verb_def
        split: prod.splits run.splits option.splits if_splits)
  have full: "outcome = Full"
    using finish_auth_Next [OF fin] assms(5) by (auto simp: read_only_allowed_def)
  then obtain tok where tok: "?p = Some tok" "verify_admin_password C ?stored tok = Done True"
    using auth_outcome_Full [OF assms(2)] out by blast
  then have "bearer_token (rq_authorization rq) = Some tok"
    using assms(5) by (auto simp: presented_token_def Let_def bind_eq_Some_conv split: option.splits if_splits)
  moreover have "admin_password_raw (gs_auth st') = hash_admin_password C (ge_salt env) ?stored"
    using finish_auth_upgrades fin legacy(1) full by blast
  ultimately show ?thesis using tok(2) argon_verify [OF assms(1)] by auto
qed

definition toy_crypto :: "string crypto" where
  "toy_crypto = \<lparr>password_hash_new = Some, verify_password = (\<lambda>pw ph. ph = ''$argon2id$'' @ pw),
     hash_password = (\<lambda>pw _. ''$argon2id$'' @ pw),
     sha256 = (\<lambda>b. if b = replicate 16 (CHR 0x00) @ ''pw'' then replicate 32 (CHR 0x01) else replicate 32 (CHR 0x00))\<rparr>"

definition legacy_row :: string where
  "legacy_row = ''sha2:0$'' @ hex_encode (replicate 16 (CHR 0x00)) @ ''$'' @ hex_encode (replicate 32 (CHR 0x01))"

lemma hex_no_dollar: "CHR ''$'' \<notin> set (hex_encode b)"
proof (induction b)
  case (Cons c b)
  have "hex_digit n \<noteq> CHR ''$''" if "n < 16" for n
  proof -
    have "ascii (hex_digit n) \<noteq> 36" using that by (auto simp: hex_digit_def ascii_char_of)
    then show ?thesis by (auto simp: ascii_def)
  qed
  with Cons ascii_div [of c] show ?case by (metis hex_encode_simps(2) mod_less_divisor set_ConsD zero_less_numeral)
qed simp

lemma legacy_row_verifies: "verify_admin_password toy_crypto legacy_row ''pw'' = Done True"
proof -
  let ?s = "hex_encode (replicate 16 (CHR 0x00))" and ?h = "hex_encode (replicate 32 (CHR 0x01))"
  have "split_on CHR ''$'' (''0'' @ CHR ''$'' # (?s @ CHR ''$'' # ?h)) = [''0'', ?s, ?h]"
    by (simp only: split_on_append) (simp add: split_on_absent hex_no_dollar)
  then have "verify_sha2 toy_crypto (''0$'' @ ?s @ ''$'' @ ?h) ''pw'' = Done True"
    by (simp add: verify_sha2_def Let_def next_part_def hex_decode_encode parse_unsigned_def
        SHA2_LEGACY_ITERATION_CAP_def is_ascii_digit_def ascii_def sha2_iterated_def toy_crypto_def)
  then show ?thesis
    by (simp add: verify_admin_password_def legacy_row_def starts_with_def strip_prefix_def)
qed

theorem sha2_upgrade_replaces_password_witness:
  "let st' = snd (auth_middleware toy_crypto no_nets (\<lambda>_. []) quiet_env password_mode
        (put_settings ''pw'') (gate_with legacy_row))
   in verify_admin_password toy_crypto legacy_row ''pw'' = Done True
      \<and> verify_admin_password toy_crypto (admin_password_raw (gs_auth st')) ''pw'' = Done False
      \<and> verify_admin_password toy_crypto (admin_password_raw (gs_auth st')) legacy_row = Done True"
proof -
  let ?rq = "put_settings ''pw''" and ?st = "gate_with legacy_row"
  let ?run = "auth_middleware toy_crypto no_nets (\<lambda>_. []) quiet_env password_mode ?rq ?st"
  have "fst ?run = Next"
    by (rule put_settings_passes) (simp_all add: legacy_row_verifies, simp add: legacy_row_def)
  then have run: "?run = (Next, snd ?run)" by (metis prod.collapse)
  have "argon_correct toy_crypto" by (auto simp: argon_correct_def toy_crypto_def starts_with_def)
  moreover have "undisturbed (ge_admin quiet_env)" by (simp add: undisturbed_def quiet_env_def quiet_def)
  moreover have "as_mode password_mode = ACCESS_MODE_PASSWORD"
    by (simp add: password_mode_def ACCESS_MODE_PASSWORD_def)
  moreover have "\<not> is_read_verb (rq_method ?rq)" by (simp add: put_settings_def is_read_verb_def)
  moreover have stored: "admin_password_raw (gs_auth ?st) = legacy_row" by (simp add: gate_with_def fresh_auth_def)
  moreover have "starts_with (admin_password_raw (gs_auth ?st)) ''sha2:''"
    unfolding stored by (simp add: legacy_row_def starts_with_def)
  moreover have "bearer_token (rq_authorization ?rq) = Some ''pw''"
    by (simp add: put_settings_def bearer_token_def eq_ignore_ascii_case_def to_ascii_lowercase_def
        lower_char_def ascii_def char_of_def bit_0)
  ultimately show ?thesis
    using sha2_upgrade_replaces_password [OF _ gate_with_sound _ _ _ _ run] legacy_row_verifies
    by (auto simp: Let_def legacy_row_def)
qed

text \<open>
  The log line carries no token. Whatever the query parser yields, the sanitised pairs have no
  \<open>access_token\<close> key and no value with an embedded \<open>access_token=\<close>, every other pair is kept in order
  with its key, and a query is logged verbatim only when nothing had to be stripped.
\<close>

theorem sanitized_log_has_no_token:
  "(\<forall>(k, v)\<in>set (fst (sanitize_pairs kvs)). k \<noteq> ''access_token'' \<and> \<not> str_contains v ''access_token='')
   \<and> map fst (fst (sanitize_pairs kvs)) = filter (\<lambda>k. k \<noteq> ''access_token'') (map fst kvs)
   \<and> (snd (sanitize_pairs kvs) \<longleftrightarrow> (\<exists>(k, v)\<in>set kvs. k = ''access_token'' \<or> str_contains v ''access_token=''))"
proof (induction kvs)
  case (Cons kv kvs)
  obtain k v where "kv = (k, v)" by (cases kv)
  moreover have "\<not> str_contains ''[redacted]'' ''access_token=''" by (simp add: starts_with_def)
  ultimately show ?case using Cons by (auto simp: split_beta Let_def)
qed simp

theorem sanitized_log_has_no_token_witness:
  "map fst (fst (sanitize_pairs [(''q'', ''x''), (''access_token'', ''s''), (''y'', ''a&access_token=s'')])) =
     [''q'', ''y'']"
  using sanitized_log_has_no_token [of "[(''q'', ''x''), (''access_token'', ''s''), (''y'', ''a&access_token=s'')]"]
  by (simp del: sanitize_pairs.simps)

end
