(* ===== verification/NetGuard.thy ===== *)
theory NetGuard
  imports NetAddr Errors
begin

text \<open>
  The SSRF guard of \<open>src/netguard.rs\<close>: the blocked address ranges, the URL and redirect checks, the
  resolution of a host to a pinned address, and the manual, bounded redirect chain through which
  user-influenced URLs are fetched.

  The \<open>url\<close> crate is the record \<open>url_ops\<close>; name resolution and the HTTP exchange are functions of
  the number of the request, since they may answer differently every time. Error messages are
  reproduced without the printed addresses.
\<close>

section \<open>Blocked addresses\<close>

definition v4_is_link_local :: "u8 \<Rightarrow> u8 \<Rightarrow> bool" where
  "v4_is_link_local a b \<longleftrightarrow> a = 169 \<and> b = 254"

definition v4_is_private :: "u8 \<Rightarrow> u8 \<Rightarrow> bool" where
  "v4_is_private a b \<longleftrightarrow> a = 10 \<or> (a = 172 \<and> 16 \<le> b \<and> b \<le> 31) \<or> (a = 192 \<and> b = 168)"

definition is_blocked_v4 :: "u8 \<Rightarrow> u8 \<Rightarrow> u8 \<Rightarrow> u8 \<Rightarrow> bool \<Rightarrow> bool \<Rightarrow> bool" where
  "is_blocked_v4 a b c d allow_private allow_loopback =
     (if v4_is_link_local a b \<or> (a = 0 \<and> b = 0 \<and> c = 0 \<and> d = 0) then True
      else if a = 127 then \<not> allow_loopback
      else if (a = 192 \<and> b = 0 \<and> c = 2) \<or> (a = 198 \<and> b = 51 \<and> c = 100) \<or> (a = 203 \<and> b = 0 \<and> c = 113)
      then True
      else \<not> allow_private \<and> (v4_is_private a b \<or> (a = 100 \<and> and b 0xC0 = 64)))"

text \<open>\<open>Ipv6Addr::to_ipv4\<close>: the mapped and the compatible block.\<close>

definition to_ipv4 :: "u16 list \<Rightarrow> (u8 \<times> u8 \<times> u8 \<times> u8) option" where
  "to_ipv4 s =
     (if take 5 s = [0, 0, 0, 0, 0] \<and> (s ! 5 = 0 \<or> s ! 5 = 0xffff)
      then Some (ucast (drop_bit 8 (s ! 6)), ucast (s ! 6), ucast (drop_bit 8 (s ! 7)), ucast (s ! 7))
      else None)"

fun is_blocked_ip :: "ip_addr \<Rightarrow> bool \<Rightarrow> bool \<Rightarrow> bool" where
  "is_blocked_ip (V4 a b c d) allow_private allow_loopback = is_blocked_v4 a b c d allow_private allow_loopback"
| "is_blocked_ip (V6 s0 s1 s2 s3 s4 s5 s6 s7) allow_private allow_loopback =
     (let s = [s0, s1, s2, s3, s4, s5, s6, s7]
      in if s = [0, 0, 0, 0, 0, 0, 0, 0] then True
         else if s = [0, 0, 0, 0, 0, 0, 0, 1] then \<not> allow_loopback
         else (case to_ipv4 s of
                 Some (a, b, c, d) \<Rightarrow> is_blocked_v4 a b c d allow_private allow_loopback
               | None \<Rightarrow>
                   if and s0 0xffc0 = 0xfe80 then True
                   else if (s0 = 0x0064 \<and> s1 = 0xff9b \<and> s2 = 0 \<and> s3 = 0) \<or> (s0 = 0x2001 \<and> s1 = 0x0db8)
                   then True
                   else \<not> allow_private \<and> and s0 0xfe00 = 0xfc00))"

section \<open>URL checks\<close>

record url =
  u_scheme :: string
  u_host :: "string option"
  u_port :: "nat option" \<comment> \<open>\<open>port_or_known_default\<close>\<close>
  u_str :: string

record url_ops =
  url_parse :: "string \<Rightarrow> (url, string) result"
  url_join :: "url \<Rightarrow> string \<Rightarrow> url option"

definition bare_host :: "string \<Rightarrow> string" where
  "bare_host host = rev (dropWhile (\<lambda>c. c = CHR '']'') (rev (dropWhile (\<lambda>c. c = CHR ''['') host)))"

definition is_http :: "string \<Rightarrow> bool" where
  "is_http scheme \<longleftrightarrow> scheme = ''http'' \<or> scheme = ''https''"

definition assert_host_not_blocked :: "url_ops \<Rightarrow> string \<Rightarrow> bool \<Rightarrow> bool \<Rightarrow> (unit, error) result" where
  "assert_host_not_blocked U url allow_private allow_loopback =
     (case url_parse U url of
        Inl e \<Rightarrow> Err (InvalidInput (''invalid URL: '' @ e))
      | Inr parsed \<Rightarrow>
          if \<not> is_http (u_scheme parsed) then Ok ()
          else (case u_host parsed of
                  None \<Rightarrow> Err (InvalidInput ''URL has no host'')
                | Some host \<Rightarrow>
                    if eq_ignore_ascii_case host ''localhost'' \<and> \<not> allow_loopback
                    then Err (InvalidInput ''URL host is not allowed (localhost)'')
                    else (case parse_ip (bare_host host) of
                            Some ip \<Rightarrow>
                              if is_blocked_ip ip allow_private allow_loopback
                              then Err (InvalidInput (''URL host '' @ host @ '' is in a blocked range''))
                              else Ok ()
                          | None \<Rightarrow> Ok ())))"

definition validate_download_url :: "url_ops \<Rightarrow> string \<Rightarrow> bool \<Rightarrow> (unit, error) result" where
  "validate_download_url U url allow_private =
     (case url_parse U url of
        Inl e \<Rightarrow> Err (InvalidInput (''invalid download URL: '' @ e))
      | Inr parsed \<Rightarrow>
          if \<not> is_http (u_scheme parsed)
          then Err (InvalidInput (''only http/https download URLs are allowed (got '' @ u_scheme parsed @ '')''))
          else assert_host_not_blocked U url allow_private False)"

definition port_of :: "url \<Rightarrow> nat" where
  "port_of parsed =
     (case u_port parsed of Some p \<Rightarrow> p | None \<Rightarrow> if u_scheme parsed = ''https'' then 443 else 80)"

type_synonym resolver = "string \<Rightarrow> nat \<Rightarrow> (ip_addr list, string) result"

definition redirect_hop_ok :: "url_ops \<Rightarrow> resolver \<Rightarrow> url \<Rightarrow> bool \<Rightarrow> bool \<Rightarrow> (unit, string) result" where
  "redirect_hop_ok U dns url allow_private allow_loopback =
     (if \<not> is_http (u_scheme url)
      then Err (''only http/https redirect targets allowed (got '' @ u_scheme url @ '')'')
      else (case assert_host_not_blocked U (u_str url) allow_private allow_loopback of
              Inl _ \<Rightarrow> Err ''redirect target rejected''
            | Inr _ \<Rightarrow>
                (let host = (case u_host url of Some h \<Rightarrow> h | None \<Rightarrow> [])
                 in if host \<noteq> [] \<and> parse_ip (bare_host host) = None
                    then (case dns host (port_of url) of
                            Inl e \<Rightarrow> Err (''redirect target '' @ host @ '' unresolvable: '' @ e)
                          | Inr addrs \<Rightarrow>
                              if list_ex (\<lambda>a. is_blocked_ip a allow_private allow_loopback) addrs
                              then Err (''redirect target '' @ host @ '' resolves to blocked address'')
                              else Ok ())
                    else Ok ())))"

type_synonym pin = "(string \<times> ip_addr) option"

definition resolve_download_host ::
  "url_ops \<Rightarrow> resolver \<Rightarrow> string \<Rightarrow> bool \<Rightarrow> bool \<Rightarrow> (pin, error) result" where
  "resolve_download_host U dns url allow_private allow_loopback =
     (case url_parse U url of
        Inl e \<Rightarrow> Err (InvalidInput (''invalid URL: '' @ e))
      | Inr parsed \<Rightarrow>
          (case u_host parsed of
             None \<Rightarrow> Err (InvalidInput ''URL has no host'')
           | Some host \<Rightarrow>
               if parse_ip (bare_host host) \<noteq> None then Ok None
               else (case dns host (port_of parsed) of
                       Inl e \<Rightarrow> Err (Io e)
                     | Inr addrs \<Rightarrow>
                         if addrs = [] then Err (InvalidInput (''host '' @ host @ '' resolved to no addresses''))
                         else if list_ex (\<lambda>a. is_blocked_ip a allow_private allow_loopback) addrs
                         then Err (InvalidInput (''host '' @ host @ '' resolves to blocked address''))
                         else Ok (Some (host, hd addrs)))))"

section \<open>The redirect chain\<close>

definition MAX_REDIRECT_HOPS :: nat where "MAX_REDIRECT_HOPS = 5"

record http_response =
  r_status :: nat
  r_location :: "string option"

datatype hop_decision = Final | Follow string

definition redirect_step :: "url_ops \<Rightarrow> string \<Rightarrow> http_response \<Rightarrow> hop_decision" where
  "redirect_step U current r =
     (if r_status r \<in> {301, 302, 303, 307, 308}
      then (case r_location r of
              None \<Rightarrow> Final
            | Some l \<Rightarrow>
                if trim l = [] then Final
                else (case url_parse U current of
                        Inl _ \<Rightarrow> Final
                      | Inr base \<Rightarrow> (case url_join U base (trim l) of
                                       Some next \<Rightarrow> Follow (u_str next) | None \<Rightarrow> Final)))
      else Final)"

definition pin_for_hop ::
  "url_ops \<Rightarrow> resolver \<Rightarrow> string \<Rightarrow> bool \<Rightarrow> (string \<times> ip_addr) list \<Rightarrow> (pin, error) result" where
  "pin_for_hop U dns url allow_private host_pins =
     (case url_parse U url of
        Inl e \<Rightarrow> Err (InvalidInput (''invalid URL: '' @ e))
      | Inr parsed \<Rightarrow>
          (case u_host parsed of
             None \<Rightarrow> Err (InvalidInput ''URL has no host'')
           | Some host \<Rightarrow>
               if parse_ip (bare_host host) \<noteq> None then Ok None
               else (case find (\<lambda>(h, _). eq_ignore_ascii_case h host) host_pins of
                       Some (_, ip) \<Rightarrow> Ok (Some (host, ip))
                     | None \<Rightarrow> resolve_download_host U dns url allow_private False)))"

text \<open>What the chain meets at its \<open>k\<close>-th request: the live setting, the resolver and the exchange.\<close>

record 'c chain_env =
  ce_allow_private :: "nat \<Rightarrow> bool"
  ce_dns :: "nat \<Rightarrow> resolver"
  ce_build_client :: "pin \<Rightarrow> ('c, error) result"
  ce_send :: "nat \<Rightarrow> 'c \<Rightarrow> string \<Rightarrow> (http_response, string) result"

record 'c pinned_response =
  p_url :: string
  p_client :: 'c
  p_response :: http_response

text \<open>The loop, with the requests it sent: the URL, the pin of its client, the setting it obeyed.\<close>

function follow_loop ::
  "url_ops \<Rightarrow> 'c chain_env \<Rightarrow> (string \<times> ip_addr) list \<Rightarrow> nat \<Rightarrow> string
    \<Rightarrow> ('c pinned_response, error) result \<times> (string \<times> pin \<times> bool) list" where
  "follow_loop U E host_pins followed url =
     (let allow_private = ce_allow_private E followed in
      case validate_download_url U url allow_private of
        Inl e \<Rightarrow> (Err e, [])
      | Inr _ \<Rightarrow>
          (case pin_for_hop U (ce_dns E followed) url allow_private host_pins of
             Inl e \<Rightarrow> (Err e, [])
           | Inr pin \<Rightarrow>
               (case ce_build_client E pin of
                  Inl e \<Rightarrow> (Err e, [])
                | Inr client \<Rightarrow>
                    (case ce_send E followed client url of
                       Inl e \<Rightarrow> (Err (Http e), [(url, pin, allow_private)])
                     | Inr response \<Rightarrow>
                         (case redirect_step U url response of
                            Final \<Rightarrow>
                              (Ok \<lparr>p_url = url, p_client = client, p_response = response\<rparr>,
                               [(url, pin, allow_private)])
                          | Follow next \<Rightarrow>
                              if followed \<ge> MAX_REDIRECT_HOPS
                              then (Err (InvalidInput (''too many redirects: '' @ url)),
                                    [(url, pin, allow_private)])
                              else
                                (let (res, sent) = follow_loop U E host_pins (followed + 1) next
                                 in (res, (url, pin, allow_private) # sent)))))))"
  by pat_completeness auto

termination follow_loop
  by (relation "measure (\<lambda>(U, E, host_pins, followed, url). MAX_REDIRECT_HOPS - followed)") auto

definition follow_pinned_get ::
  "url_ops \<Rightarrow> 'c chain_env \<Rightarrow> (string \<times> ip_addr) list \<Rightarrow> string
    \<Rightarrow> ('c pinned_response, error) result \<times> (string \<times> pin \<times> bool) list" where
  "follow_pinned_get U E host_pins start_url = follow_loop U E host_pins 0 start_url"

section \<open>The blocked ranges as networks\<close>

text \<open>An address as a number, and a network as a base address with a prefix length.\<close>

definition be_value :: "nat \<Rightarrow> nat list \<Rightarrow> nat" where
  "be_value B ds = foldl (\<lambda>v d. v * B + d) 0 ds"

definition in_net :: "nat \<Rightarrow> nat \<Rightarrow> nat \<times> nat \<Rightarrow> bool" where
  "in_net width v net = (v div 2 ^ (width - snd net) = fst net div 2 ^ (width - snd net))"

definition net4 :: "nat list \<Rightarrow> nat \<Rightarrow> nat \<times> nat" where
  "net4 octets len = (be_value 256 octets, len)"

definition net6 :: "nat list \<Rightarrow> nat \<Rightarrow> nat \<times> nat" where
  "net6 segments len = (be_value 65536 segments, len)"

definition blocked4 :: "nat \<Rightarrow> bool \<Rightarrow> bool \<Rightarrow> bool" where
  "blocked4 v allow_private allow_loopback \<longleftrightarrow>
     list_ex (in_net 32 v) [net4 [169, 254, 0, 0] 16, net4 [0, 0, 0, 0] 32, net4 [192, 0, 2, 0] 24,
       net4 [198, 51, 100, 0] 24, net4 [203, 0, 113, 0] 24]
     \<or> \<not> allow_loopback \<and> in_net 32 v (net4 [127, 0, 0, 0] 8)
     \<or> \<not> allow_private \<and> list_ex (in_net 32 v) [net4 [10, 0, 0, 0] 8, net4 [172, 16, 0, 0] 12,
         net4 [192, 168, 0, 0] 16, net4 [100, 64, 0, 0] 10]"

definition blocked6 :: "nat \<Rightarrow> bool \<Rightarrow> bool \<Rightarrow> bool" where
  "blocked6 v allow_private allow_loopback =
     (if v = 1 then \<not> allow_loopback
      else if in_net 128 v (net6 [0, 0, 0, 0, 0, 0, 0, 0] 96) \<or> in_net 128 v (net6 [0, 0, 0, 0, 0, 0xffff, 0, 0] 96)
      then blocked4 (v mod 2 ^ 32) allow_private allow_loopback
      else list_ex (in_net 128 v) [net6 [0xfe80, 0, 0, 0, 0, 0, 0, 0] 10, net6 [0x64, 0xff9b, 0, 0, 0, 0, 0, 0] 64,
             net6 [0x2001, 0xdb8, 0, 0, 0, 0, 0, 0] 32]
           \<or> \<not> allow_private \<and> in_net 128 v (net6 [0xfc00, 0, 0, 0, 0, 0, 0, 0] 7))"

fun blocked_by_table :: "ip_addr \<Rightarrow> bool \<Rightarrow> bool \<Rightarrow> bool" where
  "blocked_by_table (V4 a b c d) ap al = blocked4 (be_value 256 (map unat [a, b, c, d])) ap al"
| "blocked_by_table (V6 a b c d e f g h) ap al = blocked6 (be_value 65536 (map unat [a, b, c, d, e, f, g, h])) ap al"

lemma and_high_bits:
  fixes x :: "'a::len word"
  assumes "M = not (mask n)" and "take_bit n c = 0"
  shows "and x M = c \<longleftrightarrow> unat x div 2 ^ n = unat c div 2 ^ n"
proof -
  have "and x M = c \<longleftrightarrow> drop_bit n x = drop_bit n c"
  proof
    assume "drop_bit n x = drop_bit n c"
    then have "bit x (n + k) = bit c (n + k)" for k
      by (metis bit_drop_bit_eq comp_apply)
    then have "bit x k = bit c k" if "n \<le> k" for k
      using that by (metis le_add_diff_inverse)
    moreover have "\<not> bit c k" if "k < n" for k
      using assms(2) that by (metis bit_0_eq bit_take_bit_iff bot_apply bot_bool_def)
    ultimately show "and x M = c"
      using assms(1) by (auto simp: bit_eq_iff bit_and_iff bit_not_iff bit_mask_iff not_less)
  next
    assume "and x M = c"
    then have "c = and x (not (mask n))" using assms(1) by simp
    then show "drop_bit n x = drop_bit n c"
      by (auto intro!: bit_eqI simp: bit_simps dest: bit_imp_le_length)
  qed
  also have "\<dots> \<longleftrightarrow> unat (drop_bit n x) = unat (drop_bit n c)" by (simp add: word_unat_eq_iff)
  also have "\<dots> \<longleftrightarrow> unat x div 2 ^ n = unat c div 2 ^ n"
    unfolding unat_drop_bit_eq by (simp add: drop_bit_eq_div)
  finally show ?thesis .
qed

lemma octet_nets:
  fixes A B C D :: nat
  assumes "A < 256" "B < 256" "C < 256" "D < 256"
  defines "v \<equiv> be_value 256 [A, B, C, D]"
  shows "v div 2 ^ 8 = (A * 256 + B) * 256 + C" "v div 2 ^ 16 = A * 256 + B" "v div 2 ^ 24 = A"
    "v div 2 ^ 20 = A * 16 + B div 16" "v div 2 ^ 22 = A * 4 + B div 64"
    "v = ((A * 256 + B) * 256 + C) * 256 + D"
  using assms by (simp_all add: be_value_def)

lemma digit_eq: "x < k \<Longrightarrow> y < k \<Longrightarrow> A * k + x = p * k + y \<longleftrightarrow> A = p \<and> x = (y::nat)"
proof -
  assume "x < k" "y < k"
  then have "(A * k + x) div k = A" "(p * k + y) div k = p" by simp_all
  then show ?thesis by auto
qed

lemma net4_members:
  fixes A B C D :: nat
  assumes "A < 256" "B < 256" "C < 256" "D < 256"
  defines "v \<equiv> be_value 256 [A, B, C, D]"
  shows "in_net 32 v (net4 [p, 0, 0, 0] 8) \<longleftrightarrow> A = p"
    and "q < 256 \<Longrightarrow> in_net 32 v (net4 [p, q, 0, 0] 16) \<longleftrightarrow> A = p \<and> B = q"
    and "q < 256 \<Longrightarrow> r < 256 \<Longrightarrow> in_net 32 v (net4 [p, q, r, 0] 24) \<longleftrightarrow> A = p \<and> B = q \<and> C = r"
    and "in_net 32 v (net4 [0, 0, 0, 0] 32) \<longleftrightarrow> A = 0 \<and> B = 0 \<and> C = 0 \<and> D = 0"
    and "in_net 32 v (net4 [172, 16, 0, 0] 12) \<longleftrightarrow> A = 172 \<and> B div 16 = 1"
    and "in_net 32 v (net4 [100, 64, 0, 0] 10) \<longleftrightarrow> A = 100 \<and> B div 64 = 1"
proof -
  note nets = octet_nets [OF assms(1-4), folded v_def]
  show "in_net 32 v (net4 [p, 0, 0, 0] 8) \<longleftrightarrow> A = p"
    using nets(3) by (simp add: in_net_def net4_def be_value_def)
  show "in_net 32 v (net4 [p, q, 0, 0] 16) \<longleftrightarrow> A = p \<and> B = q" if "q < 256"
    using nets(2) digit_eq [OF assms(2) that] by (simp add: in_net_def net4_def be_value_def mult.commute)
  show "in_net 32 v (net4 [p, q, r, 0] 24) \<longleftrightarrow> A = p \<and> B = q \<and> C = r" if "q < 256" "r < 256"
  proof -
    have "in_net 32 v (net4 [p, q, r, 0] 24) \<longleftrightarrow> (A * 256 + B) * 256 + C = (p * 256 + q) * 256 + r"
      using nets(1) by (simp add: in_net_def net4_def be_value_def mult.commute)
    then show ?thesis
      by (simp only: digit_eq [OF assms(3) that(2)] digit_eq [OF assms(2) that(1)] conj_assoc)
  qed
  show "in_net 32 v (net4 [0, 0, 0, 0] 32) \<longleftrightarrow> A = 0 \<and> B = 0 \<and> C = 0 \<and> D = 0"
    using nets(6) by (simp add: in_net_def net4_def be_value_def)
  have "B div 16 < 16" "B div 64 < 4" using assms(2) by simp_all
  then have "A * 16 + B div 16 = 172 * 16 + 1 \<longleftrightarrow> A = 172 \<and> B div 16 = 1"
    "A * 4 + B div 64 = 100 * 4 + 1 \<longleftrightarrow> A = 100 \<and> B div 64 = 1"
    by (intro digit_eq; simp)+
  then show "in_net 32 v (net4 [172, 16, 0, 0] 12) \<longleftrightarrow> A = 172 \<and> B div 16 = 1"
    "in_net 32 v (net4 [100, 64, 0, 0] 10) \<longleftrightarrow> A = 100 \<and> B div 64 = 1"
    using nets(4,5) by (simp_all add: in_net_def net4_def be_value_def)
qed

lemma blocked4_octets:
  fixes A B C D :: nat
  assumes "A < 256" "B < 256" "C < 256" "D < 256"
  shows "blocked4 (be_value 256 [A, B, C, D]) ap al \<longleftrightarrow>
    A = 169 \<and> B = 254 \<or> A = 0 \<and> B = 0 \<and> C = 0 \<and> D = 0
    \<or> A = 192 \<and> B = 0 \<and> C = 2 \<or> A = 198 \<and> B = 51 \<and> C = 100 \<or> A = 203 \<and> B = 0 \<and> C = 113
    \<or> \<not> al \<and> A = 127
    \<or> \<not> ap \<and> (A = 10 \<or> A = 172 \<and> B div 16 = 1 \<or> A = 192 \<and> B = 168 \<or> A = 100 \<and> B div 64 = 1)"
  using assms unfolding blocked4_def by (simp add: net4_members del: One_nat_def)

lemma is_blocked_v4_table:
  "is_blocked_v4 a b c d ap al \<longleftrightarrow> blocked4 (be_value 256 (map unat [a, b, c, d])) ap al"
proof -
  have lt: "unat a < 256" "unat b < 256" "unat c < 256" "unat d < 256"
    using unsigned_less [of a] unsigned_less [of b] unsigned_less [of c] unsigned_less [of d] by simp_all
  have cgnat: "and b 0xC0 = 64 \<longleftrightarrow> unat b div 64 = 1"
    using and_high_bits [of "0xC0" 6 64 b] by (simp add: mask_eq_exp_minus_1 not_eq_complement)
  have priv: "16 \<le> b \<and> b \<le> 31 \<longleftrightarrow> unat b div 16 = 1"
    unfolding word_le_nat_alt by (auto simp: div_nat_eqI)
  show ?thesis
    unfolding is_blocked_v4_def v4_is_link_local_def v4_is_private_def cgnat priv list.map
      blocked4_octets [OF lt]
    by (cases "unat a = 127") (simp_all add: word_unat_eq_iff del: neq0_conv, blast)
qed

lemma be_value_Nil [simp]: "be_value B [] = 0"
  by (simp add: be_value_def)

lemma be_value_snoc [simp]: "be_value B (xs @ [y]) = be_value B xs * B + y"
  by (simp add: be_value_def)

lemma be_value_single: "be_value B [y] = y"
  by (simp add: be_value_def)

lemma be_value_div:
  "\<forall>y\<in>set ys. y < B \<Longrightarrow> be_value B (xs @ ys) div B ^ length ys = be_value B xs"
proof (induction ys rule: rev_induct)
  case (snoc y ys)
  have "be_value B (xs @ ys @ [y]) div B ^ length (ys @ [y]) = be_value B (xs @ ys) * B div B div B ^ length ys"
    using snoc.prems by (simp add: div_mult2_eq be_value_snoc [of B "xs @ ys", simplified])
  then show ?case using snoc by (cases "B = 0") auto
qed simp

lemma be_value_inject:
  "length xs = length ys \<Longrightarrow> \<forall>x\<in>set xs. x < B \<Longrightarrow> \<forall>y\<in>set ys. y < B \<Longrightarrow>
     be_value B xs = be_value B ys \<longleftrightarrow> xs = ys"
proof (induction xs arbitrary: ys rule: rev_induct)
  case (snoc x xs)
  then obtain y zs where ys: "ys = zs @ [y]" by (metis append_butlast_last_id length_0_conv snoc_eq_iff_butlast)
  with snoc show ?case by (simp add: digit_eq)
qed simp

lemma net6_prefix:
  assumes "length ss + length ts = 8" "length ps = length ss" "length zs = length ts"
    and "\<forall>s\<in>set (ss @ ts). s < 65536" and "\<forall>p\<in>set (ps @ zs). p < 65536" and "len = 16 * length ss"
  shows "in_net 128 (be_value 65536 (ss @ ts)) (net6 (ps @ zs) len) \<longleftrightarrow> ss = ps"
proof -
  have "128 - len = 16 * length ts" using assms(1,6) by simp
  then have "(2::nat) ^ (128 - len) = 65536 ^ length ts" by (simp add: power_mult)
  moreover have "be_value 65536 (ss @ ts) div 65536 ^ length ts = be_value 65536 ss"
    using assms(4) by (intro be_value_div) simp
  moreover have "be_value 65536 (ps @ zs) div 65536 ^ length ts = be_value 65536 ps"
    using assms(3,5) be_value_div [of zs 65536 ps] by simp
  moreover have "be_value 65536 ss = be_value 65536 ps \<longleftrightarrow> ss = ps"
    using assms by (intro be_value_inject) auto
  ultimately show ?thesis by (simp add: in_net_def net6_def)
qed

lemma net6_high_bits:
  assumes "length ts = 7" and "s < 65536" "\<forall>t\<in>set ts. t < 65536" and "len \<le> 16" and "p < 65536"
  shows "in_net 128 (be_value 65536 (s # ts)) (net6 (p # replicate 7 0) len) \<longleftrightarrow>
    s div 2 ^ (16 - len) = p div 2 ^ (16 - len)"
proof -
  have e: "128 - len = 112 + (16 - len)" using assms(4) by simp
  have "(2::nat) ^ 112 = 65536 ^ 7" by simp
  then have "(2::nat) ^ (128 - len) = 65536 ^ 7 * 2 ^ (16 - len)" by (simp only: e power_add)
  moreover have "be_value 65536 (s # ts) div 65536 ^ 7 = s"
    using be_value_div [OF assms(3), of "[s]"] unfolding assms(1)
    by (simp only: append_Cons append_Nil be_value_single)
  moreover have "be_value 65536 (p # replicate 7 0) div 65536 ^ 7 = p"
    using be_value_div [of "replicate 7 0" 65536 "[p]"] unfolding length_replicate
    by (simp only: append_Cons append_Nil be_value_single) simp
  ultimately show ?thesis by (simp only: in_net_def net6_def div_mult2_eq fst_conv snd_conv)
qed

lemma embedded_v4:
  fixes g h :: u16
  shows "be_value 256 (map unat [ucast (drop_bit 8 g) :: u8, ucast g, ucast (drop_bit 8 h), ucast h]) = unat g * 65536 + unat h"
proof -
  have "unat (ucast (drop_bit 8 x) :: u8) = unat x div 256" "unat (ucast x :: u8) = unat x mod 256" for x :: u16
  proof -
    have "unat x < 65536" using unsigned_less [of x] by simp
    then have "unat x div 256 < 256" by simp
    then show "unat (ucast (drop_bit 8 x) :: u8) = unat x div 256"
      by (simp add: unsigned_ucast_eq drop_bit_eq_div take_bit_eq_mod unat_div)
    show "unat (ucast x :: u8) = unat x mod 256"
      by (simp add: unsigned_ucast_eq take_bit_eq_mod)
  qed
  moreover have "((g' div 256 * 256 + g' mod 256) * 256 + h' div 256) * 256 + h' mod 256 = g' * 65536 + h'" for g' h' :: nat
    by (simp add: algebra_simps)
  ultimately show ?thesis by (simp add: be_value_def)
qed

lemma v6_mod:
  fixes g h :: nat
  assumes "g < 65536" "h < 65536"
  shows "be_value 65536 [a, b, c, d, e, f, g, h] mod 2 ^ 32 = g * 65536 + h"
proof -
  have "be_value 65536 [a, b, c, d, e, f, g, h] = be_value 65536 [a, b, c, d, e, f] * 2 ^ 32 + (g * 65536 + h)"
    by (simp add: be_value_def algebra_simps)
  moreover have "g * 65536 + h < 2 ^ 32" using assms by simp
  ultimately show ?thesis by simp
qed

lemma to_ipv4_net:
  fixes s0 s1 s2 s3 s4 s5 s6 s7 :: u16
  defines "v \<equiv> be_value 65536 (map unat [s0, s1, s2, s3, s4, s5, s6, s7])"
  shows "to_ipv4 [s0, s1, s2, s3, s4, s5, s6, s7] \<noteq> None \<longleftrightarrow>
    in_net 128 v (net6 [0, 0, 0, 0, 0, 0, 0, 0] 96) \<or> in_net 128 v (net6 [0, 0, 0, 0, 0, 0xffff, 0, 0] 96)"
proof -
  have lt: "unat s < 65536" for s :: u16 using unsigned_less [of s] by simp
  have v: "v = be_value 65536 (map unat [s0, s1, s2, s3, s4, s5] @ map unat [s6, s7])" by (simp add: v_def)
  have "in_net 128 v (net6 ([0, 0, 0, 0, 0, z] @ [0, 0]) 96) \<longleftrightarrow> map unat [s0, s1, s2, s3, s4, s5] = [0, 0, 0, 0, 0, z]"
    if "z < 65536" for z
    unfolding v using that lt by (intro net6_prefix) auto
  from this [of 0] this [of "0xffff"] show ?thesis by (auto simp: to_ipv4_def word_unat_eq_iff)
qed

lemma segment_less: "unat (s :: u16) < 65536"
  using unsigned_less [of s] by simp

lemma v6_value_inject:
  fixes ss ts :: "u16 list"
  assumes "length ss = length ts"
  shows "be_value 65536 (map unat ss) = be_value 65536 (map unat ts) \<longleftrightarrow> ss = ts"
proof -
  have "map unat ss = map unat ts \<longleftrightarrow> ss = ts"
    by (rule inj_map_eq_map) (simp add: inj_def word_unat_eq_iff)
  then show ?thesis using assms segment_less by (subst be_value_inject) auto
qed

lemma replicate_seven: "replicate 7 x = [x, x, x, x, x, x, x]"
  by (simp add: numeral_eq_Suc)

lemma v6_nets:
  fixes s0 s1 s2 s3 s4 s5 s6 s7 :: u16
  defines "v \<equiv> be_value 65536 (map unat [s0, s1, s2, s3, s4, s5, s6, s7])"
  shows "in_net 128 v (net6 [0xfe80, 0, 0, 0, 0, 0, 0, 0] 10) \<longleftrightarrow> and s0 0xffc0 = 0xfe80"
    and "in_net 128 v (net6 [0xfc00, 0, 0, 0, 0, 0, 0, 0] 7) \<longleftrightarrow> and s0 0xfe00 = 0xfc00"
    and "in_net 128 v (net6 [0x64, 0xff9b, 0, 0, 0, 0, 0, 0] 64) \<longleftrightarrow> s0 = 0x64 \<and> s1 = 0xff9b \<and> s2 = 0 \<and> s3 = 0"
    and "in_net 128 v (net6 [0x2001, 0xdb8, 0, 0, 0, 0, 0, 0] 32) \<longleftrightarrow> s0 = 0x2001 \<and> s1 = 0xdb8"
proof -
  have high: "in_net 128 v (net6 (p # replicate 7 0) len) \<longleftrightarrow> unat s0 div 2 ^ (16 - len) = p div 2 ^ (16 - len)"
    if "len \<le> 16" "p < 65536" for p len
    using that segment_less net6_high_bits [of "map unat [s1, s2, s3, s4, s5, s6, s7]" "unat s0" len p]
    by (simp add: v_def)
  show "in_net 128 v (net6 [0xfe80, 0, 0, 0, 0, 0, 0, 0] 10) \<longleftrightarrow> and s0 0xffc0 = 0xfe80"
    using high [of 10 "0xfe80"] and_high_bits [of "0xffc0" 6 "0xfe80" s0]
    by (simp add: mask_eq_exp_minus_1 not_eq_complement replicate_seven)
  show "in_net 128 v (net6 [0xfc00, 0, 0, 0, 0, 0, 0, 0] 7) \<longleftrightarrow> and s0 0xfe00 = 0xfc00"
    using high [of 7 "0xfc00"] and_high_bits [of "0xfe00" 9 "0xfc00" s0]
    by (simp add: mask_eq_exp_minus_1 not_eq_complement replicate_seven)
  have "in_net 128 v (net6 ([0x64, 0xff9b, 0, 0] @ [0, 0, 0, 0]) 64) \<longleftrightarrow> map unat [s0, s1, s2, s3] = [0x64, 0xff9b, 0, 0]"
    unfolding v_def using segment_less net6_prefix [of "map unat [s0, s1, s2, s3]" "map unat [s4, s5, s6, s7]" "[0x64, 0xff9b, 0, 0]" "[0, 0, 0, 0]" 64]
    by simp
  then show "in_net 128 v (net6 [0x64, 0xff9b, 0, 0, 0, 0, 0, 0] 64) \<longleftrightarrow> s0 = 0x64 \<and> s1 = 0xff9b \<and> s2 = 0 \<and> s3 = 0"
    by (simp add: word_unat_eq_iff)
  have "in_net 128 v (net6 ([0x2001, 0xdb8] @ [0, 0, 0, 0, 0, 0]) 32) \<longleftrightarrow> map unat [s0, s1] = [0x2001, 0xdb8]"
    unfolding v_def using segment_less net6_prefix [of "map unat [s0, s1]" "map unat [s2, s3, s4, s5, s6, s7]" "[0x2001, 0xdb8]" "[0, 0, 0, 0, 0, 0]" 32]
    by simp
  then show "in_net 128 v (net6 [0x2001, 0xdb8, 0, 0, 0, 0, 0, 0] 32) \<longleftrightarrow> s0 = 0x2001 \<and> s1 = 0xdb8"
    by (simp add: word_unat_eq_iff)
qed

lemma blocked_v6:
  "is_blocked_ip (V6 s0 s1 s2 s3 s4 s5 s6 s7) ap al = blocked_by_table (V6 s0 s1 s2 s3 s4 s5 s6 s7) ap al"
proof -
  let ?ss = "[s0, s1, s2, s3, s4, s5, s6, s7]"
  let ?v = "be_value 65536 (map unat ?ss)"
  have zero: "?ss = [0, 0, 0, 0, 0, 0, 0, 0] \<longleftrightarrow> ?v = 0"
    using v6_value_inject [of ?ss "[0, 0, 0, 0, 0, 0, 0, 0]"] by (simp add: be_value_def)
  have one: "?ss = [0, 0, 0, 0, 0, 0, 0, 1] \<longleftrightarrow> ?v = 1"
    using v6_value_inject [of ?ss "[0, 0, 0, 0, 0, 0, 0, 1]"] by (simp add: be_value_def)
  show ?thesis
  proof (cases "to_ipv4 ?ss")
    case None
    then have "?v \<noteq> 0" "?v \<noteq> 1" unfolding zero [symmetric] one [symmetric] by (auto simp: to_ipv4_def)
    with None to_ipv4_net [of s0 s1 s2 s3 s4 s5 s6 s7] show ?thesis
      unfolding is_blocked_ip.simps blocked_by_table.simps blocked6_def Let_def zero one
      by (simp add: v6_nets [unfolded list.map]) blast
  next
    case (Some q)
    obtain a b c d where q: "q = (a, b, c, d)" by (cases q)
    have "be_value 256 (map unat [a, b, c, d]) = ?v mod 2 ^ 32"
      using Some embedded_v4 [of s6 s7] v6_mod [OF segment_less segment_less]
      by (auto simp: q to_ipv4_def split: if_splits)
    moreover have "blocked4 0 ap al" using blocked4_octets [of 0 0 0 0 ap al] by (simp add: be_value_def)
    moreover have "in_net 128 ?v (net6 [0, 0, 0, 0, 0, 0, 0, 0] 96) \<or> in_net 128 ?v (net6 [0, 0, 0, 0, 0, 0xffff, 0, 0] 96)"
      using Some to_ipv4_net [of s0 s1 s2 s3 s4 s5 s6 s7] by simp
    ultimately show ?thesis
      unfolding is_blocked_ip.simps blocked_by_table.simps blocked6_def Let_def zero one
      using Some q is_blocked_v4_table [of a b c d ap al] by (cases "?v = 0") auto
  qed
qed

text \<open>
  C10. The blocked ranges. \<open>is_blocked_ip\<close> blocks exactly the addresses of a table of networks: always
  the IPv4 link-local, unspecified and documentation networks; loopback unless allowed; the private
  networks and 100.64.0.0/10 unless allowed; for IPv6 the same table for the embedded IPv4 address of
  \<open>::/96\<close> and \<open>::ffff:0:0/96\<close> (\<open>::1\<close> apart), and otherwise fe80::/10, 64:ff9b::/64 and 2001:db8::/32
  always and fc00::/7 unless private networks are allowed.
\<close>

theorem blocked_ip_is_network_table:
  "is_blocked_ip ip allow_private allow_loopback = blocked_by_table ip allow_private allow_loopback"
proof (cases ip)
  case (V4 a b c d)
  then show ?thesis using is_blocked_v4_table by simp
qed (simp only: blocked_v6)

section \<open>Every request of a chain is safe\<close>

text \<open>The address a client connects to for a URL: the pinned address, or the literal in the URL.\<close>

definition connects_to :: "url_ops \<Rightarrow> string \<Rightarrow> pin \<Rightarrow> ip_addr option" where
  "connects_to U url pin =
     (case pin of
        Some (_, ip) \<Rightarrow> Some ip
      | None \<Rightarrow> (case url_parse U url of
                   Inr parsed \<Rightarrow> Option.bind (u_host parsed) (\<lambda>h. parse_ip (bare_host h))
                 | Inl _ \<Rightarrow> None))"

definition safe_request :: "url_ops \<Rightarrow> string \<times> pin \<times> bool \<Rightarrow> bool" where
  "safe_request U rq =
     (case rq of (url, pin, allow_private) \<Rightarrow>
        (\<exists>parsed. url_parse U url = Inr parsed \<and> is_http (u_scheme parsed))
        \<and> (\<exists>ip. connects_to U url pin = Some ip \<and> \<not> is_blocked_ip ip allow_private False))"

lemma hop_is_safe:
  assumes "validate_download_url U url ap = Inr ()" and "pin_for_hop U dns url ap [] = Inr pin"
  shows "safe_request U (url, pin, ap)"
proof -
  obtain parsed where p: "url_parse U url = Inr parsed" "is_http (u_scheme parsed)"
    and host_ok: "assert_host_not_blocked U url ap False = Inr ()"
    using assms(1) by (auto simp: validate_download_url_def split: sum.splits if_splits)
  obtain host where h: "u_host parsed = Some host"
    using assms(2) p(1) by (auto simp: pin_for_hop_def split: option.splits)
  show ?thesis
  proof (cases "parse_ip (bare_host host)")
    case (Some ip)
    then have "pin = None" using assms(2) p(1) h by (auto simp: pin_for_hop_def)
    moreover have "\<not> is_blocked_ip ip ap False"
      using host_ok p h Some by (auto simp: assert_host_not_blocked_def split: if_splits)
    ultimately show ?thesis using p h Some by (simp add: safe_request_def connects_to_def)
  next
    case None
    then have "resolve_download_host U dns url ap False = Inr pin"
      using assms(2) p(1) h by (simp add: pin_for_hop_def)
    then obtain addrs where "addrs \<noteq> []" "\<not> list_ex (\<lambda>a. is_blocked_ip a ap False) addrs" "pin = Some (host, hd addrs)"
      using p(1) h None by (auto simp: resolve_download_host_def split: sum.splits if_splits)
    then show ?thesis using p by (auto simp: safe_request_def connects_to_def list_ex_iff)
  qed
qed

declare follow_loop.simps [simp del]

lemma follow_loop_unroll:
  obtains "snd (follow_loop U E [] followed url) = []"
  | rq where "snd (follow_loop U E [] followed url) = [rq]" "safe_request U rq"
  | rq nxt where "snd (follow_loop U E [] followed url) = rq # snd (follow_loop U E [] (followed + 1) nxt)"
    "safe_request U rq" "followed < MAX_REDIRECT_HOPS"
proof -
  let ?ap = "ce_allow_private E followed"
  show thesis
  proof (cases "validate_download_url U url ?ap")
    case (Inl e)
    then show thesis using that(1) by (simp add: follow_loop.simps [of U E "[]" followed url] Let_def)
  next
    case valid: (Inr u)
    show thesis
    proof (cases "pin_for_hop U (ce_dns E followed) url ?ap []")
      case (Inl e)
      then show thesis using that(1) valid by (simp add: follow_loop.simps [of U E "[]" followed url] Let_def)
    next
      case pinned: (Inr pin)
      let ?rq = "(url, pin, ?ap)"
      have "snd (follow_loop U E [] followed url) \<in> {[], [?rq]}
        \<or> followed < MAX_REDIRECT_HOPS \<and>
           (\<exists>nxt. snd (follow_loop U E [] followed url) = ?rq # snd (follow_loop U E [] (followed + 1) nxt))"
        unfolding follow_loop.simps [of U E "[]" followed url]
        by (auto simp: Let_def split_beta valid pinned not_le split: sum.split hop_decision.split)
      moreover have "safe_request U ?rq" using hop_is_safe valid pinned by simp
      ultimately show thesis using that by blast
    qed
  qed
qed

lemma follow_loop_sent:
  "followed \<le> MAX_REDIRECT_HOPS \<Longrightarrow>
     length (snd (follow_loop U E [] followed url)) \<le> MAX_REDIRECT_HOPS + 1 - followed
     \<and> (\<forall>rq\<in>set (snd (follow_loop U E [] followed url)). safe_request U rq)"
proof (induction "MAX_REDIRECT_HOPS - followed" arbitrary: followed url)
  case 0
  then show ?case by (cases rule: follow_loop_unroll [of U E followed url]) simp_all
next
  case (Suc n)
  then have "n = MAX_REDIRECT_HOPS - (followed + 1)" "followed + 1 \<le> MAX_REDIRECT_HOPS" by auto
  note ih = Suc.hyps(1) [OF this]
  show ?case
  proof (cases rule: follow_loop_unroll [of U E followed url])
    case (3 rq nxt)
    then show ?thesis using ih [of nxt] by auto
  qed (use Suc.prems in simp_all)
qed

text \<open>
  C9. No chain of redirects reaches a blocked address. Whatever the resolver answers (differently at
  every lookup, if it likes), whatever the servers answer, and however the private-network setting
  changes between hops, a fetch with no preset pins sends at most six requests, each to an http or
  https URL, and each connects to an address that is not blocked under the setting read at that hop.
\<close>

theorem redirect_chain_is_safe:
  "length (snd (follow_pinned_get U E [] start_url)) \<le> 6
   \<and> (\<forall>rq\<in>set (snd (follow_pinned_get U E [] start_url)). safe_request U rq)"
  using follow_loop_sent [of 0 U E start_url]
  by (simp add: follow_pinned_get_def MAX_REDIRECT_HOPS_def)

text \<open>A small web for the instances: every string is a host name, every name resolves to one public
  address, and host \<open>x\<close> redirects to host \<open>y\<close>.\<close>

definition toy_url :: "string \<Rightarrow> url" where
  "toy_url s = \<lparr>u_scheme = ''http'', u_host = Some s, u_port = Some 80, u_str = s\<rparr>"

definition toy_urls :: url_ops where
  "toy_urls = \<lparr>url_parse = (\<lambda>s. Ok (toy_url s)), url_join = (\<lambda>_ s. Some (toy_url s))\<rparr>"

definition toy_web :: "pin chain_env" where
  "toy_web = \<lparr>ce_allow_private = (\<lambda>_. False), ce_dns = (\<lambda>_ _ _. Ok [V4 93 184 215 14]),
     ce_build_client = (\<lambda>pin. Ok pin),
     ce_send = (\<lambda>_ _ url. Ok (if url = ''x'' then \<lparr>r_status = 302, r_location = Some ''y''\<rparr>
                               else \<lparr>r_status = 200, r_location = None\<rparr>))\<rparr>"

text \<open>What one hop of a chain finds: URL \<open>url\<close> is valid and pinned, and the exchange answers \<open>r\<close>.\<close>

definition hop_answers ::
  "url_ops \<Rightarrow> 'c chain_env \<Rightarrow> (string \<times> ip_addr) list \<Rightarrow> nat \<Rightarrow> string \<Rightarrow> pin \<Rightarrow> 'c \<Rightarrow> http_response \<Rightarrow> bool" where
  "hop_answers U E pins k url pin client r \<longleftrightarrow>
     validate_download_url U url (ce_allow_private E k) = Ok ()
     \<and> pin_for_hop U (ce_dns E k) url (ce_allow_private E k) pins = Ok pin
     \<and> ce_build_client E pin = Ok client \<and> ce_send E k client url = Ok r"

lemma follow_loop_hop:
  "hop_answers U E pins k url pin client r \<Longrightarrow>
     fst (follow_loop U E pins k url) =
       (case redirect_step U url r of
          Final \<Rightarrow> Ok \<lparr>p_url = url, p_client = client, p_response = r\<rparr>
        | Follow nxt \<Rightarrow>
            if k \<ge> MAX_REDIRECT_HOPS then Err (InvalidInput (''too many redirects: '' @ url))
            else fst (follow_loop U E pins (k + 1) nxt))"
  unfolding hop_answers_def follow_loop.simps [of U E pins k url]
  by (auto simp: Let_def split_beta split: hop_decision.split)

lemma follow_loop_chain:
  assumes hops: "\<And>k. k \<le> n \<Longrightarrow> hop_answers U E pins k (urls k) (ps k) (clients k) (rs k)"
    and follow: "\<And>k. k < n \<Longrightarrow> redirect_step U (urls k) (rs k) = Follow (urls (Suc k))"
    and last: "redirect_step U (urls n) (rs n) = Final" and "n \<le> MAX_REDIRECT_HOPS" and "k \<le> n"
  shows "fst (follow_loop U E pins k (urls k)) = Ok \<lparr>p_url = urls n, p_client = clients n, p_response = rs n\<rparr>"
  using \<open>k \<le> n\<close>
proof (induction rule: inc_induct)
  case base
  show ?case using follow_loop_hop [OF hops [of n]] last by simp
next
  case (step k)
  then show ?case
    using follow_loop_hop [OF hops [of k]] follow [of k] \<open>n \<le> MAX_REDIRECT_HOPS\<close> by simp
qed

text \<open>
  A chain of at most five redirects is followed to its end. When every URL of the chain is valid
  and its host resolves, and each response redirects to the next URL until the last one does not,
  the fetch returns the last response, with the URL and the pinned client that produced it.
\<close>

theorem redirect_chain_followed:
  assumes "\<And>k. k \<le> n \<Longrightarrow> hop_answers U E pins k (urls k) (ps k) (clients k) (rs k)"
    and "\<And>k. k < n \<Longrightarrow> redirect_step U (urls k) (rs k) = Follow (urls (Suc k))"
    and "redirect_step U (urls n) (rs n) = Final" and "n \<le> 5"
  shows "fst (follow_pinned_get U E pins (urls 0)) =
    Ok \<lparr>p_url = urls n, p_client = clients n, p_response = rs n\<rparr>"
  unfolding follow_pinned_get_def
  by (rule follow_loop_chain) (use assms in \<open>auto simp: MAX_REDIRECT_HOPS_def\<close>)

lemmas toy_eval = toy_web_def toy_urls_def toy_url_def validate_download_url_def is_http_def
  assert_host_not_blocked_def eq_ignore_ascii_case_def to_ascii_lowercase_def pin_for_hop_def
  resolve_download_host_def port_of_def bare_host_def is_blocked_v4_def v4_is_link_local_def
  v4_is_private_def

lemma toy_names: "parse_ip ''x'' = None" "parse_ip ''y'' = None"
proof -
  have "parse_ip [c] = None" if "to_digit 16 c = None" "to_digit 10 c = None" "c \<noteq> CHR '':''" for c
  proof -
    have "read_groups 0 (Suc 7) [c] = ([], False, [c])"
      using that by (subst read_groups.simps(2))
        (simp add: read_separator_def read_ipv4_addr_def read_octet_def read_number_def)
    then have "read_ipv6_addr [c] = None"
      using that(3) by (simp add: read_ipv6_addr_def read_given_char_def)
    moreover have "read_ipv4_addr [c] = None"
      using that by (simp add: read_ipv4_addr_def read_octet_def read_separator_def read_number_def)
    ultimately show ?thesis by (simp add: parse_ip_def read_ip_addr_def)
  qed
  then show "parse_ip ''x'' = None" "parse_ip ''y'' = None"
    by (simp_all add: to_digit_def is_ascii_digit_def ascii_def)
qed

lemma toy_hops:
  "hop_answers toy_urls toy_web [] 0 ''x'' (Some (''x'', V4 93 184 215 14)) (Some (''x'', V4 93 184 215 14))
     \<lparr>r_status = 302, r_location = Some ''y''\<rparr>"
  "hop_answers toy_urls toy_web [] 1 ''y'' (Some (''y'', V4 93 184 215 14)) (Some (''y'', V4 93 184 215 14))
     \<lparr>r_status = 200, r_location = None\<rparr>"
  by (simp_all add: hop_answers_def toy_eval toy_names)

lemma toy_steps:
  "redirect_step toy_urls ''x'' \<lparr>r_status = 302, r_location = Some ''y''\<rparr> = Follow ''y''"
  "redirect_step toy_urls ''y'' \<lparr>r_status = 200, r_location = None\<rparr> = Final"
  by (simp_all add: redirect_step_def toy_urls_def toy_url_def printable_def ascii_def)

theorem redirect_chain_followed_witness:
  "fst (follow_pinned_get toy_urls toy_web [] ''x'') =
     Ok \<lparr>p_url = ''y'', p_client = Some (''y'', V4 93 184 215 14),
         p_response = \<lparr>r_status = 200, r_location = None\<rparr>\<rparr>"
proof -
  let ?u = "\<lambda>k::nat. if k = 0 then ''x'' else ''y''"
  let ?p = "\<lambda>k::nat. Some (?u k, V4 93 184 215 14)"
  let ?r = "\<lambda>k::nat. if k = 0 then \<lparr>r_status = 302, r_location = Some ''y''\<rparr> else \<lparr>r_status = 200, r_location = None\<rparr>"
  have "hop_answers toy_urls toy_web [] k (?u k) (?p k) (?p k) (?r k)" if "k \<le> 1" for k
    using that toy_hops by (cases k) auto
  moreover have "redirect_step toy_urls (?u k) (?r k) = Follow (?u (Suc k))" if "k < 1" for k
    using that toy_steps by simp
  ultimately show ?thesis
    using redirect_chain_followed [of 1 toy_urls toy_web "[]" ?u ?p ?p ?r] toy_steps by simp
qed

theorem redirect_chain_is_safe_witness:
  "length (snd (follow_pinned_get toy_urls toy_web [] ''x'')) \<le> 6"
  using redirect_chain_is_safe [of toy_urls toy_web "''x''"] by blast

end
