(* ===== verification/Opds.thy ===== *)
theory Opds
  imports NetGuard Urls
begin

text \<open>
  The OPDS catalog of \<open>src/torrent/opds.rs\<close>: the feed's entries, the declared digest of a download,
  the date tags of ZIM names, and the search for updates of the local library.

  The XML tokenizer (\<open>quick_xml\<close>) is a parameter that decodes the body and turns it into events, with
  names and attribute values decoded and character data unescaped; the base64 decoder is a parameter too.
  Years and months are \<open>u32\<close> values; they are read from at most four digits, so they are kept as
  natural numbers.
\<close>

section \<open>Entries\<close>

record opds_link =
  l_rel :: "string option"
  l_href :: "string option"
  l_media_type :: "string option"
  l_hash :: "string option"
  l_digest :: "string option"

record opds_entry =
  o_id :: "string option"
  o_title :: "string option"
  o_updated :: "string option"
  o_links :: "opds_link list"

record opds_update =
  up_local_name :: string
  up_catalog_name :: string
  up_title :: "string option"
  up_download_url :: string
  up_digest :: "string option"

definition contains_opt :: "string option \<Rightarrow> string \<Rightarrow> bool" where
  "contains_opt s p = (case s of Some t \<Rightarrow> str_contains t p | None \<Rightarrow> False)"

definition download_link :: "opds_entry \<Rightarrow> opds_link option" where
  "download_link e =
     find (\<lambda>l. case l_href l of
                 None \<Rightarrow> False
               | Some href \<Rightarrow> contains_opt (l_rel l) ''acquisition''
                   \<or> ends_with href ''.zim'' \<or> contains_opt (l_media_type l) ''zim'') (o_links e)"

definition download_url :: "opds_entry \<Rightarrow> string option" where
  "download_url e = Option.bind (download_link e) l_href"

section \<open>Declared digests\<close>

definition hex_sha256 :: "string \<Rightarrow> string option" where
  "hex_sha256 s =
     (let lower = to_ascii_lowercase s
      in if length lower \<noteq> 64 \<or> \<not> list_all is_ascii_hexdigit lower then None else Some lower)"

definition is_ascii_whitespace :: "char \<Rightarrow> bool" where
  "is_ascii_whitespace c \<longleftrightarrow> ascii c \<in> {9, 10, 12, 13, 32}"

definition b64_decode :: "(string \<Rightarrow> string option) \<Rightarrow> string \<Rightarrow> string option" where
  "b64_decode standard s = standard (filter (\<lambda>c. \<not> is_ascii_whitespace c) s)"

definition b64_decode_32 :: "(string \<Rightarrow> string option) \<Rightarrow> string \<Rightarrow> string option" where
  "b64_decode_32 standard s =
     Option.bind (b64_decode standard s) (\<lambda>bytes. if length bytes \<noteq> 32 then None else Some bytes)"

definition lower_hex_digit :: "nat \<Rightarrow> char" where
  "lower_hex_digit n = (if n < 10 then char_of (48 + n) else char_of (87 + n))"

definition hex_bytes :: "string \<Rightarrow> string" where
  "hex_bytes b = concat (map (\<lambda>c. [lower_hex_digit (ascii c div 16), lower_hex_digit (ascii c mod 16)]) b)"

definition non_blank :: "string option \<Rightarrow> string option" where
  "non_blank s = Option.bind (map_option trim s) (\<lambda>t. if t = [] then None else Some t)"

definition parse_link_digest :: "(string \<Rightarrow> string option) \<Rightarrow> string option \<Rightarrow> string option \<Rightarrow> string option" where
  "parse_link_digest standard hash digest =
     (let hex_val = Option.bind (non_blank hash) hex_sha256;
          b64_val = map_option hex_bytes (Option.bind (non_blank digest) (b64_decode_32 standard))
      in case (hex_val, b64_val) of
           (Some a, Some b) \<Rightarrow> if a = b then Some a else None
         | (Some a, None) \<Rightarrow> Some a
         | (None, b) \<Rightarrow> b)"

definition download_digest :: "(string \<Rightarrow> string option) \<Rightarrow> opds_entry \<Rightarrow> string option" where
  "download_digest standard e =
     Option.bind (download_link e) (\<lambda>l. parse_link_digest standard (l_hash l) (l_digest l))"

section \<open>The feed\<close>

datatype xml_event =
    Start string
  | Empty string "(string \<times> string) list"
  | End string
  | Text string
  | Eof
  | Malformed
  | Other_event

definition attr_of :: "(string \<times> string) list \<Rightarrow> string \<Rightarrow> string option" where
  "attr_of attrs key = map_of (rev attrs) key"

definition link_of :: "(string \<times> string) list \<Rightarrow> opds_link" where
  "link_of attrs = \<lparr>l_rel = attr_of attrs ''rel'', l_href = attr_of attrs ''href'',
     l_media_type = attr_of attrs ''type'', l_hash = attr_of attrs ''hash'', l_digest = attr_of attrs ''digest''\<rparr>"

definition empty_entry :: opds_entry where
  "empty_entry = \<lparr>o_id = None, o_title = None, o_updated = None, o_links = []\<rparr>"

definition set_text :: "string \<Rightarrow> string \<Rightarrow> opds_entry \<Rightarrow> opds_entry" where
  "set_text target s e =
     (if target = ''id'' then e\<lparr>o_id := Some s\<rparr>
      else if target = ''title'' then e\<lparr>o_title := Some s\<rparr>
      else if target = ''updated'' then e\<lparr>o_updated := Some s\<rparr> else e)"

fun parse_events :: "opds_entry option \<Rightarrow> string option \<Rightarrow> xml_event list \<Rightarrow> opds_entry list" where
  "parse_events cur target [] = []"
| "parse_events cur target (Start name # evs) =
     (if name = ''entry'' then parse_events (Some empty_entry) target evs
      else if name \<in> {''id'', ''title'', ''updated''} \<and> cur \<noteq> None then parse_events cur (Some name) evs
      else parse_events cur target evs)"
| "parse_events cur target (Empty name attrs # evs) =
     (case cur of
        Some e \<Rightarrow>
          if name = ''link'' \<and> (attr_of attrs ''rel'' \<noteq> None \<or> attr_of attrs ''href'' \<noteq> None)
          then parse_events (Some (e\<lparr>o_links := o_links e @ [link_of attrs]\<rparr>)) target evs
          else parse_events cur target evs
      | None \<Rightarrow> parse_events cur target evs)"
| "parse_events cur target (End name # evs) =
     (if name = ''entry'' then
        (case cur of
           Some e \<Rightarrow> (if o_id e \<noteq> None \<or> o_title e \<noteq> None then [e] else []) @ parse_events None None evs
         | None \<Rightarrow> parse_events None None evs)
      else if name \<in> {''id'', ''title'', ''updated''} then parse_events cur None evs
      else parse_events cur target evs)"
| "parse_events cur target (Text s # evs) =
     (case (target, cur) of
        (Some t, Some e) \<Rightarrow>
          parse_events (Some (if trim s \<noteq> [] then set_text t s e else e)) target evs
      | _ \<Rightarrow> parse_events cur target evs)"
| "parse_events cur target (Eof # evs) = []"
| "parse_events cur target (Malformed # evs) = []"
| "parse_events cur target (Other_event # evs) = parse_events cur target evs"

definition parse_catalog :: "(string \<Rightarrow> xml_event list) \<Rightarrow> string \<Rightarrow> opds_entry list" where
  "parse_catalog tokenize xml = parse_events None None (tokenize xml)"

definition MAX_OPDS_BYTES :: nat where "MAX_OPDS_BYTES = 10 * 1024 * 1024"

definition check_opds_budget :: "nat option \<Rightarrow> nat \<Rightarrow> (unit, error) result" where
  "check_opds_budget declared actual =
     (case declared of
        Some cl \<Rightarrow>
          if cl > MAX_OPDS_BYTES then Err (Torrent Other ''OPDS catalog response exceeds the byte budget'')
          else if actual > MAX_OPDS_BYTES then Err (Torrent Other ''OPDS catalog response is over the byte budget'')
          else Ok ()
      | None \<Rightarrow>
          if actual > MAX_OPDS_BYTES then Err (Torrent Other ''OPDS catalog response is over the byte budget'')
          else Ok ())"

text \<open>\<open>content_length\<close> reads the header of a response, \<open>read_body\<close> its bytes.\<close>

definition fetch_catalog ::
  "url_ops \<Rightarrow> 'c chain_env \<Rightarrow> (http_response \<Rightarrow> string option) \<Rightarrow> (http_response \<Rightarrow> (string, string) result)
    \<Rightarrow> (string \<Rightarrow> xml_event list) \<Rightarrow> string \<Rightarrow> (opds_entry list, error) result" where
  "fetch_catalog U E content_length read_body tokenize url =
     (case fst (follow_pinned_get U E [] url) of
        Inl e \<Rightarrow> Err e
      | Inr pinned \<Rightarrow>
          (let response = p_response pinned;
               declared = Option.bind (content_length response) (parse_unsigned 64)
           in case check_opds_budget declared 0 of
                Inl e \<Rightarrow> Err e
              | Inr _ \<Rightarrow>
                  (case read_body response of
                     Inl e \<Rightarrow> Err (Http e)
                   | Inr body \<Rightarrow>
                       (case check_opds_budget declared (length body) of
                          Inl e \<Rightarrow> Err e
                        | Inr _ \<Rightarrow> Ok (parse_catalog tokenize body)))))"

section \<open>Versions\<close>

type_synonym version = "nat \<times> nat" \<comment> \<open>year, month\<close>

definition two_numbers :: "string \<Rightarrow> string \<Rightarrow> version option" where
  "two_numbers y m =
     Option.bind (parse_unsigned 32 y) (\<lambda>a. map_option (\<lambda>b. (a, b)) (parse_unsigned 32 m))"

definition parse_date_tag :: "string \<Rightarrow> version option" where
  "parse_date_tag s =
     (case split_on CHR ''-'' s of
        [y, m] \<Rightarrow> if length y = 4 \<and> length m = 2 then two_numbers y m else None
      | [y, m, d] \<Rightarrow> if length y = 4 \<and> length m = 2 \<and> length d = 2 then two_numbers y m else None
      | [y] \<Rightarrow> if length y = 6 \<and> list_all is_ascii_digit y then two_numbers (take 4 y) (drop 4 y) else None
      | _ \<Rightarrow> None)"

definition base_and_version :: "string \<Rightarrow> string \<times> version option" where
  "base_and_version name =
     (case rsplit_once CHR ''_'' name of
        Some (base, tail) \<Rightarrow> (case parse_date_tag tail of Some v \<Rightarrow> (base, Some v) | None \<Rightarrow> (name, None))
      | None \<Rightarrow> (name, None))"

text \<open>\<open>floor_char_boundary\<close>: the largest character boundary at or below the index.\<close>

fun floor_char_boundary :: "string \<Rightarrow> nat \<Rightarrow> nat" where
  "floor_char_boundary s 0 = 0"
| "floor_char_boundary s (Suc i) =
     (if Suc i \<ge> length s then length s
      else if \<not> is_continuation (s ! Suc i) then Suc i else floor_char_boundary s i)"

definition prefix7 :: "string \<Rightarrow> string" where
  "prefix7 s = take (floor_char_boundary s (min (length s) 7)) s"

text \<open>String comparison is lexicographic on the bytes.\<close>

definition str_greater :: "string \<Rightarrow> string \<Rightarrow> bool" where
  "str_greater a b \<longleftrightarrow> map ascii a > map ascii b"

definition version_greater :: "version \<Rightarrow> version \<Rightarrow> bool" where
  "version_greater v w \<longleftrightarrow> fst w < fst v \<or> (fst v = fst w \<and> snd w < snd v)"

definition candidate_rank :: "version option \<Rightarrow> string option \<Rightarrow> version" where
  "candidate_rank cat_version updated =
     (case cat_version of
        Some v \<Rightarrow> v
      | None \<Rightarrow>
          (case updated of
             None \<Rightarrow> (0, 0)
           | Some u \<Rightarrow>
               (case split_on CHR ''-'' (prefix7 u) of
                  [y, m] \<Rightarrow>
                    if length y = 4 \<and> length m = 2
                    then ((case parse_unsigned 32 y of Some a \<Rightarrow> a | None \<Rightarrow> 0),
                          (case parse_unsigned 32 m of Some b \<Rightarrow> b | None \<Rightarrow> 0))
                    else (0, 0)
                | _ \<Rightarrow> (0, 0))))"

definition catalog_name_from_url :: "string \<Rightarrow> string option" where
  "catalog_name_from_url url =
     (let file = strip_query_fragment (last (split_on CHR ''/'' url));
          lower = to_ascii_lowercase file
      in Option.bind (strip_suffix ''.zim'' lower) (\<lambda>name. if name = [] then None else Some name))"

section \<open>Updates\<close>

record update_candidate =
  c_rank :: version
  c_entry :: opds_entry
  c_cat_version :: "version option"
  c_name :: string
  c_url :: string
  c_digest :: "string option"

definition candidate_of :: "(string \<Rightarrow> string option) \<Rightarrow> opds_entry \<Rightarrow> (string \<times> update_candidate) option" where
  "candidate_of standard entry =
     Option.bind (download_url entry) (\<lambda>url.
     map_option (\<lambda>name.
       (let (base, cat_version) = base_and_version name
        in (to_ascii_lowercase base,
            \<lparr>c_rank = candidate_rank cat_version (o_updated entry), c_entry = entry,
             c_cat_version = cat_version, c_name = name, c_url = url,
             c_digest = download_digest standard entry\<rparr>))) (catalog_name_from_url url))"

fun candidate_index ::
  "(string \<Rightarrow> string option) \<Rightarrow> (string \<Rightarrow> update_candidate list) \<Rightarrow> opds_entry list \<Rightarrow> string \<Rightarrow> update_candidate list" where
  "candidate_index standard by_base [] = by_base"
| "candidate_index standard by_base (entry # entries) =
     candidate_index standard
       (case candidate_of standard entry of
          Some (base, c) \<Rightarrow> by_base(base := by_base base @ [c])
        | None \<Rightarrow> by_base) entries"

definition is_newer :: "version option \<Rightarrow> string option \<Rightarrow> update_candidate \<Rightarrow> bool" where
  "is_newer local_version local_date c =
     (case (c_cat_version c, local_version) of
        (Some cv, Some lv) \<Rightarrow> version_greater cv lv
      | _ \<Rightarrow> (case (o_updated (c_entry c), local_date) of
                (Some u, Some d) \<Rightarrow> str_greater (prefix7 u) (prefix7 d)
              | _ \<Rightarrow> False))"

fun best_candidate ::
  "version option \<Rightarrow> string option \<Rightarrow> update_candidate option \<Rightarrow> update_candidate list \<Rightarrow> update_candidate option" where
  "best_candidate lv ld best [] = best"
| "best_candidate lv ld best (c # cs) =
     (if \<not> is_newer lv ld c then best_candidate lv ld best cs
      else if (case best of None \<Rightarrow> True | Some b \<Rightarrow> version_greater (c_rank c) (c_rank b))
      then best_candidate lv ld (Some c) cs
      else best_candidate lv ld best cs)"

definition update_of :: "string \<Rightarrow> update_candidate \<Rightarrow> opds_update" where
  "update_of local_name c =
     \<lparr>up_local_name = local_name, up_catalog_name = c_name c, up_title = o_title (c_entry c),
      up_download_url = c_url c, up_digest = c_digest c\<rparr>"

definition find_updates ::
  "(string \<Rightarrow> string option) \<Rightarrow> opds_entry list \<Rightarrow> (string \<times> string option) list \<Rightarrow> opds_update list" where
  "find_updates standard entries locals =
     (let by_base = candidate_index standard (\<lambda>_. []) entries
      in List.map_filter (\<lambda>(local_name, local_date).
           (let (local_base, local_version) = base_and_version local_name
            in map_option (update_of local_name)
                 (best_candidate local_version local_date None (by_base (to_ascii_lowercase local_base))))) locals)"

section \<open>The update search\<close>

text \<open>The candidates of one base, in feed order: what the index holds under that base.\<close>

definition same_base :: "(string \<Rightarrow> string option) \<Rightarrow> opds_entry list \<Rightarrow> string \<Rightarrow> update_candidate list" where
  "same_base standard entries base =
     List.map_filter (\<lambda>e. case candidate_of standard e of
         Some (b, c) \<Rightarrow> if b = base then Some c else None | None \<Rightarrow> None) entries"

lemma candidate_index_same_base:
  "candidate_index standard by_base entries base = by_base base @ same_base standard entries base"
proof (induction standard by_base entries rule: candidate_index.induct)
  case (2 standard by_base entry entries)
  then show ?case
    by (cases "candidate_of standard entry") (auto simp: same_base_def map_filter_simps)
qed (simp add: same_base_def map_filter_simps)

lemma version_greater_trans:
  "version_greater a b \<Longrightarrow> version_greater b c \<Longrightarrow> version_greater a c"
  "version_greater a b \<Longrightarrow> \<not> version_greater c b \<Longrightarrow> version_greater a c"
  "\<not> version_greater a b \<Longrightarrow> version_greater c b \<Longrightarrow> version_greater c a"
  by (auto simp: version_greater_def)

text \<open>The first candidate of the highest rank.\<close>

definition first_best :: "update_candidate list \<Rightarrow> update_candidate \<Rightarrow> bool" where
  "first_best cs c \<longleftrightarrow> (\<exists>pre post. cs = pre @ c # post
     \<and> (\<forall>x\<in>set pre. version_greater (c_rank c) (c_rank x))
     \<and> (\<forall>x\<in>set post. \<not> version_greater (c_rank x) (c_rank c)))"

lemma best_candidate_extends:
  assumes "first_best seen b"
  shows "\<exists>c. best_candidate lv ld (Some b) cs = Some c \<and> first_best (seen @ filter (is_newer lv ld) cs) c"
  using assms
proof (induction cs arbitrary: seen b)
  case (Cons x cs)
  obtain pre post where split: "seen = pre @ b # post" "\<forall>x\<in>set pre. version_greater (c_rank b) (c_rank x)"
    "\<forall>x\<in>set post. \<not> version_greater (c_rank x) (c_rank b)"
    using Cons.prems by (auto simp: first_best_def)
  show ?case
  proof (cases "is_newer lv ld x")
    case newer: True
    show ?thesis
    proof (cases "version_greater (c_rank x) (c_rank b)")
      case True
      have "\<forall>y\<in>set seen. version_greater (c_rank x) (c_rank y)"
        unfolding split(1) set_append set_simps
        by (intro ballI, elim UnE insertE)
           (use split(2,3) version_greater_trans(1,2) [OF True] True in blast)+
      then have "first_best (seen @ [x]) x"
        unfolding first_best_def by (intro exI [of _ seen] exI [of _ "[]"]) simp
      from Cons.IH [OF this] True newer show ?thesis by auto
    next
      case False
      have "first_best (seen @ [x]) b"
        unfolding first_best_def split(1)
        using split(2,3) False by (intro exI [of _ pre] exI [of _ "post @ [x]"]) auto
      from Cons.IH [OF this] False newer show ?thesis by auto
    qed
  qed (use Cons in auto)
qed auto

lemma best_candidate_None:
  "case best_candidate lv ld None cs of
     None \<Rightarrow> filter (is_newer lv ld) cs = []
   | Some c \<Rightarrow> first_best (filter (is_newer lv ld) cs) c"
proof (induction cs)
  case (Cons x cs)
  show ?case
  proof (cases "is_newer lv ld x")
    case True
    have "first_best [x] x" by (auto simp: first_best_def intro!: exI [of _ "[]"])
    from best_candidate_extends [OF this, of lv ld cs] True show ?thesis by auto
  next
    case False
    with Cons show ?thesis by (simp split: option.splits)
  qed
qed simp

lemma first_best_overlap:
  assumes "pre' @ d # post' = pre @ c # post" and "pre = pre' @ us"
    and "\<forall>x\<in>set pre. version_greater (c_rank c) (c_rank x)"
    and "\<forall>x\<in>set post'. \<not> version_greater (c_rank x) (c_rank d)"
  shows "c = d"
proof (cases us)
  case (Cons y ys)
  with assms(1,2) have "y = d" "post' = ys @ c # post" by simp_all
  with assms(2-4) Cons have "version_greater (c_rank c) (c_rank d)" "\<not> version_greater (c_rank c) (c_rank d)"
    by simp_all
  then show ?thesis by blast
qed (use assms(1,2) in simp)

lemma first_best_unique:
  assumes "first_best cs c" and "first_best cs d"
  shows "c = d"
proof -
  obtain pre post where c: "cs = pre @ c # post" "\<forall>x\<in>set pre. version_greater (c_rank c) (c_rank x)"
    "\<forall>x\<in>set post. \<not> version_greater (c_rank x) (c_rank c)"
    using assms(1) by (auto simp: first_best_def)
  obtain pre' post' where d: "cs = pre' @ d # post'" "\<forall>x\<in>set pre'. version_greater (c_rank d) (c_rank x)"
    "\<forall>x\<in>set post'. \<not> version_greater (c_rank x) (c_rank d)"
    using assms(2) by (auto simp: first_best_def)
  have eq: "pre' @ d # post' = pre @ c # post" using c(1) d(1) by simp
  then obtain us where "pre' = pre @ us \<or> pre = pre' @ us" by (auto simp: append_eq_append_conv2)
  then show ?thesis
    using first_best_overlap [OF eq _ c(2) d(3)] first_best_overlap [OF eq [symmetric] _ d(2) c(3)] by blast
qed

lemma best_candidate_iff:
  "best_candidate lv ld None cs = Some c \<longleftrightarrow> first_best (filter (is_newer lv ld) cs) c"
proof (cases "best_candidate lv ld None cs")
  case None
  then have "filter (is_newer lv ld) cs = []" using best_candidate_None [of lv ld cs] by simp
  then show ?thesis using None by (simp add: first_best_def)
next
  case (Some b)
  then have "first_best (filter (is_newer lv ld) cs) b" using best_candidate_None [of lv ld cs] by simp
  then show ?thesis using Some first_best_unique by auto
qed

text \<open>
  C11. The update search is exact. An update is reported exactly when a library entry has, among the
  catalog entries with a download URL, a name and the same base (whatever the other entries are), one
  that is newer, and then it is the first one, in feed order, of the highest rank among the newer
  ones: the index by base loses, adds and reorders nothing.
\<close>

theorem find_updates_exact:
  "u \<in> set (find_updates standard entries locals) \<longleftrightarrow>
    (\<exists>n d c. (n, d) \<in> set locals \<and> u = update_of n c
      \<and> first_best (filter (is_newer (snd (base_and_version n)) d)
           (same_base standard entries (to_ascii_lowercase (fst (base_and_version n))))) c)"
  unfolding find_updates_def Let_def map_filter_def split_beta candidate_index_same_base
    best_candidate_iff [symmetric]
  by (force simp: image_iff)

section \<open>Digests\<close>

definition is_lower_hex :: "char \<Rightarrow> bool" where
  "is_lower_hex c \<longleftrightarrow> (48 \<le> ascii c \<and> ascii c \<le> 57) \<or> (97 \<le> ascii c \<and> ascii c \<le> 102)"

lemma lower_hexdigit: "is_ascii_hexdigit (lower_char c) \<Longrightarrow> is_lower_hex (lower_char c)"
  by (auto simp: is_ascii_hexdigit_def hex_value_def is_lower_hex_def lower_char_def ascii_char_of split: if_splits)

lemma hex_sha256_Some:
  "hex_sha256 s = Some v \<Longrightarrow> length v = 64 \<and> list_all is_lower_hex v \<and> v = to_ascii_lowercase s"
  by (auto simp: hex_sha256_def Let_def to_ascii_lowercase_def list_all_iff lower_hexdigit split: if_splits)

lemma lower_hex_digit_hex: "n < 16 \<Longrightarrow> is_lower_hex (lower_hex_digit n)"
  by (auto simp: lower_hex_digit_def is_lower_hex_def ascii_char_of)

lemma hex_bytes_props: "length (hex_bytes b) = 2 * length b" "list_all is_lower_hex (hex_bytes b)"
proof -
  show "length (hex_bytes b) = 2 * length b" by (induction b) (simp_all add: hex_bytes_def)
  have "is_lower_hex (lower_hex_digit (ascii c div 16)) \<and> is_lower_hex (lower_hex_digit (ascii c mod 16))" for c
  proof -
    have "ascii c < 256" by (simp add: ascii_def)
    then show ?thesis by (simp add: lower_hex_digit_hex)
  qed
  then show "list_all is_lower_hex (hex_bytes b)" by (induction b) (simp_all add: hex_bytes_def)
qed

text \<open>
  A declared digest is normalised and consistent. Whatever the base64 decoder, a digest that
  survives parsing consists of 64 lower-case hex digits; it is the lower-cased \<open>hash\<close> attribute
  whenever that is readable and the hex of the decoded \<open>digest\<close> attribute whenever that is, so two
  readable attributes that disagree never yield a claim.
\<close>

theorem declared_digest_normalised:
  assumes "parse_link_digest standard hash digest = Some v"
  shows "length v = 64 \<and> list_all is_lower_hex v
    \<and> (\<forall>h x. non_blank hash = Some h \<longrightarrow> hex_sha256 h = Some x \<longrightarrow> v = to_ascii_lowercase h)
    \<and> (\<forall>d b. non_blank digest = Some d \<longrightarrow> b64_decode_32 standard d = Some b \<longrightarrow> v = hex_bytes b)"
proof -
  have len: "length (hex_bytes b) = 64" if "b64_decode_32 standard d = Some b" for d b
    using that hex_bytes_props(1) [of b] by (auto simp: b64_decode_32_def bind_eq_Some_conv split: if_splits)
  show ?thesis
    using assms hex_sha256_Some len hex_bytes_props(2)
    by (auto simp: parse_link_digest_def Let_def bind_eq_Some_conv split: option.splits if_splits)
qed

theorem declared_digest_normalised_witness:
  "length (the (parse_link_digest (\<lambda>_. None) (Some (replicate 64 CHR ''A'')) None)) = 64"
proof -
  let ?s = "replicate 64 CHR ''A''"
  have p: "printable ?s" by (simp add: printable_def ascii_def)
  have "hex_sha256 ?s = Some (to_ascii_lowercase ?s)"
    by (simp add: hex_sha256_def to_ascii_lowercase_def list_all_iff is_ascii_hexdigit_def hex_value_def
        lower_char_def ascii_def)
  then have "parse_link_digest (\<lambda>_. None) (Some ?s) None = Some (to_ascii_lowercase ?s)"
    by (simp add: parse_link_digest_def non_blank_def trim_printable [OF p])
  from declared_digest_normalised [OF this] this show ?thesis by simp
qed

section \<open>Date tags\<close>

definition decimal :: "nat \<Rightarrow> char" where
  "decimal n = char_of (48 + n)"

definition pad2 :: "nat \<Rightarrow> string" where
  "pad2 n = [decimal (n div 10 mod 10), decimal (n mod 10)]"

definition pad4 :: "nat \<Rightarrow> string" where
  "pad4 n = pad2 (n div 100) @ pad2 n"

lemma decimal_props:
  "n < 10 \<Longrightarrow> is_ascii_digit (decimal n)" "n < 10 \<Longrightarrow> ascii (decimal n) = 48 + n"
  by (simp_all add: decimal_def is_ascii_digit_def ascii_char_of)

lemma decimal_not: "n < 10 \<Longrightarrow> ascii d < 48 \<or> 57 < ascii d \<Longrightarrow> decimal n \<noteq> d"
  using decimal_props(2) [of n] by auto

lemma digits_pad2: "digits_value acc (pad2 n @ s) = digits_value (acc * 100 + n mod 100) s"
proof -
  have "n mod 100 = 10 * (n div 10 mod 10) + n mod 10" using mod_mult2_eq [of n 10 10] by simp
  then have "10 * (10 * acc + n div 10 mod 10) + n mod 10 = acc * 100 + n mod 100" by simp
  moreover have "digits_value acc (pad2 n @ s) = digits_value (10 * (10 * acc + n div 10 mod 10) + n mod 10) s"
    by (simp add: pad2_def decimal_props mult.commute)
  ultimately show ?thesis by (simp only:)
qed

lemma parse_pad2: "n < 100 \<Longrightarrow> parse_unsigned 32 (pad2 n) = Some n"
proof -
  assume "n < 100"
  then have "digits_value 0 (pad2 n) = Some n" using digits_pad2 [of 0 n "[]"] by simp
  moreover have "decimal (n div 10 mod 10) \<noteq> CHR ''+''" by (rule decimal_not) (simp_all add: ascii_def)
  ultimately show ?thesis using \<open>n < 100\<close> by (simp add: parse_unsigned_def pad2_def Let_def)
qed

lemma parse_pad4: "n < 10000 \<Longrightarrow> parse_unsigned 32 (pad4 n) = Some n"
proof -
  assume n: "n < 10000"
  have "n div 100 mod 100 * 100 + n mod 100 = n" using n by simp
  then have "digits_value 0 (pad4 n) = Some n"
    using digits_pad2 [of 0 "n div 100" "pad2 n"] digits_pad2 [of "n div 100 mod 100" n "[]"]
    by (simp add: pad4_def)
  moreover have "decimal (n div 100 div 10 mod 10) \<noteq> CHR ''+''" by (rule decimal_not) (simp_all add: ascii_def)
  ultimately show ?thesis using n by (simp add: parse_unsigned_def pad4_def pad2_def Let_def)
qed

lemma pad_absent: "ascii c < 48 \<or> 57 < ascii c \<Longrightarrow> c \<notin> set (pad2 n) \<and> c \<notin> set (pad4 n)"
  using decimal_not by (auto simp: pad2_def pad4_def) (metis decimal_not mod_less_divisor zero_less_numeral)+

lemma pad_lengths [simp]: "length (pad2 n) = 2" "length (pad4 n) = 4"
  by (simp_all add: pad2_def pad4_def)

lemma pad_digits: "list_all is_ascii_digit (pad4 y @ pad2 m)"
  by (simp add: pad2_def pad4_def decimal_props)

lemma pad_no_separator [simp]:
  "CHR ''-'' \<notin> set (pad2 n)" "CHR ''-'' \<notin> set (pad4 n)" "CHR ''_'' \<notin> set (pad2 n)" "CHR ''_'' \<notin> set (pad4 n)"
  using pad_absent [of "CHR ''-''" n] pad_absent [of "CHR ''_''" n] by (simp_all add: ascii_def)

lemma two_numbers_pad [simp]: "y < 10000 \<Longrightarrow> m < 100 \<Longrightarrow> two_numbers (pad4 y) (pad2 m) = Some (y, m)"
  by (simp add: two_numbers_def parse_pad2 parse_pad4)

lemma parse_date_tag_pad:
  assumes "y < 10000" and "m < 100"
  shows "parse_date_tag (pad4 y @ CHR ''-'' # pad2 m) = Some (y, m)"
    and "parse_date_tag (pad4 y @ CHR ''-'' # pad2 m @ CHR ''-'' # pad2 d) = Some (y, m)"
    and "parse_date_tag (pad4 y @ pad2 m) = Some (y, m)"
proof -
  have "split_on CHR ''-'' (pad4 y @ CHR ''-'' # pad2 m) = [pad4 y, pad2 m]"
    by (simp add: split_on_append split_on_absent)
  then show "parse_date_tag (pad4 y @ CHR ''-'' # pad2 m) = Some (y, m)"
    using assms by (simp add: parse_date_tag_def)
  have "split_on CHR ''-'' (pad4 y @ CHR ''-'' # pad2 m @ CHR ''-'' # pad2 d) = [pad4 y, pad2 m, pad2 d]"
    by (simp add: split_on_append split_on_absent)
  then show "parse_date_tag (pad4 y @ CHR ''-'' # pad2 m @ CHR ''-'' # pad2 d) = Some (y, m)"
    using assms by (simp add: parse_date_tag_def)
  have "split_on CHR ''-'' (pad4 y @ pad2 m) = [pad4 y @ pad2 m]" by (simp add: split_on_absent)
  then show "parse_date_tag (pad4 y @ pad2 m) = Some (y, m)"
    using assms pad_digits [of y m] by (simp add: parse_date_tag_def)
qed

lemma base_and_version_tag:
  assumes "CHR ''_'' \<notin> set tag" and "parse_date_tag tag = Some v"
  shows "base_and_version (base @ CHR ''_'' # tag) = (base, Some v)"
proof -
  have "rsplit_once CHR ''_'' (base @ CHR ''_'' # tag) = Some (base, tag)"
    using assms(1) by (simp add: rsplit_once_Some)
  with assms(2) show ?thesis by (simp add: base_and_version_def)
qed

text \<open>
  Names and date tags round-trip. A name made of any base and a date tag in one of the three
  accepted forms splits back into that base and that year and month.
\<close>

theorem date_tag_roundtrip:
  assumes "y < 10000" and "m < 100" and "d < 100"
  shows "base_and_version (base @ ''_'' @ pad4 y @ ''-'' @ pad2 m) = (base, Some (y, m))
    \<and> base_and_version (base @ ''_'' @ pad4 y @ ''-'' @ pad2 m @ ''-'' @ pad2 d) = (base, Some (y, m))
    \<and> base_and_version (base @ ''_'' @ pad4 y @ pad2 m) = (base, Some (y, m))"
  using assms by (simp add: base_and_version_tag parse_date_tag_pad)

theorem date_tag_roundtrip_witness:
  "base_and_version ''wiki_en_2024-06'' = (''wiki_en'', Some (2024, 6))"
  using date_tag_roundtrip [of 2024 6 1 "''wiki_en''"] by (simp add: pad2_def pad4_def decimal_def char_of_def bit_nat_def)

section \<open>Reading a feed\<close>

text \<open>The events of an entry as a catalog writes it: the text elements that are present, then the links.\<close>

definition text_events :: "string \<Rightarrow> string option \<Rightarrow> xml_event list" where
  "text_events tag v = (case v of None \<Rightarrow> [] | Some s \<Rightarrow> [Start tag, Text s, End tag])"

definition attr_events :: "string \<Rightarrow> string option \<Rightarrow> (string \<times> string) list" where
  "attr_events key v = (case v of None \<Rightarrow> [] | Some s \<Rightarrow> [(key, s)])"

definition link_event :: "opds_link \<Rightarrow> xml_event" where
  "link_event l = Empty ''link'' (attr_events ''rel'' (l_rel l) @ attr_events ''href'' (l_href l)
     @ attr_events ''type'' (l_media_type l) @ attr_events ''hash'' (l_hash l) @ attr_events ''digest'' (l_digest l))"

definition entry_events :: "opds_entry \<Rightarrow> xml_event list" where
  "entry_events e = Start ''entry'' # text_events ''id'' (o_id e) @ text_events ''title'' (o_title e)
     @ text_events ''updated'' (o_updated e) @ map link_event (o_links e) @ [End ''entry'']"

definition not_blank :: "string option \<Rightarrow> bool" where
  "not_blank v = (case v of None \<Rightarrow> True | Some s \<Rightarrow> trim s \<noteq> [])"

definition wf_entry :: "opds_entry \<Rightarrow> bool" where
  "wf_entry e \<longleftrightarrow> (o_id e \<noteq> None \<or> o_title e \<noteq> None)
     \<and> not_blank (o_id e) \<and> not_blank (o_title e) \<and> not_blank (o_updated e)
     \<and> list_all (\<lambda>l. l_rel l \<noteq> None \<or> l_href l \<noteq> None) (o_links e)"

lemma link_event_parsed:
  assumes "l_rel l \<noteq> None \<or> l_href l \<noteq> None"
  shows "parse_events (Some e) t (link_event l # evs) = parse_events (Some (e\<lparr>o_links := o_links e @ [l]\<rparr>)) t evs"
proof -
  obtain attrs where attrs: "link_event l = Empty ''link'' attrs" "attr_of attrs ''rel'' = l_rel l"
    "attr_of attrs ''href'' = l_href l" "link_of attrs = l"
    by (cases l) (auto simp: link_event_def attr_events_def attr_of_def link_of_def split: option.splits)
  then show ?thesis using assms by simp
qed

lemma link_events_parsed:
  "list_all (\<lambda>l. l_rel l \<noteq> None \<or> l_href l \<noteq> None) ls \<Longrightarrow>
   parse_events (Some e) t (map link_event ls @ evs) = parse_events (Some (e\<lparr>o_links := o_links e @ ls\<rparr>)) t evs"
proof (induction ls arbitrary: e)
  case (Cons l ls)
  then show ?case by (simp add: link_event_parsed)
qed simp

lemma text_events_parsed:
  assumes "tag \<in> {''id'', ''title'', ''updated''}" and "not_blank v"
  shows "parse_events (Some e) None (text_events tag v @ evs)
    = parse_events (Some (case v of None \<Rightarrow> e | Some s \<Rightarrow> set_text tag s e)) None evs"
  using assms by (cases v) (auto simp: text_events_def not_blank_def)

lemma entry_events_parsed:
  assumes "wf_entry e"
  shows "parse_events None None (entry_events e @ evs) = e # parse_events None None evs"
proof -
  obtain i t u ls where e: "e = \<lparr>o_id = i, o_title = t, o_updated = u, o_links = ls\<rparr>" by (cases e)
  with assms have wf: "i \<noteq> None \<or> t \<noteq> None" "not_blank i" "not_blank t" "not_blank u"
    "list_all (\<lambda>l. l_rel l \<noteq> None \<or> l_href l \<noteq> None) ls" by (simp_all add: wf_entry_def)
  show ?thesis
    using wf(1) by (simp add: e entry_events_def text_events_parsed wf(2-4) link_events_parsed [OF wf(5)])
      (auto simp: set_text_def empty_entry_def split: option.splits)
qed

text \<open>
  The feed reader recovers what a catalog serves. A document of well-formed entries yields exactly
  those entries, in order, and when the document breaks off after them (a malformed tail, or the
  unfinished beginning of a further entry) the entries before the break are kept.
\<close>

theorem catalog_roundtrip:
  assumes "list_all wf_entry entries" and "tail \<in> {[], [Eof], Malformed # rest, [Start ''entry'', Start ''id'', Text s, Malformed]}"
    and "tokenize xml = concat (map entry_events entries) @ tail"
  shows "parse_catalog tokenize xml = entries"
proof -
  have "parse_events None None (concat (map entry_events entries) @ tail) = entries"
    using assms(1)
  proof (induction entries)
    case Nil
    show ?case using assms(2) by auto
  next
    case (Cons e es)
    then show ?case by (simp add: entry_events_parsed)
  qed
  then show ?thesis by (simp add: parse_catalog_def assms(3))
qed

definition sample_entry :: opds_entry where
  "sample_entry = \<lparr>o_id = Some ''urn:1'', o_title = Some ''Wiki'', o_updated = None,
     o_links = [\<lparr>l_rel = None, l_href = Some ''http://h/wiki_2024-06.zim'', l_media_type = None, l_hash = None, l_digest = None\<rparr>]\<rparr>"

theorem catalog_roundtrip_witness:
  "parse_catalog (\<lambda>_. entry_events sample_entry @ [Malformed, Eof]) ''x'' = [sample_entry]"
proof -
  have "printable ''urn:1''" "printable ''Wiki''" by (simp_all add: printable_def ascii_def)
  then have "wf_entry sample_entry"
    by (simp add: wf_entry_def sample_entry_def not_blank_def trim_printable)
  then show ?thesis
    using catalog_roundtrip [of "[sample_entry]" "[Malformed, Eof]" "[Eof]" "[]"
        "\<lambda>_. entry_events sample_entry @ [Malformed, Eof]" "''x''"] by simp
qed

end
