(* ===== verification/Files.thy ===== *)
theory Files
  imports Errors "HOL-Library.List_Lexorder"
begin

text \<open>
  File handling of finished downloads (\<open>src/torrent/files.rs\<close>): the check of download names, the
  search for the \<open>.zim\<close> a torrent produced, and the installation into the library directory.

  A path is the list of its components and a directory tree the part of the file system that
  \<open>read_dir\<close> shows below a directory. The file system of the installation maps paths to files;
  every outcome the operating system decides (failures, the sizes of reads, the listing of a
  directory) is a field of \<open>install_io\<close>, and the model returns all the states the file system
  goes through, so a crash at any point is a prefix of them.
\<close>

section \<open>Download names\<close>

definition validate_download_name :: "string \<Rightarrow> (unit, error) result" where
  "validate_download_name name =
     (let name = trim name
      in if name = [] then Err (InvalidInput ''download name is empty'')
         else if length name > 255 then Err (InvalidInput ''download name exceeds 255 characters'')
         else if CHR ''/'' \<in> set name \<or> CHR 0x5C \<in> set name \<or> CHR 0x00 \<in> set name
         then Err (InvalidInput ''download name must not contain path separators'')
         else if str_contains name ''..'' then Err (InvalidInput ''download name must not contain `..`'')
         else if starts_with name ''.'' then Err (InvalidInput ''download name must not start with a dot'')
         else Ok ())"

section \<open>Finding the archive\<close>

type_synonym path = "string list"

text \<open>What \<open>read_dir\<close> lists: the entries of a directory, or nothing when it cannot be read. A leaf is
  any entry that is not a directory; a symbolic link is a leaf.\<close>

datatype fs_node = Leaf | Dir "(string \<times> fs_node) list option"

text \<open>\<open>Path::extension\<close> of a file name: what follows the last dot, unless that is the first character.\<close>

definition extension :: "string \<Rightarrow> string option" where
  "extension name =
     (case rsplit_once CHR ''.'' name of
        Some (before, after) \<Rightarrow> if before = [] then None else Some after
      | None \<Rightarrow> None)"

definition is_zim_path :: "path \<Rightarrow> bool" where
  "is_zim_path path =
     (path \<noteq> [] \<and> last path \<noteq> ''..'' \<and>
      (case extension (last path) of Some e \<Rightarrow> eq_ignore_ascii_case e ''zim'' | None \<Rightarrow> False))"

fun walk :: "path \<Rightarrow> nat \<Rightarrow> nat \<Rightarrow> nat \<Rightarrow> fs_node \<Rightarrow> path list \<Rightarrow> path list"
and walk_entries :: "path \<Rightarrow> nat \<Rightarrow> nat \<Rightarrow> nat \<Rightarrow> (string \<times> fs_node) list \<Rightarrow> path list \<Rightarrow> path list" where
  "walk dir depth max_depth cap node out =
     (if length out \<ge> cap \<or> depth > max_depth then out
      else (case node of
              Dir (Some entries) \<Rightarrow> walk_entries dir depth max_depth cap entries out
            | _ \<Rightarrow> out))"
| "walk_entries dir depth max_depth cap [] out = out"
| "walk_entries dir depth max_depth cap ((name, node) # entries) out =
     (if length out \<ge> cap then out
      else
        walk_entries dir depth max_depth cap entries
          (case node of
             Dir _ \<Rightarrow> walk (dir @ [name]) (depth + 1) max_depth cap node out
           | Leaf \<Rightarrow> if is_zim_path (dir @ [name]) then out @ [dir @ [name]] else out))"

definition find_zim_files :: "path \<Rightarrow> fs_node \<Rightarrow> nat \<Rightarrow> path list" where
  "find_zim_files dir node max_files = sort_key (map (map ascii)) (walk dir 0 8 max_files node [])"

text \<open>What the path of a finished torrent turns out to be.\<close>

datatype content = Regular_file | Tree fs_node

definition locate_torrent_zim :: "path \<Rightarrow> content \<Rightarrow> (path, error) result" where
  "locate_torrent_zim path what =
     (case what of
        Regular_file \<Rightarrow>
          if \<not> is_zim_path path then Err (Torrent Other ''expected a .zim file'') else Ok path
      | Tree node \<Rightarrow>
          (let found = find_zim_files path node 10
           in case found of
                [p] \<Rightarrow> Ok p
              | [] \<Rightarrow> Err (Torrent Other ''no .zim file found'')
              | _ \<Rightarrow> Err (Torrent Other ''torrent produced several .zim files, expected exactly one'')))"

section \<open>Installation\<close>

text \<open>Times are nanoseconds since the epoch and may be negative; hard links share their inode.\<close>

record file_entry =
  f_inode :: nat
  f_content :: string
  f_mtime :: int

type_synonym fs = "path \<Rightarrow> file_entry option"

definition STALE_TMP_AGE :: int where "STALE_TMP_AGE = 3600 * 1000000000"

definition is_stale_tmp :: "fs \<Rightarrow> path \<Rightarrow> path \<Rightarrow> int \<Rightarrow> bool" where
  "is_stale_tmp fs path current_tmp now =
     (if path = current_tmp then False
      else if path = [] \<or> last path = ''..'' then False
      else if \<not> str_contains (last path) ''.zim.tmp-'' then False
      else (case fs path of
              None \<Rightarrow> False
            | Some meta \<Rightarrow>
                if now < 0 then False
                else if f_mtime meta < 0 then False
                else now \<ge> STALE_TMP_AGE \<and> f_mtime meta < now - STALE_TMP_AGE))"

datatype io_error = CrossesDevices | Io_other string

record install_io =
  io_now :: int
  io_listing :: "string list" \<comment> \<open>the entries of the directory, empty when it cannot be read\<close>
  io_removable :: "path \<Rightarrow> bool"
  io_link :: "io_error option"
  io_create :: "string option"
  io_inode :: nat
  io_mtime :: int
  io_read :: "nat \<Rightarrow> nat"
  io_fault :: "nat \<Rightarrow> (string \<times> nat) option" \<comment> \<open>an error, after some bytes of the chunk\<close>
  io_rename :: "string option"

definition remove_file :: "install_io \<Rightarrow> path \<Rightarrow> fs \<Rightarrow> fs" where
  "remove_file io p fs = (if io_removable io p then fs(p := None) else fs)"

fun remove_stale_tmps :: "install_io \<Rightarrow> path \<Rightarrow> path \<Rightarrow> string list \<Rightarrow> fs \<Rightarrow> fs list" where
  "remove_stale_tmps io dir current_tmp [] fs = [fs]"
| "remove_stale_tmps io dir current_tmp (name # names) fs =
     fs # remove_stale_tmps io dir current_tmp names
            (if is_stale_tmp fs (dir @ [name]) current_tmp (io_now io)
             then remove_file io (dir @ [name]) fs else fs)"

text \<open>The copy loop: the contents of the target after each write, and the number of bytes copied.\<close>

function copy_loop :: "install_io \<Rightarrow> nat \<Rightarrow> string \<Rightarrow> string \<Rightarrow> string list \<times> (nat, string) result" where
  "copy_loop io k rest written =
     (case io_fault io k of
        Some (e, m) \<Rightarrow> ([written @ take m rest], Err e)
      | None \<Rightarrow>
          if rest = [] then ([], Ok (length written))
          else
            (let n = max 1 (min (io_read io k) (1024 * 1024));
                 chunk = take n rest;
                 (contents, res) = copy_loop io (k + 1) (drop n rest) (written @ chunk)
             in ((written @ chunk) # contents, res)))"
  by pat_completeness auto
termination
  by (relation "measure (\<lambda>(_, _, rest, _). length rest)") auto

definition copy_file_buffered :: "install_io \<Rightarrow> path \<Rightarrow> path \<Rightarrow> fs \<Rightarrow> fs list \<times> (nat, string) result" where
  "copy_file_buffered io src dst fs =
     (case fs src of
        None \<Rightarrow> ([fs], Err ''No such file or directory'')
      | Some f \<Rightarrow>
          (case io_create io of
             Some e \<Rightarrow> ([fs], Err e)
           | None \<Rightarrow>
               (let target = (\<lambda>c. \<lparr>f_inode = io_inode io, f_content = c, f_mtime = io_mtime io\<rparr>);
                    (contents, res) = copy_loop io 0 (f_content f) []
                in (fs # map (\<lambda>c. fs(dst \<mapsto> target c)) ([] # contents), res))))"

definition hard_link :: "install_io \<Rightarrow> path \<Rightarrow> path \<Rightarrow> fs \<Rightarrow> fs \<times> (unit, io_error) result" where
  "hard_link io src dst fs =
     (case io_link io of
        Some e \<Rightarrow> (fs, Err e)
      | None \<Rightarrow>
          (case fs src of
             None \<Rightarrow> (fs, Err (Io_other ''No such file or directory''))
           | Some f \<Rightarrow> if fs dst \<noteq> None then (fs, Err (Io_other ''File exists'')) else (fs(dst \<mapsto> f), Ok ())))"

text \<open>POSIX \<open>rename\<close>: atomic, and without effect when both names are links to one file.\<close>

definition rename :: "install_io \<Rightarrow> path \<Rightarrow> path \<Rightarrow> fs \<Rightarrow> fs \<times> (unit, string) result" where
  "rename io old new fs =
     (case io_rename io of
        Some e \<Rightarrow> (fs, Err e)
      | None \<Rightarrow>
          (case fs old of
             None \<Rightarrow> (fs, Err ''No such file or directory'')
           | Some f \<Rightarrow>
               if map_option f_inode (fs new) = Some (f_inode f) then (fs, Ok ())
               else (fs(new \<mapsto> f, old := None), Ok ())))"

text \<open>\<open>Path::with_extension\<close> on a file name.\<close>

definition with_extension :: "string \<Rightarrow> string \<Rightarrow> string" where
  "with_extension name ext =
     (case rsplit_once CHR ''.'' name of
        Some (stem, _) \<Rightarrow> (if stem = [] then name else stem)
      | None \<Rightarrow> name) @ ''.'' @ ext"

definition tmp_name :: "nat \<Rightarrow> nat \<Rightarrow> string \<Rightarrow> string" where
  "tmp_name pid n file_name =
     with_extension file_name (''zim.tmp-'' @ decimal_digits pid @ ''-'' @ decimal_digits n)"

definition place :: "install_io \<Rightarrow> string \<Rightarrow> path \<Rightarrow> path \<Rightarrow> fs \<Rightarrow> fs list \<times> (unit, error) result" where
  "place io strategy src tmp fs =
     (let copy = (let (states, r) = copy_file_buffered io src tmp fs
                  in (states, case r of Inr _ \<Rightarrow> Ok () | Inl e \<Rightarrow> Err (Io e)))
      in if strategy = ''hardlink'' then
           (case hard_link io src tmp fs of
              (fs', Inr _) \<Rightarrow> ([fs'], Ok ())
            | (_, Inl CrossesDevices) \<Rightarrow> copy
            | (fs', Inl (Io_other e)) \<Rightarrow> ([fs'], Err (Io e)))
         else copy)"

definition install_zim ::
  "install_io \<Rightarrow> nat \<Rightarrow> nat \<Rightarrow> path \<Rightarrow> path \<Rightarrow> string \<Rightarrow> fs \<Rightarrow> fs list \<times> (path, error) result" where
  "install_zim io pid n src zim_dir strategy fs =
     (if src = [] \<or> last src = ''..'' then ([fs], Err (InvalidInput ''no file name''))
      else
        (let dst = zim_dir @ [last src];
             tmp = zim_dir @ [tmp_name pid n (last src)];
             cleaned = remove_stale_tmps io zim_dir tmp (io_listing io) fs;
             (placed, result) = place io strategy src tmp (last cleaned)
         in case result of
              Inl e \<Rightarrow> (cleaned @ placed @ [remove_file io tmp (last placed)], Err e)
            | Inr _ \<Rightarrow>
                (case rename io tmp dst (last placed) of
                   (fs', Inl e) \<Rightarrow> (cleaned @ placed @ [fs'], Err (Io e))
                 | (fs', Inr _) \<Rightarrow> (cleaned @ placed @ [fs'], Ok dst))))"

section \<open>Names stay inside the library directory\<close>

lemma strip_any_SomeD: "strip_any ps s = Some t \<Longrightarrow> \<exists>p\<in>set ps. s = p @ t"
  by (induction ps) (auto simp: strip_prefix_Some split: option.splits)

lemma trim_fuel_strips: "\<exists>w. s = w @ trim_fuel n ps s \<and> set w \<subseteq> \<Union> (set ` set ps)"
proof (induction n arbitrary: s)
  case (Suc n)
  show ?case
  proof (cases "strip_any ps s")
    case (Some t)
    then obtain p where p: "p \<in> set ps" "s = p @ t" using strip_any_SomeD by blast
    obtain w where "t = w @ trim_fuel n ps t" "set w \<subseteq> \<Union> (set ` set ps)" using Suc.IH by blast
    with p have "s = (p @ w) @ trim_fuel n ps t" "set (p @ w) \<subseteq> \<Union> (set ` set ps)" by auto
    with Some show ?thesis by (metis trim_fuel.simps(2) option.simps(5))
  qed auto
qed auto

lemma trim_strips: "\<exists>a b. s = a @ trim s @ b \<and> set a \<union> set b \<subseteq> \<Union> (set ` set white_space)"
proof -
  obtain a where a: "s = a @ trim_start s" "set a \<subseteq> \<Union> (set ` set white_space)"
    using trim_fuel_strips unfolding trim_start_def by blast
  obtain b where b: "rev (trim_start s) = b @ rev (trim s)" "set b \<subseteq> \<Union> (set ` set (map rev white_space))"
    using trim_fuel_strips unfolding trim_def trim_end_def rev_rev_ident by metis
  from b(1) have "trim_start s = trim s @ rev b" by (metis rev_append rev_rev_ident)
  with a b(2) show ?thesis by (intro exI [of _ a] exI [of _ "rev b"]) auto
qed

lemma white_space_chars: "c \<in> \<Union> (set ` set white_space) \<Longrightarrow> ascii c \<in> {9, 10, 11, 12, 13, 32} \<or> 128 \<le> ascii c"
  by (auto simp: white_space_def bytes_str_def ascii_char_of)

lemma trim_keeps:
  assumes "ascii c \<notin> {9, 10, 11, 12, 13, 32}" and "ascii c < 128"
  shows "c \<in> set s \<longleftrightarrow> c \<in> set (trim s)"
proof -
  obtain a b where ab: "s = a @ trim s @ b" "set a \<union> set b \<subseteq> \<Union> (set ` set white_space)"
    using trim_strips by blast
  have "c \<notin> set a \<union> set b" using ab(2) white_space_chars [of c] assms by auto
  then have "c \<in> set (a @ trim s @ b) \<longleftrightarrow> c \<in> set (trim s)" by auto
  then show ?thesis by (simp flip: ab(1))
qed

lemma trim_keeps_no_dot:
  assumes "trim s \<noteq> []" and "\<not> starts_with (trim s) ''.''"
  shows "\<not> starts_with s ''.'' \<and> s \<noteq> []"
proof -
  obtain a b where ab: "s = a @ trim s @ b" "set a \<union> set b \<subseteq> \<Union> (set ` set white_space)"
    using trim_strips by blast
  have "hd a \<noteq> CHR ''.''" if "a \<noteq> []"
  proof
    assume "hd a = CHR ''.''"
    with that ab(2) have "CHR ''.'' \<in> \<Union> (set ` set white_space)" by (metis Un_subset_iff hd_in_set subsetD)
    from white_space_chars [OF this] show False by (simp add: ascii_def)
  qed
  then have "\<not> starts_with (a @ trim s @ b) ''.''"
    using assms by (cases a; cases "trim s") (auto simp: starts_with_iff)
  then show ?thesis using assms(1) by (metis ab(1) append_is_Nil_conv)
qed

text \<open>
  An accepted download name stays inside the library directory. The partial file
  \<open>{zim_dir}/{name}.part\<close>, built from the name as given (not from the trimmed one that is checked),
  is a direct child of the directory: the name adds exactly one path component, which is neither
  hidden nor a dot entry and holds no NUL or backslash.
\<close>

theorem download_name_confined:
  assumes "validate_download_name name = Ok ()"
  shows "split_on CHR ''/'' (zim_dir @ ''/'' @ name @ ''.part'') = split_on CHR ''/'' zim_dir @ [name @ ''.part'']
    \<and> \<not> starts_with (name @ ''.part'') ''.'' \<and> CHR 0x00 \<notin> set (name @ ''.part'')
    \<and> CHR 0x5C \<notin> set (name @ ''.part'')"
proof -
  from assms have v: "trim name \<noteq> []" "CHR ''/'' \<notin> set (trim name)" "CHR 0x5C \<notin> set (trim name)"
    "CHR 0x00 \<notin> set (trim name)" "\<not> starts_with (trim name) ''.''"
    by (auto simp: validate_download_name_def Let_def split: if_splits)
  have n: "CHR ''/'' \<notin> set name" "CHR 0x5C \<notin> set name" "CHR 0x00 \<notin> set name"
    using v(2-4) trim_keeps [of _ name] by (auto simp: ascii_def)
  have d: "\<not> starts_with name ''.''" "name \<noteq> []" using trim_keeps_no_dot [OF v(1,5)] by auto
  from d have "\<not> starts_with (name @ ''.part'') ''.''" by (cases name) (auto simp: starts_with_iff)
  moreover have "split_on CHR ''/'' (name @ ''.part'') = [name @ ''.part'']" using n(1) by (simp add: split_on_absent)
  ultimately show ?thesis using n split_on_append [of "CHR ''/''" zim_dir "name @ ''.part''"] by simp
qed

theorem download_name_confined_witness:
  "split_on CHR ''/'' ''/data/wiki.part'' = [[], ''data'', ''wiki.part'']"
proof -
  have "printable ''wiki''" by (simp add: printable_def ascii_def)
  then have "validate_download_name ''wiki'' = Ok ()"
    by (simp add: validate_download_name_def starts_with_def)
  from download_name_confined [OF this, of "''/data''"] show ?thesis by simp
qed

section \<open>The search finds the archive\<close>

text \<open>All the \<open>.zim\<close> files in the tree down to a number of levels, without the cap.\<close>

fun zim_files :: "nat \<Rightarrow> path \<Rightarrow> fs_node \<Rightarrow> path list"
and zim_entries :: "nat \<Rightarrow> path \<Rightarrow> (string \<times> fs_node) list \<Rightarrow> path list" where
  "zim_files levels dir Leaf = []"
| "zim_files levels dir (Dir None) = []"
| "zim_files levels dir (Dir (Some entries)) = zim_entries levels dir entries"
| "zim_entries levels dir [] = []"
| "zim_entries levels dir ((name, node) # entries) =
     (case node of
        Leaf \<Rightarrow> if is_zim_path (dir @ [name]) then [dir @ [name]] else []
      | Dir _ \<Rightarrow> if levels = 0 then [] else zim_files (levels - 1) (dir @ [name]) node)
     @ zim_entries levels dir entries"

lemma take_after_take:
  "out @ take (cap - length out) xs @ take (cap - length (out @ take (cap - length out) xs)) ys
     = out @ take (cap - length out) (xs @ ys)"
  by (simp add: min_def)

lemma walk_takes:
  "walk dir depth max_depth cap node out =
     (if depth \<le> max_depth then out @ take (cap - length out) (zim_files (max_depth - depth) dir node) else out)"
  "depth \<le> max_depth \<Longrightarrow> walk_entries dir depth max_depth cap entries out =
     out @ take (cap - length out) (zim_entries (max_depth - depth) dir entries)"
proof (induction dir depth max_depth cap node out and dir depth max_depth cap entries out rule: walk_walk_entries.induct)
  case (1 dir depth max_depth cap node out)
  show ?case
  proof (cases "cap \<le> length out \<or> max_depth < depth")
    case False
    then show ?thesis using "1.IH" by (auto split: fs_node.splits option.splits)
  qed auto
next
  case (3 dir depth max_depth cap name node entries out)
  show ?case
  proof (cases "cap \<le> length out")
    case False
    define here where "here = (case node of
        Leaf \<Rightarrow> if is_zim_path (dir @ [name]) then [dir @ [name]] else []
      | Dir _ \<Rightarrow> if max_depth - depth = 0 then [] else zim_files (max_depth - depth - 1) (dir @ [name]) node)"
    have "(case node of
             Dir _ \<Rightarrow> walk (dir @ [name]) (depth + 1) max_depth cap node out
           | Leaf \<Rightarrow> if is_zim_path (dir @ [name]) then out @ [dir @ [name]] else out)
          = out @ take (cap - length out) here"
      using "3.IH"(1) [OF False] "3.prems" False
      by (cases node) (auto simp: here_def take_Cons' simp del: walk.simps)
    with "3.IH"(2) [OF False] "3.prems" False have
      "walk_entries dir depth max_depth cap ((name, node) # entries) out
         = out @ take (cap - length out) here
             @ take (cap - length (out @ take (cap - length out) here)) (zim_entries (max_depth - depth) dir entries)"
      by (simp del: walk.simps length_append length_take)
    then show ?thesis
      unfolding take_after_take by (simp add: here_def)
  qed simp
qed simp

text \<open>
  The archive of a torrent is found when it is unique, and only then. In a directory the search
  succeeds exactly when the tree holds one \<open>.zim\<close> file within eight directory levels, and returns
  that file; none and several are told apart, however many files the capped walk leaves unseen.
\<close>

theorem locate_exactly_one:
  "locate_torrent_zim path (Tree node) =
     (case zim_files 8 path node of
        [] \<Rightarrow> Err (Torrent Other ''no .zim file found'')
      | [p] \<Rightarrow> Ok p
      | _ \<Rightarrow> Err (Torrent Other ''torrent produced several .zim files, expected exactly one''))"
proof -
  define zs where "zs = zim_files 8 path node"
  have found: "find_zim_files path node 10 = sort_key (map (map ascii)) (take 10 zs)"
    by (simp add: find_zim_files_def walk_takes(1) zs_def del: walk.simps)
  consider "zs = []" | p where "zs = [p]" | p q rest where "zs = p # q # rest"
    by (metis list.exhaust)
  then show ?thesis
  proof cases
    case 3
    then have "length (find_zim_files path node 10) \<ge> 2" by (simp add: found)
    then obtain a b l where "find_zim_files path node 10 = a # b # l"
      by (metis One_nat_def Suc_1 Suc_le_length_iff)
    with 3 show ?thesis by (simp add: locate_torrent_zim_def zs_def [symmetric])
  qed (simp_all add: locate_torrent_zim_def found zs_def [symmetric])
qed

section \<open>Installation is atomic\<close>

definition tmp_like :: "path \<Rightarrow> bool" where
  "tmp_like p \<longleftrightarrow> p \<noteq> [] \<and> str_contains (last p) ''.zim.tmp-''"

lemma remove_stale_tmps_frame:
  "fs' \<in> set (remove_stale_tmps io dir tmp names fs) \<Longrightarrow> \<not> tmp_like p \<Longrightarrow> fs' p = fs p"
  by (induction io dir tmp names fs rule: remove_stale_tmps.induct)
     (auto simp: remove_file_def is_stale_tmp_def tmp_like_def split: if_splits)

lemma remove_stale_tmps_shrinks:
  "fs' \<in> set (remove_stale_tmps io dir tmp names fs) \<Longrightarrow> fs' p = None \<or> fs' p = fs p"
  by (induction io dir tmp names fs rule: remove_stale_tmps.induct) (auto simp: remove_file_def split: if_splits)

lemma remove_stale_tmps_nonempty [simp]: "remove_stale_tmps io dir tmp names fs \<noteq> []"
  by (cases names) auto

lemma copy_loop_Ok:
  "copy_loop io k rest written = (contents, Ok n) \<Longrightarrow>
     last (written # contents) = written @ rest \<and> n = length (written @ rest)"
proof (induction io k rest written arbitrary: contents rule: copy_loop.induct)
  case (1 io k rest written)
  show ?case
  proof (cases "io_fault io k = None \<and> rest \<noteq> []")
    case True
    define m where "m = max 1 (min (io_read io k) (1024 * 1024))"
    obtain cs res where step: "copy_loop io (k + 1) (drop m rest) (written @ take m rest) = (cs, res)"
      by (cases "copy_loop io (k + 1) (drop m rest) (written @ take m rest)")
    have eq: "contents = (written @ take m rest) # cs" "res = Ok n"
      using "1.prems" True step by (simp_all add: copy_loop.simps [of io k rest] Let_def m_def)
    have "last ((written @ take m rest) # cs) = (written @ take m rest) @ drop m rest
        \<and> n = length ((written @ take m rest) @ drop m rest)"
      using "1.IH" [of m "take m rest" cs] True step eq(2) by (auto simp: m_def)
    then show ?thesis using eq(1) by simp
  next
    case False
    then show ?thesis using "1.prems"
      by (auto simp: copy_loop.simps [of io k rest] split: option.splits prod.splits)
  qed
qed

declare copy_loop.simps [simp del]

lemma place_frame:
  assumes "place io strategy src tmp fs = (states, res)"
  shows "states \<noteq> []" and "\<And>fs' p. fs' \<in> set states \<Longrightarrow> p \<noteq> tmp \<Longrightarrow> fs' p = fs p"
  using assms
  by (auto simp: place_def copy_file_buffered_def hard_link_def Let_def
      split: if_splits option.splits prod.splits sum.splits io_error.splits)

lemma place_Ok:
  assumes "place io strategy src tmp fs = (states, Ok ())" and "fs src = Some f"
  shows "\<exists>g. last states tmp = Some g \<and> f_content g = f_content f
    \<and> (g = f \<or> f_inode g = io_inode io)"
proof -
  have copy: "\<exists>g. last sts tmp = Some g \<and> f_content g = f_content f \<and> f_inode g = io_inode io"
    if "copy_file_buffered io src tmp fs = (sts, Ok k)" for sts k
  proof -
    obtain cs r where loop: "copy_loop io 0 (f_content f) [] = (cs, r)" by fastforce
    then have "r = Ok k"
      "sts = fs # map (\<lambda>c. fs(tmp \<mapsto> \<lparr>f_inode = io_inode io, f_content = c, f_mtime = io_mtime io\<rparr>)) ([] # cs)"
      using that assms(2) by (auto simp: copy_file_buffered_def split: option.splits)
    then show ?thesis using loop copy_loop_Ok [of io 0 "f_content f" "[]" cs k] by (cases cs) (auto simp: last_map)
  qed
  show ?thesis
    using assms by (auto simp: place_def hard_link_def Let_def dest!: copy
        split: if_splits option.splits prod.splits sum.splits io_error.splits)
qed

text \<open>Links to one file are one file, and the copy's inode is new.\<close>

definition inodes_ok :: "install_io \<Rightarrow> fs \<Rightarrow> bool" where
  "inodes_ok io fs \<longleftrightarrow>
     (\<forall>p q a b. fs p = Some a \<longrightarrow> fs q = Some b \<longrightarrow> f_inode a = f_inode b \<longrightarrow> a = b)
     \<and> (\<forall>p a. fs p = Some a \<longrightarrow> f_inode a \<noteq> io_inode io)"

lemma tmp_name_tmp_like: "tmp_like (zim_dir @ [tmp_name pid n name])"
proof -
  obtain stem where "tmp_name pid n name = stem @ ''.zim.tmp-'' @ decimal_digits pid @ ''-'' @ decimal_digits n"
    by (auto simp: tmp_name_def with_extension_def split: option.splits)
  then show ?thesis unfolding tmp_like_def str_contains_iff by auto
qed

lemma rename_dst:
  assumes "rename io old new fs = (fs', res)" and "fs old = Some g"
    and "\<And>a. fs new = Some a \<Longrightarrow> f_inode a = f_inode g \<Longrightarrow> f_content a = f_content g"
  shows "fs' new = fs new \<or> (\<exists>a. fs' new = Some a \<and> f_content a = f_content g)"
    and "res = Ok () \<Longrightarrow> \<exists>a. fs' new = Some a \<and> f_content a = f_content g"
    and "p \<noteq> old \<Longrightarrow> p \<noteq> new \<Longrightarrow> fs' p = fs p"
  using assms by (auto simp: rename_def split: option.splits if_splits)

definition install_ok :: "fs \<Rightarrow> path \<Rightarrow> string \<Rightarrow> fs \<Rightarrow> bool" where
  "install_ok fs dst content fs' \<longleftrightarrow>
     (fs' dst = fs dst \<or> (\<exists>a. fs' dst = Some a \<and> f_content a = content))
     \<and> (\<forall>p. \<not> tmp_like p \<longrightarrow> p \<noteq> dst \<longrightarrow> fs' p = fs p)"

lemma install_outcome:
  assumes "install_zim io pid n src zim_dir strategy fs = (states, res)"
    and "src \<noteq> []" and "last src \<noteq> ''..''" and "fs src = Some f" and "inodes_ok io fs"
    and "\<not> str_contains (last src) ''.zim.tmp-''"
  shows "list_all (install_ok fs (zim_dir @ [last src]) (f_content f)) states
    \<and> (res = Ok d \<longrightarrow> d = zim_dir @ [last src] \<and> map_option f_content (last states d) = Some (f_content f))"
proof -
  define dst where "dst = zim_dir @ [last src]"
  define tmp where "tmp = zim_dir @ [tmp_name pid n (last src)]"
  define cleaned where "cleaned = remove_stale_tmps io zim_dir tmp (io_listing io) fs"
  obtain placed r where pl: "place io strategy src tmp (last cleaned) = (placed, r)" by fastforce
  have notmp: "\<not> tmp_like dst" "\<not> tmp_like src" "tmp_like tmp"
    using assms(2,6) tmp_name_tmp_like by (simp_all add: tmp_like_def dst_def tmp_def)
  have cl: "fs' p = fs p" if "fs' \<in> set cleaned" "\<not> tmp_like p" for fs' p
    using remove_stale_tmps_frame that unfolding cleaned_def by blast
  have lc: "last cleaned \<in> set cleaned" by (simp add: cleaned_def)
  have pf: "fs' p = fs p" if "fs' \<in> set placed" "\<not> tmp_like p" for fs' p
    using place_frame(2) [OF pl, of fs' p] cl [OF lc, of p] that notmp(3) by (cases "p = tmp") auto
  have lp: "last placed \<in> set placed" using place_frame(1) [OF pl] by simp
  have before: "install_ok fs dst (f_content f) fs'" if "fs' \<in> set (cleaned @ placed)" for fs'
    using that cl pf notmp(1) by (auto simp: install_ok_def)
  show ?thesis
  proof (cases r)
    case (Inl e)
    have "install_ok fs dst (f_content f) (remove_file io tmp (last placed))"
      using before [of "last placed"] lp notmp by (auto simp: install_ok_def remove_file_def)
    moreover have "states = cleaned @ placed @ [remove_file io tmp (last placed)]" "res = Err e"
      using assms(1-3) pl Inl by (auto simp: install_zim_def Let_def cleaned_def tmp_def)
    ultimately show ?thesis using before by (auto simp: list_all_iff dst_def)
  next
    case (Inr u)
    have src: "last cleaned src = Some f" using cl [OF lc notmp(2)] assms(4) by simp
    obtain g where g: "last placed tmp = Some g" "f_content g = f_content f" "g = f \<or> f_inode g = io_inode io"
      using place_Ok [of io strategy src tmp "last cleaned" placed f] pl Inr src by auto
    have same: "f_content a = f_content g" if "last placed dst = Some a" "f_inode a = f_inode g" for a
      using that g assms(4,5) pf [OF lp notmp(1)] unfolding inodes_ok_def by (metis (no_types, lifting))
    obtain fs' r' where rn: "rename io tmp dst (last placed) = (fs', r')" by fastforce
    note dst = rename_dst [OF rn g(1) same]
    have states: "states = cleaned @ placed @ [fs']"
      and res: "res = (case r' of Inl e \<Rightarrow> Err (Io e) | Inr _ \<Rightarrow> Ok dst)"
      using assms(1-3) pl Inr rn by (auto simp: install_zim_def Let_def cleaned_def tmp_def dst_def split: sum.splits)
    have frame: "fs' p = fs p" if "\<not> tmp_like p" "p \<noteq> dst" for p
      using dst(3) [of p] pf [OF lp that(1)] that notmp(3) by (cases "p = tmp") auto
    have "install_ok fs dst (f_content f) fs'"
      using dst(1) g(2) pf [OF lp] notmp(1) frame by (auto simp: install_ok_def)
    then show ?thesis using before dst(2) g(2) res
      by (cases r') (auto simp: list_all_iff states dst_def)
  qed
qed


definition sample_io :: install_io where
  "sample_io = \<lparr>io_now = 0, io_listing = [], io_removable = (\<lambda>_. True), io_link = None,
     io_create = None, io_inode = 9, io_mtime = 0, io_read = (\<lambda>_. 2), io_fault = (\<lambda>_. None), io_rename = None\<rparr>"

definition sample_fs :: fs where
  "sample_fs = [[''t'', ''a.zim''] \<mapsto> \<lparr>f_inode = 1, f_content = ''new'', f_mtime = 0\<rparr>,
     [''data'', ''a.zim''] \<mapsto> \<lparr>f_inode = 2, f_content = ''old'', f_mtime = 0\<rparr>]"


end
