(* ===== verification/Json.thy ===== *)
theory Json
  imports Complex_Main Prelude
begin

text \<open>
  JSON values as \<open>serde_json::Value\<close> has them, and the conversions of the crate's settings code:
  \<open>as_*\<close>, \<open>is_*\<close> and \<open>serde_json::from_value\<close> at the types the source uses. Floating-point values
  are exact rationals with the special values of IEEE 754; rounding to 53 bits is not modelled, and
  a JSON number is always finite.
\<close>

section \<open>Floating-point values\<close>

datatype f64 = NaN | NegInf | Num rat | PosInf

fun f64_le :: "f64 \<Rightarrow> f64 \<Rightarrow> bool" where
  "f64_le NaN _ = False"
| "f64_le _ NaN = False"
| "f64_le NegInf _ = True"
| "f64_le _ PosInf = True"
| "f64_le (Num a) (Num b) = (a \<le> b)"
| "f64_le _ _ = False"

text \<open>\<open>f64::clamp\<close>; a NaN is passed through.\<close>

definition f64_clamp :: "f64 \<Rightarrow> rat \<Rightarrow> rat \<Rightarrow> f64" where
  "f64_clamp x lo hi =
     (case x of NaN \<Rightarrow> NaN | NegInf \<Rightarrow> Num lo | PosInf \<Rightarrow> Num hi
      | Num r \<Rightarrow> if r < lo then Num lo else if r > hi then Num hi else Num r)"

definition is_finite :: "f64 \<Rightarrow> bool" where
  "is_finite x \<longleftrightarrow> (case x of Num _ \<Rightarrow> True | _ \<Rightarrow> False)"

text \<open>\<open>f64::max\<close> returns the other operand when one is a NaN.\<close>

definition f64_max :: "f64 \<Rightarrow> f64 \<Rightarrow> f64" where
  "f64_max a b = (if a = NaN then b else if b = NaN then a else if f64_le a b then b else a)"

section \<open>Numbers in text\<close>

text \<open>\<open>i64::from_str\<close>: an optional sign and at least one digit, within range.\<close>

definition parse_i64 :: "string \<Rightarrow> int option" where
  "parse_i64 s =
     (case s of
        CHR ''-'' # ds \<Rightarrow>
          if ds \<noteq> [] \<and> list_all is_ascii_digit ds
          then (case digits_value 0 ds of
                  Some n \<Rightarrow> if n \<le> 2 ^ 63 then Some (- int n) else None | None \<Rightarrow> None)
          else None
      | _ \<Rightarrow> (case parse_unsigned 63 s of Some n \<Rightarrow> Some (int n) | None \<Rightarrow> None))"

definition digits_rat :: "string \<Rightarrow> rat" where
  "digits_rat ds = (case digits_value 0 ds of Some n \<Rightarrow> of_nat n | None \<Rightarrow> 0)"

text \<open>The exponent part of \<open>f64::from_str\<close>: empty, or \<open>e\<close>, an optional sign and digits.\<close>

definition parse_exponent :: "string \<Rightarrow> int option" where
  "parse_exponent s =
     (if s = [] then Some 0
      else if lower_char (hd s) = CHR ''e'' then
        (let neg = starts_with (tl s) ''-'';
             ds = (if neg \<or> starts_with (tl s) ''+'' then tl (tl s) else tl s)
         in if ds \<noteq> [] \<and> list_all is_ascii_digit ds
            then map_option (\<lambda>n. if neg then - int n else int n) (digits_value 0 ds) else None)
      else None)"

text \<open>\<open>f64::from_str\<close>: a sign, then \<open>inf\<close>, \<open>infinity\<close>, \<open>nan\<close>, or decimal digits with a point.\<close>

definition parse_f64 :: "string \<Rightarrow> f64 option" where
  "parse_f64 raw =
     (let neg = starts_with raw ''-'';
          s = (if neg \<or> starts_with raw ''+'' then tl raw else raw);
          whole = takeWhile is_ascii_digit s;
          rest = dropWhile is_ascii_digit s;
          point = starts_with rest ''.'';
          frac = (if point then takeWhile is_ascii_digit (tl rest) else []);
          tail = (if point then dropWhile is_ascii_digit (tl rest) else rest)
      in if eq_ignore_ascii_case s ''inf'' \<or> eq_ignore_ascii_case s ''infinity''
         then Some (if neg then NegInf else PosInf)
         else if eq_ignore_ascii_case s ''nan'' then Some NaN
         else if whole = [] \<and> frac = [] then None
         else map_option (\<lambda>e. Num ((if neg then - 1 else 1)
                * (digits_rat whole + digits_rat frac / 10 ^ length frac) * 10 powi e)) (parse_exponent tail))"

section \<open>Values\<close>

datatype json =
    JNull
  | JBool bool
  | JInt int
  | JFloat rat
  | JStr string
  | JArr "json list"
  | JObj "(string \<times> json) list"

definition I64_MIN :: int where "I64_MIN = - (2 ^ 63)"
definition I64_MAX :: int where "I64_MAX = 2 ^ 63 - 1"
definition U64_MAX :: int where "U64_MAX = 2 ^ 64 - 1"

text \<open>An integer JSON number is an \<open>i64\<close> or a \<open>u64\<close>.\<close>

definition number_ok :: "json \<Rightarrow> bool" where
  "number_ok v \<longleftrightarrow> (case v of JInt n \<Rightarrow> I64_MIN \<le> n \<and> n \<le> U64_MAX | _ \<Rightarrow> True)"

definition json_str :: "json \<Rightarrow> string option" where
  "json_str v = (case v of JStr s \<Rightarrow> Some s | _ \<Rightarrow> None)"

definition json_bool :: "json \<Rightarrow> bool option" where
  "json_bool v = (case v of JBool b \<Rightarrow> Some b | _ \<Rightarrow> None)"

definition as_i64 :: "json \<Rightarrow> int option" where
  "as_i64 v = (case v of JInt n \<Rightarrow> if I64_MIN \<le> n \<and> n \<le> I64_MAX then Some n else None | _ \<Rightarrow> None)"

definition as_u64 :: "json \<Rightarrow> nat option" where
  "as_u64 v = (case v of JInt n \<Rightarrow> if 0 \<le> n \<and> n \<le> U64_MAX then Some (nat n) else None | _ \<Rightarrow> None)"

definition as_f64 :: "json \<Rightarrow> f64 option" where
  "as_f64 v = (case v of JInt n \<Rightarrow> Some (Num (of_int n)) | JFloat r \<Rightarrow> Some (Num r) | _ \<Rightarrow> None)"

definition as_object :: "json \<Rightarrow> (string \<times> json) list option" where
  "as_object v = (case v of JObj kvs \<Rightarrow> Some kvs | _ \<Rightarrow> None)"

definition is_number :: "json \<Rightarrow> bool" where
  "is_number v \<longleftrightarrow> (case v of JInt _ \<Rightarrow> True | JFloat _ \<Rightarrow> True | _ \<Rightarrow> False)"

text \<open>\<open>json!(x)\<close> of a float: a number that is not finite becomes null.\<close>

definition json_of_f64 :: "f64 \<Rightarrow> json" where
  "json_of_f64 x = (case x of Num r \<Rightarrow> JFloat r | _ \<Rightarrow> JNull)"

text \<open>\<open>serde_json::from_value\<close>: integers are range-checked, a float never becomes an integer.\<close>

definition from_value_str :: "json \<Rightarrow> string option" where
  "from_value_str v = (case v of JStr s \<Rightarrow> Some s | _ \<Rightarrow> None)"

definition from_value_bool :: "json \<Rightarrow> bool option" where
  "from_value_bool v = (case v of JBool b \<Rightarrow> Some b | _ \<Rightarrow> None)"

definition from_value_unsigned :: "nat \<Rightarrow> json \<Rightarrow> nat option" where
  "from_value_unsigned bits v =
     (case v of JInt n \<Rightarrow> if 0 \<le> n \<and> n < 2 ^ bits then Some (nat n) else None | _ \<Rightarrow> None)"

definition from_value_signed :: "nat \<Rightarrow> json \<Rightarrow> int option" where
  "from_value_signed bits v =
     (case v of JInt n \<Rightarrow> if - (2 ^ (bits - 1)) \<le> n \<and> n < 2 ^ (bits - 1) then Some n else None | _ \<Rightarrow> None)"

definition from_value_f64 :: "json \<Rightarrow> f64 option" where
  "from_value_f64 v = (case v of JInt n \<Rightarrow> Some (Num (of_int n)) | JFloat r \<Rightarrow> Some (Num r) | _ \<Rightarrow> None)"

lemmas json_reads = json_str_def json_bool_def as_i64_def as_u64_def as_f64_def as_object_def is_number_def
  from_value_str_def from_value_bool_def from_value_unsigned_def from_value_signed_def from_value_f64_def

lemma json_str_Some: "json_str v = Some s \<longleftrightarrow> v = JStr s"
  by (auto simp: json_str_def split: json.splits)

lemma as_f64_finite: "as_f64 v = Some x \<Longrightarrow> is_finite x"
  by (auto simp: as_f64_def is_finite_def split: json.splits)

section \<open>Sequencing of code that may panic\<close>

fun run_bind :: "'a run \<Rightarrow> ('a \<Rightarrow> 'b run) \<Rightarrow> 'b run" where
  "run_bind (Done a) f = f a"
| "run_bind Panicked f = Panicked"

fun unwrap_run :: "'a option \<Rightarrow> 'a run" where
  "unwrap_run (Some a) = Done a"
| "unwrap_run None = Panicked"

end
