(* ===== verification/Qbit.thy ===== *)
theory Qbit
  imports NetGuard Tokens Json
begin

text \<open>
  The qBittorrent client of \<open>src/torrent/mod.rs\<close>: the torrent records with their sanitisation and
  classification, the calls of the Web API, and the cache of the connected client.

  The HTTP transport is a parameter, a function from the state of the outside world and a request
  to a reply and the next state of the world; so are the JSON decoder, the resolver and SHA-256.
\<close>

section \<open>Torrents\<close>

definition F32_MAX :: rat where "F32_MAX = (2 ^ 24 - 1) * 2 ^ 104"

record torrent_info =
  t_hash :: string
  t_name :: string
  t_progress :: f64
  t_state :: string
  t_dlspeed :: int
  t_upspeed :: int
  t_ratio :: f64
  t_category :: "string option"
  t_save_path :: "string option"
  t_content_path :: "string option"
  t_size :: int
  t_downloaded :: int
  t_num_seeds :: int
  t_err_str :: "string option"

definition is_complete :: "torrent_info \<Rightarrow> bool" where
  "is_complete t \<longleftrightarrow> f64_le (Num (999 / 1000)) (t_progress t)
     \<and> t_state t \<in> {''uploading'', ''stalledUP'', ''pausedUP'', ''forcedUP''}"

definition is_active_download :: "torrent_info \<Rightarrow> bool" where
  "is_active_download t \<longleftrightarrow>
     t_state t \<in> {''downloading'', ''forcedDL'', ''stalledDL'', ''metaDL'', ''forcedMetaDL'',
                  ''checking'', ''allocating'', ''moving''}"

definition is_fatal :: "torrent_info \<Rightarrow> bool" where
  "is_fatal t \<longleftrightarrow> t_state t \<in> {''error'', ''missingFiles''}"

definition sanitize :: "torrent_info \<Rightarrow> torrent_info" where
  "sanitize t =
     t\<lparr>t_progress := (if t_progress t = NaN then Num 0 else f64_clamp (t_progress t) 0 1),
       t_ratio := (if t_ratio t = NaN then Num 0 else f64_clamp (t_ratio t) 0 F32_MAX),
       t_dlspeed := max (t_dlspeed t) 0, t_upspeed := max (t_upspeed t) 0,
       t_size := max (t_size t) 0, t_downloaded := max (t_downloaded t) 0,
       t_num_seeds := max (t_num_seeds t) 0\<rparr>"

section \<open>The Web API\<close>

record qbit_client =
  q_base_url :: string
  q_username :: string
  q_password :: string
  q_allow_private :: bool \<comment> \<open>the policy of the HTTP client\<close>
  q_pin :: pin

datatype qb_request = Get string | Post string "(string \<times> string) list"

record qb_reply =
  qr_status :: nat
  qr_body :: "(string, string) result"

type_synonym 'w transport = "qbit_client \<Rightarrow> qb_request \<Rightarrow> 'w \<Rightarrow> (qb_reply, string) result \<times> 'w"

definition is_success :: "nat \<Rightarrow> bool" where
  "is_success status \<longleftrightarrow> 200 \<le> status \<and> status < 300"

definition is_auth_failure :: "nat \<Rightarrow> bool" where
  "is_auth_failure status \<longleftrightarrow> status = 401 \<or> status = 403"

definition trim_end_slashes :: "string \<Rightarrow> string" where
  "trim_end_slashes s = rev (dropWhile (\<lambda>c. c = CHR ''/'') (rev s))"

text \<open>\<open>QbitClient::new\<close>; building the HTTP client itself may fail.\<close>

definition qbit_new ::
  "url_ops \<Rightarrow> (pin \<Rightarrow> (unit, string) result) \<Rightarrow> string \<Rightarrow> string \<Rightarrow> string \<Rightarrow> bool \<Rightarrow> pin \<Rightarrow> (qbit_client, error) result" where
  "qbit_new U build base_url username password allow_private pin =
     (let trimmed = trim_end_slashes base_url
      in case assert_host_not_blocked U trimmed allow_private True of
           Inl e \<Rightarrow> Err e
         | Inr _ \<Rightarrow>
             (case build pin of
                Inl e \<Rightarrow> Err (Config (''failed to build qB HTTP client: '' @ e))
              | Inr _ \<Rightarrow> Ok \<lparr>q_base_url = trimmed, q_username = username, q_password = password,
                             q_allow_private = allow_private, q_pin = pin\<rparr>))"

definition auth :: "'w transport \<Rightarrow> qbit_client \<Rightarrow> 'w \<Rightarrow> (unit, error) result \<times> 'w" where
  "auth send q w =
     (case send q (Post (q_base_url q @ ''/api/v2/login'')
                     [(''username'', q_username q), (''password'', q_password q)]) w of
        (Inl e, w') \<Rightarrow> (Err (Http e), w')
      | (Inr resp, w') \<Rightarrow>
          (if \<not> is_success (qr_status resp) then (Err (Torrent Other ''qBittorrent auth failed''), w')
           else (Ok (), w')))"

definition add_torrent ::
  "'w transport \<Rightarrow> qbit_client \<Rightarrow> string \<Rightarrow> string \<Rightarrow> string \<Rightarrow> 'w \<Rightarrow> (string, error) result \<times> 'w" where
  "add_torrent send q url category save_path w =
     (case send q (Post (q_base_url q @ ''/api/v2/torrents/add'')
                     [(''urls'', url), (''category'', category), (''savepath'', save_path)]) w of
        (Inl e, w') \<Rightarrow> (Err (Http e), w')
      | (Inr resp, w') \<Rightarrow>
          (case qr_body resp of
             Inl e \<Rightarrow> (Err (Http e), w')
           | Inr text \<Rightarrow>
               if \<not> is_success (qr_status resp) then (Err (Torrent Other ''add_torrent failed''), w')
               else (Ok text, w')))"

definition get_torrents ::
  "'w transport \<Rightarrow> (string \<Rightarrow> (torrent_info list, string) result) \<Rightarrow> qbit_client \<Rightarrow> string \<Rightarrow> 'w
    \<Rightarrow> (torrent_info list, error) result \<times> 'w" where
  "get_torrents send json q which w =
     (case send q (Get (q_base_url q @ ''/api/v2/torrents/info?filter='' @ which)) w of
        (Inl e, w') \<Rightarrow> (Err (Http e), w')
      | (Inr resp, w') \<Rightarrow>
          (if \<not> is_success (qr_status resp) then
             (if is_auth_failure (qr_status resp)
              then (Err (Torrent SessionExpired ''qBittorrent session expired''), w')
              else (Err (Torrent Other ''get_torrents failed''), w'))
           else (case qr_body resp of
                   Inl e \<Rightarrow> (Err (Http e), w')
                 | Inr body \<Rightarrow>
                     (case json body of
                        Inl e \<Rightarrow> (Err (Http e), w')
                      | Inr ts \<Rightarrow> (Ok (map sanitize ts), w')))))"

definition qbit_version :: "'w transport \<Rightarrow> qbit_client \<Rightarrow> 'w \<Rightarrow> (string, error) result \<times> 'w" where
  "qbit_version send q w =
     (case send q (Get (q_base_url q @ ''/api/v2/app/version'')) w of
        (Inl e, w') \<Rightarrow> (Err (Http e), w')
      | (Inr resp, w') \<Rightarrow>
          (if \<not> is_success (qr_status resp) then
             (if is_auth_failure (qr_status resp)
              then (Err (Torrent SessionExpired ''qBittorrent session expired''), w')
              else (Err (Torrent Other ''version probe failed''), w'))
           else (case qr_body resp of Inl e \<Rightarrow> (Err (Http e), w') | Inr text \<Rightarrow> (Ok (trim text), w'))))"

definition bool_text :: "bool \<Rightarrow> string" where
  "bool_text b = (if b then ''true'' else ''false'')"

definition delete_torrent :: "'w transport \<Rightarrow> qbit_client \<Rightarrow> string \<Rightarrow> bool \<Rightarrow> 'w \<Rightarrow> (unit, error) result \<times> 'w" where
  "delete_torrent send q hash delete_files w =
     (case send q (Post (q_base_url q @ ''/api/v2/torrents/delete?hashes='' @ hash @ ''&deleteFiles=''
                     @ bool_text delete_files) []) w of
        (Inl e, w') \<Rightarrow> (Err (Http e), w')
      | (Inr resp, w') \<Rightarrow>
          (if \<not> is_success (qr_status resp) then (Err (Torrent Other ''delete failed''), w') else (Ok (), w')))"

section \<open>Connecting\<close>

definition fingerprint_input :: "string \<Rightarrow> string \<Rightarrow> string \<Rightarrow> bool \<Rightarrow> string" where
  "fingerprint_input url username password allow_private =
     url @ ''|'' @ username @ ''|'' @ password @ ''|'' @ bool_text allow_private"

definition qbit_fingerprint :: "(string \<Rightarrow> string) \<Rightarrow> string \<Rightarrow> string \<Rightarrow> string \<Rightarrow> bool \<Rightarrow> string" where
  "qbit_fingerprint hash256 url username password allow_private =
     hex_encode (hash256 (fingerprint_input url username password allow_private))"

definition resolve_qbit_inputs ::
  "string option \<Rightarrow> string option \<Rightarrow> string \<Rightarrow> string \<Rightarrow> (string \<times> string \<times> string) option" where
  "resolve_qbit_inputs torrent_url url_override username password =
     Option.bind (case url_override of Some u \<Rightarrow> Some u | None \<Rightarrow> torrent_url) (\<lambda>url.
       if trim url = [] then None else Some (url, username, password))"

record 'w qbit_env =
  qe_urls :: url_ops
  qe_dns :: resolver
  qe_build :: "pin \<Rightarrow> (unit, string) result"
  qe_send :: "'w transport"
  qe_json :: "string \<Rightarrow> (torrent_info list, string) result"
  qe_sha256 :: "string \<Rightarrow> string"

definition connect_qbit ::
  "'w qbit_env \<Rightarrow> string \<Rightarrow> string \<Rightarrow> string \<Rightarrow> bool \<Rightarrow> 'w \<Rightarrow> qbit_client option \<times> 'w" where
  "connect_qbit E url username password allow_private w =
     (case resolve_download_host (qe_urls E) (qe_dns E) url allow_private True of
        Inl _ \<Rightarrow> (None, w)
      | Inr pin \<Rightarrow>
          (case qbit_new (qe_urls E) (qe_build E) url username password allow_private pin of
             Inl _ \<Rightarrow> (None, w)
           | Inr client \<Rightarrow>
               (case auth (qe_send E) client w of
                  (Inr _, w') \<Rightarrow> (Some client, w')
                | (Inl _, w') \<Rightarrow> (None, w'))))"

type_synonym qbit_cell = "(string \<times> qbit_client) option"

definition cache_current :: "qbit_cell \<Rightarrow> qbit_client option" where
  "cache_current cell = map_option snd cell"

definition cache_invalidate :: "qbit_cell \<Rightarrow> qbit_cell" where
  "cache_invalidate cell = None"

definition cache_store :: "string \<Rightarrow> qbit_client \<Rightarrow> qbit_cell \<Rightarrow> qbit_cell" where
  "cache_store fingerprint client cell = Some (fingerprint, client)"

text \<open>\<open>between\<close> is what other tasks did to the cell while \<open>build\<close> ran outside the lock.\<close>

definition ensure ::
  "string \<Rightarrow> ('w \<Rightarrow> qbit_client option \<times> 'w) \<Rightarrow> (qbit_cell \<Rightarrow> qbit_cell) \<Rightarrow> qbit_cell \<Rightarrow> 'w
    \<Rightarrow> qbit_client option \<times> qbit_cell \<times> 'w" where
  "ensure fingerprint build between cell w =
     (case cell of
        Some (fp, c) \<Rightarrow>
          if fp = fingerprint then (Some c, cell, w)
          else (case build w of
                  (Some client, w') \<Rightarrow> (Some client, Some (fingerprint, client), w')
                | (None, w') \<Rightarrow> (None, between cell, w'))
      | None \<Rightarrow>
          (case build w of
             (Some client, w') \<Rightarrow> (Some client, Some (fingerprint, client), w')
           | (None, w') \<Rightarrow> (None, between cell, w')))"

text \<open>\<open>DownloadPoller::resolve_torrent\<close>, with the credentials of the process.\<close>

record qbit_config =
  qc_url_override :: "string option"
  qc_username :: string
  qc_password :: string

definition resolve_torrent ::
  "'w qbit_env \<Rightarrow> qbit_config \<Rightarrow> string option \<Rightarrow> bool \<Rightarrow> (qbit_cell \<Rightarrow> qbit_cell) \<Rightarrow> qbit_cell \<Rightarrow> 'w
    \<Rightarrow> qbit_client option \<times> qbit_cell \<times> 'w" where
  "resolve_torrent E C qbit_url allow_private between cell w =
     (case resolve_qbit_inputs qbit_url (qc_url_override C) (qc_username C) (qc_password C) of
        None \<Rightarrow> (None, cell, w)
      | Some (url, user, pass) \<Rightarrow>
          ensure (qbit_fingerprint (qe_sha256 E) url user pass allow_private)
            (connect_qbit E url user pass allow_private) between cell w)"

definition qbit_configured :: "qbit_config \<Rightarrow> string option \<Rightarrow> bool" where
  "qbit_configured C qbit_url \<longleftrightarrow>
     resolve_qbit_inputs qbit_url (qc_url_override C) (qc_username C) (qc_password C) \<noteq> None"

section \<open>Sanitised numbers\<close>

lemma sanitize_domain:
  "\<exists>r. t_progress (sanitize t) = Num r \<and> 0 \<le> r \<and> r \<le> 1"
  "\<exists>r. t_ratio (sanitize t) = Num r \<and> 0 \<le> r \<and> r \<le> F32_MAX"
  "0 \<le> t_dlspeed (sanitize t) \<and> 0 \<le> t_upspeed (sanitize t) \<and> 0 \<le> t_size (sanitize t)
     \<and> 0 \<le> t_downloaded (sanitize t) \<and> 0 \<le> t_num_seeds (sanitize t)"
  by (auto simp: sanitize_def f64_clamp_def F32_MAX_def split: f64.splits)

lemma sanitize_idem: "sanitize (sanitize t) = sanitize t"
  using sanitize_domain [of t]
  by (auto simp: sanitize_def f64_clamp_def)

section \<open>The cached client\<close>

lemma fingerprint_input_inj:
  assumes "fingerprint_input url user pass a = fingerprint_input url' user pass a'"
  shows "url = url' \<and> a = a'"
proof (cases "a = a'")
  case False
  from arg_cong [OF assms, of rev] False show ?thesis
    by (cases a; cases a') (simp_all add: fingerprint_input_def bool_text_def)
qed (use assms in \<open>simp add: fingerprint_input_def\<close>)

lemma hex_encode_inj: "hex_encode a = hex_encode b \<Longrightarrow> a = b"
  by (metis hex_decode_encode option.inject run.inject(1))

text \<open>A client belongs to an endpoint when it was built for it and passed the checks.\<close>

definition built_for :: "url_ops \<Rightarrow> string \<Rightarrow> string \<Rightarrow> string \<Rightarrow> bool \<Rightarrow> qbit_client \<Rightarrow> bool" where
  "built_for U url user pass allow_private c \<longleftrightarrow>
     q_base_url c = trim_end_slashes url \<and> q_username c = user \<and> q_password c = pass
     \<and> q_allow_private c = allow_private
     \<and> assert_host_not_blocked U (trim_end_slashes url) allow_private True = Ok ()"

lemma new_built_for:
  "qbit_new U build url user pass allow pin = Ok c \<Longrightarrow> built_for U url user pass allow c"
  by (auto simp: qbit_new_def built_for_def Let_def split: sum.splits)

lemma connect_new:
  "connect_qbit E url user pass allow w = (Some c, w') \<Longrightarrow>
   \<exists>pin. qbit_new (qe_urls E) (qe_build E) url user pass allow pin = Ok c"
  by (auto simp: connect_qbit_def split: sum.splits prod.splits)

text \<open>The histories of the cell: clients built for some endpoint among \<open>urls\<close> are stored under the
  fingerprint of that endpoint, at any moment, and the cell is cleared at any moment.\<close>

inductive qbit_history :: "url_ops \<Rightarrow> (string \<Rightarrow> string) \<Rightarrow> qbit_config \<Rightarrow> string set \<Rightarrow> qbit_cell \<Rightarrow> bool"
  for U hash256 C urls where
  qh_empty: "qbit_history U hash256 C urls None"
| qh_invalidate: "qbit_history U hash256 C urls cell \<Longrightarrow> qbit_history U hash256 C urls (cache_invalidate cell)"
| qh_store: "qbit_history U hash256 C urls cell \<Longrightarrow> url \<in> urls \<Longrightarrow>
    qbit_new U build url (qc_username C) (qc_password C) allow pin = Ok c \<Longrightarrow>
    qbit_history U hash256 C urls
      (cache_store (qbit_fingerprint hash256 url (qc_username C) (qc_password C) allow) c cell)"

lemma qbit_history_cell:
  "qbit_history U hash256 C urls cell \<Longrightarrow> cell = Some (fp, c) \<Longrightarrow>
   \<exists>url allow. url \<in> urls \<and> fp = qbit_fingerprint hash256 url (qc_username C) (qc_password C) allow
     \<and> built_for U url (qc_username C) (qc_password C) allow c"
proof (induction rule: qbit_history.induct)
  case (qh_store cell url build allow pin c)
  then show ?case using new_built_for [OF qh_store.hyps(3)] by (auto simp: cache_store_def)
qed (simp_all add: cache_invalidate_def)

text \<open>
  The cached client always belongs to the current settings. For every history of the cache,
  whatever other tasks do to it meanwhile, the client that \<open>resolve_torrent\<close> hands out was built for
  exactly the endpoint, the credentials and the private-network policy now in force, and its host
  passed the check under that policy; changing the URL or withdrawing the permission never leaves
  the old client in use. Hypothesis: SHA-256 does not collide on the fingerprints of these endpoints.
\<close>

theorem cached_client_matches_settings:
  assumes "inj_on (qe_sha256 E) {fingerprint_input u (qc_username C) (qc_password C) a | u a. u \<in> urls}"
    and "qbit_history (qe_urls E) (qe_sha256 E) C urls cell"
    and "resolve_qbit_inputs qbit_url (qc_url_override C) (qc_username C) (qc_password C) = Some (url, user, pass)"
    and "url \<in> urls"
    and "resolve_torrent E C qbit_url allow between cell w = (Some c, cell', w')"
  shows "built_for (qe_urls E) url (qc_username C) (qc_password C) allow c
    \<and> qbit_history (qe_urls E) (qe_sha256 E) C urls cell'"
proof -
  let ?fp = "\<lambda>u a. qbit_fingerprint (qe_sha256 E) u (qc_username C) (qc_password C) a"
  have creds: "user = qc_username C" "pass = qc_password C"
    using assms(3) by (auto simp: resolve_qbit_inputs_def bind_eq_Some_conv split: if_splits)
  have run: "ensure (?fp url allow) (connect_qbit E url (qc_username C) (qc_password C) allow) between cell w = (Some c, cell', w')"
    using assms(3,5) by (simp add: resolve_torrent_def creds)
  show ?thesis
  proof (cases "\<exists>d. cell = Some (?fp url allow, d)")
    case True
    then have cell: "cell = Some (?fp url allow, c)" "cell' = cell" using run by (auto simp: ensure_def)
    from qbit_history_cell [OF assms(2) cell(1)] obtain u a where ua: "u \<in> urls" "?fp url allow = ?fp u a"
      "built_for (qe_urls E) u (qc_username C) (qc_password C) a c" by blast
    have "qe_sha256 E (fingerprint_input url (qc_username C) (qc_password C) allow)
        = qe_sha256 E (fingerprint_input u (qc_username C) (qc_password C) a)"
      using ua(2) hex_encode_inj unfolding qbit_fingerprint_def by blast
    then have "fingerprint_input url (qc_username C) (qc_password C) allow = fingerprint_input u (qc_username C) (qc_password C) a"
      by (rule inj_onD [OF assms(1)]) (use assms(4) ua(1) in blast)+
    with fingerprint_input_inj ua(3) assms(2) cell(2) show ?thesis by blast
  next
    case False
    then have "connect_qbit E url (qc_username C) (qc_password C) allow w = (Some c, w')" "cell' = Some (?fp url allow, c)"
      using run by (auto simp: ensure_def split: option.splits if_splits prod.splits)
    then show ?thesis
      using connect_new new_built_for qh_store [OF assms(2,4)] unfolding cache_store_def by metis
  qed
qed

definition toy_qbit :: "unit qbit_env" where
  "toy_qbit = \<lparr>qe_urls = toy_urls, qe_dns = (\<lambda>_ _. Ok [V4 93 184 215 14]), qe_build = (\<lambda>_. Ok ()),
     qe_send = (\<lambda>_ _ w. (Ok \<lparr>qr_status = 200, qr_body = Ok ''Ok.''\<rparr>, w)), qe_json = (\<lambda>_. Ok []),
     qe_sha256 = (\<lambda>s. s)\<rparr>"

definition toy_config :: qbit_config where
  "toy_config = \<lparr>qc_url_override = None, qc_username = ''u'', qc_password = ''p''\<rparr>"

theorem cached_client_matches_settings_witness:
  "built_for toy_urls ''x'' ''u'' ''p'' False
     (the (fst (resolve_torrent toy_qbit toy_config (Some ''x'') False (\<lambda>c. c) None ())))"
proof -
  have "printable ''x''" by (simp add: printable_def ascii_def)
  then have inputs: "resolve_qbit_inputs (Some ''x'') (qc_url_override toy_config) (qc_username toy_config)
      (qc_password toy_config) = Some (''x'', ''u'', ''p'')"
    by (simp add: resolve_qbit_inputs_def toy_config_def)
  have run: "resolve_torrent toy_qbit toy_config (Some ''x'') False (\<lambda>c. c) None ()
    = (Some (the (fst (resolve_torrent toy_qbit toy_config (Some ''x'') False (\<lambda>c. c) None ()))),
       fst (snd (resolve_torrent toy_qbit toy_config (Some ''x'') False (\<lambda>c. c) None ())), ())"
    using inputs
    by (simp add: resolve_torrent_def ensure_def connect_qbit_def toy_qbit_def qbit_new_def
        trim_end_slashes_def auth_def is_success_def toy_eval toy_names Let_def)
  have inj: "inj_on (qe_sha256 toy_qbit)
      {fingerprint_input u (qc_username toy_config) (qc_password toy_config) a | u a. u \<in> {''x''}}"
    by (simp add: toy_qbit_def inj_on_def)
  have "built_for (qe_urls toy_qbit) ''x'' (qc_username toy_config) (qc_password toy_config) False
     (the (fst (resolve_torrent toy_qbit toy_config (Some ''x'') False (\<lambda>c. c) None ())))"
    using cached_client_matches_settings [OF inj qh_empty inputs _ run] by blast
  then show ?thesis by (simp add: toy_qbit_def toy_config_def)
qed

end
