(* ===== verification/Settings.thy ===== *)
theory Settings
  imports Json
begin

text \<open>
  The settings table (\<open>src/settings/defs.rs\<close>), the process configuration that feeds it
  (\<open>src/config.rs\<close>) and the typed snapshots read from it (\<open>src/settings/snapshots.rs\<close>).

  A \<open>HashMap\<close> of settings is a map from keys to JSON values; where the code iterates over one, the
  order is that of a list with distinct keys.
\<close>

section \<open>Definitions of the settings\<close>

definition EMBED_DEFAULT_MODEL :: string where "EMBED_DEFAULT_MODEL = ''nomic-embed-text''"
definition EMBED_DEFAULT_DIMENSION :: nat where "EMBED_DEFAULT_DIMENSION = 768"
definition EMBED_DEFAULT_HNSW_THRESHOLD :: int where "EMBED_DEFAULT_HNSW_THRESHOLD = 1000000"
definition DEFAULT_MAX_BYTES :: int where "DEFAULT_MAX_BYTES = 512 * 1024 * 1024 * 1024"
definition ACCESS_MODE_OPEN :: string where "ACCESS_MODE_OPEN = ''open''"

datatype json_type = StrType | IntType | NumType | BoolType

record url_policy =
  up_private_network_flag :: "string option"
  up_allow_loopback :: bool

record setting_policy =
  sp_security_sensitive :: bool
  sp_env_locked :: bool
  sp_secret :: bool
  sp_topology :: bool
  sp_api_immutable :: bool
  sp_config_only :: bool
  sp_url :: "url_policy option"

definition default_policy :: setting_policy where
  "default_policy =
     \<lparr>sp_security_sensitive = False, sp_env_locked = False, sp_secret = False, sp_topology = False,
      sp_api_immutable = False, sp_config_only = False, sp_url = None\<rparr>"

record setting_def =
  sd_key :: string
  sd_default :: json
  sd_json_type :: json_type
  sd_int_range :: "(int \<times> int) option"
  sd_policy :: setting_policy

definition KEY_GENERAL_ZIM_DIR :: string where "KEY_GENERAL_ZIM_DIR = ''general.zim_dir''"
definition KEY_GENERAL_HOST :: string where "KEY_GENERAL_HOST = ''general.host''"
definition KEY_GENERAL_PORT :: string where "KEY_GENERAL_PORT = ''general.port''"
definition KEY_GENERAL_LOG_LEVEL :: string where "KEY_GENERAL_LOG_LEVEL = ''general.log_level''"
definition KEY_GENERAL_CORS_ORIGINS :: string where "KEY_GENERAL_CORS_ORIGINS = ''general.cors_origins''"
definition KEY_GENERAL_TRUSTED_PROXY_CIDRS :: string where "KEY_GENERAL_TRUSTED_PROXY_CIDRS = ''general.trusted_proxy_cidrs''"
definition KEY_SEARCH_FTS_WEIGHT :: string where "KEY_SEARCH_FTS_WEIGHT = ''search.fts_weight''"
definition KEY_SEARCH_TRGM_WEIGHT :: string where "KEY_SEARCH_TRGM_WEIGHT = ''search.trgm_weight''"
definition KEY_SEARCH_VECTOR_WEIGHT :: string where "KEY_SEARCH_VECTOR_WEIGHT = ''search.vector_weight''"
definition KEY_SEARCH_TRGM_THRESHOLD :: string where "KEY_SEARCH_TRGM_THRESHOLD = ''search.trgm_threshold''"
definition KEY_SEARCH_DEFAULT_LIMIT :: string where "KEY_SEARCH_DEFAULT_LIMIT = ''search.default_limit''"
definition KEY_SEARCH_MAX_LIMIT :: string where "KEY_SEARCH_MAX_LIMIT = ''search.max_limit''"
definition KEY_DOWNLOADS_MAX_BYTES :: string where "KEY_DOWNLOADS_MAX_BYTES = ''downloads.max_bytes''"
definition KEY_DOWNLOADS_ALLOW_PRIVATE_NETWORKS :: string where "KEY_DOWNLOADS_ALLOW_PRIVATE_NETWORKS = ''downloads.allow_private_networks''"
definition KEY_TORRENT_ENABLED :: string where "KEY_TORRENT_ENABLED = ''torrent.enabled''"
definition KEY_TORRENT_URL :: string where "KEY_TORRENT_URL = ''torrent.url''"
definition KEY_TORRENT_USERNAME :: string where "KEY_TORRENT_USERNAME = ''torrent.username''"
definition KEY_TORRENT_PASSWORD :: string where "KEY_TORRENT_PASSWORD = ''torrent.password''"
definition KEY_TORRENT_ALLOW_PRIVATE_NETWORKS :: string where "KEY_TORRENT_ALLOW_PRIVATE_NETWORKS = ''torrent.allow_private_networks''"
definition KEY_TORRENT_SAVE_PATH :: string where "KEY_TORRENT_SAVE_PATH = ''torrent.save_path''"
definition KEY_TORRENT_CATEGORY :: string where "KEY_TORRENT_CATEGORY = ''torrent.category''"
definition KEY_TORRENT_MAX_ACTIVE :: string where "KEY_TORRENT_MAX_ACTIVE = ''torrent.max_active''"
definition KEY_TORRENT_POLL_SECS :: string where "KEY_TORRENT_POLL_SECS = ''torrent.poll_secs''"
definition KEY_TORRENT_FILE_STRATEGY :: string where "KEY_TORRENT_FILE_STRATEGY = ''torrent.file_strategy''"
definition KEY_TORRENT_SEED_RATIO :: string where "KEY_TORRENT_SEED_RATIO = ''torrent.seed_ratio''"
definition KEY_TORRENT_KEEP_COMPLETED :: string where "KEY_TORRENT_KEEP_COMPLETED = ''torrent.keep_completed''"
definition KEY_TORRENT_OPDS_URL :: string where "KEY_TORRENT_OPDS_URL = ''torrent.opds_url''"
definition KEY_TORRENT_AUTO_UPDATE :: string where "KEY_TORRENT_AUTO_UPDATE = ''torrent.auto_update''"
definition KEY_EMBEDDING_ENABLED :: string where "KEY_EMBEDDING_ENABLED = ''embedding.enabled''"
definition KEY_EMBEDDING_ENDPOINT :: string where "KEY_EMBEDDING_ENDPOINT = ''embedding.endpoint''"
definition KEY_EMBEDDING_API_KEY :: string where "KEY_EMBEDDING_API_KEY = ''embedding.api_key''"
definition KEY_EMBEDDING_MODEL :: string where "KEY_EMBEDDING_MODEL = ''embedding.model''"
definition KEY_EMBEDDING_DIMENSION :: string where "KEY_EMBEDDING_DIMENSION = ''embedding.dimension''"
definition KEY_EMBEDDING_BATCH_SIZE :: string where "KEY_EMBEDDING_BATCH_SIZE = ''embedding.batch_size''"
definition KEY_EMBEDDING_MAX_CONCURRENCY :: string where "KEY_EMBEDDING_MAX_CONCURRENCY = ''embedding.max_concurrency''"
definition KEY_EMBEDDING_TIMEOUT_SECS :: string where "KEY_EMBEDDING_TIMEOUT_SECS = ''embedding.timeout_secs''"
definition KEY_EMBEDDING_HNSW_THRESHOLD :: string where "KEY_EMBEDDING_HNSW_THRESHOLD = ''embedding.hnsw_threshold''"
definition KEY_ACCESS_MODE :: string where "KEY_ACCESS_MODE = ''access.mode''"
definition KEY_ACCESS_RATE_LIMIT_RPS :: string where "KEY_ACCESS_RATE_LIMIT_RPS = ''access.rate_limit_rps''"
definition KEY_ACCESS_RATE_LIMIT_BURST :: string where "KEY_ACCESS_RATE_LIMIT_BURST = ''access.rate_limit_burst''"
definition KEY_ACCESS_ADMIN_PASSWORD :: string where "KEY_ACCESS_ADMIN_PASSWORD = ''access.admin_password''"
definition KEY_ACCESS_READ_ONLY_TOKEN :: string where "KEY_ACCESS_READ_ONLY_TOKEN = ''access.read_only_token''"
definition KEY_ACCESS_REQUIRE_AUTH_FOR_READS :: string where "KEY_ACCESS_REQUIRE_AUTH_FOR_READS = ''access.require_auth_for_reads''"

definition SETTING_DEFS :: "setting_def list" where
  "SETTING_DEFS =
    [setting_def.make KEY_GENERAL_ZIM_DIR (JStr ''/zims'') StrType None
       (default_policy\<lparr>sp_env_locked := True, sp_topology := True, sp_config_only := True\<rparr>),
     setting_def.make KEY_GENERAL_HOST (JStr ''127.0.0.1'') StrType None
       (default_policy\<lparr>sp_env_locked := True, sp_config_only := True\<rparr>),
     setting_def.make KEY_GENERAL_PORT (JInt 8899) IntType None
       (default_policy\<lparr>sp_env_locked := True, sp_config_only := True\<rparr>),
     setting_def.make KEY_GENERAL_LOG_LEVEL (JStr ''info'') StrType None
       (default_policy\<lparr>sp_config_only := True\<rparr>),
     setting_def.make KEY_GENERAL_CORS_ORIGINS (JStr []) StrType None
       (default_policy\<lparr>sp_config_only := True\<rparr>),
     setting_def.make KEY_SEARCH_FTS_WEIGHT (JFloat (3 / 5)) NumType None default_policy,
     setting_def.make KEY_SEARCH_TRGM_WEIGHT (JFloat (2 / 5)) NumType None default_policy,
     setting_def.make KEY_SEARCH_VECTOR_WEIGHT (JFloat (1 / 2)) NumType None default_policy,
     setting_def.make KEY_SEARCH_TRGM_THRESHOLD (JFloat (3 / 10)) NumType None default_policy,
     setting_def.make KEY_SEARCH_DEFAULT_LIMIT (JInt 10) IntType None default_policy,
     setting_def.make KEY_SEARCH_MAX_LIMIT (JInt 50) IntType None default_policy,
     setting_def.make KEY_DOWNLOADS_MAX_BYTES (JInt DEFAULT_MAX_BYTES) IntType None
       (default_policy\<lparr>sp_security_sensitive := True\<rparr>),
     setting_def.make KEY_DOWNLOADS_ALLOW_PRIVATE_NETWORKS (JBool False) BoolType None
       (default_policy\<lparr>sp_security_sensitive := True\<rparr>),
     setting_def.make KEY_TORRENT_ENABLED (JBool False) BoolType None default_policy,
     setting_def.make KEY_TORRENT_URL (JStr []) StrType None
       (default_policy\<lparr>sp_security_sensitive := True, sp_env_locked := True, sp_topology := True, sp_url := Some (url_policy.make (Some KEY_TORRENT_ALLOW_PRIVATE_NETWORKS) True)\<rparr>),
     setting_def.make KEY_TORRENT_USERNAME (JStr []) StrType None
       (default_policy\<lparr>sp_security_sensitive := True, sp_env_locked := True, sp_topology := True\<rparr>),
     setting_def.make KEY_TORRENT_PASSWORD (JStr []) StrType None
       (default_policy\<lparr>sp_security_sensitive := True, sp_env_locked := True, sp_secret := True\<rparr>),
     setting_def.make KEY_TORRENT_ALLOW_PRIVATE_NETWORKS (JBool False) BoolType None
       (default_policy\<lparr>sp_security_sensitive := True\<rparr>),
     setting_def.make KEY_TORRENT_SAVE_PATH (JStr ''/downloads'') StrType None
       (default_policy\<lparr>sp_security_sensitive := True\<rparr>),
     setting_def.make KEY_TORRENT_CATEGORY (JStr ''zimservice'') StrType None default_policy,
     setting_def.make KEY_TORRENT_MAX_ACTIVE (JInt 4) IntType None default_policy,
     setting_def.make KEY_TORRENT_POLL_SECS (JInt 5) IntType None default_policy,
     setting_def.make KEY_TORRENT_FILE_STRATEGY (JStr ''hardlink'') StrType None default_policy,
     setting_def.make KEY_TORRENT_SEED_RATIO (JFloat 2) NumType None default_policy,
     setting_def.make KEY_TORRENT_KEEP_COMPLETED (JBool True) BoolType None default_policy,
     setting_def.make KEY_TORRENT_OPDS_URL (JStr ''https://opds.kiwix.com/opds_catalog'') StrType None
       (default_policy\<lparr>sp_security_sensitive := True, sp_url := Some (url_policy.make (Some KEY_DOWNLOADS_ALLOW_PRIVATE_NETWORKS) True)\<rparr>),
     setting_def.make KEY_TORRENT_AUTO_UPDATE (JBool False) BoolType None
       (default_policy\<lparr>sp_security_sensitive := True\<rparr>),
     setting_def.make KEY_EMBEDDING_ENABLED (JBool False) BoolType None
       (default_policy\<lparr>sp_security_sensitive := True\<rparr>),
     setting_def.make KEY_EMBEDDING_ENDPOINT (JStr ''http://localhost:11434/v1'') StrType None
       (default_policy\<lparr>sp_security_sensitive := True, sp_env_locked := True, sp_topology := True, sp_url := Some (url_policy.make (None) True)\<rparr>),
     setting_def.make KEY_EMBEDDING_API_KEY (JStr []) StrType None
       (default_policy\<lparr>sp_security_sensitive := True, sp_env_locked := True, sp_secret := True\<rparr>),
     setting_def.make KEY_EMBEDDING_MODEL (JStr EMBED_DEFAULT_MODEL) StrType None
       (default_policy\<lparr>sp_security_sensitive := True, sp_env_locked := True\<rparr>),
     setting_def.make KEY_EMBEDDING_DIMENSION (JInt (int EMBED_DEFAULT_DIMENSION)) IntType (Some (1, 16000))
       (default_policy\<lparr>sp_security_sensitive := True, sp_env_locked := True\<rparr>),
     setting_def.make KEY_EMBEDDING_BATCH_SIZE (JInt 64) IntType (Some (1, 10000))
       (default_policy\<lparr>sp_security_sensitive := True\<rparr>),
     setting_def.make KEY_EMBEDDING_MAX_CONCURRENCY (JInt 4) IntType (Some (1, 10000)) default_policy,
     setting_def.make KEY_EMBEDDING_TIMEOUT_SECS (JInt 60) IntType (Some (1, 3600))
       (default_policy\<lparr>sp_security_sensitive := True\<rparr>),
     setting_def.make KEY_EMBEDDING_HNSW_THRESHOLD (JInt EMBED_DEFAULT_HNSW_THRESHOLD) IntType None default_policy,
     setting_def.make KEY_ACCESS_MODE (JStr ACCESS_MODE_OPEN) StrType None
       (default_policy\<lparr>sp_env_locked := True, sp_api_immutable := True\<rparr>),
     setting_def.make KEY_ACCESS_RATE_LIMIT_RPS (JInt 100) IntType None
       (default_policy\<lparr>sp_security_sensitive := True\<rparr>),
     setting_def.make KEY_ACCESS_RATE_LIMIT_BURST (JInt 200) IntType None
       (default_policy\<lparr>sp_security_sensitive := True\<rparr>),
     setting_def.make KEY_ACCESS_ADMIN_PASSWORD (JStr []) StrType None
       (default_policy\<lparr>sp_env_locked := True, sp_secret := True, sp_api_immutable := True\<rparr>),
     setting_def.make KEY_ACCESS_READ_ONLY_TOKEN (JStr []) StrType None
       (default_policy\<lparr>sp_env_locked := True, sp_secret := True, sp_api_immutable := True\<rparr>),
     setting_def.make KEY_ACCESS_REQUIRE_AUTH_FOR_READS (JBool False) BoolType None
       (default_policy\<lparr>sp_env_locked := True\<rparr>),
     setting_def.make KEY_GENERAL_TRUSTED_PROXY_CIDRS (JStr []) StrType None
       (default_policy\<lparr>sp_config_only := True\<rparr>)]"

lemmas key_defs =
  KEY_GENERAL_ZIM_DIR_def KEY_GENERAL_HOST_def KEY_GENERAL_PORT_def KEY_GENERAL_LOG_LEVEL_def
  KEY_GENERAL_CORS_ORIGINS_def KEY_GENERAL_TRUSTED_PROXY_CIDRS_def KEY_SEARCH_FTS_WEIGHT_def
  KEY_SEARCH_TRGM_WEIGHT_def KEY_SEARCH_VECTOR_WEIGHT_def KEY_SEARCH_TRGM_THRESHOLD_def
  KEY_SEARCH_DEFAULT_LIMIT_def KEY_SEARCH_MAX_LIMIT_def KEY_DOWNLOADS_MAX_BYTES_def
  KEY_DOWNLOADS_ALLOW_PRIVATE_NETWORKS_def KEY_TORRENT_ENABLED_def KEY_TORRENT_URL_def
  KEY_TORRENT_USERNAME_def KEY_TORRENT_PASSWORD_def KEY_TORRENT_ALLOW_PRIVATE_NETWORKS_def
  KEY_TORRENT_SAVE_PATH_def KEY_TORRENT_CATEGORY_def KEY_TORRENT_MAX_ACTIVE_def KEY_TORRENT_POLL_SECS_def
  KEY_TORRENT_FILE_STRATEGY_def KEY_TORRENT_SEED_RATIO_def KEY_TORRENT_KEEP_COMPLETED_def
  KEY_TORRENT_OPDS_URL_def KEY_TORRENT_AUTO_UPDATE_def KEY_EMBEDDING_ENABLED_def KEY_EMBEDDING_ENDPOINT_def
  KEY_EMBEDDING_API_KEY_def KEY_EMBEDDING_MODEL_def KEY_EMBEDDING_DIMENSION_def
  KEY_EMBEDDING_BATCH_SIZE_def KEY_EMBEDDING_MAX_CONCURRENCY_def KEY_EMBEDDING_TIMEOUT_SECS_def
  KEY_EMBEDDING_HNSW_THRESHOLD_def KEY_ACCESS_MODE_def KEY_ACCESS_RATE_LIMIT_RPS_def
  KEY_ACCESS_RATE_LIMIT_BURST_def KEY_ACCESS_ADMIN_PASSWORD_def KEY_ACCESS_READ_ONLY_TOKEN_def
  KEY_ACCESS_REQUIRE_AUTH_FOR_READS_def

lemmas default_defs = EMBED_DEFAULT_MODEL_def EMBED_DEFAULT_DIMENSION_def EMBED_DEFAULT_HNSW_THRESHOLD_def
  DEFAULT_MAX_BYTES_def ACCESS_MODE_OPEN_def default_policy_def setting_def.make_def url_policy.make_def

definition def :: "string \<Rightarrow> setting_def option" where
  "def key = find (\<lambda>d. sd_key d = key) SETTING_DEFS"

definition require_reads_startup_default :: "string \<Rightarrow> bool" where
  "require_reads_startup_default host \<longleftrightarrow> host \<notin> {''127.0.0.1'', ''localhost'', ''::1''}"

definition known_keys :: "string set" where
  "known_keys = set (map sd_key SETTING_DEFS)"

definition policy :: "(setting_policy \<Rightarrow> bool) \<Rightarrow> string \<Rightarrow> bool" where
  "policy f key = (case def key of Some d \<Rightarrow> f (sd_policy d) | None \<Rightarrow> False)"

definition is_security_sensitive :: "string \<Rightarrow> bool" where
  "is_security_sensitive key = policy sp_security_sensitive key"

definition default_settings :: "string \<Rightarrow> json option" where
  "default_settings = map_of (map (\<lambda>d. (sd_key d, sd_default d)) SETTING_DEFS)"

definition is_secret_key :: "string \<Rightarrow> bool" where
  "is_secret_key key = policy sp_secret key"

definition nonempty_str :: "json \<Rightarrow> bool" where
  "nonempty_str v = (case json_str v of Some s \<Rightarrow> s \<noteq> [] | None \<Rightarrow> False)"

definition redact :: "string \<Rightarrow> json \<Rightarrow> json" where
  "redact key value = (if is_secret_key key \<and> nonempty_str value then JStr ''***'' else value)"

definition trim_end_char :: "char \<Rightarrow> string \<Rightarrow> string" where
  "trim_end_char c s = rev (dropWhile (\<lambda>x. x = c) (rev s))"

text \<open>\<open>v.get(i..)\<close> is \<open>None\<close> inside a multi-byte character.\<close>

definition normalize_embedding_endpoint :: "string \<Rightarrow> string" where
  "normalize_embedding_endpoint value =
     (let suffix = ''/embeddings'';
          v = trim_end_char CHR ''/'' value;
          i = length v - length suffix;
          tail = drop i v;
          stripped = (if (tail = [] \<or> \<not> is_continuation (hd tail)) \<and> eq_ignore_ascii_case tail suffix
                      then take (length v - length suffix) v else v)
      in trim_end_char CHR ''/'' stripped)"

definition value_type_name :: "json \<Rightarrow> string" where
  "value_type_name v =
     (case v of JNull \<Rightarrow> ''null'' | JBool _ \<Rightarrow> ''a boolean'' | JInt _ \<Rightarrow> ''a number'' | JFloat _ \<Rightarrow> ''a number''
      | JStr _ \<Rightarrow> ''a string'' | JArr _ \<Rightarrow> ''an array'' | JObj _ \<Rightarrow> ''an object'')"

definition type_name :: "json_type \<Rightarrow> string" where
  "type_name t =
     (case t of StrType \<Rightarrow> ''a string'' | IntType \<Rightarrow> ''an integer'' | NumType \<Rightarrow> ''a number'' | BoolType \<Rightarrow> ''a boolean'')"

definition has_type :: "json_type \<Rightarrow> json \<Rightarrow> bool" where
  "has_type t v =
     (case t of
        StrType \<Rightarrow> json_str v \<noteq> None
      | IntType \<Rightarrow> as_i64 v \<noteq> None \<or> as_u64 v \<noteq> None
      | NumType \<Rightarrow> is_number v
      | BoolType \<Rightarrow> json_bool v \<noteq> None)"

definition decimal_int :: "int \<Rightarrow> string" where
  "decimal_int n = (if n < 0 then CHR ''-'' # decimal_digits (nat (- n)) else decimal_digits (nat n))"

text \<open>The dash of the message is the three bytes of an em dash.\<close>

definition type_mismatch :: "string \<Rightarrow> json \<Rightarrow> string option" where
  "type_mismatch key v =
     (case def key of
        None \<Rightarrow> None
      | Some d \<Rightarrow>
          if \<not> has_type (sd_json_type d) v
          then Some (key @ '': expected '' @ type_name (sd_json_type d) @ '', got '' @ value_type_name v)
          else (case sd_int_range d of
                  None \<Rightarrow> None
                | Some (lo, hi) \<Rightarrow>
                    if (case as_i64 v of Some n \<Rightarrow> lo \<le> n \<and> n \<le> hi | None \<Rightarrow> False) then None
                    else Some (key @ '': out of range '' @ bytes_str [0xE2, 0x80, 0x94] @ '' must be in ''
                               @ decimal_int lo @ ''..='' @ decimal_int hi)))"

definition parse_snapshot_value :: "string \<Rightarrow> string \<Rightarrow> json option" where
  "parse_snapshot_value key raw =
     (case def key of
        None \<Rightarrow> None
      | Some d \<Rightarrow>
          (case sd_json_type d of
             StrType \<Rightarrow> Some (JStr raw)
           | BoolType \<Rightarrow>
               if eq_ignore_ascii_case raw ''true'' then Some (JBool True)
               else if eq_ignore_ascii_case raw ''false'' then Some (JBool False) else None
           | IntType \<Rightarrow> map_option JInt (parse_i64 raw)
           | NumType \<Rightarrow> map_option json_of_f64 (parse_f64 raw)))"

definition apply_env_entry :: "string \<times> string \<Rightarrow> (string \<Rightarrow> json option) \<Rightarrow> string \<Rightarrow> json option" where
  "apply_env_entry kv m =
     (case kv of (key, raw) \<Rightarrow>
        if raw = [] then m
        else (case parse_snapshot_value key raw of Some v \<Rightarrow> m(key \<mapsto> v) | None \<Rightarrow> m))"

definition apply_env_snapshot :: "(string \<times> string) list \<Rightarrow> (string \<Rightarrow> json option) \<Rightarrow> string \<Rightarrow> json option" where
  "apply_env_snapshot snapshot m = fold apply_env_entry snapshot m"

definition default_value :: "string \<Rightarrow> json" where
  "default_value key = (case default_settings key of Some v \<Rightarrow> v | None \<Rightarrow> JNull)"

section \<open>Process configuration\<close>

record config =
  c_zim_dir :: string
  c_database_url :: string
  c_read_database_url :: "string option"
  c_db_pool_size :: nat
  c_host :: string
  c_port :: nat
  c_log_level :: string
  c_torrent_url :: "string option"
  c_torrent_user :: string
  c_torrent_pass :: string
  c_allow_multi_db :: bool
  c_mcp_auth_password :: "string option"
  c_security_key :: "string option"

definition default_config :: config where
  "default_config =
     \<lparr>c_zim_dir = ''/zims'', c_database_url = ''postgres://localhost:5432/zimservice'', c_read_database_url = None,
      c_db_pool_size = 20, c_host = ''127.0.0.1'', c_port = 8899, c_log_level = ''info'', c_torrent_url = None,
      c_torrent_user = [], c_torrent_pass = [], c_allow_multi_db = False, c_mcp_auth_password = None,
      c_security_key = None\<rparr>"

definition ENV_SETTING_KEYS :: "(string \<times> string \<times> bool) list" where
  "ENV_SETTING_KEYS =
    [(KEY_GENERAL_ZIM_DIR, ''ZIM_DIR'', False),
     (KEY_GENERAL_PORT, ''PORT'', False),
     (KEY_GENERAL_HOST, ''HOST'', False),
     (KEY_GENERAL_TRUSTED_PROXY_CIDRS, ''TRUSTED_PROXY_CIDRS'', True),
     (KEY_GENERAL_CORS_ORIGINS, ''CORS_ORIGINS'', True),
     (''database.url'', ''DATABASE_URL'', False),
     (KEY_TORRENT_URL, ''QBITTORRENT_URL'', False),
     (KEY_TORRENT_USERNAME, ''QBITTORRENT_USER'', False),
     (KEY_TORRENT_PASSWORD, ''QBITTORRENT_PASS'', False),
     (KEY_EMBEDDING_ENDPOINT, ''EMBEDDING_ENDPOINT'', True),
     (KEY_EMBEDDING_API_KEY, ''EMBEDDING_API_KEY'', True),
     (KEY_EMBEDDING_MODEL, ''EMBEDDING_MODEL'', True),
     (KEY_EMBEDDING_DIMENSION, ''EMBEDDING_DIM'', True),
     (KEY_ACCESS_MODE, ''ACCESS_MODE'', True),
     (KEY_ACCESS_ADMIN_PASSWORD, ''AUTH_PASSWORD'', True),
     (KEY_ACCESS_READ_ONLY_TOKEN, ''READ_ONLY_TOKEN'', True),
     (KEY_ACCESS_REQUIRE_AUTH_FOR_READS, ''REQUIRE_AUTH_FOR_READS'', True)]"

text \<open>
  The messages of the integer parser are not reproduced. The fields set before a rejected number
  are lost with the error, since \<open>load\<close> drops the half-filled value.
\<close>

definition apply_env :: "(string \<Rightarrow> string option) \<Rightarrow> config \<Rightarrow> (config, string) result" where
  "apply_env get c =
     (let c = (case get ''ZIM_DIR'' of Some v \<Rightarrow> c\<lparr>c_zim_dir := v\<rparr> | None \<Rightarrow> c);
          c = (case get ''DATABASE_URL'' of Some v \<Rightarrow> c\<lparr>c_database_url := v\<rparr> | None \<Rightarrow> c);
          c = (case get ''DATABASE_URL_READ'' of Some v \<Rightarrow> c\<lparr>c_read_database_url := Some v\<rparr> | None \<Rightarrow> c)
      in case (case get ''DB_POOL_SIZE'' of
                 Some v \<Rightarrow> (case parse_unsigned 32 v of
                              Some n \<Rightarrow> Ok (c\<lparr>c_db_pool_size := n\<rparr>) | None \<Rightarrow> Err ''DB_POOL_SIZE'')
               | None \<Rightarrow> Ok c) of
           Inl e \<Rightarrow> Err e
         | Inr c \<Rightarrow>
      (case (case get ''PORT'' of
                 Some v \<Rightarrow> (case parse_unsigned 16 v of
                              Some n \<Rightarrow> Ok (c\<lparr>c_port := n\<rparr>) | None \<Rightarrow> Err ''PORT'')
               | None \<Rightarrow> Ok c) of
           Inl e \<Rightarrow> Err e
         | Inr c \<Rightarrow>
           let c = (case get ''HOST'' of Some v \<Rightarrow> c\<lparr>c_host := v\<rparr> | None \<Rightarrow> c);
               c = (case get ''LOG_LEVEL'' of Some v \<Rightarrow> c\<lparr>c_log_level := v\<rparr> | None \<Rightarrow> c);
               c = (case get ''QBITTORRENT_URL'' of Some v \<Rightarrow> c\<lparr>c_torrent_url := Some v\<rparr> | None \<Rightarrow> c);
               c = (case get ''QBITTORRENT_USER'' of Some v \<Rightarrow> c\<lparr>c_torrent_user := v\<rparr> | None \<Rightarrow> c);
               c = (case get ''QBITTORRENT_PASS'' of Some v \<Rightarrow> c\<lparr>c_torrent_pass := v\<rparr> | None \<Rightarrow> c);
               c = c\<lparr>c_allow_multi_db := get ''ZIMSERVICE_ALLOW_MULTI_DB'' = Some ''1''\<rparr>;
               c = (case get ''MCP_AUTH_PASSWORD'' of Some v \<Rightarrow> c\<lparr>c_mcp_auth_password := Some v\<rparr> | None \<Rightarrow> c)
           in Ok (case get ''SECURITY_KEY'' of
                    Some v \<Rightarrow> if v \<noteq> [] then c\<lparr>c_security_key := Some v\<rparr> else c
                  | None \<Rightarrow> c)))"

definition load_config :: "(string \<Rightarrow> string option) \<Rightarrow> (config, string) result" where
  "load_config get = apply_env get default_config"

definition locked_env_settings :: "(string \<Rightarrow> string option) \<Rightarrow> string \<Rightarrow> string option" where
  "locked_env_settings get =
     fold (\<lambda>(key, var, in_snapshot) locked.
       if (case get var of Some v \<Rightarrow> v \<noteq> [] | None \<Rightarrow> False) then locked(key \<mapsto> var) else locked)
       ENV_SETTING_KEYS Map.empty"

definition env_settings_snapshot :: "(string \<Rightarrow> string option) \<Rightarrow> (string \<times> string) list" where
  "env_settings_snapshot get =
     concat (map (\<lambda>(key, var, in_snapshot).
       if in_snapshot
       then (case get var of Some v \<Rightarrow> if v \<noteq> [] then [(key, v)] else [] | None \<Rightarrow> [])
       else []) ENV_SETTING_KEYS)"

definition apply_require_reads_default :: "config \<Rightarrow> (string \<times> string) list \<Rightarrow> (string \<times> string) list" where
  "apply_require_reads_default c snapshot =
     (if KEY_ACCESS_REQUIRE_AUTH_FOR_READS \<notin> set (map fst snapshot) \<and> require_reads_startup_default (c_host c)
      then snapshot @ [(KEY_ACCESS_REQUIRE_AUTH_FOR_READS, ''true'')] else snapshot)"

definition sync_config_values :: "config \<Rightarrow> (string \<Rightarrow> json option) \<Rightarrow> string \<Rightarrow> json option" where
  "sync_config_values c m =
     m(KEY_GENERAL_ZIM_DIR \<mapsto> JStr (c_zim_dir c),
       KEY_GENERAL_HOST \<mapsto> JStr (c_host c),
       KEY_GENERAL_PORT \<mapsto> JInt (int (c_port c)),
       KEY_GENERAL_LOG_LEVEL \<mapsto> JStr (c_log_level c))"

section \<open>Typed snapshots\<close>

definition TRGM_THRESHOLD_FLOOR :: f64 where "TRGM_THRESHOLD_FLOOR = Num (3 / 10)"

definition floor_trgm_threshold :: "f64 \<Rightarrow> f64" where
  "floor_trgm_threshold v = f64_max v TRGM_THRESHOLD_FLOOR"

record search_params_snapshot =
  sps_generation :: nat
  sps_default_limit :: nat
  sps_max_limit :: nat
  sps_fts_weight :: f64
  sps_trgm_weight :: f64
  sps_vector_weight :: f64
  sps_trgm_threshold :: f64
  sps_embedding_enabled :: bool
  sps_embed_endpoint :: string
  sps_embed_api_key :: string
  sps_embed_model :: string
  sps_embed_dimension :: nat
  sps_embed_batch_size :: nat

definition clamp_weight :: "f64 option \<Rightarrow> f64 \<Rightarrow> f64" where
  "clamp_weight v dflt =
     (case v of Some x \<Rightarrow> if is_finite x then f64_clamp x 0 10 else dflt | None \<Rightarrow> dflt)"

definition read_setting :: "(json \<Rightarrow> 'a option) \<Rightarrow> (string \<Rightarrow> json option) \<Rightarrow> string \<Rightarrow> 'a option" where
  "read_setting from_value cache key = Option.bind (cache key) from_value"

definition from_cached_u32 :: "json \<Rightarrow> nat option" where
  "from_cached_u32 v = Option.bind (as_u64 v) (\<lambda>n. if n < 2 ^ 32 then Some n else None)"

definition from_cached_usize :: "json \<Rightarrow> nat option" where
  "from_cached_usize v = Option.bind (as_u64 v) (\<lambda>n. if n < 2 ^ 64 then Some n else None)"

definition read_fast ::
  "(json \<Rightarrow> 'a option) \<Rightarrow> (json \<Rightarrow> 'a option) \<Rightarrow> (string \<Rightarrow> json option) \<Rightarrow> string \<Rightarrow> 'a option" where
  "read_fast from_cached from_value cache key =
     (case cache key of
        Some v \<Rightarrow> (case from_cached v of Some x \<Rightarrow> Some x | None \<Rightarrow> read_setting from_value cache key)
      | None \<Rightarrow> None)"

definition seed_default :: "(json \<Rightarrow> 'a option) \<Rightarrow> string \<Rightarrow> 'a run" where
  "seed_default from_value key = unwrap_run (from_value (default_value key))"

definition read_fast_or_seed ::
  "(json \<Rightarrow> 'a option) \<Rightarrow> (json \<Rightarrow> 'a option) \<Rightarrow> (string \<Rightarrow> json option) \<Rightarrow> string \<Rightarrow> 'a run" where
  "read_fast_or_seed from_cached from_value cache key =
     (case read_fast from_cached from_value cache key of
        Some x \<Rightarrow> Done x | None \<Rightarrow> seed_default from_value key)"

abbreviation fast_f64 :: "(string \<Rightarrow> json option) \<Rightarrow> string \<Rightarrow> f64 option" where
  "fast_f64 \<equiv> read_fast as_f64 from_value_f64"

abbreviation fast_str :: "(string \<Rightarrow> json option) \<Rightarrow> string \<Rightarrow> string option" where
  "fast_str \<equiv> read_fast json_str from_value_str"

abbreviation usize_or_seed :: "(string \<Rightarrow> json option) \<Rightarrow> string \<Rightarrow> nat run" where
  "usize_or_seed \<equiv> read_fast_or_seed from_cached_usize (from_value_unsigned 64)"

abbreviation bool_or_seed :: "(string \<Rightarrow> json option) \<Rightarrow> string \<Rightarrow> bool run" where
  "bool_or_seed \<equiv> read_fast_or_seed json_bool from_value_bool"

definition search_params_snapshot :: "nat \<Rightarrow> (string \<Rightarrow> json option) \<Rightarrow> search_params_snapshot run" where
  "search_params_snapshot gen cache =
     run_bind (read_fast_or_seed as_f64 from_value_f64 cache KEY_SEARCH_TRGM_THRESHOLD) (\<lambda>threshold.
     run_bind (usize_or_seed cache KEY_SEARCH_DEFAULT_LIMIT) (\<lambda>default_limit.
     run_bind (usize_or_seed cache KEY_SEARCH_MAX_LIMIT) (\<lambda>max_limit.
     run_bind (seed_default from_value_f64 KEY_SEARCH_FTS_WEIGHT) (\<lambda>fts_seed.
     run_bind (seed_default from_value_f64 KEY_SEARCH_TRGM_WEIGHT) (\<lambda>trgm_seed.
     run_bind (seed_default from_value_f64 KEY_SEARCH_VECTOR_WEIGHT) (\<lambda>vector_seed.
     run_bind (bool_or_seed cache KEY_EMBEDDING_ENABLED) (\<lambda>enabled.
     run_bind (read_fast_or_seed json_str from_value_str cache KEY_EMBEDDING_ENDPOINT) (\<lambda>endpoint.
     run_bind (usize_or_seed cache KEY_EMBEDDING_BATCH_SIZE) (\<lambda>batch_size.
       Done \<lparr>sps_generation = gen, sps_default_limit = default_limit, sps_max_limit = max_limit,
             sps_fts_weight = clamp_weight (fast_f64 cache KEY_SEARCH_FTS_WEIGHT) fts_seed,
             sps_trgm_weight = clamp_weight (fast_f64 cache KEY_SEARCH_TRGM_WEIGHT) trgm_seed,
             sps_vector_weight = clamp_weight (fast_f64 cache KEY_SEARCH_VECTOR_WEIGHT) vector_seed,
             sps_trgm_threshold = floor_trgm_threshold threshold,
             sps_embedding_enabled = enabled, sps_embed_endpoint = endpoint,
             sps_embed_api_key = (case fast_str cache KEY_EMBEDDING_API_KEY of Some s \<Rightarrow> s | None \<Rightarrow> []),
             sps_embed_model = (case fast_str cache KEY_EMBEDDING_MODEL of Some s \<Rightarrow> s | None \<Rightarrow> EMBED_DEFAULT_MODEL),
             sps_embed_dimension =
               (case read_fast from_cached_u32 (from_value_unsigned 32) cache KEY_EMBEDDING_DIMENSION of
                  Some n \<Rightarrow> n | None \<Rightarrow> EMBED_DEFAULT_DIMENSION),
             sps_embed_batch_size = batch_size\<rparr>)))))))))"

record poller_params =
  pp_qbit_url :: "string option"
  pp_category :: string
  pp_save_path :: string
  pp_seed_ratio :: "f64 option"
  pp_file_strategy :: string
  pp_keep_completed :: bool
  pp_opds_auto_update :: bool
  pp_opds_url :: string
  pp_allow_private_networks :: bool
  pp_qbit_allow_private :: bool
  pp_max_bytes :: nat

definition str_v :: "(string \<Rightarrow> json option) \<Rightarrow> string \<Rightarrow> string" where
  "str_v cache k =
     (case fast_str cache k of
        Some s \<Rightarrow> s
      | None \<Rightarrow> (case from_value_str (default_value k) of Some s \<Rightarrow> s | None \<Rightarrow> []))"

definition poller_params_snapshot :: "(string \<Rightarrow> json option) \<Rightarrow> poller_params run" where
  "poller_params_snapshot cache =
     run_bind (bool_or_seed cache KEY_TORRENT_KEEP_COMPLETED) (\<lambda>keep.
     run_bind (bool_or_seed cache KEY_TORRENT_AUTO_UPDATE) (\<lambda>auto_update.
     run_bind (bool_or_seed cache KEY_DOWNLOADS_ALLOW_PRIVATE_NETWORKS) (\<lambda>allow_private.
     run_bind (bool_or_seed cache KEY_TORRENT_ALLOW_PRIVATE_NETWORKS) (\<lambda>qbit_private.
       Done \<lparr>pp_qbit_url = (let url = str_v cache KEY_TORRENT_URL in if url = [] then None else Some url),
             pp_category = str_v cache KEY_TORRENT_CATEGORY, pp_save_path = str_v cache KEY_TORRENT_SAVE_PATH,
             pp_seed_ratio = fast_f64 cache KEY_TORRENT_SEED_RATIO,
             pp_file_strategy = str_v cache KEY_TORRENT_FILE_STRATEGY,
             pp_keep_completed = keep, pp_opds_auto_update = auto_update,
             pp_opds_url = str_v cache KEY_TORRENT_OPDS_URL,
             pp_allow_private_networks = allow_private, pp_qbit_allow_private = qbit_private,
             pp_max_bytes =
               max 1 (case read_fast as_u64 (from_value_unsigned 64) cache KEY_DOWNLOADS_MAX_BYTES of
                        Some n \<Rightarrow> n
                      | None \<Rightarrow> (case from_value_unsigned 64 (default_value KEY_DOWNLOADS_MAX_BYTES) of
                                   Some n \<Rightarrow> n | None \<Rightarrow> nat DEFAULT_MAX_BYTES))\<rparr>))))"

definition torrent_poll_secs :: "(string \<Rightarrow> json option) \<Rightarrow> nat run" where
  "torrent_poll_secs cache =
     run_bind (case read_setting (from_value_unsigned 64) cache KEY_TORRENT_POLL_SECS of
                 Some n \<Rightarrow> Done n
               | None \<Rightarrow> unwrap_run (as_u64 (default_value KEY_TORRENT_POLL_SECS)))
       (\<lambda>n. Done (max 1 n))"

section \<open>The table\<close>

lemma distinct_setting_keys: "distinct (map sd_key SETTING_DEFS)"
  by (simp add: SETTING_DEFS_def default_defs key_defs)

lemma find_distinct_key:
  "distinct (map f xs) \<Longrightarrow> x \<in> set xs \<Longrightarrow> find (\<lambda>y. f y = f x) xs = Some x"
  by (induction xs) (auto simp: rev_image_eqI)

lemma def_iff: "def key = Some d \<longleftrightarrow> d \<in> set SETTING_DEFS \<and> sd_key d = key"
proof
  assume "def key = Some d"
  then show "d \<in> set SETTING_DEFS \<and> sd_key d = key" by (auto simp: def_def find_Some_iff)
next
  assume "d \<in> set SETTING_DEFS \<and> sd_key d = key"
  then show "def key = Some d" using find_distinct_key [OF distinct_setting_keys] by (auto simp: def_def)
qed

lemma known_keys_iff: "key \<in> known_keys \<longleftrightarrow> (\<exists>d. def key = Some d)"
  by (auto simp: known_keys_def def_iff)

lemma default_settings_iff: "default_settings key = Some v \<longleftrightarrow> (\<exists>d. def key = Some d \<and> sd_default d = v)"
proof -
  have "distinct (map fst (map (\<lambda>d. (sd_key d, sd_default d)) SETTING_DEFS))"
    using distinct_setting_keys by (simp add: comp_def)
  from map_of_eq_Some_iff [OF this] show ?thesis unfolding default_settings_def by (auto simp: def_iff)
qed

lemma default_value_def': "default_value key = (case def key of Some d \<Rightarrow> sd_default d | None \<Rightarrow> JNull)"
proof (cases "def key")
  case None
  then have "default_settings key = None" using default_settings_iff [of key] by (cases "default_settings key") auto
  then show ?thesis using None by (simp add: default_value_def)
next
  case (Some d)
  then have "default_settings key = Some (sd_default d)" using default_settings_iff [of key "sd_default d"] by auto
  then show ?thesis using Some by (simp add: default_value_def)
qed

text \<open>The rows of the table that the proofs look at.\<close>

lemma default_values [simp]:
  "default_value KEY_SEARCH_TRGM_THRESHOLD = JFloat (3 / 10)"
  "default_value KEY_SEARCH_DEFAULT_LIMIT = JInt 10"
  "default_value KEY_SEARCH_MAX_LIMIT = JInt 50"
  "default_value KEY_SEARCH_FTS_WEIGHT = JFloat (3 / 5)"
  "default_value KEY_SEARCH_TRGM_WEIGHT = JFloat (2 / 5)"
  "default_value KEY_SEARCH_VECTOR_WEIGHT = JFloat (1 / 2)"
  "default_value KEY_EMBEDDING_ENABLED = JBool False"
  "default_value KEY_EMBEDDING_ENDPOINT = JStr ''http://localhost:11434/v1''"
  "default_value KEY_EMBEDDING_BATCH_SIZE = JInt 64"
  "default_value KEY_TORRENT_KEEP_COMPLETED = JBool True"
  "default_value KEY_TORRENT_AUTO_UPDATE = JBool False"
  "default_value KEY_DOWNLOADS_ALLOW_PRIVATE_NETWORKS = JBool False"
  "default_value KEY_TORRENT_ALLOW_PRIVATE_NETWORKS = JBool False"
  "default_value KEY_TORRENT_POLL_SECS = JInt 5"
  by (simp_all add: default_value_def' def_def SETTING_DEFS_def default_defs key_defs)

lemma table_well_typed: "list_all (\<lambda>d. type_mismatch (sd_key d) (sd_default d) = None) SETTING_DEFS"
proof -
  have row: "type_mismatch (sd_key d) (sd_default d) = None"
    if "d \<in> set SETTING_DEFS" and "has_type (sd_json_type d) (sd_default d)"
      and "case sd_int_range d of None \<Rightarrow> True
           | Some (lo, hi) \<Rightarrow> (case as_i64 (sd_default d) of Some n \<Rightarrow> lo \<le> n \<and> n \<le> hi | None \<Rightarrow> False)" for d
  proof -
    have "def (sd_key d) = Some d" using that(1) by (simp add: def_iff)
    then show ?thesis using that(2,3) by (auto simp: type_mismatch_def split: option.splits prod.splits)
  qed
  have "list_all (\<lambda>d. has_type (sd_json_type d) (sd_default d)
          \<and> (case sd_int_range d of None \<Rightarrow> True
             | Some (lo, hi) \<Rightarrow> (case as_i64 (sd_default d) of Some n \<Rightarrow> lo \<le> n \<and> n \<le> hi | None \<Rightarrow> False)))
          SETTING_DEFS"
    by (simp add: SETTING_DEFS_def default_defs has_type_def json_reads I64_MIN_def I64_MAX_def U64_MAX_def)
  then show ?thesis using row by (auto simp: list_all_iff)
qed

lemma default_well_typed: "default_settings key = Some v \<Longrightarrow> type_mismatch key v = None"
  using table_well_typed by (auto simp: list_all_iff default_settings_iff def_iff)

lemma fast_reads:
  "read_fast as_f64 from_value_f64 = read_setting from_value_f64"
  "read_fast json_str from_value_str = read_setting from_value_str"
  "read_fast json_bool from_value_bool = read_setting from_value_bool"
  "read_fast as_u64 (from_value_unsigned 64) = read_setting (from_value_unsigned 64)"
  "read_fast from_cached_usize (from_value_unsigned 64) = read_setting (from_value_unsigned 64)"
  "read_fast from_cached_u32 (from_value_unsigned 32) = read_setting (from_value_unsigned 32)"
  by (auto simp: fun_eq_iff read_fast_def read_setting_def json_reads from_cached_usize_def from_cached_u32_def U64_MAX_def
      split: option.splits json.splits bind_splits if_splits)

section \<open>Snapshots\<close>

definition weight_ok :: "f64 \<Rightarrow> bool" where
  "weight_ok w = (case w of Num r \<Rightarrow> 0 \<le> r \<and> r \<le> 10 | _ \<Rightarrow> False)"

lemma clamp_weight_ok: "weight_ok dflt \<Longrightarrow> weight_ok (clamp_weight v dflt)"
  by (auto simp: weight_ok_def clamp_weight_def f64_clamp_def is_finite_def split: option.splits f64.splits)

lemma or_seed_total:
  assumes "seed_default from_value key = Done x"
  shows "\<exists>y. read_fast_or_seed from_cached from_value cache key = Done y"
  using assms by (auto simp: read_fast_or_seed_def split: option.splits)

lemma seeds [simp]:
  "seed_default from_value_f64 KEY_SEARCH_TRGM_THRESHOLD = Done (Num (3 / 10))"
  "seed_default from_value_f64 KEY_SEARCH_FTS_WEIGHT = Done (Num (3 / 5))"
  "seed_default from_value_f64 KEY_SEARCH_TRGM_WEIGHT = Done (Num (2 / 5))"
  "seed_default from_value_f64 KEY_SEARCH_VECTOR_WEIGHT = Done (Num (1 / 2))"
  "seed_default (from_value_unsigned 64) KEY_SEARCH_DEFAULT_LIMIT = Done 10"
  "seed_default (from_value_unsigned 64) KEY_SEARCH_MAX_LIMIT = Done 50"
  "seed_default (from_value_unsigned 64) KEY_EMBEDDING_BATCH_SIZE = Done 64"
  "seed_default from_value_bool KEY_EMBEDDING_ENABLED = Done False"
  "seed_default from_value_str KEY_EMBEDDING_ENDPOINT = Done ''http://localhost:11434/v1''"
  "seed_default from_value_bool KEY_TORRENT_KEEP_COMPLETED = Done True"
  "seed_default from_value_bool KEY_TORRENT_AUTO_UPDATE = Done False"
  "seed_default from_value_bool KEY_DOWNLOADS_ALLOW_PRIVATE_NETWORKS = Done False"
  "seed_default from_value_bool KEY_TORRENT_ALLOW_PRIVATE_NETWORKS = Done False"
  by (simp_all add: seed_default_def json_reads)

lemma threshold_floor:
  "read_fast_or_seed as_f64 from_value_f64 cache KEY_SEARCH_TRGM_THRESHOLD = Done x
    \<Longrightarrow> f64_le (Num (3 / 10)) (floor_trgm_threshold x)"
  by (cases x) (auto simp: floor_trgm_threshold_def f64_max_def TRGM_THRESHOLD_FLOOR_def)

lemma search_snapshot_total:
  "\<exists>s. search_params_snapshot gen cache = Done s
      \<and> weight_ok (sps_fts_weight s) \<and> weight_ok (sps_trgm_weight s) \<and> weight_ok (sps_vector_weight s)
      \<and> f64_le (Num (3 / 10)) (sps_trgm_threshold s)"
proof -
  obtain thr dl ml en ep bs where
    "read_fast_or_seed as_f64 from_value_f64 cache KEY_SEARCH_TRGM_THRESHOLD = Done thr"
    "usize_or_seed cache KEY_SEARCH_DEFAULT_LIMIT = Done dl" "usize_or_seed cache KEY_SEARCH_MAX_LIMIT = Done ml"
    "bool_or_seed cache KEY_EMBEDDING_ENABLED = Done en"
    "read_fast_or_seed json_str from_value_str cache KEY_EMBEDDING_ENDPOINT = Done ep"
    "usize_or_seed cache KEY_EMBEDDING_BATCH_SIZE = Done bs"
    using or_seed_total seeds by meson
  moreover from this(1) have "f64_le (Num (3 / 10)) (floor_trgm_threshold thr)" by (rule threshold_floor)
  moreover have "weight_ok (Num (3 / 5))" "weight_ok (Num (2 / 5))" "weight_ok (Num (1 / 2))" by (simp_all add: weight_ok_def)
  ultimately show ?thesis
    by (simp add: search_params_snapshot_def clamp_weight_ok)
qed


end
