(* ===== verification/Queue.thy ===== *)
theory Queue
  imports Requeue Qbit Files Settings
begin

text \<open>
  One cycle of the download poller (\<open>src/torrent/poller/mod.rs\<close>): the early exit, the fetch of the
  torrent list, the release of cancelled torrents and the enqueue pass.

  A cycle is a sequence of statements on the table and of calls to qBittorrent. Other tasks run
  between them: \<open>de_between n\<close> is what they did to the table before the \<open>n\<close>-th statement,
  \<open>de_fault n\<close> the failure of that statement and \<open>de_now n\<close> the clock of the database. The state
  also logs what the cycle set going (\<open>ps_started\<close>: the id, and the partial file of a direct
  download) and the removals qBittorrent confirmed (\<open>ps_removed\<close>).
\<close>

section \<open>State and parameters\<close>

record db_env =
  de_fault :: "nat \<Rightarrow> sqlx_error option"
  de_now :: "nat \<Rightarrow> timestamp"
  de_between :: "nat \<Rightarrow> downloads \<Rightarrow> downloads"

record 'w poll_state =
  ps_db :: downloads
  ps_stmt :: nat
  ps_world :: 'w
  ps_cell :: qbit_cell
  ps_started :: "(int \<times> string option) list"
  ps_removed :: "string list"

record 'w poller =
  po_qbit :: "'w qbit_env"
  po_config :: qbit_config
  po_db :: db_env
  po_show :: "sqlx_error \<Rightarrow> string"
  po_lower :: "string \<Rightarrow> string" \<comment> \<open>\<open>str::to_lowercase\<close>\<close>
  po_zim_dir :: string
  po_cell_between :: "nat \<Rightarrow> qbit_cell \<Rightarrow> qbit_cell"

text \<open>One statement of the cycle, after what the other tasks did.\<close>

definition stmt ::
  "db_env \<Rightarrow> (sqlx_error option \<Rightarrow> timestamp \<Rightarrow> downloads \<Rightarrow> 'a \<times> downloads) \<Rightarrow> 'w poll_state \<Rightarrow> 'a \<times> 'w poll_state" where
  "stmt D f s =
     (let n = ps_stmt s;
          (a, db) = f (de_fault D n) (de_now D n) (de_between D n (ps_db s))
      in (a, s\<lparr>ps_db := db, ps_stmt := n + 1\<rparr>))"

definition select ::
  "(downloads \<Rightarrow> 'a) \<Rightarrow> sqlx_error option \<Rightarrow> timestamp \<Rightarrow> downloads \<Rightarrow> ('a, sqlx_error) result \<times> downloads" where
  "select f fault now db = (case fault of Some e \<Rightarrow> (Err e, db) | None \<Rightarrow> (Ok (f db), db))"

definition MAX_QUEUED_PER_TICK :: nat where "MAX_QUEUED_PER_TICK = 50"

section \<open>The early exit and the torrent list\<close>

definition tick_relevant :: "download_row \<Rightarrow> bool" where
  "tick_relevant r \<longleftrightarrow> has_status r Queued
     \<or> (has_status r Downloading \<and> \<not> zim_url_predicate (d_url r))
     \<or> has_status r Seeding
     \<or> (has_status r Cancelled \<and> d_hash r \<noteq> None)"

definition should_skip_tick :: "'w poller \<Rightarrow> 'w poll_state \<Rightarrow> (bool, error) result \<times> 'w poll_state" where
  "should_skip_tick P s =
     (case stmt (po_db P) (select (\<lambda>db. length (filter tick_relevant (rows db)))) s of
        (Inl e, s) \<Rightarrow> (Err (Database e), s)
      | (Inr n, s) \<Rightarrow> (Ok (n = 0), s))"

definition fetch_qb_state ::
  "'w poller \<Rightarrow> qbit_client option \<Rightarrow> 'w poll_state \<Rightarrow> (torrent_info list \<times> bool) \<times> 'w poll_state" where
  "fetch_qb_state P qbit s =
     (case qbit of
        Some q \<Rightarrow>
          (case get_torrents (qe_send (po_qbit P)) (qe_json (po_qbit P)) q ''all'' (ps_world s) of
             (Inr ts, w) \<Rightarrow> ((ts, True), s\<lparr>ps_world := w\<rparr>)
           | (Inl (Torrent SessionExpired _), w) \<Rightarrow>
               (([], False), s\<lparr>ps_world := w, ps_cell := cache_invalidate (ps_cell s)\<rparr>)
           | (Inl _, w) \<Rightarrow> (([], False), s\<lparr>ps_world := w\<rparr>))
      | None \<Rightarrow> (([], False), s))"

section \<open>Cancelled rows\<close>

text \<open>\<open>status_if_changed\<close> of the poller. \<open>acquire_ok\<close> tells whether the pool gave a connection.\<close>

definition poller_status_if_changed ::
  "'w poller \<Rightarrow> poller_params \<Rightarrow> bool \<Rightarrow> int \<Rightarrow> string \<Rightarrow> 'w poll_state \<Rightarrow> bool \<times> 'w poll_state" where
  "poller_status_if_changed P p acquire_ok i torrent_hash s =
     (if \<not> acquire_ok then (True, s)
      else
        (case stmt (po_db P) (\<lambda>fault now db. (status_no_longer_downloading fault db i, db)) s of
           (None, s) \<Rightarrow> (True, s)
         | (Some _, s) \<Rightarrow>
             if torrent_hash = [] then (False, s)
             else
               (let (qbit, cell, w) =
                      resolve_torrent (po_qbit P) (po_config P) (pp_qbit_url p) (pp_qbit_allow_private p)
                        (po_cell_between P (ps_stmt s)) (ps_cell s) (ps_world s);
                    s = s\<lparr>ps_cell := cell, ps_world := w\<rparr>
                in case qbit of
                     Some q \<Rightarrow>
                       (case delete_torrent (qe_send (po_qbit P)) q torrent_hash True (ps_world s) of
                          (Inr _, w) \<Rightarrow>
                            (False, snd (stmt (po_db P) (\<lambda>fault now db. ((), clear_hash fault now i db))
                               (s\<lparr>ps_world := w, ps_removed := ps_removed s @ [torrent_hash]\<rparr>)))
                        | (Inl _, w) \<Rightarrow> (False, s\<lparr>ps_world := w\<rparr>))
                   | None \<Rightarrow> (False, s))))"

fun release_cancelled ::
  "'w poller \<Rightarrow> poller_params \<Rightarrow> (nat \<Rightarrow> bool) \<Rightarrow> qbit_client option \<Rightarrow> (int \<times> string option) list
    \<Rightarrow> 'w poll_state \<Rightarrow> 'w poll_state" where
  "release_cancelled P p acquire_ok qbit [] s = s"
| "release_cancelled P p acquire_ok qbit ((i, hash) # cancelled) s =
     release_cancelled P p acquire_ok qbit cancelled
       (case (qbit, hash) of
          (Some _, Some h) \<Rightarrow> snd (poller_status_if_changed P p (acquire_ok (ps_stmt s)) i h s)
        | _ \<Rightarrow> s)"

definition process_cancelled ::
  "'w poller \<Rightarrow> poller_params \<Rightarrow> (nat \<Rightarrow> bool) \<Rightarrow> qbit_client option \<Rightarrow> bool \<Rightarrow> 'w poll_state
    \<Rightarrow> (unit, error) result \<times> 'w poll_state" where
  "process_cancelled P p acquire_ok qbit qb_configured s =
     (case stmt (po_db P) (select (\<lambda>db. map (\<lambda>r. (d_id r, d_hash r))
             (filter (\<lambda>r. has_status r Cancelled \<and> d_hash r \<noteq> None) (rows db)))) s of
        (Inl e, s) \<Rightarrow> (Err (Database e), s)
      | (Inr cancelled, s) \<Rightarrow>
          (let s = (if qbit = None \<and> \<not> qb_configured
                    then snd (stmt (po_db P) (\<lambda>fault now. drain_cancelled_hashes fault) s) else s)
           in (Ok (), release_cancelled P p acquire_ok qbit cancelled s)))"

section \<open>The enqueue pass\<close>

definition is_just_added_candidate :: "(string \<Rightarrow> string) \<Rightarrow> torrent_info \<Rightarrow> string \<Rightarrow> string \<Rightarrow> bool" where
  "is_just_added_candidate lower t wanted_name enqueue_category =
     (if lower (t_name t) \<noteq> lower wanted_name then False
      else (case t_category t of
              Some cat \<Rightarrow> lower cat = lower enqueue_category
            | None \<Rightarrow> enqueue_category = []))"

definition remove_just_added_torrent ::
  "'w poller \<Rightarrow> qbit_client \<Rightarrow> string \<Rightarrow> string \<Rightarrow> 'w poll_state \<Rightarrow> 'w poll_state" where
  "remove_just_added_torrent P q added_name enqueue_category s =
     (case get_torrents (qe_send (po_qbit P)) (qe_json (po_qbit P)) q ''all'' (ps_world s) of
        (Inl _, w) \<Rightarrow> s\<lparr>ps_world := w\<rparr>
      | (Inr ts, w) \<Rightarrow>
          (case find (\<lambda>t. is_just_added_candidate (po_lower P) t added_name enqueue_category) ts of
             Some t \<Rightarrow>
               (case delete_torrent (qe_send (po_qbit P)) q (t_hash t) True w of
                  (Inr _, w) \<Rightarrow> s\<lparr>ps_world := w, ps_removed := ps_removed s @ [t_hash t]\<rparr>
                | (Inl _, w) \<Rightarrow> s\<lparr>ps_world := w\<rparr>)
           | None \<Rightarrow> s\<lparr>ps_world := w\<rparr>))"

definition NOT_CONFIGURED :: string where
  "NOT_CONFIGURED = ''qBittorrent not configured '' @ bytes_str [226, 128, 148]
     @ '' only direct .zim URLs are supported''"

definition url_check :: "'w poller \<Rightarrow> poller_params \<Rightarrow> string \<Rightarrow> (unit, error) result" where
  "url_check P p url =
     (if is_direct_zim_url url then validate_download_url (qe_urls (po_qbit P)) url (pp_allow_private_networks p)
      else assert_host_not_blocked (qe_urls (po_qbit P)) url (pp_allow_private_networks p) False)"

definition part_path :: "'w poller \<Rightarrow> string \<Rightarrow> string" where
  "part_path P name = po_zim_dir P @ ''/'' @ name @ ''.part''"

definition fatal :: "'w poller \<Rightarrow> int \<Rightarrow> string \<Rightarrow> int \<Rightarrow> 'w poll_state \<Rightarrow> (int, error) result \<times> 'w poll_state" where
  "fatal P i msg budget s =
     (case stmt (po_db P) (\<lambda>fault now. mark_fatal_error fault now i msg) s of
        (Inl e, s) \<Rightarrow> (Err (Database e), s)
      | (Inr _, s) \<Rightarrow> (Ok budget, s))"

definition failed :: "'w poller \<Rightarrow> int \<Rightarrow> string \<Rightarrow> 'w poll_state \<Rightarrow> 'w poll_state" where
  "failed P i msg s = snd (stmt (po_db P) (\<lambda>fault now db. ((), mark_error fault now i msg db)) s)"

definition queue_direct ::
  "'w poller \<Rightarrow> int \<Rightarrow> string \<Rightarrow> int \<Rightarrow> 'w poll_state \<Rightarrow> (int, error) result \<times> 'w poll_state" where
  "queue_direct P i name budget s =
     (case validate_download_name name of
        Inl e \<Rightarrow> (Ok budget, failed P i (''invalid name: '' @ error_display (po_show P) e) s)
      | Inr _ \<Rightarrow>
          if budget \<le> 0 then (Ok budget, s)
          else
            (case stmt (po_db P) (\<lambda>fault now. claim_direct fault now i (part_path P name)) s of
               (Inl e, s) \<Rightarrow> (Err (Database e), s)
             | (Inr claimed, s) \<Rightarrow>
                 if claimed > 0
                 then (Ok (budget - 1), s\<lparr>ps_started := ps_started s @ [(i, Some (part_path P name))]\<rparr>)
                 else (Ok budget, s)))"

definition queue_torrent ::
  "'w poller \<Rightarrow> poller_params \<Rightarrow> qbit_client option \<Rightarrow> bool \<Rightarrow> bool \<Rightarrow> int \<Rightarrow> string \<Rightarrow> int \<Rightarrow> 'w poll_state
    \<Rightarrow> (int, error) result \<times> 'w poll_state" where
  "queue_torrent P p qbit qb_available qb_configured i url budget s =
     (case qbit of
        None \<Rightarrow> if \<not> qb_configured then fatal P i NOT_CONFIGURED budget s else (Ok budget, s)
      | Some q \<Rightarrow>
          if \<not> qb_available then (Ok budget, s)
          else if budget \<le> 0 then (Ok budget, s)
          else
            (case add_torrent (qe_send (po_qbit P)) q url (pp_category p) (pp_save_path p) (ps_world s) of
               (Inr added, w) \<Rightarrow>
                 (case stmt (po_db P) (\<lambda>fault now. mark_downloading fault now i) (s\<lparr>ps_world := w\<rparr>) of
                    (Inl e, s) \<Rightarrow> (Err (Database e), s)
                  | (Inr claimed, s) \<Rightarrow>
                      if claimed = 0 then (Ok budget, remove_just_added_torrent P q added (pp_category p) s)
                      else (Ok (budget - 1), s\<lparr>ps_started := ps_started s @ [(i, None)]\<rparr>))
             | (Inl e, w) \<Rightarrow> fatal P i (error_display (po_show P) e) budget (s\<lparr>ps_world := w\<rparr>)))"

definition queue_row ::
  "'w poller \<Rightarrow> poller_params \<Rightarrow> qbit_client option \<Rightarrow> bool \<Rightarrow> bool \<Rightarrow> int \<Rightarrow> string \<Rightarrow> string \<Rightarrow> int
    \<Rightarrow> 'w poll_state \<Rightarrow> (int, error) result \<times> 'w poll_state" where
  "queue_row P p qbit qb_available qb_configured i name url budget s =
     (case url_check P p url of
        Inl e \<Rightarrow> (Ok budget, failed P i (''invalid URL: '' @ error_display (po_show P) e) s)
      | Inr _ \<Rightarrow>
          if is_direct_zim_url url then queue_direct P i name budget s
          else queue_torrent P p qbit qb_available qb_configured i url budget s)"

fun queue_rows ::
  "'w poller \<Rightarrow> poller_params \<Rightarrow> qbit_client option \<Rightarrow> bool \<Rightarrow> bool \<Rightarrow> (int \<times> string \<times> string) list \<Rightarrow> int
    \<Rightarrow> 'w poll_state \<Rightarrow> (unit, error) result \<times> 'w poll_state" where
  "queue_rows P p qbit qb_available qb_configured [] budget s = (Ok (), s)"
| "queue_rows P p qbit qb_available qb_configured ((i, name, url) # queued) budget s =
     (case queue_row P p qbit qb_available qb_configured i name url budget s of
        (Inl e, s) \<Rightarrow> (Err e, s)
      | (Inr budget, s) \<Rightarrow> queue_rows P p qbit qb_available qb_configured queued budget s)"

definition select_queued :: "downloads \<Rightarrow> (int \<times> string \<times> string) list" where
  "select_queued db =
     take MAX_QUEUED_PER_TICK (map (\<lambda>r. (d_id r, d_name r, d_url r))
       (sort_key d_id (filter (\<lambda>r. has_status r Queued) (rows db))))"

definition count_direct :: "downloads \<Rightarrow> nat" where
  "count_direct db = length (filter (\<lambda>r. has_status r Downloading \<and> zim_url_predicate (d_url r)
     \<and> d_file_path r \<noteq> None) (rows db))"

text \<open>\<open>i32::saturating_sub\<close>; the counts stay far below \<open>i32::MAX\<close>, so their sum is exact.\<close>

definition i32_saturating_sub :: "int \<Rightarrow> int \<Rightarrow> int" where
  "i32_saturating_sub a b = max (- (2 ^ 31)) (min (2 ^ 31 - 1) (a - b))"

definition active_budget :: "int \<Rightarrow> string \<Rightarrow> torrent_info list \<Rightarrow> nat \<Rightarrow> int" where
  "active_budget max_active category torrents direct_active =
     (let active = length (filter (\<lambda>t. t_category t = Some category \<and> is_active_download t) torrents)
      in max 0 (i32_saturating_sub max_active (int active + int direct_active)))"

definition process_queued ::
  "'w poller \<Rightarrow> poller_params \<Rightarrow> int \<Rightarrow> qbit_client option \<Rightarrow> bool \<Rightarrow> bool \<Rightarrow> torrent_info list \<Rightarrow> 'w poll_state
    \<Rightarrow> (unit, error) result \<times> 'w poll_state" where
  "process_queued P p max_active qbit qb_available qb_configured torrents s =
     (case stmt (po_db P) (select select_queued) s of
        (Inl e, s) \<Rightarrow> (Err (Database e), s)
      | (Inr queued, s) \<Rightarrow>
          (let (n, s) = stmt (po_db P) (select count_direct) s;
               direct_active = (case n of Inr k \<Rightarrow> k | Inl _ \<Rightarrow> 0)
           in queue_rows P p qbit qb_available qb_configured queued
                (active_budget max_active (pp_category p) torrents direct_active) s))"

section \<open>What the enqueue pass sets going\<close>

lemma stmt_frame:
  "stmt D f s = (a, s') \<Longrightarrow> ps_started s' = ps_started s \<and> ps_removed s' = ps_removed s
     \<and> ps_world s' = ps_world s \<and> ps_cell s' = ps_cell s"
  by (auto simp: stmt_def Let_def split: prod.splits)

lemma snd_stmt_frame [simp]:
  "ps_started (snd (stmt D f s)) = ps_started s" "ps_removed (snd (stmt D f s)) = ps_removed s"
  "ps_world (snd (stmt D f s)) = ps_world s" "ps_cell (snd (stmt D f s)) = ps_cell s"
  using stmt_frame [of D f s "fst (stmt D f s)" "snd (stmt D f s)"] by simp_all

lemma remove_just_added_started [simp]:
  "ps_started (remove_just_added_torrent P q added category s) = ps_started s"
  by (auto simp: remove_just_added_torrent_def split: prod.splits sum.splits option.splits)

text \<open>What a started download of the row \<open>(i, name, url)\<close> has passed.\<close>

definition start_allowed ::
  "'w poller \<Rightarrow> poller_params \<Rightarrow> qbit_client option \<Rightarrow> bool \<Rightarrow> int \<times> string \<times> string \<Rightarrow> int \<times> string option \<Rightarrow> bool" where
  "start_allowed P p qbit qb_available row started =
     (case (row, started) of
        ((i, name, url), (j, part)) \<Rightarrow>
          i = j \<and> url_check P p url = Ok () \<and>
          (case part of
             Some path \<Rightarrow> is_direct_zim_url url \<and> validate_download_name name = Ok () \<and> path = part_path P name
           | None \<Rightarrow> \<not> is_direct_zim_url url \<and> qbit \<noteq> None \<and> qb_available))"

lemma queue_direct_started:
  assumes "queue_direct P i name budget s = (r, s')"
  shows "(ps_started s' = ps_started s \<and> (\<forall>b. r = Ok b \<longrightarrow> b = budget))
    \<or> (ps_started s' = ps_started s @ [(i, Some (part_path P name))] \<and> r = Ok (budget - 1) \<and> 0 < budget
       \<and> validate_download_name name = Ok ())"
  using assms
  by (auto simp: queue_direct_def failed_def dest: stmt_frame split: sum.splits if_splits prod.splits)

lemma fatal_started:
  "fatal P i msg budget s = (r, s') \<Longrightarrow> ps_started s' = ps_started s \<and> (\<forall>b. r = Ok b \<longrightarrow> b = budget)"
  by (auto simp: fatal_def dest: stmt_frame split: sum.splits prod.splits)

lemma queue_torrent_started:
  assumes "queue_torrent P p qbit qb_available qb_configured i url budget s = (r, s')"
  shows "(ps_started s' = ps_started s \<and> (\<forall>b. r = Ok b \<longrightarrow> b = budget))
    \<or> (ps_started s' = ps_started s @ [(i, None)] \<and> r = Ok (budget - 1) \<and> 0 < budget
       \<and> qbit \<noteq> None \<and> qb_available)"
proof (cases qbit)
  case None
  then show ?thesis using assms fatal_started by (fastforce simp: queue_torrent_def split: if_splits)
next
  case (Some q)
  show ?thesis
    using assms
    by (auto simp: queue_torrent_def Some dest!: stmt_frame fatal_started split: sum.splits if_splits prod.splits)
qed

lemma queue_row_started:
  assumes "queue_row P p qbit qb_available qb_configured i name url budget s = (r, s')"
  shows "(ps_started s' = ps_started s \<and> (\<forall>b. r = Ok b \<longrightarrow> b = budget))
    \<or> (\<exists>e. ps_started s' = ps_started s @ [e] \<and> r = Ok (budget - 1) \<and> 0 < budget
       \<and> start_allowed P p qbit qb_available (i, name, url) e)"
proof (cases "url_check P p url")
  case (Inl e)
  then show ?thesis using assms by (auto simp: queue_row_def failed_def)
next
  case (Inr u)
  show ?thesis
  proof (cases "is_direct_zim_url url")
    case True
    then have "queue_direct P i name budget s = (r, s')" using assms Inr by (simp add: queue_row_def)
    from queue_direct_started [OF this] Inr True show ?thesis by (auto simp: start_allowed_def)
  next
    case False
    then have "queue_torrent P p qbit qb_available qb_configured i url budget s = (r, s')"
      using assms Inr by (simp add: queue_row_def)
    from queue_torrent_started [OF this] Inr False show ?thesis by (auto simp: start_allowed_def)
  qed
qed

lemma queue_rows_started:
  "queue_rows P p qbit qb_available qb_configured queued budget s = (r, s') \<Longrightarrow> 0 \<le> budget \<Longrightarrow>
   \<exists>new. ps_started s' = ps_started s @ new \<and> int (length new) \<le> budget
     \<and> list_all (\<lambda>e. list_ex (\<lambda>row. start_allowed P p qbit qb_available row e) queued) new"
proof (induction queued arbitrary: budget s)
  case (Cons row queued)
  obtain i name url where row: "row = (i, name, url)" by (cases row)
  obtain r1 s1 where one: "queue_row P p qbit qb_available qb_configured i name url budget s = (r1, s1)" by fastforce
  note step = queue_row_started [OF one]
  show ?case
  proof (cases r1)
    case (Inl e)
    then have "s' = s1" using Cons.prems(1) one by (simp add: row)
    with step Inl Cons.prems(2) show ?thesis by (intro exI [of _ "[]"]) auto
  next
    case (Inr b)
    then have rest: "queue_rows P p qbit qb_available qb_configured queued b s1 = (r, s')"
      using Cons.prems(1) one by (simp add: row)
    have b: "0 \<le> b" using step Inr Cons.prems(2) by auto
    obtain new where new: "ps_started s' = ps_started s1 @ new" "int (length new) \<le> b"
      "list_all (\<lambda>e. list_ex (\<lambda>row. start_allowed P p qbit qb_available row e) queued) new"
      using Cons.IH [OF rest b] by blast
    have wider: "list_all (\<lambda>e. list_ex (\<lambda>row. start_allowed P p qbit qb_available row e) (row # queued)) new"
      using new(3) by (auto simp: list_all_iff)
    from step show ?thesis
    proof (elim disjE exE conjE)
      assume "ps_started s1 = ps_started s" "\<forall>b. r1 = Ok b \<longrightarrow> b = budget"
      with new Inr wider show ?thesis by (intro exI [of _ new]) auto
    next
      fix e assume "ps_started s1 = ps_started s @ [e]" "r1 = Ok (budget - 1)"
        "start_allowed P p qbit qb_available (i, name, url) e"
      with new Inr wider row show ?thesis by (intro exI [of _ "e # new"]) auto
    qed
  qed
qed simp


section \<open>One row at a time\<close>

lemma sql_update_other:
  assumes "\<And>r. guard r \<Longrightarrow> d_id r = j" and "\<And>r. d_id (change r) = d_id r" and "i \<noteq> j"
  shows "row_by_id (snd (sql_update fault guard change db)) i = row_by_id db i"
proof (cases rule: sql_update_cases [of fault guard change db])
  case 2
  have "row_by_id (snd (sql_update fault guard change db)) i
      = map_option (\<lambda>r. if guard r then change r else r) (row_by_id db i)"
    unfolding 2(1) by (rule row_by_id_map) (simp add: assms(2))
  moreover have "\<not> guard r" if "row_by_id db i = Some r" for r
    using row_by_id_SomeD [OF that] assms(1,3) by blast
  ultimately show ?thesis by (cases "row_by_id db i") auto
qed simp

lemma statement_other:
  assumes "i \<noteq> j"
  shows "row_by_id (mark_error fault now j msg db) i = row_by_id db i"
    "row_by_id (snd (mark_fatal_error fault now j msg db)) i = row_by_id db i"
    "row_by_id (snd (claim_direct fault now j part db)) i = row_by_id db i"
    "row_by_id (snd (mark_downloading fault now j db)) i = row_by_id db i"
    "row_by_id (clear_hash fault now j db) i = row_by_id db i"
  using assms by (auto simp: row_defs intro!: sql_update_other)

text \<open>Other tasks leave the row \<open>i\<close> alone.\<close>

definition spares :: "db_env \<Rightarrow> int \<Rightarrow> bool" where
  "spares D i \<longleftrightarrow> (\<forall>n db. row_by_id (de_between D n db) i = row_by_id db i)"

lemma stmt_row:
  assumes "spares D i" and "\<And>fault now db. row_by_id (snd (f fault now db)) i = row_by_id db i"
  shows "row_by_id (ps_db (snd (stmt D f s))) i = row_by_id (ps_db s) i"
proof -
  have "ps_db (snd (stmt D f s))
      = snd (f (de_fault D (ps_stmt s)) (de_now D (ps_stmt s)) (de_between D (ps_stmt s) (ps_db s)))"
    by (simp add: stmt_def Let_def split: prod.splits)
  then show ?thesis using assms by (simp add: spares_def)
qed

lemma stmt_row':
  assumes "spares D i" and "\<And>fault now db. row_by_id (snd (f fault now db)) i = row_by_id db i"
    and "stmt D f s = (a, s')"
  shows "row_by_id (ps_db s') i = row_by_id (ps_db s) i"
  using stmt_row [of D i f s, OF assms(1,2)] assms(3) by simp

lemma stmt_other:
  assumes "spares D i" and "i \<noteq> j"
  shows "stmt D (\<lambda>fault now. claim_direct fault now j part) s = (a, s') \<Longrightarrow> row_by_id (ps_db s') i = row_by_id (ps_db s) i"
    "stmt D (\<lambda>fault now. mark_fatal_error fault now j msg) s = (a, s') \<Longrightarrow> row_by_id (ps_db s') i = row_by_id (ps_db s) i"
    "stmt D (\<lambda>fault now. mark_downloading fault now j) s = (a, s') \<Longrightarrow> row_by_id (ps_db s') i = row_by_id (ps_db s) i"
    "row_by_id (ps_db (snd (stmt D (\<lambda>fault now db. ((), mark_error fault now j msg db)) s))) i = row_by_id (ps_db s) i"
    "row_by_id (ps_db (snd (stmt D (\<lambda>fault now db. ((), clear_hash fault now j db)) s))) i = row_by_id (ps_db s) i"
  by (erule stmt_row' [OF assms(1), rotated], simp add: statement_other [OF assms(2)])+
     (rule stmt_row [OF assms(1)], simp add: statement_other [OF assms(2)])+

lemma remove_just_added_db [simp]:
  "ps_db (remove_just_added_torrent P q added category s) = ps_db s"
  by (auto simp: remove_just_added_torrent_def split: prod.splits sum.splits option.splits)

lemma queue_row_other:
  assumes "spares (po_db P) i" and "i \<noteq> j"
    and "queue_row P p qbit qb_available qb_configured j name url budget s = (r, s')"
  shows "row_by_id (ps_db s') i = row_by_id (ps_db s) i"
proof -
  note other = stmt_other [OF assms(1,2)]
  have fatal: "row_by_id (ps_db s') i = row_by_id (ps_db s) i" if "fatal P j msg budget s = (r, s')" for msg s
    using that by (auto simp: fatal_def dest: other(2) split: sum.splits prod.splits)
  have direct: "row_by_id (ps_db s') i = row_by_id (ps_db s) i" if "queue_direct P j name budget s = (r, s')"
    using that by (auto simp: queue_direct_def failed_def other(4) dest: other(1) split: sum.splits prod.splits if_splits)
  have torrent: "row_by_id (ps_db s') i = row_by_id (ps_db s) i"
    if "queue_torrent P p qbit qb_available qb_configured j url budget s = (r, s')"
    using that by (auto simp: queue_torrent_def dest!: other(3) fatal
        split: option.splits sum.splits prod.splits if_splits)
  show ?thesis
    using assms(3) direct torrent by (auto simp: queue_row_def failed_def other(4) split: sum.splits if_splits)
qed

lemma queue_row_waits:
  assumes "url_check P p url = Ok ()" and "\<not> is_direct_zim_url url"
    and "if qbit = None then qb_configured else \<not> qb_available"
  shows "queue_row P p qbit qb_available qb_configured i name url budget s = (Ok budget, s)"
  using assms by (auto simp: queue_row_def queue_torrent_def split: if_splits option.splits)

lemma queue_rows_waits:
  assumes "spares (po_db P) i" and "if qbit = None then qb_configured else \<not> qb_available"
    and "\<And>name url. (i, name, url) \<in> set queued \<Longrightarrow> url_check P p url = Ok () \<and> \<not> is_direct_zim_url url"
    and "queue_rows P p qbit qb_available qb_configured queued budget s = (r, s')"
  shows "row_by_id (ps_db s') i = row_by_id (ps_db s) i"
  using assms(3,4)
proof (induction queued arbitrary: budget s)
  case (Cons row queued)
  obtain j name url where row: "row = (j, name, url)" by (cases row)
  obtain r1 s1 where one: "queue_row P p qbit qb_available qb_configured j name url budget s = (r1, s1)" by fastforce
  have same: "row_by_id (ps_db s1) i = row_by_id (ps_db s) i"
  proof (cases "i = j")
    case True
    then have "url_check P p url = Ok () \<and> \<not> is_direct_zim_url url" using Cons.prems(1) row by auto
    then show ?thesis using queue_row_waits [OF _ _ assms(2), of P p url j name budget s] one by simp
  next
    case False
    then show ?thesis using queue_row_other [OF assms(1) False one] by blast
  qed
  show ?case
  proof (cases r1)
    case (Inl e)
    then show ?thesis using Cons.prems(2) one same by (simp add: row)
  next
    case (Inr b)
    then have "queue_rows P p qbit qb_available qb_configured queued b s1 = (r, s')"
      using Cons.prems(2) one by (simp add: row)
    from Cons.IH [OF _ this] Cons.prems(1) same show ?thesis by auto
  qed
qed simp

text \<open>
  An outage of qBittorrent fails no download. While qBittorrent is configured but cannot be
  reached, an enqueue pass leaves every queued torrent row with an admissible URL exactly as it is,
  whatever statements fail and whatever happens to the other rows, so the row is enqueued once
  qBittorrent is back.
\<close>

theorem outage_keeps_queued_rows:
  assumes "db_inv (de_between (po_db P) (ps_stmt s) (ps_db s))" and "spares (po_db P) i"
    and "row_by_id (ps_db s) i = Some r" and "url_check P p (d_url r) = Ok ()" and "\<not> is_direct_zim_url (d_url r)"
    and "if qbit = None then qb_configured else \<not> qb_available"
  shows "row_by_id (ps_db (snd (process_queued P p max_active qbit qb_available qb_configured torrents s))) i = Some r"
proof -
  define db1 where "db1 = de_between (po_db P) (ps_stmt s) (ps_db s)"
  have r: "row_by_id db1 i = Some r" using assms(2,3) by (simp add: db1_def spares_def)
  have queued: "url_check P p url = Ok () \<and> \<not> is_direct_zim_url url"
    if sel: "(i, name, url) \<in> set (select_queued db1)" for name url
  proof -
    obtain r' where r': "r' \<in> set (rows db1)" "d_id r' = i" "url = d_url r'"
      using in_set_takeD [OF sel [unfolded select_queued_def]] by auto
    have "row_by_id db1 (d_id r') = Some r'"
      using r'(1) assms(1) by (auto simp: db1_def [symmetric] db_inv_def row_by_id_iff)
    with r r' have "url = d_url r" by simp
    with assms(4,5) show ?thesis by simp
  qed
  obtain x s1 where one: "stmt (po_db P) (select select_queued) s = (x, s1)" by fastforce
  obtain y s2 where two: "stmt (po_db P) (select count_direct) s1 = (y, s2)" by fastforce
  have keep: "row_by_id (ps_db s1) i = Some r" "row_by_id (ps_db s2) i = Some r"
    using stmt_row [OF assms(2), of "select select_queued" s] stmt_row [OF assms(2), of "select count_direct" s1]
      one two assms(3) by (auto simp: select_def split: option.splits)
  show ?thesis
  proof (cases x)
    case (Inl e)
    then show ?thesis using one keep(1) by (simp add: process_queued_def)
  next
    case (Inr q)
    then have q: "q = select_queued db1"
      using one by (auto simp: stmt_def select_def Let_def db1_def split: option.splits)
    obtain z s3 where three: "queue_rows P p qbit qb_available qb_configured q
        (active_budget max_active (pp_category p) torrents (case y of Inr k \<Rightarrow> k | Inl _ \<Rightarrow> 0)) s2 = (z, s3)" by fastforce
    have "row_by_id (ps_db s3) i = Some r"
      using queue_rows_waits [OF assms(2,6) _ three] queued keep(2) q by auto
    then show ?thesis using one two three Inr by (simp add: process_queued_def Let_def)
  qed
qed

section \<open>Cancelled torrents\<close>

text \<open>The row \<open>i\<close> is cancelled and bound to \<open>h\<close>, or released after qBittorrent confirmed the removal.\<close>

definition bound_or_removed :: "int \<Rightarrow> string \<Rightarrow> 'w poll_state \<Rightarrow> bool" where
  "bound_or_removed i h s \<longleftrightarrow>
     (case row_by_id (ps_db s) i of
        Some r \<Rightarrow> has_status r Cancelled \<and> (d_hash r = Some h \<or> (d_hash r = None \<and> h \<in> set (ps_removed s)))
      | None \<Rightarrow> False)"

lemma clear_hash_row:
  assumes "row_by_id db i = Some r"
  shows "row_by_id (clear_hash fault now i db) i \<in> {Some r, Some (r\<lparr>d_hash := None, d_updated_at := now\<rparr>)}"
proof (cases rule: sql_update_cases [of fault "\<lambda>r. d_id r = i" "\<lambda>r. r\<lparr>d_hash := None, d_updated_at := now\<rparr>" db])
  case 2
  have "row_by_id (clear_hash fault now i db) i
      = map_option (\<lambda>r. if d_id r = i then r\<lparr>d_hash := None, d_updated_at := now\<rparr> else r) (row_by_id db i)"
    unfolding clear_hash_def 2(1) by (rule row_by_id_map) simp
  with assms row_by_id_SomeD [OF assms] show ?thesis by simp
qed (use assms in \<open>simp add: clear_hash_def\<close>)

lemma bound_or_removed_clear:
  assumes "spares D i" and "bound_or_removed i h s" and "h \<in> set (ps_removed s)"
  shows "bound_or_removed i h (snd (stmt D (\<lambda>fault now db. ((), clear_hash fault now i db)) s))"
proof -
  obtain r where r: "row_by_id (ps_db s) i = Some r" "has_status r Cancelled" "d_hash r = Some h \<or> d_hash r = None"
    using assms(2) by (auto simp: bound_or_removed_def split: option.splits)
  have "row_by_id (de_between D (ps_stmt s) (ps_db s)) i = Some r" using assms(1) r(1) by (simp add: spares_def)
  from clear_hash_row [OF this, of "de_fault D (ps_stmt s)" "de_now D (ps_stmt s)"] r assms(3)
  show ?thesis by (auto simp: bound_or_removed_def stmt_def Let_def)
qed

lemma poller_status_if_changed_keeps:
  assumes "spares (po_db P) i" and "bound_or_removed i h s" and "j = i \<Longrightarrow> hash = h"
  shows "bound_or_removed i h (snd (poller_status_if_changed P p ok j hash s))"
proof -
  let ?read = "\<lambda>fault now db. (status_no_longer_downloading fault db j, db)"
  obtain x s1 where one: "stmt (po_db P) ?read s = (x, s1)" by fastforce
  have s1: "bound_or_removed i h s1"
    using stmt_row [OF assms(1), of ?read s] stmt_frame [OF one] one assms(2) by (auto simp: bound_or_removed_def split: option.splits)
  have cleared: "bound_or_removed i h (snd (stmt (po_db P) (\<lambda>fault now db. ((), clear_hash fault now j db)) t))"
    if "bound_or_removed i h t" "hash \<in> set (ps_removed t)" for t :: "'a poll_state"
  proof (cases "i = j")
    case True
    then show ?thesis using bound_or_removed_clear [OF assms(1) that(1)] that(2) assms(3) by simp
  next
    case False
    then show ?thesis using stmt_other(5) [OF assms(1) False, of t] that(1)
      by (auto simp: bound_or_removed_def split: option.splits)
  qed
  have world: "bound_or_removed i h (t\<lparr>ps_cell := c, ps_world := w\<rparr>)"
    "bound_or_removed i h (t\<lparr>ps_cell := c, ps_world := w, ps_removed := ps_removed t @ l\<rparr>)"
    if "bound_or_removed i h t" for t :: "'a poll_state" and c w l
    using that by (auto simp: bound_or_removed_def split: option.splits)
  show ?thesis
    using s1 one assms(2)
    by (auto simp: poller_status_if_changed_def Let_def world intro!: cleared
        split: option.splits prod.splits sum.splits)
qed

lemma release_cancelled_keeps:
  assumes "spares (po_db P) i" and "bound_or_removed i h s" and "\<And>x. (i, x) \<in> set cancelled \<Longrightarrow> x = Some h"
  shows "bound_or_removed i h (release_cancelled P p ok qbit cancelled s)"
  using assms(2,3)
proof (induction cancelled arbitrary: s)
  case (Cons row cancelled)
  obtain j hash where row: "row = (j, hash)" by (cases row)
  have "bound_or_removed i h
      (case (qbit, hash) of
          (Some _, Some h) \<Rightarrow> snd (poller_status_if_changed P p (ok (ps_stmt s)) j h s)
        | _ \<Rightarrow> s)"
    using poller_status_if_changed_keeps [OF assms(1) Cons.prems(1)] Cons.prems(1) Cons.prems(2) [of hash] row
    by (auto split: option.splits)
  with Cons.IH Cons.prems(2) show ?case by (simp add: row)
qed simp

text \<open>
  A cancelled torrent is never forgotten while it may still run. A pass over the cancelled rows
  clears the binding of a row only after qBittorrent confirmed the removal of exactly that torrent,
  or when no qBittorrent is configured at all; in every other case (an outage, a failing removal,
  a database error) the binding stays for the next cycle, and the row stays cancelled.
\<close>

theorem cancelled_binding_kept:
  assumes "db_inv (de_between (po_db P) (ps_stmt s) (ps_db s))" and "spares (po_db P) i"
    and "row_by_id (ps_db s) i = Some r" and "has_status r Cancelled" and "d_hash r = Some h"
    and "qbit \<noteq> None \<or> qb_configured"
    and "process_cancelled P p ok qbit qb_configured s = (res, s')"
  shows "\<exists>r'. row_by_id (ps_db s') i = Some r' \<and> has_status r' Cancelled
    \<and> (d_hash r' = Some h \<or> (d_hash r' = None \<and> h \<in> set (ps_removed s')))"
proof -
  let ?list = "\<lambda>db. map (\<lambda>r. (d_id r, d_hash r)) (filter (\<lambda>r. has_status r Cancelled \<and> d_hash r \<noteq> None) (rows db))"
  define db1 where "db1 = de_between (po_db P) (ps_stmt s) (ps_db s)"
  obtain x s1 where one: "stmt (po_db P) (select ?list) s = (x, s1)" by fastforce
  have "row_by_id (ps_db s1) i = Some r"
    using stmt_row [OF assms(2), of "select ?list" s] one assms(3) by (auto simp: select_def split: option.splits)
  then have s1: "bound_or_removed i h s1" using assms(4,5) by (simp add: bound_or_removed_def)
  have "bound_or_removed i h s'"
  proof (cases x)
    case (Inl e)
    then show ?thesis using assms(7) one s1 by (simp add: process_cancelled_def)
  next
    case (Inr q)
    have r: "row_by_id db1 i = Some r" using assms(2,3) by (simp add: db1_def spares_def)
    have "hash = Some h" if "(i, hash) \<in> set q" for hash
    proof -
      have "q = ?list db1" using one Inr by (auto simp: stmt_def select_def Let_def db1_def split: option.splits)
      with that obtain r' where r': "r' \<in> set (rows db1)" "d_id r' = i" "hash = d_hash r'" by auto
      then have "row_by_id db1 i = Some r'" using assms(1) by (simp add: db1_def [symmetric] row_by_id_iff)
      with r r'(3) assms(5) show ?thesis by simp
    qed
    with release_cancelled_keeps [OF assms(2) s1] have "bound_or_removed i h (release_cancelled P p ok qbit q s1)"
      by blast
    then show ?thesis using assms(6,7) one Inr by (auto simp: process_cancelled_def)
  qed
  then show ?thesis by (auto simp: bound_or_removed_def split: option.splits)
qed

section \<open>Witnesses\<close>

definition magnet_urls :: url_ops where
  "magnet_urls = \<lparr>url_parse = (\<lambda>s. Ok \<lparr>u_scheme = ''magnet'', u_host = None, u_port = None, u_str = s\<rparr>),
     url_join = (\<lambda>_ _. None)\<rparr>"

definition idle_poller :: "unit poller" where
  "idle_poller = \<lparr>po_qbit = toy_qbit\<lparr>qe_urls := magnet_urls\<rparr>, po_config = toy_config,
     po_db = \<lparr>de_fault = (\<lambda>_. None), de_now = int, de_between = (\<lambda>_ db. db)\<rparr>,
     po_show = (\<lambda>_. []), po_lower = (\<lambda>s. s), po_zim_dir = ''/data'', po_cell_between = (\<lambda>_ c. c)\<rparr>"

definition idle_params :: poller_params where
  "idle_params = \<lparr>pp_qbit_url = Some ''x'', pp_category = ''zim'', pp_save_path = ''/d'',
     pp_seed_ratio = None, pp_file_strategy = ''hardlink'', pp_keep_completed = True, pp_opds_auto_update = False,
     pp_opds_url = [], pp_allow_private_networks = False, pp_qbit_allow_private = False, pp_max_bytes = 1\<rparr>"

definition idle_state :: "downloads \<Rightarrow> unit poll_state" where
  "idle_state db = \<lparr>ps_db = db, ps_stmt = 0, ps_world = (), ps_cell = None, ps_started = [], ps_removed = []\<rparr>"

lemma idle_spares: "spares (po_db idle_poller) i"
  by (simp add: spares_def idle_poller_def)

theorem outage_keeps_queued_rows_witness:
  "row_by_id (ps_db (snd (process_queued idle_poller idle_params 4 None False True [] (idle_state (one_row Queued))))) 1
     = Some (default_row 0 ''wiki'' ''magnet:x'' (as_str Queued) 1)"
proof (rule outage_keeps_queued_rows)
  show "db_inv (de_between (po_db idle_poller) (ps_stmt (idle_state (one_row Queued))) (ps_db (idle_state (one_row Queued))))"
    by (simp add: idle_poller_def idle_state_def one_row_inv)
  have "printable ''magnet:x''" by (simp add: printable_def ascii_def)
  then show direct: "\<not> is_direct_zim_url (d_url (default_row 0 ''wiki'' ''magnet:x'' (as_str Queued) 1))"
    by (simp add: default_row_def is_direct_zim_url_def strip_query_fragment_def to_ascii_lowercase_def
        lower_char_def ascii_def ends_with_def)
  then show "url_check idle_poller idle_params (d_url (default_row 0 ''wiki'' ''magnet:x'' (as_str Queued) 1)) = Ok ()"
    by (simp add: url_check_def idle_poller_def magnet_urls_def assert_host_not_blocked_def is_http_def)
  show "row_by_id (ps_db (idle_state (one_row Queued))) 1 = Some (default_row 0 ''wiki'' ''magnet:x'' (as_str Queued) 1)"
    by (simp add: idle_state_def one_row_lookup)
qed (simp_all add: idle_spares)

definition bound_row :: download_row where
  "bound_row = (default_row 0 ''wiki'' ''magnet:x'' (as_str Cancelled) 1)\<lparr>d_hash := Some ''abc''\<rparr>"

definition bound_db :: downloads where
  "bound_db = \<lparr>rows = [bound_row], next_id = 2\<rparr>"

theorem cancelled_binding_kept_witness:
  "\<exists>r'. row_by_id (ps_db (snd (process_cancelled idle_poller idle_params (\<lambda>_. True) None True (idle_state bound_db)))) 1 = Some r'
     \<and> has_status r' Cancelled \<and> (d_hash r' = Some ''abc'' \<or> (d_hash r' = None \<and>
        ''abc'' \<in> set (ps_removed (snd (process_cancelled idle_poller idle_params (\<lambda>_. True) None True (idle_state bound_db))))))"
proof (rule cancelled_binding_kept)
  show "db_inv (de_between (po_db idle_poller) (ps_stmt (idle_state bound_db)) (ps_db (idle_state bound_db)))"
    by (auto simp: idle_poller_def idle_state_def bound_db_def bound_row_def default_row_def db_inv_def unique_conflict_def
        active_urls_def active_names_def is_active_def)
  show "row_by_id (ps_db (idle_state bound_db)) 1 = Some bound_row"
    by (simp add: idle_state_def bound_db_def bound_row_def default_row_def row_by_id_def)
  show "process_cancelled idle_poller idle_params (\<lambda>_. True) None True (idle_state bound_db)
    = (fst (process_cancelled idle_poller idle_params (\<lambda>_. True) None True (idle_state bound_db)),
       snd (process_cancelled idle_poller idle_params (\<lambda>_. True) None True (idle_state bound_db)))" by simp
qed (simp_all add: idle_spares bound_row_def default_row_def)

end
