(* ===== verification/SearchSql.thy ===== *)
theory SearchSql
  imports Prelude
begin

text \<open>
  The SQL text of the search engine (\<open>src/search/sql.rs\<close>): fetch limits, the escaping of \<open>LIKE\<close>
  wildcards, the placeholder check and the five branch queries.

  Floating-point weights and thresholds are bound as the text \<open>f64::to_string\<close> gives; the text is an
  argument. The meaning of \<open>LIKE ... ESCAPE\<close> is Postgres' documented one.
\<close>

section \<open>Limits\<close>

definition SEARCH_HARD_LIMIT :: nat where "SEARCH_HARD_LIMIT = 500"
definition SEARCH_HARD_OFFSET :: nat where "SEARCH_HARD_OFFSET = 5000"
definition SEARCH_FETCH_HARD_CAP :: nat where "SEARCH_FETCH_HARD_CAP = SEARCH_HARD_OFFSET + SEARCH_HARD_LIMIT"

definition USIZE_MAX :: nat where "USIZE_MAX = 2 ^ 64 - 1"

definition branch_fetch_limit :: "nat \<Rightarrow> nat \<Rightarrow> nat" where
  "branch_fetch_limit limit offset = min (min (limit + offset) USIZE_MAX) SEARCH_FETCH_HARD_CAP"

definition vector_fetch_limit :: "nat \<Rightarrow> bool \<Rightarrow> nat" where
  "vector_fetch_limit fetch filtered =
     min (min (fetch * (if filtered then 4 else 2)) USIZE_MAX) SEARCH_FETCH_HARD_CAP"

section \<open>Escaping\<close>

text \<open>\<open>s.replace(c, "\\c")\<close> for one character.\<close>

definition replace_char :: "char \<Rightarrow> string \<Rightarrow> string" where
  "replace_char c s = concat (map (\<lambda>x. if x = c then [CHR 0x5C, c] else [x]) s)"

definition escape_like :: "string \<Rightarrow> string" where
  "escape_like s = replace_char CHR ''_'' (replace_char CHR ''%'' (replace_char CHR 0x5C s))"

section \<open>Queries\<close>

record sql_query =
  sq_sql :: string
  sq_params :: "string list"

function placeholder_count_from :: "nat \<Rightarrow> string \<Rightarrow> nat" where
  "placeholder_count_from n [] = n"
| "placeholder_count_from n (c # cs) =
     (if c = CHR ''$'' then
        (let digits = takeWhile is_ascii_digit cs
         in placeholder_count_from
              (if digits = [] then n
               else (case parse_unsigned 64 digits of Some k \<Rightarrow> max n k | None \<Rightarrow> n))
              (dropWhile is_ascii_digit cs))
      else placeholder_count_from n cs)"
  by pat_completeness auto
termination
  by (relation "measure (\<lambda>(_, s). length s)") (auto simp: less_Suc_eq_le length_dropWhile_le)

definition placeholder_count :: "sql_query \<Rightarrow> nat" where
  "placeholder_count sq = placeholder_count_from 0 (sq_sql sq)"

definition dollar :: "nat \<Rightarrow> string" where
  "dollar n = ''$'' @ decimal_digits n"

definition push_filters :: "sql_query \<Rightarrow> string option \<Rightarrow> string option \<Rightarrow> string \<Rightarrow> nat \<Rightarrow> sql_query" where
  "push_filters sq zim lang order_by limit =
     (let sq = (case zim of
                  Some z \<Rightarrow> sq\<lparr>sq_params := sq_params sq @ [z],
                               sq_sql := sq_sql sq @ '' AND z.name = '' @ dollar (length (sq_params sq) + 1)\<rparr>
                | None \<Rightarrow> sq);
          sq = (case lang of
                  Some l \<Rightarrow> sq\<lparr>sq_params := sq_params sq @ [l],
                               sq_sql := sq_sql sq @ '' AND a.language = '' @ dollar (length (sq_params sq) + 1)\<rparr>
                | None \<Rightarrow> sq)
      in sq\<lparr>sq_params := sq_params sq @ [decimal_digits limit],
             sq_sql := sq_sql sq @ '' '' @ order_by @ '' LIMIT '' @ dollar (length (sq_params sq) + 1) @ ''::int8''\<rparr>)"

definition ORDER_BY_SCORE_DESC :: string where
  "ORDER_BY_SCORE_DESC = ''ORDER BY score DESC, a.id''"
definition ORDER_BY_ANN :: string where
  "ORDER_BY_ANN = ''ORDER BY a.embedding <=> $1::vector''"
definition SELECT_ARTICLE_COLS :: string where
  "SELECT_ARTICLE_COLS = ''a.id, a.zim_id, a.path, a.title''"
definition SELECT_ARTICLE_TAIL :: string where
  "SELECT_ARTICLE_TAIL = '', left(a.content_preview, 600) as content_preview, a.language, z.name as zim_name''"
definition SIMILARITY_SCORE :: string where
  "SIMILARITY_SCORE = ''GREATEST(similarity(a.title_lower, $1), 0.0)''"

definition score_query ::
  "string \<Rightarrow> string \<Rightarrow> string list \<Rightarrow> string \<Rightarrow> string option \<Rightarrow> string option \<Rightarrow> nat \<Rightarrow> string \<Rightarrow> sql_query" where
  "score_query score_expr where_clause params order_by zim lang limit weight =
     (let params = params @ [weight];
          sql = ''SELECT '' @ SELECT_ARTICLE_COLS @ '', a.snippet'' @ SELECT_ARTICLE_TAIL @ '', ''
                @ dollar (length params) @ ''::float8 * '' @ score_expr
                @ '' as score FROM articles a JOIN zims z ON z.id = a.zim_id WHERE '' @ where_clause
      in push_filters \<lparr>sq_sql = sql, sq_params = params\<rparr> zim lang order_by limit)"

definition quote :: string where "quote = [CHR 0x27]"

definition snippet_col :: "bool \<Rightarrow> string" where
  "snippet_col highlight =
     (if highlight then
        ''coalesce(ts_headline('' @ quote @ ''simple'' @ quote @ '', a.content_preview, tsq.q, '' @ quote
        @ ''StartSel=<b>'' @ quote @ '', '' @ quote @ ''StopSel=</b>'' @ quote @ '', '' @ quote
        @ ''MaxFragments=1'' @ quote @ '', '' @ quote @ ''MaxWords=30'' @ quote @ '', '' @ quote
        @ ''MinWords=10'' @ quote @ ''), a.snippet)''
      else ''a.snippet'')"

definition fts_sql ::
  "string \<Rightarrow> bool \<Rightarrow> string option \<Rightarrow> string option \<Rightarrow> nat \<Rightarrow> string \<Rightarrow> sql_query" where
  "fts_sql query highlight zim lang limit weight =
     (let params = [query] @ [weight];
          sql = ''WITH tsq AS (SELECT websearch_to_tsquery('' @ quote @ ''simple'' @ quote @ '', $1) AS q) ''
                @ ''SELECT '' @ SELECT_ARTICLE_COLS @ '', '' @ snippet_col highlight @ SELECT_ARTICLE_TAIL @ '',''
                @ '' '' @ dollar (length params) @ ''::float8 * ts_rank_cd(a.search_vector, tsq.q) as score''
                @ '' FROM articles a JOIN zims z ON z.id = a.zim_id CROSS JOIN tsq''
                @ '' WHERE a.search_vector @@ websearch_to_tsquery('' @ quote @ ''simple'' @ quote @ '', $1)''
      in push_filters \<lparr>sq_sql = sql, sq_params = params\<rparr> zim lang ORDER_BY_SCORE_DESC limit)"

definition like_clause :: string where
  "like_clause = ''a.title_lower LIKE $2 ESCAPE '' @ quote @ [CHR 0x5C] @ quote"

definition trgm_prefix_sql :: "string \<Rightarrow> string option \<Rightarrow> string option \<Rightarrow> nat \<Rightarrow> string \<Rightarrow> sql_query" where
  "trgm_prefix_sql query_lower zim lang limit weight =
     score_query SIMILARITY_SCORE like_clause [query_lower, escape_like query_lower @ ''%'']
       ORDER_BY_SCORE_DESC zim lang limit weight"

definition trgm_contains_sql :: "string \<Rightarrow> string option \<Rightarrow> string option \<Rightarrow> nat \<Rightarrow> string \<Rightarrow> sql_query" where
  "trgm_contains_sql query_lower zim lang limit weight =
     score_query SIMILARITY_SCORE like_clause [query_lower, ''%'' @ escape_like query_lower @ ''%'']
       ORDER_BY_SCORE_DESC zim lang limit weight"

definition trgm_similarity_sql ::
  "string \<Rightarrow> string \<Rightarrow> string option \<Rightarrow> string option \<Rightarrow> nat \<Rightarrow> string \<Rightarrow> sql_query" where
  "trgm_similarity_sql query_lower threshold zim lang limit weight =
     score_query SIMILARITY_SCORE ''a.title_lower % $1 AND similarity(a.title_lower, $1) > $2::float8''
       [query_lower, threshold] ORDER_BY_SCORE_DESC zim lang limit weight"

definition vector_sql :: "string \<Rightarrow> string option \<Rightarrow> string option \<Rightarrow> nat \<Rightarrow> string \<Rightarrow> sql_query" where
  "vector_sql vec_str zim lang limit weight =
     (let inner = score_query ''GREATEST(1.0 - (a.embedding <=> $1::vector), 0.0)'' ''a.embedding IS NOT NULL''
                    [vec_str] ORDER_BY_ANN zim lang limit weight
      in \<lparr>sq_sql = ''SELECT * FROM ('' @ sq_sql inner @ '') s ORDER BY s.score DESC, s.id LIMIT ''
            @ dollar (length (sq_params inner) + 1) @ ''::int8'',
          sq_params = sq_params inner @ [decimal_digits limit]\<rparr>)"

text \<open>\<open>query.chars().count() >= 3\<close>: characters are counted by their first bytes.\<close>

definition trgm_arms_enabled :: "string \<Rightarrow> bool" where
  "trgm_arms_enabled query \<longleftrightarrow> length (filter (\<lambda>c. \<not> is_continuation c) query) \<ge> 3"

definition build_trgm_arms ::
  "bool \<Rightarrow> string \<Rightarrow> string option \<Rightarrow> string option \<Rightarrow> nat \<Rightarrow> string \<Rightarrow> string
    \<Rightarrow> sql_query option \<times> sql_query option \<times> sql_query option" where
  "build_trgm_arms run query_lower zim lang limit weight threshold =
     (if \<not> run then (None, None, None)
      else
        (let arms_ok = trgm_arms_enabled query_lower
         in (Some (trgm_prefix_sql query_lower zim lang limit weight),
             if arms_ok then Some (trgm_contains_sql query_lower zim lang limit weight) else None,
             if arms_ok then Some (trgm_similarity_sql query_lower threshold zim lang limit weight) else None)))"

section \<open>Placeholders\<close>

lemma placeholder_skip:
  "CHR ''$'' \<notin> set a \<Longrightarrow> placeholder_count_from n (a @ b) = placeholder_count_from n b"
  by (induction a) auto

lemma placeholder_skip_all: "CHR ''$'' \<notin> set a \<Longrightarrow> placeholder_count_from n a = n"
  using placeholder_skip [of a n "[]"] by simp

lemma placeholder_dollar:
  assumes "k < 2 ^ 64" and "s = [] \<or> \<not> is_ascii_digit (hd s)"
  shows "placeholder_count_from n (dollar k @ s) = placeholder_count_from (max n k) s"
proof -
  have d: "list_all is_ascii_digit (decimal_digits k)" "decimal_digits k \<noteq> []" using decimal_digits_props by auto
  have "takeWhile is_ascii_digit (decimal_digits k @ s) = decimal_digits k"
    "dropWhile is_ascii_digit (decimal_digits k @ s) = s"
    using assms(2) d(1) by (cases s; auto simp: list_all_iff takeWhile_append dropWhile_append)+
  then show ?thesis using d(2) parse_decimal [OF assms(1)] by (simp add: dollar_def)
qed

text \<open>\<open>uses s k\<close>: the text \<open>s\<close> has the highest placeholder \<open>k\<close>, whatever follows it but a digit.\<close>

definition starts_plain :: "string \<Rightarrow> bool" where
  "starts_plain s \<longleftrightarrow> s \<noteq> [] \<and> \<not> is_ascii_digit (hd s)"

definition uses :: "string \<Rightarrow> nat \<Rightarrow> bool" where
  "uses s k \<longleftrightarrow> (\<forall>n rest. rest = [] \<or> starts_plain rest \<longrightarrow>
     placeholder_count_from n (s @ rest) = placeholder_count_from (max n k) rest)"

lemma uses_literal: "CHR ''$'' \<notin> set s \<Longrightarrow> uses s 0"
  by (simp add: uses_def placeholder_skip)

lemma uses_dollar: "k < 2 ^ 64 \<Longrightarrow> uses (dollar k) k"
  unfolding uses_def using placeholder_dollar [of k "[]"] by (auto simp: starts_plain_def placeholder_dollar)

lemma uses_append: "uses a j \<Longrightarrow> uses b k \<Longrightarrow> starts_plain b \<Longrightarrow> uses (a @ b) (max j k)"
  by (simp add: uses_def starts_plain_def max.assoc)

lemma uses_placeholder_count: "uses (sq_sql sq) k \<Longrightarrow> placeholder_count sq = k"
  unfolding placeholder_count_def uses_def
  by (metis append_Nil2 max_0L placeholder_count_from.simps(1))

lemma starts_plain_append [simp]: "starts_plain a \<Longrightarrow> starts_plain (a @ b)"
  by (simp add: starts_plain_def)

lemma starts_plain_Cons [simp]: "starts_plain (c # s) \<longleftrightarrow> \<not> is_ascii_digit c"
  by (simp add: starts_plain_def)

lemma starts_plain_dollar [simp]: "starts_plain (dollar k)"
  by (simp add: dollar_def starts_plain_def is_ascii_digit_def ascii_def)

lemma plain_chars [simp]:
  "\<not> is_ascii_digit CHR '' ''" "\<not> is_ascii_digit CHR '',''" "\<not> is_ascii_digit CHR '':''" "\<not> is_ascii_digit CHR '')''"
  by (simp_all add: is_ascii_digit_def ascii_def)

lemma dollar_literal: "dollar (Suc 0) = ''$1''" "dollar 2 = ''$2''" "dollar (Suc (Suc 0)) = ''$2''"
  by (simp_all add: dollar_def decimal_digits.simps char_of_def bit_0)

text \<open>Text around one placeholder.\<close>

lemma uses_around:
  assumes "CHR ''$'' \<notin> set a" and "CHR ''$'' \<notin> set b" and "starts_plain b" and "k < 2 ^ 64"
  shows "uses (a @ dollar k @ b) k"
proof -
  have "uses (dollar k @ b) k"
    using uses_append [OF uses_dollar [OF assms(4)] uses_literal [OF assms(2)] assms(3)] by simp
  from uses_append [OF uses_literal [OF assms(1)] this] show ?thesis by simp
qed

lemma uses_constants:
  "uses SIMILARITY_SCORE 1" "uses ORDER_BY_SCORE_DESC 0" "uses ORDER_BY_ANN 1" "uses like_clause 2"
  "uses ''GREATEST(1.0 - (a.embedding <=> $1::vector), 0.0)'' 1" "uses ''a.embedding IS NOT NULL'' 0"
proof -
  have "uses (''GREATEST(similarity(a.title_lower, '' @ dollar 1 @ ''), 0.0)'') 1" by (rule uses_around) simp_all
  then show "uses SIMILARITY_SCORE 1" by (simp add: SIMILARITY_SCORE_def dollar_literal)
  show "uses ORDER_BY_SCORE_DESC 0" by (simp add: uses_literal ORDER_BY_SCORE_DESC_def)
  have "uses (''ORDER BY a.embedding <=> '' @ dollar 1 @ ''::vector'') 1" by (rule uses_around) simp_all
  then show "uses ORDER_BY_ANN 1" by (simp add: ORDER_BY_ANN_def dollar_literal)
  have "uses (''a.title_lower LIKE '' @ dollar 2 @ ('' ESCAPE '' @ quote @ [CHR 0x5C] @ quote)) 2"
    by (rule uses_around) (simp_all add: quote_def)
  then show "uses like_clause 2" by (simp add: like_clause_def dollar_literal)
  have "uses (''GREATEST(1.0 - (a.embedding <=> '' @ dollar 1 @ ''::vector), 0.0)'') 1" by (rule uses_around) simp_all
  then show "uses ''GREATEST(1.0 - (a.embedding <=> $1::vector), 0.0)'' 1" by (simp add: dollar_literal)
  show "uses ''a.embedding IS NOT NULL'' 0" by (simp add: uses_literal)
qed

lemma uses_similarity_clause:
  "uses ''a.title_lower % $1 AND similarity(a.title_lower, $1) > $2::float8'' 2"
proof -
  have one: "uses (''a.title_lower % '' @ dollar 1 @ '' AND similarity(a.title_lower, '') 1"
    by (rule uses_around) simp_all
  have two: "uses ([] @ dollar 1 @ '') > '') 1" by (rule uses_around) simp_all
  have three: "uses ([] @ dollar 2 @ ''::float8'') 2" by (rule uses_around) simp_all
  have "uses ((''a.title_lower % '' @ dollar 1 @ '' AND similarity(a.title_lower, '')
      @ ([] @ dollar 1 @ '') > '') @ [] @ dollar 2 @ ''::float8'') (max 1 (max 1 2))"
    by (rule uses_append [OF one uses_append [OF two three]]) simp_all
  then show ?thesis by (simp add: dollar_literal numeral_2_eq_2)
qed

lemma push_filters_uses:
  assumes "uses (sq_sql sq) k" and "k \<le> length (sq_params sq)" and "length (sq_params sq) < 100"
    and "uses order_by j" and "j \<le> length (sq_params sq)" and "starts_plain order_by"
  shows "uses (sq_sql (push_filters sq zim lang order_by limit)) (length (sq_params (push_filters sq zim lang order_by limit)))"
proof -
  have filter: "uses (s @ name @ dollar (n + 1)) (n + 1)"
    if "uses s i" "i \<le> n" "n < 110" "CHR ''$'' \<notin> set name" "starts_plain name" for s i n name
  proof -
    have "uses (name @ dollar (n + 1)) (n + 1)"
      using uses_append [OF uses_literal [OF that(4)] uses_dollar [of "n + 1"]] that(3) by simp
    from uses_append [OF that(1) this] that(2,5) show ?thesis by (simp add: max_def)
  qed
  define sq1 where "sq1 = (case zim of
      Some z \<Rightarrow> sq\<lparr>sq_params := sq_params sq @ [z],
                 sq_sql := sq_sql sq @ '' AND z.name = '' @ dollar (length (sq_params sq) + 1)\<rparr> | None \<Rightarrow> sq)"
  have 1: "\<exists>i. uses (sq_sql sq1) i \<and> i \<le> length (sq_params sq1)"
    "length (sq_params sq) \<le> length (sq_params sq1)" "length (sq_params sq1) < 101"
    using assms(1-3) filter [OF assms(1,2), of "'' AND z.name = ''"] by (auto simp: sq1_def split: option.splits)
  define sq2 where "sq2 = (case lang of
      Some l \<Rightarrow> sq1\<lparr>sq_params := sq_params sq1 @ [l],
                 sq_sql := sq_sql sq1 @ '' AND a.language = '' @ dollar (length (sq_params sq1) + 1)\<rparr> | None \<Rightarrow> sq1)"
  obtain i where i: "uses (sq_sql sq1) i" "i \<le> length (sq_params sq1)" using 1(1) by blast
  have 2: "\<exists>i. uses (sq_sql sq2) i \<and> i \<le> length (sq_params sq2)"
    "length (sq_params sq) \<le> length (sq_params sq2)" "length (sq_params sq2) < 102"
    using i 1(2,3) filter [OF i, of "'' AND a.language = ''"] by (auto simp: sq2_def split: option.splits)
  obtain h where h: "uses (sq_sql sq2) h" "h \<le> length (sq_params sq2)" using 2(1) by blast
  let ?n = "length (sq_params sq2)"
  have "uses ('' LIMIT '' @ dollar (?n + 1) @ ''::int8'') (?n + 1)" by (rule uses_around) (use 2(3) in simp_all)
  from uses_append [OF assms(4) this] have "uses (order_by @ '' LIMIT '' @ dollar (?n + 1) @ ''::int8'') (?n + 1)"
    using assms(5) 2(2) by (simp add: max_def)
  from uses_append [OF uses_literal this, of "'' ''"]
  have "uses ('' '' @ order_by @ '' LIMIT '' @ dollar (?n + 1) @ ''::int8'') (?n + 1)" using assms(6) by simp
  from uses_append [OF h(1) this] h(2) show ?thesis
    by (simp add: push_filters_def Let_def sq1_def [symmetric] sq2_def [symmetric] max_def)
qed

lemma order_plain: "starts_plain ORDER_BY_SCORE_DESC" "starts_plain ORDER_BY_ANN"
  by (simp_all add: ORDER_BY_SCORE_DESC_def ORDER_BY_ANN_def is_ascii_digit_def ascii_def)

lemma score_query_uses:
  assumes "uses score_expr i" and "uses where_clause j" and "uses order_by k"
    and "max i (max j k) \<le> length params + 1" and "length params < 90" and "starts_plain order_by"
    and "starts_plain score_expr" and "starts_plain where_clause"
  shows "uses (sq_sql (score_query score_expr where_clause params order_by zim lang limit w))
    (length (sq_params (score_query score_expr where_clause params order_by zim lang limit w)))"
proof -
  let ?n = "length (params @ [w])"
  let ?head = "''SELECT '' @ SELECT_ARTICLE_COLS @ '', a.snippet'' @ SELECT_ARTICLE_TAIL @ '', ''"
  have head: "uses (?head @ dollar ?n @ ''::float8 * '') ?n"
    by (rule uses_around) (use assms(5) in \<open>simp_all add: SELECT_ARTICLE_COLS_def SELECT_ARTICLE_TAIL_def\<close>)
  have "uses ('' as score FROM articles a JOIN zims z ON z.id = a.zim_id WHERE '' @ where_clause) (max 0 j)"
    by (rule uses_append [OF uses_literal assms(2,8)]) simp
  note clause = this
  have m: "max ?n (max i (max 0 j)) = ?n" using assms(4) by simp
  have "uses ((?head @ dollar ?n @ ''::float8 * '') @ score_expr
      @ '' as score FROM articles a JOIN zims z ON z.id = a.zim_id WHERE '' @ where_clause) (max ?n (max i (max 0 j)))"
    by (rule uses_append [OF head uses_append [OF assms(1) clause]]) (use assms(7) in simp_all)
  then have sql: "uses (sq_sql \<lparr>sq_sql = ''SELECT '' @ SELECT_ARTICLE_COLS @ '', a.snippet'' @ SELECT_ARTICLE_TAIL @ '', ''
      @ dollar ?n @ ''::float8 * '' @ score_expr
      @ '' as score FROM articles a JOIN zims z ON z.id = a.zim_id WHERE '' @ where_clause, sq_params = params @ [w]\<rparr>) ?n"
    by (simp only: sql_query.select_convs append_assoc m)
  show ?thesis
    unfolding score_query_def Let_def
    by (rule push_filters_uses [OF sql _ _ assms(3) _ assms(6)]) (use assms(4,5) in simp_all)
qed

lemma branch_placeholders:
  "placeholder_count (fts_sql q h zim lang limit w) = length (sq_params (fts_sql q h zim lang limit w))"
  "placeholder_count (trgm_prefix_sql q zim lang limit w) = length (sq_params (trgm_prefix_sql q zim lang limit w))"
  "placeholder_count (trgm_contains_sql q zim lang limit w) = length (sq_params (trgm_contains_sql q zim lang limit w))"
  "placeholder_count (trgm_similarity_sql q t zim lang limit w) = length (sq_params (trgm_similarity_sql q t zim lang limit w))"
proof -
  have plain: "starts_plain SIMILARITY_SCORE" "starts_plain like_clause"
    by (simp_all add: SIMILARITY_SCORE_def like_clause_def is_ascii_digit_def ascii_def)
  note score = score_query_uses [OF uses_constants(1) _ uses_constants(2) _ _ order_plain(1) plain(1)]
  show "placeholder_count (trgm_prefix_sql q zim lang limit w) = length (sq_params (trgm_prefix_sql q zim lang limit w))"
    "placeholder_count (trgm_contains_sql q zim lang limit w) = length (sq_params (trgm_contains_sql q zim lang limit w))"
    unfolding trgm_prefix_sql_def trgm_contains_sql_def
    by (rule uses_placeholder_count, rule score [OF uses_constants(4) _ _ plain(2)], simp_all)+
  show "placeholder_count (trgm_similarity_sql q t zim lang limit w) = length (sq_params (trgm_similarity_sql q t zim lang limit w))"
    unfolding trgm_similarity_sql_def
    by (rule uses_placeholder_count, rule score [OF uses_similarity_clause])
       (simp_all add: is_ascii_digit_def ascii_def)
  have one: "uses (''WITH tsq AS (SELECT websearch_to_tsquery('' @ quote @ ''simple'' @ quote @ '', '' @ dollar 1 @ '') AS q) '') 1"
    using uses_around [of "''WITH tsq AS (SELECT websearch_to_tsquery('' @ quote @ ''simple'' @ quote @ '', ''" "'') AS q) ''" 1]
    by (simp add: quote_def)
  have two: "uses ((''SELECT '' @ SELECT_ARTICLE_COLS @ '', '' @ snippet_col h @ SELECT_ARTICLE_TAIL @ '','' @ '' '') @ dollar 2
      @ ''::float8 * ts_rank_cd(a.search_vector, tsq.q) as score''
      @ '' FROM articles a JOIN zims z ON z.id = a.zim_id CROSS JOIN tsq''
      @ '' WHERE a.search_vector @@ websearch_to_tsquery('' @ quote @ ''simple'' @ quote @ '', '') 2"
    by (rule uses_around) (simp_all add: SELECT_ARTICLE_COLS_def SELECT_ARTICLE_TAIL_def snippet_col_def quote_def)
  have three: "uses ([] @ dollar 1 @ '')'') 1" by (rule uses_around) simp_all
  show "placeholder_count (fts_sql q h zim lang limit w) = length (sq_params (fts_sql q h zim lang limit w))"
  proof -
    have "uses ((''WITH tsq AS (SELECT websearch_to_tsquery('' @ quote @ ''simple'' @ quote @ '', '' @ dollar 1 @ '') AS q) '')
      @ ((''SELECT '' @ SELECT_ARTICLE_COLS @ '', '' @ snippet_col h @ SELECT_ARTICLE_TAIL @ '','' @ '' '') @ dollar 2
      @ ''::float8 * ts_rank_cd(a.search_vector, tsq.q) as score''
      @ '' FROM articles a JOIN zims z ON z.id = a.zim_id CROSS JOIN tsq''
      @ '' WHERE a.search_vector @@ websearch_to_tsquery('' @ quote @ ''simple'' @ quote @ '', '')
      @ [] @ dollar 1 @ '')'') (max 1 (max 2 1))"
      by (rule uses_append [OF one uses_append [OF two three]]) (simp_all add: is_ascii_digit_def ascii_def)
    then have "uses (sq_sql \<lparr>sq_sql = ''WITH tsq AS (SELECT websearch_to_tsquery('' @ quote @ ''simple'' @ quote @ '', $1) AS q) ''
                @ ''SELECT '' @ SELECT_ARTICLE_COLS @ '', '' @ snippet_col h @ SELECT_ARTICLE_TAIL @ '',''
                @ '' '' @ dollar (length ([q] @ [w])) @ ''::float8 * ts_rank_cd(a.search_vector, tsq.q) as score''
                @ '' FROM articles a JOIN zims z ON z.id = a.zim_id CROSS JOIN tsq''
                @ '' WHERE a.search_vector @@ websearch_to_tsquery('' @ quote @ ''simple'' @ quote @ '', $1)'',
              sq_params = [q] @ [w]\<rparr>) 2"
      by (simp add: dollar_literal numeral_2_eq_2)
    from push_filters_uses [OF this _ _ uses_constants(2) _ order_plain(1)] show ?thesis
      unfolding fts_sql_def Let_def by (intro uses_placeholder_count) simp
  qed
qed

lemma vector_placeholders:
  "placeholder_count (vector_sql v zim lang limit w) = length (sq_params (vector_sql v zim lang limit w))"
proof -
  define inner where "inner = score_query ''GREATEST(1.0 - (a.embedding <=> $1::vector), 0.0)'' ''a.embedding IS NOT NULL''
    [v] ORDER_BY_ANN zim lang limit w"
  let ?n = "length (sq_params inner)"
  have n: "?n < 100"
    by (auto simp: inner_def score_query_def push_filters_def Let_def split: option.splits)
  have inner: "uses (sq_sql inner) ?n"
    unfolding inner_def
    by (rule score_query_uses [OF uses_constants(5,6,3) _ _ order_plain(2)]) (simp_all add: is_ascii_digit_def ascii_def)
  have tail: "uses ('') s ORDER BY s.score DESC, s.id LIMIT '' @ dollar (?n + 1) @ ''::int8'') (?n + 1)"
    by (rule uses_around) (use n in simp_all)
  have "uses (sq_sql inner @ '') s ORDER BY s.score DESC, s.id LIMIT '' @ dollar (?n + 1) @ ''::int8'') (max ?n (?n + 1))"
    by (rule uses_append [OF inner tail]) simp
  then have "uses (''SELECT * FROM ('' @ sq_sql inner @ '') s ORDER BY s.score DESC, s.id LIMIT '' @ dollar (?n + 1) @ ''::int8'')
      (max 0 (max ?n (?n + 1)))"
    by (intro uses_append [OF uses_literal])
       (auto simp: inner_def score_query_def push_filters_def Let_def is_ascii_digit_def ascii_def split: option.splits)
  then show ?thesis
    unfolding vector_sql_def Let_def inner_def [symmetric] by (intro uses_placeholder_count) simp
qed

text \<open>The text of a branch query with every argument blanked out that is not a choice of its shape.\<close>

definition blank :: "string option \<Rightarrow> string option" where
  "blank = map_option (\<lambda>_. [])"

lemma push_filters_text:
  "length (sq_params a) = length (sq_params b) \<Longrightarrow> sq_sql a = sq_sql b \<Longrightarrow>
   sq_sql (push_filters a zim lang order_by limit) = sq_sql (push_filters b (blank zim) (blank lang) order_by 0)
   \<and> length (sq_params (push_filters a zim lang order_by limit))
     = length (sq_params (push_filters b (blank zim) (blank lang) order_by 0))"
  by (cases zim; cases lang) (simp_all add: push_filters_def blank_def Let_def)

lemma score_query_text:
  "length params = length params' \<Longrightarrow>
   sq_sql (score_query se wc params order_by zim lang limit w)
     = sq_sql (score_query se wc params' order_by (blank zim) (blank lang) 0 [])
   \<and> length (sq_params (score_query se wc params order_by zim lang limit w))
     = length (sq_params (score_query se wc params' order_by (blank zim) (blank lang) 0 []))"
  unfolding score_query_def Let_def by (rule push_filters_text) simp_all

text \<open>
  C14. The search queries are parameterised. The SQL text of every branch depends on nothing but which
  filters are present and whether highlighting is on: the query, the filter values, limits, weights
  and thresholds only reach the bound parameters. And the highest placeholder of the text is the
  number of parameters bound, for every branch and all arguments, so the debug assertions of the
  engine never fire and Postgres never sees a missing parameter.
\<close>

theorem queries_are_parameterised:
  "sq_sql (fts_sql q h zim lang limit w) = sq_sql (fts_sql [] h (blank zim) (blank lang) 0 [])
   \<and> sq_sql (trgm_prefix_sql q zim lang limit w) = sq_sql (trgm_prefix_sql [] (blank zim) (blank lang) 0 [])
   \<and> sq_sql (trgm_contains_sql q zim lang limit w) = sq_sql (trgm_contains_sql [] (blank zim) (blank lang) 0 [])
   \<and> sq_sql (trgm_similarity_sql q t zim lang limit w) = sq_sql (trgm_similarity_sql [] [] (blank zim) (blank lang) 0 [])
   \<and> sq_sql (vector_sql q zim lang limit w) = sq_sql (vector_sql [] (blank zim) (blank lang) 0 [])
   \<and> list_all (\<lambda>sq. placeholder_count sq = length (sq_params sq))
       [fts_sql q h zim lang limit w, trgm_prefix_sql q zim lang limit w, trgm_contains_sql q zim lang limit w,
        trgm_similarity_sql q t zim lang limit w, vector_sql q zim lang limit w]"
proof (intro conjI)
  show "sq_sql (fts_sql q h zim lang limit w) = sq_sql (fts_sql [] h (blank zim) (blank lang) 0 [])"
    unfolding fts_sql_def Let_def by (rule push_filters_text [THEN conjunct1]) simp_all
  show "sq_sql (trgm_prefix_sql q zim lang limit w) = sq_sql (trgm_prefix_sql [] (blank zim) (blank lang) 0 [])"
    "sq_sql (trgm_contains_sql q zim lang limit w) = sq_sql (trgm_contains_sql [] (blank zim) (blank lang) 0 [])"
    "sq_sql (trgm_similarity_sql q t zim lang limit w) = sq_sql (trgm_similarity_sql [] [] (blank zim) (blank lang) 0 [])"
    unfolding trgm_prefix_sql_def trgm_contains_sql_def trgm_similarity_sql_def
    by (rule score_query_text [THEN conjunct1], simp)+
  have "length [q] = length [[] :: string]" by simp
  from score_query_text [OF this] show "sq_sql (vector_sql q zim lang limit w) = sq_sql (vector_sql [] (blank zim) (blank lang) 0 [])"
    unfolding vector_sql_def Let_def sql_query.select_convs by metis
qed (simp add: branch_placeholders vector_placeholders)

section \<open>Literal matching\<close>

text \<open>\<open>LIKE\<close> with a backslash as escape: \<open>%\<close> stands for any text, \<open>_\<close> for one character.\<close>

function like :: "string \<Rightarrow> string \<Rightarrow> bool" where
  "like [] s = (s = [])"
| "like (p # ps) s =
     (if p = CHR 0x5C then (case ps of [] \<Rightarrow> False | c # ps' \<Rightarrow> s \<noteq> [] \<and> hd s = c \<and> like ps' (tl s))
      else if p = CHR ''%'' then like ps s \<or> (case s of [] \<Rightarrow> False | _ # t \<Rightarrow> like (p # ps) t)
      else if p = CHR ''_'' then s \<noteq> [] \<and> like ps (dropWhile is_continuation (tl s))
      else s \<noteq> [] \<and> hd s = p \<and> like ps (tl s))"
  by pat_completeness auto
termination
proof (relation "measure (\<lambda>(p, s). length p + length s)")
  fix p :: char and ps s :: string
  have "length (dropWhile is_continuation (tl s)) \<le> length s"
    by (rule le_trans [OF length_dropWhile_le]) simp
  then show "((ps, dropWhile is_continuation (tl s)), p # ps, s) \<in> measure (\<lambda>(p, s). length p + length s)"
    by simp
qed (auto simp: neq_Nil_conv)

declare like.simps [simp del]

lemmas like_nil = like.simps(1)

lemma like_backslash: "like (CHR 0x5C # c # ps) s \<longleftrightarrow> s \<noteq> [] \<and> hd s = c \<and> like ps (tl s)"
  by (simp add: like.simps(2) [of "CHR 0x5C"])

lemma like_plain:
  "p \<notin> {CHR 0x5C, CHR ''%'', CHR ''_''} \<Longrightarrow> like (p # ps) s \<longleftrightarrow> s \<noteq> [] \<and> hd s = p \<and> like ps (tl s)"
  by (subst like.simps(2)) auto

lemma like_percent_step: "like (CHR ''%'' # ps) s \<longleftrightarrow> like ps s \<or> s \<noteq> [] \<and> like (CHR ''%'' # ps) (tl s)"
  by (subst like.simps(2)) (cases s; simp)

lemma replace_char_simps [simp]:
  "replace_char c [] = []"
  "replace_char c (x # s) = (if x = c then [CHR 0x5C, c] else [x]) @ replace_char c s"
  by (simp_all add: replace_char_def)

lemma escape_like_simps:
  "escape_like [] = []"
  "escape_like (x # s) = (if x \<in> {CHR 0x5C, CHR ''%'', CHR ''_''} then [CHR 0x5C, x] else [x]) @ escape_like s"
  by (auto simp: escape_like_def)

lemma like_escaped: "like (escape_like q @ ps) s \<longleftrightarrow> (\<exists>t. s = q @ t \<and> like ps t)"
proof (induction q arbitrary: s)
  case (Cons x q)
  have "like (escape_like (x # q) @ ps) s \<longleftrightarrow> s \<noteq> [] \<and> hd s = x \<and> like (escape_like q @ ps) (tl s)"
    by (auto simp: escape_like_simps like_backslash like_plain)
  also have "\<dots> \<longleftrightarrow> s \<noteq> [] \<and> hd s = x \<and> (\<exists>t. tl s = q @ t \<and> like ps t)" using Cons.IH [of "tl s"] by simp
  finally show ?case by (cases s) auto
qed (simp add: escape_like_simps)

lemma like_anywhere: "like (CHR ''%'' # ps) s \<longleftrightarrow> (\<exists>a t. s = a @ t \<and> like ps t)"
proof (induction s)
  case Nil
  show ?case by (subst like_percent_step) simp
next
  case (Cons y s)
  have "like (CHR ''%'' # ps) (y # s) \<longleftrightarrow> like ps (y # s) \<or> (\<exists>a t. s = a @ t \<and> like ps t)"
    by (subst like_percent_step) (simp add: Cons)
  then show ?case by (metis append_Nil append_Cons append_eq_Cons_conv)
qed

lemma like_percent: "like ''%'' s"
  by (simp add: like_anywhere like_nil)

text \<open>
  A query matches literally. Whatever wildcards and backslashes a query contains, the pattern of
  the prefix branch matches exactly the titles that start with it, and the pattern of the contains
  branch exactly the titles that contain it.
\<close>

theorem like_patterns_literal:
  "(like (sq_params (trgm_prefix_sql q zim lang limit w) ! 1) title \<longleftrightarrow> starts_with title q)
   \<and> (like (sq_params (trgm_contains_sql q zim lang limit w) ! 1) title \<longleftrightarrow> str_contains title q)"
proof -
  have second: "sq_params (score_query se wc [a, b] order_by zim lang limit w) ! 1 = b" for se wc a b order_by
    by (auto simp: score_query_def push_filters_def Let_def split: option.splits)
  show ?thesis
    unfolding trgm_prefix_sql_def trgm_contains_sql_def second append_Cons append_Nil append_assoc
      like_escaped like_anywhere starts_with_iff str_contains_iff
    by (auto simp: like_nil)
qed

end
