(* ===== verification/SettingsCache.thy ===== *)
theory SettingsCache
  imports NetGuard Tokens Settings
begin

text \<open>
  The settings cache over its table (\<open>src/settings/cache.rs\<close>, \<open>src/settings/tokens.rs\<close>) and the
  encryption of secret rows at rest (\<open>src/settings/encrypt.rs\<close>).

  AES-GCM and HKDF (the \<open>ring\<close> crate) are the record \<open>cipher\<close>; the nonce drawn for a key is an
  argument. A transaction has one of three outcomes: committed, failed with nothing applied, or
  committed with the acknowledgement lost. What other tasks did while an operation waited is an
  argument of it.
\<close>

section \<open>Encryption at rest\<close>

record cipher =
  hkdf :: "string \<Rightarrow> string \<Rightarrow> string \<Rightarrow> string" \<comment> \<open>salt, info, secret\<close>
  seal :: "string \<Rightarrow> string \<Rightarrow> string \<Rightarrow> string \<times> string" \<comment> \<open>key, nonce, plaintext; ciphertext and tag\<close>
  open_sealed :: "string \<Rightarrow> string \<Rightarrow> string \<Rightarrow> string option" \<comment> \<open>key, nonce, ciphertext followed by the tag\<close>

definition ENC_PREFIX :: string where "ENC_PREFIX = ''enc:v1:''"

definition ENCRYPTED_AT_REST_KEYS :: "string list" where
  "ENCRYPTED_AT_REST_KEYS = [KEY_TORRENT_PASSWORD, KEY_EMBEDDING_API_KEY, KEY_ACCESS_READ_ONLY_TOKEN]"

definition is_encrypted_at_rest_key :: "string \<Rightarrow> bool" where
  "is_encrypted_at_rest_key key \<longleftrightarrow> key \<in> set ENCRYPTED_AT_REST_KEYS"

definition KEK_SALT :: string where "KEK_SALT = ''zimservice::settings-kek-v1''"
definition KEK_INFO :: string where "KEK_INFO = ''zimservice::settings-kek-v1''"

definition derive_kek :: "cipher \<Rightarrow> string \<Rightarrow> string" where
  "derive_kek C security_key = hkdf C KEK_SALT KEK_INFO security_key"

definition encrypt_value :: "cipher \<Rightarrow> string \<Rightarrow> string \<Rightarrow> string \<Rightarrow> string" where
  "encrypt_value C nonce kek plaintext =
     (let (ct, tag) = seal C kek nonce plaintext in ENC_PREFIX @ hex_encode (nonce @ ct @ tag))"

text \<open>\<open>String::from_utf8\<close>: the well-formed byte sequences of the Unicode standard.\<close>

definition byte_in :: "nat \<Rightarrow> nat \<Rightarrow> char \<Rightarrow> bool" where
  "byte_in lo hi c \<longleftrightarrow> lo \<le> ascii c \<and> ascii c \<le> hi"

fun utf8_valid :: "string \<Rightarrow> bool" where
  "utf8_valid [] = True"
| "utf8_valid (a # s) =
     (if byte_in 0 127 a then utf8_valid s
      else (case s of
        [] \<Rightarrow> False
      | b # s2 \<Rightarrow>
          if byte_in 0xC2 0xDF a then byte_in 0x80 0xBF b \<and> utf8_valid s2
          else (case s2 of
            [] \<Rightarrow> False
          | c # s3 \<Rightarrow>
              if byte_in 0xE0 0xEF a then
                byte_in (if ascii a = 0xE0 then 0xA0 else 0x80) (if ascii a = 0xED then 0x9F else 0xBF) b
                \<and> byte_in 0x80 0xBF c \<and> utf8_valid s3
              else (case s3 of
                [] \<Rightarrow> False
              | d # s4 \<Rightarrow>
                  byte_in 0xF0 0xF4 a
                  \<and> byte_in (if ascii a = 0xF0 then 0x90 else 0x80) (if ascii a = 0xF4 then 0x8F else 0xBF) b
                  \<and> byte_in 0x80 0xBF c \<and> byte_in 0x80 0xBF d \<and> utf8_valid s4))))"

definition decrypt_value :: "cipher \<Rightarrow> string \<Rightarrow> string \<Rightarrow> string \<Rightarrow> (string, error) result run" where
  "decrypt_value C key kek stored =
     (case strip_prefix ENC_PREFIX stored of
        None \<Rightarrow> Done (Ok stored)
      | Some hex_body \<Rightarrow>
          run_bind (hex_decode hex_body) (\<lambda>decoded.
            case decoded of
              None \<Rightarrow> Done (Err (SettingsDecrypt key))
            | Some buf \<Rightarrow>
                if length buf < 12 + 16 then Done (Err (SettingsDecrypt key))
                else (case open_sealed C kek (take 12 buf) (drop 12 buf) of
                        None \<Rightarrow> Done (Err (SettingsDecrypt key))
                      | Some plain \<Rightarrow>
                          if utf8_valid plain then Done (Ok plain) else Done (Err (SettingsDecrypt key)))))"

section \<open>State\<close>

record settings_inner =
  si_cache :: "string \<Rightarrow> json option"
  si_env_locked :: "string \<Rightarrow> string option"
  si_env_snapshot :: "(string \<times> string) list"
  si_token_cache :: token_cache
  si_ro_token_cache :: token_cache
  si_generation :: u64
  si_type_mismatches :: "string \<Rightarrow> string option"
  si_multi_instance :: bool
  si_kek :: "string option"

record setting_row =
  sr_value :: json
  sr_category :: string

type_synonym settings_table = "string \<Rightarrow> setting_row option"

datatype tx_outcome = Tx_ok | Tx_failed sqlx_error | Tx_lost sqlx_error

text \<open>The tables after a transaction with this effect, and the error its caller sees.\<close>

fun tx_apply :: "tx_outcome \<Rightarrow> ('d \<Rightarrow> 'd) \<Rightarrow> 'd \<Rightarrow> sqlx_error option \<times> 'd" where
  "tx_apply Tx_ok f db = (None, f db)"
| "tx_apply (Tx_failed e) f db = (Some e, db)"
| "tx_apply (Tx_lost e) f db = (Some e, f db)"

definition category_of :: "string \<Rightarrow> string" where
  "category_of key = hd (split_on CHR ''.'' key)"

definition stored_value_for :: "cipher \<Rightarrow> string \<Rightarrow> string option \<Rightarrow> string \<Rightarrow> json \<Rightarrow> json" where
  "stored_value_for C nonce kek key value =
     (case kek of
        Some k \<Rightarrow>
          if is_encrypted_at_rest_key key
          then (case json_str value of
                  Some s \<Rightarrow> if s \<noteq> [] then JStr (encrypt_value C nonce k s) else value
                | None \<Rightarrow> value)
          else value
      | None \<Rightarrow> value)"

definition bump_settings_generation :: "settings_inner \<Rightarrow> settings_inner" where
  "bump_settings_generation st = st\<lparr>si_generation := si_generation st + 1\<rparr>"

definition invalidate_tokens :: "settings_inner \<Rightarrow> settings_inner" where
  "invalidate_tokens st =
     st\<lparr>si_token_cache := cache_clear (si_token_cache st), si_ro_token_cache := cache_clear (si_ro_token_cache st)\<rparr>"

definition snapshot_type_mismatches :: "(string \<Rightarrow> json option) \<Rightarrow> string \<Rightarrow> string option" where
  "snapshot_type_mismatches m = (\<lambda>key. Option.bind (m key) (type_mismatch key))"

definition set_type_mismatches :: "(string \<Rightarrow> string option) \<Rightarrow> settings_inner \<Rightarrow> settings_inner" where
  "set_type_mismatches mm st = st\<lparr>si_type_mismatches := mm\<rparr>"

definition clear_type_mismatches :: "string list \<Rightarrow> settings_inner \<Rightarrow> settings_inner" where
  "clear_type_mismatches keys st =
     st\<lparr>si_type_mismatches := fold (\<lambda>k mm. mm(k := None)) keys (si_type_mismatches st)\<rparr>"

section \<open>Reload\<close>

text \<open>
  The decryption pass: \<open>map.iter_mut()\<close> visits the rows in the order given. It returns the map with
  the plaintexts and the secret rows that were still stored in the clear.
\<close>

fun decrypt_rows ::
  "cipher \<Rightarrow> string \<Rightarrow> string list \<Rightarrow> (string \<Rightarrow> json option)
    \<Rightarrow> ((string \<Rightarrow> json option) \<times> (string \<times> string) list, error) result run" where
  "decrypt_rows C kek [] m = Done (Ok (m, []))"
| "decrypt_rows C kek (k # ks) m =
     (case (if is_encrypted_at_rest_key k then Option.bind (m k) json_str else None) of
        None \<Rightarrow> decrypt_rows C kek ks m
      | Some s \<Rightarrow>
          if starts_with s ENC_PREFIX then
            run_bind (decrypt_value C k kek s) (\<lambda>r.
              case r of
                Inl e \<Rightarrow> Done (Err e)
              | Inr plain \<Rightarrow> decrypt_rows C kek ks (m(k \<mapsto> JStr plain)))
          else if s \<noteq> [] then
            run_bind (decrypt_rows C kek ks m) (\<lambda>r.
              case r of Inl e \<Rightarrow> Done (Err e) | Inr (m', legacy) \<Rightarrow> Done (Ok (m', (k, s) # legacy)))
          else decrypt_rows C kek ks m)"

definition seed_missing :: "(string \<Rightarrow> json option) \<Rightarrow> (string \<Rightarrow> json option) \<times> (string \<times> json) list" where
  "seed_missing m =
     (let seeded = filter (\<lambda>(k, v). m k = None) (map (\<lambda>d. (sd_key d, sd_default d)) SETTING_DEFS)
      in (m ++ map_of seeded, seeded))"

text \<open>\<open>INSERT \<dots> ON CONFLICT (key) DO NOTHING\<close> for every seeded default.\<close>

definition insert_seeds ::
  "cipher \<Rightarrow> (string \<Rightarrow> string) \<Rightarrow> string option \<Rightarrow> (string \<times> json) list \<Rightarrow> settings_table \<Rightarrow> settings_table" where
  "insert_seeds C nonce kek seeded db =
     fold (\<lambda>(k, v) db. if db k = None
                        then db(k \<mapsto> \<lparr>sr_value = stored_value_for C (nonce k) kek k v, sr_category = category_of k\<rparr>)
                        else db) seeded db"

text \<open>\<open>UPDATE settings SET value = $1 WHERE key = $2 AND value = $3\<close> for every legacy row.\<close>

definition reencrypt_rows ::
  "cipher \<Rightarrow> (string \<Rightarrow> string) \<Rightarrow> string \<Rightarrow> (string \<times> string) list \<Rightarrow> settings_table \<Rightarrow> settings_table" where
  "reencrypt_rows C nonce kek legacy db =
     fold (\<lambda>(k, s) db. case db k of
                          Some row \<Rightarrow> if sr_value row = JStr s
                                      then db(k \<mapsto> row\<lparr>sr_value := JStr (encrypt_value C (nonce k) kek s)\<rparr>) else db
                        | None \<Rightarrow> db) legacy db"

record reload_env =
  re_fetch :: "sqlx_error option"
  re_order :: "string list" \<comment> \<open>iteration order of the fetched map\<close>
  re_nonce :: "string \<Rightarrow> string"
  re_seed_tx :: tx_outcome
  re_crypt_tx :: tx_outcome
  re_before_seed :: "settings_table \<Rightarrow> settings_table"
  re_before_crypt :: "settings_table \<Rightarrow> settings_table"

definition finish_reload :: "(string \<Rightarrow> json option) \<Rightarrow> settings_inner \<Rightarrow> settings_inner" where
  "finish_reload m st =
     (let m = apply_env_snapshot (si_env_snapshot st) m;
          st = set_type_mismatches (snapshot_type_mismatches m) st
      in bump_settings_generation (invalidate_tokens (st\<lparr>si_cache := m\<rparr>)))"

definition reload ::
  "cipher \<Rightarrow> reload_env \<Rightarrow> settings_inner \<Rightarrow> settings_table
    \<Rightarrow> (unit, error) result run \<times> settings_inner \<times> settings_table" where
  "reload C E st db =
     (case re_fetch E of
        Some e \<Rightarrow> (Done (Err (Database e)), st, db)
      | None \<Rightarrow>
          (case (case si_kek st of
                   Some kek \<Rightarrow> decrypt_rows C kek (re_order E) (\<lambda>k. map_option sr_value (db k))
                 | None \<Rightarrow> Done (Ok (\<lambda>k. map_option sr_value (db k), []))) of
             Panicked \<Rightarrow> (Panicked, st, db)
           | Done (Inl e) \<Rightarrow> (Done (Err e), st, db)
           | Done (Inr (m, legacy)) \<Rightarrow>
               let (m, seeded) = seed_missing m;
                   (e1, db) = (if seeded = [] then (None, db)
                               else tx_apply (re_seed_tx E) (insert_seeds C (re_nonce E) (si_kek st) seeded) (re_before_seed E db))
               in case e1 of
                    Some e \<Rightarrow> (Done (Err (Database e)), st, db)
                  | None \<Rightarrow>
                      let (e2, db) = (case si_kek st of
                                        Some kek \<Rightarrow>
                                          if legacy = [] then (None, db)
                                          else tx_apply (re_crypt_tx E) (reencrypt_rows C (re_nonce E) kek legacy)
                                                 (re_before_crypt E db)
                                      | None \<Rightarrow> (None, db))
                      in case e2 of
                           Some e \<Rightarrow> (Done (Err (Database e)), st, db)
                         | None \<Rightarrow> (Done (Ok ()), finish_reload m st, db)))"

definition load_with_security_key ::
  "cipher \<Rightarrow> reload_env \<Rightarrow> (string \<Rightarrow> string option) \<Rightarrow> (string \<times> string) list \<Rightarrow> bool \<Rightarrow> string option
    \<Rightarrow> settings_table \<Rightarrow> (settings_inner, error) result run \<times> settings_table" where
  "load_with_security_key C E env_locked env_snapshot multi security_key db =
     (let st = \<lparr>si_cache = Map.empty, si_env_locked = env_locked, si_env_snapshot = env_snapshot,
                si_token_cache = default_cache, si_ro_token_cache = default_cache, si_generation = 0,
                si_type_mismatches = Map.empty, si_multi_instance = multi,
                si_kek = map_option (derive_kek C) security_key\<rparr>;
          (r, st, db) = reload C E st db
      in (run_bind r (\<lambda>r. case r of Inl e \<Rightarrow> Done (Err e) | Inr _ \<Rightarrow> Done (Ok st)), db))"

definition sync_from_config :: "config \<Rightarrow> settings_inner \<Rightarrow> settings_inner" where
  "sync_from_config c st = st\<lparr>si_cache := sync_config_values c (si_cache st)\<rparr>"

section \<open>Reads\<close>

definition get_setting :: "string \<Rightarrow> settings_inner \<Rightarrow> json option" where
  "get_setting key st = si_cache st key"

definition get_typed :: "(json \<Rightarrow> 'a option) \<Rightarrow> string \<Rightarrow> settings_inner \<Rightarrow> 'a option" where
  "get_typed from_value key st = Option.bind (get_setting key st) from_value"

definition downloads_allow_private_networks :: "settings_inner \<Rightarrow> bool" where
  "downloads_allow_private_networks st =
     (case get_typed from_value_bool KEY_DOWNLOADS_ALLOW_PRIVATE_NETWORKS st of Some b \<Rightarrow> b | None \<Rightarrow> False)"

definition torrent_enabled :: "settings_inner \<Rightarrow> bool" where
  "torrent_enabled st = (case get_typed from_value_bool KEY_TORRENT_ENABLED st of Some b \<Rightarrow> b | None \<Rightarrow> False)"

definition torrent_max_active :: "settings_inner \<Rightarrow> int" where
  "torrent_max_active st = (case get_typed (from_value_signed 32) KEY_TORRENT_MAX_ACTIVE st of Some n \<Rightarrow> n | None \<Rightarrow> 4)"

definition embedding_enabled :: "settings_inner \<Rightarrow> bool" where
  "embedding_enabled st = (case get_typed from_value_bool KEY_EMBEDDING_ENABLED st of Some b \<Rightarrow> b | None \<Rightarrow> False)"

definition access_mode :: "settings_inner \<Rightarrow> string" where
  "access_mode st = (case get_typed from_value_str KEY_ACCESS_MODE st of Some s \<Rightarrow> s | None \<Rightarrow> ACCESS_MODE_OPEN)"

definition require_auth_for_reads :: "settings_inner \<Rightarrow> bool" where
  "require_auth_for_reads st =
     (case get_typed from_value_bool KEY_ACCESS_REQUIRE_AUTH_FOR_READS st of
        Some b \<Rightarrow> b
      | None \<Rightarrow> (case json_bool (default_value KEY_ACCESS_REQUIRE_AUTH_FOR_READS) of Some b \<Rightarrow> b | None \<Rightarrow> False))"

definition lock_note :: "string \<Rightarrow> (string \<times> json) list" where
  "lock_note by_whom = [(''locked'', JBool True), (''locked_by'', JStr by_whom)]"

definition redacted_entry :: "string \<Rightarrow> json \<Rightarrow> bool \<Rightarrow> string option \<Rightarrow> json" where
  "redacted_entry key value authenticated env_var =
     JObj ((''value'',
            if \<not> authenticated \<and> policy sp_topology key \<and> nonempty_str value then JStr ''[redacted]''
            else redact key value)
           # (case env_var of
                Some var \<Rightarrow> lock_note var
              | None \<Rightarrow>
                  if policy sp_api_immutable key then lock_note ''set via environment at startup''
                  else if policy sp_config_only key then lock_note ''environment (not runtime)''
                  else []))"

definition short_key :: "string \<Rightarrow> string" where
  "short_key key = (case split_on CHR ''.'' key of _ # k # _ \<Rightarrow> k | _ \<Rightarrow> key)"

text \<open>The grouped answer: category and short key to entry; \<open>order\<close> is the iteration order of the map.\<close>

definition all_grouped_for :: "string list \<Rightarrow> bool \<Rightarrow> settings_inner \<Rightarrow> string \<Rightarrow> string \<Rightarrow> json option" where
  "all_grouped_for order authenticated st =
     fold (\<lambda>key g. case si_cache st key of
                     None \<Rightarrow> g
                   | Some v \<Rightarrow>
                       let cat = category_of key
                       in g(cat := (g cat)(short_key key \<mapsto> redacted_entry key v authenticated (si_env_locked st key))))
       order (\<lambda>_ _. None)"

definition type_mismatch_report :: "string list \<Rightarrow> settings_inner \<Rightarrow> string list" where
  "type_mismatch_report keys st =
     concat (map (\<lambda>k. case si_type_mismatches st k of Some reason \<Rightarrow> [k @ '': '' @ reason] | None \<Rightarrow> []) keys)"

section \<open>Updates\<close>

definition effective_private_flag :: "json option \<Rightarrow> bool \<Rightarrow> bool" where
  "effective_private_flag pending cached =
     (case pending of Some v \<Rightarrow> (case json_bool v of Some b \<Rightarrow> b | None \<Rightarrow> False) | None \<Rightarrow> cached)"

definition url_setting_check ::
  "url_ops \<Rightarrow> (sqlx_error \<Rightarrow> string) \<Rightarrow> settings_inner \<Rightarrow> (string \<times> json) list \<Rightarrow> string \<Rightarrow> json \<Rightarrow> string option" where
  "url_setting_check U show_sqlx st updates key value =
     (case Option.bind (def key) (\<lambda>d. sp_url (sd_policy d)) of
        None \<Rightarrow> None
      | Some url_policy \<Rightarrow>
          (case json_str value of
             None \<Rightarrow> None
           | Some url \<Rightarrow>
               if url = [] then None
               else
                 let allow_private =
                       (case up_private_network_flag url_policy of
                          Some flag \<Rightarrow>
                            effective_private_flag (map_of updates flag)
                              (case get_typed from_value_bool flag st of Some b \<Rightarrow> b | None \<Rightarrow> False)
                        | None \<Rightarrow> False)
                 in case assert_host_not_blocked U url allow_private (up_allow_loopback url_policy) of
                      Inl e \<Rightarrow> Some (key @ '': '' @ error_display show_sqlx e)
                    | Inr _ \<Rightarrow> None))"

definition normalized_value :: "string \<Rightarrow> json \<Rightarrow> json" where
  "normalized_value key value =
     (if key = KEY_EMBEDDING_ENDPOINT
      then (case json_str value of Some url \<Rightarrow> JStr (normalize_embedding_endpoint url) | None \<Rightarrow> value)
      else value)"

definition check_update ::
  "url_ops \<Rightarrow> (sqlx_error \<Rightarrow> string) \<Rightarrow> bool \<Rightarrow> settings_inner \<Rightarrow> (string \<times> json) list \<Rightarrow> string \<times> json
    \<Rightarrow> (string \<times> json, string) result" where
  "check_update U show_sqlx authenticated st updates kv =
     (case kv of (key, value) \<Rightarrow>
        if policy sp_api_immutable key then
          Err (key @ '': not changeable via API '' @ bytes_str [0xE2, 0x80, 0x94]
               @ '' set it via environment at startup (GET /settings names the locking variable)'')
        else if policy sp_config_only key then
          Err (key @ '': set via environment at startup, not changeable at runtime'')
        else if key \<notin> known_keys then Err (key @ '': unknown setting'')
        else (case type_mismatch key value of
                Some e \<Rightarrow> Err e
              | None \<Rightarrow>
                  if \<not> authenticated \<and> is_security_sensitive key then
                    Err (key @ '': security-sensitive '' @ bytes_str [0xE2, 0x80, 0x94] @ '' requires authentication'')
                  else (case url_setting_check U show_sqlx st updates key value of
                          Some e \<Rightarrow> Err e
                        | None \<Rightarrow>
                            if si_env_locked st key \<noteq> None then
                              Err (key @ '': locked by environment variable, cannot change'')
                            else Ok (key, normalized_value key value))))"

text \<open>\<open>INSERT \<dots> ON CONFLICT (key) DO UPDATE\<close>: an existing row keeps its category.\<close>

definition upsert ::
  "cipher \<Rightarrow> (string \<Rightarrow> string) \<Rightarrow> string option \<Rightarrow> string \<times> json \<Rightarrow> settings_table \<Rightarrow> settings_table" where
  "upsert C nonce kek kv db =
     (case kv of (key, value) \<Rightarrow>
        let stored = stored_value_for C (nonce key) kek key value
        in db(key \<mapsto> (case db key of
                        Some row \<Rightarrow> row\<lparr>sr_value := stored\<rparr>
                      | None \<Rightarrow> \<lparr>sr_value = stored, sr_category = category_of key\<rparr>)))"

definition insert_all :: "(string \<times> json) list \<Rightarrow> (string \<Rightarrow> json option) \<Rightarrow> string \<Rightarrow> json option" where
  "insert_all kvs m = fold (\<lambda>(k, v) m. m(k \<mapsto> v)) kvs m"

definition commit_cache :: "(string \<times> json) list \<Rightarrow> settings_inner \<Rightarrow> settings_inner" where
  "commit_cache to_update st =
     (let st = st\<lparr>si_cache := insert_all to_update (si_cache st)\<rparr>;
          st = clear_type_mismatches (map fst to_update) st
      in bump_settings_generation (invalidate_tokens st))"

record update_env =
  ue_urls :: url_ops
  ue_show :: "sqlx_error \<Rightarrow> string"
  ue_nonce :: "string \<Rightarrow> string"
  ue_tx :: tx_outcome
  ue_before :: "settings_inner \<times> settings_table \<Rightarrow> settings_inner \<times> settings_table"
    \<comment> \<open>what the tasks ahead in the queue for the write guard did\<close>

definition update ::
  "cipher \<Rightarrow> update_env \<Rightarrow> bool \<Rightarrow> (string \<times> json) list \<Rightarrow> settings_inner \<Rightarrow> settings_table
    \<Rightarrow> (string list, error) result \<times> settings_inner \<times> settings_table" where
  "update C E authenticated updates st db =
     (let checked = map (check_update (ue_urls E) (ue_show E) authenticated st updates) updates;
          errors = concat (map (\<lambda>r. case r of Inl e \<Rightarrow> [e] | Inr _ \<Rightarrow> []) checked);
          to_update = concat (map (\<lambda>r. case r of Inl _ \<Rightarrow> [] | Inr kv \<Rightarrow> [kv]) checked)
      in if to_update = [] then (Ok errors, st, db)
         else
           let (st, db) = ue_before E (st, db);
               (e, db) = tx_apply (ue_tx E) (fold (upsert C (ue_nonce E) (si_kek st)) to_update) db
           in case e of
                Some e \<Rightarrow> (Err (Database e), st, db)
              | None \<Rightarrow> (Ok errors, commit_cache to_update st, db))"

section \<open>Settings of one archive\<close>

record zim_settings =
  zs_embed_enabled :: bool
  zs_category :: "string option"

type_synonym zims_table = "string \<Rightarrow> zim_settings option"

definition get_zim_settings :: "sqlx_error option \<Rightarrow> string \<Rightarrow> zims_table \<Rightarrow> (json option, error) result" where
  "get_zim_settings fault zim_name zims =
     (case fault of
        Some e \<Rightarrow> Err (Database e)
      | None \<Rightarrow>
          Ok (map_option (\<lambda>z. JObj [(''embed_enabled'', JBool (zs_embed_enabled z)),
                                     (''category'', case zs_category z of Some c \<Rightarrow> JStr c | None \<Rightarrow> JNull)])
               (zims zim_name)))"

definition zim_problem :: "string \<times> json \<Rightarrow> string list" where
  "zim_problem kv =
     (case kv of (k, v) \<Rightarrow>
        if k = ''embed_enabled'' then
          (if json_bool v = None then [[CHR 0x27] @ ''embed_enabled'' @ [CHR 0x27] @ '' must be a boolean''] else [])
        else if k = ''category'' then
          (if json_str v \<noteq> None \<or> v = JNull then []
           else [[CHR 0x27] @ ''category'' @ [CHR 0x27] @ '' must be a string or null''])
        else [''unknown key '' @ [CHR 0x27] @ k @ [CHR 0x27]])"

text \<open>\<open>Value::get\<close>: a value that is no object has no members.\<close>

definition member :: "string \<Rightarrow> json \<Rightarrow> json option" where
  "member k v = (case v of JObj kvs \<Rightarrow> map_of kvs k | _ \<Rightarrow> None)"

definition check_zim_update_affected :: "nat list \<Rightarrow> string \<Rightarrow> (unit, error) result" where
  "check_zim_update_affected affected zim_name =
     (if 0 \<in> set affected
      then Err (NotFound (''ZIM '' @ [CHR 0x27] @ zim_name @ [CHR 0x27] @ '' not found'')) else Ok ())"

text \<open>One \<open>UPDATE zims \<dots> WHERE name = $1\<close>: the rows affected and the table.\<close>

definition update_zim_row :: "string \<Rightarrow> (zim_settings \<Rightarrow> zim_settings) \<Rightarrow> zims_table \<Rightarrow> nat \<times> zims_table" where
  "update_zim_row zim_name f zims =
     (case zims zim_name of Some z \<Rightarrow> (1, zims(zim_name \<mapsto> f z)) | None \<Rightarrow> (0, zims))"

definition zim_updates :: "json \<Rightarrow> (zim_settings \<Rightarrow> zim_settings) list" where
  "zim_updates updates =
     (case Option.bind (member ''embed_enabled'' updates) json_bool of
        Some b \<Rightarrow> [\<lambda>z. z\<lparr>zs_embed_enabled := b\<rparr>] | None \<Rightarrow> [])
     @ (case member ''category'' updates of
          Some v \<Rightarrow> (case json_str v of
                       Some c \<Rightarrow> [\<lambda>z. z\<lparr>zs_category := Some c\<rparr>]
                     | None \<Rightarrow> if v = JNull then [\<lambda>z. z\<lparr>zs_category := None\<rparr>] else [])
        | None \<Rightarrow> [])"

fun run_zim_updates ::
  "string \<Rightarrow> (zim_settings \<Rightarrow> zim_settings) list \<Rightarrow> zims_table \<Rightarrow> nat list \<times> zims_table" where
  "run_zim_updates zim_name [] zims = ([], zims)"
| "run_zim_updates zim_name (f # fs) zims =
     (let (n, zims) = update_zim_row zim_name f zims;
          (ns, zims) = run_zim_updates zim_name fs zims
      in (n # ns, zims))"

definition join_problems :: "string list \<Rightarrow> string" where
  "join_problems ps = (case ps of [] \<Rightarrow> [] | p # ps \<Rightarrow> concat (p # map (\<lambda>q. ''; '' @ q) ps))"

definition update_zim_settings ::
  "sqlx_error option \<Rightarrow> tx_outcome \<Rightarrow> (zims_table \<Rightarrow> zims_table) \<Rightarrow> string \<Rightarrow> json \<Rightarrow> zims_table
    \<Rightarrow> (unit, error) result \<times> zims_table" where
  "update_zim_settings fault tx between zim_name updates zims =
     (let problems = (case updates of JObj kvs \<Rightarrow> concat (map zim_problem kvs) | _ \<Rightarrow> [])
      in if problems \<noteq> [] then (Err (InvalidInput (join_problems problems)), zims)
         else (case fault of
                 Some e \<Rightarrow> (Err (Database e), zims)
               | None \<Rightarrow>
                   if zims zim_name = None
                   then (Err (NotFound (''ZIM '' @ [CHR 0x27] @ zim_name @ [CHR 0x27] @ '' not found'')), zims)
                   else
                     let zims = between zims;
                         (affected, zims') = run_zim_updates zim_name (zim_updates updates) zims
                     in case tx of
                          Tx_failed e \<Rightarrow> (Err (Database e), zims)
                        | _ \<Rightarrow>
                            (case check_zim_update_affected affected zim_name of
                               Inl e \<Rightarrow> (Err e, zims)
                             | Inr _ \<Rightarrow> (case tx of Tx_lost e \<Rightarrow> (Err (Database e), zims') | _ \<Rightarrow> (Ok (), zims')))))"

section \<open>Encryption\<close>

text \<open>What is relied on of AES-GCM: opening what was sealed gives it back, and the tag has 16 bytes.\<close>

definition lawful_cipher :: "cipher \<Rightarrow> bool" where
  "lawful_cipher C \<longleftrightarrow>
     (\<forall>k n p. open_sealed C k n (fst (seal C k n p) @ snd (seal C k n p)) = Some p
              \<and> length (snd (seal C k n p)) = 16)"

lemma encrypt_value_prefix [simp]: "starts_with (encrypt_value C nonce kek s) ENC_PREFIX"
  by (simp add: encrypt_value_def split: prod.splits)

lemma encrypt_value_nonempty [simp]: "encrypt_value C nonce kek s \<noteq> []"
  by (simp add: encrypt_value_def ENC_PREFIX_def split: prod.splits)

lemma decrypt_encrypt:
  assumes "lawful_cipher C" and "length nonce = 12" and "utf8_valid s"
  shows "decrypt_value C key kek (encrypt_value C nonce kek s) = Done (Ok s)"
proof -
  obtain ct tag where sealed: "seal C kek nonce s = (ct, tag)" by fastforce
  have "open_sealed C kek nonce (ct @ tag) = Some s" "length tag = 16"
    using assms(1) sealed unfolding lawful_cipher_def by (metis fst_conv snd_conv)+
  moreover have "strip_prefix ENC_PREFIX (encrypt_value C nonce kek s) = Some (hex_encode (nonce @ ct @ tag))"
    by (simp add: strip_prefix_Some encrypt_value_def sealed)
  ultimately show ?thesis using assms(2,3) by (simp add: decrypt_value_def hex_decode_encode)
qed

text \<open>The plaintext of a stored value, \<open>None\<close> when it cannot be read under this key.\<close>

definition opened :: "cipher \<Rightarrow> string option \<Rightarrow> string \<Rightarrow> json \<Rightarrow> json option" where
  "opened C kek key v =
     (case kek of
        None \<Rightarrow> Some v
      | Some k \<Rightarrow>
          (case (if is_encrypted_at_rest_key key then json_str v else None) of
             None \<Rightarrow> Some v
           | Some s \<Rightarrow>
               if starts_with s ENC_PREFIX
               then (case decrypt_value C key k s of Done (Inr p) \<Rightarrow> Some (JStr p) | _ \<Rightarrow> None)
               else Some v))"

definition value_utf8 :: "json \<Rightarrow> bool" where
  "value_utf8 v = (case json_str v of Some s \<Rightarrow> utf8_valid s | None \<Rightarrow> True)"

text \<open>Only the plaintexts of secret settings have to be text.\<close>

definition secret_utf8 :: "string \<times> json \<Rightarrow> bool" where
  "secret_utf8 kv \<longleftrightarrow> (is_encrypted_at_rest_key (fst kv) \<longrightarrow> value_utf8 (snd kv))"

lemma opened_stored:
  assumes "lawful_cipher C" and "length nonce = 12" and "secret_utf8 (key, v)"
  shows "opened C kek key (stored_value_for C nonce kek key v) = Some v"
proof -
  have "\<not> starts_with [] ENC_PREFIX" by (simp add: starts_with_def ENC_PREFIX_def)
  then show ?thesis
    using assms decrypt_encrypt [OF assms(1,2)]
    by (auto simp: opened_def stored_value_for_def secret_utf8_def value_utf8_def json_str_def
        split: option.splits json.splits if_splits)
qed

text \<open>A secret row is sealed when it is empty, no string, or carries the prefix.\<close>

definition sealed_row :: "string option \<Rightarrow> string \<Rightarrow> json \<Rightarrow> bool" where
  "sealed_row kek key v \<longleftrightarrow>
     (kek \<noteq> None \<and> is_encrypted_at_rest_key key
        \<longrightarrow> (case json_str v of Some s \<Rightarrow> s = [] \<or> starts_with s ENC_PREFIX | None \<Rightarrow> True))"

lemma stored_sealed [simp]: "sealed_row kek key (stored_value_for C nonce kek key v)"
  by (auto simp: sealed_row_def stored_value_for_def json_str_def split: option.splits json.splits)

section \<open>The cache as a view of the table\<close>

definition row_opened :: "cipher \<Rightarrow> string option \<Rightarrow> settings_table \<Rightarrow> string \<Rightarrow> json option" where
  "row_opened C kek db k = Option.bind (db k) (\<lambda>row. opened C kek k (sr_value row))"

definition readable :: "cipher \<Rightarrow> string option \<Rightarrow> settings_table \<Rightarrow> bool" where
  "readable C kek db \<longleftrightarrow> (\<forall>k row. db k = Some row \<longrightarrow> opened C kek k (sr_value row) \<noteq> None)"

definition sealed_table :: "string option \<Rightarrow> settings_table \<Rightarrow> bool" where
  "sealed_table kek db \<longleftrightarrow> (\<forall>k row. db k = Some row \<longrightarrow> sealed_row kek k (sr_value row))"

definition table_utf8 :: "settings_table \<Rightarrow> bool" where
  "table_utf8 db \<longleftrightarrow> (\<forall>k row. db k = Some row \<longrightarrow> value_utf8 (sr_value row))"

text \<open>The specification of the cache: stored plaintexts, defaults where there is no row, then the environment.\<close>

definition table_values :: "cipher \<Rightarrow> string option \<Rightarrow> settings_table \<Rightarrow> string \<Rightarrow> json option" where
  "table_values C kek db k =
     (case db k of Some row \<Rightarrow> opened C kek k (sr_value row) | None \<Rightarrow> default_settings k)"

definition settings_view :: "cipher \<Rightarrow> string option \<Rightarrow> (string \<times> string) list \<Rightarrow> settings_table \<Rightarrow> string \<Rightarrow> json option" where
  "settings_view C kek snapshot db = apply_env_snapshot snapshot (table_values C kek db)"

text \<open>The secret rows still stored in the clear, in iteration order.\<close>

definition clear_secret :: "(string \<Rightarrow> json option) \<Rightarrow> string \<Rightarrow> (string \<times> string) list" where
  "clear_secret m k =
     (case (if is_encrypted_at_rest_key k then Option.bind (m k) json_str else None) of
        Some s \<Rightarrow> if starts_with s ENC_PREFIX \<or> s = [] then [] else [(k, s)]
      | None \<Rightarrow> [])"

lemma opened_cases:
  assumes "opened C (Some kek) k v \<noteq> None"
  obtains "(if is_encrypted_at_rest_key k then json_str v else None) = None" "opened C (Some kek) k v = Some v"
  | s p where "is_encrypted_at_rest_key k" "v = JStr s" "starts_with s ENC_PREFIX" "decrypt_value C k kek s = Done (Ok p)"
      "opened C (Some kek) k v = Some (JStr p)"
  | s where "is_encrypted_at_rest_key k" "v = JStr s" "\<not> starts_with s ENC_PREFIX" "opened C (Some kek) k v = Some v"
  using assms by (auto simp: opened_def json_str_def split: option.splits json.splits if_splits run.splits sum.splits)

lemma decrypt_rows_spec:
  assumes "distinct ks" and "\<And>k v. k \<in> set ks \<Longrightarrow> m k = Some v \<Longrightarrow> opened C (Some kek) k v \<noteq> None"
  shows "decrypt_rows C kek ks m =
    Done (Ok (\<lambda>k. if k \<in> set ks then Option.bind (m k) (opened C (Some kek) k) else m k, concat (map (clear_secret m) ks)))"
  using assms
proof (induction ks arbitrary: m)
  case (Cons k ks)
  have IH: "decrypt_rows C kek ks m' =
      Done (Ok (\<lambda>j. if j \<in> set ks then Option.bind (m j) (opened C (Some kek) j) else m' j, concat (map (clear_secret m) ks)))"
    if "\<And>j. j \<noteq> k \<Longrightarrow> m' j = m j" for m'
  proof -
    have *: "m' j = m j" if "j \<in> set ks" for j
    proof -
      have "j \<noteq> k" using that Cons.prems(1) by auto
      then show ?thesis by (rule \<open>\<And>j. j \<noteq> k \<Longrightarrow> m' j = m j\<close>)
    qed
    have "map (clear_secret m') ks = map (clear_secret m) ks" by (simp add: * clear_secret_def)
    with Cons.IH [of m'] Cons.prems * show ?thesis by (auto simp: fun_eq_iff)
  qed
  show ?case
  proof (cases "m k")
    case None
    then show ?thesis using IH [of m] by (auto simp: clear_secret_def [of m k] fun_eq_iff)
  next
    case (Some v)
    with Cons.prems(2) have "opened C (Some kek) k v \<noteq> None" by simp
    then show ?thesis
    proof (cases rule: opened_cases)
      case 1
      then show ?thesis using Some IH [of m] by (auto simp: clear_secret_def [of m k] fun_eq_iff)
    next
      case (2 s p)
      then show ?thesis using Some IH [of "m(k \<mapsto> JStr p)"]
        by (auto simp: clear_secret_def [of m k] json_str_def fun_eq_iff)
    next
      case (3 s)
      then show ?thesis using Some IH [of m] by (auto simp: clear_secret_def [of m k] json_str_def fun_eq_iff)
    qed
  qed
qed simp

lemma map_of_filter_key: "map_of (filter (\<lambda>(k, v). P k) xs) k = (if P k then map_of xs k else None)"
  by (induction xs) auto

lemma seed_missing_spec:
  "fst (seed_missing m) k = (case m k of Some v \<Rightarrow> Some v | None \<Rightarrow> default_settings k)"
  "map_of (snd (seed_missing m)) k = (if m k = None then default_settings k else None)"
  by (auto simp: seed_missing_def default_settings_def Let_def map_of_filter_key map_add_def split: option.splits)

lemma insert_seeds_spec:
  "insert_seeds C nonce kek seeded db k =
     (case db k of
        Some row \<Rightarrow> Some row
      | None \<Rightarrow> map_option (\<lambda>v. \<lparr>sr_value = stored_value_for C (nonce k) kek k v, sr_category = category_of k\<rparr>) (map_of seeded k))"
  unfolding insert_seeds_def by (induction seeded arbitrary: db) (auto split: option.splits if_splits)

lemma reencrypt_rows_spec:
  assumes "distinct (map fst legacy)"
  shows "reencrypt_rows C nonce kek legacy db k =
     (case (db k, map_of legacy k) of
        (Some row, Some s) \<Rightarrow>
          Some (if sr_value row = JStr s then row\<lparr>sr_value := JStr (encrypt_value C (nonce k) kek s)\<rparr> else row)
      | _ \<Rightarrow> db k)"
  using assms
proof (induction legacy arbitrary: db)
  case (Cons l legacy)
  obtain j s where l: "l = (j, s)" by fastforce
  have none: "map_of legacy j = None" using Cons.prems l by (auto simp: map_of_eq_None_iff)
  show ?case using Cons l none by (auto simp: reencrypt_rows_def split: option.splits)
qed (auto simp: reencrypt_rows_def split: option.splits)

lemma clear_secrets_map_of:
  "distinct ks \<Longrightarrow> map_of (concat (map (clear_secret m) ks)) k
     = (if k \<in> set ks \<and> clear_secret m k \<noteq> [] then Some (snd (hd (clear_secret m k))) else None)"
  "distinct ks \<Longrightarrow> distinct (map fst (concat (map (clear_secret m) ks)))"
proof -
  have shape: "clear_secret m j = [] \<or> (\<exists>s. clear_secret m j = [(j, s)])" for j
    by (auto simp: clear_secret_def split: option.splits)
  have member: "j = i" if "(j, s) \<in> set (clear_secret m i)" for i j s
    using that shape [of i] by auto
  show "distinct ks \<Longrightarrow> map_of (concat (map (clear_secret m) ks)) k
     = (if k \<in> set ks \<and> clear_secret m k \<noteq> [] then Some (snd (hd (clear_secret m k))) else None)"
  proof (induction ks)
    case (Cons j ks)
    then show ?case using shape [of j] by (auto simp: map_add_def)
  qed simp
  show "distinct ks \<Longrightarrow> distinct (map fst (concat (map (clear_secret m) ks)))"
  proof (induction ks)
    case (Cons j ks)
    have "fst ` set (concat (map (clear_secret m) ks)) \<subseteq> set ks" by (auto dest: member)
    then show ?case using Cons shape [of j] by (auto dest: member)
  qed simp
qed

section \<open>Reload\<close>

definition quiet_reload :: "reload_env \<Rightarrow> settings_table \<Rightarrow> bool" where
  "quiet_reload E db \<longleftrightarrow>
     re_fetch E = None \<and> distinct (re_order E) \<and> set (re_order E) = dom db
     \<and> re_seed_tx E = Tx_ok \<and> re_crypt_tx E = Tx_ok \<and> re_before_seed E = id \<and> re_before_crypt E = id
     \<and> (\<forall>k. length (re_nonce E k) = 12)"

text \<open>Secrets stored in the clear are text.\<close>

definition clear_utf8 :: "string option \<Rightarrow> settings_table \<Rightarrow> bool" where
  "clear_utf8 kek db \<longleftrightarrow> (\<forall>k row. db k = Some row \<longrightarrow> sealed_row kek k (sr_value row) \<or> value_utf8 (sr_value row))"

lemma default_utf8: "default_settings k = Some v \<Longrightarrow> value_utf8 v"
proof -
  have "list_all (\<lambda>d. value_utf8 (sd_default d)) SETTING_DEFS"
    by (simp add: SETTING_DEFS_def default_defs value_utf8_def json_str_def byte_in_def ascii_def)
  then show "default_settings k = Some v \<Longrightarrow> value_utf8 v" by (auto simp: list_all_iff default_settings_iff def_iff)
qed

text \<open>The table after an undisturbed reload.\<close>

definition reloaded_row :: "cipher \<Rightarrow> (string \<Rightarrow> string) \<Rightarrow> string option \<Rightarrow> settings_table \<Rightarrow> settings_table" where
  "reloaded_row C nonce kek db k =
     (case db k of
        Some row \<Rightarrow>
          Some (case (kek, clear_secret (\<lambda>k. map_option sr_value (db k)) k) of
                  (Some key, (_, s) # _) \<Rightarrow> row\<lparr>sr_value := JStr (encrypt_value C (nonce k) key s)\<rparr>
                | _ \<Rightarrow> row)
      | None \<Rightarrow>
          map_option (\<lambda>v. \<lparr>sr_value = stored_value_for C (nonce k) kek k v, sr_category = category_of k\<rparr>)
            (default_settings k))"

lemma clear_secret_cases:
  "clear_secret m k = [] \<or> (\<exists>s. clear_secret m k = [(k, s)] \<and> is_encrypted_at_rest_key k \<and> m k = Some (JStr s)
     \<and> \<not> starts_with s ENC_PREFIX \<and> s \<noteq> [])"
  by (auto simp: clear_secret_def json_str_def split: option.splits if_splits json.splits bind_splits)

lemma seeds_applied:
  assumes "\<And>k. m k = None \<longleftrightarrow> db k = None"
  shows "insert_seeds C nonce kek (snd (seed_missing m)) db k =
    (case db k of
       Some row \<Rightarrow> Some row
     | None \<Rightarrow> map_option (\<lambda>v. \<lparr>sr_value = stored_value_for C (nonce k) kek k v, sr_category = category_of k\<rparr>) (default_settings k))"
  using assms by (auto simp: insert_seeds_spec seed_missing_spec split: option.splits)

lemma reload_quiet:
  assumes "lawful_cipher C" and quiet: "quiet_reload E db" and readable: "readable C (si_kek st) db"
  shows "reload C E st db =
    (Done (Ok ()), finish_reload (table_values C (si_kek st) db) st, reloaded_row C (re_nonce E) (si_kek st) db)"
proof -
  let ?m = "\<lambda>k. map_option sr_value (db k)"
  have vals: "fst (seed_missing m) = table_values C (si_kek st) db"
    if "\<And>k. m k = row_opened C (si_kek st) db k" for m
    using that readable
    by (fastforce simp: fun_eq_iff seed_missing_spec table_values_def row_opened_def readable_def split: option.splits)
  have missing: "m k = None \<longleftrightarrow> db k = None" if "\<And>k. m k = row_opened C (si_kek st) db k" for m k
    using that readable by (cases "db k") (auto simp: row_opened_def readable_def)
  have seeds: "(if seeded = [] then (None, db)
      else tx_apply (re_seed_tx E) (insert_seeds C (re_nonce E) (si_kek st) seeded) (re_before_seed E db))
    = (None, insert_seeds C (re_nonce E) (si_kek st) seeded db)" for seeded
    using quiet by (simp add: quiet_reload_def insert_seeds_def)
  show ?thesis
  proof (cases "si_kek st")
    case None
    then have m: "?m k = row_opened C (si_kek st) db k" for k by (cases "db k") (simp_all add: row_opened_def opened_def)
    have "insert_seeds C (re_nonce E) None (snd (seed_missing ?m)) db = reloaded_row C (re_nonce E) None db"
      by (rule ext, subst seeds_applied) (auto simp: reloaded_row_def split: option.splits)
    then show ?thesis using None quiet vals [OF m] seeds
      by (simp add: reload_def quiet_reload_def split_beta Let_def)
  next
    case (Some kek)
    let ?legacy = "concat (map (clear_secret ?m) (re_order E))"
    have ord: "distinct (re_order E)" "set (re_order E) = dom db" using quiet by (simp_all add: quiet_reload_def)
    define m where "m = (\<lambda>k. if k \<in> set (re_order E) then Option.bind (?m k) (opened C (Some kek) k) else ?m k)"
    have rows: "decrypt_rows C kek (re_order E) ?m = Done (Ok (m, ?legacy))"
      unfolding m_def using readable Some by (intro decrypt_rows_spec ord) (auto simp: readable_def)
    have m: "m k = row_opened C (si_kek st) db k" for k
      unfolding m_def ord Some by (cases "db k") (auto simp: row_opened_def)
    have reenc: "(if legacy = [] then (None, db')
        else tx_apply (re_crypt_tx E) (reencrypt_rows C (re_nonce E) kek legacy) (re_before_crypt E db'))
      = (None, reencrypt_rows C (re_nonce E) kek legacy db')" for legacy db'
      using quiet by (simp add: quiet_reload_def reencrypt_rows_def)
    have "reencrypt_rows C (re_nonce E) kek ?legacy (insert_seeds C (re_nonce E) (Some kek) (snd (seed_missing m)) db) k
        = reloaded_row C (re_nonce E) (Some kek) db k" for k
      using clear_secret_cases [of ?m k] ord(2)
      unfolding reencrypt_rows_spec [OF clear_secrets_map_of(2) [OF ord(1)]] seeds_applied [OF missing [OF m]]
        clear_secrets_map_of(1) [OF ord(1)]
      by (cases "db k") (auto simp: reloaded_row_def split: option.splits)
    then have "reencrypt_rows C (re_nonce E) kek ?legacy (insert_seeds C (re_nonce E) (Some kek) (snd (seed_missing m)) db)
        = reloaded_row C (re_nonce E) (Some kek) db" by (rule ext)
    then show ?thesis using Some quiet vals [OF m] seeds rows reenc
      by (simp add: reload_def quiet_reload_def split_beta Let_def)
  qed
qed

lemma opened_clear: "is_encrypted_at_rest_key k \<Longrightarrow> \<not> starts_with s ENC_PREFIX \<Longrightarrow> opened C kek k (JStr s) = Some (JStr s)"
  by (auto simp: opened_def json_str_def split: option.splits)

lemma reloaded_row_props:
  assumes "lawful_cipher C" and "\<And>k. length (nonce k) = 12" and "readable C kek db" and "clear_utf8 kek db"
  shows "table_values C kek (reloaded_row C nonce kek db) = table_values C kek db"
    and "readable C kek (reloaded_row C nonce kek db)" and "sealed_table kek (reloaded_row C nonce kek db)"
proof -
  have row: "(case reloaded_row C nonce kek db k of Some row \<Rightarrow>
        opened C kek k (sr_value row) = table_values C kek db k \<and> opened C kek k (sr_value row) \<noteq> None
        \<and> sealed_row kek k (sr_value row) | None \<Rightarrow> db k = None \<and> default_settings k = None)" for k
  proof (cases "db k")
    case None
    then show ?thesis
      using opened_stored [OF assms(1), of "nonce k" k _ kek] assms(2) default_utf8 [of k]
      by (auto simp: reloaded_row_def table_values_def secret_utf8_def split: option.splits)
  next
    case (Some row)
    let ?m = "\<lambda>k. map_option sr_value (db k)"
    consider (unsealed) key s where "kek = Some key" "clear_secret ?m k = [(k, s)]" "is_encrypted_at_rest_key k"
        "sr_value row = JStr s" "\<not> starts_with s ENC_PREFIX" "s \<noteq> []"
      | (other) "reloaded_row C nonce kek db k = Some row" "kek = None \<or> clear_secret ?m k = []"
      using clear_secret_cases [of ?m k] Some by (cases kek) (auto simp: reloaded_row_def)
    then show ?thesis
    proof cases
      case unsealed
      have "utf8_valid s" using assms(4) Some unsealed by (fastforce simp: clear_utf8_def sealed_row_def value_utf8_def json_str_def)
      then have "opened C kek k (JStr (encrypt_value C (nonce k) key s)) = Some (JStr s)"
        using decrypt_encrypt [OF assms(1) assms(2)] unsealed by (simp add: opened_def json_str_def)
      then show ?thesis
        using unsealed Some opened_clear [of k s C kek]
        by (auto simp: reloaded_row_def table_values_def sealed_row_def json_str_def)
    next
      case other
      have "sealed_row kek k (sr_value row)" using other(2) Some
        by (auto simp: sealed_row_def clear_secret_def split: option.splits if_splits)
      then show ?thesis using other Some assms(3) by (auto simp: table_values_def readable_def)
    qed
  qed
  show "table_values C kek (reloaded_row C nonce kek db) = table_values C kek db"
  proof
    fix k
    show "table_values C kek (reloaded_row C nonce kek db) k = table_values C kek db k"
      using row [of k] by (cases "reloaded_row C nonce kek db k") (auto simp: table_values_def)
  qed
  show "readable C kek (reloaded_row C nonce kek db)" "sealed_table kek (reloaded_row C nonce kek db)"
    unfolding readable_def sealed_table_def using row by (fastforce split: option.splits)+
qed

section \<open>Updates\<close>

definition accepted ::
  "update_env \<Rightarrow> bool \<Rightarrow> settings_inner \<Rightarrow> (string \<times> json) list \<Rightarrow> (string \<times> json) list" where
  "accepted E authenticated st updates =
     concat (map (\<lambda>kv. case check_update (ue_urls E) (ue_show E) authenticated st updates kv of Inl _ \<Rightarrow> [] | Inr kv \<Rightarrow> [kv]) updates)"

definition rejections ::
  "update_env \<Rightarrow> bool \<Rightarrow> settings_inner \<Rightarrow> (string \<times> json) list \<Rightarrow> string list" where
  "rejections E authenticated st updates =
     concat (map (\<lambda>kv. case check_update (ue_urls E) (ue_show E) authenticated st updates kv of Inl e \<Rightarrow> [e] | Inr _ \<Rightarrow> []) updates)"

lemma update_cases:
  "update C E authenticated updates st db =
     (let kvs = accepted E authenticated st updates; errors = rejections E authenticated st updates in
      if kvs = [] then (Ok errors, st, db)
      else let (st, db) = ue_before E (st, db) in
        (case ue_tx E of
           Tx_ok \<Rightarrow> (Ok errors, commit_cache kvs st, fold (upsert C (ue_nonce E) (si_kek st)) kvs db)
         | Tx_failed e \<Rightarrow> (Err (Database e), st, db)
         | Tx_lost e \<Rightarrow> (Err (Database e), st, fold (upsert C (ue_nonce E) (si_kek st)) kvs db)))"
  by (auto simp: update_def accepted_def rejections_def Let_def comp_def split: tx_outcome.splits prod.splits)

lemma accepted_iff:
  "(k, v) \<in> set (accepted E authenticated st updates) \<longleftrightarrow>
     (\<exists>w. (k, w) \<in> set updates \<and> check_update (ue_urls E) (ue_show E) authenticated st updates (k, w) = Ok (k, v))"
proof -
  have key: "check_update U sh a st us (j, w) = Ok (k, v) \<Longrightarrow> j = k" for U sh a us j w
    by (auto simp: check_update_def split: if_splits option.splits)
  have "(k, v) \<in> set (accepted E authenticated st updates) \<longleftrightarrow>
      (\<exists>kv \<in> set updates. check_update (ue_urls E) (ue_show E) authenticated st updates kv = Ok (k, v))"
    by (auto simp: accepted_def split: sum.splits) (metis)
  then show ?thesis using key by fast
qed

text \<open>What the checks of an accepted entry guarantee.\<close>

definition may_write :: "update_env \<Rightarrow> bool \<Rightarrow> settings_inner \<Rightarrow> (string \<times> json) list \<Rightarrow> string \<Rightarrow> json \<Rightarrow> bool" where
  "may_write E authenticated st updates k w \<longleftrightarrow>
     k \<in> known_keys \<and> \<not> policy sp_api_immutable k \<and> \<not> policy sp_config_only k \<and> si_env_locked st k = None
     \<and> type_mismatch k w = None \<and> (authenticated \<or> \<not> is_security_sensitive k)
     \<and> url_setting_check (ue_urls E) (ue_show E) st updates k w = None"

lemma check_update_Ok:
  "check_update (ue_urls E) (ue_show E) authenticated st updates (k, w) = Ok (j, v)
    \<longleftrightarrow> j = k \<and> v = normalized_value k w \<and> may_write E authenticated st updates k w"
  by (auto simp: check_update_def may_write_def split: option.splits)

lemma insert_all_simps: "insert_all [] m = m" "insert_all ((k, v) # kvs) m = insert_all kvs (m(k \<mapsto> v))"
  by (simp_all add: insert_all_def)

lemma insert_all_other: "k \<notin> fst ` set kvs \<Longrightarrow> insert_all kvs m k = m k"
  by (induction kvs arbitrary: m) (auto simp: insert_all_simps)

lemma insert_all_cong: "m j = m' j \<Longrightarrow> insert_all kvs m j = insert_all kvs m' j"
proof (induction kvs arbitrary: m m')
  case (Cons kv kvs)
  have "(m(fst kv \<mapsto> snd kv)) j = (m'(fst kv \<mapsto> snd kv)) j" using Cons.prems by simp
  with Cons.IH [of "m(fst kv \<mapsto> snd kv)" "m'(fst kv \<mapsto> snd kv)"] show ?case
    by (cases kv) (simp add: insert_all_simps del: fun_upd_apply)
qed (simp add: insert_all_simps)

lemma fold_upsert_lookup: "k \<notin> fst ` set kvs \<Longrightarrow> fold (upsert C nonce kek) kvs db k = db k"
  by (induction kvs arbitrary: db) (auto simp: upsert_def Let_def split: prod.splits)

lemma commit_cache_simps [simp]:
  "si_cache (commit_cache kvs st) = insert_all kvs (si_cache st)"
  "si_kek (commit_cache kvs st) = si_kek st" "si_env_snapshot (commit_cache kvs st) = si_env_snapshot st"
  "si_env_locked (commit_cache kvs st) = si_env_locked st"
  by (simp_all add: commit_cache_def clear_type_mismatches_def bump_settings_generation_def invalidate_tokens_def Let_def)

lemma finish_reload_simps [simp]:
  "si_cache (finish_reload m st) = apply_env_snapshot (si_env_snapshot st) m"
  "si_kek (finish_reload m st) = si_kek st" "si_env_snapshot (finish_reload m st) = si_env_snapshot st"
  "si_env_locked (finish_reload m st) = si_env_locked st"
  by (simp_all add: finish_reload_def set_type_mismatches_def bump_settings_generation_def invalidate_tokens_def Let_def)

text \<open>
  C16. A settings write touches only what its caller may touch. Whatever the request contains, whatever
  ran before it obtained the write guard and however its transaction ended, the cache and the table
  change at a key only if the request names it and the key is known, neither immutable through the
  API nor reserved to the environment, not locked by a variable, given a value of its type and range,
  not security-sensitive for an unauthenticated caller, and, for a URL, not aimed at a blocked
  address under the private-network flag in force.
\<close>

theorem update_authorised:
  assumes "update C E authenticated updates st db = (r, st', db')"
    and "ue_before E (st, db) = (st1, db1)"
    and "si_cache st' k \<notin> {si_cache st k, si_cache st1 k} \<or> db' k \<notin> {db k, db1 k}"
  shows "\<exists>w. (k, w) \<in> set updates \<and> may_write E authenticated st updates k w"
proof -
  let ?kvs = "accepted E authenticated st updates"
  have "k \<in> fst ` set ?kvs"
  proof (rule ccontr)
    assume "k \<notin> fst ` set ?kvs"
    then have "si_cache (commit_cache ?kvs st1) k = si_cache st1 k"
      "fold (upsert C (ue_nonce E) (si_kek st1)) ?kvs db1 k = db1 k"
      by (simp_all add: insert_all_other fold_upsert_lookup)
    with assms show False by (auto simp: update_cases Let_def split: if_splits tx_outcome.splits)
  qed
  then obtain v where "(k, v) \<in> set ?kvs" by auto
  then show ?thesis by (auto simp: accepted_iff check_update_Ok)
qed

section \<open>Coherence of cache and table\<close>

lemma apply_env_other:
  "k \<notin> fst ` set snapshot \<Longrightarrow> apply_env_snapshot snapshot (m(k \<mapsto> v)) = (apply_env_snapshot snapshot m)(k \<mapsto> v)"
proof (induction snapshot arbitrary: m)
  case (Cons e snapshot)
  have "apply_env_entry e (m(k \<mapsto> v)) = (apply_env_entry e m)(k \<mapsto> v)"
    using Cons.prems by (cases e) (auto simp: apply_env_entry_def fun_eq_iff split: option.splits)
  then show ?case using Cons by (simp add: apply_env_snapshot_def del: fun_upd_apply)
qed (simp add: apply_env_snapshot_def)

lemma table_values_upsert:
  assumes "lawful_cipher C" and "length (nonce k) = 12" and "secret_utf8 (k, v)"
  shows "table_values C kek (upsert C nonce kek (k, v) db) = (table_values C kek db)(k \<mapsto> v)"
proof
  fix j
  show "table_values C kek (upsert C nonce kek (k, v) db) j = ((table_values C kek db)(k \<mapsto> v)) j"
    using opened_stored [OF assms, of kek]
    by (auto simp: table_values_def upsert_def Let_def split: option.splits)
qed

text \<open>
  A store read through a view: storing one entry shows as inserting it into the view, so storing a
  batch shows as inserting the batch.
\<close>

locale viewed_store =
  fixes view :: "'db \<Rightarrow> 'm" and put :: "'e \<Rightarrow> 'db \<Rightarrow> 'db" and ins :: "'e \<Rightarrow> 'm \<Rightarrow> 'm" and good :: "'e \<Rightarrow> bool"
  assumes view_put: "good e \<Longrightarrow> view (put e db) = ins e (view db)"
begin

lemma view_batch: "list_all good es \<Longrightarrow> view (fold put es db) = fold ins es (view db)"
  by (induction es arbitrary: db) (auto simp: view_put)

end

definition writable_entry ::
  "cipher \<Rightarrow> (string \<Rightarrow> string) \<Rightarrow> (string \<times> string) list \<Rightarrow> string \<times> json \<Rightarrow> bool" where
  "writable_entry C nonce snapshot kv \<longleftrightarrow>
     lawful_cipher C \<and> length (nonce (fst kv)) = 12 \<and> secret_utf8 kv \<and> fst kv \<notin> fst ` set snapshot"

interpretation sv: viewed_store "settings_view C kek snapshot" "upsert C nonce kek" "\<lambda>(k, v) m. m(k \<mapsto> v)"
    "writable_entry C nonce snapshot" for C kek snapshot nonce
  by unfold_locales
     (auto simp: writable_entry_def settings_view_def table_values_upsert apply_env_other simp del: fun_upd_apply)

lemma settings_view_updates:
  assumes "lawful_cipher C" and "\<And>k. length (nonce k) = 12" and "list_all secret_utf8 kvs"
    and "fst ` set kvs \<inter> fst ` set snapshot = {}"
  shows "settings_view C kek snapshot (fold (upsert C nonce kek) kvs db)
    = insert_all kvs (settings_view C kek snapshot db)"
proof -
  have "list_all (writable_entry C nonce snapshot) kvs"
    using assms by (auto simp: list_all_iff writable_entry_def)
  then show ?thesis unfolding insert_all_def by (rule sv.view_batch)
qed

lemma upsert_props:
  assumes "lawful_cipher C" and "\<And>k. length (nonce k) = 12"
  shows "list_all secret_utf8 kvs \<Longrightarrow> readable C kek db \<Longrightarrow> readable C kek (fold (upsert C nonce kek) kvs db)"
    and "sealed_table kek db \<Longrightarrow> sealed_table kek (fold (upsert C nonce kek) kvs db)"
proof -
  have "readable C kek (upsert C nonce kek kv db)" if "readable C kek db" "secret_utf8 kv" for kv db
    using that opened_stored [OF assms(1), of "nonce (fst kv)" "fst kv" "snd kv" kek] assms(2)
    by (auto simp: readable_def upsert_def Let_def split: prod.splits option.splits)
  then show "list_all secret_utf8 kvs \<Longrightarrow> readable C kek db \<Longrightarrow> readable C kek (fold (upsert C nonce kek) kvs db)"
    by (induction kvs arbitrary: db) auto
  have "sealed_table kek (upsert C nonce kek kv db)" if "sealed_table kek db" for kv db
    using that by (auto simp: sealed_table_def upsert_def Let_def split: prod.splits option.splits)
  then show "sealed_table kek db \<Longrightarrow> sealed_table kek (fold (upsert C nonce kek) kvs db)"
    by (induction kvs arbitrary: db) auto
qed

text \<open>The display keys that \<open>sync_from_config\<close> sets in the cache only.\<close>

definition display_keys :: "string set" where
  "display_keys = {KEY_GENERAL_ZIM_DIR, KEY_GENERAL_HOST, KEY_GENERAL_PORT, KEY_GENERAL_LOG_LEVEL}"

text \<open>
  A process life on its own table: a first load, then reloads, writes and the refresh of the display
  keys, in any order. A write whose acknowledgement was lost is followed by the reload its
  notification triggers.
\<close>

inductive settings_life ::
  "cipher \<Rightarrow> string option \<Rightarrow> (string \<times> string) list \<Rightarrow> (string \<Rightarrow> string option) \<Rightarrow> settings_inner \<Rightarrow> settings_table \<Rightarrow> bool"
  for C kek snapshot locked where
  sl_load: "si_kek st0 = kek \<Longrightarrow> si_env_snapshot st0 = snapshot \<Longrightarrow> si_env_locked st0 = locked
    \<Longrightarrow> readable C kek db0 \<Longrightarrow> clear_utf8 kek db0 \<Longrightarrow> quiet_reload E db0
    \<Longrightarrow> reload C E st0 db0 = (Done (Ok ()), st, db) \<Longrightarrow> settings_life C kek snapshot locked st db"
| sl_reload: "settings_life C kek snapshot locked st0 db0 \<Longrightarrow> quiet_reload E db0
    \<Longrightarrow> reload C E st0 db0 = (r, st, db) \<Longrightarrow> settings_life C kek snapshot locked st db"
| sl_update: "settings_life C kek snapshot locked st0 db0 \<Longrightarrow> ue_before E = id \<Longrightarrow> (\<And>e. ue_tx E \<noteq> Tx_lost e)
    \<Longrightarrow> (\<And>k. length (ue_nonce E k) = 12) \<Longrightarrow> list_all secret_utf8 updates
    \<Longrightarrow> update C E authenticated updates st0 db0 = (r', st, db) \<Longrightarrow> settings_life C kek snapshot locked st db"
| sl_lost: "settings_life C kek snapshot locked st0 db0 \<Longrightarrow> ue_before E = id \<Longrightarrow> ue_tx E = Tx_lost e
    \<Longrightarrow> (\<And>k. length (ue_nonce E k) = 12) \<Longrightarrow> list_all secret_utf8 updates
    \<Longrightarrow> update C E authenticated updates st0 db0 = (r', st1, db1) \<Longrightarrow> quiet_reload R db1
    \<Longrightarrow> reload C R st1 db1 = (r, st, db) \<Longrightarrow> settings_life C kek snapshot locked st db"
| sl_sync: "settings_life C kek snapshot locked st db \<Longrightarrow> settings_life C kek snapshot locked (sync_from_config c st) db"

definition coherent :: "cipher \<Rightarrow> settings_inner \<Rightarrow> settings_table \<Rightarrow> bool" where
  "coherent C st db \<longleftrightarrow>
     (\<forall>k. k \<notin> display_keys \<longrightarrow> si_cache st k = settings_view C (si_kek st) (si_env_snapshot st) db k)
     \<and> readable C (si_kek st) db \<and> sealed_table (si_kek st) db"

lemma coherent_reload:
  assumes "lawful_cipher C" and "readable C (si_kek st) db" and "clear_utf8 (si_kek st) db" and "quiet_reload E db"
    and "reload C E st db = (r, st', db')"
  shows "coherent C st' db' \<and> si_kek st' = si_kek st \<and> si_env_snapshot st' = si_env_snapshot st
    \<and> si_env_locked st' = si_env_locked st"
proof -
  have "\<And>k. length (re_nonce E k) = 12" using assms(4) by (simp add: quiet_reload_def)
  note row = reloaded_row_props [OF assms(1) this assms(2,3)]
  from reload_quiet [OF assms(1,4,2)] assms(5)
  have "st' = finish_reload (table_values C (si_kek st) db) st" "db' = reloaded_row C (re_nonce E) (si_kek st) db"
    by simp_all
  then show ?thesis using row by (simp add: coherent_def settings_view_def)
qed

lemma sealed_clear_utf8: "sealed_table kek db \<Longrightarrow> clear_utf8 kek db"
  by (auto simp: sealed_table_def clear_utf8_def)

lemma accepted_unlocked: "k \<in> fst ` set (accepted E authenticated st updates) \<Longrightarrow> si_env_locked st k = None"
  by (auto simp: accepted_iff check_update_Ok may_write_def)

lemma accepted_utf8:
  assumes "list_all secret_utf8 updates"
  shows "list_all secret_utf8 (accepted E authenticated st updates)"
proof -
  have "\<not> is_encrypted_at_rest_key KEY_EMBEDDING_ENDPOINT"
    by (simp add: is_encrypted_at_rest_key_def ENCRYPTED_AT_REST_KEYS_def key_defs)
  then have "secret_utf8 (k, w) \<Longrightarrow> secret_utf8 (k, normalized_value k w)" for k w
    by (auto simp: secret_utf8_def normalized_value_def)
  then show ?thesis using assms by (force simp: list_all_iff accepted_iff check_update_Ok)
qed

lemma coherent_update:
  assumes "lawful_cipher C" and "coherent C st db" and "fst ` set (si_env_snapshot st) \<subseteq> dom (si_env_locked st)"
    and "\<And>k. length (nonce k) = 12" and "list_all secret_utf8 updates"
    and "kvs = accepted E authenticated st updates"
  shows "coherent C (commit_cache kvs st) (fold (upsert C nonce (si_kek st)) kvs db)"
proof -
  have "fst ` set kvs \<inter> fst ` set (si_env_snapshot st) = {}"
    using accepted_unlocked assms(3,6) by (fastforce dest: accepted_unlocked)
  with settings_view_updates [OF assms(1,4)] accepted_utf8 [OF assms(5)] assms(6)
  have "settings_view C (si_kek st) (si_env_snapshot st) (fold (upsert C nonce (si_kek st)) kvs db)
    = insert_all kvs (settings_view C (si_kek st) (si_env_snapshot st) db)" by simp
  moreover have "readable C (si_kek st) (fold (upsert C nonce (si_kek st)) kvs db)"
    "sealed_table (si_kek st) (fold (upsert C nonce (si_kek st)) kvs db)"
    using upsert_props [OF assms(1,4)] accepted_utf8 [OF assms(5)] assms(2,6) by (simp_all add: coherent_def)
  moreover have "insert_all kvs (si_cache st) k
      = insert_all kvs (settings_view C (si_kek st) (si_env_snapshot st) db) k" if "k \<notin> display_keys" for k
    using that assms(2) by (intro insert_all_cong) (simp add: coherent_def)
  ultimately show ?thesis by (simp add: coherent_def)
qed

lemma settings_life_coherent:
  assumes "settings_life C kek snapshot locked st db" and "lawful_cipher C" and "fst ` set snapshot \<subseteq> dom locked"
  shows "coherent C st db \<and> si_kek st = kek \<and> si_env_snapshot st = snapshot \<and> si_env_locked st = locked"
  using assms(1)
proof induction
  case (sl_load st0 db0 E st db)
  then show ?case using coherent_reload [OF assms(2), of st0 db0 E] by simp
next
  case (sl_reload st0 db0 E r st db)
  then have "readable C (si_kek st0) db0" "clear_utf8 (si_kek st0) db0" using sealed_clear_utf8 by (auto simp: coherent_def)
  from coherent_reload [OF assms(2) this] sl_reload show ?case by simp
next
  case (sl_update st0 db0 E updates authenticated r' st db)
  then have "coherent C (commit_cache (accepted E authenticated st0 updates) st0)
      (fold (upsert C (ue_nonce E) kek) (accepted E authenticated st0 updates) db0)"
    using coherent_update [OF assms(2), of st0 db0 "ue_nonce E" updates] assms(3) by simp
  then show ?case using sl_update by (auto simp: update_cases Let_def split: if_splits tx_outcome.splits)
next
  case (sl_lost st0 db0 E e updates authenticated r' st1 db1 R r st db)
  then have "coherent C (commit_cache (accepted E authenticated st0 updates) st0)
      (fold (upsert C (ue_nonce E) kek) (accepted E authenticated st0 updates) db0)"
    using coherent_update [OF assms(2), of st0 db0 "ue_nonce E" updates] assms(3) by simp
  then have "readable C kek db1" "clear_utf8 kek db1" "si_kek st1 = kek" "si_env_snapshot st1 = snapshot" "si_env_locked st1 = locked"
    using sl_lost sealed_clear_utf8 by (auto simp: update_cases Let_def coherent_def split: if_splits)
  then show ?case using sl_lost coherent_reload [OF assms(2), of st1 db1 R] by simp
next
  case (sl_sync st db c)
  have "sync_config_values c m k = m k" if "k \<notin> display_keys" for m k
    using that by (auto simp: sync_config_values_def display_keys_def)
  with sl_sync show ?case by (auto simp: coherent_def sync_from_config_def)
qed


text \<open>A concrete cipher and an undisturbed environment for the witnesses.\<close>

definition toy_cipher :: cipher where
  "toy_cipher = \<lparr>hkdf = (\<lambda>salt info secret. secret), seal = (\<lambda>k n p. (p, replicate 16 CHR ''t'')),
     open_sealed = (\<lambda>k n c. Some (take (length c - 16) c))\<rparr>"

definition quiet_env :: reload_env where
  "quiet_env = \<lparr>re_fetch = None, re_order = [], re_nonce = (\<lambda>_. replicate 12 CHR ''n''), re_seed_tx = Tx_ok, re_crypt_tx = Tx_ok,
     re_before_seed = id, re_before_crypt = id\<rparr>"

definition calm_env :: update_env where
  "calm_env = \<lparr>ue_urls = \<lparr>url_parse = (\<lambda>_. Err ''no''), url_join = (\<lambda>_ _. None)\<rparr>, ue_show = (\<lambda>_. []),
     ue_nonce = (\<lambda>_. replicate 12 CHR ''n''), ue_tx = Tx_ok, ue_before = id\<rparr>"

definition fresh_settings :: "string option \<Rightarrow> (string \<times> string) list \<Rightarrow> (string \<Rightarrow> string option) \<Rightarrow> (string \<Rightarrow> json option) \<Rightarrow> settings_inner" where
  "fresh_settings kek snapshot locked m =
     \<lparr>si_cache = m, si_env_locked = locked, si_env_snapshot = snapshot, si_token_cache = default_cache,
      si_ro_token_cache = default_cache, si_generation = 0, si_type_mismatches = Map.empty, si_multi_instance = False,
      si_kek = kek\<rparr>"

lemma toy_lawful: "lawful_cipher toy_cipher"
  by (simp add: lawful_cipher_def toy_cipher_def)


theorem update_authorised_witness:
  "\<exists>w. (KEY_TORRENT_ENABLED, w) \<in> set [(KEY_TORRENT_ENABLED, JBool True), (KEY_ACCESS_MODE, JStr ''open'')]
     \<and> may_write calm_env False (fresh_settings None [] Map.empty Map.empty)
         [(KEY_TORRENT_ENABLED, JBool True), (KEY_ACCESS_MODE, JStr ''open'')] KEY_TORRENT_ENABLED w"
proof -
  let ?us = "[(KEY_TORRENT_ENABLED, JBool True), (KEY_ACCESS_MODE, JStr ''open'')]"
    and ?st = "fresh_settings None [] Map.empty Map.empty"
  have rows: "def KEY_TORRENT_ENABLED = Some (setting_def.make KEY_TORRENT_ENABLED (JBool False) BoolType None default_policy)"
    "policy sp_api_immutable KEY_ACCESS_MODE"
    by (simp_all add: policy_def def_def SETTING_DEFS_def default_defs key_defs)
  have "may_write calm_env False ?st ?us KEY_TORRENT_ENABLED (JBool True)"
    using rows(1)
    by (auto simp: may_write_def known_keys_iff policy_def is_security_sensitive_def default_defs type_mismatch_def has_type_def
        json_reads url_setting_check_def fresh_settings_def)
  then have "check_update (ue_urls calm_env) (ue_show calm_env) False ?st ?us (KEY_TORRENT_ENABLED, JBool True)
      = Ok (KEY_TORRENT_ENABLED, normalized_value KEY_TORRENT_ENABLED (JBool True))" by (simp only: check_update_Ok)
  moreover have "normalized_value KEY_TORRENT_ENABLED (JBool True) = JBool True"
    by (simp add: normalized_value_def key_defs)
  moreover obtain e where "check_update (ue_urls calm_env) (ue_show calm_env) False ?st ?us (KEY_ACCESS_MODE, JStr ''open'') = Err e"
    using rows(2) by (simp add: check_update_def)
  ultimately have "accepted calm_env False ?st ?us = [(KEY_TORRENT_ENABLED, JBool True)]"
    by (simp add: accepted_def)
  then have "update toy_cipher calm_env False ?us ?st Map.empty =
      (Ok (rejections calm_env False ?st ?us), commit_cache [(KEY_TORRENT_ENABLED, JBool True)] ?st,
       upsert toy_cipher (ue_nonce calm_env) None (KEY_TORRENT_ENABLED, JBool True) Map.empty)"
    by (simp add: update_cases calm_env_def fresh_settings_def)
  from update_authorised [OF this, of ?st Map.empty KEY_TORRENT_ENABLED] show ?thesis
    by (simp add: calm_env_def fresh_settings_def insert_all_def)
qed

section \<open>The credentials in the cache\<close>

text \<open>What the credential service of \<open>Tokens\<close> sees of the settings state; the copies in the table are left out.\<close>

definition raw_secret :: "string \<Rightarrow> settings_inner \<Rightarrow> string" where
  "raw_secret key st = (case Option.bind (si_cache st key) json_str of Some s \<Rightarrow> s | None \<Rightarrow> [])"

definition auth_of :: "settings_inner \<Rightarrow> auth_inner" where
  "auth_of st =
     \<lparr>admin_password_raw = raw_secret KEY_ACCESS_ADMIN_PASSWORD st, read_only_token_raw = raw_secret KEY_ACCESS_READ_ONLY_TOKEN st,
      token_cache = si_token_cache st, ro_token_cache = si_ro_token_cache st, generation = si_generation st,
      db_admin_password = None, db_read_only_token = None\<rparr>"

lemma reload_is_auth_reload:
  "auth_of (finish_reload m st) =
     reload_secrets (raw_secret KEY_ACCESS_ADMIN_PASSWORD (finish_reload m st))
       (raw_secret KEY_ACCESS_READ_ONLY_TOKEN (finish_reload m st)) (auth_of st)"
  by (simp add: auth_of_def finish_reload_def reload_secrets_def set_type_mismatches_def bump_settings_generation_def
      invalidate_tokens_def bump_generation_def token_invalidate_all_def ro_token_invalidate_all_def Let_def)

lemma update_is_auth_reload:
  assumes "kvs = accepted E authenticated st0 updates"
  shows "auth_of (commit_cache kvs st) =
    reload_secrets (raw_secret KEY_ACCESS_ADMIN_PASSWORD st) (raw_secret KEY_ACCESS_READ_ONLY_TOKEN st) (auth_of st)"
proof -
  have immutable: "policy sp_api_immutable KEY_ACCESS_ADMIN_PASSWORD" "policy sp_api_immutable KEY_ACCESS_READ_ONLY_TOKEN"
    by (simp_all add: policy_def def_def SETTING_DEFS_def default_defs key_defs)
  have "k \<notin> fst ` set kvs" if "policy sp_api_immutable k" for k
    using that assms by (auto simp: accepted_iff check_update_Ok may_write_def)
  with immutable have "raw_secret KEY_ACCESS_ADMIN_PASSWORD (commit_cache kvs st) = raw_secret KEY_ACCESS_ADMIN_PASSWORD st"
    "raw_secret KEY_ACCESS_READ_ONLY_TOKEN (commit_cache kvs st) = raw_secret KEY_ACCESS_READ_ONLY_TOKEN st"
    by (simp_all add: raw_secret_def insert_all_other)
  then show ?thesis
    by (simp add: auth_of_def reload_secrets_def commit_cache_def clear_type_mismatches_def bump_settings_generation_def
        invalidate_tokens_def bump_generation_def token_invalidate_all_def ro_token_invalidate_all_def Let_def)
qed

section \<open>What a listing reveals\<close>

definition hidden :: "bool \<Rightarrow> string \<Rightarrow> bool" where
  "hidden authenticated k \<longleftrightarrow> is_secret_key k \<or> \<not> authenticated \<and> policy sp_topology k"

definition same_public :: "bool \<Rightarrow> settings_inner \<Rightarrow> settings_inner \<Rightarrow> bool" where
  "same_public authenticated st st' \<longleftrightarrow>
     si_env_locked st = si_env_locked st'
     \<and> (\<forall>k. si_cache st k = si_cache st' k
          \<or> hidden authenticated k \<and> (\<exists>s t. si_cache st k = Some (JStr s) \<and> si_cache st' k = Some (JStr t) \<and> s \<noteq> [] \<and> t \<noteq> []))"

text \<open>
  C17. A settings listing reveals nothing about a secret but whether it is set. Two caches that differ
  only in the non-empty values of secret settings, and for an unauthenticated caller of topology
  settings as well, produce the same answer.
\<close>

theorem listing_hides_secrets:
  assumes "same_public authenticated st st'"
  shows "all_grouped_for order authenticated st = all_grouped_for order authenticated st'"
proof -
  have entry: "redacted_entry k (JStr s) authenticated var = redacted_entry k (JStr t) authenticated var"
    if "hidden authenticated k" "s \<noteq> []" "t \<noteq> []" for k s t var
    using that by (auto simp: redacted_entry_def hidden_def redact_def nonempty_str_def json_str_def)
  have locked: "si_env_locked st = si_env_locked st'" using assms by (simp add: same_public_def)
  have step: "(case si_cache st k of None \<Rightarrow> g
      | Some v \<Rightarrow> let cat = category_of k in
          g(cat := (g cat)(short_key k \<mapsto> redacted_entry k v authenticated (si_env_locked st k))))
    = (case si_cache st' k of None \<Rightarrow> g
      | Some v \<Rightarrow> let cat = category_of k in
          g(cat := (g cat)(short_key k \<mapsto> redacted_entry k v authenticated (si_env_locked st' k))))" for k g
  proof -
    from assms consider "si_cache st k = si_cache st' k"
      | s t where "hidden authenticated k" "si_cache st k = Some (JStr s)" "si_cache st' k = Some (JStr t)" "s \<noteq> []" "t \<noteq> []"
      unfolding same_public_def by blast
    then show ?thesis
    proof cases
      case 1
      then show ?thesis by (cases "si_cache st' k") (simp_all add: locked)
    next
      case (2 s t)
      then show ?thesis using entry [of k s t "si_env_locked st k"] by (simp add: locked)
    qed
  qed
  show ?thesis unfolding all_grouped_for_def step ..
qed

theorem listing_hides_secrets_witness:
  "all_grouped_for [KEY_TORRENT_PASSWORD] True (fresh_settings None [] Map.empty [KEY_TORRENT_PASSWORD \<mapsto> JStr ''one''])
   = all_grouped_for [KEY_TORRENT_PASSWORD] True (fresh_settings None [] Map.empty [KEY_TORRENT_PASSWORD \<mapsto> JStr ''two''])"
proof (rule listing_hides_secrets)
  have "is_secret_key KEY_TORRENT_PASSWORD"
    by (simp add: is_secret_key_def policy_def def_def SETTING_DEFS_def default_defs key_defs)
  then show "same_public True (fresh_settings None [] Map.empty [KEY_TORRENT_PASSWORD \<mapsto> JStr ''one''])
      (fresh_settings None [] Map.empty [KEY_TORRENT_PASSWORD \<mapsto> JStr ''two''])"
    by (simp add: same_public_def hidden_def fresh_settings_def)
qed

section \<open>Writes the environment undoes\<close>

text \<open>On a network-facing bind with nothing in the environment, reads are gated by the snapshot alone.\<close>

definition open_snapshot :: "(string \<times> string) list" where
  "open_snapshot = apply_require_reads_default (default_config\<lparr>c_host := ''0.0.0.0''\<rparr>) (env_settings_snapshot (\<lambda>_. None))"

lemma open_snapshot_eq: "open_snapshot = [(KEY_ACCESS_REQUIRE_AUTH_FOR_READS, ''true'')]"
  by (simp add: open_snapshot_def apply_require_reads_default_def env_settings_snapshot_def ENV_SETTING_KEYS_def
      require_reads_startup_default_def default_config_def)

lemma nothing_locked: "locked_env_settings (\<lambda>_. None) = Map.empty"
  by (simp add: locked_env_settings_def ENV_SETTING_KEYS_def)

lemma reads_gate_row:
  "def KEY_ACCESS_REQUIRE_AUTH_FOR_READS
     = Some (setting_def.make KEY_ACCESS_REQUIRE_AUTH_FOR_READS (JBool False) BoolType None (default_policy\<lparr>sp_env_locked := True\<rparr>))"
  by (simp add: def_def SETTING_DEFS_def default_defs key_defs)

lemma reads_gate_writable:
  assumes "si_env_locked st = Map.empty"
  shows "check_update U sh auth st us (KEY_ACCESS_REQUIRE_AUTH_FOR_READS, JBool b) = Ok (KEY_ACCESS_REQUIRE_AUTH_FOR_READS, JBool b)"
proof -
  have "normalized_value KEY_ACCESS_REQUIRE_AUTH_FOR_READS (JBool b) = JBool b" by (simp add: normalized_value_def json_str_def)
  with assms reads_gate_row show ?thesis
    by (auto simp: check_update_def known_keys_iff policy_def is_security_sensitive_def default_defs type_mismatch_def
        has_type_def json_reads url_setting_check_def)
qed

text \<open>
  On a bind that is not loopback, with no variable set, a write of
  \<open>access.require_auth_for_reads = false\<close> is accepted without an error, even unauthenticated, and
  takes effect; the reload that its own notification triggers sets it back to true, because the
  startup default sits in the environment snapshot but does not lock the key.
\<close>

theorem reads_gate_write_undone:
  assumes "lawful_cipher C" and "readable C (si_kek st) db" and "ue_before E = id" and "ue_tx E = Tx_ok"
    and "\<And>k. length (ue_nonce E k) = 12"
    and "si_env_locked st = locked_env_settings (\<lambda>_. None)" and "si_env_snapshot st = open_snapshot"
    and "update C E auth [(KEY_ACCESS_REQUIRE_AUTH_FOR_READS, JBool False)] st db = (r, st1, db1)"
    and "quiet_reload R db1" and "reload C R st1 db1 = (r2, st2, db2)"
  shows "r = Ok [] \<and> \<not> require_auth_for_reads st1 \<and> r2 = Done (Ok ()) \<and> require_auth_for_reads st2"
proof -
  let ?us = "[(KEY_ACCESS_REQUIRE_AUTH_FOR_READS, JBool False)]"
  have ok: "accepted E auth st ?us = ?us" "rejections E auth st ?us = []"
    using reads_gate_writable assms(6) by (simp_all add: accepted_def rejections_def nothing_locked)
  then have u: "r = Ok []" "st1 = commit_cache ?us st" "db1 = fold (upsert C (ue_nonce E) (si_kek st)) ?us db"
    using assms(3,4,8) by (simp_all add: update_cases)
  have "list_all secret_utf8 ?us" by (simp add: secret_utf8_def value_utf8_def json_str_def)
  with upsert_props(1) [OF assms(1), of "ue_nonce E" ?us "si_kek st" db] assms(2,5) u have "readable C (si_kek st1) db1" by simp
  from reload_quiet [OF assms(1,9) this] assms(10)
  have re: "r2 = Done (Ok ())" "st2 = finish_reload (table_values C (si_kek st1) db1) st1" by simp_all
  have "parse_snapshot_value KEY_ACCESS_REQUIRE_AUTH_FOR_READS ''true'' = Some (JBool True)"
    by (simp add: parse_snapshot_value_def reads_gate_row default_defs)
  then have "require_auth_for_reads st2"
    using assms(7) u(2)
    by (simp add: re require_auth_for_reads_def get_typed_def get_setting_def open_snapshot_eq apply_env_snapshot_def
        apply_env_entry_def from_value_bool_def)
  moreover have "\<not> require_auth_for_reads st1"
    by (simp add: u require_auth_for_reads_def get_typed_def get_setting_def insert_all_def from_value_bool_def)
  ultimately show ?thesis using u re by simp
qed

theorem reads_gate_write_undone_witness:
  "case update toy_cipher calm_env False [(KEY_ACCESS_REQUIRE_AUTH_FOR_READS, JBool False)]
          (fresh_settings None open_snapshot Map.empty Map.empty) Map.empty of (r, st1, db1) \<Rightarrow>
     case reload toy_cipher (quiet_env\<lparr>re_order := [KEY_ACCESS_REQUIRE_AUTH_FOR_READS]\<rparr>) st1 db1 of (r2, st2, db2) \<Rightarrow>
       r = Ok [] \<and> \<not> require_auth_for_reads st1 \<and> r2 = Done (Ok ()) \<and> require_auth_for_reads st2"
proof -
  let ?us = "[(KEY_ACCESS_REQUIRE_AUTH_FOR_READS, JBool False)]" and ?st = "fresh_settings None open_snapshot Map.empty Map.empty"
  let ?R = "quiet_env\<lparr>re_order := [KEY_ACCESS_REQUIRE_AUTH_FOR_READS]\<rparr>"
  obtain r st1 db1 where u: "update toy_cipher calm_env False ?us ?st Map.empty = (r, st1, db1)" by (cases rule: prod_cases3)
  obtain r2 st2 db2 where re: "reload toy_cipher ?R st1 db1 = (r2, st2, db2)" by (cases rule: prod_cases3)
  have calm: "ue_before calm_env = id" "ue_tx calm_env = Tx_ok" "si_kek ?st = None"
    by (simp_all add: calm_env_def fresh_settings_def)
  have "accepted calm_env False ?st ?us = ?us"
    using reads_gate_writable by (simp add: accepted_def fresh_settings_def)
  then have "db1 = upsert toy_cipher (ue_nonce calm_env) None (KEY_ACCESS_REQUIRE_AUTH_FOR_READS, JBool False) Map.empty"
    using u calm by (simp add: update_cases Let_def)
  then have quiet: "quiet_reload ?R db1" by (simp add: quiet_reload_def quiet_env_def upsert_def dom_def Let_def)
  have "r = Ok [] \<and> \<not> require_auth_for_reads st1 \<and> r2 = Done (Ok ()) \<and> require_auth_for_reads st2"
    by (rule reads_gate_write_undone [OF toy_lawful _ _ _ _ _ _ u quiet re])
       (simp_all add: readable_def calm_env_def fresh_settings_def nothing_locked)
  then show ?thesis using u re by simp
qed

lemma normalize_loses_host: "normalize_embedding_endpoint ''http://embeddings'' = ''http:''"
  by (simp add: normalize_embedding_endpoint_def trim_end_char_def eq_ignore_ascii_case_def to_ascii_lowercase_def
      lower_char_def ascii_def is_continuation_def)

end
