(* ===== verification/Embed.thy ===== *)
theory Embed
  imports SettingsCache
begin

text \<open>
  The embedding client (\<open>src/embed/client.rs\<close>): configuration, one request, and the fan-out of a
  batch over concurrent requests.

  The HTTP exchange and the JSON reader are parameters. The order in which concurrent requests finish
  is given by \<open>pick\<close>, which chooses among the running tasks; a task that died without a result is a
  panic. The text of a vector component (\<open>{f:.7}\<close>) is an argument.
\<close>

section \<open>Client\<close>

record embed_config =
  ec_endpoint :: string
  ec_api_key :: string
  ec_model :: string
  ec_dimension :: nat
  ec_batch_size :: nat
  ec_max_concurrency :: nat
  ec_timeout_secs :: nat

definition or_else :: "'a option \<Rightarrow> 'a \<Rightarrow> 'a" where
  "or_else x d = (case x of Some a \<Rightarrow> a | None \<Rightarrow> d)"

definition embed_config_from_settings :: "settings_inner \<Rightarrow> embed_config option" where
  "embed_config_from_settings st =
     (case get_typed from_value_str KEY_EMBEDDING_ENDPOINT st of
        None \<Rightarrow> None
      | Some endpoint \<Rightarrow>
          if endpoint = [] then None
          else Some
            \<lparr>ec_endpoint = endpoint,
             ec_api_key = or_else (get_typed from_value_str KEY_EMBEDDING_API_KEY st) [],
             ec_model = or_else (get_typed from_value_str KEY_EMBEDDING_MODEL st) EMBED_DEFAULT_MODEL,
             ec_dimension = or_else (get_typed (from_value_unsigned 32) KEY_EMBEDDING_DIMENSION st) EMBED_DEFAULT_DIMENSION,
             ec_batch_size = max 1 (or_else (get_typed (from_value_unsigned 64) KEY_EMBEDDING_BATCH_SIZE st) 64),
             ec_max_concurrency = max 1 (or_else (get_typed (from_value_unsigned 64) KEY_EMBEDDING_MAX_CONCURRENCY st) 4),
             ec_timeout_secs = max 1 (or_else (get_typed (from_value_unsigned 64) KEY_EMBEDDING_TIMEOUT_SECS st) 60)\<rparr>)"

definition MAX_EMBED_RESPONSE_BYTES :: nat where "MAX_EMBED_RESPONSE_BYTES = 16 * 1024 * 1024"
definition EMBED_CHUNK_CONCURRENCY :: nat where "EMBED_CHUNK_CONCURRENCY = 4"

type_synonym vector = "rat list"

record embed_client =
  cl_config :: embed_config
  cl_pin :: "(string \<times> ip_addr) option"

record embed_request =
  er_url :: string
  er_model :: string
  er_input :: "string list"
  er_bearer :: "string option"

record embed_response =
  es_status :: nat
  es_content_length :: "string option"
  es_body :: "(string, string) result"

record embed_http =
  eh_post :: "embed_client \<Rightarrow> embed_request \<Rightarrow> (embed_response, string) result"
  eh_json :: "string \<Rightarrow> (json, string) result"

definition embed_client_new ::
  "url_ops \<Rightarrow> (string option) \<Rightarrow> embed_config \<Rightarrow> (string \<times> ip_addr) option \<Rightarrow> (embed_client, error) result" where
  "embed_client_new U build_error config pin =
     and_then (assert_host_not_blocked U (ec_endpoint config) False True) (\<lambda>_.
       case build_error of
         Some e \<Rightarrow> Err (Embedding (''failed to build HTTP client: '' @ e))
       | None \<Rightarrow> Ok \<lparr>cl_config = config, cl_pin = pin\<rparr>)"

definition sequence_opt :: "'a option list \<Rightarrow> 'a list option" where
  "sequence_opt xs = (if None \<in> set xs then None else Some (map the xs))"

definition number_of :: "json \<Rightarrow> rat option" where
  "number_of v = (case v of JInt n \<Rightarrow> Some (of_int n) | JFloat r \<Rightarrow> Some r | _ \<Rightarrow> None)"

text \<open>\<open>EmbedData\<close> and \<open>EmbedResponse\<close> as serde derives their reading.\<close>

definition decode_embed_data :: "json \<Rightarrow> (nat \<times> vector) option" where
  "decode_embed_data v =
     (case (Option.bind (member ''index'' v) (from_value_unsigned 64), member ''embedding'' v) of
        (Some i, Some (JArr xs)) \<Rightarrow> map_option (Pair i) (sequence_opt (map number_of xs))
      | _ \<Rightarrow> None)"

definition decode_embed_response :: "json \<Rightarrow> (nat \<times> vector) list option" where
  "decode_embed_response v =
     (case member ''data'' v of Some (JArr xs) \<Rightarrow> sequence_opt (map decode_embed_data xs) | _ \<Rightarrow> None)"

definition check_embed_indices :: "(nat \<times> vector) list \<Rightarrow> (unit, error) result" where
  "check_embed_indices ds =
     (case find (\<lambda>(i, d). fst d \<noteq> i) (enumerate 0 ds) of
        Some (i, d) \<Rightarrow>
          Err (Embedding (''embedding API returned misaligned indices: position '' @ decimal_digits i @ '' has index ''
                 @ decimal_digits (fst d) @ '' (expected exactly 0..'' @ decimal_digits (length ds) @ '')''))
      | None \<Rightarrow> Ok ())"

definition embed_chunk :: "embed_http \<Rightarrow> embed_client \<Rightarrow> string list \<Rightarrow> (vector list, error) result" where
  "embed_chunk H c chunk =
     (let config = cl_config c;
          req = \<lparr>er_url = trim_end_char CHR ''/'' (ec_endpoint config) @ ''/embeddings'', er_model = ec_model config,
                 er_input = chunk, er_bearer = (if ec_api_key config = [] then None else Some (ec_api_key config))\<rparr>
      in case eh_post H c req of
           Inl e \<Rightarrow> Err (Http e)
         | Inr resp \<Rightarrow>
             if 400 \<le> es_status resp \<and> es_status resp < 600 then Err (Http (''status '' @ decimal_digits (es_status resp)))
             else if (case Option.bind (es_content_length resp) (parse_unsigned 64) of
                        Some cl \<Rightarrow> cl > MAX_EMBED_RESPONSE_BYTES | None \<Rightarrow> False)
             then Err (Embedding (''embedding endpoint response exceeds the '' @ decimal_digits MAX_EMBED_RESPONSE_BYTES
                         @ ''-byte body budget (Content-Length)''))
             else (case es_body resp of
                     Inl e \<Rightarrow> Err (Http e)
                   | Inr body \<Rightarrow>
                       if length body > MAX_EMBED_RESPONSE_BYTES
                       then Err (Embedding (''embedding endpoint response is '' @ decimal_digits (length body) @ '' bytes (budget ''
                                   @ decimal_digits MAX_EMBED_RESPONSE_BYTES @ '')''))
                       else (case eh_json H body of
                               Inl e \<Rightarrow> Err (Json e)
                             | Inr v \<Rightarrow>
                                 (case decode_embed_response v of
                                    None \<Rightarrow> Err (Json ''invalid response'')
                                  | Some data \<Rightarrow>
                                      let data = sort_key fst data
                                      in and_then (check_embed_indices data) (\<lambda>_. Ok (map snd data))))))"

section \<open>Fan-out\<close>

text \<open>\<open>slice::chunks\<close>.\<close>

fun chunks :: "nat \<Rightarrow> 'a list \<Rightarrow> 'a list list" where
  "chunks n [] = []"
| "chunks n (x # xs) = (x # take (n - 1) xs) # chunks n (drop (n - 1) xs)"

text \<open>\<open>join_next\<close>: one of the running tasks finishes.\<close>

definition join_next :: "(nat list \<Rightarrow> nat) \<Rightarrow> nat list \<Rightarrow> nat \<times> nat list" where
  "join_next pick running =
     (let k = pick running mod length running in (running ! k, take k running @ drop (Suc k) running))"

text \<open>The error of a chunk whose task died, without the text of the panic.\<close>

definition PANICKED :: error where "PANICKED = Embedding ''embed chunk task panicked''"

text \<open>The result of a finished chunk goes into its slot; an error ends the call.\<close>

definition store_chunk ::
  "(nat \<Rightarrow> (vector list, error) result run) \<Rightarrow> nat \<Rightarrow> vector list option list \<Rightarrow> (vector list option list, error) result" where
  "store_chunk task idx slots =
     (case task idx of
        Panicked \<Rightarrow> Err PANICKED
      | Done (Inl e) \<Rightarrow> Err e
      | Done (Inr v) \<Rightarrow> Ok (slots[idx := Some v]))"

lemma join_next_length: "running \<noteq> [] \<Longrightarrow> (idx, rest) = join_next pick running \<Longrightarrow> length rest < length running"
proof -
  assume a: "running \<noteq> []" "(idx, rest) = join_next pick running"
  define k where "k = pick running mod length running"
  have "k < length running" using a(1) by (simp add: k_def)
  moreover have "rest = take k running @ drop (Suc k) running" using a(2) by (simp add: join_next_def k_def Let_def)
  ultimately show ?thesis by simp
qed

function drain_chunks ::
  "(nat \<Rightarrow> (vector list, error) result run) \<Rightarrow> (nat list \<Rightarrow> nat) \<Rightarrow> nat list \<Rightarrow> vector list option list
    \<Rightarrow> (vector list option list, error) result" where
  "drain_chunks task pick running slots =
     (if running = [] then Ok slots
      else (case join_next pick running of (idx, rest) \<Rightarrow>
              and_then (store_chunk task idx slots) (drain_chunks task pick rest)))"
  by pat_completeness auto

termination drain_chunks
  by (relation "measure (\<lambda>(_, _, running, _). length running)") (auto dest: join_next_length)

declare drain_chunks.simps [simp del]

text \<open>The spawning loop over the remaining chunk numbers; \<open>set.len() >= EMBED_CHUNK_CONCURRENCY\<close> waits for one.\<close>

fun spawn_chunks ::
  "(nat \<Rightarrow> (vector list, error) result run) \<Rightarrow> (nat list \<Rightarrow> nat) \<Rightarrow> nat list \<Rightarrow> nat list \<Rightarrow> vector list option list
    \<Rightarrow> (vector list option list, error) result" where
  "spawn_chunks task pick [] running slots = drain_chunks task pick running slots"
| "spawn_chunks task pick (i # rest) running slots =
     (if length running \<ge> EMBED_CHUNK_CONCURRENCY
      then (case join_next pick running of (idx, running) \<Rightarrow>
              and_then (store_chunk task idx slots) (spawn_chunks task pick rest (running @ [i])))
      else spawn_chunks task pick rest (running @ [i]) slots)"

text \<open>\<open>s.expect("chunk slot filled")\<close> panics on an empty slot.\<close>

definition collect_slots :: "vector list option list \<Rightarrow> vector list run" where
  "collect_slots slots = (case sequence_opt slots of Some vs \<Rightarrow> Done (concat vs) | None \<Rightarrow> Panicked)"

definition embed_with ::
  "(nat \<Rightarrow> (vector list, error) result run) \<Rightarrow> (nat list \<Rightarrow> nat) \<Rightarrow> nat \<Rightarrow> (vector list, error) result run" where
  "embed_with task pick n_chunks =
     (if n_chunks = 0 then Done (Ok [])
      else (case spawn_chunks task pick [0..<n_chunks] [] (replicate n_chunks None) of
              Inl e \<Rightarrow> Done (Err e)
            | Inr slots \<Rightarrow> run_bind (collect_slots slots) (\<lambda>vs. Done (Ok vs))))"

definition chunk_task ::
  "(nat \<Rightarrow> embed_http) \<Rightarrow> (nat \<Rightarrow> bool) \<Rightarrow> embed_client \<Rightarrow> string list list \<Rightarrow> nat \<Rightarrow> (vector list, error) result run" where
  "chunk_task H died c cs i = (if died i then Panicked else Done (embed_chunk (H i) c (cs ! i)))"

definition embed ::
  "(nat \<Rightarrow> embed_http) \<Rightarrow> (nat \<Rightarrow> bool) \<Rightarrow> (nat list \<Rightarrow> nat) \<Rightarrow> embed_client \<Rightarrow> string list \<Rightarrow> (vector list, error) result run" where
  "embed H died pick c texts =
     (let cs = chunks (ec_batch_size (cl_config c)) texts in embed_with (chunk_task H died c cs) pick (length cs))"

definition format_vector :: "(rat \<Rightarrow> string) \<Rightarrow> vector \<Rightarrow> string" where
  "format_vector show_f32 v =
     ''['' @ (case map show_f32 v of [] \<Rightarrow> [] | s # ss \<Rightarrow> concat (s # map (\<lambda>t. CHR '','' # t) ss)) @ '']''"

section \<open>The fan-out is sequential in effect\<close>

definition chunk_value :: "(nat \<Rightarrow> (vector list, error) result run) \<Rightarrow> nat \<Rightarrow> vector list option" where
  "chunk_value task i = (case task i of Done (Inr v) \<Rightarrow> Some v | _ \<Rightarrow> None)"

definition chunk_error :: "(nat \<Rightarrow> (vector list, error) result run) \<Rightarrow> nat \<Rightarrow> error" where
  "chunk_error task i = (case task i of Done (Inl e) \<Rightarrow> e | _ \<Rightarrow> PANICKED)"

text \<open>The slots after the chunks in \<open>S\<close> have been stored.\<close>

definition fill :: "(nat \<Rightarrow> (vector list, error) result run) \<Rightarrow> nat set \<Rightarrow> vector list option list \<Rightarrow> vector list option list" where
  "fill task S slots = map (\<lambda>i. if i \<in> S then chunk_value task i else slots ! i) [0..<length slots]"

lemma length_fill [simp]: "length (fill task S slots) = length slots"
  by (simp add: fill_def)

lemma fill_empty [simp]: "fill task {} slots = slots"
  by (simp add: fill_def map_nth)

lemma store_chunk_cases:
  "store_chunk task idx slots =
     (case chunk_value task idx of Some v \<Rightarrow> Ok (slots[idx := Some v]) | None \<Rightarrow> Err (chunk_error task idx))"
  by (auto simp: store_chunk_def chunk_value_def chunk_error_def split: run.splits sum.splits)

lemma fill_update:
  "chunk_value task idx = Some v \<Longrightarrow> idx < length slots \<Longrightarrow> fill task S (slots[idx := Some v]) = fill task (insert idx S) slots"
  by (auto simp: fill_def nth_list_update)

lemma join_next_set:
  assumes "running \<noteq> []" and "distinct running" and "join_next pick running = (idx, rest)"
  shows "idx \<in> set running" and "set rest = set running - {idx}" and "distinct rest"
proof -
  define k where "k = pick running mod length running"
  have k: "k < length running" using assms(1) by (simp add: k_def)
  obtain a b where "running = a @ idx # b" "rest = a @ b"
    using assms(3) id_take_nth_drop [OF k] by (auto simp: join_next_def k_def Let_def)
  then show "idx \<in> set running" "set rest = set running - {idx}" "distinct rest" using assms(2) by auto
qed

text \<open>What a loop over the chunks in \<open>S\<close> returns: all values in their slots, or the error of one of them.\<close>

definition settles ::
  "(nat \<Rightarrow> (vector list, error) result run) \<Rightarrow> nat set \<Rightarrow> vector list option list \<Rightarrow> (vector list option list, error) result \<Rightarrow> bool" where
  "settles task S slots r \<longleftrightarrow>
     (case r of
        Inr slots' \<Rightarrow> slots' = fill task S slots \<and> (\<forall>i\<in>S. chunk_value task i \<noteq> None)
      | Inl e \<Rightarrow> \<exists>i\<in>S. chunk_value task i = None \<and> e = chunk_error task i)"

lemma settles_step:
  assumes "idx \<in> S" and "idx < length slots" and "S' = S - {idx}"
    and "\<And>slots'. length slots' = length slots \<Longrightarrow> settles task S' slots' (f slots')"
  shows "settles task S slots (and_then (store_chunk task idx slots) f)"
proof (cases "chunk_value task idx")
  case None
  then show ?thesis using assms(1) by (auto simp: store_chunk_cases settles_def)
next
  case (Some v)
  have "settles task S' (slots[idx := Some v]) (f (slots[idx := Some v]))" by (rule assms(4)) simp
  then show ?thesis using Some assms(1,2) fill_update [OF Some assms(2), of S']
    by (auto simp: store_chunk_cases settles_def assms(3) insert_absorb split: sum.splits)
qed

lemma drain_settles:
  "distinct running \<Longrightarrow> \<forall>i\<in>set running. i < length slots \<Longrightarrow> settles task (set running) slots (drain_chunks task pick running slots)"
proof (induction task pick running slots rule: drain_chunks.induct)
  case (1 task pick running slots)
  show ?case
  proof (cases "running = []")
    case True
    then show ?thesis by (simp add: drain_chunks.simps settles_def)
  next
    case False
    obtain idx rest where jn: "join_next pick running = (idx, rest)" by fastforce
    note set = join_next_set [OF False 1(2) jn]
    have "settles task (set running) slots (and_then (store_chunk task idx slots) (drain_chunks task pick rest))"
    proof (rule settles_step [OF set(1) _ set(2)])
      show "idx < length slots" using set(1) 1(3) by simp
      show "settles task (set rest) slots' (drain_chunks task pick rest slots')" if "length slots' = length slots" for slots'
        using 1(1) [OF False jn [symmetric], of slots'] set 1(3) that by auto
    qed
    then show ?thesis using False jn by (subst drain_chunks.simps) simp
  qed
qed

lemma spawn_settles:
  "distinct (running @ todo) \<Longrightarrow> \<forall>i\<in>set (running @ todo). i < length slots
    \<Longrightarrow> settles task (set (running @ todo)) slots (spawn_chunks task pick todo running slots)"
proof (induction todo arbitrary: running slots)
  case Nil
  then show ?case using drain_settles by simp
next
  case (Cons i todo)
  show ?case
  proof (cases "length running \<ge> EMBED_CHUNK_CONCURRENCY")
    case False
    then show ?thesis using Cons.IH [of "running @ [i]" slots] Cons.prems by (simp add: insert_commute)
  next
    case True
    then have ne: "running \<noteq> []" by (auto simp: EMBED_CHUNK_CONCURRENCY_def)
    obtain idx rest where jn: "join_next pick running = (idx, rest)" by fastforce
    note set = join_next_set [OF ne _ jn]
    have d: "distinct running" using Cons.prems(1) by simp
    have "settles task (set (running @ i # todo)) slots
        (and_then (store_chunk task idx slots) (spawn_chunks task pick todo (rest @ [i])))"
    proof (rule settles_step [where S' = "set ((rest @ [i]) @ todo)"])
      show "idx \<in> set (running @ i # todo)" "idx < length slots" using set(1) [OF d] Cons.prems by auto
      show "set ((rest @ [i]) @ todo) = set (running @ i # todo) - {idx}"
        using set(1,2) [OF d] Cons.prems(1) by auto
      show "settles task (set ((rest @ [i]) @ todo)) slots' (spawn_chunks task pick todo (rest @ [i]) slots')"
        if "length slots' = length slots" for slots'
        using set [OF d] Cons.prems that by (intro Cons.IH) auto
    qed
    then show ?thesis using True jn by simp
  qed
qed

lemma embed_with_spec:
  "(embed_with task pick n = Done (Ok (concat (map (\<lambda>i. the (chunk_value task i)) [0..<n])))
      \<and> list_all (\<lambda>i. chunk_value task i \<noteq> None) [0..<n])
   \<or> (\<exists>i<n. chunk_value task i = None \<and> embed_with task pick n = Done (Err (chunk_error task i)))"
proof (cases "n = 0")
  case True
  then show ?thesis by (simp add: embed_with_def)
next
  case False
  have "settles task (set [0..<n]) (replicate n None) (spawn_chunks task pick [0..<n] [] (replicate n None))"
    using spawn_settles [of "[]" "[0..<n]" "replicate n None"] by simp
  then consider (all) "spawn_chunks task pick [0..<n] [] (replicate n None) = Ok (map (chunk_value task) [0..<n])"
      "\<forall>i<n. chunk_value task i \<noteq> None"
    | (one) i where "i < n" "chunk_value task i = None"
      "spawn_chunks task pick [0..<n] [] (replicate n None) = Err (chunk_error task i)"
    by (auto simp: settles_def fill_def split: sum.splits)
  then show ?thesis
  proof cases
    case all
    then have "sequence_opt (map (chunk_value task) [0..<n]) = Some (map (\<lambda>i. the (chunk_value task i)) [0..<n])"
      by (force simp: sequence_opt_def)
    with all False show ?thesis by (simp add: embed_with_def collect_slots_def list_all_iff)
  next
    case one
    then show ?thesis using False by (auto simp: embed_with_def)
  qed
qed

text \<open>
  The concurrent fan-out of an embedding batch behaves like a loop over its chunks. In whatever
  order the requests finish, the call never panics; if every chunk succeeds it returns the vectors
  of the chunks in the order of the texts, and if some fail it returns the error of one that failed.
\<close>

theorem embed_schedule_independent:
  "let cs = chunks (ec_batch_size (cl_config c)) texts; task = chunk_task H died c cs in
     (embed H died pick c texts = Done (Ok (concat (map (\<lambda>i. the (chunk_value task i)) [0..<length cs])))
        \<and> list_all (\<lambda>i. chunk_value task i \<noteq> None) [0..<length cs])
     \<or> (\<exists>i<length cs. chunk_value task i = None \<and> embed H died pick c texts = Done (Err (chunk_error task i)))"
  unfolding Let_def embed_def by (rule embed_with_spec)

end
