(* ===== verification/SearchState.thy ===== *)
theory SearchState
  imports Embed "HOL-Library.AList"
begin

text \<open>
  What a search engine keeps between requests: the degradation counters and the memoised probes of
  \<open>src/health.rs\<close>, the query-embedding cache of \<open>src/search/query_cache.rs\<close>, and the trigram and
  embedding-client cells of \<open>src/search/mod.rs\<close>.

  An instant is a number of nanoseconds. A method that locks a cell, lets other tasks run and locks it
  again has the change the others make in between as an argument.
\<close>

section \<open>Health\<close>

type_synonym instant = nat
type_synonym probe_slot = "(bool \<times> instant) option"

definition seconds :: "nat \<Rightarrow> nat" where "seconds n = n * 1000000000"

record probe_state =
  ps_qbit :: probe_slot
  ps_db :: probe_slot

definition PROBE_TTL :: nat where "PROBE_TTL = seconds 2"

text \<open>\<open>checked_duration_since\<close> has no value for an instant in the future.\<close>

definition younger_than :: "nat \<Rightarrow> instant \<Rightarrow> instant \<Rightarrow> bool" where
  "younger_than ttl now t \<longleftrightarrow> t \<le> now \<and> now - t < ttl"

definition probe_fresh :: "probe_slot \<Rightarrow> instant \<Rightarrow> bool option" where
  "probe_fresh slot now =
     (case slot of Some (v, t) \<Rightarrow> if younger_than PROBE_TTL now t then Some v else None | None \<Rightarrow> None)"

text \<open>The arguments of a probe: what the backend answers, and the clock at the look-up and at the end.\<close>

definition probe_qbit :: "(string, error) result option \<Rightarrow> instant \<Rightarrow> instant \<Rightarrow> probe_state \<Rightarrow> bool \<times> probe_state" where
  "probe_qbit version now later st =
     (case probe_fresh (ps_qbit st) now of
        Some v \<Rightarrow> (v, st)
      | None \<Rightarrow>
          (let ok = (case version of Some (Inr _) \<Rightarrow> True | _ \<Rightarrow> False)
           in (ok, st\<lparr>ps_qbit := Some (ok, later)\<rparr>)))"

definition probe_db ::
  "(unit, sqlx_error) result \<Rightarrow> (unit, sqlx_error) result \<Rightarrow> instant \<Rightarrow> instant \<Rightarrow> probe_state \<Rightarrow> bool \<times> probe_state" where
  "probe_db checkout select_one now later st =
     (case probe_fresh (ps_db st) now of
        Some v \<Rightarrow> (v, st)
      | None \<Rightarrow>
          (let ok = (case checkout of
                       Inr _ \<Rightarrow> (case select_one of Inr _ \<Rightarrow> True | Inl _ \<Rightarrow> False)
                     | Inl _ \<Rightarrow> False)
           in (ok, st\<lparr>ps_db := Some (ok, later)\<rparr>)))"

type_synonym degradation = "string \<rightharpoonup> u32 \<times> instant"

definition degradation_failure :: "instant \<Rightarrow> string \<Rightarrow> degradation \<Rightarrow> degradation" where
  "degradation_failure now branch d =
     (let entry = (case d branch of Some e \<Rightarrow> e | None \<Rightarrow> (0, now)) in d(branch \<mapsto> (fst entry + 1, now)))"

definition degradation_success :: "string \<Rightarrow> degradation \<Rightarrow> degradation" where
  "degradation_success branch d = (case d branch of Some (_, t) \<Rightarrow> d(branch \<mapsto> (0, t)) | None \<Rightarrow> d)"

text \<open>The snapshot lists the branches in the order of the hash map, given by its keys.\<close>

definition degraded_snapshot :: "string list \<Rightarrow> degradation \<Rightarrow> (string \<times> u32) list" where
  "degraded_snapshot order d =
     List.map_filter (\<lambda>name. case d name of
         Some (count, _) \<Rightarrow> if count \<ge> 3 then Some (name, count) else None
       | None \<Rightarrow> None) order"

section \<open>Query embedding cache\<close>

definition QUERY_EMBED_CACHE_CAP :: nat where "QUERY_EMBED_CACHE_CAP = 256"

record query_cache =
  qc_cap :: nat
  qc_map :: "(string \<times> vector) list"
  qc_order :: "string list"

definition query_cache_new :: "nat \<Rightarrow> query_cache" where
  "query_cache_new cap = \<lparr>qc_cap = max cap 1, qc_map = [], qc_order = []\<rparr>"

definition query_cache_default :: query_cache where
  "query_cache_default = query_cache_new QUERY_EMBED_CACHE_CAP"

definition query_cache_get :: "string \<Rightarrow> query_cache \<Rightarrow> vector option" where
  "query_cache_get key c = map_of (qc_map c) key"

definition query_cache_insert :: "string \<Rightarrow> vector \<Rightarrow> query_cache \<Rightarrow> query_cache" where
  "query_cache_insert key vec c =
     (let old = map_of (qc_map c) key; c = c\<lparr>qc_map := AList.update key vec (qc_map c)\<rparr>
      in if old \<noteq> None then c
         else
           (let c = (if length (qc_map c) > qc_cap c
                     then (case qc_order c of
                             evicted # order \<Rightarrow> c\<lparr>qc_order := order, qc_map := AList.delete evicted (qc_map c)\<rparr>
                           | [] \<Rightarrow> c)
                     else c)
            in c\<lparr>qc_order := qc_order c @ [key]\<rparr>))"

definition query_cache_len :: "query_cache \<Rightarrow> nat" where
  "query_cache_len c = length (qc_map c)"

definition query_cache_key :: "string \<Rightarrow> nat \<Rightarrow> string \<Rightarrow> string" where
  "query_cache_key model dimension query = model @ ''|'' @ decimal_digits dimension @ ''|'' @ trim query"

section \<open>Engine\<close>

type_synonym client_cell = "(string \<times> embed_client) option"

record search_engine =
  se_embed_client :: client_cell
  se_query_embed_cache :: query_cache
  se_trgm_ready :: "(bool \<times> instant) option"
  se_degradation :: degradation
  se_arm_gate :: nat

definition ARM_GATE_RESERVE :: nat where "ARM_GATE_RESERVE = 2"

definition arm_gate_capacity :: "nat \<Rightarrow> nat" where
  "arm_gate_capacity pool_max = max (pool_max - ARM_GATE_RESERVE) 1"

definition search_engine_new :: "nat \<Rightarrow> degradation \<Rightarrow> search_engine" where
  "search_engine_new pool_max degradation =
     \<lparr>se_embed_client = None, se_query_embed_cache = query_cache_default, se_trgm_ready = None,
      se_degradation = degradation, se_arm_gate = arm_gate_capacity pool_max\<rparr>"

subsection \<open>Trigram extension\<close>

definition TRGM_TTL :: nat where "TRGM_TTL = seconds 60"

text \<open>The answer of \<open>fetch_optional\<close>: whether there is a row, or an error.\<close>

definition trgm_probe :: "(bool, sqlx_error) result \<Rightarrow> bool" where
  "trgm_probe answer = (case answer of Inr _ \<Rightarrow> True | Inl _ \<Rightarrow> False)"

definition trgm_ready_fresh :: "instant \<Rightarrow> instant \<Rightarrow> bool" where
  "trgm_ready_fresh now ts = younger_than TRGM_TTL now ts"

definition trgm_cached_if_fresh :: "instant \<Rightarrow> search_engine \<Rightarrow> bool option" where
  "trgm_cached_if_fresh now s =
     (case se_trgm_ready s of
        Some (val, ts) \<Rightarrow> if val \<or> trgm_ready_fresh now ts then Some val else None
      | None \<Rightarrow> None)"

definition trgm_store :: "instant \<Rightarrow> bool \<Rightarrow> search_engine \<Rightarrow> bool \<times> search_engine" where
  "trgm_store now ok s =
     (let s = (if \<not> ok then s\<lparr>se_degradation := degradation_failure now ''pg_trgm_probe'' (se_degradation s)\<rparr> else s)
      in (ok, s\<lparr>se_trgm_ready := Some (ok, now)\<rparr>))"

definition ensure_trgm ::
  "instant \<Rightarrow> (unit, sqlx_error) result \<Rightarrow> (bool, sqlx_error) result \<Rightarrow> search_engine \<Rightarrow> bool \<times> search_engine" where
  "ensure_trgm now checkout answer s =
     (case trgm_cached_if_fresh now s of
        Some val \<Rightarrow> (val, s)
      | None \<Rightarrow>
          (case (case checkout of Inr _ \<Rightarrow> Some (trgm_probe answer) | Inl _ \<Rightarrow> None) of
             Some ok \<Rightarrow> trgm_store now ok s
           | None \<Rightarrow> (False, s)))"

definition trgm_is_degraded :: "search_engine \<Rightarrow> bool" where
  "trgm_is_degraded s = (case se_trgm_ready s of Some (False, _) \<Rightarrow> True | _ \<Rightarrow> False)"

definition query_embed_cache_len :: "search_engine \<Rightarrow> nat" where
  "query_embed_cache_len s = query_cache_len (se_query_embed_cache s)"

subsection \<open>Embedding client\<close>

definition embed_fingerprint :: "search_params_snapshot \<Rightarrow> string" where
  "embed_fingerprint snap =
     sps_embed_endpoint snap @ ''|'' @ sps_embed_api_key snap @ ''|'' @ sps_embed_model snap @ ''|''
     @ decimal_digits (sps_embed_dimension snap) @ ''|'' @ decimal_digits (sps_embed_batch_size snap)"

text \<open>What building a client depends on: the settings of that moment, the resolver and the HTTP library.\<close>

record client_env =
  cv_settings :: settings_inner
  cv_urls :: url_ops
  cv_dns :: resolver
  cv_build_error :: "string option"

definition build_embed_client :: "client_env \<Rightarrow> embed_client option" where
  "build_embed_client C =
     (case embed_config_from_settings (cv_settings C) of
        None \<Rightarrow> None
      | Some config \<Rightarrow>
          (case resolve_download_host (cv_urls C) (cv_dns C) (ec_endpoint config) False True of
             Inl _ \<Rightarrow> None
           | Inr pin \<Rightarrow>
               (case embed_client_new (cv_urls C) (cv_build_error C) config pin of
                  Inl _ \<Rightarrow> None
                | Inr client \<Rightarrow> Some client)))"

text \<open>The second look at the cell: a client is only written into an empty cell.\<close>

definition publish_client :: "string \<Rightarrow> embed_client \<Rightarrow> client_cell \<Rightarrow> embed_client option \<times> client_cell" where
  "publish_client fingerprint client cell =
     (case cell of
        None \<Rightarrow> (Some client, Some (fingerprint, client))
      | Some (fp, c) \<Rightarrow> if fp = fingerprint then (Some c, cell) else (Some client, cell))"

definition cached_client :: "string \<Rightarrow> client_cell \<Rightarrow> embed_client option" where
  "cached_client fingerprint cell =
     (case cell of Some (fp, c) \<Rightarrow> if fp = fingerprint then Some c else None | None \<Rightarrow> None)"

text \<open>\<open>others\<close> is what concurrent calls did to the cell while this one resolved the endpoint.\<close>

definition embed_client_with ::
  "client_env \<Rightarrow> (client_cell \<Rightarrow> client_cell) \<Rightarrow> string \<Rightarrow> client_cell \<Rightarrow> embed_client option \<times> client_cell" where
  "embed_client_with C others fingerprint cell =
     (case cached_client fingerprint cell of
        Some c \<Rightarrow> (Some c, cell)
      | None \<Rightarrow>
          (case build_embed_client C of
             None \<Rightarrow> (None, others cell)
           | Some client \<Rightarrow> publish_client fingerprint client (others cell)))"

section \<open>Degradation\<close>

text \<open>A branch is listed exactly when at least three failures followed its last success.\<close>

datatype branch_event = BranchFailed instant | BranchSucceeded

fun degradation_event :: "string \<Rightarrow> branch_event \<Rightarrow> degradation \<Rightarrow> degradation" where
  "degradation_event b (BranchFailed t) d = degradation_failure t b d"
| "degradation_event b BranchSucceeded d = degradation_success b d"

definition is_failed :: "branch_event \<Rightarrow> bool" where
  "is_failed e = (case e of BranchFailed _ \<Rightarrow> True | BranchSucceeded \<Rightarrow> False)"

definition branch_run :: "(string \<times> branch_event) list \<Rightarrow> degradation \<Rightarrow> degradation" where
  "branch_run es d = fold (\<lambda>(b, e). degradation_event b e) es d"

definition failures_since_success :: "string \<Rightarrow> (string \<times> branch_event) list \<Rightarrow> nat" where
  "failures_since_success b es =
     length (takeWhile is_failed (rev (map snd (filter (\<lambda>e. fst e = b) es))))"

definition failure_count :: "degradation \<Rightarrow> string \<Rightarrow> u32" where
  "failure_count d b = (case d b of Some (n, _) \<Rightarrow> n | None \<Rightarrow> 0)"

lemma failure_count_event:
  "failure_count (degradation_event b e d) b' =
     (if b = b' then (if is_failed e then failure_count d b' + 1 else 0) else failure_count d b')"
  by (cases e) (auto simp: failure_count_def degradation_failure_def degradation_success_def is_failed_def Let_def split: option.splits)

lemma failure_count_run:
  "failure_count (branch_run es (\<lambda>_. None)) b = of_nat (failures_since_success b es)"
proof (induction es rule: rev_induct)
  case (snoc x es)
  obtain b' e where x: "x = (b', e)" by (cases x)
  have "branch_run (es @ [x]) (\<lambda>_. None) = degradation_event b' e (branch_run es (\<lambda>_. None))"
    by (simp add: branch_run_def x)
  then show ?case using snoc by (auto simp: failure_count_event x failures_since_success_def)
qed (simp add: branch_run_def failure_count_def failures_since_success_def)

lemma degraded_snapshot_iff:
  "(b, n) \<in> set (degraded_snapshot order d) \<longleftrightarrow> b \<in> set order \<and> d b \<noteq> None \<and> n = failure_count d b \<and> 3 \<le> n"
proof -
  have "(b, n) \<in> set (degraded_snapshot order d) \<longleftrightarrow>
      b \<in> set order \<and> (case d b of Some (count, _) \<Rightarrow> 3 \<le> count \<and> n = count | None \<Rightarrow> False)"
    unfolding degraded_snapshot_def by (induction order) (auto split: option.splits if_splits)
  then show ?thesis by (auto simp: failure_count_def split: option.splits)
qed

section \<open>The query cache is a bounded queue\<close>

definition query_cache_ok :: "query_cache \<Rightarrow> bool" where
  "query_cache_ok c \<longleftrightarrow>
     distinct (qc_order c) \<and> distinct (map fst (qc_map c)) \<and> set (qc_order c) = fst ` set (qc_map c)
     \<and> length (qc_order c) \<le> qc_cap c \<and> 1 \<le> qc_cap c"

text \<open>The entries in the order of their insertion.\<close>

definition fifo :: "query_cache \<Rightarrow> (string \<times> vector) list" where
  "fifo c = map (\<lambda>k. (k, the (map_of (qc_map c) k))) (qc_order c)"

definition fifo_insert :: "nat \<Rightarrow> string \<Rightarrow> vector \<Rightarrow> (string \<times> vector) list \<Rightarrow> (string \<times> vector) list" where
  "fifo_insert cap key vec q =
     (if key \<in> fst ` set q then map (\<lambda>(k, v). (k, if k = key then vec else v)) q
      else (if length q = cap then tl q else q) @ [(key, vec)])"

lemma update_fresh: "k \<notin> fst ` set al \<Longrightarrow> AList.update k v al = al @ [(k, v)]"
  by (induction al) auto

lemma query_cache_length:
  assumes "query_cache_ok c" shows "length (qc_map c) = length (qc_order c)"
  using assms by (metis distinct_card length_map list.set_map query_cache_ok_def)

lemma fifo_lookup:
  assumes "query_cache_ok c" shows "map_of (fifo c) k = query_cache_get k c"
proof (cases "k \<in> set (qc_order c)")
  case True
  then have "map_of (qc_map c) k \<noteq> None" using assms by (auto simp: query_cache_ok_def map_of_eq_None_iff)
  then show ?thesis using True by (auto simp: fifo_def query_cache_get_def map_of_map_restrict)
next
  case False
  then have "k \<notin> fst ` set (qc_map c)" using assms by (auto simp: query_cache_ok_def)
  then have "map_of (qc_map c) k = None" by (simp add: map_of_eq_None_iff)
  moreover have "map_of (fifo c) k = None" using False by (auto simp: fifo_def map_of_eq_None_iff)
  ultimately show ?thesis by (simp add: query_cache_get_def)
qed

lemma query_cache_insert_ok:
  assumes ok: "query_cache_ok c"
  shows "query_cache_ok (query_cache_insert key vec c)"
    and "fifo (query_cache_insert key vec c) = fifo_insert (qc_cap c) key vec (fifo c)"
    and "qc_cap (query_cache_insert key vec c) = qc_cap c"
proof -
  have inv: "distinct (qc_order c)" "distinct (map fst (qc_map c))" "set (qc_order c) = fst ` set (qc_map c)"
    "length (qc_order c) \<le> qc_cap c" "1 \<le> qc_cap c" using ok by (simp_all add: query_cache_ok_def)
  have keys: "fst ` set (fifo c) = set (qc_order c)" by (auto simp: fifo_def image_iff)
  have upd: "distinct (map fst (AList.update key vec (qc_map c)))"
    "fst ` set (AList.update key vec (qc_map c)) = insert key (fst ` set (qc_map c))"
    using inv(2) by (auto simp: distinct_update dom_update)
  consider (old) "key \<in> set (qc_order c)" | (room) "key \<notin> set (qc_order c)" "length (qc_order c) < qc_cap c"
    | (full) e es where "key \<notin> set (qc_order c)" "length (qc_order c) = qc_cap c" "qc_order c = e # es"
    using inv(4,5) by (cases "qc_order c") force+
  then have "query_cache_ok (query_cache_insert key vec c)
      \<and> fifo (query_cache_insert key vec c) = fifo_insert (qc_cap c) key vec (fifo c)
      \<and> qc_cap (query_cache_insert key vec c) = qc_cap c"
  proof cases
    case old
    then have "map_of (qc_map c) key \<noteq> None" using inv(3) by (simp add: map_of_eq_None_iff)
    then have "query_cache_insert key vec c = c\<lparr>qc_map := AList.update key vec (qc_map c)\<rparr>"
      by (simp add: query_cache_insert_def Let_def)
    then show ?thesis using old inv upd keys
      by (auto simp: query_cache_ok_def fifo_def fifo_insert_def update_conv' insert_absorb)
  next
    case room
    then have "map_of (qc_map c) key = None" using inv(3) by (simp add: map_of_eq_None_iff)
    moreover have "length (AList.update key vec (qc_map c)) = Suc (length (qc_order c))"
      using room inv query_cache_length [OF ok] by (simp add: update_fresh)
    ultimately have "query_cache_insert key vec c
        = c\<lparr>qc_map := AList.update key vec (qc_map c), qc_order := qc_order c @ [key]\<rparr>"
      using room by (simp add: query_cache_insert_def Let_def)
    then show ?thesis using room inv upd keys
      by (auto simp: query_cache_ok_def fifo_def fifo_insert_def update_conv')
  next
    case (full e es)
    have "key \<notin> fst ` set (qc_map c)" using full(1) inv(3) by blast
    then have "map_of (qc_map c) key = None" by (simp add: map_of_eq_None_iff)
    moreover have "length (AList.update key vec (qc_map c)) = Suc (length (qc_order c))"
      using \<open>key \<notin> fst ` set (qc_map c)\<close> query_cache_length [OF ok] by (simp add: update_fresh)
    ultimately have "query_cache_insert key vec c
        = c\<lparr>qc_map := AList.delete e (AList.update key vec (qc_map c)), qc_order := es @ [key]\<rparr>"
      using full by (simp add: query_cache_insert_def Let_def)
    moreover define al where "al = AList.delete e (AList.update key vec (qc_map c))"
    ultimately have ins: "query_cache_insert key vec c = c\<lparr>qc_map := al, qc_order := es @ [key]\<rparr>" by simp
    have es: "e \<notin> set es" "key \<noteq> e" "key \<notin> set es" "distinct es" using full inv(1) by auto
    have "distinct (map fst al)" unfolding al_def by (rule distinct_delete [OF upd(1)])
    moreover have "fst ` set al = insert key (set es)"
    proof -
      have "fst ` set al = set (map fst al)" by simp
      also have "\<dots> = insert key (insert e (set es)) - {e}"
        using upd(2) inv(3) full(3) by (simp add: al_def delete_keys)
      also have "\<dots> = insert key (set es)" using es by auto
      finally show ?thesis .
    qed
    ultimately have "query_cache_ok (query_cache_insert key vec c)"
      using es full inv(5) by (simp add: ins query_cache_ok_def)
    moreover have "map_of al key = Some vec" using es(2) by (simp add: al_def update_conv')
    moreover have "map_of al k = map_of (qc_map c) k" if "k \<in> set es" for k
    proof -
      have "k \<noteq> e" "k \<noteq> key" using that es by auto
      then show ?thesis by (simp add: al_def update_conv')
    qed
    ultimately have "fifo (query_cache_insert key vec c) = tl (fifo c) @ [(key, vec)]"
      using full(3) by (auto simp: ins fifo_def)
    then have "fifo (query_cache_insert key vec c) = fifo_insert (qc_cap c) key vec (fifo c)"
      using full(1,2) keys by (simp add: fifo_insert_def fifo_def)
    then show ?thesis using \<open>query_cache_ok (query_cache_insert key vec c)\<close> by (simp add: ins)
  qed
  then show "query_cache_ok (query_cache_insert key vec c)"
    and "fifo (query_cache_insert key vec c) = fifo_insert (qc_cap c) key vec (fifo c)"
    and "qc_cap (query_cache_insert key vec c) = qc_cap c" by simp_all
qed

text \<open>The queue after a sequence of insertions.\<close>

definition query_cache_run :: "(string \<times> vector) list \<Rightarrow> query_cache \<Rightarrow> query_cache" where
  "query_cache_run ins c = fold (\<lambda>(k, v). query_cache_insert k v) ins c"

lemma query_cache_new_ok: "query_cache_ok (query_cache_new cap)" "fifo (query_cache_new cap) = []"
  by (simp_all add: query_cache_new_def query_cache_ok_def fifo_def)

lemma query_cache_run_ok:
  "query_cache_ok c \<Longrightarrow> query_cache_ok (query_cache_run ins c)
     \<and> fifo (query_cache_run ins c) = fold (\<lambda>(k, v). fifo_insert (qc_cap c) k v) ins (fifo c)"
  by (induction ins arbitrary: c) (auto simp: query_cache_run_def query_cache_insert_ok)

section \<open>Properties\<close>

text \<open>
  The query-embedding cache behaves as a bounded first-in-first-out queue: after any sequence of
  insertions into a fresh cache its entries are those of the queue specification (a known key is
  overwritten in place, a new key evicts the oldest entry once the capacity is reached), a look-up
  returns what the queue holds, and there are never more entries than the capacity.
\<close>

theorem query_cache_refines_fifo:
  "let c = query_cache_run ins (query_cache_new cap);
       q = fold (\<lambda>(k, v). fifo_insert (max cap 1) k v) ins []
   in fifo c = q \<and> query_cache_get key c = map_of q key \<and> query_cache_len c = length q
      \<and> length q \<le> max cap 1 \<and> distinct (map fst q)"
proof -
  define c where "c = query_cache_run ins (query_cache_new cap)"
  have ok: "query_cache_ok c" and q: "fifo c = fold (\<lambda>(k, v). fifo_insert (max cap 1) k v) ins []"
    using query_cache_run_ok [OF query_cache_new_ok(1), of ins cap]
    by (simp_all add: c_def query_cache_new_ok(2)) (simp add: query_cache_new_def)
  have "qc_cap c = max cap 1"
    unfolding c_def query_cache_run_def
    by (induction ins rule: rev_induct) (auto simp: query_cache_new_def query_cache_insert_def Let_def split: list.split)
  moreover have "length (fifo c) = length (qc_order c)" "map fst (fifo c) = qc_order c" by (simp_all add: fifo_def comp_def)
  ultimately show ?thesis
    using ok fifo_lookup [OF ok, of key] query_cache_length [OF ok]
    unfolding Let_def c_def [symmetric] q [symmetric] by (simp add: query_cache_len_def query_cache_ok_def)
qed

text \<open>The trigram cell after a positive probe answers every later call.\<close>

lemma trgm_positive_is_final:
  "se_trgm_ready s = Some (True, t) \<Longrightarrow> ensure_trgm now checkout answer s = (True, s)"
  by (simp add: ensure_trgm_def trgm_cached_if_fresh_def)

text \<open>
  The probe for the trigram extension asks whether the catalog query succeeded and not whether it
  found a row. On a cold or expired cell a database without the extension, whose query succeeds with no
  row, is recorded as having it, and from then on every call answers \<open>True\<close> from the cell, whatever the
  catalog says.
\<close>

theorem trgm_absent_cached_as_present:
  "trgm_cached_if_fresh now s = None \<Longrightarrow>
     ensure_trgm now (Ok ()) (Ok False) s = (True, s\<lparr>se_trgm_ready := Some (True, now)\<rparr>)
     \<and> ensure_trgm later checkout answer (snd (ensure_trgm now (Ok ()) (Ok False) s))
         = (True, s\<lparr>se_trgm_ready := Some (True, now)\<rparr>)"
  by (simp add: ensure_trgm_def trgm_probe_def trgm_store_def trgm_cached_if_fresh_def)

theorem trgm_absent_cached_as_present_witness:
  "ensure_trgm 5 (Ok ()) (Ok False) (search_engine_new 20 (\<lambda>_. None))
     = (True, (search_engine_new 20 (\<lambda>_. None))\<lparr>se_trgm_ready := Some (True, 5)\<rparr>)"
  using trgm_absent_cached_as_present [of 5 "search_engine_new 20 (\<lambda>_. None)" 7 "Ok ()" "Ok False"]
  by (simp add: trgm_cached_if_fresh_def search_engine_new_def)

text \<open>Calls on the client cell, each with the settings, fingerprint and concurrent calls of its request.\<close>

inductive cell_step :: "client_cell \<Rightarrow> client_cell \<Rightarrow> bool" where
  cell_refl: "cell_step cell cell"
| cell_call: "cell_step cell cell' \<Longrightarrow> (\<And>x. cell_step x (others x))
     \<Longrightarrow> cell_step cell (snd (embed_client_with C others fp cell'))"

lemma cell_step_frozen: "cell_step cell cell' \<Longrightarrow> cell = Some (fp0, c0) \<Longrightarrow> cell' = Some (fp0, c0)"
  by (induction rule: cell_step.induct)
    (auto simp: embed_client_with_def publish_client_def cached_client_def split: option.splits)

text \<open>
  The cached embedding client is never replaced. Once a client is cached, no sequence of calls,
  concurrent ones included, changes the cell; after a settings change every request has a fingerprint
  that differs from the cached one, so each builds a client of its own (a name resolution per search).
\<close>

theorem embed_client_cell_frozen:
  assumes "cell_step (Some (fp0, c0)) cell" and "fp \<noteq> fp0" and "\<And>x. cell_step x (others x)"
  shows "cell = Some (fp0, c0) \<and> embed_client_with C others fp cell = (build_embed_client C, Some (fp0, c0))"
proof -
  have cell: "cell = Some (fp0, c0)" using cell_step_frozen assms(1) by simp
  have "others cell = Some (fp0, c0)" using cell_step_frozen [OF assms(3), of cell] cell by simp
  then show ?thesis using assms(2) cell
    by (auto simp: embed_client_with_def publish_client_def cached_client_def split: option.splits)
qed

definition sample_client_env :: client_env where
  "sample_client_env =
     \<lparr>cv_settings = fresh_settings None [] Map.empty [KEY_EMBEDDING_ENDPOINT \<mapsto> JStr ''x''],
      cv_urls = toy_urls, cv_dns = (\<lambda>_ _. Ok [V4 93 184 215 14]), cv_build_error = None\<rparr>"

theorem embed_client_cell_frozen_witness:
  "\<exists>c. embed_client_with sample_client_env id ''new'' (Some (''old'', c)) = (Some c, Some (''old'', c))"
proof -
  have "resolve_download_host toy_urls (\<lambda>_ _. Ok [V4 93 184 215 14]) ''x'' False True = Ok (Some (''x'', V4 93 184 215 14))"
    "assert_host_not_blocked toy_urls ''x'' False True = Ok ()"
    by (simp_all add: toy_eval toy_names)
  moreover have "get_typed from_value_str KEY_EMBEDDING_ENDPOINT (cv_settings sample_client_env) = Some ''x''"
    by (simp add: sample_client_env_def get_typed_def get_setting_def fresh_settings_def from_value_str_def)
  then obtain config where "embed_config_from_settings (cv_settings sample_client_env) = Some config"
    "ec_endpoint config = ''x''"
    by (simp add: embed_config_from_settings_def)
  ultimately have "build_embed_client sample_client_env \<noteq> None"
    by (simp add: build_embed_client_def embed_client_new_def sample_client_env_def)
  then obtain c where c: "build_embed_client sample_client_env = Some c" by auto
  have "embed_client_with sample_client_env id ''new'' (Some (''old'', c)) = (build_embed_client sample_client_env, Some (''old'', c))"
    using embed_client_cell_frozen [of "''old''" c "Some (''old'', c)" "''new''" id sample_client_env]
    by (simp add: cell_refl)
  with c show ?thesis by auto
qed

end
