(* ===== verification/Ranking.thy ===== *)
theory Ranking
  imports Complex_Main Prelude
begin

text \<open>
  Ranked lists of search results (\<open>src/search/mod.rs\<close>): the result rows, the merge of the retrieval
  arms and the merge of suggestions. Scores are exact rationals; a score that is not a number cannot
  come from the queries.
\<close>

section \<open>Merging\<close>

type_synonym search_row =
  "int \<times> int \<times> string \<times> string \<times> string \<times> string option \<times> string \<times> string \<times> rat"

record search_result =
  r_id :: int
  r_zim_id :: int
  r_zim_name :: string
  r_path :: string
  r_title :: string
  r_snippet :: string
  r_content_preview :: "string option"
  r_score :: rat
  r_language :: string

fun row_to_result :: "search_row \<Rightarrow> search_result" where
  "row_to_result (i, zim_id, path, title, snippet, preview, lang, zim_name, score) =
     \<lparr>r_id = i, r_zim_id = zim_id, r_zim_name = zim_name, r_path = path, r_title = title, r_snippet = snippet,
      r_content_preview = preview, r_score = score, r_language = lang\<rparr>"

text \<open>A stable sort by descending score.\<close>

definition sort_desc :: "search_result list \<Rightarrow> search_result list" where
  "sort_desc rs = sort_key (\<lambda>r. - r_score r) rs"

text \<open>\<open>if seen.insert(id)\<close>: keep the first row of every id.\<close>

fun dedup_by :: "('a \<Rightarrow> 'k) \<Rightarrow> 'k set \<Rightarrow> 'a list \<Rightarrow> 'a list" where
  "dedup_by f seen [] = []"
| "dedup_by f seen (x # xs) =
     (if f x \<in> seen then dedup_by f seen xs else x # dedup_by f (insert (f x) seen) xs)"

definition dedup_trgm_by_first :: "search_row list \<Rightarrow> search_row list" where
  "dedup_trgm_by_first rows = dedup_by fst {} rows"

text \<open>The merge loop, with the number of results still wanted.\<close>

fun merge_loop :: "nat \<Rightarrow> int set \<Rightarrow> search_result list \<Rightarrow> search_result list" where
  "merge_loop n seen [] = []"
| "merge_loop n seen (x # xs) =
     (if n = 0 then []
      else if r_id x \<in> seen then merge_loop n seen xs
      else x # merge_loop (n - 1) (insert (r_id x) seen) xs)"

definition merge_results ::
  "search_result list \<Rightarrow> search_result list \<Rightarrow> search_result list \<Rightarrow> nat \<Rightarrow> nat \<Rightarrow> search_result list" where
  "merge_results fts trgm vector limit offset =
     take limit (drop offset (merge_loop (limit + offset) {} (sort_desc (fts @ trgm @ vector))))"

definition merge_suggest :: "search_result list \<Rightarrow> search_result list \<Rightarrow> nat \<Rightarrow> search_result list" where
  "merge_suggest prefixed others limit =
     (let p = dedup_by r_id {} prefixed;
          other = dedup_by r_id (r_id ` set prefixed) others
      in take limit (sort_desc p @ sort_desc other))"

section \<open>Sorting tagged lists\<close>

lemma insort_key_map: "insort_key f (g x) (map g xs) = map g (insort_key (\<lambda>x. f (g x)) x xs)"
  by (induction xs) auto

lemma sort_key_map: "sort_key f (map g xs) = map g (sort_key (\<lambda>x. f (g x)) xs)"
  by (induction xs) (simp_all add: insort_key_map)

text \<open>In a stable sort an element stays behind every earlier one that is not larger.\<close>

lemma sort_key_before:
  assumes "distinct L" and "L = L1 @ d # L2" and "e \<in> set L1" and "f e \<le> f d" and "sort_key f L = M1 @ d # M2"
  shows "e \<in> set M1"
proof -
  have dist: "distinct (M1 @ d # M2)" using assms(1,5) by (metis distinct_sort)
  have "e \<in> set (M1 @ d # M2)" using assms(2,3,5) by (metis Un_iff set_append set_sort)
  moreover have "e \<noteq> d" using assms(1,2,3) by auto
  moreover have "e \<notin> set M2"
  proof
    assume M2: "e \<in> set M2"
    have "sorted (map f (M1 @ d # M2))" using assms(5) by (metis sorted_sort_key)
    with M2 have "f d \<le> f e" by (auto simp: sorted_append)
    with assms(4) have eq: "f e = f d" by simp
    have "filter (\<lambda>x. f x = f d) (M1 @ d # M2) = filter (\<lambda>x. f x = f d) (L1 @ d # L2)"
      using sort_key_stable [of f "f d" L] assms(2,5) by simp
    then have "filter (\<lambda>x. f x = f d) M1 @ d # filter (\<lambda>x. f x = f d) M2
        = filter (\<lambda>x. f x = f d) L1 @ d # filter (\<lambda>x. f x = f d) L2" by simp
    moreover have "d \<notin> set M1" "d \<notin> set M2" "d \<notin> set L1" "d \<notin> set L2" using dist assms(1,2) by auto
    ultimately have "filter (\<lambda>x. f x = f d) M1 = filter (\<lambda>x. f x = f d) L1"
      by (subst (asm) append_Cons_eq_iff) auto
    moreover have "e \<in> set (filter (\<lambda>x. f x = f d) L1)" using assms(3) eq by simp
    ultimately have "e \<in> set M1" by (metis filter_is_subset subsetD)
    with M2 dist show False by auto
  qed
  ultimately show ?thesis by auto
qed

section \<open>Leaving rows out\<close>

text \<open>
  Rows may be left out of a ranking when each is a duplicate of a kept row before it, or has enough
  distinct kept rows before it.
\<close>

definition superfluous :: "('a \<Rightarrow> search_result) \<Rightarrow> ('a \<Rightarrow> bool) \<Rightarrow> nat \<Rightarrow> int set \<Rightarrow> 'a list \<Rightarrow> bool" where
  "superfluous row keep n seen M \<longleftrightarrow>
     (\<forall>M1 d M2. M = M1 @ d # M2 \<longrightarrow> \<not> keep d \<longrightarrow>
        (let before = seen \<union> r_id ` row ` set (filter keep M1)
         in r_id (row d) \<in> before \<or> card seen + n \<le> card before))"

lemma merge_loop_filter:
  "finite seen \<Longrightarrow> superfluous row keep n seen M
    \<Longrightarrow> merge_loop n seen (map row (filter keep M)) = merge_loop n seen (map row M)"
proof (induction M arbitrary: n seen)
  case (Cons x M)
  have tail: "superfluous row keep k s M"
    if "\<And>M1. s \<union> r_id ` row ` set (filter keep M1) = seen \<union> r_id ` row ` set (filter keep (x # M1))"
      and "card s + k = card seen + n" for k s
    unfolding superfluous_def Let_def
  proof (intro allI impI)
    fix M1 d M2 assume "M = M1 @ d # M2" "\<not> keep d"
    then have "x # M = (x # M1) @ d # M2" by simp
    from Cons.prems(2) [unfolded superfluous_def Let_def, rule_format, OF this \<open>\<not> keep d\<close>] that
    show "r_id (row d) \<in> s \<union> r_id ` row ` set (filter keep M1) \<or> card s + k \<le> card (s \<union> r_id ` row ` set (filter keep M1))"
      by simp
  qed
  show ?case
  proof (cases "keep x")
    case True
    show ?thesis
    proof (cases "n = 0 \<or> r_id (row x) \<in> seen")
      case True
      then show ?thesis using \<open>keep x\<close> Cons.IH [OF Cons.prems(1) tail, of n] by auto
    next
      case False
      then have "superfluous row keep (n - 1) (insert (r_id (row x)) seen) M"
        using \<open>keep x\<close> Cons.prems(1) by (intro tail) auto
      from Cons.IH [OF _ this] show ?thesis using \<open>keep x\<close> False Cons.prems(1) by simp
    qed
  next
    case False
    have "r_id (row x) \<in> seen \<or> n = 0"
      using Cons.prems(2) [unfolded superfluous_def Let_def, rule_format, of "[]" x M] False by simp
    moreover have "superfluous row keep n seen M" using False by (intro tail) auto
    moreover have "merge_loop 0 seen xs = []" for xs by (cases xs) auto
    ultimately show ?thesis using False Cons.IH [OF Cons.prems(1)] by auto
  qed
qed simp

section \<open>Truncated arms\<close>

text \<open>The rows of several arms, each with its arm and its position.\<close>

definition tag :: "nat \<Rightarrow> 'r list \<Rightarrow> (nat \<times> nat \<times> 'r) list" where
  "tag a xs = map (\<lambda>i. (a, i, xs ! i)) [0..<length xs]"

definition tagged :: "'r list list \<Rightarrow> (nat \<times> nat \<times> 'r) list" where
  "tagged As = concat (map (\<lambda>a. tag a (As ! a)) [0..<length As])"

abbreviation row_of :: "nat \<times> nat \<times> 'r \<Rightarrow> 'r" where
  "row_of x \<equiv> snd (snd x)"

definition earlier :: "nat \<times> nat \<times> 'r \<Rightarrow> nat \<times> nat \<times> 'r \<Rightarrow> bool" where
  "earlier x y \<longleftrightarrow> fst x < fst y \<or> fst x = fst y \<and> fst (snd x) < fst (snd y)"

lemma tagged_iff: "(a, i, r) \<in> set (tagged As) \<longleftrightarrow> a < length As \<and> i < length (As ! a) \<and> r = As ! a ! i"
  by (auto simp: tagged_def tag_def image_iff)

lemma map_row_tag [simp]: "map row_of (tag a xs) = xs"
  by (simp add: tag_def comp_def map_nth)

lemma map_row_tagged: "map row_of (tagged As) = concat As"
proof -
  have "map row_of (tagged As) = concat (map (\<lambda>a. As ! a) [0..<length As])"
    by (simp add: tagged_def map_concat comp_def)
  then show ?thesis by (simp add: map_nth)
qed

lemma tagged_sorted: "sorted_wrt earlier (tagged As)"
proof -
  have tag: "sorted_wrt earlier (tag a xs)" for a :: nat and xs :: "'r list"
    unfolding tag_def sorted_wrt_map by (rule sorted_wrt_mono_rel [OF _ sorted_wrt_upt]) (auto simp: earlier_def)
  have "sorted_wrt earlier (concat (map (\<lambda>a. tag a (As ! a)) [0..<k]))" for k
  proof (induction k)
    case (Suc k)
    have "earlier x y" if "x \<in> set (concat (map (\<lambda>a. tag a (As ! a)) [0..<k]))" "y \<in> set (tag k (As ! k))" for x y
      using that by (auto simp: tag_def earlier_def)
    then show ?case using Suc tag by (auto simp: sorted_wrt_append)
  qed simp
  then show ?thesis by (simp add: tagged_def)
qed

lemma tagged_distinct: "distinct (tagged As)"
proof -
  have "tagged As ! i \<noteq> tagged As ! j" if "i < j" "j < length (tagged As)" for i j
    using sorted_wrt_nth_less [OF tagged_sorted that] by (auto simp: earlier_def)
  then show ?thesis unfolding distinct_conv_nth by (metis linorder_neqE_nat)
qed

lemma earlier_in_prefix:
  assumes "tagged As = L1 @ d # L2" and "e \<in> set (tagged As)" and "earlier e d"
  shows "e \<in> set L1"
proof -
  have "\<not> earlier d d" "\<not> earlier d e" using assms(3) by (auto simp: earlier_def)
  moreover have "\<forall>x\<in>set L2. earlier d x" using tagged_sorted [of As] assms(1) by (simp add: sorted_wrt_append)
  ultimately show ?thesis using assms by auto
qed

lemma filter_tag: "map row_of (filter (\<lambda>(a, i, r). i < n \<and> Q r) (tag b xs)) = filter Q (take n xs)"
proof -
  have upt: "filter (\<lambda>i. i < n) [0..<m] = [0..<min n m]" for m
    by (induction m) (auto simp: min_def le_Suc_eq)
  have "map row_of (filter (\<lambda>(a, i, r). i < n \<and> Q r) (tag b xs))
      = map (nth xs) (filter (\<lambda>i. Q (xs ! i)) (filter (\<lambda>i. i < n) [0..<length xs]))"
    by (simp add: tag_def filter_map comp_def conj_commute)
  also have "\<dots> = filter Q (map (nth xs) [0..<min n (length xs)])" by (simp add: upt filter_map comp_def)
  also have "map (nth xs) [0..<min n (length xs)] = take n xs" by (rule nth_equalityI) auto
  finally show ?thesis .
qed

text \<open>
  The hypotheses on the arms: every arm is ranked and has an article at most once, and the arms of
  the group, which are deduplicated before the merge, give an article the same score.
\<close>

definition arms_ok :: "search_result list list \<Rightarrow> nat set \<Rightarrow> bool" where
  "arms_ok As grp \<longleftrightarrow>
     (\<forall>a<length As. sorted_wrt (\<lambda>r q. r_score q \<le> r_score r) (As ! a) \<and> distinct (map r_id (As ! a)))
     \<and> (\<forall>a\<in>grp. \<forall>b\<in>grp. a < length As \<longrightarrow> b < length As
          \<longrightarrow> (\<forall>r\<in>set (As ! a). \<forall>q\<in>set (As ! b). r_id r = r_id q \<longrightarrow> r_score r = r_score q))"

definition repeated_in :: "search_result list list \<Rightarrow> nat set \<Rightarrow> (nat \<Rightarrow> nat) \<Rightarrow> nat \<Rightarrow> search_result \<Rightarrow> bool" where
  "repeated_in As grp n a r \<longleftrightarrow>
     a \<in> grp \<and> (\<exists>b<a. b \<in> grp \<and> r_id r \<in> r_id ` set (take (n b) (As ! b)))"

definition kept :: "search_result list list \<Rightarrow> nat set \<Rightarrow> (nat \<Rightarrow> nat) \<Rightarrow> nat \<times> nat \<times> search_result \<Rightarrow> bool" where
  "kept As grp n x \<longleftrightarrow> (case x of (a, i, r) \<Rightarrow> i < n a \<and> \<not> repeated_in As grp n a r)"

lemma arm_ranked: "arms_ok As grp \<Longrightarrow> a < length As \<Longrightarrow> j \<le> i \<Longrightarrow> i < length (As ! a) \<Longrightarrow> r_score (As ! a ! i) \<le> r_score (As ! a ! j)"
  by (cases "j = i") (auto simp: arms_ok_def sorted_wrt_iff_nth_less)

text \<open>Every fetched row is kept, or an equally scored row of its article is kept in an earlier arm.\<close>

lemma kept_representative:
  assumes ok: "arms_ok As grp" and "a < length As" and "i < length (As ! a)" and "i < n a"
  obtains b j where "b < length As" "j < length (As ! b)" "kept As grp n (b, j, As ! b ! j)" "b = a \<and> j = i \<or> b < a"
    "r_id (As ! b ! j) = r_id (As ! a ! i)" "r_score (As ! b ! j) = r_score (As ! a ! i)"
proof (cases "repeated_in As grp n a (As ! a ! i)")
  case False
  then have "kept As grp n (a, i, As ! a ! i)" using assms(4) by (simp add: kept_def)
  then show thesis using that assms(2,3) by blast
next
  case True
  let ?P = "\<lambda>b. b < a \<and> b \<in> grp \<and> r_id (As ! a ! i) \<in> r_id ` set (take (n b) (As ! b))"
  define b where "b = (LEAST b. ?P b)"
  have "\<exists>b. ?P b" using True by (auto simp: repeated_in_def)
  then have b: "?P b" unfolding b_def by (rule LeastI_ex)
  then obtain r where r: "r \<in> set (take (n b) (As ! b))" "r_id r = r_id (As ! a ! i)" by auto
  then obtain j where j: "j < n b" "j < length (As ! b)" "As ! b ! j = r" by (auto simp: in_set_conv_nth)
  have "b < length As" using b assms(2) by simp
  moreover have "\<not> repeated_in As grp n b (As ! b ! j)"
  proof
    assume "repeated_in As grp n b (As ! b ! j)"
    then obtain c where "?P c" "c < b" using b j(3) r(2) by (auto simp: repeated_in_def)
    then show False using not_less_Least [of c ?P] by (simp add: b_def)
  qed
  moreover have "r_score (As ! b ! j) = r_score (As ! a ! i)"
    using ok b True j r assms(2,3) \<open>b < length As\<close> unfolding arms_ok_def repeated_in_def by (metis nth_mem)
  ultimately show thesis using that [of b j] b j r(2) by (auto simp: kept_def)
qed

lemma truncation_superfluous:
  assumes ok: "arms_ok As grp" and enough: "\<And>a. a < length As \<Longrightarrow> N \<le> n a"
  shows "superfluous row_of (kept As grp n) N {} (sort_key (\<lambda>x. - r_score (row_of x)) (tagged As))"
  unfolding superfluous_def Let_def
proof (intro allI impI)
  let ?k = "\<lambda>x. - r_score (row_of x)"
  fix M1 d M2
  assume M: "sort_key ?k (tagged As) = M1 @ d # M2" and drop: "\<not> kept As grp n d"
  obtain a i r where d: "d = (a, i, r)" by (cases d)
  have "d \<in> set (tagged As)" using M by (metis in_set_conv_decomp set_sort)
  then have ai: "a < length As" "i < length (As ! a)" "r = As ! a ! i" using d by (auto simp: tagged_iff)
  obtain L1 L2 where L: "tagged As = L1 @ d # L2" using \<open>d \<in> set (tagged As)\<close> by (meson split_list)
  have before: "e \<in> set M1" if "e \<in> set (tagged As)" "earlier e d" "?k e \<le> ?k d" for e
    by (rule sort_key_before [OF tagged_distinct L earlier_in_prefix [OF L that(1,2)] that(3) M])
  let ?before = "r_id ` row_of ` set (filter (kept As grp n) M1)"
  have cover: "r_id (As ! a ! j) \<in> ?before" if j: "j \<le> i" "j < n a" and "j = i \<longrightarrow> repeated_in As grp n a r" for j
  proof -
    have "j < length (As ! a)" using j ai by simp
    from kept_representative [where n = n, OF ok ai(1) this j(2)] obtain b q where
      e: "b < length As" "q < length (As ! b)" "kept As grp n (b, q, As ! b ! q)" "b = a \<and> q = j \<or> b < a"
        "r_id (As ! b ! q) = r_id (As ! a ! j)" "r_score (As ! b ! q) = r_score (As ! a ! j)" by blast
    have "\<not> (b = a \<and> q = i)" using e(3) drop d ai(3) by auto
    then have "earlier (b, q, As ! b ! q) d" using e(4) j(1) d by (auto simp: earlier_def)
    moreover have "?k (b, q, As ! b ! q) \<le> ?k d" using e(6) arm_ranked [OF ok ai(1) j(1) ai(2)] d ai(3) by simp
    moreover have "(b, q, As ! b ! q) \<in> set (tagged As)" using e(1,2) by (simp add: tagged_iff)
    ultimately have "(b, q, As ! b ! q) \<in> set (filter (kept As grp n) M1)" using before e(3) by simp
    then have "r_id (As ! b ! q) \<in> ?before" by force
    then show ?thesis using e(5) by simp
  qed
  have "r_id r \<in> ?before \<or> N \<le> card ?before"
  proof (cases "i < n a")
    case True
    then have "repeated_in As grp n a r" using drop d by (simp add: kept_def)
    with cover [of i] True ai(3) show ?thesis by simp
  next
    case False
    have "r_id ` set (take (n a) (As ! a)) \<subseteq> ?before"
    proof
      fix x assume "x \<in> r_id ` set (take (n a) (As ! a))"
      then obtain j where "j < n a" "x = r_id (As ! a ! j)" by (auto simp: in_set_conv_nth)
      then show "x \<in> ?before" using cover [of j] False by auto
    qed
    then have "card (r_id ` set (take (n a) (As ! a))) \<le> card ?before" by (intro card_mono) auto
    moreover have "distinct (map r_id (take (n a) (As ! a)))" using ok ai(1) by (simp add: arms_ok_def distinct_take take_map [symmetric])
    then have "card (r_id ` set (take (n a) (As ! a))) = n a"
      using False ai(2) distinct_card [of "map r_id (take (n a) (As ! a))"] by simp
    ultimately show ?thesis using enough [OF ai(1)] by simp
  qed
  then show "r_id (row_of d) \<in> {} \<union> ?before \<or> card ({} :: int set) + N \<le> card ({} \<union> ?before)" using d by simp
qed

text \<open>The ranking behind all pages.\<close>

definition ranking :: "search_result list \<Rightarrow> search_result list" where
  "ranking rs = dedup_by r_id {} (sort_desc rs)"

lemma merge_loop_take: "merge_loop n seen xs = take n (dedup_by r_id seen xs)"
  by (induction n seen xs rule: merge_loop.induct) (auto simp: take_Cons')

lemma merged_truncation:
  assumes "arms_ok As grp" and "\<And>a. a < length As \<Longrightarrow> N \<le> n a"
  shows "merge_loop N {} (sort_desc (map row_of (filter (kept As grp n) (tagged As)))) = take N (ranking (concat As))"
proof -
  let ?M = "sort_key (\<lambda>x. - r_score (row_of x)) (tagged As)"
  have "sort_desc (map row_of (filter (kept As grp n) (tagged As))) = map row_of (filter (kept As grp n) ?M)"
    by (simp add: sort_desc_def sort_key_map filter_sort)
  also have "merge_loop N {} \<dots> = merge_loop N {} (map row_of ?M)"
    by (rule merge_loop_filter [OF _ truncation_superfluous [OF assms]]) simp
  also have "map row_of ?M = sort_desc (concat As)"
    using sort_key_map [of "\<lambda>r. - r_score r" row_of "tagged As"] by (simp add: sort_desc_def map_row_tagged)
  finally show ?thesis by (simp add: merge_loop_take ranking_def)
qed

lemma dedup_by_append: "dedup_by f seen (xs @ ys) = dedup_by f seen xs @ dedup_by f (seen \<union> f ` set xs) ys"
  by (induction xs arbitrary: seen) (auto simp: insert_absorb)

lemma dedup_by_distinct: "distinct (map f xs) \<Longrightarrow> dedup_by f seen xs = filter (\<lambda>x. f x \<notin> seen) xs"
proof (induction xs arbitrary: seen)
  case (Cons x xs)
  have "filter (\<lambda>y. f y \<notin> insert (f x) seen) xs = filter (\<lambda>y. f y \<notin> seen) xs"
    using Cons.prems by (intro filter_cong) (auto simp: image_iff)
  then show ?case using Cons by auto
qed simp

lemma dedup_by_map: "dedup_by f seen (map g xs) = map g (dedup_by (\<lambda>x. f (g x)) seen xs)"
  by (induction xs arbitrary: seen) auto

lemma dedup_by_set: "f ` set (dedup_by f seen xs) = f ` set xs - seen"
  by (induction xs arbitrary: seen) auto

lemma dedup_by_subset: "set (dedup_by f seen xs) \<subseteq> set xs"
  by (induction xs arbitrary: seen) auto

lemma dedup_by_is_distinct: "distinct (map f (dedup_by f seen xs))"
proof (induction xs arbitrary: seen)
  case (Cons x xs)
  have "f x \<notin> f ` set (dedup_by f (insert (f x) seen) xs)" by (simp add: dedup_by_set)
  then show ?case using Cons by auto
qed simp

text \<open>The five arms of a search; the three trigram arms form the group.\<close>

definition search_arm_limit :: "nat \<Rightarrow> nat \<Rightarrow> nat \<Rightarrow> nat" where
  "search_arm_limit n m a = (if a = 4 then m else n)"

lemma kept_arm:
  "map row_of (filter (kept As grp lmt) (tag a xs)) = filter (\<lambda>r. \<not> repeated_in As grp lmt a r) (take (lmt a) xs)"
proof -
  have "filter (kept As grp lmt) (tag a xs)
      = filter (\<lambda>(b, i, r). i < lmt a \<and> \<not> repeated_in As grp lmt a r) (tag a xs)"
    by (intro filter_cong) (auto simp: tag_def kept_def)
  then show ?thesis by (simp add: filter_tag)
qed

lemma five_arms:
  fixes F P C S V :: "search_result list"
  assumes "distinct (map r_id P)" "distinct (map r_id C)" "distinct (map r_id S)"
  shows "map row_of (filter (kept [F, P, C, S, V] {1, 2, 3} (search_arm_limit n m)) (tagged [F, P, C, S, V]))
    = take n F @ dedup_by r_id {} (take n P @ take n C @ take n S) @ take m V"
proof -
  let ?As = "[F, P, C, S, V]" and ?l = "search_arm_limit n m"
  have rep: "repeated_in ?As {1, 2, 3} ?l a r \<longleftrightarrow>
      a = 2 \<and> r_id r \<in> r_id ` set (take n P)
      \<or> a = 3 \<and> (r_id r \<in> r_id ` set (take n P) \<or> r_id r \<in> r_id ` set (take n C))" for a r
  proof -
    have "b \<in> {1, 2, 3} \<and> b < a \<and> a \<in> {1, 2, 3} \<longleftrightarrow> b = 1 \<and> (a = 2 \<or> a = 3) \<or> b = 2 \<and> a = 3" for b :: nat by auto
    then have "repeated_in ?As {1, 2, 3} ?l a r \<longleftrightarrow>
        (\<exists>b. (b = 1 \<and> (a = 2 \<or> a = 3) \<or> b = 2 \<and> a = 3) \<and> r_id r \<in> r_id ` set (take (?l b) (?As ! b)))"
      unfolding repeated_in_def by metis
    then show ?thesis by (simp add: search_arm_limit_def conj_disj_distribR ex_disj_distrib) blast
  qed
  have dist: "distinct (map r_id (take n P))" "distinct (map r_id (take n C))" "distinct (map r_id (take n S))"
    using assms by (simp_all add: take_map [symmetric] distinct_take)
  have "tagged ?As = tag 0 F @ tag 1 P @ tag 2 C @ tag 3 S @ tag 4 V"
    by (simp add: tagged_def upt_rec numeral_eq_Suc)
  then have "map row_of (filter (kept ?As {1, 2, 3} ?l) (tagged ?As))
      = take n F @ take n P @ filter (\<lambda>r. r_id r \<notin> r_id ` set (take n P)) (take n C)
        @ filter (\<lambda>r. r_id r \<notin> r_id ` set (take n P) \<union> r_id ` set (take n C)) (take n S) @ take m V"
    by (simp add: kept_arm rep search_arm_limit_def del: One_nat_def)
  then show ?thesis
    by (simp add: dedup_by_append dedup_by_distinct dist)
qed

lemma page_of_ranking:
  fixes F P C S V :: "search_result list"
  assumes "arms_ok [F, P, C, S, V] {1, 2, 3}" and "limit + offset \<le> n" and "limit + offset \<le> m"
  shows "merge_results (take n F) (dedup_by r_id {} (take n P @ take n C @ take n S)) (take m V) limit offset
    = take limit (drop offset (ranking (F @ P @ C @ S @ V)))"
proof -
  have "distinct (map r_id ([F, P, C, S, V] ! a))" if "a < 5" for a using assms(1) that by (simp add: arms_ok_def)
  from this [of 1] this [of 2] this [of 3]
  have "distinct (map r_id P)" "distinct (map r_id C)" "distinct (map r_id S)" by simp_all
  from merged_truncation [OF assms(1), of "limit + offset" "search_arm_limit n m"] assms(2,3)
  have "merge_loop (limit + offset) {} (sort_desc (take n F @ dedup_by r_id {} (take n P @ take n C @ take n S) @ take m V))
      = take (limit + offset) (ranking (F @ P @ C @ S @ V))"
    unfolding five_arms [OF \<open>distinct (map r_id P)\<close> \<open>distinct (map r_id C)\<close> \<open>distinct (map r_id S)\<close>]
    by (simp add: search_arm_limit_def)
  then show ?thesis by (simp add: merge_results_def take_drop)
qed

text \<open>Pages laid end to end are the ranking, and a ranking has every article once, best score first.\<close>

lemma pages_partition:
  "take (k * limit) (ranking rs) = concat (map (\<lambda>i. take limit (drop (i * limit) (ranking rs))) [0..<k])"
proof (induction k)
  case (Suc k)
  have "take (Suc k * limit) (ranking rs) = take (k * limit) (ranking rs) @ take limit (drop (k * limit) (ranking rs))"
    using take_add [of "k * limit" limit "ranking rs"] by (simp add: add.commute)
  then show ?case using Suc by simp
qed simp

lemma ranking_props:
  "distinct (map r_id (ranking rs))" "r_id ` set (ranking rs) = r_id ` set rs"
  "sorted_wrt (\<lambda>r q. r_score q \<le> r_score r) (ranking rs)"
proof -
  show "distinct (map r_id (ranking rs))" by (simp add: ranking_def dedup_by_is_distinct)
  show "r_id ` set (ranking rs) = r_id ` set rs" by (simp add: ranking_def dedup_by_set sort_desc_def)
  have sub: "sorted_wrt R xs \<Longrightarrow> sorted_wrt R (dedup_by r_id seen xs)" for R seen xs
  proof (induction xs arbitrary: seen)
    case (Cons x xs)
    then show ?case using dedup_by_subset [of r_id "insert (r_id x) seen" xs] by auto
  qed simp
  have "sorted (map (\<lambda>r. - r_score r) (sort_desc rs))" by (simp add: sort_desc_def)
  then have "sorted_wrt (\<lambda>r q. r_score q \<le> r_score r) (sort_desc rs)" by (simp add: sorted_wrt_map)
  from sub [OF this] show "sorted_wrt (\<lambda>r q. r_score q \<le> r_score r) (ranking rs)" by (simp add: ranking_def)
qed

end
