(* ===== verification/Search.thy ===== *)
theory Search
  imports SearchState Ranking SearchSql
begin

text \<open>
  Search and suggest (\<open>src/search/mod.rs\<close>): the choice of the retrieval arms, one arm on a pooled
  connection, the vector arm with its embedding call, the rule for arms without a connection, and the
  two entry points.

  The pool, the database, the clock and the HTTP client are the environment of a request. The arms of
  one \<open>tokio::join!\<close> touch different degradation branches and the vector arm alone touches the caches,
  so they are run in the order in which they are listed.
\<close>

section \<open>Environment\<close>

record search_env =
  sv_lower :: "string \<Rightarrow> string" \<comment> \<open>\<open>str::to_lowercase\<close>\<close>
  sv_f64 :: "f64 \<Rightarrow> string" \<comment> \<open>\<open>f64::to_string\<close>\<close>
  sv_f32 :: "rat \<Rightarrow> string" \<comment> \<open>\<open>{f:.7}\<close>\<close>
  sv_permit :: "string \<Rightarrow> bool" \<comment> \<open>the arm gate has a permit within the deadline, by checkout site\<close>
  sv_checkout :: "string \<Rightarrow> (unit, sqlx_error) result"
  sv_query :: "sql_query \<Rightarrow> (search_row list, sqlx_error) result"
  sv_extension :: "(bool, sqlx_error) result" \<comment> \<open>the catalog query for \<open>pg_trgm\<close>: whether a row came back\<close>
  sv_now :: instant
  sv_client :: client_env
  sv_others :: "client_cell \<Rightarrow> client_cell"
  sv_http :: "nat \<Rightarrow> embed_http"
  sv_died :: "nat \<Rightarrow> bool"
  sv_pick :: "nat list \<Rightarrow> nat"
  sv_embed_late :: bool \<comment> \<open>the embedding call outlives \<open>SEARCH_EMBED_TIMEOUT\<close>\<close>

definition SUGGEST_DEFAULT_LIMIT :: nat where "SUGGEST_DEFAULT_LIMIT = 10"
definition SUGGEST_MAX_LIMIT :: nat where "SUGGEST_MAX_LIMIT = 20"
definition SEARCH_EMBED_TIMEOUT :: nat where "SEARCH_EMBED_TIMEOUT = seconds 3"
definition ARM_GATE_ACQUIRE_TIMEOUT :: nat where "ARM_GATE_ACQUIRE_TIMEOUT = seconds 10"

record search_params =
  sp_zim :: "string option"
  sp_language :: "string option"
  sp_mode :: "string option"
  sp_limit :: "nat option"
  sp_offset :: "nat option"
  sp_highlight :: bool

section \<open>Arms\<close>

type_synonym rows = "search_row list"

definition run_sql_on :: "search_env \<Rightarrow> sql_query \<Rightarrow> string \<Rightarrow> degradation \<Rightarrow> rows \<times> degradation" where
  "run_sql_on E sq branch d =
     (case sv_query E sq of
        Inr rows \<Rightarrow> (rows, degradation_success branch d)
      | Inl e \<Rightarrow> ([], degradation_failure (sv_now E) branch d))"

definition GATE_TIMED_OUT :: sqlx_error where
  "GATE_TIMED_OUT = ConnectionError ''arm gate permit wait exceeded 10s''"

definition run_text_arm ::
  "search_env \<Rightarrow> sql_query \<Rightarrow> string \<Rightarrow> string \<Rightarrow> degradation \<Rightarrow> (rows, sqlx_error) result \<times> degradation" where
  "run_text_arm E sq site branch d =
     (if \<not> sv_permit E site then (Err GATE_TIMED_OUT, d)
      else (case sv_checkout E site of
              Inl e \<Rightarrow> (Err e, d)
            | Inr _ \<Rightarrow> (case run_sql_on E sq branch d of (rows, d) \<Rightarrow> (Ok rows, d))))"

text \<open>An arm whose statement is not built or not selected has no rows and no checkout.\<close>

definition text_arm ::
  "search_env \<Rightarrow> sql_query option \<Rightarrow> string \<Rightarrow> string \<Rightarrow> degradation \<Rightarrow> (rows, sqlx_error) result \<times> degradation" where
  "text_arm E sq site branch d =
     (case sq of Some q \<Rightarrow> run_text_arm E q site branch d | None \<Rightarrow> (Ok [], d))"

text \<open>The loop of \<open>join_text_arms\<close>: whether an arm was selected, whether one had a connection, the
  first error, and the rows.\<close>

fun join_arms ::
  "nat \<Rightarrow> (bool \<times> (rows, sqlx_error) result) list \<Rightarrow> bool \<times> bool \<times> sqlx_error option \<times> rows list
    \<Rightarrow> bool \<times> bool \<times> sqlx_error option \<times> rows list" where
  "join_arms i [] acc = acc"
| "join_arms i ((selected, res) # arms) (selected_any, checked_out_any, first_err, rows) =
     join_arms (Suc i) arms
       (if \<not> selected then (selected_any, checked_out_any, first_err, rows)
        else (case res of
                Inr r \<Rightarrow> (True, True, first_err, rows[i := r])
              | Inl e \<Rightarrow> (True, checked_out_any, if first_err = None then Some e else first_err, rows)))"

definition join_text_arms ::
  "(bool \<times> (rows, sqlx_error) result) list \<Rightarrow> (rows list, sqlx_error) result run" where
  "join_text_arms arms =
     (case join_arms 0 arms (False, False, None, replicate 4 []) of
        (selected_any, checked_out_any, first_err, rows) \<Rightarrow>
          if selected_any \<and> \<not> checked_out_any
          then (case first_err of Some e \<Rightarrow> Done (Err e) | None \<Rightarrow> Panicked)
          else Done (Ok rows))"

subsection \<open>The vector arm\<close>

record vector_arm =
  va_snap :: search_params_snapshot
  va_fingerprint :: string
  va_query :: string
  va_enabled :: bool
  va_ann_zim :: "string option"
  va_ann_lang :: "string option"
  va_ann_limit :: nat
  va_ann_weight :: f64

definition vector_from_response ::
  "search_env \<Rightarrow> vector list \<Rightarrow> degradation \<Rightarrow> string option \<times> degradation" where
  "vector_from_response E vecs d =
     (case vecs of
        [] \<Rightarrow> (None, degradation_failure (sv_now E) ''vector_embed'' d)
      | v # _ \<Rightarrow> (Some (format_vector (sv_f32 E) v), degradation_success ''vector_embed'' d))"

definition embed_query :: "search_env \<Rightarrow> vector_arm \<Rightarrow> search_engine \<Rightarrow> (string option \<times> search_engine) run" where
  "embed_query E arm s =
     (if \<not> va_enabled arm then Done (None, s)
      else
        (case embed_client_with (sv_client E) (sv_others E) (va_fingerprint arm) (se_embed_client s) of (client, cell) \<Rightarrow>
          (let s = s\<lparr>se_embed_client := cell\<rparr>;
               failed = s\<lparr>se_degradation := degradation_failure (sv_now E) ''vector_embed'' (se_degradation s)\<rparr>
           in case client of
                None \<Rightarrow> Done (None, s)
              | Some ec \<Rightarrow>
                  (let cache_key = query_cache_key (sps_embed_model (va_snap arm)) (sps_embed_dimension (va_snap arm)) (va_query arm)
                   in case query_cache_get cache_key (se_query_embed_cache s) of
                        Some v \<Rightarrow> Done (Some (format_vector (sv_f32 E) v), s)
                      | None \<Rightarrow>
                          if sv_embed_late E then Done (None, failed)
                          else run_bind (embed (sv_http E) (sv_died E) (sv_pick E) ec [va_query arm]) (\<lambda>r.
                            case r of
                              Inl e \<Rightarrow> Done (None, failed)
                            | Inr vecs \<Rightarrow>
                                (let cache = (case vecs of
                                       v # _ \<Rightarrow> if v \<noteq> [] then query_cache_insert cache_key v (se_query_embed_cache s)
                                                else se_query_embed_cache s
                                     | [] \<Rightarrow> se_query_embed_cache s)
                                 in case vector_from_response E vecs (se_degradation s) of (vec_str, d) \<Rightarrow>
                                      Done (vec_str, s\<lparr>se_query_embed_cache := cache, se_degradation := d\<rparr>)))))))"

definition vector_arm_run :: "search_env \<Rightarrow> vector_arm \<Rightarrow> search_engine \<Rightarrow> (rows \<times> search_engine) run" where
  "vector_arm_run E arm s =
     run_bind (embed_query E arm s) (\<lambda>(vec_str, s).
       case vec_str of
         None \<Rightarrow> Done ([], s)
       | Some v \<Rightarrow>
           (let sq = vector_sql v (va_ann_zim arm) (va_ann_lang arm) (va_ann_limit arm) (sv_f64 E (va_ann_weight arm))
            in if \<not> sv_permit E ''search_vector_ann'' then Done ([], s)
               else (case sv_checkout E ''search_vector_ann'' of
                       Inl e \<Rightarrow> Done ([], s)
                     | Inr _ \<Rightarrow>
                         (case run_sql_on E sq ''vector_ann'' (se_degradation s) of (rows, d) \<Rightarrow>
                            Done (rows, s\<lparr>se_degradation := d\<rparr>)))))"

section \<open>Search\<close>

record search_arms =
  ar_fts :: "sql_query option"
  ar_prefix :: "sql_query option"
  ar_contains :: "sql_query option"
  ar_similarity :: "sql_query option"
  ar_vector :: vector_arm
  ar_trgm_ok :: bool

definition runs_fts :: "string option \<Rightarrow> bool" where
  "runs_fts mode \<longleftrightarrow> mode \<notin> {Some ''trgm'', Some ''fuzzy'', Some ''prefix'', Some ''vector'', Some ''semantic''}"

definition runs_trgm :: "string option \<Rightarrow> bool" where
  "runs_trgm mode \<longleftrightarrow> mode \<notin> {Some ''fts'', Some ''vector'', Some ''semantic''}"

definition runs_vector :: "search_params_snapshot \<Rightarrow> string option \<Rightarrow> bool" where
  "runs_vector snap mode \<longleftrightarrow> sps_embedding_enabled snap \<and>
     (mode \<in> {Some ''vector'', Some ''semantic''} \<or> mode \<notin> {Some ''fts'', Some ''trgm'', Some ''fuzzy'', Some ''prefix''})"

definition build_search_arms ::
  "search_env \<Rightarrow> string \<Rightarrow> search_params \<Rightarrow> search_params_snapshot \<Rightarrow> nat \<Rightarrow> nat \<Rightarrow> search_engine \<Rightarrow> search_arms \<times> search_engine" where
  "build_search_arms E query p snap limit offset s =
     (let zim = sp_zim p; lang = sp_language p; mode = sp_mode p;
          run_fts = runs_fts mode; run_trgm = runs_trgm mode; run_vector = runs_vector snap mode;
          fetch = branch_fetch_limit limit offset;
          fts_sq = (if run_fts then Some (fts_sql query (sp_highlight p) zim lang fetch (sv_f64 E (sps_fts_weight snap))) else None);
          query_lower = sv_lower E query
      in case build_trgm_arms run_trgm query_lower zim lang fetch (sv_f64 E (sps_trgm_weight snap)) (sv_f64 E (sps_trgm_threshold snap)) of
           (sq_prefix, sq_contains, sq_similarity) \<Rightarrow>
             (let ann_filtered = zim \<noteq> None \<or> lang \<noteq> None;
                  vector = \<lparr>va_snap = snap, va_fingerprint = embed_fingerprint snap, va_query = query, va_enabled = run_vector,
                            va_ann_zim = zim, va_ann_lang = lang, va_ann_limit = vector_fetch_limit fetch ann_filtered,
                            va_ann_weight = sps_vector_weight snap\<rparr>
              in case (if run_trgm then ensure_trgm (sv_now E) (sv_checkout E ''trgm_probe'') (sv_extension E) s else (False, s)) of
                   (trgm_ok, s) \<Rightarrow>
                     (\<lparr>ar_fts = fts_sq, ar_prefix = sq_prefix, ar_contains = sq_contains, ar_similarity = sq_similarity,
                       ar_vector = vector, ar_trgm_ok = trgm_ok\<rparr>, s)))"

definition selected_when :: "bool \<Rightarrow> 'a option \<Rightarrow> 'a option" where
  "selected_when b x = (if b then x else None)"

definition effective_limit :: "search_params_snapshot \<Rightarrow> search_params \<Rightarrow> nat" where
  "effective_limit snap p =
     min (min (case sp_limit p of Some n \<Rightarrow> n | None \<Rightarrow> sps_default_limit snap) (sps_max_limit snap)) SEARCH_HARD_LIMIT"

definition effective_offset :: "search_params \<Rightarrow> nat" where
  "effective_offset p = min (case sp_offset p of Some n \<Rightarrow> n | None \<Rightarrow> 0) SEARCH_HARD_OFFSET"

definition search_with ::
  "search_env \<Rightarrow> search_params_snapshot \<Rightarrow> string \<Rightarrow> search_params \<Rightarrow> search_engine \<Rightarrow> ((search_result list, error) result \<times> search_engine) run" where
  "search_with E snap query p s =
     (let limit = effective_limit snap p; offset = effective_offset p
      in case build_search_arms E query p snap limit offset s of (arms, s) \<Rightarrow>
           (let ok = ar_trgm_ok arms; fts_sq = ar_fts arms; sq_prefix = selected_when ok (ar_prefix arms);
                sq_contains = selected_when ok (ar_contains arms); sq_similarity = selected_when ok (ar_similarity arms)
            in case text_arm E fts_sq ''search_fts'' ''fts'' (se_degradation s) of (fts_r, d) \<Rightarrow>
               case text_arm E sq_prefix ''search_trgm_prefix'' ''trgm_prefix'' d of (prefix_r, d) \<Rightarrow>
               case text_arm E sq_contains ''search_trgm_contains'' ''trgm_contains'' d of (contains_r, d) \<Rightarrow>
               case text_arm E sq_similarity ''search_trgm_similarity'' ''trgm_similarity'' d of (similarity_r, d) \<Rightarrow>
               run_bind (vector_arm_run E (ar_vector arms) (s\<lparr>se_degradation := d\<rparr>)) (\<lambda>(vector_rows, s).
               run_bind (join_text_arms [(fts_sq \<noteq> None, fts_r), (sq_prefix \<noteq> None, prefix_r),
                                         (sq_contains \<noteq> None, contains_r), (sq_similarity \<noteq> None, similarity_r)]) (\<lambda>joined.
                 case joined of
                   Inl e \<Rightarrow> Done (Err (Database e), s)
                 | Inr rows \<Rightarrow>
                     (let trgm = dedup_trgm_by_first (rows ! 1 @ rows ! 2 @ rows ! 3)
                      in Done (Ok (merge_results (map row_to_result (rows ! 0)) (map row_to_result trgm)
                                     (map row_to_result vector_rows) limit offset), s))))))"

definition search ::
  "search_env \<Rightarrow> settings_inner \<Rightarrow> string \<Rightarrow> search_params \<Rightarrow> search_engine \<Rightarrow> ((search_result list, error) result \<times> search_engine) run" where
  "search E st query p s =
     run_bind (search_params_snapshot (unat (si_generation st)) (si_cache st)) (\<lambda>snap. search_with E snap query p s)"

section \<open>Suggest\<close>

definition suggest ::
  "search_env \<Rightarrow> settings_inner \<Rightarrow> string \<Rightarrow> string option \<Rightarrow> nat option \<Rightarrow> search_engine
    \<Rightarrow> ((search_result list, error) result \<times> search_engine) run" where
  "suggest E st query zim limit s =
     (let limit = min (case limit of Some n \<Rightarrow> n | None \<Rightarrow> SUGGEST_DEFAULT_LIMIT) SUGGEST_MAX_LIMIT;
          query_lower = sv_lower E query
      in run_bind (search_params_snapshot (unat (si_generation st)) (si_cache st)) (\<lambda>snap.
           let threshold = sv_f64 E (sps_trgm_threshold snap); one = sv_f64 E (Num 1);
               arms_ok = trgm_arms_enabled query_lower;
               sq_prefix = trgm_prefix_sql query_lower zim None limit one;
               sq_contains = selected_when arms_ok (Some (trgm_contains_sql query_lower zim None limit one));
               sq_similarity = selected_when arms_ok (Some (trgm_similarity_sql query_lower threshold zim None limit one))
           in case ensure_trgm (sv_now E) (sv_checkout E ''trgm_probe'') (sv_extension E) s of (trgm_ok, s) \<Rightarrow>
              case run_text_arm E sq_prefix ''suggest_prefix'' ''trgm_prefix'' (se_degradation s) of (prefix_r, d) \<Rightarrow>
              case text_arm E (selected_when trgm_ok sq_contains) ''suggest_contains'' ''trgm_contains'' d of (contains_r, d) \<Rightarrow>
              case text_arm E (selected_when trgm_ok sq_similarity) ''suggest_similarity'' ''trgm_similarity'' d of (similarity_r, d) \<Rightarrow>
              run_bind (join_text_arms [(True, prefix_r), (sq_contains \<noteq> None \<and> trgm_ok, contains_r),
                                        (sq_similarity \<noteq> None \<and> trgm_ok, similarity_r), (False, Ok [])]) (\<lambda>joined.
                case joined of
                  Inl e \<Rightarrow> Done (Err (Database e), s\<lparr>se_degradation := d\<rparr>)
                | Inr rows \<Rightarrow>
                    Done (Ok (merge_suggest (map row_to_result (rows ! 0)) (map row_to_result (rows ! 1 @ rows ! 2)) limit),
                          s\<lparr>se_degradation := d\<rparr>))))"

section \<open>Arms without a connection\<close>

definition arm_error :: "search_env \<Rightarrow> string \<Rightarrow> sqlx_error option" where
  "arm_error E site =
     (if \<not> sv_permit E site then Some GATE_TIMED_OUT
      else (case sv_checkout E site of Inl e \<Rightarrow> Some e | Inr _ \<Rightarrow> None))"

text \<open>The rows an arm has, on a connection.\<close>

definition arm_rows :: "search_env \<Rightarrow> sql_query \<Rightarrow> rows" where
  "arm_rows E sq = (case sv_query E sq of Inr rows \<Rightarrow> rows | Inl _ \<Rightarrow> [])"

lemma run_text_arm_result:
  "fst (run_text_arm E sq site branch d) = (case arm_error E site of Some e \<Rightarrow> Err e | None \<Rightarrow> Ok (arm_rows E sq))"
  by (simp add: run_text_arm_def arm_error_def run_sql_on_def arm_rows_def split: sum.split)

definition arm_result :: "search_env \<Rightarrow> sql_query option \<Rightarrow> string \<Rightarrow> (rows, sqlx_error) result" where
  "arm_result E sq site =
     (case sq of Some q \<Rightarrow> (case arm_error E site of Some e \<Rightarrow> Err e | None \<Rightarrow> Ok (arm_rows E q)) | None \<Rightarrow> Ok [])"

lemma text_arm_result: "fst (text_arm E sq site branch d) = arm_result E sq site"
  by (simp add: text_arm_def arm_result_def run_text_arm_result split: option.split)

definition rows_of :: "(rows, sqlx_error) result \<Rightarrow> rows" where
  "rows_of r = (case r of Inr x \<Rightarrow> x | Inl _ \<Rightarrow> [])"

text \<open>The rule for a list of arms: the errors of the selected ones, in order.\<close>

definition arm_errors :: "(bool \<times> (rows, sqlx_error) result) list \<Rightarrow> sqlx_error list" where
  "arm_errors arms = concat (map (\<lambda>(b, r). case r of Inl e \<Rightarrow> if b then [e] else [] | Inr _ \<Rightarrow> []) arms)"

definition no_connection :: "(bool \<times> (rows, sqlx_error) result) list \<Rightarrow> bool" where
  "no_connection arms \<longleftrightarrow> list_ex fst arms \<and> list_all (\<lambda>(b, r). b \<longrightarrow> isl r) arms"

lemma join_arms_spec:
  assumes "i + length arms \<le> length rows"
  shows "join_arms i arms (sel, out, err, rows) =
    (sel \<or> list_ex fst arms, out \<or> list_ex (\<lambda>(b, r). b \<and> \<not> isl r) arms,
     (case err of Some e \<Rightarrow> Some e | None \<Rightarrow> (case arm_errors arms of e # _ \<Rightarrow> Some e | [] \<Rightarrow> None)),
     take i rows @ map (\<lambda>((b, r), old). if b \<and> \<not> isl r then rows_of r else old) (zip arms (drop i rows))
       @ drop (i + length arms) rows)"
  using assms
proof (induction arms arbitrary: i sel out err rows)
  case (Cons x arms)
  obtain b r where x: "x = (b, r)" by (cases x)
  have i: "i < length rows" using Cons.prems by simp
  have "drop i rows = rows ! i # drop (Suc i) rows" using Cons_nth_drop_Suc [OF i] by simp
  moreover have "take (Suc i) rows = take i rows @ [rows ! i]" using take_Suc_conv_app_nth [OF i] by simp
  moreover have "take (Suc i) (rows[i := v]) = take i rows @ [v]" for v using i by (simp add: take_Suc_conv_app_nth)
  ultimately show ?case using Cons.IH Cons.prems x i
    by (cases r; cases b; cases err) (auto simp: arm_errors_def rows_of_def)
qed (simp add: arm_errors_def split: option.split)

lemma join_text_arms_spec:
  assumes "length arms = 4"
  shows "join_text_arms arms =
    (if no_connection arms then Done (Err (hd (arm_errors arms)))
     else Done (Ok (map (\<lambda>(b, r). if b then rows_of r else []) arms)))"
proof -
  have none: "no_connection arms \<longleftrightarrow> list_ex fst arms \<and> \<not> list_ex (\<lambda>(b, r). b \<and> \<not> isl r) arms"
    by (auto simp: no_connection_def list_ex_iff list_all_iff)
  have "arm_errors arms \<noteq> []" if "no_connection arms"
    using that by (auto simp: no_connection_def list_ex_iff list_all_iff arm_errors_def isl_def split: sum.splits) force
  moreover have "map (\<lambda>((b, r), old). if b \<and> \<not> isl r then rows_of r else old) (zip arms (replicate 4 []))
      = map (\<lambda>(b, r). if b then rows_of r else []) arms"
    using assms by (intro nth_equalityI) (auto simp: rows_of_def isl_def split: prod.split sum.split)
  ultimately show ?thesis
    using join_arms_spec [of 0 arms "replicate 4 []" False False None] assms
    by (auto simp: join_text_arms_def none split: list.split)
qed

section \<open>Requests end\<close>

definition returns :: "'a run \<Rightarrow> bool" where
  "returns m \<longleftrightarrow> (\<exists>r. m = Done r)"

lemma returns_Done [simp]: "returns (Done r)"
  by (simp add: returns_def)

lemma returns_bind [intro]: "returns m \<Longrightarrow> (\<And>r. m = Done r \<Longrightarrow> returns (f r)) \<Longrightarrow> returns (run_bind m f)"
  by (auto simp: returns_def)

lemma embed_returns: "returns (embed H died pick c texts)"
  unfolding returns_def embed_def Let_def using embed_with_spec by blast

lemma embed_query_returns: "returns (embed_query E arm s)"
  unfolding embed_query_def Let_def
  by (auto split: option.split sum.split prod.split intro!: returns_bind embed_returns)

lemma vector_arm_returns: "returns (vector_arm_run E arm s)"
  unfolding vector_arm_run_def Let_def
  by (auto split: option.split sum.split prod.split intro!: returns_bind embed_query_returns)

lemma vector_arm_disabled: "\<not> va_enabled arm \<Longrightarrow> vector_arm_run E arm s = Done ([], s)"
  by (simp add: vector_arm_run_def embed_query_def)

section \<open>The answer of a search\<close>

definition search_trgm_ok :: "search_env \<Rightarrow> search_params \<Rightarrow> search_engine \<Rightarrow> bool" where
  "search_trgm_ok E p s \<longleftrightarrow>
     runs_trgm (sp_mode p) \<and> fst (ensure_trgm (sv_now E) (sv_checkout E ''trgm_probe'') (sv_extension E) s)"

text \<open>The text arms of a search: checkout site and statement, in the order of the merge.\<close>

definition search_text_arms ::
  "search_env \<Rightarrow> search_params_snapshot \<Rightarrow> string \<Rightarrow> search_params \<Rightarrow> nat \<Rightarrow> search_engine \<Rightarrow> (string \<times> sql_query option) list" where
  "search_text_arms E snap query p n s =
     (let zim = sp_zim p; lang = sp_language p; q = sv_lower E query; w = sv_f64 E (sps_trgm_weight snap);
          ok = search_trgm_ok E p s; long = ok \<and> trgm_arms_enabled q
      in [(''search_fts'', selected_when (runs_fts (sp_mode p)) (Some (fts_sql query (sp_highlight p) zim lang n (sv_f64 E (sps_fts_weight snap))))),
          (''search_trgm_prefix'', selected_when ok (Some (trgm_prefix_sql q zim lang n w))),
          (''search_trgm_contains'', selected_when long (Some (trgm_contains_sql q zim lang n w))),
          (''search_trgm_similarity'', selected_when long
             (Some (trgm_similarity_sql q (sv_f64 E (sps_trgm_threshold snap)) zim lang n w)))])"

definition arms_joined :: "search_env \<Rightarrow> (string \<times> sql_query option) list \<Rightarrow> (bool \<times> (rows, sqlx_error) result) list" where
  "arms_joined E arms = map (\<lambda>(site, sq). (sq \<noteq> None, arm_result E sq site)) arms"

lemma search_with_answer:
  "\<exists>V s'. search_with E snap query p s = Done
     ((let limit = effective_limit snap p; offset = effective_offset p;
           arms = arms_joined E (search_text_arms E snap query p (branch_fetch_limit limit offset) s);
           rows = map (\<lambda>(b, r). if b then rows_of r else []) arms
       in if no_connection arms then Err (Database (hd (arm_errors arms)))
          else Ok (merge_results (map row_to_result (rows ! 0))
                     (map row_to_result (dedup_trgm_by_first (rows ! 1 @ rows ! 2 @ rows ! 3)))
                     (map row_to_result V) limit offset)), s')
     \<and> (\<not> runs_vector snap (sp_mode p) \<longrightarrow> V = [])"
proof -
  define limit where "limit = effective_limit snap p"
  define offset where "offset = effective_offset p"
  define T where "T = search_text_arms E snap query p (branch_fetch_limit limit offset) s"
  obtain arms s1 where b: "build_search_arms E query p snap limit offset s = (arms, s1)" by fastforce
  have T: "T = [(''search_fts'', ar_fts arms), (''search_trgm_prefix'', selected_when (ar_trgm_ok arms) (ar_prefix arms)),
      (''search_trgm_contains'', selected_when (ar_trgm_ok arms) (ar_contains arms)),
      (''search_trgm_similarity'', selected_when (ar_trgm_ok arms) (ar_similarity arms))]"
    and v: "va_enabled (ar_vector arms) = runs_vector snap (sp_mode p)"
    using b unfolding T_def build_search_arms_def search_text_arms_def build_trgm_arms_def Let_def
    by (auto simp: search_trgm_ok_def selected_when_def split: prod.splits if_splits)
  let ?p = "selected_when (ar_trgm_ok arms) (ar_prefix arms)" and ?c = "selected_when (ar_trgm_ok arms) (ar_contains arms)"
    and ?s = "selected_when (ar_trgm_ok arms) (ar_similarity arms)"
  obtain f d1 where f: "text_arm E (ar_fts arms) ''search_fts'' ''fts'' (se_degradation s1) = (f, d1)" by fastforce
  obtain pr d2 where pr: "text_arm E ?p ''search_trgm_prefix'' ''trgm_prefix'' d1 = (pr, d2)" by fastforce
  obtain c d3 where c: "text_arm E ?c ''search_trgm_contains'' ''trgm_contains'' d2 = (c, d3)" by fastforce
  obtain si d4 where si: "text_arm E ?s ''search_trgm_similarity'' ''trgm_similarity'' d3 = (si, d4)" by fastforce
  obtain V s2 where run: "vector_arm_run E (ar_vector arms) (s1\<lparr>se_degradation := d4\<rparr>) = Done (V, s2)"
    using vector_arm_returns unfolding returns_def by fastforce
  have "arm_result E (ar_fts arms) ''search_fts'' = f" "arm_result E ?p ''search_trgm_prefix'' = pr"
    "arm_result E ?c ''search_trgm_contains'' = c" "arm_result E ?s ''search_trgm_similarity'' = si"
    using f pr c si text_arm_result by (metis fst_conv)+
  then have J: "arms_joined E T = [(ar_fts arms \<noteq> None, f), (?p \<noteq> None, pr), (?c \<noteq> None, c), (?s \<noteq> None, si)]"
    by (simp add: T arms_joined_def)
  have "\<not> runs_vector snap (sp_mode p) \<longrightarrow> V = []" using run v vector_arm_disabled by fastforce
  moreover have "search_with E snap query p s = run_bind (join_text_arms (arms_joined E T)) (\<lambda>joined.
        case joined of
          Inl e \<Rightarrow> Done (Err (Database e), s2)
        | Inr rows \<Rightarrow>
            (let trgm = dedup_trgm_by_first (rows ! 1 @ rows ! 2 @ rows ! 3)
             in Done (Ok (merge_results (map row_to_result (rows ! 0)) (map row_to_result trgm)
                            (map row_to_result V) limit offset), s2)))"
    unfolding search_with_def Let_def limit_def [symmetric] offset_def [symmetric] b prod.case J
    by (simp only: f pr c si run prod.case run_bind.simps)
  ultimately show ?thesis
    unfolding Let_def limit_def [symmetric] offset_def [symmetric] T_def [symmetric]
    using join_text_arms_spec [of "arms_joined E T"]
    by (intro exI [of _ V] exI [of _ s2]) (auto simp: T arms_joined_def)
qed

definition search_sites :: "search_env \<Rightarrow> string \<Rightarrow> search_params \<Rightarrow> search_engine \<Rightarrow> string list" where
  "search_sites E query p s =
     (if runs_fts (sp_mode p) then [''search_fts''] else [])
     @ (if search_trgm_ok E p s
        then ''search_trgm_prefix'' #
          (if trgm_arms_enabled (sv_lower E query) then [''search_trgm_contains'', ''search_trgm_similarity''] else [])
        else [])"

definition all_fail :: "search_env \<Rightarrow> string list \<Rightarrow> bool" where
  "all_fail E sites \<longleftrightarrow> sites \<noteq> [] \<and> list_all (\<lambda>site. arm_error E site \<noteq> None) sites"

lemma arm_result_Some:
  "isl (arm_result E (Some q) site) \<longleftrightarrow> arm_error E site \<noteq> None"
  "rows_of (arm_result E (Some q) site) = (if arm_error E site = None then arm_rows E q else [])"
  by (auto simp: arm_result_def rows_of_def split: option.split)

text \<open>Every selected arm of a list has a connection failure exactly when all its sites fail.\<close>

lemma no_connection_sites:
  "no_connection (arms_joined E arms) \<longleftrightarrow> all_fail E (map fst (filter (\<lambda>a. snd a \<noteq> None) arms))"
proof -
  have "list_ex fst (arms_joined E arms) \<longleftrightarrow> map fst (filter (\<lambda>a. snd a \<noteq> None) arms) \<noteq> []"
    by (induction arms) (auto simp: arms_joined_def)
  moreover have "list_all (\<lambda>(b, r). b \<longrightarrow> isl r) (arms_joined E arms)
      \<longleftrightarrow> list_all (\<lambda>site. arm_error E site \<noteq> None) (map fst (filter (\<lambda>a. snd a \<noteq> None) arms))"
    by (induction arms) (auto simp: arms_joined_def arm_result_Some)
  ultimately show ?thesis by (simp only: no_connection_def all_fail_def)
qed

lemma arm_errors_sites:
  "arm_errors (arms_joined E arms) = List.map_filter (arm_error E) (map fst (filter (\<lambda>a. snd a \<noteq> None) arms))"
  by (induction arms) (auto simp: arm_errors_def arms_joined_def arm_result_def split: option.splits)

lemma first_error:
  "all_fail E sites \<Longrightarrow> hd (List.map_filter (arm_error E) sites) = the (arm_error E (hd sites))"
  by (cases sites) (auto simp: all_fail_def)

lemma healthy_not_all_fail: "(\<And>site. arm_error E site = None) \<Longrightarrow> \<not> all_fail E sites"
  by (cases sites) (simp_all add: all_fail_def)

lemma search_sites_eq:
  "map fst (filter (\<lambda>a. snd a \<noteq> None) (search_text_arms E snap query p n s)) = search_sites E query p s"
  by (auto simp: search_text_arms_def search_sites_def selected_when_def Let_def)

section \<open>The answer of a suggestion\<close>

definition suggest_limit :: "nat option \<Rightarrow> nat" where
  "suggest_limit limit = min (case limit of Some n \<Rightarrow> n | None \<Rightarrow> SUGGEST_DEFAULT_LIMIT) SUGGEST_MAX_LIMIT"

definition suggest_arms ::
  "search_env \<Rightarrow> search_params_snapshot \<Rightarrow> string \<Rightarrow> string option \<Rightarrow> nat \<Rightarrow> search_engine \<Rightarrow> (string \<times> sql_query option) list" where
  "suggest_arms E snap query zim n s =
     (let q = sv_lower E query; one = sv_f64 E (Num 1);
          long = trgm_arms_enabled q \<and> fst (ensure_trgm (sv_now E) (sv_checkout E ''trgm_probe'') (sv_extension E) s)
      in [(''suggest_prefix'', Some (trgm_prefix_sql q zim None n one)),
          (''suggest_contains'', selected_when long (Some (trgm_contains_sql q zim None n one))),
          (''suggest_similarity'', selected_when long (Some (trgm_similarity_sql q (sv_f64 E (sps_trgm_threshold snap)) zim None n one)))])"

definition suggest_sites :: "search_env \<Rightarrow> string \<Rightarrow> search_engine \<Rightarrow> string list" where
  "suggest_sites E query s =
     ''suggest_prefix'' #
       (if trgm_arms_enabled (sv_lower E query)
            \<and> fst (ensure_trgm (sv_now E) (sv_checkout E ''trgm_probe'') (sv_extension E) s)
        then [''suggest_contains'', ''suggest_similarity''] else [])"

lemma suggest_sites_eq:
  "map fst (filter (\<lambda>a. snd a \<noteq> None) (suggest_arms E snap query zim n s)) = suggest_sites E query s"
  by (auto simp: suggest_arms_def suggest_sites_def selected_when_def Let_def)

lemma suggest_with_answer:
  assumes snap: "search_params_snapshot (unat (si_generation st)) (si_cache st) = Done snap"
  shows "\<exists>s'. suggest E st query zim limit s = Done
     ((let arms = arms_joined E (suggest_arms E snap query zim (suggest_limit limit) s);
           rows = map (\<lambda>(b, r). if b then rows_of r else []) arms
       in if no_connection arms then Err (Database (hd (arm_errors arms)))
          else Ok (merge_suggest (map row_to_result (rows ! 0)) (map row_to_result (rows ! 1 @ rows ! 2)) (suggest_limit limit))), s')"
proof -
  define q where "q = sv_lower E query"
  define n where "n = suggest_limit limit"
  define one where "one = sv_f64 E (Num 1)"
  define thr where "thr = sv_f64 E (sps_trgm_threshold snap)"
  define T where "T = suggest_arms E snap query zim n s"
  define c0 where "c0 = selected_when (trgm_arms_enabled q) (Some (trgm_contains_sql q zim None n one))"
  define m0 where "m0 = selected_when (trgm_arms_enabled q) (Some (trgm_similarity_sql q thr zim None n one))"
  obtain ok s1 where trgm: "ensure_trgm (sv_now E) (sv_checkout E ''trgm_probe'') (sv_extension E) s = (ok, s1)" by fastforce
  let ?p = "trgm_prefix_sql q zim None n one"
  obtain pr d1 where pr: "run_text_arm E ?p ''suggest_prefix'' ''trgm_prefix'' (se_degradation s1) = (pr, d1)" by fastforce
  obtain c d2 where c: "text_arm E (selected_when ok c0) ''suggest_contains'' ''trgm_contains'' d1 = (c, d2)" by fastforce
  obtain m d3 where m: "text_arm E (selected_when ok m0) ''suggest_similarity'' ''trgm_similarity'' d2 = (m, d3)" by fastforce
  have T: "T = [(''suggest_prefix'', Some ?p), (''suggest_contains'', selected_when ok c0), (''suggest_similarity'', selected_when ok m0)]"
    by (auto simp: T_def suggest_arms_def trgm selected_when_def c0_def m0_def q_def one_def thr_def Let_def)
  have "arm_result E (Some ?p) ''suggest_prefix'' = pr" "arm_result E (selected_when ok c0) ''suggest_contains'' = c"
    "arm_result E (selected_when ok m0) ''suggest_similarity'' = m"
    using pr c m text_arm_result [of E "Some ?p" "''suggest_prefix''" "''trgm_prefix''" "se_degradation s1"] text_arm_result
    by (auto simp: text_arm_def) (metis fst_conv text_arm_def)+
  then have J: "arms_joined E T @ [(False, Ok [])]
      = [(True, pr), (c0 \<noteq> None \<and> ok, c), (m0 \<noteq> None \<and> ok, m), (False, Ok [])]"
    by (simp add: T arms_joined_def selected_when_def)
  have "suggest E st query zim limit s = run_bind (join_text_arms (arms_joined E T @ [(False, Ok [])])) (\<lambda>joined.
       case joined of
         Inl e \<Rightarrow> Done (Err (Database e), s1\<lparr>se_degradation := d3\<rparr>)
       | Inr rows \<Rightarrow>
           Done (Ok (merge_suggest (map row_to_result (rows ! 0)) (map row_to_result (rows ! 1 @ rows ! 2)) n),
                 s1\<lparr>se_degradation := d3\<rparr>))"
    unfolding suggest_def Let_def snap run_bind.simps q_def [symmetric] suggest_limit_def [symmetric] n_def [symmetric]
      one_def [symmetric] thr_def [symmetric] c0_def [symmetric] m0_def [symmetric] J
    by (simp only: trgm pr c m prod.case)
  moreover have "no_connection (arms_joined E T @ [(False, Ok [])]) = no_connection (arms_joined E T)"
    "arm_errors (arms_joined E T @ [(False, Ok [])]) = arm_errors (arms_joined E T)"
    by (simp_all add: no_connection_def arm_errors_def)
  moreover have "length (arms_joined E T) = 3" by (simp add: T arms_joined_def)
  ultimately show ?thesis
    unfolding Let_def n_def [symmetric] T_def [symmetric]
    using join_text_arms_spec [of "arms_joined E T @ [(False, Ok [])]"]
    by (auto simp: nth_append)
qed

lemma merge_suggest_props:
  fixes P Q :: "search_result list" and n :: nat
  defines "rs \<equiv> merge_suggest P Q n"
  shows "length rs \<le> n" and "distinct (map r_id rs)"
    and "\<exists>k. r_id ` set (take k rs) \<subseteq> r_id ` set P \<and> r_id ` set (drop k rs) \<subseteq> r_id ` set Q - r_id ` set P
         \<and> sorted_wrt (\<lambda>r q. r_score q \<le> r_score r) (take k rs) \<and> sorted_wrt (\<lambda>r q. r_score q \<le> r_score r) (drop k rs)"
proof -
  define p where "p = sort_desc (dedup_by r_id {} P)"
  define q where "q = sort_desc (dedup_by r_id (r_id ` set P) Q)"
  have rs: "rs = take n (p @ q)" by (simp add: rs_def merge_suggest_def p_def q_def Let_def)
  have ids: "r_id ` set p = r_id ` set P" "r_id ` set q = r_id ` set Q - r_id ` set P"
    by (simp_all add: p_def q_def sort_desc_def dedup_by_set)
  have dist: "distinct (map r_id (sort_desc (dedup_by r_id seen xs)))" for seen xs
    using dedup_by_is_distinct [of r_id seen xs]
    by (simp add: sort_desc_def distinct_map)
  have desc: "sorted_wrt (\<lambda>r q. r_score q \<le> r_score r) (sort_desc xs)" for xs
  proof -
    have "sorted (map (\<lambda>r. - r_score r) (sort_desc xs))" by (simp add: sort_desc_def)
    then show ?thesis by (simp add: sorted_wrt_map)
  qed
  show "length rs \<le> n" by (simp add: rs)
  have "distinct (map r_id (p @ q))" using dist ids by (simp add: p_def q_def)
  then show "distinct (map r_id rs)" unfolding rs take_map [symmetric] by (rule distinct_take)
  have "take (length p) rs = take n p" "drop (length p) rs = take (n - length p) q"
    by (simp_all add: rs min_def take_drop)
  then have "r_id ` set (take (length p) rs) \<subseteq> r_id ` set P \<and> r_id ` set (drop (length p) rs) \<subseteq> r_id ` set Q - r_id ` set P
      \<and> sorted_wrt (\<lambda>r q. r_score q \<le> r_score r) (take (length p) rs)
      \<and> sorted_wrt (\<lambda>r q. r_score q \<le> r_score r) (drop (length p) rs)"
    using image_mono [OF set_take_subset [of n p], of r_id] image_mono [OF set_take_subset [of "n - length p" q], of r_id]
    unfolding ids by (simp add: p_def q_def sorted_wrt_take desc)
  then show "\<exists>k. r_id ` set (take k rs) \<subseteq> r_id ` set P \<and> r_id ` set (drop k rs) \<subseteq> r_id ` set Q - r_id ` set P
         \<and> sorted_wrt (\<lambda>r q. r_score q \<le> r_score r) (take k rs) \<and> sorted_wrt (\<lambda>r q. r_score q \<le> r_score r) (drop k rs)"
    by (rule exI)
qed

section \<open>Properties\<close>

text \<open>
  C20. Every search ends with an answer, and it is an error exactly when at least one text arm was
  selected and none of the selected arms got a permit and a connection; the error is that of the first
  selected arm. A search of which one selected arm has a connection, and a vector-only search on a dead
  pool, answer with results.
\<close>

theorem search_fails_iff_no_connection:
  "\<exists>rs s'. search E st query p s = Done
     (if all_fail E (search_sites E query p s)
      then Err (Database (the (arm_error E (hd (search_sites E query p s)))))
      else Ok rs, s')"
proof -
  obtain snap where snap: "search_params_snapshot (unat (si_generation st)) (si_cache st) = Done snap"
    using search_snapshot_total by blast
  obtain V s' where a: "search_with E snap query p s = Done
     ((let limit = effective_limit snap p; offset = effective_offset p;
           arms = arms_joined E (search_text_arms E snap query p (branch_fetch_limit limit offset) s);
           rows = map (\<lambda>(b, r). if b then rows_of r else []) arms
       in if no_connection arms then Err (Database (hd (arm_errors arms)))
          else Ok (merge_results (map row_to_result (rows ! 0))
                     (map row_to_result (dedup_trgm_by_first (rows ! 1 @ rows ! 2 @ rows ! 3)))
                     (map row_to_result V) limit offset)), s')"
    using search_with_answer by blast
  show ?thesis
    using a [unfolded Let_def no_connection_sites arm_errors_sites search_sites_eq]
    by (cases "all_fail E (search_sites E query p s)") (auto simp: search_def snap first_error)
qed


text \<open>A database with two articles that answers the limit of a statement.\<close>

definition sample_rows :: rows where
  "sample_rows = [(1, 1, ''A/x'', ''X'', ''x'', None, ''en'', ''wiki'', 2), (2, 1, ''A/y'', ''Y'', ''y'', None, ''en'', ''wiki'', 1)]"

definition sample_search_env :: search_env where
  "sample_search_env =
     \<lparr>sv_lower = id, sv_f64 = (\<lambda>_. ''1''), sv_f32 = (\<lambda>_. ''0.0000000''), sv_permit = (\<lambda>_. True), sv_checkout = (\<lambda>_. Ok ()),
      sv_query = (\<lambda>sq. Ok (case parse_unsigned 64 (last (sq_params sq)) of Some n \<Rightarrow> take n sample_rows | None \<Rightarrow> [])),
      sv_extension = Ok True, sv_now = 0, sv_client = sample_client_env, sv_others = id, sv_http = (\<lambda>_. \<lparr>eh_post = (\<lambda>_ _. Err ''offline''), eh_json = (\<lambda>_. Err ''offline'')\<rparr>),
      sv_died = (\<lambda>_. False), sv_pick = (\<lambda>_. 0), sv_embed_late = False\<rparr>"

definition sample_params :: search_params where
  "sample_params = \<lparr>sp_zim = None, sp_language = None, sp_mode = Some ''fts'', sp_limit = Some 1, sp_offset = Some 1, sp_highlight = False\<rparr>"

lemma sample_snapshot:
  "\<exists>snap. search_params_snapshot 0 Map.empty = Done snap \<and> effective_limit snap sample_params = 1"
  by (simp add: search_params_snapshot_def read_fast_or_seed_def read_fast_def seeds effective_limit_def sample_params_def SEARCH_HARD_LIMIT_def)


text \<open>
  Every suggestion request ends with an answer. It is an error exactly when none of the selected
  arms (the prefix arm, and with a long enough query and the extension the other two) got a connection.
  Otherwise there are at most as many results as asked for and never more than 20, no article twice,
  and the prefix matches come first, each group in descending order of score.
\<close>

theorem suggest_answers:
  "\<exists>rs s' k. suggest E st query zim limit s = Done
     (if all_fail E (suggest_sites E query s) then Err (Database (the (arm_error E ''suggest_prefix''))) else Ok rs, s')
   \<and> length rs \<le> (case limit of Some n \<Rightarrow> n | None \<Rightarrow> 10) \<and> length rs \<le> 20 \<and> distinct (map r_id rs)
   \<and> r_id ` set (take k rs) \<subseteq> fst ` set (arm_rows E (trgm_prefix_sql (sv_lower E query) zim None (suggest_limit limit) (sv_f64 E (Num 1))))
   \<and> r_id ` set (drop k rs) \<inter> r_id ` set (take k rs) = {}
   \<and> sorted_wrt (\<lambda>r q. r_score q \<le> r_score r) (take k rs) \<and> sorted_wrt (\<lambda>r q. r_score q \<le> r_score r) (drop k rs)"
proof -
  obtain snap where snap: "search_params_snapshot (unat (si_generation st)) (si_cache st) = Done snap"
    using search_snapshot_total by blast
  define n where "n = suggest_limit limit"
  define rows where "rows = map (\<lambda>(b, r). if b then rows_of r else []) (arms_joined E (suggest_arms E snap query zim n s))"
  define rs where "rs = merge_suggest (map row_to_result (rows ! 0)) (map row_to_result (rows ! 1 @ rows ! 2)) n"
  obtain s' where a: "suggest E st query zim limit s = Done
     (if all_fail E (suggest_sites E query s)
      then Err (Database (hd (List.map_filter (arm_error E) (suggest_sites E query s)))) else Ok rs, s')"
    using suggest_with_answer [OF snap, unfolded Let_def no_connection_sites arm_errors_sites suggest_sites_eq, of E query zim limit s]
    unfolding n_def [symmetric] rows_def [symmetric] rs_def [symmetric] by blast
  have n: "n \<le> (case limit of Some n \<Rightarrow> n | None \<Rightarrow> 10)" "n \<le> 20"
    by (auto simp: n_def suggest_limit_def SUGGEST_DEFAULT_LIMIT_def SUGGEST_MAX_LIMIT_def split: option.split)
  have err: "hd (List.map_filter (arm_error E) (suggest_sites E query s)) = the (arm_error E ''suggest_prefix'')"
    if "all_fail E (suggest_sites E query s)"
    using first_error [OF that] by (simp add: suggest_sites_def)
  obtain k where k: "r_id ` set (take k rs) \<subseteq> r_id ` set (map row_to_result (rows ! 0))"
    "r_id ` set (drop k rs) \<subseteq> r_id ` set (map row_to_result (rows ! 1 @ rows ! 2)) - r_id ` set (map row_to_result (rows ! 0))"
    "sorted_wrt (\<lambda>r q. r_score q \<le> r_score r) (take k rs)" "sorted_wrt (\<lambda>r q. r_score q \<le> r_score r) (drop k rs)"
    using merge_suggest_props(3) [of "map row_to_result (rows ! 0)" "map row_to_result (rows ! 1 @ rows ! 2)" n]
    unfolding rs_def by (elim exE conjE)
  have disjoint: "r_id ` set (drop k rs) \<inter> r_id ` set (take k rs) = {}" using k(1,2) by blast
  have "rows ! 0 = rows_of (arm_result E (Some (trgm_prefix_sql (sv_lower E query) zim None n (sv_f64 E (Num 1)))) ''suggest_prefix'')"
    unfolding rows_def suggest_arms_def arms_joined_def Let_def by (simp only: list.map prod.case nth_Cons_0 option.simps simp_thms if_True)
  then have "set (rows ! 0) \<subseteq> set (arm_rows E (trgm_prefix_sql (sv_lower E query) zim None n (sv_f64 E (Num 1))))"
    by (auto simp: arm_result_Some split: if_splits)
  moreover have "r_id (row_to_result x) = fst x" for x by (cases x rule: row_to_result.cases) simp
  then have ids: "r_id ` set (map row_to_result xs) = fst ` set xs" for xs by (simp add: image_image)
  ultimately have prefixed: "r_id ` set (take k rs)
      \<subseteq> fst ` set (arm_rows E (trgm_prefix_sql (sv_lower E query) zim None n (sv_f64 E (Num 1))))"
    by (intro order_trans [OF k(1) [unfolded ids]] image_mono)
  have "length rs \<le> n" "distinct (map r_id rs)" by (simp_all add: rs_def merge_suggest_props)
  then show ?thesis using a n err k(3,4) disjoint prefixed unfolding n_def
    by (intro exI [of _ rs] exI [of _ s'] exI [of _ k]) (cases "all_fail E (suggest_sites E query s)"; simp)
qed

end
