(* ===== verification/Direct.thy ===== *)
theory Direct
  imports NetGuard Files Downloads Settings
begin

text \<open>
  The direct HTTP download (\<open>src/torrent/poller/direct.rs\<close>): resume decision, streaming into the
  \<open>.part\<close> file, and the finalisation with verification, installation and the row update.

  The state is the table of downloads, the files and the integrity records of the library. The response
  body is a list of events, each a chunk or a transport error with what happens around it: the clock, a
  failed write, a failed statement, and what other connections did to the table meanwhile. Writes go
  through a buffer that is flushed at the end of the stream; when the stream fails, only some first
  part of the received bytes is on disk.
\<close>

section \<open>State and environment\<close>

record direct_world =
  dw_db :: downloads
  dw_files :: "path \<Rightarrow> string option"
  dw_integrity :: "string \<Rightarrow> (string option \<times> string option \<times> bool) option" \<comment> \<open>of a row of \<open>zims\<close>: digest, publisher digest, drift\<close>

record stream_event =
  ev_chunk :: "(string, string) result"
  ev_write :: "string option"
  ev_now :: nat \<comment> \<open>nanoseconds\<close>
  ev_fault :: "sqlx_error option"
  ev_others :: "downloads \<Rightarrow> downloads"

record download_response =
  dr_status :: nat
  dr_content_range :: "string option"
  dr_content_length :: "nat option"
  dr_body :: "stream_event list"

record direct_env =
  de_time :: timestamp
  de_start :: nat \<comment> \<open>the clock when the body starts\<close>
  de_status_text :: "nat \<Rightarrow> string" \<comment> \<open>\<open>Display\<close> of a status code\<close>
  de_open :: "string option"
  de_flush :: "string option"
  de_kept :: nat \<comment> \<open>bytes of a failed stream that reached the disk\<close>
  de_reissue :: "(download_response, string) result"
  de_fault :: "string \<Rightarrow> sqlx_error option" \<comment> \<open>by statement\<close>
  de_others :: "string \<Rightarrow> downloads \<Rightarrow> downloads" \<comment> \<open>what others did before that statement\<close>
  de_sha256 :: "string \<Rightarrow> string"
  de_read :: "string option"
  de_verify :: "string \<Rightarrow> (unit, error) result"
  de_task_died :: "string option"
  de_rename :: "string option"
  de_resync :: "(unit, error) result"
  de_record :: "error option"
  de_zim_dir :: path

definition remove_part :: "path \<Rightarrow> direct_world \<Rightarrow> direct_world" where
  "remove_part part w = w\<lparr>dw_files := (dw_files w)(part := None)\<rparr>"

definition mark_row_error :: "direct_env \<Rightarrow> string \<Rightarrow> int \<Rightarrow> string \<Rightarrow> direct_world \<Rightarrow> direct_world" where
  "mark_row_error E site i msg w =
     w\<lparr>dw_db := mark_error (de_fault E site) (de_time E) i msg (de_others E site (dw_db w))\<rparr>"

definition torrent_error :: "string \<Rightarrow> error" where "torrent_error msg = Torrent Other msg"

section \<open>Resume decisions\<close>

definition resume_plan :: "string option \<Rightarrow> nat option" where
  "resume_plan part = (case part of Some c \<Rightarrow> if length c > 0 then Some (length c) else None | None \<Rightarrow> None)"

definition content_range_parts :: "string \<Rightarrow> (nat option \<times> nat) option" where
  "content_range_parts val =
     (case split_once CHR ''/'' val of
        None \<Rightarrow> None
      | Some (before, full) \<Rightarrow>
          (case parse_unsigned 64 (trim full) of
             None \<Rightarrow> None
           | Some full \<Rightarrow>
               (case split_once CHR '' '' before of
                  None \<Rightarrow> None
                | Some (unit, spec) \<Rightarrow>
                    if unit \<noteq> ''bytes'' then None
                    else if spec = ''*'' then Some (None, full)
                    else (case split_once CHR ''-'' spec of
                            None \<Rightarrow> None
                          | Some (s, t) \<Rightarrow>
                              (case parse_unsigned 64 s of
                                 None \<Rightarrow> None
                               | Some s \<Rightarrow> (case parse_unsigned 64 t of None \<Rightarrow> None | Some _ \<Rightarrow> Some (Some s, full)))))))"

definition content_range_total :: "download_response \<Rightarrow> nat option" where
  "content_range_total r = map_option snd (Option.bind (dr_content_range r) content_range_parts)"

definition content_range_start :: "download_response \<Rightarrow> nat option" where
  "content_range_start r = Option.bind (Option.bind (dr_content_range r) content_range_parts) fst"

datatype resume_206_decision = Append | FallbackFresh

definition resume_206_decision :: "download_response \<Rightarrow> nat \<Rightarrow> resume_206_decision" where
  "resume_206_decision r from = (if content_range_start r = Some from then Append else FallbackFresh)"

section \<open>Streaming\<close>

definition PROGRESS_WINDOW :: nat where "PROGRESS_WINDOW = 2 * 1000000000"
definition CANCEL_CHECK_WINDOW :: nat where "CANCEL_CHECK_WINDOW = 5 * 1000000000"

definition window_speed :: "nat \<Rightarrow> nat \<Rightarrow> int" where
  "window_speed window_bytes elapsed =
     round (of_nat window_bytes / max (of_nat elapsed / 1000000000) (1 / 1000) :: rat)"

record stream_outcome =
  so_size :: nat
  so_total :: "nat option"
  so_cancelled :: bool

datatype file_stream =
    FileAppend nat "nat option" download_response
  | FileFresh "nat option" download_response

definition is_success :: "nat \<Rightarrow> bool" where "is_success s \<longleftrightarrow> 200 \<le> s \<and> s < 300"

definition over_limit_msg :: "nat \<Rightarrow> nat \<Rightarrow> string" where
  "over_limit_msg t max_bytes =
     ''file is '' @ decimal_digits t @ '' bytes, exceeds the '' @ decimal_digits max_bytes @ ''-byte limit''"

definition http_msg :: "direct_env \<Rightarrow> nat \<Rightarrow> string" where "http_msg E s = ''HTTP '' @ de_status_text E s"

text \<open>\<open>File::create\<close> truncates.\<close>

definition create_part :: "direct_env \<Rightarrow> path \<Rightarrow> direct_world \<Rightarrow> (unit, error) result \<times> direct_world" where
  "create_part E part w =
     (case de_open E of
        Some e \<Rightarrow> (Err (Io e), w)
      | None \<Rightarrow> (Ok (), w\<lparr>dw_files := (dw_files w)(part := Some [])\<rparr>))"

text \<open>Open for appending, creating the file when it is missing.\<close>

definition append_part :: "direct_env \<Rightarrow> path \<Rightarrow> direct_world \<Rightarrow> (unit, error) result \<times> direct_world" where
  "append_part E part w =
     (case de_open E of
        Some e \<Rightarrow> (Err (Io e), w)
      | None \<Rightarrow> (Ok (), w\<lparr>dw_files := (dw_files w)(part := Some (case dw_files w part of Some c \<Rightarrow> c | None \<Rightarrow> []))\<rparr>))"

definition over_limit :: "nat \<Rightarrow> nat option \<Rightarrow> nat option" where
  "over_limit max_bytes t = (case t of Some n \<Rightarrow> if n > max_bytes then Some n else None | None \<Rightarrow> None)"

definition fresh_fallback ::
  "direct_env \<Rightarrow> path \<Rightarrow> nat \<Rightarrow> int \<Rightarrow> direct_world \<Rightarrow> (file_stream, error) result \<times> direct_world" where
  "fresh_fallback E part max_bytes i w =
     (case de_reissue E of
        Inl e \<Rightarrow> (Err (Http e), w)
      | Inr resp2 \<Rightarrow>
          if \<not> is_success (dr_status resp2)
          then (Err (torrent_error (http_msg E (dr_status resp2))),
                mark_row_error E ''fallback'' i (http_msg E (dr_status resp2)) (remove_part part w))
          else (case over_limit max_bytes (dr_content_length resp2) of
                  Some t \<Rightarrow> (Err (torrent_error (over_limit_msg t max_bytes)),
                             mark_row_error E ''fallback'' i (over_limit_msg t max_bytes) w)
                | None \<Rightarrow>
                    (case create_part E part (remove_part part w) of
                       (Inl e, w) \<Rightarrow> (Err e, w)
                     | (Inr _, w) \<Rightarrow> (Ok (FileFresh (dr_content_length resp2) resp2), w))))"

text \<open>Refuse a declared size over the limit, or go on.\<close>

definition limited ::
  "direct_env \<Rightarrow> nat \<Rightarrow> int \<Rightarrow> nat option \<Rightarrow> direct_world
    \<Rightarrow> (direct_world \<Rightarrow> (file_stream, error) result \<times> direct_world) \<Rightarrow> (file_stream, error) result \<times> direct_world" where
  "limited E max_bytes i declared w k =
     (case over_limit max_bytes declared of
        Some t \<Rightarrow> (Err (torrent_error (over_limit_msg t max_bytes)), mark_row_error E ''limit'' i (over_limit_msg t max_bytes) w)
      | None \<Rightarrow> k w)"

definition opened :: "(unit, error) result \<times> direct_world \<Rightarrow> file_stream \<Rightarrow> (file_stream, error) result \<times> direct_world" where
  "opened r s = (case r of (Inl e, w) \<Rightarrow> (Err e, w) | (Inr _, w) \<Rightarrow> (Ok s, w))"

definition open_stream ::
  "direct_env \<Rightarrow> download_response \<Rightarrow> path \<Rightarrow> nat option \<Rightarrow> nat \<Rightarrow> int \<Rightarrow> direct_world
    \<Rightarrow> (file_stream, error) result \<times> direct_world" where
  "open_stream E resp part resume_from max_bytes i w =
     (let fresh = (if is_success (dr_status resp)
                   then limited E max_bytes i (dr_content_length resp) w
                          (\<lambda>w. opened (create_part E part w) (FileFresh (dr_content_length resp) resp))
                   else (Err (torrent_error (http_msg E (dr_status resp))),
                         mark_row_error E ''status'' i (http_msg E (dr_status resp)) w))
      in case resume_from of
           None \<Rightarrow> fresh
         | Some from \<Rightarrow>
             if dr_status resp = 206
             then if resume_206_decision resp from \<noteq> Append then fresh_fallback E part max_bytes i w
                  else (let declared = (case content_range_total resp of
                                       Some t \<Rightarrow> Some t
                                     | None \<Rightarrow> map_option (\<lambda>l. min (from + l) (2 ^ 64 - 1)) (dr_content_length resp))
                        in limited E max_bytes i declared w (\<lambda>w. opened (append_part E part w) (FileAppend from declared resp)))
             else if dr_status resp = 416
             then if content_range_total resp = Some from
                  then limited E max_bytes i (Some from) w (\<lambda>w. opened (append_part E part w) (FileAppend from (Some from) resp))
                  else fresh_fallback E part max_bytes i w
             else fresh)"

definition observe_cancel ::
  "sqlx_error option \<Rightarrow> int \<Rightarrow> path \<Rightarrow> direct_world \<Rightarrow> string option \<times> direct_world" where
  "observe_cancel fault i part w =
     (case status_if_changed fault (dw_db w) i (as_str Downloading) of
        None \<Rightarrow> (None, w)
      | Some status \<Rightarrow> (Some status, if status = as_str Cancelled then remove_part part w else w))"

text \<open>The window bookkeeping of the loop.\<close>

record window =
  wi_bytes :: nat
  wi_start :: nat
  wi_cancel :: nat

definition progress_of :: "nat \<Rightarrow> nat option \<Rightarrow> f32" where
  "progress_of received declared =
     (case declared of Some t \<Rightarrow> if t > 0 then min (of_nat received / of_nat t) 1 else 0 | None \<Rightarrow> 0)"

text \<open>One turn of the loop: it stops with a result, or goes on. The bytes written through the buffer are kept apart
  from the file.\<close>

datatype loop_step =
    Stop "(nat \<times> bool, error) result" string direct_world
  | Go window nat string direct_world

definition check_cancel ::
  "stream_event \<Rightarrow> int \<Rightarrow> path \<Rightarrow> window \<Rightarrow> nat \<Rightarrow> string \<Rightarrow> direct_world \<Rightarrow> loop_step" where
  "check_cancel ev i part win received written w =
     (if ev_now ev - wi_cancel win \<ge> CANCEL_CHECK_WINDOW
      then (case observe_cancel (ev_fault ev) i part w of
              (Some status, w) \<Rightarrow> Stop (Ok (received, status = as_str Cancelled)) written w
            | (None, w) \<Rightarrow> Go (win\<lparr>wi_cancel := ev_now ev\<rparr>) received written w)
      else Go win received written w)"

definition report_progress ::
  "direct_env \<Rightarrow> stream_event \<Rightarrow> int \<Rightarrow> nat option \<Rightarrow> window \<Rightarrow> nat \<Rightarrow> direct_world
    \<Rightarrow> (window, sqlx_error) result \<times> direct_world" where
  "report_progress E ev i declared win received w =
     (let elapsed = ev_now ev - wi_start win
      in if elapsed \<ge> PROGRESS_WINDOW
         then (case refresh_progress (ev_fault ev) (de_time E) i (progress_of received declared)
                      (window_speed (wi_bytes win) elapsed) (dw_db w) of
                 (Inl e, db) \<Rightarrow> (Err e, w\<lparr>dw_db := db\<rparr>)
               | (Inr _, db) \<Rightarrow> (Ok (win\<lparr>wi_bytes := 0, wi_start := ev_now ev\<rparr>), w\<lparr>dw_db := db\<rparr>))
         else (Ok win, w))"

definition stream_step ::
  "direct_env \<Rightarrow> path \<Rightarrow> nat \<Rightarrow> nat option \<Rightarrow> int \<Rightarrow> stream_event \<Rightarrow> window \<Rightarrow> nat \<Rightarrow> string \<Rightarrow> direct_world \<Rightarrow> loop_step" where
  "stream_step E part max_bytes declared i ev win received written w =
     (let w = w\<lparr>dw_db := ev_others ev (dw_db w)\<rparr> in
      case ev_chunk ev of
        Inl e \<Rightarrow> Stop (Err (Http e)) written w
      | Inr chunk \<Rightarrow>
          if min (received + length chunk) (2 ^ 64 - 1) > max_bytes
          then (let msg = ''download exceeds the '' @ decimal_digits max_bytes @ ''-byte limit''
                in Stop (Err (torrent_error msg)) written
                     (w\<lparr>dw_db := mark_error (ev_fault ev) (de_time E) i msg (dw_db w)\<rparr>))
          else
            (case ev_write ev of
               Some e \<Rightarrow> Stop (Err (Io e)) written w
             | None \<Rightarrow>
                 (let received = received + length chunk; written = written @ chunk;
                      win = win\<lparr>wi_bytes := wi_bytes win + length chunk\<rparr>
                  in case report_progress E ev i declared win received w of
                       (Inl e, w) \<Rightarrow> Stop (Err (Database e)) written w
                     | (Inr win, w) \<Rightarrow> check_cancel ev i part win received written w)))"

fun stream_loop ::
  "direct_env \<Rightarrow> path \<Rightarrow> nat \<Rightarrow> nat option \<Rightarrow> int \<Rightarrow> stream_event list \<Rightarrow> window \<Rightarrow> nat \<Rightarrow> string \<Rightarrow> direct_world
    \<Rightarrow> (nat \<times> bool, error) result \<times> string \<times> direct_world" where
  "stream_loop E part max_bytes declared i [] win received written w = (Ok (received, False), written, w)"
| "stream_loop E part max_bytes declared i (ev # evs) win received written w =
     (case stream_step E part max_bytes declared i ev win received written w of
        Stop r written w \<Rightarrow> (r, written, w)
      | Go win received written w \<Rightarrow> stream_loop E part max_bytes declared i evs win received written w)"

text \<open>What the bytes written are on disk: nothing once the file was removed.\<close>

definition write_back :: "path \<Rightarrow> string \<Rightarrow> direct_world \<Rightarrow> direct_world" where
  "write_back part bytes w =
     (case dw_files w part of
        Some c \<Rightarrow> w\<lparr>dw_files := (dw_files w)(part := Some (c @ bytes))\<rparr>
      | None \<Rightarrow> w)"

definition stream_part ::
  "direct_env \<Rightarrow> download_response \<Rightarrow> path \<Rightarrow> nat option \<Rightarrow> nat \<Rightarrow> int \<Rightarrow> direct_world
    \<Rightarrow> (stream_outcome, error) result \<times> direct_world" where
  "stream_part E resp part resume_from max_bytes i w =
     (case open_stream E resp part resume_from max_bytes i w of
        (Inl e, w) \<Rightarrow> (Err e, w)
      | (Inr s, w) \<Rightarrow>
          (case (case s of FileAppend from declared r \<Rightarrow> (from, declared, r) | FileFresh declared r \<Rightarrow> (0, declared, r)) of
             (received, declared, r) \<Rightarrow>
               (case stream_loop E part max_bytes declared i (dr_body r) \<lparr>wi_bytes = 0, wi_start = de_start E, wi_cancel = de_start E\<rparr>
                       received [] w of
                  (Inl e, written, w) \<Rightarrow> (Err e, write_back part (take (de_kept E) written) w)
                | (Inr (received, cancelled), written, w) \<Rightarrow>
                    (case de_flush E of
                       Some e \<Rightarrow> (Err (Io e), write_back part (take (de_kept E) written) w)
                     | None \<Rightarrow>
                         (let w = write_back part written w
                          in case declared of
                               Some t \<Rightarrow>
                                 if received \<noteq> t \<and> \<not> cancelled
                                 then (let msg = (if received < t
                                         then ''stream ended at '' @ decimal_digits received @ '' of '' @ decimal_digits t @ '' bytes (truncated)''
                                         else ''stream delivered '' @ decimal_digits received @ '' of '' @ decimal_digits t
                                              @ '' declared bytes (oversized body)'')
                                       in (Err (torrent_error msg), mark_row_error E ''total'' i msg w))
                                 else (Ok \<lparr>so_size = received, so_total = declared, so_cancelled = cancelled\<rparr>, w)
                             | None \<Rightarrow> (Ok \<lparr>so_size = received, so_total = declared, so_cancelled = cancelled\<rparr>, w))))))"

section \<open>Finalisation\<close>

definition path_display :: "path \<Rightarrow> string" where "path_display p = join ''/'' p"

text \<open>\<open>Path::file_stem\<close> of a file name.\<close>

definition file_stem :: "string \<Rightarrow> string option" where
  "file_stem name =
     (if name = [] \<or> name = ''..'' then None
      else (case rsplit_once CHR ''.'' name of
              Some (before, _) \<Rightarrow> if before = [] then Some name else Some before
            | None \<Rightarrow> Some name))"

definition int_text :: "int \<Rightarrow> string" where
  "int_text n = (if n < 0 then CHR ''-'' # decimal_digits (nat (- n)) else decimal_digits (nat n))"

definition discard_if_unowned :: "direct_env \<Rightarrow> int \<Rightarrow> path \<Rightarrow> direct_world \<Rightarrow> direct_world" where
  "discard_if_unowned E i dst w =
     (let w = w\<lparr>dw_db := de_others E ''discard'' (dw_db w)\<rparr>
      in case de_fault E ''discard'' of
           Some _ \<Rightarrow> w
         | None \<Rightarrow> (case find_live_row_owns_path (dw_db w) (path_display dst) i of
                      Some _ \<Rightarrow> w
                    | None \<Rightarrow> remove_part dst w))"

definition sha256_file :: "direct_env \<Rightarrow> string option \<Rightarrow> (string, error) result" where
  "sha256_file E staged =
     (case (de_read E, staged) of
        (Some e, _) \<Rightarrow> Err (Io e)
      | (None, None) \<Rightarrow> Err (Io ''No such file or directory (os error 2)'')
      | (None, Some c) \<Rightarrow> Ok (de_sha256 E c))"

text \<open>The blocking check: the digest, and the claim it contradicts.\<close>

definition check_staged :: "direct_env \<Rightarrow> string option \<Rightarrow> string option \<Rightarrow> (string \<times> string option, error) result" where
  "check_staged E claim staged =
     (case de_task_died E of
        Some e \<Rightarrow> Err (Internal (''verify task failed: '' @ e))
      | None \<Rightarrow>
          and_then (sha256_file E staged) (\<lambda>digest.
            case claim of
              Some c \<Rightarrow>
                if \<not> eq_ignore_ascii_case digest c then Ok (digest, Some c)
                else and_then (de_verify E (the staged)) (\<lambda>_. Ok (digest, None))
            | None \<Rightarrow> and_then (de_verify E (the staged)) (\<lambda>_. Ok (digest, None))))"

definition digest_mismatch_msg :: "string \<Rightarrow> string \<Rightarrow> string" where
  "digest_mismatch_msg digest c =
     error_display (\<lambda>_. []) (ZimDigestMismatch (''file is '' @ digest @ '', catalog declared '' @ c))"

definition drift_of :: "direct_env \<Rightarrow> int \<Rightarrow> string \<Rightarrow> downloads \<Rightarrow> bool" where
  "drift_of E i digest db =
     (case (case de_fault E ''url'' of Some _ \<Rightarrow> None | None \<Rightarrow> map_option d_url (row_by_id db i)) of
        None \<Rightarrow> False
      | Some url \<Rightarrow>
          (case de_fault E ''prior'' of
             Some _ \<Rightarrow> False
           | None \<Rightarrow> drift_decision (prior_observed_digest_by_url db i url) digest))"

text \<open>\<open>UPDATE zims SET content_sha256 = $1, publisher_sha256 = COALESCE($2, publisher_sha256), digest_drift = $3 WHERE name = $4\<close>.\<close>

definition set_content_sha256 :: "string \<Rightarrow> string \<Rightarrow> string option \<Rightarrow> bool \<Rightarrow> direct_world \<Rightarrow> direct_world" where
  "set_content_sha256 name sha publisher drift w =
     (case dw_integrity w name of
        None \<Rightarrow> w
      | Some (_, old, _) \<Rightarrow>
          w\<lparr>dw_integrity := (dw_integrity w)
             (name \<mapsto> (Some sha, (case publisher of Some p \<Rightarrow> Some p | None \<Rightarrow> old), drift))\<rparr>)"

text \<open>After the row is settled: the integrity record of the library, best effort. Indexing does not touch this state.\<close>

definition record_integrity ::
  "direct_env \<Rightarrow> int \<Rightarrow> path \<Rightarrow> string \<Rightarrow> string option \<Rightarrow> direct_world \<Rightarrow> direct_world" where
  "record_integrity E i dst digest claim w =
     (case file_stem (last dst) of
        None \<Rightarrow> w
      | Some name \<Rightarrow>
          if name = [] \<or> de_record E \<noteq> None then w
          else set_content_sha256 name digest claim (drift_of E i digest (dw_db w)) w)"

definition publish ::
  "direct_env \<Rightarrow> int \<Rightarrow> path \<Rightarrow> path \<Rightarrow> string \<Rightarrow> string option \<Rightarrow> direct_world \<Rightarrow> (unit, error) result \<times> direct_world" where
  "publish E i part dst digest claim w =
     (case de_rename E of
        Some e \<Rightarrow> (Err (Io e), w)
      | None \<Rightarrow>
          (let w = w\<lparr>dw_files := (dw_files w)(dst := dw_files w part, part := None)\<rparr>
           in case de_resync E of
                Inl e \<Rightarrow> (Err e, w)
              | Inr _ \<Rightarrow>
                  (case finalize_direct (de_fault E ''finalize'') (de_time E) i (path_display dst) (Some digest)
                          (de_others E ''finalize'' (dw_db w)) of
                     (Inl e, db) \<Rightarrow> (Err (Database e), w\<lparr>dw_db := db\<rparr>)
                   | (Inr updated, db) \<Rightarrow>
                       if updated = 0 then (Ok (), discard_if_unowned E i dst (w\<lparr>dw_db := db\<rparr>))
                       else (Ok (), record_integrity E i dst digest claim (w\<lparr>dw_db := db\<rparr>)))))"

text \<open>The verified file: the last look at the row, the owner of the destination, and the installation.\<close>

definition install_verified ::
  "direct_env \<Rightarrow> int \<Rightarrow> path \<Rightarrow> string \<Rightarrow> string option \<Rightarrow> direct_world \<Rightarrow> (unit, error) result \<times> direct_world" where
  "install_verified E i part digest claim w =
     (let w = w\<lparr>dw_db := de_others E ''before_rename'' (dw_db w)\<rparr> in
      case status_checked (de_fault E ''before_rename'') (dw_db w) i of
        Inl e \<Rightarrow> (Err e, w)
      | Inr status \<Rightarrow>
          if status = as_str Cancelled then (Ok (), remove_part part w)
          else (case file_stem (last part) of
                  None \<Rightarrow> (Err (InvalidInput (''bad part file name: '' @ path_display part)), w)
                | Some stem \<Rightarrow>
                    (let dst = de_zim_dir E @ [stem] in
                     case de_fault E ''owner'' of
                       Some e \<Rightarrow> (Err (Database e), w)
                     | None \<Rightarrow>
                         (case find_live_row_owns_path (dw_db w) (path_display dst) i of
                            Some other \<Rightarrow>
                              (Ok (), remove_part part (mark_row_error E ''owned'' i
                                 (''install skipped: destination already owned by live row '' @ int_text other) w))
                          | None \<Rightarrow> publish E i part dst digest claim w))))"

definition finalize_direct_download ::
  "direct_env \<Rightarrow> int \<Rightarrow> path \<Rightarrow> direct_world \<Rightarrow> (unit, error) result \<times> direct_world" where
  "finalize_direct_download E i part w =
     (let w = w\<lparr>dw_db := de_others E ''before_verify'' (dw_db w)\<rparr> in
      case status_if_changed (de_fault E ''before_verify'') (dw_db w) i (as_str Downloading) of
        Some _ \<Rightarrow> (Ok (), remove_part part w)
      | None \<Rightarrow>
          (case de_fault E ''claim'' of
             Some e \<Rightarrow> (Err (Database e), w)
           | None \<Rightarrow>
               (let claim = claim_digest (dw_db w) i in
                case check_staged E claim (dw_files w part) of
                  Inl e \<Rightarrow> (Err e, w)
                | Inr (digest, mismatch) \<Rightarrow>
                    (case mismatch of
                       Some c \<Rightarrow>
                         (Ok (), remove_part part (mark_row_error E ''mismatch'' i (digest_mismatch_msg digest c) w))
                     | None \<Rightarrow> install_verified E i part digest claim w))))"

record 'c transfer_env =
  te_urls :: url_ops
  te_chain :: "'c chain_env"
  te_rest :: "'c pinned_response \<Rightarrow> download_response" \<comment> \<open>headers and body of the final response\<close>

definition direct_download ::
  "'c transfer_env \<Rightarrow> direct_env \<Rightarrow> poller_params \<Rightarrow> int \<Rightarrow> string \<Rightarrow> path \<Rightarrow> direct_world \<Rightarrow> (unit, error) result \<times> direct_world" where
  "direct_download T E dp i url part w =
     (case validate_download_url (te_urls T) url (pp_allow_private_networks dp) of
        Inl e \<Rightarrow> (Err e, w)
      | Inr _ \<Rightarrow>
          (let resume_from = resume_plan (dw_files w part) in
           case fst (follow_pinned_get (te_urls T) (te_chain T) [] url) of
             Inl e \<Rightarrow> (Err e, w)
           | Inr p \<Rightarrow>
               (let resp = (te_rest T p)\<lparr>dr_status := r_status (p_response p)\<rparr> in
                case stream_part E resp part resume_from (pp_max_bytes dp) i w of
                  (Inl e, w) \<Rightarrow> (Err e, w)
                | (Inr out, w) \<Rightarrow>
                    if so_cancelled out then (Ok (), w) else finalize_direct_download E i part w)))"

section \<open>What the stream leaves on disk\<close>

definition body_bytes :: "stream_event list \<Rightarrow> string" where
  "body_bytes evs = concat (map (\<lambda>e. case ev_chunk e of Inr c \<Rightarrow> c | Inl _ \<Rightarrow> []) evs)"

lemma body_bytes_Cons: "body_bytes (e # evs) = (case ev_chunk e of Inr c \<Rightarrow> c | Inl _ \<Rightarrow> []) @ body_bytes evs"
  by (simp add: body_bytes_def)

lemma mark_row_error_files [simp]: "dw_files (mark_row_error E site i msg w) = dw_files w"
  by (simp add: mark_row_error_def)

lemma remove_part_files [simp]: "dw_files (remove_part part w) = (dw_files w)(part := None)"
  by (simp add: remove_part_def)

text \<open>One loop: the bytes written are a first part of the body, counted exactly and within the limit;
  the file is touched only to remove it on a cancel.\<close>

definition loop_ok ::
  "path \<Rightarrow> nat \<Rightarrow> stream_event list \<Rightarrow> nat \<Rightarrow> string \<Rightarrow> direct_world
    \<Rightarrow> (nat \<times> bool, error) result \<times> string \<times> direct_world \<Rightarrow> bool" where
  "loop_ok part max_bytes evs received written w out \<longleftrightarrow>
     (case out of (r, all, w') \<Rightarrow>
        (\<exists>k. all = written @ take k (body_bytes evs))
        \<and> (case r of
             Inl _ \<Rightarrow> dw_files w' = dw_files w
           | Inr (n, cancelled) \<Rightarrow>
               n + length written = received + length all
               \<and> (all = written \<or> n \<le> max_bytes)
               \<and> dw_files w' = (if cancelled then (dw_files w)(part := None) else dw_files w)))"

lemma report_progress_files: "dw_files (snd (report_progress E ev i declared win received w)) = dw_files w"
  by (simp add: report_progress_def Let_def split: prod.split sum.split)

lemma check_cancel_cases:
  "check_cancel ev i part win received written w = out \<Longrightarrow>
    (\<exists>win'. out = Go win' received written w)
    \<or> (\<exists>c w'. out = Stop (Ok (received, c)) written w' \<and> dw_files w' = (if c then (dw_files w)(part := None) else dw_files w))"
  by (auto simp: check_cancel_def observe_cancel_def split: if_splits option.splits)

lemma stream_step_cases:
  assumes "stream_step E part max_bytes declared i ev win received written w = out"
  shows "(\<exists>e w' all. out = Stop (Err e) all w' \<and> dw_files w' = dw_files w
            \<and> (all = written \<or> (\<exists>chunk. ev_chunk ev = Inr chunk \<and> all = written @ chunk)))
    \<or> (\<exists>chunk. ev_chunk ev = Inr chunk \<and> min (received + length chunk) (2 ^ 64 - 1) \<le> max_bytes
         \<and> ((\<exists>win' w'. out = Go win' (received + length chunk) (written @ chunk) w' \<and> dw_files w' = dw_files w)
            \<or> (\<exists>c w'. out = Stop (Ok (received + length chunk, c)) (written @ chunk) w'
                   \<and> dw_files w' = (if c then (dw_files w)(part := None) else dw_files w))))"
proof -
  define w1 where "w1 = w\<lparr>dw_db := ev_others ev (dw_db w)\<rparr>"
  have w1: "dw_files w1 = dw_files w" by (simp add: w1_def)
  show ?thesis
  proof (cases "ev_chunk ev")
    case (Inl e)
    then show ?thesis using assms by (auto simp: stream_step_def Let_def)
  next
    case (Inr chunk)
    show ?thesis
    proof (cases "min (received + length chunk) (2 ^ 64 - 1) > max_bytes \<or> ev_write ev \<noteq> None")
      case True
      then show ?thesis using assms Inr by (auto simp: stream_step_def Let_def split: if_splits)
    next
      case False
      define win1 where "win1 = win\<lparr>wi_bytes := wi_bytes win + length chunk\<rparr>"
      obtain p w2 where p: "report_progress E ev i declared win1 (received + length chunk) w1 = (p, w2)" by fastforce
      have w2: "dw_files w2 = dw_files w" using report_progress_files [of E ev i declared win1 "received + length chunk" w1] p w1 by simp
      have out: "out = (case p of Inl e \<Rightarrow> Stop (Err (Database e)) (written @ chunk) w2
          | Inr win \<Rightarrow> check_cancel ev i part win (received + length chunk) (written @ chunk) w2)"
        using assms Inr False p by (auto simp: stream_step_def Let_def w1_def win1_def)
      show ?thesis
      proof (cases p)
        case (Inl e)
        then show ?thesis using out Inr w2 by auto
      next
        case (Inr win2)
        then show ?thesis using out \<open>ev_chunk ev = Inr chunk\<close> w2 False check_cancel_cases [of ev i part win2 "received + length chunk" "written @ chunk" w2 out]
          by auto
      qed
    qed
  qed
qed

lemma stream_loop_ok:
  "max_bytes < 2 ^ 64 - 1 \<Longrightarrow>
    loop_ok part max_bytes evs received written w (stream_loop E part max_bytes declared i evs win received written w)"
proof (induction evs arbitrary: win received written w)
  case Nil
  show ?case by (simp add: loop_ok_def)
next
  case (Cons ev evs)
  show ?case
    using stream_step_cases [OF refl, of E part max_bytes declared i ev win received written w]
  proof (elim disjE exE conjE)
    fix e w' all
    assume a: "stream_step E part max_bytes declared i ev win received written w = Stop (Err e) all w'" "dw_files w' = dw_files w"
      and "all = written"
    then show ?thesis by (auto simp: loop_ok_def intro: exI [of _ 0])
  next
    fix e w' all chunk
    assume a: "stream_step E part max_bytes declared i ev win received written w = Stop (Err e) all w'" "dw_files w' = dw_files w"
      and "ev_chunk ev = Inr chunk" "all = written @ chunk"
    then show ?thesis by (auto simp: loop_ok_def body_bytes_Cons intro: exI [of _ "length chunk"])
  next
    fix chunk win' w'
    assume a: "stream_step E part max_bytes declared i ev win received written w = Go win' (received + length chunk) (written @ chunk) w'"
      and c: "ev_chunk ev = Inr chunk" "min (received + length chunk) (2 ^ 64 - 1) \<le> max_bytes" and w': "dw_files w' = dw_files w"
    obtain r all w2 where out: "stream_loop E part max_bytes declared i evs win' (received + length chunk) (written @ chunk) w' = (r, all, w2)"
      by (cases rule: prod_cases3)
    with Cons.IH [OF Cons.prems, of "received + length chunk" "written @ chunk" w' win'] obtain k where
      k: "all = (written @ chunk) @ take k (body_bytes evs)" by (auto simp: loop_ok_def)
    then have "all = written @ take (length chunk + k) (body_bytes (ev # evs))" using c by (simp add: body_bytes_Cons)
    moreover have "received + length chunk \<le> max_bytes" using c(2) Cons.prems by auto
    ultimately have bytes: "\<exists>k. all = written @ take k (body_bytes (ev # evs))" "received + length chunk \<le> max_bytes" by blast+
    have IH: "loop_ok part max_bytes evs (received + length chunk) (written @ chunk) w' (r, all, w2)"
      using Cons.IH [OF Cons.prems, of "received + length chunk" "written @ chunk" w' win'] out by simp
    have "loop_ok part max_bytes (ev # evs) received written w (r, all, w2)"
    proof (cases r)
      case (Inl e)
      then show ?thesis using IH bytes(1) w' by (simp add: loop_ok_def)
    next
      case (Inr nc)
      obtain n c where "nc = (n, c)" by (cases nc)
      then show ?thesis using IH bytes w' Inr by (auto simp: loop_ok_def)
    qed
    then show ?thesis using a out by simp
  next
    fix chunk c w'
    assume "stream_step E part max_bytes declared i ev win received written w = Stop (Ok (received + length chunk, c)) (written @ chunk) w'"
      and "ev_chunk ev = Inr chunk" "min (received + length chunk) (2 ^ 64 - 1) \<le> max_bytes"
      and "dw_files w' = (if c then (dw_files w)(part := None) else dw_files w)"
    then show ?thesis using Cons.prems by (auto simp: loop_ok_def body_bytes_Cons intro: exI [of _ "length chunk"])
  qed
qed

text \<open>The server confirms that its range continues the staged bytes, or that they are the whole file.\<close>

definition confirmed :: "download_response \<Rightarrow> nat \<Rightarrow> bool" where
  "confirmed resp from \<longleftrightarrow>
     dr_status resp = 206 \<and> content_range_start resp = Some from
     \<or> dr_status resp = 416 \<and> content_range_total resp = Some from"

lemma limited_cases:
  "limited E max_bytes i t w k = out \<Longrightarrow>
    (\<exists>e w'. out = (Err e, w') \<and> dw_files w' = dw_files w) \<or> over_limit max_bytes t = None \<and> out = k w"
  by (auto simp: limited_def split: option.splits)

lemma create_part_cases:
  "create_part E part w = out \<Longrightarrow>
    (\<exists>e. out = (Err e, w)) \<or> (\<exists>w'. out = (Ok (), w') \<and> dw_files w' = (dw_files w)(part := Some []))"
  by (auto simp: create_part_def split: option.splits)

lemma append_part_cases:
  "append_part E part w = out \<Longrightarrow> dw_files w part = Some c \<Longrightarrow>
    (\<exists>e. out = (Err e, w)) \<or> (\<exists>w'. out = (Ok (), w') \<and> dw_files w' = dw_files w)"
  by (auto simp: append_part_def fun_upd_idem split: option.splits)

definition opened_fresh :: "direct_env \<Rightarrow> download_response \<Rightarrow> path \<Rightarrow> nat \<Rightarrow> direct_world \<Rightarrow> file_stream \<Rightarrow> direct_world \<Rightarrow> bool" where
  "opened_fresh E resp part max_bytes w s w' \<longleftrightarrow>
     (\<exists>r. s = FileFresh (dr_content_length r) r \<and> (r = resp \<or> de_reissue E = Ok r) \<and> is_success (dr_status r)
        \<and> over_limit max_bytes (dr_content_length r) = None \<and> dw_files w' = (dw_files w)(part := Some []))"

definition opened_append :: "download_response \<Rightarrow> path \<Rightarrow> nat \<Rightarrow> direct_world \<Rightarrow> file_stream \<Rightarrow> direct_world \<Rightarrow> bool" where
  "opened_append resp part max_bytes w s w' \<longleftrightarrow>
     (\<exists>c t. s = FileAppend (length c) t resp \<and> dw_files w part = Some c \<and> confirmed resp (length c)
        \<and> over_limit max_bytes t = None \<and> dw_files w' = dw_files w)"

definition open_failed :: "path \<Rightarrow> direct_world \<Rightarrow> direct_world \<Rightarrow> bool" where
  "open_failed part w w' \<longleftrightarrow> dw_files w' = dw_files w \<or> dw_files w' = (dw_files w)(part := None)"

lemma fresh_fallback_cases:
  assumes "fresh_fallback E part max_bytes i w = (r, w')"
  shows "case r of Inl _ \<Rightarrow> open_failed part w w' | Inr s \<Rightarrow> opened_fresh E resp part max_bytes w s w'"
  using assms create_part_cases [OF refl, of E part "remove_part part w"]
  by (auto simp: fresh_fallback_def open_failed_def opened_fresh_def split: sum.splits if_splits option.splits prod.splits)

lemma open_stream_cases:
  assumes "open_stream E resp part (resume_plan (dw_files w part)) max_bytes i w = (r, w')"
  shows "case r of
      Inl _ \<Rightarrow> open_failed part w w'
    | Inr s \<Rightarrow> opened_fresh E resp part max_bytes w s w' \<or> opened_append resp part max_bytes w s w'"
proof -
  define fresh where "fresh = (if is_success (dr_status resp)
      then limited E max_bytes i (dr_content_length resp) w
             (\<lambda>w. opened (create_part E part w) (FileFresh (dr_content_length resp) resp))
      else (Err (torrent_error (http_msg E (dr_status resp))), mark_row_error E ''status'' i (http_msg E (dr_status resp)) w))"
  have fresh: "case r of Inl _ \<Rightarrow> open_failed part w w' | Inr s \<Rightarrow> opened_fresh E resp part max_bytes w s w'" if "fresh = (r, w')"
    using that create_part_cases [OF refl, of E part w]
      limited_cases [OF refl, of E max_bytes i "dr_content_length resp" w "\<lambda>w. opened (create_part E part w) (FileFresh (dr_content_length resp) resp)"]
    by (auto simp: fresh_def open_failed_def opened_fresh_def opened_def split: if_splits sum.splits prod.splits)
  have append: "case r of Inl _ \<Rightarrow> open_failed part w w' | Inr s \<Rightarrow> opened_append resp part max_bytes w s w'"
    if "limited E max_bytes i t w (\<lambda>w. opened (append_part E part w) (FileAppend (length c) t resp)) = (r, w')"
      "dw_files w part = Some c" "confirmed resp (length c)" for t c
    using that append_part_cases [OF refl that(2), of E]
      limited_cases [OF refl, of E max_bytes i t w "\<lambda>w. opened (append_part E part w) (FileAppend (length c) t resp)"]
    by (auto simp: open_failed_def opened_append_def opened_def split: sum.splits prod.splits)
  note fallback = fresh_fallback_cases [where resp = resp]
  show ?thesis
  proof (cases "resume_plan (dw_files w part)")
    case None
    then have "fresh = (r, w')" using assms by (simp add: open_stream_def fresh_def Let_def)
    from fresh [OF this] show ?thesis by (auto split: sum.splits)
  next
    case (Some offs)
    then obtain c where c: "dw_files w part = Some c" "offs = length c" by (auto simp: resume_plan_def split: option.splits if_splits)
    let ?t = "case content_range_total resp of Some t \<Rightarrow> Some t | None \<Rightarrow> map_option (\<lambda>l. min (offs + l) (2 ^ 64 - 1)) (dr_content_length resp)"
    consider "dr_status resp = 206" "content_range_start resp = Some offs"
        "limited E max_bytes i ?t w (\<lambda>w. opened (append_part E part w) (FileAppend offs ?t resp)) = (r, w')"
      | "dr_status resp = 416" "content_range_total resp = Some offs"
        "limited E max_bytes i (Some offs) w (\<lambda>w. opened (append_part E part w) (FileAppend offs (Some offs) resp)) = (r, w')"
      | "fresh_fallback E part max_bytes i w = (r, w')"
      | "fresh = (r, w')"
      using assms Some by (auto simp: open_stream_def fresh_def resume_206_decision_def Let_def split: if_splits)
    then show ?thesis
    proof cases
      case 1
      then show ?thesis using append [of ?t c] c by (auto simp: confirmed_def split: sum.splits)
    next
      case 2
      then show ?thesis using append [of "Some offs" c] c by (auto simp: confirmed_def split: sum.splits)
    next
      case 3
      from fallback [OF this] show ?thesis by (auto split: sum.splits)
    next
      case 4
      from fresh [OF this] show ?thesis by (auto split: sum.splits)
    qed
  qed
qed

definition staged_from :: "direct_env \<Rightarrow> download_response \<Rightarrow> string option \<Rightarrow> string option \<Rightarrow> bool" where
  "staged_from E resp base x \<longleftrightarrow>
     x = base \<or> x = None
     \<or> (\<exists>k r. (r = resp \<or> de_reissue E = Ok r) \<and> is_success (dr_status r) \<and> x = Some (take k (body_bytes (dr_body r))))
     \<or> (\<exists>k c. base = Some c \<and> confirmed resp (length c) \<and> x = Some (c @ take k (body_bytes (dr_body resp))))"

lemma write_back_files:
  "dw_files (write_back part b w) =
     (case dw_files w part of Some c \<Rightarrow> (dw_files w)(part := Some (c @ b)) | None \<Rightarrow> dw_files w)"
  by (simp add: write_back_def split: option.split)

definition outcome_ok :: "nat \<Rightarrow> string option \<Rightarrow> string option \<Rightarrow> (stream_outcome, error) result \<Rightarrow> bool" where
  "outcome_ok max_bytes base x r \<longleftrightarrow>
     (case r of
        Inl _ \<Rightarrow> True
      | Inr out \<Rightarrow>
          if so_cancelled out then x = None
          else (\<exists>c. x = Some c \<and> so_size out = length c \<and> (so_total out = None \<or> so_total out = Some (length c))
                  \<and> (length c \<le> max_bytes \<or> x = base)))"

text \<open>The stream after the file is open with content \<open>c\<close>.\<close>

lemma stream_after_open:
  assumes bound: "max_bytes < 2 ^ 64 - 1" and c: "dw_files w part = Some c" and s: "opn = (length c, t, r)"
    and run: "(case opn of (received, declared, r) \<Rightarrow>
        (case stream_loop E part max_bytes declared i (dr_body r) win received [] w of
           (Inl e, written, w) \<Rightarrow> (Err e, write_back part (take (de_kept E) written) w)
         | (Inr (received, cancelled), written, w) \<Rightarrow>
             (case de_flush E of
                Some e \<Rightarrow> (Err (Io e), write_back part (take (de_kept E) written) w)
              | None \<Rightarrow>
                  (let w = write_back part written w
                   in case declared of
                        Some t \<Rightarrow>
                          if received \<noteq> t \<and> \<not> cancelled
                          then (let msg = (if received < t
                                  then ''stream ended at '' @ decimal_digits received @ '' of '' @ decimal_digits t @ '' bytes (truncated)''
                                  else ''stream delivered '' @ decimal_digits received @ '' of '' @ decimal_digits t
                                       @ '' declared bytes (oversized body)'')
                                in (Err (torrent_error msg), mark_row_error E ''total'' i msg w))
                          else (Ok \<lparr>so_size = received, so_total = declared, so_cancelled = cancelled\<rparr>, w)
                      | None \<Rightarrow> (Ok \<lparr>so_size = received, so_total = declared, so_cancelled = cancelled\<rparr>, w))))) = (res, w')"
  shows "\<exists>x. dw_files w' = (dw_files w)(part := x) \<and> (x = None \<or> (\<exists>k. x = Some (c @ take k (body_bytes (dr_body r)))))
    \<and> outcome_ok max_bytes (Some c) x res"
proof -
  obtain l all w1 where l: "stream_loop E part max_bytes t i (dr_body r) win (length c) [] w = (l, all, w1)" by (cases rule: prod_cases3)
  have ok: "loop_ok part max_bytes (dr_body r) (length c) [] w (l, all, w1)"
    using stream_loop_ok [OF bound, of part "dr_body r" "length c" "[]" w E t i win] l by simp
  then obtain k where k: "all = take k (body_bytes (dr_body r))" unfolding loop_ok_def by auto
  have files: "case l of Inl _ \<Rightarrow> dw_files w1 = dw_files w
      | Inr (n, cancelled) \<Rightarrow> n = length c + length all \<and> (all = [] \<or> n \<le> max_bytes)
          \<and> dw_files w1 = (if cancelled then (dw_files w)(part := None) else dw_files w)"
    using ok by (cases l) (auto simp: loop_ok_def)
  have kept: "\<exists>k'. take (de_kept E) all = take k' (body_bytes (dr_body r))" by (auto simp: k)
  show ?thesis
  proof (cases l)
    case (Inl e)
    then have "dw_files w' = (dw_files w)(part := Some (c @ take (de_kept E) all))" "isl res"
      using run s l files c by (auto simp: write_back_files)
    then show ?thesis using kept by (auto simp: outcome_ok_def isl_def)
  next
    case (Inr nc)
    obtain n cancelled where nc: "nc = (n, cancelled)" by (cases nc)
    define x where "x = (if cancelled then None else Some (c @ (if de_flush E = None then all else take (de_kept E) all)))"
    have "dw_files w' = (dw_files w)(part := x)" and "outcome_ok max_bytes (Some c) x res"
      using run s l files c Inr nc
      by (auto simp: write_back_files outcome_ok_def x_def Let_def split: option.splits if_splits)
    moreover have "x = None \<or> (\<exists>k. x = Some (c @ take k (body_bytes (dr_body r))))"
      using k kept by (auto simp: x_def)
    ultimately show ?thesis by blast
  qed
qed

lemma stream_part_staged:
  assumes "stream_part E resp part (resume_plan (dw_files w part)) max_bytes i w = (r, w')" and bound: "max_bytes < 2 ^ 64 - 1"
  shows "\<exists>x. dw_files w' = (dw_files w)(part := x) \<and> staged_from E resp (dw_files w part) x
    \<and> outcome_ok max_bytes (dw_files w part) x r"
proof -
  obtain o1 w1 where op: "open_stream E resp part (resume_plan (dw_files w part)) max_bytes i w = (o1, w1)" by fastforce
  note cases1 = open_stream_cases [OF op]
  show ?thesis
  proof (cases o1)
    case (Inl e)
    then have "r = Err e" "w' = w1" using assms(1) op by (auto simp: stream_part_def)
    then show ?thesis using cases1 Inl
      by (auto simp: open_failed_def staged_from_def outcome_ok_def intro: exI [of _ "dw_files w part"])
  next
    case (Inr s)
    let ?win = "\<lparr>wi_bytes = 0, wi_start = de_start E, wi_cancel = de_start E\<rparr>"
    note run = assms(1) [unfolded stream_part_def op prod.case Inr sum.case]
    from cases1 Inr consider (fresh) "opened_fresh E resp part max_bytes w s w1" | (append) "opened_append resp part max_bytes w s w1" by auto
    then show ?thesis
    proof cases
      case fresh
      then obtain q where q: "s = FileFresh (dr_content_length q) q" "q = resp \<or> de_reissue E = Ok q" "is_success (dr_status q)"
        "dw_files w1 = (dw_files w)(part := Some [])" by (auto simp: opened_fresh_def)
      from stream_after_open [OF bound _ _ run, of "[]" "dr_content_length q" q] q obtain x where
        x: "dw_files w' = (dw_files w1)(part := x)" "x = None \<or> (\<exists>k. x = Some (take k (body_bytes (dr_body q))))"
          "outcome_ok max_bytes (Some []) x r" by auto
      have "staged_from E resp (dw_files w part) x" using x(2) q(2,3) by (auto simp: staged_from_def)
      moreover have "outcome_ok max_bytes (dw_files w part) x r" using x(3) by (auto simp: outcome_ok_def split: sum.splits if_splits)
      ultimately show ?thesis using x(1) q(4) by auto
    next
      case append
      then obtain c t where c: "s = FileAppend (length c) t resp" "dw_files w part = Some c" "confirmed resp (length c)" "dw_files w1 = dw_files w"
        by (auto simp: opened_append_def)
      from stream_after_open [OF bound _ _ run, of c t resp] c obtain x where
        x: "dw_files w' = (dw_files w)(part := x)" "x = None \<or> (\<exists>k. x = Some (c @ take k (body_bytes (dr_body resp))))"
          "outcome_ok max_bytes (Some c) x r" by auto
      then show ?thesis using c(2,3) by (auto simp: staged_from_def)
    qed
  qed
qed

section \<open>What finalisation installs\<close>

definition part_path :: "direct_env \<Rightarrow> string \<Rightarrow> path" where
  "part_path E name = de_zim_dir E @ [name @ ''.part'']"

definition dst_path :: "direct_env \<Rightarrow> string \<Rightarrow> path" where
  "dst_path E name = de_zim_dir E @ [name]"

lemma file_stem_part: "name \<noteq> [] \<Longrightarrow> file_stem (name @ ''.part'') = Some name"
proof -
  assume "name \<noteq> []"
  have "rsplit_once CHR ''.'' (name @ ''.part'') = Some (name, ''part'')" by (simp add: rsplit_once_Some)
  moreover have "name @ ''.part'' \<noteq> ''..''" using arg_cong [of "name @ ''.part''" "''..''" length] by auto
  ultimately show ?thesis using \<open>name \<noteq> []\<close> by (simp add: file_stem_def)
qed

lemma part_dst: "part_path E name \<noteq> dst_path E name"
  by (simp add: part_path_def dst_path_def)

definition verified :: "direct_env \<Rightarrow> string option \<Rightarrow> string \<Rightarrow> bool" where
  "verified E claim c \<longleftrightarrow> de_verify E c = Ok ()
     \<and> (claim = None \<or> eq_ignore_ascii_case (de_sha256 E c) (the claim))"

lemma check_staged_pass:
  "check_staged E claim staged = Ok (digest, None) \<Longrightarrow>
     \<exists>c. staged = Some c \<and> digest = de_sha256 E c \<and> verified E claim c"
  by (cases staged; cases claim; cases "de_verify E (the staged)")
     (auto simp: check_staged_def sha256_file_def verified_def split: option.splits if_splits)

lemma discard_files:
  "dw_files (discard_if_unowned E i dst w) = dw_files w \<or> dw_files (discard_if_unowned E i dst w) = (dw_files w)(dst := None)"
  by (auto simp: discard_if_unowned_def Let_def split: option.split)

lemma record_integrity_files [simp]: "dw_files (record_integrity E i dst digest claim w) = dw_files w"
  by (auto simp: record_integrity_def set_content_sha256_def split: option.split)

lemma publish_files:
  assumes pub: "publish E i part dst digest claim w = (r, w')" and "part \<noteq> dst"
  shows "isl r \<and> dw_files w' = dw_files w
    \<or> (\<exists>y. dw_files w' = (dw_files w)(part := None, dst := y) \<and> (y = dw_files w part \<or> y = None))"
proof (cases "de_rename E")
  case None
  let ?files = "(dw_files w)(dst := dw_files w part, part := None)"
  have twist: "?files = (dw_files w)(part := None, dst := dw_files w part)" using assms(2) by (simp add: fun_upd_twist)
  have "dw_files w' = ?files \<or> dw_files w' = ?files(dst := None)"
  proof (cases "de_resync E")
    case (Inl e)
    then show ?thesis using pub None by (auto simp: publish_def Let_def)
  next
    case (Inr u)
    obtain n db where f: "finalize_direct (de_fault E ''finalize'') (de_time E) i (path_display dst) (Some digest)
        (de_others E ''finalize'' (dw_db w)) = (n, db)" by fastforce
    show ?thesis
      using pub None Inr f discard_files [of E i dst "w\<lparr>dw_files := ?files, dw_db := db\<rparr>"]
      by (auto simp: publish_def Let_def split: sum.splits if_splits)
  qed
  then show ?thesis unfolding twist by (metis fun_upd_upd)
next
  case (Some e)
  then show ?thesis using pub by (auto simp: publish_def)
qed

lemma install_verified_files:
  assumes inst: "install_verified E i (part_path E name) digest claim w = (r, w')" and "name \<noteq> []"
    and c: "dw_files w (part_path E name) = Some c"
  shows "isl r \<and> dw_files w' = dw_files w
    \<or> dw_files w' = (dw_files w)(part_path E name := None)
    \<or> (\<exists>y. find_live_row_owns_path (de_others E ''before_rename'' (dw_db w)) (path_display (dst_path E name)) i = None
         \<and> dw_files w' = (dw_files w)(part_path E name := None, dst_path E name := y) \<and> (y = Some c \<or> y = None))"
proof -
  let ?part = "part_path E name" and ?dst = "dst_path E name"
  define w2 where "w2 = w\<lparr>dw_db := de_others E ''before_rename'' (dw_db w)\<rparr>"
  have stem: "file_stem (last ?part) = Some name" "de_zim_dir E @ [name] = ?dst"
    using file_stem_part [OF \<open>name \<noteq> []\<close>] by (simp_all add: part_path_def dst_path_def)
  note inst2 = inst [unfolded install_verified_def Let_def w2_def [symmetric] stem option.case]
  show ?thesis
  proof (cases "find_live_row_owns_path (dw_db w2) (path_display ?dst) i = None \<and> publish E i ?part ?dst digest claim w2 = (r, w')")
    case True
    then show ?thesis using publish_files [OF conjunct2 [OF True] part_dst] c by (auto simp: w2_def)
  next
    case False
    then show ?thesis using inst2 by (auto simp: w2_def split: option.splits sum.splits if_splits)
  qed
qed

definition finalized_files :: "direct_env \<Rightarrow> int \<Rightarrow> string \<Rightarrow> direct_world \<Rightarrow> (unit, error) result \<Rightarrow> direct_world \<Rightarrow> bool" where
  "finalized_files E i name w r w' \<longleftrightarrow>
     isl r \<and> dw_files w' = dw_files w
     \<or> dw_files w' = (dw_files w)(part_path E name := None)
     \<or> (\<exists>c y. dw_files w (part_path E name) = Some c
          \<and> verified E (claim_digest (de_others E ''before_verify'' (dw_db w)) i) c
          \<and> find_live_row_owns_path (de_others E ''before_rename'' (de_others E ''before_verify'' (dw_db w))) (path_display (dst_path E name)) i = None
          \<and> dw_files w' = (dw_files w)(part_path E name := None, dst_path E name := y) \<and> (y = Some c \<or> y = None))"

lemma finalize_files:
  assumes fin: "finalize_direct_download E i (part_path E name) w = (r, w')" and "name \<noteq> []"
  shows "finalized_files E i name w r w'"
proof -
  let ?part = "part_path E name"
  define w1 where "w1 = w\<lparr>dw_db := de_others E ''before_verify'' (dw_db w)\<rparr>"
  define claim where "claim = claim_digest (dw_db w1) i"
  note fin1 = fin [unfolded finalize_direct_download_def Let_def w1_def [symmetric] claim_def [symmetric]]
  have files: "dw_files w1 = dw_files w" by (simp add: w1_def)
  show ?thesis
  proof (cases "\<exists>digest. check_staged E claim (dw_files w1 ?part) = Ok (digest, None) \<and> install_verified E i ?part digest claim w1 = (r, w')")
    case True
    then obtain digest where good: "check_staged E claim (dw_files w1 ?part) = Ok (digest, None)"
      "install_verified E i ?part digest claim w1 = (r, w')" by blast
    from check_staged_pass [OF good(1)] obtain c where c: "dw_files w ?part = Some c" "verified E claim c" by (auto simp: files)
    then show ?thesis using install_verified_files [OF good(2) \<open>name \<noteq> []\<close>, of c]
      by (auto simp: finalized_files_def files claim_def w1_def)
  next
    case False
    then show ?thesis using fin1 files
      by (auto simp: finalized_files_def split: option.splits sum.splits prod.splits)
  qed
qed

section \<open>An undisturbed download\<close>

definition quiet_event :: "stream_event \<Rightarrow> bool" where
  "quiet_event ev \<longleftrightarrow> \<not> isl (ev_chunk ev) \<and> ev_write ev = None \<and> ev_fault ev = None \<and> ev_others ev = id"

definition quiet_env :: "direct_env \<Rightarrow> bool" where
  "quiet_env E \<longleftrightarrow> de_open E = None \<and> de_flush E = None \<and> (\<forall>site. de_fault E site = None) \<and> (\<forall>site. de_others E site = id)
     \<and> de_read E = None \<and> de_task_died E = None \<and> de_rename E = None \<and> de_resync E = Ok ()"

text \<open>The row is downloading under the claim, the table is consistent, and nobody else owns the destination.\<close>

definition ready :: "downloads \<Rightarrow> int \<Rightarrow> string option \<Rightarrow> string \<Rightarrow> bool" where
  "ready db i claim dst \<longleftrightarrow>
     unique_conflict (rows db) = None
     \<and> (\<exists>row. row_by_id db i = Some row \<and> has_status row Downloading \<and> d_sha256 row = claim)
     \<and> find_live_row_owns_path db dst i = None"

lemma owner_update:
  assumes "\<And>r. d_id (h r) = d_id r" and "\<And>r. d_id r \<noteq> i \<Longrightarrow> h r = r"
  shows "find_live_row_owns_path (db\<lparr>rows := map h (rows db)\<rparr>) dst i = find_live_row_owns_path db dst i"
proof -
  let ?P = "\<lambda>r. d_file_path r = Some dst \<and> d_id r \<noteq> i \<and> is_live r"
  have "find ?P (map h rs) = find ?P rs" for rs
  proof (induction rs)
    case (Cons r rs)
    then show ?case using assms(1) [of r] assms(2) [of r] by (cases "d_id r = i") auto
  qed simp
  then show ?thesis by (simp add: find_live_row_owns_path_def)
qed

lemma row_update:
  assumes "unique_conflict (rows db) = None" and "row_by_id db i = Some row"
    and "\<And>r. guard r \<Longrightarrow> d_id r = i" and "guard row"
    and "\<And>r. d_id (change r) = d_id r \<and> d_url (change r) = d_url r \<and> d_name (change r) = d_name r"
    and "\<And>r. guard r \<Longrightarrow> is_active (change r) \<Longrightarrow> is_active r"
  defines "db' \<equiv> snd (sql_update None guard change db)"
  shows "\<exists>n. fst (sql_update None guard change db) = Ok (Suc n)"
    and "row_by_id db' i = Some (change row)" and "unique_conflict (rows db') = None"
    and "find_live_row_owns_path db' dst i = find_live_row_owns_path db dst i"
proof -
  let ?h = "\<lambda>r. if guard r then change r else r"
  have ok: "unique_conflict (map ?h (rows db)) = None"
    by (rule unique_conflict_shrink [OF assms(1)]) (auto simp: assms(5,6) split: if_splits)
  then have upd: "sql_update None guard change db = (Ok (length (filter guard (rows db))), db\<lparr>rows := map ?h (rows db)\<rparr>)"
    by (simp add: sql_update_def commit_rows_def)
  have "row \<in> set (rows db)" using row_by_id_SomeD [OF assms(2)] by simp
  then have "filter guard (rows db) \<noteq> []" using assms(4) by (auto simp: filter_empty_conv)
  then show "\<exists>n. fst (sql_update None guard change db) = Ok (Suc n)" by (cases "filter guard (rows db)") (auto simp: upd)
  show "row_by_id db' i = Some (change row)"
    using row_by_id_map [of db ?h i] assms(2,4,5) by (simp add: db'_def upd)
  show "unique_conflict (rows db') = None" using ok by (simp add: db'_def upd)
  show "find_live_row_owns_path db' dst i = find_live_row_owns_path db dst i"
    unfolding db'_def upd snd_conv by (rule owner_update) (use assms(3,5) in auto)
qed

lemma refresh_ready:
  assumes "ready db i claim dst" and "refresh_progress None now i p v db = (r, db')"
  shows "\<not> isl r \<and> ready db' i claim dst"
proof -
  obtain row where row: "unique_conflict (rows db) = None" "row_by_id db i = Some row" "has_status row Downloading"
    "d_sha256 row = claim" "find_live_row_owns_path db dst i = None" using assms(1) by (auto simp: ready_def)
  let ?g = "\<lambda>r. d_id r = i" and ?c = "\<lambda>r. r\<lparr>d_progress := p, d_speed_bps := Some v, d_updated_at := now\<rparr>"
  have "d_id row = i" using row_by_id_SomeD [OF row(2)] by simp
  then have u: "\<exists>n. fst (sql_update None ?g ?c db) = Ok (Suc n)" "row_by_id (snd (sql_update None ?g ?c db)) i = Some (?c row)"
    "unique_conflict (rows (snd (sql_update None ?g ?c db))) = None"
    "find_live_row_owns_path (snd (sql_update None ?g ?c db)) dst i = find_live_row_owns_path db dst i"
    using row_update [OF row(1,2), of ?g ?c] by (auto simp: is_active_def)
  obtain x db1 where e: "sql_update None ?g ?c db = (x, db1)" by fastforce
  then obtain n where "x = Ok (Suc n)" using u(1) by auto
  then have "r = Ok (Suc n)" "db' = db1" using assms(2) e by (simp_all add: refresh_progress_def best_effort_def)
  then show ?thesis using u(2-4) row e by (auto simp: ready_def)
qed

lemma quiet_step:
  assumes "quiet_event ev" and "ready (dw_db w) i claim dst" and "ev_chunk ev = Inr chunk" and "received + length chunk \<le> max_bytes"
  shows "\<exists>win' w'. stream_step E part max_bytes declared i ev win received written w = Go win' (received + length chunk) (written @ chunk) w'
    \<and> dw_files w' = dw_files w \<and> ready (dw_db w') i claim dst"
proof -
  define win1 where "win1 = win\<lparr>wi_bytes := wi_bytes win + length chunk\<rparr>"
  have quiet: "ev_write ev = None" "ev_fault ev = None" "ev_others ev = id" using assms(1) by (auto simp: quiet_event_def)
  obtain p w1 where p: "report_progress E ev i declared win1 (received + length chunk) w = (p, w1)" by fastforce
  have w1: "\<not> isl p \<and> dw_files w1 = dw_files w \<and> ready (dw_db w1) i claim dst"
  proof (cases "ev_now ev - wi_start win1 \<ge> PROGRESS_WINDOW")
    case True
    obtain r db where r: "refresh_progress None (de_time E) i (progress_of (received + length chunk) declared)
        (window_speed (wi_bytes win1) (ev_now ev - wi_start win1)) (dw_db w) = (r, db)" by fastforce
    then show ?thesis using p True refresh_ready [OF assms(2) r] quiet(2) by (auto simp: report_progress_def Let_def isl_def split: sum.splits)
  next
    case False
    then show ?thesis using p assms(2) by (auto simp: report_progress_def Let_def)
  qed
  then obtain win2 where p2: "p = Inr win2" by (cases p) auto
  obtain row where row: "row_by_id (dw_db w1) i = Some row" "has_status row Downloading" using w1 by (auto simp: ready_def)
  then have "observe_cancel None i part w1 = (None, w1)" by (simp add: observe_cancel_def status_if_changed_def status_checked_def)
  then have "\<exists>win3. check_cancel ev i part win2 (received + length chunk) (written @ chunk) w1 = Go win3 (received + length chunk) (written @ chunk) w1"
    using quiet(2) by (auto simp: check_cancel_def)
  then obtain win3 where "check_cancel ev i part win2 (received + length chunk) (written @ chunk) w1 = Go win3 (received + length chunk) (written @ chunk) w1"
    by blast
  then have "stream_step E part max_bytes declared i ev win received written w = Go win3 (received + length chunk) (written @ chunk) w1"
    using assms(3,4) quiet p p2 by (simp add: stream_step_def win1_def)
  then show ?thesis using w1 by blast
qed

lemma quiet_loop:
  "list_all quiet_event evs \<Longrightarrow> ready (dw_db w) i claim dst \<Longrightarrow> received + length (body_bytes evs) \<le> max_bytes \<Longrightarrow>
    \<exists>w'. stream_loop E part max_bytes declared i evs win received written w
        = (Ok (received + length (body_bytes evs), False), written @ body_bytes evs, w')
      \<and> dw_files w' = dw_files w \<and> ready (dw_db w') i claim dst"
proof (induction evs arbitrary: win received written w)
  case Nil
  then show ?case by (simp add: body_bytes_def)
next
  case (Cons ev evs)
  then obtain chunk where chunk: "ev_chunk ev = Inr chunk" by (cases "ev_chunk ev") (auto simp: quiet_event_def)
  then have len: "received + length chunk \<le> max_bytes" using Cons.prems(3) by (simp add: body_bytes_Cons)
  from Cons.prems(1) have "quiet_event ev" by simp
  from quiet_step [OF this Cons.prems(2) chunk len] obtain win' w' where
    go: "stream_step E part max_bytes declared i ev win received written w = Go win' (received + length chunk) (written @ chunk) w'"
    "dw_files w' = dw_files w" "ready (dw_db w') i claim dst" by blast
  from Cons.IH [OF _ go(3), of "received + length chunk" win' "written @ chunk"] Cons.prems chunk
  show ?case by (auto simp: go(1,2) body_bytes_Cons add.assoc)
qed

text \<open>A response that serves the rest of a file \<open>C\<close> to a client that holds \<open>base\<close>: the whole file, the bytes after
  the staged ones, or the statement that there are none.\<close>

definition serves :: "string \<Rightarrow> string option \<Rightarrow> download_response \<Rightarrow> bool" where
  "serves C base resp \<longleftrightarrow>
     list_all quiet_event (dr_body resp)
     \<and> (dr_status resp = 200 \<and> body_bytes (dr_body resp) = C \<and> dr_content_length resp \<in> {None, Some (length C)}
        \<or> (\<exists>n. base = Some (take n C) \<and> 0 < n \<and> n \<le> length C \<and> dr_status resp = 206
             \<and> content_range_start resp = Some n \<and> content_range_total resp = Some (length C)
             \<and> body_bytes (dr_body resp) = drop n C)
        \<or> base = Some C \<and> C \<noteq> [] \<and> dr_status resp = 416 \<and> content_range_total resp = Some (length C)
             \<and> body_bytes (dr_body resp) = [])"

lemma serves_opens:
  assumes "serves C (dw_files w part) resp" and "quiet_env E" and "length C \<le> max_bytes"
  shows "\<exists>c t w1. open_stream E resp part (resume_plan (dw_files w part)) max_bytes i w
      = (Ok (if dr_status resp = 200 then FileFresh t resp else FileAppend (length c) t resp), w1)
    \<and> dw_files w1 = (dw_files w)(part := Some c) \<and> dw_db w1 = dw_db w \<and> (dr_status resp = 200 \<longrightarrow> c = [])
    \<and> (t = None \<or> t = Some (length C)) \<and> c @ body_bytes (dr_body resp) = C"
proof -
  have op: "de_open E = None" using assms(2) by (simp add: quiet_env_def)
  have limit: "over_limit max_bytes t = None" if "t \<in> {None, Some (length C)}" for t
    using that assms(3) by (auto simp: over_limit_def)
  from assms(1) consider (full) "dr_status resp = 200" "body_bytes (dr_body resp) = C" "dr_content_length resp \<in> {None, Some (length C)}"
    | (rest) n where "dw_files w part = Some (take n C)" "0 < n" "n \<le> length C" "dr_status resp = 206"
        "content_range_start resp = Some n" "content_range_total resp = Some (length C)" "body_bytes (dr_body resp) = drop n C"
    | (whole) "dw_files w part = Some C" "C \<noteq> []" "dr_status resp = 416" "content_range_total resp = Some (length C)"
        "body_bytes (dr_body resp) = []"
    unfolding serves_def by blast
  then show ?thesis
  proof cases
    case full
    then have "open_stream E resp part (resume_plan (dw_files w part)) max_bytes i w
        = (Ok (FileFresh (dr_content_length resp) resp), w\<lparr>dw_files := (dw_files w)(part := Some [])\<rparr>)"
      using limit [OF full(3)] op
      by (auto simp: open_stream_def Let_def limited_def opened_def create_part_def is_success_def split: option.splits)
    then show ?thesis using full by (intro exI [of _ "[]"] exI [of _ "dr_content_length resp"] exI) auto
  next
    case rest
    then have "resume_plan (dw_files w part) = Some n" by (auto simp: resume_plan_def)
    then have "open_stream E resp part (resume_plan (dw_files w part)) max_bytes i w
        = (Ok (FileAppend n (Some (length C)) resp), w\<lparr>dw_files := (dw_files w)(part := Some (take n C))\<rparr>)"
      using rest limit op
      by (auto simp: open_stream_def Let_def limited_def opened_def append_part_def resume_206_decision_def split: option.splits)
    then show ?thesis using rest by (intro exI [of _ "take n C"] exI [of _ "Some (length C)"] exI) auto
  next
    case whole
    then have "resume_plan (dw_files w part) = Some (length C)" by (auto simp: resume_plan_def)
    then have "open_stream E resp part (resume_plan (dw_files w part)) max_bytes i w
        = (Ok (FileAppend (length C) (Some (length C)) resp), w\<lparr>dw_files := (dw_files w)(part := Some C)\<rparr>)"
      using whole limit op
      by (auto simp: open_stream_def Let_def limited_def opened_def append_part_def split: option.splits)
    then show ?thesis using whole by (intro exI [of _ C] exI [of _ "Some (length C)"] exI) auto
  qed
qed

lemma quiet_stream:
  assumes "serves C (dw_files w part) resp" and "quiet_env E" and "length C \<le> max_bytes" and "ready (dw_db w) i claim dst"
  shows "\<exists>t w'. stream_part E resp part (resume_plan (dw_files w part)) max_bytes i w
      = (Ok \<lparr>so_size = length C, so_total = t, so_cancelled = False\<rparr>, w')
    \<and> dw_files w' = (dw_files w)(part := Some C) \<and> ready (dw_db w') i claim dst"
proof -
  from serves_opens [OF assms(1-3), of i] obtain c t w1 where
    op: "open_stream E resp part (resume_plan (dw_files w part)) max_bytes i w
      = (Ok (if dr_status resp = 200 then FileFresh t resp else FileAppend (length c) t resp), w1)"
    and w1: "dw_files w1 = (dw_files w)(part := Some c)" "dw_db w1 = dw_db w" "dr_status resp = 200 \<longrightarrow> c = []"
      "t = None \<or> t = Some (length C)" and C: "c @ body_bytes (dr_body resp) = C" by blast
  have body: "list_all quiet_event (dr_body resp)" using assms(1) by (simp add: serves_def)
  have len: "length c + length (body_bytes (dr_body resp)) = length C" using C by auto
  let ?win = "\<lparr>wi_bytes = 0, wi_start = de_start E, wi_cancel = de_start E\<rparr>"
  from quiet_loop [OF body, of w1 i claim dst "length c" max_bytes E part t ?win "[]"] assms(3,4) w1(2) len
  obtain w2 where loop: "stream_loop E part max_bytes t i (dr_body resp) ?win (length c) [] w1
        = (Ok (length C, False), body_bytes (dr_body resp), w2)" "dw_files w2 = dw_files w1" "ready (dw_db w2) i claim dst" by auto
  have start: "(case (if dr_status resp = 200 then FileFresh t resp else FileAppend (length c) t resp) of
      FileAppend f t r \<Rightarrow> (f, t, r) | FileFresh t r \<Rightarrow> (0, t, r)) = (length c, t, resp)" using w1(3) by auto
  have "stream_part E resp part (resume_plan (dw_files w part)) max_bytes i w
      = (Ok \<lparr>so_size = length C, so_total = t, so_cancelled = False\<rparr>, write_back part (body_bytes (dr_body resp)) w2)"
    unfolding stream_part_def op prod.case sum.case start loop(1)
    using assms(2) w1(4) by (auto simp: quiet_env_def Let_def split: option.split)
  moreover have "dw_files (write_back part (body_bytes (dr_body resp)) w2) = (dw_files w)(part := Some C)"
    using loop(2) w1(1) C by (simp add: write_back_files)
  moreover have "dw_db (write_back part (body_bytes (dr_body resp)) w2) = dw_db w2" by (simp add: write_back_def split: option.split)
  ultimately show ?thesis using loop(3) by auto
qed

lemma quiet_finalize:
  assumes E: "quiet_env E" and "name \<noteq> []" and C: "dw_files w (part_path E name) = Some C" and "verified E claim C"
    and rd: "ready (dw_db w) i claim (path_display (dst_path E name))"
  shows "\<exists>w' row. finalize_direct_download E i (part_path E name) w = (Ok (), w')
    \<and> dw_files w' = (dw_files w)(part_path E name := None, dst_path E name := Some C)
    \<and> row_by_id (dw_db w') i = Some row \<and> has_status row Complete
    \<and> d_file_path row = Some (path_display (dst_path E name)) \<and> d_sha256 row = Some (de_sha256 E C)"
proof -
  let ?part = "part_path E name" and ?dst = "dst_path E name"
  have q: "de_fault E site = None" "de_others E site = id" "de_rename E = None" "de_resync E = Ok ()" for site
    using E by (simp_all add: quiet_env_def)
  obtain row where row: "unique_conflict (rows (dw_db w)) = None" "row_by_id (dw_db w) i = Some row" "has_status row Downloading"
    "d_sha256 row = claim" "find_live_row_owns_path (dw_db w) (path_display ?dst) i = None" using rd by (auto simp: ready_def)
  have id: "d_id row = i" using row_by_id_SomeD [OF row(2)] by simp
  have check: "check_staged E claim (Some C) = Ok (de_sha256 E C, None)"
    using E assms(4) by (auto simp: check_staged_def sha256_file_def quiet_env_def verified_def split: option.split)
  have stem: "file_stem (last ?part) = Some name" "de_zim_dir E @ [name] = ?dst"
    using file_stem_part [OF \<open>name \<noteq> []\<close>] by (simp_all add: part_path_def dst_path_def)
  have reads: "status_if_changed None (dw_db w) i (as_str Downloading) = None" "claim_digest (dw_db w) i = claim"
    "status_checked None (dw_db w) i = Ok (as_str Downloading)"
    using row by (simp_all add: status_if_changed_def status_checked_def claim_digest_def)
  have "finalize_direct_download E i ?part w = install_verified E i ?part (de_sha256 E C) claim w"
    by (simp add: finalize_direct_download_def Let_def q reads C check)
  also have "\<dots> = publish E i ?part ?dst (de_sha256 E C) claim w"
    by (simp add: install_verified_def Let_def q reads stem row)
  finally have fin: "finalize_direct_download E i ?part w = publish E i ?part ?dst (de_sha256 E C) claim w" .
  let ?g = "\<lambda>r. d_id r = i \<and> has_status r Downloading"
    and ?c = "\<lambda>r. r\<lparr>d_status := as_str Complete, d_progress := 1, d_file_path := Some (path_display ?dst),
              d_sha256 := Some (de_sha256 E C), d_updated_at := de_time E\<rparr>"
  have u: "\<exists>n. fst (sql_update None ?g ?c (dw_db w)) = Ok (Suc n)"
    "row_by_id (snd (sql_update None ?g ?c (dw_db w))) i = Some (?c row)"
    using row_update [OF row(1,2), of ?g ?c] row(3) id by (auto simp: is_active_def)
  obtain x db where upd0: "sql_update None ?g ?c (dw_db w) = (x, db)" by fastforce
  then obtain n where "x = Ok (Suc n)" using u(1) by auto
  then have upd: "sql_update None ?g ?c (dw_db w) = (Ok (Suc n), db)" using upd0 by simp
  define w2 where "w2 = record_integrity E i ?dst (de_sha256 E C) claim
      (w\<lparr>dw_files := (dw_files w)(?dst := dw_files w ?part, ?part := None), dw_db := db\<rparr>)"
  have "publish E i ?part ?dst (de_sha256 E C) claim w = (Ok (), w2)"
    by (simp add: publish_def q Let_def finalize_direct_def upd w2_def)
  moreover have "dw_files w2 = (dw_files w)(?part := None, ?dst := Some C)"
    using C part_dst [of E name] by (simp add: w2_def fun_upd_twist)
  moreover have "dw_db w2 = db"
    by (simp add: w2_def record_integrity_def set_content_sha256_def split: option.split)
  ultimately show ?thesis using fin u(2) upd by auto
qed

section \<open>Properties\<close>

text \<open>A small instance: a file of four bytes, staged in part, and the row that downloads it.\<close>

definition sample_direct_env :: direct_env where
  "sample_direct_env =
     \<lparr>de_time = 1, de_start = 0, de_status_text = (\<lambda>_. ''200 OK''), de_open = None, de_flush = None, de_kept = 0, de_reissue = Err ''offline'',
      de_fault = (\<lambda>_. None), de_others = (\<lambda>_. id), de_sha256 = (\<lambda>c. rev c), de_read = None, de_verify = (\<lambda>_. Ok ()),
      de_task_died = None, de_rename = None, de_resync = Ok (), de_record = None, de_zim_dir = [''data'']\<rparr>"

definition sample_event :: "string \<Rightarrow> stream_event" where
  "sample_event c = \<lparr>ev_chunk = Ok c, ev_write = None, ev_now = 0, ev_fault = None, ev_others = id\<rparr>"

definition sample_response :: download_response where
  "sample_response = \<lparr>dr_status = 200, dr_content_range = None, dr_content_length = Some 4, dr_body = [sample_event ''ab'', sample_event ''cd'']\<rparr>"

definition sample_world :: direct_world where
  "sample_world = \<lparr>dw_db = one_row Downloading, dw_files = [part_path sample_direct_env ''w.zim'' \<mapsto> ''old''], dw_integrity = Map.empty\<rparr>"

text \<open>
  What a stream leaves in the staged file, on every path, errors included. No other file changes. The
  staged file is as before, or gone, or a first part of the body of a successful response, or its old
  bytes followed by a first part of a body that the server confirmed to continue exactly there. When the
  stream succeeds, the file has exactly the reported and the declared size and is within the limit,
  unless not a byte was added; after a cancel it is gone.
\<close>

theorem staged_bytes_confirmed:
  "max_bytes < 2 ^ 64 - 1 \<Longrightarrow>
     case stream_part E resp part (resume_plan (dw_files w part)) max_bytes i w of (r, w') \<Rightarrow>
       \<exists>x. dw_files w' = (dw_files w)(part := x)
         \<and> (x = dw_files w part \<or> x = None
            \<or> (\<exists>k r. (r = resp \<or> de_reissue E = Ok r) \<and> is_success (dr_status r) \<and> x = Some (take k (body_bytes (dr_body r))))
            \<or> (\<exists>k c. dw_files w part = Some c \<and> confirmed resp (length c) \<and> x = Some (c @ take k (body_bytes (dr_body resp)))))
         \<and> (case r of
              Inl _ \<Rightarrow> True
            | Inr out \<Rightarrow>
                if so_cancelled out then x = None
                else (\<exists>c. x = Some c \<and> so_size out = length c \<and> (so_total out = None \<or> so_total out = Some (length c))
                        \<and> (length c \<le> max_bytes \<or> x = dw_files w part)))"
  using stream_part_staged [of E resp part w max_bytes i]
  by (cases "stream_part E resp part (resume_plan (dw_files w part)) max_bytes i w")
     (auto simp only: staged_from_def outcome_ok_def prod.case)

lemma sample_paths: "part_path sample_direct_env ''w.zim'' = [''data'', ''w.zim.part'']" "dst_path sample_direct_env ''w.zim'' = [''data'', ''w.zim'']"
  by (simp_all add: part_path_def dst_path_def sample_direct_env_def)

theorem staged_bytes_confirmed_witness:
  "dw_files (snd (stream_part sample_direct_env sample_response [''data'', ''w.zim.part'']
     (resume_plan (dw_files sample_world [''data'', ''w.zim.part''])) 10 1 sample_world)) [''data'', ''other''] = None"
  using staged_bytes_confirmed [where max_bytes = 10 and E = sample_direct_env and resp = sample_response
      and part = "[''data'', ''w.zim.part'']" and w = sample_world and i = 1]
  by (auto simp: sample_world_def sample_paths split: prod.splits)



text \<open>
  C21. An undisturbed download installs exactly the served file. If the URL passes the guard, the redirect
  chain ends in a response that serves the file \<open>C\<close> to a client holding the staged bytes (the whole file,
  the bytes after a staged first part, or the answer that nothing is missing), \<open>C\<close> is within the limit and
  passes the checks, then the download answers \<open>Ok\<close>, the destination holds \<open>C\<close>, the staged file is gone,
  and the row is complete with the destination and the measured digest. A resumed and a fresh download
  have the same result, however the body is cut into chunks and whenever the progress reports fall.
\<close>

theorem direct_download_completes:
  assumes "validate_download_url (te_urls T) url (pp_allow_private_networks dp) = Ok ()"
    and "fst (follow_pinned_get (te_urls T) (te_chain T) [] url) = Ok p"
    and "serves C (dw_files w (part_path E name)) ((te_rest T p)\<lparr>dr_status := r_status (p_response p)\<rparr>)"
    and "length C \<le> pp_max_bytes dp" and "name \<noteq> []" and "quiet_env E" and "verified E claim C"
    and "ready (dw_db w) i claim (path_display (dst_path E name))"
  shows "\<exists>w' row. direct_download T E dp i url (part_path E name) w = (Ok (), w')
    \<and> dw_files w' = (dw_files w)(part_path E name := None, dst_path E name := Some C)
    \<and> row_by_id (dw_db w') i = Some row \<and> has_status row Complete
    \<and> d_file_path row = Some (path_display (dst_path E name)) \<and> d_sha256 row = Some (de_sha256 E C)"
proof -
  let ?part = "part_path E name"
  from quiet_stream [OF assms(3,6,4,8)] obtain t w1 where
    s: "stream_part E ((te_rest T p)\<lparr>dr_status := r_status (p_response p)\<rparr>) ?part (resume_plan (dw_files w ?part)) (pp_max_bytes dp) i w
      = (Ok \<lparr>so_size = length C, so_total = t, so_cancelled = False\<rparr>, w1)"
    and w1: "dw_files w1 = (dw_files w)(?part := Some C)" "ready (dw_db w1) i claim (path_display (dst_path E name))" by blast
  have "direct_download T E dp i url ?part w = finalize_direct_download E i ?part w1"
    by (simp add: direct_download_def assms(1,2) s Let_def)
  moreover from quiet_finalize [OF assms(6,5) _ assms(7) w1(2)] w1(1) obtain w' row where
    "finalize_direct_download E i ?part w1 = (Ok (), w')"
    "dw_files w' = (dw_files w1)(?part := None, dst_path E name := Some C)"
    "row_by_id (dw_db w') i = Some row" "has_status row Complete"
    "d_file_path row = Some (path_display (dst_path E name))" "d_sha256 row = Some (de_sha256 E C)" by auto
  ultimately show ?thesis using w1(1) by auto
qed

definition sample_transfer :: "pin transfer_env" where
  "sample_transfer = \<lparr>te_urls = toy_urls, te_chain = toy_web, te_rest = (\<lambda>_. sample_response)\<rparr>"

definition sample_poller :: poller_params where
  "sample_poller = \<lparr>pp_qbit_url = None, pp_category = [], pp_save_path = [], pp_seed_ratio = None, pp_file_strategy = [],
     pp_keep_completed = False, pp_opds_auto_update = False, pp_opds_url = [], pp_allow_private_networks = False,
     pp_qbit_allow_private = False, pp_max_bytes = 100\<rparr>"

theorem direct_download_completes_witness:
  "\<exists>w'. direct_download sample_transfer sample_direct_env sample_poller 1 ''x'' (part_path sample_direct_env ''w.zim'') sample_world
      = (Ok (), w') \<and> dw_files w' [''data'', ''w.zim''] = Some ''abcd''"
proof -
  have same: "sample_response\<lparr>dr_status := 200\<rparr> = sample_response" by (simp add: sample_response_def)
  have "validate_download_url toy_urls ''x'' False = Ok ()" by (simp add: toy_eval toy_names)
  moreover have "serves ''abcd'' (Some ''old'') sample_response"
    by (simp add: serves_def sample_response_def sample_event_def quiet_event_def body_bytes_def)
  moreover have "quiet_env sample_direct_env" "verified sample_direct_env None ''abcd''"
    by (simp_all add: quiet_env_def verified_def sample_direct_env_def)
  moreover have "ready (one_row Downloading) 1 None (path_display (dst_path sample_direct_env ''w.zim''))"
    by (simp add: ready_def one_row_def default_row_def unique_conflict_def active_urls_def active_names_def
        row_by_id_def find_live_row_owns_path_def)
  ultimately have "\<exists>w' row. direct_download sample_transfer sample_direct_env sample_poller 1 ''x'' (part_path sample_direct_env ''w.zim'') sample_world = (Ok (), w')
    \<and> dw_files w' = (dw_files sample_world)(part_path sample_direct_env ''w.zim'' := None, dst_path sample_direct_env ''w.zim'' := Some ''abcd'')
    \<and> row_by_id (dw_db w') 1 = Some row \<and> has_status row Complete
    \<and> d_file_path row = Some (path_display (dst_path sample_direct_env ''w.zim'')) \<and> d_sha256 row = Some (de_sha256 sample_direct_env ''abcd'')"
    by (intro direct_download_completes [where C = "''abcd''" and claim = None and p = "\<lparr>p_url = ''y'', p_client = Some (''y'', V4 93 184 215 14),
         p_response = \<lparr>r_status = 200, r_location = None\<rparr>\<rparr>"])
       (simp_all add: sample_transfer_def sample_poller_def sample_world_def redirect_chain_followed_witness same)
  then show ?thesis by (auto simp: sample_paths)
qed

text \<open>
  A range that starts where the staged bytes end is no evidence of the same revision: a mirror with
  another revision of the file confirms the range as well, and its bytes are appended to the old ones.
\<close>

lemma resume_mixes_revisions:
  assumes "dr_status resp = 206" and "content_range_start resp = Some (length old)" and "content_range_total resp = Some (length old + length rest)"
    and "list_all quiet_event (dr_body resp)" and "body_bytes (dr_body resp) = rest" and "quiet_env E" and "old \<noteq> []"
    and "dw_files w part = Some old" and "length old + length rest \<le> max_bytes" and "ready (dw_db w) i claim dst"
  shows "\<exists>out w'. stream_part E resp part (Some (length old)) max_bytes i w = (Ok out, w') \<and> dw_files w' part = Some (old @ rest)"
proof -
  have "serves (old @ rest) (dw_files w part) resp"
    using assms by (auto simp: serves_def intro!: exI [of _ "length old"])
  from quiet_stream [OF this assms(6) _ assms(10), of max_bytes] assms(7-9) show ?thesis
    by (auto simp: resume_plan_def)
qed

end
