(* ===== verification/Zims.thy ===== *)
theory Zims
  imports Capped Direct "HOL-Library.Char_ord"
begin

text \<open>
  The archive manager (\<open>src/zim/mod.rs\<close>, \<open>src/zim/discovery.rs\<close>): the scan of the library directory,
  the metadata cache with its reconciliation against the files and the \<open>zims\<close> table, and the cache of
  open handles.

  The file system is what one scan and the later stats see of it. The \<open>zims\<close> table has unique names and
  is a map from names to rows; \<open>file_mtime\<close> and the timestamps are written by the server and never read
  back. The state record also counts the catalog notifications. Before every statement other tasks may
  change the whole state, and the statement may fail: \<open>ze_others\<close> and \<open>ze_fault\<close>. Dates are the texts
  the \<open>chrono\<close> crate prints; its parser and the rounding to a \<open>REAL\<close> column are arguments. The type of
  an open archive belongs to the \<open>zim\<close> crate and is a type variable.
\<close>

section \<open>Archive metadata\<close>

record zim_meta =
  zm_id :: "int option"
  zm_name :: string
  zm_display_title :: string
  zm_description :: "string option"
  zm_language :: string
  zm_creator :: "string option"
  zm_publisher :: "string option"
  zm_date :: "string option"
  zm_entry_count :: u64
  zm_article_count :: u64
  zm_file_path :: string
  zm_file_size :: u64
  zm_category :: "string option"
  zm_index_status :: string
  zm_index_progress :: rat
  zm_indexed_entries :: u64
  zm_embed_enabled :: bool
  zm_content_sha256 :: "string option"
  zm_publisher_sha256 :: "string option"
  zm_digest_drift :: bool

definition stub :: "string \<Rightarrow> string \<Rightarrow> u64 \<Rightarrow> zim_meta" where
  "stub name file_path file_size =
     \<lparr>zm_id = None, zm_name = name, zm_display_title = map (\<lambda>c. if c = CHR ''_'' then CHR '' '' else c) name,
      zm_description = None, zm_language = ''en'', zm_creator = None, zm_publisher = None, zm_date = None,
      zm_entry_count = 0, zm_article_count = 0, zm_file_path = file_path, zm_file_size = file_size,
      zm_category = None, zm_index_status = ''pending'', zm_index_progress = 0, zm_indexed_entries = 0,
      zm_embed_enabled = True, zm_content_sha256 = None, zm_publisher_sha256 = None, zm_digest_drift = False\<rparr>"

text \<open>A row of \<open>zims\<close>; \<open>BIGINT\<close> columns are signed.\<close>

record zim_row =
  zr_id :: int
  zr_name :: string
  zr_display_title :: string
  zr_description :: "string option"
  zr_language :: string
  zr_creator :: "string option"
  zr_publisher :: "string option"
  zr_date :: "string option"
  zr_entry_count :: int
  zr_article_count :: int
  zr_file_path :: string
  zr_file_size :: int
  zr_category :: "string option"
  zr_index_status :: string
  zr_index_progress :: rat
  zr_indexed_entries :: int
  zr_embed_enabled :: bool
  zr_content_sha256 :: "string option"
  zr_publisher_sha256 :: "string option"
  zr_digest_drift :: bool

definition count_u64 :: "int \<Rightarrow> u64" where
  "count_u64 v = (if v < 0 then 0 else word_of_int v)"

definition meta_of_row :: "zim_row \<Rightarrow> zim_meta" where
  "meta_of_row m =
     \<lparr>zm_id = Some (zr_id m), zm_name = zr_name m, zm_display_title = zr_display_title m,
      zm_description = zr_description m, zm_language = zr_language m, zm_creator = zr_creator m,
      zm_publisher = zr_publisher m, zm_date = zr_date m, zm_entry_count = count_u64 (zr_entry_count m),
      zm_article_count = count_u64 (zr_article_count m), zm_file_path = zr_file_path m,
      zm_file_size = count_u64 (zr_file_size m), zm_category = zr_category m,
      zm_index_status = zr_index_status m, zm_index_progress = zr_index_progress m,
      zm_indexed_entries = count_u64 (zr_indexed_entries m), zm_embed_enabled = zr_embed_enabled m,
      zm_content_sha256 = zr_content_sha256 m, zm_publisher_sha256 = zr_publisher_sha256 m,
      zm_digest_drift = zr_digest_drift m\<rparr>"

section \<open>The directory\<close>

text \<open>\<open>fs::metadata\<close> gives the modification time in nanoseconds since the epoch, if the platform has
  one, and the length.\<close>

type_synonym file_stat = "(int option \<times> u64) option"

record dir_entry =
  en_name :: string
  en_is_file :: bool
  en_stat :: file_stat

record dir_io =
  di_exists :: bool
  di_read_dir :: "((dir_entry, string) result list, string) result"

type_synonym scan_entry = "string \<times> path \<times> (int \<times> u64) option"

definition snapshot_entry :: "file_stat \<Rightarrow> (int \<times> u64) option" where
  "snapshot_entry md = (case md of Some (Some mt, len) \<Rightarrow> Some (mt, len) | _ \<Rightarrow> None)"

fun scan_entries :: "path \<Rightarrow> (dir_entry, string) result list \<Rightarrow> (scan_entry list, error) result" where
  "scan_entries dir [] = Ok []"
| "scan_entries dir (Inl e # es) = Err (Io e)"
| "scan_entries dir (Inr en # es) =
     and_then (scan_entries dir es) (\<lambda>rest.
       Ok (if en_is_file en \<and> (case extension (en_name en) of Some x \<Rightarrow> eq_ignore_ascii_case x ''zim'' | None \<Rightarrow> False)
           then (case file_stem (en_name en) of
                   Some stem \<Rightarrow> (stem, dir @ [en_name en], snapshot_entry (en_stat en)) # rest
                 | None \<Rightarrow> rest)
           else rest))"

definition scan_snapshot_blocking :: "dir_io \<Rightarrow> path \<Rightarrow> (scan_entry list, error) result" where
  "scan_snapshot_blocking D dir =
     (if \<not> di_exists D then Ok []
      else (case di_read_dir D of
              Inl e \<Rightarrow> Err (Io e)
            | Inr es \<Rightarrow> and_then (scan_entries dir es) (\<lambda>entries. Ok (sort_key fst entries))))"

definition scan_directory :: "dir_io \<Rightarrow> path \<Rightarrow> (string list, error) result" where
  "scan_directory D dir = and_then (scan_snapshot_blocking D dir) (\<lambda>entries. Ok (map fst entries))"

section \<open>The manager\<close>

definition MAX_OPEN_ZIMS :: nat where "MAX_OPEN_ZIMS = 16"

definition STAT_TTL_MS :: u64 where "STAT_TTL_MS = 30000"

record 'h cached_zim =
  cz_zim :: 'h
  cz_mtime :: "int option"
  cz_size :: u64
  cz_last_access :: u64
  cz_last_stat :: u64

record 'h zim_manager =
  mg_zim_dir :: path
  mg_cache :: "(string, zim_meta) fmap"
  mg_zims :: "string \<rightharpoonup> zim_row"
  mg_zims_id_seq :: int
  mg_open_handles :: "(string, 'h cached_zim) fmap"
  mg_next_seq :: u64
  mg_scan_snapshot :: "(string, int \<times> u64 \<times> string) fmap"
  mg_notified :: nat

definition zim_manager_new :: "path \<Rightarrow> (string \<rightharpoonup> zim_row) \<Rightarrow> int \<Rightarrow> 'h zim_manager" where
  "zim_manager_new dir db seq =
     \<lparr>mg_zim_dir = dir, mg_cache = fmempty, mg_zims = db, mg_zims_id_seq = seq, mg_open_handles = fmempty,
      mg_next_seq = 0, mg_scan_snapshot = fmempty, mg_notified = 0\<rparr>"

record 'h zim_env =
  ze_exists :: bool \<comment> \<open>the check before the scan\<close>
  ze_dir :: dir_io
  ze_task_died :: "string option"
  ze_restat :: "path \<Rightarrow> u64 option" \<comment> \<open>the second stat of an entry without metadata\<close>
  ze_order :: "string fset \<Rightarrow> string list" \<comment> \<open>iteration order of the cache\<close>
  ze_fault :: "string \<Rightarrow> string \<Rightarrow> sqlx_error option" \<comment> \<open>by statement and archive\<close>
  ze_others :: "string \<Rightarrow> string \<Rightarrow> 'h zim_manager \<Rightarrow> 'h zim_manager"
  ze_parse_date :: "string \<Rightarrow> string option"
  ze_real :: "rat \<Rightarrow> rat"

subsection \<open>Reading the cache\<close>

text \<open>The values of the cache, in its iteration order.\<close>

definition cache_values :: "(string fset \<Rightarrow> string list) \<Rightarrow> 'h zim_manager \<Rightarrow> zim_meta list" where
  "cache_values ord s = List.map_filter (fmlookup (mg_cache s)) (ord (fmdom (mg_cache s)))"

definition list_names :: "(string fset \<Rightarrow> string list) \<Rightarrow> 'h zim_manager \<Rightarrow> string list" where
  "list_names ord s = map zm_name (cache_values ord s)"

definition list_id_names :: "(string fset \<Rightarrow> string list) \<Rightarrow> 'h zim_manager \<Rightarrow> (int option \<times> string) list" where
  "list_id_names ord s = map (\<lambda>z. (zm_id z, zm_name z)) (cache_values ord s)"

definition list_name_dates :: "(string fset \<Rightarrow> string list) \<Rightarrow> 'h zim_manager \<Rightarrow> (string \<times> string option) list" where
  "list_name_dates ord s = map (\<lambda>z. (zm_name z, zm_date z)) (cache_values ord s)"

definition list_embed_enabled_names :: "(string fset \<Rightarrow> string list) \<Rightarrow> 'h zim_manager \<Rightarrow> string list" where
  "list_embed_enabled_names ord s = map zm_name (filter zm_embed_enabled (cache_values ord s))"

text \<open>The sum of \<open>i64\<close> values wraps around in a release build.\<close>

definition summary :: "(string fset \<Rightarrow> string list) \<Rightarrow> 'h zim_manager \<Rightarrow> nat \<times> int" where
  "summary ord s =
     (map_len (mg_cache s), sint (sum_list (map zm_indexed_entries (cache_values ord s))))"

definition get :: "'h zim_manager \<Rightarrow> string \<Rightarrow> zim_meta option" where
  "get s name = fmlookup (mg_cache s) name"

definition file_path_of :: "'h zim_manager \<Rightarrow> string \<Rightarrow> string option" where
  "file_path_of s name = map_option zm_file_path (fmlookup (mg_cache s) name)"

definition is_known :: "'h zim_manager \<Rightarrow> string \<Rightarrow> bool" where
  "is_known s name \<longleftrightarrow> name |\<in>| fmdom (mg_cache s)"

definition etag_from_metadata :: "file_stat \<Rightarrow> string option" where
  "etag_from_metadata md =
     (case md of
        None \<Rightarrow> None
      | Some (mtime, len) \<Rightarrow>
          Some (CHR 0x22 # decimal_digits (case mtime of Some ns \<Rightarrow> if ns < 0 then 0 else nat (ns div 1000000) mod 2 ^ 64 | None \<Rightarrow> 0)
                @ ''-'' @ decimal_digits (unat len) @ [CHR 0x22]))"

subsection \<open>Scan, load and reconcile\<close>

definition scan_stub :: "scan_entry \<Rightarrow> (string, zim_meta) fmap \<Rightarrow> (string, zim_meta) fmap" where
  "scan_stub en cache =
     (case en of (name, p, md) \<Rightarrow>
        if name |\<in>| fmdom cache then cache
        else fmupd name (stub name (path_display p) (case md of Some (_, len) \<Rightarrow> len | None \<Rightarrow> 0)) cache)"

definition scan :: "'h zim_env \<Rightarrow> 'h zim_manager \<Rightarrow> (string list, error) result \<times> 'h zim_manager" where
  "scan E s =
     (case ze_task_died E of
        Some e \<Rightarrow> (Err (Internal e), s)
      | None \<Rightarrow>
          (case scan_snapshot_blocking (ze_dir E) (mg_zim_dir s) of
             Inl e \<Rightarrow> (Err e, s)
           | Inr entries \<Rightarrow> (Ok (map fst entries), s\<lparr>mg_cache := fold scan_stub entries (mg_cache s)\<rparr>)))"

text \<open>\<open>SELECT ... FROM zims ORDER BY name\<close>: the rows come in some order of the names, \<open>names\<close>, which are
  the keys of the map.\<close>

definition load_from_db :: "sqlx_error option \<Rightarrow> string list \<Rightarrow> 'h zim_manager \<Rightarrow> (unit, error) result \<times> 'h zim_manager" where
  "load_from_db fault names s =
     (case fault of
        Some e \<Rightarrow> (Err (Database e), s)
      | None \<Rightarrow>
          (Ok (), s\<lparr>mg_cache := fold (\<lambda>m. fmupd (zr_name m) (meta_of_row m))
                                   (List.map_filter (mg_zims s) names) (mg_cache s)\<rparr>))"

definition refresh_meta :: "string \<Rightarrow> u64 \<Rightarrow> zim_meta \<Rightarrow> zim_meta" where
  "refresh_meta file_path file_size meta =
     (let size_changed = zm_file_size meta \<noteq> file_size;
          meta = meta\<lparr>zm_file_path := file_path, zm_file_size := file_size\<rparr>;
          meta = (if size_changed \<and> (zm_index_status meta = ''ready'' \<or> zm_index_status meta = ''indexing'')
                  then meta\<lparr>zm_index_status := ''pending'', zm_index_progress := 0\<rparr> else meta)
      in if size_changed then meta\<lparr>zm_content_sha256 := None, zm_publisher_sha256 := None\<rparr> else meta)"

definition entry_size :: "(path \<Rightarrow> u64 option) \<Rightarrow> scan_entry \<Rightarrow> u64 option" where
  "entry_size restat en =
     (case en of (name, p, md) \<Rightarrow> case md of Some (_, len) \<Rightarrow> Some len | None \<Rightarrow> restat p)"

type_synonym cache_diff = "(string, zim_meta) fmap \<times> string list \<times> string list"

text \<open>One found file: the cache with the names added and changed so far.\<close>

definition reconcile_entry :: "(path \<Rightarrow> u64 option) \<Rightarrow> scan_entry \<Rightarrow> cache_diff \<Rightarrow> cache_diff" where
  "reconcile_entry restat en st =
     (case (en, st) of ((name, p, md), (cache, added, changed)) \<Rightarrow>
        case entry_size restat en of
          None \<Rightarrow> st
        | Some file_size \<Rightarrow>
            let file_path = path_display p
            in case fmlookup cache name of
                 Some meta \<Rightarrow>
                   if zm_file_size meta = file_size \<and> zm_file_path meta = file_path then st
                   else (fmupd name (refresh_meta file_path file_size meta) cache, added, changed @ [name])
               | None \<Rightarrow> (fmupd name (stub name file_path file_size) cache, added @ [name], changed))"

definition reconcile :: "'h zim_env \<Rightarrow> scan_entry list \<Rightarrow> 'h zim_manager
    \<Rightarrow> (string list \<times> string list \<times> string list) \<times> 'h zim_manager" where
  "reconcile E found s =
     (let found_set = set (map fst found);
          removed = filter (\<lambda>n. n \<notin> found_set) (ze_order E (fmdom (mg_cache s)));
          cache = fold fmdrop removed (mg_cache s)
      in case fold (reconcile_entry (ze_restat E)) found (cache, [], []) of
           (cache, added, changed) \<Rightarrow> ((added, removed, changed), s\<lparr>mg_cache := cache\<rparr>))"

subsection \<open>Persistence\<close>

definition row_of_meta :: "'h zim_env \<Rightarrow> int \<Rightarrow> zim_meta \<Rightarrow> zim_row" where
  "row_of_meta E i meta =
     \<lparr>zr_id = i, zr_name = zm_name meta, zr_display_title = zm_display_title meta,
      zr_description = zm_description meta, zr_language = zm_language meta, zr_creator = zm_creator meta,
      zr_publisher = zm_publisher meta,
      zr_date = (case zm_date meta of Some t \<Rightarrow> ze_parse_date E t | None \<Rightarrow> None),
      zr_entry_count = sint (zm_entry_count meta), zr_article_count = sint (zm_article_count meta),
      zr_file_path = zm_file_path meta, zr_file_size = sint (zm_file_size meta), zr_category = zm_category meta,
      zr_index_status = zm_index_status meta, zr_index_progress = ze_real E (zm_index_progress meta),
      zr_indexed_entries = sint (zm_indexed_entries meta), zr_embed_enabled = zm_embed_enabled meta,
      zr_content_sha256 = zm_content_sha256 meta, zr_publisher_sha256 = zm_publisher_sha256 meta,
      zr_digest_drift = zm_digest_drift meta\<rparr>"

text \<open>\<open>INSERT ... ON CONFLICT (name) DO UPDATE ... RETURNING id\<close>: the id of an existing row stays, and the
  sequence advances in either case.\<close>

definition upsert_zim :: "'h zim_env \<Rightarrow> zim_meta \<Rightarrow> 'h zim_manager \<Rightarrow> int \<times> 'h zim_manager" where
  "upsert_zim E meta s =
     (let seq = mg_zims_id_seq s + 1;
          i = (case mg_zims s (zm_name meta) of Some r \<Rightarrow> zr_id r | None \<Rightarrow> seq)
      in (i, s\<lparr>mg_zims := (mg_zims s)(zm_name meta \<mapsto> row_of_meta E i meta), mg_zims_id_seq := seq\<rparr>))"

definition persist_to_db :: "'h zim_env \<Rightarrow> zim_meta \<Rightarrow> 'h zim_manager \<Rightarrow> (unit, error) result \<times> 'h zim_manager" where
  "persist_to_db E meta s =
     (let s = ze_others E ''upsert'' (zm_name meta) s
      in case ze_fault E ''upsert'' (zm_name meta) of
           Some e \<Rightarrow> (Err (Database e), s)
         | None \<Rightarrow>
             (case upsert_zim E meta s of (i, s) \<Rightarrow>
                case fmlookup (mg_cache s) (zm_name meta) of
                  Some cached \<Rightarrow> (Ok (), s\<lparr>mg_cache := fmupd (zm_name meta) (cached\<lparr>zm_id := Some i\<rparr>) (mg_cache s)\<rparr>)
                | None \<Rightarrow> (Ok (), s)))"

text \<open>The integrity record: cache first, then the row.\<close>

definition with_integrity :: "string \<Rightarrow> string option \<Rightarrow> bool \<Rightarrow> zim_meta \<Rightarrow> zim_meta" where
  "with_integrity sha publisher drift m =
     m\<lparr>zm_content_sha256 := Some sha,
       zm_publisher_sha256 := (case publisher of Some p \<Rightarrow> Some p | None \<Rightarrow> zm_publisher_sha256 m),
       zm_digest_drift := drift\<rparr>"

definition manager_set_content_sha256 ::
    "'h zim_env \<Rightarrow> string \<Rightarrow> string \<Rightarrow> string option \<Rightarrow> bool \<Rightarrow> 'h zim_manager \<Rightarrow> (unit, error) result \<times> 'h zim_manager" where
  "manager_set_content_sha256 E name sha publisher drift s =
     (let s = (case fmlookup (mg_cache s) name of
                 Some m \<Rightarrow> s\<lparr>mg_cache := fmupd name (with_integrity sha publisher drift m) (mg_cache s)\<rparr>
               | None \<Rightarrow> s);
          s = ze_others E ''integrity'' name s
      in case ze_fault E ''integrity'' name of
           Some e \<Rightarrow> (Err (Database e), s)
         | None \<Rightarrow>
             (Ok (), (case mg_zims s name of
                        Some r \<Rightarrow> s\<lparr>mg_zims := (mg_zims s)(name \<mapsto>
                                     r\<lparr>zr_content_sha256 := Some sha,
                                       zr_publisher_sha256 := (case publisher of Some p \<Rightarrow> Some p | None \<Rightarrow> zr_publisher_sha256 r),
                                       zr_digest_drift := drift\<rparr>)\<rparr>
                      | None \<Rightarrow> s)))"

definition integrity_snapshot_rows ::
    "sqlx_error option \<Rightarrow> string list \<Rightarrow> 'h zim_manager
     \<Rightarrow> ((string \<times> string option \<times> string option \<times> bool) list, error) result" where
  "integrity_snapshot_rows fault names s =
     (case fault of
        Some e \<Rightarrow> Err (Database e)
      | None \<Rightarrow>
          Ok (map (\<lambda>r. (zr_name r, zr_content_sha256 r, zr_publisher_sha256 r, zr_digest_drift r))
               (filter (\<lambda>r. zr_content_sha256 r \<noteq> None \<or> zr_publisher_sha256 r \<noteq> None \<or> zr_digest_drift r)
                 (List.map_filter (mg_zims s) (sort names)))))"

subsection \<open>Resync\<close>

definition current_snapshot :: "scan_entry list \<Rightarrow> (string, int \<times> u64 \<times> string) fmap" where
  "current_snapshot found =
     fold (\<lambda>(name, p, md) m. case md of Some (mtime, len) \<Rightarrow> fmupd name (mtime, len, path_display p) m | None \<Rightarrow> m)
       found fmempty"

definition drop_handle :: "string \<Rightarrow> 'h zim_manager \<Rightarrow> 'h zim_manager" where
  "drop_handle name s = s\<lparr>mg_open_handles := fmdrop name (mg_open_handles s)\<rparr>"

fun resync_removed :: "'h zim_env \<Rightarrow> string list \<Rightarrow> string list \<Rightarrow> 'h zim_manager
    \<Rightarrow> (string list, error) result \<times> 'h zim_manager" where
  "resync_removed E [] report s = (Ok report, s)"
| "resync_removed E (name # names) report s =
     (let s = ze_others E ''delete'' name (drop_handle name s)
      in case ze_fault E ''delete'' name of
           Some e \<Rightarrow> (Err (Database e), s)
         | None \<Rightarrow> resync_removed E names (report @ [name @ '' (removed)'']) (s\<lparr>mg_zims := (mg_zims s)(name := None)\<rparr>))"

fun resync_persist :: "'h zim_env \<Rightarrow> string list \<Rightarrow> string list \<Rightarrow> string list \<Rightarrow> string list \<Rightarrow> 'h zim_manager
    \<Rightarrow> (string list, error) result \<times> 'h zim_manager" where
  "resync_persist E added changed [] report s = (Ok report, s)"
| "resync_persist E added changed (name # names) report s =
     (let kind = (if name \<in> set added then ''added'' else if name \<in> set changed then ''changed'' else ''added'');
          s = drop_handle name s
      in case get s name of
           None \<Rightarrow> resync_persist E added changed names report s
         | Some meta \<Rightarrow>
             (case persist_to_db E meta s of
                (Inl e, s) \<Rightarrow> (Err e, s)
              | (Inr _, s) \<Rightarrow> resync_persist E added changed names (report @ [name @ '' ('' @ kind @ '')'']) s))"

definition notify_catalog :: "'h zim_env \<Rightarrow> 'h zim_manager \<Rightarrow> 'h zim_manager" where
  "notify_catalog E s =
     (let s = ze_others E ''notify'' [] s
      in case ze_fault E ''notify'' [] of Some _ \<Rightarrow> s | None \<Rightarrow> s\<lparr>mg_notified := mg_notified s + 1\<rparr>)"

definition unpersisted_names :: "(string fset \<Rightarrow> string list) \<Rightarrow> string list \<Rightarrow> 'h zim_manager \<Rightarrow> string list" where
  "unpersisted_names ord diffed s =
     map zm_name (filter (\<lambda>z. zm_id z = None \<and> zm_name z \<notin> set diffed) (cache_values ord s))"

text \<open>What follows the reconciliation: the persist passes, the notification and the snapshot.\<close>

definition resync_apply :: "'h zim_env \<Rightarrow> scan_entry list \<Rightarrow> string list \<Rightarrow> string list \<Rightarrow> string list \<Rightarrow> 'h zim_manager
    \<Rightarrow> (string list, error) result \<times> 'h zim_manager" where
  "resync_apply E found added removed changed s =
     (let unpersisted = unpersisted_names (ze_order E) (added @ changed) s;
          snapshot = current_snapshot found
      in if added = [] \<and> removed = [] \<and> changed = [] \<and> unpersisted = []
         then (Ok [], s\<lparr>mg_scan_snapshot := snapshot\<rparr>)
         else
           (case resync_removed E removed [] s of
              (Inl e, s) \<Rightarrow> (Err e, s)
            | (Inr report, s) \<Rightarrow>
                (case resync_persist E added changed (added @ changed @ unpersisted) report s of
                   (Inl e, s) \<Rightarrow> (Err e, s)
                 | (Inr report, s) \<Rightarrow>
                     let s = (if report \<noteq> [] then notify_catalog E s else s)
                     in (Ok report, s\<lparr>mg_scan_snapshot := snapshot\<rparr>))))"

definition resync :: "'h zim_env \<Rightarrow> 'h zim_manager \<Rightarrow> (string list, error) result \<times> 'h zim_manager" where
  "resync E s =
     (if \<not> ze_exists E then (Ok [], s)
      else (case ze_task_died E of
              Some e \<Rightarrow> (Err (Internal e), s)
            | None \<Rightarrow>
                (case scan_snapshot_blocking (ze_dir E) (mg_zim_dir s) of
                   Inl e \<Rightarrow> (Err e, s)
                 | Inr found \<Rightarrow>
                     if mg_scan_snapshot s = current_snapshot found then (Ok [], s)
                     else (case reconcile E found s of
                             ((added, removed, changed), s) \<Rightarrow> resync_apply E found added removed changed s))))"

subsection \<open>Open handles\<close>

definition handle_still_valid :: "int option \<Rightarrow> u64 \<Rightarrow> int option \<Rightarrow> u64 \<Rightarrow> bool" where
  "handle_still_valid cached_mtime cached_size cur_mtime cur_size \<longleftrightarrow>
     cached_mtime = cur_mtime \<and> cached_size = cur_size"

definition access_of :: "'h cached_zim \<Rightarrow> nat" where "access_of v = unat (cz_last_access v)"

definition evict_lru_if_full :: "string list \<Rightarrow> (string, 'h cached_zim) fmap \<Rightarrow> (string, 'h cached_zim) fmap" where
  "evict_lru_if_full order handles =
     (if map_len handles \<ge> MAX_OPEN_ZIMS then evict_oldest access_of order handles else handles)"

record 'h open_io =
  oi_now_ms :: u64
  oi_stat :: file_stat
  oi_parse :: "(('h, string) result, string) result" \<comment> \<open>the parse task, which may die, around the parser\<close>
  oi_between :: "'h zim_manager \<Rightarrow> 'h zim_manager" \<comment> \<open>other tasks while the archive is parsed\<close>
  oi_order :: "string list"

definition touch_handle :: "string \<Rightarrow> ('h cached_zim \<Rightarrow> 'h cached_zim) \<Rightarrow> 'h zim_manager \<Rightarrow> 'h zim_manager" where
  "touch_handle name f s =
     (case fmlookup (mg_open_handles s) name of
        Some cached \<Rightarrow> s\<lparr>mg_open_handles := fmupd name (f cached) (mg_open_handles s)\<rparr>
      | None \<Rightarrow> s)"

definition bump_access :: "'h cached_zim \<Rightarrow> 'h cached_zim" where
  "bump_access cached = cached\<lparr>cz_last_access := cz_last_access cached + 1\<rparr>"

text \<open>The comparison of the second fast path and of the check under the write lock: a valid handle is
  returned and its stamps are renewed.\<close>

definition reuse_valid :: "string \<Rightarrow> int option \<Rightarrow> u64 \<Rightarrow> u64 \<Rightarrow> 'h zim_manager \<Rightarrow> ('h \<times> 'h zim_manager) option" where
  "reuse_valid name file_mtime file_size now_ms s =
     (case fmlookup (mg_open_handles s) name of
        Some cached \<Rightarrow>
          if handle_still_valid (cz_mtime cached) (cz_size cached) file_mtime file_size
          then Some (cz_zim cached, touch_handle name (\<lambda>c. (bump_access c)\<lparr>cz_last_stat := now_ms\<rparr>) s)
          else None
      | None \<Rightarrow> None)"

definition insert_handle :: "string list \<Rightarrow> string \<Rightarrow> 'h cached_zim \<Rightarrow> (string, 'h cached_zim) fmap
    \<Rightarrow> (string, 'h cached_zim) fmap" where
  "insert_handle order name c handles = fmupd name c (evict_lru_if_full order handles)"

definition open_zim_slow :: "'h open_io \<Rightarrow> string \<Rightarrow> int option \<Rightarrow> u64 \<Rightarrow> 'h zim_manager
    \<Rightarrow> ('h, error) result \<times> 'h zim_manager" where
  "open_zim_slow io name file_mtime file_size s =
     (case oi_parse io of
        Inl e \<Rightarrow> (Err (Internal (''zim parse task: '' @ e)), s)
      | Inr (Inl e) \<Rightarrow> (Err (Zim e), s)
      | Inr (Inr zim) \<Rightarrow>
          let s = oi_between io s
          in case reuse_valid name file_mtime file_size (oi_now_ms io) s of
               Some (h, s) \<Rightarrow> (Ok h, s)
             | None \<Rightarrow>
                 let access = mg_next_seq s
                 in (Ok zim, s\<lparr>mg_next_seq := access + 1,
                               mg_open_handles := insert_handle (oi_order io) name
                                 \<lparr>cz_zim = zim, cz_mtime = file_mtime, cz_size = file_size,
                                  cz_last_access = access, cz_last_stat = oi_now_ms io\<rparr> (mg_open_handles s)\<rparr>))"

definition recently_stated :: "u64 \<Rightarrow> string \<Rightarrow> 'h zim_manager \<Rightarrow> 'h option" where
  "recently_stated now_ms name s =
     (case fmlookup (mg_open_handles s) name of
        Some cached \<Rightarrow> if saturating_sub now_ms (cz_last_stat cached) < STAT_TTL_MS then Some (cz_zim cached) else None
      | None \<Rightarrow> None)"

definition open_zim_impl :: "'h open_io \<Rightarrow> string \<Rightarrow> bool \<Rightarrow> 'h zim_manager \<Rightarrow> ('h, error) result \<times> 'h zim_manager" where
  "open_zim_impl io name skip_stat_ttl s =
     (case file_path_of s name of
        None \<Rightarrow> (Err (NotFound (''ZIM '' @ [CHR 0x27] @ name @ [CHR 0x27] @ '' not found'')), s)
      | Some _ \<Rightarrow>
          (case (if skip_stat_ttl then None else recently_stated (oi_now_ms io) name s) of
             Some h \<Rightarrow> (Ok h, touch_handle name bump_access s)
           | None \<Rightarrow>
               let file_mtime = (case oi_stat io of Some (mt, _) \<Rightarrow> mt | None \<Rightarrow> None);
                   file_size = (case oi_stat io of Some (_, len) \<Rightarrow> len | None \<Rightarrow> 0)
               in case reuse_valid name file_mtime file_size (oi_now_ms io) s of
                    Some (h, s) \<Rightarrow> (Ok h, s)
                  | None \<Rightarrow> open_zim_slow io name file_mtime file_size s))"

definition open_zim :: "'h open_io \<Rightarrow> string \<Rightarrow> 'h zim_manager \<Rightarrow> ('h, error) result \<times> 'h zim_manager" where
  "open_zim io name = open_zim_impl io name False"

definition open_zim_fresh :: "'h open_io \<Rightarrow> string \<Rightarrow> 'h zim_manager \<Rightarrow> ('h, error) result \<times> 'h zim_manager" where
  "open_zim_fresh io name = open_zim_impl io name True"

section \<open>Open handles\<close>

text \<open>The handle cache keeps the contract of a bounded map with oldest-first eviction.\<close>

interpretation oh: evicting_map MAX_OPEN_ZIMS access_of "\<lambda>order now k m. insert_handle order k (entry now) m" for entry
proof
  fix order and m :: "(string, 'a cached_zim) fmap" and now k j i v w
  show "0 < MAX_OPEN_ZIMS" by (simp add: MAX_OPEN_ZIMS_def)
  show "map_len (insert_handle order k (entry now) m) \<le> MAX_OPEN_ZIMS"
    if "iterates order m" "map_len m \<le> MAX_OPEN_ZIMS"
    unfolding insert_handle_def
    by (rule map_len_upd) (use that in \<open>auto simp: evict_lru_if_full_def map_len_evict MAX_OPEN_ZIMS_def\<close>)
  show "fmlookup (insert_handle order k (entry now) m) k \<noteq> None" by (simp add: insert_handle_def)
  show "fmlookup (insert_handle order k (entry now) m) j = fmlookup m j" if "map_len m < MAX_OPEN_ZIMS" "j \<noteq> k"
    using that by (simp add: insert_handle_def evict_lru_if_full_def)
  show "fmlookup (insert_handle order k (entry now) m) j = Some v"
    if "iterates order m" "j \<noteq> k" "fmlookup m j = Some v" "fmlookup m i = Some w" "access_of w < access_of v"
    using that evict_oldest_keeps [of order m j v i w access_of]
    by (simp add: insert_handle_def evict_lru_if_full_def)
qed

text \<open>What every cached handle satisfies: it was opened for the stamps it is cached under.\<close>

definition handles_ok :: "(string \<Rightarrow> int option \<Rightarrow> u64 \<Rightarrow> 'h \<Rightarrow> bool) \<Rightarrow> 'h zim_manager \<Rightarrow> bool" where
  "handles_ok R s \<longleftrightarrow> map_len (mg_open_handles s) \<le> MAX_OPEN_ZIMS
     \<and> (\<forall>name c. fmlookup (mg_open_handles s) name = Some c \<longrightarrow> R name (cz_mtime c) (cz_size c) (cz_zim c))"

lemma handles_okD: "handles_ok R s \<Longrightarrow> fmlookup (mg_open_handles s) name = Some c \<Longrightarrow> R name (cz_mtime c) (cz_size c) (cz_zim c)"
  by (simp add: handles_ok_def)

lemma insert_handle_lookup:
  "fmlookup (insert_handle order name c m) k = Some d \<Longrightarrow> (k = name \<and> d = c) \<or> fmlookup m k = Some d"
  by (auto simp: insert_handle_def evict_lru_if_full_def dest: evict_oldest_subset split: if_splits)

lemma handles_ok_drop [simp]: "handles_ok R s \<Longrightarrow> handles_ok R (drop_handle name s)"
  by (auto simp: handles_ok_def drop_handle_def intro: le_trans [OF fcard_mono])

lemma handles_ok_touch:
  assumes "handles_ok R s" and "\<And>c. cz_zim (f c) = cz_zim c \<and> cz_mtime (f c) = cz_mtime c \<and> cz_size (f c) = cz_size c"
  shows "handles_ok R (touch_handle name f s)"
proof (cases "fmlookup (mg_open_handles s) name")
  case (Some c)
  then show ?thesis using assms map_len_upd_existing [of "mg_open_handles s" name "f c"]
    by (auto simp: handles_ok_def touch_handle_def)
qed (use assms in \<open>simp add: touch_handle_def\<close>)

lemma bump_access_sel [simp]:
  "cz_zim (bump_access c) = cz_zim c" "cz_mtime (bump_access c) = cz_mtime c" "cz_size (bump_access c) = cz_size c"
  by (simp_all add: bump_access_def)

lemma reuse_valid_ok:
  assumes "handles_ok R s" and "reuse_valid name mt sz now s = Some (h, s')"
  shows "R name mt sz h \<and> handles_ok R s'"
  using assms handles_okD [OF assms(1)]
  by (auto simp: reuse_valid_def handle_still_valid_def intro!: handles_ok_touch split: option.splits if_splits)

lemma open_zim_slow_ok:
  assumes "handles_ok R s" and "handles_ok R (oi_between io s)" and "iterates (oi_order io) (mg_open_handles (oi_between io s))"
    and "\<And>z. oi_parse io = Inr (Inr z) \<Longrightarrow> R name mt sz z"
    and "open_zim_slow io name mt sz s = (r, s')"
  shows "handles_ok R s' \<and> (case r of Inr h \<Rightarrow> R name mt sz h | Inl _ \<Rightarrow> True)"
proof (cases "oi_parse io")
  case (Inr p)
  then show ?thesis
  proof (cases p)
    case z: (Inr z)
    let ?s = "oi_between io s"
    show ?thesis
    proof (cases "reuse_valid name mt sz (oi_now_ms io) ?s")
      case None
      let ?c = "\<lparr>cz_zim = z, cz_mtime = mt, cz_size = sz, cz_last_access = mg_next_seq ?s, cz_last_stat = oi_now_ms io\<rparr>"
      have "map_len (insert_handle (oi_order io) name ?c (mg_open_handles ?s)) \<le> MAX_OPEN_ZIMS"
        using oh.put_len [OF assms(3), where entry = "\<lambda>_. ?c" and k = name] assms(2) by (simp add: handles_ok_def)
      then show ?thesis using assms(2,4,5) None Inr z
        by (auto simp: open_zim_slow_def Let_def handles_ok_def dest!: insert_handle_lookup)
    next
      case (Some hs)
      then show ?thesis using assms(5) Inr z reuse_valid_ok [OF assms(2), of name mt sz "oi_now_ms io"]
        by (cases hs) (auto simp: open_zim_slow_def Let_def)
    qed
  qed (use Inr assms(1,5) in \<open>auto simp: open_zim_slow_def\<close>)
qed (use assms(1,5) in \<open>auto simp: open_zim_slow_def\<close>)

definition stat_mtime :: "file_stat \<Rightarrow> int option" where
  "stat_mtime md = (case md of Some (mt, _) \<Rightarrow> mt | None \<Rightarrow> None)"

definition stat_size :: "file_stat \<Rightarrow> u64" where
  "stat_size md = (case md of Some (_, len) \<Rightarrow> len | None \<Rightarrow> 0)"

text \<open>
  Opening an archive, whatever other tasks do to the handles meanwhile: the handle that comes back was opened
  for the modification time and size the file has now or, on the path that trusts recent checks, for those of
  a check less than thirty seconds old; and never more than sixteen handles are cached.
\<close>

theorem open_zim_current:
  assumes "handles_ok R s" and "handles_ok R (oi_between io s)" and "iterates (oi_order io) (mg_open_handles (oi_between io s))"
    and "case oi_parse io of Inr (Inr z) \<Rightarrow> R name (stat_mtime (oi_stat io)) (stat_size (oi_stat io)) z | _ \<Rightarrow> True"
    and "open_zim_impl io name skip s = (r, s')"
  shows "handles_ok R s'
    \<and> (case r of
         Inr h \<Rightarrow> R name (stat_mtime (oi_stat io)) (stat_size (oi_stat io)) h
           \<or> (\<not> skip \<and> (\<exists>c. fmlookup (mg_open_handles s) name = Some c \<and> cz_zim c = h
                          \<and> R name (cz_mtime c) (cz_size c) h
                          \<and> saturating_sub (oi_now_ms io) (cz_last_stat c) < STAT_TTL_MS))
       | Inl _ \<Rightarrow> True)"
proof (cases "file_path_of s name")
  case (Some fp)
  let ?mt = "stat_mtime (oi_stat io)" and ?sz = "stat_size (oi_stat io)"
  show ?thesis
  proof (cases "if skip then None else recently_stated (oi_now_ms io) name s")
    case None
    show ?thesis
    proof (cases "reuse_valid name ?mt ?sz (oi_now_ms io) s")
      case n: None
      have "open_zim_slow io name ?mt ?sz s = (r, s')"
        using assms(5) Some None n by (simp add: open_zim_impl_def Let_def stat_mtime_def [symmetric] stat_size_def [symmetric])
      then show ?thesis using open_zim_slow_ok [OF assms(1-3), of name ?mt ?sz r s'] assms(4)
        by (auto split: sum.splits)
    next
      case (Some hs)
      then show ?thesis using assms(5) None \<open>file_path_of s name = Some fp\<close> reuse_valid_ok [OF assms(1), of name ?mt ?sz "oi_now_ms io"]
        by (cases hs) (auto simp: open_zim_impl_def Let_def stat_mtime_def [symmetric] stat_size_def [symmetric])
    qed
  next
    case h: (Some h)
    then obtain c where "\<not> skip" "fmlookup (mg_open_handles s) name = Some c" "cz_zim c = h"
      "saturating_sub (oi_now_ms io) (cz_last_stat c) < STAT_TTL_MS"
      by (auto simp: recently_stated_def split: option.splits if_splits)
    then show ?thesis using assms(5) Some h handles_okD [OF assms(1)]
      by (auto simp: open_zim_impl_def intro!: handles_ok_touch [OF assms(1)])
  qed
qed (use assms(1,5) in \<open>auto simp: open_zim_impl_def\<close>)

section \<open>Reconciliation\<close>

definition iteration :: "(string fset \<Rightarrow> string list) \<Rightarrow> bool" where
  "iteration ord \<longleftrightarrow> (\<forall>S. distinct (ord S) \<and> set (ord S) = fset S)"

lemma iterationD: "iteration ord \<Longrightarrow> distinct (ord S) \<and> set (ord S) = fset S"
  by (simp add: iteration_def)

text \<open>The metadata a name has after a reconciliation with the found files.\<close>

definition reconciled :: "'h zim_env \<Rightarrow> scan_entry list \<Rightarrow> (string, zim_meta) fmap \<Rightarrow> string \<Rightarrow> zim_meta option" where
  "reconciled E found cache name =
     (case map_of found name of
        None \<Rightarrow> None
      | Some (p, md) \<Rightarrow>
          (case entry_size (ze_restat E) (name, p, md) of
             None \<Rightarrow> fmlookup cache name
           | Some sz \<Rightarrow>
               Some (case fmlookup cache name of
                       None \<Rightarrow> stub name (path_display p) sz
                     | Some m \<Rightarrow> refresh_meta (path_display p) sz m)))"

lemma refresh_meta_same: "zm_file_size m = sz \<Longrightarrow> zm_file_path m = fp \<Longrightarrow> refresh_meta fp sz m = m"
  by (auto simp: refresh_meta_def Let_def)

lemma refresh_meta_sel [simp]:
  "zm_file_size (refresh_meta fp sz m) = sz" "zm_file_path (refresh_meta fp sz m) = fp"
  "zm_name (refresh_meta fp sz m) = zm_name m" "zm_id (refresh_meta fp sz m) = zm_id m"
  by (auto simp: refresh_meta_def Let_def)

lemma refresh_meta_id_iff: "refresh_meta fp sz m = m \<longleftrightarrow> zm_file_size m = sz \<and> zm_file_path m = fp"
  by (metis refresh_meta_same refresh_meta_sel(1,2))

lemma stub_sel [simp]: "zm_name (stub n fp sz) = n" "zm_id (stub n fp sz) = None"
  by (simp_all add: stub_def)

text \<open>The new value of a name, from what one entry says about it.\<close>

definition entry_meta :: "(path \<Rightarrow> u64 option) \<Rightarrow> scan_entry \<Rightarrow> zim_meta option \<Rightarrow> zim_meta option" where
  "entry_meta restat en old =
     (case entry_size restat en of
        None \<Rightarrow> old
      | Some sz \<Rightarrow> Some (case old of
                       None \<Rightarrow> stub (fst en) (path_display (fst (snd en))) sz
                     | Some m \<Rightarrow> refresh_meta (path_display (fst (snd en))) sz m))"

lemma reconcile_entry_step:
  assumes "reconcile_entry restat en (cache, added, changed) = (cache', added', changed')"
  shows "fmlookup cache' n = (if n = fst en then entry_meta restat en (fmlookup cache n) else fmlookup cache n)"
    and "added' = added @ (if fmlookup cache (fst en) = None \<and> entry_meta restat en None \<noteq> None then [fst en] else [])"
    and "changed' = changed @ (if fmlookup cache (fst en) \<noteq> None
            \<and> entry_meta restat en (fmlookup cache (fst en)) \<noteq> fmlookup cache (fst en) then [fst en] else [])"
  using assms
  by (auto simp: reconcile_entry_def entry_meta_def Let_def refresh_meta_same refresh_meta_id_iff
      split: prod.splits option.splits if_splits)

lemma reconcile_fold:
  assumes "fold (reconcile_entry restat) found (cache, added, changed) = (cache', added', changed')"
    and "distinct (map fst found)"
  shows "fmlookup cache' n =
           (case map_of found n of None \<Rightarrow> fmlookup cache n
            | Some v \<Rightarrow> entry_meta restat (n, v) (fmlookup cache n))
    \<and> added' = added @ map fst (filter (\<lambda>en. fmlookup cache (fst en) = None \<and> entry_meta restat en None \<noteq> None) found)
    \<and> changed' = changed @ map fst (filter (\<lambda>en. fmlookup cache (fst en) \<noteq> None
            \<and> entry_meta restat en (fmlookup cache (fst en)) \<noteq> fmlookup cache (fst en)) found)"
  using assms
proof (induction found arbitrary: cache added changed)
  case (Cons en found)
  obtain c1 a1 h1 where st: "reconcile_entry restat en (cache, added, changed) = (c1, a1, h1)"
    by (metis prod_cases3)
  note step = reconcile_entry_step [OF st]
  have dist: "fst en \<notin> fst ` set found" "distinct (map fst found)" using Cons.prems(2) by auto
  have same: "fmlookup c1 (fst e) = fmlookup cache (fst e)" if "e \<in> set found" for e
    using that dist(1) step(1) [of "fst e"] by (auto simp: image_iff)
  have "fold (reconcile_entry restat) found (c1, a1, h1) = (cache', added', changed')"
    using Cons.prems(1) st by simp
  note IH = Cons.IH [OF this dist(2)]
  have absent: "map_of found (fst en) = None" using dist(1) by (simp add: map_of_eq_None_iff)
  have news: "filter (\<lambda>e. fmlookup c1 (fst e) = None \<and> entry_meta restat e None \<noteq> None) found =
      filter (\<lambda>e. fmlookup cache (fst e) = None \<and> entry_meta restat e None \<noteq> None) found"
    by (rule filter_cong [OF refl]) (simp add: same)
  have diffs: "filter (\<lambda>e. fmlookup c1 (fst e) \<noteq> None \<and> entry_meta restat e (fmlookup c1 (fst e)) \<noteq> fmlookup c1 (fst e)) found =
      filter (\<lambda>e. fmlookup cache (fst e) \<noteq> None \<and> entry_meta restat e (fmlookup cache (fst e)) \<noteq> fmlookup cache (fst e)) found"
    by (rule filter_cong [OF refl]) (simp add: same)
  have look: "fmlookup cache' n = (case map_of (en # found) n of None \<Rightarrow> fmlookup cache n
            | Some v \<Rightarrow> entry_meta restat (n, v) (fmlookup cache n))"
    using IH step(1) [of n] absent by (cases "n = fst en") (auto split: option.splits)
  show ?case
    using look IH step(2,3) unfolding news diffs by (simp only: filter.simps) (simp split: if_split)
qed simp

lemma fmlookup_fold_fmdrop: "fmlookup (fold fmdrop ns c) n = (if n \<in> set ns then None else fmlookup c n)"
  by (induction ns arbitrary: c) auto

lemma reconcile_frame:
  assumes "reconcile E found s = (d, s')"
  shows "mg_zims s' = mg_zims s" "mg_zims_id_seq s' = mg_zims_id_seq s" "mg_open_handles s' = mg_open_handles s"
    "mg_zim_dir s' = mg_zim_dir s" "mg_scan_snapshot s' = mg_scan_snapshot s"
  using assms by (auto simp: reconcile_def Let_def split: prod.splits)

text \<open>A reconciliation makes the cache agree with the files and reports exactly what it changed.\<close>

lemma reconcile_exact:
  assumes "iteration (ze_order E)" and "distinct (map fst found)"
    and "reconcile E found s = ((added, removed, changed), s')"
  shows "(\<forall>n. fmlookup (mg_cache s') n = reconciled E found (mg_cache s) n)
    \<and> distinct added \<and> distinct removed \<and> distinct changed
    \<and> set added = {n. fmlookup (mg_cache s) n = None \<and> fmlookup (mg_cache s') n \<noteq> None}
    \<and> set removed = {n. fmlookup (mg_cache s) n \<noteq> None \<and> fmlookup (mg_cache s') n = None}
    \<and> set changed = {n. fmlookup (mg_cache s) n \<noteq> None \<and> fmlookup (mg_cache s') n \<noteq> None
                        \<and> fmlookup (mg_cache s') n \<noteq> fmlookup (mg_cache s) n}"
proof -
  let ?old = "fmlookup (mg_cache s)" and ?new = "fmlookup (mg_cache s')"
  define rem where "rem = filter (\<lambda>n. n \<notin> fst ` set found) (ze_order E (fmdom (mg_cache s)))"
  have rem: "set rem = {n. ?old n \<noteq> None \<and> n \<notin> fst ` set found}" "distinct rem"
    using iterationD [OF assms(1), of "fmdom (mg_cache s)"] by (auto simp: rem_def fmlookup_dom_iff)
  have kept: "fmlookup (fold fmdrop rem (mg_cache s)) n = (if n \<in> fst ` set found then ?old n else None)" for n
    using rem(1) by (auto simp: fmlookup_fold_fmdrop)
  obtain F: "fold (reconcile_entry (ze_restat E)) found (fold fmdrop rem (mg_cache s), [], []) = (mg_cache s', added, changed)"
    and R: "removed = rem"
    using assms(3) by (auto simp: reconcile_def Let_def rem_def split: prod.splits)
  note fold = reconcile_fold [OF F assms(2)]
  note foldA = fold [THEN conjunct2, THEN conjunct1] and foldC = fold [THEN conjunct2, THEN conjunct2]
  have mapin: "n \<in> fst ` set found \<longleftrightarrow> map_of found n \<noteq> None" for n by (simp add: map_of_eq_None_iff)
  have new: "?new n = reconciled E found (mg_cache s) n" for n
    using fold [of n] kept [of n] mapin [of n]
    by (auto simp: reconciled_def entry_meta_def split: option.splits)
  have em: "?new (fst en) = entry_meta (ze_restat E) en (?old (fst en))" if "en \<in> set found" for en
    using that fold [of "fst en"] kept [of "fst en"] map_of_is_SomeI [OF assms(2), of "fst en" "snd en"] by auto
  have someD: "entry_meta restat en (Some m) \<noteq> None" for restat en m by (simp add: entry_meta_def split: option.split)
  have out: "?new n = None" if "n \<notin> fst ` set found" for n
    using that unfolding new reconciled_def map_of_eq_None_iff [symmetric] by simp
  have "filter (\<lambda>en. fmlookup (fold fmdrop rem (mg_cache s)) (fst en) = None \<and> entry_meta (ze_restat E) en None \<noteq> None) found
      = filter (\<lambda>en. ?old (fst en) = None \<and> ?new (fst en) \<noteq> None) found"
    by (rule filter_cong [OF refl]) (auto simp: kept em)
  with foldA have A: "added = map fst (filter (\<lambda>en. ?old (fst en) = None \<and> ?new (fst en) \<noteq> None) found)"
    by (simp only: append_Nil)
  have "filter (\<lambda>en. fmlookup (fold fmdrop rem (mg_cache s)) (fst en) \<noteq> None
          \<and> entry_meta (ze_restat E) en (fmlookup (fold fmdrop rem (mg_cache s)) (fst en)) \<noteq> fmlookup (fold fmdrop rem (mg_cache s)) (fst en)) found
      = filter (\<lambda>en. ?old (fst en) \<noteq> None \<and> ?new (fst en) \<noteq> ?old (fst en)) found"
    by (rule filter_cong [OF refl]) (auto simp: kept em)
  with foldC have C: "changed = map fst (filter (\<lambda>en. ?old (fst en) \<noteq> None \<and> ?new (fst en) \<noteq> ?old (fst en)) found)"
    by (simp only: append_Nil)
  have in_found: "?new n \<noteq> None \<Longrightarrow> n \<in> fst ` set found" for n
    by (rule ccontr) (use out [of n] in simp)
  have stays: "?new n \<noteq> None" if n: "?old n \<noteq> None" "n \<in> fst ` set found" for n
  proof -
    from n obtain en m where "en \<in> set found" "fst en = n" "?old n = Some m" by auto
    then show ?thesis using em [of en] someD [of "ze_restat E" en m] by simp
  qed
  have "set added = {n. ?old n = None \<and> ?new n \<noteq> None}" unfolding A set_map set_filter using in_found by fast
  moreover have "set changed = {n. ?old n \<noteq> None \<and> ?new n \<noteq> None \<and> ?new n \<noteq> ?old n}"
    unfolding C set_map set_filter using in_found stays by fast
  moreover have "(n \<notin> fst ` set found) = (?new n = None)" if "?old n \<noteq> None" for n
    using that out [of n] stays [of n] by argo
  then have "set removed = {n. ?old n \<noteq> None \<and> ?new n = None}"
    unfolding R rem(1) by (intro Collect_cong conj_cong refl)
  moreover have "distinct added" "distinct changed" unfolding A C using assms(2) by (auto simp: distinct_map intro: inj_on_subset)
  ultimately show ?thesis using new rem(2) R by blast
qed

section \<open>Resync\<close>

definition quiet :: "'h zim_env \<Rightarrow> bool" where
  "quiet E \<longleftrightarrow> (\<forall>st n. ze_others E st n = id)"

definition faultless :: "'h zim_env \<Rightarrow> bool" where
  "faultless E \<longleftrightarrow> (\<forall>st n. ze_fault E st n = None)"

text \<open>The row of a cached name is the image of its metadata.\<close>

definition persisted :: "'h zim_env \<Rightarrow> 'h zim_manager \<Rightarrow> string \<Rightarrow> bool" where
  "persisted E s n \<longleftrightarrow> (case fmlookup (mg_cache s) n of
     None \<Rightarrow> mg_zims s n = None
   | Some m \<Rightarrow> (case zm_id m of None \<Rightarrow> False | Some i \<Rightarrow> mg_zims s n = Some (row_of_meta E i m)))"

text \<open>The state between resyncs: names are consistent, rows belong to cached names, and the metadata with
  an id are those of the row.\<close>

definition in_step :: "'h zim_env \<Rightarrow> 'h zim_manager \<Rightarrow> bool" where
  "in_step E s \<longleftrightarrow> (\<forall>n. case fmlookup (mg_cache s) n of
     None \<Rightarrow> mg_zims s n = None
   | Some m \<Rightarrow> zm_name m = n \<and> (case zm_id m of None \<Rightarrow> True | Some i \<Rightarrow> mg_zims s n = Some (row_of_meta E i m)))"

lemma row_of_meta_id [simp]: "row_of_meta E i (m\<lparr>zm_id := j\<rparr>) = row_of_meta E i m"
  by (simp add: row_of_meta_def)

lemma drop_handle_sel [simp]:
  "mg_cache (drop_handle n s) = mg_cache s" "mg_zims (drop_handle n s) = mg_zims s"
  "mg_zim_dir (drop_handle n s) = mg_zim_dir s" "mg_scan_snapshot (drop_handle n s) = mg_scan_snapshot s"
  by (simp_all add: drop_handle_def)

lemma resync_removed_quiet:
  assumes "quiet E" and "resync_removed E names report s = (r, s')"
  shows "mg_cache s' = mg_cache s \<and> mg_zim_dir s' = mg_zim_dir s \<and> mg_scan_snapshot s' = mg_scan_snapshot s
    \<and> (\<forall>n. n \<notin> set names \<longrightarrow> mg_zims s' n = mg_zims s n)
    \<and> (faultless E \<longrightarrow> r = Ok (report @ map (\<lambda>n. n @ '' (removed)'') names) \<and> (\<forall>n\<in>set names. mg_zims s' n = None))"
  using assms(2)
proof (induction names arbitrary: report s)
  case (Cons a names)
  have id: "ze_others E st n = id" for st n using assms(1) by (simp add: quiet_def)
  show ?case
  proof (cases "ze_fault E ''delete'' a")
    case None
    from Cons.IH [OF Cons.prems [unfolded resync_removed.simps Let_def None option.case]] show ?thesis
      by (auto simp: id)
  next
    case (Some e)
    then show ?thesis using Cons.prems by (auto simp: id faultless_def)
  qed
qed simp

lemma persist_to_db_quiet:
  assumes "quiet E" and "persist_to_db E m s = (r, s')" and "fmlookup (mg_cache s) (zm_name m) = Some m"
  shows "mg_zim_dir s' = mg_zim_dir s \<and> mg_scan_snapshot s' = mg_scan_snapshot s
    \<and> (\<forall>n. n \<noteq> zm_name m \<longrightarrow> mg_zims s' n = mg_zims s n \<and> fmlookup (mg_cache s') n = fmlookup (mg_cache s) n)
    \<and> (\<exists>j. fmlookup (mg_cache s') (zm_name m) = Some (m\<lparr>zm_id := j\<rparr>))
    \<and> (r = Ok () \<longrightarrow> persisted E s' (zm_name m))
    \<and> (faultless E \<longrightarrow> r = Ok ())"
proof -
  have id: "ze_others E st n = id" for st n using assms(1) by (simp add: quiet_def)
  show ?thesis
  proof (cases "ze_fault E ''upsert'' (zm_name m)")
    case (Some e)
    then show ?thesis using assms(2,3)
      by (auto simp: persist_to_db_def Let_def id faultless_def intro: exI [of _ "zm_id m"])
  next
    case None
    then show ?thesis using assms(2,3)
      by (auto simp: persist_to_db_def upsert_zim_def Let_def id persisted_def)
  qed
qed

lemma persisted_cong:
  "fmlookup (mg_cache s) n = fmlookup (mg_cache t) n \<Longrightarrow> mg_zims s n = mg_zims t n \<Longrightarrow> persisted E s n = persisted E t n"
  unfolding persisted_def by (simp only:)

lemma persisted_drop_handle [simp]: "persisted E (drop_handle a s) n = persisted E s n"
  by (rule persisted_cong) simp_all

text \<open>Names are kept by every step, and ids are only added.\<close>

definition same_files :: "'h zim_manager \<Rightarrow> 'h zim_manager \<Rightarrow> bool" where
  "same_files s t \<longleftrightarrow> (\<forall>n. case fmlookup (mg_cache s) n of
     None \<Rightarrow> fmlookup (mg_cache t) n = None
   | Some m \<Rightarrow> (\<exists>j. fmlookup (mg_cache t) n = Some (m\<lparr>zm_id := j\<rparr>)))"

lemma same_files_drop_handle [simp]: "same_files (drop_handle a s) t = same_files s t"
  by (simp add: same_files_def)

lemma same_files_refl: "same_files s s"
  unfolding same_files_def
proof (intro allI)
  fix n show "case fmlookup (mg_cache s) n of None \<Rightarrow> fmlookup (mg_cache s) n = None
      | Some m \<Rightarrow> \<exists>j. fmlookup (mg_cache s) n = Some (m\<lparr>zm_id := j\<rparr>)"
    by (cases "fmlookup (mg_cache s) n") (auto intro: exI [of _ "zm_id (the (fmlookup (mg_cache s) n))"])
qed

lemma same_filesD:
  assumes "same_files s t"
  shows "fmlookup (mg_cache s) n = None \<Longrightarrow> fmlookup (mg_cache t) n = None"
    and "fmlookup (mg_cache s) n = Some m \<Longrightarrow> \<exists>j. fmlookup (mg_cache t) n = Some (m\<lparr>zm_id := j\<rparr>)"
  using assms [unfolded same_files_def, rule_format, of n] by auto

lemma same_files_trans: "same_files s t \<Longrightarrow> same_files t u \<Longrightarrow> same_files s u"
  unfolding same_files_def [of s u]
  by (intro allI) (fastforce split: option.split dest: same_filesD)

definition named :: "'h zim_manager \<Rightarrow> bool" where
  "named s \<longleftrightarrow> (\<forall>n m. fmlookup (mg_cache s) n = Some m \<longrightarrow> zm_name m = n)"

lemma same_files_named: "same_files s t \<Longrightarrow> named s \<Longrightarrow> named t"
  unfolding named_def
proof (intro allI impI)
  fix n m assume st: "same_files s t" and nm: "\<forall>n m. fmlookup (mg_cache s) n = Some m \<longrightarrow> zm_name m = n"
    and t: "fmlookup (mg_cache t) n = Some m"
  show "zm_name m = n"
  proof (cases "fmlookup (mg_cache s) n")
    case None then show ?thesis using same_filesD(1) [OF st None] t by simp
  next
    case (Some k) then show ?thesis using same_filesD(2) [OF st Some] t nm by auto
  qed
qed

lemma resync_persist_quiet:
  assumes "quiet E" and "named s" and "resync_persist E added changed names report s = (r, s')"
  shows "same_files s s' \<and> mg_zim_dir s' = mg_zim_dir s \<and> mg_scan_snapshot s' = mg_scan_snapshot s
    \<and> (\<forall>n. n \<notin> set names \<or> fmlookup (mg_cache s) n = None \<longrightarrow> mg_zims s' n = mg_zims s n \<and> fmlookup (mg_cache s') n = fmlookup (mg_cache s) n)
    \<and> (faultless E \<longrightarrow> (\<exists>rep. r = Ok rep) \<and> (\<forall>n. fmlookup (mg_cache s) n \<noteq> None \<and> (n \<in> set names \<or> persisted E s n) \<longrightarrow> persisted E s' n))"
  using assms(2,3)
proof (induction names arbitrary: report s)
  case Nil
  then show ?case by (auto simp: same_files_refl)
next
  case (Cons a names)
  let ?s = "drop_handle a s"
  have ns: "named ?s" using Cons.prems(1) by (simp add: named_def)
  show ?case
  proof (cases "fmlookup (mg_cache s) a")
    case None
    have r: "resync_persist E added changed names report ?s = (r, s')"
      using Cons.prems(2) None by (simp add: get_def Let_def)
    show ?thesis using Cons.IH [OF ns r] None by auto
  next
    case (Some m)
    have nm: "zm_name m = a" using Cons.prems(1) Some by (simp add: named_def)
    obtain q t where p: "persist_to_db E m ?s = (q, t)" by fastforce
    note P = persist_to_db_quiet [OF assms(1) p, unfolded nm drop_handle_sel, OF Some]
    have st: "same_files s t" unfolding same_files_def
    proof (intro allI)
      fix n show "case fmlookup (mg_cache s) n of None \<Rightarrow> fmlookup (mg_cache t) n = None
          | Some m \<Rightarrow> \<exists>j. fmlookup (mg_cache t) n = Some (m\<lparr>zm_id := j\<rparr>)"
        using P Some same_files_refl [of s, unfolded same_files_def, rule_format, of n]
        by (cases "n = a") (auto split: option.splits)
    qed
    have other: "n \<noteq> a" if "n \<notin> set (a # names) \<or> fmlookup (mg_cache s) n = None" for n
      using that Some by auto
    show ?thesis
    proof (cases q)
      case (Inl e)
      then have "r = Err e" "s' = t" using Cons.prems(2) Some p by (auto simp: get_def Let_def)
      moreover have "mg_zims t n = mg_zims s n \<and> fmlookup (mg_cache t) n = fmlookup (mg_cache s) n"
        if "n \<notin> set (a # names) \<or> fmlookup (mg_cache s) n = None" for n
        using other [OF that] P by blast
      ultimately show ?thesis using Inl P st by (auto simp del: set_simps)
    next
      case (Inr u)
      obtain rep where r: "resync_persist E added changed names rep t = (r, s')"
        using Cons.prems(2) Some p Inr by (auto simp: get_def Let_def)
      note IH = Cons.IH [OF same_files_named [OF st Cons.prems(1)] r]
      have pt: "persisted E t a" using P Inr by simp
      have keep: "persisted E t n" if "persisted E s n" for n
        using that pt P persisted_cong [of t n s] by (cases "n = a") auto
      have "persisted E s' n" if "faultless E" "fmlookup (mg_cache s) n \<noteq> None" "n \<in> set (a # names) \<or> persisted E s n" for n
        using that IH pt keep same_filesD [OF st, of n] by (cases "n = a") auto
      moreover have "mg_zims s' n = mg_zims s n \<and> fmlookup (mg_cache s') n = fmlookup (mg_cache s) n"
        if "n \<notin> set (a # names) \<or> fmlookup (mg_cache s) n = None" for n
        using that other [OF that] IH P by auto
      ultimately show ?thesis using IH P same_files_trans [OF st] by auto
    qed
  qed
qed

lemma set_values: "set (List.map_filter f xs) = {y. \<exists>x\<in>set xs. f x = Some y}"
  by (force simp: List.map_filter_def)

lemma same_files_cong: "mg_cache t = mg_cache u \<Longrightarrow> same_files s t = same_files s u"
  unfolding same_files_def by (simp only:)

lemma unpersisted_in_cache:
  assumes "iteration ord" and "named s"
  shows "set (unpersisted_names ord diffed s) = {n. (\<exists>m. fmlookup (mg_cache s) n = Some m \<and> zm_id m = None) \<and> n \<notin> set diffed}"
proof -
  have "set (cache_values ord s) = {m. \<exists>n. fmlookup (mg_cache s) n = Some m}"
    using iterationD [OF assms(1), of "fmdom (mg_cache s)"]
    by (auto simp: cache_values_def set_values fmlookup_dom_iff)
  then show ?thesis using assms(2) by (force simp: unpersisted_names_def named_def)
qed

lemma in_stepD:
  assumes "in_step E s"
  shows "named s"
    and "fmlookup (mg_cache s) n = None \<Longrightarrow> mg_zims s n = None"
    and "fmlookup (mg_cache s) n = Some m \<Longrightarrow> zm_id m \<noteq> None \<Longrightarrow> persisted E s n"
  using assms [unfolded in_step_def, rule_format]
  by (force simp: named_def persisted_def split: option.splits)+

lemma persisted_in_step: "named s \<Longrightarrow> (\<And>n. persisted E s n) \<Longrightarrow> in_step E s"
  by (force simp: in_step_def named_def persisted_def split: option.splits)

lemma reconciled_named: "named s \<Longrightarrow> (\<And>n. fmlookup (mg_cache t) n = reconciled E found (mg_cache s) n) \<Longrightarrow> named t"
  by (auto simp: named_def reconciled_def split: option.splits prod.splits)

lemma resync_apply_persists:
  assumes q: "quiet E" "faultless E" "iteration (ze_order E)" and nm: "named s"
    and A: "\<And>n. n \<in> set added \<Longrightarrow> fmlookup (mg_cache s) n \<noteq> None"
    and R: "\<And>n. n \<in> set removed \<Longrightarrow> fmlookup (mg_cache s) n = None"
    and rest: "\<And>n m. fmlookup (mg_cache s) n = Some m \<Longrightarrow> n \<notin> set added \<Longrightarrow> n \<notin> set changed \<Longrightarrow> zm_id m \<noteq> None \<Longrightarrow> persisted E s n"
    and gone: "\<And>n. fmlookup (mg_cache s) n = None \<Longrightarrow> n \<notin> set removed \<Longrightarrow> mg_zims s n = None"
    and run: "resync_apply E found added removed changed s = (r, s')"
  shows "(\<exists>rep. r = Ok rep) \<and> same_files s s' \<and> mg_scan_snapshot s' = current_snapshot found \<and> mg_zim_dir s' = mg_zim_dir s
    \<and> (\<forall>n. persisted E s' n)"
proof (cases "added = [] \<and> removed = [] \<and> changed = [] \<and> unpersisted_names (ze_order E) (added @ changed) s = []")
  case True
  then have "persisted E s n" for n
    using rest gone unpersisted_in_cache [OF q(3) nm, of "[]"] by (cases "fmlookup (mg_cache s) n") (auto simp: persisted_def)
  moreover have "r = Ok [] \<and> s' = s\<lparr>mg_scan_snapshot := current_snapshot found\<rparr>"
    using run True by (auto simp: resync_apply_def Let_def)
  ultimately show ?thesis using same_files_refl [of s] same_files_cong [of s' s s] persisted_cong [of s' _ s E] by simp
next
  case False
  let ?un = "unpersisted_names (ze_order E) (added @ changed) s"
  obtain r1 s1 where rem: "resync_removed E removed [] s = (r1, s1)" by fastforce
  note R1 = resync_removed_quiet [OF q(1) rem]
  then obtain rep1 where r1: "r1 = Ok rep1" using q(2) by blast
  have n1: "named s1" using nm R1 by (simp add: named_def)
  obtain r2 s2 where per: "resync_persist E added changed (added @ changed @ ?un) rep1 s1 = (r2, s2)" by fastforce
  note P = resync_persist_quiet [OF q(1) n1 per]
  then obtain rep2 where r2: "r2 = Ok rep2" using q(2) by blast
  define s3 where "s3 = (if rep2 \<noteq> [] then notify_catalog E s2 else s2)"
  have s3: "mg_cache s3 = mg_cache s2" "mg_zims s3 = mg_zims s2" "mg_zim_dir s3 = mg_zim_dir s2"
    using q(1,2) by (auto simp: s3_def notify_catalog_def Let_def quiet_def faultless_def)
  have fin: "r = Ok rep2" "s' = s3\<lparr>mg_scan_snapshot := current_snapshot found\<rparr>"
    using run False rem r1 per r2 by (auto simp: resync_apply_def Let_def s3_def)
  have "persisted E s2 n" for n
  proof (cases "fmlookup (mg_cache s) n")
    case None
    then have "mg_zims s1 n = None" using R1 q(2) gone by (cases "n \<in> set removed") auto
    then show ?thesis using None R1 P by (auto simp: persisted_def)
  next
    case (Some m)
    have "persisted E s n" if "n \<notin> set (added @ changed @ ?un)"
      using rest [OF Some] that Some unpersisted_in_cache [OF q(3) nm, of "added @ changed"] by auto
    moreover have "persisted E s1 n = persisted E s n"
      using R1 R [of n] Some by (intro persisted_cong) auto
    ultimately show ?thesis using P R1 q(2) Some by (cases "n \<in> set (added @ changed @ ?un)") auto
  qed
  then have "persisted E s' n" for n using persisted_cong [of s' n s2 E] fin(2) s3 by simp
  moreover have "same_files s s'"
    using P same_files_cong [of s' s2 s] R1 fin(2) s3 by (auto simp: same_files_def)
  ultimately show ?thesis using fin s3 P R1 by simp
qed

lemma resync_run:
  assumes "ze_exists E" and "ze_task_died E = None"
    and "scan_snapshot_blocking (ze_dir E) (mg_zim_dir s) = Ok found" and "mg_scan_snapshot s \<noteq> current_snapshot found"
    and "reconcile E found s = ((added, removed, changed), t)"
  shows "resync E s = resync_apply E found added removed changed t"
  using assms by (simp add: resync_def)


text \<open>A name that is neither cached nor found is never touched.\<close>

lemma resync_unknown_name:
  assumes q: "quiet E" "iteration (ze_order E)" and nm: "named s" and sc: "scan_snapshot_blocking (ze_dir E) (mg_zim_dir s) = Ok found"
    and d: "distinct (map fst found)" and n: "n \<notin> set (map fst found)" "fmlookup (mg_cache s) n = None"
    and run: "resync E s = (r, s')"
  shows "mg_zims s' n = mg_zims s n \<and> fmlookup (mg_cache s') n = None \<and> named s' \<and> mg_zim_dir s' = mg_zim_dir s"
proof (cases "ze_exists E \<and> ze_task_died E = None \<and> mg_scan_snapshot s \<noteq> current_snapshot found")
  case False
  then have "s' = s" using run sc by (auto simp: resync_def split: if_splits option.splits)
  then show ?thesis using n nm by simp
next
  case True
  obtain added removed changed t where rec: "reconcile E found s = ((added, removed, changed), t)"
    by (metis prod_cases3 surj_pair)
  note ex = reconcile_exact [OF q(2) d rec] and fr = reconcile_frame [OF rec]
  have nt: "named t" by (rule reconciled_named [OF nm]) (use ex in blast)
  have "map_of found n = None" using n(1) by (simp only: map_of_eq_None_iff set_map not_False_eq_True)
  then have tn: "fmlookup (mg_cache t) n = None" "n \<notin> set removed" using ex n(2) by (auto simp: reconciled_def)
  have app: "resync_apply E found added removed changed t = (r, s')"
    using run resync_run [OF _ _ sc _ rec] True by auto
  let ?un = "unpersisted_names (ze_order E) (added @ changed) t"
  show ?thesis
  proof (cases "added = [] \<and> removed = [] \<and> changed = [] \<and> ?un = []")
    case True
    then have "s' = t\<lparr>mg_scan_snapshot := current_snapshot found\<rparr>" using app by (auto simp: resync_apply_def Let_def)
    then show ?thesis using tn nt fr by (simp add: named_def)
  next
    case False
    obtain r1 s1 where rem: "resync_removed E removed [] t = (r1, s1)" by fastforce
    note R1 = resync_removed_quiet [OF q(1) rem]
    have n1: "named s1" using nt R1 by (simp add: named_def)
    show ?thesis
    proof (cases r1)
      case (Inl e)
      then have "s' = s1" using app False rem by (auto simp: resync_apply_def Let_def)
      then show ?thesis using R1 tn n1 fr by simp
    next
      case (Inr rep1)
      obtain r2 s2 where per: "resync_persist E added changed (added @ changed @ ?un) rep1 s1 = (r2, s2)" by fastforce
      note P = resync_persist_quiet [OF q(1) n1 per]
      have "mg_cache s' = mg_cache s2 \<and> mg_zims s' = mg_zims s2 \<and> mg_zim_dir s' = mg_zim_dir s2"
        using app False rem per Inr q(1)
        by (auto simp: resync_apply_def Let_def notify_catalog_def quiet_def split: sum.splits if_splits option.splits)
      then show ?thesis using P R1 tn fr same_files_named [OF P [THEN conjunct1] n1] by (simp add: named_def)
    qed
  qed
qed

lemma resync_removed_fault:
  assumes "quiet E" and "ze_fault E ''delete'' n = Some e" and "n \<in> set names" and "resync_removed E names report s = (r, s')"
  shows "(\<exists>e. r = Err e) \<and> mg_zims s' n = mg_zims s n"
  using assms(3,4)
proof (induction names arbitrary: report s)
  case (Cons a names)
  have id: "ze_others E st n = id" for st n using assms(1) by (simp add: quiet_def)
  show ?case
  proof (cases "ze_fault E ''delete'' a")
    case None
    then have "a \<noteq> n" using assms(2) by auto
    then show ?thesis using Cons None by (fastforce simp: id)
  qed (use Cons.prems in \<open>auto simp: id\<close>)
qed simp

text \<open>A row whose deletion failed is out of reach: the cache has forgotten the name, so no later resync
  deletes the row, however often it runs.\<close>

fun resyncs :: "'h zim_env list \<Rightarrow> 'h zim_manager \<Rightarrow> 'h zim_manager" where
  "resyncs [] s = s"
| "resyncs (E # Es) s = resyncs Es (snd (resync E s))"

definition without :: "string \<Rightarrow> path \<Rightarrow> 'h zim_env \<Rightarrow> bool" where
  "without n dir E \<longleftrightarrow> quiet E \<and> iteration (ze_order E)
     \<and> (case scan_snapshot_blocking (ze_dir E) dir of
          Inr found \<Rightarrow> distinct (map fst found) \<and> n \<notin> set (map fst found) | Inl _ \<Rightarrow> False)"

lemma resyncs_unknown_name:
  assumes "named s" and "fmlookup (mg_cache s) n = None" and "list_all (without n (mg_zim_dir s)) Es"
  shows "mg_zims (resyncs Es s) n = mg_zims s n"
  using assms
proof (induction Es arbitrary: s)
  case (Cons E Es)
  obtain found where f: "scan_snapshot_blocking (ze_dir E) (mg_zim_dir s) = Ok found" "distinct (map fst found)"
    "n \<notin> set (map fst found)" and q: "quiet E" "iteration (ze_order E)"
    using Cons.prems(3) by (auto simp: without_def split: sum.splits)
  obtain r t where run: "resync E s = (r, t)" by fastforce
  note K = resync_unknown_name [OF q Cons.prems(1) f Cons.prems(2) run]
  then show ?case using Cons.IH [of t] Cons.prems(3) run by simp
qed simp

text \<open>
  When the deletion of a vanished archive's row fails, the resync fails, and no later resync deletes the row,
  however many run: the cache has already forgotten the name.
\<close>

theorem failed_delete_not_retried:
  assumes w: "without n (mg_zim_dir s) E" and st: "named s" and n: "fmlookup (mg_cache s) n \<noteq> None"
    and ok: "ze_exists E" "ze_task_died E = None"
    and ch: "Ok (mg_scan_snapshot s) \<noteq> and_then (scan_snapshot_blocking (ze_dir E) (mg_zim_dir s)) (\<lambda>f. Ok (current_snapshot f))"
    and fault: "ze_fault E ''delete'' n = Some e"
    and later: "list_all (without n (mg_zim_dir s)) Es"
  shows "(\<exists>e. fst (resync E s) = Err e) \<and> mg_zims (resyncs (E # Es) s) n = mg_zims s n"
proof -
  obtain found where sc: "scan_snapshot_blocking (ze_dir E) (mg_zim_dir s) = Ok found" and d: "distinct (map fst found)"
    and nf: "n \<notin> set (map fst found)" and q: "quiet E" "iteration (ze_order E)"
    using w by (auto simp: without_def split: sum.splits)
  obtain added removed changed t where rec: "reconcile E found s = ((added, removed, changed), t)"
    by (metis prod_cases3 surj_pair)
  note ex = reconcile_exact [OF q(2) d rec] and fr = reconcile_frame [OF rec]
  have nt: "named t" by (rule reconciled_named [OF st]) (use ex in blast)
  have "map_of found n = None" using nf by (simp only: map_of_eq_None_iff set_map not_False_eq_True)
  then have tn: "fmlookup (mg_cache t) n = None" using ex by (simp add: reconciled_def)
  then have rn: "n \<in> set removed" using ex n by blast
  obtain r1 s1 where rem: "resync_removed E removed [] t = (r1, s1)" by fastforce
  obtain e1 where e1: "r1 = Err e1" "mg_zims s1 n = mg_zims t n"
    using resync_removed_fault [OF q(1) fault rn rem] by blast
  have "mg_scan_snapshot s \<noteq> current_snapshot found" using ch sc by simp
  then have run: "resync E s = (Err e1, s1)"
    using resync_run [OF ok sc _ rec] rem e1(1) rn by (auto simp: resync_apply_def Let_def)
  note R1 = resync_removed_quiet [OF q(1) rem]
  have "mg_zims (resyncs Es s1) n = mg_zims s1 n"
    by (rule resyncs_unknown_name) (use R1 nt tn later fr(4) in \<open>auto simp: named_def\<close>)
  then show ?thesis using run e1(2) fr(1) by simp
qed

text \<open>What a row keeps of the metadata.\<close>

definition storable :: "'h zim_env \<Rightarrow> zim_meta \<Rightarrow> bool" where
  "storable E m \<longleftrightarrow> (\<forall>c\<in>{zm_entry_count m, zm_article_count m, zm_file_size m, zm_indexed_entries m}. unat c < 2 ^ 63)
     \<and> (case zm_date m of Some t \<Rightarrow> ze_parse_date E t = Some t | None \<Rightarrow> True)
     \<and> ze_real E (zm_index_progress m) = zm_index_progress m"

lemma count_u64_sint:
  assumes "unat (c :: u64) < 2 ^ 63"
  shows "count_u64 (sint c) = c"
proof -
  have "int (unat c) < int (2 ^ 63)" using assms by (simp only: of_nat_less_iff)
  then have u: "uint c < 2 ^ 63" by simp
  moreover have "- (2 ^ 63) \<le> uint c" by (rule order_trans [of _ 0]) simp_all
  ultimately have "sint c = uint c" unfolding sint_uint by (intro signed_take_bit_int_eq_self) simp_all
  then show ?thesis by (simp add: count_u64_def)
qed

lemma meta_row_roundtrip:
  assumes "storable E m" and "zm_id m = Some i"
  shows "meta_of_row (row_of_meta E i m) = m"
proof (rule zim_meta.equality)
  show "zm_date (meta_of_row (row_of_meta E i m)) = zm_date m"
    using assms(1) by (simp add: meta_of_row_def row_of_meta_def storable_def split: option.splits)
qed (use assms in \<open>simp_all add: meta_of_row_def row_of_meta_def storable_def count_u64_sint\<close>)

lemma load_rows:
  assumes "\<And>n r. zims n = Some r \<Longrightarrow> zr_name r = n"
  shows "fmlookup (fold (\<lambda>m. fmupd (zr_name m) (meta_of_row m)) (List.map_filter zims names) c) n
    = (case (if n \<in> set names then zims n else None) of Some r \<Rightarrow> Some (meta_of_row r) | None \<Rightarrow> fmlookup c n)"
proof (induction names arbitrary: c)
  case (Cons a names)
  show ?case
  proof (cases "zims a")
    case (Some r)
    then show ?thesis using Cons assms [OF Some] by (auto simp: List.map_filter_simps split: option.splits)
  qed (use Cons in \<open>auto simp: List.map_filter_simps\<close>)
qed (simp add: List.map_filter_simps)

text \<open>
  Loading the table into a fresh manager gives back the library as the converged manager had it, as long as
  counts fit the signed columns and dates and progress values survive the database types.
\<close>

theorem restart_restores_library:
  assumes "\<And>n. persisted E s n" and "named s" and "\<And>n m. fmlookup (mg_cache s) n = Some m \<Longrightarrow> storable E m"
    and "set names = dom (mg_zims s)"
  shows "case load_from_db None names (zim_manager_new (mg_zim_dir s) (mg_zims s) seq) of
    (r, s') \<Rightarrow> r = Ok () \<and> mg_cache s' = mg_cache s"
proof -
  have zn: "zr_name r = n" if "mg_zims s n = Some r" for n r
    using assms(1) [of n] assms(2) that by (auto simp: persisted_def named_def row_of_meta_def split: option.splits)
  have "(case mg_zims s n of Some r \<Rightarrow> Some (meta_of_row r) | None \<Rightarrow> fmlookup fmempty n) = fmlookup (mg_cache s) n" for n
    using assms(1) [of n] meta_row_roundtrip [OF assms(3)] by (auto simp: persisted_def split: option.splits)
  moreover have "(if n \<in> set names then mg_zims s n else None) = mg_zims s n" for n
    using assms(4) by (auto simp: dom_def)
  ultimately have "fmlookup (fold (\<lambda>m. fmupd (zr_name m) (meta_of_row m)) (List.map_filter (mg_zims s) names) fmempty) n
      = fmlookup (mg_cache s) n" for n
    using load_rows [where zims = "mg_zims s" and names = names and c = fmempty and n = n, OF zn] by simp
  then show ?thesis by (simp add: load_from_db_def zim_manager_new_def fmap_ext)
qed

section \<open>Samples\<close>

definition sample_zim_env :: "nat zim_env" where
  "sample_zim_env =
     \<lparr>ze_exists = True,
      ze_dir = \<lparr>di_exists = True, di_read_dir = Ok [Ok \<lparr>en_name = ''wiki.ZIM'', en_is_file = True, en_stat = Some (Some 7, 10)\<rparr>]\<rparr>,
      ze_task_died = None, ze_restat = (\<lambda>_. None), ze_order = sorted_list_of_fset, ze_fault = (\<lambda>_ _. None),
      ze_others = (\<lambda>_ _. id), ze_parse_date = Some, ze_real = id\<rparr>"

definition sample_gone :: zim_meta where
  "sample_gone = (stub ''gone'' ''zims/gone.zim'' 3)\<lparr>zm_id := Some 1\<rparr>"

definition sample_manager :: "nat zim_manager" where
  "sample_manager =
     (zim_manager_new [''zims''] [''gone'' \<mapsto> row_of_meta sample_zim_env 1 sample_gone] 1)
       \<lparr>mg_cache := fmupd ''gone'' sample_gone fmempty\<rparr>"

definition sample_found :: "scan_entry list" where
  "sample_found = [(''wiki'', [''zims'', ''wiki.ZIM''], Some (7, 10))]"

lemma iteration_sorted: "iteration sorted_list_of_fset"
  by (simp add: iteration_def sorted_list_of_fset.rep_eq)

lemma sample_scan: "scan_snapshot_blocking (ze_dir sample_zim_env) [''zims''] = Ok sample_found"
  by (simp add: scan_snapshot_blocking_def sample_zim_env_def sample_found_def extension_def file_stem_def
      rsplit_once_def eq_ignore_ascii_case_def to_ascii_lowercase_def lower_char_def ascii_def snapshot_entry_def char_of_def bit_0)

lemma sample_snapshot_new: "mg_scan_snapshot sample_manager \<noteq> current_snapshot sample_found"
proof -
  have "fmlookup (current_snapshot sample_found) ''wiki'' \<noteq> None" by (simp add: current_snapshot_def sample_found_def)
  then show ?thesis by (auto simp: sample_manager_def zim_manager_new_def)
qed

lemma sample_manager_ok:
  "mg_zim_dir sample_manager = [''zims'']" "named sample_manager" "in_step sample_zim_env sample_manager"
  "fmlookup (mg_cache sample_manager) ''gone'' = Some sample_gone"
  by (auto simp: sample_manager_def zim_manager_new_def named_def in_step_def sample_gone_def)

lemma sample_zim_env_quiet: "quiet sample_zim_env" "faultless sample_zim_env" "iteration (ze_order sample_zim_env)"
  "ze_exists sample_zim_env" "ze_task_died sample_zim_env = None"
  using iteration_sorted by (simp_all add: sample_zim_env_def quiet_def faultless_def)


definition failing_delete_env :: "nat zim_env" where
  "failing_delete_env = sample_zim_env\<lparr>ze_fault := (\<lambda>st n. if st = ''delete'' then Some PoolTimedOut else None)\<rparr>"

theorem failed_delete_not_retried_witness:
  "(\<exists>e. fst (resync failing_delete_env sample_manager) = Err e)
    \<and> mg_zims (resyncs [failing_delete_env, sample_zim_env] sample_manager) ''gone'' = Some (row_of_meta sample_zim_env 1 sample_gone)"
proof -
  have w: "without ''gone'' [''zims''] failing_delete_env" "without ''gone'' [''zims''] sample_zim_env"
    using sample_scan sample_zim_env_quiet by (auto simp: without_def failing_delete_env_def quiet_def sample_found_def)
  have "mg_zims sample_manager ''gone'' = Some (row_of_meta sample_zim_env 1 sample_gone)"
    by (simp add: sample_manager_def zim_manager_new_def)
  moreover have "(\<exists>e. fst (resync failing_delete_env sample_manager) = Err e)
      \<and> mg_zims (resyncs (failing_delete_env # [sample_zim_env]) sample_manager) ''gone'' = mg_zims sample_manager ''gone''"
    by (rule failed_delete_not_retried [where e = PoolTimedOut])
      (use w sample_manager_ok sample_zim_env_quiet sample_scan sample_snapshot_new in \<open>simp_all add: failing_delete_env_def\<close>)
  ultimately show ?thesis by simp
qed

theorem restart_restores_library_witness:
  "case load_from_db None [''gone''] (zim_manager_new [''zims''] (mg_zims sample_manager) 5 :: nat zim_manager) of
    (r, s') \<Rightarrow> r = Ok () \<and> mg_cache s' = mg_cache sample_manager"
proof -
  have p: "persisted sample_zim_env sample_manager n" for n
    by (auto simp: persisted_def sample_manager_def zim_manager_new_def sample_gone_def)
  have st: "storable sample_zim_env m" if "fmlookup (mg_cache sample_manager) n = Some m" for n m
    using that by (auto simp: sample_manager_def zim_manager_new_def sample_gone_def stub_def storable_def sample_zim_env_def split: if_splits)
  show ?thesis
    using restart_restores_library [where E = sample_zim_env and s = sample_manager and names = "[''gone'']" and seq = 5, OF p sample_manager_ok(2) st]
    by (simp add: sample_manager_ok(1)) (simp add: sample_manager_def zim_manager_new_def)
qed

definition sample_open :: "(string \<times> u64) open_io" where
  "sample_open = \<lparr>oi_now_ms = 5000, oi_stat = Some (Some 7, 10), oi_parse = Ok (Ok (''wiki'', 10)), oi_between = id, oi_order = []\<rparr>"

definition sample_shelf :: "(string \<times> u64) zim_manager" where
  "sample_shelf = (zim_manager_new [''zims''] Map.empty 0)\<lparr>mg_cache := fmupd ''wiki'' (stub ''wiki'' ''zims/wiki.ZIM'' 10) fmempty\<rparr>"

theorem open_zim_current_witness:
  "\<exists>h s'. open_zim_impl sample_open ''wiki'' True sample_shelf = (Ok h, s')
    \<and> handles_ok (\<lambda>name mt sz z. z = (name, sz)) s' \<and> h = (''wiki'', 10)"
proof -
  let ?R = "\<lambda>name (mt :: int option) sz z. z = (name, sz)"
  obtain r s' where run: "open_zim_impl sample_open ''wiki'' True sample_shelf = (r, s')" by fastforce
  have r: "r = Ok (''wiki'', 10)"
    using run by (simp add: open_zim_impl_def sample_open_def sample_shelf_def zim_manager_new_def file_path_of_def
        reuse_valid_def open_zim_slow_def Let_def)
  have "handles_ok ?R s' \<and> (case r of
         Inr h \<Rightarrow> ?R ''wiki'' (stat_mtime (oi_stat sample_open)) (stat_size (oi_stat sample_open)) h
           \<or> (\<not> True \<and> (\<exists>c. fmlookup (mg_open_handles sample_shelf) ''wiki'' = Some c \<and> cz_zim c = h
                          \<and> ?R ''wiki'' (cz_mtime c) (cz_size c) h
                          \<and> saturating_sub (oi_now_ms sample_open) (cz_last_stat c) < STAT_TTL_MS))
       | Inl _ \<Rightarrow> True)"
    by (rule open_zim_current [OF _ _ _ _ run])
      (simp_all add: sample_open_def sample_shelf_def zim_manager_new_def handles_ok_def iterates_def stat_size_def)
  then show ?thesis using run r by simp
qed

end
