(* ===== verification/Completion.thy ===== *)
theory Completion
  imports Queue Zims "HOL-Library.Signed_Division"
begin

text \<open>
  The completion of a finished torrent (\<open>src/torrent/poller/complete.rs\<close>) and the statistics helpers of
  the poller (\<open>src/torrent/poller/stats.rs\<close>).

  The state joins the poller's state of \<open>Queue\<close> with the files and the archive manager of \<open>Zims\<close>; it
  also logs the archives handed to background indexing. What one completion meets outside the database
  is a \<open>complete_env\<close>: the two looks at the content path, the file operations of the installation, the
  archive check, the digest and, for each call into the archive manager, its environment.
\<close>

section \<open>State and environment\<close>

record ('w, 'h) lib_state =
  ls_poll :: "'w poll_state"
  ls_fs :: fs
  ls_zims :: "'h zim_manager"
  ls_indexing :: "string list"

record 'h complete_env =
  ce_content :: "nat \<Rightarrow> content" \<comment> \<open>what the first and the second look at the content path find\<close>
  ce_io :: install_io
  ce_pid :: nat
  ce_seq :: nat
  ce_verify :: "string option \<Rightarrow> (unit, error) result" \<comment> \<open>the archive parser, on the content of the file\<close>
  ce_install_died :: "(string \<times> nat) option" \<comment> \<open>the blocking task died, after some of its file operations\<close>
  ce_digest_died :: "string option"
  ce_read :: "string option" \<comment> \<open>an error while the installed file is read\<close>
  ce_sha256 :: "string \<Rightarrow> string"
  ce_zims :: "nat \<Rightarrow> 'h zim_env" \<comment> \<open>resync, integrity record, resync after a discard\<close>
  ce_f32 :: "f64 \<Rightarrow> f32" \<comment> \<open>\<open>as f32\<close>\<close>
  ce_ratio_text :: "f64 \<Rightarrow> string" \<comment> \<open>the ratio with two decimals\<close>

definition lib_stmt ::
  "'w poller \<Rightarrow> (sqlx_error option \<Rightarrow> timestamp \<Rightarrow> downloads \<Rightarrow> 'a \<times> downloads) \<Rightarrow> ('w, 'h) lib_state
    \<Rightarrow> 'a \<times> ('w, 'h) lib_state" where
  "lib_stmt P f s = (case stmt (po_db P) f (ls_poll s) of (a, q) \<Rightarrow> (a, s\<lparr>ls_poll := q\<rparr>))"

abbreviation set_world :: "'w \<Rightarrow> ('w, 'h) lib_state \<Rightarrow> ('w, 'h) lib_state" where
  "set_world w s \<equiv> s\<lparr>ls_poll := (ls_poll s)\<lparr>ps_world := w\<rparr>\<rparr>"

abbreviation zim_dir_of :: "('w, 'h) lib_state \<Rightarrow> path" where
  "zim_dir_of s \<equiv> mg_zim_dir (ls_zims s)"

text \<open>\<open>mark_error\<close> on the poller's connection.\<close>

definition lib_failed :: "'w poller \<Rightarrow> int \<Rightarrow> string \<Rightarrow> ('w, 'h) lib_state \<Rightarrow> ('w, 'h) lib_state" where
  "lib_failed P i msg s = snd (lib_stmt P (\<lambda>fault now db. ((), mark_error fault now i msg db)) s)"

section \<open>Statistics\<close>

definition i64_saturate :: "int \<Rightarrow> int" where
  "i64_saturate v = max (- (2 ^ 63)) (min (2 ^ 63 - 1) v)"

definition kibs_to_bps :: "int \<Rightarrow> int" where
  "kibs_to_bps kibs = i64_saturate (kibs * 1024)"

text \<open>Integer division of \<open>i64\<close> truncates towards zero.\<close>

definition eta_secs :: "int \<Rightarrow> int \<Rightarrow> int option" where
  "eta_secs remaining_bytes dlspeed_kibs =
     (if dlspeed_kibs > 0 then Some (remaining_bytes sdiv i64_saturate (dlspeed_kibs * 1024)) else None)"

definition stats_changed :: "(f64 \<Rightarrow> f32) \<Rightarrow> f32 \<Rightarrow> f32 option \<Rightarrow> int option \<Rightarrow> torrent_info \<Rightarrow> bool" where
  "stats_changed f32 old_progress old_ratio old_num_seeds t \<longleftrightarrow>
     (case t_progress t of Num x \<Rightarrow> \<bar>x - old_progress\<bar> \<ge> 1 / 100 | NaN \<Rightarrow> False | _ \<Rightarrow> True)
     \<or> f32 (t_ratio t) \<noteq> (case old_ratio of Some r \<Rightarrow> r | None \<Rightarrow> 0)
     \<or> t_num_seeds t \<noteq> (case old_num_seeds of Some n \<Rightarrow> n | None \<Rightarrow> 0)
     \<or> t_dlspeed t \<noteq> 0 \<or> t_upspeed t \<noteq> 0"

section \<open>Completion\<close>

text \<open>The components of a path text: empty components and \<open>.\<close> after the first are not there.\<close>

definition path_of :: "string \<Rightarrow> path" where
  "path_of s =
     (case split_on CHR ''/'' s of [] \<Rightarrow> [] | c # cs \<Rightarrow> c # filter (\<lambda>d. d \<noteq> [] \<and> d \<noteq> ''.'') cs)"

definition set_ratio_limit ::
  "'w transport \<Rightarrow> qbit_client \<Rightarrow> string \<Rightarrow> string \<Rightarrow> 'w \<Rightarrow> (unit, error) result \<times> 'w" where
  "set_ratio_limit send q hash limit w =
     (case send q (Post (q_base_url q @ ''/api/v2/torrents/setRatioLimit'') [(''hashes'', hash), (''limit'', limit)]) w of
        (Inl e, w') \<Rightarrow> (Err (Http e), w')
      | (Inr resp, w') \<Rightarrow>
          (if \<not> Qbit.is_success (qr_status resp) then (Err (Torrent Other ''set_ratio_limit failed''), w') else (Ok (), w')))"

definition content_text :: "torrent_info \<Rightarrow> string" where
  "content_text t =
     (case t_content_path t of
        Some p \<Rightarrow> p
      | None \<Rightarrow> (case t_save_path t of Some p \<Rightarrow> p | None \<Rightarrow> []))"

text \<open>The \<open>k\<close>-th look for the archive of a torrent.\<close>

definition locate :: "'h complete_env \<Rightarrow> nat \<Rightarrow> torrent_info \<Rightarrow> (path, error) result" where
  "locate E k t = locate_torrent_zim (path_of (content_text t)) (ce_content E k)"

definition has_file :: "string option \<Rightarrow> ('w, 'h) lib_state \<Rightarrow> bool" where
  "has_file file_path s \<longleftrightarrow> (case file_path of Some p \<Rightarrow> ls_fs s (path_of p) \<noteq> None | None \<Rightarrow> False)"

text \<open>A destination: its text, which the rows hold, and its path.\<close>

type_synonym destination = "string \<times> path"

definition expected_dst ::
  "'h complete_env \<Rightarrow> bool \<Rightarrow> string option \<Rightarrow> torrent_info \<Rightarrow> ('w, 'h) lib_state \<Rightarrow> destination option" where
  "expected_dst E skipped_existing file_path t s =
     (if skipped_existing then map_option (\<lambda>p. (p, path_of p)) file_path
      else (case locate E 0 t of
              Inl _ \<Rightarrow> None
            | Inr zim_file \<Rightarrow>
                if zim_file = [] \<or> last zim_file = ''..'' then None
                else (let dst = zim_dir_of s @ [last zim_file] in Some (path_display dst, dst))))"

text \<open>The two guards: a message when the installation is refused.\<close>

definition install_guards ::
  "'w poller \<Rightarrow> int \<Rightarrow> string \<Rightarrow> destination option \<Rightarrow> ('w, 'h) lib_state
    \<Rightarrow> (string option, error) result \<times> ('w, 'h) lib_state" where
  "install_guards P i name dst s =
     (case lib_stmt P (select (\<lambda>db. find_same_name_live_row db name i)) s of
        (Inl e, s) \<Rightarrow> (Err (Database e), s)
      | (Inr (Some other), s) \<Rightarrow>
          (Ok (Some (''install skipped: same-named download already active/installed (row '' @ int_text other @ '')'')), s)
      | (Inr None, s) \<Rightarrow>
          (case dst of
             None \<Rightarrow> (Ok None, s)
           | Some (text, _) \<Rightarrow>
               (case lib_stmt P (select (\<lambda>db. find_live_row_owns_path db text i)) s of
                  (Inl e, s) \<Rightarrow> (Err (Database e), s)
                | (Inr (Some other), s) \<Rightarrow>
                    (Ok (Some (''install skipped: destination already owned by live row '' @ int_text other)), s)
                | (Inr None, s) \<Rightarrow> (Ok None, s))))"

definition cap_ratio ::
  "'w poller \<Rightarrow> 'h complete_env \<Rightarrow> poller_params \<Rightarrow> qbit_client option \<Rightarrow> torrent_info \<Rightarrow> ('w, 'h) lib_state \<Rightarrow> ('w, 'h) lib_state" where
  "cap_ratio P E p qbit t s =
     (case (qbit, pp_seed_ratio p) of
        (Some q, Some ratio) \<Rightarrow>
          if f64_le (Num 0) ratio \<and> ratio \<noteq> Num 0
          then set_world (snd (set_ratio_limit (qe_send (po_qbit P)) q (t_hash t) (ce_ratio_text E ratio) (ps_world (ls_poll s)))) s
          else s
      | _ \<Rightarrow> s)"

definition install_fresh ::
  "'h complete_env \<Rightarrow> poller_params \<Rightarrow> torrent_info \<Rightarrow> ('w, 'h) lib_state \<Rightarrow> (destination, error) result \<times> ('w, 'h) lib_state" where
  "install_fresh E p t s =
     (case locate E 1 t of
        Inl e \<Rightarrow> (Err e, s)
      | Inr zim_file \<Rightarrow>
          (let (states, res) =
             (case ce_verify E (map_option f_content (ls_fs s zim_file)) of
                Inl e \<Rightarrow> ([ls_fs s], Err e)
              | Inr _ \<Rightarrow> install_zim (ce_io E) (ce_pid E) (ce_seq E) zim_file (zim_dir_of s) (pp_file_strategy p) (ls_fs s))
           in case ce_install_died E of
                Some (e, k) \<Rightarrow> (Err (Internal (''install task failed: '' @ e)), s\<lparr>ls_fs := last (ls_fs s # take k states)\<rparr>)
              | None \<Rightarrow>
                  (case res of
                     Inl e \<Rightarrow> (Err e, s\<lparr>ls_fs := last states\<rparr>)
                   | Inr dst \<Rightarrow> (Ok (path_display dst, dst), s\<lparr>ls_fs := last states\<rparr>))))"

definition lib_discard_if_unowned ::
  "'w poller \<Rightarrow> 'h complete_env \<Rightarrow> int \<Rightarrow> destination \<Rightarrow> ('w, 'h) lib_state \<Rightarrow> ('w, 'h) lib_state" where
  "lib_discard_if_unowned P E i dst s =
     (let s = (case lib_stmt P (select (\<lambda>db. find_live_row_owns_path db (fst dst) i)) s of
                 (Inr None, s) \<Rightarrow> s\<lparr>ls_fs := remove_file (ce_io E) (snd dst) (ls_fs s)\<rparr>
               | (_, s) \<Rightarrow> s)
      in s\<lparr>ls_zims := snd (resync (ce_zims E 2) (ls_zims s))\<rparr>)"

definition settle_complete ::
  "'w poller \<Rightarrow> 'h complete_env \<Rightarrow> poller_params \<Rightarrow> qbit_client option \<Rightarrow> int \<Rightarrow> torrent_info \<Rightarrow> string \<Rightarrow> ('w, 'h) lib_state
    \<Rightarrow> (nat, error) result \<times> ('w, 'h) lib_state" where
  "settle_complete P E p qbit i t text s =
     (let keep_seeding = pp_keep_completed p \<and> qbit \<noteq> None;
          new_status = (if keep_seeding then Seeding else Complete)
      in case lib_stmt P (\<lambda>fault now. mark_complete fault now i text new_status
                (if keep_seeding then Some (ce_f32 E (t_ratio t)) else None)
                (if keep_seeding then Some (kibs_to_bps (t_upspeed t)) else None)
                (if keep_seeding then Some (t_num_seeds t) else None)) s of
           (Inl e, s) \<Rightarrow> (Err (Database e), s)
         | (Inr n, s) \<Rightarrow> (Ok n, s))"

text \<open>The observed digest: the row, the drift against earlier downloads of the same torrent, the archive record.\<close>

definition observe_digest ::
  "'w poller \<Rightarrow> 'h complete_env \<Rightarrow> int \<Rightarrow> string \<Rightarrow> path \<Rightarrow> string \<Rightarrow> ('w, 'h) lib_state \<Rightarrow> ('w, 'h) lib_state" where
  "observe_digest P E i hash dst digest s =
     (let s = snd (lib_stmt P (\<lambda>fault now. record_observed_digest fault now i digest) s);
          (prior, s) = lib_stmt P (select (\<lambda>db. prior_observed_digest_by_hash db i hash)) s;
          drift = (case prior of Inr prev \<Rightarrow> drift_decision prev digest | Inl _ \<Rightarrow> False);
          zname = (case file_stem (last dst) of Some n \<Rightarrow> n | None \<Rightarrow> [])
      in if zname = [] then s
         else s\<lparr>ls_zims := snd (manager_set_content_sha256 (ce_zims E 1) zname digest None drift (ls_zims s))\<rparr>)"

definition digest_of :: "'h complete_env \<Rightarrow> path \<Rightarrow> ('w, 'h) lib_state \<Rightarrow> (string, error) result" where
  "digest_of E dst s =
     (case (ce_read E, ls_fs s dst) of
        (Some e, _) \<Rightarrow> Err (Io e)
      | (None, None) \<Rightarrow> Err (Io ''No such file or directory (os error 2)'')
      | (None, Some f) \<Rightarrow> Ok (ce_sha256 E (f_content f)))"

definition record_provenance ::
  "'w poller \<Rightarrow> 'h complete_env \<Rightarrow> int \<Rightarrow> torrent_info \<Rightarrow> bool \<Rightarrow> path \<Rightarrow> ('w, 'h) lib_state
    \<Rightarrow> (unit, error) result \<times> ('w, 'h) lib_state" where
  "record_provenance P E i t skipped_existing dst s =
     (case lib_stmt P (select (\<lambda>db. claim_digest db i)) s of
        (Inl e, s) \<Rightarrow> (Err (Database e), s)
      | (Inr row_digest, s) \<Rightarrow>
          if skipped_existing \<and> row_digest \<noteq> None then (Ok (), s)
          else (case ce_digest_died E of
                  Some e \<Rightarrow> (Err (Internal (''digest task failed: '' @ e)), s)
                | None \<Rightarrow>
                    (case digest_of E dst s of
                       Inl _ \<Rightarrow> (Ok (), s)
                     | Inr digest \<Rightarrow> (Ok (), observe_digest P E i (t_hash t) dst digest s))))"

definition drop_completed ::
  "'w poller \<Rightarrow> poller_params \<Rightarrow> qbit_client option \<Rightarrow> torrent_info \<Rightarrow> ('w, 'h) lib_state \<Rightarrow> ('w, 'h) lib_state" where
  "drop_completed P p qbit t s =
     (if pp_keep_completed p then s
      else (case qbit of
              None \<Rightarrow> s
            | Some q \<Rightarrow>
                (case delete_torrent (qe_send (po_qbit P)) q (t_hash t) True (ps_world (ls_poll s)) of
                   (Inr _, w) \<Rightarrow> s\<lparr>ls_poll := (ls_poll s)\<lparr>ps_world := w, ps_removed := ps_removed (ls_poll s) @ [t_hash t]\<rparr>\<rparr>
                 | (Inl _, w) \<Rightarrow> set_world w s)))"

definition spawn_index :: "path \<Rightarrow> ('w, 'h) lib_state \<Rightarrow> ('w, 'h) lib_state" where
  "spawn_index dst s =
     (case file_stem (last dst) of
        Some n \<Rightarrow> if n = [] then s else s\<lparr>ls_indexing := ls_indexing s @ [n]\<rparr>
      | None \<Rightarrow> s)"

text \<open>The installed file: resync, settlement, provenance, clean-up and indexing.\<close>

definition complete_installed ::
  "'w poller \<Rightarrow> 'h complete_env \<Rightarrow> poller_params \<Rightarrow> qbit_client option \<Rightarrow> int \<Rightarrow> torrent_info \<Rightarrow> bool \<Rightarrow> destination
    \<Rightarrow> ('w, 'h) lib_state \<Rightarrow> (unit, error) result \<times> ('w, 'h) lib_state" where
  "complete_installed P E p qbit i t skipped_existing dst s =
     (case resync (ce_zims E 0) (ls_zims s) of
        (Inl e, m) \<Rightarrow> (Err e, s\<lparr>ls_zims := m\<rparr>)
      | (Inr _, m) \<Rightarrow>
          (case settle_complete P E p qbit i t (fst dst) (s\<lparr>ls_zims := m\<rparr>) of
             (Inl e, s) \<Rightarrow> (Err e, s)
           | (Inr updated, s) \<Rightarrow>
               if updated = 0 \<and> \<not> skipped_existing then (Ok (), lib_discard_if_unowned P E i dst s)
               else (case record_provenance P E i t skipped_existing (snd dst) s of
                       (Inl e, s) \<Rightarrow> (Err e, s)
                     | (Inr _, s) \<Rightarrow> (Ok (), spawn_index (snd dst) (drop_completed P p qbit t s)))))"

definition handle_complete ::
  "'w poller \<Rightarrow> 'h complete_env \<Rightarrow> poller_params \<Rightarrow> qbit_client option \<Rightarrow> int \<Rightarrow> string \<Rightarrow> torrent_info \<Rightarrow> string option
    \<Rightarrow> ('w, 'h) lib_state \<Rightarrow> (unit, error) result \<times> ('w, 'h) lib_state" where
  "handle_complete P E p qbit i name t file_path s =
     (let skipped_existing = has_file file_path s
      in case install_guards P i name (expected_dst E skipped_existing file_path t s) s of
           (Inl e, s) \<Rightarrow> (Err e, s)
         | (Inr (Some msg), s) \<Rightarrow> (Ok (), lib_failed P i msg s)
         | (Inr None, s) \<Rightarrow>
             (let s = cap_ratio P E p qbit t s
              in if skipped_existing
                 then complete_installed P E p qbit i t True (the file_path, path_of (the file_path)) s
                 else (case install_fresh E p t s of
                         (Inl e, s) \<Rightarrow> (Err e, s)
                       | (Inr dst, s) \<Rightarrow> complete_installed P E p qbit i t False dst s)))"

section \<open>What a completion writes\<close>

lemma lib_stmt_frame:
  "lib_stmt P f s = (a, s') \<Longrightarrow> ls_fs s' = ls_fs s \<and> ls_zims s' = ls_zims s \<and> ls_indexing s' = ls_indexing s"
  by (auto simp: lib_stmt_def split: prod.splits)

lemma snd_lib_stmt_frame [simp]:
  "ls_fs (snd (lib_stmt P f s)) = ls_fs s" "ls_zims (snd (lib_stmt P f s)) = ls_zims s"
  "ls_indexing (snd (lib_stmt P f s)) = ls_indexing s"
  using lib_stmt_frame [of P f s "fst (lib_stmt P f s)" "snd (lib_stmt P f s)"] by simp_all

lemma install_zim_frame:
  assumes "install_zim io pid n src dir strategy fs = (states, res)"
  shows "states \<noteq> []"
    and "fs' \<in> set states \<Longrightarrow> \<not> tmp_like q \<Longrightarrow> q \<noteq> dir @ [last src] \<Longrightarrow> fs' q = fs q"
    and "res = Ok dst \<Longrightarrow> dst = dir @ [last src] \<and> src \<noteq> [] \<and> last src \<noteq> ''..''"
proof -
  define tmp where "tmp = dir @ [tmp_name pid n (last src)]"
  define cleaned where "cleaned = remove_stale_tmps io dir tmp (io_listing io) fs"
  obtain placed r where pl: "place io strategy src tmp (last cleaned) = (placed, r)" by fastforce
  note d = assms [unfolded install_zim_def Let_def, folded tmp_def, folded cleaned_def, unfolded pl prod.case]
  have ne: "cleaned \<noteq> []" "placed \<noteq> []" using place_frame(1) [OF pl] by (simp_all add: cleaned_def)
  have tl: "tmp_like tmp" unfolding tmp_def by (rule tmp_name_tmp_like)
  have cl: "g q = fs q" if "g \<in> set cleaned" "\<not> tmp_like q" for g q
    using remove_stale_tmps_frame that unfolding cleaned_def by blast
  have pf: "g q = fs q" if "g \<in> set placed" "\<not> tmp_like q" for g q
    using place_frame(2) [OF pl that(1), of q] cl [of "last cleaned" q] that(2) tl ne by (cases "q = tmp") auto
  have lp: "last placed q = fs q" if "\<not> tmp_like q" for q using pf ne that by simp
  have rf: "g q = fs q" if "rename io tmp (dir @ [last src]) (last placed) = (g, x)" "\<not> tmp_like q" "q \<noteq> dir @ [last src]" for g x q
    using that lp [of q] tl by (cases "q = tmp") (auto simp: rename_def split: option.splits if_splits)
  have rm: "remove_file io tmp (last placed) q = fs q" if "\<not> tmp_like q" for q
    using lp [OF that] that tl by (cases "q = tmp") (auto simp: remove_file_def)
  show "states \<noteq> []" using d ne by (auto split: if_splits sum.splits prod.splits)
  show "fs' q = fs q" if "fs' \<in> set states" "\<not> tmp_like q" "q \<noteq> dir @ [last src]"
    using d that cl pf rf rm by (auto split: if_splits sum.splits prod.splits)
  show "dst = dir @ [last src] \<and> src \<noteq> [] \<and> last src \<noteq> ''..''" if "res = Ok dst"
    using d that by (auto split: if_splits sum.splits prod.splits)
qed

lemma walk_zim:
  "(\<forall>p\<in>set out. is_zim_path p) \<Longrightarrow> \<forall>p\<in>set (walk dir depth max_depth cap node out). is_zim_path p"
  "(\<forall>p\<in>set out. is_zim_path p) \<Longrightarrow> \<forall>p\<in>set (walk_entries dir depth max_depth cap ens out). is_zim_path p"
proof (induction dir depth max_depth cap node out and dir depth max_depth cap ens out rule: walk_walk_entries.induct)
  case (1 dir depth max_depth cap node out)
  note IH = "1.IH" and out = "1.prems"
  have "walk dir depth max_depth cap node out = out
    \<or> (\<exists>ens. node = Dir (Some ens) \<and> \<not> (cap \<le> length out \<or> max_depth < depth)
         \<and> walk dir depth max_depth cap node out = walk_entries dir depth max_depth cap ens out)"
    unfolding walk.simps [of dir depth max_depth cap node out] by (simp split: fs_node.split option.split)
  then show ?case
  proof (elim disjE exE conjE)
    assume "walk dir depth max_depth cap node out = out"
    then show ?thesis using out by simp
  next
    fix ens assume e: "node = Dir (Some ens)" "\<not> (cap \<le> length out \<or> max_depth < depth)"
      "walk dir depth max_depth cap node out = walk_entries dir depth max_depth cap ens out"
    show ?thesis unfolding e(3) by (rule IH [OF e(2) e(1) _ out]) simp
  qed
next
  case (3 dir depth max_depth cap name node ens out)
  show ?case
  proof (cases "cap \<le> length out")
    case False
    define out' where "out' = (case node of Dir _ \<Rightarrow> walk (dir @ [name]) (depth + 1) max_depth cap node out
        | Leaf \<Rightarrow> if is_zim_path (dir @ [name]) then out @ [dir @ [name]] else out)"
    have "\<forall>p\<in>set out'. is_zim_path p"
    proof (cases node)
      case Leaf
      then show ?thesis using "3.prems" by (simp add: out'_def)
    next
      case (Dir d)
      show ?thesis using "3.IH"(1) [OF False Dir "3.prems"] by (simp only: out'_def Dir fs_node.case)
    qed
    from "3.IH"(2) [OF False, folded out'_def, OF this] show ?thesis
      using False by (simp only: walk_entries.simps out'_def if_False)
  qed (use "3.prems" in simp)
qed simp

lemma locate_zim: "locate E k t = Ok z \<Longrightarrow> is_zim_path z"
proof -
  have "\<forall>p\<in>set (find_zim_files d node n). is_zim_path p" for d node n
    using walk_zim(1) [of "[]" d 0 8 n node] by (simp add: find_zim_files_def)
  then have found: "is_zim_path p" if "find_zim_files d node n = [p]" for d node n p using that by (metis list.set_intros(1))
  assume "locate E k t = Ok z"
  then show ?thesis
    unfolding locate_def locate_torrent_zim_def Let_def
    by (auto split: content.splits if_splits list.splits intro: found)
qed

lemma cap_ratio_frame [simp]:
  "ls_fs (cap_ratio P E p qbit t s) = ls_fs s" "ls_zims (cap_ratio P E p qbit t s) = ls_zims s"
  by (auto simp: cap_ratio_def split: option.splits)

lemma install_fresh_frame:
  assumes "install_fresh E p t s = (r, s')"
  shows "\<not> tmp_like q \<Longrightarrow> (\<And>z. locate E 1 t = Ok z \<Longrightarrow> q \<noteq> zim_dir_of s @ [last z]) \<Longrightarrow> ls_fs s' q = ls_fs s q"
    and "r = Ok dst \<Longrightarrow> \<exists>z. locate E 1 t = Ok z \<and> dst = (path_display (zim_dir_of s @ [last z]), zim_dir_of s @ [last z])"
    and "ls_zims s' = ls_zims s" and "ls_poll s' = ls_poll s"
proof -
  have "(\<not> tmp_like q \<longrightarrow> (\<forall>z. locate E 1 t = Ok z \<longrightarrow> q \<noteq> zim_dir_of s @ [last z]) \<longrightarrow> ls_fs s' q = ls_fs s q)
    \<and> (\<forall>dst. r = Ok dst \<longrightarrow> (\<exists>z. locate E 1 t = Ok z \<and> dst = (path_display (zim_dir_of s @ [last z]), zim_dir_of s @ [last z])))
    \<and> ls_zims s' = ls_zims s \<and> ls_poll s' = ls_poll s"
  proof (cases "locate E 1 t")
    case (Inr z)
    obtain states res where st: "(case ce_verify E (map_option f_content (ls_fs s z)) of
          Inl e \<Rightarrow> ([ls_fs s], Err e)
        | Inr _ \<Rightarrow> install_zim (ce_io E) (ce_pid E) (ce_seq E) z (zim_dir_of s) (pp_file_strategy p) (ls_fs s)) = (states, res)"
      by fastforce
    have ne: "states \<noteq> []" and dst: "res = Ok d \<Longrightarrow> d = zim_dir_of s @ [last z]" for d
      using st install_zim_frame(1,3) by (fastforce split: sum.splits)+
    have fr: "g q = ls_fs s q" if "g \<in> set states" "\<not> tmp_like q" "q \<noteq> zim_dir_of s @ [last z]" for g
      using st install_zim_frame(2) that by (fastforce split: sum.splits)
    have lst: "last states \<in> set states" "last (ls_fs s # take k states) \<in> set (ls_fs s # states)" for k
      using ne last_in_set [of "ls_fs s # take k states"] set_take_subset [of k states] by (auto simp: subset_iff)
    note e = assms [unfolded install_fresh_def Inr sum.case st Let_def prod.case]
    show ?thesis
    proof (cases "ce_install_died E")
      case None
      then show ?thesis using e fr [OF lst(1)] dst Inr by (auto split: sum.splits)
    next
      case (Some x)
      obtain m k where x: "x = (m, k)" by fastforce
      have s': "r = Err (Internal (''install task failed: '' @ m))" "s' = s\<lparr>ls_fs := last (ls_fs s # take k states)\<rparr>"
        using e Some x by simp_all
      show ?thesis using s' lst(2) [of k] fr Inr by auto
    qed
  qed (use assms in \<open>auto simp: install_fresh_def\<close>)
  then show "\<not> tmp_like q \<Longrightarrow> (\<And>z. locate E 1 t = Ok z \<Longrightarrow> q \<noteq> zim_dir_of s @ [last z]) \<Longrightarrow> ls_fs s' q = ls_fs s q"
    "r = Ok dst \<Longrightarrow> \<exists>z. locate E 1 t = Ok z \<and> dst = (path_display (zim_dir_of s @ [last z]), zim_dir_of s @ [last z])"
    "ls_zims s' = ls_zims s" "ls_poll s' = ls_poll s"
    by blast+
qed

lemma settle_complete_frame:
  "settle_complete P E p qbit i t text s = (r, s') \<Longrightarrow> ls_fs s' = ls_fs s"
  by (auto simp: settle_complete_def Let_def dest!: lib_stmt_frame split: prod.splits sum.splits)

lemma observe_digest_frame [simp]: "ls_fs (observe_digest P E i hash dst digest s) = ls_fs s"
  by (auto simp: observe_digest_def Let_def dest!: lib_stmt_frame split: prod.splits)

lemma record_provenance_frame:
  "record_provenance P E i t skipped dst s = (r, s') \<Longrightarrow> ls_fs s' = ls_fs s"
  by (auto simp: record_provenance_def dest!: lib_stmt_frame split: prod.splits sum.splits if_splits option.splits)

lemma drop_completed_frame [simp]: "ls_fs (drop_completed P p qbit t s) = ls_fs s"
  by (auto simp: drop_completed_def split: option.splits prod.splits sum.splits)

lemma spawn_index_frame [simp]: "ls_fs (spawn_index dst s) = ls_fs s"
  by (auto simp: spawn_index_def split: option.splits)

lemma lib_discard_frame: "q \<noteq> snd dst \<Longrightarrow> ls_fs (lib_discard_if_unowned P E i dst s) q = ls_fs s q"
  by (auto simp: lib_discard_if_unowned_def Let_def remove_file_def dest!: lib_stmt_frame split: prod.splits sum.splits option.splits)

lemma complete_installed_frame:
  assumes "complete_installed P E p qbit i t skipped dst s = (r, s')"
  shows "q \<noteq> snd dst \<or> skipped \<Longrightarrow> ls_fs s' q = ls_fs s q"
  using assms
  by (auto simp: complete_installed_def lib_discard_frame dest!: settle_complete_frame record_provenance_frame
      split: prod.splits sum.splits if_splits)

lemma complete_installed_zim_dir:
  assumes "install_guards P i name dst s = (r, s')"
  shows "ls_fs s' = ls_fs s" "ls_zims s' = ls_zims s"
  using assms by (auto simp: install_guards_def dest!: lib_stmt_frame split: prod.splits sum.splits option.splits)

text \<open>The table as the first and the second of the next statements see it, when neither changes it.\<close>

primrec seen_db :: "'w poller \<Rightarrow> nat \<Rightarrow> ('w, 'h) lib_state \<Rightarrow> downloads" where
  "seen_db P 0 s = db_env.de_between (po_db P) (ps_stmt (ls_poll s)) (ps_db (ls_poll s))"
| "seen_db P (Suc k) s = db_env.de_between (po_db P) (ps_stmt (ls_poll s) + Suc k) (seen_db P k s)"

definition owns :: "int \<Rightarrow> string \<Rightarrow> download_row \<Rightarrow> bool" where
  "owns i text r \<longleftrightarrow> is_live r \<and> d_id r \<noteq> i \<and> d_file_path r = Some text"

lemma find_live_row_owns_path_None:
  "find_live_row_owns_path db text i = None \<longleftrightarrow> \<not> (\<exists>r\<in>set (rows db). owns i text r)"
  by (auto simp: find_live_row_owns_path_def owns_def find_None_iff)

lemma install_guards_pass:
  assumes "install_guards P i name dst s = (Ok None, s')"
  shows "\<not> (\<exists>r\<in>set (rows (seen_db P 0 s)). is_live r \<and> d_id r \<noteq> i \<and> d_name r = name)"
    and "dst = Some (text, q) \<Longrightarrow> \<not> (\<exists>r\<in>set (rows (seen_db P 1 s)). owns i text r)"
proof -
  let ?D = "po_db P" and ?n = "ps_stmt (ls_poll s)"
  have s1: "lib_stmt P (select g) s = (a, v) \<Longrightarrow>
      (case db_env.de_fault ?D ?n of Some e \<Rightarrow> a = Err e | None \<Rightarrow> a = Ok (g (seen_db P 0 s)))
      \<and> ps_db (ls_poll v) = seen_db P 0 s \<and> ps_stmt (ls_poll v) = ?n + 1" for g :: "downloads \<Rightarrow> int option" and a v
    by (auto simp: lib_stmt_def stmt_def select_def Let_def split: prod.splits option.splits)
  note d = assms [unfolded install_guards_def]
  obtain a v where av: "lib_stmt P (select (\<lambda>db. find_same_name_live_row db name i)) s = (a, v)" by fastforce
  have a: "a = Ok None" using d av by (auto split: sum.splits option.splits)
  have "find_same_name_live_row (seen_db P 0 s) name i = None" using s1 [OF av] a by (auto split: option.splits)
  then show "\<not> (\<exists>r\<in>set (rows (seen_db P 0 s)). is_live r \<and> d_id r \<noteq> i \<and> d_name r = name)"
    by (auto simp: find_same_name_live_row_def find_None_iff)
  assume dst: "dst = Some (text, q)"
  have "find_live_row_owns_path (seen_db P 1 s) text i = None"
    using d s1 [OF av] av a dst
    by (auto simp: lib_stmt_def [of P _ v] stmt_def select_def Let_def split: prod.splits option.splits sum.splits)
  then show "\<not> (\<exists>r\<in>set (rows (seen_db P 1 s)). owns i text r)" by (simp add: find_live_row_owns_path_None)
qed

lemma handle_complete_frame:
  assumes "handle_complete P E p qbit i name t file_path s = (r, s')" and "\<not> tmp_like q"
    and "\<And>z. locate E 1 t = Ok z \<Longrightarrow> q \<noteq> zim_dir_of s @ [last z]"
  shows "ls_fs s' q = ls_fs s q"
proof -
  let ?sk = "has_file file_path s"
  obtain g v where g: "install_guards P i name (expected_dst E ?sk file_path t s) s = (g, v)" by fastforce
  note gf = complete_installed_zim_dir [OF g]
  note d = assms(1) [unfolded handle_complete_def Let_def g prod.case]
  show ?thesis
  proof (cases "g = Ok None \<and> \<not> ?sk")
    case True
    obtain x u where x: "install_fresh E p t (cap_ratio P E p qbit t v) = (x, u)" by fastforce
    have u: "ls_fs u q = ls_fs s q" using install_fresh_frame(1) [OF x assms(2)] assms(3) gf by simp
    show ?thesis
    proof (cases x)
      case (Inl e)
      then show ?thesis using d True x u by simp
    next
      case (Inr dst)
      have "q \<noteq> snd dst" using install_fresh_frame(2) [OF x Inr] assms(3) gf by auto
      then show ?thesis using d True x u Inr complete_installed_frame by fastforce
    qed
  next
    case False
    then show ?thesis using d gf
      by (auto simp: lib_failed_def complete_installed_frame split: sum.splits option.splits)
  qed
qed


section \<open>An undisturbed completion\<close>

abbreviation lib_db :: "('w, 'h) lib_state \<Rightarrow> downloads" where
  "lib_db s \<equiv> ps_db (ls_poll s)"

text \<open>No statement fails and no other task touches the table.\<close>

definition quiet_poll :: "'w poller \<Rightarrow> bool" where
  "quiet_poll P \<longleftrightarrow> (\<forall>n. db_env.de_fault (po_db P) n = None \<and> db_env.de_between (po_db P) n = id)"

lemma quiet_lib_stmt:
  assumes "quiet_poll P"
  defines "now s \<equiv> db_env.de_now (po_db P) (ps_stmt (ls_poll s))"
  shows "lib_stmt P f s = (fst (f None (now s) (lib_db s)),
    s\<lparr>ls_poll := (ls_poll s)\<lparr>ps_db := snd (f None (now s) (lib_db s)), ps_stmt := ps_stmt (ls_poll s) + 1\<rparr>\<rparr>)"
  using assms by (simp add: lib_stmt_def stmt_def quiet_poll_def Let_def split: prod.split)

lemma select_quiet [simp]: "select f None now db = (Ok (f db), db)"
  by (simp add: select_def)

definition settled_as :: "download_status \<Rightarrow> string \<Rightarrow> download_row \<Rightarrow> bool" where
  "settled_as st text r \<longleftrightarrow> has_status r st \<and> d_file_path r = Some text \<and> d_progress r = 1 \<and> d_error r = None"

lemma mark_complete_row:
  assumes "unique_conflict (rows db) = None" "row_by_id db i = Some row" "d_status row \<in> set (map as_str completion_guard_statuses)"
    and "st \<in> {Complete, Seeding}"
  shows "\<exists>n db' row'. mark_complete None now i text st ratio up seeds db = (Ok (Suc n), db')
    \<and> unique_conflict (rows db') = None \<and> row_by_id db' i = Some row' \<and> settled_as st text row'"
proof -
  let ?g = "\<lambda>r. d_id r = i \<and> d_status r \<in> set (map as_str completion_guard_statuses)"
  define change :: "download_row \<Rightarrow> download_row" where "change = (\<lambda>r. if st = Seeding
      then r\<lparr>d_status := as_str Seeding, d_progress := 1, d_file_path := Some text,
             d_ratio := ratio, d_up_speed_bps := up, d_num_seeds := seeds, d_error := None, d_updated_at := now\<rparr>
      else r\<lparr>d_status := as_str Complete, d_progress := 1, d_file_path := Some text,
             d_ratio := None, d_up_speed_bps := None, d_num_seeds := None, d_error := None, d_updated_at := now\<rparr>)"
  have e: "mark_complete None now i text st ratio up seeds db = sql_update None ?g change db"
    by (cases "st = Seeding") (simp_all add: mark_complete_def change_def)
  have g: "?g row" using assms(3) row_by_id_SomeD [OF assms(2)] by simp
  have keep: "d_id (change r) = d_id r \<and> d_url (change r) = d_url r \<and> d_name (change r) = d_name r"
    "\<not> is_active (change r)" for r
    by (simp_all add: change_def is_active_def)
  have act: "?g r \<Longrightarrow> is_active (change r) \<Longrightarrow> is_active r" for r using keep(2) by blast
  have gi: "?g r \<Longrightarrow> d_id r = i" for r by blast
  note u = row_update [OF assms(1,2), of ?g change, OF gi g keep(1) act]
  obtain x db' where x: "sql_update None ?g change db = (x, db')" by fastforce
  obtain n where "x = Ok (Suc n)" using u(1) x by auto
  moreover have "row_by_id db' i = Some (change row)" "unique_conflict (rows db') = None" using u(2,3) x by simp_all
  moreover have "settled_as st text (change row)" using assms(4) by (auto simp: settled_as_def change_def)
  ultimately show ?thesis unfolding e x by blast
qed

lemma record_observed_row:
  assumes "unique_conflict (rows db) = None" "row_by_id db i = Some row" "settled_as st text row" "st \<in> {Complete, Seeding}"
  shows "row_by_id (snd (record_observed_digest None now i digest db)) i = Some (row\<lparr>d_sha256 := Some digest, d_updated_at := now\<rparr>)"
proof -
  let ?g = "\<lambda>r. d_id r = i \<and> (has_status r Complete \<or> has_status r Seeding)"
  let ?c = "\<lambda>r. r\<lparr>d_sha256 := Some digest, d_updated_at := now\<rparr>"
  have g: "?g row" using assms(3,4) row_by_id_SomeD [OF assms(2)] by (auto simp: settled_as_def)
  show ?thesis unfolding record_observed_digest_def
    by (rule row_update(2) [OF assms(1,2), of ?g ?c, OF _ g]) (auto simp: is_active_def)
qed

lemma zim_file_stem:
  assumes "is_zim_path z"
  obtains stem where "file_stem (last z) = Some stem" "stem \<noteq> []" "z \<noteq> []" "last z \<noteq> ''..''"
proof -
  obtain b a where "rsplit_once CHR ''.'' (last z) = Some (b, a)" "b \<noteq> []"
    using assms by (fastforce simp: is_zim_path_def extension_def split: option.splits if_splits)
  moreover have "last z \<noteq> []" using assms by (auto simp: is_zim_path_def extension_def rsplit_once_def split: option.splits)
  ultimately show ?thesis using assms that by (auto simp: file_stem_def is_zim_path_def)
qed

lemma complete_installed_quiet:
  assumes "quiet_poll P" "unique_conflict (rows (lib_db s)) = None" "row_by_id (lib_db s) i = Some row"
    and "d_status row \<in> set (map as_str completion_guard_statuses)"
    and rs: "resync (ce_zims E 0) (ls_zims s) = (Ok report, m)"
    and f: "ls_fs s (snd dst) = Some f" and io: "ce_digest_died E = None" "ce_read E = None"
    and stem: "file_stem (last (snd dst)) = Some stem" "stem \<noteq> []"
  shows "\<exists>s' row'. complete_installed P E p qbit i t False dst s = (Ok (), s') \<and> ls_fs s' = ls_fs s
    \<and> row_by_id (lib_db s') i = Some row' \<and> settled_as (if pp_keep_completed p \<and> qbit \<noteq> None then Seeding else Complete) (fst dst) row'
    \<and> d_sha256 row' = Some (ce_sha256 E (f_content f)) \<and> ls_indexing s' = ls_indexing s @ [stem]
    \<and> (\<exists>drift. ls_zims s' = snd (manager_set_content_sha256 (ce_zims E 1) stem (ce_sha256 E (f_content f)) None drift m))"
proof -
  define K where "K = (pp_keep_completed p \<and> qbit \<noteq> None)"
  let ?st = "if K then Seeding else Complete"
  let ?s0 = "s\<lparr>ls_zims := m\<rparr>"
  let ?now = "db_env.de_now (po_db P) (ps_stmt (ls_poll s))"
  have st: "?st \<in> {Complete, Seeding}" by simp
  obtain n db' row1 where mc: "mark_complete None ?now i (fst dst) ?st
        (if K then Some (ce_f32 E (t_ratio t)) else None)
        (if K then Some (kibs_to_bps (t_upspeed t)) else None)
        (if K then Some (t_num_seeds t) else None) (lib_db s) = (Ok (Suc n), db')"
    and r1: "unique_conflict (rows db') = None" "row_by_id db' i = Some row1" "settled_as ?st (fst dst) row1"
    using mark_complete_row [OF assms(2,3,4) st] by blast
  define s1 where "s1 = ?s0\<lparr>ls_poll := (ls_poll s)\<lparr>ps_db := db', ps_stmt := ps_stmt (ls_poll s) + 1\<rparr>\<rparr>"
  have se: "settle_complete P E p qbit i t (fst dst) ?s0 = (Ok (Suc n), s1)"
    unfolding settle_complete_def Let_def quiet_lib_stmt [OF assms(1)] s1_def K_def [symmetric] using mc by simp
  define digest where "digest = ce_sha256 E (f_content f)"
  define s2 where "s2 = snd (lib_stmt P (select (\<lambda>db. claim_digest db i)) s1)"
  have s2: "ls_fs s2 = ls_fs s" "ls_zims s2 = m" "ls_indexing s2 = ls_indexing s" "lib_db s2 = db'"
    unfolding s2_def quiet_lib_stmt [OF assms(1)] by (simp_all add: s1_def)
  have rp: "record_provenance P E i t False (snd dst) s1 = (Ok (), observe_digest P E i (t_hash t) (snd dst) digest s2)"
    using f io s2(1) unfolding record_provenance_def
    by (simp add: quiet_lib_stmt [OF assms(1)] s2_def digest_of_def digest_def)
  define s3 where "s3 = observe_digest P E i (t_hash t) (snd dst) digest s2"
  have row2: "row_by_id (snd (record_observed_digest None x i digest db')) i = Some (row1\<lparr>d_sha256 := Some digest, d_updated_at := x\<rparr>)" for x
    by (rule record_observed_row [OF r1 st])
  have s3: "ls_fs s3 = ls_fs s" "ls_indexing s3 = ls_indexing s" "\<exists>x. lib_db s3 = snd (record_observed_digest None x i digest db')"
    "\<exists>drift. ls_zims s3 = snd (manager_set_content_sha256 (ce_zims E 1) stem digest None drift m)"
    using stem s2 unfolding s3_def observe_digest_def by (auto simp: quiet_lib_stmt [OF assms(1)] Let_def)
  define s4 where "s4 = spawn_index (snd dst) (drop_completed P p qbit t s3)"
  have d4: "ls_indexing (drop_completed P p qbit t s3) = ls_indexing s3" "ls_zims (drop_completed P p qbit t s3) = ls_zims s3"
    "lib_db (drop_completed P p qbit t s3) = lib_db s3"
    by (auto simp: drop_completed_def split: option.splits prod.splits sum.splits)
  have "complete_installed P E p qbit i t False dst s = (Ok (), s4)"
    unfolding complete_installed_def rs prod.case sum.case se using rp by (simp add: s3_def s4_def)
  moreover have "ls_fs s4 = ls_fs s" "ls_indexing s4 = ls_indexing s @ [stem]" "ls_zims s4 = ls_zims s3" "lib_db s4 = lib_db s3"
    using stem s3 d4 by (simp_all add: s4_def spawn_index_def)
  moreover have "settled_as ?st (fst dst) (row1\<lparr>d_sha256 := Some digest, d_updated_at := x\<rparr>)" for x
    using r1(3) by (simp add: settled_as_def)
  ultimately show ?thesis unfolding K_def [symmetric] using row2 s3(3,4) by (fastforce simp: digest_def)
qed

lemma quiet_guards:
  assumes "quiet_poll P" "find_same_name_live_row (lib_db s) name i = None"
    and "\<And>text q. dst = Some (text, q) \<Longrightarrow> find_live_row_owns_path (lib_db s) text i = None"
  shows "\<exists>n. install_guards P i name dst s = (Ok None, s\<lparr>ls_poll := (ls_poll s)\<lparr>ps_stmt := n\<rparr>\<rparr>)"
  using assms by (auto simp: install_guards_def quiet_lib_stmt [OF assms(1)] split: option.split)

lemma install_fresh_quiet:
  assumes "locate E 1 t = Ok z" "ce_verify E (map_option f_content (ls_fs s z)) = Ok ()" "ce_install_died E = None"
    and "install_zim (ce_io E) (ce_pid E) (ce_seq E) z (zim_dir_of s) (pp_file_strategy p) (ls_fs s) = (states, Ok dst)"
  shows "install_fresh E p t s = (Ok (path_display dst, dst), s\<lparr>ls_fs := last states\<rparr>)"
  using assms by (simp add: install_fresh_def)

text \<open>
  A finished torrent whose archive is sound is installed and settled: when no statement fails, no other task changes
  the table and no live row has its name or destination, the destination holds exactly the torrent's archive,
  the row is complete (or seeding, when torrents are kept) with the destination and the digest of those
  bytes, the archive's record carries the digest, and indexing is started.
\<close>

theorem completion_installs:
  assumes q: "quiet_poll P" and uc: "unique_conflict (rows (lib_db s)) = None" and row: "row_by_id (lib_db s) i = Some row"
    and st: "d_status row \<in> {as_str Downloading, as_str Complete}"
    and nm: "find_same_name_live_row (lib_db s) name i = None"
    and ow: "find_live_row_owns_path (lib_db s) (path_display (zim_dir_of s @ [last z])) i = None"
    and nf: "\<not> has_file file_path s" and z: "locate E 0 t = Ok z" "ce_content E 1 = ce_content E 0"
    and f: "ls_fs s z = Some f" "inodes_ok (ce_io E) (ls_fs s)" "\<not> str_contains (last z) ''.zim.tmp-''"
    and ok: "ce_verify E (Some (f_content f)) = Ok ()" "ce_install_died E = None" "ce_digest_died E = None" "ce_read E = None"
    and ins: "install_zim (ce_io E) (ce_pid E) (ce_seq E) z (zim_dir_of s) (pp_file_strategy p) (ls_fs s) = (states, Ok d)"
    and rs: "resync (ce_zims E 0) (ls_zims s) = (Ok report, m)"
    and zi: "ze_fault (ce_zims E 1) ''integrity'' = (\<lambda>_. None)" "ze_others (ce_zims E 1) ''integrity'' = (\<lambda>_ s. s)"
  shows "\<exists>s' row' stem. handle_complete P E p qbit i name t file_path s = (Ok (), s')
    \<and> d = zim_dir_of s @ [last z] \<and> map_option f_content (ls_fs s' d) = Some (f_content f)
    \<and> row_by_id (lib_db s') i = Some row'
    \<and> settled_as (if pp_keep_completed p \<and> qbit \<noteq> None then Seeding else Complete) (path_display d) row'
    \<and> d_sha256 row' = Some (ce_sha256 E (f_content f))
    \<and> file_stem (last z) = Some stem \<and> ls_indexing s' = ls_indexing s @ [stem]
    \<and> map_option zr_content_sha256 (mg_zims (ls_zims s') stem)
        = map_option (\<lambda>_. Some (ce_sha256 E (f_content f))) (mg_zims m stem)"
proof -
  obtain stem where stem: "file_stem (last z) = Some stem" "stem \<noteq> []" "z \<noteq> []" "last z \<noteq> ''..''"
    by (rule zim_file_stem [OF locate_zim [OF z(1)]])
  have d: "d = zim_dir_of s @ [last z]" using install_zim_frame(3) [OF ins] by simp
  have content: "map_option f_content (last states d) = Some (f_content f)"
    using install_outcome [OF ins stem(3,4) f, of d] by auto
  then obtain g where g: "last states d = Some g" "f_content g = f_content f" by auto
  have ex: "expected_dst E (has_file file_path s) file_path t s = Some (path_display d, d)"
    using nf z(1) stem(3,4) by (simp add: expected_dst_def d Let_def)
  obtain n where gd: "install_guards P i name (Some (path_display d, d)) s = (Ok None, s\<lparr>ls_poll := (ls_poll s)\<lparr>ps_stmt := n\<rparr>\<rparr>)"
    using quiet_guards [OF q nm, of "Some (path_display d, d)"] ow d by auto
  define s1 where "s1 = cap_ratio P E p qbit t (s\<lparr>ls_poll := (ls_poll s)\<lparr>ps_stmt := n\<rparr>\<rparr>)"
  have s1: "ls_fs s1 = ls_fs s" "ls_zims s1 = ls_zims s" "lib_db s1 = lib_db s" "ls_indexing s1 = ls_indexing s"
    by (auto simp: s1_def cap_ratio_def split: option.split)
  have z1: "locate E 1 t = Ok z" using z by (simp add: locate_def)
  have fr: "install_fresh E p t s1 = (Ok (path_display d, d), s1\<lparr>ls_fs := last states\<rparr>)"
    by (rule install_fresh_quiet [OF z1]) (simp_all add: s1 f(1) ok ins)
  let ?s2 = "s1\<lparr>ls_fs := last states\<rparr>"
  have "d_status row \<in> set (map as_str completion_guard_statuses)" using st by (auto simp: completion_guard_statuses_def)
  then obtain s' row' where s': "complete_installed P E p qbit i t False (path_display d, d) ?s2 = (Ok (), s')" "ls_fs s' = last states"
    "row_by_id (lib_db s') i = Some row'"
    "settled_as (if pp_keep_completed p \<and> qbit \<noteq> None then Seeding else Complete) (path_display d) row'"
    "d_sha256 row' = Some (ce_sha256 E (f_content f))" "ls_indexing s' = ls_indexing s @ [stem]"
    "\<exists>drift. ls_zims s' = snd (manager_set_content_sha256 (ce_zims E 1) stem (ce_sha256 E (f_content f)) None drift m)"
    using complete_installed_quiet [OF q, of ?s2 i row E report m "(path_display d, d)" g stem p qbit t] uc row rs ok g stem d
    by (auto simp: s1)
  have "handle_complete P E p qbit i name t file_path s = (Ok (), s')"
    unfolding handle_complete_def Let_def ex gd prod.case sum.case option.case using nf fr s'(1) by (simp add: s1_def)
  moreover have "map_option zr_content_sha256 (mg_zims (ls_zims s') stem) = map_option (\<lambda>_. Some (ce_sha256 E (f_content f))) (mg_zims m stem)"
    using s'(7) zi by (auto simp: manager_set_content_sha256_def Let_def split: option.split)
  ultimately show ?thesis using s' content d stem(1) by auto
qed

section \<open>Witnesses\<close>

definition sample_zims :: "nat \<Rightarrow> unit zim_env" where
  "sample_zims = (\<lambda>_. \<lparr>ze_exists = False, ze_dir = \<lparr>di_exists = False, di_read_dir = Ok []\<rparr>, ze_task_died = None, ze_restat = (\<lambda>_. None),
     ze_order = sorted_list_of_fset, ze_fault = (\<lambda>_ _. None), ze_others = (\<lambda>_ _ s. s), ze_parse_date = Some, ze_real = id\<rparr>)"

definition sample_complete_env :: "unit complete_env" where
  "sample_complete_env = \<lparr>ce_content = (\<lambda>_. Regular_file), ce_io = sample_io, ce_pid = 7, ce_seq = 0, ce_verify = (\<lambda>_. Ok ()),
     ce_install_died = None, ce_digest_died = None, ce_read = None, ce_sha256 = rev, ce_zims = sample_zims,
     ce_f32 = (\<lambda>_. 0), ce_ratio_text = (\<lambda>_. [])\<rparr>"

definition sample_torrent :: torrent_info where
  "sample_torrent = \<lparr>t_hash = ''h'', t_name = ''wiki'', t_progress = Num 1, t_state = ''uploading'', t_dlspeed = 0, t_upspeed = 0,
     t_ratio = Num 0, t_category = None, t_save_path = None, t_content_path = Some ''t/a.zim'', t_size = 3, t_downloaded = 3,
     t_num_seeds = 0, t_err_str = None\<rparr>"

definition sample_lib :: "downloads \<Rightarrow> (unit, unit) lib_state" where
  "sample_lib db = \<lparr>ls_poll = idle_state db, ls_fs = sample_fs, ls_zims = zim_manager_new [''data''] Map.empty 0, ls_indexing = []\<rparr>"

definition owner_row :: download_row where
  "owner_row = (default_row 0 ''other'' ''magnet:y'' (as_str Complete) 2)\<lparr>d_file_path := Some ''data/a.zim''\<rparr>"

definition owned_db :: downloads where
  "owned_db = \<lparr>rows = [default_row 0 ''wiki'' ''magnet:x'' (as_str Downloading) 1, owner_row], next_id = 3\<rparr>"

lemma sample_locate: "locate sample_complete_env k sample_torrent = Ok [''t'', ''a.zim'']"
  by (simp add: locate_def sample_complete_env_def sample_torrent_def content_text_def path_of_def locate_torrent_zim_def
      is_zim_path_def extension_def rsplit_once_def eq_ignore_ascii_case_def to_ascii_lowercase_def lower_char_def ascii_def)


theorem completion_installs_witness:
  "\<exists>s'. handle_complete idle_poller sample_complete_env idle_params None 1 ''wiki'' sample_torrent None (sample_lib (one_row Downloading)) = (Ok (), s')
     \<and> map_option f_content (ls_fs s' [''data'', ''a.zim'']) = Some ''new'' \<and> ls_indexing s' = [''a'']"
proof -
  let ?s = "sample_lib (one_row Downloading)"
  let ?run = "install_zim sample_io 7 0 [''t'', ''a.zim''] [''data''] ''hardlink'' sample_fs"
  have "tmp_name 7 0 ''a.zim'' \<noteq> ''a.zim''"
    using tmp_name_tmp_like [of "[]" 7 0 "''a.zim''"] by (auto simp: tmp_like_def starts_with_def)
  then have "snd ?run = Ok [''data'', ''a.zim'']"
    by (simp add: install_zim_def place_def hard_link_def rename_def sample_io_def sample_fs_def Let_def)
  then have ins: "?run = (fst ?run, Ok [''data'', ''a.zim''])" by (metis prod.collapse)
  have rs: "resync (sample_zims 0) (ls_zims ?s) = (Ok [], ls_zims ?s)"
    by (simp add: resync_def sample_zims_def)
  have ok: "inodes_ok sample_io sample_fs" by (auto simp: inodes_ok_def sample_fs_def sample_io_def split: if_splits)
  have row: "row_by_id (one_row Downloading) 1 = Some (default_row 0 ''wiki'' ''magnet:x'' (as_str Downloading) 1)" by (rule one_row_lookup)
  have stem: "file_stem ''a.zim'' = Some ''a''" by (simp add: file_stem_def rsplit_once_def)
  have "\<exists>s' row' stem. handle_complete idle_poller sample_complete_env idle_params None 1 ''wiki'' sample_torrent None ?s = (Ok (), s')
    \<and> [''data'', ''a.zim''] = zim_dir_of ?s @ [last [''t'', ''a.zim'']] \<and> map_option f_content (ls_fs s' [''data'', ''a.zim'']) = Some ''new''
    \<and> row_by_id (lib_db s') 1 = Some row'
    \<and> settled_as (if pp_keep_completed idle_params \<and> (None :: qbit_client option) \<noteq> None then Seeding else Complete) (path_display [''data'', ''a.zim'']) row'
    \<and> d_sha256 row' = Some (ce_sha256 sample_complete_env ''new'')
    \<and> file_stem (last [''t'', ''a.zim'']) = Some stem \<and> ls_indexing s' = ls_indexing ?s @ [stem]
    \<and> map_option zr_content_sha256 (mg_zims (ls_zims s') stem)
        = map_option (\<lambda>_. Some (ce_sha256 sample_complete_env ''new'')) (mg_zims (ls_zims ?s) stem)"
    using completion_installs [where P = idle_poller and s = ?s and i = 1 and z = "[''t'', ''a.zim'']" and E = sample_complete_env
        and t = sample_torrent and name = "''wiki''" and file_path = None and f = "\<lparr>f_inode = 1, f_content = ''new'', f_mtime = 0\<rparr>"
        and p = idle_params and qbit = None and d = "[''data'', ''a.zim'']" and states = "fst ?run" and report = "[]" and m = "ls_zims ?s"
        and row = "default_row 0 ''wiki'' ''magnet:x'' (as_str Downloading) 1"]
      sample_locate ok row rs ins
    by (simp add: quiet_poll_def idle_poller_def sample_lib_def idle_state_def one_row_def default_row_def unique_conflict_def
        active_urls_def active_names_def find_same_name_live_row_def find_live_row_owns_path_def has_file_def
        sample_complete_env_def sample_fs_def idle_params_def zim_manager_new_def sample_zims_def starts_with_def id_def)
  then show ?thesis using stem by (auto simp: sample_lib_def)
qed

end
