(* ===== verification/Poller.thy ===== *)
theory Poller
  imports Completion Opds
begin

text \<open>
  The rest of the download poller: the in-flight rows (\<open>src/torrent/poller/inflight.rs\<close>), the start-up
  reconciliation (\<open>src/torrent/poller/reconcile.rs\<close>), the catalog updates (\<open>src/torrent/poller/opds.rs\<close>) and
  the cycle that runs them (\<open>src/torrent/poller/mod.rs\<close>).

  A pass over the rows takes the clock and the surroundings of a completion by row id (\<open>pass_env\<close>). The torrent
  maps of the code, built from the list qBittorrent returns, keep the last torrent of a key.
\<close>

section \<open>Decisions\<close>

record 'h pass_env =
  pe_complete :: "int \<Rightarrow> 'h complete_env"
  pe_clock :: "int \<Rightarrow> timestamp" \<comment> \<open>\<open>Utc::now\<close> when the row is looked at\<close>
  pe_listing :: "string list" \<comment> \<open>the library directory, empty when it cannot be read\<close>
  pe_removable :: "path \<Rightarrow> bool"
  pe_f32 :: "f64 \<Rightarrow> f32"
  pe_alnum :: "string \<Rightarrow> bool" \<comment> \<open>the character class of the requeue guard\<close>

definition MISSING_TORRENT_GRACE :: timestamp where "MISSING_TORRENT_GRACE = 600000000"
definition VISIBILITY_TOUCH_AFTER :: timestamp where "VISIBILITY_TOUCH_AFTER = 60000000"
definition OPDS_EVERY_N_TICKS :: nat where "OPDS_EVERY_N_TICKS = 180"

definition visibility_touch_due :: "timestamp \<Rightarrow> timestamp \<Rightarrow> bool" where
  "visibility_touch_due updated_at now \<longleftrightarrow> now - updated_at > VISIBILITY_TOUCH_AFTER"

datatype seeding_action = Refresh | SeedingDone | FatalDone | Pending

definition seeding_row_action :: "torrent_info option \<Rightarrow> bool \<Rightarrow> seeding_action" where
  "seeding_row_action t grace_expired =
     (case t of
        Some t \<Rightarrow> if is_fatal t then FatalDone else Refresh
      | None \<Rightarrow> if grace_expired then SeedingDone else Pending)"

definition torrent_identity :: "(string \<Rightarrow> string) \<Rightarrow> torrent_info \<Rightarrow> string" where
  "torrent_identity lower t = (if t_hash t = [] then ''name:'' @ lower (t_name t) else t_hash t)"

type_synonym torrent_map = "string \<Rightarrow> torrent_info option"

definition torrents_by_hash :: "torrent_info list \<Rightarrow> torrent_map" where
  "torrents_by_hash ts = map_of (rev (map (\<lambda>t. (t_hash t, t)) ts))"

definition torrents_by_name :: "(string \<Rightarrow> string) \<Rightarrow> torrent_info list \<Rightarrow> torrent_map" where
  "torrents_by_name lower ts = map_of (rev (map (\<lambda>t. (lower (t_name t), t)) ts))"

text \<open>The name fallback: by name, else by URL, unless an earlier row of the pass has taken the torrent.\<close>

definition match_by_name ::
  "(string \<Rightarrow> string) \<Rightarrow> string \<Rightarrow> string \<Rightarrow> torrent_map \<Rightarrow> string set \<Rightarrow> torrent_info option" where
  "match_by_name lower name url by_name consumed =
     (case (case by_name (lower name) of Some t \<Rightarrow> Some t | None \<Rightarrow> by_name (lower url)) of
        Some t \<Rightarrow> if torrent_identity lower t \<in> consumed then None else Some t
      | None \<Rightarrow> None)"

definition match_inflight_torrent ::
  "(string \<Rightarrow> string) \<Rightarrow> string option \<Rightarrow> string \<Rightarrow> string \<Rightarrow> torrent_map \<Rightarrow> torrent_map \<Rightarrow> string set \<Rightarrow> torrent_info option" where
  "match_inflight_torrent lower hash name url by_hash by_name consumed =
     (case hash of
        Some h \<Rightarrow> by_hash h
      | None \<Rightarrow> match_by_name lower name url by_name consumed)"

definition fatal_message :: "torrent_info \<Rightarrow> string" where
  "fatal_message t = (case t_err_str t of Some m \<Rightarrow> m | None \<Rightarrow> ''torrent state: '' @ t_state t)"

section \<open>Sequencing\<close>

definition unit_stmt ::
  "'w poller \<Rightarrow> (sqlx_error option \<Rightarrow> timestamp \<Rightarrow> downloads \<Rightarrow> (nat, sqlx_error) result \<times> downloads) \<Rightarrow> ('w, 'h) lib_state
    \<Rightarrow> (unit, error) result \<times> ('w, 'h) lib_state" where
  "unit_stmt P f s =
     (case lib_stmt P f s of
        (Inl e, s) \<Rightarrow> (Err (Database e), s)
      | (Inr _, s) \<Rightarrow> (Ok (), s))"

definition lib_then ::
  "('a, error) result \<times> ('w, 'h) lib_state \<Rightarrow> ('a \<Rightarrow> ('w, 'h) lib_state \<Rightarrow> ('b, error) result \<times> ('w, 'h) lib_state)
    \<Rightarrow> ('b, error) result \<times> ('w, 'h) lib_state" where
  "lib_then m k = (case m of (Inl e, s) \<Rightarrow> (Err e, s) | (Inr a, s) \<Rightarrow> k a s)"

definition when_lib ::
  "bool \<Rightarrow> (('w, 'h) lib_state \<Rightarrow> (unit, error) result \<times> ('w, 'h) lib_state) \<Rightarrow> ('w, 'h) lib_state
    \<Rightarrow> (unit, error) result \<times> ('w, 'h) lib_state" where
  "when_lib b f s = (if b then f s else (Ok (), s))"

definition on_poll :: "('w poll_state \<Rightarrow> 'a \<times> 'w poll_state) \<Rightarrow> ('w, 'h) lib_state \<Rightarrow> 'a \<times> ('w, 'h) lib_state" where
  "on_poll f s = (case f (ls_poll s) of (a, q) \<Rightarrow> (a, s\<lparr>ls_poll := q\<rparr>))"

section \<open>In-flight rows\<close>

type_synonym stats_row = "int \<times> f32 \<times> int \<times> int option \<times> f32 option \<times> int \<times> int"

definition stats_of :: "(f64 \<Rightarrow> f32) \<Rightarrow> int \<Rightarrow> torrent_info \<Rightarrow> stats_row" where
  "stats_of f32 i t =
     (i, f32 (t_progress t), kibs_to_bps (t_dlspeed t), eta_secs (i64_saturate (t_size t - t_downloaded t)) (t_dlspeed t),
      Some (f32 (t_ratio t)), kibs_to_bps (t_upspeed t), t_num_seeds t)"

definition refresh_seeding ::
  "'w poller \<Rightarrow> 'h pass_env \<Rightarrow> int \<Rightarrow> torrent_info \<Rightarrow> ('w, 'h) lib_state \<Rightarrow> (unit, error) result \<times> ('w, 'h) lib_state" where
  "refresh_seeding P E i t =
     unit_stmt P (\<lambda>fault now. refresh_seeding_stats fault now i (pe_f32 E (t_ratio t)) (kibs_to_bps (t_upspeed t))
       (t_num_seeds t) (kibs_to_bps (t_dlspeed t)))"

definition process_seeding ::
  "'w poller \<Rightarrow> 'h pass_env \<Rightarrow> bool \<Rightarrow> download_row \<Rightarrow> torrent_info option \<Rightarrow> ('w, 'h) lib_state
    \<Rightarrow> (unit, error) result \<times> ('w, 'h) lib_state" where
  "process_seeding P E qb_available r t s =
     (case seeding_row_action t
             (t = None \<and> qb_available \<and> pe_clock E (d_id r) - d_updated_at r > MISSING_TORRENT_GRACE) of
        FatalDone \<Rightarrow> unit_stmt P (\<lambda>fault now. settle_seeding fault now (d_id r) (Some (fatal_message (the t)))) s
      | Refresh \<Rightarrow> when_lib (stats_changed (pe_f32 E) (d_progress r) (d_ratio r) (d_num_seeds r) (the t))
                     (refresh_seeding P E (d_id r) (the t)) s
      | SeedingDone \<Rightarrow> unit_stmt P (\<lambda>fault now. settle_seeding fault now (d_id r) None) s
      | Pending \<Rightarrow> (Ok (), s))"

definition fatal_stmt ::
  "'w poller \<Rightarrow> int \<Rightarrow> string \<Rightarrow> ('w, 'h) lib_state \<Rightarrow> (unit, error) result \<times> ('w, 'h) lib_state" where
  "fatal_stmt P i msg = unit_stmt P (\<lambda>fault now. mark_fatal_error fault now i msg)"

text \<open>A completion whose failure is written into the row.\<close>

definition complete_or_fail ::
  "'w poller \<Rightarrow> 'h pass_env \<Rightarrow> poller_params \<Rightarrow> qbit_client option \<Rightarrow> int \<Rightarrow> string \<Rightarrow> torrent_info \<Rightarrow> string option
    \<Rightarrow> ('w, 'h) lib_state \<Rightarrow> (unit, error) result \<times> ('w, 'h) lib_state" where
  "complete_or_fail P E p qbit i name t file_path s =
     (case handle_complete P (pe_complete E i) p qbit i name t file_path s of
        (Inl e, s) \<Rightarrow> fatal_stmt P i (error_display (po_show P) e) s
      | (Inr _, s) \<Rightarrow> (Ok (), s))"

definition process_visible ::
  "'w poller \<Rightarrow> 'h pass_env \<Rightarrow> poller_params \<Rightarrow> qbit_client option \<Rightarrow> download_row \<Rightarrow> torrent_info \<Rightarrow> ('w, 'h) lib_state
    \<Rightarrow> (stats_row option, error) result \<times> ('w, 'h) lib_state" where
  "process_visible P E p qbit r t s =
     (let i = d_id r in
      lib_then (when_lib (visibility_touch_due (d_updated_at r) (pe_clock E i))
                  (unit_stmt P (\<lambda>fault now. touch_downloading fault now i)) s) (\<lambda>_ s.
      lib_then (when_lib (d_hash r \<noteq> Some (t_hash t)) (unit_stmt P (\<lambda>fault now. bind_hash fault now i (t_hash t))) s) (\<lambda>_ s.
        if is_fatal t then lib_then (fatal_stmt P i (fatal_message t) s) (\<lambda>_ s. (Ok None, s))
        else if is_complete t
        then lib_then (complete_or_fail P E p qbit i (d_name r) t (d_file_path r) s) (\<lambda>_ s. (Ok None, s))
        else (Ok (if stats_changed (pe_f32 E) (d_progress r) (d_ratio r) (d_num_seeds r) t then Some (stats_of (pe_f32 E) i t) else None),
              s))))"

definition inflight_row ::
  "'w poller \<Rightarrow> 'h pass_env \<Rightarrow> poller_params \<Rightarrow> qbit_client option \<Rightarrow> bool \<Rightarrow> download_row \<Rightarrow> torrent_info option
    \<Rightarrow> ('w, 'h) lib_state \<Rightarrow> (stats_row option, error) result \<times> ('w, 'h) lib_state" where
  "inflight_row P E p qbit qb_available r t s =
     (if has_status r Seeding then lib_then (process_seeding P E qb_available r t s) (\<lambda>_ s. (Ok None, s))
      else (case t of
              Some t \<Rightarrow> process_visible P E p qbit r t s
            | None \<Rightarrow>
                if qb_available \<and> pe_clock E (d_id r) - d_updated_at r > MISSING_TORRENT_GRACE
                then lib_then (fatal_stmt P (d_id r) ''torrent not found in qBittorrent'' s) (\<lambda>_ s. (Ok None, s))
                else (Ok None, s)))"

definition consume :: "(string \<Rightarrow> string) \<Rightarrow> torrent_info option \<Rightarrow> string set \<Rightarrow> string set" where
  "consume lower t consumed = (case t of Some t \<Rightarrow> insert (torrent_identity lower t) consumed | None \<Rightarrow> consumed)"

fun process_inflight ::
  "'w poller \<Rightarrow> 'h pass_env \<Rightarrow> torrent_map \<Rightarrow> torrent_map \<Rightarrow> qbit_client option \<Rightarrow> bool \<Rightarrow> poller_params \<Rightarrow> string set
    \<Rightarrow> stats_row list \<Rightarrow> download_row list \<Rightarrow> ('w, 'h) lib_state \<Rightarrow> (stats_row list, error) result \<times> ('w, 'h) lib_state" where
  "process_inflight P E by_hash by_name qbit qb_available p consumed changed [] s = (Ok changed, s)"
| "process_inflight P E by_hash by_name qbit qb_available p consumed changed (r # rs) s =
     (if is_direct_zim_url (d_url r) \<or> qbit = None
      then process_inflight P E by_hash by_name qbit qb_available p consumed changed rs s
      else
        (let t = match_inflight_torrent (po_lower P) (d_hash r) (d_name r) (d_url r) by_hash by_name consumed
         in lib_then (inflight_row P E p qbit qb_available r t s) (\<lambda>c s.
              process_inflight P E by_hash by_name qbit qb_available p (consume (po_lower P) t consumed)
                (changed @ (case c of Some x \<Rightarrow> [x] | None \<Rightarrow> [])) rs s)))"

definition flush_stats :: "'w poller \<Rightarrow> stats_row list \<Rightarrow> ('w, 'h) lib_state \<Rightarrow> ('w, 'h) lib_state" where
  "flush_stats P changed s =
     (if changed = [] then s else snd (lib_stmt P (\<lambda>fault now. apply_stats_batch fault now changed) s))"

section \<open>Direct downloads\<close>

text \<open>The spawned task: a failure is written into the row.\<close>

definition CLIENT_UNAVAILABLE :: error where
  "CLIENT_UNAVAILABLE = Internal ''download HTTP client unavailable (client build failed at startup)''"

definition spawn_direct ::
  "(sqlx_error \<Rightarrow> string) \<Rightarrow> bool \<Rightarrow> 'c transfer_env \<Rightarrow> direct_env \<Rightarrow> poller_params \<Rightarrow> int \<Rightarrow> string \<Rightarrow> path \<Rightarrow> direct_world \<Rightarrow> direct_world" where
  "spawn_direct show_sqlx has_client T E dp i url part w =
     (if \<not> has_client then mark_row_error E ''spawn'' i (error_display show_sqlx CLIENT_UNAVAILABLE) w
      else (case direct_download T E dp i url part w of
              (Inl e, w) \<Rightarrow> mark_row_error E ''spawn'' i (error_display show_sqlx e) w
            | (Inr _, w) \<Rightarrow> w))"

section \<open>Start-up reconciliation\<close>

definition part_text :: "path \<Rightarrow> string \<Rightarrow> string" where
  "part_text dir name = (if starts_with name ''/'' then name @ ''.part'' else path_display dir @ ''/'' @ name @ ''.part'')"

definition resumable_part_paths :: "(string \<times> string option) list \<Rightarrow> path \<Rightarrow> string set" where
  "resumable_part_paths rs dir =
     fold (\<lambda>(name, file_path) acc.
       insert (part_text dir name) (case file_path of Some fp \<Rightarrow> insert fp acc | None \<Rightarrow> acc)) rs {}"

definition resumable :: "download_row \<Rightarrow> bool" where
  "resumable r \<longleftrightarrow> (has_status r Queued \<or> has_status r Downloading \<or> has_status r Error) \<and> zim_url_predicate (d_url r)"

definition select_resumable :: "downloads \<Rightarrow> (string \<times> string option) list" where
  "select_resumable db = map (\<lambda>r. (d_name r, d_file_path r)) (filter resumable (rows db))"

definition sweep_entry :: "'h pass_env \<Rightarrow> path \<Rightarrow> string set \<Rightarrow> string \<Rightarrow> fs \<Rightarrow> fs" where
  "sweep_entry E dir active name fs =
     (if extension name = Some ''part'' \<and> path_display (dir @ [name]) \<notin> active \<and> pe_removable E (dir @ [name])
      then fs(dir @ [name] := None) else fs)"

definition sweep_parts :: "'h pass_env \<Rightarrow> path \<Rightarrow> string set \<Rightarrow> fs \<Rightarrow> fs" where
  "sweep_parts E dir active fs = fold (sweep_entry E dir active) (pe_listing E) fs"

definition reconcile_match ::
  "(string \<Rightarrow> string) \<Rightarrow> download_row \<Rightarrow> torrent_map \<Rightarrow> torrent_map \<Rightarrow> string set \<Rightarrow> torrent_info option" where
  "reconcile_match lower r by_hash by_name consumed =
     (case Option.bind (d_hash r) by_hash of
        Some t \<Rightarrow> Some t
      | None \<Rightarrow> match_by_name lower (d_name r) (d_url r) by_name consumed)"

definition reconcile_row ::
  "'w poller \<Rightarrow> 'h pass_env \<Rightarrow> poller_params \<Rightarrow> qbit_client option \<Rightarrow> download_row \<Rightarrow> torrent_info option \<Rightarrow> ('w, 'h) lib_state
    \<Rightarrow> (unit, error) result \<times> ('w, 'h) lib_state" where
  "reconcile_row P E p qbit r t s =
     (let i = d_id r in
      if has_status r Downloading then
        (case t of
           Some t \<Rightarrow>
             lib_then (when_lib (d_hash r \<noteq> Some (t_hash t)) (unit_stmt P (\<lambda>fault now. bind_hash fault now i (t_hash t))) s) (\<lambda>_.
               when_lib (is_complete t) (complete_or_fail P E p qbit i (d_name r) t (d_file_path r)))
         | None \<Rightarrow>
             when_lib (pe_clock E i - d_updated_at r > MISSING_TORRENT_GRACE) (fatal_stmt P i ''torrent missing from qBittorrent'') s)
      else if has_status r Complete then
        (case t of
           Some t \<Rightarrow>
             if has_file (d_file_path r) s then (Ok (), s)
             else (Ok (), snd (handle_complete P (pe_complete E i) p qbit i (d_name r) t (d_file_path r) s))
         | None \<Rightarrow> (Ok (), s))
      else if has_status r Seeding then
        (case t of
           Some t \<Rightarrow>
             if is_fatal t then unit_stmt P (\<lambda>fault now. settle_seeding fault now i (Some (fatal_message t))) s
             else refresh_seeding P E i t s
         | None \<Rightarrow> unit_stmt P (\<lambda>fault now. settle_seeding fault now i None) s)
      else (Ok (), s))"

text \<open>The pass returns the hashes known from the rows and the torrents the rows have taken.\<close>

fun reconcile_rows ::
  "'w poller \<Rightarrow> 'h pass_env \<Rightarrow> poller_params \<Rightarrow> qbit_client option \<Rightarrow> torrent_map \<Rightarrow> torrent_map \<Rightarrow> string set \<Rightarrow> string set
    \<Rightarrow> download_row list \<Rightarrow> ('w, 'h) lib_state \<Rightarrow> (string set \<times> string set, error) result \<times> ('w, 'h) lib_state" where
  "reconcile_rows P E p qbit by_hash by_name known consumed [] s = (Ok (known, consumed), s)"
| "reconcile_rows P E p qbit by_hash by_name known consumed (r # rs) s =
     (if is_direct_zim_url (d_url r) then reconcile_rows P E p qbit by_hash by_name known consumed rs s
      else
        (let known = (case d_hash r of Some h \<Rightarrow> insert h known | None \<Rightarrow> known);
             t = reconcile_match (po_lower P) r by_hash by_name consumed
         in lib_then (reconcile_row P E p qbit r t s) (\<lambda>_ s.
              reconcile_rows P E p qbit by_hash by_name known (consume (po_lower P) t consumed) rs s)))"

fun adopt_torrents ::
  "'w poller \<Rightarrow> 'h pass_env \<Rightarrow> string set \<Rightarrow> string set \<Rightarrow> torrent_info list \<Rightarrow> ('w, 'h) lib_state
    \<Rightarrow> (unit, error) result \<times> ('w, 'h) lib_state" where
  "adopt_torrents P E known consumed [] s = (Ok (), s)"
| "adopt_torrents P E known consumed (t # ts) s =
     (if t_hash t \<in> known \<or> t_hash t \<in> consumed then adopt_torrents P E known consumed ts s
      else
        lib_then (unit_stmt P (\<lambda>fault now. adopt_torrent fault now (t_name t) (t_hash t)
                    (if is_complete t then Complete else Downloading) (pe_f32 E (t_progress t))) s)
          (\<lambda>_ s. adopt_torrents P E known consumed ts s))"

definition reconcile_torrents ::
  "'w poller \<Rightarrow> 'h pass_env \<Rightarrow> poller_params \<Rightarrow> qbit_client \<Rightarrow> ('w, 'h) lib_state \<Rightarrow> (unit, error) result \<times> ('w, 'h) lib_state" where
  "reconcile_torrents P E p q s =
     (case get_torrents (qe_send (po_qbit P)) (qe_json (po_qbit P)) q ''all'' (ps_world (ls_poll s)) of
        (Inl e, w) \<Rightarrow> (Err e, set_world w s)
      | (Inr ts, w) \<Rightarrow>
          (case lib_stmt P (select (\<lambda>db. filter (\<lambda>r. has_status r Downloading \<or> has_status r Complete \<or> has_status r Seeding)
                  (rows db))) (set_world w s) of
             (Inl e, s) \<Rightarrow> (Err (Database e), s)
           | (Inr rs, s) \<Rightarrow>
               lib_then (reconcile_rows P E p (Some q) (torrents_by_hash ts) (torrents_by_name (po_lower P) ts) {} {} rs s)
                 (\<lambda>(known, consumed). adopt_torrents P E known consumed (filter (\<lambda>t. t_category t = Some (pp_category p)) ts))))"

definition poller_reconcile ::
  "'w poller \<Rightarrow> 'h pass_env \<Rightarrow> poller_params \<Rightarrow> qbit_client option \<Rightarrow> ('w, 'h) lib_state
    \<Rightarrow> (unit, error) result \<times> ('w, 'h) lib_state" where
  "poller_reconcile P E p qbit s =
     (case lib_stmt P (select select_resumable) s of
        (Inl e, s) \<Rightarrow> (Err (Database e), s)
      | (Inr rs, s) \<Rightarrow>
          lib_then (unit_stmt P (\<lambda>fault now. retry_interrupted_directs fault now) s) (\<lambda>_ s.
            let s = s\<lparr>ls_fs := sweep_parts E (zim_dir_of s) (resumable_part_paths rs (zim_dir_of s)) (ls_fs s)\<rparr>
            in case qbit of None \<Rightarrow> (Ok (), s) | Some q \<Rightarrow> reconcile_torrents P E p q s))"

section \<open>Catalog updates\<close>

definition opds_active :: "string \<Rightarrow> downloads \<Rightarrow> int option" where
  "opds_active url db = map_option d_id (find (\<lambda>r. d_url r = url \<and> is_active r) (rows db))"

definition opds_terminal :: "string \<Rightarrow> downloads \<Rightarrow> string option list" where
  "opds_terminal url db =
     map d_sha256 (filter (\<lambda>r. d_url r = url \<and> (has_status r Complete \<or> has_status r Seeding)) (rows db))"

definition matches_current :: "string option \<Rightarrow> string option list \<Rightarrow> bool" where
  "matches_current claim terminal =
     (case claim of Some c \<Rightarrow> list_ex (\<lambda>d. d = Some c) terminal | None \<Rightarrow> terminal \<noteq> [])"

definition queue_opds_update ::
  "'w poller \<Rightarrow> opds_update \<Rightarrow> ('w, 'h) lib_state \<Rightarrow> (unit, error) result \<times> ('w, 'h) lib_state" where
  "queue_opds_update P u s =
     (case lib_stmt P (select (opds_active (up_download_url u))) s of
        (Inl e, s) \<Rightarrow> (Err (Database e), s)
      | (Inr (Some _), s) \<Rightarrow> (Ok (), s)
      | (Inr None, s) \<Rightarrow>
          (case lib_stmt P (select (opds_terminal (up_download_url u))) s of
             (Inl e, s) \<Rightarrow> (Err (Database e), s)
           | (Inr terminal, s) \<Rightarrow>
               if matches_current (up_digest u) terminal then (Ok (), s)
               else (case lib_stmt P (\<lambda>fault now. sql_insert fault (\<lambda>i.
                        (default_row now (up_catalog_name u) (up_download_url u) (as_str Queued) i)\<lparr>d_sha256 := up_digest u\<rparr>)) s of
                       (Inr _, s) \<Rightarrow> (Ok (), s)
                     | (Inl e, s) \<Rightarrow> if is_unique_violation e then (Ok (), s) else (Err (Database e), s))))"

fun queue_opds_updates ::
  "'w poller \<Rightarrow> opds_update list \<Rightarrow> ('w, 'h) lib_state \<Rightarrow> (unit, error) result \<times> ('w, 'h) lib_state" where
  "queue_opds_updates P [] s = (Ok (), s)"
| "queue_opds_updates P (u # us) s = lib_then (queue_opds_update P u s) (\<lambda>_ s. queue_opds_updates P us s)"

text \<open>What the check asks of the catalog: the fetch with its guard, the encoding of digests, and the order in which the
  archive cache is listed.\<close>

record 'c catalog_env =
  ca_urls :: url_ops
  ca_chain :: "'c chain_env"
  ca_content_length :: "http_response \<Rightarrow> string option"
  ca_read_body :: "http_response \<Rightarrow> (string, string) result"
  ca_tokenize :: "string \<Rightarrow> xml_event list"
  ca_base64 :: "string \<Rightarrow> string option"
  ca_order :: "string fset \<Rightarrow> string list"

definition check_updates :: "'c catalog_env \<Rightarrow> string \<Rightarrow> 'h zim_manager \<Rightarrow> (opds_update list, error) result" where
  "check_updates C url zims =
     and_then (fetch_catalog (ca_urls C) (ca_chain C) (ca_content_length C) (ca_read_body C) (ca_tokenize C) url)
       (\<lambda>es. Ok (find_updates (ca_base64 C) es (list_name_dates (ca_order C) zims)))"

definition opds_check ::
  "'w poller \<Rightarrow> 'c catalog_env \<Rightarrow> bool \<Rightarrow> poller_params \<Rightarrow> ('w, 'h) lib_state \<Rightarrow> (unit, error) result \<times> ('w, 'h) lib_state" where
  "opds_check P C enabled p s =
     (if \<not> enabled \<or> \<not> pp_opds_auto_update p \<or> pp_opds_url p = [] then (Ok (), s)
      else (case validate_download_url (ca_urls C) (pp_opds_url p) (pp_allow_private_networks p) of
              Inl e \<Rightarrow> (Err e, s)
            | Inr _ \<Rightarrow>
                (case check_updates C (pp_opds_url p) (ls_zims s) of
                   Inl e \<Rightarrow> (Err e, s)
                 | Inr updates \<Rightarrow> queue_opds_updates P updates s)))"

section \<open>The cycle\<close>

definition requeue_stale ::
  "'w poller \<Rightarrow> 'h pass_env \<Rightarrow> requeue_state \<Rightarrow> ('w, 'h) lib_state
    \<Rightarrow> (unit, error) result \<times> requeue_state \<times> ('w, 'h) lib_state" where
  "requeue_stale P E rq s =
     (let D = po_db P; q = ls_poll s; n = ps_stmt q
      in case requeue_pass (pe_alnum E) (db_env.de_fault D n) (db_env.de_fault D (n + 1)) (db_env.de_fault D (n + 2))
                (db_env.de_between D (n + 1)) (db_env.de_between D (n + 2)) (db_env.de_now D n) rq (db_env.de_between D n (ps_db q)) of
           (r, rq, db) \<Rightarrow> (r, rq, s\<lparr>ls_poll := q\<lparr>ps_db := db, ps_stmt := n + 3\<rparr>\<rparr>))"

definition resolve_cycle ::
  "'w poller \<Rightarrow> poller_params \<Rightarrow> ('w, 'h) lib_state \<Rightarrow> qbit_client option \<times> ('w, 'h) lib_state" where
  "resolve_cycle P p s =
     on_poll (\<lambda>q. case resolve_torrent (po_qbit P) (po_config P) (pp_qbit_url p) (pp_qbit_allow_private p)
                         (po_cell_between P (ps_stmt q)) (ps_cell q) (ps_world q) of
                    (qbit, cell, w) \<Rightarrow> (qbit, q\<lparr>ps_cell := cell, ps_world := w\<rparr>)) s"

definition tick_rows ::
  "'w poller \<Rightarrow> 'h pass_env \<Rightarrow> poller_params \<Rightarrow> int \<Rightarrow> (nat \<Rightarrow> bool) \<Rightarrow> qbit_client option \<Rightarrow> ('w, 'h) lib_state
    \<Rightarrow> (unit, error) result \<times> ('w, 'h) lib_state" where
  "tick_rows P E p max_active acquire_ok qbit s =
     (let qb_configured = qbit_configured (po_config P) (pp_qbit_url p);
          ((ts, qb_available), s) = on_poll (fetch_qb_state P qbit) s
      in lib_then (on_poll (process_cancelled P p acquire_ok qbit qb_configured) s) (\<lambda>_ s.
         lib_then (on_poll (process_queued P p max_active qbit qb_available qb_configured ts) s) (\<lambda>_ s.
           case lib_stmt P (select (\<lambda>db. filter (\<lambda>r. has_status r Downloading \<or> has_status r Seeding) (rows db))) s of
             (Inl e, s) \<Rightarrow> (Err (Database e), s)
           | (Inr rs, s) \<Rightarrow>
               lib_then (process_inflight P E (torrents_by_hash ts) (torrents_by_name (po_lower P) ts) qbit qb_available p {} [] rs s)
                 (\<lambda>changed s. (Ok (), flush_stats P changed s)))))"

definition tick ::
  "'w poller \<Rightarrow> 'h pass_env \<Rightarrow> bool \<Rightarrow> poller_params \<Rightarrow> int \<Rightarrow> (nat \<Rightarrow> bool) \<Rightarrow> requeue_state \<Rightarrow> ('w, 'h) lib_state
    \<Rightarrow> (unit, error) result \<times> requeue_state \<times> ('w, 'h) lib_state" where
  "tick P E enabled p max_active acquire_ok rq s =
     (if \<not> enabled then (Ok (), rq, s)
      else
        (case resolve_cycle P p s of (qbit, s) \<Rightarrow>
           case requeue_stale P E rq s of
             (Inl e, rq, s) \<Rightarrow> (Err e, rq, s)
           | (Inr _, rq, s) \<Rightarrow>
               (case lib_then (on_poll (should_skip_tick P) s)
                       (\<lambda>skip s. if skip then (Ok (), s) else tick_rows P E p max_active acquire_ok qbit s) of
                  (r, s) \<Rightarrow> (r, rq, s))))"

text \<open>The body of the poller's loop; errors are logged. The first pass reconciles.\<close>

definition poller_cycle ::
  "'w poller \<Rightarrow> 'h pass_env \<Rightarrow> 'c catalog_env \<Rightarrow> bool \<Rightarrow> poller_params \<Rightarrow> int \<Rightarrow> (nat \<Rightarrow> bool) \<Rightarrow> u64 \<times> requeue_state \<times> ('w, 'h) lib_state
    \<Rightarrow> u64 \<times> requeue_state \<times> ('w, 'h) lib_state" where
  "poller_cycle P E C enabled p max_active acquire_ok st =
     (case st of (ticks, rq, s) \<Rightarrow>
        let ticks = ticks + 1;
            (_, rq, s) = tick P E enabled p max_active acquire_ok rq s;
            s = (if OPDS_EVERY_N_TICKS dvd unat ticks then snd (opds_check P C enabled p s) else s)
        in (ticks, rq, s))"

definition poller_start ::
  "'w poller \<Rightarrow> 'h pass_env \<Rightarrow> bool \<Rightarrow> poller_params \<Rightarrow> ('w, 'h) lib_state \<Rightarrow> ('w, 'h) lib_state" where
  "poller_start P E enabled p s =
     (if enabled then (case resolve_cycle P p s of (qbit, s) \<Rightarrow> snd (poller_reconcile P E p qbit s)) else s)"

section \<open>Partial files survive a restart\<close>

lemma resumable_part_paths_iff:
  "x \<in> resumable_part_paths rs dir \<longleftrightarrow> (\<exists>(name, fp)\<in>set rs. x = part_text dir name \<or> fp = Some x)"
proof -
  have "x \<in> fold (\<lambda>(name, file_path) acc. insert (part_text dir name)
          (case file_path of Some fp \<Rightarrow> insert fp acc | None \<Rightarrow> acc)) rs acc
      \<longleftrightarrow> x \<in> acc \<or> (\<exists>(name, fp)\<in>set rs. x = part_text dir name \<or> fp = Some x)" for acc
    by (induction rs arbitrary: acc) (auto split: option.splits)
  then show ?thesis by (simp add: resumable_part_paths_def)
qed

lemma sweep_parts_spec:
  "sweep_parts E dir active fs q =
     (if \<exists>name\<in>set (pe_listing E). q = dir @ [name] \<and> extension name = Some ''part'' \<and> path_display q \<notin> active \<and> pe_removable E q
      then None else fs q)"
proof -
  have "fold (sweep_entry E dir active) names fs q =
     (if \<exists>name\<in>set names. q = dir @ [name] \<and> extension name = Some ''part'' \<and> path_display q \<notin> active \<and> pe_removable E q
      then None else fs q)" for names
    by (induction names arbitrary: fs) (auto simp: sweep_entry_def)
  then show ?thesis by (simp add: sweep_parts_def)
qed

text \<open>What a completion leaves alone: no temporary file and no archive.\<close>

definition is_part :: "path \<Rightarrow> bool" where
  "is_part q \<longleftrightarrow> q \<noteq> [] \<and> extension (last q) = Some ''part'' \<and> \<not> tmp_like q"

lemma handle_complete_part:
  assumes "is_part q"
  shows "ls_fs (snd (handle_complete P E p qbit i name t file_path s)) q = ls_fs s q"
proof -
  obtain r s' where run: "handle_complete P E p qbit i name t file_path s = (r, s')" by fastforce
  have "q \<noteq> zim_dir_of s @ [last z]" if "locate E 1 t = Ok z" for z
    using locate_zim [OF that] assms
    by (auto simp: is_part_def is_zim_path_def eq_ignore_ascii_case_def to_ascii_lowercase_def lower_char_def ascii_def)
  then show ?thesis using handle_complete_frame [OF run, of q] assms run by (simp add: is_part_def)
qed

lemma unit_stmt_frame [simp]: "ls_fs (snd (unit_stmt P f s)) = ls_fs s" "ls_zims (snd (unit_stmt P f s)) = ls_zims s"
  by (auto simp: unit_stmt_def dest!: lib_stmt_frame split: prod.splits sum.splits)

lemma snd_lib_then:
  assumes "G (snd m)" and "\<And>a s. G s \<Longrightarrow> G (snd (k a s))"
  shows "G (snd (lib_then m k))"
  using assms by (auto simp: lib_then_def split: prod.splits sum.splits)

lemma complete_or_fail_part:
  assumes "is_part q"
  shows "ls_fs (snd (complete_or_fail P E p qbit i name t file_path s)) q = ls_fs s q"
proof -
  obtain r s' where run: "handle_complete P (pe_complete E i) p qbit i name t file_path s = (r, s')" by fastforce
  then show ?thesis
    using handle_complete_part [OF assms, of P "pe_complete E i" p qbit i name t file_path s]
    by (auto simp: complete_or_fail_def fatal_stmt_def split: sum.split)
qed

lemma reconcile_row_part:
  assumes "is_part q"
  shows "ls_fs (snd (reconcile_row P E p qbit r t s)) q = ls_fs s q"
proof -
  have bind: "ls_fs (snd (lib_then (when_lib b (unit_stmt P f) s) (\<lambda>_. when_lib c (complete_or_fail P E p qbit (d_id r) (d_name r) u (d_file_path r))))) q
      = ls_fs s q" for b f c u
    by (rule snd_lib_then) (auto simp: when_lib_def complete_or_fail_part [OF assms])
  have grace: "ls_fs (snd (when_lib b (fatal_stmt P i msg) s)) = ls_fs s" for b i msg by (simp add: when_lib_def fatal_stmt_def)
  show ?thesis
    by (auto simp: reconcile_row_def Let_def bind grace refresh_seeding_def handle_complete_part [OF assms] split: option.split)
qed

lemma reconcile_rows_part:
  assumes "is_part q"
  shows "ls_fs (snd (reconcile_rows P E p qbit by_hash by_name known consumed rs s)) q = ls_fs s q"
proof (induction rs arbitrary: known consumed s)
  case (Cons r rs)
  have "ls_fs (snd (lib_then (reconcile_row P E p qbit r t s) (\<lambda>_ s. reconcile_rows P E p qbit by_hash by_name k c rs s))) q = ls_fs s q" for t k c
    by (rule snd_lib_then) (auto simp: reconcile_row_part [OF assms] Cons.IH)
  then show ?case using Cons.IH by (simp add: Let_def)
qed simp

lemma adopt_torrents_frame [simp]: "ls_fs (snd (adopt_torrents P E known consumed ts s)) = ls_fs s"
proof (induction ts arbitrary: s)
  case (Cons t ts)
  have "ls_fs (snd (lib_then (unit_stmt P f s) (\<lambda>_ s. adopt_torrents P E known consumed ts s))) = ls_fs s" for f
    by (rule snd_lib_then) (auto simp: Cons.IH)
  then show ?case using Cons.IH by simp
qed simp

lemma reconcile_torrents_part:
  assumes "is_part q"
  shows "ls_fs (snd (reconcile_torrents P E p qb s)) q = ls_fs s q"
proof -
  obtain x w where g: "get_torrents (qe_send (po_qbit P)) (qe_json (po_qbit P)) qb ''all'' (ps_world (ls_poll s)) = (x, w)" by fastforce
  show ?thesis
  proof (cases x)
    case (Inr ts)
    obtain y u where y: "lib_stmt P (select (\<lambda>db. filter (\<lambda>r. has_status r Downloading \<or> has_status r Complete \<or> has_status r Seeding)
                  (rows db))) (set_world w s) = (y, u)" by fastforce
    have u: "ls_fs u = ls_fs s" using lib_stmt_frame [OF y] by simp
    have "ls_fs (snd (lib_then (reconcile_rows P E p (Some qb) bh bn k c rs u)
          (\<lambda>(known, consumed). adopt_torrents P E known consumed ts'))) q = ls_fs s q" for bh bn k c rs ts'
      by (rule snd_lib_then) (auto simp: reconcile_rows_part [OF assms] u split: prod.split)
    then show ?thesis using u by (simp add: reconcile_torrents_def g Inr y split: sum.split)
  qed (simp add: reconcile_torrents_def g)
qed

text \<open>
  C27. A restart never deletes what a direct download resumes from: for every row that is queued, downloading or failed,
  the partial file the next claim of the row writes, and the file the row names, are the same after the start-up
  reconciliation as before it, whatever statements fail and whatever torrents are completed or adopted.
\<close>

theorem restart_keeps_resumable_parts:
  assumes "r \<in> set (rows (seen_db P 0 s))" and "resumable r" and "is_part q"
    and "po_zim_dir P = path_display (zim_dir_of s)" and "\<not> starts_with (d_name r) ''/''"
    and "path_display q = Queue.part_path P (d_name r) \<or> d_file_path r = Some (path_display q)"
  shows "ls_fs (snd (poller_reconcile P E p qbit s)) q = ls_fs s q"
proof -
  obtain x u where x: "lib_stmt P (select select_resumable) s = (x, u)" by fastforce
  note uf = lib_stmt_frame [OF x]
  show ?thesis
  proof (cases x)
    case (Inr rs)
    have rs: "rs = select_resumable (seen_db P 0 s)"
      using x Inr by (auto simp: lib_stmt_def stmt_def select_def Let_def split: prod.splits option.splits)
    have keep: "path_display q \<in> resumable_part_paths rs (zim_dir_of s)"
      using assms by (auto simp: resumable_part_paths_iff rs select_resumable_def part_text_def Queue.part_path_def)
    obtain y v where y: "unit_stmt P (\<lambda>fault now. retry_interrupted_directs fault now) u = (y, v)" by fastforce
    have v: "ls_fs v = ls_fs s" "ls_zims v = ls_zims s"
      using unit_stmt_frame [of P "\<lambda>fault now. retry_interrupted_directs fault now" u] y uf by simp_all
    let ?v = "v\<lparr>ls_fs := sweep_parts E (zim_dir_of v) (resumable_part_paths rs (zim_dir_of v)) (ls_fs v)\<rparr>"
    have "ls_fs ?v q = ls_fs s q" using keep v by (simp add: sweep_parts_spec)
    then show ?thesis
      using v by (simp add: poller_reconcile_def x Inr y lib_then_def Let_def reconcile_torrents_part [OF assms(3)] split: sum.split option.split)
  qed (use uf x in \<open>auto simp: poller_reconcile_def\<close>)
qed

section \<open>Catalog updates are queued once\<close>

text \<open>Nothing is left to do for an update: its URL is being fetched, or was installed at the version the catalog names, or its
  name is taken by an active row, which the unique index refuses.\<close>

definition update_settled :: "download_row list \<Rightarrow> opds_update \<Rightarrow> bool" where
  "update_settled rs u \<longleftrightarrow>
     (\<exists>r\<in>set rs. is_active r \<and> (d_url r = up_download_url u \<or> d_name r = up_catalog_name u))
     \<or> matches_current (up_digest u)
         (map d_sha256 (filter (\<lambda>r. d_url r = up_download_url u \<and> (has_status r Complete \<or> has_status r Seeding)) rs))"

definition update_row :: "opds_update \<Rightarrow> download_row \<Rightarrow> bool" where
  "update_row u r \<longleftrightarrow> has_status r Queued \<and> d_name r = up_catalog_name u \<and> d_url r = up_download_url u \<and> d_sha256 r = up_digest u"

lemma update_settled_mono: "update_settled rs u \<Longrightarrow> list_all (\<lambda>r. has_status r Queued) new \<Longrightarrow> update_settled (rs @ new) u"
proof -
  assume "update_settled rs u" and new: "list_all (\<lambda>r. has_status r Queued) new"
  moreover have "filter (\<lambda>r. d_url r = up_download_url u \<and> (has_status r Complete \<or> has_status r Seeding)) new = []"
    using new by (auto simp: filter_empty_conv list_all_iff)
  ultimately show ?thesis by (auto simp: update_settled_def)
qed

lemma opds_active_None: "opds_active url db = None \<longleftrightarrow> \<not> (\<exists>r\<in>set (rows db). d_url r = url \<and> is_active r)"
  by (auto simp: opds_active_def find_None_iff)

lemma insert_update:
  assumes "unique_conflict (rows db) = None"
    and r_def: "r = (default_row now (up_catalog_name u) (up_download_url u) (as_str Queued) (next_id db))\<lparr>d_sha256 := up_digest u\<rparr>"
  shows "sql_insert None (\<lambda>i. (default_row now (up_catalog_name u) (up_download_url u) (as_str Queued) i)\<lparr>d_sha256 := up_digest u\<rparr>) db =
    (case unique_conflict (rows db @ [r]) of
       Some c \<Rightarrow> (Err (DatabaseError (Some ''23505'') (Some c)), db\<lparr>next_id := next_id db + 1\<rparr>)
     | None \<Rightarrow> (Ok (next_id db), db\<lparr>next_id := next_id db + 1, rows := rows db @ [r]\<rparr>))"
    and "update_row u r"
    and "unique_conflict (rows db @ [r]) = None \<longleftrightarrow>
      \<not> (\<exists>x\<in>set (rows db). (d_url x = up_download_url u \<or> d_name x = up_catalog_name u) \<and> is_active x)"
proof -
  show "update_row u r" by (simp add: r_def update_row_def default_row_def)
  show "sql_insert None (\<lambda>i. (default_row now (up_catalog_name u) (up_download_url u) (as_str Queued) i)\<lparr>d_sha256 := up_digest u\<rparr>) db =
    (case unique_conflict (rows db @ [r]) of
       Some c \<Rightarrow> (Err (DatabaseError (Some ''23505'') (Some c)), db\<lparr>next_id := next_id db + 1\<rparr>)
     | None \<Rightarrow> (Ok (next_id db), db\<lparr>next_id := next_id db + 1, rows := rows db @ [r]\<rparr>))"
    by (simp add: sql_insert_def commit_rows_def r_def Let_def split: option.split)
  have "is_active r" by (simp add: r_def is_active_def default_row_def)
  from unique_conflict_append [OF assms(1) this]
  show "unique_conflict (rows db @ [r]) = None \<longleftrightarrow>
      \<not> (\<exists>x\<in>set (rows db). (d_url x = up_download_url u \<or> d_name x = up_catalog_name u) \<and> is_active x)"
    by (simp add: r_def default_row_def)
qed

lemma queue_opds_update_step:
  assumes q: "quiet_poll P" and uc: "unique_conflict (rows (lib_db s)) = None"
  shows "\<exists>s'. queue_opds_update P u s = (Ok (), s')
    \<and> (if update_settled (rows (lib_db s)) u then rows (lib_db s') = rows (lib_db s)
       else \<exists>r. update_row u r \<and> rows (lib_db s') = rows (lib_db s) @ [r] \<and> unique_conflict (rows (lib_db s')) = None)"
proof -
  let ?db = "lib_db s" and ?url = "up_download_url u"
  note run = queue_opds_update_def quiet_lib_stmt [OF q] select_quiet
  show ?thesis
  proof (cases "opds_active ?url ?db")
    case (Some x)
    then have "\<exists>r\<in>set (rows ?db). d_url r = ?url \<and> is_active r" using opds_active_None [of ?url ?db] by auto
    then have "update_settled (rows ?db) u" by (auto simp: update_settled_def)
    then show ?thesis using Some by (simp add: run)
  next
    case None
    show ?thesis
    proof (cases "matches_current (up_digest u) (opds_terminal ?url ?db)")
      case True
      then have "update_settled (rows ?db) u" by (simp add: update_settled_def opds_terminal_def)
      then show ?thesis using None True by (simp add: run)
    next
      case False
      define now where "now = db_env.de_now (po_db P) (Suc (Suc (ps_stmt (ls_poll s))))"
      define r where "r = (default_row now (up_catalog_name u) ?url (as_str Queued) (next_id ?db))\<lparr>d_sha256 := up_digest u\<rparr>"
      note ins = insert_update [OF uc r_def]
      have settled: "update_settled (rows ?db) u \<longleftrightarrow> unique_conflict (rows ?db @ [r]) \<noteq> None"
        using None [unfolded opds_active_None] False unfolding ins(3) update_settled_def opds_terminal_def by blast
      show ?thesis
      proof (cases "unique_conflict (rows ?db @ [r])")
        case c: None
        then show ?thesis using None False settled ins(1,2) by (auto simp: run now_def)
      next
        case (Some c)
        then show ?thesis using None False settled ins(1) by (simp add: run now_def is_unique_violation_def)
      qed
    qed
  qed
qed

lemma queue_opds_pass:
  assumes "quiet_poll P" and "unique_conflict (rows (lib_db s)) = None"
  shows "\<exists>s' new. queue_opds_updates P us s = (Ok (), s') \<and> rows (lib_db s') = rows (lib_db s) @ new
    \<and> list_all (\<lambda>r. \<exists>u\<in>set us. update_row u r) new \<and> list_all (update_settled (rows (lib_db s'))) us
    \<and> unique_conflict (rows (lib_db s')) = None"
  using assms(2)
proof (induction us arbitrary: s)
  case (Cons u us)
  from queue_opds_update_step [OF assms(1) Cons.prems, of u] obtain s1 where s1: "queue_opds_update P u s = (Ok (), s1)"
    "if update_settled (rows (lib_db s)) u then rows (lib_db s1) = rows (lib_db s)
     else \<exists>r. update_row u r \<and> rows (lib_db s1) = rows (lib_db s) @ [r] \<and> unique_conflict (rows (lib_db s1)) = None" by blast
  define fst_new where "fst_new = drop (length (rows (lib_db s))) (rows (lib_db s1))"
  have n1: "rows (lib_db s1) = rows (lib_db s) @ fst_new" "list_all (update_row u) fst_new"
    "unique_conflict (rows (lib_db s1)) = None" "update_settled (rows (lib_db s1)) u"
    using s1(2) Cons.prems by (auto simp: fst_new_def update_settled_def update_row_def is_active_def split: if_splits)
  from Cons.IH [OF n1(3)] obtain s' new where s': "queue_opds_updates P us s1 = (Ok (), s')" "rows (lib_db s') = rows (lib_db s1) @ new"
    "list_all (\<lambda>r. \<exists>u\<in>set us. update_row u r) new" "list_all (update_settled (rows (lib_db s'))) us"
    "unique_conflict (rows (lib_db s')) = None" by blast
  have "list_all (\<lambda>r. has_status r Queued) new" using s'(3) by (auto simp: list_all_iff update_row_def)
  then have "update_settled (rows (lib_db s')) u" unfolding s'(2) by (rule update_settled_mono [OF n1(4)])
  moreover have "list_all (\<lambda>r. \<exists>v\<in>set (u # us). update_row v r) (fst_new @ new)"
    using n1(2) s'(3) by (auto simp: list_all_iff)
  ultimately show ?case using s1(1) s' n1(1)
    by (intro exI [of _ s'] exI [of _ "fst_new @ new"]) (simp add: lib_then_def)
qed simp

lemma queue_opds_again:
  assumes "quiet_poll P" and "list_all (update_settled (rows (lib_db s))) us" and "unique_conflict (rows (lib_db s)) = None"
  shows "\<exists>s'. queue_opds_updates P us s = (Ok (), s') \<and> rows (lib_db s') = rows (lib_db s)"
  using assms(2,3)
proof (induction us arbitrary: s)
  case (Cons u us)
  from queue_opds_update_step [OF assms(1) Cons.prems(2), of u] Cons.prems(1)
  obtain s1 where s1: "queue_opds_update P u s = (Ok (), s1)" "rows (lib_db s1) = rows (lib_db s)" by auto
  show ?case using Cons.IH [of s1] Cons.prems s1 by (simp add: lib_then_def)
qed simp

text \<open>
  The catalog check queues every update exactly once: when no statement fails and no other task changes the table, it
  succeeds, it only appends queued rows that carry the name, the URL and the digest claim of an update, afterwards
  nothing is left to do for any of them, and a second check over the same catalog adds no row.
\<close>

theorem opds_updates_queued_once:
  assumes "quiet_poll P" and "unique_conflict (rows (lib_db s)) = None"
  shows "\<exists>s' new. queue_opds_updates P us s = (Ok (), s') \<and> rows (lib_db s') = rows (lib_db s) @ new
    \<and> list_all (\<lambda>r. \<exists>u\<in>set us. update_row u r) new \<and> list_all (update_settled (rows (lib_db s'))) us
    \<and> unique_conflict (rows (lib_db s')) = None
    \<and> (\<exists>s''. queue_opds_updates P us s' = (Ok (), s'') \<and> rows (lib_db s'') = rows (lib_db s'))"
  using queue_opds_pass [OF assms] queue_opds_again [OF assms(1)] by meson

section \<open>An outage of qBittorrent\<close>

definition rows_of :: "downloads \<Rightarrow> int \<Rightarrow> download_row list" where
  "rows_of db i = filter (\<lambda>r. d_id r = i) (rows db)"

lemma rows_of_update:
  assumes "\<And>x. guard x \<Longrightarrow> d_id (change x) = d_id x" and "\<And>x. x \<in> set (rows_of db i) \<Longrightarrow> \<not> guard x"
  shows "rows_of (snd (sql_update fault guard change db)) i = rows_of db i"
proof (cases rule: sql_update_cases [of fault guard change db])
  case 2
  have "filter (\<lambda>r. d_id r = i) (map (\<lambda>r. if guard r then change r else r) rs) = filter (\<lambda>r. d_id r = i) rs"
    if "\<And>x. x \<in> set rs \<Longrightarrow> d_id x = i \<Longrightarrow> \<not> guard x" for rs
    using that assms(1) by (induction rs) auto
  then show ?thesis using assms(2) unfolding 2(1) by (auto simp: rows_of_def)
qed simp

lemma rows_of_other:
  assumes "i \<noteq> j"
  shows "rows_of (mark_error fault now j msg db) i = rows_of db i"
    "rows_of (snd (mark_fatal_error fault now j msg db)) i = rows_of db i"
    "rows_of (snd (claim_direct fault now j part db)) i = rows_of db i"
    "rows_of (snd (mark_downloading fault now j db)) i = rows_of db i"
    "rows_of (clear_hash fault now j db) i = rows_of db i"
  using assms by (auto simp: row_defs rows_of_def intro!: rows_of_update [unfolded rows_of_def])

text \<open>Other tasks leave the row alone; the transport to qBittorrent is down.\<close>

definition leaves_alone :: "db_env \<Rightarrow> int \<Rightarrow> bool" where
  "leaves_alone D i \<longleftrightarrow> (\<forall>n db. rows_of (db_env.de_between D n db) i = rows_of db i)"

definition qbit_down :: "'w poller \<Rightarrow> bool" where
  "qbit_down P \<longleftrightarrow> (\<forall>q req w. isl (fst (qe_send (po_qbit P) q req w)))"

lemma stmt_rows_of:
  assumes "leaves_alone D i" and "stmt D f s = (a, s')"
    and "\<And>fault now db. rows_of db i = rows_of (ps_db s) i \<Longrightarrow> rows_of (snd (f fault now db)) i = rows_of db i"
  shows "rows_of (ps_db s') i = rows_of (ps_db s) i"
proof -
  let ?n = "ps_stmt s"
  have "ps_db s' = snd (f (db_env.de_fault D ?n) (db_env.de_now D ?n) (db_env.de_between D ?n (ps_db s)))"
    using assms(2) by (auto simp: stmt_def Let_def split: prod.splits)
  then show ?thesis using assms(1,3) by (simp add: leaves_alone_def)
qed

lemma stmt_select:
  assumes "leaves_alone D i" and "stmt D (select f) s = (a, s')"
  shows "rows_of (ps_db s') i = rows_of (ps_db s) i"
    and "a = Ok x \<Longrightarrow> \<exists>db. x = f db \<and> rows_of db i = rows_of (ps_db s) i"
proof -
  show "rows_of (ps_db s') i = rows_of (ps_db s) i"
    by (rule stmt_rows_of [OF assms]) (auto simp: select_def split: option.split)
  show "a = Ok x \<Longrightarrow> \<exists>db. x = f db \<and> rows_of db i = rows_of (ps_db s) i"
    using assms by (auto simp: stmt_def select_def Let_def leaves_alone_def split: prod.splits option.splits)
qed

lemma queue_row_rows_of:
  assumes "leaves_alone (po_db P) i" and "i \<noteq> j"
    and "queue_row P p qbit qb_available qb_configured j name url budget s = (res, s')"
  shows "rows_of (ps_db s') i = rows_of (ps_db s) i"
proof -
  note other = rows_of_other [OF assms(2)]
  have st: "rows_of (ps_db v') i = rows_of (ps_db v) i" if "stmt (po_db P) f v = (a, v')"
    "\<And>fault now db. rows_of (snd (f fault now db)) i = rows_of db i" for f :: "_ \<Rightarrow> _ \<Rightarrow> _ \<Rightarrow> 'b \<times> _" and v v' a
    using stmt_rows_of [OF assms(1) that(1)] that(2) by blast
  have c: "stmt (po_db P) (\<lambda>fault now. claim_direct fault now j part) v = (a, v') \<Longrightarrow> rows_of (ps_db v') i = rows_of (ps_db v) i"
    "stmt (po_db P) (\<lambda>fault now. mark_fatal_error fault now j msg) v = (a, v') \<Longrightarrow> rows_of (ps_db v') i = rows_of (ps_db v) i"
    "stmt (po_db P) (\<lambda>fault now. mark_downloading fault now j) v = (a, v') \<Longrightarrow> rows_of (ps_db v') i = rows_of (ps_db v) i"
    "stmt (po_db P) (\<lambda>fault now db. ((), mark_error fault now j msg db)) v = (b, v') \<Longrightarrow> rows_of (ps_db v') i = rows_of (ps_db v) i"
    for part msg v v' a b
    by (erule st, simp add: other)+
  have e: "rows_of (ps_db (failed P j msg v)) i = rows_of (ps_db v) i" for msg v
    unfolding failed_def by (rule st [OF surjective_pairing]) (simp add: other)
  have f: "fatal P j msg budget v = (x, v') \<Longrightarrow> rows_of (ps_db v') i = rows_of (ps_db v) i" for msg v x v'
    by (auto simp: fatal_def dest: c(2) split: prod.splits sum.splits)
  show ?thesis
    using assms(3)
    by (auto simp: queue_row_def queue_direct_def queue_torrent_def e dest: c f dest!: f split: sum.splits if_splits option.splits prod.splits)
qed

lemma queue_rows_rows_of:
  assumes "leaves_alone (po_db P) i" and "i \<notin> fst ` set queued"
    and "queue_rows P p qbit qb_available qb_configured queued budget s = (res, s')"
  shows "rows_of (ps_db s') i = rows_of (ps_db s) i"
  using assms(2,3)
proof (induction queued arbitrary: budget s)
  case (Cons x queued)
  obtain j name url where x: "x = (j, name, url)" by (cases x)
  obtain r1 s1 where one: "queue_row P p qbit qb_available qb_configured j name url budget s = (r1, s1)" by fastforce
  have "rows_of (ps_db s1) i = rows_of (ps_db s) i"
    using queue_row_rows_of [OF assms(1) _ one] Cons.prems(1) x by auto
  then show ?case using Cons.IH [of _ s1] Cons.prems x one by (auto split: sum.splits)
qed simp

lemma process_queued_rows_of:
  assumes "leaves_alone (po_db P) i" and "rows_of (ps_db s) i = [r]" and "\<not> has_status r Queued"
  shows "rows_of (ps_db (snd (process_queued P p max_active qbit qb_available qb_configured ts s))) i = [r]"
proof -
  obtain a s1 where a: "stmt (po_db P) (select select_queued) s = (a, s1)" by fastforce
  note s1 = stmt_select(1) [OF assms(1) a]
  show ?thesis
  proof (cases a)
    case (Inr queued)
    obtain db where q: "queued = select_queued db" "rows_of db i = [r]"
      using stmt_select(2) [OF assms(1) a, of queued] Inr assms(2) by auto
    have "i \<notin> fst ` set queued"
    proof
      assume "i \<in> fst ` set queued"
      then obtain x where "x \<in> set (rows db)" "d_id x = i" "has_status x Queued"
        using set_take_subset unfolding q(1) select_queued_def by fastforce
      then have "x \<in> set (rows_of db i)" by (simp add: rows_of_def)
      then show False using q(2) assms(3) \<open>has_status x Queued\<close> by simp
    qed
    moreover obtain n s2 where b: "stmt (po_db P) (select count_direct) s1 = (n, s2)" by fastforce
    moreover note s2 = stmt_select(1) [OF assms(1) b]
    ultimately show ?thesis
      using queue_rows_rows_of [OF assms(1), of queued p qbit qb_available qb_configured _ s2] s1 s2 assms(2) a Inr
      by (simp add: process_queued_def) (metis prod.collapse)
  qed (use s1 assms a in \<open>simp add: process_queued_def\<close>)
qed

lemma release_cancelled_rows_of:
  assumes "leaves_alone (po_db P) i" and "i \<notin> fst ` set cancelled"
  shows "rows_of (ps_db (release_cancelled P p acquire_ok qbit cancelled s)) i = rows_of (ps_db s) i"
  using assms(2)
proof (induction cancelled arbitrary: s)
  case (Cons x cancelled)
  obtain j h where x: "x = (j, h)" by (cases x)
  have ij: "i \<noteq> j" using Cons.prems x by auto
  have "rows_of (ps_db (snd (poller_status_if_changed P p ok j hash s))) i = rows_of (ps_db s) i" for ok hash
  proof -
    have c: "rows_of (ps_db (snd (stmt (po_db P) (\<lambda>fault now db. ((), clear_hash fault now j db)) v))) i = rows_of (ps_db v) i" for v
      by (rule stmt_rows_of [OF assms(1) surjective_pairing]) (simp add: rows_of_other(5) [OF ij])
    obtain a v where a: "stmt (po_db P) (\<lambda>fault now db. (status_no_longer_downloading fault db j, db)) s = (a, v)" by fastforce
    have "rows_of (ps_db v) i = rows_of (ps_db s) i" by (rule stmt_rows_of [OF assms(1) a]) simp
    then show ?thesis using a by (auto simp: c poller_status_if_changed_def Let_def split: option.split prod.split sum.split)
  qed
  then show ?case using Cons.IH Cons.prems x by (auto split: option.split)
qed simp

lemma process_cancelled_rows_of:
  assumes "leaves_alone (po_db P) i" and "rows_of (ps_db s) i = [r]" and "\<not> has_status r Cancelled"
  shows "rows_of (ps_db (snd (process_cancelled P p acquire_ok qbit qb_configured s))) i = [r]"
proof -
  define sel :: "downloads \<Rightarrow> (int \<times> string option) list" where "sel = (\<lambda>db. map (\<lambda>r. (d_id r, d_hash r)) (filter (\<lambda>r. has_status r Cancelled \<and> d_hash r \<noteq> None) (rows db)))"
  obtain a s1 where a: "stmt (po_db P) (select sel) s = (a, s1)" by fastforce
  note s1 = stmt_select(1) [OF assms(1) a]
  show ?thesis
  proof (cases a)
    case (Inr cancelled)
    obtain db where q: "cancelled = sel db" "rows_of db i = [r]"
      using stmt_select(2) [OF assms(1) a, of cancelled] Inr assms(2) by auto
    have "i \<notin> fst ` set cancelled"
    proof
      assume "i \<in> fst ` set cancelled"
      then obtain x where "x \<in> set (rows_of db i)" "has_status x Cancelled" unfolding q(1) sel_def by (auto simp: rows_of_def)
      then show False using q(2) assms(3) by simp
    qed
    note rel = release_cancelled_rows_of [OF assms(1) this]
    have dr: "rows_of (ps_db (snd (stmt (po_db P) (\<lambda>fault now. drain_cancelled_hashes fault) s1))) i = rows_of (ps_db s1) i"
    proof (rule stmt_rows_of [OF assms(1) surjective_pairing])
      show "rows_of (snd (drain_cancelled_hashes fault db)) i = rows_of db i" if "rows_of db i = rows_of (ps_db s1) i" for fault db
        unfolding drain_cancelled_hashes_def by (rule rows_of_update) (use that s1 assms(2,3) in auto)
    qed
    show ?thesis using a Inr s1 assms(2) rel dr unfolding process_cancelled_def sel_def [symmetric] by (simp add: Let_def)
  qed (use s1 assms a in \<open>simp add: process_cancelled_def sel_def\<close>)
qed

lemma requeue_stale_rows_of:
  assumes "leaves_alone (po_db P) i" and "rows_of (lib_db s) i = [r]" and "\<not> has_status r Error"
    and "requeue_stale P E rq s = (res, rq', s')"
  shows "rows_of (lib_db s') i = [r]"
proof -
  have b: "rows_of (db_env.de_between (po_db P) n db) i = rows_of db i" for n db using assms(1) by (simp add: leaves_alone_def)
  have u: "rows_of (snd (requeue_stale_errors fault now ids db)) i = [r]" if "rows_of db i = [r]" for fault now ids db
    using that assms(3) rows_of_update [of "\<lambda>x. d_id x \<in> set ids \<and> has_status x Error" _ db i fault]
    by (auto simp: requeue_stale_errors_def)
  have u': "rows_of db' i = [r]" if "rows_of db i = [r]" "requeue_stale_errors fault now ids db = (x, db')" for fault now ids db x db'
    using u [OF that(1), of fault now ids] that(2) by simp
  have pass: "rows_of db' i = [r]" if "requeue_pass al f1 f2 f3 (db_env.de_between (po_db P) n) (db_env.de_between (po_db P) m) now rq db = (x, y, db')"
    "rows_of db i = [r]" for al f1 f2 f3 n m now db x y db'
    using that by (auto simp: requeue_pass_def Let_def b dest: u' [rotated] split: option.splits if_splits prod.splits sum.splits)
  show ?thesis
    using assms(4) pass [OF _ b [THEN trans [OF _ assms(2)]]] by (auto simp: requeue_stale_def Let_def split: prod.splits)
qed

lemma down_get_torrents:
  assumes "qbit_down P"
  shows "\<exists>e w'. get_torrents (qe_send (po_qbit P)) (qe_json (po_qbit P)) q ''all'' w = (Err (Http e), w')"
proof -
  let ?req = "Get (q_base_url q @ ''/api/v2/torrents/info?filter='' @ ''all'')"
  obtain r w' where r: "qe_send (po_qbit P) q ?req w = (r, w')" by fastforce
  have "isl r" using assms r unfolding qbit_down_def by (metis fst_conv)
  then show ?thesis using r by (cases r) (simp_all add: get_torrents_def)
qed

lemma down_fetch:
  assumes "qbit_down P"
  shows "\<exists>w. fetch_qb_state P qbit s = (([], False), s\<lparr>ps_world := w\<rparr>)"
proof (cases qbit)
  case (Some q)
  from down_get_torrents [OF assms, of q "ps_world s"] show ?thesis by (auto simp: fetch_qb_state_def Some)
qed (auto simp: fetch_qb_state_def intro: exI [of _ "ps_world s"])

lemma down_inflight:
  "process_inflight P E (torrents_by_hash []) (torrents_by_name lower []) qbit False p consumed changed rs s = (Ok changed, s)"
proof -
  have m: "match_inflight_torrent l h n u (torrents_by_hash []) (torrents_by_name lower []) c = None" for l h n u c
    by (simp add: match_inflight_torrent_def match_by_name_def torrents_by_hash_def torrents_by_name_def split: option.split)
  have row: "inflight_row P E p qbit False r None s = (Ok None, s)" for r
    by (simp add: inflight_row_def process_seeding_def seeding_row_action_def lib_then_def)
  show ?thesis by (induction rs arbitrary: consumed) (simp_all add: m row lib_then_def consume_def)
qed

lemma should_skip_rows_of:
  assumes "leaves_alone (po_db P) i" and "on_poll (should_skip_tick P) s = (skip, s')"
  shows "rows_of (lib_db s') i = rows_of (lib_db s) i"
proof -
  obtain a q where a: "stmt (po_db P) (select (\<lambda>db. length (filter tick_relevant (rows db)))) (ls_poll s) = (a, q)" by fastforce
  show ?thesis using stmt_select(1) [OF assms(1) a] assms(2) a
    by (auto simp: on_poll_def should_skip_tick_def split: prod.splits sum.splits)
qed

lemma tick_rows_outage:
  assumes "qbit_down P" and alone: "leaves_alone (po_db P) i" and "rows_of (lib_db s) i = [r]"
    and st: "\<not> has_status r Cancelled" "\<not> has_status r Queued"
  shows "rows_of (lib_db (snd (tick_rows P E p max_active acquire_ok qbit s))) i = [r]"
proof -
  let ?G = "\<lambda>v. rows_of (lib_db v) i = [r]"
  obtain w where f: "fetch_qb_state P qbit (ls_poll s) = (([], False), (ls_poll s)\<lparr>ps_world := w\<rparr>)" using down_fetch [OF assms(1)] by blast
  have keep: "?G (snd (on_poll g v))" if "rows_of (ps_db (snd (g (ls_poll v)))) i = [r]" for g :: "_ \<Rightarrow> (unit, error) result \<times> _" and v
    using that by (auto simp: on_poll_def split: prod.splits)
  show ?thesis
    unfolding tick_rows_def Let_def on_poll_def [of "fetch_qb_state P qbit"] f prod.case
  proof (rule snd_lib_then [where G = ?G], goal_cases)
    case 1
    show ?case by (rule keep) (use assms(3) in \<open>simp add: process_cancelled_rows_of [OF alone _ st(1)]\<close>)
  next
    case (2 u v)
    show ?case
    proof (rule snd_lib_then [where G = ?G], goal_cases)
      case 1
      show ?case by (rule keep) (use 2 in \<open>simp add: process_queued_rows_of [OF alone _ st(2)]\<close>)
    next
      case (2 u v)
      obtain y q where y: "stmt (po_db P) (select (\<lambda>db. filter (\<lambda>r. has_status r Downloading \<or> has_status r Seeding) (rows db))) (ls_poll v) = (y, q)"
        by fastforce
      have "rows_of (ps_db q) i = [r]" using stmt_select(1) [OF alone y] 2 by simp
      then show ?case by (simp add: lib_stmt_def y down_inflight lib_then_def flush_stats_def split: sum.split)
    qed
  qed
qed

text \<open>
  While qBittorrent cannot be reached, no poll cycle fails, settles or otherwise changes a transfer: a row that is
  downloading, seeding or complete is the same after the cycle, whatever else the cycle does to other rows and
  whatever statements fail, as long as no other task changes it.
\<close>

theorem outage_keeps_transfers:
  assumes "qbit_down P" and "leaves_alone (po_db P) i" and "rows_of (lib_db s) i = [r]"
    and "d_status r \<in> {as_str Downloading, as_str Seeding, as_str Complete}"
    and "tick P E enabled p max_active acquire_ok rq s = (res, rq', s')"
  shows "rows_of (lib_db s') i = [r]"
proof (cases enabled)
  case True
  have st: "\<not> has_status r Error" "\<not> has_status r Cancelled" "\<not> has_status r Queued" using assms(4) by auto
  obtain qbit s1 where s1: "resolve_cycle P p s = (qbit, s1)" by fastforce
  have d1: "rows_of (lib_db s1) i = [r]"
    using s1 assms(3) by (auto simp: resolve_cycle_def on_poll_def split: prod.splits)
  obtain x rq2 s2 where s2: "requeue_stale P E rq s1 = (x, rq2, s2)" by (cases "requeue_stale P E rq s1")
  note d2 = requeue_stale_rows_of [OF assms(2) d1 st(1) s2]
  obtain sk s3 where s3: "on_poll (should_skip_tick P) s2 = (sk, s3)" by fastforce
  have d3: "rows_of (lib_db s3) i = [r]" using should_skip_rows_of [OF assms(2) s3] d2 by simp
  show ?thesis
    using assms(5) s1 s2 s3 d2 d3 tick_rows_outage [OF assms(1,2) d3 st(2,3), of E p max_active acquire_ok qbit] True
    by (auto simp: tick_def lib_then_def split: sum.splits prod.splits if_splits)
qed (use assms(3,5) in \<open>simp add: tick_def\<close>)

section \<open>Failed direct downloads\<close>

text \<open>A direct download that fails does not stay \<open>downloading\<close>, where it would hold a place of the budget.\<close>

lemma failed_direct_not_stuck:
  assumes "direct_env.de_fault E ''spawn'' = None" and "unique_conflict (rows (direct_env.de_others E ''spawn'' (dw_db w))) = None"
    and "row_by_id (direct_env.de_others E ''spawn'' (dw_db w)) i = Some r"
  shows "\<exists>r'. row_by_id (dw_db (mark_row_error E ''spawn'' i msg w)) i = Some r' \<and> \<not> is_active r'"
proof -
  define db where "db = direct_env.de_others E ''spawn'' (dw_db w)"
  let ?g = "\<lambda>x. d_id x = i \<and> d_status x \<notin> {as_str Cancelled, as_str Complete, as_str Seeding, as_str Error}"
  let ?c = "\<lambda>x. x\<lparr>d_status := as_str Error, d_error := Some msg, d_updated_at := de_time E\<rparr>"
  have new: "dw_db (mark_row_error E ''spawn'' i msg w) = snd (sql_update None ?g ?c db)"
    by (simp add: mark_row_error_def mark_error_def assms(1) db_def)
  have r: "row_by_id db i = Some r" "d_id r = i" "unique_conflict (rows db) = None"
    using assms(2,3) row_by_id_SomeD [OF assms(3)] by (simp_all add: db_def)
  show ?thesis
  proof (cases "?g r")
    case True
    have "row_by_id (snd (sql_update None ?g ?c db)) i = Some (?c r)"
      by (rule row_update(2) [OF r(3,1), of ?g ?c, OF _ True]) (auto simp: is_active_def)
    then show ?thesis by (simp add: new is_active_def)
  next
    case False
    have "row_by_id (snd (sql_update None ?g ?c db)) i = Some r"
    proof (cases rule: sql_update_cases [of None ?g ?c db])
      case 2
      define h :: "download_row \<Rightarrow> download_row" where "h = (\<lambda>x. if ?g x then ?c x else x)"
      have "h r = r" unfolding h_def using False by (rule if_not_P)
      moreover have "row_by_id (db\<lparr>rows := map h (rows db)\<rparr>) i = map_option h (row_by_id db i)"
        by (rule row_by_id_map) (simp add: h_def)
      ultimately show ?thesis unfolding 2(1) using r(1) by (simp add: h_def)
    qed (use r in simp)
    then show ?thesis using False r(2) by (auto simp: new is_active_def)
  qed
qed

section \<open>Torrents without a hash\<close>

text \<open>
  A torrent whose metadata is pending has no hash yet, and matching a row to it binds the empty hash. From then on the
  row is matched by that hash alone: once the torrent has its hash, no list without a pending torrent
  contains it any more, and with one it is confused with that torrent.
\<close>

lemma empty_hash_binding_loses_torrent:
  assumes q: "quiet_poll P" and uc: "unique_conflict (rows (lib_db s)) = None" and row: "row_by_id (lib_db s) (d_id r) = Some r"
    and r: "d_hash r = None" "has_status r Downloading" and t: "t_hash t = []" "\<not> is_fatal t" "\<not> is_complete t"
    and vis: "\<not> visibility_touch_due (d_updated_at r) (pe_clock E (d_id r))"
  shows "\<exists>out s' r'. process_visible P E p qbit r t s = (Ok out, s') \<and> row_by_id (lib_db s') (d_id r) = Some r' \<and> d_hash r' = Some []
    \<and> (\<forall>ts c. (\<forall>u\<in>set ts. t_hash u \<noteq> []) \<longrightarrow>
         match_inflight_torrent lower (d_hash r') (d_name r') (d_url r') (torrents_by_hash ts) (torrents_by_name lower ts) c = None)"
proof -
  let ?now = "db_env.de_now (po_db P) (ps_stmt (ls_poll s))"
  let ?g = "\<lambda>x. d_id x = d_id r" and ?c = "\<lambda>x. x\<lparr>d_hash := Some [], d_updated_at := ?now\<rparr>"
  note u = row_update [OF uc row, of ?g ?c]
  obtain x db' where x: "sql_update None ?g ?c (lib_db s) = (x, db')" by fastforce
  have "\<exists>n. x = Ok (Suc n)" "row_by_id db' (d_id r) = Some (?c r)" using u(1,2) x by (auto simp: is_active_def)
  then have b: "\<exists>n. bind_hash None ?now (d_id r) [] (lib_db s) = (Ok n, db')" "row_by_id db' (d_id r) = Some (?c r)"
    using x by (auto simp: bind_hash_def best_effort_def)
  have none: "torrents_by_hash ts [] = None" if "\<forall>u\<in>set ts. t_hash u \<noteq> []" for ts
    using that by (auto simp: torrents_by_hash_def map_of_eq_None_iff)
  obtain n where n: "bind_hash None ?now (d_id r) [] (lib_db s) = (Ok n, db')" using b(1) by blast
  have "\<exists>out s'. process_visible P E p qbit r t s = (Ok out, s') \<and> lib_db s' = db'"
    using n r t vis by (simp add: process_visible_def Let_def when_lib_def lib_then_def unit_stmt_def quiet_lib_stmt [OF q])
  then show ?thesis using b(2) none by (auto simp: match_inflight_torrent_def)
qed

section \<open>Witnesses\<close>

definition sample_pass :: "unit pass_env" where
  "sample_pass = \<lparr>pe_complete = (\<lambda>_. sample_complete_env), pe_clock = (\<lambda>_. 0), pe_listing = [''w.zim.part'', ''x.zim.part''],
     pe_removable = (\<lambda>_. True), pe_f32 = (\<lambda>_. 0), pe_alnum = (\<lambda>_. False)\<rparr>"

definition direct_row :: download_row where
  "direct_row = (default_row 0 ''w.zim'' ''https://m/w.zim'' (as_str Downloading) 1)\<lparr>d_file_path := Some ''data/w.zim.part''\<rparr>"

definition resume_lib :: "(unit, unit) lib_state" where
  "resume_lib = (sample_lib \<lparr>rows = [direct_row], next_id = 2\<rparr>)
     \<lparr>ls_fs := [[''data'', ''w.zim.part''] \<mapsto> \<lparr>f_inode = 1, f_content = ''ab'', f_mtime = 0\<rparr>,
                [''data'', ''x.zim.part''] \<mapsto> \<lparr>f_inode = 2, f_content = ''cd'', f_mtime = 0\<rparr>]\<rparr>"

theorem restart_keeps_resumable_parts_witness:
  "map_option f_content (ls_fs (snd (poller_reconcile (idle_poller\<lparr>po_zim_dir := ''data''\<rparr>) sample_pass idle_params None resume_lib))
     [''data'', ''w.zim.part'']) = Some ''ab''"
proof -
  let ?P = "idle_poller\<lparr>po_zim_dir := ''data''\<rparr>"
  have url: "zim_url_predicate ''https://m/w.zim''" by (simp add: zim_url_predicate_def url_eval)
  have "ls_fs (snd (poller_reconcile ?P sample_pass idle_params None resume_lib)) [''data'', ''w.zim.part''] = ls_fs resume_lib [''data'', ''w.zim.part'']"
  proof (rule restart_keeps_resumable_parts [where r = direct_row])
    show "direct_row \<in> set (rows (seen_db ?P 0 resume_lib))"
      by (simp add: idle_poller_def resume_lib_def sample_lib_def idle_state_def)
    show "resumable direct_row" using url by (simp add: resumable_def direct_row_def default_row_def)
    show "is_part [''data'', ''w.zim.part'']"
      by (simp add: is_part_def extension_def rsplit_once_def tmp_like_def starts_with_def)
    show "po_zim_dir ?P = path_display (zim_dir_of resume_lib)"
      by (simp add: resume_lib_def sample_lib_def zim_manager_new_def path_display_def)
    show "\<not> starts_with (d_name direct_row) ''/''" by (simp add: direct_row_def default_row_def starts_with_def)
    show "path_display [''data'', ''w.zim.part''] = Queue.part_path ?P (d_name direct_row) \<or> d_file_path direct_row = Some (path_display [''data'', ''w.zim.part''])"
      by (simp add: direct_row_def path_display_def)
  qed
  then show ?thesis by (simp add: resume_lib_def)
qed

theorem opds_updates_queued_once_witness:
  "\<exists>s' new. queue_opds_updates idle_poller [\<lparr>up_local_name = ''w'', up_catalog_name = ''w2'', up_title = None, up_download_url = ''u'', up_digest = None\<rparr>]
       (sample_lib (one_row Downloading)) = (Ok (), s')
     \<and> rows (lib_db s') = rows (one_row Downloading) @ new"
  using opds_updates_queued_once [where P = idle_poller and s = "sample_lib (one_row Downloading)"
      and us = "[\<lparr>up_local_name = ''w'', up_catalog_name = ''w2'', up_title = None, up_download_url = ''u'', up_digest = None\<rparr>]"]
    one_row_inv [of Downloading]
  by (auto simp: quiet_poll_def idle_poller_def sample_lib_def idle_state_def db_inv_def id_def)

definition down_poller :: "unit poller" where
  "down_poller = idle_poller\<lparr>po_qbit := (po_qbit idle_poller)\<lparr>qe_send := (\<lambda>_ _ w. (Inl ''refused'', w))\<rparr>\<rparr>"

theorem outage_keeps_transfers_witness:
  "rows_of (lib_db (snd (snd (tick down_poller sample_pass True idle_params 4 (\<lambda>_. True) \<lparr>last_error = fmempty, requeue_passes = 0\<rparr>
     (sample_lib (one_row Downloading)))))) 1 = rows (one_row Downloading)"
proof -
  let ?run = "tick down_poller sample_pass True idle_params 4 (\<lambda>_. True) \<lparr>last_error = fmempty, requeue_passes = 0\<rparr> (sample_lib (one_row Downloading))"
  have "rows_of (lib_db (snd (snd ?run))) 1 = [default_row 0 ''wiki'' ''magnet:x'' (as_str Downloading) 1]"
  proof (rule outage_keeps_transfers)
    show "qbit_down down_poller" by (simp add: qbit_down_def down_poller_def)
    show "leaves_alone (po_db down_poller) 1" by (simp add: leaves_alone_def down_poller_def idle_poller_def)
    show "?run = (fst ?run, fst (snd ?run), snd (snd ?run))" by simp
  qed (simp_all add: sample_lib_def idle_state_def one_row_def default_row_def rows_of_def)
  then show ?thesis by (simp add: one_row_def)
qed

end
