(* ===== verification/Articles.thy ===== *)
theory Articles
  imports Zims Opds Requeue SettingsCache
begin

text \<open>
  What indexing takes out of one archive (\<open>src/zim/index.rs\<close>): the choice of the namespace, the article
  row of an entry with its preview, snippet and Wikidata number, and the text format in which rows are
  sent to the database.

  The \<open>zim\<close> crate is the record \<open>zim_archive\<close>; \<open>deformat\<close>, the \<open>regex\<close> matches and the date parser are
  the record \<open>text_ops\<close>. The meaning of the \<open>COPY\<close> text format is the one the Postgres manual gives.
\<close>

section \<open>Strings\<close>

definition take_chars :: "nat \<Rightarrow> string \<Rightarrow> string" where
  "take_chars n s = concat (take n (utf8_chars s))"

definition char_count :: "string \<Rightarrow> nat" where
  "char_count s = length (filter (\<lambda>c. \<not> is_continuation c) s)"

text \<open>\<open>ceil_char_boundary\<close>: the smallest character boundary at or above the index.\<close>

definition ceil_char_boundary :: "string \<Rightarrow> nat \<Rightarrow> nat" where
  "ceil_char_boundary s i =
     (if i \<ge> length s then length s else i + length (takeWhile is_continuation (drop i s)))"

text \<open>\<open>str::lines\<close>: split at line feeds, without a carriage return before one, and without an empty last line.\<close>

definition str_lines :: "string \<Rightarrow> string list" where
  "str_lines s =
     (let ls = split_on CHR 0x0A s;
          ls = (if ls \<noteq> [] \<and> last ls = [] then butlast ls else ls)
      in map (\<lambda>l. if l \<noteq> [] \<and> last l = CHR 0x0D then butlast l else l) ls)"

text \<open>\<open>String::from_utf8_lossy\<close>: every maximal ill-formed part becomes U+FFFD.\<close>

definition REPLACEMENT :: string where "REPLACEMENT = bytes_str [0xEF, 0xBF, 0xBD]"

definition second_ok :: "char \<Rightarrow> char \<Rightarrow> bool" where
  "second_ok a b \<longleftrightarrow>
     byte_in (if ascii a = 0xE0 then 0xA0 else if ascii a = 0xF0 then 0x90 else 0x80)
             (if ascii a = 0xED then 0x9F else if ascii a = 0xF4 then 0x8F else 0xBF) b"

fun from_utf8_lossy :: "string \<Rightarrow> string" where
  "from_utf8_lossy [] = []"
| "from_utf8_lossy (a # s) =
     (if byte_in 0 127 a then a # from_utf8_lossy s
      else if \<not> byte_in 0xC2 0xF4 a then REPLACEMENT @ from_utf8_lossy s
      else (case s of
        b # s2 \<Rightarrow>
          if \<not> second_ok a b then REPLACEMENT @ from_utf8_lossy s
          else if byte_in 0xC2 0xDF a then a # b # from_utf8_lossy s2
          else (case s2 of
            c # s3 \<Rightarrow>
              if \<not> is_continuation c then REPLACEMENT @ from_utf8_lossy s2
              else if byte_in 0xE0 0xEF a then a # b # c # from_utf8_lossy s3
              else (case s3 of
                d # s4 \<Rightarrow>
                  if \<not> is_continuation d then REPLACEMENT @ from_utf8_lossy s3
                  else a # b # c # d # from_utf8_lossy s4
              | [] \<Rightarrow> REPLACEMENT)
          | [] \<Rightarrow> REPLACEMENT)
      | [] \<Rightarrow> REPLACEMENT))"

text \<open>\<open>to_lowercase\<close> as far as its ASCII letters go: besides the ASCII capitals, U+212A has the lower-case
  letter \<open>k\<close> and U+0130 an \<open>i\<close> with a combining dot.\<close>

fun lower_view :: "string \<Rightarrow> string" where
  "lower_view [] = []"
| "lower_view (a # s) =
     (case s of
        b # s2 \<Rightarrow>
          if a = CHR 0xC4 \<and> b = CHR 0xB0 then CHR ''i'' # CHR 0xCC # CHR 0x87 # lower_view s2
          else (case s2 of
                  c # s3 \<Rightarrow> if a = CHR 0xE2 \<and> b = CHR 0x84 \<and> c = CHR 0xAA then CHR ''k'' # lower_view s3
                           else lower_char a # lower_view s
                | [] \<Rightarrow> lower_char a # lower_view s)
      | [] \<Rightarrow> [lower_char a])"

section \<open>The archive\<close>

datatype zim_mime = MimeType string | OtherMime

record zim_dirent =
  dn_url :: string
  dn_title :: string
  dn_mime :: zim_mime
  dn_index :: nat

record zim_content =
  co_bytes :: "string option"
  co_len :: "nat option"

datatype zim_namespace = Articles | UserContent

text \<open>The calls of the \<open>zim\<close> crate; a failed call and a missing value are both \<open>None\<close>, as the code treats them alike.\<close>

record zim_archive =
  za_metadata :: "string \<Rightarrow> string option"
  za_namespace_range :: "zim_namespace \<Rightarrow> (nat \<times> nat) option"
  za_article_count :: nat
  za_get_by_url_index :: "nat \<Rightarrow> zim_dirent option"
  za_resolve :: "zim_dirent \<Rightarrow> zim_dirent option"
  za_entry_content :: "zim_dirent \<Rightarrow> zim_content option"

record text_ops =
  tx_strip :: "string \<Rightarrow> string"
  tx_readability :: "string \<Rightarrow> string \<Rightarrow> string option" \<comment> \<open>the excerpt\<close>
  tx_qid_captures :: "string \<Rightarrow> (string \<times> bool) list" \<comment> \<open>the matches, with the fragment or without\<close>
  tx_collapse :: "string \<Rightarrow> string" \<comment> \<open>the replacement of three and more line feeds\<close>
  tx_parse_date :: "string \<Rightarrow> string \<Rightarrow> string option" \<comment> \<open>by format; the date as text\<close>

definition find_article_namespace :: "zim_archive \<Rightarrow> (zim_namespace \<times> nat \<times> nat, error) result" where
  "find_article_namespace A =
     (case za_namespace_range A Articles of
        Some (a, b) \<Rightarrow> if b > a then Ok (Articles, a, b)
          else (case za_namespace_range A UserContent of
                  Some (a, b) \<Rightarrow> if b > a then Ok (UserContent, a, b) else Err (Zim ''no article namespace found in ZIM'')
                | None \<Rightarrow> Err (Zim ''no article namespace found in ZIM''))
      | None \<Rightarrow>
          (case za_namespace_range A UserContent of
             Some (a, b) \<Rightarrow> if b > a then Ok (UserContent, a, b) else Err (Zim ''no article namespace found in ZIM'')
           | None \<Rightarrow> Err (Zim ''no article namespace found in ZIM'')))"

definition first_entry_content_key :: "zim_archive \<Rightarrow> nat \<Rightarrow> string" where
  "first_entry_content_key A start_idx =
     (case za_get_by_url_index A start_idx of
        None \<Rightarrow> []
      | Some entry \<Rightarrow>
          (case za_resolve A entry of
             None \<Rightarrow> []
           | Some resolved \<Rightarrow>
               (case za_entry_content A resolved of
                  None \<Rightarrow> []
                | Some content \<Rightarrow>
                    (case co_len content of
                       Some n \<Rightarrow> dn_url entry @ '':'' @ decimal_digits n
                     | None \<Rightarrow> []))))"

definition read_metadata :: "zim_archive \<Rightarrow> string \<Rightarrow> string option" where
  "read_metadata A key = map_option (\<lambda>bytes. trim (from_utf8_lossy bytes)) (za_metadata A key)"

definition ZIM_DATE_FMTS :: "string list" where
  "ZIM_DATE_FMTS = [''%Y-%m-%d'', ''%Y-%m-%d %H:%M:%S'', ''%Y/%m/%d'', ''%d/%m/%Y'', ''%Y%m%d'', ''%Y-%m-%dT%H:%M:%S'']"

definition parse_zim_date :: "text_ops \<Rightarrow> string \<Rightarrow> string option" where
  "parse_zim_date T s = find_map (\<lambda>fmt. tx_parse_date T fmt (trim s)) ZIM_DATE_FMTS"

definition is_wikipedia :: "string \<Rightarrow> string \<Rightarrow> string option \<Rightarrow> string option \<Rightarrow> bool" where
  "is_wikipedia name language description publisher \<longleftrightarrow>
     (case lower_view language of c # _ \<Rightarrow> 97 \<le> ascii c \<and> ascii c \<le> 122 | [] \<Rightarrow> False)
     \<and> ((case description of Some d \<Rightarrow> str_contains (lower_view d) ''wikipedia'' | None \<Rightarrow> False)
        \<or> (case publisher of Some p \<Rightarrow> str_contains (lower_view p) ''wikipedia'' | None \<Rightarrow> False)
        \<or> str_contains (lower_view name) ''wikipedia'' \<or> str_contains (lower_view name) ''wiki_'')"

section \<open>One article\<close>

definition PREVIEW_CHARS :: nat where "PREVIEW_CHARS = 2000"
definition QID_SCAN_BYTES :: nat where "QID_SCAN_BYTES = 512 * 1024"
definition STRIP_HEAD_BYTES :: nat where "STRIP_HEAD_BYTES = 256 * 1024"
definition MAX_ENTRY_SCAN_BYTES :: nat where "MAX_ENTRY_SCAN_BYTES = 32 * 1024 * 1024"
definition MAX_TEXT_CHARS :: nat where "MAX_TEXT_CHARS = 64000"

record article_row =
  ar_path :: string
  ar_title :: string
  ar_content_preview :: "string option"
  ar_snippet :: string
  ar_language :: string
  ar_qid :: "nat option"

definition strip_head :: "string \<Rightarrow> string" where
  "strip_head html =
     (if length html \<le> STRIP_HEAD_BYTES then html else take (floor_char_boundary html STRIP_HEAD_BYTES) html)"

definition derive_title_from_path :: "string \<Rightarrow> string" where
  "derive_title_from_path url = map (\<lambda>c. if c = CHR ''_'' then CHR '' '' else c) (last (split_on CHR ''/'' url))"

text \<open>\<open>rfind\<close> of a sentence end, as the length of the prefix that ends with it.\<close>

definition last_sentence_end :: "string \<Rightarrow> nat option" where
  "last_sentence_end s =
     (let tail = takeWhile (\<lambda>c. c \<notin> {CHR ''.'', CHR ''!'', CHR ''?''}) (rev s)
      in if length tail = length s then None else Some (length s - length tail))"

definition ELLIPSIS :: string where "ELLIPSIS = bytes_str [0xE2, 0x80, 0xA6]"

definition truncate_at_sentence :: "string \<Rightarrow> nat \<Rightarrow> string" where
  "truncate_at_sentence s max_bytes =
     (if length s \<le> max_bytes then s
      else let cut = floor_char_boundary s max_bytes;
               boundary = (case last_sentence_end (take cut s) of Some b \<Rightarrow> b | None \<Rightarrow> cut)
           in trim_end (take boundary s) @ ELLIPSIS)"

definition HATNOTE_PREFIXES :: "string list" where
  "HATNOTE_PREFIXES = [''Main article'', ''Main topic'', ''For other uses'', ''Part of a series on'',
     ''This article is about'', ''Not to be confused'', ''This list is incomplete'', ''See also'', ''In other'']"

fun first_paragraph :: "string list \<Rightarrow> string option" where
  "first_paragraph [] = None"
| "first_paragraph (l # ls) =
     (let trimmed = trim l
      in if length trimmed < 50 then first_paragraph ls
         else if list_ex (starts_with trimmed) HATNOTE_PREFIXES then first_paragraph ls
         else Some (truncate_at_sentence trimmed 300))"

definition generate_snippet :: "text_ops \<Rightarrow> string \<Rightarrow> string \<Rightarrow> string \<Rightarrow> string" where
  "generate_snippet T txt html url =
     (case (if length html \<le> 200000 then tx_readability T html url else None) of
        Some excerpt \<Rightarrow>
          if trim excerpt \<noteq> [] then truncate_at_sentence excerpt 300
          else (case first_paragraph (str_lines txt) of Some p \<Rightarrow> p | None \<Rightarrow> take_chars 200 txt)
      | None \<Rightarrow> (case first_paragraph (str_lines txt) of Some p \<Rightarrow> p | None \<Rightarrow> take_chars 200 txt))"

text \<open>\<open>q_str[1..].parse::<i64>()\<close>: the match starts with \<open>Q\<close>.\<close>

fun pick_qid :: "nat option \<Rightarrow> (string \<times> bool) list \<Rightarrow> nat option" where
  "pick_qid first_qid [] = first_qid"
| "pick_qid first_qid ((q_str, is_identifiers) # caps) =
     (case parse_unsigned 63 (tl q_str) of
        None \<Rightarrow> pick_qid first_qid caps
      | Some num \<Rightarrow>
          if is_identifiers then Some num
          else pick_qid (case first_qid of None \<Rightarrow> Some num | Some q \<Rightarrow> Some q) caps)"

definition extract_qid :: "text_ops \<Rightarrow> string \<Rightarrow> nat option" where
  "extract_qid T html = pick_qid None (tx_qid_captures T html)"

definition extract_qid_windowed :: "text_ops \<Rightarrow> string \<Rightarrow> nat option" where
  "extract_qid_windowed T html = extract_qid T (take (ceil_char_boundary html (min QID_SCAN_BYTES (length html))) html)"

definition is_text_mime :: "zim_mime \<Rightarrow> bool" where
  "is_text_mime mime = (case mime of MimeType s \<Rightarrow> s = ''text/html'' \<or> starts_with s ''text/'' | OtherMime \<Rightarrow> False)"

definition article_of_html :: "text_ops \<Rightarrow> string \<Rightarrow> string \<Rightarrow> string \<Rightarrow> bool \<Rightarrow> string \<Rightarrow> article_row option" where
  "article_of_html T original_path title language is_wiki html =
     (let txt = tx_strip T (strip_head html)
      in if trim txt = [] then None
         else
           let txt = (if length txt > MAX_TEXT_CHARS then take_chars MAX_TEXT_CHARS txt else txt);
               txt = tx_collapse T txt
           in Some \<lparr>ar_path = original_path, ar_title = title,
                    ar_content_preview = Some (take_chars PREVIEW_CHARS txt),
                    ar_snippet = generate_snippet T txt html original_path, ar_language = language,
                    ar_qid = (if is_wiki then extract_qid_windowed T html else None)\<rparr>)"

definition extract_entry :: "text_ops \<Rightarrow> zim_archive \<Rightarrow> nat \<Rightarrow> string \<Rightarrow> bool \<Rightarrow> article_row option" where
  "extract_entry T A idx language is_wiki =
     Option.bind (za_get_by_url_index A idx) (\<lambda>entry.
       if \<not> is_text_mime (dn_mime entry) then None
       else Option.bind (za_resolve A entry) (\<lambda>resolved.
         let title = (if dn_title entry = [] then derive_title_from_path (dn_url entry) else dn_title entry)
         in Option.bind (za_entry_content A resolved) (\<lambda>content.
              Option.bind (co_bytes content) (\<lambda>bytes.
                let html_bytes = take MAX_ENTRY_SCAN_BYTES bytes
                in if html_bytes = [] then None
                   else article_of_html T (dn_url entry) title language is_wiki (from_utf8_lossy html_bytes)))))"

section \<open>The COPY text format\<close>

definition octal_digit :: "nat \<Rightarrow> char" where "octal_digit n = char_of (48 + n mod 8)"

text \<open>Characters outside ASCII consist of bytes from \<open>0x80\<close> on, which are copied.\<close>

definition escape_char :: "char \<Rightarrow> string" where
  "escape_char c =
     (if c = CHR 0x5C then [CHR 0x5C, CHR 0x5C]
      else if c = CHR 0x0A then [CHR 0x5C, CHR ''n'']
      else if c = CHR 0x0D then [CHR 0x5C, CHR ''r'']
      else if c = CHR 0x09 then [CHR 0x5C, CHR ''t'']
      else if ascii c < 0x20
      then [CHR 0x5C, char_of (48 + ascii c div 64 mod 4), octal_digit (ascii c div 8), octal_digit (ascii c)]
      else [c])"

definition escape_copy_text :: "string \<Rightarrow> string" where
  "escape_copy_text s = concat (map escape_char s)"

definition copy_line :: "string \<Rightarrow> int \<Rightarrow> article_row \<Rightarrow> string" where
  "copy_line namespace zim_id row =
     escape_copy_text (ar_path row) @ [CHR 0x09] @ escape_copy_text (ar_title row) @ [CHR 0x09]
     @ (case ar_content_preview row of Some s \<Rightarrow> escape_copy_text s | None \<Rightarrow> [CHR 0x5C, CHR ''N'']) @ [CHR 0x09]
     @ escape_copy_text (ar_snippet row) @ [CHR 0x09] @ escape_copy_text (ar_language row) @ [CHR 0x09]
     @ escape_copy_text namespace @ [CHR 0x09] @ int_text zim_id @ [CHR 0x0A]"

definition copy_payload :: "string \<Rightarrow> int \<Rightarrow> article_row list \<Rightarrow> string" where
  "copy_payload namespace zim_id batch = concat (map (copy_line namespace zim_id) batch)"

text \<open>The reader of the database: a backslash protects the next character from ending a field or a row; a
  field that is exactly \<open>\N\<close> is null; escapes are the letters of the manual, one to three octal digits, or
  \<open>x\<close> with one or two hexadecimal digits, and any other character stands for itself.\<close>

fun copy_scan :: "string \<Rightarrow> string list \<Rightarrow> string \<Rightarrow> string list list" where
  "copy_scan cur fs [] = (if cur = [] \<and> fs = [] then [] else [fs @ [cur]])"
| "copy_scan cur fs (c # cs) =
     (if c = CHR 0x5C
      then (case cs of d # ds \<Rightarrow> copy_scan (cur @ [c, d]) fs ds | [] \<Rightarrow> copy_scan (cur @ [c]) fs [])
      else if c = CHR 0x09 then copy_scan [] (fs @ [cur]) cs
      else if c = CHR 0x0A then (fs @ [cur]) # copy_scan [] [] cs
      else copy_scan (cur @ [c]) fs cs)"

definition is_octal :: "char \<Rightarrow> bool" where "is_octal c \<longleftrightarrow> 48 \<le> ascii c \<and> ascii c \<le> 55"

definition octal_value :: "string \<Rightarrow> nat" where
  "octal_value ds = foldl (\<lambda>n c. 8 * n + (ascii c - 48)) 0 ds"

definition hex_number :: "string \<Rightarrow> nat" where
  "hex_number ds = foldl (\<lambda>n c. 16 * n + (case hex_value c of Some v \<Rightarrow> v | None \<Rightarrow> 0)) 0 ds"

definition letter_escape :: "char \<Rightarrow> char" where
  "letter_escape c =
     (if c = CHR ''b'' then CHR 0x08 else if c = CHR ''f'' then CHR 0x0C else if c = CHR ''n'' then CHR 0x0A
      else if c = CHR ''r'' then CHR 0x0D else if c = CHR ''t'' then CHR 0x09 else if c = CHR ''v'' then CHR 0x0B else c)"

function copy_unescape :: "string \<Rightarrow> string" where
  "copy_unescape [] = []"
| "copy_unescape (c # cs) =
     (if c \<noteq> CHR 0x5C then c # copy_unescape cs
      else (case cs of
              [] \<Rightarrow> [c]
            | d # ds \<Rightarrow>
                let oct = takeWhile is_octal (take 3 (d # ds)); hexa = takeWhile is_ascii_hexdigit (take 2 ds)
                in if oct \<noteq> [] then char_of (octal_value oct mod 256) # copy_unescape (drop (length oct) (d # ds))
                   else if d = CHR ''x'' \<and> hexa \<noteq> [] then char_of (hex_number hexa) # copy_unescape (drop (length hexa) ds)
                   else letter_escape d # copy_unescape ds))"
  by pat_completeness auto

termination copy_unescape
  by (relation "measure length") auto

definition copy_field :: "string \<Rightarrow> string option" where
  "copy_field raw = (if raw = [CHR 0x5C, CHR ''N''] then None else Some (copy_unescape raw))"

definition copy_parse :: "string \<Rightarrow> string option list list" where
  "copy_parse payload = map (map copy_field) (copy_scan [] [] payload)"

definition row_fields :: "string \<Rightarrow> int \<Rightarrow> article_row \<Rightarrow> string option list" where
  "row_fields namespace zim_id row =
     [Some (ar_path row), Some (ar_title row), ar_content_preview row, Some (ar_snippet row), Some (ar_language row),
      Some namespace, Some (int_text zim_id)]"

text \<open>A row of \<open>articles_staging\<close>. A value with a zero byte is no text for the database (SQLSTATE 22021).\<close>

record staged_row =
  sg_path :: string
  sg_title :: string
  sg_content_preview :: "string option"
  sg_snippet :: string
  sg_language :: string
  sg_namespace :: string
  sg_zim_id :: int

definition parse_int4 :: "string \<Rightarrow> int option" where
  "parse_int4 s =
     (case s of
        [] \<Rightarrow> None
      | c # cs \<Rightarrow> if c = CHR ''-'' then map_option (\<lambda>n. - int n) (parse_unsigned 31 cs)
                 else map_option int (parse_unsigned 31 s))"

fun staged_of_fields :: "string option list \<Rightarrow> (staged_row, sqlx_error) result" where
  "staged_of_fields [Some path, Some title, content_preview, Some snippet, Some language, Some namespace, Some zid] =
     (if list_ex (\<lambda>s. CHR 0x00 \<in> set s) [path, title, case content_preview of Some p \<Rightarrow> p | None \<Rightarrow> [], snippet, language, namespace]
      then Err (DatabaseError (Some ''22021'') None)
      else (case parse_int4 zid of
              Some i \<Rightarrow> Ok \<lparr>sg_path = path, sg_title = title, sg_content_preview = content_preview, sg_snippet = snippet,
                           sg_language = language, sg_namespace = namespace, sg_zim_id = i\<rparr>
            | None \<Rightarrow> Err (DatabaseError (Some ''22P02'') None)))"
| "staged_of_fields _ = Err (DatabaseError (Some ''22P04'') None)"

fun staged_rows :: "string option list list \<Rightarrow> (staged_row list, sqlx_error) result" where
  "staged_rows [] = Ok []"
| "staged_rows (f # fs) = and_then (staged_of_fields f) (\<lambda>r. and_then (staged_rows fs) (\<lambda>rs. Ok (r # rs)))"

definition copy_in :: "string \<Rightarrow> (staged_row list, sqlx_error) result" where
  "copy_in payload = staged_rows (copy_parse payload)"

definition stage :: "string \<Rightarrow> int \<Rightarrow> article_row \<Rightarrow> staged_row" where
  "stage namespace zim_id row =
     \<lparr>sg_path = ar_path row, sg_title = ar_title row, sg_content_preview = ar_content_preview row,
      sg_snippet = ar_snippet row, sg_language = ar_language row, sg_namespace = namespace, sg_zim_id = zim_id\<rparr>"

definition storable_text :: "article_row \<Rightarrow> bool" where
  "storable_text row \<longleftrightarrow> CHR 0x00 \<notin> set (ar_path row) \<union> set (ar_title row) \<union> set (case ar_content_preview row of Some p \<Rightarrow> p | None \<Rightarrow> [])
     \<union> set (ar_snippet row) \<union> set (ar_language row)"

section \<open>The COPY round trip\<close>

text \<open>A text a scan passes over: it ends no field, no row and no escape.\<close>

definition scan_through :: "string \<Rightarrow> bool" where
  "scan_through s \<longleftrightarrow> (\<forall>cur fs rest. copy_scan cur fs (s @ rest) = copy_scan (cur @ s) fs rest)"

lemma scan_through_append: "scan_through s \<Longrightarrow> scan_through t \<Longrightarrow> scan_through (s @ t)"
  by (simp add: scan_through_def)

lemma scan_through_plain:
  "(\<And>c. c \<in> set s \<Longrightarrow> c \<noteq> CHR 0x5C \<and> c \<noteq> CHR 0x09 \<and> c \<noteq> CHR 0x0A) \<Longrightarrow> scan_through s"
proof (induction s)
  case (Cons c s)
  then have "scan_through s" by simp
  then show ?case using Cons.prems [of c] by (auto simp: scan_through_def)
qed (simp add: scan_through_def)

lemma octal_digit_octal: "is_octal (octal_digit n)" "ascii (octal_digit n) - 48 = n mod 8"
  by (simp_all add: is_octal_def octal_digit_def ascii_char_of)

lemma is_octal_plain: "is_octal c \<Longrightarrow> c \<noteq> CHR 0x5C \<and> c \<noteq> CHR 0x09 \<and> c \<noteq> CHR 0x0A"
  by (auto simp: is_octal_def ascii_def)

lemma scan_through_escape: "scan_through (escape_char c)"
proof -
  have esc: "scan_through (CHR 0x5C # d # ds)" if "scan_through ds" for d ds
    using that by (simp add: scan_through_def)
  have "scan_through [octal_digit a, octal_digit b]" for a b
    using octal_digit_octal(1) is_octal_plain by (intro scan_through_plain) auto
  then show ?thesis
    unfolding escape_char_def using esc
    by (auto intro!: scan_through_plain simp: scan_through_def [of "[]"])
qed

lemma scan_through_text: "scan_through (escape_copy_text s)"
proof (induction s)
  case (Cons c s)
  then show ?case using scan_through_append [OF scan_through_escape, of "escape_copy_text s" c]
    by (simp add: escape_copy_text_def)
qed (simp add: escape_copy_text_def scan_through_def)

lemma unescape_octal:
  assumes "is_octal a" "is_octal b" "is_octal d"
  shows "copy_unescape (CHR 0x5C # a # b # d # t) = char_of (octal_value [a, b, d] mod 256) # copy_unescape t"
proof -
  have oct: "takeWhile is_octal (take 3 (a # b # d # t)) = [a, b, d]" using assms by (simp add: numeral_3_eq_3)
  show ?thesis
    unfolding copy_unescape.simps(2) [of "CHR 0x5C"] list.case Let_def oct by (simp del: copy_unescape.simps(2))
qed

lemma unescape_letter:
  assumes "\<not> is_octal d" "d \<noteq> CHR ''x''"
  shows "copy_unescape (CHR 0x5C # d # t) = letter_escape d # copy_unescape t"
proof -
  have oct: "takeWhile is_octal (take 3 (d # t)) = []" using assms(1) by (simp add: numeral_3_eq_3)
  show ?thesis
    unfolding copy_unescape.simps(2) [of "CHR 0x5C"] list.case Let_def oct using assms(2) by (simp del: copy_unescape.simps(2))
qed

lemma unescape_escape: "copy_unescape (escape_char c @ t) = c # copy_unescape t"
proof (cases "ascii c < 32 \<and> c \<notin> {CHR 0x0A, CHR 0x0D, CHR 0x09}")
  case True
  let ?a = "char_of (48 + ascii c div 64 mod 4)" and ?b = "octal_digit (ascii c div 8)" and ?d = "octal_digit (ascii c)"
  have "ascii c div 64 = 0" using True by simp
  then have a: "is_octal ?a" "ascii ?a - 48 = 0" by (simp_all add: is_octal_def ascii_char_of)
  have ec: "escape_char c = [CHR 0x5C, ?a, ?b, ?d]" using True by (auto simp: escape_char_def ascii_def)
  have "octal_value [?a, ?b, ?d] = 8 * (ascii c div 8 mod 8) + ascii c mod 8"
    using a(2) octal_digit_octal(2) [of "ascii c div 8"] octal_digit_octal(2) [of "ascii c"] by (simp add: octal_value_def)
  also have "\<dots> = ascii c"
  proof -
    have "ascii c div 8 < 8" using True by auto
    then show ?thesis by simp
  qed
  finally have v: "octal_value [?a, ?b, ?d] = ascii c" .
  have "copy_unescape (escape_char c @ t) = char_of (ascii c mod 256) # copy_unescape t"
    using unescape_octal [of ?a ?b ?d t] a(1) octal_digit_octal(1) by (simp add: ec v del: copy_unescape.simps(2))
  then show ?thesis by (simp add: ascii_def)
next
  case False
  have no: "\<not> is_octal CHR 0x5C" "\<not> is_octal CHR ''n''" "\<not> is_octal CHR ''r''" "\<not> is_octal CHR ''t''"
    by (simp_all add: is_octal_def ascii_def)
  show ?thesis
  proof (cases "c = CHR 0x5C \<or> c = CHR 0x0A \<or> c = CHR 0x0D \<or> c = CHR 0x09")
    case True
    then show ?thesis
      by (elim disjE)
        (simp_all add: escape_char_def unescape_letter no letter_escape_def del: copy_unescape.simps(2))
  next
    case False
    then have "escape_char c = [c]" using \<open>\<not> (ascii c < 32 \<and> _)\<close> by (simp add: escape_char_def)
    then show ?thesis using False by simp
  qed
qed

lemma unescape_text: "copy_unescape (escape_copy_text s) = s"
  by (induction s) (simp_all add: escape_copy_text_def unescape_escape)

lemma escape_char_head: "escape_char c \<noteq> [] \<and> escape_char c \<noteq> [CHR 0x5C, CHR ''N'']
    \<and> (\<exists>d ds. escape_char c = d # ds \<and> (d = CHR 0x5C \<longrightarrow> (\<exists>e es. ds = e # es \<and> e \<noteq> CHR ''N'')))"
proof -
  have "char_of (48 + ascii c div 64 mod 4) \<noteq> CHR ''N''"
  proof
    assume "char_of (48 + ascii c div 64 mod 4) = CHR ''N''"
    then have "ascii (char_of (48 + ascii c div 64 mod 4)) = 78" by (simp add: ascii_def)
    moreover have "ascii c div 64 mod 4 < 4" by simp
    ultimately show False by (simp add: ascii_char_of)
  qed
  then show ?thesis by (auto simp: escape_char_def)
qed

lemma field_text: "copy_field (escape_copy_text s) = Some s"
proof -
  have "escape_copy_text s \<noteq> [CHR 0x5C, CHR ''N'']"
  proof (cases s)
    case (Cons c cs)
    then show ?thesis using escape_char_head [of c] by (auto simp: escape_copy_text_def)
  qed (simp add: escape_copy_text_def)
  then show ?thesis by (simp add: copy_field_def unescape_text)
qed

lemma decimal_digits_plain: "c \<in> set (decimal_digits n) \<Longrightarrow> is_ascii_digit c"
proof (induction n rule: decimal_digits.induct)
  case (1 n)
  then show ?case
    by (cases "n < 10") (auto simp: decimal_digits.simps [of n] is_ascii_digit_def ascii_char_of)
qed

lemma int_text_plain: "c \<in> set (int_text i) \<Longrightarrow> c = CHR ''-'' \<or> is_ascii_digit c"
  by (auto simp: int_text_def dest: decimal_digits_plain split: if_splits)

lemma digit_plain: "is_ascii_digit c \<Longrightarrow> c \<noteq> CHR 0x5C \<and> c \<noteq> CHR 0x09 \<and> c \<noteq> CHR 0x0A"
  by (auto simp: is_ascii_digit_def ascii_def)

lemma unescape_plain: "CHR 0x5C \<notin> set s \<Longrightarrow> copy_unescape s = s"
  by (induction s) auto

lemma int_text_through: "scan_through (int_text i)" "copy_field (int_text i) = Some (int_text i)"
proof -
  have pl: "c \<noteq> CHR 0x5C \<and> c \<noteq> CHR 0x09 \<and> c \<noteq> CHR 0x0A" if "c \<in> set (int_text i)" for c
    using int_text_plain [OF that] digit_plain by auto
  then show "scan_through (int_text i)" by (intro scan_through_plain)
  have "CHR 0x5C \<notin> set (int_text i)" using pl by blast
  then show "copy_field (int_text i) = Some (int_text i)" by (auto simp: copy_field_def unescape_plain)
qed

lemma scan_field: "scan_through s \<Longrightarrow> copy_scan [] fs (s @ CHR 0x09 # rest) = copy_scan [] (fs @ [s]) rest"
  by (simp add: scan_through_def)

lemma scan_row: "scan_through s \<Longrightarrow> copy_scan [] fs (s @ CHR 0x0A # rest) = (fs @ [s]) # copy_scan [] [] rest"
  by (simp add: scan_through_def)

lemma scan_null: "scan_through [CHR 0x5C, CHR ''N'']"
  by (simp add: scan_through_def)

lemma copy_parse_line:
  "copy_parse (copy_line ns i row @ rest) = row_fields ns i row # copy_parse rest"
proof -
  let ?pre = "case ar_content_preview row of Some s \<Rightarrow> escape_copy_text s | None \<Rightarrow> [CHR 0x5C, CHR ''N'']"
  have pre: "scan_through ?pre" "copy_field ?pre = ar_content_preview row"
    by (cases "ar_content_preview row"; simp add: scan_null scan_through_text field_text; simp add: copy_field_def)+
  show ?thesis
    by (simp add: copy_parse_def copy_line_def row_fields_def scan_field scan_row scan_through_text pre
        int_text_through field_text)
qed

lemma copy_parse_payload:
  "copy_parse (copy_payload namespace zim_id batch) = map (row_fields namespace zim_id) batch"
proof (induction batch)
  case (Cons row batch)
  then show ?case by (simp add: copy_payload_def copy_parse_line)
qed (simp add: copy_payload_def copy_parse_def)

lemma parse_int4_text:
  assumes "- (2 ^ 31) < i" "i < 2 ^ 31"
  shows "parse_int4 (int_text i) = Some i"
proof (cases "i < 0")
  case True
  then have "nat (- i) < 2 ^ 31" using assms(1) by (simp add: nat_less_iff)
  then show ?thesis using True by (simp add: parse_int4_def int_text_def parse_decimal)
next
  case False
  then have n: "nat i < 2 ^ 31" using assms(2) by (simp add: nat_less_iff)
  obtain c cs where d: "decimal_digits (nat i) = c # cs" "is_ascii_digit c"
    using decimal_digits_props [of "nat i"] by (cases "decimal_digits (nat i)") auto
  then have "c \<noteq> CHR ''-''" by (auto simp: is_ascii_digit_def ascii_def)
  then show ?thesis using False d(1) parse_decimal [OF n] by (simp add: parse_int4_def int_text_def)
qed

lemma copy_in_payload:
  assumes "- (2 ^ 31) < zim_id" "zim_id < 2 ^ 31" "CHR 0x00 \<notin> set namespace" "list_all storable_text batch"
  shows "copy_in (copy_payload namespace zim_id batch) = Ok (map (stage namespace zim_id) batch)"
  unfolding copy_in_def copy_parse_payload using assms(4)
proof (induction batch)
  case (Cons row batch)
  then show ?case
    using assms(1-3) by (cases "ar_content_preview row") (auto simp: row_fields_def stage_def storable_text_def parse_int4_text)
qed simp

lemma copy_in_zero_byte:
  assumes "row \<in> set batch" "\<not> storable_text row"
  shows "\<exists>e. copy_in (copy_payload namespace zim_id batch) = Err e"
  unfolding copy_in_def copy_parse_payload using assms
proof (induction batch)
  case (Cons r batch)
  show ?case
  proof (cases "staged_of_fields (row_fields namespace zim_id r)")
    case (Inr x)
    then have "r \<noteq> row" using Cons.prems(2) by (auto simp: row_fields_def storable_text_def split: if_splits option.splits)
    then show ?thesis using Cons Inr by auto
  qed auto
qed simp

text \<open>
  C25. The \<open>COPY\<close> text of a batch of articles is read back by the database as exactly the rows of the batch,
  field by field, whatever paths, titles, previews and snippets contain: line feeds, tabs, backslashes,
  control characters followed by digits, or the text of the null marker. The one exception is a zero byte,
  which the database stores in no text column: then the whole batch is refused.
\<close>

theorem copy_stages_exactly:
  assumes "- (2 ^ 31) < zim_id" "zim_id < 2 ^ 31" "CHR 0x00 \<notin> set namespace"
  shows "case copy_in (copy_payload namespace zim_id batch) of
      Inr staged \<Rightarrow> staged = map (stage namespace zim_id) batch \<and> list_all storable_text batch
    | Inl _ \<Rightarrow> \<not> list_all storable_text batch"
proof (cases "list_all storable_text batch")
  case False
  then obtain row where "row \<in> set batch" "\<not> storable_text row" by (auto simp: list_all_iff)
  then show ?thesis using copy_in_zero_byte [of row batch namespace zim_id] False by auto
qed (simp add: copy_in_payload [OF assms])

definition sample_article :: article_row where
  "sample_article = \<lparr>ar_path = ''A/'' @ [CHR 0x5C, CHR ''N''], ar_title = [CHR 0x01, CHR ''7'', CHR 0x0A],
     ar_content_preview = None, ar_snippet = [CHR 0x09], ar_language = ''en'', ar_qid = Some 42\<rparr>"

theorem copy_stages_exactly_witness:
  "copy_in (copy_payload ''C'' 3 [sample_article]) = Ok [stage ''C'' 3 sample_article]"
proof -
  have "list_all storable_text [sample_article]" by (simp add: storable_text_def sample_article_def)
  then show ?thesis using copy_stages_exactly [of 3 "''C''" "[sample_article]"] by (auto split: sum.splits)
qed

end
