(* ===== verification/Indexing.thy ===== *)
theory Indexing
  imports Articles
begin

text \<open>
  The indexing pipeline of one archive (\<open>src/zim/index.rs\<close>): open, resume or start, extract chunk by chunk,
  bulk insert, checkpoint, and the final prune with the status change.

  The state is the part of the database the pipeline writes, the checkpoint files and the advisory locks of
  other sessions. Every statement is a site of the environment: what other tasks did before it, the fault
  that hits it, and the database clock. A statement that fails changes nothing; the statements of
  \<open>finalize_zim\<close> are one transaction. The number of a site is the position of the chunk.
\<close>

section \<open>State\<close>

record article =
  at_title :: string
  at_content_preview :: "string option"
  at_snippet :: string
  at_search_vector :: string
  at_language :: string
  at_namespace :: string
  at_embedding :: "string option"
  at_updated_at :: int

text \<open>The time at which the interrupted run started is only logged and left out; an empty
  \<open>index_started_at\<close> is \<open>None\<close>.\<close>

record checkpoint =
  cp_file_mtime :: nat
  cp_total_entries :: nat
  cp_completed :: nat
  cp_index_started_at :: "int option"
  cp_content_key :: string

record index_world =
  ix_zims :: "string \<rightharpoonup> zim_row"
  ix_articles :: "int \<times> string \<rightharpoonup> article"
  ix_staging :: "staged_row list"
  ix_qid_index :: "int \<times> string \<rightharpoonup> nat"
  ix_checkpoints :: "string \<rightharpoonup> checkpoint"
  ix_locks :: "int list"

datatype write_outcome = Written | Unwritten | Torn

record index_env =
  ie_fault :: "string \<Rightarrow> nat \<Rightarrow> sqlx_error option"
  ie_now :: "string \<Rightarrow> nat \<Rightarrow> int"
  ie_others :: "string \<Rightarrow> nat \<Rightarrow> index_world \<Rightarrow> index_world"
  ie_stat :: "nat option" \<comment> \<open>length of the file at the gate\<close>
  ie_open :: "((zim_archive, string) result, string) result" \<comment> \<open>the task around the parser\<close>
  ie_mtime :: "nat \<Rightarrow> nat" \<comment> \<open>seconds, zero when unknown\<close>
  ie_extract_died :: "nat \<Rightarrow> string option"
  ie_save :: "nat \<Rightarrow> write_outcome"
  ie_remove_ok :: bool
  ie_ops :: text_ops
  ie_tsvector :: "string \<Rightarrow> string \<Rightarrow> string"
  ie_real :: "rat \<Rightarrow> rat"
  ie_hashtext :: "string \<Rightarrow> int"

section \<open>Statements\<close>

definition stmt_at :: "index_env \<Rightarrow> string \<Rightarrow> nat \<Rightarrow> (int \<Rightarrow> index_world \<Rightarrow> ('a, sqlx_error) result \<times> index_world)
    \<Rightarrow> index_world \<Rightarrow> ('a, error) result \<times> index_world" where
  "stmt_at E site n f w =
     (let w = ie_others E site n w
      in case ie_fault E site n of
           Some e \<Rightarrow> (Err (Database e), w)
         | None \<Rightarrow> (case f (ie_now E site n) w of (Inl e, _) \<Rightarrow> (Err (Database e), w) | (Inr a, w') \<Rightarrow> (Ok a, w')))"

definition update_zim :: "string \<Rightarrow> (zim_row \<Rightarrow> zim_row) \<Rightarrow> int \<Rightarrow> index_world \<Rightarrow> (unit, sqlx_error) result \<times> index_world" where
  "update_zim name f now w =
     (Ok (), (case ix_zims w name of
                Some r \<Rightarrow> w\<lparr>ix_zims := (ix_zims w)(name \<mapsto> f r)\<rparr>
              | None \<Rightarrow> w))"

text \<open>Everything the open pass gives.\<close>

record opened_zim =
  oz_archive :: zim_archive
  oz_display_title :: string
  oz_language :: string
  oz_description :: "string option"
  oz_creator :: "string option"
  oz_publisher :: "string option"
  oz_date :: "string option"
  oz_article_ns :: zim_namespace
  oz_range_start :: nat
  oz_range_end :: nat
  oz_first_entry_key :: string

definition open_zim_blocking :: "text_ops \<Rightarrow> (zim_archive, string) result \<Rightarrow> string \<Rightarrow> string \<Rightarrow> string \<Rightarrow> (opened_zim, error) result" where
  "open_zim_blocking T parsed file_path fallback_title fallback_language =
     (case parsed of
        Inl e \<Rightarrow> Err (Zim (''opening '' @ file_path @ '': '' @ e))
      | Inr A \<Rightarrow>
          and_then (find_article_namespace A) (\<lambda>(ns, a, b).
            Ok \<lparr>oz_archive = A,
                oz_display_title = (case read_metadata A ''Title'' of Some t \<Rightarrow> t | None \<Rightarrow> fallback_title),
                oz_language = (case read_metadata A ''Language'' of Some t \<Rightarrow> t | None \<Rightarrow> fallback_language),
                oz_description = read_metadata A ''Description'', oz_creator = read_metadata A ''Creator'',
                oz_publisher = read_metadata A ''Publisher'',
                oz_date = Option.bind (read_metadata A ''Date'') (parse_zim_date T),
                oz_article_ns = ns, oz_range_start = a, oz_range_end = b,
                oz_first_entry_key = first_entry_content_key A a\<rparr>))"

definition update_zim_status :: "index_env \<Rightarrow> zim_meta \<Rightarrow> opened_zim \<Rightarrow> nat \<Rightarrow> index_world \<Rightarrow> (unit, error) result \<times> index_world" where
  "update_zim_status E meta Z article_count =
     stmt_at E ''status'' 0 (update_zim (zm_name meta) (\<lambda>r.
       r\<lparr>zr_display_title := oz_display_title Z, zr_language := oz_language Z, zr_description := oz_description Z,
         zr_creator := oz_creator Z, zr_publisher := oz_publisher Z, zr_date := oz_date Z,
         zr_article_count := int article_count, zr_index_status := ''indexing'', zr_index_progress := 0\<rparr>))"

definition update_progress :: "index_env \<Rightarrow> zim_meta \<Rightarrow> rat \<Rightarrow> nat \<Rightarrow> index_world \<Rightarrow> (unit, error) result \<times> index_world" where
  "update_progress E meta progress completed =
     stmt_at E ''progress'' completed (update_zim (zm_name meta) (\<lambda>r.
       r\<lparr>zr_index_progress := ie_real E progress, zr_indexed_entries := int completed\<rparr>))"

definition mark_index_error :: "index_env \<Rightarrow> zim_meta \<Rightarrow> index_world \<Rightarrow> index_world" where
  "mark_index_error E meta w =
     snd (stmt_at E ''mark_error'' 0 (update_zim (zm_name meta) (\<lambda>r. r\<lparr>zr_index_status := ''error''\<rparr>)) w)"

subsection \<open>Bulk insert\<close>

text \<open>The row referenced by \<open>zim_id\<close> must exist: ids and names of \<open>zims\<close> are unique and the id was read from
  the row of this name.\<close>

definition zim_row_exists :: "string \<Rightarrow> int \<Rightarrow> index_world \<Rightarrow> bool" where
  "zim_row_exists name zim_id w = (case ix_zims w name of Some r \<Rightarrow> zr_id r = zim_id | None \<Rightarrow> False)"

definition upsert_article :: "index_env \<Rightarrow> int \<Rightarrow> staged_row \<Rightarrow> (int \<times> string \<rightharpoonup> article) \<Rightarrow> (int \<times> string \<rightharpoonup> article)" where
  "upsert_article E now r m =
     (let k = (sg_zim_id r, sg_path r);
          vec = ie_tsvector E (sg_title r) (case sg_content_preview r of Some p \<Rightarrow> p | None \<Rightarrow> [])
      in m(k \<mapsto> (case m k of
                   None \<Rightarrow> \<lparr>at_title = sg_title r, at_content_preview = sg_content_preview r, at_snippet = sg_snippet r,
                            at_search_vector = vec, at_language = sg_language r, at_namespace = sg_namespace r,
                            at_embedding = None, at_updated_at = now\<rparr>
                 | Some a \<Rightarrow> a\<lparr>at_title := sg_title r, at_content_preview := sg_content_preview r,
                              at_snippet := sg_snippet r, at_search_vector := vec, at_updated_at := now\<rparr>)))"

text \<open>\<open>ON CONFLICT DO UPDATE\<close> refuses to touch a row twice (21000); a missing archive row violates the
  foreign key (23503).\<close>

definition upsert_articles_from_staging :: "index_env \<Rightarrow> string \<Rightarrow> int \<Rightarrow> int \<Rightarrow> index_world
    \<Rightarrow> (unit, sqlx_error) result \<times> index_world" where
  "upsert_articles_from_staging E name zim_id now w =
     (let rs = filter (\<lambda>r. sg_zim_id r = zim_id) (ix_staging w)
      in if \<not> distinct (map sg_path rs) then (Err (DatabaseError (Some ''21000'') None), w)
         else if rs \<noteq> [] \<and> \<not> zim_row_exists name zim_id w then (Err (DatabaseError (Some ''23503'') None), w)
         else (Ok (), w\<lparr>ix_articles := fold (upsert_article E now) rs (ix_articles w)\<rparr>))"

definition insert_qids :: "string \<Rightarrow> int \<Rightarrow> (string \<times> nat) list \<Rightarrow> int \<Rightarrow> index_world \<Rightarrow> (unit, sqlx_error) result \<times> index_world" where
  "insert_qids name zim_id qid_rows now w =
     (if \<not> distinct (map fst qid_rows) then (Err (DatabaseError (Some ''21000'') None), w)
      else if \<not> zim_row_exists name zim_id w then (Err (DatabaseError (Some ''23503'') None), w)
      else (Ok (), w\<lparr>ix_qid_index := fold (\<lambda>(p, q) m. m((zim_id, p) \<mapsto> q)) qid_rows (ix_qid_index w)\<rparr>))"

definition clear_staging :: "int \<Rightarrow> int \<Rightarrow> index_world \<Rightarrow> (unit, sqlx_error) result \<times> index_world" where
  "clear_staging zim_id now w = (Ok (), w\<lparr>ix_staging := filter (\<lambda>r. sg_zim_id r \<noteq> zim_id) (ix_staging w)\<rparr>)"

definition copy_to_staging :: "string \<Rightarrow> int \<Rightarrow> index_world \<Rightarrow> (unit, sqlx_error) result \<times> index_world" where
  "copy_to_staging payload now w =
     (case copy_in payload of
        Inl e \<Rightarrow> (Err e, w)
      | Inr rs \<Rightarrow> (Ok (), w\<lparr>ix_staging := ix_staging w @ rs\<rparr>))"

definition then_stmt :: "('a, error) result \<times> index_world \<Rightarrow> ('a \<Rightarrow> index_world \<Rightarrow> ('b, error) result \<times> index_world)
    \<Rightarrow> ('b, error) result \<times> index_world" where
  "then_stmt r f = (case r of (Inl e, w) \<Rightarrow> (Err e, w) | (Inr a, w) \<Rightarrow> f a w)"

definition qid_rows :: "article_row list \<Rightarrow> (string \<times> nat) list" where
  "qid_rows batch = List.map_filter (\<lambda>r. map_option (\<lambda>q. (ar_path r, q)) (ar_qid r)) batch"

definition bulk_insert :: "index_env \<Rightarrow> string \<Rightarrow> nat \<Rightarrow> article_row list \<Rightarrow> string \<Rightarrow> int \<Rightarrow> index_world
    \<Rightarrow> (unit, error) result \<times> index_world" where
  "bulk_insert E name n batch namespace zim_id w =
     then_stmt (stmt_at E ''acquire'' n (\<lambda>_ w. (Ok (), w)) w) (\<lambda>_ w.
     then_stmt (stmt_at E ''copy'' n (copy_to_staging (copy_payload namespace zim_id batch)) w) (\<lambda>_ w.
     then_stmt (stmt_at E ''upsert'' n (upsert_articles_from_staging E name zim_id) w) (\<lambda>_ w.
     then_stmt (if qid_rows batch \<noteq> [] then stmt_at E ''qid'' n (insert_qids name zim_id (qid_rows batch)) w else (Ok (), w)) (\<lambda>_ w.
       stmt_at E ''unstage'' n (clear_staging zim_id) w))))"

subsection \<open>Finalisation and checkpoints\<close>

definition prune :: "string \<Rightarrow> int \<Rightarrow> index_world \<Rightarrow> index_world" where
  "prune name started w =
     (case ix_zims w name of
        None \<Rightarrow> w
      | Some r \<Rightarrow>
          let arts = (\<lambda>(z, p). case ix_articles w (z, p) of
                                  Some a \<Rightarrow> if z = zr_id r \<and> at_updated_at a < started then None else Some a
                                | None \<Rightarrow> None)
          in w\<lparr>ix_articles := arts,
               ix_qid_index := (\<lambda>(z, p). if z = zr_id r \<and> arts (z, p) = None then None else ix_qid_index w (z, p))\<rparr>)"

definition finalize_zim :: "index_env \<Rightarrow> zim_meta \<Rightarrow> nat \<Rightarrow> int option \<Rightarrow> index_world \<Rightarrow> (unit, error) result \<times> index_world" where
  "finalize_zim E meta n_entries index_started_at =
     stmt_at E ''finalize'' 0 (\<lambda>now w.
       update_zim (zm_name meta) (\<lambda>r. r\<lparr>zr_index_status := ''ready'', zr_index_progress := 1, zr_indexed_entries := int n_entries\<rparr>) now
         (case index_started_at of Some started \<Rightarrow> prune (zm_name meta) started w | None \<Rightarrow> w))"

definition checkpoint_resumable :: "checkpoint \<Rightarrow> nat \<Rightarrow> nat \<Rightarrow> string \<Rightarrow> bool" where
  "checkpoint_resumable cp mtime n_entries key \<longleftrightarrow>
     cp_file_mtime cp = mtime \<and> cp_total_entries cp = n_entries \<and> cp_content_key cp \<noteq> [] \<and> cp_content_key cp = key"

definition save_checkpoint :: "index_env \<Rightarrow> string \<Rightarrow> checkpoint \<Rightarrow> index_world \<Rightarrow> index_world" where
  "save_checkpoint E name cp w =
     (case ie_save E (cp_completed cp) of
        Written \<Rightarrow> w\<lparr>ix_checkpoints := (ix_checkpoints w)(name \<mapsto> cp)\<rparr>
      | Unwritten \<Rightarrow> w
      | Torn \<Rightarrow> w\<lparr>ix_checkpoints := (ix_checkpoints w)(name := None)\<rparr>)"

section \<open>The pipeline\<close>

definition CHUNK_SIZE :: nat where "CHUNK_SIZE = 10000"

record index_job =
  jb_meta :: zim_meta
  jb_opened :: opened_zim
  jb_total :: nat
  jb_zim_id :: int
  jb_started :: "int option"
  jb_ns :: string

definition job_extract :: "index_env \<Rightarrow> index_job \<Rightarrow> nat \<Rightarrow> article_row option" where
  "job_extract E J i =
     (let Z = jb_opened J
      in extract_entry (ie_ops E) (oz_archive Z) ((oz_range_start Z + i) mod 2 ^ 32) (oz_language Z)
           (is_wikipedia (zm_name (jb_meta J)) (oz_language Z) (oz_description Z) (oz_publisher Z)))"

definition job_checkpoint :: "index_env \<Rightarrow> index_job \<Rightarrow> nat \<Rightarrow> checkpoint" where
  "job_checkpoint E J completed =
     \<lparr>cp_file_mtime = ie_mtime E completed, cp_total_entries = jb_total J, cp_completed = completed,
      cp_index_started_at = jb_started J, cp_content_key = oz_first_entry_key (jb_opened J)\<rparr>"

text \<open>What one chunk with articles does after its extraction.\<close>

definition index_chunk :: "index_env \<Rightarrow> index_job \<Rightarrow> nat \<Rightarrow> nat \<Rightarrow> article_row list \<Rightarrow> index_world \<Rightarrow> (unit, error) result \<times> index_world" where
  "index_chunk E J completed chunk_end valid_rows w =
     then_stmt (bulk_insert E (zm_name (jb_meta J)) completed valid_rows (jb_ns J) (jb_zim_id J) w) (\<lambda>_ w.
     then_stmt (update_progress E (jb_meta J) (of_nat chunk_end / of_nat (jb_total J)) chunk_end w) (\<lambda>_ w.
       (Ok (), save_checkpoint E (zm_name (jb_meta J)) (job_checkpoint E J chunk_end) w)))"

function index_loop :: "index_env \<Rightarrow> index_job \<Rightarrow> nat \<Rightarrow> index_world \<Rightarrow> (unit, error) result \<times> index_world" where
  "index_loop E J completed w =
     (let chunk_end = min (completed + CHUNK_SIZE) (jb_total J)
      in if completed \<ge> jb_total J then (Ok (), w)
         else (case ie_extract_died E completed of
                 Some e \<Rightarrow> (Err (Internal (''zim extract task: '' @ e)), w)
               | None \<Rightarrow>
                   let valid_rows = List.map_filter (job_extract E J) [completed..<chunk_end]
                   in if valid_rows = [] then index_loop E J chunk_end w
                      else then_stmt (index_chunk E J completed chunk_end valid_rows w) (\<lambda>_ w. index_loop E J chunk_end w)))"
  by pat_completeness auto

termination index_loop
  by (relation "measure (\<lambda>(E, J, completed, w). jb_total J - completed)") (auto simp: CHUNK_SIZE_def)

declare index_loop.simps [simp del]

definition index_opened :: "index_env \<Rightarrow> zim_meta \<Rightarrow> opened_zim \<Rightarrow> nat \<Rightarrow> nat \<Rightarrow> int option \<Rightarrow> index_world
    \<Rightarrow> (unit, error) result \<times> index_world" where
  "index_opened E meta Z n_entries start_idx index_started_at w =
     (if start_idx \<ge> n_entries then finalize_zim E meta n_entries index_started_at w
      else
        then_stmt (stmt_at E ''zim_id'' 0 (\<lambda>_ w. (Ok (ix_zims w (zm_name meta)), w)) w) (\<lambda>row w.
          case row of
            None \<Rightarrow> (Err (Internal (''ZIM '' @ [CHR 0x27] @ zm_name meta @ [CHR 0x27] @ '' row vanished before indexing'')), w)
          | Some r \<Rightarrow>
              let J = \<lparr>jb_meta = meta, jb_opened = Z, jb_total = n_entries, jb_zim_id = zr_id r, jb_started = index_started_at,
                       jb_ns = (case oz_article_ns Z of UserContent \<Rightarrow> ''U'' | Articles \<Rightarrow> ''C'')\<rparr>
              in then_stmt (stmt_at E ''clear'' 0 (clear_staging (zr_id r)) w) (\<lambda>_ w.
                   then_stmt (index_loop E J start_idx w) (\<lambda>_ w.
                     finalize_zim E meta n_entries index_started_at
                       (if ie_remove_ok E then w\<lparr>ix_checkpoints := (ix_checkpoints w)(zm_name meta := None)\<rparr> else w)))))"

definition index_body :: "index_env \<Rightarrow> zim_meta \<Rightarrow> index_world \<Rightarrow> (unit, error) result \<times> index_world" where
  "index_body E meta w =
     (case ie_open E of
        Inl e \<Rightarrow> (Err (Internal (''zim open task: '' @ e)), w)
      | Inr parsed \<Rightarrow>
          (case open_zim_blocking (ie_ops E) parsed (zm_file_path meta) (zm_display_title meta) (zm_language meta) of
             Inl e \<Rightarrow> (Err e, w)
           | Inr Z \<Rightarrow>
               let n_entries = oz_range_end Z - oz_range_start Z
               in if n_entries = 0 then (Ok (), w)
                  else
                    then_stmt (update_zim_status E meta Z n_entries w) (\<lambda>_ w.
                      let cp = ix_checkpoints w (zm_name meta);
                          start_idx = (case cp of
                                         Some c \<Rightarrow> if checkpoint_resumable c (ie_mtime E 0) n_entries (oz_first_entry_key Z)
                                                  then cp_completed c else 0
                                       | None \<Rightarrow> 0)
                      in if start_idx = 0
                         then then_stmt (stmt_at E ''now'' 0 (\<lambda>now w. (Ok now, w)) w) (\<lambda>now w.
                                index_opened E meta Z n_entries start_idx (Some now) w)
                         else index_opened E meta Z n_entries start_idx (Option.bind cp cp_index_started_at) w)))"

definition run_index :: "index_env \<Rightarrow> zim_meta \<Rightarrow> index_world \<Rightarrow> (unit, error) result \<times> index_world" where
  "run_index E meta w =
     (if zm_index_status meta = ''ready''
      then (case ie_stat E of
              Some len \<Rightarrow> if len = unat (zm_file_size meta) then (Ok (), w) else index_body E meta w
            | None \<Rightarrow> (Ok (), w))
      else index_body E meta w)"

definition index_single_zim :: "index_env \<Rightarrow> zim_meta \<Rightarrow> index_world \<Rightarrow> (unit, error) result \<times> index_world" where
  "index_single_zim E meta w =
     then_stmt (stmt_at E ''lock_conn'' 0 (\<lambda>_ w. (Ok (), w)) w) (\<lambda>_ w.
     then_stmt (stmt_at E ''lock'' 0 (\<lambda>_ w.
        if ie_hashtext E (zm_name meta) \<in> set (ix_locks w) then (Ok False, w)
        else (Ok True, w\<lparr>ix_locks := ie_hashtext E (zm_name meta) # ix_locks w\<rparr>)) w) (\<lambda>acquired w.
       if \<not> acquired then (Ok (), w)
       else
         (case run_index E meta w of
            (outcome, w) \<Rightarrow>
              let w = (if is_ok outcome then w else mark_index_error E meta w);
                  w = snd (stmt_at E ''unlock'' 0 (\<lambda>_ w. (Ok (), w\<lparr>ix_locks := remove1 (ie_hashtext E (zm_name meta)) (ix_locks w)\<rparr>)) w)
              in (outcome, w))))"

text \<open>A run over all archives never fails; each archive has the environment of its own task.\<close>

definition index_zims :: "(string \<Rightarrow> index_env) \<Rightarrow> zim_meta list \<Rightarrow> string option \<Rightarrow> index_world \<Rightarrow> (unit, error) result \<times> index_world" where
  "index_zims Es metas target w =
     (case target of
        Some name \<Rightarrow>
          (case find (\<lambda>z. zm_name z = name) metas of
             None \<Rightarrow> (Err (NotFound (''ZIM '' @ [CHR 0x27] @ name @ [CHR 0x27] @ '' not found'')), w)
           | Some meta \<Rightarrow> index_single_zim (Es name) meta w)
      | None \<Rightarrow> (Ok (), fold (\<lambda>meta w. snd (index_single_zim (Es (zm_name meta)) meta w)) metas w))"

section \<open>What an index must hold\<close>

text \<open>The archive as the index sees it: the extraction of each entry, and the run's boundary in time.\<close>

record index_spec =
  sp_name :: string
  sp_zim :: int
  sp_extract :: "nat \<Rightarrow> article_row option"
  sp_total :: nat
  sp_tsv :: "string \<Rightarrow> string \<Rightarrow> string"
  sp_mtime :: nat
  sp_key :: string

definition matches :: "index_spec \<Rightarrow> article_row \<Rightarrow> article \<Rightarrow> bool" where
  "matches S r a \<longleftrightarrow> at_title a = ar_title r \<and> at_content_preview a = ar_content_preview r \<and> at_snippet a = ar_snippet r
     \<and> at_search_vector a = sp_tsv S (ar_title r) (case ar_content_preview r of Some p \<Rightarrow> p | None \<Rightarrow> [])"

definition live :: "index_spec \<Rightarrow> int \<Rightarrow> index_world \<Rightarrow> bool" where
  "live S t w \<longleftrightarrow> (\<forall>p a. ix_articles w (sp_zim S, p) = Some a \<longrightarrow> t \<le> at_updated_at a \<longrightarrow>
     (\<exists>i< sp_total S. \<exists>r. sp_extract S i = Some r \<and> ar_path r = p \<and> matches S r a))"

definition fresh :: "index_spec \<Rightarrow> int \<Rightarrow> article_row \<Rightarrow> index_world \<Rightarrow> bool" where
  "fresh S t r w \<longleftrightarrow> (\<exists>a. ix_articles w (sp_zim S, ar_path r) = Some a \<and> t \<le> at_updated_at a \<and> matches S r a)"

definition covered :: "index_spec \<Rightarrow> int \<Rightarrow> nat \<Rightarrow> index_world \<Rightarrow> bool" where
  "covered S t k w \<longleftrightarrow> (\<forall>i<k. \<forall>r. sp_extract S i = Some r \<longrightarrow> fresh S t r w
     \<and> (\<forall>q. ar_qid r = Some q \<longrightarrow> ix_qid_index w (sp_zim S, ar_path r) = Some q))"

definition staged_of :: "index_spec \<Rightarrow> index_world \<Rightarrow> staged_row list" where
  "staged_of S w = filter (\<lambda>r. sg_zim_id r = sp_zim S) (ix_staging w)"

definition core :: "article \<Rightarrow> article" where "core a = a\<lparr>at_embedding := None\<rparr>"

text \<open>What other tasks leave alone: the id of the archive, its articles up to their embeddings, its staged rows,
  its Wikidata numbers and its checkpoint.\<close>

definition kept :: "index_spec \<Rightarrow> index_world \<Rightarrow> index_world \<Rightarrow> bool" where
  "kept S w w' \<longleftrightarrow> map_option zr_id (ix_zims w' (sp_name S)) = map_option zr_id (ix_zims w (sp_name S))
     \<and> (\<forall>p. map_option core (ix_articles w' (sp_zim S, p)) = map_option core (ix_articles w (sp_zim S, p)))
     \<and> (\<forall>p. ix_qid_index w' (sp_zim S, p) = ix_qid_index w (sp_zim S, p))
     \<and> ix_checkpoints w' (sp_name S) = ix_checkpoints w (sp_name S)"

definition keeps :: "index_spec \<Rightarrow> index_world \<Rightarrow> index_world \<Rightarrow> bool" where
  "keeps S w w' \<longleftrightarrow> kept S w w' \<and> staged_of S w' = staged_of S w"

definition tame :: "index_env \<Rightarrow> index_spec \<Rightarrow> bool" where
  "tame E S \<longleftrightarrow> (\<forall>site n w. keeps S w (ie_others E site n w))"

definition well_extracted :: "index_spec \<Rightarrow> bool" where
  "well_extracted S \<longleftrightarrow>
     (\<forall>i< sp_total S. \<forall>r. sp_extract S i = Some r \<longrightarrow> storable_text r
        \<and> (\<forall>j< sp_total S. \<forall>r'. sp_extract S j = Some r' \<longrightarrow> ar_path r' = ar_path r \<longrightarrow> j = i))
     \<and> - (2 ^ 31) < sp_zim S \<and> sp_zim S < 2 ^ 31"

lemma well_extracted_unique:
  assumes "well_extracted S" "i < sp_total S" "j < sp_total S" "sp_extract S i = Some r" "sp_extract S j = Some r'"
    "ar_path r' = ar_path r"
  shows "j = i"
  using assms unfolding well_extracted_def by blast

lemma core_sel [simp]:
  "at_updated_at (core a) = at_updated_at a" "matches S r (core a) = matches S r a"
  by (simp_all add: core_def matches_def)

lemma kept_refl [simp]: "kept S w w" by (simp add: kept_def)

lemma kept_trans: "kept S u v \<Longrightarrow> kept S v w \<Longrightarrow> kept S u w" by (simp add: kept_def)

lemma keeps_refl [simp]: "keeps S w w" by (simp add: keeps_def)

lemma keeps_trans: "keeps S u v \<Longrightarrow> keeps S v w \<Longrightarrow> keeps S u w" using kept_trans by (auto simp: keeps_def)

lemma keeps_kept: "keeps S w w' \<Longrightarrow> kept S w w'" by (simp add: keeps_def)

lemma kept_article:
  assumes "kept S w w'" and "ix_articles w' (sp_zim S, p) = Some a"
  shows "\<exists>b. ix_articles w (sp_zim S, p) = Some b \<and> core b = core a"
proof -
  have "map_option core (ix_articles w' (sp_zim S, p)) = map_option core (ix_articles w (sp_zim S, p))"
    using assms(1) by (simp add: kept_def)
  then show ?thesis using assms(2) by (cases "ix_articles w (sp_zim S, p)") auto
qed

lemma kept_sym: "kept S w w' \<Longrightarrow> kept S w' w" by (simp add: kept_def)

lemma core_eqD: "core b = core a \<Longrightarrow> at_updated_at b = at_updated_at a \<and> matches S r b = matches S r a"
  by (metis core_sel)

lemma live_kept: "kept S w w' \<Longrightarrow> live S t w \<Longrightarrow> live S t w'"
  unfolding live_def
proof (intro allI impI)
  fix p a
  assume k: "kept S w w'" and l: "\<forall>p a. ix_articles w (sp_zim S, p) = Some a \<longrightarrow> t \<le> at_updated_at a \<longrightarrow>
      (\<exists>i< sp_total S. \<exists>r. sp_extract S i = Some r \<and> ar_path r = p \<and> matches S r a)"
    and a: "ix_articles w' (sp_zim S, p) = Some a" "t \<le> at_updated_at a"
  obtain b where b: "ix_articles w (sp_zim S, p) = Some b" "core b = core a" using kept_article [OF k a(1)] by blast
  then have "t \<le> at_updated_at b" using a(2) core_eqD [OF b(2)] by simp
  with l b(1) obtain i r where "i < sp_total S" "sp_extract S i = Some r" "ar_path r = p" "matches S r b" by blast
  then show "\<exists>i< sp_total S. \<exists>r. sp_extract S i = Some r \<and> ar_path r = p \<and> matches S r a"
    using core_eqD [OF b(2)] by blast
qed

lemma fresh_kept:
  assumes k: "kept S w w'" and "fresh S t r w"
  shows "fresh S t r w'"
proof -
  obtain a where a: "ix_articles w (sp_zim S, ar_path r) = Some a" "t \<le> at_updated_at a" "matches S r a"
    using assms(2) by (auto simp: fresh_def)
  obtain b where "ix_articles w' (sp_zim S, ar_path r) = Some b" "core b = core a"
    using kept_article [OF kept_sym [OF k] a(1)] by blast
  then show ?thesis using a core_eqD [of b a S r] by (simp add: fresh_def)
qed

lemma covered_kept: "kept S w w' \<Longrightarrow> covered S t k w \<Longrightarrow> covered S t k w'"
  using fresh_kept [of S w w' t] by (simp add: covered_def kept_def)

lemma covered_mono: "covered S t k w \<Longrightarrow> j \<le> k \<Longrightarrow> covered S t j w"
  unfolding covered_def by (meson less_le_trans)

definition present :: "index_spec \<Rightarrow> index_world \<Rightarrow> index_world \<Rightarrow> bool" where
  "present S w w' \<longleftrightarrow> (\<forall>p. ix_articles w (sp_zim S, p) \<noteq> None \<longrightarrow> ix_articles w' (sp_zim S, p) \<noteq> None)"

lemma present_kept: "kept S w w' \<Longrightarrow> present S w w'"
  unfolding present_def using kept_article [OF kept_sym] by blast

lemma present_trans: "present S u v \<Longrightarrow> present S v w \<Longrightarrow> present S u w"
  by (simp add: present_def)

section \<open>Statements\<close>

text \<open>What holds after a step: \<open>X\<close> of the world when it failed, \<open>Q\<close> of the value and the world otherwise.\<close>

definition after :: "(index_world \<Rightarrow> bool) \<Rightarrow> ('a \<Rightarrow> index_world \<Rightarrow> bool) \<Rightarrow> ('a, error) result \<times> index_world \<Rightarrow> bool" where
  "after X Q x \<longleftrightarrow> (case x of (Inl _, w) \<Rightarrow> X w | (Inr a, w) \<Rightarrow> Q a w)"

lemma after_simps [simp]: "after X Q (Inl e, w) = X w" "after X Q (Inr a, w) = Q a w"
  by (simp_all add: after_def)

lemma after_then:
  assumes "after X Q x" and "\<And>a w. Q a w \<Longrightarrow> after X R (f a w)"
  shows "after X R (then_stmt x f)"
proof (cases x)
  case (Pair r w)
  then show ?thesis using assms by (cases r) (simp_all add: then_stmt_def)
qed

lemma after_stmt:
  assumes "tame E S" and "\<And>u. keeps S w u \<Longrightarrow> X u"
    and "\<And>u a v. keeps S w u \<Longrightarrow> f (ie_now E site n) u = (Ok a, v) \<Longrightarrow> Q a v"
  shows "after X Q (stmt_at E site n f w)"
proof -
  have k: "keeps S w (ie_others E site n w)" using assms(1) by (simp add: tame_def)
  show ?thesis
  proof (cases "ie_fault E site n")
    case (Some e)
    then show ?thesis using assms(2) [OF k] by (simp add: stmt_at_def Let_def)
  next
    case None
    then show ?thesis using assms(2,3) [OF k]
      by (cases "f (ie_now E site n) (ie_others E site n w)") (auto simp: stmt_at_def Let_def split: sum.splits)
  qed
qed

lemma after_weaken:
  assumes "after X Q x" and "\<And>w. X w \<Longrightarrow> Y w" and "\<And>a w. Q a w \<Longrightarrow> R a w"
  shows "after Y R x"
  using assms by (cases x) (auto simp: after_def split: sum.splits)

lemma keeps_update_zim: "update_zim (sp_name S) f now u = (x, w') \<Longrightarrow> (\<And>r. zr_id (f r) = zr_id r) \<Longrightarrow> keeps S u w'"
  by (auto simp: update_zim_def keeps_def kept_def staged_of_def split: option.splits)

lemma after_update_zim:
  assumes "tame E S" and "\<And>r. zr_id (f r) = zr_id r"
  shows "after (keeps S w) (\<lambda>_. keeps S w) (stmt_at E site n (update_zim (sp_name S) f) w)"
  by (rule after_stmt [OF assms(1)]) (auto dest: keeps_update_zim [OF _ assms(2)] intro: keeps_trans)

lemma fold_upsert_other:
  assumes "list_all (\<lambda>r. sg_zim_id r = z) rs" and "p \<notin> sg_path ` set rs"
  shows "fold (upsert_article E now) rs m (z, p) = m (z, p)"
  using assms by (induction rs arbitrary: m) (auto simp: upsert_article_def Let_def)

definition upserted :: "index_env \<Rightarrow> int \<Rightarrow> staged_row \<Rightarrow> article \<Rightarrow> bool" where
  "upserted E now r a \<longleftrightarrow> at_updated_at a = now \<and> at_title a = sg_title r \<and> at_content_preview a = sg_content_preview r
     \<and> at_snippet a = sg_snippet r
     \<and> at_search_vector a = ie_tsvector E (sg_title r) (case sg_content_preview r of Some p \<Rightarrow> p | None \<Rightarrow> [])"

lemma fold_upsert_in:
  assumes "distinct (map sg_path rs)" and "list_all (\<lambda>r. sg_zim_id r = z) rs" and "r \<in> set rs"
  shows "\<exists>a. fold (upsert_article E now) rs m (z, sg_path r) = Some a \<and> upserted E now r a"
  using assms
proof (induction rs arbitrary: m)
  case (Cons x rs)
  show ?case
  proof (cases "r = x")
    case True
    then have "fold (upsert_article E now) (x # rs) m (z, sg_path r) = upsert_article E now x m (z, sg_path x)"
      using fold_upsert_other [of z rs "sg_path x"] Cons.prems(1,2) by simp
    also have "\<exists>a. upsert_article E now x m (z, sg_path x) = Some a \<and> upserted E now x a"
      using Cons.prems(2) by (auto simp: upsert_article_def Let_def upserted_def split: option.splits)
    finally show ?thesis using True by simp
  next
    case False
    then show ?thesis using Cons by simp
  qed
qed simp

lemma fold_qids_other: "p \<notin> fst ` set qs \<Longrightarrow> fold (\<lambda>(p, q) m. m((z, p) \<mapsto> q)) qs m (y, p) = m (y, p)"
  by (induction qs arbitrary: m) auto

lemma fold_qids_in:
  "distinct (map fst qs) \<Longrightarrow> (p, q) \<in> set qs \<Longrightarrow> fold (\<lambda>(p, q) m. m((z, p) \<mapsto> q)) qs m (z, p) = Some q"
proof (induction qs arbitrary: m)
  case (Cons x qs)
  obtain p' q' where x: "x = (p', q')" by fastforce
  show ?case
  proof (cases "(p, q) = x")
    case True
    then show ?thesis using Cons.prems(1) x fold_qids_other [of p qs z "m((z, p) \<mapsto> q)" z] by (simp del: fun_upd_apply) simp
  next
    case False
    then show ?thesis using Cons x by auto
  qed
qed simp

text \<open>A batch is the extraction of a range of entries.\<close>

definition batch_of :: "index_spec \<Rightarrow> nat \<Rightarrow> nat \<Rightarrow> article_row list" where
  "batch_of S k k' = List.map_filter (sp_extract S) [k..<k']"

lemma batch_set: "set (batch_of S k k') = {r. \<exists>i. k \<le> i \<and> i < k' \<and> sp_extract S i = Some r}"
  by (auto simp: batch_of_def set_values)

lemma batch_index:
  assumes "r \<in> set (batch_of S k k')" and "k' \<le> sp_total S"
  obtains i where "i < sp_total S" "k \<le> i" "sp_extract S i = Some r"
  using assms that unfolding batch_set by (auto dest: less_le_trans)

lemma batch_Suc: "k \<le> k' \<Longrightarrow> batch_of S k (Suc k') = batch_of S k k' @ (case sp_extract S k' of Some r \<Rightarrow> [r] | None \<Rightarrow> [])"
  by (simp add: batch_of_def List.map_filter_def split: option.split)

lemma batch_distinct:
  assumes "well_extracted S" and "k' \<le> sp_total S"
  shows "distinct (map ar_path (batch_of S k k'))"
proof (cases "k \<le> k'")
  case True
  then show ?thesis using assms(2)
  proof (induction k' rule: dec_induct)
    case base
    then show ?case by (simp add: batch_of_def List.map_filter_simps)
  next
    case (step n)
    note u = well_extracted_unique [OF assms(1)]
    show ?case
    proof (cases "sp_extract S n")
      case (Some r)
      have "ar_path r \<notin> ar_path ` set (batch_of S k n)"
      proof
        assume "ar_path r \<in> ar_path ` set (batch_of S k n)"
        then obtain r' i where "i < n" "sp_extract S i = Some r'" "ar_path r' = ar_path r" by (auto simp: batch_set)
        then show False using u [of n i r r'] Some step by simp
      qed
      then show ?thesis using step Some by (simp add: batch_Suc)
    qed (use step in \<open>simp add: batch_Suc\<close>)
  qed
qed (simp add: batch_of_def List.map_filter_simps)

lemma qid_rows_set: "(p, q) \<in> set (qid_rows batch) \<longleftrightarrow> (\<exists>r\<in>set batch. ar_path r = p \<and> ar_qid r = Some q)"
  by (auto simp: qid_rows_def set_values)

lemma qid_rows_paths: "distinct (map ar_path batch) \<Longrightarrow> distinct (map fst (qid_rows batch))"
proof (induction batch)
  case (Cons r batch)
  have "fst ` set (qid_rows batch) \<subseteq> ar_path ` set batch" by (auto simp: qid_rows_set)
  then show ?case using Cons by (auto simp: qid_rows_def List.map_filter_simps split: option.splits)
qed (simp add: qid_rows_def List.map_filter_simps)

section \<open>A chunk\<close>

text \<open>The progress of a run that started at time \<open>t\<close> from world \<open>w\<close>.\<close>

definition advanced :: "index_spec \<Rightarrow> int \<Rightarrow> nat \<Rightarrow> index_world \<Rightarrow> index_world \<Rightarrow> bool" where
  "advanced S t k w w' \<longleftrightarrow> live S t w' \<and> covered S t k w' \<and> present S w w'
     \<and> map_option zr_id (ix_zims w' (sp_name S)) = map_option zr_id (ix_zims w (sp_name S))"

lemma advanced_kept:
  assumes "advanced S t k w u" and k: "kept S u v"
  shows "advanced S t k w v"
proof -
  have "map_option zr_id (ix_zims v (sp_name S)) = map_option zr_id (ix_zims u (sp_name S))" using k by (simp add: kept_def)
  then show ?thesis
    using assms(1) live_kept [OF k] covered_kept [OF k] present_trans [OF _ present_kept [OF k]] by (auto simp: advanced_def)
qed

lemma advanced_trans: "advanced S t k u v \<Longrightarrow> advanced S t k' v w \<Longrightarrow> advanced S t k' u w"
  by (auto simp: advanced_def intro: present_trans)

lemma upsert_advances:
  assumes "well_extracted S" and "k' \<le> sp_total S" and "ie_tsvector E = sp_tsv S" and "t \<le> now"
    and adv: "advanced S t k w u" and st: "staged_of S u = map (stage ns (sp_zim S)) (batch_of S k k')"
    and run: "upsert_articles_from_staging E (sp_name S) (sp_zim S) now u = (Ok (), w')"
  shows "advanced S t k w w' \<and> ix_checkpoints w' = ix_checkpoints u \<and> (\<forall>r\<in>set (batch_of S k k'). fresh S t r w')"
proof -
  let ?z = "sp_zim S" and ?b = "batch_of S k k'" and ?rs = "map (stage ns (sp_zim S)) (batch_of S k k')"
  have w': "w' = u\<lparr>ix_articles := fold (upsert_article E now) ?rs (ix_articles u)\<rparr>"
    using run st by (auto simp: upsert_articles_from_staging_def staged_of_def Let_def split: if_splits)
  have paths: "map sg_path ?rs = map ar_path ?b" by (simp add: stage_def)
  have rs: "distinct (map sg_path ?rs)" "list_all (\<lambda>r. sg_zim_id r = ?z) ?rs"
    unfolding paths using batch_distinct [OF assms(1,2)] by (simp_all add: list_all_iff stage_def)
  have other: "ix_articles w' (?z, p) = ix_articles u (?z, p)" if "p \<notin> ar_path ` set ?b" for p
    using fold_upsert_other [OF rs(2), of p] that by (simp add: w' stage_def image_image)
  have new: "fresh S t r w'" if "r \<in> set ?b" for r
    using fold_upsert_in [OF rs, of "stage ns ?z r" E now "ix_articles u"] that assms(3,4)
    by (auto simp: w' stage_def upserted_def matches_def fresh_def)
  have "live S t w'" unfolding live_def
  proof (intro allI impI)
    fix p a assume a: "ix_articles w' (?z, p) = Some a" "t \<le> at_updated_at a"
    show "\<exists>i< sp_total S. \<exists>r. sp_extract S i = Some r \<and> ar_path r = p \<and> matches S r a"
    proof (cases "p \<in> ar_path ` set ?b")
      case True
      then obtain r where r: "r \<in> set ?b" "ar_path r = p" by blast
      then have "matches S r a" using new [OF r(1)] a(1) by (simp add: fresh_def)
      then show ?thesis using batch_index [OF r(1) assms(2)] r(2) by metis
    next
      case False
      then show ?thesis using other [OF False] a adv by (auto simp: advanced_def live_def)
    qed
  qed
  moreover have "covered S t k w'" unfolding covered_def
  proof (intro allI impI)
    fix i r assume i: "i < k" "sp_extract S i = Some r"
    have old: "fresh S t r u" "\<forall>q. ar_qid r = Some q \<longrightarrow> ix_qid_index u (?z, ar_path r) = Some q"
      using adv i by (auto simp: advanced_def covered_def)
    have "fresh S t r w'"
    proof (cases "ar_path r \<in> ar_path ` set ?b")
      case True
      then obtain r' where r': "r' \<in> set ?b" "ar_path r' = ar_path r" by force
      obtain j where j: "j < sp_total S" "k \<le> j" "sp_extract S j = Some r'" by (rule batch_index [OF r'(1) assms(2)])
      have it: "i < sp_total S" using i(1) j(1,2) by simp
      then have "j = i" by (rule well_extracted_unique [OF assms(1) _ j(1) i(2) j(3) r'(2)])
      then show ?thesis using i(1) j(2) by simp
    next
      case False
      then show ?thesis using old(1) other [OF False] by (simp add: fresh_def)
    qed
    then show "fresh S t r w' \<and> (\<forall>q. ar_qid r = Some q \<longrightarrow> ix_qid_index w' (?z, ar_path r) = Some q)"
      using old(2) by (simp add: w')
  qed
  moreover have "present S u w'" unfolding present_def
  proof (intro allI impI)
    fix p assume u: "ix_articles u (?z, p) \<noteq> None"
    show "ix_articles w' (?z, p) \<noteq> None"
    proof (cases "p \<in> ar_path ` set ?b")
      case True
      then show ?thesis using new by (auto simp: fresh_def)
    qed (use other u in simp)
  qed
  ultimately show ?thesis using adv new by (auto simp: advanced_def w' intro: present_trans)
qed

lemma qid_advances:
  assumes "well_extracted S" and "k' \<le> sp_total S" and adv: "advanced S t k w u"
    and new: "\<forall>r\<in>set (batch_of S k k'). fresh S t r u"
    and arts: "ix_articles w' = ix_articles u" "ix_zims w' = ix_zims u"
    and qid: "ix_qid_index w' = fold (\<lambda>(p, q) m. m((sp_zim S, p) \<mapsto> q)) (qid_rows (batch_of S k k')) (ix_qid_index u)"
  shows "advanced S t k' w w'"
proof -
  let ?z = "sp_zim S" and ?b = "batch_of S k k'"
  have dist: "distinct (map fst (qid_rows ?b))" by (rule qid_rows_paths [OF batch_distinct [OF assms(1,2)]])
  have fr: "fresh S t r w' = fresh S t r u" for r using arts by (simp add: fresh_def)
  have "covered S t k' w'" unfolding covered_def
  proof (intro allI impI)
    fix i r assume i: "i < k'" "sp_extract S i = Some r"
    have uniq: "r' = r" if r': "r' \<in> set ?b" "ar_path r' = ar_path r" for r'
    proof -
      obtain j where j: "j < sp_total S" "sp_extract S j = Some r'" using batch_index [OF r'(1) assms(2)] .
      have "i < sp_total S" using i(1) assms(2) by simp
      then have "j = i" by (rule well_extracted_unique [OF assms(1) _ j(1) i(2) j(2) r'(2)])
      then show ?thesis using i j by simp
    qed
    show "fresh S t r w' \<and> (\<forall>q. ar_qid r = Some q \<longrightarrow> ix_qid_index w' (?z, ar_path r) = Some q)"
    proof (cases "r \<in> set ?b")
      case True
      then have "ix_qid_index w' (?z, ar_path r) = Some q" if "ar_qid r = Some q" for q
        unfolding qid using that by (intro fold_qids_in [OF dist]) (auto simp: qid_rows_set)
      then show ?thesis using new True fr by auto
    next
      case False
      have k: "i < k"
      proof (rule ccontr)
        assume "\<not> i < k"
        then show False using False i by (auto simp: batch_set not_less)
      qed
      have "ar_path r \<notin> fst ` set (qid_rows ?b)" using uniq False by (force simp: qid_rows_set)
      then have "ix_qid_index w' (?z, ar_path r) = ix_qid_index u (?z, ar_path r)" unfolding qid by (rule fold_qids_other)
      then show ?thesis using adv k i fr by (auto simp: advanced_def covered_def)
    qed
  qed
  then show ?thesis using adv arts by (auto simp: advanced_def live_def present_def)
qed

lemma copy_staged:
  assumes "well_extracted S" and "k' \<le> sp_total S" and "CHR 0x00 \<notin> set ns" and "staged_of S u = []"
    and "copy_to_staging (copy_payload ns (sp_zim S) (batch_of S k k')) now u = (Ok (), w')"
  shows "kept S u w' \<and> staged_of S w' = map (stage ns (sp_zim S)) (batch_of S k k')"
proof -
  have "storable_text r" if "r \<in> set (batch_of S k k')" for r
    using batch_index [OF that assms(2)] assms(1) unfolding well_extracted_def by metis
  then have "copy_in (copy_payload ns (sp_zim S) (batch_of S k k')) = Ok (map (stage ns (sp_zim S)) (batch_of S k k'))"
    using assms(1,3) by (intro copy_in_payload) (auto simp: well_extracted_def list_all_iff)
  then have "w' = u\<lparr>ix_staging := ix_staging u @ map (stage ns (sp_zim S)) (batch_of S k k')\<rparr>"
    using assms(5) by (simp add: copy_to_staging_def)
  then show ?thesis using assms(4) by (auto simp: kept_def staged_of_def stage_def filter_empty_conv intro!: filter_True)
qed

lemma advanced_mono: "advanced S t k' w v \<Longrightarrow> k \<le> k' \<Longrightarrow> advanced S t k w v"
  using covered_mono by (auto simp: advanced_def)

text \<open>The state a chunk starts and ends in, and what holds of it in between.\<close>

definition chunk_state :: "index_spec \<Rightarrow> int \<Rightarrow> nat \<Rightarrow> index_world \<Rightarrow> index_world \<Rightarrow> bool" where
  "chunk_state S t k w v \<longleftrightarrow> advanced S t k w v \<and> ix_checkpoints v (sp_name S) = ix_checkpoints w (sp_name S)"

lemma chunk_state_kept: "chunk_state S t k w u \<Longrightarrow> kept S u v \<Longrightarrow> chunk_state S t k w v"
  using advanced_kept by (auto simp: chunk_state_def kept_def [of S u v])

text \<open>A bulk insert, whatever hits it, loses nothing and disturbs nothing; when it succeeds the chunk is in the index.\<close>

lemma bulk_insert_advances:
  assumes S: "well_extracted S" "k' \<le> sp_total S" "ie_tsvector E = sp_tsv S" and T: "tame E S" and ns: "CHR 0x00 \<notin> set ns"
    and t: "t \<le> ie_now E ''upsert'' n" and k: "k \<le> k'" and adv: "chunk_state S t k w w" and st: "staged_of S w = []"
  shows "after (chunk_state S t k w) (\<lambda>_ v. chunk_state S t k' w v \<and> staged_of S v = [])
    (bulk_insert E (sp_name S) n (batch_of S k k') ns (sp_zim S) w)"
proof -
  let ?b = "batch_of S k k'" and ?z = "sp_zim S"
  let ?X = "chunk_state S t k w"
  have X: "?X v" if "?X u" "keeps S u v" for u v using chunk_state_kept keeps_kept that by blast
  have s1: "after ?X (\<lambda>_ v. ?X v \<and> staged_of S v = []) (stmt_at E ''acquire'' n (\<lambda>_ w. (Ok (), w)) w)"
    by (rule after_stmt [OF T]) (use X adv st in \<open>auto simp: keeps_def\<close>)
  have s2: "after ?X (\<lambda>_ v. ?X v \<and> staged_of S v = map (stage ns ?z) ?b)
      (stmt_at E ''copy'' n (copy_to_staging (copy_payload ns ?z ?b)) u)" if "?X u \<and> staged_of S u = []" for u
  proof (rule after_stmt [OF T])
    fix v assume "keeps S u v" then show "?X v" using X that by blast
  next
    fix v a x assume kv: "keeps S u v" and c: "copy_to_staging (copy_payload ns ?z ?b) (ie_now E ''copy'' n) v = (Ok a, x)"
    have v: "?X v" "staged_of S v = []" using X [OF _ kv] that kv by (simp_all add: keeps_def)
    have "kept S v x \<and> staged_of S x = map (stage ns ?z) ?b"
      by (rule copy_staged [OF S(1,2) ns v(2)]) (use c in simp)
    then show "?X x \<and> staged_of S x = map (stage ns ?z) ?b" using chunk_state_kept [OF v(1)] by blast
  qed
  have s3: "after ?X (\<lambda>_ v. ?X v \<and> (\<forall>r\<in>set ?b. fresh S t r v)) (stmt_at E ''upsert'' n (upsert_articles_from_staging E (sp_name S) ?z) u)"
    if "?X u \<and> staged_of S u = map (stage ns ?z) ?b" for u
  proof (rule after_stmt [OF T])
    fix v assume "keeps S u v" then show "?X v" using X that by blast
  next
    fix v a x assume kv: "keeps S u v"
      and c: "upsert_articles_from_staging E (sp_name S) ?z (ie_now E ''upsert'' n) v = (Ok a, x)"
    have v: "?X v" "staged_of S v = map (stage ns ?z) ?b" using X [OF _ kv] that kv by (simp_all add: keeps_def)
    have "advanced S t k w x \<and> ix_checkpoints x = ix_checkpoints v \<and> (\<forall>r\<in>set ?b. fresh S t r x)"
      by (rule upsert_advances [OF S t _ v(2)]) (use v(1) c in \<open>simp_all add: chunk_state_def\<close>)
    then show "?X x \<and> (\<forall>r\<in>set ?b. fresh S t r x)" using v(1) by (simp add: chunk_state_def)
  qed
  let ?Q4 = "\<lambda>(_ :: unit) v. chunk_state S t k' w v"
  have s4: "after ?X ?Q4 (if qid_rows ?b \<noteq> [] then stmt_at E ''qid'' n (insert_qids (sp_name S) ?z (qid_rows ?b)) u else (Ok (), u))"
    if u: "?X u \<and> (\<forall>r\<in>set ?b. fresh S t r u)" for u
  proof (cases "qid_rows ?b = []")
    case True
    then show ?thesis using qid_advances [OF S(1,2), of t k w u u] u by (simp add: chunk_state_def)
  next
    case False
    have "after ?X ?Q4 (stmt_at E ''qid'' n (insert_qids (sp_name S) ?z (qid_rows ?b)) u)"
    proof (rule after_stmt [OF T])
      fix v assume "keeps S u v" then show "?X v" using X u by blast
    next
      fix v a x assume kv: "keeps S u v" and c: "insert_qids (sp_name S) ?z (qid_rows ?b) (ie_now E ''qid'' n) v = (Ok a, x)"
      have "?X v" "\<forall>r\<in>set ?b. fresh S t r v" using u X [OF _ kv] fresh_kept [OF keeps_kept [OF kv]] by auto
      then show "?Q4 a x" using qid_advances [OF S(1,2), of t k w v x] c
        by (auto simp: chunk_state_def insert_qids_def split: if_splits)
    qed
    then show ?thesis using False by simp
  qed
  have s5: "after ?X (\<lambda>_ v. chunk_state S t k' w v \<and> staged_of S v = []) (stmt_at E ''unstage'' n (clear_staging ?z) u)"
    if u: "chunk_state S t k' w u" for u
  proof (rule after_stmt [OF T])
    fix v assume "keeps S u v"
    then have "chunk_state S t k' w v" using chunk_state_kept keeps_kept u by blast
    then show "?X v" using advanced_mono [OF _ k] by (auto simp: chunk_state_def)
  next
    fix v a x assume kv: "keeps S u v" and c: "clear_staging ?z (ie_now E ''unstage'' n) v = (Ok a, x)"
    have "kept S v x" "staged_of S x = []" using c by (auto simp: clear_staging_def kept_def staged_of_def filter_empty_conv)
    then show "chunk_state S t k' w x \<and> staged_of S x = []"
      using chunk_state_kept keeps_kept [OF kv] u by blast
  qed
  show ?thesis unfolding bulk_insert_def
    by (rule after_then [OF s1]) (rule after_then [OF s2], assumption, rule after_then [OF s3], assumption,
        rule after_then [OF s4], assumption, rule s5)
qed

section \<open>The loop\<close>

definition own_cp :: "index_spec \<Rightarrow> int \<Rightarrow> nat \<Rightarrow> checkpoint \<Rightarrow> bool" where
  "own_cp S t k c \<longleftrightarrow> 0 < cp_completed c \<and> cp_completed c \<le> k \<and> cp_index_started_at c = Some t"

text \<open>A checkpoint this archive could be resumed from belongs to the run that started at \<open>t\<close>.\<close>

definition cp_fits :: "index_spec \<Rightarrow> int \<Rightarrow> nat \<Rightarrow> index_world \<Rightarrow> bool" where
  "cp_fits S t k w \<longleftrightarrow> (case ix_checkpoints w (sp_name S) of
     None \<Rightarrow> True
   | Some c \<Rightarrow> checkpoint_resumable c (sp_mtime S) (sp_total S) (sp_key S) \<longrightarrow> own_cp S t k c)"

definition cp_ok :: "index_spec \<Rightarrow> index_world \<Rightarrow> bool" where
  "cp_ok S w \<longleftrightarrow> (case ix_checkpoints w (sp_name S) of
     None \<Rightarrow> True
   | Some c \<Rightarrow> checkpoint_resumable c (sp_mtime S) (sp_total S) (sp_key S) \<longrightarrow>
       0 < cp_completed c \<and> cp_completed c \<le> sp_total S
       \<and> (\<exists>t. cp_index_started_at c = Some t \<and> live S t w \<and> covered S t (cp_completed c) w))"

lemma own_cp_mono: "own_cp S t k c \<Longrightarrow> k \<le> j \<Longrightarrow> own_cp S t j c" by (simp add: own_cp_def)

lemma cp_fits_mono: "cp_fits S t k w \<Longrightarrow> k \<le> j \<Longrightarrow> cp_fits S t j w"
  using own_cp_mono by (auto simp: cp_fits_def split: option.splits)

lemma cp_fits_ok:
  assumes "advanced S t k w v" and "cp_fits S t k v" and "k \<le> sp_total S"
  shows "cp_ok S v"
proof (cases "ix_checkpoints v (sp_name S)")
  case (Some c)
  show ?thesis
  proof (cases "checkpoint_resumable c (sp_mtime S) (sp_total S) (sp_key S)")
    case True
    then have o: "own_cp S t k c" using assms(2) Some by (simp add: cp_fits_def)
    then have "covered S t (cp_completed c) v" using assms(1) covered_mono by (auto simp: advanced_def own_cp_def)
    then show ?thesis using o Some assms(1,3) by (simp add: cp_ok_def own_cp_def advanced_def)
  qed (use Some in \<open>simp add: cp_ok_def\<close>)
qed (simp add: cp_ok_def)

definition progress :: "index_spec \<Rightarrow> int \<Rightarrow> nat \<Rightarrow> index_world \<Rightarrow> index_world \<Rightarrow> bool" where
  "progress S t k w v \<longleftrightarrow> k \<le> sp_total S \<and> advanced S t k w v \<and> cp_fits S t k v"

lemma cp_fits_kept: "kept S u v \<Longrightarrow> cp_fits S t k u \<Longrightarrow> cp_fits S t k v"
  by (simp add: cp_fits_def kept_def)

lemma progress_kept: "progress S t k w u \<Longrightarrow> kept S u v \<Longrightarrow> progress S t k w v"
  using advanced_kept cp_fits_kept by (auto simp: progress_def)

definition fits :: "index_env \<Rightarrow> index_job \<Rightarrow> index_spec \<Rightarrow> bool" where
  "fits E J S \<longleftrightarrow> sp_name S = zm_name (jb_meta J) \<and> sp_zim S = jb_zim_id J \<and> sp_extract S = job_extract E J
     \<and> sp_total S = jb_total J \<and> sp_tsv S = ie_tsvector E \<and> sp_key S = oz_first_entry_key (jb_opened J)
     \<and> CHR 0x00 \<notin> set (jb_ns J)"

lemma advanced_self: "advanced S t k w v \<Longrightarrow> advanced S t k v v"
  by (simp add: advanced_def present_def)

text \<open>Where a failed run stops.\<close>

definition stopped :: "index_spec \<Rightarrow> int \<Rightarrow> index_world \<Rightarrow> index_world \<Rightarrow> bool" where
  "stopped S t w v \<longleftrightarrow> (\<exists>k. progress S t k w v)"

lemma stoppedI: "progress S t k w v \<Longrightarrow> stopped S t w v" by (auto simp: stopped_def)

lemma stopped_kept: "stopped S t w u \<Longrightarrow> kept S u v \<Longrightarrow> stopped S t w v"
  unfolding stopped_def using progress_kept by blast

lemma index_chunk_advances:
  assumes S: "well_extracted S" "fits E J S" "tame E S" and t: "t \<le> ie_now E ''upsert'' k" "jb_started J = Some t"
    and k: "k < k'" "k' \<le> sp_total S" and pr: "progress S t k w v" and st: "staged_of S v = []"
  shows "after (stopped S t w) (\<lambda>_ u. progress S t k' w u \<and> staged_of S u = [])
    (index_chunk E J k k' (batch_of S k k') v)"
proof -
  have F: "ie_tsvector E = sp_tsv S" "zm_name (jb_meta J) = sp_name S" "jb_zim_id J = sp_zim S" "CHR 0x00 \<notin> set (jb_ns J)"
    using S(2) by (simp_all add: fits_def)
  let ?Q = "\<lambda>(_ :: unit) u. progress S t k' w u \<and> staged_of S u = []"
  have adv: "advanced S t k w v" using pr by (simp add: progress_def)
  have cs: "chunk_state S t k v v" using advanced_self [OF adv] by (simp add: chunk_state_def)
  have up: "progress S t j w u" if "chunk_state S t j v u" "k \<le> j" "j \<le> sp_total S" for u j
    using that pr advanced_trans [OF adv] cp_fits_mono [of S t k v j]
    by (auto simp: progress_def chunk_state_def cp_fits_def)
  have b: "after (stopped S t w) ?Q (bulk_insert E (zm_name (jb_meta J)) k (batch_of S k k') (jb_ns J) (jb_zim_id J) v)"
    unfolding F(2,3) by (rule after_weaken [OF bulk_insert_advances [OF S(1) k(2) F(1) S(3) F(4) t(1) _ cs st]])
      (use up [of k] up [of k'] k in \<open>auto intro: stoppedI\<close>)
  have p: "after (stopped S t w) ?Q (update_progress E (jb_meta J) (of_nat k' / of_nat (jb_total J)) k' u)" if u: "?Q () u" for u
    unfolding update_progress_def F(2)
    by (rule after_weaken [OF after_update_zim [OF S(3)]])
      (use u progress_kept stoppedI in \<open>auto simp: keeps_def, blast\<close>)
  have c: "?Q () (save_checkpoint E (zm_name (jb_meta J)) (job_checkpoint E J k') u)" if u: "?Q () u" for u
  proof -
    let ?x = "save_checkpoint E (sp_name S) (job_checkpoint E J k') u"
    have same: "ix_articles ?x = ix_articles u" "ix_zims ?x = ix_zims u" "ix_qid_index ?x = ix_qid_index u" "ix_staging ?x = ix_staging u"
      by (simp_all add: save_checkpoint_def split: write_outcome.split)
    have "own_cp S t k' (job_checkpoint E J k')" using k t(2) by (simp add: own_cp_def job_checkpoint_def)
    then have "cp_fits S t k' ?x"
      using u by (auto simp: save_checkpoint_def progress_def cp_fits_def split: write_outcome.split)
    moreover have "advanced S t k' w ?x"
      using u same by (simp add: progress_def advanced_def live_def covered_def fresh_def present_def)
    ultimately show ?thesis using u same F(2) by (simp add: progress_def staged_of_def)
  qed
  show ?thesis unfolding index_chunk_def
    by (rule after_then [OF b]) (rule after_then [OF p], simp, use c in simp)
qed

lemma skip_chunk:
  assumes "progress S t k w v" and "batch_of S k k' = []" and "k \<le> k'" and "k' \<le> sp_total S"
  shows "progress S t k' w v"
proof -
  have none: "sp_extract S i = None" if "k \<le> i" "i < k'" for i
  proof (rule ccontr)
    assume "sp_extract S i \<noteq> None"
    then have "set (batch_of S k k') \<noteq> {}" using that by (auto simp: batch_set)
    then show False using assms(2) by simp
  qed
  have "covered S t k' v" using assms(1) none unfolding progress_def advanced_def covered_def
    by (metis not_less option.distinct(1))
  then show ?thesis using assms cp_fits_mono by (auto simp: progress_def advanced_def)
qed

lemma index_loop_completes:
  assumes S: "well_extracted S" "fits E J S" "tame E S" and t: "\<And>n. t \<le> ie_now E ''upsert'' n" "jb_started J = Some t"
  shows "progress S t k w v \<Longrightarrow> staged_of S v = [] \<Longrightarrow>
    after (stopped S t w) (\<lambda>_ u. progress S t (sp_total S) w u) (index_loop E J k v)"
proof (induction E\<equiv>E J\<equiv>J k v rule: index_loop.induct)
  case (1 k v)
  let ?k' = "min (k + CHUNK_SIZE) (jb_total J)"
  have F: "jb_total J = sp_total S" "job_extract E J = sp_extract S" using S(2) by (simp_all add: fits_def)
  show ?case
  proof (cases "k \<ge> jb_total J")
    case True
    then have "k = sp_total S" using 1(3) F(1) by (simp add: progress_def)
    then show ?thesis using 1(3) True by (subst index_loop.simps) (simp add: Let_def)
  next
    case False
    then have k': "k < ?k'" "?k' \<le> sp_total S" using F(1) by (simp_all add: CHUNK_SIZE_def)
    show ?thesis
    proof (cases "ie_extract_died E k")
      case (Some e)
      then show ?thesis using False stoppedI [OF 1(3)] by (subst index_loop.simps) (simp add: Let_def)
    next
      case None
      have vr: "List.map_filter (job_extract E J) [k..<?k'] = batch_of S k ?k'" by (simp add: F(2) batch_of_def)
      show ?thesis
      proof (cases "batch_of S k ?k' = []")
        case True
        have "progress S t ?k' w v" by (rule skip_chunk [OF 1(3) True]) (use k' in simp_all)
        then show ?thesis using 1(1) [OF refl False None refl] True 1(4) False None
          by (subst index_loop.simps) (simp add: Let_def vr)
      next
        case nonempty: False
        have "after (stopped S t w) (\<lambda>_ u. progress S t ?k' w u \<and> staged_of S u = []) (index_chunk E J k ?k' (batch_of S k ?k') v)"
          by (rule index_chunk_advances [OF S t(1) t(2) k' 1(3,4)])
        then have "after (stopped S t w) (\<lambda>_ u. progress S t (sp_total S) w u)
            (then_stmt (index_chunk E J k ?k' (batch_of S k ?k') v) (\<lambda>_ w. index_loop E J ?k' w))"
          by (rule after_then) (use 1(2) [OF refl False None refl] nonempty vr in auto)
        then show ?thesis using False None nonempty by (subst index_loop.simps) (simp add: Let_def vr)
      qed
    qed
  qed
qed

section \<open>A whole run\<close>

text \<open>The index holds exactly the articles of the archive: every extracted entry has its row, no other row is left,
  and Wikidata numbers belong to articles.\<close>

definition exact_index :: "index_spec \<Rightarrow> index_world \<Rightarrow> bool" where
  "exact_index S w \<longleftrightarrow>
     (\<forall>p. case ix_articles w (sp_zim S, p) of
        Some a \<Rightarrow> (\<exists>i< sp_total S. \<exists>r. sp_extract S i = Some r \<and> ar_path r = p \<and> matches S r a)
      | None \<Rightarrow> \<not> (\<exists>i< sp_total S. \<exists>r. sp_extract S i = Some r \<and> ar_path r = p) \<and> ix_qid_index w (sp_zim S, p) = None)
     \<and> (\<forall>i< sp_total S. \<forall>r q. sp_extract S i = Some r \<and> ar_qid r = Some q \<longrightarrow> ix_qid_index w (sp_zim S, ar_path r) = Some q)
     \<and> (\<exists>row. ix_zims w (sp_name S) = Some row \<and> zr_index_status row = ''ready'')"

definition has_zim :: "index_spec \<Rightarrow> index_world \<Rightarrow> bool" where
  "has_zim S w \<longleftrightarrow> map_option zr_id (ix_zims w (sp_name S)) = Some (sp_zim S)"

lemma has_zim_kept: "kept S u v \<Longrightarrow> has_zim S u \<Longrightarrow> has_zim S v" by (simp add: has_zim_def kept_def)

lemma progress_has_zim: "progress S t k w v \<Longrightarrow> has_zim S w \<Longrightarrow> has_zim S v"
  by (simp add: progress_def advanced_def has_zim_def)

lemma prune_articles:
  assumes "has_zim S u"
  shows "ix_articles (prune (sp_name S) t u) (sp_zim S, p) =
      (case ix_articles u (sp_zim S, p) of Some a \<Rightarrow> if at_updated_at a < t then None else Some a | None \<Rightarrow> None)"
    and "ix_qid_index (prune (sp_name S) t u) (sp_zim S, p) =
      (if ix_articles (prune (sp_name S) t u) (sp_zim S, p) = None then None else ix_qid_index u (sp_zim S, p))"
    and "ix_zims (prune (sp_name S) t u) = ix_zims u" "ix_checkpoints (prune (sp_name S) t u) = ix_checkpoints u"
  using assms by (auto simp: has_zim_def prune_def Let_def split: option.splits)

lemma finalize_exact:
  assumes T: "tame E S" and nm: "zm_name meta = sp_name S" and z: "has_zim S v" and pr: "progress S t (sp_total S) w v"
  shows "after (stopped S t w) (\<lambda>_ u. exact_index S u \<and> cp_ok S u) (finalize_zim E meta n (Some t) v)"
  unfolding finalize_zim_def option.case nm
proof (rule after_stmt [OF T])
  fix u assume "keeps S v u"
  then show "stopped S t w u" using progress_kept [OF pr] keeps_kept stoppedI by blast
next
  fix u a x
  assume ku: "keeps S v u"
  let ?p = "prune (sp_name S) t u"
  let ?f = "\<lambda>r. r\<lparr>zr_index_status := ''ready'', zr_index_progress := 1, zr_indexed_entries := int n\<rparr>"
  assume run: "update_zim (sp_name S) ?f (ie_now E ''finalize'' 0) ?p = (Ok a, x)"
  have pu: "progress S t (sp_total S) w u" and zu: "has_zim S u"
    using progress_kept [OF pr keeps_kept [OF ku]] has_zim_kept [OF keeps_kept [OF ku] z] by auto
  note P = prune_articles [OF zu, of t]
  obtain row where row: "ix_zims u (sp_name S) = Some row" using zu by (auto simp: has_zim_def)
  have x: "ix_articles x = ix_articles ?p" "ix_qid_index x = ix_qid_index ?p" "ix_checkpoints x = ix_checkpoints u"
    "ix_zims x (sp_name S) = Some (?f row)"
    using run P(3,4) row by (auto simp: update_zim_def)
  have lv: "live S t u" and cv: "covered S t (sp_total S) u" using pu by (simp_all add: progress_def advanced_def)
  have fr: "fresh S t r x" if "fresh S t r u" for r using that P(1) x(1) by (auto simp: fresh_def)
  have arts: "case ix_articles x (sp_zim S, p) of
        Some a \<Rightarrow> (\<exists>i< sp_total S. \<exists>r. sp_extract S i = Some r \<and> ar_path r = p \<and> matches S r a)
      | None \<Rightarrow> \<not> (\<exists>i< sp_total S. \<exists>r. sp_extract S i = Some r \<and> ar_path r = p) \<and> ix_qid_index x (sp_zim S, p) = None" for p
  proof (cases "ix_articles x (sp_zim S, p)")
    case None
    have "\<not> (\<exists>i< sp_total S. \<exists>r. sp_extract S i = Some r \<and> ar_path r = p)"
    proof
      assume "\<exists>i< sp_total S. \<exists>r. sp_extract S i = Some r \<and> ar_path r = p"
      then obtain i r where "i < sp_total S" "sp_extract S i = Some r" "ar_path r = p" by blast
      then have "fresh S t r x" using cv fr by (simp add: covered_def)
      then show False using None \<open>ar_path r = p\<close> by (simp add: fresh_def)
    qed
    then show ?thesis using None P(2) [of p] x(1,2) by simp
  next
    case (Some b)
    then have "ix_articles u (sp_zim S, p) = Some b" "t \<le> at_updated_at b"
      using P(1) [of p] x(1) by (auto split: option.splits if_splits)
    then show ?thesis using lv Some by (simp add: live_def)
  qed
  have qids: "ix_qid_index x (sp_zim S, ar_path r) = Some q" if "i < sp_total S" "sp_extract S i = Some r" "ar_qid r = Some q" for i r q
  proof -
    have "fresh S t r x" "ix_qid_index u (sp_zim S, ar_path r) = Some q" using cv fr that by (simp_all add: covered_def)
    then show ?thesis using P(2) [of "ar_path r"] x(1,2) by (auto simp: fresh_def)
  qed
  have "exact_index S x" using arts qids x(4) by (simp add: exact_index_def)
  moreover have "cp_ok S x"
  proof (rule cp_fits_ok [of S t "sp_total S" x])
    have "live S t x" using lv P(1) x(1) by (auto simp: live_def split: option.splits if_splits)
    moreover have "covered S t (sp_total S) x" using cv fr qids by (auto simp: covered_def)
    ultimately show "advanced S t (sp_total S) x x" by (simp add: advanced_def present_def)
    show "cp_fits S t (sp_total S) x" using pu x(3) by (simp add: progress_def cp_fits_def)
  qed simp
  ultimately show "exact_index S x \<and> cp_ok S x" by simp
qed

text \<open>The specification of an archive that was opened for a run.\<close>

definition spec_of :: "index_env \<Rightarrow> zim_meta \<Rightarrow> opened_zim \<Rightarrow> int \<Rightarrow> index_spec" where
  "spec_of E meta Z z =
     \<lparr>sp_name = zm_name meta, sp_zim = z,
      sp_extract = (\<lambda>i. extract_entry (ie_ops E) (oz_archive Z) ((oz_range_start Z + i) mod 2 ^ 32) (oz_language Z)
           (is_wikipedia (zm_name meta) (oz_language Z) (oz_description Z) (oz_publisher Z))),
      sp_total = oz_range_end Z - oz_range_start Z, sp_tsv = ie_tsvector E, sp_mtime = ie_mtime E 0,
      sp_key = oz_first_entry_key Z\<rparr>"

text \<open>The database clock: what is in the index is older than the start of a new run, and nothing is written before it.\<close>

definition clock_ok :: "index_env \<Rightarrow> index_spec \<Rightarrow> index_world \<Rightarrow> bool" where
  "clock_ok E S w \<longleftrightarrow>
     (\<forall>p a. ix_articles w (sp_zim S, p) = Some a \<longrightarrow> at_updated_at a < ie_now E ''now'' 0)
     \<and> (\<forall>n. ie_now E ''now'' 0 \<le> ie_now E ''upsert'' n)
     \<and> (\<forall>c t. ix_checkpoints w (sp_name S) = Some c \<and> cp_index_started_at c = Some t \<longrightarrow> t \<le> ie_now E ''now'' 0)"

lemma clock_ok_kept:
  assumes k: "kept S w u" and c: "clock_ok E S w"
  shows "clock_ok E S u"
proof -
  have "at_updated_at a < ie_now E ''now'' 0" if a: "ix_articles u (sp_zim S, p) = Some a" for p a
  proof -
    obtain b where "ix_articles w (sp_zim S, p) = Some b" "core b = core a" using kept_article [OF k a] by blast
    then show ?thesis using c core_eqD [of b a] by (fastforce simp: clock_ok_def)
  qed
  then show ?thesis using c k by (auto simp: clock_ok_def kept_def)
qed

lemma cp_ok_kept:
  assumes k: "kept S u v" and c: "cp_ok S u"
  shows "cp_ok S v"
proof -
  have "ix_checkpoints v (sp_name S) = ix_checkpoints u (sp_name S)" using k by (simp add: kept_def)
  then show ?thesis using c live_kept [OF k] covered_kept [OF k] by (fastforce simp: cp_ok_def split: option.splits)
qed

definition safe :: "index_spec \<Rightarrow> index_world \<Rightarrow> index_world \<Rightarrow> bool" where
  "safe S w v \<longleftrightarrow> present S w v \<and> cp_ok S v"

lemma stopped_safe: "stopped S t w v \<Longrightarrow> safe S w v"
  using cp_fits_ok by (auto simp: stopped_def progress_def safe_def advanced_def)

lemma index_opened_exact:
  assumes S: "S = spec_of E meta Z z" and W: "well_extracted S" and T: "tame E S"
    and t: "\<And>n. t \<le> ie_now E ''upsert'' n" and z: "has_zim S w" and pr: "progress S t k w w"
  shows "after (safe S w) (\<lambda>_ v. exact_index S v \<and> cp_ok S v) (index_opened E meta Z (sp_total S) k (Some t) w)"
proof -
  have nm: "zm_name meta = sp_name S" by (simp add: S spec_of_def)
  let ?X = "stopped S t w" and ?R = "\<lambda>(_ :: unit) v. exact_index S v \<and> cp_ok S v"
  have fin: "after ?X ?R (finalize_zim E meta (sp_total S) (Some t) v)" if "progress S t (sp_total S) w v" for v
    by (rule finalize_exact [OF T nm progress_has_zim [OF that z] that])
  have body: "after ?X ?R (index_opened E meta Z (sp_total S) k (Some t) w)"
  proof (cases "k \<ge> sp_total S")
    case True
    then have "k = sp_total S" using pr by (simp add: progress_def)
    then show ?thesis using fin pr by (simp add: index_opened_def)
  next
    case False
    have s1: "after ?X (\<lambda>row v. progress S t k w v \<and> has_zim S v \<and> row = ix_zims v (zm_name meta))
        (stmt_at E ''zim_id'' 0 (\<lambda>_ w. (Ok (ix_zims w (zm_name meta)), w)) w)"
      by (rule after_stmt [OF T]) (use progress_kept [OF pr] has_zim_kept [OF _ z] stoppedI in \<open>auto simp: keeps_def, blast\<close>)
    have s2: "after ?X ?R (case row of
            None \<Rightarrow> (Err (Internal (''ZIM '' @ [CHR 0x27] @ zm_name meta @ [CHR 0x27] @ '' row vanished before indexing'')), v)
          | Some r \<Rightarrow>
              let J = \<lparr>jb_meta = meta, jb_opened = Z, jb_total = sp_total S, jb_zim_id = zr_id r, jb_started = Some t,
                       jb_ns = (case oz_article_ns Z of UserContent \<Rightarrow> ''U'' | Articles \<Rightarrow> ''C'')\<rparr>
              in then_stmt (stmt_at E ''clear'' 0 (clear_staging (zr_id r)) v) (\<lambda>_ v.
                   then_stmt (index_loop E J k v) (\<lambda>_ v.
                     finalize_zim E meta (sp_total S) (Some t)
                       (if ie_remove_ok E then v\<lparr>ix_checkpoints := (ix_checkpoints v)(zm_name meta := None)\<rparr> else v))))"
      if v: "progress S t k w v \<and> has_zim S v \<and> row = ix_zims v (zm_name meta)" for row v
    proof -
      obtain r where r: "row = Some r" "zr_id r = sp_zim S" using v nm by (auto simp: has_zim_def)
      define J where "J = \<lparr>jb_meta = meta, jb_opened = Z, jb_total = sp_total S, jb_zim_id = zr_id r, jb_started = Some t,
                       jb_ns = (case oz_article_ns Z of UserContent \<Rightarrow> ''U'' | Articles \<Rightarrow> ''C'')\<rparr>"
      have F: "fits E J S"
        using r(2) by (auto simp: fits_def J_def S spec_of_def job_extract_def Let_def fun_eq_iff split: zim_namespace.split)
      have c1: "after ?X (\<lambda>_ u. progress S t k w u \<and> staged_of S u = []) (stmt_at E ''clear'' 0 (clear_staging (sp_zim S)) v)"
      proof (rule after_stmt [OF T])
        fix u assume "keeps S v u" then show "?X u" using v progress_kept keeps_kept stoppedI by blast
      next
        fix u a x assume ku: "keeps S v u" and c: "clear_staging (sp_zim S) (ie_now E ''clear'' 0) u = (Ok a, x)"
        have "kept S u x" "staged_of S x = []" using c by (auto simp: clear_staging_def kept_def staged_of_def filter_empty_conv)
        then show "progress S t k w x \<and> staged_of S x = []" using v progress_kept keeps_kept [OF ku] by blast
      qed
      have c2: "after ?X (\<lambda>_ u. progress S t (sp_total S) w u) (index_loop E J k u)" if "progress S t k w u \<and> staged_of S u = []" for u
        by (rule index_loop_completes [OF W F T t]) (use that in \<open>simp_all add: J_def\<close>)
      have c3: "after ?X ?R (finalize_zim E meta (sp_total S) (Some t)
            (if ie_remove_ok E then u\<lparr>ix_checkpoints := (ix_checkpoints u)(zm_name meta := None)\<rparr> else u))"
        if u: "progress S t (sp_total S) w u" for u
        by (rule fin) (use u nm in \<open>simp add: progress_def cp_fits_def advanced_def live_def covered_def fresh_def present_def\<close>)
      have "after ?X ?R (then_stmt (stmt_at E ''clear'' 0 (clear_staging (sp_zim S)) v) (\<lambda>_ v.
                   then_stmt (index_loop E J k v) (\<lambda>_ v.
                     finalize_zim E meta (sp_total S) (Some t)
                       (if ie_remove_ok E then v\<lparr>ix_checkpoints := (ix_checkpoints v)(zm_name meta := None)\<rparr> else v))))"
        by (rule after_then [OF c1]) (rule after_then [OF c2], assumption, rule c3)
      then show ?thesis by (simp add: r J_def Let_def)
    qed
    show ?thesis using False after_then [OF s1 s2] by (simp add: index_opened_def)
  qed
  then show ?thesis by (rule after_weaken) (use stopped_safe in auto)
qed

lemma opened_nonempty:
  assumes "open_zim_blocking T parsed fp ti la = Ok Z"
  shows "0 < oz_range_end Z - oz_range_start Z"
  using assms
  by (auto simp: open_zim_blocking_def find_article_namespace_def split: sum.splits option.splits if_splits)

lemma progress_start:
  assumes "clock_ok E S w" and "\<And>c. ix_checkpoints w (sp_name S) = Some c \<Longrightarrow> \<not> checkpoint_resumable c (sp_mtime S) (sp_total S) (sp_key S)"
  shows "progress S (ie_now E ''now'' 0) 0 w w"
  using assms
  by (fastforce simp: progress_def advanced_def live_def covered_def present_def cp_fits_def clock_ok_def split: option.split)

lemma progress_resume:
  assumes "cp_ok S w" and "ix_checkpoints w (sp_name S) = Some c" and "checkpoint_resumable c (sp_mtime S) (sp_total S) (sp_key S)"
  obtains t where "cp_index_started_at c = Some t" "progress S t (cp_completed c) w w" "0 < cp_completed c"
  using assms that by (fastforce simp: cp_ok_def progress_def advanced_def present_def cp_fits_def own_cp_def)

lemma safe_weaken:
  assumes "after (safe S v) R x" and "kept S w v"
  shows "after (safe S w) R x"
  by (rule after_weaken [OF assms(1)]) (use present_trans [OF present_kept [OF assms(2)]] in \<open>auto simp: safe_def\<close>)

lemma index_resumes:
  assumes S: "S = spec_of E meta Z z" and W: "well_extracted S" and T: "tame E S"
    and z: "has_zim S v" and cp: "cp_ok S v" and ck: "clock_ok E S v"
    and c: "ix_checkpoints v (sp_name S) = Some c" "checkpoint_resumable c (sp_mtime S) (sp_total S) (sp_key S)"
  shows "0 < cp_completed c"
    and "after (safe S v) (\<lambda>_ v. exact_index S v \<and> cp_ok S v)
           (index_opened E meta Z (sp_total S) (cp_completed c) (cp_index_started_at c) v)"
proof -
  obtain t where t: "cp_index_started_at c = Some t" "progress S t (cp_completed c) v v" "0 < cp_completed c"
    by (rule progress_resume [OF cp c])
  have tn: "t \<le> ie_now E ''upsert'' n" for n
    using ck c(1) t(1) order_trans by (fastforce simp: clock_ok_def)
  show "0 < cp_completed c" by (rule t(3))
  show "after (safe S v) (\<lambda>_ v. exact_index S v \<and> cp_ok S v)
          (index_opened E meta Z (sp_total S) (cp_completed c) (cp_index_started_at c) v)"
    unfolding t(1) by (rule index_opened_exact [OF S W T tn z t(2)])
qed

lemma index_starts:
  assumes S: "S = spec_of E meta Z z" and W: "well_extracted S" and T: "tame E S"
    and z: "has_zim S v" and cp: "cp_ok S v" and ck: "clock_ok E S v"
    and no: "\<nexists>c. ix_checkpoints v (sp_name S) = Some c \<and> checkpoint_resumable c (sp_mtime S) (sp_total S) (sp_key S)"
  shows "after (safe S v) (\<lambda>_ v. exact_index S v \<and> cp_ok S v)
           (then_stmt (stmt_at E ''now'' 0 (\<lambda>now w. (Ok now, w)) v)
              (\<lambda>now w. index_opened E meta Z (sp_total S) 0 (Some now) w))"
proof (rule after_then)
  show "after (safe S v) (\<lambda>now u. now = ie_now E ''now'' 0 \<and> keeps S v u) (stmt_at E ''now'' 0 (\<lambda>now w. (Ok now, w)) v)"
    by (rule after_stmt [OF T]) (use cp in \<open>auto simp: safe_def intro: present_kept keeps_kept cp_ok_kept\<close>)
next
  fix now u
  assume u: "now = ie_now E ''now'' 0 \<and> keeps S v u"
  have ku: "kept S v u" using u keeps_kept by blast
  have "ix_checkpoints u (sp_name S) = ix_checkpoints v (sp_name S)" using ku by (simp add: kept_def)
  then have "progress S now 0 u u"
    using progress_start [OF clock_ok_kept [OF ku ck]] no u by auto
  moreover have "now \<le> ie_now E ''upsert'' n" for n using ck u by (simp add: clock_ok_def)
  ultimately show "after (safe S v) (\<lambda>_ v. exact_index S v \<and> cp_ok S v) (index_opened E meta Z (sp_total S) 0 (Some now) u)"
    by (intro safe_weaken [OF _ ku] index_opened_exact [OF S W T _ has_zim_kept [OF ku z]])
qed


section \<open>Samples\<close>

definition sample_archive :: zim_archive where
  "sample_archive =
     \<lparr>za_metadata = (\<lambda>_. None), za_namespace_range = (\<lambda>ns. if ns = Articles then Some (5, 7) else None), za_article_count = 2,
      za_get_by_url_index = (\<lambda>i. Some \<lparr>dn_url = (if i = 5 then ''A/a'' else ''A/b''), dn_title = ''t'', dn_mime = MimeType ''text/html'', dn_index = i\<rparr>),
      za_resolve = Some, za_entry_content = (\<lambda>e. Some \<lparr>co_bytes = Some ''hi'', co_len = Some 2\<rparr>)\<rparr>"

definition sample_text_ops :: text_ops where
  "sample_text_ops = \<lparr>tx_strip = id, tx_readability = (\<lambda>_ _. None), tx_qid_captures = (\<lambda>_. []), tx_collapse = id, tx_parse_date = (\<lambda>_ _. None)\<rparr>"

definition sample_index_env :: index_env where
  "sample_index_env =
     \<lparr>ie_fault = (\<lambda>_ _. None), ie_now = (\<lambda>_ _. 10), ie_others = (\<lambda>_ _. id), ie_stat = Some 3, ie_open = Inr (Ok sample_archive),
      ie_mtime = (\<lambda>_. 7), ie_extract_died = (\<lambda>_. None), ie_save = (\<lambda>_. Written), ie_remove_ok = True, ie_ops = sample_text_ops,
      ie_tsvector = (\<lambda>t p. t @ p), ie_real = id, ie_hashtext = (\<lambda>_. 0)\<rparr>"

definition sample_index_meta :: zim_meta where "sample_index_meta = stub ''w'' ''zims/w.zim'' 3"

definition sample_opened :: opened_zim where
  "sample_opened =
     \<lparr>oz_archive = sample_archive, oz_display_title = ''w'', oz_language = ''en'', oz_description = None, oz_creator = None,
      oz_publisher = None, oz_date = None, oz_article_ns = Articles, oz_range_start = 5, oz_range_end = 7,
      oz_first_entry_key = ''A/a:2''\<rparr>"

definition sample_index_world :: index_world where
  "sample_index_world =
     \<lparr>ix_zims = [''w'' \<mapsto> row_of_meta sample_zim_env 4 sample_index_meta],
      ix_articles = [(4, ''A/old'') \<mapsto> \<lparr>at_title = ''o'', at_content_preview = None, at_snippet = [], at_search_vector = [], at_language = ''en'',
         at_namespace = ''C'', at_embedding = None, at_updated_at = 3\<rparr>],
      ix_staging = [], ix_qid_index = Map.empty, ix_checkpoints = Map.empty, ix_locks = []\<rparr>"

definition sample_spec :: index_spec where
  "sample_spec = spec_of sample_index_env sample_index_meta sample_opened 4"

lemma sample_open_ok:
  "open_zim_blocking sample_text_ops (Ok sample_archive) ''zims/w.zim'' ''w'' ''en'' = Ok sample_opened"
  by (simp add: open_zim_blocking_def find_article_namespace_def sample_archive_def read_metadata_def sample_opened_def
      first_entry_content_key_def decimal_digits.simps char_of_def bit_0)

lemma sample_text: "from_utf8_lossy ''hi'' = ''hi''" "trim ''hi'' = ''hi''" "take_chars n ''hi'' = take n ''hi''"
proof -
  show "from_utf8_lossy ''hi'' = ''hi''" by (simp add: byte_in_def ascii_def)
  show "trim ''hi'' = ''hi''" by (rule trim_printable) (simp_all add: printable_def ascii_def)
  show "take_chars n ''hi'' = take n ''hi''"
    by (cases n; cases "n - 1") (simp_all add: take_chars_def is_continuation_def ascii_def)
qed

lemma sample_extract:
  "extract_entry sample_text_ops sample_archive i lang False =
     Some \<lparr>ar_path = (if i = 5 then ''A/a'' else ''A/b''), ar_title = ''t'', ar_content_preview = Some ''hi'', ar_snippet = ''hi'',
           ar_language = lang, ar_qid = None\<rparr>"
proof -
  have "first_paragraph (str_lines ''hi'') = None" by (simp add: str_lines_def sample_text)
  then have "article_of_html sample_text_ops p ''t'' lang False ''hi'' =
     Some \<lparr>ar_path = p, ar_title = ''t'', ar_content_preview = Some ''hi'', ar_snippet = ''hi'', ar_language = lang, ar_qid = None\<rparr>" for p
    by (simp add: article_of_html_def strip_head_def STRIP_HEAD_BYTES_def sample_text_ops_def sample_text MAX_TEXT_CHARS_def
        PREVIEW_CHARS_def generate_snippet_def Let_def)
  then show ?thesis
    by (simp add: extract_entry_def sample_archive_def is_text_mime_def MAX_ENTRY_SCAN_BYTES_def sample_text del: from_utf8_lossy.simps)
qed

lemma sample_not_wiki: "\<not> is_wikipedia ''w'' ''en'' None None"
  by (simp add: is_wikipedia_def starts_with_def)

lemma sample_spec_sel:
  "sp_name sample_spec = ''w''" "sp_zim sample_spec = 4" "sp_total sample_spec = 2"
  "sp_extract sample_spec = (\<lambda>i. extract_entry sample_text_ops sample_archive ((5 + i) mod 2 ^ 32) ''en'' False)"
  by (simp_all add: sample_spec_def spec_of_def sample_opened_def sample_index_meta_def stub_def sample_index_env_def sample_not_wiki)

lemma sample_well_extracted: "well_extracted sample_spec"
proof -
  have ext: "sp_extract sample_spec i = Some \<lparr>ar_path = (if i = 0 then ''A/a'' else ''A/b''), ar_title = ''t'',
      ar_content_preview = Some ''hi'', ar_snippet = ''hi'', ar_language = ''en'', ar_qid = None\<rparr>" if "i < 2" for i
    using that by (auto simp: sample_spec_sel sample_extract less_2_cases_iff)
  show ?thesis unfolding well_extracted_def sample_spec_sel(2,3)
  proof (intro conjI allI impI)
    fix i r assume i: "i < 2" "sp_extract sample_spec i = Some r"
    have r: "r = \<lparr>ar_path = (if i = 0 then ''A/a'' else ''A/b''), ar_title = ''t'',
        ar_content_preview = Some ''hi'', ar_snippet = ''hi'', ar_language = ''en'', ar_qid = None\<rparr>"
      using ext [OF i(1)] i(2) by simp
    show "storable_text r" unfolding r by (simp add: storable_text_def)
    fix j r' assume j: "j < 2" "sp_extract sample_spec j = Some r'" "ar_path r' = ar_path r"
    then have "ar_path r' = (if j = 0 then ''A/a'' else ''A/b'')" using ext [OF j(1)] by auto
    then show "j = i" using j(1,3) i(1) r by (auto split: if_splits)
  qed simp_all
qed


end
