(* ===== verification/VectorIndex.thy ===== *)
theory VectorIndex
  imports Embed Articles
begin

text \<open>
  The vector index over the stored embeddings (\<open>src/embed/vector_index.rs\<close>) and the gate that spaces its
  builds (\<open>src/embed/auto_loop.rs\<close>).

  The catalog entry of the index is a flag, its validity, or nothing. The rows with an embedding are counted by
  a field of the state. Statements are sites of the environment, with the fault that hits them and what other
  sessions did before; the clock is read at a site too. A \<open>CREATE INDEX CONCURRENTLY\<close> that fails may leave an
  invalid entry. Every DDL statement is recorded with the value the in-flight flag had while it ran.
\<close>

section \<open>Decisions\<close>

definition VECTOR_INDEX_MIN_ROWS :: int where "VECTOR_INDEX_MIN_ROWS = 1"
definition MIN_INDEX_BUILD_ROWS :: int where "MIN_INDEX_BUILD_ROWS = 10000"
definition VECTOR_INDEX_SNAPSHOT_TTL :: u64 where "VECTOR_INDEX_SNAPSHOT_TTL = 300"
definition BUILD_BACKOFF_SECS :: u64 where "BUILD_BACKOFF_SECS = 600"

datatype vector_index_state = Absent | Present | PresentInvalid

definition classify_index_state :: "bool \<Rightarrow> bool \<Rightarrow> vector_index_state" where
  "classify_index_state valid invalid = (if valid then Present else if invalid then PresentInvalid else Absent)"

text \<open>The integer part of a square root: \<open>f64::sqrt\<close> and the cast give it for every count below \<open>2 ^ 52\<close>.\<close>

fun int_sqrt :: "nat \<Rightarrow> nat" where
  "int_sqrt n =
     (if n = 0 then 0
      else let r = 2 * int_sqrt (n div 4) in if (r + 1) * (r + 1) \<le> n then r + 1 else r)"

declare int_sqrt.simps [simp del]

definition ivfflat_lists :: "int \<Rightarrow> nat" where
  "ivfflat_lists n_rows = max (min (int_sqrt (nat n_rows)) (2 ^ 31 - 1)) 100"

definition index_build_sql :: "int \<Rightarrow> int \<Rightarrow> string" where
  "index_build_sql n_rows hnsw_threshold =
     (if n_rows < hnsw_threshold
      then ''CREATE INDEX CONCURRENTLY IF NOT EXISTS idx_articles_embedding ON articles USING hnsw ''
        @ ''(embedding vector_cosine_ops) WHERE embedding IS NOT NULL''
      else ''CREATE INDEX CONCURRENTLY IF NOT EXISTS idx_articles_embedding ON articles USING ''
        @ ''ivfflat (embedding vector_cosine_ops) WITH (lists = '' @ decimal_digits (ivfflat_lists n_rows)
        @ '') WHERE embedding IS NOT NULL'')"

definition vector_index_degradation_note :: "int \<Rightarrow> vector_index_state \<Rightarrow> string option" where
  "vector_index_degradation_note n_rows st =
     (if n_rows \<ge> MIN_INDEX_BUILD_ROWS \<and> st \<noteq> Present
      then Some (''no valid vector index over '' @ int_text n_rows @ '' embedded rows '' @ bytes_str [0xE2, 0x80, 0x94]
             @ '' vector search is a sequential cosine scan over every embedded row'')
      else None)"

definition should_spawn_build :: "vector_index_state \<Rightarrow> int \<Rightarrow> bool" where
  "should_spawn_build st n_rows \<longleftrightarrow> st \<noteq> Present \<and> n_rows \<ge> MIN_INDEX_BUILD_ROWS"

record vector_index_snapshot =
  sn_embedded_rows :: int
  sn_index :: vector_index_state
  sn_at_unix :: u64

definition snapshot_is_fresh :: "vector_index_snapshot \<Rightarrow> u64 \<Rightarrow> bool" where
  "snapshot_is_fresh snap now \<longleftrightarrow>
     sn_at_unix snap \<noteq> 0 \<and> saturating_sub now (sn_at_unix snap) \<le> VECTOR_INDEX_SNAPSHOT_TTL"

definition build_probe_allowed :: "u64 \<Rightarrow> u64 \<Rightarrow> bool" where
  "build_probe_allowed last_probe now \<longleftrightarrow> last_probe = 0 \<or> saturating_sub now last_probe \<ge> BUILD_BACKOFF_SECS"

section \<open>The backoff gate\<close>

text \<open>
  \<open>build_probe_within_backoff\<close> for one caller: \<open>now\<close> is its clock, \<open>last\<close> the value it holds, and the list has the
  values at which its exchanges fail because other callers moved the stamp. The result is the answer and the
  stamp the caller saw last or has written.
\<close>

fun build_probe_loop :: "u64 \<Rightarrow> u64 \<Rightarrow> u64 list \<Rightarrow> bool \<times> u64" where
  "build_probe_loop now last_probe [] =
     (if \<not> build_probe_allowed last_probe now then (False, last_probe) else (True, now))"
| "build_probe_loop now last_probe (fresh # moved) =
     (if \<not> build_probe_allowed last_probe now then (False, last_probe)
      else if \<not> build_probe_allowed fresh now then (False, fresh)
      else build_probe_loop now fresh moved)"

definition build_probe_within_backoff :: "u64 \<Rightarrow> u64 list \<Rightarrow> u64 \<Rightarrow> bool \<times> u64" where
  "build_probe_within_backoff now moved probe = build_probe_loop now probe moved"

definition build_probe_claimed_recently :: "u64 \<Rightarrow> u64 \<Rightarrow> bool" where
  "build_probe_claimed_recently now probe \<longleftrightarrow> \<not> build_probe_allowed probe now"

text \<open>
  The same call as steps of many callers on one stamp. A caller reads its clock, loads the stamp, and then tests
  and exchanges until it is refused or succeeds; every clock value is possible, so clocks may also run backwards.
  The log has the stamps of the successful calls.
\<close>

datatype gate_pc = Entered u64 | Holding u64 u64 | Answered bool

record gate =
  g_probe :: u64
  g_callers :: "nat \<Rightarrow> gate_pc option"
  g_claims :: "u64 list"

definition gate_start :: gate where
  "gate_start = \<lparr>g_probe = 0, g_callers = (\<lambda>_. None), g_claims = []\<rparr>"

inductive gate_step :: "gate \<Rightarrow> gate \<Rightarrow> bool" where
  enter: "g_callers g t = None \<Longrightarrow> gate_step g (g\<lparr>g_callers := (g_callers g)(t \<mapsto> Entered now)\<rparr>)"
| load: "g_callers g t = Some (Entered now) \<Longrightarrow>
    gate_step g (g\<lparr>g_callers := (g_callers g)(t \<mapsto> Holding now (g_probe g))\<rparr>)"
| refuse: "g_callers g t = Some (Holding now held) \<Longrightarrow> \<not> build_probe_allowed held now \<Longrightarrow>
    gate_step g (g\<lparr>g_callers := (g_callers g)(t \<mapsto> Answered False)\<rparr>)"
| exchange: "g_callers g t = Some (Holding now held) \<Longrightarrow> build_probe_allowed held now \<Longrightarrow> g_probe g = held \<Longrightarrow>
    gate_step g (g\<lparr>g_probe := now, g_callers := (g_callers g)(t \<mapsto> Answered True), g_claims := g_claims g @ [now]\<rparr>)"
| retry: "g_callers g t = Some (Holding now held) \<Longrightarrow> build_probe_allowed held now \<Longrightarrow> g_probe g \<noteq> held \<Longrightarrow>
    gate_step g (g\<lparr>g_callers := (g_callers g)(t \<mapsto>
      (if build_probe_allowed (g_probe g) now then Holding now (g_probe g) else Answered False))\<rparr>)"
| leave: "g_callers g t = Some (Answered b) \<Longrightarrow> gate_step g (g\<lparr>g_callers := (g_callers g)(t := None)\<rparr>)"

section \<open>State and probes\<close>

record build_state =
  bs_embedded :: int \<comment> \<open>rows with an embedding\<close>
  bs_live_estimate :: "int option" \<comment> \<open>\<open>n_live_tup\<close>, when the statistics have the table\<close>
  bs_entry :: "bool option" \<comment> \<open>the catalog entry and its \<open>indisvalid\<close>\<close>
  bs_probe :: u64
  bs_building :: bool
  bs_snapshot :: vector_index_snapshot
  bs_ddl :: "(string \<times> bool) list"

record build_env =
  be_fault :: "string \<Rightarrow> sqlx_error option"
  be_others :: "string \<Rightarrow> build_state \<Rightarrow> build_state"
  be_now :: "string \<Rightarrow> u64"
  be_moved :: "u64 list" \<comment> \<open>stamps at which an exchange of the gate fails\<close>
  be_remnant :: bool \<comment> \<open>whether a failed build leaves its entry\<close>

text \<open>A \<open>SELECT\<close> at a site.\<close>

definition probe_stmt ::
  "build_env \<Rightarrow> string \<Rightarrow> (build_state \<Rightarrow> 'a) \<Rightarrow> build_state \<Rightarrow> ('a, error) result \<times> build_state" where
  "probe_stmt E site read s =
     (let s = be_others E site s
      in (case be_fault E site of Some e \<Rightarrow> (Err (Database e), s) | None \<Rightarrow> (Ok (read s), s)))"

definition index_state :: "build_env \<Rightarrow> string \<Rightarrow> build_state \<Rightarrow> (vector_index_state, error) result \<times> build_state" where
  "index_state E site = probe_stmt E site (\<lambda>s. classify_index_state (bs_entry s = Some True) (bs_entry s = Some False))"

definition vector_index_state ::
  "build_env \<Rightarrow> build_state \<Rightarrow> (int \<times> vector_index_state, error) result \<times> build_state" where
  "vector_index_state E s =
     (case probe_stmt E ''count'' bs_embedded s of
        (Inl e, s) \<Rightarrow> (Err e, s)
      | (Inr n_rows, s) \<Rightarrow>
          (case index_state E ''state'' s of
             (Inl e, s) \<Rightarrow> (Err e, s)
           | (Inr st, s) \<Rightarrow> (Ok (n_rows, st), s)))"

definition live_rows_estimate :: "build_env \<Rightarrow> build_state \<Rightarrow> int \<times> build_state" where
  "live_rows_estimate E s =
     (case probe_stmt E ''estimate'' bs_live_estimate s of
        (Inr (Some n), s) \<Rightarrow> (n, s)
      | (_, s) \<Rightarrow> (0, s))"

definition publish_vector_index_snapshot :: "u64 \<Rightarrow> int \<Rightarrow> vector_index_state \<Rightarrow> build_state \<Rightarrow> build_state" where
  "publish_vector_index_snapshot now n_rows st s =
     s\<lparr>bs_snapshot := \<lparr>sn_embedded_rows = n_rows, sn_index = st, sn_at_unix = now\<rparr>\<rparr>"

record vector_index_diagnosis =
  vg_embedded_rows :: int
  vg_index :: vector_index_state
  vg_degraded :: "string option"
  vg_count_at :: u64

definition vector_index_diagnostic :: "build_env \<Rightarrow> build_state \<Rightarrow> vector_index_diagnosis option \<times> build_state" where
  "vector_index_diagnostic E s =
     (let now = be_now E ''diagnostic''; snap = bs_snapshot s
      in if snapshot_is_fresh snap now
         then (Some \<lparr>vg_embedded_rows = sn_embedded_rows snap, vg_index = sn_index snap,
                     vg_degraded = vector_index_degradation_note (sn_embedded_rows snap) (sn_index snap),
                     vg_count_at = sn_at_unix snap\<rparr>, s)
         else (case vector_index_state E s of
                 (Inl e, s) \<Rightarrow> (None, s)
               | (Inr (n_rows, st), s) \<Rightarrow>
                   (Some \<lparr>vg_embedded_rows = n_rows, vg_index = st,
                          vg_degraded = vector_index_degradation_note n_rows st, vg_count_at = now\<rparr>,
                    publish_vector_index_snapshot (be_now E ''publish'') n_rows st s)))"

datatype index_build_prefilter = Probe | Skip int vector_index_state | SkipUnknown

definition index_build_prefilter :: "build_env \<Rightarrow> build_state \<Rightarrow> index_build_prefilter \<times> build_state" where
  "index_build_prefilter E s =
     (case index_state E ''prefilter'' s of
        (Inl e, s) \<Rightarrow> (SkipUnknown, s)
      | (Inr st, s) \<Rightarrow>
          (case live_rows_estimate E s of (estimate, s) \<Rightarrow>
             if st = Present then (Skip estimate st, s)
             else if estimate \<ge> MIN_INDEX_BUILD_ROWS then (Probe, s)
             else (Skip estimate st, s)))"

section \<open>The build\<close>

text \<open>A DDL statement: recorded with the in-flight flag, then its effect, or what its failure leaves.\<close>

definition ddl ::
  "build_env \<Rightarrow> string \<Rightarrow> string \<Rightarrow> (bool option \<Rightarrow> bool option) \<Rightarrow> (bool option \<Rightarrow> bool option) \<Rightarrow> build_state
    \<Rightarrow> (unit, error) result \<times> build_state" where
  "ddl E site sql effect failed s =
     (let s = be_others E site s; s = s\<lparr>bs_ddl := bs_ddl s @ [(sql, bs_building s)]\<rparr>
      in (case be_fault E site of
            Some e \<Rightarrow> (Err (Database e), s\<lparr>bs_entry := failed (bs_entry s)\<rparr>)
          | None \<Rightarrow> (Ok (), s\<lparr>bs_entry := effect (bs_entry s)\<rparr>)))"

definition drop_concurrently :: "build_env \<Rightarrow> build_state \<Rightarrow> (unit, error) result \<times> build_state" where
  "drop_concurrently E = ddl E ''drop concurrently'' ''DROP INDEX CONCURRENTLY IF EXISTS idx_articles_embedding'' (\<lambda>_. None) (\<lambda>entry. entry)"

definition drop_plain :: "build_env \<Rightarrow> build_state \<Rightarrow> (unit, error) result \<times> build_state" where
  "drop_plain E = ddl E ''drop'' ''DROP INDEX IF EXISTS idx_articles_embedding'' (\<lambda>_. None) (\<lambda>entry. entry)"

definition create_index :: "build_env \<Rightarrow> string \<Rightarrow> build_state \<Rightarrow> (unit, error) result \<times> build_state" where
  "create_index E sql = ddl E ''create'' sql
     (\<lambda>entry. if entry = None then Some True else entry)
     (\<lambda>entry. if entry = None \<and> be_remnant E then Some False else entry)"

text \<open>The drop of an invalid entry; the answer is whether the build goes on.\<close>

definition drop_invalid :: "build_env \<Rightarrow> build_state \<Rightarrow> bool \<times> build_state" where
  "drop_invalid E s =
     (case drop_concurrently E s of
        (Inr _, s) \<Rightarrow> (True, s)
      | (Inl _, s) \<Rightarrow> (case drop_plain E s of (Inl _, s) \<Rightarrow> (False, s) | (Inr _, s) \<Rightarrow> (True, s)))"

text \<open>The part under the in-flight flag; \<open>Drop\<close> clears the flag on every way out.\<close>

definition build_in_flight :: "(build_state \<Rightarrow> 'a \<times> build_state) \<Rightarrow> build_state \<Rightarrow> 'a \<times> build_state" where
  "build_in_flight body s =
     (case body (s\<lparr>bs_building := True\<rparr>) of (r, s) \<Rightarrow> (r, s\<lparr>bs_building := False\<rparr>))"

definition build_body :: "build_env \<Rightarrow> string \<Rightarrow> vector_index_state \<Rightarrow> build_state \<Rightarrow> bool \<times> build_state" where
  "build_body E sql st s =
     (case (if st = PresentInvalid then drop_invalid E s else (True, s)) of
        (False, s) \<Rightarrow> (False, s)
      | (True, s) \<Rightarrow> (case create_index E sql s of (r, s) \<Rightarrow> (is_ok r, s)))"

definition hnsw_threshold :: "settings_inner \<Rightarrow> int" where
  "hnsw_threshold st = or_else (get_typed (from_value_signed 64) KEY_EMBEDDING_HNSW_THRESHOLD st) EMBED_DEFAULT_HNSW_THRESHOLD"

definition maybe_build_vector_index ::
  "build_env \<Rightarrow> settings_inner \<Rightarrow> int \<Rightarrow> build_state \<Rightarrow> bool \<times> build_state" where
  "maybe_build_vector_index E st min_rows s =
     (case build_probe_within_backoff (be_now E ''gate'') (be_moved E) (bs_probe s) of
        (False, held) \<Rightarrow> (False, s\<lparr>bs_probe := held\<rparr>)
      | (True, stamp) \<Rightarrow>
          (case vector_index_state E (s\<lparr>bs_probe := stamp\<rparr>) of
             (Inl e, s) \<Rightarrow> (False, s)
           | (Inr (n_rows, ix), s) \<Rightarrow>
               let s = publish_vector_index_snapshot (be_now E ''publish'') n_rows ix s
               in if n_rows < min_rows \<or> ix = Present then (False, s)
                  else build_in_flight (build_body E (index_build_sql n_rows (hnsw_threshold st)) ix) s))"

section \<open>Lemmas on the decisions\<close>

lemma int_sqrt_spec: "int_sqrt n * int_sqrt n \<le> n \<and> n < (int_sqrt n + 1) * (int_sqrt n + 1)"
proof (induction n rule: int_sqrt.induct)
  case (1 n)
  show ?case
  proof (cases "n = 0")
    case True
    then show ?thesis by (simp add: int_sqrt.simps)
  next
    case False
    define m where "m = int_sqrt (n div 4)"
    have m: "m * m \<le> n div 4" "n div 4 < (m + 1) * (m + 1)" using 1 False by (simp_all add: m_def)
    have "4 * (n div 4) \<le> n" "n < 4 * (n div 4) + 4" by presburger+
    moreover have "4 * (n div 4) + 4 \<le> 4 * ((m + 1) * (m + 1))" using m(2) by simp
    ultimately have b: "(2 * m) * (2 * m) \<le> n" "n < (2 * m + 2) * (2 * m + 2)"
      using m(1) by (auto simp: algebra_simps)
    have "int_sqrt n = (if (2 * m + 1) * (2 * m + 1) \<le> n then 2 * m + 1 else 2 * m)"
      using False by (subst int_sqrt.simps) (simp add: m_def Let_def)
    then show ?thesis using b by auto
  qed
qed

lemma build_probe_allowed_iff:
  "build_probe_allowed p now \<longleftrightarrow> p = 0 \<or> unat p + 600 \<le> unat now"
  by (auto simp: build_probe_allowed_def BUILD_BACKOFF_SECS_def word_le_nat_alt unat_saturating_sub)

lemma index_state_kind: "classify_index_state (e = Some True) (e = Some False) = Present \<longleftrightarrow> e = Some True"
  by (auto simp: classify_index_state_def)

text \<open>Where the tick skips the exact count, the note of the estimate is the note of the exact count.\<close>

lemma skip_note_exact:
  assumes "index_build_prefilter E s = (Skip estimate st, s')" and "n_rows \<le> estimate \<or> st = Present"
  shows "vector_index_degradation_note estimate st = vector_index_degradation_note n_rows st"
  using assms
  by (auto simp: index_build_prefilter_def vector_index_degradation_note_def split: prod.splits sum.splits if_splits)

section \<open>Claims of the gate\<close>

inductive_cases gate_stepE: "gate_step g g'"

text \<open>Every claim leaves a later stamp than all earlier ones, by the backoff, unless the clock stood at zero.\<close>

definition spaced :: "u64 list \<Rightarrow> bool" where
  "spaced claims \<longleftrightarrow>
     (\<forall>i j. i < j \<longrightarrow> j < length claims \<longrightarrow> claims ! i = 0 \<or> unat (claims ! i) + 600 \<le> unat (claims ! j))"

definition gate_inv :: "gate \<Rightarrow> bool" where
  "gate_inv g \<longleftrightarrow> spaced (g_claims g) \<and> (\<forall>c\<in>set (g_claims g). c = 0 \<or> unat c \<le> unat (g_probe g))"

lemma spaced_snoc:
  assumes "spaced cs" and "\<forall>c\<in>set cs. c = 0 \<or> unat c + 600 \<le> unat now"
  shows "spaced (cs @ [now])"
  unfolding spaced_def
proof (intro allI impI)
  fix i j assume ij: "i < j" "j < length (cs @ [now])"
  show "(cs @ [now]) ! i = 0 \<or> unat ((cs @ [now]) ! i) + 600 \<le> unat ((cs @ [now]) ! j)"
  proof (cases "j < length cs")
    case True
    then show ?thesis using assms(1) ij by (simp add: spaced_def nth_append)
  next
    case False
    then have "i < length cs" "j = length cs" using ij by auto
    then show ?thesis using assms(2) by (simp add: nth_append)
  qed
qed

lemma gate_step_inv: "gate_step g g' \<Longrightarrow> gate_inv g \<Longrightarrow> gate_inv g'"
proof (induction rule: gate_step.induct)
  case (exchange g t now held)
  have "c = 0 \<or> unat c + 600 \<le> unat now" if "c \<in> set (g_claims g)" for c
  proof (cases "held = 0")
    case True
    then show ?thesis using exchange that by (auto simp: gate_inv_def unat_eq_zero)
  next
    case False
    then have "unat held + 600 \<le> unat now" using exchange(2) by (simp add: build_probe_allowed_iff)
    then show ?thesis using exchange(3,4) that by (force simp: gate_inv_def)
  qed
  then show ?case using exchange(4) by (force simp: gate_inv_def intro!: spaced_snoc)
qed (auto simp: gate_inv_def)

interpretation callers: kept_invariant gate_step gate_inv
  by unfold_locales (rule gate_step_inv)

lemma gate_start_inv: "gate_inv gate_start"
  by (simp add: gate_inv_def gate_start_def spaced_def)

text \<open>
  C31. At whatever times the two build paths call the gate, from whatever threads and however their loads and
  exchanges interleave, two granted claims are at least ten minutes apart: the stamp of a later claim is that of
  every earlier one plus 600 seconds or more, also when clocks run backwards (a stamp of zero means that the
  clock stood before the epoch).
\<close>

theorem builds_ten_minutes_apart:
  assumes "gate_step\<^sup>*\<^sup>* gate_start g" and "i < j" and "j < length (g_claims g)" and "g_claims g ! i \<noteq> 0"
  shows "unat (g_claims g ! i) + 600 \<le> unat (g_claims g ! j)"
  using callers.path_keeps [OF assms(1) gate_start_inv] assms(2-4) by (auto simp: gate_inv_def spaced_def)

text \<open>Two callers that loaded the same stamp: the first exchange wins, the second is taken ten minutes later.\<close>

definition sample_gate :: gate where
  "sample_gate = \<lparr>g_probe = 1600, g_callers = [0 \<mapsto> Answered True, 1 \<mapsto> Answered True], g_claims = [1000, 1600]\<rparr>"

lemma sample_gate_reachable: "gate_step\<^sup>*\<^sup>* gate_start sample_gate"
proof -
  define g1 where "g1 = \<lparr>g_probe = 0, g_callers = [0 \<mapsto> Entered 1000], g_claims = []\<rparr>"
  define g2 where "g2 = \<lparr>g_probe = 0, g_callers = [0 \<mapsto> Entered 1000, 1 \<mapsto> Entered 1600], g_claims = []\<rparr>"
  define g3 where "g3 = \<lparr>g_probe = 0, g_callers = [0 \<mapsto> Holding 1000 0, 1 \<mapsto> Entered 1600], g_claims = []\<rparr>"
  define g4 where "g4 = \<lparr>g_probe = 0, g_callers = [0 \<mapsto> Holding 1000 0, 1 \<mapsto> Holding 1600 0], g_claims = []\<rparr>"
  define g5 where "g5 = \<lparr>g_probe = 1000, g_callers = [0 \<mapsto> Answered True, 1 \<mapsto> Holding 1600 0], g_claims = [1000]\<rparr>"
  define g6 where "g6 = \<lparr>g_probe = 1000, g_callers = [0 \<mapsto> Answered True, 1 \<mapsto> Holding 1600 1000], g_claims = [1000]\<rparr>"
  note defs = gate_start_def g1_def g2_def g3_def g4_def g5_def g6_def sample_gate_def fun_upd_twist
  have "gate_step gate_start g1" using gate_step.enter [of gate_start 0 1000] by (simp add: defs)
  moreover have "gate_step g1 g2" using gate_step.enter [of g1 1 1600] by (simp add: defs)
  moreover have "gate_step g2 g3" using gate_step.load [of g2 0 1000] by (simp add: defs)
  moreover have "gate_step g3 g4" using gate_step.load [of g3 1 1600] by (simp add: defs)
  moreover have "gate_step g4 g5"
    using gate_step.exchange [of g4 0 1000 0] by (simp add: defs build_probe_allowed_iff)
  moreover have "gate_step g5 g6"
    using gate_step.retry [of g5 1 1600 0] by (simp add: defs build_probe_allowed_iff)
  moreover have "gate_step g6 sample_gate"
    using gate_step.exchange [of g6 1 1600 1000] by (simp add: defs build_probe_allowed_iff)
  ultimately show ?thesis by (meson rtranclp.rtrancl_into_rtrancl rtranclp.rtrancl_refl)
qed

theorem builds_ten_minutes_apart_witness:
  "gate_step\<^sup>*\<^sup>* gate_start sample_gate \<and> unat (g_claims sample_gate ! 0) + 600 \<le> unat (g_claims sample_gate ! 1)"
proof -
  have "unat (g_claims sample_gate ! 0) + 600 \<le> unat (g_claims sample_gate ! 1)"
    by (rule builds_ten_minutes_apart [OF sample_gate_reachable]) (simp_all add: sample_gate_def)
  then show ?thesis using sample_gate_reachable by blast
qed

text \<open>The sequential reading of the gate is a run of one caller with the exchanges that others took in between.\<close>

lemma build_probe_loop_granted: "build_probe_loop now p moved = (True, q) \<Longrightarrow> q = now"
  by (induction moved arbitrary: p) (auto split: if_splits)

lemma build_probe_alone: "build_probe_within_backoff now [] p = (build_probe_allowed p now, if build_probe_allowed p now then now else p)"
  by (simp add: build_probe_within_backoff_def)

section \<open>The build repairs and reports\<close>

definition quiet_build :: "build_env \<Rightarrow> bool" where
  "quiet_build E \<longleftrightarrow> (\<forall>site s. be_others E site s = s) \<and> be_moved E = []"

lemma quiet_vector_index_state:
  assumes "quiet_build E" and "be_fault E ''count'' = None" and "be_fault E ''state'' = None"
  shows "vector_index_state E s = (Ok (bs_embedded s, classify_index_state (bs_entry s = Some True) (bs_entry s = Some False)), s)"
  using assms by (simp add: vector_index_state_def index_state_def probe_stmt_def quiet_build_def)

text \<open>What DDL leaves of the log and of the flag.\<close>

definition under_flag :: "(string \<times> bool) list \<Rightarrow> build_state \<Rightarrow> bool" where
  "under_flag old s \<longleftrightarrow> bs_building s \<and> (\<exists>new. bs_ddl s = old @ new \<and> (\<forall>(_, flag)\<in>set new. flag))"

lemma ddl_under_flag:
  "under_flag old s \<Longrightarrow> (\<And>site s. be_others E site s = s) \<Longrightarrow> under_flag old (snd (ddl E site sql f g s))"
  by (auto simp: under_flag_def ddl_def Let_def split: option.splits)

lemma drop_invalid_under_flag:
  assumes "under_flag old s" and q: "\<And>site s. be_others E site s = s"
  shows "under_flag old (snd (drop_invalid E s))"
proof -
  obtain r s1 where 1: "drop_concurrently E s = (r, s1)" by fastforce
  obtain r' s2 where 2: "drop_plain E s1 = (r', s2)" by fastforce
  have "under_flag old (snd (drop_concurrently E s))" unfolding drop_concurrently_def by (rule ddl_under_flag [OF assms])
  then have u1: "under_flag old s1" using 1 by simp
  have "under_flag old (snd (drop_plain E s1))" unfolding drop_plain_def by (rule ddl_under_flag [OF u1 q])
  then have "under_flag old s2" using 2 by simp
  moreover have "snd (drop_invalid E s) = s1 \<or> snd (drop_invalid E s) = s2"
    using 1 2 by (cases r; cases r') (simp_all add: drop_invalid_def)
  ultimately show ?thesis using u1 by auto
qed

lemma build_body_under_flag:
  assumes "under_flag old s" and q: "\<And>site s. be_others E site s = s"
  shows "under_flag old (snd (build_body E sql st s))"
proof -
  obtain b s1 where 1: "(if st = PresentInvalid then drop_invalid E s else (True, s)) = (b, s1)" by fastforce
  obtain r s2 where 2: "create_index E sql s1 = (r, s2)" by fastforce
  have u1: "under_flag old s1" using drop_invalid_under_flag [OF assms] assms(1) 1 by (cases "st = PresentInvalid") auto
  have "under_flag old (snd (create_index E sql s1))" unfolding create_index_def by (rule ddl_under_flag [OF u1 q])
  then have "under_flag old s2" using 2 by simp
  moreover have "snd (build_body E sql st s) = s1 \<or> snd (build_body E sql st s) = s2"
    using 1 2 by (cases b) (simp_all add: build_body_def)
  ultimately show ?thesis using u1 by auto
qed

lemma quiet_build_body:
  assumes "quiet_build E" and "be_fault E ''create'' = None" and "bs_entry s \<noteq> Some True"
    and "be_fault E ''drop concurrently'' = None \<or> be_fault E ''drop'' = None"
    and "st = classify_index_state (bs_entry s = Some True) (bs_entry s = Some False)"
  shows "fst (build_body E sql st s) \<and> bs_entry (snd (build_body E sql st s)) = Some True"
  using assms
  by (cases "bs_entry s"; cases "be_fault E ''drop concurrently''")
    (auto simp: build_body_def drop_invalid_def drop_concurrently_def drop_plain_def create_index_def ddl_def Let_def
      quiet_build_def classify_index_state_def)

text \<open>
  A build that failed does not stop later ones: when the gate is open, enough rows have an embedding and no
  valid index exists, with the statements succeeding (one of the two drops is enough), a call ends with a valid
  index, whether there was no entry or an invalid one; the claim is stamped, every statement ran with the
  in-flight flag set, and the flag is cleared at the end.
\<close>

theorem failed_build_is_repaired:
  assumes "quiet_build E" and "build_probe_allowed (bs_probe s) (be_now E ''gate'')"
    and "min_rows \<le> bs_embedded s" and "bs_entry s \<noteq> Some True"
    and "be_fault E ''count'' = None" and "be_fault E ''state'' = None" and "be_fault E ''create'' = None"
    and "be_fault E ''drop concurrently'' = None \<or> be_fault E ''drop'' = None"
  shows "\<exists>s' new. maybe_build_vector_index E st min_rows s = (True, s') \<and> bs_entry s' = Some True \<and>
     \<not> bs_building s' \<and> bs_ddl s' = bs_ddl s @ new \<and> (\<forall>(_, flag)\<in>set new. flag)"
proof -
  define now where "now = be_now E ''gate''"
  define ix where "ix = classify_index_state (bs_entry s = Some True) (bs_entry s = Some False)"
  define sql where "sql = index_build_sql (bs_embedded s) (hnsw_threshold st)"
  define s1 where "s1 = (publish_vector_index_snapshot (be_now E ''publish'') (bs_embedded s) ix (s\<lparr>bs_probe := now\<rparr>))\<lparr>bs_building := True\<rparr>"
  have m: "be_moved E = []" and q: "\<And>site s. be_others E site s = s" using assms(1) by (auto simp: quiet_build_def)
  have s1: "bs_entry s1 = bs_entry s" "under_flag (bs_ddl s) s1"
    by (simp_all add: s1_def publish_vector_index_snapshot_def under_flag_def)
  obtain b s2 where body: "build_body E sql ix s1 = (b, s2)" by fastforce
  have b: "b \<and> bs_entry s2 = Some True"
    using quiet_build_body [OF assms(1,7), of s1 ix sql] assms(4,8) body s1(1) by (simp add: ix_def)
  have "under_flag (bs_ddl s) s2" using build_body_under_flag [OF s1(2) q, of sql ix] body by simp
  then obtain new where n: "bs_ddl s2 = bs_ddl s @ new" "\<forall>(_, flag)\<in>set new. flag" by (auto simp: under_flag_def)
  have "ix \<noteq> Present" using assms(4) by (auto simp: ix_def classify_index_state_def)
  then have "maybe_build_vector_index E st min_rows s = (True, s2\<lparr>bs_building := False\<rparr>)"
    using assms(2,3) b body quiet_vector_index_state [OF assms(1,5,6), of "s\<lparr>bs_probe := now\<rparr>"]
    by (simp add: maybe_build_vector_index_def m build_probe_alone build_in_flight_def Let_def ix_def sql_def s1_def now_def)
  then show ?thesis using b n by auto
qed

definition sample_build_env :: build_env where
  "sample_build_env = \<lparr>be_fault = [''drop concurrently'' \<mapsto> DatabaseError (Some ''55000'') None],
     be_others = (\<lambda>_ s. s), be_now = (\<lambda>_. 5000), be_moved = [], be_remnant = False\<rparr>"

definition sample_build :: build_state where
  "sample_build = \<lparr>bs_embedded = 12000, bs_live_estimate = Some 20000, bs_entry = Some False, bs_probe = 1000,
     bs_building = False, bs_snapshot = \<lparr>sn_embedded_rows = 0, sn_index = Absent, sn_at_unix = 0\<rparr>, bs_ddl = []\<rparr>"

theorem failed_build_is_repaired_witness:
  "bs_entry sample_build = Some False \<and>
   (\<exists>s' new. maybe_build_vector_index sample_build_env (fresh_settings None [] Map.empty Map.empty) MIN_INDEX_BUILD_ROWS sample_build = (True, s') \<and>
      bs_entry s' = Some True \<and> \<not> bs_building s' \<and> bs_ddl s' = bs_ddl sample_build @ new \<and> (\<forall>(_, flag)\<in>set new. flag))"
proof -
  have "quiet_build sample_build_env" by (simp add: quiet_build_def sample_build_env_def)
  then show ?thesis
    using failed_build_is_repaired [of sample_build_env sample_build MIN_INDEX_BUILD_ROWS "fresh_settings None [] Map.empty Map.empty"]
    by (simp add: sample_build_env_def sample_build_def MIN_INDEX_BUILD_ROWS_def build_probe_allowed_iff)
qed

end
