(* ===== verification/EmbedPipeline.thy ===== *)
theory EmbedPipeline
  imports VectorIndex "HOL-Library.AList"
begin

text \<open>
  The embedding pipeline of one archive (\<open>src/embed/pipeline.rs\<close>) and the dimension of the vector column
  (\<open>src/embed/column.rs\<close>).

  The state has the table, the failure counters of the process, the spawned tasks and the results of the ended
  ones. The environment says which tasks end while the loop waits, what other sessions did before a statement and
  which statements fail; the requests of a task are those of the embedding client. A task ends in one step: its
  statement and the update of the counters. The counters of other pipelines are for other rows and only count
  towards the size of the shared map. The cast to \<open>vector\<close> of the column is the database's.
\<close>

section \<open>Statements\<close>

definition dimension_mismatch_error :: "nat \<Rightarrow> nat \<Rightarrow> error" where
  "dimension_mismatch_error stored client =
     Embedding (''embedding column is vector('' @ decimal_digits stored @ '') but the configured model emits ''
       @ decimal_digits client @ ''-dim vectors; change the model back, or clear existing vectors (e.g. `UPDATE articles SET ''
       @ ''embedding = NULL`) and `ALTER TABLE articles ALTER COLUMN embedding TYPE vector('' @ decimal_digits client @ '')`'')"

definition store_guard :: "nat \<Rightarrow> nat \<Rightarrow> (unit, error) result" where
  "store_guard len_ids len_vecs =
     (if len_vecs \<noteq> len_ids
      then Err (Embedding (''embedding API returned '' @ decimal_digits len_vecs @ '' vectors for '' @ decimal_digits len_ids @ '' texts''))
      else Ok ())"

definition EMBED_CLAIM_LIMIT_CAP :: int where "EMBED_CLAIM_LIMIT_CAP = 100000"

definition claim_limit_for :: "int \<Rightarrow> int \<Rightarrow> int" where
  "claim_limit_for batch_size max_concurrency =
     (let p = batch_size * max_concurrency
      in min (if - (2 ^ 63) \<le> p \<and> p < 2 ^ 63 then p else EMBED_CLAIM_LIMIT_CAP) EMBED_CLAIM_LIMIT_CAP)"

text \<open>\<open>as i64\<close> of a \<open>usize\<close>.\<close>

definition i64_of_usize :: "nat \<Rightarrow> int" where
  "i64_of_usize n = (if int n < 2 ^ 63 then int n else int n - 2 ^ 64)"

definition bulk_update_sql :: "int list \<Rightarrow> string option" where
  "bulk_update_sql ids =
     (if ids = [] then None
      else Some (''UPDATE articles a SET embedding = v.vec::vector, embed_model = $'' @ decimal_digits (length ids + 1)
        @ '', embed_at = now() FROM (VALUES ''
        @ concat (map (\<lambda>(i, v). (if i = 0 then [] else '', '') @ ''('' @ int_text v @ '', $'' @ decimal_digits (i + 1) @ '')'')
                   (enumerate 0 ids))
        @ '') AS v(id, vec) WHERE a.id = v.id''))"

record vec_row =
  vr_id :: int
  vr_zim :: int
  vr_snippet :: "string option"
  vr_preview :: "string option"
  vr_embedding :: "string option"
  vr_model :: "string option"
  vr_embed_at :: "int option" \<comment> \<open>microseconds\<close>

record vec_table =
  vt_rows :: "vec_row list"
  vt_zims :: "(string \<times> int) list"
  vt_typmod :: "int option" \<comment> \<open>of the column, when it exists\<close>

definition CLAIM_WINDOW :: int where "CLAIM_WINDOW = 600000000"

text \<open>\<open>coalesce(snippet, '') || ' ' || coalesce(left(content_preview, 500), '')\<close>.\<close>

definition embed_text :: "vec_row \<Rightarrow> string" where
  "embed_text r = or_else (vr_snippet r) [] @ '' '' @ or_else (map_option (take_chars 500) (vr_preview r)) []"

definition unembedded :: "string \<Rightarrow> vec_table \<Rightarrow> vec_row \<Rightarrow> bool" where
  "unembedded zim T r \<longleftrightarrow> map_of (vt_zims T) zim = Some (vr_zim r) \<and> vr_embedding r = None"

definition claimable :: "string \<Rightarrow> int \<Rightarrow> vec_table \<Rightarrow> vec_row \<Rightarrow> bool" where
  "claimable zim now T r \<longleftrightarrow>
     unembedded zim T r \<and> (case vr_embed_at r of None \<Rightarrow> True | Some t \<Rightarrow> t < now - CLAIM_WINDOW)"

text \<open>\<open>CLAIM_EMBED_BATCH_SQL\<close>: the rows with the lowest ids, returned in the order of the table.\<close>

definition claim_embed_batch :: "string \<Rightarrow> int \<Rightarrow> nat \<Rightarrow> vec_table \<Rightarrow> (int \<times> string) list \<times> vec_table" where
  "claim_embed_batch zim now limit T =
     (let ids = take limit (sort (map vr_id (filter (claimable zim now T) (vt_rows T))));
          hit = (\<lambda>r. vr_id r \<in> set ids)
      in (map (\<lambda>r. (vr_id r, embed_text r)) (filter hit (vt_rows T)),
          T\<lparr>vt_rows := map (\<lambda>r. if hit r then r\<lparr>vr_embed_at := Some now\<rparr> else r) (vt_rows T)\<rparr>))"

text \<open>The effect of \<open>bulk_update_sql\<close> on the rows, with \<open>v\<close> as a map from ids to literals.\<close>

definition bulk_update :: "int \<Rightarrow> string \<Rightarrow> (int \<Rightarrow> string option) \<Rightarrow> vec_row list \<Rightarrow> vec_row list" where
  "bulk_update now model v =
     map (\<lambda>r. case v (vr_id r) of
                Some lit \<Rightarrow> r\<lparr>vr_embedding := Some lit, vr_model := Some model, vr_embed_at := Some now\<rparr>
              | None \<Rightarrow> r)"

section \<open>Failure counters\<close>

definition POISON_FAIL_MAX :: nat where "POISON_FAIL_MAX = 3"
definition POISON_FAIL_MAP_CAP :: nat where "POISON_FAIL_MAP_CAP = 100000"

type_synonym fail_map = "(int \<times> nat) list"

definition fail_count :: "fail_map \<Rightarrow> int \<Rightarrow> nat" where
  "fail_count m i = or_else (map_of m i) 0"

text \<open>\<open>foreign\<close> is the number of entries of other pipelines in the shared map.\<close>

definition filter_poisoned_ids :: "nat \<Rightarrow> int list \<Rightarrow> fail_map \<Rightarrow> int list option \<times> fail_map" where
  "filter_poisoned_ids foreign ids m =
     (let m = (if length m + foreign > POISON_FAIL_MAP_CAP then [] else m);
          kept = filter (\<lambda>i. fail_count m i < POISON_FAIL_MAX) ids
      in (if kept = [] then None else Some kept, m))"

definition record_batch_failure :: "int list \<Rightarrow> fail_map \<Rightarrow> fail_map" where
  "record_batch_failure ids m = fold (\<lambda>i m. AList.update i (fail_count m i + 1) m) ids m"

definition record_batch_success :: "int list \<Rightarrow> fail_map \<Rightarrow> fail_map" where
  "record_batch_success ids m = fold AList.delete ids m"

section \<open>Tasks\<close>

record embed_task =
  tk_no :: nat
  tk_ids :: "int list"
  tk_texts :: "string list"

record pipe_state =
  pp_table :: vec_table
  pp_fails :: fail_map
  pp_running :: "embed_task list"
  pp_results :: "(nat \<times> (unit, error) result run) list"
  pp_spawned :: nat
  pp_step :: nat

record pipe_env =
  pv_fault :: "string \<Rightarrow> nat \<Rightarrow> sqlx_error option"
  pv_others :: "string \<Rightarrow> nat \<Rightarrow> vec_table \<Rightarrow> vec_table"
  pv_now :: "string \<Rightarrow> nat \<Rightarrow> int"
  pv_ended :: "nat \<Rightarrow> nat list" \<comment> \<open>which running tasks end at a wait\<close>
  pv_foreign :: "nat \<Rightarrow> nat"
  pv_http :: "nat \<Rightarrow> nat \<Rightarrow> embed_http" \<comment> \<open>by task and chunk\<close>
  pv_died :: "nat \<Rightarrow> nat \<Rightarrow> bool"
  pv_pick :: "nat \<Rightarrow> nat list \<Rightarrow> nat"
  pv_show_f32 :: "rat \<Rightarrow> string"
  pv_cast :: "int option \<Rightarrow> string \<Rightarrow> sqlx_error option" \<comment> \<open>the error of a literal for the column\<close>

definition task_embeddings :: "pipe_env \<Rightarrow> embed_client \<Rightarrow> nat \<Rightarrow> string list \<Rightarrow> (vector list, error) result run" where
  "task_embeddings E c k texts = embed (pv_http E k) (pv_died E k) (pv_pick E k) c texts"

text \<open>The statement of a task: nothing is written when one of the literals does not fit the column.\<close>

definition write_batch :: "pipe_env \<Rightarrow> string \<Rightarrow> nat \<Rightarrow> (int \<times> string) list \<Rightarrow> vec_table \<Rightarrow> (unit, sqlx_error) result \<times> vec_table" where
  "write_batch E model k lits T =
     (let T = pv_others E ''write'' k T
      in case pv_fault E ''write'' k of
           Some e \<Rightarrow> (Err e, T)
         | None \<Rightarrow>
             (case find_map (pv_cast E (vt_typmod T)) (map snd lits) of
                Some e \<Rightarrow> (Err e, T)
              | None \<Rightarrow> (Ok (), T\<lparr>vt_rows := bulk_update (pv_now E ''write'' k) model (map_of lits) (vt_rows T)\<rparr>)))"

definition run_task :: "pipe_env \<Rightarrow> embed_client \<Rightarrow> embed_task \<Rightarrow> pipe_state \<Rightarrow> (unit, error) result run \<times> pipe_state" where
  "run_task E c t s =
     (let ids = tk_ids t; failure = s\<lparr>pp_fails := record_batch_failure ids (pp_fails s)\<rparr>
      in case task_embeddings E c (tk_no t) (tk_texts t) of
           Panicked \<Rightarrow> (Panicked, s)
         | Done (Inl e) \<Rightarrow> (Done (Err e), failure)
         | Done (Inr embeddings) \<Rightarrow>
             (case store_guard (length ids) (length embeddings) of
                Inl e \<Rightarrow> (Done (Ok ()), failure)
              | Inr _ \<Rightarrow>
                  (case bulk_update_sql ids of
                     None \<Rightarrow> (Done (Ok ()), s)
                   | Some sql \<Rightarrow>
                       (case write_batch E (ec_model (cl_config c)) (tk_no t)
                               (zip ids (map (format_vector (pv_show_f32 E)) embeddings)) (pp_table s) of
                          (Inl e, T) \<Rightarrow> (Done (Err (Database e)), failure\<lparr>pp_table := T\<rparr>)
                        | (Inr _, T) \<Rightarrow>
                            (Done (Ok ()), s\<lparr>pp_table := T, pp_fails := record_batch_success ids (pp_fails s)\<rparr>)))))"

text \<open>One of the running tasks ends and gives its permit back.\<close>

definition end_task :: "pipe_env \<Rightarrow> embed_client \<Rightarrow> nat \<Rightarrow> pipe_state \<Rightarrow> pipe_state" where
  "end_task E c i s =
     (if pp_running s = [] then s
      else let k = i mod length (pp_running s); t = pp_running s ! k
           in (case run_task E c t (s\<lparr>pp_running := take k (pp_running s) @ drop (Suc k) (pp_running s)\<rparr>) of
                 (r, s) \<Rightarrow> s\<lparr>pp_results := (tk_no t, r) # pp_results s\<rparr>))"

definition wait_point :: "pipe_env \<Rightarrow> embed_client \<Rightarrow> pipe_state \<Rightarrow> pipe_state" where
  "wait_point E c s = fold (end_task E c) (pv_ended E (pp_step s)) (s\<lparr>pp_step := pp_step s + 1\<rparr>)"

definition permits :: "embed_client \<Rightarrow> nat" where
  "permits c = max 1 (ec_max_concurrency (cl_config c))"

definition batch_size :: "embed_client \<Rightarrow> nat" where
  "batch_size c = max 1 (ec_batch_size (cl_config c))"

definition acquire :: "pipe_env \<Rightarrow> embed_client \<Rightarrow> pipe_state \<Rightarrow> pipe_state" where
  "acquire E c s =
     (let s = wait_point E c s in if length (pp_running s) \<ge> permits c then end_task E c 0 s else s)"

section \<open>Claim loop\<close>

definition spawn_task :: "(int \<times> string) list \<Rightarrow> pipe_state \<Rightarrow> pipe_state" where
  "spawn_task batch s =
     s\<lparr>pp_running := pp_running s @ [\<lparr>tk_no = pp_spawned s, tk_ids = map fst batch, tk_texts = map snd batch\<rparr>],
       pp_spawned := pp_spawned s + 1\<rparr>"

definition spawn_batch :: "pipe_env \<Rightarrow> embed_client \<Rightarrow> (int \<times> string) list \<Rightarrow> pipe_state \<Rightarrow> bool \<times> pipe_state" where
  "spawn_batch E c sub s =
     (case filter_poisoned_ids (pv_foreign E (pp_step s)) (map fst sub) (pp_fails s) of
        (None, m) \<Rightarrow> (False, s\<lparr>pp_fails := m\<rparr>)
      | (Some kept, m) \<Rightarrow>
          (let batch = filter (\<lambda>(i, _). i \<in> set kept) sub; s = s\<lparr>pp_fails := m\<rparr>
           in if batch = [] then (False, s) else (True, spawn_task batch (acquire E c s))))"

fun spawn_batches :: "pipe_env \<Rightarrow> embed_client \<Rightarrow> (int \<times> string) list list \<Rightarrow> pipe_state \<Rightarrow> bool \<times> pipe_state" where
  "spawn_batches E c [] s = (False, s)"
| "spawn_batches E c (sub # subs) s =
     (case spawn_batch E c sub s of
        (b, s) \<Rightarrow> (case spawn_batches E c subs s of (b', s) \<Rightarrow> (b \<or> b', s)))"

datatype pass_outcome = Again | Stop | Failed error

definition claim_limit :: "embed_client \<Rightarrow> int" where
  "claim_limit c = claim_limit_for (i64_of_usize (batch_size c)) (i64_of_usize (permits c))"

text \<open>The claim statement; the database refuses a negative \<open>LIMIT\<close>.\<close>

definition claim_rows ::
  "pipe_env \<Rightarrow> embed_client \<Rightarrow> string \<Rightarrow> pipe_state \<Rightarrow> ((int \<times> string) list, error) result \<times> pipe_state" where
  "claim_rows E c zim s =
     (let s = wait_point E c s; k = pp_step s; T = pv_others E ''claim'' k (pp_table s)
      in case pv_fault E ''claim'' k of
           Some e \<Rightarrow> (Err (Database e), s\<lparr>pp_table := T\<rparr>)
         | None \<Rightarrow>
             if claim_limit c < 0 then (Err (Database (DatabaseError (Some ''2201W'') None)), s\<lparr>pp_table := T\<rparr>)
             else (case claim_embed_batch zim (pv_now E ''claim'' k) (nat (claim_limit c)) T of
                     (claimed, T) \<Rightarrow> (Ok claimed, s\<lparr>pp_table := T\<rparr>)))"

definition claim_pass :: "pipe_env \<Rightarrow> embed_client \<Rightarrow> string \<Rightarrow> pipe_state \<Rightarrow> pass_outcome \<times> pipe_state" where
  "claim_pass E c zim s =
     (case claim_rows E c zim s of
        (Inl e, s) \<Rightarrow> (Failed e, s)
      | (Inr claimed, s) \<Rightarrow>
          if claimed = [] then (Stop, s)
          else (case spawn_batches E c (chunks (batch_size c) claimed) s of
                  (any_spawned, s) \<Rightarrow>
                    (if \<not> any_spawned \<or> int (length claimed) < claim_limit c then Stop else Again, s)))"

text \<open>A failing claim ends the loop with its tasks still running.\<close>

fun claim_loop :: "nat \<Rightarrow> pipe_env \<Rightarrow> embed_client \<Rightarrow> string \<Rightarrow> pipe_state \<Rightarrow> ((unit, error) result \<times> pipe_state) option" where
  "claim_loop 0 E c zim s = None"
| "claim_loop (Suc n) E c zim s =
     (case claim_pass E c zim s of
        (Failed e, s) \<Rightarrow> Some (Err e, s)
      | (Stop, s) \<Rightarrow> Some (Ok (), s)
      | (Again, s) \<Rightarrow> claim_loop n E c zim s)"

definition drain_tasks :: "pipe_env \<Rightarrow> embed_client \<Rightarrow> pipe_state \<Rightarrow> pipe_state" where
  "drain_tasks E c s = (let s = wait_point E c s in (end_task E c 0 ^^ length (pp_running s)) s)"

text \<open>The first error in the order of the spawns; the text of a panic is left out.\<close>

definition task_error :: "(unit, error) result run option \<Rightarrow> error option" where
  "task_error r =
     (case r of
        Some Panicked \<Rightarrow> Some (Embedding ''embed task panicked'')
      | Some (Done (Inl e)) \<Rightarrow> Some e
      | _ \<Rightarrow> None)"

definition first_error :: "pipe_state \<Rightarrow> error option" where
  "first_error s = find_map (\<lambda>k. task_error (map_of (pp_results s) k)) [0..<pp_spawned s]"

section \<open>Column dimension\<close>

definition column_stmt ::
  "pipe_env \<Rightarrow> string \<Rightarrow> (vec_table \<Rightarrow> 'a \<times> vec_table) \<Rightarrow> pipe_state \<Rightarrow> ('a, error) result \<times> pipe_state" where
  "column_stmt E site f s =
     (let T = pv_others E site 0 (pp_table s)
      in case pv_fault E site 0 of
           Some e \<Rightarrow> (Err (Database e), s\<lparr>pp_table := T\<rparr>)
         | None \<Rightarrow> (case f T of (a, T) \<Rightarrow> (Ok a, s\<lparr>pp_table := T\<rparr>)))"

definition dimension_of :: "vec_table \<Rightarrow> nat option" where
  "dimension_of T = map_option (\<lambda>t. nat (t mod 2 ^ 32)) (vt_typmod T)"

definition stored_embedding_dimension :: "pipe_env \<Rightarrow> string \<Rightarrow> pipe_state \<Rightarrow> (nat option, error) result \<times> pipe_state" where
  "stored_embedding_dimension E site = column_stmt E site (\<lambda>T. (dimension_of T, T))"

definition ensure_vector_dimension :: "pipe_env \<Rightarrow> nat \<Rightarrow> pipe_state \<Rightarrow> (unit, error) result \<times> pipe_state" where
  "ensure_vector_dimension E dimension s =
     (case stored_embedding_dimension E ''typmod'' s of
        (Inl e, s) \<Rightarrow> (Err e, s)
      | (Inr None, s) \<Rightarrow> (Err (NotFound ''articles.embedding column not found''), s)
      | (Inr (Some current), s) \<Rightarrow>
          if current = dimension then (Ok (), s)
          else (case column_stmt E ''stored'' (\<lambda>T. (length (filter (\<lambda>r. vr_embedding r \<noteq> None) (vt_rows T)), T)) s of
                  (Inl e, s) \<Rightarrow> (Err e, s)
                | (Inr stored, s) \<Rightarrow>
                    if stored > 0 then (Ok (), s)
                    else column_stmt E ''alter'' (\<lambda>T. ((), T\<lparr>vt_typmod := Some (int dimension)\<rparr>)) s))"

section \<open>The pipeline\<close>

definition MAX_PERMITS :: int where "MAX_PERMITS = 2 ^ 61 - 1"

text \<open>Resolve, connect and reconcile the column; the result is the client.\<close>

definition prepare_pipeline ::
  "pipe_env \<Rightarrow> url_ops \<Rightarrow> resolver \<Rightarrow> string option \<Rightarrow> embed_config \<Rightarrow> pipe_state \<Rightarrow> (embed_client, error) result \<times> pipe_state" where
  "prepare_pipeline E U dns build_error config s =
     (case and_then (resolve_download_host U dns (ec_endpoint config) False True) (embed_client_new U build_error config) of
        Inl e \<Rightarrow> (Err e, s)
      | Inr c \<Rightarrow>
          (case ensure_vector_dimension E (ec_dimension config) s of
             (Inl e, s) \<Rightarrow> (Err e, s)
           | (Inr _, s) \<Rightarrow>
               (case stored_embedding_dimension E ''recheck'' s of
                  (Inl e, s) \<Rightarrow> (Err e, s)
                | (Inr (Some stored), s) \<Rightarrow>
                    if stored \<noteq> ec_dimension config
                    then (Err (dimension_mismatch_error stored (ec_dimension config)), s)
                    else (Ok c, s)
                | (Inr None, s) \<Rightarrow> (Ok c, s))))"

text \<open>A run starts with an empty list of tasks.\<close>

definition no_tasks :: "pipe_state \<Rightarrow> pipe_state" where
  "no_tasks s = s\<lparr>pp_running := [], pp_results := [], pp_spawned := 0\<rparr>"

text \<open>The index build at the end sees the rows the pipeline has written.\<close>

definition embedded_rows :: "vec_table \<Rightarrow> int" where
  "embedded_rows T = int (length (filter (\<lambda>r. vr_embedding r \<noteq> None) (vt_rows T)))"

definition run_pipeline ::
  "nat \<Rightarrow> pipe_env \<Rightarrow> build_env \<Rightarrow> url_ops \<Rightarrow> resolver \<Rightarrow> string option \<Rightarrow> settings_inner \<Rightarrow> string \<Rightarrow> pipe_state \<times> build_state
    \<Rightarrow> ((unit, error) result run \<times> pipe_state \<times> build_state) option" where
  "run_pipeline fuel E B U dns build_error st zim w =
     (case w of (s, b) \<Rightarrow>
      case embed_config_from_settings st of
        None \<Rightarrow> Some (Done (Err (Embedding ''embedding not configured'')), s, b)
      | Some config \<Rightarrow>
          (case prepare_pipeline E U dns build_error config s of
             (Inl e, s) \<Rightarrow> Some (Done (Err e), s, b)
           | (Inr c, s) \<Rightarrow>
               if int (permits c) > MAX_PERMITS then Some (Panicked, s, b)
               else (case claim_loop fuel E c zim (no_tasks s) of
                       None \<Rightarrow> None
                     | Some (Inl e, s) \<Rightarrow> Some (Done (Err e), s, b)
                     | Some (Inr _, s) \<Rightarrow>
                         (let s = drain_tasks E c s
                          in case first_error s of
                               Some e \<Rightarrow> Some (Done (Err e), s, b)
                             | None \<Rightarrow>
                                 (let b = b\<lparr>bs_embedded := embedded_rows (pp_table s)\<rparr>
                                  in Some (Done (Ok ()), s, snd (maybe_build_vector_index B st VECTOR_INDEX_MIN_ROWS b)))))))"

end
