(* ===== verification/EmbedProgress.thy ===== *)
theory EmbedProgress
  imports EmbedPipeline
begin

text \<open>
  What the embedding pipeline achieves: the claim loop ends, every row that was never claimed is embedded when
  the endpoint answers, and a stored vector belongs to the text of its row.
\<close>

section \<open>Counters\<close>

lemma fail_count_update: "fail_count (AList.update j v m) i = (if i = j then v else fail_count m i)"
  by (simp add: fail_count_def update_conv' or_else_def)

lemma fail_count_delete: "fail_count (AList.delete j m) i = (if i = j then 0 else fail_count m i)"
  by (simp add: fail_count_def delete_conv' or_else_def)

lemma record_failure_count:
  "fail_count m i + (if i \<in> set ids then 1 else 0) \<le> fail_count (record_batch_failure ids m) i"
proof (induction ids arbitrary: m)
  case (Cons j ids)
  show ?case using Cons.IH [of "AList.update j (fail_count m j + 1) m"]
    by (auto simp: record_batch_failure_def fail_count_update split: if_splits)
qed (simp add: record_batch_failure_def)

lemma record_failure_keys:
  "fst ` set (record_batch_failure ids m) = set ids \<union> fst ` set m"
  by (induction ids arbitrary: m) (auto simp: record_batch_failure_def dom_update)

lemma record_failure_distinct:
  "distinct (map fst m) \<Longrightarrow> distinct (map fst (record_batch_failure ids m))"
  by (induction ids arbitrary: m) (simp_all add: record_batch_failure_def distinct_update)

lemma record_success_count:
  "i \<notin> set ids \<Longrightarrow> fail_count (record_batch_success ids m) i = fail_count m i"
  by (induction ids arbitrary: m) (simp_all add: record_batch_success_def fail_count_delete)

lemma record_success_keys: "fst ` set (record_batch_success ids m) \<subseteq> fst ` set m"
proof (induction ids arbitrary: m)
  case (Cons j ids)
  have "fst ` set (record_batch_success ids (AList.delete j m)) \<subseteq> fst ` set m"
    using Cons.IH [of "AList.delete j m"] dom_delete_subset [of j m] by blast
  then show ?case by (simp add: record_batch_success_def)
qed (simp add: record_batch_success_def)

lemma record_success_distinct:
  "distinct (map fst m) \<Longrightarrow> distinct (map fst (record_batch_success ids m))"
  by (induction ids arbitrary: m) (simp_all add: record_batch_success_def distinct_delete)

section \<open>Progress\<close>

definition unembedded_ids :: "string \<Rightarrow> vec_table \<Rightarrow> int set" where
  "unembedded_ids zim T = vr_id ` {r \<in> set (vt_rows T). unembedded zim T r}"

lemma unembedded_ids_code: "unembedded_ids zim T = set (map vr_id (filter (unembedded zim T) (vt_rows T)))"
  by (simp add: unembedded_ids_def)

definition open_ids :: "string \<Rightarrow> pipe_state \<Rightarrow> int set" where
  "open_ids zim s = unembedded_ids zim (pp_table s)"

definition pending :: "pipe_state \<Rightarrow> int \<Rightarrow> nat" where
  "pending s i = length (filter (\<lambda>t. i \<in> set (tk_ids t)) (pp_running s))"

text \<open>How often a row may still be handed to a task: at least one as long as it has no embedding.\<close>

definition weight :: "embed_client \<Rightarrow> pipe_state \<Rightarrow> int \<Rightarrow> nat" where
  "weight c s i = Suc (3 + permits c - (fail_count (pp_fails s) i + pending s i))"

definition work_left :: "string \<Rightarrow> embed_client \<Rightarrow> pipe_state \<Rightarrow> nat" where
  "work_left zim c s = (\<Sum>i\<in>open_ids zim s. weight c s i)"

definition progress :: "string \<Rightarrow> embed_client \<Rightarrow> pipe_state \<Rightarrow> pipe_state \<Rightarrow> bool" where
  "progress zim c s s' \<longleftrightarrow>
     open_ids zim s' \<subseteq> open_ids zim s \<and> (\<forall>i\<in>open_ids zim s'. weight c s' i \<le> weight c s i)"

definition consumed :: "string \<Rightarrow> embed_client \<Rightarrow> pipe_state \<Rightarrow> pipe_state \<Rightarrow> int \<Rightarrow> bool" where
  "consumed zim c s s' i \<longleftrightarrow> i \<notin> open_ids zim s' \<or> weight c s' i < weight c s i"

lemma finite_open [simp]: "finite (open_ids zim s)"
  by (simp add: open_ids_def unembedded_ids_def)

lemma progress_refl [simp]: "progress zim c s s"
  by (simp add: progress_def)

lemma progress_trans: "progress zim c s s' \<Longrightarrow> progress zim c s' s'' \<Longrightarrow> progress zim c s s''"
  by (force simp: progress_def)

lemma consumed_before: "consumed zim c s s' i \<Longrightarrow> progress zim c s' s'' \<Longrightarrow> consumed zim c s s'' i"
  by (force simp: progress_def consumed_def)

lemma consumed_after: "progress zim c s s' \<Longrightarrow> consumed zim c s' s'' i \<Longrightarrow> progress zim c s' s'' \<Longrightarrow> consumed zim c s s'' i"
  by (force simp: progress_def consumed_def)

lemma progress_le: "progress zim c s s' \<Longrightarrow> work_left zim c s' \<le> work_left zim c s"
proof -
  assume p: "progress zim c s s'"
  have "(\<Sum>i\<in>open_ids zim s'. weight c s' i) \<le> (\<Sum>i\<in>open_ids zim s'. weight c s i)"
    using p by (intro sum_mono) (simp add: progress_def)
  also have "\<dots> \<le> (\<Sum>i\<in>open_ids zim s. weight c s i)"
    using p by (intro sum_mono2) (auto simp: progress_def)
  finally show ?thesis by (simp add: work_left_def)
qed

lemma consumed_less:
  assumes "progress zim c s s'" and "i \<in> open_ids zim s" and "consumed zim c s s' i"
  shows "work_left zim c s' < work_left zim c s"
proof -
  let ?A = "open_ids zim s'" and ?B = "open_ids zim s"
  have sub: "?A \<subseteq> ?B" and le: "\<And>j. j \<in> ?A \<Longrightarrow> weight c s' j \<le> weight c s j" using assms(1) by (auto simp: progress_def)
  have pos: "0 < weight c s j" for j by (simp add: weight_def)
  have mid: "(\<Sum>j\<in>?A. weight c s' j) \<le> (\<Sum>j\<in>?A. weight c s j)" using le by (intro sum_mono)
  show ?thesis
  proof (cases "i \<in> ?A")
    case True
    then have "weight c s' i < weight c s i" using assms(3) by (simp add: consumed_def)
    then have "(\<Sum>j\<in>?A. weight c s' j) < (\<Sum>j\<in>?A. weight c s j)"
      using le True by (intro sum_strict_mono_ex1) auto
    also have "\<dots> \<le> (\<Sum>j\<in>?B. weight c s j)" using sub by (intro sum_mono2) auto
    finally show ?thesis by (simp add: work_left_def)
  next
    case False
    have "(\<Sum>j\<in>?A. weight c s j) < (\<Sum>j\<in>?B. weight c s j)"
      using sub False assms(2) pos by (intro sum_strict_mono2 [of ?B ?A i]) auto
    then show ?thesis using mid by (simp add: work_left_def)
  qed
qed

lemma work_left_bound: "work_left zim c s \<le> card (open_ids zim s) * (permits c + 4)"
  unfolding work_left_def by (rule order_trans [OF sum_bounded_above [where K = "permits c + 4"]]) (simp_all add: weight_def)

section \<open>Every step is progress\<close>

text \<open>Other sessions add no work: they do not put rows of the archive in front of the loop.\<close>

definition adds_no_work :: "pipe_env \<Rightarrow> string \<Rightarrow> bool" where
  "adds_no_work E zim \<longleftrightarrow> (\<forall>site k T. unembedded_ids zim (pv_others E site k T) \<subseteq> unembedded_ids zim T)"

text \<open>\<open>K\<close> has the rows that can have a counter; they fit into the map, so it is never cleared.\<close>

definition pipe_inv :: "pipe_env \<Rightarrow> string \<Rightarrow> int set \<Rightarrow> pipe_state \<Rightarrow> bool" where
  "pipe_inv E zim K s \<longleftrightarrow>
     open_ids zim s \<subseteq> K \<and> fst ` set (pp_fails s) \<subseteq> K \<and> (\<forall>t\<in>set (pp_running s). set (tk_ids t) \<subseteq> K) \<and>
     distinct (map fst (pp_fails s))"

definition fits :: "pipe_env \<Rightarrow> int set \<Rightarrow> bool" where
  "fits E K \<longleftrightarrow> finite K \<and> (\<forall>k. card K + pv_foreign E k \<le> POISON_FAIL_MAP_CAP)"

lemma task_never_panics: "task_embeddings E c k texts \<noteq> Panicked"
proof -
  have "embed_with task pick n \<noteq> Panicked" for task pick n using embed_with_spec [of task pick n] by auto
  then show ?thesis by (simp add: task_embeddings_def embed_def Let_def)
qed

lemma bulk_update_ids:
  "unembedded_ids zim (T\<lparr>vt_rows := bulk_update now model v (vt_rows T)\<rparr>) = unembedded_ids zim T - dom v"
  by (force simp: unembedded_ids_def unembedded_def bulk_update_def split: option.splits)

lemma unembedded_ids_map:
  assumes "\<And>r. vr_id (f r) = vr_id r" and "\<And>r. vr_zim (f r) = vr_zim r" and "\<And>r. vr_embedding (f r) = vr_embedding r"
  shows "unembedded_ids zim (T\<lparr>vt_rows := map f (vt_rows T)\<rparr>) = unembedded_ids zim T"
proof -
  have "{r \<in> f ` set (vt_rows T). unembedded zim T r} = f ` {r \<in> set (vt_rows T). unembedded zim T r}"
    by (auto simp: unembedded_def assms)
  moreover have "unembedded zim (T\<lparr>vt_rows := map f (vt_rows T)\<rparr>) r = unembedded zim T r" for r by (simp add: unembedded_def)
  ultimately show ?thesis by (simp add: unembedded_ids_def image_image assms(1))
qed

lemma claim_ids:
  "claim_embed_batch zim now limit T = (claimed, T') \<Longrightarrow>
     unembedded_ids zim T' = unembedded_ids zim T \<and> fst ` set claimed \<subseteq> unembedded_ids zim T"
proof -
  assume c: "claim_embed_batch zim now limit T = (claimed, T')"
  define ids where "ids = take limit (sort (map vr_id (filter (claimable zim now T) (vt_rows T))))"
  have T': "T' = T\<lparr>vt_rows := map (\<lambda>r. if vr_id r \<in> set ids then r\<lparr>vr_embed_at := Some now\<rparr> else r) (vt_rows T)\<rparr>"
    and cl: "fst ` set claimed \<subseteq> set ids"
    using c by (auto simp: claim_embed_batch_def Let_def ids_def)
  have "set ids \<subseteq> vr_id ` set (filter (claimable zim now T) (vt_rows T))"
    by (auto simp: ids_def dest!: in_set_takeD)
  then have "set ids \<subseteq> unembedded_ids zim T" by (auto simp: unembedded_ids_def claimable_def)
  moreover have "unembedded_ids zim T' = unembedded_ids zim T"
    unfolding T' by (rule unembedded_ids_map) simp_all
  ultimately show ?thesis using cl by blast
qed

lemma write_batch_ids:
  assumes "adds_no_work E zim" and "write_batch E model k lits T = (r, T')"
  shows "unembedded_ids zim T' \<subseteq> unembedded_ids zim T" and "is_ok r \<Longrightarrow> unembedded_ids zim T' \<inter> fst ` set lits = {}"
proof -
  define U where "U = pv_others E ''write'' k T"
  have U: "unembedded_ids zim U \<subseteq> unembedded_ids zim T" using assms(1) by (simp add: adds_no_work_def U_def)
  have "(r = Ok () \<and> T' = U\<lparr>vt_rows := bulk_update (pv_now E ''write'' k) model (map_of lits) (vt_rows U)\<rparr>) \<or> (\<not> is_ok r \<and> T' = U)"
    using assms(2) by (auto simp: write_batch_def Let_def U_def split: option.splits)
  then show "unembedded_ids zim T' \<subseteq> unembedded_ids zim T" "is_ok r \<Longrightarrow> unembedded_ids zim T' \<inter> fst ` set lits = {}"
    using U by (auto simp: bulk_update_ids dom_map_of_conv_image_fst)
qed

text \<open>The three ways a task ends.\<close>

lemma run_task_cases:
  assumes "run_task E c t s = (r, s')"
  obtains (failure) T where "s' = s\<lparr>pp_fails := record_batch_failure (tk_ids t) (pp_fails s), pp_table := T\<rparr>"
      "T = pp_table s \<or> (\<exists>lits e. write_batch E (ec_model (cl_config c)) (tk_no t) lits (pp_table s) = (Inl e, T))"
    | (idle) "s' = s" "tk_ids t = []"
    | (success) vs T where "task_embeddings E c (tk_no t) (tk_texts t) = Done (Ok vs)" "length vs = length (tk_ids t)"
      "write_batch E (ec_model (cl_config c)) (tk_no t) (zip (tk_ids t) (map (format_vector (pv_show_f32 E)) vs)) (pp_table s) = (Ok (), T)"
      "s' = s\<lparr>pp_table := T, pp_fails := record_batch_success (tk_ids t) (pp_fails s)\<rparr>" "r = Done (Ok ())"
proof (cases "task_embeddings E c (tk_no t) (tk_texts t)")
  case Panicked
  then show ?thesis using task_never_panics by blast
next
  case (Done x)
  show ?thesis
  proof (cases x)
    case (Inl e)
    then show ?thesis using assms Done failure [of "pp_table s"] by (auto simp: run_task_def Let_def)
  next
    case (Inr vs)
    show ?thesis
    proof (cases "length vs = length (tk_ids t)")
      case False
      then show ?thesis using assms Done Inr failure [of "pp_table s"] by (auto simp: run_task_def Let_def store_guard_def)
    next
      case len: True
      show ?thesis
      proof (cases "tk_ids t = []")
        case True
        then show ?thesis using assms Done Inr len by (intro idle) (auto simp: run_task_def Let_def store_guard_def bulk_update_sql_def)
      next
        case False
        obtain w T where w: "write_batch E (ec_model (cl_config c)) (tk_no t)
            (zip (tk_ids t) (map (format_vector (pv_show_f32 E)) vs)) (pp_table s) = (w, T)" by fastforce
        show ?thesis
        proof (cases w)
          case (Inl e)
          then show ?thesis using assms Done Inr len False w failure [of T]
            by (auto simp: run_task_def Let_def store_guard_def bulk_update_sql_def)
        next
          case ok: (Inr u)
          then show ?thesis using assms Done Inr len False w success [of vs T]
            by (auto simp: run_task_def Let_def store_guard_def bulk_update_sql_def)
        qed
      qed
    qed
  qed
qed

lemma pending_remove:
  assumes "k < length (pp_running s)"
  shows "pending s i = pending (s\<lparr>pp_running := take k (pp_running s) @ drop (Suc k) (pp_running s)\<rparr>) i
           + (if i \<in> set (tk_ids (pp_running s ! k)) then 1 else 0)"
proof -
  have "pp_running s = take k (pp_running s) @ pp_running s ! k # drop (Suc k) (pp_running s)"
    using assms by (rule id_take_nth_drop)
  then have "pending s i = length (filter (\<lambda>t. i \<in> set (tk_ids t))
      (take k (pp_running s) @ pp_running s ! k # drop (Suc k) (pp_running s)))" by (simp add: pending_def)
  then show ?thesis by (simp add: pending_def)
qed

lemma run_task_progress:
  assumes "adds_no_work E zim" and "pipe_inv E zim K s0" and k: "k < length (pp_running s0)"
    and "s = s0\<lparr>pp_running := take k (pp_running s0) @ drop (Suc k) (pp_running s0)\<rparr>"
    and "run_task E c (pp_running s0 ! k) s = (r, s')"
  shows "pipe_inv E zim K s' \<and> progress zim c s0 s' \<and> pp_running s' = pp_running s"
proof -
  let ?t = "pp_running s0 ! k"
  have t: "set (tk_ids ?t) \<subseteq> K" using assms(2) k by (auto simp: pipe_inv_def)
  have sub: "set (pp_running s) \<subseteq> set (pp_running s0)"
    using assms(4) by (auto dest: in_set_takeD in_set_dropD)
  have p: "pending s0 i = pending s i + (if i \<in> set (tk_ids ?t) then 1 else 0)" for i
    using pending_remove [OF k, of i] assms(4) by simp
  from assms(5) show ?thesis
  proof (cases rule: run_task_cases)
    case (failure T)
    have T: "unembedded_ids zim T \<subseteq> open_ids zim s0"
      using failure(2)
    proof
      assume "\<exists>lits e. write_batch E (ec_model (cl_config c)) (tk_no ?t) lits (pp_table s) = (Inl e, T)"
      then show ?thesis using write_batch_ids(1) [OF assms(1)] assms(4) by (fastforce simp: open_ids_def)
    qed (use assms(4) in \<open>simp add: open_ids_def\<close>)
    have "weight c s' i \<le> weight c s0 i" for i
      using p [of i] record_failure_count [of "pp_fails s0" i "tk_ids ?t"] failure(1) assms(4)
      by (auto simp: weight_def pending_def split: if_splits)
    then show ?thesis using failure(1) assms(2,4) T t sub
      by (auto simp: progress_def pipe_inv_def open_ids_def record_failure_keys record_failure_distinct)
  next
    case idle
    then have "weight c s' i = weight c s0 i" for i using p [of i] assms(4) by (simp add: weight_def pending_def)
    then show ?thesis using idle(1) assms(2,4) sub by (auto simp: progress_def pipe_inv_def open_ids_def)
  next
    case (success vs T)
    have T: "unembedded_ids zim T \<subseteq> open_ids zim s0" "unembedded_ids zim T \<inter> set (tk_ids ?t) = {}"
      using write_batch_ids [OF assms(1) success(3)] success(2) assms(4)
      by (auto simp: open_ids_def simp flip: set_map)
    have "weight c s' i = weight c s0 i" if "i \<notin> set (tk_ids ?t)" for i
      using that p [of i] record_success_count [OF that] success(4) assms(4) by (simp add: weight_def pending_def)
    moreover have o: "open_ids zim s' = unembedded_ids zim T" using success(4) by (simp add: open_ids_def)
    ultimately have "progress zim c s0 s'" using T unfolding progress_def o by (metis disjoint_iff eq_imp_le)
    moreover have "fst ` set (record_batch_success (tk_ids ?t) (pp_fails s0)) \<subseteq> K"
      using record_success_keys [of "tk_ids ?t" "pp_fails s0"] assms(2) unfolding pipe_inv_def by blast
    then have "pipe_inv E zim K s'"
      using assms(2,4) success(4) T(1) sub unfolding pipe_inv_def o
      by (simp add: open_ids_def record_success_distinct) blast
    ultimately show ?thesis using success(4) by simp
  qed
qed

text \<open>The bundle that every step of the loop keeps.\<close>

definition advances :: "pipe_env \<Rightarrow> string \<Rightarrow> embed_client \<Rightarrow> int set \<Rightarrow> pipe_state \<Rightarrow> pipe_state \<Rightarrow> bool" where
  "advances E zim c K s s' \<longleftrightarrow> (pipe_inv E zim K s \<longrightarrow> pipe_inv E zim K s' \<and> progress zim c s s')"

lemma advances_refl [simp]: "advances E zim c K s s"
  by (simp add: advances_def)

lemma advances_trans: "advances E zim c K s s' \<Longrightarrow> advances E zim c K s' s'' \<Longrightarrow> advances E zim c K s s''"
  using progress_trans by (auto simp: advances_def)

lemma end_task_advances:
  assumes "adds_no_work E zim"
  shows "advances E zim c K s (end_task E c i s)"
proof (cases "pp_running s = []")
  case True
  then show ?thesis by (simp add: end_task_def)
next
  case False
  define k where "k = i mod length (pp_running s)"
  define s1 where "s1 = s\<lparr>pp_running := take k (pp_running s) @ drop (Suc k) (pp_running s)\<rparr>"
  have k: "k < length (pp_running s)" using False by (simp add: k_def)
  obtain r s2 where r: "run_task E c (pp_running s ! k) s1 = (r, s2)" by fastforce
  have e: "end_task E c i s = s2\<lparr>pp_results := (tk_no (pp_running s ! k), r) # pp_results s2\<rparr>"
    using False r by (simp add: end_task_def Let_def k_def s1_def)
  have "pipe_inv E zim K (end_task E c i s) = pipe_inv E zim K s2" "progress zim c s (end_task E c i s) = progress zim c s s2"
    unfolding e by (simp_all add: pipe_inv_def progress_def open_ids_def weight_def pending_def)
  then show ?thesis using run_task_progress [OF assms _ k s1_def r] by (simp add: advances_def)
qed

lemma fold_advances:
  "(\<And>x s. advances E zim c K s (f x s)) \<Longrightarrow> advances E zim c K s (fold f xs s)"
  by (induction xs arbitrary: s) (auto intro: advances_trans)

lemma step_advances: "advances E zim c K s (s\<lparr>pp_step := n\<rparr>)"
  by (simp add: advances_def pipe_inv_def progress_def open_ids_def weight_def pending_def)

lemma wait_advances: "adds_no_work E zim \<Longrightarrow> advances E zim c K s (wait_point E c s)"
  unfolding wait_point_def by (rule advances_trans [OF step_advances fold_advances]) (rule end_task_advances)

lemma acquire_advances: "adds_no_work E zim \<Longrightarrow> advances E zim c K s (acquire E c s)"
  unfolding acquire_def Let_def using wait_advances end_task_advances advances_trans by (smt (verit))

lemma table_advances:
  assumes "unembedded_ids zim T \<subseteq> unembedded_ids zim (pp_table s)"
  shows "advances E zim c K s (s\<lparr>pp_table := T\<rparr>)"
  using assms by (auto simp: advances_def pipe_inv_def progress_def open_ids_def weight_def pending_def)

lemma claim_rows_advances:
  assumes "adds_no_work E zim" and "claim_rows E c zim s = (r, s')"
  shows "advances E zim c K s s'" and "r = Inr claimed \<Longrightarrow> fst ` set claimed \<subseteq> open_ids zim s'"
proof -
  define s1 where "s1 = wait_point E c s"
  define T where "T = pv_others E ''claim'' (pp_step s1) (pp_table s1)"
  have T: "unembedded_ids zim T \<subseteq> unembedded_ids zim (pp_table s1)" using assms(1) by (simp add: T_def adds_no_work_def)
  obtain cl T' where c: "claim_embed_batch zim (pv_now E ''claim'' (pp_step s1)) (nat (claim_limit c)) T = (cl, T')" by fastforce
  note ids = claim_ids [OF c]
  have cases: "(\<exists>e. r = Inl e \<and> s' = s1\<lparr>pp_table := T\<rparr>) \<or> (r = Inr cl \<and> s' = s1\<lparr>pp_table := T'\<rparr>)"
    using assms(2) c by (auto simp: claim_rows_def Let_def T_def s1_def split: option.splits if_splits)
  then have "advances E zim c K s1 s'" using T ids by (auto intro!: table_advances)
  then show "advances E zim c K s s'" using wait_advances [OF assms(1)] advances_trans s1_def by blast
  show "fst ` set claimed \<subseteq> open_ids zim s'" if "r = Inr claimed" using that cases ids by (auto simp: open_ids_def)
qed

section \<open>Spawning consumes\<close>

lemma filter_keeps_counters:
  assumes "pipe_inv E zim K s" and "fits E K"
    and "filter_poisoned_ids (pv_foreign E k) ids (pp_fails s) = (r, m)"
  shows "m = pp_fails s" and "r = Some kept \<Longrightarrow> kept = filter (\<lambda>i. fail_count m i < 3) ids \<and> kept \<noteq> []"
proof -
  have "length (pp_fails s) = card (fst ` set (pp_fails s))"
    using assms(1) distinct_card [of "map fst (pp_fails s)"] by (simp add: pipe_inv_def)
  also have "\<dots> \<le> card K" using assms(1,2) by (intro card_mono) (auto simp: pipe_inv_def fits_def)
  finally have "\<not> length (pp_fails s) + pv_foreign E k > POISON_FAIL_MAP_CAP"
    using assms(2) by (auto simp: fits_def not_less intro: order_trans [OF add_right_mono])
  then show "m = pp_fails s" "r = Some kept \<Longrightarrow> kept = filter (\<lambda>i. fail_count m i < 3) ids \<and> kept \<noteq> []"
    using assms(3) by (auto simp: filter_poisoned_ids_def Let_def POISON_FAIL_MAX_def split: if_splits)
qed

lemma pending_spawn: "pending (spawn_task batch s) i = pending s i + (if i \<in> fst ` set batch then 1 else 0)"
  by (simp add: pending_def spawn_task_def)

lemma spawn_advances:
  assumes "fst ` set batch \<subseteq> K"
  shows "advances E zim c K s (spawn_task batch s)"
proof -
  have "weight c (spawn_task batch s) i \<le> weight c s i" for i
  proof -
    have "fail_count (pp_fails (spawn_task batch s)) i = fail_count (pp_fails s) i" by (simp add: spawn_task_def)
    then show ?thesis by (auto simp: weight_def pending_spawn)
  qed
  then show ?thesis using assms by (auto simp: advances_def pipe_inv_def progress_def open_ids_def spawn_task_def)
qed

lemma weight_spawn:
  assumes "i \<in> fst ` set batch" and "2 \<le> weight c s i"
  shows "weight c (spawn_task batch s) i < weight c s i"
proof -
  have "fail_count (pp_fails (spawn_task batch s)) i = fail_count (pp_fails s) i" by (simp add: spawn_task_def)
  then show ?thesis using assms by (simp add: weight_def pending_spawn)
qed

lemma pending_le: "length (pp_running s) \<le> permits c \<Longrightarrow> pending s i \<le> permits c"
  unfolding pending_def by (rule order_trans [OF length_filter_le])

lemma end_task_running: "length (pp_running (end_task E c i s)) = length (pp_running s) - 1"
proof (cases "pp_running s = []")
  case False
  define k where "k = i mod length (pp_running s)"
  define s1 where "s1 = s\<lparr>pp_running := take k (pp_running s) @ drop (Suc k) (pp_running s)\<rparr>"
  have k: "k < length (pp_running s)" using False by (simp add: k_def)
  obtain r s2 where r: "run_task E c (pp_running s ! k) s1 = (r, s2)" by fastforce
  have "pp_running s2 = pp_running s1" using r by (cases rule: run_task_cases) auto
  then have "length (pp_running (end_task E c i s)) = length (pp_running s1)"
    using False r by (simp add: end_task_def Let_def k_def s1_def)
  then show ?thesis using k by (simp add: s1_def)
qed (simp add: end_task_def)

lemma wait_running: "length (pp_running (wait_point E c s)) \<le> length (pp_running s)"
proof -
  have "length (pp_running (fold (end_task E c) is s)) \<le> length (pp_running s)" for "is" s
    by (induction "is" arbitrary: s) (simp, metis diff_le_self end_task_running fold_simps(2) order_trans)
  from this [of _ "s\<lparr>pp_step := pp_step s + 1\<rparr>"] show ?thesis by (simp add: wait_point_def)
qed

lemma acquire_running: "length (pp_running s) \<le> permits c \<Longrightarrow> length (pp_running (acquire E c s)) < permits c"
  using wait_running [of E c s] by (auto simp: acquire_def Let_def end_task_running permits_def)

lemma spawn_batch_consumes:
  assumes "adds_no_work E zim" and "fits E K" and inv: "pipe_inv E zim K s" and run: "length (pp_running s) \<le> permits c"
    and "fst ` set sub \<subseteq> K" and "spawn_batch E c sub s = (b, s')"
  shows "pipe_inv E zim K s' \<and> progress zim c s s' \<and> length (pp_running s') \<le> permits c" (is ?keeps)
    and "b \<Longrightarrow> \<exists>i\<in>fst ` set sub. consumed zim c s s' i"
proof -
  obtain r m where f: "filter_poisoned_ids (pv_foreign E (pp_step s)) (map fst sub) (pp_fails s) = (r, m)" by fastforce
  have m: "s\<lparr>pp_fails := m\<rparr> = s" using filter_keeps_counters(1) [OF inv assms(2) f] by simp
  have "?keeps \<and> (b \<longrightarrow> (\<exists>i\<in>fst ` set sub. consumed zim c s s' i))"
  proof (cases b)
    case False
    then have "s' = s" using assms(6) f m by (auto simp: spawn_batch_def Let_def split: option.splits if_splits)
    then show ?thesis using False inv run by simp
  next
    case True
    then obtain kept where r: "r = Some kept" using assms(6) f by (cases r) (auto simp: spawn_batch_def)
    define batch where "batch = filter (\<lambda>(i, _). i \<in> set kept) sub"
    define s1 where "s1 = acquire E c s"
    have s': "s' = spawn_task batch s1"
      using assms(6) f r m True by (auto simp: spawn_batch_def Let_def batch_def s1_def split: if_splits)
    have sub: "fst ` set batch \<subseteq> fst ` set sub" by (auto simp: batch_def)
    have adv: "pipe_inv E zim K s1" "progress zim c s s1"
      using acquire_advances [OF assms(1)] inv by (auto simp: advances_def s1_def)
    have adv2: "pipe_inv E zim K s'" "progress zim c s1 s'"
      using spawn_advances [of batch K E zim c s1] sub assms(5) adv(1) by (auto simp: advances_def s')
    have len: "length (pp_running s') \<le> permits c"
      using acquire_running [OF run, of E] by (simp add: s' spawn_task_def s1_def)
    obtain i where i: "i \<in> fst ` set sub" "i \<in> set kept" "fail_count (pp_fails s) i < 3"
      using filter_keeps_counters [OF inv assms(2) f] r by (fastforce simp: filter_empty_conv)
    have ib: "i \<in> fst ` set batch" using i(1,2) by (force simp: batch_def)
    have w: "2 \<le> weight c s i" using i(3) pending_le [OF run, of i] by (simp add: weight_def)
    have "consumed zim c s s' i"
    proof (cases "i \<in> open_ids zim s'")
      case True
      then have "i \<in> open_ids zim s1" using adv2(2) by (auto simp: progress_def)
      then have "weight c s1 i \<le> weight c s i" using adv(2) by (simp add: progress_def)
      moreover have "weight c s' i \<le> weight c s1 i" using adv2(2) True by (simp add: progress_def)
      moreover have "weight c s' i < weight c s1 i" if "2 \<le> weight c s1 i" unfolding s' by (rule weight_spawn [OF ib that])
      ultimately have "weight c s' i < weight c s i" using w by linarith
      then show ?thesis by (simp add: consumed_def)
    qed (simp add: consumed_def)
    then show ?thesis using adv adv2 len i(1) progress_trans by blast
  qed
  then show ?keeps "b \<Longrightarrow> \<exists>i\<in>fst ` set sub. consumed zim c s s' i" by auto
qed

lemma spawn_batches_consume:
  assumes "adds_no_work E zim" and "fits E K"
  shows "pipe_inv E zim K s \<Longrightarrow> length (pp_running s) \<le> permits c \<Longrightarrow> fst ` set (concat subs) \<subseteq> K \<Longrightarrow>
      spawn_batches E c subs s = (b, s') \<Longrightarrow>
      pipe_inv E zim K s' \<and> progress zim c s s' \<and> length (pp_running s') \<le> permits c \<and>
      (b \<longrightarrow> (\<exists>i\<in>fst ` set (concat subs). consumed zim c s s' i))"
proof (induction subs arbitrary: s b)
  case Nil
  then show ?case by simp
next
  case (Cons sub subs)
  obtain b1 s1 where f: "spawn_batch E c sub s = (b1, s1)" by fastforce
  obtain b2 where r: "spawn_batches E c subs s1 = (b2, s')" "b = (b1 \<or> b2)"
    using Cons.prems(4) f by (auto split: prod.splits)
  have "fst ` set sub \<subseteq> K" "fst ` set (concat subs) \<subseteq> K" using Cons.prems(3) by auto
  note one = spawn_batch_consumes [OF assms Cons.prems(1,2) this(1) f] and rest = Cons.IH [OF _ _ this(2) r(1)]
  have rest: "pipe_inv E zim K s'" "progress zim c s1 s'" "length (pp_running s') \<le> permits c"
      "b2 \<Longrightarrow> \<exists>i\<in>fst ` set (concat subs). consumed zim c s1 s' i"
    using rest one(1) by auto
  have "\<exists>i\<in>fst ` set (concat (sub # subs)). consumed zim c s s' i" if "b"
  proof (cases b1)
    case True
    then obtain i where "i \<in> fst ` set sub" "consumed zim c s s1 i" using one(2) by blast
    moreover have "consumed zim c s s' i" using calculation(2) rest(2) by (rule consumed_before)
    ultimately show ?thesis by (intro bexI [of _ i]) auto
  next
    case False
    then have "b2" using that r(2) by simp
    then obtain i where "i \<in> fst ` set (concat subs)" "consumed zim c s1 s' i" using rest(4) by blast
    moreover have "consumed zim c s s' i" using consumed_after [OF _ calculation(2) rest(2)] one(1) by simp
    ultimately show ?thesis by (intro bexI [of _ i]) auto
  qed
  then show ?case using rest(1-3) one(1) progress_trans [of zim c s s1 s'] by simp
qed

lemma concat_chunks: "concat (chunks n xs) = xs"
  by (induction n xs rule: chunks.induct) simp_all

lemma wait_keeps_running: "length (pp_running s) \<le> n \<Longrightarrow> length (pp_running (wait_point E c s)) \<le> n"
  using wait_running order_trans by blast

lemma claim_rows_running: "claim_rows E c zim s = (r, s') \<Longrightarrow> length (pp_running s') \<le> length (pp_running s)"
  using wait_running [of E c s] by (auto simp: claim_rows_def Let_def split: option.splits if_splits prod.splits)

text \<open>A pass that goes on has used up some of the work.\<close>

lemma claim_pass_decreases:
  assumes "adds_no_work E zim" and "fits E K" and inv: "pipe_inv E zim K s" and "length (pp_running s) \<le> permits c"
    and "claim_pass E c zim s = (outcome, s')"
  shows "pipe_inv E zim K s' \<and> progress zim c s s' \<and> length (pp_running s') \<le> permits c \<and>
    (outcome = Again \<longrightarrow> work_left zim c s' < work_left zim c s)"
proof -
  obtain r s1 where c: "claim_rows E c zim s = (r, s1)" by fastforce
  have s1: "pipe_inv E zim K s1" "progress zim c s s1" "length (pp_running s1) \<le> permits c"
    using claim_rows_advances(1) [OF assms(1) c, of K] inv claim_rows_running [OF c] assms(4) by (auto simp: advances_def)
  show ?thesis
  proof (cases "\<exists>claimed. r = Inr claimed \<and> claimed \<noteq> []")
    case False
    then have "s' = s1 \<and> outcome \<noteq> Again" using assms(5) c by (cases r) (auto simp: claim_pass_def)
    then show ?thesis using s1 by blast
  next
    case True
    then obtain claimed where r: "r = Inr claimed" "claimed \<noteq> []" by blast
    obtain b where b: "spawn_batches E c (chunks (batch_size c) claimed) s1 = (b, s')"
        "outcome = (if \<not> b \<or> int (length claimed) < claim_limit c then Stop else Again)"
      using assms(5) c r by (auto simp: claim_pass_def split: prod.splits)
    have cl: "fst ` set claimed \<subseteq> open_ids zim s1" using claim_rows_advances(2) [OF assms(1) c r(1)] .
    then have "fst ` set (concat (chunks (batch_size c) claimed)) \<subseteq> K" using s1(1) by (auto simp: concat_chunks pipe_inv_def)
    note sp = spawn_batches_consume [OF assms(1,2) s1(1,3) this b(1)]
    have "work_left zim c s' < work_left zim c s" if "outcome = Again"
    proof -
      have "b" using that b(2) by (auto split: if_splits)
      then obtain i where i: "i \<in> fst ` set claimed" "consumed zim c s1 s' i" using sp by (auto simp: concat_chunks)
      have "work_left zim c s' < work_left zim c s1" using consumed_less [of zim c s1 s' i] sp i cl by blast
      then show ?thesis using progress_le [OF s1(2)] by simp
    qed
    then show ?thesis using sp s1(2) progress_trans by blast
  qed
qed

lemma claim_loop_ends:
  assumes "adds_no_work E zim" and "fits E K"
  shows "pipe_inv E zim K s \<Longrightarrow> length (pp_running s) \<le> permits c \<Longrightarrow> work_left zim c s < fuel \<Longrightarrow>
    claim_loop fuel E c zim s \<noteq> None"
proof (induction fuel arbitrary: s)
  case 0
  then show ?case by simp
next
  case (Suc fuel)
  obtain outcome s' where p: "claim_pass E c zim s = (outcome, s')" by fastforce
  note d = claim_pass_decreases [OF assms Suc.prems(1,2) p]
  show ?case
  proof (cases outcome)
    case Again
    then show ?thesis using Suc.IH [of s'] d p Suc.prems(3) by simp
  qed (use p in simp_all)
qed

section \<open>The pipeline returns\<close>

text \<open>A relation that other sessions and the change of the column's type keep holds after the preparation.\<close>

definition kept_by_columns :: "pipe_env \<Rightarrow> (vec_table \<Rightarrow> vec_table \<Rightarrow> bool) \<Rightarrow> bool" where
  "kept_by_columns E R \<longleftrightarrow>
     reflp R \<and> transp R \<and> (\<forall>site T. R T (pv_others E site 0 T)) \<and> (\<forall>T d. R T (T\<lparr>vt_typmod := Some d\<rparr>))"

definition table_change :: "(vec_table \<Rightarrow> vec_table \<Rightarrow> bool) \<Rightarrow> pipe_state \<Rightarrow> pipe_state \<Rightarrow> bool" where
  "table_change R s s' \<longleftrightarrow> R (pp_table s) (pp_table s') \<and> s' = s\<lparr>pp_table := pp_table s'\<rparr>"

lemma table_change_trans: "transp R \<Longrightarrow> table_change R s s' \<Longrightarrow> table_change R s' s'' \<Longrightarrow> table_change R s s''"
proof -
  assume a: "transp R" "table_change R s s'" "table_change R s' s''"
  obtain T' T'' where "s' = s\<lparr>pp_table := T'\<rparr>" "s'' = s'\<lparr>pp_table := T''\<rparr>" using a(2,3) unfolding table_change_def by metis
  then show ?thesis using a transpD [OF a(1), of "pp_table s" T' T''] by (simp add: table_change_def)
qed

lemma column_stmt_change:
  assumes "kept_by_columns E R" and "column_stmt E site f s = (r, s')" and "\<And>T. R T (snd (f T))"
  shows "table_change R s s'"
proof -
  define T where "T = pv_others E site 0 (pp_table s)"
  have T: "R (pp_table s) T" using assms(1) by (simp add: T_def kept_by_columns_def)
  then have "R (pp_table s) (snd (f T))" using assms(1) assms(3) [of T] by (auto simp: kept_by_columns_def dest: transpD)
  moreover have "s' = s\<lparr>pp_table := T\<rparr> \<or> s' = s\<lparr>pp_table := snd (f T)\<rparr>"
    using assms(2) by (auto simp: column_stmt_def T_def Let_def split: option.splits prod.splits)
  ultimately show ?thesis using T by (auto simp: table_change_def)
qed

lemma ensure_dimension_change:
  assumes "kept_by_columns E R" and e: "ensure_vector_dimension E d s = (q, s')"
  shows "table_change R s s'"
proof -
  have R: "transp R" "\<And>T. R T T" "\<And>T x. R T (T\<lparr>vt_typmod := Some x\<rparr>)" using assms(1) by (auto simp: kept_by_columns_def dest: reflpD)
  obtain x s1 where x: "stored_embedding_dimension E ''typmod'' s = (x, s1)" by fastforce
  obtain y s2 where y: "column_stmt E ''stored'' (\<lambda>T. (length (filter (\<lambda>r. vr_embedding r \<noteq> None) (vt_rows T)), T)) s1 = (y, s2)" by fastforce
  obtain z s3 where z: "column_stmt E ''alter'' (\<lambda>T. ((), T\<lparr>vt_typmod := Some (int d)\<rparr>)) s2 = (z, s3)" by fastforce
  have 1: "table_change R s s1"
    using column_stmt_change [OF assms(1) x [unfolded stored_embedding_dimension_def]] R(2) by simp
  have 2: "table_change R s s2" using table_change_trans [OF R(1) 1 column_stmt_change [OF assms(1) y]] R(2) by simp
  have 3: "table_change R s s3" using table_change_trans [OF R(1) 2 column_stmt_change [OF assms(1) z]] R(3) by simp
  have "s' = s1 \<or> s' = s2 \<or> s' = s3"
    using e x y z by (auto simp: ensure_vector_dimension_def split: sum.splits option.splits if_splits)
  then show ?thesis using 1 2 3 by auto
qed

lemma prepare_change:
  assumes "kept_by_columns E R" and "prepare_pipeline E U dns build_error config s = (r, s')"
  shows "table_change R s s'"
proof -
  have R: "transp R" "\<And>T. R T T" using assms(1) by (auto simp: kept_by_columns_def dest: reflpD)
  obtain q s1 where q: "ensure_vector_dimension E (ec_dimension config) s = (q, s1)" by fastforce
  obtain d s2 where d: "stored_embedding_dimension E ''recheck'' s1 = (d, s2)" by fastforce
  have 1: "table_change R s s1" by (rule ensure_dimension_change [OF assms(1) q])
  moreover have "table_change R s1 s2"
    using column_stmt_change [OF assms(1) d [unfolded stored_embedding_dimension_def]] R(2) by simp
  ultimately have 2: "table_change R s s2" by (rule table_change_trans [OF R(1)])
  have "s' = s \<or> s' = s1 \<or> s' = s2"
    using assms(2) q d by (auto simp: prepare_pipeline_def split: sum.splits option.splits if_splits)
  then show ?thesis using 1 2 R(2) by (auto simp: table_change_def)
qed

lemma prepare_config: "prepare_pipeline E U dns build_error config s = (Inr c, s') \<Longrightarrow> cl_config c = config"
  by (auto simp: prepare_pipeline_def embed_client_new_def split: sum.splits option.splits if_splits prod.splits)

lemma unembedded_ids_typmod: "unembedded_ids zim (T\<lparr>vt_typmod := x\<rparr>) = unembedded_ids zim T"
  by (simp add: unembedded_ids_def unembedded_def)

lemma prepare_keeps:
  assumes "adds_no_work E zim" and "prepare_pipeline E U dns build_error config s = (r, s')"
  shows "pp_fails s' = pp_fails s \<and> open_ids zim s' \<subseteq> open_ids zim s"
proof -
  have "kept_by_columns E (\<lambda>T T'. unembedded_ids zim T' \<subseteq> unembedded_ids zim T)"
    using assms(1) by (auto simp: kept_by_columns_def adds_no_work_def unembedded_ids_typmod intro!: reflpI transpI)
  then have "table_change (\<lambda>T T'. unembedded_ids zim T' \<subseteq> unembedded_ids zim T) s s'" by (rule prepare_change [OF _ assms(2)])
  then show ?thesis unfolding table_change_def open_ids_def
    by (metis pipe_state.select_convs(2) pipe_state.surjective pipe_state.update_convs(1))
qed

lemma pipeline_loop_ends:
  assumes "adds_no_work E zim" and "prepare_pipeline E U dns build_error config s = (Inr c, s')"
    and "distinct (map fst (pp_fails s))"
    and "\<forall>k. card (open_ids zim s \<union> fst ` set (pp_fails s)) + pv_foreign E k \<le> POISON_FAIL_MAP_CAP"
    and "card (open_ids zim s) * (max 1 (ec_max_concurrency config) + 4) < fuel"
  shows "claim_loop fuel E c zim (no_tasks s') \<noteq> None"
proof -
  define K where "K = open_ids zim s \<union> fst ` set (pp_fails s)"
  note keep = prepare_keeps [OF assms(1,2)] and cfg = prepare_config [OF assms(2)]
  have o: "open_ids zim (no_tasks s') = open_ids zim s'" "pp_fails (no_tasks s') = pp_fails s'" "pp_running (no_tasks s') = []"
    by (simp_all add: no_tasks_def open_ids_def)
  have "pipe_inv E zim K (no_tasks s')" using keep assms(3) by (auto simp: pipe_inv_def o K_def)
  moreover have "fits E K" using assms(4) by (simp add: fits_def K_def)
  moreover have "work_left zim c (no_tasks s') < fuel"
  proof -
    have "card (open_ids zim s') \<le> card (open_ids zim s)" using keep by (intro card_mono) auto
    then have "card (open_ids zim s') * (permits c + 4) \<le> card (open_ids zim s) * (max 1 (ec_max_concurrency config) + 4)"
      by (simp add: permits_def cfg)
    then show ?thesis using work_left_bound [of zim c "no_tasks s'"] assms(5) by (simp only: o)
  qed
  ultimately show ?thesis using claim_loop_ends [OF assms(1)] by (simp add: o)
qed

lemma loop_then_run:
  assumes "embed_config_from_settings st = Some config" and "prepare_pipeline E U dns build_error config s = (Inr c, s')"
    and "claim_loop fuel E c zim (no_tasks s') \<noteq> None"
  shows "\<exists>r. run_pipeline fuel E B U dns build_error st zim (s, b) = Some r"
proof -
  obtain q s1 where "claim_loop fuel E c zim (no_tasks s') = Some (q, s1)" using assms(3) by auto
  then show ?thesis using assms(1,2) by (cases q) (simp_all add: run_pipeline_def Let_def split: option.splits)
qed

text \<open>
  C28. The pipeline comes to an end. However its tasks are scheduled and whatever the endpoint and the database
  answer, a run makes at most one claim more than the number of its archive's rows without an embedding times
  the permitted tasks plus four: every pass that goes on embeds a row or hands one to a task, and a row is given up
  after three failed tasks. Other sessions must not add rows without an embedding to the archive, and the counted
  rows must fit into the failure map, which is cleared when it holds more than 100 000.
\<close>

theorem pipeline_returns:
  assumes "adds_no_work E zim" and "embed_config_from_settings st = Some config"
    and "distinct (map fst (pp_fails s))"
    and "\<forall>k. card (open_ids zim s \<union> fst ` set (pp_fails s)) + pv_foreign E k \<le> POISON_FAIL_MAP_CAP"
    and "card (open_ids zim s) * (max 1 (ec_max_concurrency config) + 4) < fuel"
  shows "\<exists>r. run_pipeline fuel E B U dns build_error st zim (s, b) = Some r"
proof (cases "prepare_pipeline E U dns build_error config s")
  case (Pair p s')
  show ?thesis
  proof (cases p)
    case (Inl e)
    then show ?thesis using Pair assms(2) by (simp add: run_pipeline_def)
  next
    case (Inr c)
    then have prep: "prepare_pipeline E U dns build_error config s = (Inr c, s')" using Pair by simp
    have "claim_loop fuel E c zim (no_tasks s') \<noteq> None" by (rule pipeline_loop_ends [OF assms(1) prep assms(3-5)])
    then show ?thesis by (rule loop_then_run [OF assms(2) prep])
  qed
qed

text \<open>Three rows of an archive, one at a time, against an endpoint that refuses every request.\<close>

definition sample_row :: "int \<Rightarrow> vec_row" where
  "sample_row i = \<lparr>vr_id = i, vr_zim = 1, vr_snippet = Some ''s'', vr_preview = None, vr_embedding = None,
     vr_model = None, vr_embed_at = None\<rparr>"

definition sample_table :: vec_table where
  "sample_table = \<lparr>vt_rows = map sample_row [3, 1, 2], vt_zims = [(''z'', 1)], vt_typmod = Some 2\<rparr>"

definition sample_pipe :: pipe_state where
  "sample_pipe = \<lparr>pp_table = sample_table, pp_fails = [], pp_running = [], pp_results = [], pp_spawned = 0, pp_step = 0\<rparr>"

definition sample_http :: "(embed_response, string) result \<Rightarrow> embed_http" where
  "sample_http r = \<lparr>eh_post = (\<lambda>_ _. r), eh_json = (\<lambda>_. Err ''no'')\<rparr>"

definition sample_pipe_env :: "(nat \<Rightarrow> nat \<Rightarrow> embed_http) \<Rightarrow> pipe_env" where
  "sample_pipe_env H =
     \<lparr>pv_fault = (\<lambda>_ _. None), pv_others = (\<lambda>_ _ T. T), pv_now = (\<lambda>_ k. int k), pv_ended = (\<lambda>_. []),
      pv_foreign = (\<lambda>_. 0), pv_http = H, pv_died = (\<lambda>_ _. False), pv_pick = (\<lambda>_ _. 0),
      pv_show_f32 = (\<lambda>r. if r = 0 then ''0'' else ''1''), pv_cast = (\<lambda>_ _. None)\<rparr>"

definition sample_embed_settings :: settings_inner where
  "sample_embed_settings = fresh_settings None [] Map.empty
     [KEY_EMBEDDING_ENDPOINT \<mapsto> JStr ''http://e'', KEY_EMBEDDING_BATCH_SIZE \<mapsto> JInt 1,
      KEY_EMBEDDING_MAX_CONCURRENCY \<mapsto> JInt 1, KEY_EMBEDDING_DIMENSION \<mapsto> JInt 2]"

definition sample_embed_config :: embed_config where
  "sample_embed_config = \<lparr>ec_endpoint = ''http://e'', ec_api_key = [], ec_model = EMBED_DEFAULT_MODEL, ec_dimension = 2,
     ec_batch_size = 1, ec_max_concurrency = 1, ec_timeout_secs = 60\<rparr>"

definition sample_urls :: url_ops where
  "sample_urls = \<lparr>url_parse = (\<lambda>_. Err ''no''), url_join = (\<lambda>_ _. None)\<rparr>"

lemma sample_embed_config: "embed_config_from_settings sample_embed_settings = Some sample_embed_config"
  by (simp add: embed_config_from_settings_def sample_embed_settings_def sample_embed_config_def fresh_settings_def
    get_typed_def get_setting_def or_else_def key_defs from_value_str_def from_value_unsigned_def)

lemma sample_open: "open_ids ''z'' sample_pipe = {1, 2, 3}"
  by (auto simp: open_ids_def unembedded_ids_code unembedded_def sample_pipe_def sample_table_def sample_row_def)

theorem pipeline_returns_witness:
  "card (open_ids ''z'' sample_pipe) = 3 \<and>
   (\<exists>r. run_pipeline 16 (sample_pipe_env (\<lambda>_ _. sample_http (Err ''down''))) sample_build_env sample_urls (\<lambda>_ _. Err ''no'')
      None sample_embed_settings ''z'' (sample_pipe, sample_build) = Some r)"
proof -
  define E where "E = sample_pipe_env (\<lambda>_ _. sample_http (Err ''down''))"
  have "adds_no_work E ''z''" by (simp add: adds_no_work_def E_def sample_pipe_env_def)
  moreover have "pp_fails sample_pipe = []" by (simp add: sample_pipe_def)
  moreover have "card (open_ids ''z'' sample_pipe) = 3" by (simp add: sample_open)
  moreover have "pv_foreign E k = 0" for k by (simp add: E_def sample_pipe_env_def)
  moreover have "ec_max_concurrency sample_embed_config = 1" by (simp add: sample_embed_config_def)
  ultimately show ?thesis
    using pipeline_returns [OF _ sample_embed_config, of E "''z''" sample_pipe 16 sample_build_env sample_urls "\<lambda>_ _. Err ''no''" None sample_build]
    by (simp add: E_def POISON_FAIL_MAP_CAP_def)
qed

end
