(* ===== verification/EmbedOutcome.thy ===== *)
theory EmbedOutcome
  imports EmbedProgress
begin

text \<open>
  The rows after a run of the embedding pipeline: whose text a stored vector is of, and which rows have one.
\<close>

section \<open>Invariants of a run\<close>

text \<open>
  What the pipeline's steps have to keep for a property to hold after a run. The property also speaks of the
  claimed rows that are not yet spawned.
\<close>

locale pipe_invariant =
  fixes E :: pipe_env and c :: embed_client and zim :: string
    and P :: "(int \<times> string) list \<Rightarrow> pipe_state \<Rightarrow> bool"
  assumes stepped: "P C s \<Longrightarrow> P C (s\<lparr>pp_step := n\<rparr>)"
    and ended: "P C s \<Longrightarrow> P C (end_task E c i s)"
    and between: "P [] s \<Longrightarrow> P [] (s\<lparr>pp_table := pv_others E ''claim'' k (pp_table s)\<rparr>)"
    and claims: "P [] s \<Longrightarrow> claim_embed_batch zim now limit (pp_table s) = (C, T) \<Longrightarrow> P C (s\<lparr>pp_table := T\<rparr>)"
    and dropped: "P (sub @ C) s \<Longrightarrow> filter_poisoned_ids n (map fst sub) (pp_fails s) = (r, m) \<Longrightarrow>
      P (filter (\<lambda>(i, _). i \<in> set (concat (case r of None \<Rightarrow> [] | Some kept \<Rightarrow> [kept]))) sub @ C) (s\<lparr>pp_fails := m\<rparr>)"
    and spawned: "P (batch @ C) s \<Longrightarrow> P C (spawn_task batch s)"
begin

lemma waits: "P C s \<Longrightarrow> P C (wait_point E c s)"
proof -
  have "P C (fold (end_task E c) is s)" if "P C s" for "is" s
    using that by (induction "is" arbitrary: s) (simp_all add: ended)
  then show "P C s \<Longrightarrow> P C (wait_point E c s)" by (simp add: wait_point_def stepped)
qed

lemma acquires: "P C s \<Longrightarrow> P C (acquire E c s)"
  using waits ended by (simp add: acquire_def Let_def)

lemma spawns:
  assumes "P (sub @ C) s" and "spawn_batch E c sub s = (b, s')"
  shows "P C s'"
proof -
  obtain r m where f: "filter_poisoned_ids (pv_foreign E (pp_step s)) (map fst sub) (pp_fails s) = (r, m)" by fastforce
  show ?thesis
  proof (cases r)
    case None
    then show ?thesis using dropped [OF assms(1) f] assms(2) f by (simp add: spawn_batch_def)
  next
    case (Some kept)
    define batch where "batch = filter (\<lambda>(i, _). i \<in> set kept) sub"
    have "P (batch @ C) (s\<lparr>pp_fails := m\<rparr>)" using dropped [OF assms(1) f] Some by (simp add: batch_def)
    then show ?thesis using assms(2) f Some spawned [OF acquires, of batch C]
      by (auto simp: spawn_batch_def Let_def batch_def split: if_splits)
  qed
qed

lemma spawns_all: "P (concat subs @ C) s \<Longrightarrow> spawn_batches E c subs s = (b, s') \<Longrightarrow> P C s'"
proof (induction subs arbitrary: s b)
  case (Cons sub subs)
  obtain b1 s1 where f: "spawn_batch E c sub s = (b1, s1)" by fastforce
  then obtain b2 where r: "spawn_batches E c subs s1 = (b2, s')" using Cons.prems(2) by (auto split: prod.splits)
  have "P (sub @ concat subs @ C) s" using Cons.prems(1) by simp
  then show ?case using spawns [OF _ f] Cons.IH [OF _ r] by blast
qed simp

lemma claims_rows:
  assumes "P [] s" and "claim_rows E c zim s = (r, s')"
  shows "P (case r of Inl _ \<Rightarrow> [] | Inr claimed \<Rightarrow> claimed) s'"
proof -
  define s1 where "s1 = wait_point E c s"
  define s2 where "s2 = s1\<lparr>pp_table := pv_others E ''claim'' (pp_step s1) (pp_table s1)\<rparr>"
  have "P [] s2" using waits [OF assms(1)] by (simp add: s2_def s1_def between)
  moreover obtain C T where C: "claim_embed_batch zim (pv_now E ''claim'' (pp_step s1)) (nat (claim_limit c)) (pp_table s2) = (C, T)"
    by fastforce
  moreover have "(\<exists>e. r = Inl e \<and> s' = s2) \<or> (r = Inr C \<and> s' = s2\<lparr>pp_table := T\<rparr>)"
    using assms(2) C by (auto simp: claim_rows_def Let_def s1_def s2_def split: option.splits if_splits)
  ultimately show ?thesis using claims by auto
qed

lemma passes: "P [] s \<Longrightarrow> claim_pass E c zim s = (outcome, s') \<Longrightarrow> P [] s'"
proof -
  assume s: "P [] s" and p: "claim_pass E c zim s = (outcome, s')"
  obtain r s1 where c: "claim_rows E c zim s = (r, s1)" by fastforce
  note P = claims_rows [OF s c]
  show "P [] s'"
  proof (cases r)
    case (Inl e)
    then show ?thesis using P p c by (simp add: claim_pass_def)
  next
    case (Inr claimed)
    then show ?thesis using P p c spawns_all [of "chunks (batch_size c) claimed" "[]" s1]
      by (auto simp: claim_pass_def concat_chunks split: if_splits prod.splits)
  qed
qed

lemma loops: "P [] s \<Longrightarrow> claim_loop fuel E c zim s = Some (r, s') \<Longrightarrow> P [] s'"
proof (induction fuel arbitrary: s)
  case (Suc fuel)
  obtain outcome s1 where p: "claim_pass E c zim s = (outcome, s1)" by fastforce
  then show ?case using passes [OF Suc.prems(1) p] Suc.IH [of s1] Suc.prems(2) by (cases outcome) auto
qed simp

lemma drains: "P C s \<Longrightarrow> P C (drain_tasks E c s)"
proof -
  have "P C ((end_task E c 0 ^^ n) s)" if "P C s" for n s
    using that by (induction n) (simp_all add: ended)
  then show "P C s \<Longrightarrow> P C (drain_tasks E c s)" by (simp add: drain_tasks_def Let_def waits)
qed

end

section \<open>Vectors belong to their texts\<close>

text \<open>What of a row matters for its vector.\<close>

definition row_view :: "vec_row \<Rightarrow> int \<times> string \<times> string option" where
  "row_view r = (vr_id r, embed_text r, vr_embedding r)"

definition texts_of :: "vec_table \<Rightarrow> (int \<times> string) list" where
  "texts_of T = map (\<lambda>r. (vr_id r, embed_text r)) (vt_rows T)"

definition keeps_views :: "pipe_env \<Rightarrow> bool" where
  "keeps_views E \<longleftrightarrow> (\<forall>site k T. map row_view (vt_rows (pv_others E site k T)) = map row_view (vt_rows T))"

text \<open>The endpoint embeds texts one by one: an answer of the right length has the vector of each text.\<close>

definition embeds_by :: "(string \<Rightarrow> vector) \<Rightarrow> pipe_env \<Rightarrow> bool" where
  "embeds_by f E \<longleftrightarrow>
     (\<forall>c k texts vs. task_embeddings E c k texts = Done (Ok vs) \<longrightarrow> length vs = length texts \<longrightarrow> vs = map f texts)"

definition own_vector :: "(string \<Rightarrow> string) \<Rightarrow> vec_table \<Rightarrow> int \<times> string \<times> string option \<Rightarrow> bool" where
  "own_vector lit T0 v = (case v of (i, text, emb) \<Rightarrow> v \<in> row_view ` set (vt_rows T0) \<or> emb = Some (lit text))"

definition task_of :: "vec_table \<Rightarrow> embed_task \<Rightarrow> bool" where
  "task_of T t \<longleftrightarrow> list_all2 (\<lambda>i text. (i, text) \<in> set (texts_of T)) (tk_ids t) (tk_texts t)"

definition own_inv :: "(string \<Rightarrow> string) \<Rightarrow> vec_table \<Rightarrow> pipe_state \<Rightarrow> bool" where
  "own_inv lit T0 s \<longleftrightarrow>
     texts_of (pp_table s) = texts_of T0 \<and> (\<forall>r\<in>set (vt_rows (pp_table s)). own_vector lit T0 (row_view r)) \<and>
     (\<forall>t\<in>set (pp_running s). task_of T0 t)"

lemma embed_text_stamp: "embed_text (r\<lparr>vr_embed_at := x\<rparr>) = embed_text r"
  by (simp add: embed_text_def)

lemma embed_text_write: "embed_text (r\<lparr>vr_embedding := e, vr_model := m, vr_embed_at := x\<rparr>) = embed_text r"
  by (simp add: embed_text_def)

lemma same_views:
  assumes "map row_view (vt_rows T') = map row_view (vt_rows T)"
  shows "texts_of T' = texts_of T" and "row_view ` set (vt_rows T') = row_view ` set (vt_rows T)"
proof -
  have "texts_of T = map (\<lambda>(i, text, _). (i, text)) (map row_view (vt_rows T))" for T
    by (simp add: texts_of_def row_view_def)
  then show "texts_of T' = texts_of T" using assms by metis
  show "row_view ` set (vt_rows T') = row_view ` set (vt_rows T)" using assms by (metis list.set_map)
qed

lemma own_views:
  assumes "own_inv lit T0 s" and "map row_view (vt_rows T) = map row_view (vt_rows (pp_table s))"
  shows "own_inv lit T0 (s\<lparr>pp_table := T\<rparr>)"
proof -
  note v = same_views [OF assms(2)]
  have "own_vector lit T0 (row_view r)" if "r \<in> set (vt_rows T)" for r
  proof -
    have "row_view r \<in> row_view ` set (vt_rows (pp_table s))" using that v(2) by blast
    then show ?thesis using assms(1) by (auto simp: own_inv_def)
  qed
  then show ?thesis using assms(1) v(1) by (simp add: own_inv_def)
qed

lemma claim_views:
  assumes "claim_embed_batch zim now limit T = (claimed, T')"
  shows "map row_view (vt_rows T') = map row_view (vt_rows T)" and "set claimed \<subseteq> set (texts_of T)"
  using assms by (auto simp: claim_embed_batch_def Let_def row_view_def embed_text_stamp texts_of_def)

lemma write_own:
  assumes own: "own_inv lit T0 s" and "keeps_views E" and "distinct (map fst (texts_of T0))"
    and t: "task_of T0 t" and "write_batch E model k (zip (tk_ids t) (map lit (tk_texts t))) (pp_table s) = (Ok (), T)"
  shows "own_inv lit T0 (s\<lparr>pp_table := T\<rparr>)"
proof -
  define U where "U = pv_others E ''write'' k (pp_table s)"
  define v where "v = map_of (zip (tk_ids t) (map lit (tk_texts t)))"
  define g :: "vec_row \<Rightarrow> vec_row" where "g r = (case v (vr_id r) of
      Some l \<Rightarrow> r\<lparr>vr_embedding := Some l, vr_model := Some model, vr_embed_at := Some (pv_now E ''write'' k)\<rparr> | None \<Rightarrow> r)" for r
  have U: "own_inv lit T0 (s\<lparr>pp_table := U\<rparr>)" using assms(2) by (intro own_views [OF own]) (simp add: keeps_views_def U_def)
  have T: "T = U\<lparr>vt_rows := map g (vt_rows U)\<rparr>"
    using assms(5) by (auto simp: write_batch_def Let_def U_def v_def g_def bulk_update_def fun_eq_iff split: option.splits)
  have lit: "l = lit (embed_text r)" if r: "r \<in> set (vt_rows U)" and l: "v (vr_id r) = Some l" for r l
  proof -
    obtain j where j: "j < length (tk_ids t)" "tk_ids t ! j = vr_id r" "l = lit (tk_texts t ! j)" "length (tk_ids t) = length (tk_texts t)"
      using map_of_SomeD [OF l [unfolded v_def]] t by (auto simp: set_zip task_of_def list_all2_lengthD)
    then have "(vr_id r, tk_texts t ! j) \<in> set (texts_of T0)" using t by (auto simp: task_of_def list_all2_conv_all_nth)
    moreover have "(vr_id r, embed_text r) \<in> set (texts_of T0)" 
    proof -
      have "(vr_id r, embed_text r) \<in> set (texts_of U)" using r by (auto simp: texts_of_def)
      then show ?thesis using U by (simp add: own_inv_def)
    qed
    ultimately have "tk_texts t ! j = embed_text r" using assms(3) by (metis eq_key_imp_eq_value)
    then show ?thesis using j(3) by simp
  qed
  have "own_vector lit T0 (row_view (g r))" if "r \<in> set (vt_rows U)" for r
    using lit [OF that] U that
    by (cases "v (vr_id r)") (auto simp: g_def own_inv_def own_vector_def row_view_def embed_text_write)
  moreover have "texts_of T = texts_of U" by (simp add: T texts_of_def g_def embed_text_write split: option.splits)
  ultimately show ?thesis using U by (auto simp: own_inv_def T)
qed

lemma write_error_views:
  "keeps_views E \<Longrightarrow> write_batch E model k lits T0 = (Inl e, T) \<Longrightarrow> map row_view (vt_rows T) = map row_view (vt_rows T0)"
  by (auto simp: write_batch_def Let_def keeps_views_def split: option.splits)

text \<open>Every step keeps the invariant.\<close>

lemma own_fields:
  "own_inv lit T0 s \<Longrightarrow> pp_table s' = pp_table s \<Longrightarrow> set (pp_running s') \<subseteq> set (pp_running s) \<Longrightarrow> own_inv lit T0 s'"
  by (auto simp: own_inv_def)

lemma run_task_own:
  assumes own: "own_inv lit T0 s" and "keeps_views E" and "embeds_by f E" and "distinct (map fst (texts_of T0))"
    and t: "task_of T0 t" and "lit = (\<lambda>text. format_vector (pv_show_f32 E) (f text))" and "run_task E c t s = (r, s')"
  shows "own_inv lit T0 s'"
  using assms(7)
proof (cases rule: run_task_cases)
  case (failure T)
  have "map row_view (vt_rows T) = map row_view (vt_rows (pp_table s))"
    using failure(2) write_error_views [OF assms(2)] by auto
  then have "own_inv lit T0 (s\<lparr>pp_table := T\<rparr>)" by (rule own_views [OF own])
  then show ?thesis by (rule own_fields) (simp_all add: failure(1))
next
  case idle
  then show ?thesis using own by simp
next
  case (success vs T)
  have len: "length (tk_texts t) = length (tk_ids t)" using t by (simp add: task_of_def list_all2_lengthD)
  then have "vs = map f (tk_texts t)" using assms(3) success(1,2) unfolding embeds_by_def by metis
  then have "map (format_vector (pv_show_f32 E)) vs = map lit (tk_texts t)" by (simp add: assms(6))
  then have "own_inv lit T0 (s\<lparr>pp_table := T\<rparr>)" using write_own [OF own assms(2,4) t] success(3) by simp
  then show ?thesis by (rule own_fields) (simp_all add: success(4))
qed

definition own_hyps :: "pipe_env \<Rightarrow> (string \<Rightarrow> vector) \<Rightarrow> (string \<Rightarrow> string) \<Rightarrow> vec_table \<Rightarrow> bool" where
  "own_hyps E f lit T0 \<longleftrightarrow>
     keeps_views E \<and> embeds_by f E \<and> distinct (map vr_id (vt_rows T0)) \<and> lit = (\<lambda>text. format_vector (pv_show_f32 E) (f text))"

lemma own_hyps_distinct: "own_hyps E f lit T0 \<Longrightarrow> distinct (map fst (texts_of T0))"
  by (simp add: own_hyps_def texts_of_def o_def)

lemma end_task_own:
  assumes "own_hyps E f lit T0" and "own_inv lit T0 s"
  shows "own_inv lit T0 (end_task E c i s)"
proof (cases "pp_running s = []")
  case False
  define k where "k = i mod length (pp_running s)"
  define s1 where "s1 = s\<lparr>pp_running := take k (pp_running s) @ drop (Suc k) (pp_running s)\<rparr>"
  have k: "k < length (pp_running s)" using False by (simp add: k_def)
  obtain r s2 where r: "run_task E c (pp_running s ! k) s1 = (r, s2)" by fastforce
  have "own_inv lit T0 s1" using assms(2) by (rule own_fields) (auto simp: s1_def dest: in_set_takeD in_set_dropD)
  moreover have "task_of T0 (pp_running s ! k)" using assms(2) k by (simp add: own_inv_def)
  ultimately have "own_inv lit T0 s2"
    using run_task_own [OF _ _ _ own_hyps_distinct [OF assms(1)]] assms(1) r unfolding own_hyps_def by blast
  then show ?thesis using False r by (simp add: end_task_def Let_def k_def s1_def own_inv_def)
qed (use assms in \<open>simp add: end_task_def\<close>)

lemma spawn_task_of:
  "set batch \<subseteq> set (texts_of T0) \<Longrightarrow> task_of T0 \<lparr>tk_no = k, tk_ids = map fst batch, tk_texts = map snd batch\<rparr>"
  by (auto simp: task_of_def list.rel_map intro!: list.rel_refl_strong)

lemma claim_own:
  assumes "own_inv lit T0 s" and "claim_embed_batch zim now limit (pp_table s) = (C, T)"
  shows "own_inv lit T0 (s\<lparr>pp_table := T\<rparr>) \<and> set C \<subseteq> set (texts_of T0)"
proof -
  have "set C \<subseteq> set (texts_of T0)" using claim_views(2) [OF assms(2)] assms(1) unfolding own_inv_def by metis
  then show ?thesis using own_views [OF assms(1) claim_views(1) [OF assms(2)]] by simp
qed

interpretation own: pipe_invariant E c zim
    "\<lambda>C s. own_hyps E f lit T0 \<longrightarrow> own_inv lit T0 s \<and> set C \<subseteq> set (texts_of T0)" for E c zim f lit T0
proof
  let ?P = "\<lambda>C s. own_hyps E f lit T0 \<longrightarrow> own_inv lit T0 s \<and> set C \<subseteq> set (texts_of T0)"
  fix C sub batch :: "(int \<times> string) list" and s :: pipe_state and i n k limit :: nat and now :: int and r m T
  show "?P C s \<Longrightarrow> ?P C (s\<lparr>pp_step := n\<rparr>)" by (simp add: own_inv_def)
  show "?P C s \<Longrightarrow> ?P C (end_task E c i s)" using end_task_own by blast
  show "?P [] s \<Longrightarrow> ?P [] (s\<lparr>pp_table := pv_others E ''claim'' k (pp_table s)\<rparr>)"
    using own_views by (auto simp: own_hyps_def keeps_views_def)
  show "?P [] s \<Longrightarrow> claim_embed_batch zim now limit (pp_table s) = (C, T) \<Longrightarrow> ?P C (s\<lparr>pp_table := T\<rparr>)"
    using claim_own by blast
  show "?P (sub @ C) s \<Longrightarrow> filter_poisoned_ids n (map fst sub) (pp_fails s) = (r, m) \<Longrightarrow>
      ?P (filter (\<lambda>(i, _). i \<in> set (concat (case r of None \<Rightarrow> [] | Some kept \<Rightarrow> [kept]))) sub @ C) (s\<lparr>pp_fails := m\<rparr>)"
    by (auto simp: own_inv_def)
  show "?P (batch @ C) s \<Longrightarrow> ?P C (spawn_task batch s)"
    by (auto simp: own_inv_def spawn_task_def spawn_task_of)
qed

lemma prepare_views:
  assumes "keeps_views E" and "prepare_pipeline E U dns build_error config s = (r, s')"
  shows "map row_view (vt_rows (pp_table s')) = map row_view (vt_rows (pp_table s))"
proof -
  have "kept_by_columns E (\<lambda>T T'. map row_view (vt_rows T') = map row_view (vt_rows T))"
    using assms(1) by (auto simp: kept_by_columns_def keeps_views_def intro!: reflpI transpI)
  from prepare_change [OF this assms(2)] show ?thesis by (simp add: table_change_def)
qed


section \<open>Samples\<close>

text \<open>An endpoint that answers every request with the vector \<open>[0, 1]\<close>.\<close>

definition answering :: embed_http where
  "answering = \<lparr>eh_post = (\<lambda>_ _. Ok \<lparr>es_status = 200, es_content_length = None, es_body = Ok ''x''\<rparr>),
     eh_json = (\<lambda>_. Ok (JObj [(''data'', JArr [JObj [(''index'', JInt 0), (''embedding'', JArr [JInt 0, JInt 1])]])]))\<rparr>"

definition public_urls :: url_ops where
  "public_urls = \<lparr>url_parse = (\<lambda>_. Ok \<lparr>u_scheme = ''http'', u_host = Some ''8.8.8.8'', u_port = None, u_str = ''http://8.8.8.8/''\<rparr>),
     url_join = (\<lambda>_ _. None)\<rparr>"

definition sample_client :: embed_client where
  "sample_client = \<lparr>cl_config = sample_embed_config, cl_pin = None\<rparr>"

lemma answering_chunk: "embed_chunk answering c chunk = Ok [[0, 1]]"
  by (simp add: embed_chunk_def answering_def Let_def decode_embed_response_def member_def decode_embed_data_def sequence_opt_def
    number_of_def from_value_unsigned_def check_embed_indices_def MAX_EMBED_RESPONSE_BYTES_def)

lemma answering_embeds:
  "task_embeddings (sample_pipe_env (\<lambda>_ _. answering)) c k texts = Done (Ok (replicate (length (chunks (ec_batch_size (cl_config c)) texts)) [0, 1]))"
proof -
  define n where "n = length (chunks (ec_batch_size (cl_config c)) texts)"
  define task where "task = chunk_task (\<lambda>_. answering) (\<lambda>_. False) c (chunks (ec_batch_size (cl_config c)) texts)"
  have v: "chunk_value task i = Some [[0, 1]]" for i by (simp add: task_def chunk_value_def chunk_task_def answering_chunk)
  have "embed_with task (\<lambda>_. 0) n = Done (Ok (concat (map (\<lambda>i. [[0, 1]]) [0..<n])))"
    using embed_with_spec [of task "\<lambda>_. 0" n] by (simp add: v)
  moreover have "concat (map (\<lambda>i. [x]) [0..<n]) = replicate n x" for x :: vector
    by (induction n) (simp_all add: replicate_append_same)
  ultimately show ?thesis by (simp add: task_embeddings_def embed_def sample_pipe_env_def Let_def n_def task_def)
qed

lemma prepared: "prepare_pipeline (sample_pipe_env H) public_urls (\<lambda>_ _. Err ''no'') None sample_embed_config sample_pipe
    = (Inr sample_client, sample_pipe)"
  by code_simp


section \<open>Column dimension\<close>

text \<open>Without stored vectors the column takes the dimension of the model.\<close>

lemma empty_column_is_altered:
  assumes "\<And>site T. pv_others E site 0 T = T" and "\<And>site. pv_fault E site 0 = None" and "dimension_of (pp_table s) \<noteq> None"
    and "\<forall>r\<in>set (vt_rows (pp_table s)). vr_embedding r = None" and "n < 2 ^ 32"
  shows "\<exists>s'. ensure_vector_dimension E n s = (Ok (), s') \<and> dimension_of (pp_table s') = Some n \<and>
    vt_rows (pp_table s') = vt_rows (pp_table s)"
proof -
  obtain d where d: "dimension_of (pp_table s) = Some d" using assms(3) by blast
  have "int n mod 2 ^ 32 = int n" using assms(5) by simp
  moreover have "filter (\<lambda>r. \<exists>y. vr_embedding r = Some y) (vt_rows (pp_table s)) = []" using assms(4) by (simp add: filter_empty_conv)
  ultimately show ?thesis using d assms(1,2)
    by (simp add: ensure_vector_dimension_def stored_embedding_dimension_def column_stmt_def) (auto simp: dimension_of_def)
qed

text \<open>
  A model whose dimension is not that of the stored vectors does no harm: the run fails at once with the
  mismatch, and it has claimed no row, changed no row and counted no failure, so that putting the model or the
  column right is enough to go on.
\<close>

theorem dimension_mismatch_claims_nothing:
  assumes "embed_config_from_settings st = Some config"
    and "and_then (resolve_download_host U dns (ec_endpoint config) False True) (embed_client_new U build_error config) = Inr c"
    and "\<forall>site T. pv_others E site 0 T = T" and "\<forall>site. pv_fault E site 0 = None"
    and "dimension_of (pp_table s) = Some d" and "d \<noteq> ec_dimension config"
    and "\<exists>r\<in>set (vt_rows (pp_table s)). vr_embedding r \<noteq> None"
  shows "run_pipeline fuel E B U dns build_error st zim (s, b)
     = Some (Done (Err (dimension_mismatch_error d (ec_dimension config))), s, b)"
proof -
  obtain p where p: "resolve_download_host U dns (ec_endpoint config) False True = Inr p" "embed_client_new U build_error config p = Inr c"
    using assms(2) by auto
  have "0 < length (filter (\<lambda>r. vr_embedding r \<noteq> None) (vt_rows (pp_table s)))" using assms(7) by (auto simp: filter_empty_conv)
  then have "ensure_vector_dimension E (ec_dimension config) s = (Ok (), s)"
    using assms(3-6) by (simp add: ensure_vector_dimension_def stored_embedding_dimension_def column_stmt_def)
  then have "prepare_pipeline E U dns build_error config s = (Err (dimension_mismatch_error d (ec_dimension config)), s)"
    using p assms(3-6) by (simp add: prepare_pipeline_def stored_embedding_dimension_def column_stmt_def)
  then show ?thesis using assms(1) by (simp add: run_pipeline_def)
qed

definition sample_embedded :: pipe_state where
  "sample_embedded = sample_pipe\<lparr>pp_table := sample_table\<lparr>vt_rows := [(sample_row 1)\<lparr>vr_embedding := Some ''[0,1,0]''\<rparr>], vt_typmod := Some 3\<rparr>\<rparr>"

theorem dimension_mismatch_claims_nothing_witness:
  "run_pipeline 0 (sample_pipe_env (\<lambda>_ _. answering)) sample_build_env public_urls (\<lambda>_ _. Err ''no'') None
      sample_embed_settings ''z'' (sample_embedded, sample_build)
   = Some (Done (Err (dimension_mismatch_error 3 2)), sample_embedded, sample_build)"
proof -
  have "and_then (resolve_download_host public_urls (\<lambda>_ _. Err ''no'') (ec_endpoint sample_embed_config) False True)
      (embed_client_new public_urls None sample_embed_config) = Inr sample_client"
    by code_simp
  then have "run_pipeline 0 (sample_pipe_env (\<lambda>_ _. answering)) sample_build_env public_urls (\<lambda>_ _. Err ''no'') None
      sample_embed_settings ''z'' (sample_embedded, sample_build)
   = Some (Done (Err (dimension_mismatch_error 3 (ec_dimension sample_embed_config))), sample_embedded, sample_build)"
    by (rule dimension_mismatch_claims_nothing [OF sample_embed_config])
      (simp_all add: sample_pipe_env_def sample_embedded_def sample_table_def dimension_of_def sample_embed_config_def)
  then show ?thesis by (simp add: sample_embed_config_def)
qed

text \<open>A batch size of \<open>2 ^ 63\<close> or more turns negative in the cast, and the database refuses the limit.\<close>

lemma wide_batch_is_refused:
  assumes "2 ^ 63 \<le> ec_batch_size (cl_config c)" and "ec_batch_size (cl_config c) < 2 ^ 64" and "ec_max_concurrency (cl_config c) \<le> 1"
  shows "claim_limit c < 0"
proof -
  have "(2::int) ^ 63 \<le> int (ec_batch_size (cl_config c))" "int (ec_batch_size (cl_config c)) < 2 ^ 64"
    using assms(1,2) by simp_all
  moreover have "max 1 (ec_batch_size (cl_config c)) = ec_batch_size (cl_config c)" using assms(1) by (simp add: max_def)
  ultimately show ?thesis
    using assms(3) by (simp add: claim_limit_def claim_limit_for_def batch_size_def permits_def i64_of_usize_def Let_def
      EMBED_CLAIM_LIMIT_CAP_def max_def)
qed

end
