(* ===== verification/EmbedLive.thy ===== *)
theory EmbedLive
  imports EmbedOutcome
begin

section \<open>A working endpoint embeds every new row\<close>

text \<open>Nobody else writes, statements succeed, every literal fits, and the endpoint answers every request in full.\<close>

definition all_up :: "pipe_env \<Rightarrow> embed_client \<Rightarrow> bool" where
  "all_up E c \<longleftrightarrow>
     (\<forall>site k T. pv_others E site k T = T) \<and> (\<forall>site k. pv_fault E site k = None) \<and> (\<forall>d l. pv_cast E d l = None) \<and>
     (\<forall>k texts. \<exists>vs. task_embeddings E c k texts = Done (Ok vs) \<and> length vs = length texts)"

text \<open>A row that has no embedding is unclaimed, one of \<open>D\<close>, claimed and not yet spawned, or in a running task.\<close>

definition accounted :: "string \<Rightarrow> int set \<Rightarrow> (int \<times> string) list \<Rightarrow> pipe_state \<Rightarrow> vec_row \<Rightarrow> bool" where
  "accounted zim D C s r \<longleftrightarrow>
     (unembedded zim (pp_table s) r \<longrightarrow>
        vr_embed_at r = None \<or> vr_id r \<in> D \<union> fst ` set C \<union> \<Union> ((\<lambda>t. set (tk_ids t)) ` set (pp_running s)))"

definition live_inv :: "string \<Rightarrow> int set \<Rightarrow> (int \<times> string) list \<Rightarrow> pipe_state \<Rightarrow> bool" where
  "live_inv zim D C s \<longleftrightarrow>
     (\<forall>r\<in>set (vt_rows (pp_table s)). accounted zim D C s r) \<and> pp_fails s = [] \<and> distinct (map vr_id (vt_rows (pp_table s))) \<and>
     (\<forall>t\<in>set (pp_running s). length (tk_ids t) = length (tk_texts t)) \<and> (\<forall>(_, r)\<in>set (pp_results s). r = Done (Ok ()))"

definition stamped_inv :: "string \<Rightarrow> pipe_state \<Rightarrow> bool" where
  "stamped_inv zim s \<longleftrightarrow>
     (\<forall>r\<in>set (vt_rows (pp_table s)). unembedded zim (pp_table s) r \<longrightarrow> vr_embed_at r \<noteq> None)"

lemma find_map_None: "(\<And>x. x \<in> set xs \<Longrightarrow> f x = None) \<Longrightarrow> find_map f xs = None"
  by (induction xs) auto

text \<open>How a task ends.\<close>

definition written :: "(int \<Rightarrow> string option) \<Rightarrow> int \<Rightarrow> string \<Rightarrow> vec_table \<Rightarrow> vec_table" where
  "written v now model T = T\<lparr>vt_rows := bulk_update now model v (vt_rows T)\<rparr>"

lemma up_run_task:
  assumes "all_up E c" and "length (tk_ids t) = length (tk_texts t)"
  obtains v now where "run_task E c t s = (Done (Ok ()), s\<lparr>pp_table := written v now (ec_model (cl_config c)) (pp_table s),
      pp_fails := record_batch_success (tk_ids t) (pp_fails s)\<rparr>)" "dom v = set (tk_ids t)"
proof -
  obtain vs where vs: "task_embeddings E c (tk_no t) (tk_texts t) = Done (Ok vs)" "length vs = length (tk_texts t)"
    using assms(1) unfolding all_up_def by blast
  define lits where "lits = zip (tk_ids t) (map (format_vector (pv_show_f32 E)) vs)"
  define now where "now = pv_now E ''write'' (tk_no t)"
  have w: "write_batch E model k ls T = (Ok (), T\<lparr>vt_rows := bulk_update (pv_now E ''write'' k) model (map_of ls) (vt_rows T)\<rparr>)" for model k ls T
    using assms(1) by (simp add: write_batch_def all_up_def find_map_None)
  have d: "dom (map_of lits) = set (tk_ids t)"
    using vs(2) assms(2) by (simp add: dom_map_of_conv_image_fst lits_def flip: set_map)
  show ?thesis
  proof (cases "tk_ids t = []")
    case False
    then have "run_task E c t s = (Done (Ok ()), s\<lparr>pp_table := written (map_of lits) now (ec_model (cl_config c)) (pp_table s),
        pp_fails := record_batch_success (tk_ids t) (pp_fails s)\<rparr>)"
      using vs assms(2) by (simp add: run_task_def store_guard_def bulk_update_sql_def w lits_def now_def written_def Let_def)
    then show ?thesis using d by (rule that)
  next
    case True
    have "written Map.empty now (ec_model (cl_config c)) (pp_table s) = pp_table s" by (simp add: written_def bulk_update_def)
    then have "run_task E c t s = (Done (Ok ()), s\<lparr>pp_table := written Map.empty now (ec_model (cl_config c)) (pp_table s),
        pp_fails := record_batch_success (tk_ids t) (pp_fails s)\<rparr>)"
      using vs True assms(2) by (simp add: run_task_def store_guard_def bulk_update_sql_def record_batch_success_def Let_def)
    then show ?thesis by (rule that) (simp add: True)
  qed
qed

lemma written_rows:
  assumes "r' \<in> set (vt_rows (written v now model T))" and "unembedded zim (written v now model T) r'"
  shows "r' \<in> set (vt_rows T) \<and> unembedded zim T r' \<and> vr_id r' \<notin> dom v"
  using assms by (force simp: written_def bulk_update_def unembedded_def split: option.splits)

lemma written_ids: "map vr_id (vt_rows (written v now model T)) = map vr_id (vt_rows T)"
  by (simp add: written_def bulk_update_def split: option.splits)

lemma up_end_task:
  assumes "all_up E c" and "pp_running s \<noteq> []" and "\<forall>t\<in>set (pp_running s). length (tk_ids t) = length (tk_texts t)"
  obtains as t bs v now where "pp_running s = as @ t # bs" "dom v = set (tk_ids t)"
    "end_task E c i s = s\<lparr>pp_table := written v now (ec_model (cl_config c)) (pp_table s),
       pp_fails := record_batch_success (tk_ids t) (pp_fails s), pp_running := as @ bs,
       pp_results := (tk_no t, Done (Ok ())) # pp_results s\<rparr>"
proof -
  define k where "k = i mod length (pp_running s)"
  define t where "t = pp_running s ! k"
  define s1 where "s1 = s\<lparr>pp_running := take k (pp_running s) @ drop (Suc k) (pp_running s)\<rparr>"
  have k: "k < length (pp_running s)" using assms(2) by (simp add: k_def)
  have len: "length (tk_ids t) = length (tk_texts t)" using assms(3) k by (simp add: t_def)
  obtain v now where r: "run_task E c t s1 = (Done (Ok ()), s1\<lparr>pp_table := written v now (ec_model (cl_config c)) (pp_table s1),
      pp_fails := record_batch_success (tk_ids t) (pp_fails s1)\<rparr>)" and d: "dom v = set (tk_ids t)"
    using up_run_task [OF assms(1) len] by blast
  show ?thesis
  proof (rule that [OF _ d])
    show "pp_running s = take k (pp_running s) @ t # drop (Suc k) (pp_running s)" unfolding t_def using k by (rule id_take_nth_drop)
    show "end_task E c i s = s\<lparr>pp_table := written v now (ec_model (cl_config c)) (pp_table s),
       pp_fails := record_batch_success (tk_ids t) (pp_fails s), pp_running := take k (pp_running s) @ drop (Suc k) (pp_running s),
       pp_results := (tk_no t, Done (Ok ())) # pp_results s\<rparr>"
      using assms(2) r by (simp add: end_task_def Let_def k_def t_def s1_def)
  qed
qed

lemma end_task_live:
  assumes "all_up E c" and "live_inv zim D C s"
  shows "live_inv zim D C (end_task E c i s)"
proof (cases "pp_running s = []")
  case False
  have len: "\<forall>t\<in>set (pp_running s). length (tk_ids t) = length (tk_texts t)" using assms(2) by (simp add: live_inv_def)
  obtain as t bs v now where e: "pp_running s = as @ t # bs" "dom v = set (tk_ids t)"
    "end_task E c i s = s\<lparr>pp_table := written v now (ec_model (cl_config c)) (pp_table s),
       pp_fails := record_batch_success (tk_ids t) (pp_fails s), pp_running := as @ bs,
       pp_results := (tk_no t, Done (Ok ())) # pp_results s\<rparr>"
    using up_end_task [OF assms(1) False len] by blast
  have "accounted zim D C (end_task E c i s) r'"
    if "r' \<in> set (vt_rows (pp_table (end_task E c i s)))" for r'
    unfolding accounted_def
  proof (intro impI)
    assume u: "unembedded zim (pp_table (end_task E c i s)) r'"
    have r: "r' \<in> set (vt_rows (pp_table s)) \<and> unembedded zim (pp_table s) r' \<and> vr_id r' \<notin> dom v"
      using written_rows [of r' v now "ec_model (cl_config c)" "pp_table s" zim] that u by (simp add: e(3))
    then have "accounted zim D C s r'" using assms(2) by (simp add: live_inv_def)
    then show "vr_embed_at r' = None \<or> vr_id r' \<in> D \<union> fst ` set C \<union> \<Union> ((\<lambda>t. set (tk_ids t)) ` set (pp_running (end_task E c i s)))"
      using r e(1,2) by (auto simp: accounted_def e(3))
  qed
  moreover have "record_batch_success (tk_ids t) [] = []" using record_success_keys [of "tk_ids t" "[]"] by simp
  ultimately show ?thesis using assms(2) e(1) by (auto simp: live_inv_def e(3) written_ids)
qed (use assms in \<open>simp add: end_task_def\<close>)

lemma end_task_stamped:
  assumes "all_up E c" and "stamped_inv zim s" and "\<forall>t\<in>set (pp_running s). length (tk_ids t) = length (tk_texts t)"
  shows "stamped_inv zim (end_task E c i s)"
proof (cases "pp_running s = []")
  case False
  obtain as t bs v now where "pp_running s = as @ t # bs" "dom v = set (tk_ids t)"
    and e: "end_task E c i s = s\<lparr>pp_table := written v now (ec_model (cl_config c)) (pp_table s),
       pp_fails := record_batch_success (tk_ids t) (pp_fails s), pp_running := as @ bs,
       pp_results := (tk_no t, Done (Ok ())) # pp_results s\<rparr>"
    using up_end_task [OF assms(1) False assms(3)] by blast
  show ?thesis unfolding stamped_inv_def
  proof (intro ballI impI)
    fix r' assume "r' \<in> set (vt_rows (pp_table (end_task E c i s)))" "unembedded zim (pp_table (end_task E c i s)) r'"
    then have "r' \<in> set (vt_rows (pp_table s)) \<and> unembedded zim (pp_table s) r'"
      using written_rows [of r' v now "ec_model (cl_config c)" "pp_table s" zim] by (simp add: e)
    then show "vr_embed_at r' \<noteq> None" using assms(2) by (simp add: stamped_inv_def)
  qed
qed (use assms in \<open>simp add: end_task_def\<close>)

subsection \<open>Claims\<close>

lemma claim_rows_of:
  assumes "claim_embed_batch zim now limit T = (C, T')" and "r' \<in> set (vt_rows T')"
  obtains r where "r \<in> set (vt_rows T)" "vr_id r' = vr_id r" "unembedded zim T' r' = unembedded zim T r"
    "r' = r \<and> vr_id r \<notin> fst ` set C \<or> vr_embed_at r' = Some now \<and> vr_id r \<in> fst ` set C"
proof -
  define ids where "ids = take limit (sort (map vr_id (filter (claimable zim now T) (vt_rows T))))"
  have C: "C = map (\<lambda>r. (vr_id r, embed_text r)) (filter (\<lambda>r. vr_id r \<in> set ids) (vt_rows T))"
    and T': "T' = T\<lparr>vt_rows := map (\<lambda>r. if vr_id r \<in> set ids then r\<lparr>vr_embed_at := Some now\<rparr> else r) (vt_rows T)\<rparr>"
    using assms(1) by (simp_all add: claim_embed_batch_def Let_def ids_def)
  obtain r where r: "r \<in> set (vt_rows T)" "r' = (if vr_id r \<in> set ids then r\<lparr>vr_embed_at := Some now\<rparr> else r)"
    using assms(2) by (auto simp: T')
  have "vr_id r \<in> fst ` set C \<longleftrightarrow> vr_id r \<in> set ids" using r(1) by (force simp: C)
  then show ?thesis using that [OF r(1)] r(2) by (auto simp: T' unembedded_def split: if_splits)
qed

lemma claim_live:
  assumes "live_inv zim D [] s" and "claim_embed_batch zim now limit (pp_table s) = (C, T)"
  shows "live_inv zim D C (s\<lparr>pp_table := T\<rparr>)"
proof -
  have "accounted zim D C (s\<lparr>pp_table := T\<rparr>) r'" if r': "r' \<in> set (vt_rows T)" for r'
  proof (rule claim_rows_of [OF assms(2) r'])
    fix r assume r: "r \<in> set (vt_rows (pp_table s))" "vr_id r' = vr_id r" "unembedded zim T r' = unembedded zim (pp_table s) r"
      "r' = r \<and> vr_id r \<notin> fst ` set C \<or> vr_embed_at r' = Some now \<and> vr_id r \<in> fst ` set C"
    have "accounted zim D [] s r" using assms(1) r(1) by (simp add: live_inv_def)
    then show ?thesis using r by (auto simp: accounted_def)
  qed
  moreover have "map vr_id (vt_rows T) = map vr_id (vt_rows (pp_table s))"
    using assms(2) by (auto simp: claim_embed_batch_def Let_def)
  ultimately show ?thesis using assms(1) by (simp add: live_inv_def)
qed

lemma claim_stamped:
  assumes "claim_embed_batch zim now limit T = (C, T')" and "r' \<in> set (vt_rows T')"
    and "unembedded zim T' r'" and "vr_embed_at r' = None"
  shows "r' \<in> set (vt_rows T) \<and> unembedded zim T r' \<and> vr_id r' \<notin> fst ` set C"
  using claim_rows_of [OF assms(1,2)] assms(3,4) by (metis option.distinct(1))

text \<open>A claim that is shorter than the limit leaves no unclaimed row.\<close>

lemma short_claim_stamps:
  assumes "claim_embed_batch zim now limit (pp_table s) = (C, T)" and "length C < limit" and "distinct (map vr_id (vt_rows (pp_table s)))"
  shows "stamped_inv zim (s\<lparr>pp_table := T\<rparr>)"
proof -
  let ?T = "pp_table s"
  define all where "all = map vr_id (filter (claimable zim now ?T) (vt_rows ?T))"
  define ids where "ids = take limit (sort all)"
  have C: "map fst C = map vr_id (filter (\<lambda>r. vr_id r \<in> set ids) (vt_rows ?T))"
    using assms(1) by (auto simp: claim_embed_batch_def Let_def ids_def all_def)
  have "distinct all" unfolding all_def using assms(3) by (simp add: distinct_map_filter)
  then have "card (set ids) = length ids" by (simp add: ids_def distinct_card distinct_take)
  moreover have "set ids \<subseteq> vr_id ` set (vt_rows ?T)" by (auto simp: ids_def all_def dest!: in_set_takeD)
  then have "set (map fst C) = set ids" by (auto simp: C)
  then have "card (set ids) \<le> length C" by (metis card_length length_map)
  ultimately have "length ids < limit" using assms(2) by simp
  then have "set ids = set all" by (simp add: ids_def min_def split: if_splits)
  then have cl: "fst ` set C = set all" using \<open>set (map fst C) = set ids\<close> by simp
  show ?thesis unfolding stamped_inv_def
  proof (intro ballI impI notI)
    fix r' assume r': "r' \<in> set (vt_rows (pp_table (s\<lparr>pp_table := T\<rparr>)))" "unembedded zim (pp_table (s\<lparr>pp_table := T\<rparr>)) r'"
      and n: "vr_embed_at r' = None"
    have "r' \<in> set (vt_rows ?T) \<and> unembedded zim ?T r' \<and> vr_id r' \<notin> fst ` set C"
      using claim_stamped [OF assms(1)] r' n by simp
    then show False unfolding cl all_def using n by (auto simp: claimable_def)
  qed
qed

lemma keeps_all_ids:
  assumes "filter_poisoned_ids n (map fst sub) [] = (r, m)"
  shows "m = []" and "filter (\<lambda>(i, _). i \<in> set (concat (case r of None \<Rightarrow> [] | Some kept \<Rightarrow> [kept]))) sub = sub"
proof -
  have "m = []" "r = (if map fst sub = [] then None else Some (map fst sub))"
    using assms by (auto simp: filter_poisoned_ids_def fail_count_def or_else_def POISON_FAIL_MAX_def Let_def split: if_splits)
  moreover have "filter (\<lambda>(i, _). i \<in> fst ` set sub) sub = sub" by (rule filter_True) force
  ultimately show "m = []" "filter (\<lambda>(i, _). i \<in> set (concat (case r of None \<Rightarrow> [] | Some kept \<Rightarrow> [kept]))) sub = sub" by auto
qed

lemma drop_live:
  assumes "live_inv zim D (sub @ C) s" and "filter_poisoned_ids n (map fst sub) (pp_fails s) = (r, m)"
  shows "live_inv zim D (filter (\<lambda>(i, _). i \<in> set (concat (case r of None \<Rightarrow> [] | Some kept \<Rightarrow> [kept]))) sub @ C) (s\<lparr>pp_fails := m\<rparr>)"
proof -
  have "pp_fails s = []" using assms(1) by (simp add: live_inv_def)
  note k = keeps_all_ids [OF assms(2) [unfolded this]]
  show ?thesis unfolding k(2) using assms(1) by (simp add: live_inv_def accounted_def k(1))
qed

interpretation live: pipe_invariant E c zim "\<lambda>C s. all_up E c \<longrightarrow> live_inv zim D C s" for E c zim D
proof
  fix C sub batch :: "(int \<times> string) list" and s :: pipe_state and i n k limit :: nat and now :: int and r m T
  let ?P = "\<lambda>C s. all_up E c \<longrightarrow> live_inv zim D C s"
  show "?P C s \<Longrightarrow> ?P C (s\<lparr>pp_step := n\<rparr>)" by (simp add: live_inv_def accounted_def)
  show "?P C s \<Longrightarrow> ?P C (end_task E c i s)" using end_task_live by blast
  show "?P [] s \<Longrightarrow> ?P [] (s\<lparr>pp_table := pv_others E ''claim'' k (pp_table s)\<rparr>)" by (simp add: all_up_def)
  show "?P [] s \<Longrightarrow> claim_embed_batch zim now limit (pp_table s) = (C, T) \<Longrightarrow> ?P C (s\<lparr>pp_table := T\<rparr>)"
    using claim_live by blast
  show "?P (sub @ C) s \<Longrightarrow> filter_poisoned_ids n (map fst sub) (pp_fails s) = (r, m) \<Longrightarrow>
      ?P (filter (\<lambda>(i, _). i \<in> set (concat (case r of None \<Rightarrow> [] | Some kept \<Rightarrow> [kept]))) sub @ C) (s\<lparr>pp_fails := m\<rparr>)"
    using drop_live by blast
  show "?P (batch @ C) s \<Longrightarrow> ?P C (spawn_task batch s)"
    by (auto simp: live_inv_def accounted_def spawn_task_def)
qed

interpretation stamped: pipe_invariant E c zim
    "\<lambda>C s. all_up E c \<longrightarrow> stamped_inv zim s \<and> (\<forall>t\<in>set (pp_running s). length (tk_ids t) = length (tk_texts t))" for E c zim
proof
  fix C sub batch :: "(int \<times> string) list" and s :: pipe_state and i n k limit :: nat and now :: int and r m T
  let ?P = "\<lambda>C s. all_up E c \<longrightarrow> stamped_inv zim s \<and> (\<forall>t\<in>set (pp_running s). length (tk_ids t) = length (tk_texts t))"
  show "?P C s \<Longrightarrow> ?P C (s\<lparr>pp_step := n\<rparr>)" by (simp add: stamped_inv_def)
  show "?P C s \<Longrightarrow> ?P C (end_task E c i s)"
  proof (cases "pp_running s = []")
    case False
    assume p: "?P C s"
    show ?thesis
    proof
      assume up: "all_up E c"
      then have len: "\<forall>t\<in>set (pp_running s). length (tk_ids t) = length (tk_texts t)" using p by blast
      obtain as t bs v now where e: "pp_running s = as @ t # bs" "dom v = set (tk_ids t)"
        "end_task E c i s = s\<lparr>pp_table := written v now (ec_model (cl_config c)) (pp_table s),
           pp_fails := record_batch_success (tk_ids t) (pp_fails s), pp_running := as @ bs,
           pp_results := (tk_no t, Done (Ok ())) # pp_results s\<rparr>"
        using up_end_task [OF up False len] by blast
      have "stamped_inv zim (end_task E c i s)" using end_task_stamped [OF up _ len] p up by blast
      moreover have "set (pp_running (end_task E c i s)) \<subseteq> set (pp_running s)" by (simp add: e(3)) (simp add: e(1) subset_iff)
      ultimately show "stamped_inv zim (end_task E c i s) \<and> (\<forall>t\<in>set (pp_running (end_task E c i s)). length (tk_ids t) = length (tk_texts t))"
        using len by blast
    qed
  qed (simp add: end_task_def)
  show "?P [] s \<Longrightarrow> ?P [] (s\<lparr>pp_table := pv_others E ''claim'' k (pp_table s)\<rparr>)" by (simp add: all_up_def)
  show "?P [] s \<Longrightarrow> claim_embed_batch zim now limit (pp_table s) = (C, T) \<Longrightarrow> ?P C (s\<lparr>pp_table := T\<rparr>)"
    using claim_stamped [of zim now limit "pp_table s" C T] by (auto simp: stamped_inv_def)
  show "?P (sub @ C) s \<Longrightarrow> filter_poisoned_ids n (map fst sub) (pp_fails s) = (r, m) \<Longrightarrow>
      ?P (filter (\<lambda>(i, _). i \<in> set (concat (case r of None \<Rightarrow> [] | Some kept \<Rightarrow> [kept]))) sub @ C) (s\<lparr>pp_fails := m\<rparr>)"
    by (simp add: stamped_inv_def)
  show "?P (batch @ C) s \<Longrightarrow> ?P C (spawn_task batch s)" by (auto simp: stamped_inv_def spawn_task_def)
qed

subsection \<open>The run\<close>

lemma chunks_nonempty: "sub \<in> set (chunks n xs) \<Longrightarrow> sub \<noteq> []"
  by (induction n xs rule: chunks.induct) auto

lemma up_spawns:
  assumes "live_inv zim D (sub @ C) s" and "sub \<noteq> []" and "spawn_batch E c sub s = (b, s')"
  shows b
proof -
  have f: "pp_fails s = []" using assms(1) by (simp add: live_inv_def)
  obtain r m where r: "filter_poisoned_ids (pv_foreign E (pp_step s)) (map fst sub) [] = (r, m)" by fastforce
  have "r = Some (map fst sub)"
    using r assms(2) by (auto simp: filter_poisoned_ids_def fail_count_def or_else_def POISON_FAIL_MAX_def Let_def split: if_splits)
  moreover have "filter (\<lambda>(i, _). i \<in> fst ` set sub) sub = sub" by (rule filter_True) force
  ultimately show ?thesis using assms(2,3) r by (simp add: spawn_batch_def f)
qed

lemma up_pass:
  assumes up: "all_up E c" and "0 < claim_limit c" and live: "live_inv zim D [] s" and "claim_pass E c zim s = (outcome, s')"
  shows "outcome = Again \<or> outcome = Stop \<and> stamped_inv zim s'"
proof -
  define s1 where "s1 = wait_point E c s"
  obtain C T where C: "claim_embed_batch zim (pv_now E ''claim'' (pp_step s1)) (nat (claim_limit c)) (pp_table s1) = (C, T)" by fastforce
  define s2 where "s2 = s1\<lparr>pp_table := T\<rparr>"
  have s1: "live_inv zim D [] s1" using live.waits [of E c zim D "[]" s] live up by (simp add: s1_def)
  then have s2: "live_inv zim D C s2" using claim_live C by (simp add: s2_def)
  have rows: "claim_rows E c zim s = (Inr C, s2)"
    using up assms(2) C by (simp add: claim_rows_def Let_def all_up_def s1_def s2_def)
  have short: "stamped_inv zim s2" if "int (length C) < claim_limit c"
    unfolding s2_def using short_claim_stamps [OF C] s1 that by (simp add: live_inv_def zless_nat_eq_int_zless)
  have len: "\<forall>t\<in>set (pp_running s2). length (tk_ids t) = length (tk_texts t)" using s2 by (simp add: live_inv_def)
  show ?thesis
  proof (cases C)
    case Nil
    then show ?thesis using assms(2,4) rows short by (simp add: claim_pass_def)
  next
    case (Cons x xs)
    obtain sub subs where ch: "chunks (batch_size c) C = sub # subs" using Cons by simp
    obtain b s3 where b: "spawn_batch E c sub s2 = (b, s3)" by fastforce
    have "sub \<noteq> []" using chunks_nonempty [of sub "batch_size c" C] ch by simp
    moreover have "live_inv zim D (sub @ concat subs) s2" using s2 concat_chunks [of "batch_size c" C] ch by simp
    ultimately have "b" using up_spawns b by blast
    obtain b' s4 where all: "spawn_batches E c (chunks (batch_size c) C) s2 = (b', s4)" by fastforce
    have "b'" using \<open>b\<close> all ch b by (auto split: prod.splits)
    then have o: "outcome = (if int (length C) < claim_limit c then Stop else Again)" "s' = s4"
      using assms(4) rows all Cons by (auto simp: claim_pass_def)
    have "stamped_inv zim s4" if "int (length C) < claim_limit c"
      using stamped.spawns_all [OF _ all, of zim] short [OF that] len up by blast
    then show ?thesis using o by auto
  qed
qed

lemma up_loop:
  assumes up: "all_up E c" and "0 < claim_limit c"
  shows "live_inv zim D [] s \<Longrightarrow> claim_loop fuel E c zim s = Some (r, s') \<Longrightarrow> r = Ok () \<and> stamped_inv zim s'"
proof (induction fuel arbitrary: s)
  case (Suc fuel)
  obtain outcome s1 where p: "claim_pass E c zim s = (outcome, s1)" by fastforce
  have "live_inv zim D [] s1" using live.passes [OF _ p, of D] Suc.prems(1) up by blast
  then show ?case using up_pass [OF assms Suc.prems(1) p] Suc.IH [of s1] Suc.prems(2) p by auto
qed simp

lemma drain_empties: "pp_running (drain_tasks E c s) = []"
proof -
  have "length (pp_running ((end_task E c 0 ^^ n) s)) = length (pp_running s) - n" for n s
    by (induction n) (simp_all add: end_task_running)
  then show ?thesis by (simp add: drain_tasks_def Let_def flip: length_0_conv)
qed

lemma up_no_error: "live_inv zim D C s \<Longrightarrow> first_error s = None"
proof -
  assume "live_inv zim D C s"
  then have d: "r = Done (Ok ())" if "map_of (pp_results s) k = Some r" for k r
    using map_of_SomeD [OF that] by (auto simp: live_inv_def)
  have "task_error (map_of (pp_results s) k) = None" for k
  proof (cases "map_of (pp_results s) k")
    case (Some r)
    then show ?thesis using d [OF Some] by (simp add: task_error_def)
  qed (simp add: task_error_def)
  then show ?thesis by (simp add: first_error_def find_map_None)
qed

lemma up_drained:
  assumes up: "all_up E c" and live: "live_inv zim D [] s" and st: "stamped_inv zim s"
  shows "open_ids zim (drain_tasks E c s) \<subseteq> D \<and> first_error (drain_tasks E c s) = None"
proof -
  define s' where "s' = drain_tasks E c s"
  have l: "live_inv zim D [] s'" using live.drains [of E c zim D "[]" s] live up by (simp add: s'_def)
  have len: "\<forall>t\<in>set (pp_running s). length (tk_ids t) = length (tk_texts t)" using live by (simp add: live_inv_def)
  have s: "stamped_inv zim s'" using stamped.drains [of E c zim s] st up len by (simp add: s'_def)
  have "vr_id r \<in> D" if "r \<in> set (vt_rows (pp_table s'))" "unembedded zim (pp_table s') r" for r
  proof -
    have "accounted zim D [] s' r" using l that(1) by (simp add: live_inv_def)
    moreover have "vr_embed_at r \<noteq> None" using s that by (simp add: stamped_inv_def)
    ultimately show ?thesis using that(2) drain_empties [of E c s] by (simp add: accounted_def s'_def)
  qed
  then show ?thesis using up_no_error [OF l] by (auto simp: open_ids_def unembedded_ids_def s'_def)
qed



end
