(* ===== verification/AutoEmbed.thy ===== *)
theory AutoEmbed
  imports EmbedPipeline "HOL-Library.Multiset"
begin

text \<open>
  The background loop of the embedding pipelines (\<open>src/embed/auto_loop.rs\<close>): one tick, from the list of archives
  with work over the early index build to the pipelines.

  What the pipelines of a tick do is their own model; here a pipeline is started and later joined, and the order
  in which the running ones end is a parameter. \<open>ORDER BY name\<close> is the byte order of the names. The handle of the early build says whether its task has ended.
\<close>

section \<open>State\<close>

record zim_flags =
  zf_name :: string
  zf_id :: int
  zf_embed_enabled :: bool
  zf_index_status :: string

record auto_state =
  au_zims :: "zim_flags list"
  au_rows :: "vec_row list"
  au_build :: build_state
  au_in_flight :: "bool option" \<comment> \<open>the handle of the early build and whether its task has ended\<close>

record auto_env =
  ae_settings :: settings_inner
  ae_list_fault :: "sqlx_error option"
  ae_build :: build_env \<comment> \<open>the probes of the tick\<close>
  ae_join :: "string list \<Rightarrow> nat" \<comment> \<open>which running pipeline ends next\<close>
  ae_outcome :: "string \<Rightarrow> (unit, error) result run"

definition list_embeddable_zims :: "sqlx_error option \<Rightarrow> auto_state \<Rightarrow> (string list, error) result" where
  "list_embeddable_zims fault s =
     (case fault of
        Some e \<Rightarrow> Err (Database e)
      | None \<Rightarrow>
          Ok (sort (map zf_name (filter (\<lambda>z. zf_embed_enabled z \<and> zf_index_status z = ''ready'' \<and>
                list_ex (\<lambda>r. vr_zim r = zf_id z \<and> vr_embedding r = None) (au_rows s)) (au_zims s)))))"

definition reap_completed_build :: "bool option \<Rightarrow> bool option" where
  "reap_completed_build h = (if h = Some True then None else h)"

section \<open>Early build\<close>

text \<open>The decision of a tick; the answer is whether the build is spawned.\<close>

definition maybe_early_build_index :: "build_env \<Rightarrow> bool option \<Rightarrow> build_state \<Rightarrow> bool \<times> build_state" where
  "maybe_early_build_index E in_flight s =
     (case index_build_prefilter E s of
        (Probe, s) \<Rightarrow>
          (case (case vector_index_state E s of
                   (Inr (n_rows, st), s) \<Rightarrow> ((n_rows, st), publish_vector_index_snapshot (be_now E ''publish'') n_rows st s)
                 | (Inl _, s) \<Rightarrow> ((0, Present), s)) of
             ((n_rows, st), s) \<Rightarrow>
               (\<not> build_probe_claimed_recently (be_now E ''gate'') (bs_probe s) \<and> should_spawn_build st n_rows \<and> in_flight = None, s))
      | (Skip estimate st, s) \<Rightarrow> (False, publish_vector_index_snapshot (be_now E ''publish'') estimate st s)
      | (SkipUnknown, s) \<Rightarrow> (False, s))"

text \<open>The spawned task: the build, or what it had done when the wait for it timed out, with the flag cleared.\<close>

definition early_build_task ::
  "build_env \<Rightarrow> settings_inner \<Rightarrow> (build_state \<Rightarrow> build_state) option \<Rightarrow> build_state \<Rightarrow> build_state" where
  "early_build_task E st timed_out s =
     (case timed_out of
        Some partial \<Rightarrow> (partial s)\<lparr>bs_building := False\<rparr>
      | None \<Rightarrow> snd (maybe_build_vector_index E st MIN_INDEX_BUILD_ROWS s))"

section \<open>Pipelines\<close>

definition EMBED_CONCURRENCY :: nat where "EMBED_CONCURRENCY = 2"

datatype pipeline_event = Started string | Joined string

definition join_pipeline :: "(string list \<Rightarrow> nat) \<Rightarrow> string list \<Rightarrow> string \<times> string list" where
  "join_pipeline pick running =
     (let k = pick running mod length running in (running ! k, take k running @ drop (Suc k) running))"

lemma join_pipeline_length: "running \<noteq> [] \<Longrightarrow> (n, rest) = join_pipeline pick running \<Longrightarrow> length rest < length running"
proof -
  assume a: "running \<noteq> []" "(n, rest) = join_pipeline pick running"
  define k where "k = pick running mod length running"
  have "k < length running" using a(1) by (simp add: k_def)
  moreover have "rest = take k running @ drop (Suc k) running" using a(2) by (simp add: join_pipeline_def k_def Let_def)
  ultimately show ?thesis by simp
qed

function join_all :: "(string list \<Rightarrow> nat) \<Rightarrow> string list \<Rightarrow> pipeline_event list" where
  "join_all pick running =
     (if running = [] then []
      else (case join_pipeline pick running of (n, rest) \<Rightarrow> Joined n # join_all pick rest))"
  by pat_completeness auto

termination join_all
  by (relation "measure (\<lambda>(_, running). length running)") (auto dest: join_pipeline_length)

declare join_all.simps [simp del]

fun run_embed_pipelines :: "(string list \<Rightarrow> nat) \<Rightarrow> string list \<Rightarrow> string list \<Rightarrow> pipeline_event list" where
  "run_embed_pipelines pick [] running = join_all pick running"
| "run_embed_pipelines pick (name # names) running =
     (if length running \<ge> EMBED_CONCURRENCY
      then (case join_pipeline pick running of
              (n, rest) \<Rightarrow> Joined n # Started name # run_embed_pipelines pick names (rest @ [name]))
      else Started name # run_embed_pipelines pick names (running @ [name]))"

text \<open>What is logged of the joined pipelines; the texts of panics are left out.\<close>

definition pipeline_log :: "(sqlx_error \<Rightarrow> string) \<Rightarrow> (string \<Rightarrow> (unit, error) result run) \<Rightarrow> pipeline_event list \<Rightarrow> string list" where
  "pipeline_log show_sqlx outcome evs =
     concat (map (\<lambda>e. case e of
         Started _ \<Rightarrow> []
       | Joined n \<Rightarrow>
           (case outcome n of
              Done (Inl e) \<Rightarrow> [''auto-embed failed for '' @ CHR 0x27 # n @ [CHR 0x27] @ '': '' @ error_display show_sqlx e]
            | Done (Inr _) \<Rightarrow> []
            | Panicked \<Rightarrow> [''auto-embed task panicked''])) evs)"

section \<open>Tick\<close>

definition auto_embed_tick :: "auto_env \<Rightarrow> auto_state \<Rightarrow> pipeline_event list \<times> auto_state" where
  "auto_embed_tick E s =
     (if \<not> embedding_enabled (ae_settings E) then ([], s)
      else let s = s\<lparr>au_in_flight := reap_completed_build (au_in_flight s)\<rparr>
           in case list_embeddable_zims (ae_list_fault E) s of
                Inl _ \<Rightarrow> ([], s)
              | Inr zims \<Rightarrow>
                  if zims = [] then ([], s)
                  else (case maybe_early_build_index (ae_build E) (au_in_flight s) (au_build s) of
                          (spawned, b) \<Rightarrow>
                            (run_embed_pipelines (ae_join E) zims [],
                             s\<lparr>au_build := b, au_in_flight := (if spawned then Some False else au_in_flight s)\<rparr>)))"

section \<open>Every archive gets its pipeline\<close>

fun started :: "pipeline_event list \<Rightarrow> string list" where
  "started [] = []"
| "started (Started n # evs) = n # started evs"
| "started (Joined _ # evs) = started evs"

fun joined :: "pipeline_event list \<Rightarrow> string list" where
  "joined [] = []"
| "joined (Joined n # evs) = n # joined evs"
| "joined (Started _ # evs) = joined evs"

lemma join_pipeline_mset:
  "running \<noteq> [] \<Longrightarrow> join_pipeline pick running = (n, rest) \<Longrightarrow> mset running = add_mset n (mset rest) \<and> length running = Suc (length rest)"
proof -
  assume a: "running \<noteq> []" "join_pipeline pick running = (n, rest)"
  define k where "k = pick running mod length running"
  have k: "k < length running" using a(1) by (simp add: k_def)
  have n: "n = running ! k" "rest = take k running @ drop (Suc k) running" using a(2) by (auto simp: join_pipeline_def k_def Let_def)
  have "running = take k running @ n # drop (Suc k) running" using id_take_nth_drop [OF k] n(1) by simp
  then have "mset running = mset (take k running @ n # drop (Suc k) running)" by (rule arg_cong)
  then have m: "mset running = add_mset n (mset rest)" by (simp add: n(2))
  have "length running = Suc (length rest)" using k by (simp add: n(2))
  then show ?thesis using m by simp
qed

lemma join_all_events:
  "started (join_all pick running) = [] \<and> mset (joined (join_all pick running)) = mset running"
proof (induction pick running rule: join_all.induct)
  case (1 pick running)
  show ?case
  proof (cases "running = []")
    case True
    then show ?thesis by (simp add: join_all.simps)
  next
    case False
    obtain n rest where j: "join_pipeline pick running = (n, rest)" by fastforce
    show ?thesis using 1 [OF False j [symmetric]] join_pipeline_mset [OF False j] False j by (subst (1 2) join_all.simps) simp
  qed
qed

lemma run_pipelines_events:
  "started (run_embed_pipelines pick names running) = names \<and>
   mset (joined (run_embed_pipelines pick names running)) = mset names + mset running"
proof (induction names arbitrary: running)
  case Nil
  then show ?case by (simp add: join_all_events)
next
  case (Cons name names)
  show ?case
  proof (cases "length running \<ge> EMBED_CONCURRENCY")
    case False
    then show ?thesis using Cons.IH [of "running @ [name]"] by simp
  next
    case True
    then have ne: "running \<noteq> []" by (auto simp: EMBED_CONCURRENCY_def)
    obtain n rest where j: "join_pipeline pick running = (n, rest)" by fastforce
    show ?thesis using Cons.IH [of "rest @ [name]"] join_pipeline_mset [OF ne j] True j by simp
  qed
qed

text \<open>How many run after each event, starting from \<open>k\<close>; \<open>None\<close> when a join finds nobody.\<close>

fun peak :: "nat \<Rightarrow> pipeline_event list \<Rightarrow> nat option" where
  "peak k [] = Some k"
| "peak k (Started _ # evs) = map_option (max (Suc k)) (peak (Suc k) evs)"
| "peak k (Joined _ # evs) = (if k = 0 then None else map_option (max k) (peak (k - 1) evs))"

lemma join_all_peak: "peak (length running) (join_all pick running) = Some (length running)"
proof (induction pick running rule: join_all.induct)
  case (1 pick running)
  show ?case
  proof (cases "running = []")
    case True
    then show ?thesis by (simp add: join_all.simps)
  next
    case False
    obtain n rest where j: "join_pipeline pick running = (n, rest)" by fastforce
    have l: "length running = Suc (length rest)" using join_pipeline_mset [OF False j] by simp
    have "join_all pick running = Joined n # join_all pick rest" using False j by (subst join_all.simps) simp
    then show ?thesis using 1 [OF False j [symmetric]] l by simp
  qed
qed

lemma run_pipelines_peak:
  "length running \<le> EMBED_CONCURRENCY \<Longrightarrow> \<exists>m\<le>EMBED_CONCURRENCY. peak (length running) (run_embed_pipelines pick names running) = Some m"
proof (induction names arbitrary: running)
  case Nil
  then show ?case using join_all_peak by auto
next
  case (Cons name names)
  show ?case
  proof (cases "length running \<ge> EMBED_CONCURRENCY")
    case False
    then obtain m where "m \<le> EMBED_CONCURRENCY" "peak (Suc (length running)) (run_embed_pipelines pick names (running @ [name])) = Some m"
      using Cons.IH [of "running @ [name]"] by auto
    then show ?thesis using False by auto
  next
    case True
    then have ne: "running \<noteq> []" by (auto simp: EMBED_CONCURRENCY_def)
    obtain n rest where j: "join_pipeline pick running = (n, rest)" by fastforce
    have l: "length running = Suc (length rest)" using join_pipeline_mset [OF ne j] by simp
    then obtain m where "m \<le> EMBED_CONCURRENCY" "peak (Suc (length rest)) (run_embed_pipelines pick names (rest @ [name])) = Some m"
      using Cons.IH [of "rest @ [name]"] Cons.prems by auto
    then show ?thesis using True j l Cons.prems by auto
  qed
qed

text \<open>
  A tick with embedding enabled and a readable list gives every archive that is ready, enabled and has a row
  without an embedding exactly one pipeline, in the order of the names, and waits for each of them; at most two run
  at a time. A pipeline that fails or panics does not keep the others from running.
\<close>

theorem tick_runs_every_pipeline:
  assumes "embedding_enabled (ae_settings E)" and "ae_list_fault E = None" and "auto_embed_tick E s = (evs, s')"
  shows "started evs = sort (map zf_name (filter (\<lambda>z. zf_embed_enabled z \<and> zf_index_status z = ''ready'' \<and>
       (\<exists>r\<in>set (au_rows s). vr_zim r = zf_id z \<and> vr_embedding r = None)) (au_zims s))) \<and>
     mset (joined evs) = mset (started evs) \<and> (\<exists>m\<le>2. peak 0 evs = Some m)"
proof -
  define zims where "zims = sort (map zf_name (filter (\<lambda>z. zf_embed_enabled z \<and> zf_index_status z = ''ready'' \<and>
       (\<exists>r\<in>set (au_rows s). vr_zim r = zf_id z \<and> vr_embedding r = None)) (au_zims s)))"
  have "list_embeddable_zims None s = Ok zims" "list_embeddable_zims None (s\<lparr>au_in_flight := h\<rparr>) = Ok zims" for h
    by (simp_all add: list_embeddable_zims_def list_ex_iff zims_def)
  then have "evs = (if zims = [] then [] else run_embed_pipelines (ae_join E) zims [])"
    using assms by (auto simp: auto_embed_tick_def Let_def split: prod.splits if_splits)
  moreover have "run_embed_pipelines pick [] [] = []" for pick by (simp add: join_all.simps)
  ultimately have e: "evs = run_embed_pipelines (ae_join E) zims []" by auto
  show ?thesis using run_pipelines_events [of "ae_join E" zims "[]"] run_pipelines_peak [of "[]" "ae_join E" zims]
    by (simp add: e zims_def EMBED_CONCURRENCY_def)
qed

definition sample_auto :: auto_state where
  "sample_auto =
     \<lparr>au_zims = [\<lparr>zf_name = ''c'', zf_id = 1, zf_embed_enabled = True, zf_index_status = ''ready''\<rparr>,
                \<lparr>zf_name = ''a'', zf_id = 1, zf_embed_enabled = True, zf_index_status = ''ready''\<rparr>,
                \<lparr>zf_name = ''b'', zf_id = 1, zf_embed_enabled = True, zf_index_status = ''ready''\<rparr>,
                \<lparr>zf_name = ''d'', zf_id = 1, zf_embed_enabled = True, zf_index_status = ''indexing''\<rparr>],
      au_rows = [\<lparr>vr_id = 5, vr_zim = 1, vr_snippet = None, vr_preview = None, vr_embedding = None, vr_model = None, vr_embed_at = None\<rparr>],
      au_build = sample_build, au_in_flight = Some True\<rparr>"

definition sample_auto_env :: auto_env where
  "sample_auto_env = \<lparr>ae_settings = fresh_settings None [] Map.empty [KEY_EMBEDDING_ENABLED \<mapsto> JBool True], ae_list_fault = None,
     ae_build = sample_build_env, ae_join = (\<lambda>_. 0), ae_outcome = (\<lambda>_. Panicked)\<rparr>"

theorem tick_runs_every_pipeline_witness:
  "started (fst (auto_embed_tick sample_auto_env sample_auto)) = [''a'', ''b'', ''c'']"
proof -
  have "embedding_enabled (ae_settings sample_auto_env)"
    by (simp add: sample_auto_env_def fresh_settings_def embedding_enabled_def get_typed_def get_setting_def from_value_bool_def key_defs)
  moreover have "ae_list_fault sample_auto_env = None" by (simp add: sample_auto_env_def)
  moreover have "sort [''c'', ''a'', ''b''] = [''a'', ''b'', ''c'']" by code_simp
  ultimately show ?thesis
    using tick_runs_every_pipeline [of sample_auto_env sample_auto "fst (auto_embed_tick sample_auto_env sample_auto)"
        "snd (auto_embed_tick sample_auto_env sample_auto)"]
    by (simp add: sample_auto_def)
qed

end
