(* ===== verification/Guards.thy ===== *)
theory Guards
  imports Articles
begin

text \<open>
  The single-instance guards (\<open>src/startup/guards.rs\<close>): the advisory lock of the database, the lock file of the
  library directory, the monitor of the lock's connection, and the choice of guards at the start of \<open>serve\<close>
  (\<open>src/main.rs\<close>).

  The operations are first given for one process whose steps nobody interrupts, over the holder of the advisory
  lock and the text of the lock file; then the same steps are a relation on many processes, in which connections
  can be lost and processes can crash at any time.
\<close>

section \<open>Lock file\<close>

record os_ops =
  os_kill :: "int \<Rightarrow> int option" \<comment> \<open>\<open>kill(pid, 0)\<close>: nothing, or the error number\<close>
  os_comm :: "nat \<Rightarrow> string option" \<comment> \<open>\<open>/proc/<pid>/comm\<close>, when it can be read\<close>

definition ESRCH :: int where "ESRCH = 3"

text \<open>\<open>as pid_t\<close> of a \<open>u32\<close>.\<close>

definition pid_t_of :: "nat \<Rightarrow> int" where
  "pid_t_of pid = (if pid < 2 ^ 31 then int pid else int pid - 2 ^ 32)"

definition pid_is_alive :: "os_ops \<Rightarrow> nat \<Rightarrow> bool" where
  "pid_is_alive os pid = (case os_kill os (pid_t_of pid) of None \<Rightarrow> True | Some e \<Rightarrow> e \<noteq> ESRCH)"

definition pid_lock_holder_is_zimservice :: "os_ops \<Rightarrow> nat \<Rightarrow> bool" where
  "pid_lock_holder_is_zimservice os pid =
     (case os_comm os pid of
        Some comm \<Rightarrow> trim comm = ''zimservice'' \<or> starts_with (trim comm) ''zimservice-''
      | None \<Rightarrow> True)"

definition nth_line :: "nat \<Rightarrow> string \<Rightarrow> string option" where
  "nth_line n s = (if n < length (str_lines s) then Some (str_lines s ! n) else None)"

definition lock_pid :: "string \<Rightarrow> nat" where
  "lock_pid text = (case Option.bind (nth_line 0 text) (\<lambda>l. parse_unsigned 32 (trim l)) of Some p \<Rightarrow> p | None \<Rightarrow> 0)"

definition lock_created :: "string \<Rightarrow> nat option" where
  "lock_created text = Option.bind (nth_line 1 text) (\<lambda>l. parse_unsigned 64 (trim l))"

definition lock_text :: "nat \<Rightarrow> nat \<Rightarrow> string" where
  "lock_text pid created = decimal_digits pid @ [CHR 0x0A] @ decimal_digits created @ [CHR 0x0A]"

text \<open>Whether the file of a live instance stops the start.\<close>

definition lock_refuses :: "os_ops \<Rightarrow> string \<Rightarrow> bool" where
  "lock_refuses os text \<longleftrightarrow>
     lock_pid text \<noteq> 0 \<and> pid_is_alive os (lock_pid text) \<and> pid_lock_holder_is_zimservice os (lock_pid text)"

definition refusal :: "string \<Rightarrow> string \<Rightarrow> string \<Rightarrow> string" where
  "refusal zim_dir path text =
     ''another zimservice instance (PID '' @ decimal_digits (lock_pid text)
     @ (case lock_created text of Some ts \<Rightarrow> '' (lock created at unix '' @ decimal_digits ts @ '')'' | None \<Rightarrow> [])
     @ '') is using this zim_dir ('' @ zim_dir @ '') '' @ bytes_str [0xE2, 0x80, 0x94]
     @ '' stopping. Stop the other instance, or delete '' @ path @ '' if it is stale.''"

record lock_world =
  lw_advisory :: "nat option" \<comment> \<open>the process whose connection holds the lock of the database\<close>
  lw_file :: "string option"

record lock_env =
  le_os :: os_ops
  le_pid :: nat
  le_now :: nat
  le_zim_dir :: string
  le_read :: bool \<comment> \<open>the existing file can be read\<close>
  le_remove :: "string option"
  le_open :: "string option"
  le_write :: "string \<Rightarrow> string" \<comment> \<open>what of the text reaches the file; failures to write are ignored\<close>
  le_others :: "string option \<Rightarrow> string option" \<comment> \<open>what happens to the file between the check and the creation\<close>
  le_connect :: "string option"
  le_query :: "(bool option, string) result" \<comment> \<open>an error of the lock query, or what stands in for a missing row\<close>
  le_holder :: "nat option" \<comment> \<open>the holder the catalog names\<close>

definition zim_dir_lock_path :: "lock_env \<Rightarrow> string" where
  "zim_dir_lock_path E = le_zim_dir E @ ''/.zimservice.lock''"

definition acquire_zim_dir_pid_lock :: "lock_env \<Rightarrow> string option \<Rightarrow> (string, string) result \<times> string option" where
  "acquire_zim_dir_pid_lock E existing =
     (let path = zim_dir_lock_path E;
          create = (\<lambda>f. let f = le_others E f
                        in case le_open E of
                             Some e \<Rightarrow> (Err (''create lock file '' @ path @ '': '' @ e), f)
                           | None \<Rightarrow>
                               if f \<noteq> None then (Err (''create lock file '' @ path @ '': File exists''), f)
                               else (Ok path, Some (le_write E (lock_text (le_pid E) (le_now E)))))
      in case existing of
           None \<Rightarrow> create None
         | Some t \<Rightarrow>
             (let text = (if le_read E then t else [])
              in if lock_refuses (le_os E) text then (Err (refusal (le_zim_dir E) path text), existing)
                 else (case le_remove E of
                         Some e \<Rightarrow> (Err (''remove stale lock file: '' @ e), existing)
                       | None \<Rightarrow> create None)))"

section \<open>Guards\<close>

definition multi_instance_allowed :: "(string \<Rightarrow> string option) \<Rightarrow> bool" where
  "multi_instance_allowed env \<longleftrightarrow> env ''ZIMSERVICE_ALLOW_MULTI_INSTANCE'' = Some ''1''"

definition multi_db_allowed :: "(string \<Rightarrow> string option) \<Rightarrow> bool" where
  "multi_db_allowed env \<longleftrightarrow> env ''ZIMSERVICE_ALLOW_MULTI_DB'' = Some ''1''"

text \<open>\<open>connect_and_try_instance_lock\<close>: the lock is taken when no other session holds it.\<close>

definition connect_and_try_instance_lock :: "lock_env \<Rightarrow> lock_world \<Rightarrow> (bool, string) result \<times> lock_world" where
  "connect_and_try_instance_lock E w =
     (case le_connect E of
        Some e \<Rightarrow> (Err (''advisory-lock connect: '' @ e), w)
      | None \<Rightarrow>
          (case le_query E of
             Inl e \<Rightarrow> (Err (''advisory lock: '' @ e), w)
           | Inr None \<Rightarrow> (Ok False, w)
           | Inr (Some _) \<Rightarrow>
               if lw_advisory w = None then (Ok True, w\<lparr>lw_advisory := Some (le_pid E)\<rparr>) else (Ok False, w)))"

text \<open>Dropping the connection releases the lock it holds.\<close>

definition drop_connection :: "lock_env \<Rightarrow> lock_world \<Rightarrow> lock_world" where
  "drop_connection E w = (if lw_advisory w = Some (le_pid E) then w\<lparr>lw_advisory := None\<rparr> else w)"

definition try_acquire_advisory_lock :: "lock_env \<Rightarrow> lock_world \<Rightarrow> (bool, string) result \<times> lock_world" where
  "try_acquire_advisory_lock E w = connect_and_try_instance_lock E w"

record single_instance_guard =
  sg_lock_task :: bool
  sg_lock_path :: "string option"

definition advisory_lock_held :: "single_instance_guard \<Rightarrow> bool" where
  "advisory_lock_held g = sg_lock_task g"

definition pid_lock_then :: "lock_env \<Rightarrow> bool \<Rightarrow> lock_world \<Rightarrow> (single_instance_guard, string) result \<times> lock_world" where
  "pid_lock_then E held w =
     (case acquire_zim_dir_pid_lock E (lw_file w) of
        (Inl e, f) \<Rightarrow> (Err e, drop_connection E (w\<lparr>lw_file := f\<rparr>))
      | (Inr path, f) \<Rightarrow> (Ok \<lparr>sg_lock_task = held, sg_lock_path = Some path\<rparr>, w\<lparr>lw_file := f\<rparr>))"

definition acquire_instance_guard ::
  "lock_env \<Rightarrow> lock_world \<Rightarrow> (single_instance_guard option, string) result \<times> lock_world" where
  "acquire_instance_guard E w =
     (case try_acquire_advisory_lock E w of
        (Inl e, w) \<Rightarrow> (Err e, w)
      | (Inr False, w) \<Rightarrow> (Ok None, w)
      | (Inr True, w) \<Rightarrow> (case pid_lock_then E True w of (r, w) \<Rightarrow> (map_sum id Some r, w)))"

definition acquire_instance_guard_multi_db ::
  "lock_env \<Rightarrow> lock_world \<Rightarrow> (single_instance_guard, string) result \<times> lock_world" where
  "acquire_instance_guard_multi_db E w =
     (case try_acquire_advisory_lock E w of
        (Inl e, w) \<Rightarrow> (Err e, w)
      | (Inr held, w) \<Rightarrow> pid_lock_then E held w)"

definition drop_guard :: "lock_env \<Rightarrow> single_instance_guard \<Rightarrow> bool \<Rightarrow> lock_world \<Rightarrow> lock_world" where
  "drop_guard E g removable w =
     (let w = (if sg_lock_task g then drop_connection E w else w)
      in if sg_lock_path g \<noteq> None \<and> removable then w\<lparr>lw_file := None\<rparr> else w)"

definition ALREADY_HELD :: string where
  "ALREADY_HELD = ''another zimservice instance already holds the single-process advisory lock for this database. ''
     @ ''A second `serve` would corrupt the shared in-process caches (settings, rate limiter, qBittorrent client, ZIM LRU). ''
     @ ''Stop the other instance, or set ZIMSERVICE_ALLOW_MULTI_DB=1 if you deliberately run a different-database deployment ''
     @ ''on a shared zim_dir, or ZIMSERVICE_ALLOW_MULTI_INSTANCE=1 to disable all guards (not recommended).''"

text \<open>The choice at the start of \<open>cmd_serve\<close>.\<close>

definition serve_guard ::
  "(string \<Rightarrow> string option) \<Rightarrow> bool \<Rightarrow> lock_env \<Rightarrow> lock_world \<Rightarrow> (single_instance_guard option, string) result \<times> lock_world" where
  "serve_guard env config_multi_db E w =
     (if multi_instance_allowed env then (Ok None, w)
      else if config_multi_db then (case acquire_instance_guard_multi_db E w of (r, w) \<Rightarrow> (map_sum id Some r, w))
      else (case acquire_instance_guard E w of
              (Inr None, w) \<Rightarrow> (Err ALREADY_HELD, w)
            | (r, w) \<Rightarrow> (r, w)))"

definition mutating_refusal :: "nat option \<Rightarrow> string" where
  "mutating_refusal holder =
     ''another zimservice instance ('' @ (case holder of
          Some p \<Rightarrow> ''advisory lock held by pid '' @ decimal_digits p
        | None \<Rightarrow> ''advisory lock held by another process'') @ '') is already using this database. A running server keeps its ZIM catalog (metadata, article counts, index/embed status) ''
     @ ''in memory, and this command's writes would race it '' @ bytes_str [0xE2, 0x80, 0x94]
     @ '' several of them (index/embed status updates) are not cache-invalidation sources, so the server would keep serving ''
     @ ''its stale copy. Stop the server and re-run this command, use a different DATABASE_URL, or set ''
     @ ''ZIMSERVICE_ALLOW_MULTI_INSTANCE=1 to override (not recommended).''"

definition acquire_mutating_guard :: "(string \<Rightarrow> string option) \<Rightarrow> lock_env \<Rightarrow> lock_world \<Rightarrow> (bool, string) result \<times> lock_world" where
  "acquire_mutating_guard env E w =
     (if multi_instance_allowed env then (Ok False, w)
      else (case connect_and_try_instance_lock E w of
              (Inl e, w) \<Rightarrow> (Err e, w)
            | (Inr False, w) \<Rightarrow> (Err (mutating_refusal (le_holder E)), drop_connection E w)
            | (Inr True, w) \<Rightarrow> (Ok True, w)))"

text \<open>The monitor: the reason with which the loss is reported, after the probes before it.\<close>

datatype lock_probe = ProbeOk | ProbeHung | ProbeFailed string

fun detect_advisory_lock_loss :: "lock_probe list \<Rightarrow> string option" where
  "detect_advisory_lock_loss [] = None"
| "detect_advisory_lock_loss (ProbeOk # more_probes) = detect_advisory_lock_loss more_probes"
| "detect_advisory_lock_loss (ProbeHung # _) =
     Some (''advisory-lock liveness probe made no progress within 30s '' @ bytes_str [0xE2, 0x80, 0x94]
       @ '' treating the lock connection as lost'')"
| "detect_advisory_lock_loss (ProbeFailed e # _) = Some (''advisory-lock connection dropped: '' @ e)"

section \<open>Many processes\<close>

text \<open>
  The place of a process in its start; the flag is whether it took the advisory lock. The lock file is an inode
  with its text: the text is written through the handle that created it, also when the name has been unlinked.
\<close>

datatype guard_pc =
    Starting
  | Checking bool
  | Removing bool
  | Creating bool
  | Writing bool nat
  | Serving bool

record proc =
  pr_db :: nat
  pr_multi_db :: bool
  pr_pc :: guard_pc
  pr_lost :: bool \<comment> \<open>the connection of the lock is gone, noticed or not\<close>

record instances =
  in_advisory :: "nat \<Rightarrow> nat option" \<comment> \<open>by database\<close>
  in_file :: "(nat \<times> string) option"
  in_inodes :: nat
  in_procs :: "nat \<Rightarrow> proc option" \<comment> \<open>by process id\<close>

definition inst_start :: instances where
  "inst_start = \<lparr>in_advisory = (\<lambda>_. None), in_file = None, in_inodes = 0, in_procs = (\<lambda>_. None)\<rparr>"

text \<open>The system calls as the processes of the model see each other.\<close>

definition procs_os :: "instances \<Rightarrow> os_ops" where
  "procs_os s = \<lparr>os_kill = (\<lambda>p. if 0 \<le> p \<and> in_procs s (nat p) \<noteq> None then None else Some ESRCH),
     os_comm = (\<lambda>p. if in_procs s p \<noteq> None then Some ''zimservice'' else None)\<rparr>"

definition pid_ok :: "nat \<Rightarrow> bool" where
  "pid_ok p \<longleftrightarrow> 0 < p \<and> p < 2 ^ 31"

definition goto :: "nat \<Rightarrow> guard_pc \<Rightarrow> instances \<Rightarrow> instances" where
  "goto p pc s = s\<lparr>in_procs := (in_procs s)(p := map_option (\<lambda>a. a\<lparr>pr_pc := pc\<rparr>) (in_procs s p))\<rparr>"

text \<open>The end of a process closes its connection.\<close>

definition quit :: "nat \<Rightarrow> instances \<Rightarrow> instances" where
  "quit p s = s\<lparr>in_advisory := (\<lambda>d. if in_advisory s d = Some p then None else in_advisory s d), in_procs := (in_procs s)(p := None)\<rparr>"

inductive inst_step :: "instances \<Rightarrow> instances \<Rightarrow> bool" where
  spawn: "in_procs s p = None \<Longrightarrow> pid_ok p \<Longrightarrow>
    inst_step s (s\<lparr>in_procs := (in_procs s)(p \<mapsto> \<lparr>pr_db = d, pr_multi_db = multi, pr_pc = Starting, pr_lost = False\<rparr>)\<rparr>)"
| lock: "in_procs s p = Some a \<Longrightarrow> pr_pc a = Starting \<Longrightarrow> in_advisory s (pr_db a) = None \<Longrightarrow>
    inst_step s (goto p (Checking True) (s\<lparr>in_advisory := (in_advisory s)(pr_db a \<mapsto> p)\<rparr>))"
| held: "in_procs s p = Some a \<Longrightarrow> pr_pc a = Starting \<Longrightarrow> in_advisory s (pr_db a) \<noteq> None \<Longrightarrow>
    inst_step s (if pr_multi_db a then goto p (Checking False) s else quit p s)"
| absent: "in_procs s p = Some a \<Longrightarrow> pr_pc a = Checking h \<Longrightarrow> in_file s = None \<Longrightarrow> inst_step s (goto p (Creating h) s)"
| check: "in_procs s p = Some a \<Longrightarrow> pr_pc a = Checking h \<Longrightarrow> in_file s = Some (i, text) \<Longrightarrow>
    inst_step s (if lock_refuses (procs_os s) text then quit p s else goto p (Removing h) s)"
| remove: "in_procs s p = Some a \<Longrightarrow> pr_pc a = Removing h \<Longrightarrow>
    inst_step s (if in_file s = None then quit p s else goto p (Creating h) (s\<lparr>in_file := None\<rparr>))"
| create: "in_procs s p = Some a \<Longrightarrow> pr_pc a = Creating h \<Longrightarrow>
    inst_step s (if in_file s \<noteq> None then quit p s
      else goto p (Writing h (in_inodes s)) (s\<lparr>in_file := Some (in_inodes s, []), in_inodes := Suc (in_inodes s)\<rparr>))"
| record_pid: "in_procs s p = Some a \<Longrightarrow> pr_pc a = Writing h i \<Longrightarrow>
    inst_step s (goto p (Serving h)
      (s\<lparr>in_file := map_option (\<lambda>(j, text). (j, if j = i then lock_text p now else text)) (in_file s)\<rparr>))"
| record_failed: "in_procs s p = Some a \<Longrightarrow> pr_pc a = Writing h i \<Longrightarrow> inst_step s (goto p (Serving h) s)"
| lost: "in_procs s p = Some a \<Longrightarrow> in_advisory s (pr_db a) = Some p \<Longrightarrow>
    inst_step s (s\<lparr>in_advisory := (in_advisory s)(pr_db a := None), in_procs := (in_procs s)(p \<mapsto> a\<lparr>pr_lost := True\<rparr>)\<rparr>)"
| shutdown: "in_procs s p = Some a \<Longrightarrow> pr_pc a = Serving h \<Longrightarrow> inst_step s (quit p (s\<lparr>in_file := None\<rparr>))"
| crash: "in_procs s p = Some a \<Longrightarrow> inst_step s (quit p s)"

section \<open>Lock file round trip\<close>

lemma digits_no_newline: "CHR 0x0A \<notin> set (decimal_digits n)" "CHR 0x0D \<notin> set (decimal_digits n)"
  using decimal_digits_props [of n] by (auto simp: list_all_iff is_ascii_digit_def ascii_def)

lemma digits_no_cr: "\<not> (decimal_digits n \<noteq> [] \<and> last (decimal_digits n) = CHR 0x0D)"
  using digits_no_newline(2) [of n] last_in_set by metis

lemma lock_text_lines: "str_lines (lock_text p t) = [decimal_digits p, decimal_digits t]"
proof -
  have "split_on CHR 0x0A (lock_text p t) = [decimal_digits p, decimal_digits t, []]"
    using split_on_append [of "CHR 0x0A" "decimal_digits p" "decimal_digits t @ [CHR 0x0A]"]
      split_on_append [of "CHR 0x0A" "decimal_digits t" "[]"] digits_no_newline
    by (simp add: lock_text_def split_on_absent)
  then show ?thesis using digits_no_cr [of p] digits_no_cr [of t] by (auto simp: str_lines_def)
qed

lemma lock_text_pid: "p < 2 ^ 32 \<Longrightarrow> lock_pid (lock_text p t) = p"
  by (simp add: lock_pid_def nth_line_def lock_text_lines digits_trim parse_decimal)

lemma lock_text_created: "t < 2 ^ 64 \<Longrightarrow> lock_created (lock_text p t) = Some t"
  by (simp add: lock_created_def nth_line_def lock_text_lines digits_trim parse_decimal)

text \<open>An empty file, as between creation and write, has no holder.\<close>

lemma empty_lock_pid: "lock_pid [] = 0"
  by (simp add: lock_pid_def nth_line_def str_lines_def)

section \<open>One server per database\<close>

definition holds :: "guard_pc \<Rightarrow> bool" where
  "holds pc = (case pc of Starting \<Rightarrow> False | Checking h \<Rightarrow> h | Removing h \<Rightarrow> h | Creating h \<Rightarrow> h | Writing h _ \<Rightarrow> h | Serving h \<Rightarrow> h)"

definition past_lock :: "guard_pc \<Rightarrow> bool" where
  "past_lock pc \<longleftrightarrow> pc \<noteq> Starting"

definition inst_inv :: "instances \<Rightarrow> bool" where
  "inst_inv s \<longleftrightarrow> (\<forall>p a. in_procs s p = Some a \<longrightarrow>
     (holds (pr_pc a) \<and> \<not> pr_lost a \<longrightarrow> in_advisory s (pr_db a) = Some p) \<and>
     (past_lock (pr_pc a) \<and> \<not> pr_multi_db a \<longrightarrow> holds (pr_pc a)))"

lemma inv_quit: "inst_inv s \<Longrightarrow> inst_inv (quit p s)"
  by (auto simp: inst_inv_def quit_def split: if_splits)

lemma inv_goto:
  assumes "inst_inv s" and "in_procs s p = Some a" and "holds pc = holds (pr_pc a)" and "past_lock (pr_pc a)"
  shows "inst_inv (goto p pc s)"
  using assms by (auto simp: inst_inv_def goto_def split: if_splits)

lemma inv_file: "inst_inv (s\<lparr>in_file := f\<rparr>) = inst_inv s" "inst_inv (s\<lparr>in_file := f, in_inodes := n\<rparr>) = inst_inv s"
  by (simp_all add: inst_inv_def)

lemma inst_step_inv: "inst_step s s' \<Longrightarrow> inst_inv s \<Longrightarrow> inst_inv s'"
proof (induction rule: inst_step.induct)
  case (spawn s p d multi)
  then show ?case by (auto simp: inst_inv_def holds_def past_lock_def)
next
  case (lock s p a)
  have "\<not> holds (pr_pc b) \<or> pr_lost b \<or> pr_db b \<noteq> pr_db a" if "in_procs s q = Some b" for q b
    using lock(3) lock(4) [unfolded inst_inv_def, rule_format, OF that] by auto
  then show ?case using lock by (auto simp: inst_inv_def goto_def holds_def past_lock_def split: if_splits)
next
  case (held s p a)
  show ?case
  proof (cases "pr_multi_db a")
    case True
    then show ?thesis using held by (auto simp: inst_inv_def goto_def holds_def split: if_splits)
  next
    case False
    then show ?thesis using held(4) by (simp add: inv_quit)
  qed
next
  case (absent s p a h)
  then show ?case by (intro inv_goto) (auto simp: holds_def past_lock_def)
next
  case (check s p a h i t)
  then show ?case using inv_quit inv_goto [of s p a "Removing h"] by (simp add: holds_def past_lock_def)
next
  case (remove s p a h)
  have "in_procs (s\<lparr>in_file := None\<rparr>) p = Some a" using remove(1) by simp
  then show ?case using remove inv_quit inv_goto [of "s\<lparr>in_file := None\<rparr>" p a "Creating h"] by (simp add: holds_def past_lock_def inv_file)
next
  case (create s p a h)
  let ?s = "s\<lparr>in_file := Some (in_inodes s, []), in_inodes := Suc (in_inodes s)\<rparr>"
  have "in_procs ?s p = Some a" using create(1) by simp
  then show ?case using create inv_quit inv_goto [of ?s p a "Writing h (in_inodes s)"] by (simp add: holds_def past_lock_def inv_file)
next
  case (record_pid s p a h i now)
  let ?s = "s\<lparr>in_file := map_option (\<lambda>(j, text). (j, if j = i then lock_text p now else text)) (in_file s)\<rparr>"
  have "in_procs ?s p = Some a" using record_pid(1) by simp
  then show ?case using record_pid inv_goto [of ?s p a "Serving h"] by (simp add: holds_def past_lock_def inv_file)
next
  case (record_failed s p a h i)
  then show ?case by (intro inv_goto) (auto simp: holds_def past_lock_def)
next
  case (lost s p a)
  have "\<not> holds (pr_pc b) \<or> pr_lost b \<or> pr_db b \<noteq> pr_db a" if "in_procs s q = Some b" "q \<noteq> p" for q b
    using lost(2) lost(3) [unfolded inst_inv_def, rule_format, OF that(1)] that(2) by auto
  then show ?case using lost by (auto simp: inst_inv_def)
next
  case (shutdown s p a h)
  then show ?case using inv_quit inv_file(1) by blast
next
  case (crash s p a)
  then show ?case using inv_quit by blast
qed

interpretation servers: kept_invariant inst_step inst_inv
  by unfold_locales (rule inst_step_inv)

lemma inst_start_inv: "inst_inv inst_start"
  by (simp add: inst_inv_def inst_start_def)

text \<open>
  C32. However starts, crashes and shutdowns of processes interleave, at most one process runs on a database: two
  processes without the multi-database opt-out that are past the advisory lock of the same database exist only
  when one of them has lost the connection that held it, which its monitor turns into an exit.
\<close>

theorem one_server_per_database:
  assumes "inst_step\<^sup>*\<^sup>* inst_start s" and "in_procs s p = Some a" and "in_procs s q = Some b" and "p \<noteq> q"
    and "pr_db a = pr_db b" and "\<not> pr_multi_db a" and "\<not> pr_multi_db b" and "past_lock (pr_pc a)" and "past_lock (pr_pc b)"
  shows "pr_lost a \<or> pr_lost b"
proof (rule ccontr)
  assume n: "\<not> (pr_lost a \<or> pr_lost b)"
  have "in_advisory s (pr_db a) = Some p" "in_advisory s (pr_db b) = Some q"
    using servers.path_keeps [OF assms(1) inst_start_inv] assms(2,3,6-9) n unfolding inst_inv_def by blast+
  then show False using assms(4,5) by simp
qed

section \<open>The lock file\<close>

text \<open>
  The lock file keeps a second server out of a library directory when starts do not overlap: the text a server
  leaves makes a later start fail without touching the file exactly while a process with its id is alive and is a
  zimservice (or cannot be identified), and otherwise the start replaces the file by its own.
\<close>

theorem pid_lock_excludes:
  assumes "0 < p" and "p < 2 ^ 31" and "le_read E" and "le_remove E = None" and "le_open E = None" and "le_others E = id" and "le_write E = id"
  shows "acquire_zim_dir_pid_lock E (Some (lock_text p t)) =
    (if (case os_kill (le_os E) (int p) of None \<Rightarrow> True | Some e \<Rightarrow> e \<noteq> ESRCH) \<and> pid_lock_holder_is_zimservice (le_os E) p
     then (Err (refusal (le_zim_dir E) (zim_dir_lock_path E) (lock_text p t)), Some (lock_text p t))
     else (Ok (zim_dir_lock_path E), Some (lock_text (le_pid E) (le_now E))))"
proof -
  have "lock_pid (lock_text p t) = p" using assms(2) by (intro lock_text_pid) simp
  then have "lock_refuses (le_os E) (lock_text p t) \<longleftrightarrow>
      (case os_kill (le_os E) (int p) of None \<Rightarrow> True | Some e \<Rightarrow> e \<noteq> ESRCH) \<and> pid_lock_holder_is_zimservice (le_os E) p"
    using assms(1,2) by (simp add: lock_refuses_def pid_is_alive_def pid_t_of_def)
  then show ?thesis using assms(3-7) by (simp add: acquire_zim_dir_pid_lock_def Let_def)
qed

text \<open>
  Overlapping starts defeat the file: it is empty between its creation and the write of the process id, and an
  empty file counts as stale. Here the server of one database starts while that of another is about to write.
\<close>

definition duo :: "nat option \<Rightarrow> nat option \<Rightarrow> guard_pc option \<Rightarrow> guard_pc option \<Rightarrow> (nat \<times> string) option \<Rightarrow> nat \<Rightarrow> instances" where
  "duo x y a b f n =
     \<lparr>in_advisory = (\<lambda>d. if d = 10 then x else if d = 20 then y else None), in_file = f, in_inodes = n,
      in_procs = (\<lambda>p. if p = 1 then map_option (\<lambda>pc. \<lparr>pr_db = 10, pr_multi_db = False, pr_pc = pc, pr_lost = False\<rparr>) a
                      else if p = 2 then map_option (\<lambda>pc. \<lparr>pr_db = 20, pr_multi_db = False, pr_pc = pc, pr_lost = False\<rparr>) b else None)\<rparr>"

lemma empty_file_not_refused: "\<not> lock_refuses os []"
  by (simp add: lock_refuses_def empty_lock_pid)

lemma step_to: "inst_step s s' \<Longrightarrow> s' = t \<Longrightarrow> inst_step s t"
  by simp

lemma overlapping_starts_share_directory:
  "inst_step\<^sup>*\<^sup>* inst_start (duo (Some 1) (Some 2) (Some (Serving True)) (Some (Serving True)) (Some (1, lock_text 2 7)) 2)"
proof -
  note simps = duo_def inst_start_def goto_def fun_eq_iff
  have "inst_step inst_start (duo None None (Some Starting) None None 0)"
    by (rule step_to [OF inst_step.spawn [of inst_start 1 10 False]]) (auto simp: simps pid_ok_def)
  moreover have "inst_step (duo None None (Some Starting) None None 0) (duo None None (Some Starting) (Some Starting) None 0)"
    by (rule step_to [OF inst_step.spawn [of _ 2 20 False]]) (auto simp: simps pid_ok_def)
  moreover have "inst_step (duo None None (Some Starting) (Some Starting) None 0) (duo (Some 1) None (Some (Checking True)) (Some Starting) None 0)"
    by (rule step_to [OF inst_step.lock [of _ 1]]) (auto simp: simps)
  moreover have "inst_step (duo (Some 1) None (Some (Checking True)) (Some Starting) None 0) (duo (Some 1) (Some 2) (Some (Checking True)) (Some (Checking True)) None 0)"
    by (rule step_to [OF inst_step.lock [of _ 2]]) (auto simp: simps)
  moreover have "inst_step (duo (Some 1) (Some 2) (Some (Checking True)) (Some (Checking True)) None 0)
      (duo (Some 1) (Some 2) (Some (Creating True)) (Some (Checking True)) None 0)"
    by (rule step_to [OF inst_step.absent [of _ 1 _ True]]) (auto simp: simps)
  moreover have "inst_step (duo (Some 1) (Some 2) (Some (Creating True)) (Some (Checking True)) None 0)
      (duo (Some 1) (Some 2) (Some (Writing True 0)) (Some (Checking True)) (Some (0, [])) 1)"
    by (rule step_to [OF inst_step.create [of _ 1 _ True]]) (auto simp: simps)
  moreover have "inst_step (duo (Some 1) (Some 2) (Some (Writing True 0)) (Some (Checking True)) (Some (0, [])) 1)
      (duo (Some 1) (Some 2) (Some (Writing True 0)) (Some (Removing True)) (Some (0, [])) 1)"
    by (rule step_to [OF inst_step.check [of _ 2 _ True 0 "[]"]]) (auto simp: simps empty_file_not_refused)
  moreover have "inst_step (duo (Some 1) (Some 2) (Some (Writing True 0)) (Some (Removing True)) (Some (0, [])) 1)
      (duo (Some 1) (Some 2) (Some (Writing True 0)) (Some (Creating True)) None 1)"
    by (rule step_to [OF inst_step.remove [of _ 2 _ True]]) (auto simp: simps)
  moreover have "inst_step (duo (Some 1) (Some 2) (Some (Writing True 0)) (Some (Creating True)) None 1)
      (duo (Some 1) (Some 2) (Some (Writing True 0)) (Some (Writing True 1)) (Some (1, [])) 2)"
    by (rule step_to [OF inst_step.create [of _ 2 _ True]]) (auto simp: simps)
  moreover have "inst_step (duo (Some 1) (Some 2) (Some (Writing True 0)) (Some (Writing True 1)) (Some (1, [])) 2)
      (duo (Some 1) (Some 2) (Some (Serving True)) (Some (Writing True 1)) (Some (1, [])) 2)"
    by (rule step_to [OF inst_step.record_pid [of _ 1 _ True 0 7]]) (auto simp: simps)
  moreover have "inst_step (duo (Some 1) (Some 2) (Some (Serving True)) (Some (Writing True 1)) (Some (1, [])) 2)
      (duo (Some 1) (Some 2) (Some (Serving True)) (Some (Serving True)) (Some (1, lock_text 2 7)) 2)"
    by (rule step_to [OF inst_step.record_pid [of _ 2 _ True 1 7]]) (auto simp: simps)
  ultimately show ?thesis by (meson converse_rtranclp_into_rtranclp rtranclp.rtrancl_refl)
qed

section \<open>Samples\<close>

definition same_db :: "nat option \<Rightarrow> proc option \<Rightarrow> proc option \<Rightarrow> instances" where
  "same_db x a b = \<lparr>in_advisory = (\<lambda>d. if d = 10 then x else None), in_file = None, in_inodes = 0,
     in_procs = (\<lambda>p. if p = 1 then a else if p = 2 then b else None)\<rparr>"

definition sample_proc :: "guard_pc \<Rightarrow> bool \<Rightarrow> proc" where
  "sample_proc pc gone = \<lparr>pr_db = 10, pr_multi_db = False, pr_pc = pc, pr_lost = gone\<rparr>"

lemma same_db_reachable:
  "inst_step\<^sup>*\<^sup>* inst_start (same_db (Some 2) (Some (sample_proc (Checking True) True)) (Some (sample_proc (Checking True) False)))"
proof -
  note simps = same_db_def inst_start_def sample_proc_def goto_def fun_eq_iff
  have "inst_step inst_start (same_db None (Some (sample_proc Starting False)) None)"
    by (rule step_to [OF inst_step.spawn [of inst_start 1 10 False]]) (auto simp: simps pid_ok_def)
  moreover have "inst_step (same_db None (Some (sample_proc Starting False)) None) (same_db (Some 1) (Some (sample_proc (Checking True) False)) None)"
    by (rule step_to [OF inst_step.lock [of _ 1]]) (auto simp: simps)
  moreover have "inst_step (same_db (Some 1) (Some (sample_proc (Checking True) False)) None) (same_db None (Some (sample_proc (Checking True) True)) None)"
    by (rule step_to [OF inst_step.lost [of _ 1]]) (auto simp: simps)
  moreover have "inst_step (same_db None (Some (sample_proc (Checking True) True)) None)
      (same_db None (Some (sample_proc (Checking True) True)) (Some (sample_proc Starting False)))"
    by (rule step_to [OF inst_step.spawn [of _ 2 10 False]]) (auto simp: simps pid_ok_def)
  moreover have "inst_step (same_db None (Some (sample_proc (Checking True) True)) (Some (sample_proc Starting False)))
      (same_db (Some 2) (Some (sample_proc (Checking True) True)) (Some (sample_proc (Checking True) False)))"
    by (rule step_to [OF inst_step.lock [of _ 2]]) (auto simp: simps)
  ultimately show ?thesis by (meson converse_rtranclp_into_rtranclp rtranclp.rtrancl_refl)
qed

theorem one_server_per_database_witness:
  "inst_step\<^sup>*\<^sup>* inst_start (same_db (Some 2) (Some (sample_proc (Checking True) True)) (Some (sample_proc (Checking True) False))) \<and>
   (pr_lost (sample_proc (Checking True) True) \<or> pr_lost (sample_proc (Checking True) False))"
  using one_server_per_database [OF same_db_reachable, of 1 "sample_proc (Checking True) True" 2 "sample_proc (Checking True) False"]
    same_db_reachable
  by (simp add: same_db_def sample_proc_def past_lock_def)

definition sample_lock_env :: lock_env where
  "sample_lock_env = \<lparr>le_os = \<lparr>os_kill = (\<lambda>p. if p = 41 then None else Some ESRCH), os_comm = (\<lambda>_. Some ''zimservice'')\<rparr>,
     le_pid = 42, le_now = 9, le_zim_dir = ''/zims'', le_read = True, le_remove = None, le_open = None, le_write = id, le_others = id,
     le_connect = None, le_query = Ok (Some True), le_holder = None\<rparr>"

theorem pid_lock_excludes_witness:
  "snd (acquire_zim_dir_pid_lock sample_lock_env (Some (lock_text 41 5))) = Some (lock_text 41 5) \<and>
   snd (acquire_zim_dir_pid_lock sample_lock_env (Some (lock_text 40 5))) = Some (lock_text 42 9)"
proof -
  have "trim ''zimservice'' = ''zimservice''" by (intro trim_printable) (simp add: printable_def ascii_def)
  then have "pid_lock_holder_is_zimservice (le_os sample_lock_env) p" for p
    by (simp add: pid_lock_holder_is_zimservice_def sample_lock_env_def)
  then show ?thesis
    using pid_lock_excludes [of 41 sample_lock_env 5] pid_lock_excludes [of 40 sample_lock_env 5]
    by (simp add: sample_lock_env_def)
qed

end
