(* ===== verification/Content.thy ===== *)
theory Content
  imports Indexing
begin

text \<open>
  Reading of articles (\<open>src/content.rs\<close>): entries of an archive as text with the preview of the database to fall
  back on, the truncation of the answer and its flag, and the overlapping chunks of a text.

  The calls of the \<open>zim\<close> crate on an open archive are the record \<open>entry_ops\<close>, with the text of an error; the HTML
  stripper is a parameter. Lengths and offsets are natural numbers: chunk sizes are at most 100,000 and texts are
  in memory, so no sum of them wraps.
\<close>

section \<open>Strings\<close>

definition is_char_boundary :: "string \<Rightarrow> nat \<Rightarrow> bool" where
  "is_char_boundary s i \<longleftrightarrow> i = 0 \<or> i = length s \<or> (i < length s \<and> \<not> is_continuation (s ! i))"

text \<open>\<open>&s[a..b]\<close>\<close>

definition slice :: "string \<Rightarrow> nat \<Rightarrow> nat \<Rightarrow> string" where
  "slice s a b = take (b - a) (drop a s)"

definition str_slice :: "string \<Rightarrow> nat \<Rightarrow> nat \<Rightarrow> string run" where
  "str_slice s a b = (if a \<le> b \<and> is_char_boundary s a \<and> is_char_boundary s b then Done (slice s a b) else Panicked)"

fun rfind_char :: "char \<Rightarrow> string \<Rightarrow> nat option" where
  "rfind_char c [] = None"
| "rfind_char c (x # xs) =
     (case rfind_char c xs of Some i \<Rightarrow> Some (Suc i) | None \<Rightarrow> if x = c then Some 0 else None)"

section \<open>Entries\<close>

datatype mime_type = Type string | Redirect | LinkTarget | DeletedEntry

record dirent =
  de_title :: string
  de_mime_type :: mime_type

record blob =
  bl_len :: "(nat, string) result"
  bl_bytes :: "(string, string) result"

record entry_ops =
  eo_get_by_path :: "zim_namespace \<Rightarrow> string \<Rightarrow> (dirent option, string) result"
  eo_resolve :: "dirent \<Rightarrow> (dirent, string) result"
  eo_entry_content :: "dirent \<Rightarrow> (blob option, string) result"

definition zim_err :: "('a, string) result \<Rightarrow> ('a, error) result" where
  "zim_err r = map_sum Zim id r"

definition find_entry :: "entry_ops \<Rightarrow> string \<Rightarrow> (dirent option, error) result" where
  "find_entry A path =
     and_then (zim_err (eo_get_by_path A Articles path)) (\<lambda>entry.
       case entry of Some e \<Rightarrow> Ok (Some e) | None \<Rightarrow> zim_err (eo_get_by_path A UserContent path))"

definition ok_or_else :: "'e \<Rightarrow> 'a option \<Rightarrow> ('a, 'e) result" where
  "ok_or_else e x = (case x of Some a \<Rightarrow> Ok a | None \<Rightarrow> Err e)"

definition path_not_found :: "string \<Rightarrow> error" where
  "path_not_found path = NotFound (''path '' @ [CHR 0x27] @ path @ [CHR 0x27] @ '' not found'')"

definition MAX_READ_BYTES :: nat where "MAX_READ_BYTES = 256 * 1024"

definition DEFAULT_READ_MAX_LENGTH :: nat where "DEFAULT_READ_MAX_LENGTH = 8000"

definition cap_read :: "string \<Rightarrow> string \<times> bool" where
  "cap_read b = (if MAX_READ_BYTES \<le> length b then take MAX_READ_BYTES b else b, length b > MAX_READ_BYTES)"

definition clamp_read_max_length :: "nat \<Rightarrow> nat" where
  "clamp_read_max_length max_len = min max_len MAX_READ_BYTES"

definition html_to_text :: "(string \<Rightarrow> string) \<Rightarrow> string \<Rightarrow> string" where
  "html_to_text strip html = strip (from_utf8_lossy html)"

definition read_zim_entry_blocking ::
  "(string \<Rightarrow> string) \<Rightarrow> entry_ops \<Rightarrow> string \<Rightarrow> (string \<times> string \<times> bool, error) result" where
  "read_zim_entry_blocking strip A path =
     and_then (and_then (find_entry A path) (ok_or_else (path_not_found path))) (\<lambda>entry.
     and_then (zim_err (eo_resolve A entry)) (\<lambda>resolved.
     and_then (and_then (zim_err (eo_entry_content A resolved)) (ok_or_else (NotFound ''no content for entry''))) (\<lambda>content.
     and_then (zim_err (bl_bytes content)) (\<lambda>b.
       case cap_read b of (html, raw_capped) \<Rightarrow> Ok (html_to_text strip html, de_title resolved, raw_capped)))))"

text \<open>What a request meets: the file, the task that reads and the database.\<close>

record read_env =
  re_open :: "entry_ops open_io"
  re_task :: "string option" \<comment> \<open>how the blocking task died\<close>
  re_strip :: "string \<Rightarrow> string"
  re_zims :: "string \<rightharpoonup> zim_row"
  re_articles :: "int \<times> string \<rightharpoonup> article"
  re_query :: "sqlx_error option"
  re_panic :: string \<comment> \<open>the text of the error of a task that panicked\<close>

definition read_zim_entry :: "read_env \<Rightarrow> string \<Rightarrow> string \<Rightarrow> entry_ops zim_manager
    \<Rightarrow> (string \<times> string \<times> bool, error) result \<times> entry_ops zim_manager" where
  "read_zim_entry E zim_name path s =
     (case open_zim (re_open E) zim_name s of
        (Inl e, s) \<Rightarrow> (Err e, s)
      | (Inr archive, s) \<Rightarrow>
          (case re_task E of
             Some e \<Rightarrow> (Err (Internal (''zim read task: '' @ e)), s)
           | None \<Rightarrow> (read_zim_entry_blocking (re_strip E) archive path, s)))"

definition read_zim_text :: "read_env \<Rightarrow> string \<Rightarrow> string \<Rightarrow> entry_ops zim_manager
    \<Rightarrow> (string, error) result \<times> entry_ops zim_manager" where
  "read_zim_text E zim_name path s =
     (case read_zim_entry E zim_name path s of (r, s) \<Rightarrow> (map_sum id (\<lambda>(txt, _, _). txt) r, s))"

section \<open>Article reads\<close>

record read_response =
  rr_title :: string
  rr_zim :: string
  rr_path :: string
  rr_content :: string
  rr_truncated :: bool
  rr_full_length :: nat
  rr_source :: string

definition truncate_preview :: "string \<Rightarrow> nat \<Rightarrow> string \<times> nat" where
  "truncate_preview txt max_len =
     (let full_len = char_count txt
      in (if full_len > max_len then take_chars max_len txt @ ELLIPSIS else txt, full_len))"

definition read_response_truncated :: "string \<Rightarrow> nat \<Rightarrow> nat \<Rightarrow> bool" where
  "read_response_truncated source full_len max_len \<longleftrightarrow> (source = ''db'' \<and> full_len \<ge> PREVIEW_CHARS) \<or> full_len > max_len"

text \<open>The article of a path, by the name of the archive: the join of both statements on \<open>articles\<close> and \<open>zims\<close>.\<close>

definition article_at :: "(string \<rightharpoonup> zim_row) \<Rightarrow> (int \<times> string \<rightharpoonup> article) \<Rightarrow> string \<Rightarrow> string \<Rightarrow> article option" where
  "article_at zims articles zim_name path = Option.bind (zims zim_name) (\<lambda>z. articles (zr_id z, path))"

definition read_source :: "read_env \<Rightarrow> string \<Rightarrow> string \<Rightarrow> (string \<times> string \<times> bool, error) result
    \<Rightarrow> (string \<times> string \<times> string \<times> bool, error) result" where
  "read_source E zim_name path r =
     (case r of
        Inr (txt, entry_title, raw_capped) \<Rightarrow>
          Ok (txt, ''zim'', if entry_title = [] then derive_title_from_path path else entry_title, raw_capped)
      | Inl zim_error \<Rightarrow>
          (case re_query E of
             Some e \<Rightarrow> Err (Database e)
           | None \<Rightarrow>
               (case article_at (re_zims E) (re_articles E) zim_name path of
                  None \<Rightarrow> Err zim_error
                | Some a \<Rightarrow>
                    (case at_content_preview a of
                       Some preview \<Rightarrow> Ok (preview, ''db'', at_title a, False)
                     | None \<Rightarrow> Err zim_error))))"

definition read_article_payload :: "read_env \<Rightarrow> string \<Rightarrow> string \<Rightarrow> nat \<Rightarrow> entry_ops zim_manager
    \<Rightarrow> (read_response, error) result \<times> entry_ops zim_manager" where
  "read_article_payload E zim_name path max_len s =
     (let max_len = clamp_read_max_length max_len
      in if \<not> is_known s zim_name then (Err (NotFound (''ZIM '' @ [CHR 0x27] @ zim_name @ [CHR 0x27] @ '' not found'')), s)
         else (case read_zim_entry E zim_name path s of
                 (r, s) \<Rightarrow>
                   (and_then (read_source E zim_name path r) (\<lambda>(txt, source, title, raw_capped).
                      case truncate_preview txt max_len of
                        (content_str, full_len) \<Rightarrow>
                          Ok \<lparr>rr_title = title, rr_zim = zim_name, rr_path = path, rr_content = content_str,
                              rr_truncated = read_response_truncated source full_len max_len \<or> raw_capped,
                              rr_full_length = full_len, rr_source = source\<rparr>), s)))"

definition read_article :: "read_env \<Rightarrow> string \<Rightarrow> string \<Rightarrow> nat option \<Rightarrow> entry_ops zim_manager
    \<Rightarrow> (read_response, error) result \<times> entry_ops zim_manager" where
  "read_article E zim_name path max_length s =
     read_article_payload E zim_name path (case max_length of Some n \<Rightarrow> n | None \<Rightarrow> DEFAULT_READ_MAX_LENGTH) s"

section \<open>Chunks\<close>

record text_chunk =
  tc_index :: nat
  tc_start :: nat
  tc_end :: nat
  tc_text :: string

definition clamp_chunk_params :: "nat \<Rightarrow> nat \<Rightarrow> nat \<times> nat" where
  "clamp_chunk_params sz overlap =
     (let sz = max 10 (min sz 100000)
      in (sz, min (min overlap (sz - 1)) (sz div 2)))"

definition chunk_end_of :: "string \<Rightarrow> nat \<Rightarrow> nat \<Rightarrow> nat run" where
  "chunk_end_of txt chunk_size start =
     (let len = length txt;
          hard_end = ceil_char_boundary txt (min (start + chunk_size) len)
      in if hard_end < len
         then (case str_slice txt start hard_end of
                 Panicked \<Rightarrow> Panicked
               | Done window \<Rightarrow>
                   let boundary = (case rfind_char CHR 0x0A window of
                                     Some pos \<Rightarrow> start + pos + 1
                                   | None \<Rightarrow> (case rfind_char CHR '' '' window of
                                                Some pos \<Rightarrow> start + pos + 1
                                              | None \<Rightarrow> hard_end))
                   in Done (max boundary (start + 1)))
         else Done hard_end)"

lemma chunk_end_progress:
  assumes "chunk_end_of txt n start = Done e" and "start < length txt"
  shows "start < e"
proof (cases "ceil_char_boundary txt (min (start + n) (length txt)) < length txt")
  case True
  then show ?thesis using assms(1) by (auto simp: chunk_end_of_def Let_def split: run.splits)
next
  case False
  then show ?thesis using assms by (auto simp: chunk_end_of_def Let_def)
qed

function chunk_loop :: "string \<Rightarrow> nat \<Rightarrow> nat \<Rightarrow> nat \<Rightarrow> text_chunk list \<Rightarrow> text_chunk list run" where
  "chunk_loop txt chunk_size overlap start chunks =
     (if start < length txt then
        (case chunk_end_of txt chunk_size start of
           Panicked \<Rightarrow> Panicked
         | Done chunk_end \<Rightarrow>
             (case str_slice txt start chunk_end of
                Panicked \<Rightarrow> Panicked
              | Done raw \<Rightarrow>
                  let chunks = (if trim raw \<noteq> []
                                then chunks @ [\<lparr>tc_index = length chunks, tc_start = start, tc_end = chunk_end, tc_text = trim raw\<rparr>]
                                else chunks)
                  in if chunk_end \<ge> length txt then Done chunks
                     else let next_start = floor_char_boundary txt (chunk_end - overlap)
                          in chunk_loop txt chunk_size overlap (if next_start \<le> start then chunk_end else next_start) chunks))
      else Done chunks)"
  by pat_completeness auto
termination
  by (relation "measure (\<lambda>(txt, _, _, start, _). length txt - start)") (auto dest: chunk_end_progress)

declare chunk_loop.simps [simp del]

definition chunk_text :: "string \<Rightarrow> nat \<Rightarrow> nat \<Rightarrow> text_chunk list run" where
  "chunk_text txt chunk_size overlap =
     (if chunk_size = 0 then Done [] else chunk_loop txt chunk_size (min overlap (chunk_size - 1)) 0 [])"

record chunks_response =
  cr_zim :: string
  cr_path :: string
  cr_chunk_count :: nat
  cr_chunks :: "text_chunk list"

definition get_chunks :: "read_env \<Rightarrow> string \<Rightarrow> string \<Rightarrow> nat option \<Rightarrow> nat option \<Rightarrow> entry_ops zim_manager
    \<Rightarrow> (chunks_response, error) result \<times> entry_ops zim_manager" where
  "get_chunks E zim_name path sz overlap s =
     (case clamp_chunk_params (case sz of Some n \<Rightarrow> n | None \<Rightarrow> 1000) (case overlap of Some n \<Rightarrow> n | None \<Rightarrow> 200) of
        (chunk_size, overlap) \<Rightarrow>
          (case read_zim_text E zim_name path s of
             (Inl e, s) \<Rightarrow> (Err e, s)
           | (Inr txt, s) \<Rightarrow>
               (case chunk_text txt chunk_size overlap of
                  Panicked \<Rightarrow> (Err (Internal (''chunk task: '' @ re_panic E)), s)
                | Done chunks \<Rightarrow>
                    (Ok \<lparr>cr_zim = zim_name, cr_path = path, cr_chunk_count = length chunks, cr_chunks = chunks\<rparr>, s))))"

section \<open>Snippets\<close>

record snippet_response =
  sn_zim :: string
  sn_path :: string
  sn_title :: string
  sn_snippet :: string
  sn_preview :: "string option"

definition fetch_article_snippet :: "read_env \<Rightarrow> string \<Rightarrow> string \<Rightarrow> ((string \<times> string \<times> string option) option, error) result" where
  "fetch_article_snippet E zim path =
     (case re_query E of
        Some e \<Rightarrow> Err (Database e)
      | None \<Rightarrow> Ok (map_option (\<lambda>a. (at_snippet a, at_title a, at_content_preview a)) (article_at (re_zims E) (re_articles E) zim path)))"

definition get_snippet :: "read_env \<Rightarrow> string \<Rightarrow> string \<Rightarrow> (snippet_response, error) result" where
  "get_snippet E zim path =
     and_then (fetch_article_snippet E zim path) (\<lambda>row.
       case row of
         Some (snippet, title, preview) \<Rightarrow>
           Ok \<lparr>sn_zim = zim, sn_path = path, sn_title = title, sn_snippet = snippet, sn_preview = preview\<rparr>
       | None \<Rightarrow> Err (NotFound (''article '' @ [CHR 0x27] @ zim @ [CHR 0x27] @ '' / '' @ [CHR 0x27] @ path @ [CHR 0x27] @ '' not indexed'')))"

section \<open>Character boundaries\<close>

lemma is_char_boundary_0 [simp]: "is_char_boundary s 0" and is_char_boundary_length [simp]: "is_char_boundary s (length s)"
  by (simp_all add: is_char_boundary_def)

lemma is_char_boundary_le: "is_char_boundary s i \<Longrightarrow> i \<le> length s"
  by (auto simp: is_char_boundary_def)

text \<open>A valid text starts with a whole character: an ASCII byte, or a lead byte with one to three continuation bytes.\<close>

definition whole_char :: "string \<Rightarrow> bool" where
  "whole_char c \<longleftrightarrow> c \<noteq> [] \<and> length c \<le> 4 \<and> \<not> is_continuation (hd c) \<and> list_all is_continuation (tl c) \<and> (tl c \<noteq> [] \<longrightarrow> 128 \<le> ascii (hd c))"

lemma utf8_split:
  assumes "utf8_valid s" and "s \<noteq> []"
  obtains c t where "s = c @ t" and "whole_char c" and "utf8_valid t"
proof -
  obtain a r where s: "s = a # r" using assms(2) by (cases s) auto
  show thesis
  proof (cases "byte_in 0 127 a")
    case True
    then show ?thesis using that [of "[a]" r] assms(1) s by (simp add: whole_char_def is_continuation_def byte_in_def)
  next
    case n1: False
    obtain b r2 where r: "r = b # r2" using assms(1) s n1 by (cases r) auto
    show ?thesis
    proof (cases "byte_in 0xC2 0xDF a")
      case True
      then show ?thesis using that [of "[a, b]" r2] assms(1) s r n1 by (simp add: whole_char_def is_continuation_def byte_in_def)
    next
      case n2: False
      obtain c r3 where r2: "r2 = c # r3" using assms(1) s r n1 n2 by (cases r2) auto
      have low: "0x80 \<le> ascii b \<and> ascii b \<le> 0xBF" if "byte_in (if p then x else 0x80) (if q then y else 0xBF) b" "0x80 \<le> x" "y \<le> 0xBF" for p q x y
        using that by (auto simp: byte_in_def split: if_splits)
      show ?thesis
      proof (cases "byte_in 0xE0 0xEF a")
        case True
        then have v: "byte_in (if ascii a = 0xE0 then 0xA0 else 0x80) (if ascii a = 0xED then 0x9F else 0xBF) b" "byte_in 0x80 0xBF c" "utf8_valid r3"
          using assms(1) s r r2 n1 n2 by simp_all
        then have "whole_char [a, b, c]" using low [OF v(1)] True by (simp add: whole_char_def is_continuation_def byte_in_def)
        then show ?thesis using that [of "[a, b, c]" r3] s r r2 v(3) by simp
      next
        case n3: False
        obtain d r4 where r3: "r3 = d # r4" using assms(1) s r r2 n1 n2 n3 by (cases r3) auto
        have v: "byte_in (if ascii a = 0xF0 then 0x90 else 0x80) (if ascii a = 0xF4 then 0x8F else 0xBF) b" "byte_in 0x80 0xBF c"
            "byte_in 0x80 0xBF d" "utf8_valid r4" "byte_in 0xF0 0xF4 a"
          using assms(1) s r r2 r3 n1 n2 n3 by simp_all
        then have "whole_char [a, b, c, d]" using low [OF v(1)] by (simp add: whole_char_def is_continuation_def byte_in_def)
        then show ?thesis using that [of "[a, b, c, d]" r4] s r r2 r3 v(4) by simp
      qed
    qed
  qed
qed

text \<open>A continuation byte belongs to a lead byte at most three places before it.\<close>

lemma utf8_lead:
  assumes "utf8_valid s" and "i < length s" and "is_continuation (s ! i)"
  obtains j where "j < i" and "i \<le> j + 3" and "\<not> is_continuation (s ! j)" and "128 \<le> ascii (s ! j)"
    and "\<And>k. j < k \<Longrightarrow> k \<le> i \<Longrightarrow> is_continuation (s ! k)"
proof -
  have "\<exists>j<i. i \<le> j + 3 \<and> \<not> is_continuation (s ! j) \<and> 128 \<le> ascii (s ! j) \<and> (\<forall>k. j < k \<and> k \<le> i \<longrightarrow> is_continuation (s ! k))"
    using assms
  proof (induction "length s" arbitrary: s i rule: less_induct)
    case less
    have "s \<noteq> []" using less.prems(2) by auto
    then obtain c t where s: "s = c @ t" and c: "whole_char c" and t: "utf8_valid t" using utf8_split [OF less.prems(1)] by blast
    have len: "0 < length c" "length c \<le> 4" using c by (auto simp: whole_char_def)
    have cont: "is_continuation (s ! k)" if "0 < k" "k < length c" for k
    proof -
      have "tl c ! (k - 1) \<in> set (tl c)" using that by (intro nth_mem) simp
      then have "is_continuation (tl c ! (k - 1))" using c by (auto simp: whole_char_def list_all_iff)
      then show ?thesis using that s by (simp add: nth_tl nth_append)
    qed
    have hd: "s ! 0 = hd c" using len s by (simp add: nth_append hd_conv_nth)
    show ?case
    proof (cases "i < length c")
      case True
      have "i \<noteq> 0" using less.prems(3) c hd by (metis whole_char_def)
      then have "tl c \<noteq> []" using True by (cases c) auto
      then show ?thesis using \<open>i \<noteq> 0\<close> True len c hd cont by (intro exI [of _ 0]) (auto simp: whole_char_def)
    next
      case False
      have "\<exists>j<i - length c. i - length c \<le> j + 3 \<and> \<not> is_continuation (t ! j) \<and> 128 \<le> ascii (t ! j) \<and>
          (\<forall>k. j < k \<and> k \<le> i - length c \<longrightarrow> is_continuation (t ! k))"
        using less.hyps [of t "i - length c"] less.prems(2,3) False t len s by (simp add: nth_append)
      then obtain j where j: "j < i - length c" "i - length c \<le> j + 3" "\<not> is_continuation (t ! j)" "128 \<le> ascii (t ! j)"
        "\<And>k. j < k \<Longrightarrow> k \<le> i - length c \<Longrightarrow> is_continuation (t ! k)" by blast
      have "is_continuation (s ! k)" if "j + length c < k" "k \<le> i" for k
        using j(5) [of "k - length c"] that s by (simp add: nth_append)
      then show ?thesis using j False s by (intro exI [of _ "j + length c"]) (auto simp: nth_append)
    qed
  qed
  then show thesis using that by blast
qed

lemma boundary_after_ascii:
  assumes "utf8_valid s" and "i < length s" and "ascii (s ! i) < 128"
  shows "is_char_boundary s (Suc i)"
proof (rule ccontr)
  assume n: "\<not> is_char_boundary s (Suc i)"
  then have "Suc i < length s" "is_continuation (s ! Suc i)" using assms(2) by (auto simp: is_char_boundary_def)
  then obtain j where "j < Suc i" "128 \<le> ascii (s ! j)" "\<And>k. j < k \<Longrightarrow> k \<le> Suc i \<Longrightarrow> is_continuation (s ! k)"
    using utf8_lead [OF assms(1)] by metis
  then have "j \<noteq> i \<Longrightarrow> is_continuation (s ! i)" "j = i \<Longrightarrow> 128 \<le> ascii (s ! i)" by simp_all
  then show False using assms(3) by (cases "j = i") (simp_all add: is_continuation_def)
qed

lemma ceil_boundary: "i \<le> ceil_char_boundary s i \<or> length s \<le> i" "ceil_char_boundary s i \<le> length s" "is_char_boundary s (ceil_char_boundary s i)"
proof -
  let ?n = "length (takeWhile is_continuation (drop i s))"
  have n: "?n \<le> length s - i" using length_takeWhile_le [of is_continuation "drop i s"] by simp
  show "i \<le> ceil_char_boundary s i \<or> length s \<le> i" "ceil_char_boundary s i \<le> length s"
    using n by (auto simp: ceil_char_boundary_def)
  have "\<not> is_continuation (s ! (i + ?n))" if "i + ?n < length s"
    using nth_length_takeWhile [of is_continuation "drop i s"] that by simp
  then show "is_char_boundary s (ceil_char_boundary s i)" using n by (fastforce simp: ceil_char_boundary_def is_char_boundary_def)
qed

lemma ceil_boundary_near:
  assumes "utf8_valid s"
  shows "ceil_char_boundary s i \<le> i + 3"
proof (rule ccontr)
  assume "\<not> ?thesis"
  then have i: "i < length s" and "3 < length (takeWhile is_continuation (drop i s))"
    by (auto simp: ceil_char_boundary_def split: if_splits)
  then have cont: "is_continuation (s ! (i + k))" and len: "i + k < length s" if "k \<le> 3" for k
    using that takeWhile_nth [of k is_continuation "drop i s"] set_takeWhileD [OF nth_mem, of k is_continuation "drop i s"]
      length_takeWhile_le [of is_continuation "drop i s"] by auto
  obtain j where "j < i + 3" "i + 3 \<le> j + 3" "\<not> is_continuation (s ! j)"
    using utf8_lead [OF assms len cont, of 3] by auto
  then have "i \<le> j" "j - i \<le> 3" by simp_all
  then show False using cont [of "j - i"] \<open>\<not> is_continuation (s ! j)\<close> by simp
qed

lemma floor_boundary: "i \<le> length s \<Longrightarrow> floor_char_boundary s i \<le> i \<and> is_char_boundary s (floor_char_boundary s i)"
  by (induction s i rule: floor_char_boundary.induct) (auto simp: is_char_boundary_def)

lemma floor_boundary_skips: "floor_char_boundary s i < k \<Longrightarrow> k \<le> i \<Longrightarrow> i < length s \<Longrightarrow> is_continuation (s ! k)"
proof (induction s i rule: floor_char_boundary.induct)
  case (2 s i)
  then show ?case by (cases "k = Suc i") (auto split: if_splits)
qed simp

lemma floor_at_length: "floor_char_boundary s (length s) = length s"
proof (cases "length s")
  case (Suc n)
  have "floor_char_boundary s (Suc n) = length s" using Suc by simp
  then show ?thesis using Suc by metis
qed simp

lemma floor_boundary_near:
  assumes "utf8_valid s" and "i \<le> length s"
  shows "i \<le> floor_char_boundary s i + 3"
proof (rule ccontr)
  assume n: "\<not> ?thesis"
  have i: "i < length s"
  proof (rule ccontr)
    assume "\<not> i < length s"
    then have "floor_char_boundary s i = i" using assms(2) floor_at_length by simp
    then show False using n by simp
  qed
  have cont: "is_continuation (s ! k)" if "i - 3 \<le> k" "k \<le> i" for k
    using floor_boundary_skips [of s i k] that n i by simp
  then obtain j where "j < i" "i \<le> j + 3" "\<not> is_continuation (s ! j)" using utf8_lead [OF assms(1) i] by auto
  then show False using cont [of j] by simp
qed

section \<open>Chunks cover the text\<close>

lemma slice_nth: "b \<le> length s \<Longrightarrow> i < b - a \<Longrightarrow> slice s a b ! i = s ! (a + i)"
  by (simp add: slice_def)

lemma length_slice: "b \<le> length s \<Longrightarrow> length (slice s a b) = b - a"
  by (simp add: slice_def)

lemma rfind_char_Some: "rfind_char c s = Some i \<Longrightarrow> i < length s \<and> s ! i = c"
  by (induction s arbitrary: i) (auto split: option.splits if_splits)

lemma boundary_after_found:
  assumes "utf8_valid txt" and "e \<le> length txt" and "rfind_char c (slice txt start e) = Some pos" and "ascii c < 128"
  shows "is_char_boundary txt (start + pos + 1)" and "start + pos + 1 \<le> e"
proof -
  have "pos < length (slice txt start e)" "slice txt start e ! pos = c" using rfind_char_Some [OF assms(3)] by auto
  then have pos: "pos < e - start" and c: "txt ! (start + pos) = c"
    using assms(2) by (simp_all add: length_slice slice_nth)
  then show "is_char_boundary txt (start + pos + 1)" using boundary_after_ascii [OF assms(1), of "start + pos"] assms(2,4) by simp
  show "start + pos + 1 \<le> e" using pos by simp
qed

text \<open>The end of a window: it exists, is a boundary above the start and at most a character above the size.\<close>

lemma chunk_end_ok:
  assumes "utf8_valid txt" and "0 < n" and "start < length txt" and "is_char_boundary txt start"
  obtains e where "chunk_end_of txt n start = Done e" and "start < e" and "e \<le> length txt" and "e \<le> start + n + 3" and "is_char_boundary txt e"
proof -
  let ?h = "ceil_char_boundary txt (min (start + n) (length txt))"
  have h: "start < ?h" "?h \<le> length txt" "?h \<le> start + n + 3" "is_char_boundary txt ?h"
    using ceil_boundary(1) [of "min (start + n) (length txt)" "txt"] ceil_boundary(2,3) [of "txt" "min (start + n) (length txt)"] ceil_boundary_near [OF assms(1), of "min (start + n) (length txt)"] assms(2,3)
    by (auto simp: ceil_char_boundary_def)
  show thesis
  proof (cases "?h < length txt")
    case False
    then show ?thesis using that [of ?h] h by (simp add: chunk_end_of_def Let_def)
  next
    case True
    let ?w = "slice txt start ?h"
    have w: "str_slice txt start ?h = Done ?w" using assms(4) h by (simp add: str_slice_def)
    note found = boundary_after_found [OF assms(1) h(2)]
    show ?thesis
    proof (cases "rfind_char CHR 0x0A ?w")
      case (Some pos)
      then show ?thesis using that [of "start + pos + 1"] found [OF Some] h True w by (simp add: chunk_end_of_def Let_def ascii_def)
    next
      case n: None
      show ?thesis
      proof (cases "rfind_char CHR '' '' ?w")
        case None
        then show ?thesis using that [of ?h] h True w n by (simp add: chunk_end_of_def Let_def max_def)
      next
        case (Some pos)
        then show ?thesis using that [of "start + pos + 1"] found [OF Some] h True w n by (simp add: chunk_end_of_def Let_def ascii_def)
      qed
    qed
  qed
qed

text \<open>What holds of the chunks of a text from an offset on, numbered from \<open>k\<close>.\<close>

definition chunk_ok :: "string \<Rightarrow> nat \<Rightarrow> text_chunk \<Rightarrow> bool" where
  "chunk_ok txt n c \<longleftrightarrow>
     tc_start c < tc_end c \<and> tc_end c \<le> length txt \<and> tc_end c \<le> tc_start c + n + 3
     \<and> is_char_boundary txt (tc_start c) \<and> is_char_boundary txt (tc_end c)
     \<and> tc_text c = trim (slice txt (tc_start c) (tc_end c)) \<and> tc_text c \<noteq> []"

definition covers :: "string \<Rightarrow> text_chunk list \<Rightarrow> nat \<Rightarrow> bool" where
  "covers txt cs i \<longleftrightarrow>
     (\<exists>c\<in>set cs. tc_start c \<le> i \<and> i < tc_end c) \<or> (\<exists>a b. a \<le> i \<and> i < b \<and> b \<le> length txt \<and> trim (slice txt a b) = [])"

definition chunks_from :: "string \<Rightarrow> nat \<Rightarrow> nat \<Rightarrow> nat \<Rightarrow> nat \<Rightarrow> text_chunk list \<Rightarrow> bool" where
  "chunks_from txt n overlap start k cs \<longleftrightarrow>
     map tc_index cs = [k..<k + length cs]
     \<and> (\<forall>c\<in>set cs. start \<le> tc_start c \<and> chunk_ok txt n c)
     \<and> sorted_wrt (\<lambda>c d. tc_start c < tc_start d \<and> tc_end c \<le> tc_start d + overlap + 3) cs
     \<and> (\<forall>i. start \<le> i \<and> i < length txt \<longrightarrow> covers txt cs i)"

lemma covers_Cons: "covers txt cs i \<Longrightarrow> covers txt (c # cs) i"
  by (auto simp: covers_def)

lemma chunks_from_step:
  assumes "chunks_from txt n overlap s' (Suc k) cs" and "start < s'" and "s' \<le> e" and "e \<le> s' + overlap + 3"
    and "chunk_ok txt n c" and "tc_start c = start" and "tc_end c = e" and "tc_index c = k"
  shows "chunks_from txt n overlap start k (c # cs)"
proof -
  have "covers txt (c # cs) i" if "start \<le> i" "i < length txt" for i
  proof (cases "i < s'")
    case True
    then show ?thesis using that assms(3,6,7) by (auto simp: covers_def)
  next
    case False
    then show ?thesis using assms(1) that by (intro covers_Cons) (simp add: chunks_from_def)
  qed
  moreover have "start < tc_start d \<and> e \<le> tc_start d + overlap + 3" if "d \<in> set cs" for d
  proof -
    have "s' \<le> tc_start d" using assms(1) that by (simp add: chunks_from_def)
    then show ?thesis using assms(2,4) by simp
  qed
  moreover have "[k..<k + length (c # cs)] = k # [Suc k..<Suc k + length cs]" using upt_conv_Cons [of k "k + length (c # cs)"] by simp
  ultimately show ?thesis using assms by (auto simp: chunks_from_def less_imp_le)
qed

lemma chunks_from_blank:
  assumes "chunks_from txt n overlap s' k cs" and "start < s'" and "s' \<le> e" and "e \<le> length txt" and "trim (slice txt start e) = []"
  shows "chunks_from txt n overlap start k cs"
proof -
  have "covers txt cs i" if "start \<le> i" "i < length txt" for i
  proof (cases "i < s'")
    case True
    then have "\<exists>a b. a \<le> i \<and> i < b \<and> b \<le> length txt \<and> trim (slice txt a b) = []"
      using that assms(3-5) by (intro exI [of _ start] exI [of _ e]) simp
    then show ?thesis by (simp add: covers_def)
  next
    case False
    then show ?thesis using assms(1) that by (simp add: chunks_from_def)
  qed
  then show ?thesis using assms(1,2) by (auto simp: chunks_from_def less_imp_le)
qed

lemma chunks_from_end: "chunks_from txt n overlap (length txt) k []"
  by (auto simp: chunks_from_def)

lemma chunk_loop_ok:
  assumes "utf8_valid txt" and "0 < n" and "is_char_boundary txt start"
  shows "\<exists>cs. chunk_loop txt n overlap start chunks = Done (chunks @ cs) \<and> chunks_from txt n overlap start (length chunks) cs"
  using assms(3)
proof (induction "length txt - start" arbitrary: start chunks rule: less_induct)
  case less
  show ?case
  proof (cases "start < length txt")
    case False
    then have "start = length txt" using is_char_boundary_le [OF less.prems] by simp
    then show ?thesis by (simp add: chunk_loop.simps chunks_from_end)
  next
    case True
    obtain e where e: "chunk_end_of txt n start = Done e" "start < e" "e \<le> length txt" "e \<le> start + n + 3" "is_char_boundary txt e"
      using chunk_end_ok [OF assms(1,2) True less.prems] .
    let ?raw = "slice txt start e"
    let ?c = "\<lparr>tc_index = length chunks, tc_start = start, tc_end = e, tc_text = trim ?raw\<rparr>"
    let ?chunks = "if trim ?raw \<noteq> [] then chunks @ [?c] else chunks"
    let ?f = "floor_char_boundary txt (e - overlap)"
    let ?s = "if e = length txt then e else if ?f \<le> start then e else ?f"
    have raw: "str_slice txt start e = Done ?raw" using e less.prems by (simp add: str_slice_def)
    have f: "?f \<le> e - overlap" "is_char_boundary txt ?f" "e - overlap \<le> ?f + 3"
      using floor_boundary [of "e - overlap" "txt"] floor_boundary_near [OF assms(1), of "e - overlap"] e(3) by auto
    have s: "start < ?s" "?s \<le> e" "e \<le> ?s + overlap + 3" "is_char_boundary txt ?s" using e f by auto
    have ok: "chunk_ok txt n ?c" if "trim ?raw \<noteq> []" using that e less.prems by (simp add: chunk_ok_def)
    obtain cs where loop: "chunk_loop txt n overlap start chunks = Done (?chunks @ cs)" and cs: "chunks_from txt n overlap ?s (length ?chunks) cs"
    proof (cases "e = length txt")
      case True
      then show ?thesis using that [of "[]"] e raw \<open>start < length txt\<close> chunks_from_end by (simp add: chunk_loop.simps [of "txt" n overlap start])
    next
      case False
      have "length txt - ?s < length txt - start" using s(1) True by simp
      then obtain cs where "chunk_loop txt n overlap ?s ?chunks = Done (?chunks @ cs)" "chunks_from txt n overlap ?s (length ?chunks) cs"
        using less.hyps [OF _ s(4), of ?chunks] by blast
      then show ?thesis using that [of cs] e raw True False
        by (simp add: chunk_loop.simps [of "txt" n overlap start] Let_def)
    qed
    show ?thesis
    proof (cases "trim ?raw = []")
      case True
      then show ?thesis using loop chunks_from_blank [OF _ s(1,2) e(3) True] cs by auto
    next
      case False
      then have "chunks_from txt n overlap start (length chunks) (?c # cs)"
        using chunks_from_step [OF _ s(1-3) ok [OF False]] cs by simp
      then show ?thesis using loop False by auto
    qed
  qed
qed

text \<open>
  C33. The chunks of a text, for every valid UTF-8 text, positive size and overlap: chunking returns without a panic;
  the chunks are numbered from zero and start at increasing offsets; each is the trimmed text between two
  character boundaries, not empty, and at most one character longer than the size; two chunks share at most the
  overlap and one character; and every byte of the text is in a chunk or in a stretch of white space.
\<close>

theorem chunks_cover_text:
  assumes "utf8_valid txt" and "0 < chunk_size"
  shows "\<exists>cs. chunk_text txt chunk_size overlap = Done cs
    \<and> map tc_index cs = [0..<length cs]
    \<and> (\<forall>c\<in>set cs. tc_start c < tc_end c \<and> tc_end c \<le> length txt \<and> tc_end c \<le> tc_start c + chunk_size + 3
         \<and> is_char_boundary txt (tc_start c) \<and> is_char_boundary txt (tc_end c)
         \<and> tc_text c = trim (slice txt (tc_start c) (tc_end c)) \<and> tc_text c \<noteq> [])
    \<and> sorted_wrt (\<lambda>c d. tc_start c < tc_start d \<and> tc_end c \<le> tc_start d + overlap + 3) cs
    \<and> (\<forall>i<length txt. (\<exists>c\<in>set cs. tc_start c \<le> i \<and> i < tc_end c)
         \<or> (\<exists>a b. a \<le> i \<and> i < b \<and> b \<le> length txt \<and> trim (slice txt a b) = []))"
proof -
  obtain cs where cs: "chunk_text txt chunk_size overlap = Done cs" "chunks_from txt chunk_size (min overlap (chunk_size - 1)) 0 0 cs"
    using chunk_loop_ok [OF assms is_char_boundary_0, of "min overlap (chunk_size - 1)" "[]"] assms(2) by (auto simp: chunk_text_def)
  have "sorted_wrt (\<lambda>c d. tc_start c < tc_start d \<and> tc_end c \<le> tc_start d + overlap + 3) cs"
    using cs(2) unfolding chunks_from_def by (auto elim!: sorted_wrt_mono_rel [rotated])
  then show ?thesis using cs by (auto simp: chunks_from_def chunk_ok_def covers_def)
qed

section \<open>Truncation is reported\<close>

lemma and_then_Ok_iff: "and_then r f = Ok y \<longleftrightarrow> (\<exists>x. r = Ok x \<and> f x = Ok y)"
  by (cases r) auto

lemma zim_err_Ok: "zim_err r = Ok x \<longleftrightarrow> r = Ok x"
  by (cases r) (simp_all add: zim_err_def)

lemma ok_or_else_Ok: "ok_or_else e x = Ok y \<longleftrightarrow> x = Some y"
  by (cases x) (simp_all add: ok_or_else_def)

lemmas result_ok = and_then_Ok_iff zim_err_Ok ok_or_else_Ok

text \<open>The bytes of the entry a path leads to.\<close>

definition entry_bytes :: "entry_ops \<Rightarrow> string \<Rightarrow> string \<Rightarrow> bool" where
  "entry_bytes A path b \<longleftrightarrow> (\<exists>e d c. find_entry A path = Ok (Some e) \<and> eo_resolve A e = Ok d
     \<and> eo_entry_content A d = Ok (Some c) \<and> bl_bytes c = Ok b)"

lemma read_entry_bytes:
  assumes "read_zim_entry_blocking strip A path = Ok (t, title, capped)"
  obtains b where "entry_bytes A path b" and "t = strip (from_utf8_lossy (take MAX_READ_BYTES b))" and "capped \<longleftrightarrow> MAX_READ_BYTES < length b"
proof -
  obtain e d c b where "find_entry A path = Ok (Some e)" "eo_resolve A e = Ok d" "eo_entry_content A d = Ok (Some c)" "bl_bytes c = Ok b"
    and "t = html_to_text strip (fst (cap_read b))" "capped = snd (cap_read b)"
    using assms unfolding read_zim_entry_blocking_def result_ok by (auto simp: case_prod_beta)
  then show thesis using that [of b] by (auto simp: entry_bytes_def cap_read_def html_to_text_def split: if_splits)
qed

lemma read_entry_source:
  assumes "read_zim_entry E zim path s = (Ok (t, title, capped), s')"
  obtains A b where "fst (open_zim (re_open E) zim s) = Ok A" and "entry_bytes A path b"
    and "t = re_strip E (from_utf8_lossy (take MAX_READ_BYTES b))" and "capped \<longleftrightarrow> MAX_READ_BYTES < length b"
proof -
  obtain A where "fst (open_zim (re_open E) zim s) = Ok A" "read_zim_entry_blocking (re_strip E) A path = Ok (t, title, capped)"
    using assms by (auto simp: read_zim_entry_def split: prod.splits sum.splits option.splits)
  then show thesis using read_entry_bytes that by metis
qed

lemma char_count_append: "char_count (a @ b) = char_count a + char_count b"
  by (simp add: char_count_def)

lemma char_count_piece: "char_count (c # takeWhile is_continuation cs) \<le> 1"
proof -
  have "filter (\<lambda>c. \<not> is_continuation c) (takeWhile is_continuation cs) = []" by (simp add: filter_empty_conv) (meson set_takeWhileD)
  then show ?thesis by (simp add: char_count_def)
qed

lemma char_count_take: "char_count (take_chars n s) \<le> n"
proof (induction s arbitrary: n rule: utf8_chars.induct)
  case (2 c cs)
  show ?case
  proof (cases n)
    case (Suc m)
    then show ?thesis using 2 [of m] char_count_piece [of c cs]
      by (simp add: take_chars_def char_count_append [of "c # takeWhile is_continuation cs", simplified])
  qed (simp add: take_chars_def char_count_def)
qed (simp add: take_chars_def char_count_def)

lemma char_count_ellipsis: "char_count ELLIPSIS = 1"
  by (simp add: char_count_def ELLIPSIS_def bytes_str_def is_continuation_def ascii_def)

lemma truncate_preview_count: "truncate_preview t n = (c, full) \<Longrightarrow> full = char_count t \<and> char_count c \<le> n + 1 \<and> (full \<le> n \<longrightarrow> c = t)"
  using char_count_take [of n t] by (auto simp: truncate_preview_def Let_def char_count_append char_count_ellipsis)

text \<open>
  C34. An article read that does not report truncation is complete: its text is that of all bytes of the entry in
  the archive as opened for the request, or, when the archive could not be read, a stored preview shorter than
  what indexing cuts previews at. Every answer has at most the requested number of characters and one more.
\<close>

theorem untruncated_read_is_complete:
  assumes "read_article_payload E zim path n s = (Ok r, s')"
  shows "char_count (rr_content r) \<le> n + 1 \<and> (\<not> rr_truncated r \<longrightarrow>
      (rr_source r = ''zim'' \<and> (\<exists>A b. fst (open_zim (re_open E) zim s) = Ok A \<and> entry_bytes A path b
         \<and> rr_content r = re_strip E (from_utf8_lossy b)))
      \<or> (rr_source r = ''db'' \<and> (\<exists>a e. article_at (re_zims E) (re_articles E) zim path = Some a
         \<and> at_content_preview a = Some (rr_content r) \<and> char_count (rr_content r) < PREVIEW_CHARS
         \<and> fst (read_zim_entry E zim path s) = Err e)))"
proof -
  let ?n = "clamp_read_max_length n"
  obtain q where q: "read_zim_entry E zim path s = (q, s')"
    using assms by (auto simp: read_article_payload_def Let_def split: if_splits prod.splits)
  obtain t source title capped where src: "read_source E zim path q = Ok (t, source, title, capped)"
    and r: "rr_content r = fst (truncate_preview t ?n)" "rr_source r = source"
      "rr_truncated r \<longleftrightarrow> read_response_truncated source (snd (truncate_preview t ?n)) ?n \<or> capped"
    using assms q unfolding read_article_payload_def by (auto simp: Let_def result_ok case_prod_beta split: if_splits)
  obtain c full where tp: "truncate_preview t ?n = (c, full)" by fastforce
  note count = truncate_preview_count [OF tp]
  have rs: "rr_content r = c" "rr_truncated r \<longleftrightarrow> read_response_truncated source full ?n \<or> capped" "rr_source r = source"
    using r tp by auto
  have "char_count (rr_content r) \<le> n + 1" using count rs(1) by (auto simp: clamp_read_max_length_def)
  moreover have "(rr_source r = ''zim'' \<and> (\<exists>A b. fst (open_zim (re_open E) zim s) = Ok A \<and> entry_bytes A path b
         \<and> rr_content r = re_strip E (from_utf8_lossy b)))
      \<or> (rr_source r = ''db'' \<and> (\<exists>a e. article_at (re_zims E) (re_articles E) zim path = Some a
         \<and> at_content_preview a = Some (rr_content r) \<and> char_count (rr_content r) < PREVIEW_CHARS
         \<and> fst (read_zim_entry E zim path s) = Err e))" if "\<not> rr_truncated r"
  proof -
    have nt: "\<not> capped" "\<not> (source = ''db'' \<and> PREVIEW_CHARS \<le> full)" "c = t"
      using that rs count by (auto simp: read_response_truncated_def)
    show ?thesis
    proof (cases q)
      case (Inr p)
      then have p: "q = Ok (t, fst (snd p), capped)" "source = ''zim''" using src by (cases p; simp add: read_source_def)+
      obtain A b where "fst (open_zim (re_open E) zim s) = Ok A" "entry_bytes A path b"
          "t = re_strip E (from_utf8_lossy (take MAX_READ_BYTES b))" "capped \<longleftrightarrow> MAX_READ_BYTES < length b"
        using read_entry_source [OF q [unfolded p(1)]] by metis
      then show ?thesis using nt rs p(2) by auto
    next
      case (Inl e)
      then show ?thesis using src nt rs q count by (auto simp: read_source_def split: option.splits)
    qed
  qed
  ultimately show ?thesis by blast
qed

section \<open>Samples\<close>

text \<open>A line break near the start of a window ends it there, so a window may advance by less than half of the size.\<close>

definition sample_lines :: string where "sample_lines = ''a'' @ [CHR 0x0A] @ ''bbbbbbbbbbbb''"

lemma sample_ends: "chunk_end_of sample_lines 10 0 = Done 2" "chunk_end_of sample_lines 10 2 = Done 12" "chunk_end_of sample_lines 10 7 = Done 14"
  by (simp_all add: sample_lines_def chunk_end_of_def ceil_char_boundary_def is_continuation_def ascii_def str_slice_def slice_def is_char_boundary_def Let_def)

lemma sample_slices: "str_slice sample_lines 0 2 = Done (''a'' @ [CHR 0x0A])" "str_slice sample_lines 2 12 = Done ''bbbbbbbbbb''" "str_slice sample_lines 7 14 = Done ''bbbbbbb''"
  by (simp_all add: sample_lines_def str_slice_def slice_def is_char_boundary_def is_continuation_def ascii_def)

lemma sample_floor: "floor_char_boundary sample_lines 7 = 7"
  by (simp add: sample_lines_def is_continuation_def ascii_def numeral_eq_Suc)

lemma sample_trim: "trim (''a'' @ [CHR 0x0A]) = ''a''" "trim ''bbbbbbbbbb'' = ''bbbbbbbbbb''" "trim ''bbbbbbb'' = ''bbbbbbb''"
  by (rule trim_newline, simp_all add: printable_def ascii_def)

lemma short_first_window:
  "chunk_text sample_lines 10 5 = Done
     [\<lparr>tc_index = 0, tc_start = 0, tc_end = 2, tc_text = ''a''\<rparr>, \<lparr>tc_index = 1, tc_start = 2, tc_end = 12, tc_text = ''bbbbbbbbbb''\<rparr>,
      \<lparr>tc_index = 2, tc_start = 7, tc_end = 14, tc_text = ''bbbbbbb''\<rparr>]"
proof -
  have len: "length sample_lines = 14" by (simp add: sample_lines_def)
  have "chunk_loop sample_lines 10 5 7 cs = Done (cs @ [\<lparr>tc_index = length cs, tc_start = 7, tc_end = 14, tc_text = ''bbbbbbb''\<rparr>])" for cs
    by (subst chunk_loop.simps) (simp add: len sample_ends sample_slices sample_trim)
  then have "chunk_loop sample_lines 10 5 2 cs = Done (cs @ [\<lparr>tc_index = length cs, tc_start = 2, tc_end = 12, tc_text = ''bbbbbbbbbb''\<rparr>,
      \<lparr>tc_index = Suc (length cs), tc_start = 7, tc_end = 14, tc_text = ''bbbbbbb''\<rparr>])" for cs
    by (subst chunk_loop.simps) (simp add: len sample_ends sample_slices sample_trim sample_floor del: floor_char_boundary.simps)
  then show ?thesis
    unfolding chunk_text_def
    by (subst chunk_loop.simps) (simp add: len sample_ends sample_slices [simplified] sample_trim [simplified])
qed

theorem chunks_cover_text_witness:
  "utf8_valid sample_lines \<and> list_all (\<lambda>i. i < 2 \<or> 2 \<le> i \<and> i < 12 \<or> 7 \<le> i \<and> i < 14
     \<or> (\<exists>a b. a \<le> i \<and> i < b \<and> b \<le> 14 \<and> trim (slice sample_lines a b) = [])) [0..<14]"
proof -
  have v: "utf8_valid sample_lines" by (simp add: sample_lines_def byte_in_def ascii_def)
  have "length sample_lines = 14" by (simp add: sample_lines_def)
  then show ?thesis using chunks_cover_text [OF v, of 10 5] v short_first_window by (auto simp: list_all_iff)
qed
definition sample_entries :: entry_ops where
  "sample_entries = \<lparr>eo_get_by_path = (\<lambda>_ _. Ok (Some \<lparr>de_title = ''T'', de_mime_type = Type ''text/html''\<rparr>)), eo_resolve = Ok,
     eo_entry_content = (\<lambda>_. Ok (Some \<lparr>bl_len = Ok 2, bl_bytes = Ok ''hi''\<rparr>))\<rparr>"

definition sample_read_env :: read_env where
  "sample_read_env = \<lparr>re_open = \<lparr>oi_now_ms = 5000, oi_stat = Some (Some 7, 10), oi_parse = Ok (Ok sample_entries), oi_between = id, oi_order = []\<rparr>,
     re_task = None, re_strip = id, re_zims = Map.empty, re_articles = Map.empty, re_query = None, re_panic = []\<rparr>"

definition sample_reader :: "entry_ops zim_manager" where
  "sample_reader = (zim_manager_new [''zims''] Map.empty 0)\<lparr>mg_cache := fmupd ''wiki'' (stub ''wiki'' ''zims/wiki.ZIM'' 10) fmempty\<rparr>"

lemma sample_reader_opens:
  "fst (open_zim_impl (re_open sample_read_env) ''wiki'' b sample_reader) = Ok sample_entries"
  by (simp add: open_zim_impl_def sample_read_env_def sample_reader_def zim_manager_new_def file_path_of_def
      recently_stated_def reuse_valid_def open_zim_slow_def Let_def)

lemma sample_read:
  "\<exists>s'. read_article_payload sample_read_env ''wiki'' ''A/x'' 10 sample_reader =
     (Ok \<lparr>rr_title = ''T'', rr_zim = ''wiki'', rr_path = ''A/x'', rr_content = ''hi'', rr_truncated = False, rr_full_length = 2, rr_source = ''zim''\<rparr>, s')"
proof -
  obtain s' where "open_zim (re_open sample_read_env) ''wiki'' sample_reader = (Ok sample_entries, s')"
    using sample_reader_opens [of False] by (cases "open_zim (re_open sample_read_env) ''wiki'' sample_reader") (simp add: open_zim_def)
  moreover have "read_zim_entry_blocking id sample_entries ''A/x'' = Ok (''hi'', ''T'', False)"
    by (simp add: read_zim_entry_blocking_def sample_entries_def find_entry_def zim_err_def ok_or_else_def cap_read_def MAX_READ_BYTES_def
        html_to_text_def sample_text del: from_utf8_lossy.simps)
  ultimately have "read_zim_entry sample_read_env ''wiki'' ''A/x'' sample_reader = (Ok (''hi'', ''T'', False), s')"
    by (simp add: read_zim_entry_def) (simp add: sample_read_env_def)
  moreover have "is_known sample_reader ''wiki''" by (simp add: is_known_def sample_reader_def)
  ultimately show ?thesis
    by (simp add: read_article_payload_def read_source_def truncate_preview_def clamp_read_max_length_def MAX_READ_BYTES_def
        char_count_def is_continuation_def ascii_def read_response_truncated_def)
qed

theorem untruncated_read_is_complete_witness:
  "\<exists>r s'. read_article_payload sample_read_env ''wiki'' ''A/x'' 10 sample_reader = (Ok r, s') \<and> \<not> rr_truncated r \<and> rr_source r = ''zim''
     \<and> (\<exists>A b. fst (open_zim (re_open sample_read_env) ''wiki'' sample_reader) = Ok A \<and> entry_bytes A ''A/x'' b
         \<and> rr_content r = re_strip sample_read_env (from_utf8_lossy b))"
proof -
  obtain r s' where "read_article_payload sample_read_env ''wiki'' ''A/x'' 10 sample_reader = (Ok r, s')" "\<not> rr_truncated r" "rr_source r = ''zim''"
    using sample_read by fastforce
  then show ?thesis using untruncated_read_is_complete [of sample_read_env "''wiki''" "''A/x''" 10 sample_reader r s'] by auto
qed

end
