(* ===== verification/RawContent.thy ===== *)
theory RawContent
  imports Content
begin

text \<open>
  Raw entries for the browser (\<open>src/serve/handlers/content.rs\<close> and the headers of \<open>src/serve/handlers/web.rs\<close>): single byte
  ranges, revalidation with entity tags, content types and the answer with its headers.

  Byte counts are natural numbers; a number in a range header has 64 bits, as its parser says. What the \<open>axum\<close>
  crate answers when a header value is not valid is a parameter.
\<close>

section \<open>Content types\<close>

definition SCRIPT_TYPES :: "string list" where
  "SCRIPT_TYPES =
     [''text/javascript'', ''text/ecmascript'', ''application/javascript'', ''application/x-javascript'', ''application/ecmascript'',
      ''application/x-ecmascript'', ''text/jscript'', ''application/x-jscript'', ''text/typescript'', ''application/xslt+xml'', ''text/xsl'']"

definition is_script_executing_mime :: "string \<Rightarrow> bool" where
  "is_script_executing_mime mime \<longleftrightarrow> mime \<in> set SCRIPT_TYPES"

text \<open>The type without its parameters.\<close>

definition mime_essence :: "string \<Rightarrow> string" where
  "mime_essence s = trim (hd (split_on CHR '';'' s))"

definition PLAIN_TEXT :: string where "PLAIN_TEXT = ''text/plain; charset=utf-8''"

definition content_type_for :: "mime_type \<Rightarrow> string" where
  "content_type_for mt =
     (case mt of
        Type s \<Rightarrow>
          let lower = to_ascii_lowercase s
          in if is_script_executing_mime (mime_essence lower) then PLAIN_TEXT
             else if starts_with lower ''text/'' \<and> \<not> str_contains lower ''charset'' then s @ ''; charset=utf-8''
             else s
      | Redirect \<Rightarrow> ''text/html''
      | _ \<Rightarrow> ''application/octet-stream'')"

definition RAW_CONTENT_CSP :: string where
  "RAW_CONTENT_CSP =
     ''default-src '' @ [CHR 0x27] @ ''none'' @ [CHR 0x27] @ ''; script-src '' @ [CHR 0x27] @ ''none'' @ [CHR 0x27]
     @ ''; style-src '' @ [CHR 0x27] @ ''unsafe-inline'' @ [CHR 0x27] @ ''; img-src data: blob:; font-src data:; frame-ancestors ''
     @ [CHR 0x27] @ ''none'' @ [CHR 0x27]"

definition is_browser_html :: "string \<Rightarrow> bool" where
  "is_browser_html content_type \<longleftrightarrow> mime_essence content_type \<in> {''text/html'', ''application/xhtml+xml'', ''image/svg+xml''}"

definition raw_content_security_headers :: "string \<Rightarrow> (string \<times> string) list" where
  "raw_content_security_headers content_type =
     (''content-security-policy'', RAW_CONTENT_CSP) # (if is_browser_html content_type then [(''x-frame-options'', ''DENY'')] else [])"

section \<open>Ranges\<close>

datatype parsed_range = Slice nat nat | Unsatisfiable

datatype range_num = Val nat | Overflow | Invalid

definition parse_range_num :: "string \<Rightarrow> range_num" where
  "parse_range_num s =
     (let t = trim s
      in if t = [] \<or> \<not> list_all is_ascii_digit t then Invalid
         else (case parse_unsigned 64 t of Some v \<Rightarrow> Val v | None \<Rightarrow> Overflow))"

definition resolve_range :: "string \<Rightarrow> string \<Rightarrow> nat \<Rightarrow> parsed_range option" where
  "resolve_range start_s end_s entity_len =
     (if start_s = [] then
        (case parse_range_num end_s of
           Val suf \<Rightarrow> if suf = 0 then Some Unsatisfiable else Some (Slice (entity_len - suf) (entity_len - 1))
         | Overflow \<Rightarrow> Some (Slice 0 (entity_len - 1))
         | Invalid \<Rightarrow> None)
      else if end_s = [] then
        (case parse_range_num start_s of
           Val start \<Rightarrow> if start \<ge> entity_len then Some Unsatisfiable else Some (Slice start (entity_len - 1))
         | Overflow \<Rightarrow> Some Unsatisfiable
         | Invalid \<Rightarrow> None)
      else
        (case parse_range_num start_s of
           Overflow \<Rightarrow> Some Unsatisfiable
         | Invalid \<Rightarrow> None
         | Val start \<Rightarrow>
             (let in_bounds = (\<lambda>e. if start \<ge> entity_len \<or> e < start then Some Unsatisfiable
                                   else Some (Slice start (if e \<ge> entity_len then entity_len - 1 else e)))
              in case parse_range_num end_s of
                   Val e \<Rightarrow> in_bounds e
                 | Overflow \<Rightarrow> in_bounds (entity_len - 1)
                 | Invalid \<Rightarrow> None)))"

definition parse_single_range :: "string \<Rightarrow> nat \<Rightarrow> parsed_range option" where
  "parse_single_range header_value entity_len =
     Option.bind (strip_prefix ''bytes='' (trim header_value)) (\<lambda>spec.
       if CHR '','' \<in> set spec then None
       else if entity_len = 0 then Some Unsatisfiable
       else (case split_once CHR ''-'' spec of
               None \<Rightarrow> None
             | Some (start_s, end_s) \<Rightarrow> resolve_range start_s end_s entity_len))"

definition slice_range_bytes :: "nat \<Rightarrow> parsed_range option \<Rightarrow> (nat \<times> nat) option" where
  "slice_range_bytes entity_len pr =
     (case pr of Some (Slice a b) \<Rightarrow> Some (min a entity_len, min (b + 1) entity_len) | _ \<Rightarrow> None)"

definition if_none_match_matches :: "string \<Rightarrow> string \<Rightarrow> bool" where
  "if_none_match_matches header_value etag \<longleftrightarrow>
     (let v = trim header_value in v = ''*'' \<or> list_ex (\<lambda>e. trim e = etag) (split_on CHR '','' v))"

section \<open>The read\<close>

definition MAX_RAW_BYTES :: nat where "MAX_RAW_BYTES = 64 * 1024 * 1024"

datatype raw_read =
    NotModified string
  | Read "string option" string nat "parsed_range option" string

text \<open>\<open>b.get(a..b).unwrap_or(&[])\<close>\<close>

definition get_slice :: "string \<Rightarrow> nat \<Rightarrow> nat \<Rightarrow> string" where
  "get_slice b i j = (if i \<le> j \<and> j \<le> length b then slice b i j else [])"

definition range_body :: "blob \<Rightarrow> nat \<Rightarrow> parsed_range option \<Rightarrow> (string, error) result" where
  "range_body content entity_len pr =
     (if entity_len > MAX_RAW_BYTES then Ok []
      else (case pr of
              Some (Slice _ _) \<Rightarrow>
                (case (case slice_range_bytes entity_len pr of Some w \<Rightarrow> w | None \<Rightarrow> (0, 0)) of
                   (i, j) \<Rightarrow> and_then (zim_err (bl_bytes content)) (\<lambda>b. Ok (get_slice b i j)))
            | Some Unsatisfiable \<Rightarrow> Ok []
            | None \<Rightarrow> zim_err (bl_bytes content)))"

definition read_raw_body :: "entry_ops \<Rightarrow> string \<Rightarrow> string option \<Rightarrow> string option \<Rightarrow> (raw_read, error) result" where
  "read_raw_body A path range_header etag =
     and_then (and_then (find_entry A path) (ok_or_else (path_not_found path))) (\<lambda>entry.
     and_then (zim_err (eo_resolve A entry)) (\<lambda>resolved.
     and_then (and_then (zim_err (eo_entry_content A resolved)) (ok_or_else (NotFound ''no content''))) (\<lambda>content.
     and_then (zim_err (bl_len content)) (\<lambda>entity_len.
       let pr = Option.bind range_header (\<lambda>h. parse_single_range h entity_len)
       in and_then (range_body content entity_len pr) (\<lambda>bytes.
            Ok (Read etag (content_type_for (de_mime_type resolved)) entity_len pr bytes))))))"

text \<open>\<open>md\<close> is the outcome of the fresh stat of the file.\<close>

definition read_raw_entry_blocking ::
  "entry_ops \<Rightarrow> string \<Rightarrow> string option \<Rightarrow> file_stat \<Rightarrow> string option \<Rightarrow> (raw_read, error) result" where
  "read_raw_entry_blocking A path range_header md if_none_match =
     (let etag = etag_from_metadata md
      in case (if_none_match, etag) of
           (Some inm, Some tag) \<Rightarrow>
             if if_none_match_matches inm tag then Ok (NotModified tag) else read_raw_body A path range_header etag
         | _ \<Rightarrow> read_raw_body A path range_header etag)"

section \<open>The answer\<close>

record http_response =
  hr_status :: nat
  hr_headers :: "(string \<times> string) list"
  hr_body :: string

text \<open>Values of headers: what \<open>HeaderValue\<close> accepts, and what \<open>to_str\<close> gives back as text.\<close>

definition header_value_ok :: "string \<Rightarrow> bool" where
  "header_value_ok v = list_all (\<lambda>c. 32 \<le> ascii c \<and> ascii c \<noteq> 127 \<or> ascii c = 9) v"

definition header_to_str :: "string \<Rightarrow> string option" where
  "header_to_str v = (if list_all (\<lambda>c. 32 \<le> ascii c \<and> ascii c < 127 \<or> ascii c = 9) v then Some v else None)"

definition insert_header :: "string \<Rightarrow> string \<Rightarrow> (string \<times> string) list \<Rightarrow> (string \<times> string) list" where
  "insert_header k v hs = filter (\<lambda>(k', _). k' \<noteq> k) hs @ [(k, v)]"

record raw_env =
  rw_open :: "entry_ops open_io"
  rw_stat :: file_stat
  rw_task :: "string option"
  rw_bad_header :: http_response

text \<open>\<open>(status, headers, body).into_response()\<close>: a body of bytes brings a content type, which the headers replace.\<close>

definition into_response :: "raw_env \<Rightarrow> nat \<Rightarrow> (string \<times> string) list \<Rightarrow> string \<Rightarrow> http_response" where
  "into_response E status hs body =
     (if list_all (\<lambda>(_, v). header_value_ok v) hs
      then \<lparr>hr_status = status,
            hr_headers = fold (\<lambda>(k, v). insert_header k v) hs [(''content-type'', ''application/octet-stream'')], hr_body = body\<rparr>
      else rw_bad_header E)"

fun append_sec_headers :: "(string \<times> string) list \<Rightarrow> http_response \<Rightarrow> http_response" where
  "append_sec_headers [] resp = resp"
| "append_sec_headers ((k, v) # sec) resp =
     append_sec_headers sec (if header_value_ok v then resp\<lparr>hr_headers := hr_headers resp @ [(k, v)]\<rparr> else resp)"

definition insert_etag :: "string option \<Rightarrow> http_response \<Rightarrow> http_response" where
  "insert_etag etag resp =
     (case etag of
        Some tag \<Rightarrow> if header_value_ok tag then resp\<lparr>hr_headers := insert_header ''etag'' tag (hr_headers resp)\<rparr> else resp
      | None \<Rightarrow> resp)"

definition raw_answer :: "raw_env \<Rightarrow> raw_read \<Rightarrow> (http_response, error) result" where
  "raw_answer E r =
     (case r of
        NotModified tag \<Rightarrow> Ok (into_response E 304 [(''etag'', tag)] [])
      | Read etag content_type entity_len pr bytes \<Rightarrow>
          if entity_len > MAX_RAW_BYTES
          then Err (Zim (''entry is '' @ decimal_digits entity_len @ '' bytes, exceeds the '' @ decimal_digits MAX_RAW_BYTES
                         @ ''-byte serving limit''))
          else (case pr of
                  Some (Slice a b) \<Rightarrow>
                    Ok (insert_etag etag (append_sec_headers (raw_content_security_headers content_type)
                      (into_response E 206
                        [(''content-type'', content_type),
                         (''content-range'', ''bytes '' @ decimal_digits a @ ''-'' @ decimal_digits b @ ''/'' @ decimal_digits entity_len),
                         (''content-length'', decimal_digits (length bytes)), (''accept-ranges'', ''bytes''),
                         (''x-content-type-options'', ''nosniff'')] bytes)))
                | Some Unsatisfiable \<Rightarrow> Ok (into_response E 416 [(''content-range'', ''bytes */'' @ decimal_digits entity_len)] [])
                | None \<Rightarrow>
                    Ok (insert_etag etag (append_sec_headers (raw_content_security_headers content_type)
                      (into_response E 200
                        [(''content-type'', content_type), (''content-length'', decimal_digits entity_len), (''accept-ranges'', ''bytes''),
                         (''x-content-type-options'', ''nosniff'')] bytes)))))"

record raw_request =
  rq_zim :: string
  rq_path :: string
  rq_range :: "string option"
  rq_if_none_match :: "string option"

definition raw_content :: "raw_env \<Rightarrow> raw_request \<Rightarrow> entry_ops zim_manager \<Rightarrow> (http_response, error) result \<times> entry_ops zim_manager" where
  "raw_content E req s =
     (case file_path_of s (rq_zim req) of
        None \<Rightarrow> (Err (NotFound (''ZIM '' @ [CHR 0x27] @ rq_zim req @ [CHR 0x27] @ '' not found'')), s)
      | Some _ \<Rightarrow>
          (case open_zim_fresh (rw_open E) (rq_zim req) s of
             (Inl e, s) \<Rightarrow> (Err e, s)
           | (Inr archive, s) \<Rightarrow>
               (case rw_task E of
                  Some e \<Rightarrow> (Err (Internal (''raw content task: '' @ e)), s)
                | None \<Rightarrow>
                    (and_then
                       (read_raw_entry_blocking archive (rq_path req) (Option.bind (rq_range req) header_to_str) (rw_stat E)
                          (Option.bind (rq_if_none_match req) header_to_str))
                       (raw_answer E), s))))"

section \<open>Ranges are windows of the entity\<close>

lemma range_in_entity: "parse_single_range h n = Some (Slice i j) \<Longrightarrow> i \<le> j \<and> j < n"
  by (auto simp: parse_single_range_def resolve_range_def Let_def bind_eq_Some_conv split: if_splits option.splits range_num.splits)

lemma parse_range_digits: "n < 2 ^ 64 \<Longrightarrow> parse_range_num (decimal_digits n) = Val n"
  using decimal_digits_props [of n] by (simp add: parse_range_num_def parse_decimal digits_trim)

lemma digit_range: "c \<in> set (decimal_digits n) \<Longrightarrow> 48 \<le> ascii c \<and> ascii c \<le> 57"
  using decimal_digits_props [of n] by (auto simp: list_all_iff is_ascii_digit_def)

lemma range_header_spec:
  assumes "\<And>c. c \<in> set (x @ y) \<Longrightarrow> 48 \<le> ascii c \<and> ascii c \<le> 57" and "n \<noteq> 0"
  shows "parse_single_range (''bytes='' @ x @ ''-'' @ y) n = resolve_range x y n"
proof -
  have "printable (''bytes='' @ x @ ''-'' @ y)" using assms(1) by (fastforce simp: printable_def ascii_def)
  then have t: "trim (''bytes='' @ x @ ''-'' @ y) = ''bytes='' @ x @ ''-'' @ y" by (rule trim_printable)
  have p: "strip_prefix ''bytes='' (''bytes='' @ x @ ''-'' @ y) = Some (x @ ''-'' @ y)" by (simp add: strip_prefix_def starts_with_def)
  have absent: "c \<notin> set (x @ y)" if "ascii c < 48" for c using assms(1) [of c] that by auto
  have "CHR '','' \<notin> set (x @ ''-'' @ y)" using absent [of "CHR '',''"] by (auto simp: ascii_def)
  moreover have "CHR ''-'' \<notin> set x" using absent [of "CHR ''-''"] by (simp add: ascii_def)
  then have "split_once CHR ''-'' (x @ ''-'' @ y) = Some (x, y)" by (simp add: split_once_Some)
  ultimately show ?thesis using assms(2) unfolding parse_single_range_def t p by simp
qed

text \<open>The three forms of a range on an entity that is not empty. A range that ends before it starts is not satisfiable.\<close>

theorem range_forms:
  assumes "a < 2 ^ 64" and "b < 2 ^ 64" and "n \<noteq> 0"
  shows "parse_single_range (''bytes='' @ decimal_digits a @ ''-'' @ decimal_digits b) n =
           Some (if a \<ge> n \<or> b < a then Unsatisfiable else Slice a (min b (n - 1)))"
    and "parse_single_range (''bytes='' @ decimal_digits a @ ''-'' @ []) n = Some (if a \<ge> n then Unsatisfiable else Slice a (n - 1))"
    and "parse_single_range (''bytes='' @ [] @ ''-'' @ decimal_digits a) n = Some (if a = 0 then Unsatisfiable else Slice (n - a) (n - 1))"
proof -
  have ne: "decimal_digits k \<noteq> []" for k using decimal_digits_props [of k] by simp
  have spec: "parse_single_range (''bytes='' @ x @ ''-'' @ y) n = resolve_range x y n"
    if "x \<in> {[], decimal_digits a}" "y \<in> {[], decimal_digits b, decimal_digits a}" for x y
    by (rule range_header_spec) (use that digit_range assms(3) in auto)
  show "parse_single_range (''bytes='' @ decimal_digits a @ ''-'' @ decimal_digits b) n =
      Some (if a \<ge> n \<or> b < a then Unsatisfiable else Slice a (min b (n - 1)))"
    by (subst spec) (use assms ne in \<open>auto simp: resolve_range_def parse_range_digits Let_def min_def\<close>)
  show "parse_single_range (''bytes='' @ decimal_digits a @ ''-'' @ []) n = Some (if a \<ge> n then Unsatisfiable else Slice a (n - 1))"
    by (subst spec) (use assms ne in \<open>auto simp: resolve_range_def parse_range_digits\<close>)
  show "parse_single_range (''bytes='' @ [] @ ''-'' @ decimal_digits a) n = Some (if a = 0 then Unsatisfiable else Slice (n - a) (n - 1))"
    by (subst spec) (use assms ne in \<open>auto simp: resolve_range_def parse_range_digits\<close>)
qed

lemma range_body_slice:
  assumes "bl_bytes c = Ok b" and "length b \<le> MAX_RAW_BYTES" and "i \<le> j" and "j < length b"
  shows "range_body c (length b) (Some (Slice i j)) = Ok (slice b i (j + 1))"
  using assms by (simp add: range_body_def slice_range_bytes_def zim_err_def get_slice_def min_def)

section \<open>Exact bodies\<close>

definition entry_at :: "entry_ops \<Rightarrow> string \<Rightarrow> dirent \<Rightarrow> blob \<Rightarrow> bool" where
  "entry_at A path d c \<longleftrightarrow> (\<exists>e. find_entry A path = Ok (Some e) \<and> eo_resolve A e = Ok d \<and> eo_entry_content A d = Ok (Some c))"

lemma raw_body_of_entry:
  assumes "entry_at A path d c" and "bl_len c = Ok n"
  shows "read_raw_body A path h etag =
    (let pr = Option.bind h (\<lambda>h. parse_single_range h n)
     in and_then (range_body c n pr) (\<lambda>bytes. Ok (Read etag (content_type_for (de_mime_type d)) n pr bytes)))"
  using assms by (auto simp: entry_at_def read_raw_body_def ok_or_else_def zim_err_def)

lemma digits_header_ok: "header_value_ok (decimal_digits n)"
  using digit_range [of _ n] by (fastforce simp: header_value_ok_def list_all_iff)

lemma header_ok_append: "header_value_ok (a @ b) \<longleftrightarrow> header_value_ok a \<and> header_value_ok b"
  by (simp add: header_value_ok_def)

lemma header_ok_Cons: "header_value_ok (c # s) \<longleftrightarrow> (32 \<le> ascii c \<and> ascii c \<noteq> 127 \<or> ascii c = 9) \<and> header_value_ok s"
  by (simp add: header_value_ok_def)

lemma header_ok_Nil: "header_value_ok []"
  by (simp add: header_value_ok_def)

lemma ascii_header_chars: "ascii CHR 0x22 = 34" "ascii CHR ''-'' = 45" "ascii CHR ''/'' = 47" "ascii CHR '' '' = 32" "ascii CHR ''*'' = 42"
  "ascii CHR ''b'' = 98" "ascii CHR ''y'' = 121" "ascii CHR ''t'' = 116" "ascii CHR ''e'' = 101" "ascii CHR ''s'' = 115"
  "ascii CHR ''n'' = 110" "ascii CHR ''o'' = 111" "ascii CHR ''i'' = 105" "ascii CHR ''f'' = 102"
  by (simp_all add: ascii_def)

lemmas header_ok = header_ok_append header_ok_Cons header_ok_Nil digits_header_ok ascii_header_chars

lemma etag_header_ok: "etag_from_metadata md = Some tag \<Longrightarrow> header_value_ok tag"
  by (auto simp: etag_from_metadata_def header_ok split: option.splits prod.splits)

lemma append_sec_headers_list:
  "list_all (\<lambda>(_, v). header_value_ok v) sec \<Longrightarrow> append_sec_headers sec r = r\<lparr>hr_headers := hr_headers r @ sec\<rparr>"
  by (induction sec r rule: append_sec_headers.induct) auto

lemma append_sec_headers_eq:
  "append_sec_headers (raw_content_security_headers ct) r = r\<lparr>hr_headers := hr_headers r @ raw_content_security_headers ct\<rparr>"
  by (rule append_sec_headers_list)
    (simp add: raw_content_security_headers_def RAW_CONTENT_CSP_def header_value_ok_def ascii_def)

lemma insert_etag_keeps [simp]: "hr_status (insert_etag t r) = hr_status r" "hr_body (insert_etag t r) = hr_body r"
  by (simp_all add: insert_etag_def split: option.splits)

lemma insert_etag_header: "k \<noteq> ''etag'' \<Longrightarrow> (k, v) \<in> set (hr_headers (insert_etag t r)) \<longleftrightarrow> (k, v) \<in> set (hr_headers r)"
  by (auto simp: insert_etag_def insert_header_def split: option.splits)

text \<open>The answers with a body, when the content type can be a header.\<close>

lemma answer_whole:
  assumes "n \<le> MAX_RAW_BYTES" and "header_value_ok ct" and "raw_answer E (Read etag ct n None bytes) = Ok resp"
  shows "hr_status resp = 200 \<and> hr_body resp = bytes \<and> (''content-length'', decimal_digits n) \<in> set (hr_headers resp)"
  using assms by (auto simp: raw_answer_def into_response_def header_ok insert_header_def insert_etag_header append_sec_headers_eq)

lemma answer_part:
  assumes "n \<le> MAX_RAW_BYTES" and "header_value_ok ct" and "raw_answer E (Read etag ct n (Some (Slice i j)) bytes) = Ok resp"
  shows "hr_status resp = 206 \<and> hr_body resp = bytes \<and> (''content-length'', decimal_digits (length bytes)) \<in> set (hr_headers resp)
    \<and> (''content-range'', ''bytes '' @ decimal_digits i @ ''-'' @ decimal_digits j @ ''/'' @ decimal_digits n) \<in> set (hr_headers resp)"
  using assms by (auto simp: raw_answer_def into_response_def header_ok insert_header_def insert_etag_header append_sec_headers_eq)

lemma answer_unsatisfiable:
  assumes "n \<le> MAX_RAW_BYTES" and "raw_answer E (Read etag ct n (Some Unsatisfiable) bytes) = Ok resp"
  shows "hr_status resp = 416 \<and> hr_body resp = [] \<and> (''content-range'', ''bytes */'' @ decimal_digits n) \<in> set (hr_headers resp)"
  using assms by (auto simp: raw_answer_def into_response_def header_ok insert_header_def)

lemma answer_not_modified:
  assumes "header_value_ok tag" and "raw_answer E (NotModified tag) = Ok resp"
  shows "hr_status resp = 304 \<and> hr_body resp = [] \<and> (''etag'', tag) \<in> set (hr_headers resp)"
  using assms by (auto simp: raw_answer_def into_response_def header_ok insert_header_def)

text \<open>A request that is answered: the archive it opened and what was read of it.\<close>

lemma raw_content_answered:
  assumes "raw_content E req s = (Ok resp, s')"
  obtains A r where "fst (open_zim_fresh (rw_open E) (rq_zim req) s) = Ok A" and "raw_answer E r = Ok resp"
    and "read_raw_entry_blocking A (rq_path req) (Option.bind (rq_range req) header_to_str) (rw_stat E)
           (Option.bind (rq_if_none_match req) header_to_str) = Ok r"
  using assms by (auto simp: raw_content_def result_ok split: option.splits prod.splits sum.splits)

lemma header_to_str_Some: "Option.bind h header_to_str = Some v \<Longrightarrow> h = Some v"
  by (auto simp: header_to_str_def bind_eq_Some_conv split: if_splits)

text \<open>
  C35. A request for a raw entry that is answered gets exactly the bytes of the entry of that path in the archive opened
  for it: all of them with status 200 and their count as the length, or with status 206 the bytes of the range the
  header names, which lie in the entry and are the ones the answer's range and length name; or it gets no body, with
  status 416 for a range outside of the entry, or 304 when the client's tag is that of the file as it is now.
\<close>

theorem raw_content_exact:
  assumes "raw_content E req s = (Ok resp, s')" and "fst (open_zim_fresh (rw_open E) (rq_zim req) s) = Ok A"
    and "entry_at A (rq_path req) d c" and "bl_bytes c = Ok b" and "bl_len c = Ok (length b)"
    and "header_value_ok (content_type_for (de_mime_type d))"
  shows "(hr_status resp = 200 \<and> hr_body resp = b \<and> (''content-length'', decimal_digits (length b)) \<in> set (hr_headers resp))
    \<or> (\<exists>h i j. hr_status resp = 206 \<and> rq_range req = Some h \<and> parse_single_range h (length b) = Some (Slice i j) \<and> i \<le> j \<and> j < length b
         \<and> hr_body resp = slice b i (j + 1) \<and> (''content-length'', decimal_digits (j + 1 - i)) \<in> set (hr_headers resp)
         \<and> (''content-range'', ''bytes '' @ decimal_digits i @ ''-'' @ decimal_digits j @ ''/'' @ decimal_digits (length b)) \<in> set (hr_headers resp))
    \<or> (\<exists>h. hr_status resp = 416 \<and> rq_range req = Some h \<and> parse_single_range h (length b) = Some Unsatisfiable \<and> hr_body resp = []
         \<and> (''content-range'', ''bytes */'' @ decimal_digits (length b)) \<in> set (hr_headers resp))
    \<or> (\<exists>inm tag. hr_status resp = 304 \<and> rq_if_none_match req = Some inm \<and> etag_from_metadata (rw_stat E) = Some tag
         \<and> if_none_match_matches inm tag \<and> hr_body resp = [])"
proof -
  let ?h = "Option.bind (rq_range req) header_to_str" and ?inm = "Option.bind (rq_if_none_match req) header_to_str"
  let ?ct = "content_type_for (de_mime_type d)" and ?etag = "etag_from_metadata (rw_stat E)"
  let ?pr = "Option.bind ?h (\<lambda>h. parse_single_range h (length b))"
  obtain r where ans: "raw_answer E r = Ok resp" and rd: "read_raw_entry_blocking A (rq_path req) ?h (rw_stat E) ?inm = Ok r"
    using raw_content_answered [OF assms(1)] assms(2) by auto
  show ?thesis
  proof (cases "\<exists>inm tag. ?inm = Some inm \<and> ?etag = Some tag \<and> if_none_match_matches inm tag")
    case True
    then obtain inm tag where t: "?inm = Some inm" "?etag = Some tag" "if_none_match_matches inm tag" by blast
    then have "r = NotModified tag" using rd by (simp add: read_raw_entry_blocking_def)
    then show ?thesis using answer_not_modified [OF etag_header_ok [OF t(2)]] ans t header_to_str_Some [OF t(1)] by auto
  next
    case False
    then have "read_raw_body A (rq_path req) ?h ?etag = Ok r"
      using rd by (auto simp: read_raw_entry_blocking_def Let_def split: option.splits if_splits)
    then obtain bytes where bytes: "range_body c (length b) ?pr = Ok bytes" and r: "r = Read ?etag ?ct (length b) ?pr bytes"
      using raw_body_of_entry [OF assms(3,5)] by (auto simp: Let_def result_ok)
    have n: "length b \<le> MAX_RAW_BYTES" using ans r by (auto simp: raw_answer_def split: if_splits)
    consider "?pr = None" | i j where "?pr = Some (Slice i j)" | "?pr = Some Unsatisfiable" by (cases ?pr; cases "the ?pr") auto
    then show ?thesis
    proof cases
      case 1
      then have "bytes = b" using bytes n assms(4) by (simp add: range_body_def zim_err_def)
      then show ?thesis using answer_whole [OF n assms(6)] ans r 1 by simp
    next
      case (2 i j)
      then obtain h where h: "?h = Some h" "parse_single_range h (length b) = Some (Slice i j)" by (auto simp: bind_eq_Some_conv)
      have ij: "i \<le> j" "j < length b" using range_in_entity [OF h(2)] by simp_all
      then have body: "bytes = slice b i (j + 1)" using bytes 2 range_body_slice [OF assms(4) n] by simp
      have "length bytes = j + 1 - i" using body ij by (simp add: length_slice)
      then show ?thesis using answer_part [OF n assms(6), of E ?etag i j bytes resp] ans r 2 h ij body header_to_str_Some [OF h(1)] by auto
    next
      case 3
      then obtain h where h: "?h = Some h" "parse_single_range h (length b) = Some Unsatisfiable" by (auto simp: bind_eq_Some_conv)
      then show ?thesis using answer_unsatisfiable [OF n] ans r 3 header_to_str_Some [OF h(1)] by simp
    qed
  qed
qed

section \<open>The sandbox\<close>

lemma first_part_append: "hd (split_on c (s @ c # t)) = hd (split_on c s)"
proof -
  have "takeWhile (\<lambda>x. x \<noteq> c) (s @ c # t) = takeWhile (\<lambda>x. x \<noteq> c) s" by (induction s) auto
  then show ?thesis by (simp add: hd_split_on)
qed

lemma plain_essence:
  assumes "printable s" and "CHR '';'' \<notin> set s"
  shows "mime_essence s = s" and "mime_essence (s @ CHR '';'' # t) = s"
proof -
  have "hd (split_on CHR '';'' s) = s" using assms(2) by (simp add: split_on_absent)
  then show "mime_essence s = s" "mime_essence (s @ CHR '';'' # t) = s" using assms(1) by (simp_all add: mime_essence_def first_part_append)
qed

lemma served_type_not_script: "\<not> is_script_executing_mime (mime_essence (to_ascii_lowercase (content_type_for mt)))"
proof (cases mt)
  case (Type s)
  let ?l = "to_ascii_lowercase s"
  have plain: "mime_essence (to_ascii_lowercase PLAIN_TEXT) = ''text/plain''"
    using plain_essence(2) [of "''text/plain''" "'' charset=utf-8''"] by (simp add: PLAIN_TEXT_def to_ascii_lowercase_def lower_char_def ascii_def printable_def)
  have charset: "mime_essence (to_ascii_lowercase (s @ ''; charset=utf-8'')) = mime_essence ?l"
    using first_part_append [of "CHR '';''" ?l "'' charset=utf-8''"] by (simp add: mime_essence_def to_ascii_lowercase_def lower_char_def ascii_def)
  show ?thesis using Type plain charset by (auto simp: content_type_for_def Let_def is_script_executing_mime_def SCRIPT_TYPES_def)
next
  case Redirect
  then show ?thesis using plain_essence(1) [of "''text/html''"]
    by (simp add: content_type_for_def to_ascii_lowercase_def lower_char_def ascii_def printable_def is_script_executing_mime_def SCRIPT_TYPES_def)
qed (use plain_essence(1) [of "''application/octet-stream''"] in
    \<open>simp_all add: content_type_for_def to_ascii_lowercase_def lower_char_def ascii_def printable_def is_script_executing_mime_def SCRIPT_TYPES_def\<close>)

text \<open>Some JavaScript types of the HTML standard are not in the list and are served as they are.\<close>

lemma legacy_script_type_served: "content_type_for (Type ''text/javascript1.5'') = ''text/javascript1.5; charset=utf-8''"
  using plain_essence(1) [of "''text/javascript1.5''"]
  by (simp add: content_type_for_def to_ascii_lowercase_def lower_char_def ascii_def printable_def is_script_executing_mime_def SCRIPT_TYPES_def
      starts_with_def Let_def)

lemma read_raw_served_type:
  assumes "read_raw_entry_blocking A path h md inm = Ok (Read etag ct n pr bytes)"
  shows "\<exists>mt. ct = content_type_for mt" and "etag = etag_from_metadata md"
  using assms by (auto simp: read_raw_entry_blocking_def read_raw_body_def Let_def result_ok split: option.splits if_splits)

lemma fold_insert_header:
  "distinct (map fst hs) \<Longrightarrow> (k, v) \<in> set (fold (\<lambda>(k, v). insert_header k v) hs base) \<longleftrightarrow>
     (k, v) \<in> set hs \<or> (k \<notin> fst ` set hs \<and> (k, v) \<in> set base)"
proof (induction hs arbitrary: base)
  case (Cons h hs)
  obtain k0 v0 where h: "h = (k0, v0)" by fastforce
  have "(k, v) \<in> set (fold (\<lambda>(k, v). insert_header k v) hs (insert_header k0 v0 base)) \<longleftrightarrow>
      (k, v) \<in> set hs \<or> (k \<notin> fst ` set hs \<and> (k, v) \<in> set (insert_header k0 v0 base))"
    using Cons by simp
  also have "\<dots> \<longleftrightarrow> (k, v) \<in> set hs \<or> (k \<notin> fst ` set hs \<and> (k = k0 \<and> v = v0 \<or> k \<noteq> k0 \<and> (k, v) \<in> set base))"
    by (auto simp: insert_header_def)
  also have "\<dots> \<longleftrightarrow> (k, v) \<in> set (h # hs) \<or> (k \<notin> fst ` set (h # hs) \<and> (k, v) \<in> set base)"
    using Cons.prems h by auto
  finally show ?case using h by simp
qed simp

text \<open>The two shapes of an answer to a read: content with the headers of the sandbox, or no content.\<close>

lemma answer_cases:
  assumes "raw_answer E (Read etag ct n pr bytes) = Ok resp"
  obtains (content) st hs where "st \<in> {200, 206}" and "distinct (map fst hs)" and "(''content-type'', ct) \<in> set hs"
      and "(''x-content-type-options'', ''nosniff'') \<in> set hs" and "''etag'' \<notin> fst ` set hs"
      and "resp = insert_etag etag (append_sec_headers (raw_content_security_headers ct) (into_response E st hs bytes))"
    | (unsatisfiable) v where "resp = into_response E 416 [(''content-range'', v)] []"
proof -
  consider a b where "pr = Some (Slice a b)" | "pr = Some Unsatisfiable" | "pr = None" by (cases pr; cases "the pr") auto
  then show thesis
  proof cases
    case (1 a b)
    let ?hs = "[(''content-type'', ct),
      (''content-range'', ''bytes '' @ decimal_digits a @ ''-'' @ decimal_digits b @ ''/'' @ decimal_digits n),
      (''content-length'', decimal_digits (length bytes)), (''accept-ranges'', ''bytes''), (''x-content-type-options'', ''nosniff'')]"
    show ?thesis by (rule content [of 206 ?hs]) (use assms 1 in \<open>simp_all add: raw_answer_def split: if_splits\<close>)
  next
    case 2
    show ?thesis by (rule unsatisfiable [of "''bytes */'' @ decimal_digits n"]) (use assms 2 in \<open>simp add: raw_answer_def split: if_splits\<close>)
  next
    case 3
    let ?hs = "[(''content-type'', ct), (''content-length'', decimal_digits n), (''accept-ranges'', ''bytes''), (''x-content-type-options'', ''nosniff'')]"
    show ?thesis by (rule content [of 200 ?hs]) (use assms 3 in \<open>simp_all add: raw_answer_def split: if_splits\<close>)
  qed
qed

lemma into_response_status: "hr_status (into_response E st hs body) = (if list_all (\<lambda>(_, v). header_value_ok v) hs then st else hr_status (rw_bad_header E))"
  by (simp add: into_response_def)

lemma answer_sandboxed:
  assumes "raw_answer E (Read etag ct n pr bytes) = Ok resp" and "hr_status (rw_bad_header E) = 500" and "hr_status resp \<in> {200, 206}"
  shows "(''content-security-policy'', RAW_CONTENT_CSP) \<in> set (hr_headers resp) \<and> (''x-content-type-options'', ''nosniff'') \<in> set (hr_headers resp)
    \<and> (\<forall>v. (''content-type'', v) \<in> set (hr_headers resp) \<longrightarrow> v = ct)"
  using assms(1)
proof (cases rule: answer_cases)
  case (content st hs)
  have ok: "list_all (\<lambda>(_, v). header_value_ok v) hs"
    using assms(2,3) content(6) by (auto simp: into_response_status append_sec_headers_eq split: if_splits)
  have h: "(k, v) \<in> set (hr_headers resp) \<longleftrightarrow> (k, v) \<in> set hs \<or> (k \<notin> fst ` set hs \<and> (k, v) = (''content-type'', ''application/octet-stream''))
      \<or> (k, v) \<in> set (raw_content_security_headers ct)" if "k \<noteq> ''etag''" for k v
    unfolding content(6) insert_etag_header [OF that] append_sec_headers_eq
    using ok content(2) by (auto simp: into_response_def fold_insert_header)
  have uniq: "v = ct" if "(''content-type'', v) \<in> set hs" for v using content(2,3) that by (metis eq_key_imp_eq_value)
  have "v = ct" if "(''content-type'', v) \<in> set (hr_headers resp)" for v
  proof -
    have "''content-type'' \<in> fst ` set hs" using content(3) by force
    moreover have "(''content-type'', v) \<notin> set (raw_content_security_headers ct)" by (simp add: raw_content_security_headers_def)
    ultimately have "(''content-type'', v) \<in> set hs" using that h [of "''content-type''" v] by simp
    then show ?thesis using uniq by blast
  qed
  moreover have "(''content-security-policy'', RAW_CONTENT_CSP) \<in> set (hr_headers resp)"
    using h [of "''content-security-policy''" RAW_CONTENT_CSP] by (simp add: raw_content_security_headers_def)
  moreover have "(''x-content-type-options'', ''nosniff'') \<in> set (hr_headers resp)"
    using h [of "''x-content-type-options''" "''nosniff''"] content(4) by simp
  ultimately show ?thesis by blast
next
  case (unsatisfiable v)
  then show ?thesis using assms(2,3) by (auto simp: into_response_status split: if_splits)
qed

lemma answer_etag:
  assumes "raw_answer E (Read etag ct n pr bytes) = Ok resp" and "(''etag'', tag) \<in> set (hr_headers resp)"
    and "\<And>v. (''etag'', v) \<notin> set (hr_headers (rw_bad_header E))"
  shows "etag = Some tag"
  using assms(1)
proof (cases rule: answer_cases)
  case (content st hs)
  have "(''etag'', v) \<notin> set (hr_headers (into_response E st hs bytes))" for v
    using assms(3) [of v] content(2,5) by (auto simp: into_response_def fold_insert_header image_iff)
  then show ?thesis using assms(2) unfolding content(6)
    by (auto simp: append_sec_headers_eq insert_etag_def insert_header_def raw_content_security_headers_def split: option.splits if_splits)
next
  case (unsatisfiable v)
  then show ?thesis using assms(2,3) by (auto simp: into_response_def insert_header_def split: if_splits)
qed


section \<open>Entity tags\<close>

lemma open_fresh_current:
  assumes "handles_ok R s" and "handles_ok R (oi_between io s)" and "iterates (oi_order io) (mg_open_handles (oi_between io s))"
    and "case oi_parse io of Inr (Inr z) \<Rightarrow> R name (stat_mtime (oi_stat io)) (stat_size (oi_stat io)) z | _ \<Rightarrow> True"
    and "fst (open_zim_fresh io name s) = Ok h"
  shows "R name (stat_mtime (oi_stat io)) (stat_size (oi_stat io)) h"
proof -
  let ?mt = "stat_mtime (oi_stat io)" and ?sz = "stat_size (oi_stat io)"
  obtain fp where fp: "file_path_of s name = Some fp"
    using assms(5) by (auto simp: open_zim_fresh_def open_zim_impl_def split: option.splits)
  show ?thesis
  proof (cases "reuse_valid name ?mt ?sz (oi_now_ms io) s")
    case None
    obtain s' where "open_zim_slow io name ?mt ?sz s = (Ok h, s')"
      using assms(5) fp None by (cases "open_zim_slow io name ?mt ?sz s")
        (auto simp: open_zim_fresh_def open_zim_impl_def Let_def stat_mtime_def stat_size_def)
    then show ?thesis using open_zim_slow_ok [OF assms(1-3), of name ?mt ?sz "Ok h" s'] assms(4) by (cases "oi_parse io"; cases "projr (oi_parse io)") auto
  next
    case (Some hs)
    then have "fst hs = h" using assms(5) fp
      by (cases hs) (auto simp: open_zim_fresh_def open_zim_impl_def Let_def stat_mtime_def stat_size_def)
    then show ?thesis using reuse_valid_ok [OF assms(1), of name ?mt ?sz "oi_now_ms io" "fst hs" "snd hs"] Some by auto
  qed
qed


section \<open>Samples\<close>

definition sample_raw_env :: raw_env where
  "sample_raw_env = \<lparr>rw_open = re_open sample_read_env, rw_stat = Some (Some 7, 10), rw_task = None,
     rw_bad_header = \<lparr>hr_status = 500, hr_headers = [], hr_body = []\<rparr>\<rparr>"

definition sample_request :: raw_request where
  "sample_request = \<lparr>rq_zim = ''wiki'', rq_path = ''A/x'', rq_range = Some ''bytes=1-1'', rq_if_none_match = None\<rparr>"

definition sample_tag :: string where
  "sample_tag = CHR 0x22 # decimal_digits 0 @ ''-'' @ decimal_digits 10 @ [CHR 0x22]"

lemma sample_range: "parse_single_range ''bytes=1-1'' 2 = Some (Slice 1 1)"
  using range_forms(1) [of 1 1 2] by (simp add: decimal_digits.simps char_of_def bit_0)

lemma sample_entry_at: "entry_at sample_entries ''A/x'' \<lparr>de_title = ''T'', de_mime_type = Type ''text/html''\<rparr> \<lparr>bl_len = Ok 2, bl_bytes = Ok ''hi''\<rparr>"
  by (simp add: entry_at_def sample_entries_def find_entry_def zim_err_def)

lemma sample_type_ok: "header_value_ok (content_type_for (Type ''text/html''))"
  using plain_essence(1) [of "''text/html''"]
  by (simp add: content_type_for_def Let_def to_ascii_lowercase_def lower_char_def ascii_def printable_def is_script_executing_mime_def SCRIPT_TYPES_def
      starts_with_def header_value_ok_def)

lemma sample_raw:
  obtains resp s' where "raw_content sample_raw_env sample_request sample_reader = (Ok resp, s')"
    and "hr_status resp = 206" and "(''etag'', sample_tag) \<in> set (hr_headers resp)"
proof -
  let ?pr = "Some (Slice 1 1)" and ?ct = "content_type_for (Type ''text/html'')"
  obtain s' where op: "open_zim_fresh (re_open sample_read_env) ''wiki'' sample_reader = (Ok sample_entries, s')"
    using sample_reader_opens [of True] by (cases "open_zim_fresh (re_open sample_read_env) ''wiki'' sample_reader") (simp add: open_zim_fresh_def)
  have fp: "\<exists>fp. file_path_of sample_reader ''wiki'' = Some fp" by (simp add: file_path_of_def sample_reader_def)
  have tag: "etag_from_metadata (Some (Some 7, 10)) = Some sample_tag" by (simp add: etag_from_metadata_def sample_tag_def)
  have body: "range_body \<lparr>bl_len = Ok 2, bl_bytes = Ok ''hi''\<rparr> 2 ?pr = Ok ''i''"
    using range_body_slice [of "\<lparr>bl_len = Ok 2, bl_bytes = Ok ''hi''\<rparr>" "''hi''" 1 1] by (simp add: MAX_RAW_BYTES_def slice_def numeral_2_eq_2)
  have h: "header_to_str ''bytes=1-1'' = Some ''bytes=1-1''" by (simp add: header_to_str_def ascii_def)
  have rd: "read_raw_entry_blocking sample_entries ''A/x'' (Some ''bytes=1-1'') (Some (Some 7, 10)) None = Ok (Read (Some sample_tag) ?ct 2 ?pr ''i'')"
    using raw_body_of_entry [OF sample_entry_at, of 2 "Some ''bytes=1-1''" "Some sample_tag"] body
    by (simp add: read_raw_entry_blocking_def tag sample_range)
  have tag_ok: "header_value_ok sample_tag" using etag_header_ok [OF tag] .
  obtain resp where ans: "raw_answer sample_raw_env (Read (Some sample_tag) ?ct 2 ?pr ''i'') = Ok resp" by (simp add: raw_answer_def MAX_RAW_BYTES_def)
  have "raw_content sample_raw_env sample_request sample_reader = (Ok resp, s')"
    using fp op rd ans h by (auto simp: raw_content_def sample_request_def) (auto simp: sample_raw_env_def)
  moreover have "hr_status resp = 206" using answer_part [OF _ sample_type_ok ans] by (simp add: MAX_RAW_BYTES_def)
  moreover have "(''etag'', sample_tag) \<in> set (hr_headers resp)"
    using ans tag_ok by (auto simp: raw_answer_def insert_etag_def insert_header_def split: if_splits)
  ultimately show thesis by (rule that)
qed

lemma sample_raw_opens: "fst (open_zim_fresh (rw_open sample_raw_env) (rq_zim sample_request) sample_reader) = Ok sample_entries"
  using sample_reader_opens [of True] by (simp add: open_zim_fresh_def sample_raw_env_def sample_request_def)

theorem raw_content_exact_witness:
  "\<exists>resp s'. raw_content sample_raw_env sample_request sample_reader = (Ok resp, s') \<and> hr_status resp = 206 \<and> hr_body resp = ''i''"
proof -
  obtain resp s' where r: "raw_content sample_raw_env sample_request sample_reader = (Ok resp, s')" "hr_status resp = 206" using sample_raw .
  have "\<exists>h i j. rq_range sample_request = Some h \<and> parse_single_range h 2 = Some (Slice i j) \<and> hr_body resp = slice ''hi'' i (j + 1)"
    using raw_content_exact [OF r(1) sample_raw_opens _, of "\<lparr>de_title = ''T'', de_mime_type = Type ''text/html''\<rparr>" "\<lparr>bl_len = Ok 2, bl_bytes = Ok ''hi''\<rparr>" "''hi''"]
      sample_entry_at sample_type_ok r(2) by (auto simp: sample_request_def numeral_2_eq_2)
  then have "hr_body resp = ''i''" by (auto simp: sample_request_def sample_range slice_def)
  then show ?thesis using r by blast
qed



end
