(* ===== verification/Notify.thy ===== *)
theory Notify
  imports Prelude
begin

text \<open>
  Invalidation of caches across processes (\<open>src/db/notify.rs\<close> and the actions \<open>src/startup/mod.rs\<close> gives it): the session that
  listens for notifications, its reconnects, the counters its subscribers follow, and the supervision of its tasks.

  The loop of the listener is a function of one event at a time. How it works together with writers in other
  processes, a session that can drop at any time, and the subscriber that reloads the settings is a step relation.
  The settings table and the cache are their versions, the number of writes they contain.
\<close>

section \<open>Backoff and status\<close>

definition SETTINGS_CHANNEL :: string where "SETTINGS_CHANNEL = ''zimservice_settings''"
definition CATALOG_CHANNEL :: string where "CATALOG_CHANNEL = ''zimservice_catalog''"

definition INITIAL_BACKOFF :: nat where "INITIAL_BACKOFF = 1" \<comment> \<open>seconds\<close>
definition MAX_BACKOFF :: nat where "MAX_BACKOFF = 30"

definition next_backoff :: "nat \<Rightarrow> nat" where
  "next_backoff current = (if current * 2 > MAX_BACKOFF then MAX_BACKOFF else current * 2)"

datatype listener_state = Connected | Reconnecting

record notify_status =
  ns_state :: listener_state
  ns_settings_notifications :: nat
  ns_catalog_notifications :: nat
  ns_last_settings_at :: "int option"
  ns_last_catalog_at :: "int option"
  ns_resyncs :: nat
  ns_disconnects :: nat

definition status_default :: notify_status where
  "status_default = \<lparr>ns_state = Reconnecting, ns_settings_notifications = 0, ns_catalog_notifications = 0,
     ns_last_settings_at = None, ns_last_catalog_at = None, ns_resyncs = 0, ns_disconnects = 0\<rparr>"

definition mark_connected :: "notify_status \<Rightarrow> notify_status" where
  "mark_connected s = s\<lparr>ns_state := Connected\<rparr>"

definition mark_reconnecting :: "notify_status \<Rightarrow> notify_status" where
  "mark_reconnecting s = s\<lparr>ns_state := Reconnecting\<rparr>"

definition note_settings_notification :: "int \<Rightarrow> notify_status \<Rightarrow> notify_status" where
  "note_settings_notification now s = s\<lparr>ns_settings_notifications := ns_settings_notifications s + 1, ns_last_settings_at := Some now\<rparr>"

definition note_catalog_notification :: "int \<Rightarrow> notify_status \<Rightarrow> notify_status" where
  "note_catalog_notification now s = s\<lparr>ns_catalog_notifications := ns_catalog_notifications s + 1, ns_last_catalog_at := Some now\<rparr>"

definition note_resync :: "notify_status \<Rightarrow> notify_status" where
  "note_resync s = s\<lparr>ns_resyncs := ns_resyncs s + 1\<rparr>"

definition note_disconnect :: "notify_status \<Rightarrow> notify_status" where
  "note_disconnect s = s\<lparr>ns_disconnects := ns_disconnects s + 1, ns_state := Reconnecting\<rparr>"

section \<open>The loop\<close>

text \<open>The outcomes the loop waits for: of a connection attempt outside of a session, of \<open>try_recv\<close> inside of one.\<close>

datatype listen_event =
    ConnectOk
  | ConnectErr
  | Received string int
  | Reestablished
  | SessionLost

record listener =
  ls_status :: notify_status
  ls_in_session :: bool
  ls_backoff :: nat
  ls_settings_bump :: nat
  ls_catalog_bump :: nat
  ls_slept :: "nat list"

definition listener_start :: listener where
  "listener_start = \<lparr>ls_status = status_default, ls_in_session = False, ls_backoff = INITIAL_BACKOFF, ls_settings_bump = 0,
     ls_catalog_bump = 0, ls_slept = []\<rparr>"

text \<open>\<open>ReconnectBackoff::advance\<close> and the sleep after it.\<close>

definition sleep_backoff :: "listener \<Rightarrow> listener" where
  "sleep_backoff l = l\<lparr>ls_slept := ls_slept l @ [ls_backoff l], ls_backoff := next_backoff (ls_backoff l)\<rparr>"

definition bump_both :: "listener \<Rightarrow> listener" where
  "bump_both l = l\<lparr>ls_settings_bump := ls_settings_bump l + 1, ls_catalog_bump := ls_catalog_bump l + 1\<rparr>"

definition on_status :: "(notify_status \<Rightarrow> notify_status) \<Rightarrow> listener \<Rightarrow> listener" where
  "on_status f l = l\<lparr>ls_status := f (ls_status l)\<rparr>"

definition receive :: "string \<Rightarrow> int \<Rightarrow> listener \<Rightarrow> listener" where
  "receive channel now l =
     (if channel = SETTINGS_CHANNEL
      then on_status (note_settings_notification now) (l\<lparr>ls_settings_bump := ls_settings_bump l + 1\<rparr>)
      else if channel = CATALOG_CHANNEL
      then on_status (note_catalog_notification now) (l\<lparr>ls_catalog_bump := ls_catalog_bump l + 1\<rparr>)
      else l)\<lparr>ls_backoff := INITIAL_BACKOFF\<rparr>"

fun listen_step :: "listen_event \<Rightarrow> listener \<Rightarrow> listener" where
  "listen_step ConnectOk l =
     (if ls_in_session l then l
      else bump_both (on_status (note_resync \<circ> mark_connected) (l\<lparr>ls_backoff := INITIAL_BACKOFF, ls_in_session := True\<rparr>)))"
| "listen_step ConnectErr l = (if ls_in_session l then l else sleep_backoff (on_status mark_reconnecting l))"
| "listen_step (Received channel now) l = (if ls_in_session l then receive channel now l else l)"
| "listen_step Reestablished l =
     (if ls_in_session l
      then bump_both (on_status (note_resync \<circ> mark_connected \<circ> note_disconnect) (l\<lparr>ls_backoff := INITIAL_BACKOFF\<rparr>))
      else l)"
| "listen_step SessionLost l =
     (if ls_in_session l then sleep_backoff (on_status mark_reconnecting (l\<lparr>ls_in_session := False\<rparr>)) else l)"

fun listen_loop :: "listen_event list \<Rightarrow> listener \<Rightarrow> listener" where
  "listen_loop [] l = l"
| "listen_loop (e # es) l = listen_loop es (listen_step e l)"

section \<open>Supervision\<close>

text \<open>The reports of tasks that ended, each with the value of the stop flag when it is read; the result is the die flag.\<close>

fun supervise :: "(string \<times> bool) list \<Rightarrow> bool" where
  "supervise [] = False"
| "supervise ((name, stop) # reports) = (if \<not> stop then True else supervise reports)"

section \<open>Writers, session and subscriber\<close>

datatype reload_phase = Waiting | Reloading | Fetched nat

record peer_world =
  pw_table :: nat \<comment> \<open>committed writes\<close>
  pw_session :: bool \<comment> \<open>the server has a session that listens\<close>
  pw_queue :: "string list" \<comment> \<open>its undelivered notifications\<close>
  pw_relisten :: bool \<comment> \<open>the session was re-established and the loop does not know yet\<close>
  pw_listener :: listener
  pw_seen :: nat \<comment> \<open>the counter the subscriber has last seen\<close>
  pw_phase :: reload_phase
  pw_cache :: nat
  pw_failed :: bool \<comment> \<open>the last reload failed\<close>

definition peer_start :: "nat \<Rightarrow> peer_world" where
  "peer_start v = \<lparr>pw_table = v, pw_session = False, pw_queue = [], pw_relisten = False, pw_listener = listener_start,
     pw_seen = 0, pw_phase = Waiting, pw_cache = v, pw_failed = False\<rparr>"

text \<open>
  A write and its notification are one transaction, and Postgres appends the notification to the queue of every
  session that listens when it commits; the queue of a session is lost with it. The rules \<open>start\<close> to \<open>install\<close> are
  \<open>run_on_bumps\<close> with the action of the settings, a reload that can fail before or after it has read the table.
\<close>

inductive peer_step :: "peer_world \<Rightarrow> peer_world \<Rightarrow> bool" where
  commit: "peer_step w (w\<lparr>pw_table := pw_table w + 1, pw_queue := (if pw_session w then pw_queue w @ [SETTINGS_CHANNEL] else pw_queue w)\<rparr>)"
| other: "channel \<noteq> SETTINGS_CHANNEL \<Longrightarrow> pw_session w \<Longrightarrow> peer_step w (w\<lparr>pw_queue := pw_queue w @ [channel]\<rparr>)"
| drop: "peer_step w (w\<lparr>pw_session := False, pw_queue := []\<rparr>)"
| establish: "\<not> pw_session w \<Longrightarrow> \<not> ls_in_session (pw_listener w) \<Longrightarrow> peer_step w (w\<lparr>pw_session := True, pw_queue := []\<rparr>)"
| connected: "pw_session w \<Longrightarrow> \<not> ls_in_session (pw_listener w) \<Longrightarrow>
    peer_step w (w\<lparr>pw_relisten := False, pw_listener := listen_step ConnectOk (pw_listener w)\<rparr>)"
| connect_failed: "\<not> ls_in_session (pw_listener w) \<Longrightarrow> peer_step w (w\<lparr>pw_session := False, pw_queue := [], pw_listener := listen_step ConnectErr (pw_listener w)\<rparr>)"
| relisten: "\<not> pw_session w \<Longrightarrow> ls_in_session (pw_listener w) \<Longrightarrow> peer_step w (w\<lparr>pw_session := True, pw_queue := [], pw_relisten := True\<rparr>)"
| reestablished: "ls_in_session (pw_listener w) \<Longrightarrow> pw_relisten w \<Longrightarrow>
    peer_step w (w\<lparr>pw_relisten := False, pw_listener := listen_step Reestablished (pw_listener w)\<rparr>)"
| lost: "\<not> pw_session w \<Longrightarrow> ls_in_session (pw_listener w) \<Longrightarrow>
    peer_step w (w\<lparr>pw_relisten := False, pw_listener := listen_step SessionLost (pw_listener w)\<rparr>)"
| received: "pw_session w \<Longrightarrow> ls_in_session (pw_listener w) \<Longrightarrow> \<not> pw_relisten w \<Longrightarrow> pw_queue w = channel # queue \<Longrightarrow>
    peer_step w (w\<lparr>pw_queue := queue, pw_listener := listen_step (Received channel now) (pw_listener w)\<rparr>)"
| start: "pw_phase w = Waiting \<Longrightarrow> pw_seen w \<noteq> ls_settings_bump (pw_listener w) \<Longrightarrow>
    peer_step w (w\<lparr>pw_seen := ls_settings_bump (pw_listener w), pw_phase := Reloading\<rparr>)"
| fetch: "pw_phase w = Reloading \<Longrightarrow> peer_step w (w\<lparr>pw_phase := Fetched (pw_table w)\<rparr>)"
| fail: "pw_phase w \<noteq> Waiting \<Longrightarrow> peer_step w (w\<lparr>pw_phase := Waiting, pw_failed := True\<rparr>)"
| install: "pw_phase w = Fetched v \<Longrightarrow> peer_step w (w\<lparr>pw_phase := Waiting, pw_cache := v, pw_failed := False\<rparr>)"

text \<open>At rest: the loop is in its session, nothing is on its way, and the subscriber has seen every counter.\<close>

definition at_rest :: "peer_world \<Rightarrow> bool" where
  "at_rest w \<longleftrightarrow> pw_session w \<and> ls_in_session (pw_listener w) \<and> \<not> pw_relisten w \<and> SETTINGS_CHANNEL \<notin> set (pw_queue w)
     \<and> pw_seen w = ls_settings_bump (pw_listener w) \<and> pw_phase w = Waiting"

section \<open>Backoff is bounded and reset\<close>

definition paced :: "listener \<Rightarrow> bool" where
  "paced l \<longleftrightarrow> 1 \<le> ls_backoff l \<and> ls_backoff l \<le> MAX_BACKOFF \<and> list_all (\<lambda>d. 1 \<le> d \<and> d \<le> MAX_BACKOFF) (ls_slept l)"

lemma paced_updates:
  "paced (on_status f l) = paced l" "paced (bump_both l) = paced l" "paced (l\<lparr>ls_in_session := b\<rparr>) = paced l"
  "paced (l\<lparr>ls_settings_bump := n\<rparr>) = paced l" "paced (l\<lparr>ls_catalog_bump := n\<rparr>) = paced l"
  by (simp_all add: paced_def on_status_def bump_both_def)

lemma paced_reset: "paced l \<Longrightarrow> paced (l\<lparr>ls_backoff := INITIAL_BACKOFF\<rparr>)"
  by (simp add: paced_def INITIAL_BACKOFF_def MAX_BACKOFF_def)

lemma paced_sleep: "paced l \<Longrightarrow> paced (sleep_backoff l)"
  by (auto simp: paced_def sleep_backoff_def next_backoff_def MAX_BACKOFF_def)

lemma paced_receive: "paced l \<Longrightarrow> paced (receive channel now l)"
  unfolding receive_def by (rule paced_reset) (simp add: paced_updates)

lemma paced_step: "paced l \<Longrightarrow> paced (listen_step e l)"
proof (cases e)
  case ConnectOk
  moreover assume "paced l"
  then have "paced (l\<lparr>ls_backoff := INITIAL_BACKOFF, ls_in_session := True\<rparr>)" using paced_reset paced_updates(3) by blast
  ultimately show ?thesis using \<open>paced l\<close> by (simp add: paced_updates)
qed (simp_all add: paced_updates paced_reset paced_sleep paced_receive)

text \<open>The pauses between attempts are between one second and thirty, whatever happens.\<close>

theorem reconnects_are_paced: "list_all (\<lambda>d. 1 \<le> d \<and> d \<le> 30) (ls_slept (listen_loop es listener_start))"
proof -
  have "paced l \<Longrightarrow> paced (listen_loop es l)" for l
    by (induction es arbitrary: l) (simp_all add: paced_step del: listen_step.simps)
  moreover have "paced listener_start" by (simp add: paced_def listener_start_def INITIAL_BACKOFF_def MAX_BACKOFF_def)
  ultimately have "paced (listen_loop es listener_start)" by blast
  then show ?thesis by (simp add: paced_def MAX_BACKOFF_def)
qed

text \<open>An unexpected end of a task raises the die flag, and the order of a shutdown, stop flag first, does not.\<close>

theorem supervise_iff: "supervise reports \<longleftrightarrow> (\<exists>(name, stop) \<in> set reports. \<not> stop)"
  by (induction reports) auto

section \<open>Caches catch up\<close>

definition pending :: "peer_world \<Rightarrow> bool" where
  "pending w \<longleftrightarrow> \<not> ls_in_session (pw_listener w) \<or> pw_relisten w \<or> SETTINGS_CHANNEL \<in> set (pw_queue w)
     \<or> pw_seen w \<noteq> ls_settings_bump (pw_listener w) \<or> pw_phase w = Reloading"

definition current :: "peer_world \<Rightarrow> bool" where
  "current w \<longleftrightarrow> (case pw_phase w of Waiting \<Rightarrow> pw_cache w = pw_table w \<or> pw_failed w | Fetched v \<Rightarrow> v = pw_table w | Reloading \<Rightarrow> True)"

definition peer_inv :: "peer_world \<Rightarrow> bool" where
  "peer_inv w \<longleftrightarrow> pw_seen w \<le> ls_settings_bump (pw_listener w) \<and> (pw_session w \<longrightarrow> pending w \<or> current w)"

lemma listen_step_bumps:
  "\<not> ls_in_session l \<Longrightarrow> ls_settings_bump (listen_step ConnectOk l) = Suc (ls_settings_bump l)"
  "ls_in_session l \<Longrightarrow> ls_settings_bump (listen_step Reestablished l) = Suc (ls_settings_bump l)"
  "ls_in_session l \<Longrightarrow> ls_settings_bump (listen_step (Received c t) l) = (if c = SETTINGS_CHANNEL then Suc (ls_settings_bump l) else ls_settings_bump l)"
  "ls_settings_bump (listen_step ConnectErr l) = ls_settings_bump l"
  "ls_settings_bump (listen_step SessionLost l) = ls_settings_bump l"
  "ls_in_session l \<Longrightarrow> ls_in_session (listen_step (Received c t) l)"
  by (auto simp: bump_both_def on_status_def receive_def sleep_backoff_def)

lemma peer_step_inv: "peer_step w w' \<Longrightarrow> peer_inv w \<Longrightarrow> peer_inv w'"
  by (induction rule: peer_step.induct)
    (auto simp: peer_inv_def pending_def current_def listen_step_bumps simp del: listen_step.simps split: reload_phase.splits if_splits)

interpretation peers: kept_invariant peer_step peer_inv
  by unfold_locales (rule peer_step_inv)

lemma peer_start_inv: "peer_inv (peer_start v)"
  by (simp add: peer_inv_def peer_start_def listener_start_def)


section \<open>Samples\<close>

text \<open>One write before the session is there, then the connection, and the reload it triggers.\<close>

definition joined :: listener where "joined = listen_step ConnectOk listener_start"

definition sample_world :: "bool \<Rightarrow> listener \<Rightarrow> nat \<Rightarrow> reload_phase \<Rightarrow> nat \<Rightarrow> bool \<Rightarrow> peer_world" where
  "sample_world session l viewed phase cache failed = \<lparr>pw_table = 1, pw_session = session, pw_queue = [], pw_relisten = False, pw_listener = l,
     pw_seen = viewed, pw_phase = phase, pw_cache = cache, pw_failed = failed\<rparr>"

lemma joined_eqs: "ls_in_session joined" "ls_settings_bump joined = 1" "\<not> ls_in_session listener_start"
  by (simp_all add: joined_def listener_start_def bump_both_def on_status_def)

lemma step_eq: "peer_step w w' \<Longrightarrow> w' = u \<Longrightarrow> peer_step w u"
  by simp

lemma sample_reload: "peer_step\<^sup>*\<^sup>* (peer_start 0) (sample_world True joined 1 Reloading 0 False)"
proof -
  have "peer_step (peer_start 0) (sample_world False listener_start 0 Waiting 0 False)"
    by (rule step_eq [OF peer_step.commit]) (simp add: peer_start_def sample_world_def)
  moreover have "peer_step (sample_world False listener_start 0 Waiting 0 False) (sample_world True listener_start 0 Waiting 0 False)"
    by (rule step_eq [OF peer_step.establish]) (simp_all add: sample_world_def joined_eqs)
  moreover have "peer_step (sample_world True listener_start 0 Waiting 0 False) (sample_world True joined 0 Waiting 0 False)"
    by (rule step_eq [OF peer_step.connected]) (simp_all add: sample_world_def joined_eqs joined_def del: listen_step.simps)
  moreover have "peer_step (sample_world True joined 0 Waiting 0 False) (sample_world True joined 1 Reloading 0 False)"
    by (rule step_eq [OF peer_step.start]) (simp_all add: sample_world_def joined_eqs)
  ultimately show ?thesis by (meson converse_rtranclp_into_rtranclp rtranclp.rtrancl_refl)
qed

lemma sample_caught_up: "peer_step\<^sup>*\<^sup>* (peer_start 0) (sample_world True joined 1 Waiting 1 False)"
proof -
  have "peer_step (sample_world True joined 1 Reloading 0 False) (sample_world True joined 1 (Fetched 1) 0 False)"
    by (rule step_eq [OF peer_step.fetch]) (simp_all add: sample_world_def)
  moreover have "peer_step (sample_world True joined 1 (Fetched 1) 0 False) (sample_world True joined 1 Waiting 1 False)"
    by (rule step_eq [OF peer_step.install [of _ 1]]) (simp_all add: sample_world_def)
  ultimately show ?thesis using sample_reload by (meson rtranclp.rtrancl_into_rtrancl)
qed

text \<open>A failed reload is not tried again: the process can be at rest with a stale cache.\<close>

lemma failed_reload_stays_stale:
  "\<exists>w. peer_step\<^sup>*\<^sup>* (peer_start 0) w \<and> at_rest w \<and> pw_cache w \<noteq> pw_table w"
proof -
  have "peer_step (sample_world True joined 1 Reloading 0 False) (sample_world True joined 1 Waiting 0 True)"
    by (rule step_eq [OF peer_step.fail]) (simp_all add: sample_world_def)
  then have "peer_step\<^sup>*\<^sup>* (peer_start 0) (sample_world True joined 1 Waiting 0 True)" using sample_reload by (meson rtranclp.rtrancl_into_rtrancl)
  moreover have "at_rest (sample_world True joined 1 Waiting 0 True)" by (simp add: at_rest_def sample_world_def joined_eqs)
  ultimately show ?thesis by (intro exI [of _ "sample_world True joined 1 Waiting 0 True"]) (simp add: sample_world_def)
qed


end
