(* ===== verification/Startup.thy ===== *)
theory Startup
  imports AuthGate Zims Settings
begin

text \<open>
  The decisions of the start and the end of a process (\<open>src/startup/mod.rs\<close>): how each command treats the library, the
  checks of the access policy, the password given by the environment, the supervision of the background tasks and
  the shutdown. Building the state itself is the composition of components that have their own theories.
\<close>

section \<open>Modes\<close>

datatype startup_mode = Serve | Mutating | ReadOnlyMode

definition mode_resync :: "startup_mode \<Rightarrow> bool" where
  "mode_resync mode \<longleftrightarrow> mode \<in> {Serve, Mutating}"

record startup_request =
  sq_mode :: startup_mode
  sq_advisory_lock_held :: bool
  sq_connect_torrent :: bool

definition request_serve :: "bool \<Rightarrow> startup_request" where
  "request_serve held = \<lparr>sq_mode = Serve, sq_advisory_lock_held = held, sq_connect_torrent = True\<rparr>"

definition request_mutating :: "bool \<Rightarrow> startup_request" where
  "request_mutating held = \<lparr>sq_mode = Mutating, sq_advisory_lock_held = held, sq_connect_torrent = True\<rparr>"

definition request_status :: startup_request where
  "request_status = \<lparr>sq_mode = ReadOnlyMode, sq_advisory_lock_held = False, sq_connect_torrent = True\<rparr>"

definition request_mcp :: startup_request where
  "request_mcp = \<lparr>sq_mode = ReadOnlyMode, sq_advisory_lock_held = False, sq_connect_torrent = False\<rparr>"

text \<open>\<open>E\<close> is what the scan meets, \<open>E'\<close> what the resync meets; \<open>fault\<close> and \<open>names\<close> are those of the load.\<close>

definition populate_zims ::
  "'h zim_env \<Rightarrow> sqlx_error option \<Rightarrow> string list \<Rightarrow> 'h zim_env \<Rightarrow> bool \<Rightarrow> 'h zim_manager
    \<Rightarrow> (string list, error) result \<times> 'h zim_manager" where
  "populate_zims E fault names E' do_resync s =
     (case scan E s of
        (Inl e, s) \<Rightarrow> (Err e, s)
      | (Inr found, s) \<Rightarrow>
          (case load_from_db fault names s of
             (Inl e, s) \<Rightarrow> (Err e, s)
           | (Inr _, s) \<Rightarrow>
               if do_resync
               then (case resync E' s of (Inl e, s) \<Rightarrow> (Err e, s) | (Inr _, s) \<Rightarrow> (Ok found, s))
               else (Ok found, s)))"

section \<open>Passwords\<close>

definition DASH :: string where "DASH = bytes_str [0xE2, 0x80, 0x94]"

definition PLACEHOLDER :: string where "PLACEHOLDER = ''CHANGE_ME''"

definition quoted :: "string \<Rightarrow> string" where "quoted s = [CHR 0x22] @ s @ [CHR 0x22]"

definition admin_password_startup_check :: "string \<Rightarrow> string \<Rightarrow> (unit, string) result" where
  "admin_password_startup_check mode password =
     (if mode = ACCESS_MODE_PASSWORD \<and> password = []
      then Err (''access.mode is '' @ quoted ''password'' @ '' but access.admin_password is empty '' @ DASH
                @ '' set the AUTH_PASSWORD environment variable (or set access.mode back to '' @ quoted ''open''
                @ '' in the settings table)'')
      else if password = PLACEHOLDER
      then Err (''access.admin_password is the placeholder '' @ quoted PLACEHOLDER @ '' '' @ DASH
                @ '' set a real password before starting'')
      else Ok ())"

definition legacy_password_startup_warn :: "string \<Rightarrow> string \<Rightarrow> bool" where
  "legacy_password_startup_warn mode password \<longleftrightarrow>
     mode = ACCESS_MODE_PASSWORD \<and> password \<noteq> [] \<and> is_legacy_password password"

definition hash_legacy_env_seeded_password ::
  "('ph, 'm) crypto_scheme \<Rightarrow> string \<Rightarrow> (string \<rightharpoonup> string) \<Rightarrow> (string \<rightharpoonup> string)" where
  "hash_legacy_env_seeded_password C salt snapshot =
     (case snapshot KEY_ACCESS_ADMIN_PASSWORD of
        None \<Rightarrow> snapshot
      | Some raw \<Rightarrow>
          if raw = [] \<or> raw = PLACEHOLDER \<or> starts_with raw ''sha2:'' \<or> \<not> is_legacy_password raw then snapshot
          else snapshot(KEY_ACCESS_ADMIN_PASSWORD \<mapsto> hash_admin_password C salt raw))"

section \<open>Policy\<close>

datatype warn_level = Warn | Info

record startup_warning =
  sw_message :: string
  sw_level :: warn_level

definition is_loopback_host :: "string \<Rightarrow> bool" where
  "is_loopback_host host \<longleftrightarrow> host \<in> {''127.0.0.1'', ''localhost'', ''::1''}"

definition warn :: "string \<Rightarrow> startup_warning" where
  "warn message = \<lparr>sw_message = message, sw_level = Warn\<rparr>"

definition SQUOTE :: string where "SQUOTE = [CHR 0x27]"

definition tls_warning :: "string \<Rightarrow> startup_warning" where
  "tls_warning host = warn (''access.mode=password with non-loopback bind ('' @ host
     @ ''): ensure TLS termination (reverse proxy) to protect AUTH_PASSWORD in transit. See the README '' @ SQUOTE @ ''Security''
     @ SQUOTE @ '' section.'')"

definition reads_warning :: "string \<Rightarrow> bool \<Rightarrow> startup_warning" where
  "reads_warning host require_auth_for_reads = warn
     (if require_auth_for_reads
      then ''access.require_auth_for_reads is effective-true on non-loopback bind ('' @ host
           @ ''): GET/HEAD/OPTIONS require the admin password (M-1 default). Set REQUIRE_AUTH_FOR_READS=false to restore open reads ''
           @ DASH @ '' see the README '' @ SQUOTE @ ''Security'' @ SQUOTE @ '' section.''
      else ''access.require_auth_for_reads is false on non-loopback bind ('' @ host
           @ ''): reads (GET/HEAD/OPTIONS) stay open '' @ DASH
           @ '' full article content is exposed to any network peer. Set REQUIRE_AUTH_FOR_READS=true to gate reads.'')"

definition broad_warning :: startup_warning where
  "broad_warning = warn (''general.trusted_proxy_cidrs contains an over-broad CIDR ('' @ bytes_str [0xE2, 0x89, 0xA5] @ '' /8 IPv4 or ''
     @ bytes_str [0xE2, 0x89, 0xA5]
     @ '' /56 IPv6): this allows X-Forwarded-For lockout bypass. Restrict to your actual proxy IPs.'')"

definition open_proxy_warning :: startup_warning where
  "open_proxy_warning = warn (''access.mode=open with general.trusted_proxy_cidrs set: if a public reverse proxy fronts this loopback instance, ''
     @ ''the loopback-only guarantee is defeated and the full library is exposed to network peers with no password to gate reads. ''
     @ ''For network-facing deployments use access.mode=password (with AUTH_PASSWORD) and terminate TLS at the proxy '' @ DASH
     @ '' see the README '' @ SQUOTE @ ''Security'' @ SQUOTE @ '' section.'')"

definition token_proxy_warning :: "string \<Rightarrow> startup_warning" where
  "token_proxy_warning host = warn (''access.mode=password with non-loopback bind ('' @ host
     @ '') and general.trusted_proxy_cidrs set: the last-resort ?access_token= query-string credential channel passes through the proxy ''
     @ ''(proxy access logs, Referer headers, browser history are outside the app'' @ SQUOTE
     @ ''s control). Prefer the Bearer Authorization header; keep ?access_token= for clients that cannot set headers.'')"

definition OPEN_BIND_REFUSAL :: string where
  "OPEN_BIND_REFUSAL = ''access.mode=open requires a loopback bind (host=127.0.0.1 or ::1); set access.mode=password ''
     @ ''(with AUTH_PASSWORD) for network-facing deployments''"

definition ZERO_CIDR_REFUSAL :: string where
  "ZERO_CIDR_REFUSAL = ''general.trusted_proxy_cidrs contains a /0 CIDR (prefix length 0, e.g. 0.0.0.0/0 or ::/0): a /0 entry matches ''
     @ ''every address, so it would trust every X-Forwarded-For value and defeat the per-IP auth-failure lockout. ''
     @ ''Restrict the list to your actual proxy IPs.''"

definition serve_policy_checks ::
  "('net, 'm) ipnet_scheme \<Rightarrow> string \<Rightarrow> string \<Rightarrow> bool \<Rightarrow> string \<Rightarrow> (startup_warning list, string) result" where
  "serve_policy_checks N host access_mode require_auth_for_reads trusted_proxy_cidrs =
     (let loopback = is_loopback_host host
      in if access_mode = ACCESS_MODE_OPEN \<and> \<not> loopback then Err OPEN_BIND_REFUSAL
         else
           let warnings = (if access_mode = ACCESS_MODE_PASSWORD \<and> \<not> loopback
                           then [tls_warning host, reads_warning host require_auth_for_reads] else [])
           in if has_zero_prefix_cidr N trusted_proxy_cidrs then Err ZERO_CIDR_REFUSAL
              else Ok (warnings
                @ (if has_over_broad_cidr N trusted_proxy_cidrs then [broad_warning] else [])
                @ (if access_mode = ACCESS_MODE_OPEN \<and> trim trusted_proxy_cidrs \<noteq> [] then [open_proxy_warning] else [])
                @ (if access_mode = ACCESS_MODE_PASSWORD \<and> \<not> loopback \<and> trim trusted_proxy_cidrs \<noteq> []
                   then [token_proxy_warning host] else [])))"

definition BANNER_RULE :: string where "BANNER_RULE = replicate 70 CHR ''=''"

definition PLAINTEXT_BANNER :: string where
  "PLAINTEXT_BANNER = BANNER_RULE @ [CHR 0x0A] @ ''SECURITY_KEY is not set '' @ DASH @ '' the settings table stores'' @ [CHR 0x0A]
     @ ''torrent.password / embedding.api_key / access.read_only_token'' @ [CHR 0x0A]
     @ ''in PLAINTEXT at rest. A database dump, a backup file, or'' @ [CHR 0x0A]
     @ ''any read access to the DB exposes those secrets in the clear.'' @ [CHR 0x0A]
     @ ''Set SECURITY_KEY to enable AES-256-GCM encryption at rest.'' @ [CHR 0x0A]
     @ ''It is REQUIRED for any deployment reachable beyond loopback'' @ [CHR 0x0A]
     @ ''(README '' @ SQUOTE @ ''At-rest encryption (SECURITY_KEY)'' @ SQUOTE @ '').'' @ [CHR 0x0A] @ BANNER_RULE"

definition security_key_plaintext_warning :: "bool \<Rightarrow> bool \<Rightarrow> startup_warning option" where
  "security_key_plaintext_warning key_set secret_stored =
     (if key_set \<or> \<not> secret_stored then None else Some (warn PLAINTEXT_BANNER))"

text \<open>The settings that decide about access, as \<open>build_state\<close> and \<open>cmd_serve\<close> read them.\<close>

record access_settings =
  ac_host :: string
  ac_mode :: string
  ac_password :: string
  ac_require_reads :: bool
  ac_proxies :: string
  ac_key_set :: bool
  ac_secrets :: "string list" \<comment> \<open>the values of the three settings that are encrypted at rest\<close>

definition serve_admission :: "('net, 'm) ipnet_scheme \<Rightarrow> access_settings \<Rightarrow> (startup_warning list, string) result" where
  "serve_admission N a =
     and_then (admin_password_startup_check (ac_mode a) (ac_password a)) (\<lambda>_.
     and_then (serve_policy_checks N (ac_host a) (ac_mode a) (ac_require_reads a) (ac_proxies a)) (\<lambda>warnings.
       Ok (warnings @ (case security_key_plaintext_warning (ac_key_set a) (list_ex (\<lambda>s. s \<noteq> []) (ac_secrets a)) of
                         Some w \<Rightarrow> [w] | None \<Rightarrow> []))))"

section \<open>Supervision and shutdown\<close>

text \<open>
  One poll of the supervisor: the tasks that have finished by then, with how they ended, and whether the stop flag
  is set during the pause after it.
\<close>

datatype task_end = Returned | Died string

record poll =
  po_finished :: "string \<rightharpoonup> task_end"
  po_stop :: bool

fun wait_for_task_failure :: "string list \<Rightarrow> poll list \<Rightarrow> ((string \<times> task_end) option \<times> string list) option" where
  "wait_for_task_failure tasks [] = None"
| "wait_for_task_failure tasks (p # polls) =
     (case find (\<lambda>t. po_finished p t \<noteq> None) tasks of
        Some t \<Rightarrow> Some (Some (t, the (po_finished p t)), remove1 t tasks)
      | None \<Rightarrow> if po_stop p then Some (None, tasks) else wait_for_task_failure tasks polls)"

datatype serve_failure = ServeError string | BackgroundTaskDied

definition serve_failure_display :: "serve_failure \<Rightarrow> string" where
  "serve_failure_display f =
     (case f of
        ServeError e \<Rightarrow> ''server error: '' @ e
      | BackgroundTaskDied \<Rightarrow> ''a critical background component failed (see log above); exiting non-zero'')"

text \<open>The outcome with the tasks that are aborted; \<open>survivors\<close> is what the supervisor hands back, or its own death.\<close>

definition finalize_serve_shutdown ::
  "(unit, string) result \<Rightarrow> (string list, string) result \<Rightarrow> bool \<Rightarrow> (unit, serve_failure) result \<times> string list" where
  "finalize_serve_shutdown serve_result survivors died =
     (let tasks = (case survivors of Inr ts \<Rightarrow> ts | Inl _ \<Rightarrow> [])
      in (case serve_result of
            Inl e \<Rightarrow> Err (ServeError e)
          | Inr _ \<Rightarrow> if died then Err BackgroundTaskDied else Ok (), tasks))"

section \<open>A network-facing server asks for a password\<close>

lemma serve_admission_Ok:
  assumes "serve_admission N a = Ok ws"
  shows "ac_mode a = ACCESS_MODE_PASSWORD \<longrightarrow> ac_password a \<noteq> []" and "ac_password a \<noteq> PLACEHOLDER"
    and "ac_mode a = ACCESS_MODE_OPEN \<longrightarrow> is_loopback_host (ac_host a)" and "\<not> has_zero_prefix_cidr N (ac_proxies a)"
proof -
  have pw: "admin_password_startup_check (ac_mode a) (ac_password a) = Ok ()"
    using assms by (cases "admin_password_startup_check (ac_mode a) (ac_password a)") (simp_all add: serve_admission_def)
  obtain vs where pol: "serve_policy_checks N (ac_host a) (ac_mode a) (ac_require_reads a) (ac_proxies a) = Ok vs"
    using assms pw by (cases "serve_policy_checks N (ac_host a) (ac_mode a) (ac_require_reads a) (ac_proxies a)") (simp_all add: serve_admission_def)
  show "ac_mode a = ACCESS_MODE_PASSWORD \<longrightarrow> ac_password a \<noteq> []" "ac_password a \<noteq> PLACEHOLDER"
    using pw by (auto simp: admin_password_startup_check_def split: if_splits)
  show "ac_mode a = ACCESS_MODE_OPEN \<longrightarrow> is_loopback_host (ac_host a)" "\<not> has_zero_prefix_cidr N (ac_proxies a)"
    using pol by (auto simp: serve_policy_checks_def Let_def split: if_splits)
qed


text \<open>
  Hashing the password of the environment keeps who may log in: what a plain password accepts, its hash accepts; a
  password that was hashed before, the legacy hashes and the placeholder are left for the checks as they are.
\<close>

theorem env_password_still_verifies:
  assumes "argon_correct C" and "snapshot KEY_ACCESS_ADMIN_PASSWORD = Some raw"
  shows "\<exists>stored. hash_legacy_env_seeded_password C salt snapshot KEY_ACCESS_ADMIN_PASSWORD = Some stored
    \<and> verify_admin_password C stored pw = verify_admin_password C raw pw
    \<and> (stored = PLACEHOLDER \<longleftrightarrow> raw = PLACEHOLDER) \<and> (stored = [] \<longleftrightarrow> raw = [])"
proof (cases "raw = [] \<or> raw = PLACEHOLDER \<or> starts_with raw ''sha2:'' \<or> \<not> is_legacy_password raw")
  case True
  then show ?thesis using assms(2) by (simp add: hash_legacy_env_seeded_password_def)
next
  case False
  let ?h = "hash_admin_password C salt raw"
  have "hash_legacy_env_seeded_password C salt snapshot KEY_ACCESS_ADMIN_PASSWORD = Some ?h"
    using False assms(2) by (simp add: hash_legacy_env_seeded_password_def)
  moreover have "verify_admin_password C raw pw = Done (pw = raw)"
    using False by (simp add: verify_admin_password_def is_legacy_password_def strip_prefix_def constant_time_eq_def)
  moreover have "starts_with ?h ''$argon2id$''" using assms(1) by (simp add: argon_correct_def hash_admin_password_def)
  then have "?h \<noteq> PLACEHOLDER" "?h \<noteq> []" by (auto simp: starts_with_def PLACEHOLDER_def)
  ultimately show ?thesis using argon_verify [OF assms(1)] False by auto
qed

text \<open>
  A background task that ends while the server runs is reported, and the tasks handed back for the shutdown are all the
  others.
\<close>

theorem dead_task_is_reported:
  assumes "\<exists>p\<in>set polls. \<exists>t\<in>set tasks. po_finished p t \<noteq> None" and "\<forall>p\<in>set polls. \<not> po_stop p"
  shows "\<exists>t e. wait_for_task_failure tasks polls = Some (Some (t, e), remove1 t tasks) \<and> t \<in> set tasks"
  using assms
proof (induction polls)
  case (Cons p polls)
  show ?case
  proof (cases "find (\<lambda>t. po_finished p t \<noteq> None) tasks")
    case None
    then have "\<not> (\<exists>t\<in>set tasks. po_finished p t \<noteq> None)" by (simp only: find_None_all) blast
    then show ?thesis using Cons None by auto
  next
    case (Some t)
    then have "t \<in> set tasks" by (metis find_Some_split in_set_conv_decomp)
    then show ?thesis using Some by simp
  qed
qed simp

section \<open>Samples\<close>

definition sample_access :: access_settings where
  "sample_access = \<lparr>ac_host = ''0.0.0.0'', ac_mode = ACCESS_MODE_PASSWORD, ac_password = ''pw'', ac_require_reads = False, ac_proxies = [],
     ac_key_set = True, ac_secrets = []\<rparr>"


end
