(* ===== verification/RandomArticle.thy ===== *)
theory RandomArticle
  imports Zims "HOL-Library.Word"
begin

text \<open>
  Drawing a random article (\<open>src/db/random_article.rs\<close>): the pick of an identifier in the range of identifiers with
  wrapping arithmetic on 64 bits, and the two statements that find an article near it.

  The table is a list of articles with their identifiers and archives. Articles can be deleted and added between
  the statements: each statement sees a table of its own. The two rows the merged statement can give come in no
  fixed order, so which one is taken is an argument.
\<close>

type_synonym i64 = "64 word" \<comment> \<open>read with \<open>sint\<close>\<close>

text \<open>The casts to \<open>u64\<close> keep the bits; the width is a 128-bit number and does not wrap.\<close>

definition random_id_in_range :: "i64 \<Rightarrow> i64 \<Rightarrow> u64 \<Rightarrow> i64" where
  "random_id_in_range lo hi seed =
     (let width = uint (hi - lo) + 1;
          offset = uint seed mod width
      in lo + word_of_int offset)"

record random_article =
  ra_id :: i64
  ra_zim_id :: int
  ra_path :: string
  ra_title :: string
  ra_snippet :: string
  ra_zim :: string

text \<open>The rows of \<open>articles\<close> joined with the name of their archive, in the scope of a request.\<close>

definition in_scope :: "string option \<Rightarrow> random_article \<Rightarrow> bool" where
  "in_scope zim_filter a = (case zim_filter of Some zim \<Rightarrow> ra_zim a = zim | None \<Rightarrow> True)"

fun extreme :: "(int \<Rightarrow> int \<Rightarrow> bool) \<Rightarrow> random_article list \<Rightarrow> random_article option" where
  "extreme before [] = None"
| "extreme before (a # as) =
     (case extreme before as of
        None \<Rightarrow> Some a
      | Some b \<Rightarrow> if before (sint (ra_id b)) (sint (ra_id a)) then Some b else Some a)"

definition fetch_bounds :: "sqlx_error option \<Rightarrow> random_article list \<Rightarrow> string option \<Rightarrow> ((i64 \<times> i64) option, error) result" where
  "fetch_bounds fault db zim_filter =
     (case fault of
        Some e \<Rightarrow> Err (Database e)
      | None \<Rightarrow>
          (case (extreme (<) (filter (in_scope zim_filter) db), extreme (>) (filter (in_scope zim_filter) db)) of
             (Some a, Some b) \<Rightarrow> Ok (Some (ra_id a, ra_id b))
           | _ \<Rightarrow> Ok None))"

definition seek_rows :: "random_article list \<Rightarrow> i64 \<Rightarrow> string option \<Rightarrow> random_article list" where
  "seek_rows db target zim_filter =
     (let rows = filter (in_scope zim_filter) db;
          one = (\<lambda>x. case x of Some a \<Rightarrow> [a] | None \<Rightarrow> [])
      in one (extreme (<) (filter (\<lambda>a. sint (ra_id a) \<ge> sint target) rows))
         @ one (extreme (>) (filter (\<lambda>a. sint (ra_id a) \<le> sint target) rows)))"

definition seek :: "sqlx_error option \<Rightarrow> bool \<Rightarrow> random_article list \<Rightarrow> i64 \<Rightarrow> string option \<Rightarrow> (random_article option, error) result" where
  "seek fault swapped db target zim_filter =
     (case fault of
        Some e \<Rightarrow> Err (Database e)
      | None \<Rightarrow> (case (if swapped then rev (seek_rows db target zim_filter) else seek_rows db target zim_filter) of
                   [] \<Rightarrow> Ok None | a # _ \<Rightarrow> Ok (Some a)))"

text \<open>The four statements, each with its fault, its table and the order of its rows.\<close>

record draw_env =
  dx_fault :: "nat \<Rightarrow> sqlx_error option"
  dx_db :: "nat \<Rightarrow> random_article list"
  dx_swapped :: "nat \<Rightarrow> bool"
  dx_seed :: u64

definition NO_ARTICLES :: error where "NO_ARTICLES = NotFound ''no articles found''"

definition draw_once :: "draw_env \<Rightarrow> nat \<Rightarrow> string option \<Rightarrow> (random_article option, error) result" where
  "draw_once E n zim_filter =
     and_then (fetch_bounds (dx_fault E n) (dx_db E n) zim_filter) (\<lambda>bounds.
       case bounds of
         None \<Rightarrow> Err NO_ARTICLES
       | Some (min_id, max_id) \<Rightarrow>
           seek (dx_fault E (Suc n)) (dx_swapped E (Suc n)) (dx_db E (Suc n)) (random_id_in_range min_id max_id (dx_seed E)) zim_filter)"

definition fetch_random_article :: "draw_env \<Rightarrow> string option \<Rightarrow> (random_article, error) result" where
  "fetch_random_article E zim_filter =
     and_then (draw_once E 0 zim_filter) (\<lambda>article.
       case article of
         Some a \<Rightarrow> Ok a
       | None \<Rightarrow> and_then (draw_once E 2 zim_filter) (\<lambda>again.
                   case again of Some a \<Rightarrow> Ok a | None \<Rightarrow> Err NO_ARTICLES))"

section \<open>The pick\<close>

lemma i64_range: "- (2 ^ 63) \<le> sint (x :: i64)" "sint (x :: i64) < 2 ^ 63"
  using sint_ge [of x] sint_lt [of x] by simp_all

lemma uint_distance:
  assumes "sint (lo :: i64) \<le> sint (hi :: i64)"
  shows "uint (hi - lo) = sint hi - sint lo"
proof -
  let ?d = "sint hi - sint lo"
  have "0 \<le> ?d" "?d < 2 ^ 64" using assms i64_range [of lo] i64_range [of hi] by simp_all
  then have "uint (word_of_int ?d :: i64) = ?d" by (simp only: uint_word_of_int) simp
  moreover have "word_of_int ?d = hi - lo" by simp
  ultimately show ?thesis by metis
qed

lemma sint_offset:
  assumes "0 \<le> k" and "k \<le> sint (hi :: i64) - sint (lo :: i64)"
  shows "sint (lo + word_of_int k) = sint lo + k"
proof -
  have "- (2 ^ 63) \<le> sint lo + k" "sint lo + k < 2 ^ 63" using assms i64_range [of lo] i64_range [of hi] by simp_all
  then have "sint (word_of_int (sint lo + k) :: i64) = sint lo + k" by (simp add: signed_of_int signed_take_bit_int_eq_self del: of_int_add)
  moreover have "word_of_int (sint lo + k) = lo + word_of_int k" by simp
  ultimately show ?thesis by metis
qed

lemma pick_value:
  assumes "sint lo \<le> sint hi"
  shows "sint (random_id_in_range lo hi seed) = sint lo + uint seed mod (sint hi - sint lo + 1)"
proof -
  have w: "uint (hi - lo) + 1 = sint hi - sint lo + 1" using uint_distance [OF assms] by simp
  have "0 \<le> uint seed mod (sint hi - sint lo + 1)" "uint seed mod (sint hi - sint lo + 1) < sint hi - sint lo + 1"
    using assms pos_mod_bound [of "sint hi - sint lo + 1" "uint seed"] pos_mod_sign [of "sint hi - sint lo + 1" "uint seed"] by linarith+
  then show ?thesis unfolding random_id_in_range_def Let_def w by (intro sint_offset [of _ hi]) simp_all
qed

text \<open>
  C40. Over all seeds the picks are exactly the identifiers of the range, signed and without a wrap, also when the
  range spans all 64-bit numbers: no pick is outside of the range, and every identifier can be picked.
\<close>

theorem picks_are_the_range:
  assumes "sint lo \<le> sint hi"
  shows "(\<lambda>seed. sint (random_id_in_range lo hi seed)) ` UNIV = {sint lo..sint hi}"
proof (intro equalityI subsetI)
  fix x
  assume "x \<in> (\<lambda>seed. sint (random_id_in_range lo hi seed)) ` UNIV"
  then obtain seed where "x = sint (random_id_in_range lo hi seed)" by blast
  then show "x \<in> {sint lo..sint hi}"
    using assms pick_value [OF assms, of seed] pos_mod_bound [of "sint hi - sint lo + 1" "uint seed"] pos_mod_sign [of "sint hi - sint lo + 1" "uint seed"]
    by simp
next
  fix x
  assume x: "x \<in> {sint lo..sint hi}"
  let ?k = "x - sint lo"
  have k: "0 \<le> ?k" "?k < 2 ^ 64" "?k < sint hi - sint lo + 1" using x i64_range [of lo] i64_range [of hi] by auto
  then have "uint (word_of_int ?k :: u64) = ?k" by (simp only: uint_word_of_int) simp
  then have "sint (random_id_in_range lo hi (word_of_int ?k)) = x" using pick_value [OF assms, of "word_of_int ?k"] k by simp
  then show "x \<in> (\<lambda>seed. sint (random_id_in_range lo hi seed)) ` UNIV" by (metis rangeI)
qed

theorem picks_are_the_range_witness:
  "(\<lambda>seed. sint (random_id_in_range (- 2) 9 seed)) ` UNIV = {- 2..9}"
  using picks_are_the_range [of "- 2" 9] by simp

section \<open>The draw\<close>

lemma extreme_mem: "extreme before xs = Some a \<Longrightarrow> a \<in> set xs"
  by (induction xs arbitrary: a) (auto split: option.splits if_splits)

lemma extreme_None: "extreme before xs = None \<longleftrightarrow> xs = []"
  by (cases xs) (auto split: option.splits)

lemma extreme_least: "extreme (<) xs = Some a \<Longrightarrow> b \<in> set xs \<Longrightarrow> sint (ra_id a) \<le> sint (ra_id b)"
  by (induction xs arbitrary: a) (fastforce simp: extreme_None split: option.splits if_splits)+

lemma extreme_greatest: "extreme (>) xs = Some a \<Longrightarrow> b \<in> set xs \<Longrightarrow> sint (ra_id b) \<le> sint (ra_id a)"
  by (induction xs arbitrary: a) (fastforce simp: extreme_None split: option.splits if_splits)+

lemma seek_rows_scope: "a \<in> set (seek_rows db target f) \<Longrightarrow> a \<in> set db \<and> in_scope f a"
  by (auto simp: seek_rows_def Let_def dest: extreme_mem [OF sym] split: option.splits)

lemma seek_Ok: "seek fault swapped db target f = Ok (Some a) \<Longrightarrow> a \<in> set db \<and> in_scope f a"
  using seek_rows_scope [of a db target f]
  by (auto simp: seek_def split: option.splits if_splits list.splits dest!: arg_cong [where f = set])

lemma seek_rows_nonempty:
  assumes "\<exists>a\<in>set db. in_scope f a"
  shows "seek_rows db target f \<noteq> []"
proof -
  obtain a where a: "a \<in> set db" "in_scope f a" using assms by blast
  let ?rows = "filter (in_scope f) db"
  have "filter (\<lambda>a. sint (ra_id a) \<ge> sint target) ?rows \<noteq> [] \<or> filter (\<lambda>a. sint (ra_id a) \<le> sint target) ?rows \<noteq> []"
    using a by (cases "sint (ra_id a) \<ge> sint target") (force simp: filter_empty_conv)+
  then show ?thesis by (auto simp: seek_rows_def Let_def extreme_None split: option.splits)
qed

lemma draw_once_Ok: "draw_once E n f = Ok (Some a) \<Longrightarrow> a \<in> set (dx_db E (Suc n)) \<and> in_scope f a"
  by (auto simp: draw_once_def dest: seek_Ok split: option.splits sum.splits elim!: and_then.elims)

text \<open>
  A random draw gives an article that is in the table and, when the request names an archive, belongs to it,
  whatever is deleted or added between its statements; and it fails for want of articles only when the scope was
  empty at one of them.
\<close>

theorem random_draw_in_scope:
  assumes "\<And>n. dx_fault E n = None"
  shows "case fetch_random_article E zim_filter of
      Inr a \<Rightarrow> in_scope zim_filter a \<and> (a \<in> set (dx_db E 1) \<or> a \<in> set (dx_db E 3))
    | Inl e \<Rightarrow> e = NO_ARTICLES \<and> (\<exists>n<4. \<forall>a\<in>set (dx_db E n). \<not> in_scope zim_filter a)"
proof -
  let ?void = "\<lambda>n. \<forall>a\<in>set (dx_db E n). \<not> in_scope zim_filter a"
  have void: "?void n \<or> ?void (Suc n)" if "draw_once E n zim_filter = Ok None" for n
    using that seek_rows_nonempty [of "dx_db E (Suc n)" zim_filter] assms
    by (auto simp: draw_once_def fetch_bounds_def seek_def extreme_None filter_empty_conv split: option.splits list.splits if_splits prod.splits)
  have err: "e = NO_ARTICLES \<and> ?void n" if "draw_once E n zim_filter = Err e" for n e
    using that assms by (auto simp: draw_once_def fetch_bounds_def seek_def extreme_None filter_empty_conv split: option.splits list.splits if_splits prod.splits)
  show ?thesis
  proof (cases "draw_once E 0 zim_filter")
    case (Inl e)
    then show ?thesis using err [OF Inl] by (simp add: fetch_random_article_def) (intro exI [of _ 0], simp)
  next
    case (Inr x)
    show ?thesis
    proof (cases x)
      case (Some a)
      then show ?thesis using Inr draw_once_Ok [of E 0 zim_filter a] by (simp add: fetch_random_article_def)
    next
      case n: None
      show ?thesis
      proof (cases "draw_once E 2 zim_filter")
        case e: (Inl e)
        then show ?thesis using err [OF e] Inr n by (simp add: fetch_random_article_def) (intro exI [of _ 2], simp)
      next
        case y: (Inr y)
        have "\<exists>n<4. ?void n" if "y = None"
        proof -
          have "?void 2 \<or> ?void 3" using void [of 2] y that by (simp add: numeral_3_eq_3)
          then show ?thesis
          proof
            assume "?void 2"
            then show ?thesis by (intro exI [of _ 2]) simp
          next
            assume "?void 3"
            then show ?thesis by (intro exI [of _ 3]) simp
          qed
        qed
        then show ?thesis using y Inr n draw_once_Ok [of E 2 zim_filter] by (cases y) (auto simp: fetch_random_article_def numeral_3_eq_3)
      qed
    qed
  qed
qed

definition sample_draw :: draw_env where
  "sample_draw = \<lparr>dx_fault = (\<lambda>_. None), dx_db = (\<lambda>_. [\<lparr>ra_id = 5, ra_zim_id = 1, ra_path = ''A/x'', ra_title = ''X'', ra_snippet = [], ra_zim = ''wiki''\<rparr>]),
     dx_swapped = (\<lambda>_. False), dx_seed = 3\<rparr>"

theorem random_draw_in_scope_witness:
  "case fetch_random_article sample_draw (Some ''wiki'') of Inr a \<Rightarrow> ra_zim a = ''wiki'' \<and> ra_path a = ''A/x'' | Inl _ \<Rightarrow> False"
  using random_draw_in_scope [of sample_draw "Some ''wiki''"] by (auto simp: sample_draw_def in_scope_def split: sum.splits)

end
