(* ===== verification/Collections.thy ===== *)
theory Collections
  imports Errors Prelude
begin

text \<open>
  Collections of archives (\<open>src/db/collections.rs\<close>). The update is written as one statement for each of the fifteen
  combinations of fields; they are all here, as the assignments of their \<open>SET\<close> clauses, and are shown to do what one
  update of the given fields does.

  The table is a list of rows with a primary key and a unique name; a fault of the database is an argument.
\<close>

record collection_row =
  cl_id :: int
  cl_name :: string
  cl_label :: string
  cl_zim_ids :: "int list"
  cl_is_favorite :: bool
  cl_created_at :: int
  cl_updated_at :: int

record collections_db =
  cb_rows :: "collection_row list"
  cb_seq :: int

definition unique_violation :: sqlx_error where
  "unique_violation = DatabaseError (Some ''23505'') (Some ''collections_name_key'')"

definition collections_ok :: "collections_db \<Rightarrow> bool" where
  "collections_ok db \<longleftrightarrow> distinct (map cl_id (cb_rows db)) \<and> distinct (map cl_name (cb_rows db)) \<and> (\<forall>r\<in>set (cb_rows db). cl_id r < cb_seq db)"

text \<open>\<open>ORDER BY name\<close>, by the bytes of the names.\<close>

definition list_collections :: "sqlx_error option \<Rightarrow> (string \<Rightarrow> string \<Rightarrow> bool) \<Rightarrow> collections_db \<Rightarrow> (collection_row list, error) result" where
  "list_collections fault le db =
     (case fault of
        Some e \<Rightarrow> Err (Database e)
      | None \<Rightarrow> Ok (foldr (\<lambda>r rs. takeWhile (\<lambda>q. \<not> le (cl_name r) (cl_name q)) rs @ r # dropWhile (\<lambda>q. \<not> le (cl_name r) (cl_name q)) rs)
                      (cb_rows db) []))"

datatype collection_insert = Added int | SameName

text \<open>A failed insert has used its number of the sequence.\<close>

definition exec_insert :: "int \<Rightarrow> string \<Rightarrow> string \<Rightarrow> int list \<Rightarrow> bool \<Rightarrow> collections_db \<Rightarrow> (int, sqlx_error) result \<times> collections_db" where
  "exec_insert now name label zim_ids is_favorite db =
     (let db' = db\<lparr>cb_seq := cb_seq db + 1\<rparr>
      in if name \<in> cl_name ` set (cb_rows db) then (Err unique_violation, db')
         else (Ok (cb_seq db),
               db'\<lparr>cb_rows := cb_rows db @ [\<lparr>cl_id = cb_seq db, cl_name = name, cl_label = label, cl_zim_ids = zim_ids,
                 cl_is_favorite = is_favorite, cl_created_at = now, cl_updated_at = now\<rparr>]\<rparr>))"

definition insert_collection :: "sqlx_error option \<Rightarrow> int \<Rightarrow> string \<Rightarrow> string \<Rightarrow> int list \<Rightarrow> bool \<Rightarrow> collections_db
    \<Rightarrow> (collection_insert, error) result \<times> collections_db" where
  "insert_collection fault now name label zim_ids is_favorite db =
     (case (case fault of Some e \<Rightarrow> (Err e, db) | None \<Rightarrow> exec_insert now name label zim_ids is_favorite db) of
        (Inr i, db) \<Rightarrow> (Ok (Added i), db)
      | (Inl e, db) \<Rightarrow> (if is_unique_violation e then Ok SameName else Err (Database e), db))"

record update_fields =
  uf_name :: "string option"
  uf_label :: "string option"
  uf_zim_ids :: "int list option"
  uf_is_favorite :: "bool option"

datatype update_outcome = Updated | NotFoundRow

datatype assignment = SetName string | SetLabel string | SetZimIds "int list" | SetFavorite bool

fun assign :: "assignment \<Rightarrow> collection_row \<Rightarrow> collection_row" where
  "assign (SetName s) r = r\<lparr>cl_name := s\<rparr>"
| "assign (SetLabel s) r = r\<lparr>cl_label := s\<rparr>"
| "assign (SetZimIds zs) r = r\<lparr>cl_zim_ids := zs\<rparr>"
| "assign (SetFavorite b) r = r\<lparr>cl_is_favorite := b\<rparr>"

text \<open>\<open>UPDATE collections SET ..., updated_at = now() WHERE id = $1\<close>: the count of rows, or the violation of the unique name.\<close>

definition exec_update :: "int \<Rightarrow> int \<Rightarrow> assignment list \<Rightarrow> collections_db \<Rightarrow> (nat, sqlx_error) result \<times> collections_db" where
  "exec_update now i sets db =
     (let change = (\<lambda>r. if cl_id r = i then (fold assign sets r)\<lparr>cl_updated_at := now\<rparr> else r);
          rows = map change (cb_rows db)
      in if distinct (map cl_name rows) then (Ok (length (filter (\<lambda>r. cl_id r = i) (cb_rows db))), db\<lparr>cb_rows := rows\<rparr>)
         else (Err unique_violation, db))"

definition update_sets :: "update_fields \<Rightarrow> assignment list option" where
  "update_sets uf =
     (case (uf_name uf, uf_label uf, uf_zim_ids uf, uf_is_favorite uf) of
        (None, None, None, None) \<Rightarrow> None
      | (Some name, None, None, None) \<Rightarrow> Some [SetName name]
      | (None, Some label, None, None) \<Rightarrow> Some [SetLabel label]
      | (None, None, Some zim_ids, None) \<Rightarrow> Some [SetZimIds zim_ids]
      | (None, None, None, Some is_favorite) \<Rightarrow> Some [SetFavorite is_favorite]
      | (Some name, Some label, None, None) \<Rightarrow> Some [SetName name, SetLabel label]
      | (Some name, None, Some zim_ids, None) \<Rightarrow> Some [SetName name, SetZimIds zim_ids]
      | (Some name, None, None, Some is_favorite) \<Rightarrow> Some [SetName name, SetFavorite is_favorite]
      | (None, Some label, Some zim_ids, None) \<Rightarrow> Some [SetLabel label, SetZimIds zim_ids]
      | (None, Some label, None, Some is_favorite) \<Rightarrow> Some [SetLabel label, SetFavorite is_favorite]
      | (None, None, Some zim_ids, Some is_favorite) \<Rightarrow> Some [SetZimIds zim_ids, SetFavorite is_favorite]
      | (Some name, Some label, Some zim_ids, None) \<Rightarrow> Some [SetName name, SetLabel label, SetZimIds zim_ids]
      | (Some name, Some label, None, Some is_favorite) \<Rightarrow> Some [SetName name, SetLabel label, SetFavorite is_favorite]
      | (Some name, None, Some zim_ids, Some is_favorite) \<Rightarrow> Some [SetName name, SetZimIds zim_ids, SetFavorite is_favorite]
      | (None, Some label, Some zim_ids, Some is_favorite) \<Rightarrow> Some [SetLabel label, SetZimIds zim_ids, SetFavorite is_favorite]
      | (Some name, Some label, Some zim_ids, Some is_favorite) \<Rightarrow>
          Some [SetName name, SetLabel label, SetZimIds zim_ids, SetFavorite is_favorite])"

definition update_collection :: "sqlx_error option \<Rightarrow> int \<Rightarrow> int \<Rightarrow> update_fields \<Rightarrow> collections_db
    \<Rightarrow> (update_outcome, error) result \<times> collections_db" where
  "update_collection fault now i uf db =
     (case update_sets uf of
        None \<Rightarrow> (Ok NotFoundRow, db)
      | Some sets \<Rightarrow>
          (case (case fault of Some e \<Rightarrow> (Err e, db) | None \<Rightarrow> exec_update now i sets db) of
             (Inl e, db) \<Rightarrow> (Err (Database e), db)
           | (Inr n, db) \<Rightarrow> (Ok (if n > 0 then Updated else NotFoundRow), db)))"

datatype delete_outcome = Deleted | NotFoundDel

definition delete_collection :: "sqlx_error option \<Rightarrow> int \<Rightarrow> collections_db \<Rightarrow> (delete_outcome, error) result \<times> collections_db" where
  "delete_collection fault i db =
     (case fault of
        Some e \<Rightarrow> (Err (Database e), db)
      | None \<Rightarrow> (Ok (if \<exists>r\<in>set (cb_rows db). cl_id r = i then Deleted else NotFoundDel),
                 db\<lparr>cb_rows := filter (\<lambda>r. cl_id r \<noteq> i) (cb_rows db)\<rparr>))"

section \<open>Updates change the given fields\<close>

text \<open>The row with the given fields, as one statement with a default for every field would set it.\<close>

definition patched :: "int \<Rightarrow> update_fields \<Rightarrow> collection_row \<Rightarrow> collection_row" where
  "patched now f r = r\<lparr>cl_name := (case uf_name f of Some s \<Rightarrow> s | None \<Rightarrow> cl_name r),
     cl_label := (case uf_label f of Some s \<Rightarrow> s | None \<Rightarrow> cl_label r),
     cl_zim_ids := (case uf_zim_ids f of Some z \<Rightarrow> z | None \<Rightarrow> cl_zim_ids r),
     cl_is_favorite := (case uf_is_favorite f of Some b \<Rightarrow> b | None \<Rightarrow> cl_is_favorite r), cl_updated_at := now\<rparr>"

lemma update_sets_patched: "update_sets f = Some sets \<Longrightarrow> (fold assign sets r)\<lparr>cl_updated_at := now\<rparr> = patched now f r"
  by (cases "uf_name f"; cases "uf_label f"; cases "uf_zim_ids f"; cases "uf_is_favorite f") (auto simp: update_sets_def patched_def)

lemma update_sets_None: "update_sets f = None \<longleftrightarrow> uf_name f = None \<and> uf_label f = None \<and> uf_zim_ids f = None \<and> uf_is_favorite f = None"
  by (cases "uf_name f"; cases "uf_label f"; cases "uf_zim_ids f"; cases "uf_is_favorite f") (simp_all add: update_sets_def)

text \<open>
  Whatever fields are given, the update changes exactly them, and the time of the change, in the row of that id and
  leaves every other row; it reports whether there is such a row, and a name that another row has is refused as a
  whole.
\<close>

theorem update_changes_given_fields:
  assumes "update_sets f \<noteq> None"
  shows "update_collection None now i f db =
    (let rows = map (\<lambda>r. if cl_id r = i then patched now f r else r) (cb_rows db)
     in if distinct (map cl_name rows)
        then (Ok (if \<exists>r\<in>set (cb_rows db). cl_id r = i then Updated else NotFoundRow), db\<lparr>cb_rows := rows\<rparr>)
        else (Err (Database unique_violation), db))"
proof -
  obtain sets where sets: "update_sets f = Some sets" using assms by auto
  have f: "(\<lambda>r. if cl_id r = i then (fold assign sets r)\<lparr>cl_updated_at := now\<rparr> else r) = (\<lambda>r. if cl_id r = i then patched now f r else r)"
    by (rule ext) (simp add: update_sets_patched [OF sets])
  show ?thesis unfolding update_collection_def sets option.case exec_update_def f by (auto simp: Let_def filter_empty_conv)
qed

section \<open>Keys stay unique\<close>

lemma insert_keeps: "collections_ok db \<Longrightarrow> insert_collection fault now name label zs fav db = (res, db') \<Longrightarrow> collections_ok db'"
  by (fastforce simp: insert_collection_def exec_insert_def collections_ok_def Let_def split: option.splits if_splits)

lemma delete_keeps: "collections_ok db \<Longrightarrow> delete_collection fault i db = (res, db') \<Longrightarrow> collections_ok db'"
  by (auto simp: delete_collection_def collections_ok_def distinct_map_filter split: option.splits)

lemma update_keeps:
  assumes "collections_ok db" and "update_collection fault now i f db = (res, db')"
  shows "collections_ok db'"
proof (cases "update_sets f = None \<or> fault \<noteq> None")
  case True
  then show ?thesis using assms by (auto simp: update_collection_def split: option.splits)
next
  case False
  let ?rows = "map (\<lambda>r. if cl_id r = i then patched now f r else r) (cb_rows db)"
  have ids: "map cl_id ?rows = map cl_id (cb_rows db)" by (simp add: patched_def)
  have "cl_id r < cb_seq db" if "r \<in> set ?rows" for r
  proof -
    have "cl_id r \<in> cl_id ` set ?rows" using that by (rule imageI)
    then have "cl_id r \<in> set (map cl_id ?rows)" by (simp only: set_map)
    then show ?thesis using assms(1) unfolding ids by (auto simp: collections_ok_def)
  qed
  moreover have "distinct (map cl_id ?rows)" using assms(1) unfolding ids by (simp add: collections_ok_def)
  ultimately show ?thesis
    using assms False update_changes_given_fields [of f now i db] by (auto simp: collections_ok_def Let_def split: if_splits)
qed

end
