(* ===== verification/Spec2Isabelle.thy ===== *)
theory Spec2Isabelle
  imports Prelude RateLimit Downloads Requeue AuthGate NetGuard Opds Files Queue SearchSql SettingsCache Search Direct Zims Completion Poller Indexing EmbedLive AutoEmbed Guards RawContent Notify Startup RandomArticle Collections
begin

text \<open>
  A verification library for \<^bold>\<open>zimservice\<close>, the Rust server that keeps a library of ZIM archives, downloads and
  updates them, indexes their articles in Postgres and answers searches over HTTP and MCP. File names below
  are relative to the crate's \<open>src/\<close> directory.

  \<^bold>\<open>The program and its models.\<close> Each theory holds one component: its data and state as records and datatypes, one
  definition per operation in the order of the source, then the lemmas and the numbered properties.

  \<^item> \<open>Prelude\<close>: machine integers and results under their Rust names, the part of Rust's string library the
    components use (strings are lists of UTF-8 bytes), shared lemma collections.
  \<^item> \<open>Errors\<close> (\<open>error.rs\<close>), \<open>Urls\<close> (\<open>util.rs\<close>, \<open>torrent/mod.rs\<close>), \<open>Json\<close> (the JSON values of the settings code),
    \<open>NetAddr\<close> (addresses of the standard library).
  \<^item> Access control: \<open>RateLimit\<close> (\<open>access/ratelimit.rs\<close>), \<open>Lockout\<close> (\<open>access/lockout.rs\<close>), \<open>Cidr\<close> (\<open>access/cidr.rs\<close>), \<open>Tokens\<close>
    (\<open>settings/auth.rs\<close>, \<open>settings/auth_service.rs\<close>) and the HTTP gate \<open>AuthGate\<close> (\<open>serve/middleware.rs\<close>) that composes them. The
    bounded maps they share are \<open>Capped\<close>.
  \<^item> \<open>NetGuard\<close> (\<open>netguard.rs\<close>): blocked address ranges, pinned resolution and the manual redirect chain that
    every user-influenced URL goes through.
  \<^item> Settings: \<open>Settings\<close> (\<open>settings/defs.rs\<close>, \<open>config.rs\<close>, \<open>settings/snapshots.rs\<close>) and \<open>SettingsCache\<close>
    (\<open>settings/cache.rs\<close>, \<open>settings/tokens.rs\<close>, \<open>settings/encrypt.rs\<close>), the cache over its table.
  \<^item> Downloads: \<open>Downloads\<close> is the \<open>downloads\<close> table with every statement of \<open>db/downloads.rs\<close> and
    \<open>db/downloads_lifecycle.rs\<close>; \<open>Requeue\<close> and \<open>Queue\<close> are the poller's retry guard and its passes over cancelled and
    queued rows (\<open>torrent/poller/requeue.rs\<close>, \<open>torrent/poller/mod.rs\<close>); \<open>Direct\<close> the HTTP download
    (\<open>torrent/poller/direct.rs\<close>); \<open>Completion\<close> what happens to a finished torrent (\<open>torrent/poller/complete.rs\<close>,
    \<open>torrent/poller/stats.rs\<close>); \<open>Poller\<close> the rows in flight, the whole cycle, the reconciliation at the start and the catalog
    updates (\<open>torrent/poller/inflight.rs\<close>, \<open>reconcile.rs\<close>, \<open>opds.rs\<close>); \<open>Qbit\<close> the qBittorrent client (\<open>torrent/mod.rs\<close>), \<open>Opds\<close>
    the catalog (\<open>torrent/opds.rs\<close>) and \<open>Files\<close> the search for and the installation of archives (\<open>torrent/files.rs\<close>).
  \<^item> The library: \<open>Zims\<close> is the archive manager (\<open>zim/mod.rs\<close>, \<open>zim/discovery.rs\<close>), \<open>Articles\<close> and \<open>Indexing\<close> the
    extraction of articles and the indexing pipeline (\<open>zim/index.rs\<close>). \<open>Content\<close> and \<open>RawContent\<close> serve entries as text, chunks
    and raw bytes (\<open>content.rs\<close>, \<open>serve/handlers/content.rs\<close>); \<open>RandomArticle\<close> and \<open>Collections\<close> are \<open>db/random_article.rs\<close> and
    \<open>db/collections.rs\<close>.
  \<^item> Embedding: \<open>VectorIndex\<close> is the index build and its gate (\<open>embed/vector_index.rs\<close>), \<open>EmbedPipeline\<close> the claims, tasks and
    writes of one run (\<open>embed/pipeline.rs\<close>, \<open>embed/column.rs\<close>), with termination in \<open>EmbedProgress\<close>, what a run stores in
    \<open>EmbedOutcome\<close> and that it stores everything in \<open>EmbedLive\<close>; \<open>AutoEmbed\<close> is the tick of the background loop
    (\<open>embed/auto_loop.rs\<close>).
  \<^item> Processes: \<open>Guards\<close> are the single-instance guards (\<open>startup/guards.rs\<close>, \<open>process.rs\<close>), \<open>Notify\<close> the invalidation of caches across
    processes (\<open>db/notify.rs\<close>), \<open>Startup\<close> the modes, policy checks, supervision and shutdown (\<open>startup/mod.rs\<close>, \<open>main.rs\<close>).
  \<^item> Search: \<open>SearchSql\<close> (\<open>search/sql.rs\<close>), \<open>Ranking\<close>, \<open>SearchState\<close> (\<open>health.rs\<close>, \<open>search/query_cache.rs\<close>) and \<open>Search\<close>
    (\<open>search/mod.rs\<close>), with the embedding client \<open>Embed\<close> (\<open>embed/client.rs\<close>).

  \<^bold>\<open>How state, time and concurrency are modelled.\<close> Operations take the state and return it updated; failures are values of
  \<open>error + 'a\<close>, panics of the datatype \<open>run\<close>. Every outcome the program does not decide is an argument: clock
  readings, the answers of the network, the file system and the database (a fault per statement), the
  iteration order of hash maps, the order in which concurrent requests finish, and what other tasks did to
  shared state while an operation waited (\<open>between\<close>, \<open>others\<close>). Theorems quantify over them, so they hold for every
  interleaving at those points. Where several processes or callers run the same code, its steps are an inductive
  relation: the gate of the index build, the instance guards and the notifications. A database table is a list or
  a map of rows; an \<open>UPDATE\<close> is a guard and a
  change, and a transaction applies all of its statements or none.

  Code outside the crate is a parameter: the \<open>zim\<close>, \<open>url\<close>, \<open>ipnet\<close>, \<open>argon2\<close>, \<open>sha2\<close>, \<open>ring\<close>, \<open>quick_xml\<close>, \<open>base64\<close>, \<open>deformat\<close>, \<open>regex\<close> and \<open>chrono\<close>
  crates, HTTP transports, DNS, and Postgres' functions. What a theorem needs of one is a named hypothesis,
  and its witness instantiates it.

  \<^bold>\<open>Numbers, bounds and fuel.\<close> Integers have their width where the code relies on it (rate limiter, retry counters, stat
  stamps, settings); counts that stay far from their bounds are natural numbers or integers, as the text of
  the theory says. Floating-point values are exact rationals with the special values of IEEE 754 where they
  can occur. \<open>trim\<close> runs on fuel equal to the length of its input, one step per character at most. The other
  loops are total functions with measures: the redirect chain by its remaining hops, the \<open>LIKE\<close> matcher and
  the parsers by the length of the input, the drain of concurrent chunk requests by the tasks left, the
  indexing loop by the entries left and the chunking of a text by the bytes left. The claim loop of the embedding
  pipeline may run for ever in general, so it takes fuel: the rows without an embedding times the permits plus
  four, and one, are enough, as \<open>EmbedProgress\<close> proves. The endless loops of the poller, the background embedding and
  the listener are the definition of one round.

  \<^bold>\<open>What the lemmas show.\<close>
  \<^item> Access: the bucket never admits more than its budget; the gate admits only authorised requests and refines
    the lockout; client addresses cannot be forged past trusted proxies; cached verifications are sound.
  \<^item> Network: no address in the redirect chain is blocked, and the blocked ranges are exactly the table of networks.
  \<^item> Settings: the cache refines the decrypted table, writes are checked and authorised, listings hide secrets,
    snapshots are total and in range.
  \<^item> Downloads: the statements keep the invariants of the table, every row follows the lifecycle, cancellation
    is final, retries are bounded, the poller stays within its budget, a direct download installs exactly the
    bytes it verified, an installation is atomic, a completed torrent never overwrites or discards a file another row
    owns, and a restart keeps the partial files that can be resumed.
  \<^item> Library: a resync brings cache, table and files in line; handles match the files they were opened for;
    a restart restores the library; indexing is exact on success, loses nothing on failure and resumes soundly;
    the \<open>COPY\<close> text is read back as the rows that were written. Reads report every truncation, chunks cover the text,
    raw answers are the exact bytes, identified by their tags and sandboxed; picks of random articles are exactly the range.
  \<^item> Embedding: a run ends, stores for a row only the vector of its own text, and with a working endpoint leaves no new
    row without one; builds of the index are spaced, and a failed one is repaired.
  \<^item> Processes: one server per database, in every interleaving; caches catch up with the writes of other processes; a
    server on the network asks for a password.
  \<^item> Search: statements are parameterised and patterns literal; pages are windows of one merged ranking; a search
    fails only when no selected arm gets a connection; the query cache is a bounded queue.

  The locales are the interfaces several components share: \<open>kept_invariant\<close> (the step relations of downloads, tokens,
  index gate, instances and notifications), \<open>token_bucket\<close>, \<open>status_update\<close> (the contract of the lifecycle
  statements), \<open>evicting_map\<close> (lockout, token caches and open handles), \<open>viewed_store\<close> (a cache over a table) and
  \<open>pipe_invariant\<close> (what every step of an embedding run keeps). Each is interpreted on the definitions of the model.

  \<^bold>\<open>Not modelled, and why.\<close> The connection pool and the migrations (\<open>db/pool.rs\<close>, \<open>db/migrate.rs\<close>) are the environment of the
  components: their statements take faults and the work of other sessions as arguments. \<open>build_state\<close> and \<open>main.rs\<close> wire
  components together, spawn the loops and parse the command line. The remaining HTTP handlers, the diagnostics, the
  OpenAPI text, the web UI and the MCP server (\<open>serve/\<close>, \<open>mcp/\<close>) decode requests and build JSON around modelled operations;
  the gate in front of them is modelled. \<open>db/qid.rs\<close> is one query over the rows indexing writes. Index methods, text search and
  vector arithmetic belong to Postgres. Of the modelled files, logging, metrics, doc strings, the construction of
  HTTP clients and thread pools are left out, as no modelled behaviour depends on them.
\<close>

end
